(* ===== verification/C10d_Prelude.thy ===== *)
theory C10d_Prelude
  imports Main "HOL-Library.Word" "HOL-Library.AList" "HOL-Library.Multiset"
begin

text \<open>
  Shared vocabulary of the development: bytes and byte vectors, C++ exceptions as values,
  the state-and-exception commands in which stateful member functions are written,
  \<^verbatim>\<open>std::unordered_map\<close> as an association list with distinct keys, the decimal
  conversions \<^verbatim>\<open>std::to_string\<close>, \<^verbatim>\<open>std::stoll\<close> and \<^verbatim>\<open>std::stoi\<close>, and
  the little-endian images of fixed-width integers that the sockets and files carry.
\<close>

section \<open>Collections of facts\<close>

named_theorems cmd_simps \<open>unfolding equations of the state-and-exception commands\<close>
named_theorems umap_simps \<open>association lists read as maps\<close>
named_theorems wire_simps \<open>decoding what the encoders wrote\<close>

section \<open>Bytes, strings and exceptions\<close>

type_synonym byte = "8 word"
type_synonym bytes = "byte list"

text \<open>
  The C++ exceptions the modelled code can throw. \<open>System_error\<close> carries the
  \<^verbatim>\<open>errno\<close> value as a name; \<open>C10_error\<close> is what \<^verbatim>\<open>TORCH_CHECK\<close> throws and
  \<open>C10_assert\<close> what \<^verbatim>\<open>TORCH_INTERNAL_ASSERT\<close> throws. The message is the constant
  text the source starts it with. Two further values are not exceptions of the language:
  \<open>Undefined\<close> marks a step whose behaviour C++ leaves undefined (an index out of range
  of \<^verbatim>\<open>operator[]\<close>), and \<open>Blocked\<close> a call that has not returned.
\<close>

datatype exn =
    System_error string
  | Runtime_error string
  | Invalid_argument string
  | Out_of_range string
  | C10_error string
  | C10_assert string
  | Undefined
  | Blocked

type_synonym 'a res = "exn + 'a"

text \<open>\<^verbatim>\<open>reinterpret_cast\<close> between \<^verbatim>\<open>char\<close> and \<^verbatim>\<open>uint8_t\<close> buffers.\<close>

definition byte_of :: "char \<Rightarrow> byte" where
  "byte_of c = word_of_nat (of_char c)"

definition char_from :: "byte \<Rightarrow> char" where
  "char_from b = char_of (unat b)"

definition bytes_of :: "string \<Rightarrow> bytes" where
  "bytes_of s = map byte_of s"

definition string_of :: "bytes \<Rightarrow> string" where
  "string_of bs = map char_from bs"

section \<open>Commands: state passing with exceptions\<close>

text \<open>
  A member function that may throw is a function from the object's state to a result and
  the new state. The state is returned in the exceptional case too: what the code wrote
  before the throw stays written.
\<close>

type_synonym ('s, 'a) cmd = "'s \<Rightarrow> 'a res \<times> 's"

definition returnM :: "'a \<Rightarrow> ('s, 'a) cmd" where
  "returnM a = (\<lambda>s. (Inr a, s))"

definition throwM :: "exn \<Rightarrow> ('s, 'a) cmd" where
  "throwM e = (\<lambda>s. (Inl e, s))"

definition bindM :: "('s, 'a) cmd \<Rightarrow> ('a \<Rightarrow> ('s, 'b) cmd) \<Rightarrow> ('s, 'b) cmd" where
  "bindM m f = (\<lambda>s. case m s of (Inl e, s') \<Rightarrow> (Inl e, s') | (Inr a, s') \<Rightarrow> f a s')"

definition getM :: "('s \<Rightarrow> 'a) \<Rightarrow> ('s, 'a) cmd" where
  "getM f = (\<lambda>s. (Inr (f s), s))"

definition modifyM :: "('s \<Rightarrow> 's) \<Rightarrow> ('s, unit) cmd" where
  "modifyM f = (\<lambda>s. (Inr (), f s))"

definition checkM :: "bool \<Rightarrow> exn \<Rightarrow> ('s, unit) cmd" where
  "checkM b e = (if b then returnM () else throwM e)"

definition liftM :: "'a res \<Rightarrow> ('s, 'a) cmd" where
  "liftM r = (\<lambda>s. (r, s))"

definition bindE :: "'a res \<Rightarrow> ('a \<Rightarrow> 'b res) \<Rightarrow> 'b res" where
  "bindE r f = (case r of Inl e \<Rightarrow> Inl e | Inr a \<Rightarrow> f a)"

text \<open>A range-based \<^verbatim>\<open>for\<close> loop, left by the first exception.\<close>

primrec for_each :: "('a \<Rightarrow> ('s, unit) cmd) \<Rightarrow> 'a list \<Rightarrow> ('s, unit) cmd" where
  "for_each f [] = returnM ()"
| "for_each f (x # xs) = bindM (f x) (\<lambda>_. for_each f xs)"

primrec map_each :: "('a \<Rightarrow> ('s, 'b) cmd) \<Rightarrow> 'a list \<Rightarrow> ('s, 'b list) cmd" where
  "map_each f [] = returnM []"
| "map_each f (x # xs) = bindM (f x) (\<lambda>y. bindM (map_each f xs) (\<lambda>ys. returnM (y # ys)))"

section \<open>Futures\<close>

text \<open>
  A future of \<^verbatim>\<open>c10::ivalue::Future\<close>: setting one that is already set is an error of the
  library, which is recorded here. \<open>markCompleted\<close> and \<open>setError\<close> are the members of the class.
\<close>

datatype future = Pending | Completed | Failed string | Set_twice

fun markCompleted :: "future \<Rightarrow> future" where
  "markCompleted Pending = Completed"
| "markCompleted _ = Set_twice"

fun setError :: "string \<Rightarrow> future \<Rightarrow> future" where
  "setError e Pending = Failed e"
| "setError e _ = Set_twice"

section \<open>Unordered maps\<close>

text \<open>
  \<^verbatim>\<open>std::unordered_map\<close> is an association list whose keys are distinct
  (\<open>umap_wf\<close>): \<open>map_of\<close> is \<^verbatim>\<open>find\<close>, \<open>AList.update\<close> is \<^verbatim>\<open>m[k] = v\<close>,
  \<open>AList.delete\<close> is \<^verbatim>\<open>erase(k)\<close>, the length is \<^verbatim>\<open>size()\<close>.
\<close>

type_synonym ('k, 'v) umap = "('k \<times> 'v) list"

definition umap_wf :: "('k, 'v) umap \<Rightarrow> bool" where
  "umap_wf m \<longleftrightarrow> distinct (map fst m)"

definition umap_has :: "('k, 'v) umap \<Rightarrow> 'k \<Rightarrow> bool" where
  "umap_has m k = (map_of m k \<noteq> None)"

text \<open>\<^verbatim>\<open>operator[]\<close> read: an absent key is first inserted with the default value.\<close>

definition umap_at :: "'v \<Rightarrow> ('k, 'v) umap \<Rightarrow> 'k \<Rightarrow> 'v" where
  "umap_at d m k = (case map_of m k of None \<Rightarrow> d | Some v \<Rightarrow> v)"

section \<open>Decimal conversions of the standard library\<close>

definition digit_char :: "nat \<Rightarrow> char" where
  "digit_char n = char_of (48 + n)"

definition is_digit :: "char \<Rightarrow> bool" where
  "is_digit c \<longleftrightarrow> (48::nat) \<le> of_char c \<and> (of_char c :: nat) \<le> 57"

definition digit_val :: "char \<Rightarrow> nat" where
  "digit_val c = of_char c - 48"

definition is_space :: "char \<Rightarrow> bool" where
  "is_space c \<longleftrightarrow> (of_char c :: nat) = 32 \<or> ((9::nat) \<le> of_char c \<and> (of_char c :: nat) \<le> 13)"

fun nat_to_string :: "nat \<Rightarrow> string" where
  "nat_to_string n =
     (if n < 10 then [digit_char n] else nat_to_string (n div 10) @ [digit_char (n mod 10)])"

declare nat_to_string.simps [simp del]

definition to_string :: "int \<Rightarrow> string" where
  "to_string i =
     (if i < 0 then CHR ''-'' # nat_to_string (nat (- i)) else nat_to_string (nat i))"

definition digits_val :: "string \<Rightarrow> nat" where
  "digits_val ds = foldl (\<lambda>acc c. 10 * acc + digit_val c) 0 ds"

text \<open>
  \<^verbatim>\<open>strtoll\<close> in base ten: leading white space, an optional sign, the longest run of
  digits. No digits is \<^verbatim>\<open>std::invalid_argument\<close>, a value outside the result type is
  \<^verbatim>\<open>std::out_of_range\<close>.
\<close>

definition parse_decimal :: "int \<Rightarrow> int \<Rightarrow> string \<Rightarrow> string \<Rightarrow> int res" where
  "parse_decimal lo hi name s =
     (let s1 = dropWhile is_space s;
          neg = (s1 \<noteq> [] \<and> hd s1 = CHR ''-'');
          s2 = (if s1 \<noteq> [] \<and> (hd s1 = CHR ''-'' \<or> hd s1 = CHR ''+'') then tl s1 else s1);
          ds = takeWhile is_digit s2
      in if ds = [] then Inl (Invalid_argument name)
         else let v = (if neg then - int (digits_val ds) else int (digits_val ds))
              in if lo \<le> v \<and> v \<le> hi then Inr v else Inl (Out_of_range name))"

definition int64_min :: int where "int64_min = - (2 ^ 63)"
definition int64_max :: int where "int64_max = 2 ^ 63 - 1"

definition in_int64 :: "int \<Rightarrow> bool" where
  "in_int64 i \<longleftrightarrow> int64_min \<le> i \<and> i \<le> int64_max"

definition stoll :: "string \<Rightarrow> int res" where
  "stoll s = parse_decimal int64_min int64_max ''stoll'' s"

definition stoi :: "string \<Rightarrow> int res" where
  "stoi s = parse_decimal (- (2 ^ 31)) (2 ^ 31 - 1) ''stoi'' s"

text \<open>\<^verbatim>\<open>int64_t\<close> addition, wrapping around at the width of the type.\<close>

definition wrap64 :: "int \<Rightarrow> int" where
  "wrap64 i = sint (word_of_int i :: 64 word)"

definition add64 :: "int \<Rightarrow> int \<Rightarrow> int" where
  "add64 a b = wrap64 (a + b)"

definition worker_id_max :: int where "worker_id_max = 2 ^ 15 - 1"

text \<open>Conversion of an \<^verbatim>\<open>int64_t\<close> to \<^verbatim>\<open>worker_id_t\<close>, which is \<^verbatim>\<open>int16_t\<close>.\<close>

definition to_worker_id :: "int \<Rightarrow> int" where
  "to_worker_id i = sint (word_of_int i :: 16 word)"

text \<open>The bytes a counter is stored as: the decimal text of its value.\<close>

definition num_bytes :: "int \<Rightarrow> bytes" where
  "num_bytes i = bytes_of (to_string i)"

section \<open>Little-endian images\<close>

fun nat_to_le :: "nat \<Rightarrow> nat \<Rightarrow> bytes" where
  "nat_to_le 0 x = []"
| "nat_to_le (Suc k) x = word_of_nat (x mod 256) # nat_to_le k (x div 256)"

fun le_to_nat :: "bytes \<Rightarrow> nat" where
  "le_to_nat [] = 0"
| "le_to_nat (b # bs) = unat b + 256 * le_to_nat bs"

definition u64_bytes :: "64 word \<Rightarrow> bytes" where
  "u64_bytes w = nat_to_le 8 (unat w)"

definition bytes_u64 :: "bytes \<Rightarrow> 64 word" where
  "bytes_u64 bs = word_of_nat (le_to_nat bs)"

definition i64_bytes :: "int \<Rightarrow> bytes" where
  "i64_bytes i = u64_bytes (word_of_int i)"

definition bytes_i64 :: "bytes \<Rightarrow> int" where
  "bytes_i64 bs = sint (bytes_u64 bs)"

definition u32_bytes :: "32 word \<Rightarrow> bytes" where
  "u32_bytes w = nat_to_le 4 (unat w)"

definition bytes_u32 :: "bytes \<Rightarrow> 32 word" where
  "bytes_u32 bs = word_of_nat (le_to_nat bs)"

section \<open>Lemmas on commands\<close>

lemma returnM_apply [simp, cmd_simps]: "returnM a s = (Inr a, s)"
  by (simp add: returnM_def)

lemma throwM_apply [simp, cmd_simps]: "throwM e s = (Inl e, s)"
  by (simp add: throwM_def)

lemma getM_apply [simp, cmd_simps]: "getM f s = (Inr (f s), s)"
  by (simp add: getM_def)

lemma modifyM_apply [simp, cmd_simps]: "modifyM f s = (Inr (), f s)"
  by (simp add: modifyM_def)

lemma liftM_apply [simp, cmd_simps]: "liftM r s = (r, s)"
  by (simp add: liftM_def)

lemma checkM_apply [simp, cmd_simps]: "checkM b e s = (if b then (Inr (), s) else (Inl e, s))"
  by (simp add: checkM_def)

lemma bindM_apply [cmd_simps]:
  "bindM m f s = (case m s of (Inl e, s') \<Rightarrow> (Inl e, s') | (Inr a, s') \<Rightarrow> f a s')"
  by (simp add: bindM_def)

lemma bindM_Inr: "m s = (Inr a, s') \<Longrightarrow> bindM m f s = f a s'"
  by (simp add: bindM_def)

lemma bindM_Inl: "m s = (Inl e, s') \<Longrightarrow> bindM m f s = (Inl e, s')"
  by (simp add: bindM_def)

lemma bindM_InrE:
  assumes "bindM m f s = (Inr b, s')"
  obtains a s1 where "m s = (Inr a, s1)" "f a s1 = (Inr b, s')"
  using assms by (auto simp: bindM_def split: prod.splits sum.splits)

lemma bindM_return: "bindM m (\<lambda>_. returnM ()) = m"
  by (auto simp: bindM_def fun_eq_iff split: prod.splits sum.splits)

lemma for_each_append: "for_each f (xs @ ys) = bindM (for_each f xs) (\<lambda>_. for_each f ys)"
  by (induction xs) (auto simp: bindM_def fun_eq_iff split: prod.splits sum.splits)

lemma for_each_map: "for_each f (map g xs) = for_each (\<lambda>x. f (g x)) xs"
  by (induction xs) simp_all

text \<open>A loop that succeeds and establishes a property of ever more things.\<close>

lemma for_each_collects:
  assumes step: "\<And>x A s. x \<in> set xs \<Longrightarrow> I A s \<Longrightarrow> \<exists>s'. f x s = (Inr (), s') \<and> I (A \<union> h x) s'" and "I A s"
  shows "\<exists>s'. for_each f xs s = (Inr (), s') \<and> I (A \<union> (\<Union>x\<in>set xs. h x)) s'"
  using assms
proof (induction xs arbitrary: A s)
  case (Cons x xs)
  obtain s1 where s1: "f x s = (Inr (), s1)" "I (A \<union> h x) s1" using Cons.prems(1) [of x, OF _ Cons.prems(2)] by auto
  have "\<exists>s'. for_each f xs s1 = (Inr (), s') \<and> I (A \<union> h x \<union> (\<Union>x\<in>set xs. h x)) s'"
    by (rule Cons.IH [OF Cons.prems(1) s1(2)]) auto
  then show ?case using s1(1) by (auto simp: bindM_def Un_assoc)
qed (auto simp: returnM_def)

lemma bindE_simps [simp]: "bindE (Inl e) f = Inl e" "bindE (Inr a) f = f a"
  by (simp_all add: bindE_def)

text \<open>
  \<open>keepsM f m\<close>: the command leaves the part \<open>f\<close> of the state as it was, also when it throws.
\<close>

definition keepsM :: "('s \<Rightarrow> 'b) \<Rightarrow> ('s, 'a) cmd \<Rightarrow> bool" where
  "keepsM f m \<longleftrightarrow> (\<forall>s. f (snd (m s)) = f s)"

lemma keepsM_I [intro]:
  "keepsM f (returnM a)" "keepsM f (throwM e)" "keepsM f (getM g)" "keepsM f (liftM r)" "keepsM f (checkM b e)"
  by (simp_all add: keepsM_def)

lemma keepsM_Pair [simp]: "keepsM f (Pair r)"
  by (simp add: keepsM_def)

lemma keepsM_modify [intro]: "(\<And>s. f (g s) = f s) \<Longrightarrow> keepsM f (modifyM g)"
  by (simp add: keepsM_def)

lemma keepsM_bind [intro]: "keepsM f m \<Longrightarrow> (\<And>a. keepsM f (k a)) \<Longrightarrow> keepsM f (bindM m k)"
  by (auto simp: keepsM_def bindM_def split: prod.splits sum.splits) (metis snd_conv)+

lemma keepsM_if [intro]: "keepsM f m \<Longrightarrow> keepsM f m' \<Longrightarrow> keepsM f (if b then m else m')"
  by simp

lemma keepsM_option [intro]:
  "keepsM f m \<Longrightarrow> (\<And>x. keepsM f (k x)) \<Longrightarrow> keepsM f (case v of None \<Rightarrow> m | Some x \<Rightarrow> k x)"
  by (simp split: option.split)

lemma keepsM_for_each [intro]: "(\<And>x. keepsM f (g x)) \<Longrightarrow> keepsM f (for_each g xs)"
  by (induction xs) auto

lemma keepsM_D: "keepsM f m \<Longrightarrow> m s = (r, s') \<Longrightarrow> f s' = f s"
  by (metis keepsM_def snd_conv)

lemma map_update_same: "g x = g (xs ! i) \<Longrightarrow> map g (xs[i := x]) = map g xs"
  by (cases "i < length xs") (simp_all add: map_update list_update_same_conv list_update_beyond)

lemma upt_Suc_map: "[0..<Suc m] = 0 # map Suc [0..<m]"
  by (simp add: map_Suc_upt upt_conv_Cons del: upt_Suc)

section \<open>Lemmas on unordered maps\<close>

lemma map_of_update [simp, umap_simps]: "map_of (AList.update k v m) = (map_of m)(k \<mapsto> v)"
  by (rule update_conv')

lemma map_of_delete [simp, umap_simps]: "map_of (AList.delete k m) = (map_of m)(k := None)"
  by (rule delete_conv')

lemma alist_update_same: "map_of m k = Some v \<Longrightarrow> AList.update k v m = m"
  by (induction m) (auto split: if_splits)

lemma umap_wf_Nil [simp]: "umap_wf []"
  by (simp add: umap_wf_def)

lemma umap_wf_update [simp]: "umap_wf m \<Longrightarrow> umap_wf (AList.update k v m)"
  by (simp add: umap_wf_def distinct_update)

lemma umap_wf_delete [simp]: "umap_wf m \<Longrightarrow> umap_wf (AList.delete k m)"
  by (simp add: umap_wf_def distinct_delete)

lemma umap_has_iff [simp]: "umap_has m k \<longleftrightarrow> (\<exists>v. map_of m k = Some v)"
  by (auto simp: umap_has_def)

lemma umap_at_Some: "map_of m k = Some v \<Longrightarrow> umap_at d m k = v"
  by (simp add: umap_at_def)

lemma umap_at_None: "map_of m k = None \<Longrightarrow> umap_at d m k = d"
  by (simp add: umap_at_def)

lemma umap_at_update [simp]:
  "umap_at e (AList.update k v m) k' = (if k' = k then v else umap_at e m k')"
  by (simp add: umap_at_def)

lemma umap_size_card: "umap_wf m \<Longrightarrow> length m = card (dom (map_of m))"
  by (metis umap_wf_def distinct_card dom_map_of_conv_image_fst length_map set_map)

section \<open>Lemmas on the decimal conversions\<close>

lemma char_from_byte_of [simp]: "char_from (byte_of c) = c"
  by (simp add: char_from_def byte_of_def unat_of_nat)

lemma byte_of_char_from [simp]: "byte_of (char_from b) = b"
proof -
  have "unat b mod 256 = unat b" using unsigned_less [of b, where ?'a = nat] by simp
  then show ?thesis by (simp add: char_from_def byte_of_def)
qed

lemma string_of_bytes_of [simp]: "string_of (bytes_of s) = s"
  by (induction s) (simp_all add: string_of_def bytes_of_def)

lemma bytes_of_string_of [simp]: "bytes_of (string_of bs) = bs"
  by (induction bs) (simp_all add: string_of_def bytes_of_def)

lemma length_bytes_of [simp]: "length (bytes_of s) = length s"
  by (simp add: bytes_of_def)

lemma length_string_of [simp]: "length (string_of bs) = length bs"
  by (simp add: string_of_def)

lemma of_digit_char: "n < 10 \<Longrightarrow> (of_char (digit_char n) :: nat) = 48 + n"
  by (simp add: digit_char_def of_char_of)

lemma digit_val_digit_char [simp]: "n < 10 \<Longrightarrow> digit_val (digit_char n) = n"
  by (simp add: digit_val_def of_digit_char)

lemma is_digit_digit_char [simp]: "n < 10 \<Longrightarrow> is_digit (digit_char n)"
  by (simp add: is_digit_def of_digit_char)

lemma digits_val_snoc: "digits_val (ds @ [c]) = 10 * digits_val ds + digit_val c"
  by (simp add: digits_val_def)

lemma nat_to_string_ne [simp]: "nat_to_string n \<noteq> []"
  by (subst nat_to_string.simps) simp

lemma nat_to_string_digits: "c \<in> set (nat_to_string n) \<Longrightarrow> is_digit c"
proof (induction n rule: nat_to_string.induct)
  case (1 n)
  then show ?case by (subst (asm) nat_to_string.simps) (auto split: if_splits)
qed

lemma digits_val_nat_to_string [simp]: "digits_val (nat_to_string n) = n"
proof (induction n rule: nat_to_string.induct)
  case (1 n)
  show ?case
  proof (cases "n < 10")
    case True
    then show ?thesis by (subst nat_to_string.simps) (simp add: digits_val_def)
  next
    case False
    with 1 show ?thesis by (subst nat_to_string.simps) (simp add: digits_val_snoc)
  qed
qed

lemma length_nat_to_string: "n < 10 ^ k \<Longrightarrow> 0 < k \<Longrightarrow> length (nat_to_string n) \<le> k"
proof (induction n arbitrary: k rule: nat_to_string.induct)
  case (1 n)
  show ?case
  proof (cases "n < 10")
    case True
    with "1.prems" show ?thesis by (subst nat_to_string.simps) simp
  next
    case False
    with "1.prems" have "1 < k" by (cases k; cases "k - 1") auto
    then obtain j where k: "k = Suc j" and j: "0 < j" by (cases k) auto
    have "n div 10 < 10 ^ j"
      using "1.prems" k by (simp add: div_less_iff_less_mult mult.commute)
    then have "length (nat_to_string (n div 10)) \<le> j"
      using "1.IH" False j by blast
    with False k show ?thesis by (subst nat_to_string.simps) simp
  qed
qed

lemma digit_not_special: "is_digit c \<Longrightarrow> \<not> is_space c \<and> c \<noteq> CHR ''-'' \<and> c \<noteq> CHR ''+''"
  by (auto simp: is_digit_def is_space_def)

lemma takeWhile_digits [simp]: "takeWhile is_digit (nat_to_string n) = nat_to_string n"
  by (meson nat_to_string_digits takeWhile_eq_all_conv)

lemma hd_nat_to_string: "is_digit (hd (nat_to_string n))"
  by (meson hd_in_set nat_to_string_digits nat_to_string_ne)

lemma dropWhile_space_digits [simp]: "dropWhile is_space (nat_to_string n) = nat_to_string n"
  using digit_not_special [OF hd_nat_to_string [of n]] by (cases "nat_to_string n") auto

lemma parse_decimal_to_string:
  assumes "lo \<le> i" and "i \<le> hi"
  shows "parse_decimal lo hi nm (to_string i) = Inr i"
proof (cases "i < 0")
  case True
  have "\<not> is_space (CHR ''-'')" by (simp add: is_space_def)
  with True assms show ?thesis by (simp add: parse_decimal_def to_string_def Let_def)
next
  case False
  have "hd (nat_to_string (nat i)) \<noteq> CHR ''-''" "hd (nat_to_string (nat i)) \<noteq> CHR ''+''"
    using digit_not_special [OF hd_nat_to_string] by blast+
  with False assms show ?thesis by (simp add: parse_decimal_def to_string_def Let_def)
qed

lemma stoi_to_string [simp]: "- (2 ^ 31) \<le> i \<Longrightarrow> i < 2 ^ 31 \<Longrightarrow> stoi (to_string i) = Inr i"
  by (simp add: stoi_def parse_decimal_to_string)

lemma stoll_to_string [simp]: "in_int64 i \<Longrightarrow> stoll (to_string i) = Inr i"
  by (simp add: stoll_def in_int64_def parse_decimal_to_string)

lemma length_to_string: "in_int64 i \<Longrightarrow> length (to_string i) \<le> 20"
  using length_nat_to_string [of "nat i" 19] length_nat_to_string [of "nat (- i)" 19]
  by (auto simp: to_string_def in_int64_def int64_min_def int64_max_def nat_less_iff)

lemma to_string_ne [simp]: "to_string i \<noteq> []"
  by (simp add: to_string_def)

lemma string_of_num_bytes [simp]: "string_of (num_bytes i) = to_string i"
  by (simp add: num_bytes_def)

lemma num_bytes_ne [simp]: "num_bytes i \<noteq> []"
  by (simp add: num_bytes_def bytes_of_def)

lemma length_num_bytes: "in_int64 i \<Longrightarrow> length (num_bytes i) \<le> 20"
  by (simp add: num_bytes_def length_to_string)

lemma wrap64_id: "in_int64 i \<Longrightarrow> wrap64 i = i"
  by (simp add: wrap64_def in_int64_def int64_min_def int64_max_def
        sint_sbintrunc' signed_take_bit_int_eq_self)

lemma wrap64_Suc: "0 \<le> n \<Longrightarrow> n < int64_max \<Longrightarrow> wrap64 (n + 1) = n + 1"
  by (rule wrap64_id) (simp add: in_int64_def int64_min_def int64_max_def)

lemma in_int64_wrap64 [simp]: "in_int64 (wrap64 i)"
proof -
  have "- (2 ^ 63) \<le> sint (word_of_int i :: 64 word)" "sint (word_of_int i :: 64 word) < 2 ^ 63"
    using sint_ge [of "word_of_int i :: 64 word"] sint_lt [of "word_of_int i :: 64 word"] by simp_all
  then show ?thesis by (simp add: wrap64_def in_int64_def int64_min_def int64_max_def)
qed

lemma in_int64_add64 [simp]: "in_int64 (add64 a b)"
  by (simp add: add64_def)

section \<open>Lemmas on the little-endian images\<close>

lemma length_nat_to_le [simp]: "length (nat_to_le k x) = k"
  by (induction k arbitrary: x) simp_all

lemma le_to_nat_to_le: "le_to_nat (nat_to_le k x) = x mod 256 ^ k"
proof (induction k arbitrary: x)
  case 0
  then show ?case by simp
next
  case (Suc k)
  have "x mod 256 + 256 * (x div 256 mod 256 ^ k) = x mod 256 ^ Suc k"
    by (simp add: mod_mult2_eq)
  with Suc show ?case by (simp add: unat_of_nat)
qed

lemma length_u64_bytes [simp]: "length (u64_bytes w) = 8"
  by (simp add: u64_bytes_def)

lemma length_i64_bytes [simp]: "length (i64_bytes i) = 8"
  by (simp add: i64_bytes_def)

lemma length_u32_bytes [simp]: "length (u32_bytes w) = 4"
  by (simp add: u32_bytes_def)

lemma bytes_u64_u64_bytes [simp, wire_simps]: "bytes_u64 (u64_bytes w) = w"
proof -
  have "unat w < 2 ^ 64" using unsigned_less [of w] by simp
  then show ?thesis by (simp add: bytes_u64_def u64_bytes_def le_to_nat_to_le)
qed

lemma bytes_u32_u32_bytes [simp, wire_simps]: "bytes_u32 (u32_bytes w) = w"
proof -
  have "unat w < 2 ^ 32" using unsigned_less [of w] by simp
  then show ?thesis by (simp add: bytes_u32_def u32_bytes_def le_to_nat_to_le)
qed

lemma bytes_i64_i64_bytes [simp, wire_simps]: "bytes_i64 (i64_bytes i) = wrap64 i"
  by (simp add: bytes_i64_def i64_bytes_def wrap64_def)

lemma unat_word64_of_nat [simp]: "n < 2 ^ 64 \<Longrightarrow> unat (word_of_nat n :: 64 word) = n"
  by (simp add: unat_of_nat)

lemma word64_of_nat_eq_1:
  assumes "n < 2 ^ 64"
  shows "(word_of_nat n :: 64 word) = 1 \<longleftrightarrow> n = 1"
  using unat_word64_of_nat [OF assms] by (metis of_nat_1 unsigned_1)

lemma word64_of_nat_eq_0:
  assumes "n < 2 ^ 64"
  shows "(word_of_nat n :: 64 word) = 0 \<longleftrightarrow> n = 0"
proof
  assume "(word_of_nat n :: 64 word) = 0"
  then have "unat (word_of_nat n :: 64 word) = 0" by simp
  with unat_word64_of_nat [OF assms] show "n = 0" by simp
qed simp

end
