(* ===== verification/Store_Interface.thy ===== *)
theory Store_Interface
  imports C10d_Prelude "HOL-Library.Sublist"
begin

text \<open>
  The contract of \<^verbatim>\<open>c10d::Store\<close> (\<^verbatim>\<open>Store.hpp\<close>) that its clients rely on, as a
  locale over the operations \<^verbatim>\<open>set\<close>, \<^verbatim>\<open>get\<close>, \<^verbatim>\<open>add\<close> and \<^verbatim>\<open>check\<close>,
  its extension by \<^verbatim>\<open>deleteKey\<close>, what clients get from it (read your writes, counters that
  hand out consecutive ranks), and \<^verbatim>\<open>PrefixStore\<close> (\<^verbatim>\<open>PrefixStore.cpp\<close>), which is
  a store over any store. \<^verbatim>\<open>HashStore\<close>, \<^verbatim>\<open>TCPStore\<close> and \<^verbatim>\<open>FileStore\<close> interpret
  the locale in their own theories.
\<close>

section \<open>The abstract content of a store\<close>

type_synonym content = "string \<Rightarrow> bytes option"

text \<open>
  \<open>counter_at m k n\<close>: the key holds the decimal text of \<open>n\<close>, or nothing and \<open>n\<close> is 0.
\<close>

definition counter_at :: "content \<Rightarrow> string \<Rightarrow> int \<Rightarrow> bool" where
  "counter_at m k n \<longleftrightarrow> in_int64 n \<and> (case m k of None \<Rightarrow> n = 0 | Some b \<Rightarrow> b = num_bytes n)"

text \<open>Runs of \<^verbatim>\<open>set\<close> and of \<^verbatim>\<open>add\<close> calls as a client issues them, in order.\<close>

fun run_sets :: "(string \<Rightarrow> bytes \<Rightarrow> ('s, unit) cmd) \<Rightarrow> (string \<times> bytes) list \<Rightarrow> 's \<Rightarrow> 's" where
  "run_sets setf [] s = s"
| "run_sets setf ((k, v) # kvs) s = run_sets setf kvs (snd (setf k v s))"

fun run_adds :: "(string \<Rightarrow> int \<Rightarrow> ('s, int) cmd) \<Rightarrow> string \<Rightarrow> int list \<Rightarrow> 's \<Rightarrow> int res list \<times> 's" where
  "run_adds addf k [] s = ([], s)"
| "run_adds addf k (i # is) s =
     (case addf k i s of (r, s') \<Rightarrow>
        case run_adds addf k is s' of (rs, s'') \<Rightarrow> (r # rs, s''))"

text \<open>The timeouts of \<^verbatim>\<open>Store.hpp\<close>, in milliseconds.\<close>

definition kDefaultTimeout :: int where "kDefaultTimeout = 300000"
definition kNoTimeout :: int where "kNoTimeout = 0"

section \<open>PrefixStore\<close>

text \<open>
  A \<^verbatim>\<open>PrefixStore\<close> holds its prefix and a pointer to another store: each operation is a
  function of the prefix and of the operation of that store.
\<close>

definition joinKey :: "string \<Rightarrow> string \<Rightarrow> string" where
  "joinKey pre key = pre @ ''/'' @ key"

fun joinKeys :: "string \<Rightarrow> string list \<Rightarrow> string list" where
  "joinKeys pre [] = []"
| "joinKeys pre (key # keys) = joinKey pre key # joinKeys pre keys"

definition prefix_set :: "string \<Rightarrow> (string \<Rightarrow> bytes \<Rightarrow> ('s, unit) cmd) \<Rightarrow> string \<Rightarrow> bytes \<Rightarrow> ('s, unit) cmd" where
  "prefix_set pre setf key val = setf (joinKey pre key) val"

definition prefix_get :: "string \<Rightarrow> (string \<Rightarrow> ('s, bytes) cmd) \<Rightarrow> string \<Rightarrow> ('s, bytes) cmd" where
  "prefix_get pre getf key = getf (joinKey pre key)"

definition prefix_add :: "string \<Rightarrow> (string \<Rightarrow> int \<Rightarrow> ('s, int) cmd) \<Rightarrow> string \<Rightarrow> int \<Rightarrow> ('s, int) cmd" where
  "prefix_add pre addf key val = addf (joinKey pre key) val"

definition prefix_deleteKey :: "string \<Rightarrow> (string \<Rightarrow> ('s, bool) cmd) \<Rightarrow> string \<Rightarrow> ('s, bool) cmd" where
  "prefix_deleteKey pre delf key = delf (joinKey pre key)"

definition prefix_getNumKeys :: "('s, int) cmd \<Rightarrow> ('s, int) cmd" where
  "prefix_getNumKeys numf = numf"

definition prefix_check :: "string \<Rightarrow> (string list \<Rightarrow> ('s, bool) cmd) \<Rightarrow> string list \<Rightarrow> ('s, bool) cmd" where
  "prefix_check pre checkf keys = checkf (joinKeys pre keys)"

definition prefix_wait :: "string \<Rightarrow> (string list \<Rightarrow> ('s, unit) cmd) \<Rightarrow> string list \<Rightarrow> ('s, unit) cmd" where
  "prefix_wait pre waitf keys = waitf (joinKeys pre keys)"

definition prefix_wait_timeout ::
    "string \<Rightarrow> (string list \<Rightarrow> int \<Rightarrow> ('s, unit) cmd) \<Rightarrow> string list \<Rightarrow> int \<Rightarrow> ('s, unit) cmd" where
  "prefix_wait_timeout pre waitf keys timeout = waitf (joinKeys pre keys) timeout"

text \<open>What a \<^verbatim>\<open>PrefixStore\<close> shows of the store below it.\<close>

definition prefix_view :: "string \<Rightarrow> ('s \<Rightarrow> content) \<Rightarrow> 's \<Rightarrow> content" where
  "prefix_view pre view s = (\<lambda>key. view s (joinKey pre key))"

lemma joinKeys_map: "joinKeys p ks = map (joinKey p) ks"
  by (induction ks) simp_all

lemma length_joinKeys [simp]: "length (joinKeys p ks) = length ks"
  by (simp add: joinKeys_map)

lemma joinKey_inject [simp]: "joinKey p k = joinKey p k' \<longleftrightarrow> k = k'"
  by (simp add: joinKey_def)

lemma joinKey_disjoint:
  assumes "\<not> prefix (p @ ''/'') (q @ ''/'')" and "\<not> prefix (q @ ''/'') (p @ ''/'')"
  shows "joinKey p k \<noteq> joinKey q k'"
proof
  assume "joinKey p k = joinKey q k'"
  then have "(p @ ''/'') @ k = (q @ ''/'') @ k'" by (simp add: joinKey_def)
  then have "prefix (p @ ''/'') (q @ ''/'') \<or> prefix (q @ ''/'') (p @ ''/'')"
    by (metis prefixI prefix_same_cases)
  with assms show False by blast
qed

lemma prefix_view_update:
  "view s' = (view s)(joinKey p k \<mapsto> v) \<Longrightarrow> prefix_view p view s' = (prefix_view p view s)(k \<mapsto> v)"
  by (auto simp: prefix_view_def)

lemma counter_at_prefix: "counter_at (prefix_view p view s) k n \<longleftrightarrow> counter_at (view s) (joinKey p k) n"
  by (simp add: counter_at_def prefix_view_def)

section \<open>The contract\<close>

locale store =
  fixes inv :: "'s \<Rightarrow> bool"
    and view :: "'s \<Rightarrow> content"
    and key_ok :: "string \<Rightarrow> bool"
    and val_ok :: "bytes \<Rightarrow> bool"
    and setf :: "string \<Rightarrow> bytes \<Rightarrow> ('s, unit) cmd"
    and getf :: "string \<Rightarrow> ('s, bytes) cmd"
    and addf :: "string \<Rightarrow> int \<Rightarrow> ('s, int) cmd"
    and checkf :: "string list \<Rightarrow> ('s, bool) cmd"
  assumes val_ok_num: "in_int64 n \<Longrightarrow> val_ok (num_bytes n)"
    and set_law: "inv s \<Longrightarrow> key_ok k \<Longrightarrow> val_ok v \<Longrightarrow>
          \<exists>s'. setf k v s = (Inr (), s') \<and> inv s' \<and> view s' = (view s)(k \<mapsto> v)"
    and get_law: "inv s \<Longrightarrow> key_ok k \<Longrightarrow> view s k = Some v \<Longrightarrow>
          \<exists>s'. getf k s = (Inr v, s') \<and> inv s' \<and> view s' = view s"
    and add_law: "inv s \<Longrightarrow> key_ok k \<Longrightarrow> counter_at (view s) k n \<Longrightarrow> in_int64 i \<Longrightarrow>
          \<exists>s'. addf k i s = (Inr (add64 n i), s') \<and> inv s' \<and>
               view s' = (view s)(k \<mapsto> num_bytes (add64 n i))"
    and check_law: "inv s \<Longrightarrow> list_all key_ok ks \<Longrightarrow> length ks < 2 ^ 64 \<Longrightarrow>
          \<exists>s'. checkf ks s = (Inr (list_all (\<lambda>k. view s k \<noteq> None) ks), s') \<and> inv s' \<and> view s' = view s"
begin

lemma set_get:
  assumes "inv s" and "key_ok k" and "val_ok v"
  shows "fst (getf k (snd (setf k v s))) = Inr v"
proof -
  from set_law [OF assms] obtain s' where
    s': "setf k v s = (Inr (), s')" "inv s'" "view s' = (view s)(k \<mapsto> v)" by blast
  from get_law [OF s'(2) assms(2), of v] s'(3) obtain s'' where "getf k s' = (Inr v, s'')"
    by auto
  with s'(1) show ?thesis by simp
qed

lemma set_get_other:
  assumes "inv s" and "key_ok k" and "val_ok v" and "key_ok j" and "j \<noteq> k" and "view s j = Some u"
  shows "fst (getf j (snd (setf k v s))) = Inr u"
proof -
  from set_law [OF assms(1-3)] obtain s' where
    s': "setf k v s = (Inr (), s')" "inv s'" "view s' = (view s)(k \<mapsto> v)" by blast
  from get_law [OF s'(2) assms(4), of u] s'(3) assms(5,6) obtain s'' where "getf j s' = (Inr u, s'')"
    by auto
  with s'(1) show ?thesis by simp
qed

lemma run_sets_view:
  assumes "inv s" and "list_all (\<lambda>(k, v). key_ok k \<and> val_ok v) kvs"
  shows "inv (run_sets setf kvs s) \<and> view (run_sets setf kvs s) = (view s) ++ map_of (rev kvs)"
  using assms
proof (induction kvs arbitrary: s)
  case Nil
  then show ?case by simp
next
  case (Cons kv kvs)
  obtain k v where kv: "kv = (k, v)" by force
  from Cons.prems kv set_law [of s k v] obtain s' where
    s': "setf k v s = (Inr (), s')" "inv s'" "view s' = (view s)(k \<mapsto> v)" by auto
  from Cons.IH [OF s'(2)] Cons.prems(2)
  have "inv (run_sets setf kvs s') \<and> view (run_sets setf kvs s') = view s' ++ map_of (rev kvs)"
    by simp
  then have "inv (run_sets setf kvs s') \<and> view (run_sets setf kvs s') = (view s)(k \<mapsto> v) ++ map_of (rev kvs)"
    by (simp only: s'(3))
  then show ?case using kv s'(1) by (simp add: map_add_def fun_eq_iff split: option.splits)
qed

lemma run_sets_get:
  assumes "inv s" and "list_all (\<lambda>(k, v). key_ok k \<and> val_ok v) kvs" and "key_ok k" and "map_of (rev kvs) k = Some v"
  shows "fst (getf k (run_sets setf kvs s)) = Inr v"
proof -
  let ?t = "run_sets setf kvs s"
  from run_sets_view [OF assms(1,2)] have t: "inv ?t" "view ?t = (view s) ++ map_of (rev kvs)" by auto
  have "view ?t k = Some v" using assms(4) by (simp add: t(2) map_add_def)
  from get_law [OF t(1) assms(3) this] show ?thesis by auto
qed

lemma check_after_sets:
  assumes "inv s" and "list_all (\<lambda>(k, v). key_ok k \<and> val_ok v) kvs" and "length kvs < 2 ^ 64"
  shows "fst (checkf (map fst kvs) (run_sets setf kvs s)) = Inr True"
proof -
  let ?t = "run_sets setf kvs s"
  from run_sets_view [OF assms(1,2)] have t: "inv ?t" "view ?t = (view s) ++ map_of (rev kvs)" by auto
  have keys: "list_all key_ok (map fst kvs)" using assms(2) by (auto simp: list_all_iff)
  from check_law [OF t(1) keys] assms(3) obtain t' where
    "checkf (map fst kvs) ?t = (Inr (list_all (\<lambda>k. view ?t k \<noteq> None) (map fst kvs)), t')" by auto
  moreover have "list_all (\<lambda>k. view ?t k \<noteq> None) (map fst kvs)"
    by (auto simp: list_all_iff t(2) map_add_def map_of_eq_None_iff image_iff split: option.splits)
  ultimately show ?thesis by simp
qed

lemma adds_consecutive:
  assumes "inv s" and "key_ok k" and "counter_at (view s) k n" and "n + int m \<le> int64_max"
  shows "fst (run_adds addf k (replicate m 1) s) = map (\<lambda>j. Inr (n + 1 + int j)) [0..<m]"
  using assms
proof (induction m arbitrary: s n)
  case 0
  then show ?case by simp
next
  case (Suc m)
  have n1: "add64 n 1 = n + 1"
    using Suc.prems(3,4) by (simp add: add64_def counter_at_def wrap64_id in_int64_def int64_min_def)
  have "in_int64 1" by (simp add: in_int64_def int64_min_def int64_max_def)
  from add_law [OF Suc.prems(1-3) this] n1 obtain s' where
    s': "addf k 1 s = (Inr (n + 1), s')" "inv s'" "view s' = (view s)(k \<mapsto> num_bytes (n + 1))" by auto
  have "counter_at (view s') k (n + 1)"
    using s'(3) n1 in_int64_add64 [of n 1] by (simp add: counter_at_def)
  from Suc.IH [OF s'(2) Suc.prems(2) this] Suc.prems(4)
  have IH: "fst (run_adds addf k (replicate m 1) s') = map (\<lambda>j. Inr (n + 1 + 1 + int j)) [0..<m]" by simp
  with s'(1) show ?case by (simp add: upt_Suc_map split_def comp_def algebra_simps del: upt_Suc)
qed

text \<open>A \<^verbatim>\<open>PrefixStore\<close> over a store is a store.\<close>

lemma prefix_is_store:
  "store inv (prefix_view p view) (\<lambda>k. key_ok (joinKey p k)) val_ok
     (prefix_set p setf) (prefix_get p getf) (prefix_add p addf) (prefix_check p checkf)"
proof (unfold_locales, goal_cases)
  case (1 n) then show ?case by (rule val_ok_num)
next
  case (2 s k v)
  from set_law [OF this] show ?case by (auto simp: prefix_set_def intro: prefix_view_update)
next
  case (3 s k v)
  then have "view s (joinKey p k) = Some v" by (simp add: prefix_view_def)
  from get_law [OF 3(1,2) this] show ?case by (auto simp: prefix_get_def prefix_view_def)
next
  case (4 s k n i)
  from 4(3) have "counter_at (view s) (joinKey p k) n" by (simp add: counter_at_prefix)
  from add_law [OF 4(1,2) this 4(4)] show ?case by (auto simp: prefix_add_def intro: prefix_view_update)
next
  case (5 s ks)
  from check_law [OF 5(1), of "joinKeys p ks"] 5(2,3) show ?case
    by (auto simp: prefix_check_def joinKeys_map list_all_iff prefix_view_def)
qed

end

locale store_del = store +
  fixes delf :: "string \<Rightarrow> ('a, bool) cmd"
  assumes del_law: "inv s \<Longrightarrow> key_ok k \<Longrightarrow>
          \<exists>s'. delf k s = (Inr (view s k \<noteq> None), s') \<and> inv s' \<and> view s' = (view s)(k := None)"
begin

lemma set_delete_check:
  assumes "inv s" and "key_ok k" and "val_ok v"
  shows "fst (delf k (snd (setf k v s))) = Inr True"
    and "fst (checkf [k] (snd (delf k (snd (setf k v s))))) = Inr False"
proof -
  from set_law [OF assms] obtain s' where
    s': "setf k v s = (Inr (), s')" "inv s'" "view s' = (view s)(k \<mapsto> v)" by blast
  from del_law [OF s'(2) assms(2)] s'(3) obtain t where
    t: "delf k s' = (Inr True, t)" "inv t" "view t = (view s')(k := None)" by auto
  from check_law [OF t(2), of "[k]"] assms(2) t(3) obtain t' where "checkf [k] t = (Inr False, t')"
    by auto
  with s'(1) t(1) show "fst (delf k (snd (setf k v s))) = Inr True"
    and "fst (checkf [k] (snd (delf k (snd (setf k v s))))) = Inr False" by simp_all
qed

end

end
