(* ===== verification/HashStore.thy ===== *)
theory HashStore
  imports Store_Interface
begin

text \<open>
  \<^verbatim>\<open>c10d::HashStore\<close> (\<^verbatim>\<open>HashStore.hpp\<close>, \<^verbatim>\<open>HashStore.cpp\<close>): an in-process
  store behind one mutex and one condition variable. Every member function runs under the
  mutex, so it is one step. A thread that blocks in \<^verbatim>\<open>cv_.wait\<close> is an entry of
  \<open>hs_waiters\<close>; \<^verbatim>\<open>notify_all\<close> signals every entry, and a signalled thread evaluates its
  predicate when it gets the mutex again (\<open>hash_resume\<close>), as does a thread whose timeout has
  passed (\<open>hash_expire\<close>). The theory shows that the store meets the contract of
  \<open>store_del\<close>, that \<^verbatim>\<open>set\<close> never loses a wake-up, and that \<^verbatim>\<open>add\<close> does.
\<close>

section \<open>State and operations\<close>

text \<open>
  A blocked thread: the keys its predicate looks for, whether it sits in \<^verbatim>\<open>get\<close> (and will
  return the value) or in \<^verbatim>\<open>wait\<close>, whether it waits with a timeout, whether it has been
  notified.
\<close>

record waiter =
  w_keys :: "string list"
  w_get :: bool
  w_timed :: bool
  w_signalled :: bool

record hash_store =
  hs_map :: "(string, bytes) umap"
  hs_timeout :: int
  hs_waiters :: "(nat, waiter) umap"
  hs_returned :: "(nat \<times> bytes option res) list"

definition hash_init :: hash_store where
  "hash_init = \<lparr>hs_map = [], hs_timeout = kDefaultTimeout, hs_waiters = [], hs_returned = []\<rparr>"

definition hash_setTimeout :: "int \<Rightarrow> hash_store \<Rightarrow> hash_store" where
  "hash_setTimeout timeout s = s\<lparr>hs_timeout := timeout\<rparr>"

definition hash_notify_all :: "hash_store \<Rightarrow> hash_store" where
  "hash_notify_all s = s\<lparr>hs_waiters := map (\<lambda>(t, w). (t, w\<lparr>w_signalled := True\<rparr>)) (hs_waiters s)\<rparr>"

definition hash_set :: "string \<Rightarrow> bytes \<Rightarrow> (hash_store, unit) cmd" where
  "hash_set key data s =
     (Inr (), hash_notify_all (s\<lparr>hs_map := AList.update key data (hs_map s)\<rparr>))"

definition hash_pred :: "string list \<Rightarrow> hash_store \<Rightarrow> bool" where
  "hash_pred keys s = list_all (\<lambda>key. umap_has (hs_map s) key) keys"

definition hash_block :: "nat \<Rightarrow> string list \<Rightarrow> bool \<Rightarrow> int \<Rightarrow> hash_store \<Rightarrow> hash_store" where
  "hash_block tid keys isget timeout s =
     s\<lparr>hs_waiters := AList.update tid
         \<lparr>w_keys = keys, w_get = isget, w_timed = (timeout \<noteq> kNoTimeout), w_signalled = False\<rparr>
         (hs_waiters s)\<rparr>"

definition hash_get :: "nat \<Rightarrow> string \<Rightarrow> (hash_store, bytes) cmd" where
  "hash_get tid key s =
     (case map_of (hs_map s) key of
        Some v \<Rightarrow> (Inr v, s)
      | None \<Rightarrow> (Inl Blocked, hash_block tid [key] True (hs_timeout s) s))"

definition hash_wait_timeout :: "nat \<Rightarrow> string list \<Rightarrow> int \<Rightarrow> (hash_store, unit) cmd" where
  "hash_wait_timeout tid keys timeout s =
     (if hash_pred keys s then (Inr (), s)
      else (Inl Blocked, hash_block tid keys False timeout s))"

definition hash_wait :: "nat \<Rightarrow> string list \<Rightarrow> (hash_store, unit) cmd" where
  "hash_wait tid keys = hash_wait_timeout tid keys kDefaultTimeout"

definition hash_add :: "string \<Rightarrow> int \<Rightarrow> (hash_store, int) cmd" where
  "hash_add key i s =
     (let val = umap_at [] (hs_map s) key;
          s1 = s\<lparr>hs_map := (if umap_has (hs_map s) key then hs_map s else AList.update key [] (hs_map s))\<rparr>;
          store = (\<lambda>ti. (Inr ti, s1\<lparr>hs_map := AList.update key (bytes_of (to_string ti)) (hs_map s1)\<rparr>))
      in if val = [] then store i
         else case stoll (string_of val) of
                Inl e \<Rightarrow> (Inl e, s1)
              | Inr n \<Rightarrow> store (add64 i n))"

definition hash_getNumKeys :: "(hash_store, int) cmd" where
  "hash_getNumKeys s = (Inr (int (length (hs_map s))), s)"

definition hash_deleteKey :: "string \<Rightarrow> (hash_store, bool) cmd" where
  "hash_deleteKey key s =
     (let numDeleted = (if umap_has (hs_map s) key then 1 else 0 :: nat)
      in (Inr (numDeleted = 1), s\<lparr>hs_map := AList.delete key (hs_map s)\<rparr>))"

fun hash_check_loop :: "(string, bytes) umap \<Rightarrow> string list \<Rightarrow> bool" where
  "hash_check_loop m [] = True"
| "hash_check_loop m (key # keys) = (if \<not> umap_has m key then False else hash_check_loop m keys)"

definition hash_check :: "string list \<Rightarrow> (hash_store, bool) cmd" where
  "hash_check keys s = (Inr (hash_check_loop (hs_map s) keys), s)"

section \<open>Blocked threads\<close>

text \<open>A blocked thread leaves the condition variable with the result of its call.\<close>

definition hash_leave :: "nat \<Rightarrow> bytes option res \<Rightarrow> hash_store \<Rightarrow> hash_store" where
  "hash_leave tid r s =
     s\<lparr>hs_waiters := AList.delete tid (hs_waiters s), hs_returned := hs_returned s @ [(tid, r)]\<rparr>"

definition hash_result :: "waiter \<Rightarrow> hash_store \<Rightarrow> bytes option" where
  "hash_result w s = (if w_get w then Some (umap_at [] (hs_map s) (hd (w_keys w))) else None)"

definition hash_resume :: "nat \<Rightarrow> hash_store \<Rightarrow> hash_store" where
  "hash_resume tid s =
     (case map_of (hs_waiters s) tid of
        None \<Rightarrow> s
      | Some w \<Rightarrow>
          (if hash_pred (w_keys w) s then hash_leave tid (Inr (hash_result w s)) s
           else s\<lparr>hs_waiters := AList.update tid (w\<lparr>w_signalled := False\<rparr>) (hs_waiters s)\<rparr>))"

definition hash_expire :: "nat \<Rightarrow> hash_store \<Rightarrow> hash_store" where
  "hash_expire tid s =
     (case map_of (hs_waiters s) tid of
        None \<Rightarrow> s
      | Some w \<Rightarrow>
          (if hash_pred (w_keys w) s then hash_leave tid (Inr (hash_result w s)) s
           else hash_leave tid (Inl (System_error ''ETIMEDOUT'')) s))"

text \<open>The steps of the threads that share a store, and the states a schedule can reach.\<close>

datatype hs_event =
    Set_ev string bytes
  | Add_ev string int
  | Delete_ev string
  | Get_ev nat string
  | Wait_ev nat "string list" int
  | Resume_ev nat
  | Expire_ev nat

fun hs_exec :: "hs_event \<Rightarrow> hash_store \<Rightarrow> hash_store" where
  "hs_exec (Set_ev k v) s = snd (hash_set k v s)"
| "hs_exec (Add_ev k i) s = snd (hash_add k i s)"
| "hs_exec (Delete_ev k) s = snd (hash_deleteKey k s)"
| "hs_exec (Get_ev t k) s = snd (hash_get t k s)"
| "hs_exec (Wait_ev t ks d) s = snd (hash_wait_timeout t ks d s)"
| "hs_exec (Resume_ev t) s = hash_resume t s"
| "hs_exec (Expire_ev t) s = hash_expire t s"

text \<open>
  A blocked thread makes no calls; the timer of a thread without a timeout never fires.
\<close>

fun hs_enabled :: "hs_event \<Rightarrow> hash_store \<Rightarrow> bool" where
  "hs_enabled (Get_ev t k) s = (\<not> umap_has (hs_waiters s) t)"
| "hs_enabled (Wait_ev t ks d) s = (\<not> umap_has (hs_waiters s) t)"
| "hs_enabled (Expire_ev t) s = (case map_of (hs_waiters s) t of None \<Rightarrow> False | Some w \<Rightarrow> w_timed w)"
| "hs_enabled _ s = True"

fun is_add :: "hs_event \<Rightarrow> bool" where
  "is_add (Add_ev k i) = True"
| "is_add _ = False"

inductive hs_reach :: "(hs_event \<Rightarrow> bool) \<Rightarrow> hash_store \<Rightarrow> bool" for P where
  hs_start: "hs_reach P hash_init"
| hs_next: "hs_reach P s \<Longrightarrow> P e \<Longrightarrow> hs_enabled e s \<Longrightarrow> hs_reach P (hs_exec e s)"

section \<open>The store contract\<close>

definition hash_inv :: "hash_store \<Rightarrow> bool" where
  "hash_inv s \<longleftrightarrow> umap_wf (hs_map s)"

definition hash_view :: "hash_store \<Rightarrow> content" where
  "hash_view s = map_of (hs_map s)"

lemma hash_check_loop_all: "hash_check_loop m ks = list_all (\<lambda>k. map_of m k \<noteq> None) ks"
  by (induction ks) auto

lemma hash_notify_all_map [simp]: "hs_map (hash_notify_all s) = hs_map s"
  by (simp add: hash_notify_all_def)

lemma hash_add_counter:
  assumes "counter_at (hash_view s) k n" and "in_int64 i"
  shows "fst (hash_add k i s) = Inr (add64 n i) \<and>
         hash_view (snd (hash_add k i s)) = (hash_view s)(k \<mapsto> num_bytes (add64 n i)) \<and>
         (hash_inv s \<longrightarrow> hash_inv (snd (hash_add k i s)))"
proof (cases "map_of (hs_map s) k")
  case None
  with assms have "n = 0" by (simp add: counter_at_def hash_view_def)
  with None assms show ?thesis
    by (simp add: hash_add_def hash_view_def hash_inv_def umap_at_None num_bytes_def add64_def wrap64_id)
next
  case (Some b)
  with assms have b: "b = num_bytes n" "in_int64 n" by (auto simp: counter_at_def hash_view_def)
  have "add64 i n = add64 n i" by (simp add: add64_def add.commute)
  with Some b show ?thesis
    by (simp add: hash_add_def hash_view_def hash_inv_def umap_at_Some) (simp add: num_bytes_def)
qed

interpretation hash: store_del hash_inv hash_view "\<lambda>_. True" "\<lambda>_. True"
  hash_set "hash_get tid" hash_add hash_check hash_deleteKey for tid
proof (unfold_locales, goal_cases)
  case (4 s k n i)
  then show ?case
    using hash_add_counter [of s k n i] by (cases "hash_add k i s") auto
qed (auto simp: hash_set_def hash_get_def hash_check_def hash_deleteKey_def hash_inv_def hash_view_def
       hash_check_loop_all)

lemma hash_getNumKeys_card: "hash_inv s \<Longrightarrow> fst (hash_getNumKeys s) = Inr (int (card (dom (hash_view s))))"
  by (simp add: hash_getNumKeys_def hash_inv_def hash_view_def umap_size_card)

section \<open>Wake-ups\<close>

text \<open>Every blocked thread that has not been notified still misses a key.\<close>

definition no_lost_wakeup :: "hash_store \<Rightarrow> bool" where
  "no_lost_wakeup s \<longleftrightarrow>
     (\<forall>t w. map_of (hs_waiters s) t = Some w \<longrightarrow> \<not> w_signalled w \<longrightarrow> \<not> hash_pred (w_keys w) s)"

lemma map_of_signal:
  "map_of (map (\<lambda>(t, w). (t, w\<lparr>w_signalled := True\<rparr>)) ws) t =
     map_option (\<lambda>w. w\<lparr>w_signalled := True\<rparr>) (map_of ws t)"
  by (induction ws) auto

lemma hash_pred_cong: "hs_map s = hs_map s' \<Longrightarrow> hash_pred ks s = hash_pred ks s'"
  by (simp add: hash_pred_def)

lemma hash_pred_delete: "hash_pred ks (s\<lparr>hs_map := AList.delete k (hs_map s)\<rparr>) \<Longrightarrow> hash_pred ks s"
  by (auto simp: hash_pred_def list_all_iff split: if_splits)

lemma set_no_lost_wakeup: "no_lost_wakeup (snd (hash_set k v s))"
  by (auto simp: no_lost_wakeup_def hash_set_def hash_notify_all_def map_of_signal)

lemma delete_no_lost_wakeup: "no_lost_wakeup s \<Longrightarrow> no_lost_wakeup (snd (hash_deleteKey k s))"
  by (auto simp: no_lost_wakeup_def hash_deleteKey_def Let_def dest: hash_pred_delete)

lemma block_no_lost_wakeup:
  "no_lost_wakeup s \<Longrightarrow> \<not> hash_pred ks s \<Longrightarrow> no_lost_wakeup (hash_block t ks g d s)"
  by (auto simp: no_lost_wakeup_def hash_block_def hash_pred_def)

lemma leave_no_lost_wakeup: "no_lost_wakeup s \<Longrightarrow> no_lost_wakeup (hash_leave t r s)"
  by (auto simp: no_lost_wakeup_def hash_leave_def hash_pred_def split: if_splits)

lemma step_no_lost_wakeup:
  assumes "no_lost_wakeup s" and "\<not> is_add e"
  shows "no_lost_wakeup (hs_exec e s)"
proof (cases e)
  case (Get_ev t k)
  with assms show ?thesis
    by (auto simp: hash_get_def hash_pred_def intro: block_no_lost_wakeup split: option.splits)
next
  case (Wait_ev t ks d)
  with assms show ?thesis by (simp add: hash_wait_timeout_def block_no_lost_wakeup)
next
  case (Resume_ev t)
  with assms show ?thesis
    by (auto simp: hash_resume_def leave_no_lost_wakeup split: option.splits)
       (auto simp: no_lost_wakeup_def hash_pred_def split: if_splits)
next
  case (Expire_ev t)
  with assms show ?thesis by (simp add: hash_expire_def leave_no_lost_wakeup split: option.splits)
qed (use assms in \<open>simp_all add: set_no_lost_wakeup delete_no_lost_wakeup\<close>)

lemma reach_no_lost_wakeup: "hs_reach (\<lambda>e. \<not> is_add e) s \<Longrightarrow> no_lost_wakeup s"
proof (induction rule: hs_reach.induct)
  case hs_start
  then show ?case by (simp add: no_lost_wakeup_def hash_init_def)
next
  case (hs_next s e)
  then show ?case by (blast intro: step_no_lost_wakeup)
qed

section \<open>Properties\<close>

lemma hash_init_inv [simp]: "hash_inv hash_init"
  by (simp add: hash_inv_def hash_init_def)

text \<open>
  C13. No wake-up is lost as long as keys are only created by \<^verbatim>\<open>set\<close>: in every reachable
  state a thread that is blocked in \<^verbatim>\<open>get\<close> or \<^verbatim>\<open>wait\<close> and has not been notified
  really misses one of its keys, in any interleaving of sets, deletes, gets, waits, resumptions
  and expired timeouts.
\<close>

theorem hash_wakeups_kept:
  assumes "hs_reach (\<lambda>e. \<not> is_add e) s"
    and "map_of (hs_waiters s) t = Some w" and "\<not> w_signalled w"
  shows "\<exists>k \<in> set (w_keys w). hash_view s k = None"
  using reach_no_lost_wakeup [OF assms(1)] assms(2,3)
  by (auto simp: no_lost_wakeup_def hash_pred_def hash_view_def list_all_iff)

theorem hash_wakeups_kept_witness:
  "\<exists>k \<in> set [''a'', ''b'']. hash_view (hs_exec (Wait_ev 1 [''a'', ''b''] 0) (hs_exec (Set_ev ''a'' [1]) hash_init)) k = None"
proof -
  let ?s1 = "hs_exec (Set_ev ''a'' [1]) hash_init"
  have "hs_reach (\<lambda>e. \<not> is_add e) ?s1" by (rule hs_next [OF hs_start]) simp_all
  then have "hs_reach (\<lambda>e. \<not> is_add e) (hs_exec (Wait_ev 1 [''a'', ''b''] 0) ?s1)"
    by (rule hs_next) (simp_all add: hash_set_def hash_notify_all_def hash_init_def)
  moreover have "map_of (hs_waiters (hs_exec (Wait_ev 1 [''a'', ''b''] 0) ?s1)) 1 =
      Some \<lparr>w_keys = [''a'', ''b''], w_get = False, w_timed = False, w_signalled = False\<rparr>"
    by (simp add: hash_wait_timeout_def hash_pred_def hash_block_def hash_set_def hash_notify_all_def
        hash_init_def kNoTimeout_def)
  ultimately show ?thesis using hash_wakeups_kept by force
qed


text \<open>
  A thread that blocks in \<^verbatim>\<open>get\<close> on an absent key is released by the next
  \<^verbatim>\<open>set\<close> of that key: it is signalled, and when it runs it returns the value that was set
  and leaves the condition variable.
\<close>

theorem hash_get_released:
  assumes "hash_view s k = None"
  shows "fst (hash_get t k s) = Inl Blocked \<and>
    (let s2 = snd (hash_set k v (snd (hash_get t k s))); s3 = hash_resume t s2
     in map_option w_signalled (map_of (hs_waiters s2) t) = Some True \<and>
        last (hs_returned s3) = (t, Inr (Some v)) \<and> map_of (hs_waiters s3) t = None)"
  using assms
  by (simp add: hash_get_def hash_view_def hash_set_def hash_block_def hash_notify_all_def hash_resume_def
      hash_leave_def hash_pred_def hash_result_def map_of_signal umap_at_def Let_def)

theorem hash_get_released_witness:
  "fst (hash_get 4 ''k'' hash_init) = Inl Blocked"
  using hash_get_released [of hash_init "''k''" 4 "[1]"] by (simp add: hash_view_def hash_init_def)

text \<open>
  After any sequence of sets, \<^verbatim>\<open>get\<close> returns the last value set for the key.
\<close>

theorem hash_last_write_wins:
  assumes "map_of (rev kvs) k = Some v"
  shows "fst (hash_get tid k (run_sets hash_set kvs hash_init)) = Inr v"
  using assms by (intro hash.run_sets_get) (auto simp: list_all_iff)

theorem hash_last_write_wins_witness:
  "fst (hash_get 0 ''k'' (run_sets hash_set [(''k'', [1]), (''j'', [2]), (''k'', [3])] hash_init)) = Inr [3]"
  by (rule hash_last_write_wins) simp

text \<open>
  Ranks: \<open>m\<close> calls of \<^verbatim>\<open>add(key, 1)\<close> through a \<^verbatim>\<open>PrefixStore\<close> over a
  fresh \<^verbatim>\<open>HashStore\<close> return 1, 2, ..., \<open>m\<close>, for every \<open>m\<close> an \<^verbatim>\<open>int64_t\<close> holds.
\<close>

theorem prefix_hash_ranks:
  assumes "int m \<le> int64_max"
  shows "fst (run_adds (prefix_add p hash_add) k (replicate m 1) hash_init) = map (\<lambda>j. Inr (1 + int j)) [0..<m]"
proof -
  have "counter_at (prefix_view p hash_view hash_init) k 0"
    by (simp add: counter_at_def prefix_view_def hash_view_def hash_init_def in_int64_def int64_min_def int64_max_def)
  from store.adds_consecutive [OF hash.prefix_is_store, of hash_init p k 0 m, OF _ _ this] assms
  show ?thesis by simp
qed

theorem prefix_hash_ranks_witness:
  "fst (run_adds (prefix_add ''grp'' hash_add) ''rank'' (replicate 3 1) hash_init) = [Inr 1, Inr 2, Inr 3]"
  using prefix_hash_ranks [of 3 "''grp''" "''rank''"] by (simp add: int64_max_def upt_rec)

text \<open>
  Two \<^verbatim>\<open>PrefixStore\<close>s over one store do not see each other's writes when neither
  prefix, with its separator, starts the other; each sees its own.
\<close>

theorem prefix_stores_apart:
  assumes "\<not> prefix (p @ ''/'') (q @ ''/'')" and "\<not> prefix (q @ ''/'') (p @ ''/'')"
  shows "prefix_view q hash_view (snd (prefix_set p hash_set k v s)) = prefix_view q hash_view s \<and>
    prefix_view p hash_view (snd (prefix_set p hash_set k v s)) = (prefix_view p hash_view s)(k \<mapsto> v)"
  using joinKey_disjoint [OF assms(2,1)]
  by (auto simp: prefix_view_def prefix_set_def hash_set_def hash_view_def fun_eq_iff)

theorem prefix_stores_apart_witness:
  "prefix_view ''b'' hash_view (snd (prefix_set ''a'' hash_set ''k'' [1] hash_init)) ''k'' = None"
  using prefix_stores_apart [of "''a''" "''b''" "''k''" "[1]" hash_init]
  by (simp add: prefix_view_def hash_view_def hash_init_def)

text \<open>
  A key that was set and then deleted is reported deleted and is gone for \<^verbatim>\<open>check\<close>,
  and \<^verbatim>\<open>getNumKeys\<close> counts the keys the store holds.
\<close>

theorem hash_delete_and_count:
  assumes "hash_inv s"
  shows "fst (hash_deleteKey k (snd (hash_set k v s))) = Inr True \<and>
    fst (hash_check [k] (snd (hash_deleteKey k (snd (hash_set k v s))))) = Inr False \<and>
    fst (hash_getNumKeys s) = Inr (int (card (dom (hash_view s))))"
  using hash.set_delete_check [of s k v] hash_getNumKeys_card [OF assms] assms by simp

theorem hash_delete_and_count_witness:
  "fst (hash_deleteKey ''k'' (snd (hash_set ''k'' [1] hash_init))) = Inr True"
  using hash_delete_and_count [of hash_init "''k''" "[1]"] by simp

end
