(* ===== verification/Tcp_Wire.thy ===== *)
theory Tcp_Wire
  imports C10d_Prelude "HOL-Library.Sublist"
begin

text \<open>
  \<^verbatim>\<open>namespace tcputil\<close> of \<^verbatim>\<open>Utils.hpp\<close>: the loops around \<^verbatim>\<open>::send\<close> and
  \<^verbatim>\<open>::recv\<close>, with one entry of a list per system call, and the values, vectors and strings
  sent over a connection. The loops transfer the buffer exactly, whatever the pieces in which
  the kernel moves it (\<open>send_loop_exact\<close>, \<open>recv_loop_exact\<close>), which is what the stream
  operations \<open>recvBytes\<close> and \<open>sendBytes\<close> used by the store's daemon take from them. A
  connection is named by the file descriptor the daemon has for it.
\<close>

section \<open>The system call loops\<close>

text \<open>
  One call of \<^verbatim>\<open>::send\<close> or \<^verbatim>\<open>::recv\<close>: it moved up to \<open>n\<close> bytes, or returned -1 with
  an \<^verbatim>\<open>errno\<close>. \<^verbatim>\<open>SYSCHECK\<close> repeats the call on \<^verbatim>\<open>EINTR\<close>, turns
  \<^verbatim>\<open>EAGAIN\<close> into a runtime error and any other value into a system error. A list that ends
  before the loop does is a call that has not returned.
\<close>

datatype sysret = Ret nat | EINTR | EAGAIN | Errno string

fun send_loop :: "sysret list \<Rightarrow> bytes \<Rightarrow> unit res \<times> bytes" where
  "send_loop calls [] = (Inr (), [])"
| "send_loop [] buffer = (Inl Blocked, [])"
| "send_loop (EINTR # calls) buffer = send_loop calls buffer"
| "send_loop (EAGAIN # calls) buffer = (Inl (Runtime_error ''Socket Timeout''), [])"
| "send_loop (Errno e # calls) buffer = (Inl (System_error e), [])"
| "send_loop (Ret n # calls) buffer =
     (if n = 0 then (Inl (System_error ''ECONNRESET''), [])
      else case send_loop calls (drop n buffer) of (r, sent) \<Rightarrow> (r, take n buffer @ sent))"

fun recv_loop :: "sysret list \<Rightarrow> nat \<Rightarrow> bytes \<Rightarrow> bytes res \<times> bytes" where
  "recv_loop calls 0 stream = (Inr [], stream)"
| "recv_loop [] n stream = (Inl Blocked, stream)"
| "recv_loop (EINTR # calls) n stream = recv_loop calls n stream"
| "recv_loop (EAGAIN # calls) n stream = (Inl (Runtime_error ''Socket Timeout''), stream)"
| "recv_loop (Errno e # calls) n stream = (Inl (System_error e), stream)"
| "recv_loop (Ret m # calls) n stream =
     (let got = take (min m n) stream
      in if got = [] then (Inl (System_error ''ECONNRESET''), stream)
         else case recv_loop calls (n - length got) (drop (length got) stream) of
                (Inl e, rest) \<Rightarrow> (Inl e, rest)
              | (Inr bs, rest) \<Rightarrow> (Inr (got @ bs), rest))"

section \<open>Connections as byte streams\<close>

text \<open>
  Seen from the daemon: \<open>inbox s\<close> holds the bytes the peer of connection \<open>s\<close> has sent and
  the daemon has not read, \<open>outbox s\<close> the bytes the daemon has sent and the peer has not read.
  \<open>broken s\<close>: sending on \<open>s\<close> fails; \<open>closed s\<close>: the daemon has closed \<open>s\<close>. A read
  that finds the stream short is one whose peer has gone.
\<close>

record net =
  inbox :: "int \<Rightarrow> bytes"
  outbox :: "int \<Rightarrow> bytes"
  broken :: "int \<Rightarrow> bool"
  closed :: "int \<Rightarrow> bool"

definition sendBytes :: "int \<Rightarrow> bytes \<Rightarrow> ('a net_scheme, unit) cmd" where
  "sendBytes sock bs =
     (if bs = [] then returnM ()
      else bindM (getM (\<lambda>d. broken d sock)) (\<lambda>bad.
        if bad then throwM (System_error ''EPIPE'')
        else modifyM (\<lambda>d. d\<lparr>outbox := (outbox d)(sock := outbox d sock @ bs)\<rparr>)))"

definition recvBytes :: "int \<Rightarrow> nat \<Rightarrow> ('a net_scheme, bytes) cmd" where
  "recvBytes sock n =
     (if n = 0 then returnM []
      else bindM (getM (\<lambda>d. inbox d sock)) (\<lambda>st.
        if length st < n then throwM (System_error ''ECONNRESET'')
        else bindM (modifyM (\<lambda>d. d\<lparr>inbox := (inbox d)(sock := drop n st)\<rparr>)) (\<lambda>_.
          returnM (take n st))))"

definition closeSocket :: "int \<Rightarrow> 'a net_scheme \<Rightarrow> 'a net_scheme" where
  "closeSocket sock d = d\<lparr>closed := (closed d)(sock := True)\<rparr>"

section \<open>Values, vectors and strings\<close>

definition send_u8 :: "int \<Rightarrow> byte \<Rightarrow> ('a net_scheme, unit) cmd" where
  "send_u8 sock b = sendBytes sock [b]"

definition recv_u8 :: "int \<Rightarrow> ('a net_scheme, byte) cmd" where
  "recv_u8 sock = bindM (recvBytes sock 1) (\<lambda>bs. returnM (hd bs))"

definition send_i64 :: "int \<Rightarrow> int \<Rightarrow> ('a net_scheme, unit) cmd" where
  "send_i64 sock i = sendBytes sock (i64_bytes i)"

definition recv_i64 :: "int \<Rightarrow> ('a net_scheme, int) cmd" where
  "recv_i64 sock = bindM (recvBytes sock 8) (\<lambda>bs. returnM (bytes_i64 bs))"

definition recv_size :: "int \<Rightarrow> ('a net_scheme, 64 word) cmd" where
  "recv_size sock = bindM (recvBytes sock 8) (\<lambda>bs. returnM (bytes_u64 bs))"

definition sendVector :: "int \<Rightarrow> bytes \<Rightarrow> ('a net_scheme, unit) cmd" where
  "sendVector sock vec =
     bindM (sendBytes sock (u64_bytes (word_of_nat (length vec)))) (\<lambda>_. sendBytes sock vec)"

definition recvVector :: "int \<Rightarrow> ('a net_scheme, bytes) cmd" where
  "recvVector sock = bindM (recv_size sock) (\<lambda>valueSize. recvBytes sock (unat valueSize))"

definition sendString :: "int \<Rightarrow> string \<Rightarrow> ('a net_scheme, unit) cmd" where
  "sendString sock str =
     bindM (sendBytes sock (u64_bytes (word_of_nat (length str)))) (\<lambda>_. sendBytes sock (bytes_of str))"

definition recvString :: "int \<Rightarrow> ('a net_scheme, string) cmd" where
  "recvString sock =
     bindM (recv_size sock) (\<lambda>valueSize.
       bindM (recvBytes sock (unat valueSize)) (\<lambda>value. returnM (string_of value)))"

text \<open>The bytes \<^verbatim>\<open>sendVector\<close> and \<^verbatim>\<open>sendString\<close> put on a connection.\<close>

definition enc_vector :: "bytes \<Rightarrow> bytes" where
  "enc_vector vec = u64_bytes (word_of_nat (length vec)) @ vec"

definition enc_string :: "string \<Rightarrow> bytes" where
  "enc_string str = u64_bytes (word_of_nat (length str)) @ bytes_of str"

section \<open>The loops transfer exactly the buffer\<close>

lemma send_loop_exact: "send_loop calls buffer = (Inr (), sent) \<Longrightarrow> sent = buffer"
  by (induction calls buffer arbitrary: sent rule: send_loop.induct) (auto split: if_splits prod.splits)

lemma send_loop_prefix: "send_loop calls buffer = (r, sent) \<Longrightarrow> \<exists>rest. buffer = sent @ rest"
proof (induction calls buffer arbitrary: r sent rule: send_loop.induct)
  case (6 n calls v va)
  show ?case
  proof (cases "n = 0")
    case True
    with 6 show ?thesis by simp
  next
    case False
    obtain r' sent' where rec: "send_loop calls (drop n (v # va)) = (r', sent')" by force
    from "6.IH" [OF False rec] obtain rest where "drop n (v # va) = sent' @ rest" by blast
    then have "v # va = (take n (v # va) @ sent') @ rest" by (metis append.assoc append_take_drop_id)
    with 6 False rec show ?thesis by auto
  qed
qed auto

lemma recv_loop_exact:
  "recv_loop calls n stream = (Inr bs, rest) \<Longrightarrow> n \<le> length stream \<and> bs = take n stream \<and> rest = drop n stream"
proof (induction calls n stream arbitrary: bs rest rule: recv_loop.induct)
  case (6 m calls v stream)
  let ?got = "take (min m (Suc v)) stream"
  from "6.prems" obtain bs' where ne: "?got \<noteq> []" and bs: "bs = ?got @ bs'" and
    rec: "recv_loop calls (Suc v - length ?got) (drop (length ?got) stream) = (Inr bs', rest)"
    by (auto simp: Let_def split: if_splits prod.splits sum.splits)
  from "6.IH" [OF refl ne rec] have IH: "Suc v - length ?got \<le> length (drop (length ?got) stream)"
    "bs' = take (Suc v - length ?got) (drop (length ?got) stream)"
    "rest = drop (Suc v - length ?got) (drop (length ?got) stream)" by auto
  have le: "length ?got \<le> Suc v" by simp
  have "?got = take (length ?got) stream" by (simp add: min_def)
  then have "bs = take (Suc v) stream"
    using bs IH(2) le by (metis le_add_diff_inverse take_add)
  moreover have "rest = drop (Suc v) stream" using IH(3) le by (simp add: add.commute)
  moreover have "Suc v \<le> length stream" using IH(1) le by auto
  ultimately show ?case by blast
qed auto

text \<open>Enough calls that make progress finish the transfer.\<close>

definition progress :: "sysret \<Rightarrow> bool" where
  "progress c \<longleftrightarrow> c = EINTR \<or> (\<exists>n. c = Ret (Suc n))"

definition moves :: "sysret list \<Rightarrow> nat" where
  "moves calls = length (filter (\<lambda>c. c \<noteq> EINTR) calls)"

lemma send_loop_progress:
  "list_all progress calls \<Longrightarrow> length buffer \<le> moves calls \<Longrightarrow> send_loop calls buffer = (Inr (), buffer)"
proof (induction calls buffer rule: send_loop.induct)
  case (6 n calls v va)
  then obtain m where n: "n = Suc m" by (auto simp: progress_def)
  with "6.prems" have "length (drop n (v # va)) \<le> moves calls" by (simp add: moves_def)
  with "6.IH" "6.prems" n have "send_loop calls (drop n (v # va)) = (Inr (), drop n (v # va))" by simp
  with n show ?case by simp
qed (auto simp: progress_def moves_def)

lemma recv_loop_progress:
  "list_all progress calls \<Longrightarrow> n \<le> moves calls \<Longrightarrow> n \<le> length stream \<Longrightarrow>
     recv_loop calls n stream = (Inr (take n stream), drop n stream)"
proof (induction calls n stream rule: recv_loop.induct)
  case (6 m calls v stream)
  then obtain m' where m: "m = Suc m'" by (auto simp: progress_def)
  let ?got = "take (min m (Suc v)) stream"
  have ne: "?got \<noteq> []" using m "6.prems"(3) by (cases stream) auto
  then have pos: "0 < length ?got" by (rule length_greater_0_conv [THEN iffD2])
  have "recv_loop calls (Suc v - length ?got) (drop (length ?got) stream) =
      (Inr (take (Suc v - length ?got) (drop (length ?got) stream)),
       drop (Suc v - length ?got) (drop (length ?got) stream))"
    using "6.prems" pos by (intro "6.IH" [OF refl ne]) (auto simp: moves_def)
  moreover have le: "length ?got \<le> Suc v" by simp
  moreover have "?got @ take (Suc v - length ?got) (drop (length ?got) stream) = take (Suc v) stream"
  proof -
    define g where "g = length ?got"
    have "?got = take g stream" by (simp add: g_def min_def)
    moreover have "g \<le> Suc v" using le by (simp only: g_def)
    ultimately have "take g stream @ take (Suc v - g) (drop g stream) = take (Suc v) stream"
      using take_add [of g "Suc v - g" stream] by simp
    with \<open>?got = take g stream\<close> show ?thesis by (simp only: g_def)
  qed
  ultimately show ?case using ne by (simp add: Let_def add.commute del: take_eq_Nil)
qed (auto simp: progress_def moves_def)

section \<open>Reading back what was sent\<close>

lemma recvBytes_exact:
  "inbox d s = bs @ rest \<Longrightarrow> n = length bs \<Longrightarrow>
     recvBytes s n d = (Inr bs, d\<lparr>inbox := (inbox d)(s := rest)\<rparr>)"
  by (auto simp: recvBytes_def bindM_def fun_upd_idem)

lemma recv_u8_cons [wire_simps]:
  "inbox d s = b # rest \<Longrightarrow> recv_u8 s d = (Inr b, d\<lparr>inbox := (inbox d)(s := rest)\<rparr>)"
  using recvBytes_exact [of d s "[b]" rest 1] by (simp add: recv_u8_def bindM_def)

lemma recv_size_exact [wire_simps]:
  "inbox d s = u64_bytes w @ rest \<Longrightarrow> recv_size s d = (Inr w, d\<lparr>inbox := (inbox d)(s := rest)\<rparr>)"
  using recvBytes_exact [of d s "u64_bytes w" rest 8] by (simp add: recv_size_def bindM_def)

lemma recv_i64_exact [wire_simps]:
  "inbox d s = i64_bytes i @ rest \<Longrightarrow>
     recv_i64 s d = (Inr (wrap64 i), d\<lparr>inbox := (inbox d)(s := rest)\<rparr>)"
  using recvBytes_exact [of d s "i64_bytes i" rest 8] by (simp add: recv_i64_def bindM_def)

lemma unat_word_of_nat64 [simp]: "n < 2 ^ 64 \<Longrightarrow> unat (word_of_nat n :: 64 word) = n"
  by (simp add: unat_of_nat)

lemma recvVector_exact [wire_simps]:
  assumes "inbox d s = enc_vector v @ rest" and "length v < 2 ^ 64"
  shows "recvVector s d = (Inr v, d\<lparr>inbox := (inbox d)(s := rest)\<rparr>)"
proof -
  have "recv_size s d = (Inr (word_of_nat (length v)), d\<lparr>inbox := (inbox d)(s := v @ rest)\<rparr>)"
    using assms(1) by (intro recv_size_exact) (simp add: enc_vector_def)
  moreover have "recvBytes s (length v) (d\<lparr>inbox := (inbox d)(s := v @ rest)\<rparr>) =
      (Inr v, d\<lparr>inbox := (inbox d)(s := rest)\<rparr>)"
    by (subst recvBytes_exact [where bs = v and rest = rest]) simp_all
  ultimately show ?thesis using assms(2) by (simp add: recvVector_def bindM_def)
qed

lemma recvString_exact [wire_simps]:
  assumes "inbox d s = enc_string k @ rest" and "length k < 2 ^ 64"
  shows "recvString s d = (Inr k, d\<lparr>inbox := (inbox d)(s := rest)\<rparr>)"
proof -
  have "recv_size s d = (Inr (word_of_nat (length k)), d\<lparr>inbox := (inbox d)(s := bytes_of k @ rest)\<rparr>)"
    using assms(1) by (intro recv_size_exact) (simp add: enc_string_def)
  moreover have "recvBytes s (length k) (d\<lparr>inbox := (inbox d)(s := bytes_of k @ rest)\<rparr>) =
      (Inr (bytes_of k), d\<lparr>inbox := (inbox d)(s := rest)\<rparr>)"
    by (subst recvBytes_exact [where bs = "bytes_of k" and rest = rest]) simp_all
  ultimately show ?thesis using assms(2) by (simp add: recvString_def bindM_def)
qed

lemma sendBytes_ok [wire_simps]:
  "\<not> broken d s \<Longrightarrow> sendBytes s bs d = (Inr (), d\<lparr>outbox := (outbox d)(s := outbox d s @ bs)\<rparr>)"
  by (auto simp: sendBytes_def bindM_def fun_upd_idem)

lemma sendVector_ok [wire_simps]:
  "\<not> broken d s \<Longrightarrow> sendVector s v d = (Inr (), d\<lparr>outbox := (outbox d)(s := outbox d s @ enc_vector v)\<rparr>)"
  by (simp add: sendVector_def bindM_def sendBytes_ok enc_vector_def)

lemma sendString_ok [wire_simps]:
  "\<not> broken d s \<Longrightarrow> sendString s k d = (Inr (), d\<lparr>outbox := (outbox d)(s := outbox d s @ enc_string k)\<rparr>)"
  by (simp add: sendString_def bindM_def sendBytes_ok enc_string_def)

text \<open>The same reads in front of a continuation.\<close>

lemma bind_recvString:
  "inbox d s = enc_string k @ rest \<Longrightarrow> length k < 2 ^ 64 \<Longrightarrow>
     bindM (recvString s) f d = f k (d\<lparr>inbox := (inbox d)(s := rest)\<rparr>)"
  by (simp add: bindM_def recvString_exact)

lemma bind_recvVector:
  "inbox d s = enc_vector v @ rest \<Longrightarrow> length v < 2 ^ 64 \<Longrightarrow>
     bindM (recvVector s) f d = f v (d\<lparr>inbox := (inbox d)(s := rest)\<rparr>)"
  by (simp add: bindM_def recvVector_exact)

lemma bind_recv_i64:
  "inbox d s = i64_bytes i @ rest \<Longrightarrow>
     bindM (recv_i64 s) f d = f (wrap64 i) (d\<lparr>inbox := (inbox d)(s := rest)\<rparr>)"
  by (simp add: bindM_def recv_i64_exact)

lemma bind_recv_u8:
  "inbox d s = b # rest \<Longrightarrow> bindM (recv_u8 s) f d = f b (d\<lparr>inbox := (inbox d)(s := rest)\<rparr>)"
  by (simp add: bindM_def recv_u8_cons)

section \<open>Properties\<close>

text \<open>
  C33. Whatever the pieces in which the kernel moves a buffer, and however often its calls are
  interrupted, the loops of \<^verbatim>\<open>sendBytes\<close> and \<^verbatim>\<open>recvBytes\<close> finish once enough calls
  have made progress; the receiver then has the buffer exactly and what was sent behind it is
  still in the stream.
\<close>

theorem wire_transfer:
  assumes "list_all progress calls" and "length buffer \<le> moves calls"
    and "list_all progress calls'" and "length buffer \<le> moves calls'"
  shows "\<exists>sent. send_loop calls buffer = (Inr (), sent) \<and>
    recv_loop calls' (length buffer) (sent @ rest) = (Inr buffer, rest)"
  using send_loop_progress [OF assms(1,2)] recv_loop_progress [OF assms(3,4), of "buffer @ rest"] by simp

theorem wire_transfer_witness:
  "\<exists>sent. send_loop [Ret 1, EINTR, Ret 5, Ret 1] [10, 20, 30] = (Inr (), sent) \<and>
    recv_loop [EINTR, Ret 2, Ret 1, Ret 9] (length [10, 20, 30 :: byte]) (sent @ [7]) = (Inr [10, 20, 30], [7])"
  by (rule wire_transfer) (simp_all add: progress_def moves_def)

text \<open>
  A transfer that fails has sent a proper beginning of the buffer at most, and a
  \<^verbatim>\<open>recvBytes\<close> that returns has read exactly the bytes asked for: no byte is invented,
  dropped or read twice, for every sequence of system call results.
\<close>

theorem wire_no_corruption:
  "(\<forall>r sent. send_loop calls buffer = (r, sent) \<longrightarrow>
      prefix sent buffer \<and> (r = Inr () \<longrightarrow> sent = buffer)) \<and>
   (\<forall>bs rest. recv_loop calls n stream = (Inr bs, rest) \<longrightarrow> length bs = n \<and> bs @ rest = stream)"
  using send_loop_prefix [of calls buffer] send_loop_exact [of calls buffer] recv_loop_exact [of calls n stream]
  by (auto simp: prefix_def)

theorem wire_no_corruption_witness:
  "length [1, 2, 3 :: byte] = 3 \<and> [1, 2, 3] @ [4] = [1, 2, 3, 4 :: byte]"
  using wire_no_corruption [of "[Ret 2, Ret 2]" "[]" 3 "[1, 2, 3, 4]"] by (simp add: numeral_3_eq_3)

end
