(* ===== verification/TCPStore_Daemon.thy ===== *)
theory TCPStore_Daemon
  imports Tcp_Wire
begin

text \<open>
  \<^verbatim>\<open>TCPStoreDaemon\<close> (\<^verbatim>\<open>TCPStore.hpp\<close>, \<^verbatim>\<open>TCPStore.cpp\<close>): the thread that owns
  the key-value map of a \<^verbatim>\<open>TCPStore\<close>, reads queries from the connections and answers
  them. Its state extends the connections of \<open>net\<close>. Each handler is a command over that
  state; \<open>queryFds\<close> is the pass over the polled descriptors with the clean-up of a failed
  connection, and \<open>run_step\<close> one turn of the poll loop. The lemmas give what each handler
  does with a well-formed query and the accounting of waiting clients: the number of keys
  a connection awaits is the number of its registrations, and it is answered exactly when
  the last of them goes.
\<close>

section \<open>State\<close>

record daemon = net +
  tcpStore :: "(string, bytes) umap"
  waitingSockets :: "(string, int list) umap"
  keysAwaited :: "(int, 64 word) umap"
  sockets :: "int list"

datatype QueryType = SET | GET | ADD | CHECK | WAIT | GETNUMKEYS | DELETE_KEY

fun query_byte :: "QueryType \<Rightarrow> byte" where
  "query_byte SET = 0"
| "query_byte GET = 1"
| "query_byte ADD = 2"
| "query_byte CHECK = 3"
| "query_byte WAIT = 4"
| "query_byte GETNUMKEYS = 5"
| "query_byte DELETE_KEY = 6"

definition READY :: byte where "READY = 0"
definition NOT_READY :: byte where "NOT_READY = 1"
definition STOP_WAITING :: byte where "STOP_WAITING = 0"

section \<open>Handlers\<close>

definition checkKeys :: "string list \<Rightarrow> 'a daemon_scheme \<Rightarrow> bool" where
  "checkKeys keys d = list_all (\<lambda>s. umap_has (tcpStore d) s) keys"

fun wake_loop :: "int list \<Rightarrow> ('a daemon_scheme, unit) cmd" where
  "wake_loop [] = returnM ()"
| "wake_loop (sock # socks) =
     bindM (modifyM (\<lambda>d. d\<lparr>keysAwaited :=
              AList.update sock (umap_at 0 (keysAwaited d) sock - 1) (keysAwaited d)\<rparr>)) (\<lambda>_.
     bindM (getM (\<lambda>d. umap_at 0 (keysAwaited d) sock)) (\<lambda>left.
     bindM (if left = 0 then send_u8 sock STOP_WAITING else returnM ()) (\<lambda>_.
     wake_loop socks)))"

definition wakeupWaitingClients :: "string \<Rightarrow> ('a daemon_scheme, unit) cmd" where
  "wakeupWaitingClients key =
     bindM (getM (\<lambda>d. map_of (waitingSockets d) key)) (\<lambda>socketsToWait.
       case socketsToWait of
         None \<Rightarrow> returnM ()
       | Some socks \<Rightarrow>
           bindM (wake_loop socks) (\<lambda>_.
             modifyM (\<lambda>d. d\<lparr>waitingSockets := AList.delete key (waitingSockets d)\<rparr>)))"

definition setHandler :: "int \<Rightarrow> ('a daemon_scheme, unit) cmd" where
  "setHandler sock =
     bindM (recvString sock) (\<lambda>key.
     bindM (recvVector sock) (\<lambda>val.
     bindM (modifyM (\<lambda>d. d\<lparr>tcpStore := AList.update key val (tcpStore d)\<rparr>)) (\<lambda>_.
     wakeupWaitingClients key)))"

definition addHandler :: "int \<Rightarrow> ('a daemon_scheme, unit) cmd" where
  "addHandler sock =
     bindM (recvString sock) (\<lambda>key.
     bindM (recv_i64 sock) (\<lambda>addVal0.
     bindM (getM (\<lambda>d. map_of (tcpStore d) key)) (\<lambda>old.
     bindM (case old of
              None \<Rightarrow> returnM addVal0
            | Some buf \<Rightarrow> bindM (liftM (stoll (string_of buf))) (\<lambda>n. returnM (add64 addVal0 n))) (\<lambda>addVal.
     bindM (modifyM (\<lambda>d. d\<lparr>tcpStore := AList.update key (bytes_of (to_string addVal)) (tcpStore d)\<rparr>)) (\<lambda>_.
     bindM (send_i64 sock addVal) (\<lambda>_.
     wakeupWaitingClients key))))))"

definition getHandler :: "int \<Rightarrow> ('a daemon_scheme, unit) cmd" where
  "getHandler sock =
     bindM (recvString sock) (\<lambda>key.
     bindM (getM (\<lambda>d. map_of (tcpStore d) key)) (\<lambda>found.
       case found of
         None \<Rightarrow> throwM (Out_of_range ''unordered_map::at'')
       | Some data \<Rightarrow> sendVector sock data))"

definition getNumKeysHandler :: "int \<Rightarrow> ('a daemon_scheme, unit) cmd" where
  "getNumKeysHandler sock = bindM (getM (\<lambda>d. int (length (tcpStore d)))) (send_i64 sock)"

definition deleteHandler :: "int \<Rightarrow> ('a daemon_scheme, unit) cmd" where
  "deleteHandler sock =
     bindM (recvString sock) (\<lambda>key.
     bindM (getM (\<lambda>d. if umap_has (tcpStore d) key then 1 else 0)) (\<lambda>numDeleted.
     bindM (modifyM (\<lambda>d. d\<lparr>tcpStore := AList.delete key (tcpStore d)\<rparr>)) (\<lambda>_.
     send_i64 sock numDeleted)))"

fun recv_keys :: "int \<Rightarrow> nat \<Rightarrow> ('a daemon_scheme, string list) cmd" where
  "recv_keys sock 0 = returnM []"
| "recv_keys sock (Suc n) =
     bindM (recvString sock) (\<lambda>key. bindM (recv_keys sock n) (\<lambda>keys. returnM (key # keys)))"

definition checkHandler :: "int \<Rightarrow> ('a daemon_scheme, unit) cmd" where
  "checkHandler sock =
     bindM (recv_size sock) (\<lambda>nargs.
     bindM (recv_keys sock (unat nargs)) (\<lambda>keys.
     bindM (getM (checkKeys keys)) (\<lambda>ok.
     send_u8 sock (if ok then READY else NOT_READY))))"

definition register_wait :: "int \<Rightarrow> string \<Rightarrow> 'a daemon_scheme \<Rightarrow> 'a daemon_scheme" where
  "register_wait sock key d =
     d\<lparr>waitingSockets :=
         AList.update key (umap_at [] (waitingSockets d) key @ [sock]) (waitingSockets d)\<rparr>"

definition waitHandler :: "int \<Rightarrow> ('a daemon_scheme, unit) cmd" where
  "waitHandler sock =
     bindM (recv_size sock) (\<lambda>nargs.
     bindM (recv_keys sock (unat nargs)) (\<lambda>keys.
     bindM (getM (checkKeys keys)) (\<lambda>ok.
     if ok then send_u8 sock STOP_WAITING
     else modifyM (\<lambda>d.
       (fold (register_wait sock) keys d)
         \<lparr>keysAwaited := AList.update sock (word_of_nat (length keys)) (keysAwaited d)\<rparr>))))"

definition query :: "int \<Rightarrow> ('a daemon_scheme, unit) cmd" where
  "query sock =
     bindM (recv_u8 sock) (\<lambda>qt.
       if qt = query_byte SET then setHandler sock
       else if qt = query_byte ADD then addHandler sock
       else if qt = query_byte GET then getHandler sock
       else if qt = query_byte CHECK then checkHandler sock
       else if qt = query_byte WAIT then waitHandler sock
       else if qt = query_byte GETNUMKEYS then getNumKeysHandler sock
       else if qt = query_byte DELETE_KEY then deleteHandler sock
       else throwM (Runtime_error ''Unexpected query type''))"

section \<open>The poll loop\<close>

text \<open>The tracking state of a connection whose query threw is removed.\<close>

definition drop_waits :: "int \<Rightarrow> (string, int list) umap \<Rightarrow> (string, int list) umap" where
  "drop_waits sock ws =
     filter (\<lambda>(k, ss). ss \<noteq> []) (map (\<lambda>(k, ss). (k, filter (\<lambda>s. s \<noteq> sock) ss)) ws)"

definition forget_socket :: "int \<Rightarrow> 'a daemon_scheme \<Rightarrow> 'a daemon_scheme" where
  "forget_socket sock d =
     (closeSocket sock d)\<lparr>
        waitingSockets := drop_waits sock (waitingSockets d),
        keysAwaited := AList.delete sock (keysAwaited d)\<rparr>"

record pollfd =
  fd :: int
  revents :: nat

definition CONNECT_SOCKET_OFFSET :: nat where "CONNECT_SOCKET_OFFSET = 2"

definition erase_at :: "nat \<Rightarrow> 'b list \<Rightarrow> 'b list" where
  "erase_at i xs = take i xs @ drop (Suc i) xs"

lemma length_erase_at [simp]: "i < length xs \<Longrightarrow> length (erase_at i xs) = length xs - 1"
  by (simp add: erase_at_def)

function queryFds_from :: "nat \<Rightarrow> pollfd list \<Rightarrow> 'a daemon_scheme \<Rightarrow> pollfd list \<times> 'a daemon_scheme" where
  "queryFds_from fdIdx fds d =
     (if fdIdx < length fds then
        if revents (fds ! fdIdx) = 0 then queryFds_from (Suc fdIdx) fds d
        else case query (fd (fds ! fdIdx)) d of
               (Inr u, d') \<Rightarrow> queryFds_from (Suc fdIdx) fds d'
             | (Inl e, d') \<Rightarrow>
                 queryFds_from fdIdx (erase_at fdIdx fds)
                   ((forget_socket (fd (fds ! fdIdx)) d')
                      \<lparr>sockets := erase_at (fdIdx - CONNECT_SOCKET_OFFSET) (sockets d')\<rparr>)
      else (fds, d))"
  by pat_completeness auto
termination
  by (relation "measure (\<lambda>(fdIdx, fds, d). length fds - fdIdx)") auto

declare queryFds_from.simps [simp del]

definition queryFds :: "pollfd list \<Rightarrow> 'a daemon_scheme \<Rightarrow> pollfd list \<times> 'a daemon_scheme" where
  "queryFds fds d = queryFds_from CONNECT_SOCKET_OFFSET fds d"

text \<open>
  One turn of the loop of \<open>run\<close>: \<open>polled\<close> is what \<^verbatim>\<open>::poll\<close> reported (the same
  descriptors with their events), \<open>accepted\<close> the descriptor \<^verbatim>\<open>accept\<close> returns when the
  listening socket has an event. \<^verbatim>\<open>POLLIN\<close> is 1 and \<^verbatim>\<open>POLLHUP\<close> 16. The result says
  whether the loop goes on.
\<close>

definition POLLIN :: nat where "POLLIN = 1"
definition POLLHUP :: nat where "POLLHUP = 16"

definition run_accept :: "int \<Rightarrow> pollfd list \<Rightarrow> 'a daemon_scheme \<Rightarrow> (pollfd list \<times> 'a daemon_scheme) res" where
  "run_accept accepted fds d =
     (if revents (fds ! 0) \<noteq> 0 then
        if revents (fds ! 0) \<noteq> POLLIN then Inl (System_error ''ECONNABORTED'')
        else Inr (fds @ [\<lparr>fd = accepted, revents = 0\<rparr>], d\<lparr>sockets := sockets d @ [accepted]\<rparr>)
      else Inr (fds, d))"

definition run_step :: "int \<Rightarrow> pollfd list \<Rightarrow> 'a daemon_scheme \<Rightarrow> (bool \<times> pollfd list \<times> 'a daemon_scheme) res" where
  "run_step accepted polled d =
     bindE (run_accept accepted polled d) (\<lambda>(fds, d).
       if revents (fds ! 1) \<noteq> 0 then
         if revents (fds ! 1) \<noteq> POLLHUP then Inl (System_error ''ECONNABORTED'')
         else Inr (False, fds, d)
       else case queryFds fds d of (fds, d) \<Rightarrow> Inr (True, fds, d))"

section \<open>Accounting of waiting clients\<close>

text \<open>How often a connection is registered, over all keys.\<close>

definition registrations :: "(string, int list) umap \<Rightarrow> int \<Rightarrow> nat" where
  "registrations ws s = sum_list (map (\<lambda>(k, ss). count_list ss s) ws)"

definition awaits :: "'a daemon_scheme \<Rightarrow> int \<Rightarrow> string set" where
  "awaits d s = {k. \<exists>ss. map_of (waitingSockets d) k = Some ss \<and> s \<in> set ss}"

definition wait_inv :: "'a daemon_scheme \<Rightarrow> bool" where
  "wait_inv d \<longleftrightarrow> umap_wf (waitingSockets d) \<and>
     (\<forall>s. registrations (waitingSockets d) s = unat (umap_at 0 (keysAwaited d) s))"

lemma registrations_simps [simp]:
  "registrations [] s = 0"
  "registrations ((k, ss) # ws) s = count_list ss s + registrations ws s"
  by (simp_all add: registrations_def)

lemma registrations_delete:
  "umap_wf ws \<Longrightarrow> registrations ws s =
     (case map_of ws k of None \<Rightarrow> 0 | Some ss \<Rightarrow> count_list ss s) + registrations (AList.delete k ws) s"
proof (induction ws)
  case Nil
  then show ?case by simp
next
  case (Cons kv ws)
  obtain k' ss where kv: "kv = (k', ss)" by force
  from Cons.prems kv have wf: "umap_wf ws" and k': "k' \<notin> fst ` set ws" by (auto simp: umap_wf_def)
  then have "map_of ws k' = None" by (simp add: map_of_eq_None_iff)
  moreover have "AList.delete k' ws = ws" using k' by (simp add: delete_id)
  ultimately show ?case using Cons.IH [OF wf] kv by (cases "k = k'") (auto simp: delete_simps)
qed

lemma registrations_update:
  "umap_wf ws \<Longrightarrow> registrations (AList.update k ss ws) s + (case map_of ws k of None \<Rightarrow> 0 | Some ss' \<Rightarrow> count_list ss' s)
     = registrations ws s + count_list ss s"
proof (induction ws)
  case Nil
  then show ?case by simp
next
  case (Cons kv ws)
  obtain k' ss' where kv: "kv = (k', ss')" by force
  from Cons.prems kv have wf: "umap_wf ws" and k': "k' \<notin> fst ` set ws" by (auto simp: umap_wf_def)
  then have "map_of ws k' = None" by (simp add: map_of_eq_None_iff)
  then show ?case using Cons.IH [OF wf] kv by (cases "k = k'") auto
qed

lemma registrations_pos_iff: "umap_wf ws \<Longrightarrow> 0 < registrations ws s \<longleftrightarrow> (\<exists>k ss. map_of ws k = Some ss \<and> s \<in> set ss)"
proof -
  assume wf: "umap_wf ws"
  have "0 < registrations ws s \<longleftrightarrow> (\<exists>(k, ss) \<in> set ws. s \<in> set ss)"
    by (induction ws) (auto simp: count_list_0_iff)
  then show ?thesis using wf by (auto simp: umap_wf_def map_of_eq_Some_iff)
qed

lemma awaits_empty_iff: "wait_inv d \<Longrightarrow> awaits d s = {} \<longleftrightarrow> umap_at 0 (keysAwaited d) s = 0"
proof -
  assume inv: "wait_inv d"
  then have "awaits d s = {} \<longleftrightarrow> registrations (waitingSockets d) s = 0"
    using registrations_pos_iff [of "waitingSockets d" s] by (auto simp: awaits_def wait_inv_def)
  with inv show ?thesis by (simp add: wait_inv_def unat_eq_0)
qed

text \<open>
  The wake-up loop takes one off the count of a connection per registration and sends
  \<^verbatim>\<open>STOP_WAITING\<close> where the count reaches zero.
\<close>

lemma wake_loop_counts:
  assumes "\<And>s. \<not> broken d s" and "\<And>s. count_list ss s \<le> unat (umap_at 0 (keysAwaited d) s)"
  shows "\<exists>ka ob. wake_loop ss d = (Inr (), d\<lparr>keysAwaited := ka, outbox := ob\<rparr>) \<and>
           (\<forall>s. unat (umap_at 0 ka s) = unat (umap_at 0 (keysAwaited d) s) - count_list ss s) \<and>
           (\<forall>s. ob s = outbox d s @
              (if s \<in> set ss \<and> count_list ss s = unat (umap_at 0 (keysAwaited d) s) then [STOP_WAITING] else []))"
  using assms
proof (induction ss arbitrary: d)
  case Nil
  then show ?case by (intro exI [of _ "keysAwaited d"] exI [of _ "outbox d"]) simp
next
  case (Cons t ss)
  let ?c = "umap_at 0 (keysAwaited d) t"
  let ?ka = "AList.update t (?c - 1) (keysAwaited d)"
  let ?ob = "if ?c - 1 = 0 then (outbox d)(t := outbox d t @ [STOP_WAITING]) else outbox d"
  let ?d1 = "d\<lparr>keysAwaited := ?ka, outbox := ?ob\<rparr>"
  have ct: "Suc (count_list ss t) \<le> unat ?c" using Cons.prems(2) [of t] by simp
  then have "?c \<noteq> 0" by auto
  then have dec: "unat (?c - 1) = unat ?c - 1" by (simp add: unat_minus_one)
  have step: "wake_loop (t # ss) d = wake_loop ss ?d1"
    using Cons.prems(1) by (simp add: bindM_def send_u8_def sendBytes_ok)
  have cnt: "count_list ss s \<le> unat (umap_at 0 (keysAwaited ?d1) s)" for s
    using Cons.prems(2) [of s] ct dec by (cases "s = t") (auto split: if_splits)
  from Cons.IH [of ?d1] Cons.prems(1) cnt obtain ka ob where
    IH: "wake_loop ss ?d1 = (Inr (), ?d1\<lparr>keysAwaited := ka, outbox := ob\<rparr>)"
      "\<And>s. unat (umap_at 0 ka s) = unat (umap_at 0 ?ka s) - count_list ss s"
      "\<And>s. ob s = ?ob s @
          (if s \<in> set ss \<and> count_list ss s = unat (umap_at 0 ?ka s) then [STOP_WAITING] else [])"
    by auto
  have zero: "?c - 1 = 0 \<longleftrightarrow> unat ?c = 1"
  proof -
    have "?c - 1 = 0 \<longleftrightarrow> unat (?c - 1) = 0" by (simp only: unat_eq_0)
    then show ?thesis using dec ct by arith
  qed
  have mem: "t \<in> set ss \<longleftrightarrow> count_list ss t \<noteq> 0" by (simp add: count_list_0_iff)
  show ?case
  proof (intro exI [of _ ka] exI [of _ ob] conjI allI)
    show "wake_loop (t # ss) d = (Inr (), d\<lparr>keysAwaited := ka, outbox := ob\<rparr>)"
      using step IH(1) by simp
  next
    fix s
    show "unat (umap_at 0 ka s) = unat (umap_at 0 (keysAwaited d) s) - count_list (t # ss) s"
      using IH(2) [of s] dec by (cases "s = t") simp_all
  next
    fix s
    show "ob s = outbox d s @ (if s \<in> set (t # ss) \<and>
        count_list (t # ss) s = unat (umap_at 0 (keysAwaited d) s) then [STOP_WAITING] else [])"
      using IH(3) [of s] dec zero ct mem by (cases "s = t") auto
  qed
qed

text \<open>
  The effect of \<^verbatim>\<open>wakeupWaitingClients\<close> on a connection: its set of awaited keys loses the
  key, and it is sent \<^verbatim>\<open>STOP_WAITING\<close> if that was the last one.
\<close>

lemma wakeup_effect:
  assumes inv: "wait_inv d" and ok: "\<And>s. \<not> broken d s"
  shows "\<exists>ws ka ob. wakeupWaitingClients k d =
             (Inr (), d\<lparr>waitingSockets := ws, keysAwaited := ka, outbox := ob\<rparr>) \<and>
           map_of ws = (map_of (waitingSockets d))(k := None) \<and>
           wait_inv (d\<lparr>waitingSockets := ws, keysAwaited := ka, outbox := ob\<rparr>) \<and>
           (\<forall>s. ob s = outbox d s @
              (if awaits d s \<noteq> {} \<and> awaits d s \<subseteq> {k} then [STOP_WAITING] else []))"
proof (cases "map_of (waitingSockets d) k")
  case None
  then have "k \<notin> awaits d s" for s by (simp add: awaits_def)
  then have "\<not> (awaits d s \<noteq> {} \<and> awaits d s \<subseteq> {k})" for s by auto
  with None inv show ?thesis
    by (intro exI [of _ "waitingSockets d"] exI [of _ "keysAwaited d"] exI [of _ "outbox d"])
       (simp add: wakeupWaitingClients_def bindM_def fun_upd_idem)
next
  case (Some ss)
  let ?ws = "AList.delete k (waitingSockets d)"
  have wf: "umap_wf (waitingSockets d)"
    and reg: "\<And>s. registrations (waitingSockets d) s = unat (umap_at 0 (keysAwaited d) s)"
    using inv by (auto simp: wait_inv_def)
  have split: "unat (umap_at 0 (keysAwaited d) s) = count_list ss s + registrations ?ws s" for s
    using registrations_delete [OF wf, of s k] Some reg [of s] by simp
  have cnt: "\<And>s. count_list ss s \<le> unat (umap_at 0 (keysAwaited d) s)" by (simp add: split)
  from wake_loop_counts [OF ok cnt] obtain ka ob where
    wl: "wake_loop ss d = (Inr (), d\<lparr>keysAwaited := ka, outbox := ob\<rparr>)"
    and ka: "\<And>s. unat (umap_at 0 ka s) = unat (umap_at 0 (keysAwaited d) s) - count_list ss s"
    and ob: "\<And>s. ob s = outbox d s @
       (if s \<in> set ss \<and> count_list ss s = unat (umap_at 0 (keysAwaited d) s) then [STOP_WAITING] else [])"
    by auto
  have last: "s \<in> set ss \<and> count_list ss s = unat (umap_at 0 (keysAwaited d) s) \<longleftrightarrow>
      awaits d s \<noteq> {} \<and> awaits d s \<subseteq> {k}" for s
  proof -
    have "registrations ?ws s = 0 \<longleftrightarrow> (\<forall>k' ss'. map_of ?ws k' = Some ss' \<longrightarrow> s \<notin> set ss')"
      using registrations_pos_iff [OF umap_wf_delete [OF wf], of k s] by (metis neq0_conv)
    then have "registrations ?ws s = 0 \<longleftrightarrow> awaits d s \<subseteq> {k}"
      by (auto simp: awaits_def split: if_splits)
    moreover have "s \<in> set ss \<longleftrightarrow> k \<in> awaits d s" using Some by (simp add: awaits_def)
    ultimately show ?thesis using split [of s] by auto
  qed
  show ?thesis
  proof (intro exI [of _ ?ws] exI [of _ ka] exI [of _ ob] conjI allI)
    show "wakeupWaitingClients k d = (Inr (), d\<lparr>waitingSockets := ?ws, keysAwaited := ka, outbox := ob\<rparr>)"
      using Some wl by (simp add: wakeupWaitingClients_def bindM_def)
    show "map_of ?ws = (map_of (waitingSockets d))(k := None)" by simp
    show "wait_inv (d\<lparr>waitingSockets := ?ws, keysAwaited := ka, outbox := ob\<rparr>)"
      using wf split ka by (simp add: wait_inv_def)
  next
    fix s
    show "ob s = outbox d s @ (if awaits d s \<noteq> {} \<and> awaits d s \<subseteq> {k} then [STOP_WAITING] else [])"
      using ob [of s] last [of s] by simp
  qed
qed

section \<open>Handlers on well-formed queries\<close>

lemma setHandler_ok:
  assumes "inbox d s = enc_string k @ enc_vector v @ rest" and "length k < 2 ^ 64" and "length v < 2 ^ 64"
  shows "setHandler s d =
     wakeupWaitingClients k (d\<lparr>inbox := (inbox d)(s := rest), tcpStore := AList.update k v (tcpStore d)\<rparr>)"
proof -
  let ?d1 = "d\<lparr>inbox := (inbox d)(s := enc_vector v @ rest)\<rparr>"
  have "setHandler s d = bindM (recvVector s) (\<lambda>val.
      bindM (modifyM (\<lambda>d. d\<lparr>tcpStore := AList.update k val (tcpStore d)\<rparr>)) (\<lambda>_. wakeupWaitingClients k)) ?d1"
    unfolding setHandler_def by (rule bind_recvString [OF assms(1,2)])
  also have "\<dots> = bindM (modifyM (\<lambda>d. d\<lparr>tcpStore := AList.update k v (tcpStore d)\<rparr>))
      (\<lambda>_. wakeupWaitingClients k) (d\<lparr>inbox := (inbox d)(s := rest)\<rparr>)"
    using bind_recvVector [of ?d1 s v rest] assms(3) by simp
  finally show ?thesis by (simp add: bindM_def)
qed

lemma addHandler_ok:
  assumes "inbox d s = enc_string k @ i64_bytes i @ rest" and "length k < 2 ^ 64" and "in_int64 i"
    and "map_of (tcpStore d) k = None \<and> n = 0 \<or> map_of (tcpStore d) k = Some (num_bytes n)" and "in_int64 n"
    and "\<not> broken d s"
  shows "addHandler s d =
     wakeupWaitingClients k (d\<lparr>inbox := (inbox d)(s := rest),
       tcpStore := AList.update k (num_bytes (add64 n i)) (tcpStore d),
       outbox := (outbox d)(s := outbox d s @ i64_bytes (add64 n i))\<rparr>)"
proof -
  have "add64 i n = add64 n i" by (simp add: add64_def add.commute)
  moreover have "n = 0 \<Longrightarrow> add64 n i = i" using assms(3) by (simp add: add64_def wrap64_id)
  moreover have "recv_i64 s (d\<lparr>inbox := (inbox d)(s := i64_bytes i @ rest)\<rparr>) =
      (Inr i, d\<lparr>inbox := (inbox d)(s := rest)\<rparr>)"
    using recv_i64_exact [of "d\<lparr>inbox := (inbox d)(s := i64_bytes i @ rest)\<rparr>" s i rest] assms(3)
    by (simp add: wrap64_id)
  ultimately show ?thesis
    using assms(4-6)
    by (auto simp: addHandler_def recvString_exact [OF assms(1,2)] bindM_def
        send_i64_def sendBytes_ok simp flip: num_bytes_def)
qed

lemma getHandler_ok:
  assumes "inbox d s = enc_string k @ rest" and "length k < 2 ^ 64"
    and "map_of (tcpStore d) k = Some v" and "\<not> broken d s"
  shows "getHandler s d = (Inr (), d\<lparr>inbox := (inbox d)(s := rest),
     outbox := (outbox d)(s := outbox d s @ enc_vector v)\<rparr>)"
  using assms(3,4)
  by (simp add: getHandler_def recvString_exact [OF assms(1,2)] bindM_def sendVector_ok)

lemma getHandler_missing:
  assumes "inbox d s = enc_string k @ rest" and "length k < 2 ^ 64" and "map_of (tcpStore d) k = None"
  shows "fst (getHandler s d) = Inl (Out_of_range ''unordered_map::at'')"
  using assms(3)
  by (simp add: getHandler_def recvString_exact [OF assms(1,2)] bindM_def)

lemma deleteHandler_ok:
  assumes "inbox d s = enc_string k @ rest" and "length k < 2 ^ 64" and "\<not> broken d s"
  shows "deleteHandler s d = (Inr (), d\<lparr>inbox := (inbox d)(s := rest),
     tcpStore := AList.delete k (tcpStore d),
     outbox := (outbox d)(s := outbox d s @ i64_bytes (if umap_has (tcpStore d) k then 1 else 0))\<rparr>)"
  using assms(3)
  by (simp add: deleteHandler_def recvString_exact [OF assms(1,2)] bindM_def
        send_i64_def sendBytes_ok)

lemma getNumKeysHandler_ok:
  "\<not> broken d s \<Longrightarrow> getNumKeysHandler s d =
     (Inr (), d\<lparr>outbox := (outbox d)(s := outbox d s @ i64_bytes (int (length (tcpStore d))))\<rparr>)"
  by (simp add: getNumKeysHandler_def bindM_def send_i64_def sendBytes_ok)

definition enc_keys :: "string list \<Rightarrow> bytes" where
  "enc_keys ks = u64_bytes (word_of_nat (length ks)) @ concat (map enc_string ks)"

lemma recv_keys_ok:
  assumes "inbox d s = concat (map enc_string ks) @ rest" and "list_all (\<lambda>k. length k < 2 ^ 64) ks"
  shows "recv_keys s (length ks) d = (Inr ks, d\<lparr>inbox := (inbox d)(s := rest)\<rparr>)"
  using assms
proof (induction ks arbitrary: d)
  case Nil
  then show ?case by (simp add: fun_upd_idem)
next
  case (Cons k ks)
  let ?d1 = "d\<lparr>inbox := (inbox d)(s := concat (map enc_string ks) @ rest)\<rparr>"
  have rd: "recvString s d = (Inr k, ?d1)"
    using Cons.prems by (intro recvString_exact) simp_all
  have "recv_keys s (length ks) ?d1 = (Inr ks, ?d1\<lparr>inbox := (inbox ?d1)(s := rest)\<rparr>)"
    using Cons.prems(2) by (intro Cons.IH) simp_all
  moreover have "?d1\<lparr>inbox := (inbox ?d1)(s := rest)\<rparr> = d\<lparr>inbox := (inbox d)(s := rest)\<rparr>" by simp
  moreover note rd
  ultimately show ?case by (simp add: bindM_def fun_upd_def)
qed

lemma recv_keys_query:
  assumes "inbox d s = enc_keys ks @ rest" and "list_all (\<lambda>k. length k < 2 ^ 64) ks" and "length ks < 2 ^ 64"
  shows "bindM (recv_size s) (\<lambda>n. bindM (recv_keys s (unat n)) f) d =
     f ks (d\<lparr>inbox := (inbox d)(s := rest)\<rparr>)"
proof -
  let ?d1 = "d\<lparr>inbox := (inbox d)(s := concat (map enc_string ks) @ rest)\<rparr>"
  have "recv_size s d = (Inr (word_of_nat (length ks)), ?d1)"
    using assms(1) by (intro recv_size_exact) (simp add: enc_keys_def)
  moreover have "recv_keys s (length ks) ?d1 = (Inr ks, d\<lparr>inbox := (inbox d)(s := rest)\<rparr>)"
    using recv_keys_ok [of ?d1 s ks rest] assms(2) by simp
  ultimately show ?thesis using assms(3) by (simp add: bindM_def)
qed

lemma checkHandler_ok:
  assumes "inbox d s = enc_keys ks @ rest" and "list_all (\<lambda>k. length k < 2 ^ 64) ks" and "length ks < 2 ^ 64"
    and "\<not> broken d s"
  shows "checkHandler s d = (Inr (), d\<lparr>inbox := (inbox d)(s := rest),
     outbox := (outbox d)(s := outbox d s @ [if checkKeys ks d then READY else NOT_READY])\<rparr>)"
  using assms(4)
  by (simp add: checkHandler_def recv_keys_query [OF assms(1-3)])
     (simp add: bindM_def send_u8_def sendBytes_ok checkKeys_def)

lemma waitHandler_ready:
  assumes "inbox d s = enc_keys ks @ rest" and "list_all (\<lambda>k. length k < 2 ^ 64) ks" and "length ks < 2 ^ 64"
    and "\<not> broken d s" and "checkKeys ks d"
  shows "waitHandler s d = (Inr (), d\<lparr>inbox := (inbox d)(s := rest),
     outbox := (outbox d)(s := outbox d s @ [STOP_WAITING])\<rparr>)"
  using assms(4,5)
  by (simp add: waitHandler_def recv_keys_query [OF assms(1-3)])
     (simp add: bindM_def send_u8_def sendBytes_ok checkKeys_def)

lemma waitHandler_register:
  assumes "inbox d s = enc_keys ks @ rest" and "list_all (\<lambda>k. length k < 2 ^ 64) ks" and "length ks < 2 ^ 64"
    and "\<not> checkKeys ks d"
  shows "waitHandler s d = (Inr (),
     (fold (register_wait s) ks (d\<lparr>inbox := (inbox d)(s := rest)\<rparr>))
       \<lparr>keysAwaited := AList.update s (word_of_nat (length ks)) (keysAwaited d)\<rparr>)"
  using assms(4)
  by (simp add: waitHandler_def recv_keys_query [OF assms(1-3)])
     (simp add: bindM_def checkKeys_def)

text \<open>Registering a connection for a list of keys.\<close>

lemma fold_register_waits:
  assumes "umap_wf (waitingSockets d)"
  shows "\<exists>ws. fold (register_wait s) ks d = d\<lparr>waitingSockets := ws\<rparr> \<and> umap_wf ws \<and>
     (\<forall>t. registrations ws t = registrations (waitingSockets d) t + (if t = s then length ks else 0)) \<and>
     (\<forall>t. awaits (d\<lparr>waitingSockets := ws\<rparr>) t = awaits d t \<union> (if t = s then set ks else {}))"
  using assms
proof (induction ks arbitrary: d)
  case Nil
  then show ?case by (intro exI [of _ "waitingSockets d"]) simp
next
  case (Cons k ks)
  let ?ws1 = "AList.update k (umap_at [] (waitingSockets d) k @ [s]) (waitingSockets d)"
  let ?d1 = "d\<lparr>waitingSockets := ?ws1\<rparr>"
  have reg1: "registrations ?ws1 t = registrations (waitingSockets d) t + (if t = s then 1 else 0)" for t
    using registrations_update [OF Cons.prems, of k "umap_at [] (waitingSockets d) k @ [s]" t]
    by (cases "t = s"; cases "map_of (waitingSockets d) k") (simp_all add: umap_at_def)
  have aw1: "awaits ?d1 t = awaits d t \<union> (if t = s then {k} else {})" for t
    by (auto simp: awaits_def umap_at_def split: option.splits if_splits)
  have "umap_wf (waitingSockets ?d1)" using Cons.prems by simp
  from Cons.IH [OF this] obtain ws where ws:
    "fold (register_wait s) ks ?d1 = ?d1\<lparr>waitingSockets := ws\<rparr>" "umap_wf ws"
    "\<And>t. registrations ws t = registrations ?ws1 t + (if t = s then length ks else 0)"
    "\<And>t. awaits (?d1\<lparr>waitingSockets := ws\<rparr>) t = awaits ?d1 t \<union> (if t = s then set ks else {})"
    by auto
  have "register_wait s k d = ?d1" by (simp add: register_wait_def)
  with ws reg1 aw1 show ?case by (intro exI [of _ ws]) auto
qed

lemma waitHandler_effect:
  assumes "inbox d s = enc_keys ks @ rest" and "list_all (\<lambda>k. length k < 2 ^ 64) ks" and "length ks < 2 ^ 64"
    and "\<not> checkKeys ks d" and "wait_inv d" and "awaits d s = {}"
  shows "\<exists>ws ka. waitHandler s d =
       (Inr (), d\<lparr>inbox := (inbox d)(s := rest), waitingSockets := ws, keysAwaited := ka\<rparr>) \<and>
     wait_inv (d\<lparr>inbox := (inbox d)(s := rest), waitingSockets := ws, keysAwaited := ka\<rparr>) \<and>
     awaits (d\<lparr>inbox := (inbox d)(s := rest), waitingSockets := ws, keysAwaited := ka\<rparr>) = (awaits d)(s := set ks)"
proof -
  let ?d1 = "d\<lparr>inbox := (inbox d)(s := rest)\<rparr>"
  have wf: "umap_wf (waitingSockets ?d1)"
    and reg: "\<And>t. registrations (waitingSockets d) t = unat (umap_at 0 (keysAwaited d) t)"
    using assms(5) by (auto simp: wait_inv_def)
  have r0: "registrations (waitingSockets d) s = 0"
    using awaits_empty_iff [OF assms(5), of s] assms(6) reg [of s] by simp
  from fold_register_waits [OF wf, of s ks] obtain ws where ws:
    "fold (register_wait s) ks ?d1 = ?d1\<lparr>waitingSockets := ws\<rparr>" "umap_wf ws"
    "\<And>t. registrations ws t = registrations (waitingSockets d) t + (if t = s then length ks else 0)"
    "\<And>t. awaits (?d1\<lparr>waitingSockets := ws\<rparr>) t = awaits ?d1 t \<union> (if t = s then set ks else {})"
    by auto
  let ?d' = "?d1\<lparr>waitingSockets := ws, keysAwaited := AList.update s (word_of_nat (length ks)) (keysAwaited d)\<rparr>"
  have "waitHandler s d = (Inr (), ?d')" using waitHandler_register [OF assms(1-4)] ws(1) by simp
  moreover have "wait_inv ?d'" using ws(2,3) reg r0 assms(3) by (auto simp: wait_inv_def)
  moreover have "awaits ?d' t = awaits d t \<union> (if t = s then set ks else {})" for t
    using ws(4) [of t] by (simp add: awaits_def)
  then have "awaits ?d' = (awaits d)(s := set ks)" using assms(6) by (auto simp: fun_eq_iff)
  ultimately show ?thesis by blast
qed

section \<open>The poll loop keeps descriptors and connections in step\<close>

lemma keepsM_sendBytes [intro]: "(\<And>d x. f (d\<lparr>outbox := x\<rparr>) = f d) \<Longrightarrow> keepsM f (sendBytes s bs)"
  unfolding sendBytes_def by (intro keepsM_if keepsM_bind keepsM_I keepsM_modify) simp

lemma keepsM_recvBytes [intro]: "(\<And>d x. f (d\<lparr>inbox := x\<rparr>) = f d) \<Longrightarrow> keepsM f (recvBytes s n)"
  unfolding recvBytes_def by (intro keepsM_if keepsM_bind keepsM_I keepsM_modify) simp

lemmas wire_keeps_defs = send_u8_def send_i64_def recv_u8_def recv_i64_def recv_size_def
  sendVector_def recvVector_def recvString_def

lemma keepsM_wake_loop [intro]: "keepsM sockets (wake_loop ss)"
proof (induction ss)
  case (Cons t ss)
  show ?case unfolding wake_loop.simps send_u8_def
    by (intro keepsM_bind keepsM_if keepsM_I keepsM_modify keepsM_sendBytes Cons.IH) simp_all
qed simp

lemma keepsM_recvString [intro]:
  "(\<And>d x. f (d\<lparr>inbox := x\<rparr>) = f d) \<Longrightarrow> keepsM f (recvString s)"
  unfolding wire_keeps_defs by (intro keepsM_bind keepsM_I keepsM_recvBytes) simp_all

lemma keepsM_recv_keys [intro]: "keepsM sockets (recv_keys s n)"
proof (induction n)
  case (Suc n)
  have "keepsM sockets (recvString s)" by (rule keepsM_recvString) simp
  with Suc show ?case by auto
qed auto

lemma keepsM_wakeup [intro]: "keepsM sockets (wakeupWaitingClients k)"
  unfolding wakeupWaitingClients_def by (intro keepsM_bind keepsM_I keepsM_option) auto

lemma sockets_fold_register [simp]: "sockets (fold (register_wait s) ks d) = sockets d"
  by (induction ks arbitrary: d) (simp_all add: register_wait_def)

lemma keepsM_handlers [intro]:
  "keepsM sockets (setHandler s)" "keepsM sockets (addHandler s)" "keepsM sockets (getHandler s)"
  "keepsM sockets (checkHandler s)" "keepsM sockets (waitHandler s)" "keepsM sockets (getNumKeysHandler s)"
  "keepsM sockets (deleteHandler s)"
  unfolding setHandler_def addHandler_def getHandler_def checkHandler_def waitHandler_def
    getNumKeysHandler_def deleteHandler_def wire_keeps_defs
  by (intro keepsM_bind keepsM_I keepsM_option keepsM_if keepsM_wakeup keepsM_recv_keys
        keepsM_sendBytes keepsM_recvBytes keepsM_modify; simp)+

lemma keepsM_query: "keepsM sockets (query s)"
  unfolding query_def recv_u8_def
  by (intro keepsM_bind keepsM_if keepsM_I keepsM_recvBytes keepsM_handlers) simp_all

lemmas query_sockets = keepsM_D [OF keepsM_query]

lemma erase_at_map: "map f (erase_at i xs) = erase_at i (map f xs)"
  by (simp add: erase_at_def take_map drop_map)

lemma drop_erase_at: "n \<le> i \<Longrightarrow> drop n (erase_at i xs) = erase_at (i - n) (drop n xs)"
proof (cases "i < length xs")
  case True
  assume "n \<le> i"
  with True show ?thesis by (simp add: erase_at_def drop_take drop_drop)
next
  case False
  assume "n \<le> i"
  with False show ?thesis by (simp add: erase_at_def)
qed

lemma queryFds_from_sockets:
  assumes "CONNECT_SOCKET_OFFSET \<le> i" and "map fd (drop CONNECT_SOCKET_OFFSET fds) = sockets d"
    and "queryFds_from i fds d = (fds', d')"
  shows "map fd (drop CONNECT_SOCKET_OFFSET fds') = sockets d'"
  using assms
proof (induction i fds d arbitrary: fds' d' rule: queryFds_from.induct)
  case (1 i fds d)
  show ?case
  proof (cases "i < length fds \<and> revents (fds ! i) \<noteq> 0")
    case True
    obtain r d1 where q: "query (fd (fds ! i)) d = (r, d1)" by force
    from query_sockets [OF q] have s1: "sockets d1 = sockets d" .
    show ?thesis
    proof (cases r)
      case (Inl e)
      have "map fd (drop CONNECT_SOCKET_OFFSET (erase_at i fds)) =
          erase_at (i - CONNECT_SOCKET_OFFSET) (map fd (drop CONNECT_SOCKET_OFFSET fds))"
        using "1.prems"(1) by (simp add: drop_erase_at erase_at_map)
      with "1.IH"(2) [of r d1 e] "1.prems" True q Inl s1 show ?thesis
        by (simp add: queryFds_from.simps [of i fds d])
    next
      case (Inr u)
      with "1.IH"(3) [of r d1 u] "1.prems" True q s1 show ?thesis
        by (simp add: queryFds_from.simps [of i fds d])
    qed
  next
    case False
    with "1.IH"(1) "1.prems" show ?thesis
      by (auto simp: queryFds_from.simps [of i fds d] split: if_splits)
  qed
qed

text \<open>A pass in which exactly one connection has an event serves that connection.\<close>

lemma queryFds_from_skip:
  "i \<le> n \<Longrightarrow> n \<le> length fds \<Longrightarrow> (\<And>j. i \<le> j \<Longrightarrow> j < n \<Longrightarrow> revents (fds ! j) = 0) \<Longrightarrow>
     queryFds_from i fds d = queryFds_from n fds d"
proof (induction "n - i" arbitrary: i)
  case 0
  then show ?case by simp
next
  case (Suc m)
  then have "i < length fds" and "revents (fds ! i) = 0" by auto
  then have "queryFds_from i fds d = queryFds_from (Suc i) fds d"
    by (simp add: queryFds_from.simps [of i fds d])
  also have "\<dots> = queryFds_from n fds d" using Suc by (intro Suc.hyps(1)) auto
  finally show ?case .
qed

lemma queryFds_from_end: "length fds \<le> i \<Longrightarrow> queryFds_from i fds d = (fds, d)"
  by (subst queryFds_from.simps) simp

lemma queryFds_one:
  assumes "CONNECT_SOCKET_OFFSET \<le> n" and "n < length fds" and "revents (fds ! n) \<noteq> 0"
    and "\<And>j. CONNECT_SOCKET_OFFSET \<le> j \<Longrightarrow> j < length fds \<Longrightarrow> j \<noteq> n \<Longrightarrow> revents (fds ! j) = 0"
    and "query (fd (fds ! n)) d = (Inr u, d')"
  shows "queryFds fds d = (fds, d')"
proof -
  have "queryFds fds d = queryFds_from n fds d"
    unfolding queryFds_def using assms by (intro queryFds_from_skip) auto
  also have "\<dots> = queryFds_from (Suc n) fds d'"
    using assms(2,3,5) by (simp add: queryFds_from.simps [of n fds d])
  also have "\<dots> = queryFds_from (length fds) fds d'"
    using assms by (intro queryFds_from_skip) auto
  finally show ?thesis by (simp add: queryFds_from_end)
qed

section \<open>Forgetting a failed connection\<close>

lemma map_of_filtered_values:
  "umap_wf ws \<Longrightarrow> map_of (filter (\<lambda>(k, ss). ss \<noteq> []) (map (\<lambda>(k, ss). (k, f ss)) ws)) k =
     (case map_of ws k of None \<Rightarrow> None | Some ss \<Rightarrow> if f ss = [] then None else Some (f ss))"
proof (induction ws)
  case (Cons kv ws)
  obtain k' ss where kv: "kv = (k', ss)" by force
  from Cons.prems kv have "umap_wf ws" "map_of ws k' = None" by (auto simp: umap_wf_def map_of_eq_None_iff)
  with Cons.IH kv show ?case by (cases "k = k'") auto
qed simp

lemma umap_wf_drop_waits: "umap_wf ws \<Longrightarrow> umap_wf (drop_waits s ws)"
proof -
  assume "umap_wf ws"
  moreover have "map fst (map (\<lambda>(k, ss). (k, filter (\<lambda>x. x \<noteq> s) ss)) ws) = map fst ws" by (simp add: split_def)
  ultimately have "distinct (map fst (map (\<lambda>(k, ss). (k, filter (\<lambda>x. x \<noteq> s) ss)) ws))" by (simp only: umap_wf_def)
  then show ?thesis unfolding umap_wf_def drop_waits_def by (rule distinct_map_filter)
qed

lemma registrations_drop_waits: "registrations (drop_waits s ws) t = (if t = s then 0 else registrations ws t)"
proof (induction ws)
  case (Cons kv ws)
  have "count_list (filter (\<lambda>x. x \<noteq> s) ss) t = (if t = s then 0 else count_list ss t)" for ss
    by (induction ss) auto
  with Cons show ?case by (cases kv) (auto simp: drop_waits_def filter_empty_conv count_list_0_iff)
qed (simp add: drop_waits_def)

lemma awaits_forget:
  "wait_inv d \<Longrightarrow> awaits (forget_socket s d) t = (if t = s then {} else awaits d t)"
  by (auto simp: wait_inv_def awaits_def forget_socket_def closeSocket_def drop_waits_def
      map_of_filtered_values filter_empty_conv split: option.splits if_splits)

section \<open>Properties\<close>

text \<open>
  A turn of the daemon's loop keeps the polled descriptors and the list of connections in
  step: behind the listening socket and the control pipe the descriptors are exactly the
  connections, in order, whatever the queries do and however many connections fail in the pass.
\<close>

theorem run_step_in_step:
  assumes "map fd (drop CONNECT_SOCKET_OFFSET fds) = sockets d" and "CONNECT_SOCKET_OFFSET \<le> length fds"
    and "run_step accepted fds d = Inr (go, fds', d')"
  shows "map fd (drop CONNECT_SOCKET_OFFSET fds') = sockets d'"
proof -
  from assms(3) obtain fds1 d1 where acc: "run_accept accepted fds d = Inr (fds1, d1)"
    by (auto simp: run_step_def bindE_def split: sum.splits)
  have in_step: "map fd (drop CONNECT_SOCKET_OFFSET fds1) = sockets d1"
    using acc assms(1,2) by (auto simp: run_accept_def split: if_splits)
  from assms(3) acc have "(fds', d') = (fds1, d1) \<or> queryFds fds1 d1 = (fds', d')"
    by (auto simp: run_step_def split: if_splits prod.splits)
  with in_step queryFds_from_sockets [of CONNECT_SOCKET_OFFSET fds1 d1 fds' d'] show ?thesis
    by (auto simp: queryFds_def)
qed

definition daemon_start :: daemon where
  "daemon_start = \<lparr>inbox = (\<lambda>_. []), outbox = (\<lambda>_. []), broken = (\<lambda>_. False), closed = (\<lambda>_. False),
     tcpStore = [], waitingSockets = [], keysAwaited = [], sockets = []\<rparr>"

theorem run_step_in_step_witness:
  "map fd (drop CONNECT_SOCKET_OFFSET [\<lparr>fd = 3, revents = POLLIN\<rparr>, \<lparr>fd = 4, revents = 0\<rparr>, \<lparr>fd = 9, revents = 0\<rparr>]) =
     sockets (daemon_start\<lparr>sockets := [9]\<rparr>)"
proof (rule run_step_in_step)
  show "run_step 9 [\<lparr>fd = 3, revents = POLLIN\<rparr>, \<lparr>fd = 4, revents = 0\<rparr>] daemon_start =
      Inr (True, [\<lparr>fd = 3, revents = POLLIN\<rparr>, \<lparr>fd = 4, revents = 0\<rparr>, \<lparr>fd = 9, revents = 0\<rparr>], daemon_start\<lparr>sockets := [9]\<rparr>)"
    by (simp add: run_step_def run_accept_def POLLIN_def queryFds_def CONNECT_SOCKET_OFFSET_def
        queryFds_from.simps daemon_start_def)
qed (simp_all add: daemon_start_def CONNECT_SOCKET_OFFSET_def)

text \<open>
  The clean-up after a failed query is exact: the closed connection awaits nothing any more,
  the other connections await what they did, and the counts still match the registrations, so
  that no waiting client is answered too early or starves because another one went away.
\<close>

theorem forget_socket_exact:
  assumes "wait_inv d"
  shows "wait_inv (forget_socket s d) \<and> closed (forget_socket s d) s \<and>
    awaits (forget_socket s d) = (awaits d)(s := {})"
proof (intro conjI)
  have "umap_at 0 (AList.delete s m) t = (if t = s then 0 else umap_at 0 m t)" for t and m :: "(int, 64 word) umap"
    by (simp add: umap_at_def)
  with assms show "wait_inv (forget_socket s d)"
    by (simp add: wait_inv_def forget_socket_def closeSocket_def umap_wf_drop_waits registrations_drop_waits)
  show "closed (forget_socket s d) s" by (simp add: forget_socket_def closeSocket_def)
  show "awaits (forget_socket s d) = (awaits d)(s := {})"
    by (rule ext) (simp add: awaits_forget [OF assms])
qed

theorem forget_socket_exact_witness:
  "awaits (forget_socket 5 (daemon_start\<lparr>waitingSockets := [(''k'', [5, 6, 5])], keysAwaited := [(5, 2), (6, 1)]\<rparr>)) 6 = {''k''}"
proof -
  let ?d = "daemon_start\<lparr>waitingSockets := [(''k'', [5, 6, 5])], keysAwaited := [(5, 2), (6, 1)]\<rparr>"
  have "wait_inv ?d" by (auto simp: wait_inv_def umap_wf_def umap_at_def)
  from forget_socket_exact [OF this, of 5] show ?thesis by (simp add: awaits_def)
qed

text \<open>
  Every write of a key serves the clients that wait for it: a client that waited for this key
  only is sent \<^verbatim>\<open>STOP_WAITING\<close>, exactly once, a client that waits for other keys too has
  one key less to wait for, and nobody else is sent anything.
\<close>

theorem wakeup_serves_waiters:
  assumes "wait_inv d" and "\<forall>s. \<not> broken d s"
  shows "\<exists>d'. wakeupWaitingClients k d = (Inr (), d') \<and> wait_inv d' \<and>
    (\<forall>s. awaits d' s = awaits d s - {k} \<and>
         outbox d' s = outbox d s @ (if awaits d s \<noteq> {} \<and> awaits d s \<subseteq> {k} then [STOP_WAITING] else []))"
proof -
  from wakeup_effect [OF assms(1), of k] assms(2) obtain ws ka ob where
    w: "wakeupWaitingClients k d = (Inr (), d\<lparr>waitingSockets := ws, keysAwaited := ka, outbox := ob\<rparr>)"
      "map_of ws = (map_of (waitingSockets d))(k := None)"
      "wait_inv (d\<lparr>waitingSockets := ws, keysAwaited := ka, outbox := ob\<rparr>)"
      "\<And>s. ob s = outbox d s @ (if awaits d s \<noteq> {} \<and> awaits d s \<subseteq> {k} then [STOP_WAITING] else [])" by blast
  then show ?thesis
    by (intro exI [of _ "d\<lparr>waitingSockets := ws, keysAwaited := ka, outbox := ob\<rparr>"]) (auto simp: awaits_def)
qed

theorem wakeup_serves_waiters_witness:
  "\<exists>d'. wakeupWaitingClients ''k'' (daemon_start\<lparr>waitingSockets := [(''k'', [5])], keysAwaited := [(5, 1)]\<rparr>) = (Inr (), d') \<and>
     outbox d' 5 = [STOP_WAITING]"
proof -
  let ?d = "daemon_start\<lparr>waitingSockets := [(''k'', [5])], keysAwaited := [(5, 1)]\<rparr>"
  have "wait_inv ?d" by (auto simp: wait_inv_def umap_wf_def umap_at_def)
  moreover have "\<forall>s. \<not> broken ?d s" by (simp add: daemon_start_def)
  ultimately obtain d' where "wakeupWaitingClients ''k'' ?d = (Inr (), d')"
    "\<forall>s. awaits d' s = awaits ?d s - {''k''} \<and>
       outbox d' s = outbox ?d s @ (if awaits ?d s \<noteq> {} \<and> awaits ?d s \<subseteq> {''k''} then [STOP_WAITING] else [])"
    using wakeup_serves_waiters by blast
  moreover have "awaits ?d 5 = {''k''}" by (auto simp: awaits_def split: if_splits)
  ultimately show ?thesis by (auto simp: daemon_start_def)
qed

end
