(* ===== verification/TCPStore_Client.thy ===== *)
theory TCPStore_Client
  imports TCPStore_Daemon Store_Interface
begin

text \<open>
  \<^verbatim>\<open>class TCPStore\<close> (\<^verbatim>\<open>TCPStore.hpp\<close>, \<^verbatim>\<open>TCPStore.cpp\<close>): the client's end of a
  connection to the daemon. A call sends the bytes of its query and, where it expects an answer,
  reads the answer; while it blocks in that read the daemon's poll loop takes turns
  (\<open>settle\<close>: at most one turn per byte the connection has sent, since every turn that finds
  the connection readable takes at least its query byte). A read that is still short then ends
  with the receive timeout, or, without one, has not returned. The theory shows that a client
  of a daemon whose connections are quiet sees a store (\<open>store_del\<close>), whatever other clients
  wait for.
\<close>

section \<open>The system of daemon and clients\<close>

text \<open>\<open>rcvtimeo s\<close>: the \<^verbatim>\<open>SO_RCVTIMEO\<close> of the client's end of \<open>s\<close>, 0 when none is set.\<close>

record tcp_sys = daemon +
  rcvtimeo :: "int \<Rightarrow> int"

record tcp_client =
  storeSocket :: int
  c_timeout :: int
  numWorkers :: int
  isServer :: bool

definition initKey :: string where "initKey = ''init/''"
definition regularPrefix :: string where "regularPrefix = ''/''"

text \<open>What \<^verbatim>\<open>::poll\<close> reports: a connection has an event when unread bytes are there.\<close>

definition poll_events :: "'a daemon_scheme \<Rightarrow> pollfd list" where
  "poll_events d =
     [\<lparr>fd = 0, revents = 0\<rparr>, \<lparr>fd = 1, revents = 0\<rparr>] @
     map (\<lambda>s. \<lparr>fd = s, revents = (if inbox d s = [] then 0 else POLLIN)\<rparr>) (sockets d)"

definition daemon_turn :: "'a daemon_scheme \<Rightarrow> 'a daemon_scheme" where
  "daemon_turn d = (case run_step 0 (poll_events d) d of Inl e \<Rightarrow> d | Inr (go, fds, d') \<Rightarrow> d')"

definition settle :: "int \<Rightarrow> 'a daemon_scheme \<Rightarrow> 'a daemon_scheme" where
  "settle sock d = (daemon_turn ^^ length (inbox d sock)) d"

section \<open>The client's sends and receives\<close>

definition c_send :: "int \<Rightarrow> bytes \<Rightarrow> ('a daemon_scheme, unit) cmd" where
  "c_send sock bs =
     bindM (getM (\<lambda>d. closed d sock)) (\<lambda>gone.
       if gone then throwM (System_error ''EPIPE'')
       else modifyM (\<lambda>d. d\<lparr>inbox := (inbox d)(sock := inbox d sock @ bs)\<rparr>))"

definition c_recv :: "int \<Rightarrow> nat \<Rightarrow> ('a tcp_sys_scheme, bytes) cmd" where
  "c_recv sock n =
     bindM (modifyM (settle sock)) (\<lambda>_.
     bindM (getM (\<lambda>d. (outbox d sock, closed d sock, rcvtimeo d sock))) (\<lambda>(st, gone, tmo).
       if n \<le> length st then
         bindM (modifyM (\<lambda>d. d\<lparr>outbox := (outbox d)(sock := drop n st)\<rparr>)) (\<lambda>_. returnM (take n st))
       else if gone then throwM (System_error ''ECONNRESET'')
       else if tmo \<noteq> 0 then throwM (Runtime_error ''Socket Timeout'')
       else throwM Blocked))"

definition c_sendQuery :: "int \<Rightarrow> QueryType \<Rightarrow> ('a daemon_scheme, unit) cmd" where
  "c_sendQuery sock qt = c_send sock [query_byte qt]"

definition c_recv_i64 :: "int \<Rightarrow> ('a tcp_sys_scheme, int) cmd" where
  "c_recv_i64 sock = bindM (c_recv sock 8) (\<lambda>bs. returnM (bytes_i64 bs))"

definition c_recvVector :: "int \<Rightarrow> ('a tcp_sys_scheme, bytes) cmd" where
  "c_recvVector sock = bindM (c_recv sock 8) (\<lambda>bs. c_recv sock (unat (bytes_u64 bs)))"

fun c_sendKeys :: "int \<Rightarrow> string list \<Rightarrow> ('a daemon_scheme, unit) cmd" where
  "c_sendKeys sock [] = returnM ()"
| "c_sendKeys sock (key # keys) = bindM (c_send sock (enc_string key)) (\<lambda>_. c_sendKeys sock keys)"

section \<open>Operations\<close>

definition tcp_set :: "tcp_client \<Rightarrow> string \<Rightarrow> bytes \<Rightarrow> ('a tcp_sys_scheme, unit) cmd" where
  "tcp_set c key data =
     (let regKey = regularPrefix @ key in
      bindM (c_sendQuery (storeSocket c) SET) (\<lambda>_.
      bindM (c_send (storeSocket c) (enc_string regKey)) (\<lambda>_.
      c_send (storeSocket c) (enc_vector data))))"

definition waitHelper :: "tcp_client \<Rightarrow> string list \<Rightarrow> int \<Rightarrow> ('a tcp_sys_scheme, unit) cmd" where
  "waitHelper c keys timeout =
     bindM (if timeout \<noteq> kNoTimeout
            then modifyM (\<lambda>d. d\<lparr>rcvtimeo := (rcvtimeo d)(storeSocket c := timeout)\<rparr>)
            else returnM ()) (\<lambda>_.
     bindM (c_sendQuery (storeSocket c) WAIT) (\<lambda>_.
     bindM (c_send (storeSocket c) (u64_bytes (word_of_nat (length keys)))) (\<lambda>_.
     bindM (c_sendKeys (storeSocket c) keys) (\<lambda>_.
     bindM (c_recv (storeSocket c) 1) (\<lambda>waitResponse.
     if hd waitResponse \<noteq> STOP_WAITING
     then throwM (Runtime_error ''Stop_waiting response is expected'')
     else returnM ())))))"

definition getHelper :: "tcp_client \<Rightarrow> string \<Rightarrow> ('a tcp_sys_scheme, bytes) cmd" where
  "getHelper c key =
     bindM (waitHelper c [key] (c_timeout c)) (\<lambda>_.
     bindM (c_sendQuery (storeSocket c) GET) (\<lambda>_.
     bindM (c_send (storeSocket c) (enc_string key)) (\<lambda>_.
     c_recvVector (storeSocket c))))"

definition tcp_get :: "tcp_client \<Rightarrow> string \<Rightarrow> ('a tcp_sys_scheme, bytes) cmd" where
  "tcp_get c key = getHelper c (regularPrefix @ key)"

definition addHelper :: "tcp_client \<Rightarrow> string \<Rightarrow> int \<Rightarrow> ('a tcp_sys_scheme, int) cmd" where
  "addHelper c key value =
     bindM (c_sendQuery (storeSocket c) ADD) (\<lambda>_.
     bindM (c_send (storeSocket c) (enc_string key)) (\<lambda>_.
     bindM (c_send (storeSocket c) (i64_bytes value)) (\<lambda>_.
     c_recv_i64 (storeSocket c))))"

definition tcp_add :: "tcp_client \<Rightarrow> string \<Rightarrow> int \<Rightarrow> ('a tcp_sys_scheme, int) cmd" where
  "tcp_add c key value = addHelper c (regularPrefix @ key) value"

definition tcp_deleteKey :: "tcp_client \<Rightarrow> string \<Rightarrow> ('a tcp_sys_scheme, bool) cmd" where
  "tcp_deleteKey c key =
     (let regKey = regularPrefix @ key in
      bindM (c_sendQuery (storeSocket c) DELETE_KEY) (\<lambda>_.
      bindM (c_send (storeSocket c) (enc_string regKey)) (\<lambda>_.
      bindM (c_recv_i64 (storeSocket c)) (\<lambda>numDeleted. returnM (numDeleted = 1)))))"

definition tcp_getNumKeys :: "tcp_client \<Rightarrow> ('a tcp_sys_scheme, int) cmd" where
  "tcp_getNumKeys c = bindM (c_sendQuery (storeSocket c) GETNUMKEYS) (\<lambda>_. c_recv_i64 (storeSocket c))"

definition tcp_check :: "tcp_client \<Rightarrow> string list \<Rightarrow> ('a tcp_sys_scheme, bool) cmd" where
  "tcp_check c keys =
     bindM (c_sendQuery (storeSocket c) CHECK) (\<lambda>_.
     bindM (c_send (storeSocket c) (u64_bytes (word_of_nat (length keys)))) (\<lambda>_.
     bindM (c_sendKeys (storeSocket c) (map (\<lambda>key. regularPrefix @ key) keys)) (\<lambda>_.
     bindM (c_recv (storeSocket c) 1) (\<lambda>checkResponse.
     if hd checkResponse = READY then returnM True
     else if hd checkResponse = NOT_READY then returnM False
     else throwM (Runtime_error ''ready or not_ready response expected'')))))"

definition tcp_wait_timeout :: "tcp_client \<Rightarrow> string list \<Rightarrow> int \<Rightarrow> ('a tcp_sys_scheme, unit) cmd" where
  "tcp_wait_timeout c keys timeout = waitHelper c (map (\<lambda>key. regularPrefix @ key) keys) timeout"

definition tcp_wait :: "tcp_client \<Rightarrow> string list \<Rightarrow> ('a tcp_sys_scheme, unit) cmd" where
  "tcp_wait c keys = tcp_wait_timeout c keys (c_timeout c)"

text \<open>
  The server's loop at start-up. One entry per turn: the seconds elapsed when it looks at the
  clock and what the other workers have done to the system while it slept. A list that ends
  before the loop does is a call that has not returned.
\<close>

fun wait_workers_loop :: "tcp_client \<Rightarrow> (int \<times> ('a tcp_sys_scheme \<Rightarrow> 'a tcp_sys_scheme)) list \<Rightarrow> ('a tcp_sys_scheme, unit) cmd" where
  "wait_workers_loop c [] = throwM Blocked"
| "wait_workers_loop c ((elapsed, others) # turns) =
     bindM (getHelper c initKey) (\<lambda>value.
     bindM (liftM (stoi (string_of value))) (\<lambda>numWorkersCompleted.
     if numWorkers c \<le> numWorkersCompleted then returnM ()
     else if c_timeout c \<noteq> kNoTimeout \<and> c_timeout c < elapsed * 1000 then returnM ()
     else bindM (modifyM others) (\<lambda>_. wait_workers_loop c turns)))"

definition waitForWorkers :: "tcp_client \<Rightarrow> (int \<times> ('a tcp_sys_scheme \<Rightarrow> 'a tcp_sys_scheme)) list \<Rightarrow> ('a tcp_sys_scheme, unit) cmd" where
  "waitForWorkers c turns =
     bindM (addHelper c initKey 1) (\<lambda>_.
     if isServer c then wait_workers_loop c turns else returnM ())"

section \<open>A call's query reaches the daemon\<close>

text \<open>
  Idle: no connection has unread bytes, none is broken, the daemon's maps are well-formed, and
  the client of the connection waits for nothing. Quiet: the client has also read everything the
  daemon has sent it.
\<close>

definition idle :: "tcp_client \<Rightarrow> 'a tcp_sys_scheme \<Rightarrow> bool" where
  "idle c d \<longleftrightarrow> distinct (sockets d) \<and> storeSocket c \<in> set (sockets d) \<and>
     (\<forall>s. inbox d s = []) \<and> \<not> closed d (storeSocket c) \<and>
     (\<forall>s. \<not> broken d s) \<and> umap_wf (tcpStore d) \<and> wait_inv d \<and> awaits d (storeSocket c) = {}"

definition quiet :: "tcp_client \<Rightarrow> 'a tcp_sys_scheme \<Rightarrow> bool" where
  "quiet c d \<longleftrightarrow> idle c d \<and> outbox d (storeSocket c) = []"

definition tcp_view :: "'a daemon_scheme \<Rightarrow> content" where
  "tcp_view d = (\<lambda>key. map_of (tcpStore d) (regularPrefix @ key))"

definition tcp_key_ok :: "string \<Rightarrow> bool" where
  "tcp_key_ok k \<longleftrightarrow> length k < 2 ^ 64 - 1"

definition settled :: "tcp_client \<Rightarrow> ('a tcp_sys_scheme, 'b) cmd \<Rightarrow> ('a tcp_sys_scheme, 'b) cmd" where
  "settled c m = bindM m (\<lambda>r. bindM (modifyM (settle (storeSocket c))) (\<lambda>_. returnM r))"

lemma daemon_turn_queryFds: "daemon_turn d = snd (queryFds (poll_events d) d)"
  by (simp add: daemon_turn_def run_step_def run_accept_def poll_events_def split: prod.splits)

lemma daemon_turn_idle: "(\<And>s. inbox d s = []) \<Longrightarrow> daemon_turn d = d"
proof -
  assume idle: "\<And>s. inbox d s = []"
  have rev: "revents (poll_events d ! j) = 0" if "j < length (poll_events d)" for j
    using that idle by (auto simp: poll_events_def nth_append nth_Cons split: nat.splits)
  have "CONNECT_SOCKET_OFFSET \<le> length (poll_events d)"
    by (simp add: CONNECT_SOCKET_OFFSET_def poll_events_def)
  then have "queryFds (poll_events d) d = queryFds_from (length (poll_events d)) (poll_events d) d"
    unfolding queryFds_def using rev by (intro queryFds_from_skip) simp_all
  then show ?thesis by (simp add: daemon_turn_queryFds queryFds_from_end)
qed

lemma daemon_turns_idle: "(\<And>s. inbox d s = []) \<Longrightarrow> (daemon_turn ^^ n) d = d"
  by (induction n) (simp_all add: daemon_turn_idle)

lemma daemon_turn_one:
  assumes "distinct (sockets d)" and "s \<in> set (sockets d)" and "inbox d s \<noteq> []"
    and "\<And>t. t \<noteq> s \<Longrightarrow> inbox d t = []" and "query s d = (Inr u, d')"
  shows "daemon_turn d = d'"
proof -
  from assms(2) obtain i where i: "i < length (sockets d)" "sockets d ! i = s" by (auto simp: in_set_conv_nth)
  let ?fds = "poll_events d"
  have at: "?fds ! (j + 2) = \<lparr>fd = sockets d ! j, revents = (if inbox d (sockets d ! j) = [] then 0 else POLLIN)\<rparr>"
    if "j < length (sockets d)" for j using that by (simp add: poll_events_def)
  have "queryFds ?fds d = (?fds, d')"
  proof (rule queryFds_one [where n = "i + 2"])
    fix j assume j: "CONNECT_SOCKET_OFFSET \<le> j" "j < length ?fds" "j \<noteq> i + 2"
    then obtain m where m: "j = m + 2" "m < length (sockets d)" "m \<noteq> i"
      by (auto simp: CONNECT_SOCKET_OFFSET_def poll_events_def dest: le_Suc_ex)
    then have "sockets d ! m \<noteq> s" using assms(1) i by (metis nth_eq_iff_index_eq)
    then show "revents (?fds ! j) = 0" using m at assms(4) by simp
  qed (use i at [of i] assms in \<open>simp_all add: CONNECT_SOCKET_OFFSET_def poll_events_def POLLIN_def\<close>)
  then show ?thesis by (simp add: daemon_turn_queryFds)
qed

lemma settle_query:
  assumes "distinct (sockets d)" and "s \<in> set (sockets d)" and "inbox d s \<noteq> []"
    and "\<And>t. t \<noteq> s \<Longrightarrow> inbox d t = []" and "query s d = (Inr u, d')" and "\<And>t. inbox d' t = []"
  shows "settle s d = d'"
proof -
  obtain n where "length (inbox d s) = Suc n" using assms(3) by (cases "inbox d s") auto
  then have "settle s d = (daemon_turn ^^ n) (daemon_turn d)"
    by (simp only: settle_def funpow_Suc_right o_apply)
  also have "\<dots> = (daemon_turn ^^ n) d'" using daemon_turn_one [OF assms(1-5)] by simp
  finally show ?thesis using daemon_turns_idle [OF assms(6)] by simp
qed

lemma query_dispatch:
  "inbox d s = query_byte qt # args \<Longrightarrow> query s d =
     (case qt of SET \<Rightarrow> setHandler s | GET \<Rightarrow> getHandler s | ADD \<Rightarrow> addHandler s | CHECK \<Rightarrow> checkHandler s
        | WAIT \<Rightarrow> waitHandler s | GETNUMKEYS \<Rightarrow> getNumKeysHandler s | DELETE_KEY \<Rightarrow> deleteHandler s)
       (d\<lparr>inbox := (inbox d)(s := args)\<rparr>)"
  by (cases qt) (simp_all add: query_def bind_recv_u8)

lemma c_send_ok:
  "\<not> closed d s \<Longrightarrow> c_send s bs d = (Inr (), d\<lparr>inbox := (inbox d)(s := inbox d s @ bs)\<rparr>)"
  by (simp add: c_send_def bindM_def)

lemma c_sendKeys_ok:
  "\<not> closed d s \<Longrightarrow> c_sendKeys s ks d = (Inr (), d\<lparr>inbox := (inbox d)(s := inbox d s @ concat (map enc_string ks))\<rparr>)"
proof (induction ks arbitrary: d)
  case Nil
  then show ?case by (simp add: fun_upd_idem)
next
  case (Cons k ks)
  let ?d1 = "d\<lparr>inbox := (inbox d)(s := inbox d s @ enc_string k)\<rparr>"
  have "c_sendKeys s (k # ks) d = c_sendKeys s ks ?d1"
    using Cons.prems by (simp add: bindM_def c_send_ok)
  also have "\<dots> = (Inr (), ?d1\<lparr>inbox := (inbox ?d1)(s := inbox ?d1 s @ concat (map enc_string ks))\<rparr>)"
    using Cons.prems by (intro Cons.IH) simp
  also have "\<dots> = (Inr (), d\<lparr>inbox := (inbox d)(s := inbox d s @ concat (map enc_string (k # ks)))\<rparr>)"
    by simp
  finally show ?case .
qed

lemma c_recv_ok:
  assumes "settle s d = d'" and "outbox d' s = bs @ rest" and "length bs = n"
  shows "c_recv s n d = (Inr bs, d'\<lparr>outbox := (outbox d')(s := rest)\<rparr>)"
  using assms by (simp add: c_recv_def bindM_def)

text \<open>The state in which the client has sent its query and nothing has been read yet.\<close>

definition sent :: "tcp_client \<Rightarrow> bytes \<Rightarrow> 'a tcp_sys_scheme \<Rightarrow> 'a tcp_sys_scheme" where
  "sent c bs d = d\<lparr>inbox := (inbox d)(storeSocket c := bs)\<rparr>"

lemma sent_simps [simp]:
  "inbox (sent c bs d) = (inbox d)(storeSocket c := bs)" "outbox (sent c bs d) = outbox d"
  "sockets (sent c bs d) = sockets d" "closed (sent c bs d) = closed d" "broken (sent c bs d) = broken d"
  "tcpStore (sent c bs d) = tcpStore d" "waitingSockets (sent c bs d) = waitingSockets d"
  "keysAwaited (sent c bs d) = keysAwaited d" "rcvtimeo (sent c bs d) = rcvtimeo d"
  "awaits (sent c bs d) = awaits d" "wait_inv (sent c bs d) = wait_inv d"
  "sent c bs (sent c bs' d) = sent c bs d"
  "(sent c bs d)\<lparr>inbox := (inbox d)(storeSocket c := bs')\<rparr> = sent c bs' d"
  by (simp_all add: sent_def awaits_def wait_inv_def fun_eq_iff)

lemma quiet_idle: "quiet c d \<Longrightarrow> idle c d"
  by (simp add: quiet_def)

lemma c_send_idle: "idle c d \<Longrightarrow> c_send (storeSocket c) bs d = (Inr (), sent c bs d)"
  by (simp add: c_send_ok quiet_def idle_def sent_def)

lemma c_send_sent:
  "idle c d \<Longrightarrow> c_send (storeSocket c) bs (sent c bs' d) = (Inr (), sent c (bs' @ bs) d)"
  by (simp add: c_send_ok quiet_def idle_def sent_def)

lemma c_sendKeys_sent:
  "idle c d \<Longrightarrow> c_sendKeys (storeSocket c) ks (sent c bs d) = (Inr (), sent c (bs @ concat (map enc_string ks)) d)"
  by (simp add: c_sendKeys_ok quiet_def idle_def sent_def)

lemmas send_idle = c_send_idle c_send_sent c_sendKeys_sent

lemma sent_empty: "idle c d \<Longrightarrow> sent c [] d = d"
  by (simp add: sent_def quiet_def idle_def fun_upd_idem)

lemma settle_sent:
  assumes "idle c d" and "query (storeSocket c) (sent c (b # bs) d) = (Inr u, d')" and "\<And>t. inbox d' t = []"
  shows "settle (storeSocket c) (sent c (b # bs) d) = d'"
  using assms by (intro settle_query [where u = u]) (auto simp: quiet_def idle_def)

text \<open>Waking other clients leaves a quiet connection quiet.\<close>

lemma wakeup_quiet:
  assumes "quiet c d"
  shows "\<exists>d'. wakeupWaitingClients k d = (Inr (), d') \<and> quiet c d' \<and> tcpStore d' = tcpStore d \<and>
     sockets d' = sockets d \<and> closed d' = closed d \<and>
     awaits d' = (\<lambda>s. awaits d s - {k}) \<and>
     (\<forall>s. outbox d' s = outbox d s @ (if awaits d s \<noteq> {} \<and> awaits d s \<subseteq> {k} then [STOP_WAITING] else []))"
proof -
  have "wait_inv d" "\<And>s. \<not> broken d s" using assms by (auto simp: quiet_def idle_def)
  from wakeup_effect [OF this, of k] obtain ws ka ob where
    w: "wakeupWaitingClients k d = (Inr (), d\<lparr>waitingSockets := ws, keysAwaited := ka, outbox := ob\<rparr>)"
    and ws: "map_of ws = (map_of (waitingSockets d))(k := None)"
    and inv: "wait_inv (d\<lparr>waitingSockets := ws, keysAwaited := ka, outbox := ob\<rparr>)"
    and ob: "\<And>s. ob s = outbox d s @ (if awaits d s \<noteq> {} \<and> awaits d s \<subseteq> {k} then [STOP_WAITING] else [])"
    by blast
  let ?d' = "d\<lparr>waitingSockets := ws, keysAwaited := ka, outbox := ob\<rparr>"
  have aw: "awaits ?d' = (\<lambda>s. awaits d s - {k})" by (auto simp: awaits_def ws fun_eq_iff)
  have "quiet c ?d'" using assms inv aw ob by (simp add: quiet_def idle_def)
  with w aw ob show ?thesis by (intro exI [of _ ?d']) simp
qed

lemma quiet_store:
  "quiet c d \<Longrightarrow> umap_wf m \<Longrightarrow> quiet c (d\<lparr>tcpStore := m\<rparr>)"
  by (simp add: quiet_def idle_def wait_inv_def awaits_def)

lemma sent_inbox: "sent c bs d = d\<lparr>inbox := (inbox d)(storeSocket c := bs)\<rparr>"
  by (simp add: sent_def)

section \<open>What each call does on a quiet connection\<close>

lemma tcp_set_effect:
  assumes "quiet c d" and "tcp_key_ok k" and "length v < 2 ^ 64"
  shows "\<exists>d'. settled c (tcp_set c k v) d = (Inr (), d') \<and> quiet c d' \<and>
     tcpStore d' = AList.update (regularPrefix @ k) v (tcpStore d) \<and>
     sockets d' = sockets d \<and> closed d' = closed d \<and>
     awaits d' = (\<lambda>s. awaits d s - {regularPrefix @ k}) \<and>
     (\<forall>s. outbox d' s = outbox d s @
        (if awaits d s \<noteq> {} \<and> awaits d s \<subseteq> {regularPrefix @ k} then [STOP_WAITING] else []))"
proof -
  let ?k = "regularPrefix @ k"
  let ?q = "query_byte SET # enc_string ?k @ enc_vector v"
  let ?m = "AList.update ?k v (tcpStore d)"
  have len: "length ?k < 2 ^ 64" using assms(2) by (simp add: tcp_key_ok_def regularPrefix_def)
  have "quiet c (d\<lparr>tcpStore := ?m\<rparr>)" using assms(1) by (intro quiet_store) (simp_all add: quiet_def idle_def)
  from wakeup_quiet [OF this, of ?k] obtain d' where
    d': "wakeupWaitingClients ?k (d\<lparr>tcpStore := ?m\<rparr>) = (Inr (), d')" "quiet c d'" "tcpStore d' = ?m"
      "sockets d' = sockets d" "closed d' = closed d"
      "awaits d' = (\<lambda>s. awaits d s - {?k})"
      "\<And>s. outbox d' s = outbox d s @ (if awaits d s \<noteq> {} \<and> awaits d s \<subseteq> {?k} then [STOP_WAITING] else [])"
    by (auto simp: awaits_def)
  have "query (storeSocket c) (sent c ?q d) =
      setHandler (storeSocket c) (sent c (enc_string ?k @ enc_vector v) d)"
    by (subst query_dispatch [where qt = SET and args = "enc_string ?k @ enc_vector v"]) simp_all
  also have "\<dots> = wakeupWaitingClients ?k ((sent c [] d)\<lparr>tcpStore := ?m\<rparr>)"
    using setHandler_ok [of "sent c (enc_string ?k @ enc_vector v) d" "storeSocket c" ?k v "[]"] len assms(3)
    by (simp add: sent_inbox)
  finally have "query (storeSocket c) (sent c ?q d) = (Inr (), d')"
    using d'(1) by (simp add: sent_empty [OF quiet_idle [OF assms(1)]])
  then have "settle (storeSocket c) (sent c ?q d) = d'"
    using d'(2) by (intro settle_sent [OF quiet_idle [OF assms(1)]]) (simp_all add: quiet_def idle_def)
  moreover have "tcp_set c k v d = (Inr (), sent c ?q d)"
    by (simp add: tcp_set_def Let_def bindM_def send_idle [OF quiet_idle [OF assms(1)]] c_sendQuery_def)
  ultimately show ?thesis using d' by (simp add: settled_def bindM_def)
qed

lemma quiet_outbox:
  "quiet c d \<Longrightarrow> quiet c (d\<lparr>outbox := (outbox d)(storeSocket c := [])\<rparr>)"
  "quiet c d \<Longrightarrow> d\<lparr>outbox := (outbox d)(storeSocket c := [])\<rparr> = d"
  by (simp_all add: quiet_def idle_def wait_inv_def awaits_def fun_upd_idem)

text \<open>
  A call whose query the daemon answers with \<open>resp\<close> and nothing else: the answer is read and the
  connection is quiet again.
\<close>

lemma recv_answer:
  assumes "quiet c d" and "query (storeSocket c) (sent c (b # bs) d) = (Inr u, d1)"
    and "d1 = d'\<lparr>outbox := (outbox d')(storeSocket c := resp)\<rparr>" and "quiet c d'" and "n = length resp"
  shows "c_recv (storeSocket c) n (sent c (b # bs) d) = (Inr resp, d')"
proof -
  have "settle (storeSocket c) (sent c (b # bs) d) = d1"
    using assms by (intro settle_sent [where u = u]) (auto simp: quiet_def idle_def)
  from c_recv_ok [OF this, of resp "[]" n] assms(3,5)
  have "c_recv (storeSocket c) n (sent c (b # bs) d) =
      (Inr resp, d'\<lparr>outbox := (outbox d')(storeSocket c := [])\<rparr>)" by simp
  then show ?thesis by (simp only: quiet_outbox(2) [OF assms(4)])
qed

lemma tcp_check_effect:
  assumes "quiet c d" and "list_all tcp_key_ok ks" and "length ks < 2 ^ 64"
  shows "tcp_check c ks d = (Inr (list_all (\<lambda>k. tcp_view d k \<noteq> None) ks), d)"
proof -
  let ?ks = "map (\<lambda>k. regularPrefix @ k) ks"
  let ?resp = "[if checkKeys ?ks d then READY else NOT_READY]"
  have len: "list_all (\<lambda>k. length k < 2 ^ 64) ?ks"
    using assms(2) by (auto simp: list_all_iff tcp_key_ok_def regularPrefix_def)
  have ks: "checkKeys ?ks (sent c bs d) = checkKeys ?ks d" for bs by (simp add: checkKeys_def)
  have "query (storeSocket c) (sent c (query_byte CHECK # enc_keys ?ks) d) =
      checkHandler (storeSocket c) (sent c (enc_keys ?ks) d)"
    by (subst query_dispatch [where qt = CHECK and args = "enc_keys ?ks"]) simp_all
  also have "\<dots> = (Inr (), (sent c [] d)\<lparr>outbox := (outbox d)(storeSocket c := ?resp)\<rparr>)"
    using checkHandler_ok [of "sent c (enc_keys ?ks) d" "storeSocket c" ?ks "[]"] len assms(1,3) ks
    by (simp add: quiet_def idle_def)
  finally have "c_recv (storeSocket c) 1 (sent c (query_byte CHECK # enc_keys ?ks) d) = (Inr ?resp, d)"
    using assms(1) by (intro recv_answer) (simp_all add: sent_empty quiet_idle)
  then have "tcp_check c ks d = (Inr (checkKeys ?ks d), d)"
    by (simp add: tcp_check_def bindM_def send_idle [OF quiet_idle [OF assms(1)]] c_sendQuery_def enc_keys_def
        READY_def NOT_READY_def)
  then show ?thesis by (auto simp: checkKeys_def tcp_view_def list_all_iff)
qed

lemma tcp_deleteKey_effect:
  assumes "quiet c d" and "tcp_key_ok k"
  shows "tcp_deleteKey c k d =
     (Inr (tcp_view d k \<noteq> None), d\<lparr>tcpStore := AList.delete (regularPrefix @ k) (tcpStore d)\<rparr>)"
proof -
  let ?k = "regularPrefix @ k"
  let ?n = "if umap_has (tcpStore d) ?k then 1 else 0 :: int"
  let ?d' = "d\<lparr>tcpStore := AList.delete ?k (tcpStore d)\<rparr>"
  have len: "length ?k < 2 ^ 64" using assms(2) by (simp add: tcp_key_ok_def regularPrefix_def)
  have "query (storeSocket c) (sent c (query_byte DELETE_KEY # enc_string ?k) d) =
      deleteHandler (storeSocket c) (sent c (enc_string ?k) d)"
    by (subst query_dispatch [where qt = DELETE_KEY and args = "enc_string ?k"]) simp_all
  also have "\<dots> = (Inr (), (sent c [] d)\<lparr>tcpStore := AList.delete ?k (tcpStore d),
      outbox := (outbox d)(storeSocket c := i64_bytes ?n)\<rparr>)"
    using deleteHandler_ok [of "sent c (enc_string ?k) d" "storeSocket c" ?k "[]"] len assms(1)
    by (simp add: quiet_def idle_def)
  finally have q: "query (storeSocket c) (sent c (query_byte DELETE_KEY # enc_string ?k) d) =
      (Inr (), (sent c [] d)\<lparr>tcpStore := AList.delete ?k (tcpStore d),
        outbox := (outbox d)(storeSocket c := i64_bytes ?n)\<rparr>)" .
  have "quiet c ?d'" using assms(1) by (intro quiet_store) (simp_all add: quiet_def idle_def)
  from recv_answer [OF assms(1) q _ this, of "i64_bytes ?n" 8] assms(1)
  have "c_recv (storeSocket c) 8 (sent c (query_byte DELETE_KEY # enc_string ?k) d) =
      (Inr (i64_bytes ?n), ?d')" by (simp add: sent_empty quiet_idle)
  moreover have "wrap64 ?n = ?n" by (intro wrap64_id) (simp add: in_int64_def int64_min_def int64_max_def)
  ultimately have "tcp_deleteKey c k d = (Inr (?n = 1), ?d')"
    by (simp add: tcp_deleteKey_def Let_def bindM_def send_idle [OF quiet_idle [OF assms(1)]] c_sendQuery_def c_recv_i64_def)
  then show ?thesis by (auto simp: tcp_view_def)
qed

lemma tcp_getNumKeys_effect:
  assumes "quiet c d" and "length (tcpStore d) < 2 ^ 63"
  shows "tcp_getNumKeys c d = (Inr (int (length (tcpStore d))), d)"
proof -
  let ?n = "int (length (tcpStore d))"
  have "query (storeSocket c) (sent c [query_byte GETNUMKEYS] d) =
      getNumKeysHandler (storeSocket c) (sent c [] d)"
    by (subst query_dispatch [where qt = GETNUMKEYS and args = "[]"]) simp_all
  also have "\<dots> = (Inr (), d\<lparr>outbox := (outbox d)(storeSocket c := i64_bytes ?n)\<rparr>)"
    using getNumKeysHandler_ok [of d "storeSocket c"] assms(1) by (simp add: sent_empty quiet_idle) (simp add: quiet_def idle_def)
  finally have "c_recv (storeSocket c) 8 (sent c [query_byte GETNUMKEYS] d) = (Inr (i64_bytes ?n), d)"
    using assms(1) by (intro recv_answer) simp_all
  moreover have "wrap64 ?n = ?n"
    using assms(2) by (intro wrap64_id) (simp add: in_int64_def int64_min_def int64_max_def)
  ultimately show ?thesis
    by (simp add: tcp_getNumKeys_def bindM_def send_idle [OF quiet_idle [OF assms(1)]] c_sendQuery_def c_recv_i64_def)
qed

lemma addHelper_effect:
  assumes "quiet c d" and "length k < 2 ^ 64" and "in_int64 i" and "in_int64 n"
    and "map_of (tcpStore d) k = None \<and> n = 0 \<or> map_of (tcpStore d) k = Some (num_bytes n)"
  shows "\<exists>d'. addHelper c k i d = (Inr (add64 n i), d') \<and> quiet c d' \<and>
     tcpStore d' = AList.update k (num_bytes (add64 n i)) (tcpStore d) \<and>
     awaits d' = (\<lambda>s. awaits d s - {k})"
proof -
  let ?q = "enc_string k @ i64_bytes i"
  let ?m = "AList.update k (num_bytes (add64 n i)) (tcpStore d)"
  let ?ans = "\<lambda>d. d\<lparr>outbox := (outbox d)(storeSocket c := i64_bytes (add64 n i))\<rparr>"
  let ?d1 = "?ans (d\<lparr>tcpStore := ?m\<rparr>)"
  have inv: "wait_inv ?d1" and br: "\<And>s. \<not> broken ?d1 s" and aw1: "awaits ?d1 = awaits d"
    using assms(1) by (auto simp: quiet_def idle_def wait_inv_def awaits_def)
  from wakeup_effect [OF inv br, of k] obtain ws ka ob where
    w: "wakeupWaitingClients k ?d1 = (Inr (), ?d1\<lparr>waitingSockets := ws, keysAwaited := ka, outbox := ob\<rparr>)"
    and ws: "map_of ws = (map_of (waitingSockets d))(k := None)"
    and inv': "wait_inv (?d1\<lparr>waitingSockets := ws, keysAwaited := ka, outbox := ob\<rparr>)"
    and ob: "\<And>s. ob s = outbox ?d1 s @ (if awaits d s \<noteq> {} \<and> awaits d s \<subseteq> {k} then [STOP_WAITING] else [])"
    unfolding aw1 by auto
  let ?d' = "d\<lparr>tcpStore := ?m, waitingSockets := ws, keysAwaited := ka, outbox := ob(storeSocket c := [])\<rparr>"
  have aw: "awaits ?d' = (\<lambda>s. awaits d s - {k})" by (auto simp: awaits_def ws fun_eq_iff)
  have "ob (storeSocket c) = i64_bytes (add64 n i)" using ob [of "storeSocket c"] assms(1) by (simp add: quiet_def idle_def)
  then have after: "?d1\<lparr>waitingSockets := ws, keysAwaited := ka, outbox := ob\<rparr> = ?ans ?d'"
    by (simp add: fun_upd_idem)
  have q: "quiet c ?d'" using assms(1) inv' aw by (simp add: quiet_def idle_def wait_inv_def)
  have "query (storeSocket c) (sent c (query_byte ADD # ?q) d) = addHandler (storeSocket c) (sent c ?q d)"
    by (subst query_dispatch [where qt = ADD and args = ?q]) simp_all
  also have "\<dots> = wakeupWaitingClients k (?ans ((sent c [] d)\<lparr>tcpStore := ?m\<rparr>))"
    using addHandler_ok [of "sent c ?q d" "storeSocket c" k i "[]" n] assms by (simp add: quiet_def idle_def)
  finally have "query (storeSocket c) (sent c (query_byte ADD # ?q) d) = (Inr (), ?ans ?d')"
    using w after by (simp add: sent_empty [OF quiet_idle [OF assms(1)]])
  from recv_answer [OF assms(1) this refl q refl]
  have "c_recv (storeSocket c) 8 (sent c (query_byte ADD # ?q) d) = (Inr (i64_bytes (add64 n i)), ?d')" by simp
  then have "addHelper c k i d = (Inr (add64 n i), ?d')"
    by (simp add: addHelper_def bindM_def send_idle [OF quiet_idle [OF assms(1)]] c_sendQuery_def c_recv_i64_def wrap64_id)
  with q aw show ?thesis by (intro exI [of _ ?d']) simp
qed

section \<open>Waiting\<close>

lemma quiet_rcvtimeo: "quiet c d \<Longrightarrow> quiet c (d\<lparr>rcvtimeo := r\<rparr>)"
  by (simp add: quiet_def idle_def wait_inv_def awaits_def)

definition wait_timeo :: "tcp_client \<Rightarrow> int \<Rightarrow> 'a tcp_sys_scheme \<Rightarrow> 'a tcp_sys_scheme" where
  "wait_timeo c timeout d =
     (if timeout \<noteq> kNoTimeout then d\<lparr>rcvtimeo := (rcvtimeo d)(storeSocket c := timeout)\<rparr> else d)"

lemma quiet_wait_timeo: "quiet c d \<Longrightarrow> quiet c (wait_timeo c t d)"
  by (simp add: wait_timeo_def quiet_rcvtimeo)

lemma wait_timeo_simps [simp]:
  "tcpStore (wait_timeo c t d) = tcpStore d" "checkKeys ks (wait_timeo c t d) = checkKeys ks d"
  "awaits (wait_timeo c t d) = awaits d" "outbox (wait_timeo c t d) = outbox d"
  by (simp_all add: wait_timeo_def checkKeys_def awaits_def fun_eq_iff)

lemma waitHelper_sends:
  assumes "quiet c d"
  shows "waitHelper c ks t d =
     (case c_recv (storeSocket c) 1 (sent c (query_byte WAIT # enc_keys ks) (wait_timeo c t d)) of
        (Inl e, d') \<Rightarrow> (Inl e, d')
      | (Inr r, d') \<Rightarrow> (if hd r \<noteq> STOP_WAITING then Inl (Runtime_error ''Stop_waiting response is expected'')
                       else Inr (), d'))"
proof -
  have set_timeo: "(if t \<noteq> kNoTimeout
      then modifyM (\<lambda>d. d\<lparr>rcvtimeo := (rcvtimeo d)(storeSocket c := t)\<rparr>) else returnM ()) d =
      (Inr (), wait_timeo c t d)" by (simp add: wait_timeo_def)
  have "waitHelper c ks t d = bindM (c_recv (storeSocket c) 1) (\<lambda>r.
      if hd r \<noteq> STOP_WAITING then throwM (Runtime_error ''Stop_waiting response is expected'') else returnM ())
      (sent c (query_byte WAIT # enc_keys ks) (wait_timeo c t d))"
    unfolding waitHelper_def bindM_Inr [of "if t \<noteq> kNoTimeout then modifyM (\<lambda>d. d\<lparr>rcvtimeo := (rcvtimeo d)(storeSocket c := t)\<rparr>) else returnM ()" d, OF set_timeo]
    by (simp add: bindM_def c_sendQuery_def enc_keys_def send_idle [OF quiet_idle [OF quiet_wait_timeo [OF assms, of t]]])
  then show ?thesis by (simp add: bindM_def split: sum.splits prod.splits)
qed

lemma waitHelper_ready:
  assumes "quiet c d" and "list_all (\<lambda>k. length k < 2 ^ 64) ks" and "length ks < 2 ^ 64" and "checkKeys ks d"
  shows "waitHelper c ks t d = (Inr (), wait_timeo c t d)"
proof -
  let ?d = "wait_timeo c t d"
  have q: "quiet c ?d" using assms(1) by (rule quiet_wait_timeo)
  have "query (storeSocket c) (sent c (query_byte WAIT # enc_keys ks) ?d) =
      waitHandler (storeSocket c) (sent c (enc_keys ks) ?d)"
    by (subst query_dispatch [where qt = WAIT and args = "enc_keys ks"]) simp_all
  also have "\<dots> = (Inr (), (sent c [] ?d)\<lparr>outbox := (outbox ?d)(storeSocket c := [STOP_WAITING])\<rparr>)"
    using waitHandler_ready [of "sent c (enc_keys ks) ?d" "storeSocket c" ks "[]"] assms(2-4) q
    by (simp add: quiet_def idle_def checkKeys_def)
  finally have "c_recv (storeSocket c) 1 (sent c (query_byte WAIT # enc_keys ks) ?d) = (Inr [STOP_WAITING], ?d)"
    using q by (intro recv_answer) (simp_all add: sent_empty quiet_idle)
  then show ?thesis by (simp add: waitHelper_sends [OF assms(1)])
qed

lemma waitHelper_missing:
  assumes "quiet c d" and "list_all (\<lambda>k. length k < 2 ^ 64) ks" and "length ks < 2 ^ 64" and "\<not> checkKeys ks d"
  shows "\<exists>d'. waitHelper c ks t d =
       (Inl (if rcvtimeo (wait_timeo c t d) (storeSocket c) \<noteq> 0 then Runtime_error ''Socket Timeout'' else Blocked), d') \<and>
     wait_inv d' \<and> awaits d' = (awaits d)(storeSocket c := set ks) \<and>
     (\<exists>ws ka. d' = (wait_timeo c t d)\<lparr>waitingSockets := ws, keysAwaited := ka\<rparr>)"
proof -
  let ?d = "wait_timeo c t d"
  let ?s = "storeSocket c"
  have q: "quiet c ?d" using assms(1) by (rule quiet_wait_timeo)
  have inv: "wait_inv (sent c (enc_keys ks) ?d)" and aw: "awaits (sent c (enc_keys ks) ?d) ?s = {}"
    and miss: "\<not> checkKeys ks (sent c (enc_keys ks) ?d)"
    using q assms(4) by (simp_all add: quiet_def idle_def checkKeys_def)
  from waitHandler_effect [of "sent c (enc_keys ks) ?d" ?s ks "[]", OF _ assms(2,3) miss inv aw]
  obtain ws ka where w: "waitHandler ?s (sent c (enc_keys ks) ?d) =
      (Inr (), (sent c [] ?d)\<lparr>waitingSockets := ws, keysAwaited := ka\<rparr>)"
    "wait_inv ((sent c [] ?d)\<lparr>waitingSockets := ws, keysAwaited := ka\<rparr>)"
    "awaits ((sent c [] ?d)\<lparr>waitingSockets := ws, keysAwaited := ka\<rparr>) = (awaits d)(?s := set ks)"
    by auto
  let ?d' = "?d\<lparr>waitingSockets := ws, keysAwaited := ka\<rparr>"
  have "query ?s (sent c (query_byte WAIT # enc_keys ks) ?d) = waitHandler ?s (sent c (enc_keys ks) ?d)"
    by (subst query_dispatch [where qt = WAIT and args = "enc_keys ks"]) simp_all
  with w(1) have "query ?s (sent c (query_byte WAIT # enc_keys ks) ?d) = (Inr (), ?d')"
    by (simp add: sent_empty [OF quiet_idle [OF q]])
  then have "settle ?s (sent c (query_byte WAIT # enc_keys ks) ?d) = ?d'"
    using q by (intro settle_sent) (simp_all add: quiet_def idle_def)
  then have "c_recv ?s 1 (sent c (query_byte WAIT # enc_keys ks) ?d) =
      (Inl (if rcvtimeo ?d ?s \<noteq> 0 then Runtime_error ''Socket Timeout'' else Blocked), ?d')"
    using q by (simp add: c_recv_def bindM_def quiet_def idle_def)
  then show ?thesis using w(2,3)
    by (intro exI [of _ ?d']) (auto simp: waitHelper_sends [OF assms(1)] sent_empty [OF quiet_idle [OF q]])
qed

lemma getHelper_effect:
  assumes "quiet c d" and "length k < 2 ^ 64" and "map_of (tcpStore d) k = Some v" and "length v < 2 ^ 64"
  shows "getHelper c k d = (Inr v, wait_timeo c (c_timeout c) d)"
proof -
  let ?d = "wait_timeo c (c_timeout c) d"
  let ?s = "storeSocket c"
  have q: "quiet c ?d" using assms(1) by (rule quiet_wait_timeo)
  have w: "waitHelper c [k] (c_timeout c) d = (Inr (), ?d)"
    using assms by (intro waitHelper_ready) (simp_all add: checkKeys_def)
  let ?ans = "?d\<lparr>outbox := (outbox ?d)(?s := enc_vector v)\<rparr>"
  have "query ?s (sent c (query_byte GET # enc_string k) ?d) = getHandler ?s (sent c (enc_string k) ?d)"
    by (subst query_dispatch [where qt = GET and args = "enc_string k"]) simp_all
  also have "\<dots> = (Inr (), ?ans)"
    using getHandler_ok [of "sent c (enc_string k) ?d" ?s k "[]" v] assms q sent_empty [OF quiet_idle [OF q]]
    by (simp add: quiet_def idle_def)
  finally have "settle ?s (sent c (query_byte GET # enc_string k) ?d) = ?ans"
    using q by (intro settle_sent [OF quiet_idle [OF q]]) (simp_all add: quiet_def idle_def)
  then have r1: "c_recv ?s 8 (sent c (query_byte GET # enc_string k) ?d) =
      (Inr (u64_bytes (word_of_nat (length v))), ?ans\<lparr>outbox := (outbox ?ans)(?s := v)\<rparr>)"
    by (rule c_recv_ok) (simp_all add: enc_vector_def)
  have r2: "c_recv ?s (length v) (?ans\<lparr>outbox := (outbox ?ans)(?s := v)\<rparr>) =
      (Inr v, ?d\<lparr>outbox := (outbox ?d)(?s := [])\<rparr>)"
    using q c_recv_ok [of ?s "?ans\<lparr>outbox := (outbox ?ans)(?s := v)\<rparr>" "?ans\<lparr>outbox := (outbox ?ans)(?s := v)\<rparr>" v "[]"]
    by (simp add: settle_def quiet_def idle_def)
  have "getHelper c k d = (Inr v, ?d\<lparr>outbox := (outbox ?d)(?s := [])\<rparr>)"
    using r1 r2 assms(4)
    by (simp add: getHelper_def w bindM_def send_idle [OF quiet_idle [OF q]] c_sendQuery_def c_recvVector_def)
  then show ?thesis by (simp only: quiet_outbox(2) [OF q])
qed

section \<open>The store contract\<close>

text \<open>The values in the daemon's map fit a vector of the protocol.\<close>

definition tcp_inv :: "tcp_client \<Rightarrow> 'a tcp_sys_scheme \<Rightarrow> bool" where
  "tcp_inv c d \<longleftrightarrow> quiet c d \<and> (\<forall>k v. map_of (tcpStore d) k = Some v \<longrightarrow> length v < 2 ^ 64)"

lemma num_bytes_fit: "in_int64 n \<Longrightarrow> length (num_bytes n) < 2 ^ 64"
  using length_num_bytes [of n] by simp

lemma tcp_view_update: "tcp_view d' = (tcp_view d)(k \<mapsto> v)"
  if "tcpStore d' = AList.update (regularPrefix @ k) v (tcpStore d)"
  using that by (auto simp: tcp_view_def)

interpretation tcp: store_del "tcp_inv c" tcp_view tcp_key_ok "\<lambda>v. length v < 2 ^ 64"
  "\<lambda>k v. settled c (tcp_set c k v)" "tcp_get c" "tcp_add c" "tcp_check c" "tcp_deleteKey c" for c
proof (unfold_locales, goal_cases)
  case (1 n)
  then show ?case by (rule num_bytes_fit)
next
  case (2 d k v)
  then have "quiet c d" by (simp add: tcp_inv_def)
  from tcp_set_effect [OF this 2(2,3)] obtain d' where
    d': "settled c (tcp_set c k v) d = (Inr (), d')" "quiet c d'"
      "tcpStore d' = AList.update (regularPrefix @ k) v (tcpStore d)" by blast
  with 2 show ?case by (intro exI [of _ d']) (auto simp: tcp_inv_def intro: tcp_view_update)
next
  case (3 d k v)
  then have "quiet c d" "length (regularPrefix @ k) < 2 ^ 64" "map_of (tcpStore d) (regularPrefix @ k) = Some v"
    "length v < 2 ^ 64" by (auto simp: tcp_inv_def tcp_key_ok_def regularPrefix_def tcp_view_def)
  from getHelper_effect [OF this] 3(1) show ?case
    by (auto simp: tcp_get_def tcp_inv_def quiet_wait_timeo tcp_view_def)
next
  case (4 d k n i)
  let ?k = "regularPrefix @ k"
  have a: "quiet c d" "length ?k < 2 ^ 64" "in_int64 n"
    using 4 by (auto simp: tcp_inv_def tcp_key_ok_def regularPrefix_def counter_at_def)
  have b: "map_of (tcpStore d) ?k = None \<and> n = 0 \<or> map_of (tcpStore d) ?k = Some (num_bytes n)"
    using 4(3) by (auto simp: counter_at_def tcp_view_def split: option.splits)
  from addHelper_effect [OF a(1,2) 4(4) a(3) b] obtain d' where
    d': "addHelper c ?k i d = (Inr (add64 n i), d')" "quiet c d'"
      "tcpStore d' = AList.update ?k (num_bytes (add64 n i)) (tcpStore d)" by blast
  have "length (num_bytes (add64 n i)) < 2 ^ 64" by (rule num_bytes_fit) simp
  with 4(1) d'(2,3) have "tcp_inv c d'" by (auto simp: tcp_inv_def)
  with d' tcp_view_update [of d' k "num_bytes (add64 n i)" d] show ?case
    by (intro exI [of _ d']) (simp add: tcp_add_def)
next
  case (5 d ks)
  then show ?case using tcp_check_effect [of c d ks] by (auto simp: tcp_inv_def)
next
  case (6 d k)
  then have q: "quiet c d" by (simp add: tcp_inv_def)
  let ?d' = "d\<lparr>tcpStore := AList.delete (regularPrefix @ k) (tcpStore d)\<rparr>"
  have "quiet c ?d'" using q by (intro quiet_store) (simp_all add: quiet_def idle_def)
  with 6(1) have "tcp_inv c ?d'" by (simp add: tcp_inv_def)
  moreover have "tcp_view ?d' = (tcp_view d)(k := None)" by (auto simp: tcp_view_def)
  ultimately show ?case using tcp_deleteKey_effect [OF q 6(2)] by auto
qed

section \<open>When a waiting client is answered\<close>

lemma waiter_step:
  assumes "tcp_inv c d" and "tcp_key_ok k" and "length v < 2 ^ 64"
  defines "d' \<equiv> snd (settled c (tcp_set c k v) d)"
  shows "tcp_inv c d'" and "awaits d' s = awaits d s - {regularPrefix @ k}"
    and "outbox d' s = outbox d s @
       (if awaits d s \<noteq> {} \<and> awaits d s \<subseteq> {regularPrefix @ k} then [STOP_WAITING] else [])"
proof -
  have "quiet c d" using assms(1) by (simp add: tcp_inv_def)
  from tcp_set_effect [OF this assms(2,3)] obtain e where
    e: "settled c (tcp_set c k v) d = (Inr (), e)" "quiet c e"
      "tcpStore e = AList.update (regularPrefix @ k) v (tcpStore d)"
      "awaits e = (\<lambda>s. awaits d s - {regularPrefix @ k})"
      "\<And>s. outbox e s = outbox d s @
        (if awaits d s \<noteq> {} \<and> awaits d s \<subseteq> {regularPrefix @ k} then [STOP_WAITING] else [])" by blast
  from e(1) have "d' = e" by (simp add: d'_def)
  with e assms(1,3) show "tcp_inv c d'" and "awaits d' s = awaits d s - {regularPrefix @ k}"
    and "outbox d' s = outbox d s @
       (if awaits d s \<noteq> {} \<and> awaits d s \<subseteq> {regularPrefix @ k} then [STOP_WAITING] else [])"
    by (auto simp: tcp_inv_def)
qed

lemma waiter_answered:
  assumes "tcp_inv c d" and "list_all (\<lambda>(k, v). tcp_key_ok k \<and> length v < 2 ^ 64) kvs"
  defines "d' \<equiv> run_sets (\<lambda>k v. settled c (tcp_set c k v)) kvs d"
  shows "awaits d' s = awaits d s - (\<lambda>(k, v). regularPrefix @ k) ` set kvs \<and>
     outbox d' s = outbox d s @ (if awaits d s \<noteq> {} \<and> awaits d' s = {} then [STOP_WAITING] else [])"
  using assms(1,2) unfolding d'_def
proof (induction kvs arbitrary: d)
  case Nil
  then show ?case by simp
next
  case (Cons kv kvs)
  obtain k v where kv: "kv = (k, v)" by force
  let ?e = "snd (settled c (tcp_set c k v) d)"
  let ?d' = "run_sets (\<lambda>k v. settled c (tcp_set c k v)) kvs ?e"
  have pre: "tcp_key_ok k" "length v < 2 ^ 64" using Cons.prems(2) kv by auto
  note step = waiter_step [OF Cons.prems(1) pre]
  have IH: "awaits ?d' s = awaits ?e s - (\<lambda>(k, v). regularPrefix @ k) ` set kvs"
    "outbox ?d' s = outbox ?e s @ (if awaits ?e s \<noteq> {} \<and> awaits ?d' s = {} then [STOP_WAITING] else [])"
    using Cons.IH [OF step(1)] Cons.prems(2) by simp_all
  have "awaits ?d' s = awaits d s - (\<lambda>(k, v). regularPrefix @ k) ` set (kv # kvs)"
    using IH(1) step(2) [of s] kv by auto
  moreover have "outbox ?d' s = outbox d s @ (if awaits d s \<noteq> {} \<and> awaits ?d' s = {} then [STOP_WAITING] else [])"
    using IH step(2,3) [of s] by (cases "awaits ?e s = {}") auto
  ultimately show ?case using kv by simp
qed

lemma wait_keeps_others:
  fixes t :: int
  assumes "tcp_inv b d" and "quiet a d" and "storeSocket a \<noteq> storeSocket b"
    and "list_all (\<lambda>k. length k < 2 ^ 64) ks" and "length ks < 2 ^ 64" and "\<not> checkKeys ks d"
  defines "d' \<equiv> snd (waitHelper a ks t d)"
  shows "tcp_inv b d'" and "awaits d' (storeSocket a) = set ks" and "outbox d' = outbox d"
    and "tcpStore d' = tcpStore d" and "sockets d' = sockets d" and "closed d' = closed d"
proof -
  from waitHelper_missing [OF assms(2,4-6), of t] obtain r e ws ka where
    e: "waitHelper a ks t d = (r, e)" "wait_inv e" "awaits e = (awaits d)(storeSocket a := set ks)"
      "e = (wait_timeo a t d)\<lparr>waitingSockets := ws, keysAwaited := ka\<rparr>" by blast
  have d': "d' = e" using e(1) by (simp add: d'_def)
  show "tcp_inv b d'" using assms(1,3) e(2,3) unfolding d' e(4)
    by (auto simp: tcp_inv_def quiet_def idle_def wait_timeo_def)
  show "awaits d' (storeSocket a) = set ks" using e(3) by (simp add: d')
  show "outbox d' = outbox d" "tcpStore d' = tcpStore d" "sockets d' = sockets d" "closed d' = closed d"
    by (simp_all add: d' e(4) wait_timeo_def)
qed

text \<open>A daemon with two connected clients and an empty map.\<close>

definition tcp_start :: tcp_sys where
  "tcp_start = \<lparr>inbox = (\<lambda>_. []), outbox = (\<lambda>_. []), broken = (\<lambda>_. False), closed = (\<lambda>_. False),
     tcpStore = [], waitingSockets = [], keysAwaited = [], sockets = [7, 8], rcvtimeo = (\<lambda>_. 0)\<rparr>"

definition tcp_worker :: "int \<Rightarrow> tcp_client" where
  "tcp_worker sock = \<lparr>storeSocket = sock, c_timeout = 1000, numWorkers = 2, isServer = (sock = 7)\<rparr>"

lemma tcp_start_inv: "tcp_inv (tcp_worker 7) tcp_start" "tcp_inv (tcp_worker 8) tcp_start"
  by (simp_all add: tcp_inv_def quiet_def idle_def tcp_start_def tcp_worker_def wait_inv_def awaits_def umap_at_def)

lemma tcp_start_simps [simp]:
  "storeSocket (tcp_worker s) = s" "tcp_view tcp_start k = None"
  "quiet (tcp_worker 7) tcp_start" "quiet (tcp_worker 8) tcp_start"
  using tcp_start_inv by (simp_all add: tcp_inv_def tcp_worker_def tcp_view_def tcp_start_def)

section \<open>A stale answer\<close>

text \<open>
  A wait that ends with the receive timeout leaves the registration with the daemon. The answer
  comes later, and the next call on the connection takes it for its own.
\<close>

lemma tcp_check_reads_front:
  assumes "idle c d" and "outbox d (storeSocket c) = READY # rest"
    and "list_all tcp_key_ok ks" and "length ks < 2 ^ 64"
  shows "fst (tcp_check c ks d) = Inr True"
proof -
  let ?s = "storeSocket c"
  let ?ks = "map (\<lambda>k. regularPrefix @ k) ks"
  let ?resp = "[if checkKeys ?ks d then READY else NOT_READY]"
  let ?d' = "d\<lparr>outbox := (outbox d)(?s := READY # rest @ ?resp)\<rparr>"
  have len: "list_all (\<lambda>k. length k < 2 ^ 64) ?ks"
    using assms(3) by (auto simp: list_all_iff tcp_key_ok_def regularPrefix_def)
  have ks: "checkKeys ?ks (sent c bs d) = checkKeys ?ks d" for bs by (simp add: checkKeys_def)
  have "query ?s (sent c (query_byte CHECK # enc_keys ?ks) d) = checkHandler ?s (sent c (enc_keys ?ks) d)"
    by (subst query_dispatch [where qt = CHECK and args = "enc_keys ?ks"]) simp_all
  also have "\<dots> = (Inr (), ?d')"
    using checkHandler_ok [of "sent c (enc_keys ?ks) d" ?s ?ks "[]"] len assms ks sent_empty [OF assms(1)]
    by (simp add: idle_def)
  finally have "settle ?s (sent c (query_byte CHECK # enc_keys ?ks) d) = ?d'"
    using assms(1) by (intro settle_sent) (simp_all add: idle_def)
  from c_recv_ok [OF this, of "[READY]" "rest @ ?resp" 1]
  obtain e where "c_recv ?s 1 (sent c (query_byte CHECK # enc_keys ?ks) d) = (Inr [READY], e)" by simp
  then show ?thesis
    by (simp add: tcp_check_def bindM_def send_idle [OF assms(1)] c_sendQuery_def enc_keys_def)
qed

lemma wait_then_set_idle:
  fixes t :: int
  assumes "tcp_inv b d" and "quiet a d" and "storeSocket a \<noteq> storeSocket b"
    and "tcp_key_ok k" and "tcp_view d k = None" and "length v < 2 ^ 64"
  defines "d' \<equiv> snd (settled b (tcp_set b k v) (snd (tcp_wait_timeout a [k] t d)))"
  shows "idle a d'" and "outbox d' (storeSocket a) = [STOP_WAITING]" and "tcp_view d' = (tcp_view d)(k \<mapsto> v)"
proof -
  let ?k = "regularPrefix @ k"
  let ?e = "snd (waitHelper a [?k] t d)"
  have k: "list_all (\<lambda>k. length k < 2 ^ 64) [?k]" "\<not> checkKeys [?k] d"
    using assms(4,5) by (simp_all add: tcp_key_ok_def regularPrefix_def checkKeys_def tcp_view_def)
  note e = wait_keeps_others [OF assms(1-3) k(1) _ k(2), of t, simplified]
  have "quiet b ?e" using e(1) by (simp add: tcp_inv_def)
  from tcp_set_effect [OF this assms(4,6)] obtain f where
    f: "settled b (tcp_set b k v) ?e = (Inr (), f)" "quiet b f"
      "tcpStore f = AList.update ?k v (tcpStore ?e)" "sockets f = sockets ?e" "closed f = closed ?e" "awaits f = (\<lambda>s. awaits ?e s - {?k})"
      "\<And>s. outbox f s = outbox ?e s @ (if awaits ?e s \<noteq> {} \<and> awaits ?e s \<subseteq> {?k} then [STOP_WAITING] else [])"
    by blast
  have d': "d' = f" using f(1) by (simp add: d'_def tcp_wait_timeout_def)
  show "outbox d' (storeSocket a) = [STOP_WAITING]"
    using f(7) [of "storeSocket a"] e(2,3) assms(2) by (simp add: d' quiet_def)
  show "tcp_view d' = (tcp_view d)(k \<mapsto> v)" using f(3) e(4) by (simp add: d' tcp_view_def fun_eq_iff)
  have "awaits f (storeSocket a) = {}" using f(6) e(2) by simp
  then show "idle a d'" using f(2,4,5) e(5,6) assms(2) by (simp add: d' quiet_def idle_def)
qed

section \<open>Properties\<close>

text \<open>
  C12. A client of a \<^verbatim>\<open>TCPStore\<close> reads its writes: after any sequence of sets over its
  connection, \<^verbatim>\<open>get\<close> returns the last value set for the key, through the encoding, the
  daemon's poll loop and handlers and the decoding, whatever other clients wait for.
\<close>

theorem tcp_last_write_wins:
  assumes "tcp_inv c d" and "list_all (\<lambda>(k, v). tcp_key_ok k \<and> length v < 2 ^ 64) kvs"
    and "tcp_key_ok k" and "map_of (rev kvs) k = Some v"
  shows "fst (tcp_get c k (run_sets (\<lambda>k v. settled c (tcp_set c k v)) kvs d)) = Inr v"
  using tcp.run_sets_get [OF assms] .

theorem tcp_last_write_wins_witness:
  "fst (tcp_get (tcp_worker 7) ''k''
     (run_sets (\<lambda>k v. settled (tcp_worker 7) (tcp_set (tcp_worker 7) k v)) [(''k'', [1]), (''k'', [2])] tcp_start)) = Inr [2]"
  using tcp_start_inv(1) by (rule tcp_last_write_wins) (simp_all add: tcp_key_ok_def)

text \<open>
  Ranks over TCP: \<open>m\<close> calls of \<^verbatim>\<open>add(key, 1)\<close> on a key that holds the decimal text of
  \<open>n\<close> (or nothing, and \<open>n\<close> is 0) return \<open>n\<close> + 1, ..., \<open>n\<close> + \<open>m\<close>.
\<close>

theorem tcp_ranks:
  assumes "tcp_inv c d" and "tcp_key_ok k" and "counter_at (tcp_view d) k n" and "n + int m \<le> int64_max"
  shows "fst (run_adds (tcp_add c) k (replicate m 1) d) = map (\<lambda>j. Inr (n + 1 + int j)) [0..<m]"
  using tcp.adds_consecutive [OF assms] .

theorem tcp_ranks_witness:
  "fst (run_adds (tcp_add (tcp_worker 7)) ''k'' (replicate 2 1) tcp_start) = [Inr 1, Inr 2]"
proof -
  have "counter_at (tcp_view tcp_start) ''k'' 0"
    by (simp add: counter_at_def tcp_view_def tcp_start_def in_int64_def int64_min_def int64_max_def)
  from tcp_ranks [OF tcp_start_inv(1) _ this, of 2] show ?thesis
    by (simp add: tcp_key_ok_def int64_max_def upt_rec)
qed

text \<open>
  C3. When a waiting client is answered: client \<open>a\<close> waits for keys of which at least one is
  absent, then client \<open>b\<close> sets a list of keys. The daemon sends \<open>a\<close> its one
  \<^verbatim>\<open>STOP_WAITING\<close> exactly when every key that \<open>a\<close> named has been written after the wait.
\<close>

theorem tcp_wait_answered:
  fixes t :: int
  assumes "tcp_inv b d" and "quiet a d" and "storeSocket a \<noteq> storeSocket b"
    and "list_all tcp_key_ok ks" and "length ks < 2 ^ 64" and "\<exists>k \<in> set ks. tcp_view d k = None"
    and "list_all (\<lambda>(k, v). tcp_key_ok k \<and> length v < 2 ^ 64) kvs"
  shows "outbox (run_sets (\<lambda>k v. settled b (tcp_set b k v)) kvs (snd (tcp_wait_timeout a ks t d))) (storeSocket a) =
    (if set ks \<subseteq> fst ` set kvs then [STOP_WAITING] else [])"
proof -
  let ?ks = "map (\<lambda>k. regularPrefix @ k) ks"
  let ?e = "snd (waitHelper a ?ks t d)"
  have ks: "list_all (\<lambda>k. length k < 2 ^ 64) ?ks" "length ?ks < 2 ^ 64" "\<not> checkKeys ?ks d"
    using assms(4-6) by (auto simp: list_all_iff tcp_key_ok_def regularPrefix_def checkKeys_def tcp_view_def)
  note e = wait_keeps_others [OF assms(1-3) ks, of t]
  from waiter_answered [OF e(1) assms(7), of "storeSocket a"] e(2,3) assms(2,6)
  have "outbox (run_sets (\<lambda>k v. settled b (tcp_set b k v)) kvs ?e) (storeSocket a) =
      (if set ?ks - (\<lambda>(k, v). regularPrefix @ k) ` set kvs = {} then [STOP_WAITING] else [])"
    by (auto simp: quiet_def)
  moreover have "set ?ks - (\<lambda>(k, v). regularPrefix @ k) ` set kvs = {} \<longleftrightarrow> set ks \<subseteq> fst ` set kvs" by force
  ultimately show ?thesis by (simp add: tcp_wait_timeout_def)
qed

theorem tcp_wait_answered_witness:
  "outbox (run_sets (\<lambda>k v. settled (tcp_worker 8) (tcp_set (tcp_worker 8) k v)) [(''y'', [1]), (''x'', [2])]
     (snd (tcp_wait_timeout (tcp_worker 7) [''x'', ''y''] 0 tcp_start))) 7 = [STOP_WAITING]"
  using tcp_wait_answered [of "tcp_worker 8" tcp_start "tcp_worker 7" "[''x'', ''y'']" "[(''y'', [1]), (''x'', [2])]" 0]
    tcp_start_inv
  by (auto simp: tcp_key_ok_def)

text \<open>
  A key that is already there when the wait arrives counts as missing: client \<open>a\<close> waits for
  a key \<open>x\<close> that is present and a key \<open>y\<close> that is not; when \<open>y\<close> is set both keys are
  present, but \<open>a\<close> is not answered.
\<close>

theorem tcp_wait_counts_present_keys:
  fixes t :: int
  assumes "tcp_inv b d" and "quiet a d" and "storeSocket a \<noteq> storeSocket b" and "tcp_key_ok x" and "tcp_key_ok y"
    and "tcp_view d x \<noteq> None" and "tcp_view d y = None" and "length v < 2 ^ 64"
  shows "let d' = snd (settled b (tcp_set b y v) (snd (tcp_wait_timeout a [x, y] t d)))
    in fst (tcp_check b [x, y] d') = Inr True \<and> outbox d' (storeSocket a) = []"
proof -
  let ?x = "regularPrefix @ x" and ?y = "regularPrefix @ y"
  let ?e = "snd (waitHelper a [?x, ?y] t d)"
  let ?d' = "snd (settled b (tcp_set b y v) ?e)"
  have ks: "list_all (\<lambda>k. length k < 2 ^ 64) [?x, ?y]" "length [?x, ?y] < 2 ^ 64" "\<not> checkKeys [?x, ?y] d"
    using assms(4,5,7) by (simp_all add: tcp_key_ok_def regularPrefix_def checkKeys_def tcp_view_def)
  note e = wait_keeps_others [OF assms(1-3) ks, of t]
  have xy: "?x \<noteq> ?y" using assms(6,7) by auto
  have "outbox ?d' (storeSocket a) = []"
    using waiter_step(3) [OF e(1) assms(5,8), of "storeSocket a"] e(2,3) assms(2) xy by (auto simp: quiet_def)
  moreover from e(1) have "quiet b ?e" by (simp add: tcp_inv_def)
  with tcp_set_effect [OF _ assms(5,8)] obtain f where f: "?d' = f" "quiet b f"
    "tcpStore f = AList.update ?y v (tcpStore ?e)" by force
  then have "fst (tcp_check b [x, y] ?d') = Inr True"
    using tcp_check_effect [of b f "[x, y]"] assms(4-6) e(4) by (simp add: tcp_view_def)
  ultimately show ?thesis by (simp add: Let_def tcp_wait_timeout_def)
qed

definition tcp_with_x :: tcp_sys where
  "tcp_with_x = tcp_start\<lparr>tcpStore := [(''/x'', [1])]\<rparr>"

lemma tcp_with_x_inv: "tcp_inv (tcp_worker 7) tcp_with_x" "tcp_inv (tcp_worker 8) tcp_with_x"
  by (simp_all add: tcp_inv_def quiet_def idle_def tcp_with_x_def tcp_start_def tcp_worker_def
      wait_inv_def awaits_def umap_at_def umap_wf_def)

lemma tcp_view_with_x: "tcp_view tcp_with_x k = (if k = ''x'' then Some [1] else None)"
  by (simp add: tcp_view_def tcp_with_x_def regularPrefix_def)

theorem tcp_wait_counts_present_keys_witness:
  "outbox (snd (settled (tcp_worker 8) (tcp_set (tcp_worker 8) ''y'' [2])
     (snd (tcp_wait_timeout (tcp_worker 7) [''x'', ''y''] 0 tcp_with_x)))) 7 = []"
  using tcp_wait_counts_present_keys [of "tcp_worker 8" tcp_with_x "tcp_worker 7" "''x''" "''y''" "[2]" 0]
    tcp_with_x_inv
  by (simp add: Let_def tcp_key_ok_def tcp_inv_def tcp_view_with_x)

text \<open>
  A wait that timed out poisons the connection: when the awaited key is set afterwards, the
  daemon's late \<^verbatim>\<open>STOP_WAITING\<close> is read as the answer of the client's next
  \<^verbatim>\<open>check\<close>, which then reports any key as present.
\<close>

theorem tcp_stale_answer:
  assumes "tcp_inv b d" and "quiet a d" and "storeSocket a \<noteq> storeSocket b" and "tcp_key_ok k"
    and "tcp_view d k = None" and "length v < 2 ^ 64" and "0 < t" and "tcp_key_ok z" and "z \<noteq> k" and "tcp_view d z = None"
  shows "fst (tcp_wait_timeout a [k] t d) = Inl (Runtime_error ''Socket Timeout'') \<and>
    (let d' = snd (settled b (tcp_set b k v) (snd (tcp_wait_timeout a [k] t d)))
     in tcp_view d' z = None \<and> fst (tcp_check a [z] d') = Inr True)"
proof -
  let ?d' = "snd (settled b (tcp_set b k v) (snd (tcp_wait_timeout a [k] t d)))"
  note d' = wait_then_set_idle [OF assms(1-6), of t]
  have "fst (tcp_check a [z] ?d') = Inr True"
    using d'(1,2) assms(8) by (intro tcp_check_reads_front) (simp_all add: STOP_WAITING_def READY_def)
  moreover have "tcp_view ?d' z = None" using d'(3) assms(9,10) by simp
  moreover have "list_all (\<lambda>k. length k < 2 ^ 64) [regularPrefix @ k]" "\<not> checkKeys [regularPrefix @ k] d"
    using assms(4,5) by (simp_all add: tcp_key_ok_def regularPrefix_def checkKeys_def tcp_view_def)
  then have "fst (tcp_wait_timeout a [k] t d) = Inl (Runtime_error ''Socket Timeout'')"
    using waitHelper_missing [OF assms(2), of "[regularPrefix @ k]" t] assms(7)
    by (auto simp: tcp_wait_timeout_def wait_timeo_def kNoTimeout_def)
  ultimately show ?thesis by (simp add: Let_def)
qed

theorem tcp_stale_answer_witness:
  "fst (tcp_check (tcp_worker 7) [''z''] (snd (settled (tcp_worker 8) (tcp_set (tcp_worker 8) ''x'' [5])
     (snd (tcp_wait_timeout (tcp_worker 7) [''x''] 1000 tcp_start))))) = Inr True"
  using tcp_stale_answer [of "tcp_worker 8" tcp_start "tcp_worker 7" "''x''" "[5]" 1000 "''z''"] tcp_start_inv
  by (simp add: Let_def tcp_key_ok_def)

end
