(* ===== verification/FileStore.thy ===== *)
theory FileStore
  imports Store_Interface Tcp_Wire
begin

text \<open>
  \<^verbatim>\<open>c10d::FileStore\<close> (\<^verbatim>\<open>FileStore.hpp\<close>, \<^verbatim>\<open>FileStore.cpp\<close>): a store kept in a
  file that every process appends to. Each process has a cache of the entries it has read and
  the position up to which it has read. The file is locked for the whole of an operation, so an
  operation is one step on the shared file. The theory shows that the processes together see one
  store: what any process writes is what every process reads, and the last of the announced
  workers to go removes the file.
\<close>

section \<open>An open file\<close>

record fhandle =
  fh_data :: bytes
  fh_cur :: nat

text \<open>
  \<^verbatim>\<open>File::read\<close> repeats \<^verbatim>\<open>::read\<close> until the count is used up: it goes on after a
  call that returned 0 bytes. \<open>file_read_loop\<close> has one entry per call; an error other than
  \<^verbatim>\<open>EINTR\<close> is thrown.
\<close>

fun file_read_loop :: "sysret list \<Rightarrow> nat \<Rightarrow> bytes \<Rightarrow> bytes res \<times> bytes" where
  "file_read_loop calls 0 stream = (Inr [], stream)"
| "file_read_loop [] n stream = (Inl Blocked, stream)"
| "file_read_loop (EINTR # calls) n stream = file_read_loop calls n stream"
| "file_read_loop (EAGAIN # calls) n stream = (Inl (System_error ''EAGAIN''), stream)"
| "file_read_loop (Errno e # calls) n stream = (Inl (System_error e), stream)"
| "file_read_loop (Ret m # calls) n stream =
     (let got = take (min m n) stream
      in case file_read_loop calls (n - length got) (drop (length got) stream) of
           (Inl e, rest) \<Rightarrow> (Inl e, rest)
         | (Inr bs, rest) \<Rightarrow> (Inr (got @ bs), rest))"

text \<open>
  The operations of \<^verbatim>\<open>File\<close> on its contents and cursor. A read beyond the end of the file
  does not return.
\<close>

definition f_seek_set :: "nat \<Rightarrow> fhandle \<Rightarrow> fhandle" where
  "f_seek_set pos h = h\<lparr>fh_cur := pos\<rparr>"

definition f_seek_end :: "fhandle \<Rightarrow> fhandle" where
  "f_seek_end h = h\<lparr>fh_cur := length (fh_data h)\<rparr>"

definition f_tell :: "fhandle \<Rightarrow> nat" where
  "f_tell h = fh_cur h"

definition f_size :: "fhandle \<Rightarrow> nat" where
  "f_size h = f_tell (f_seek_end h)"

definition f_write_bytes :: "bytes \<Rightarrow> fhandle \<Rightarrow> fhandle" where
  "f_write_bytes bs h =
     h\<lparr>fh_data := take (fh_cur h) (fh_data h) @ bs @ drop (fh_cur h + length bs) (fh_data h),
       fh_cur := fh_cur h + length bs\<rparr>"

definition f_read_bytes :: "nat \<Rightarrow> (fhandle, bytes) cmd" where
  "f_read_bytes n h =
     (if fh_cur h + n \<le> length (fh_data h) \<or> n = 0
      then (Inr (take n (drop (fh_cur h) (fh_data h))), h\<lparr>fh_cur := fh_cur h + n\<rparr>)
      else (Inl Blocked, h\<lparr>fh_cur := max (fh_cur h) (length (fh_data h))\<rparr>))"

definition f_write_vec :: "bytes \<Rightarrow> fhandle \<Rightarrow> fhandle" where
  "f_write_vec data h =
     (let len = word_of_nat (length data) :: 32 word
      in f_write_bytes (take (unat len) data) (f_write_bytes (u32_bytes len) h))"

definition f_write_string :: "string \<Rightarrow> fhandle \<Rightarrow> fhandle" where
  "f_write_string str h =
     (let len = word_of_nat (length str) :: 32 word
      in f_write_bytes (take (unat len) (bytes_of str)) (f_write_bytes (u32_bytes len) h))"

definition f_read_vec :: "(fhandle, bytes) cmd" where
  "f_read_vec = bindM (f_read_bytes 4) (\<lambda>lenb. f_read_bytes (unat (bytes_u32 lenb)))"

definition f_read_string :: "(fhandle, string) cmd" where
  "f_read_string =
     bindM (f_read_bytes 4) (\<lambda>lenb.
     bindM (f_read_bytes (unat (bytes_u32 lenb))) (\<lambda>buf. returnM (string_of buf)))"

section \<open>Reading the new entries\<close>

lemma f_read_bytes_cur: "f_read_bytes n h = (Inr bs, h') \<Longrightarrow> fh_cur h' = fh_cur h + n"
  by (auto simp: f_read_bytes_def split: if_splits)

lemma f_read_vec_cur: "f_read_vec h = (Inr v, h') \<Longrightarrow> fh_cur h + 4 \<le> fh_cur h'"
  by (auto simp: f_read_vec_def bindM_def split: prod.splits sum.splits dest!: f_read_bytes_cur)

lemma f_read_string_cur: "f_read_string h = (Inr v, h') \<Longrightarrow> fh_cur h + 4 \<le> fh_cur h'"
  by (auto simp: f_read_string_def bindM_def split: prod.splits sum.splits dest!: f_read_bytes_cur)

function refresh_loop :: "nat \<Rightarrow> (string, bytes) umap \<Rightarrow> fhandle \<Rightarrow> (string, bytes) umap res \<times> fhandle" where
  "refresh_loop fsize cache h =
     (if fh_cur h < fsize then
        case f_read_string h of
          (Inl e, h1) \<Rightarrow> (Inl e, h1)
        | (Inr tmpKey, h1) \<Rightarrow>
            (case f_read_vec h1 of
               (Inl e, h2) \<Rightarrow> (Inl e, h2)
             | (Inr tmpValue, h2) \<Rightarrow> refresh_loop fsize (AList.update tmpKey tmpValue cache) h2)
      else (Inr cache, h))"
  by pat_completeness auto
termination
  by (relation "measure (\<lambda>(fsize, cache, h). fsize - fh_cur h)")
     (auto dest!: sym [of "(Inr _, _)"] f_read_string_cur f_read_vec_cur)

declare refresh_loop.simps [simp del]

definition refresh :: "nat \<Rightarrow> (string, bytes) umap \<Rightarrow> (fhandle, nat \<times> (string, bytes) umap) cmd" where
  "refresh pos cache h =
     (let fsize = f_size h in
      if fsize \<noteq> pos then
        case refresh_loop fsize cache (f_seek_set pos h) of
          (Inl e, h1) \<Rightarrow> (Inl e, h1)
        | (Inr cache', h1) \<Rightarrow> (Inr (f_tell h1, cache'), f_seek_set 0 h1)
      else (Inr (pos, cache), f_seek_set 0 h))"

section \<open>Processes sharing a file\<close>

record fproc =
  fp_pos :: nat
  fp_cache :: "(string, bytes) umap"
  fp_numWorkers :: int
  fp_timeout :: int

record fsys =
  fs_file :: "bytes option"
  fs_proc :: "nat \<Rightarrow> fproc"

definition cleanupKey :: string where "cleanupKey = ''cleanup/''"
definition fsPrefix :: string where "fsPrefix = ''/''"

definition fs_new :: "int \<Rightarrow> fproc res" where
  "fs_new workers =
     (if workers < 1
      then Inl (Runtime_error ''Number of workers for FileStore should be greater than zero'')
      else Inr \<lparr>fp_pos = 0, fp_cache = [], fp_numWorkers = workers, fp_timeout = kDefaultTimeout\<rparr>)"

text \<open>
  Opening the file: with \<^verbatim>\<open>O_CREAT\<close> a missing file is created; without it the constructor
  of \<^verbatim>\<open>File\<close> tries again until the timeout has passed, and with no timeout forever.
\<close>

definition with_file :: "bool \<Rightarrow> nat \<Rightarrow> (fhandle, 'a) cmd \<Rightarrow> (fsys, 'a) cmd" where
  "with_file creat p m s =
     (let run = (\<lambda>data. case m \<lparr>fh_data = data, fh_cur = 0\<rparr> of (r, h) \<Rightarrow> (r, s\<lparr>fs_file := Some (fh_data h)\<rparr>))
      in case fs_file s of
           Some data \<Rightarrow> run data
         | None \<Rightarrow>
             (if creat then run []
              else (Inl (if fp_timeout (fs_proc s p) \<noteq> kNoTimeout then System_error ''ENOENT'' else Blocked), s)))"

definition upd_proc :: "nat \<Rightarrow> (fproc \<Rightarrow> fproc) \<Rightarrow> fsys \<Rightarrow> fsys" where
  "upd_proc p f s = s\<lparr>fs_proc := (fs_proc s)(p := f (fs_proc s p))\<rparr>"

definition fs_refresh :: "bool \<Rightarrow> nat \<Rightarrow> (fsys, unit) cmd" where
  "fs_refresh creat p =
     bindM (getM (\<lambda>s. fs_proc s p)) (\<lambda>me.
     bindM (with_file creat p (refresh (fp_pos me) (fp_cache me))) (\<lambda>(pos, cache).
     modifyM (upd_proc p (\<lambda>me. me\<lparr>fp_pos := pos, fp_cache := cache\<rparr>))))"

definition fs_append :: "nat \<Rightarrow> string \<Rightarrow> bytes \<Rightarrow> (fsys, unit) cmd" where
  "fs_append p key value =
     with_file True p (modifyM (\<lambda>h. f_write_vec value (f_write_string key (f_seek_end h))))"

definition fs_set :: "nat \<Rightarrow> string \<Rightarrow> bytes \<Rightarrow> (fsys, unit) cmd" where
  "fs_set p key value = fs_append p (fsPrefix @ key) value"

text \<open>
  The loop of \<^verbatim>\<open>get\<close>. One entry per turn: the seconds elapsed when it looks at the clock and
  what other processes do to the system when it has released the locks.
\<close>

fun fs_get_loop :: "nat \<Rightarrow> string \<Rightarrow> (int \<times> (fsys \<Rightarrow> fsys)) list \<Rightarrow> (fsys, bytes) cmd" where
  "fs_get_loop p regKey [] = throwM Blocked"
| "fs_get_loop p regKey ((elapsed, others) # turns) =
     bindM (with_file False p (getM f_size)) (\<lambda>fsize.
     bindM (getM (\<lambda>s. fs_proc s p)) (\<lambda>me.
     if \<not> umap_has (fp_cache me) regKey \<and> fsize = fp_pos me then
       if fp_timeout me \<noteq> kNoTimeout \<and> fp_timeout me < elapsed * 1000
       then throwM (Runtime_error ''Timeout waiting for key'')
       else bindM (modifyM others) (\<lambda>_. fs_get_loop p regKey turns)
     else
       bindM (fs_refresh False p) (\<lambda>_.
       bindM (getM (\<lambda>s. map_of (fp_cache (fs_proc s p)) regKey)) (\<lambda>found.
         case found of
           Some v \<Rightarrow> returnM v
         | None \<Rightarrow> bindM (modifyM others) (\<lambda>_. fs_get_loop p regKey turns)))))"

definition fs_get :: "nat \<Rightarrow> (int \<times> (fsys \<Rightarrow> fsys)) list \<Rightarrow> string \<Rightarrow> (fsys, bytes) cmd" where
  "fs_get p turns key = fs_get_loop p (fsPrefix @ key) turns"

definition fs_addHelper :: "nat \<Rightarrow> string \<Rightarrow> int \<Rightarrow> (fsys, int) cmd" where
  "fs_addHelper p key i =
     bindM (fs_refresh True p) (\<lambda>_.
     bindM (getM (\<lambda>s. umap_at [] (fp_cache (fs_proc s p)) key)) (\<lambda>value.
     bindM (modifyM (upd_proc p (\<lambda>me. if umap_has (fp_cache me) key then me
              else me\<lparr>fp_cache := AList.update key [] (fp_cache me)\<rparr>))) (\<lambda>_.
     bindM (if value = [] then returnM i
            else bindM (liftM (stoll (string_of value))) (\<lambda>n. returnM (add64 i n))) (\<lambda>ti.
     bindM (fs_append p key (bytes_of (to_string ti))) (\<lambda>_.
     returnM ti)))))"

definition fs_add :: "nat \<Rightarrow> string \<Rightarrow> int \<Rightarrow> (fsys, int) cmd" where
  "fs_add p key value = fs_addHelper p (fsPrefix @ key) value"

definition fs_getNumKeys :: "nat \<Rightarrow> (fsys, int) cmd" where
  "fs_getNumKeys p = bindM (fs_refresh False p) (\<lambda>_. getM (\<lambda>s. int (length (fp_cache (fs_proc s p)))))"

definition fs_deleteKey :: "nat \<Rightarrow> string \<Rightarrow> (fsys, bool) cmd" where
  "fs_deleteKey p key = throwM (C10_error ''deleteKey not implemented for FileStore'')"

fun fs_check_loop :: "(string, bytes) umap \<Rightarrow> string list \<Rightarrow> bool" where
  "fs_check_loop cache [] = True"
| "fs_check_loop cache (key # keys) =
     (if \<not> umap_has cache (fsPrefix @ key) then False else fs_check_loop cache keys)"

definition fs_check :: "nat \<Rightarrow> string list \<Rightarrow> (fsys, bool) cmd" where
  "fs_check p keys =
     bindM (fs_refresh False p) (\<lambda>_. getM (\<lambda>s. fs_check_loop (fp_cache (fs_proc s p)) keys))"

fun fs_wait_timeout :: "nat \<Rightarrow> string list \<Rightarrow> int \<Rightarrow> (int \<times> (fsys \<Rightarrow> fsys)) list \<Rightarrow> (fsys, unit) cmd" where
  "fs_wait_timeout p keys timeout [] = throwM Blocked"
| "fs_wait_timeout p keys timeout ((elapsed, others) # turns) =
     bindM (fs_check p keys) (\<lambda>ok.
     if ok then returnM ()
     else if timeout \<noteq> kNoTimeout \<and> timeout < elapsed * 1000 then throwM (Runtime_error ''Wait timeout'')
     else bindM (modifyM others) (\<lambda>_. fs_wait_timeout p keys timeout turns))"

definition fs_wait :: "nat \<Rightarrow> string list \<Rightarrow> (int \<times> (fsys \<Rightarrow> fsys)) list \<Rightarrow> (fsys, unit) cmd" where
  "fs_wait p keys turns s = fs_wait_timeout p keys (fp_timeout (fs_proc s p)) turns s"

definition fs_destroy :: "nat \<Rightarrow> (fsys, unit) cmd" where
  "fs_destroy p =
     bindM (fs_addHelper p cleanupKey 1) (\<lambda>numFinishedWorker.
     bindM (getM (\<lambda>s. fp_numWorkers (fs_proc s p))) (\<lambda>workers.
     if numFinishedWorker = workers then modifyM (\<lambda>s. s\<lparr>fs_file := None\<rparr>) else returnM ()))"

section \<open>The log\<close>

definition enc_entry :: "string \<times> bytes \<Rightarrow> bytes" where
  "enc_entry = (\<lambda>(k, v). u32_bytes (word_of_nat (length k)) @ bytes_of k @ u32_bytes (word_of_nat (length v)) @ v)"

definition enc_log :: "(string \<times> bytes) list \<Rightarrow> bytes" where
  "enc_log es = concat (map enc_entry es)"

definition entry_ok :: "string \<times> bytes \<Rightarrow> bool" where
  "entry_ok = (\<lambda>(k, v). length k < 2 ^ 32 \<and> length v < 2 ^ 32)"

lemma enc_log_simps [simp]: "enc_log [] = []" "enc_log (e # es) = enc_entry e @ enc_log es"
  "enc_log (es @ es') = enc_log es @ enc_log es'"
  by (simp_all add: enc_log_def)

lemma unat_word_of_nat32 [simp]: "n < 2 ^ 32 \<Longrightarrow> unat (word_of_nat n :: 32 word) = n"
  by (simp add: unat_of_nat)

lemma f_read_bytes_at:
  "fh_data h = pre @ bs @ post \<Longrightarrow> fh_cur h = length pre \<Longrightarrow> n = length bs \<Longrightarrow>
     f_read_bytes n h = (Inr bs, h\<lparr>fh_cur := length (pre @ bs)\<rparr>)"
  by (simp add: f_read_bytes_def)

lemma f_read_vec_at:
  assumes "fh_data h = pre @ u32_bytes (word_of_nat (length v)) @ v @ post" and "fh_cur h = length pre"
    and "length v < 2 ^ 32"
  shows "f_read_vec h = (Inr v, h\<lparr>fh_cur := length pre + 4 + length v\<rparr>)"
proof -
  let ?l = "u32_bytes (word_of_nat (length v))"
  have "f_read_bytes 4 h = (Inr ?l, h\<lparr>fh_cur := length (pre @ ?l)\<rparr>)"
    using assms(1,2) by (intro f_read_bytes_at) simp_all
  moreover have "f_read_bytes (length v) (h\<lparr>fh_cur := length (pre @ ?l)\<rparr>) =
      (Inr v, h\<lparr>fh_cur := length (pre @ ?l), fh_cur := length ((pre @ ?l) @ v)\<rparr>)"
    using assms(1) by (intro f_read_bytes_at [where post = post]) simp_all
  ultimately show ?thesis using assms(3) by (simp add: f_read_vec_def bindM_def add.assoc)
qed

lemma f_read_string_vec: "f_read_string = bindM f_read_vec (\<lambda>buf. returnM (string_of buf))"
  by (auto simp: f_read_string_def f_read_vec_def bindM_def fun_eq_iff split: prod.split sum.split)

lemma f_read_string_at:
  assumes "fh_data h = pre @ u32_bytes (word_of_nat (length k)) @ bytes_of k @ post" and "fh_cur h = length pre"
    and "length k < 2 ^ 32"
  shows "f_read_string h = (Inr k, h\<lparr>fh_cur := length pre + 4 + length k\<rparr>)"
  using f_read_vec_at [of h pre "bytes_of k" post] assms by (simp add: f_read_string_vec bindM_def)

lemma refresh_loop_log:
  assumes "fh_data h = pre @ enc_log es" and "fh_cur h = length pre" and "list_all entry_ok es"
  shows "refresh_loop (length (fh_data h)) cache h =
     (Inr (fold (\<lambda>(k, v). AList.update k v) es cache), h\<lparr>fh_cur := length (fh_data h)\<rparr>)"
  using assms
proof (induction es arbitrary: pre cache h)
  case Nil
  then show ?case by (simp add: refresh_loop.simps)
next
  case (Cons e es)
  obtain k v where e: "e = (k, v)" by force
  have len: "length k < 2 ^ 32" "length v < 2 ^ 32" using Cons.prems(3) e by (simp_all add: entry_ok_def)
  let ?h1 = "h\<lparr>fh_cur := length pre + 4 + length k\<rparr>"
  let ?h2 = "h\<lparr>fh_cur := length (pre @ enc_entry e)\<rparr>"
  have r1: "f_read_string h = (Inr k, ?h1)"
    using Cons.prems(1,2) e len(1) by (intro f_read_string_at) (simp_all add: enc_entry_def)
  have r2: "f_read_vec ?h1 = (Inr v, ?h2)"
    using Cons.prems(1) e len(2)
    by (subst f_read_vec_at [where pre = "pre @ u32_bytes (word_of_nat (length k)) @ bytes_of k" and post = "enc_log es"])
       (simp_all add: enc_entry_def add.assoc)
  have "fh_cur h < length (fh_data h)" using Cons.prems(1,2) e by (simp add: enc_entry_def)
  with r1 r2 have "refresh_loop (length (fh_data h)) cache h = refresh_loop (length (fh_data h)) (AList.update k v cache) ?h2"
    by (simp add: refresh_loop.simps [of "length (fh_data h)" cache h])
  also have "\<dots> = (Inr (fold (\<lambda>(k, v). AList.update k v) es (AList.update k v cache)), ?h2\<lparr>fh_cur := length (fh_data h)\<rparr>)"
    using Cons.IH [of ?h2 "pre @ enc_entry e" "AList.update k v cache"] Cons.prems by simp
  finally show ?case using e by simp
qed

section \<open>Caches follow the log\<close>

lemma fold_update_map: "map_of (fold (\<lambda>(k, v). AList.update k v) es c) = map_of c ++ map_of (rev es)"
proof (induction es arbitrary: c)
  case (Cons e es)
  then show ?case by (cases e) (simp add: map_add_def fun_eq_iff split: option.split)
qed simp

lemma fold_update_wf: "umap_wf c \<Longrightarrow> umap_wf (fold (\<lambda>(k, v). AList.update k v) es c)"
  by (induction es arbitrary: c) auto

lemma enc_entry_pos: "0 < length (enc_entry e)"
  by (cases e) (simp add: enc_entry_def)

lemma enc_log_eq_Nil: "length (enc_log es) = 0 \<longleftrightarrow> es = []"
  using enc_entry_pos by (cases es) simp_all

lemma refresh_log:
  assumes "list_all entry_ok es2"
  shows "refresh (length (enc_log es1)) cache \<lparr>fh_data = enc_log (es1 @ es2), fh_cur = c\<rparr> =
     (Inr (length (enc_log (es1 @ es2)), fold (\<lambda>(k, v). AList.update k v) es2 cache),
      \<lparr>fh_data = enc_log (es1 @ es2), fh_cur = 0\<rparr>)"
proof (cases "es2 = []")
  case True
  then show ?thesis by (simp add: refresh_def f_size_def f_tell_def f_seek_end_def f_seek_set_def)
next
  case False
  then have "0 < length (enc_log es2)" by (metis enc_log_eq_Nil gr0I)
  then show ?thesis
    using refresh_loop_log [of "\<lparr>fh_data = enc_log (es1 @ es2), fh_cur = length (enc_log es1)\<rparr>" "enc_log es1" es2 cache] assms
    by (simp add: refresh_def f_size_def f_tell_def f_seek_end_def f_seek_set_def)
qed

text \<open>The content of the store: what a process that has read nothing reads.\<close>

definition log_view :: "fsys \<Rightarrow> content" where
  "log_view s =
     (case fs_file s of
        None \<Rightarrow> Map.empty
      | Some data \<Rightarrow>
          (case refresh 0 [] \<lparr>fh_data = data, fh_cur = 0\<rparr> of
             (Inr (pos, cache), h) \<Rightarrow> map_of cache
           | (Inl e, h) \<Rightarrow> Map.empty))"

definition fs_view :: "fsys \<Rightarrow> content" where
  "fs_view s = (\<lambda>key. log_view s (fsPrefix @ key))"

definition proc_ok :: "(string \<times> bytes) list \<Rightarrow> fproc \<Rightarrow> bool" where
  "proc_ok es me \<longleftrightarrow> (\<exists>es1 es2. es = es1 @ es2 \<and> fp_pos me = length (enc_log es1) \<and>
     umap_wf (fp_cache me) \<and> map_of (fp_cache me) ++ map_of (rev es2) = map_of (rev es))"

lemma proc_okI:
  "es = es1 @ es2 \<Longrightarrow> fp_pos me = length (enc_log es1) \<Longrightarrow> umap_wf (fp_cache me) \<Longrightarrow>
     map_of (fp_cache me) ++ map_of (rev es2) = map_of (rev es) \<Longrightarrow> proc_ok es me"
  by (auto simp: proc_ok_def)

definition fs_log :: "fsys \<Rightarrow> (string \<times> bytes) list \<Rightarrow> bool" where
  "fs_log s es \<longleftrightarrow> fs_file s = Some (enc_log es) \<and> list_all entry_ok es \<and> (\<forall>p. proc_ok es (fs_proc s p))"

definition fs_inv :: "fsys \<Rightarrow> bool" where
  "fs_inv s \<longleftrightarrow> (\<exists>es. fs_log s es)"

lemma log_view_log: "fs_log s es \<Longrightarrow> log_view s = map_of (rev es)"
  using refresh_log [of es "[]" "[]" 0]
  by (simp add: log_view_def fs_log_def fold_update_map)

lemma fs_refresh_effect:
  assumes "fs_log s es"
  shows "\<exists>s'. fs_refresh creat p s = (Inr (), s') \<and> fs_log s' es \<and> fp_pos (fs_proc s' p) = length (enc_log es) \<and>
     map_of (fp_cache (fs_proc s' p)) = map_of (rev es) \<and>
     (\<forall>q. fp_numWorkers (fs_proc s' q) = fp_numWorkers (fs_proc s q))"
proof -
  let ?me = "fs_proc s p"
  have "proc_ok es ?me" using assms by (simp add: fs_log_def)
  then obtain es1 es2 where
    es: "es = es1 @ es2" "fp_pos ?me = length (enc_log es1)" "umap_wf (fp_cache ?me)"
      "map_of (fp_cache ?me) ++ map_of (rev es2) = map_of (rev es)" by (auto simp: proc_ok_def)
  let ?c = "fold (\<lambda>(k, v). AList.update k v) es2 (fp_cache ?me)"
  let ?s' = "upd_proc p (\<lambda>me. me\<lparr>fp_pos := length (enc_log es), fp_cache := ?c\<rparr>) s"
  have f: "fs_file s = Some (enc_log es)" "list_all entry_ok es" using assms by (auto simp: fs_log_def)
  then have "list_all entry_ok es2" using es(1) by simp
  from refresh_log [OF this, of es1 "fp_cache ?me" 0] es(1,2) f(1)
  have "with_file creat p (refresh (fp_pos ?me) (fp_cache ?me)) s = (Inr (length (enc_log es), ?c), s\<lparr>fs_file := Some (enc_log es)\<rparr>)"
    by (simp add: with_file_def)
  moreover have "s\<lparr>fs_file := Some (enc_log es)\<rparr> = s" using f(1) by (cases s) simp
  ultimately have r: "fs_refresh creat p s = (Inr (), ?s')" by (simp add: fs_refresh_def bindM_def)
  have c: "map_of ?c = map_of (rev es)" "umap_wf ?c"
    using es(3,4) by (simp_all add: fold_update_map fold_update_wf)
  have "proc_ok es (fs_proc ?s' p)" 
    by (rule proc_okI [of _ es "[]"]) (use c in \<open>simp_all add: upd_proc_def\<close>)
  then have "fs_log ?s' es" using assms by (simp add: fs_log_def upd_proc_def)
  then show ?thesis using r c(1) by (intro exI [of _ ?s']) (simp add: upd_proc_def)
qed

lemma f_write_at_end: "f_write_bytes bs \<lparr>fh_data = d, fh_cur = length d\<rparr> = \<lparr>fh_data = d @ bs, fh_cur = length (d @ bs)\<rparr>"
  by (simp add: f_write_bytes_def)

lemma fs_append_effect:
  assumes "fs_file s = Some (enc_log es)" and "entry_ok (k, v)"
  shows "fs_append p k v s = (Inr (), s\<lparr>fs_file := Some (enc_log (es @ [(k, v)]))\<rparr>)"
proof -
  have len: "length k < 2 ^ 32" "length v < 2 ^ 32" using assms(2) by (simp_all add: entry_ok_def)
  have "f_seek_end \<lparr>fh_data = d, fh_cur = c\<rparr> = \<lparr>fh_data = d, fh_cur = length d\<rparr>" for d c
    by (simp add: f_seek_end_def)
  then show ?thesis using assms(1) len
    by (simp add: fs_append_def with_file_def f_write_vec_def f_write_string_def f_write_at_end enc_entry_def
        del: length_append)
qed

lemma proc_ok_append: "proc_ok es me \<Longrightarrow> proc_ok (es @ [(k, v)]) me"
proof -
  assume "proc_ok es me"
  then obtain es1 es2 where
    es: "es = es1 @ es2" "fp_pos me = length (enc_log es1)" "umap_wf (fp_cache me)"
      "map_of (fp_cache me) ++ map_of (rev es2) = map_of (rev es)" by (auto simp: proc_ok_def)
  show ?thesis
    by (rule proc_okI [of _ es1 "es2 @ [(k, v)]"]) (use es in \<open>simp_all add: map_add_upd\<close>)
qed

lemma fs_log_append:
  "fs_log s es \<Longrightarrow> entry_ok (k, v) \<Longrightarrow> fs_log (s\<lparr>fs_file := Some (enc_log (es @ [(k, v)]))\<rparr>) (es @ [(k, v)])"
  by (auto simp: fs_log_def intro: proc_ok_append)

lemma fs_addHelper_effect:
  assumes "fs_log s es" and "length k < 2 ^ 32" and "in_int64 i" and "in_int64 n"
    and "map_of (rev es) k = None \<and> n = 0 \<or> map_of (rev es) k = Some (num_bytes n)"
  shows "\<exists>s'. fs_addHelper p k i s = (Inr (add64 n i), s') \<and> fs_log s' (es @ [(k, num_bytes (add64 n i))]) \<and>
     (\<forall>q. fp_numWorkers (fs_proc s' q) = fp_numWorkers (fs_proc s q))"
proof -
  let ?r = "num_bytes (add64 n i)"
  from fs_refresh_effect [OF assms(1), of True p] obtain s1 where
    s1: "fs_refresh True p s = (Inr (), s1)" "fs_log s1 es" "fp_pos (fs_proc s1 p) = length (enc_log es)"
      "map_of (fp_cache (fs_proc s1 p)) = map_of (rev es)"
      "\<And>q. fp_numWorkers (fs_proc s1 q) = fp_numWorkers (fs_proc s q)" by blast
  let ?f = "\<lambda>me. if umap_has (fp_cache me) k then me else me\<lparr>fp_cache := AList.update k [] (fp_cache me)\<rparr>"
  let ?s2 = "upd_proc p ?f s1"
  let ?s3 = "?s2\<lparr>fs_file := Some (enc_log (es @ [(k, ?r)]))\<rparr>"
  have file2: "fs_file ?s2 = Some (enc_log es)" using s1(2) by (simp add: fs_log_def upd_proc_def)
  have ok: "entry_ok (k, ?r)"
    using assms(2) length_num_bytes [of "add64 n i"] by (simp add: entry_ok_def)
  have val: "(if umap_at [] (fp_cache (fs_proc s1 p)) k = [] then (returnM i :: (fsys, int) cmd)
      else bindM (liftM (stoll (string_of (umap_at [] (fp_cache (fs_proc s1 p)) k)))) (\<lambda>n. returnM (add64 i n))) ?s2 =
      (Inr (add64 n i), ?s2)"
    using assms(3-5)
    by (auto simp: umap_at_def s1(4) bindM_def add64_def wrap64_id add.commute)
  have app: "fs_append p k ?r ?s2 = (Inr (), ?s3)" by (rule fs_append_effect [OF file2 ok])
  have res: "fs_addHelper p k i s = (Inr (add64 n i), ?s3)"
    unfolding fs_addHelper_def bindM_Inr [where m = "fs_refresh True p", OF s1(1)]
    using val app by (simp add: bindM_def num_bytes_def)
  have wf: "umap_wf (fp_cache (fs_proc s1 p))" using s1(2) by (auto simp: fs_log_def proc_ok_def)
  have p2: "proc_ok (es @ [(k, ?r)]) (fs_proc ?s3 p)"
    by (rule proc_okI [of _ es "[(k, ?r)]"]) (use s1(3,4) wf in \<open>auto simp: upd_proc_def\<close>)
  have "fs_log ?s3 (es @ [(k, ?r)])" unfolding fs_log_def
  proof (intro conjI allI)
    show "list_all entry_ok (es @ [(k, ?r)])" using s1(2) ok by (simp add: fs_log_def)
  next
    fix q
    show "proc_ok (es @ [(k, ?r)]) (fs_proc ?s3 q)"
    proof (cases "q = p")
      case True
      then show ?thesis using p2 by simp
    next
      case False
      then have "fs_proc ?s3 q = fs_proc s1 q" by (simp add: upd_proc_def)
      then show ?thesis using s1(2) by (simp add: fs_log_def proc_ok_append)
    qed
  qed simp
  moreover have "fp_numWorkers (fs_proc ?s3 q) = fp_numWorkers (fs_proc s q)" for q
    using s1(5) [of q] by (auto simp: upd_proc_def)
  ultimately show ?thesis using res by blast
qed

lemma fs_get_effect:
  assumes "fs_log s es" and "map_of (rev es) k = Some v"
  shows "\<exists>s'. fs_get_loop p k (turn # turns) s = (Inr v, s') \<and> fs_log s' es"
proof -
  obtain elapsed others where turn: "turn = (elapsed, others)" by force
  let ?me = "fs_proc s p"
  have f: "fs_file s = Some (enc_log es)" using assms(1) by (simp add: fs_log_def)
  then have "s\<lparr>fs_file := Some (enc_log es)\<rparr> = s" by (cases s) simp
  then have fsize: "with_file False p (getM f_size) s = (Inr (length (enc_log es)), s)"
    using f by (simp add: with_file_def f_size_def f_tell_def f_seek_end_def)
  have go: "\<not> (\<not> umap_has (fp_cache ?me) k \<and> length (enc_log es) = fp_pos ?me)"
  proof
    assume stuck: "\<not> umap_has (fp_cache ?me) k \<and> length (enc_log es) = fp_pos ?me"
    have "proc_ok es ?me" using assms(1) by (simp add: fs_log_def)
    then obtain es1 es2 where
      es: "es = es1 @ es2" "fp_pos ?me = length (enc_log es1)"
        "map_of (fp_cache ?me) ++ map_of (rev es2) = map_of (rev es)" by (auto simp: proc_ok_def)
    with stuck have "es2 = []" using enc_log_eq_Nil [of es2] by simp
    with es(3) stuck assms(2) show False by (auto simp: umap_has_def)
  qed
  from fs_refresh_effect [OF assms(1), of False p] obtain s1 where
    s1: "fs_refresh False p s = (Inr (), s1)" "fs_log s1 es" "map_of (fp_cache (fs_proc s1 p)) = map_of (rev es)"
    by blast
  then show ?thesis using turn fsize go assms(2) by (auto simp: bindM_def)
qed

lemma fs_check_loop_all: "fs_check_loop c ks = list_all (\<lambda>k. map_of c (fsPrefix @ k) \<noteq> None) ks"
  by (induction ks) auto

definition fs_key_ok :: "string \<Rightarrow> bool" where
  "fs_key_ok k \<longleftrightarrow> length k < 2 ^ 32 - 1"

interpretation fs: store fs_inv fs_view fs_key_ok "\<lambda>v. length v < 2 ^ 32"
  "fs_set p" "fs_get p (turn # turns)" "fs_add p" "fs_check p" for p turn turns
proof (unfold_locales, goal_cases)
  case (1 n)
  then show ?case using length_num_bytes [of n] by simp
next
  case (2 s k v)
  then obtain es where es: "fs_log s es" by (auto simp: fs_inv_def)
  have ok: "entry_ok (fsPrefix @ k, v)" using 2 by (simp add: entry_ok_def fs_key_ok_def fsPrefix_def)
  let ?s' = "s\<lparr>fs_file := Some (enc_log (es @ [(fsPrefix @ k, v)]))\<rparr>"
  have "fs_set p k v s = (Inr (), ?s')"
    unfolding fs_set_def using es ok by (intro fs_append_effect) (simp_all add: fs_log_def)
  moreover have l: "fs_log ?s' (es @ [(fsPrefix @ k, v)])" using es ok by (rule fs_log_append)
  moreover have "fs_view ?s' = (fs_view s)(k \<mapsto> v)"
    using log_view_log [OF l] log_view_log [OF es] by (auto simp: fs_view_def)
  ultimately show ?case by (auto simp: fs_inv_def)
next
  case (3 s k v)
  then obtain es where es: "fs_log s es" by (auto simp: fs_inv_def)
  then have "map_of (rev es) (fsPrefix @ k) = Some v" using 3(3) by (simp add: fs_view_def log_view_log)
  from fs_get_effect [OF es this, of p turn turns] obtain s' where
    s': "fs_get_loop p (fsPrefix @ k) (turn # turns) s = (Inr v, s')" "fs_log s' es" by blast
  then show ?case using log_view_log [OF es] log_view_log [OF s'(2)]
    by (auto simp: fs_get_def fs_inv_def fs_view_def simp del: fs_get_loop.simps)
next
  case (4 s k n i)
  then obtain es where es: "fs_log s es" by (auto simp: fs_inv_def)
  have c: "in_int64 n" "map_of (rev es) (fsPrefix @ k) = None \<and> n = 0 \<or> map_of (rev es) (fsPrefix @ k) = Some (num_bytes n)"
    using 4(3) log_view_log [OF es] by (auto simp: counter_at_def fs_view_def split: option.splits)
  have "length (fsPrefix @ k) < 2 ^ 32" using 4(2) by (simp add: fs_key_ok_def fsPrefix_def)
  from fs_addHelper_effect [OF es this 4(4) c, of p] obtain s' where
    s': "fs_addHelper p (fsPrefix @ k) i s = (Inr (add64 n i), s')"
      "fs_log s' (es @ [(fsPrefix @ k, num_bytes (add64 n i))])" by blast
  then show ?case using log_view_log [OF es] log_view_log [OF s'(2)]
    by (auto simp: fs_add_def fs_inv_def fs_view_def intro!: exI [of _ s'])
next
  case (5 s ks)
  then obtain es where es: "fs_log s es" by (auto simp: fs_inv_def)
  from fs_refresh_effect [OF es, of False p] obtain s1 where
    s1: "fs_refresh False p s = (Inr (), s1)" "fs_log s1 es" "map_of (fp_cache (fs_proc s1 p)) = map_of (rev es)"
    by blast
  then show ?case using log_view_log [OF es] log_view_log [OF s1(2)]
    by (auto simp: fs_check_def bindM_def fs_check_loop_all fs_view_def fs_inv_def list_all_iff intro!: exI [of _ s1])
qed

section \<open>Processes working together\<close>

fun fs_run_sets :: "(nat \<times> string \<times> bytes) list \<Rightarrow> fsys \<Rightarrow> fsys" where
  "fs_run_sets [] s = s"
| "fs_run_sets ((p, k, v) # ws) s = fs_run_sets ws (snd (fs_set p k v s))"

fun fs_run_adds :: "nat list \<Rightarrow> string \<Rightarrow> fsys \<Rightarrow> int res list" where
  "fs_run_adds [] k s = []"
| "fs_run_adds (p # ps) k s = (case fs_add p k 1 s of (r, s') \<Rightarrow> r # fs_run_adds ps k s')"

fun fs_run_destroys :: "nat list \<Rightarrow> fsys \<Rightarrow> fsys" where
  "fs_run_destroys [] s = s"
| "fs_run_destroys (p # ps) s = fs_run_destroys ps (snd (fs_destroy p s))"

definition fs_start :: "int \<Rightarrow> fsys" where
  "fs_start workers =
     \<lparr>fs_file = Some [],
      fs_proc = (\<lambda>_. \<lparr>fp_pos = 0, fp_cache = [], fp_numWorkers = workers, fp_timeout = kDefaultTimeout\<rparr>)\<rparr>"

lemma fs_start_log: "fs_log (fs_start n) []"
  by (auto simp: fs_log_def fs_start_def proc_ok_def)

lemma fs_start_view: "fs_view (fs_start n) = Map.empty"
  by (simp add: fs_view_def log_view_log [OF fs_start_log])

lemma fs_run_sets_view:
  assumes "fs_inv s" and "list_all (\<lambda>(p, k, v). fs_key_ok k \<and> length v < 2 ^ 32) ws"
  shows "fs_inv (fs_run_sets ws s) \<and> fs_view (fs_run_sets ws s) = fs_view s ++ map_of (rev (map snd ws))"
  using assms
proof (induction ws arbitrary: s)
  case (Cons w ws)
  obtain p k v where w: "w = (p, k, v)" by (cases w)
  from Cons.prems w fs.set_law [of s k v p] obtain s' where
    s': "fs_set p k v s = (Inr (), s')" "fs_inv s'" "fs_view s' = (fs_view s)(k \<mapsto> v)" by auto
  from Cons.IH [OF s'(2)] Cons.prems(2)
  have "fs_inv (fs_run_sets ws s') \<and> fs_view (fs_run_sets ws s') = fs_view s' ++ map_of (rev (map snd ws))"
    by simp
  then have "fs_inv (fs_run_sets ws s') \<and> fs_view (fs_run_sets ws s') = (fs_view s)(k \<mapsto> v) ++ map_of (rev (map snd ws))"
    by (simp only: s'(3))
  then show ?case using w s'(1) by (simp add: map_add_def fun_eq_iff split: option.splits)
qed simp

lemma fs_run_adds_counter:
  assumes "fs_inv s" and "fs_key_ok k" and "counter_at (fs_view s) k n" and "n + int (length ps) \<le> int64_max"
  shows "fs_run_adds ps k s = map (\<lambda>j. Inr (n + 1 + int j)) [0..<length ps]"
  using assms
proof (induction ps arbitrary: s n)
  case (Cons p ps)
  have n1: "add64 n 1 = n + 1"
    using Cons.prems(3,4) by (simp add: add64_def counter_at_def wrap64_id in_int64_def int64_min_def)
  have "in_int64 1" by (simp add: in_int64_def int64_min_def int64_max_def)
  from fs.add_law [OF Cons.prems(1-3) this, of p] n1 obtain s' where
    s': "fs_add p k 1 s = (Inr (n + 1), s')" "fs_inv s'" "fs_view s' = (fs_view s)(k \<mapsto> num_bytes (n + 1))" by auto
  have "counter_at (fs_view s') k (n + 1)" using s'(3) n1 in_int64_add64 [of n 1] by (simp add: counter_at_def)
  from Cons.IH [OF s'(2) Cons.prems(2) this] Cons.prems(4)
  have "fs_run_adds ps k s' = map (\<lambda>j. Inr (n + 1 + 1 + int j)) [0..<length ps]" by simp
  with s'(1) show ?case by (simp add: upt_Suc_map comp_def algebra_simps del: upt_Suc)
qed simp

lemma fs_destroy_effect:
  assumes "fs_log s es" and "0 \<le> n" and "n < int64_max"
    and "map_of (rev es) cleanupKey = None \<and> n = 0 \<or> map_of (rev es) cleanupKey = Some (num_bytes n)"
    and "fp_numWorkers (fs_proc s p) = w"
  shows "\<exists>s'. fs_destroy p s = (Inr (), s') \<and>
     (if n + 1 = w then fs_file s' = None
      else fs_log s' (es @ [(cleanupKey, num_bytes (n + 1))]) \<and>
           (\<forall>q. fp_numWorkers (fs_proc s' q) = fp_numWorkers (fs_proc s q)))"
proof -
  have i64: "in_int64 1" "in_int64 n" using assms(2,3) by (simp_all add: in_int64_def int64_min_def int64_max_def)
  have n1: "add64 n 1 = n + 1" using assms(2,3) by (simp add: add64_def wrap64_id in_int64_def int64_min_def)
  have "length cleanupKey < 2 ^ 32" by (simp add: cleanupKey_def)
  from fs_addHelper_effect [OF assms(1) this i64 assms(4), of p] n1 obtain s1 where
    s1: "fs_addHelper p cleanupKey 1 s = (Inr (n + 1), s1)" "fs_log s1 (es @ [(cleanupKey, num_bytes (n + 1))])"
      "\<And>q. fp_numWorkers (fs_proc s1 q) = fp_numWorkers (fs_proc s q)" by auto
  then show ?thesis using assms(5) by (auto simp: fs_destroy_def bindM_def)
qed

lemma fs_run_destroys_effect:
  assumes "fs_log s es" and "0 \<le> n" and "w < int64_max" and "n + int (length ps) \<le> w"
    and "map_of (rev es) cleanupKey = None \<and> n = 0 \<or> map_of (rev es) cleanupKey = Some (num_bytes n)"
    and "\<And>q. fp_numWorkers (fs_proc s q) = w" and "ps \<noteq> []"
  shows "(fs_file (fs_run_destroys ps s) = None) = (n + int (length ps) = w)"
  using assms
proof (induction ps arbitrary: s es n)
  case (Cons p ps)
  have n: "n < int64_max" using Cons.prems(3,4) by simp
  from fs_destroy_effect [OF Cons.prems(1,2) n Cons.prems(5), of p w] Cons.prems(6) obtain s' where
    s': "fs_destroy p s = (Inr (), s')"
      "if n + 1 = w then fs_file s' = None
       else fs_log s' (es @ [(cleanupKey, num_bytes (n + 1))]) \<and> (\<forall>q. fp_numWorkers (fs_proc s' q) = w)" by auto
  show ?case
  proof (cases "ps = []")
    case True
    with s' show ?thesis by (auto simp: fs_log_def split: if_splits)
  next
    case False
    with Cons.prems(4) have ne: "n + 1 \<noteq> w" by (cases ps) auto
    with s'(2) have l: "fs_log s' (es @ [(cleanupKey, num_bytes (n + 1))])"
      and w: "\<And>q. fp_numWorkers (fs_proc s' q) = w" by auto
    have "(fs_file (fs_run_destroys ps s') = None) = (n + 1 + int (length ps) = w)"
      using Cons.prems(2-4) w False by (intro Cons.IH [OF l]) simp_all
    then show ?thesis using s'(1) by (simp add: algebra_simps)
  qed
qed simp

section \<open>Properties\<close>

text \<open>
  All processes see one store: after any sequence of sets by any processes, in any order,
  every process gets the last value set for a key, whatever it has read or cached before.
\<close>

theorem fs_shared_last_write_wins:
  assumes "fs_inv s" and "list_all (\<lambda>(p, k, v). fs_key_ok k \<and> length v < 2 ^ 32) ws" and "fs_key_ok k"
    and "map_of (rev (map snd ws)) k = Some v"
  shows "fst (fs_get q (turn # turns) k (fs_run_sets ws s)) = Inr v"
proof -
  from fs_run_sets_view [OF assms(1,2)] have t: "fs_inv (fs_run_sets ws s)"
    "fs_view (fs_run_sets ws s) = fs_view s ++ map_of (rev (map snd ws))" by auto
  have "fs_view (fs_run_sets ws s) k = Some v" using assms(4) by (simp add: t(2) map_add_def)
  from fs.get_law [OF t(1) assms(3) this, of q turn turns] show ?thesis by auto
qed

theorem fs_shared_last_write_wins_witness:
  "fst (fs_get 2 [(0, id)] ''k'' (fs_run_sets [(0, ''k'', [1]), (1, ''k'', [2]), (0, ''j'', [3])] (fs_start 3))) = Inr [2]"
proof -
  have "fs_inv (fs_start 3)" using fs_start_log by (auto simp: fs_inv_def)
  then show ?thesis by (rule fs_shared_last_write_wins) (simp_all add: fs_key_ok_def)
qed

text \<open>
  C35. Ranks over a file: processes that call \<^verbatim>\<open>add(key, 1)\<close> one after the other, each as
  often as it likes and in any order, get consecutive numbers.
\<close>

theorem fs_shared_ranks:
  assumes "fs_inv s" and "fs_key_ok k" and "counter_at (fs_view s) k n" and "n + int (length ps) \<le> int64_max"
  shows "fs_run_adds ps k s = map (\<lambda>j. Inr (n + 1 + int j)) [0..<length ps]"
  using fs_run_adds_counter [OF assms] .

theorem fs_shared_ranks_witness:
  "fs_run_adds [4, 7, 4] ''rank'' (fs_start 2) = [Inr 1, Inr 2, Inr 3]"
proof -
  have "fs_inv (fs_start 2)" using fs_start_log by (auto simp: fs_inv_def)
  moreover have "counter_at (fs_view (fs_start 2)) ''rank'' 0"
    by (simp add: counter_at_def fs_start_view in_int64_def int64_min_def int64_max_def)
  ultimately show ?thesis using fs_shared_ranks [of "fs_start 2" "''rank''" 0 "[4, 7, 4]"]
    by (simp add: fs_key_ok_def int64_max_def upt_rec)
qed

text \<open>
  The last worker cleans up: the file is removed by the destructor of the last of the
  announced number of workers and by none before it.
\<close>

theorem fs_last_worker_removes_file:
  assumes "w < int64_max" and "ps \<noteq> []" and "int (length ps) \<le> w"
  shows "(fs_file (fs_run_destroys ps (fs_start w)) = None) = (int (length ps) = w)"
  using fs_run_destroys_effect [OF fs_start_log, of 0 w ps] assms by (simp add: fs_start_def)

theorem fs_last_worker_removes_file_witness:
  "fs_file (fs_run_destroys [0, 1] (fs_start 2)) = None \<and> fs_file (fs_run_destroys [0] (fs_start 2)) \<noteq> None"
  using fs_last_worker_removes_file [of 2 "[0, 1]"] fs_last_worker_removes_file [of 2 "[0]"]
  by (simp add: int64_max_def)

text \<open>
  Reading behind the end of the file never returns: whatever the calls of
  \<^verbatim>\<open>::read\<close> return, as long as none fails, the loop of \<^verbatim>\<open>File::read\<close> asks again
  when the file ends before the count does.
\<close>

theorem file_read_hangs_at_eof:
  assumes "length stream < n" and "\<forall>c \<in> set calls. c = EINTR \<or> (\<exists>m. c = Ret m)"
  shows "fst (file_read_loop calls n stream) = Inl Blocked"
  using assms
proof (induction calls n stream rule: file_read_loop.induct)
  case (6 m calls v stream)
  let ?got = "take (min m (Suc v)) stream"
  have "length (drop (length ?got) stream) < Suc v - length ?got" using "6.prems"(1) by auto
  with "6.IH" [OF refl] "6.prems"(2)
  have "fst (file_read_loop calls (Suc v - length ?got) (drop (length ?got) stream)) = Inl Blocked" by simp
  then show ?case by (auto simp: Let_def split: prod.splits sum.splits)
qed auto

theorem file_read_hangs_at_eof_witness:
  "fst (file_read_loop [Ret 2, Ret 0, EINTR, Ret 0] 4 [1, 2]) = Inl Blocked"
  by (rule file_read_hangs_at_eof) simp_all

end
