(* ===== verification/Bucketing.thy ===== *)
theory Bucketing
  imports C10d_Prelude
begin

text \<open>
  How the gradient reducer groups tensors into buckets:
  \<^verbatim>\<open>compute_bucket_assignment_by_size\<close> and \<^verbatim>\<open>Reducer::sync_bucket_indices\<close> of
  \<^verbatim>\<open>reducer.cpp\<close>. Of a tensor only what the code asks it for is kept. The order in which
  \<^verbatim>\<open>std::unordered_map\<close> is iterated is a parameter. The theory shows that the buckets are
  a partition of the tensors into non-empty groups of one type and device, with sparse gradients
  on their own and sizes below the limits but for the last tensor, in an order that does not
  depend on the iteration order, and that every process ends up with the buckets of rank 0.
\<close>

section \<open>Assignment by size\<close>

record tensor_info =
  ti_is_sparse :: bool
  ti_scalar_type :: nat
  ti_device :: nat
  ti_storage_sizes :: "64 word list"
  ti_element_size :: "64 word"

text \<open>The number of elements of the storage, in \<^verbatim>\<open>int64_t\<close> arithmetic.\<close>

fun physical_numel_from :: "64 word \<Rightarrow> 64 word list \<Rightarrow> 64 word" where
  "physical_numel_from n [] = n"
| "physical_numel_from n (s # sizes) = physical_numel_from (n * s) sizes"

definition physical_numel :: "tensor_info \<Rightarrow> 64 word" where
  "physical_numel t = physical_numel_from 1 (ti_storage_sizes t)"

type_synonym bucket_key = "nat \<times> nat"

definition BucketKey :: "tensor_info \<Rightarrow> bucket_key" where
  "BucketKey t = (ti_scalar_type t, ti_device t)"

record bucket_acc =
  ba_indices :: "nat list"
  ba_size :: "64 word"

definition BucketAccumulator :: bucket_acc where
  "BucketAccumulator = \<lparr>ba_indices = [], ba_size = 0\<rparr>"

text \<open>The iterators into the size limits are positions.\<close>

record assign_state =
  as_result :: "nat list list"
  as_limits :: "(bucket_key, nat) umap"
  as_buckets :: "(bucket_key, bucket_acc) umap"

text \<open>\<^verbatim>\<open>operator[]\<close> of a vector, undefined beyond its end.\<close>

definition vec_at :: "'a list \<Rightarrow> nat \<Rightarrow> 'a res" where
  "vec_at xs i = (if i < length xs then Inr (xs ! i) else Inl Undefined)"

definition tensor_index_at :: "int list \<Rightarrow> nat \<Rightarrow> nat res" where
  "tensor_index_at tensor_indices i =
     (if tensor_indices = [] then Inr i
      else bindE (vec_at tensor_indices i) (\<lambda>x. Inr (unat (word_of_int x :: 64 word))))"

definition assign_step ::
    "64 word list \<Rightarrow> bool list \<Rightarrow> int list \<Rightarrow> nat \<Rightarrow> tensor_info \<Rightarrow> assign_state \<Rightarrow> assign_state res" where
  "assign_step bucket_size_limits expect_sparse_gradient tensor_indices i tensor st =
     bindE (if ti_is_sparse tensor then Inl (C10_error ''No support for sparse tensors.'') else Inr ()) (\<lambda>_.
     bindE (tensor_index_at tensor_indices i) (\<lambda>tensor_index.
     bindE (if expect_sparse_gradient = [] then Inr False else vec_at expect_sparse_gradient tensor_index) (\<lambda>alone.
     if alone then Inr (st\<lparr>as_result := as_result st @ [[tensor_index]]\<rparr>)
     else
       let key = BucketKey tensor;
           old = umap_at BucketAccumulator (as_buckets st) key;
           bucket = old\<lparr>ba_indices := ba_indices old @ [tensor_index],
                        ba_size := ba_size old + physical_numel tensor * ti_element_size tensor\<rparr>;
           it = umap_at 0 (as_limits st) key
       in bindE (vec_at bucket_size_limits it) (\<lambda>bucket_size_limit.
            if bucket_size_limit \<le> ba_size bucket then
              Inr (st\<lparr>as_result := as_result st @ [ba_indices bucket],
                      as_buckets := AList.update key BucketAccumulator (as_buckets st),
                      as_limits := AList.update key
                        (if it + 1 \<noteq> length bucket_size_limits then it + 1 else it) (as_limits st)\<rparr>)
            else
              Inr (st\<lparr>as_buckets := AList.update key bucket (as_buckets st),
                      as_limits := AList.update key it (as_limits st)\<rparr>)))))"

fun assign_loop ::
    "64 word list \<Rightarrow> bool list \<Rightarrow> int list \<Rightarrow> nat \<Rightarrow> tensor_info list \<Rightarrow> assign_state \<Rightarrow> assign_state res" where
  "assign_loop limits sparse idxs i [] st = Inr st"
| "assign_loop limits sparse idxs i (t # ts) st =
     bindE (assign_step limits sparse idxs i t st) (assign_loop limits sparse idxs (Suc i) ts)"

definition remaining :: "(bucket_key \<times> bucket_acc) list \<Rightarrow> nat list list" where
  "remaining bs = map (\<lambda>(k, b). ba_indices b) (filter (\<lambda>(k, b). ba_indices b \<noteq> []) bs)"

definition min_element :: "nat list \<Rightarrow> nat" where
  "min_element xs = fold min (tl xs) (hd xs)"

definition compute_bucket_assignment_by_size ::
    "((bucket_key \<times> bucket_acc) list \<Rightarrow> (bucket_key \<times> bucket_acc) list) \<Rightarrow>
     tensor_info list \<Rightarrow> 64 word list \<Rightarrow> bool list \<Rightarrow> int list \<Rightarrow> nat list list res" where
  "compute_bucket_assignment_by_size iter tensors bucket_size_limits expect_sparse_gradient tensor_indices =
     (if \<not> (expect_sparse_gradient = [] \<or> length tensors = length expect_sparse_gradient)
      then Inl (C10_assert ''expect_sparse_gradient'')
      else if tensors = [] then Inl (C10_assert ''tensors.size() > 0'')
      else bindE (assign_loop bucket_size_limits expect_sparse_gradient tensor_indices 0 tensors
                    \<lparr>as_result = [], as_limits = [], as_buckets = []\<rparr>) (\<lambda>st.
        let result = as_result st @ remaining (iter (as_buckets st))
        in Inr (if tensor_indices = [] then sort_key min_element result else result)))"

section \<open>Synchronising the buckets\<close>

text \<open>Storing a \<^verbatim>\<open>size_t\<close> in a tensor of \<^verbatim>\<open>int\<close> and reading it back.\<close>

definition to_int32 :: "nat \<Rightarrow> int" where
  "to_int32 n = sint (word_of_nat n :: 32 word)"

definition from_int32 :: "int \<Rightarrow> nat" where
  "from_int32 i = unat (word_of_int i :: 64 word)"

definition pack_indices :: "nat list list \<Rightarrow> int list" where
  "pack_indices bucket_indices = map to_int32 (concat bucket_indices @ [length bucket_indices])"

fun take_buckets :: "int list \<Rightarrow> int list \<Rightarrow> nat list list res" where
  "take_buckets indices [] = Inr []"
| "take_buckets indices (n # sizes) =
     (if length indices < from_int32 n then Inl Undefined
      else bindE (take_buckets (drop (from_int32 n) indices) sizes) (\<lambda>bs.
        Inr (map from_int32 (take (from_int32 n) indices) # bs)))"

definition pack_sizes :: "nat list \<Rightarrow> nat \<Rightarrow> int list res" where
  "pack_sizes bucket_sizes num_buckets =
     (if num_buckets = 0 then Inr []
      else if bucket_sizes = [] then Inl (Out_of_range ''vector::_M_range_check'')
      else Inr (map (\<lambda>i. to_int32 (bucket_sizes ! min i (length bucket_sizes - 1))) [0..<num_buckets]))"

text \<open>
  \<open>bcast j buf\<close>: what the \<open>j\<close>-th broadcast of the process group leaves in the buffer.
\<close>

definition sync_bucket_indices :: "(nat \<Rightarrow> int list \<Rightarrow> int list) \<Rightarrow> nat list list \<Rightarrow> nat list list res" where
  "sync_bucket_indices bcast bucket_indices =
     (let bucket_sizes = map length bucket_indices;
          total_size = sum_list bucket_sizes;
          indices = bcast 0 (pack_indices bucket_indices)
      in bindE (vec_at indices total_size) (\<lambda>received.
         let num_buckets = from_int32 received
         in bindE (pack_sizes bucket_sizes num_buckets) (\<lambda>sizes. take_buckets indices (bcast 1 sizes))))"

section \<open>The loop\<close>

definition open_indices :: "assign_state \<Rightarrow> nat list" where
  "open_indices st = concat (map (\<lambda>(k, b). ba_indices b) (as_buckets st))"

text \<open>
  \<open>P key indices size\<close> holds of every accumulator and \<open>Q indices\<close> of every finished bucket.
\<close>

definition assign_inv ::
    "(bucket_key \<Rightarrow> nat \<Rightarrow> bucket_acc \<Rightarrow> bool) \<Rightarrow> (nat list \<Rightarrow> bool) \<Rightarrow> assign_state \<Rightarrow> bool" where
  "assign_inv P Q st \<longleftrightarrow> umap_wf (as_buckets st) \<and> (\<forall>b \<in> set (as_result st). Q b) \<and>
     (\<forall>k. P k (umap_at 0 (as_limits st) k) (umap_at BucketAccumulator (as_buckets st) k))"

lemma tensor_index_at_Nil [simp]: "tensor_index_at [] i = Inr i"
  by (simp add: tensor_index_at_def)

lemma mset_open_update:
  "umap_wf bs \<Longrightarrow> mset (concat (map (\<lambda>(k, b). ba_indices b) (AList.update key b bs))) +
       mset (ba_indices (umap_at BucketAccumulator bs key)) =
     mset (concat (map (\<lambda>(k, b). ba_indices b) bs)) + mset (ba_indices b)"
proof (induction bs)
  case Nil
  then show ?case by (simp add: umap_at_def BucketAccumulator_def)
next
  case (Cons kb bs)
  obtain k' b' where kb: "kb = (k', b')" by force
  from Cons.prems kb have wf: "umap_wf bs" and "map_of bs k' = None" by (auto simp: umap_wf_def map_of_eq_None_iff)
  then show ?case using Cons.IH [OF wf] kb by (cases "key = k'") (auto simp: umap_at_def)
qed

definition add_tensor :: "nat \<Rightarrow> tensor_info \<Rightarrow> bucket_acc \<Rightarrow> bucket_acc" where
  "add_tensor x t b = b\<lparr>ba_indices := ba_indices b @ [x], ba_size := ba_size b + physical_numel t * ti_element_size t\<rparr>"

definition next_limit :: "64 word list \<Rightarrow> nat \<Rightarrow> nat" where
  "next_limit limits it = (if it + 1 \<noteq> length limits then it + 1 else it)"

definition alone :: "bool list \<Rightarrow> nat \<Rightarrow> bool" where
  "alone sparse x \<longleftrightarrow> sparse \<noteq> [] \<and> sparse ! x"

text \<open>The three things a step that succeeds can do.\<close>

lemma assign_step_cases:
  assumes "assign_step limits sparse idxs i t st = Inr st'"
  obtains (alone) x where "tensor_index_at idxs i = Inr x" "alone sparse x"
      "st' = st\<lparr>as_result := as_result st @ [[x]]\<rparr>"
  | (close) x key old it where "tensor_index_at idxs i = Inr x" "\<not> alone sparse x" "key = BucketKey t"
      "old = umap_at BucketAccumulator (as_buckets st) key" "it = umap_at 0 (as_limits st) key" "it < length limits"
      "limits ! it \<le> ba_size (add_tensor x t old)"
      "st' = st\<lparr>as_result := as_result st @ [ba_indices (add_tensor x t old)],
         as_buckets := AList.update key BucketAccumulator (as_buckets st),
         as_limits := AList.update key (next_limit limits it) (as_limits st)\<rparr>"
  | (keep) x key old it where "tensor_index_at idxs i = Inr x" "\<not> alone sparse x" "key = BucketKey t"
      "old = umap_at BucketAccumulator (as_buckets st) key" "it = umap_at 0 (as_limits st) key" "it < length limits"
      "\<not> limits ! it \<le> ba_size (add_tensor x t old)"
      "st' = st\<lparr>as_buckets := AList.update key (add_tensor x t old) (as_buckets st),
         as_limits := AList.update key it (as_limits st)\<rparr>"
proof -
  from assms obtain x al where x: "tensor_index_at idxs i = Inr x"
    and al: "(if sparse = [] then Inr False else vec_at sparse x) = Inr al"
    by (auto simp: assign_step_def bindE_def split: if_splits sum.splits)
  have alone: "al = alone sparse x" using al by (auto simp: alone_def vec_at_def split: if_splits)
  show thesis
  proof (cases al)
    case True
    with assms x al alone show thesis by (intro that(1)) (auto simp: assign_step_def split: if_splits)
  next
    case False
    let ?key = "BucketKey t"
    let ?old = "umap_at BucketAccumulator (as_buckets st) ?key"
    let ?it = "umap_at 0 (as_limits st) ?key"
    have eq: "bindE (vec_at limits ?it) (\<lambda>lim.
        if lim \<le> ba_size (add_tensor x t ?old)
        then Inr (st\<lparr>as_result := as_result st @ [ba_indices (add_tensor x t ?old)],
           as_buckets := AList.update ?key BucketAccumulator (as_buckets st),
           as_limits := AList.update ?key (next_limit limits ?it) (as_limits st)\<rparr>)
        else Inr (st\<lparr>as_buckets := AList.update ?key (add_tensor x t ?old) (as_buckets st),
           as_limits := AList.update ?key ?it (as_limits st)\<rparr>)) = Inr st'"
      using assms x al False
      by (auto simp: assign_step_def Let_def add_tensor_def next_limit_def cong: if_cong split: if_splits)
    then have it: "?it < length limits" by (auto simp: vec_at_def bindE_def split: if_splits)
    show thesis
    proof (cases "limits ! ?it \<le> ba_size (add_tensor x t ?old)")
      case True
      with eq it x False alone show thesis by (intro that(2) [OF x _ refl refl refl it]) (auto simp: vec_at_def)
    next
      case no: False
      with eq it x False alone show thesis by (intro that(3) [OF x _ refl refl refl it]) (auto simp: vec_at_def)
    qed
  qed
qed

text \<open>
  An invariant of the accumulators and the finished buckets holds throughout when each way of
  adding a tensor keeps it.
\<close>

definition step_keeps where
  "step_keeps limits sparse P Q x t \<longleftrightarrow>
     (alone sparse x \<longrightarrow> Q [x]) \<and>
     (\<forall>it old. \<not> alone sparse x \<longrightarrow> it < length limits \<longrightarrow> P (BucketKey t) it old \<longrightarrow>
        (if limits ! it \<le> ba_size (add_tensor x t old)
         then Q (ba_indices (add_tensor x t old)) \<and> P (BucketKey t) (next_limit limits it) BucketAccumulator
         else P (BucketKey t) it (add_tensor x t old)))"

lemma assign_step_inv:
  assumes "assign_step limits sparse idxs i t st = Inr st'" and "assign_inv P Q st"
    and "\<And>x. tensor_index_at idxs i = Inr x \<Longrightarrow> step_keeps limits sparse P Q x t"
  shows "assign_inv P Q st'"
  using assms(1)
proof (cases rule: assign_step_cases)
  case (alone x)
  with assms(2,3) show ?thesis by (auto simp: assign_inv_def step_keeps_def)
next
  case (close x key old it)
  with assms(2,3) have "Q (ba_indices (add_tensor x t old)) \<and> P key (next_limit limits it) BucketAccumulator"
    unfolding assign_inv_def step_keeps_def by metis
  with close assms(2) show ?thesis by (auto simp: assign_inv_def)
next
  case (keep x key old it)
  with assms(2,3) have "P key it (add_tensor x t old)"
    unfolding assign_inv_def step_keeps_def by metis
  with keep assms(2) show ?thesis by (auto simp: assign_inv_def)
qed

lemma assign_loop_inv:
  assumes "assign_loop limits sparse idxs i ts st = Inr st'" and "assign_inv P Q st"
    and "\<And>j x. j < length ts \<Longrightarrow> tensor_index_at idxs (i + j) = Inr x \<Longrightarrow> step_keeps limits sparse P Q x (ts ! j)"
  shows "assign_inv P Q st'"
  using assms
proof (induction ts arbitrary: i st)
  case (Cons t ts)
  from Cons.prems(1) obtain st1 where
    s1: "assign_step limits sparse idxs i t st = Inr st1" "assign_loop limits sparse idxs (Suc i) ts st1 = Inr st'"
    by (auto simp: bindE_def split: sum.splits)
  have "assign_inv P Q st1"
    using Cons.prems(3) [of 0] by (intro assign_step_inv [OF s1(1) Cons.prems(2)]) simp
  then show ?case using Cons.prems(3) [of "Suc _"] by (intro Cons.IH [OF s1(2)]) simp_all
qed simp

text \<open>No index is lost or duplicated.\<close>

lemma assign_step_mset:
  assumes "assign_step limits sparse idxs i t st = Inr st'" and "umap_wf (as_buckets st)"
  shows "\<exists>x. tensor_index_at idxs i = Inr x \<and> umap_wf (as_buckets st') \<and>
     mset (concat (as_result st')) + mset (open_indices st') =
       mset (concat (as_result st)) + mset (open_indices st) + {#x#}"
  using assms(1)
proof (cases rule: assign_step_cases)
  case (alone x)
  with assms(2) show ?thesis by (intro exI [of _ x]) (simp add: open_indices_def)
next
  case (close x key old it)
  from mset_open_update [OF assms(2), of key BucketAccumulator] close
  have "mset (open_indices st') + mset (ba_indices old) = mset (open_indices st)"
    by (simp add: open_indices_def BucketAccumulator_def)
  with close assms(2) show ?thesis by (intro exI [of _ x]) (simp add: add_tensor_def ac_simps)
next
  case (keep x key old it)
  from mset_open_update [OF assms(2), of key "add_tensor x t old"] keep
  have "mset (open_indices st') + mset (ba_indices old) = mset (open_indices st) + mset (ba_indices old) + {#x#}"
    by (simp add: open_indices_def add_tensor_def)
  with keep assms(2) show ?thesis by (intro exI [of _ x]) (simp add: ac_simps)
qed

lemma assign_loop_mset:
  assumes "assign_loop limits sparse idxs i ts st = Inr st'" and "umap_wf (as_buckets st)"
  shows "\<exists>xs. length xs = length ts \<and> (\<forall>j < length ts. tensor_index_at idxs (i + j) = Inr (xs ! j)) \<and>
     umap_wf (as_buckets st') \<and>
     mset (concat (as_result st')) + mset (open_indices st') =
       mset (concat (as_result st)) + mset (open_indices st) + mset xs"
  using assms
proof (induction ts arbitrary: i st)
  case (Cons t ts)
  from Cons.prems(1) obtain st1 where
    s1: "assign_step limits sparse idxs i t st = Inr st1" "assign_loop limits sparse idxs (Suc i) ts st1 = Inr st'"
    by (auto simp: bindE_def split: sum.splits)
  from assign_step_mset [OF s1(1) Cons.prems(2)] obtain x where
    x: "tensor_index_at idxs i = Inr x" "umap_wf (as_buckets st1)"
      "mset (concat (as_result st1)) + mset (open_indices st1) =
         mset (concat (as_result st)) + mset (open_indices st) + {#x#}" by blast
  from Cons.IH [OF s1(2) x(2)] obtain xs where
    xs: "length xs = length ts" "\<And>j. j < length ts \<Longrightarrow> tensor_index_at idxs (Suc i + j) = Inr (xs ! j)"
      "umap_wf (as_buckets st')"
      "mset (concat (as_result st')) + mset (open_indices st') =
         mset (concat (as_result st1)) + mset (open_indices st1) + mset xs" by auto
  have "tensor_index_at idxs (i + j) = Inr ((x # xs) ! j)" if "j < length (t # ts)" for j
    using that x(1) xs(2) by (cases j) auto
  then show ?case using xs x(3) by (intro exI [of _ "x # xs"]) simp
qed simp

section \<open>The result\<close>

definition assign_start :: assign_state where
  "assign_start = \<lparr>as_result = [], as_limits = [], as_buckets = []\<rparr>"

lemma compute_result:
  assumes "compute_bucket_assignment_by_size iter ts limits sparse idxs = Inr r"
  obtains st where "assign_loop limits sparse idxs 0 ts assign_start = Inr st"
    "r = (if idxs = [] then sort_key min_element (as_result st @ remaining (iter (as_buckets st)))
          else as_result st @ remaining (iter (as_buckets st)))"
  using assms
  by (auto simp: compute_bucket_assignment_by_size_def assign_start_def bindE_def Let_def split: if_splits sum.splits)

lemma mset_remaining:
  "mset bs = mset bs' \<Longrightarrow> mset (remaining bs) = mset (remaining bs')"
  by (simp add: remaining_def)

lemma concat_remaining: "concat (remaining bs) = concat (map (\<lambda>(k, b). ba_indices b) bs)"
  by (induction bs) (auto simp: remaining_def)

lemma mset_concat_cong: "mset xss = mset yss \<Longrightarrow> mset (concat xss) = mset (concat yss)"
  by (metis mset_concat mset_map sum_mset_sum_list)

lemma compute_mset:
  assumes "compute_bucket_assignment_by_size iter ts limits sparse idxs = Inr r"
    and "\<And>bs. mset (iter bs) = mset bs"
  obtains st where "assign_loop limits sparse idxs 0 ts assign_start = Inr st"
    "mset r = mset (as_result st @ remaining (as_buckets st))"
proof -
  from compute_result [OF assms(1)] obtain st where
    st: "assign_loop limits sparse idxs 0 ts assign_start = Inr st"
      "r = (if idxs = [] then sort_key min_element (as_result st @ remaining (iter (as_buckets st)))
            else as_result st @ remaining (iter (as_buckets st)))" by blast
  moreover have "mset r = mset (as_result st @ remaining (as_buckets st))"
    using st(2) mset_remaining [OF assms(2) [of "as_buckets st"]] by simp
  ultimately show thesis using that by blast
qed

lemma remaining_all:
  assumes "assign_inv P Q st" and "\<And>k it b. P k it b \<Longrightarrow> ba_indices b \<noteq> [] \<Longrightarrow> Q (ba_indices b)"
    and "c \<in> set (remaining (as_buckets st))"
  shows "Q c"
proof -
  from assms(3) obtain k b where b: "(k, b) \<in> set (as_buckets st)" "ba_indices b \<noteq> []" "c = ba_indices b"
    by (auto simp: remaining_def)
  have "umap_wf (as_buckets st)" using assms(1) by (simp add: assign_inv_def)
  with b(1) have "umap_at BucketAccumulator (as_buckets st) k = b"
    by (simp add: umap_at_def umap_wf_def)
  moreover have "P k (umap_at 0 (as_limits st) k) (umap_at BucketAccumulator (as_buckets st) k)"
    using assms(1) unfolding assign_inv_def by blast
  ultimately show ?thesis using assms(2) b by simp
qed

lemma compute_all:
  assumes "compute_bucket_assignment_by_size iter ts limits sparse idxs = Inr r"
    and "\<And>bs. mset (iter bs) = mset bs"
    and "\<And>k. P k 0 BucketAccumulator"
    and "\<And>k it b. P k it b \<Longrightarrow> ba_indices b \<noteq> [] \<Longrightarrow> Q (ba_indices b)"
    and "\<And>j x. j < length ts \<Longrightarrow> tensor_index_at idxs j = Inr x \<Longrightarrow> step_keeps limits sparse P Q x (ts ! j)"
    and "b \<in> set r"
  shows "Q b"
proof -
  from compute_mset [OF assms(1,2)] obtain st where
    st: "assign_loop limits sparse idxs 0 ts assign_start = Inr st"
      "mset r = mset (as_result st @ remaining (as_buckets st))" by blast
  have "assign_inv P Q assign_start" using assms(3) by (simp add: assign_inv_def assign_start_def umap_at_def)
  from assign_loop_inv [OF st(1) this] assms(5) have inv: "assign_inv P Q st" by simp
  from st(2) have "set r = set (as_result st) \<union> set (remaining (as_buckets st))"
    by (metis set_append set_mset_mset)
  with assms(6) remaining_all [OF inv assms(4)] inv show ?thesis by (auto simp: assign_inv_def)
qed

lemma compute_partition:
  assumes "compute_bucket_assignment_by_size iter ts limits sparse idxs = Inr r"
    and "\<And>bs. mset (iter bs) = mset bs"
  shows "\<exists>xs. length xs = length ts \<and> (\<forall>j < length ts. tensor_index_at idxs j = Inr (xs ! j)) \<and>
     mset (concat r) = mset xs"
proof -
  from compute_mset [OF assms] obtain st where
    st: "assign_loop limits sparse idxs 0 ts assign_start = Inr st"
      "mset r = mset (as_result st @ remaining (as_buckets st))" by blast
  have "mset (concat r) = mset (concat (as_result st)) + mset (open_indices st)"
    using mset_concat_cong [OF st(2)] by (simp add: concat_remaining open_indices_def)
  moreover from assign_loop_mset [OF st(1)] obtain xs where
    "length xs = length ts" "\<forall>j < length ts. tensor_index_at idxs j = Inr (xs ! j)"
    "mset (concat (as_result st)) + mset (open_indices st) = mset xs"
    by (auto simp: assign_start_def open_indices_def)
  ultimately show ?thesis by auto
qed

lemma compute_nonempty:
  assumes "compute_bucket_assignment_by_size iter ts limits sparse idxs = Inr r"
    and "\<And>bs. mset (iter bs) = mset bs"
  shows "[] \<notin> set r"
proof -
  have keep: "step_keeps limits sparse (\<lambda>k it b. True) (\<lambda>b. b \<noteq> []) x t" for x t
    by (simp add: step_keeps_def add_tensor_def)
  have "b \<noteq> []" if "b \<in> set r" for b
    by (rule compute_all [OF assms, where P = "\<lambda>k it b. True" and Q = "\<lambda>b. b \<noteq> []"]) (use keep that in simp_all)
  then show ?thesis by blast
qed

lemma compute_partition_Nil:
  assumes "compute_bucket_assignment_by_size iter ts limits sparse [] = Inr r"
    and "\<And>bs. mset (iter bs) = mset bs"
  shows "mset (concat r) = mset [0..<length ts]"
proof -
  from compute_partition [OF assms] obtain xs where
    xs: "length xs = length ts" "\<forall>j < length ts. xs ! j = j" "mset (concat r) = mset xs" by auto
  have "xs = [0..<length ts]" using xs(1,2) by (auto intro!: nth_equalityI)
  with xs(3) show ?thesis by simp
qed

lemma fold_min_in: "fold min xs (x :: nat) \<in> set (x # xs)"
  by (induction xs arbitrary: x) (auto simp: min_def)

lemma min_element_in: "xs \<noteq> [] \<Longrightarrow> min_element xs \<in> set xs"
  using fold_min_in [of "tl xs" "hd xs"] by (simp add: min_element_def)

lemma compute_min_inj:
  assumes "mset (concat r) = mset [0..<n]" and "[] \<notin> set r"
  shows "inj_on min_element (set r)" and "distinct r"
proof -
  have "distinct (concat r)" using assms(1) by (metis distinct_upt mset_eq_imp_distinct_iff)
  then have d: "distinct (removeAll [] r)" "\<And>b c. b \<in> set r \<Longrightarrow> c \<in> set r \<Longrightarrow> b \<noteq> c \<Longrightarrow> set b \<inter> set c = {}"
    by (auto simp: distinct_concat_iff)
  show "distinct r" using d(1) assms(2) by (simp add: removeAll_id)
  show "inj_on min_element (set r)"
  proof (rule inj_onI, rule ccontr)
    fix b c assume bc: "b \<in> set r" "c \<in> set r" "min_element b = min_element c" "b \<noteq> c"
    then have "min_element b \<in> set b" "min_element b \<in> set c"
      using assms(2) min_element_in [of b] min_element_in [of c] by metis+
    with d(2) [OF bc(1,2,4)] show False by blast
  qed
qed

lemma compute_homogeneous:
  assumes "compute_bucket_assignment_by_size iter ts limits sparse idxs = Inr r"
    and "\<And>bs. mset (iter bs) = mset bs"
    and "\<And>j x. j < length ts \<Longrightarrow> tensor_index_at idxs j = Inr x \<Longrightarrow> keyf x = BucketKey (ts ! j)"
    and "b \<in> set r" and "x \<in> set b" and "y \<in> set b"
  shows "keyf x = keyf y"
proof -
  let ?P = "\<lambda>k it b. \<forall>x \<in> set (ba_indices b). keyf x = k"
  let ?Q = "\<lambda>b. \<forall>x \<in> set b. \<forall>y \<in> set b. keyf x = keyf y"
  have "step_keeps limits sparse ?P ?Q x (ts ! j)" if "j < length ts" "tensor_index_at idxs j = Inr x" for j x
    using assms(3) [OF that] by (auto simp: step_keeps_def add_tensor_def BucketAccumulator_def)
  then have "?Q b"
    by (intro compute_all [OF assms(1,2), where P = ?P and Q = ?Q and b = b]) (use assms(4) in \<open>auto simp: BucketAccumulator_def\<close>)
  with assms(5,6) show ?thesis by blast
qed

lemma compute_alone:
  assumes "compute_bucket_assignment_by_size iter ts limits sparse idxs = Inr r"
    and "\<And>bs. mset (iter bs) = mset bs" and "b \<in> set r" and "x \<in> set b" and "alone sparse x"
  shows "b = [x]"
proof -
  let ?P = "\<lambda>k it b. \<forall>x \<in> set (ba_indices b). \<not> alone sparse x"
  let ?Q = "\<lambda>b. \<forall>x \<in> set b. alone sparse x \<longrightarrow> b = [x]"
  have "step_keeps limits sparse ?P ?Q x t" for x t
    by (auto simp: step_keeps_def add_tensor_def BucketAccumulator_def)
  then have "?Q b"
    by (intro compute_all [OF assms(1,2), where P = ?P and Q = ?Q and b = b]) (use assms(3) in \<open>auto simp: BucketAccumulator_def\<close>)
  with assms(4,5) show ?thesis by blast
qed

text \<open>The bytes of a tensor, as a number.\<close>

definition tensor_bytes :: "tensor_info \<Rightarrow> nat" where
  "tensor_bytes t = unat (physical_numel t * ti_element_size t)"

text \<open>
  The sum over a list of indices, as long as the sizes of all tensors together fit 64 bits.
\<close>

definition bytes_of_indices :: "tensor_info list \<Rightarrow> nat list \<Rightarrow> nat" where
  "bytes_of_indices ts xs = sum_list (map (\<lambda>x. tensor_bytes (ts ! x)) xs)"

lemma vec_at_simps [simp]: "vec_at xs i = Inr y \<longleftrightarrow> i < length xs \<and> y = xs ! i"
  by (auto simp: vec_at_def)

lemma compute_limited:
  assumes "compute_bucket_assignment_by_size iter ts limits sparse [] = Inr r"
    and "\<And>bs. mset (iter bs) = mset bs"
    and fits: "\<And>lim t. lim \<in> set limits \<Longrightarrow> t \<in> set ts \<Longrightarrow> unat lim + tensor_bytes t < 2 ^ 64"
    and "b \<in> set r"
  shows "length b = 1 \<or> (\<exists>lim \<in> set limits. bytes_of_indices ts (butlast b) < unat lim)"
proof -
  let ?P = "\<lambda>(k :: bucket_key) it (b :: bucket_acc). unat (ba_size b) = bytes_of_indices ts (ba_indices b) \<and>
     (ba_indices b \<noteq> [] \<longrightarrow> it < length limits \<and> ba_size b < limits ! it)"
  let ?Q = "\<lambda>b. length b = 1 \<or> (\<exists>lim \<in> set limits. bytes_of_indices ts (butlast b) < unat lim)"
  have empty: "?P k it BucketAccumulator" for k it by (simp add: BucketAccumulator_def bytes_of_indices_def)
  have keep: "step_keeps limits sparse ?P ?Q j (ts ! j)" if j: "j < length ts" for j
  proof (unfold step_keeps_def, intro conjI allI impI)
    fix it old assume it: "it < length limits" and P: "?P (BucketKey (ts ! j)) it old"
    let ?new = "add_tensor j (ts ! j) old"
    have old: "unat (ba_size old) \<le> unat (limits ! it)"
      using P by (cases "ba_indices old = []") (auto simp: bytes_of_indices_def word_less_nat_alt)
    have "unat (limits ! it) + tensor_bytes (ts ! j) < 2 ^ 64" using fits it j by simp
    with old have "unat (ba_size old) + unat (physical_numel (ts ! j) * ti_element_size (ts ! j)) < 2 ^ LENGTH(64)"
      by (simp add: tensor_bytes_def)
    then have "unat (ba_size ?new) = bytes_of_indices ts (ba_indices ?new)"
      using P by (simp add: add_tensor_def bytes_of_indices_def tensor_bytes_def unat_add_lem [THEN iffD1])
    moreover have "?Q (ba_indices ?new)"
      using P it by (cases "ba_indices old = []") (auto simp: add_tensor_def word_less_nat_alt)
    ultimately show "if limits ! it \<le> ba_size ?new then ?Q (ba_indices ?new) \<and> ?P (BucketKey (ts ! j)) (next_limit limits it) BucketAccumulator
        else ?P (BucketKey (ts ! j)) it ?new"
      using it empty by (simp add: not_le)
  qed simp
  show ?thesis
  proof (rule compute_all [OF assms(1,2), where P = ?P and Q = ?Q])
    fix k it c assume "?P k it c" "ba_indices c \<noteq> []"
    then have "it < length limits" "bytes_of_indices ts (ba_indices c) < unat (limits ! it)"
      by (simp_all add: word_less_nat_alt)
    moreover have "bytes_of_indices ts (butlast (ba_indices c)) \<le> bytes_of_indices ts (ba_indices c)"
      by (cases "ba_indices c" rule: rev_cases) (simp_all add: bytes_of_indices_def)
    ultimately show "?Q (ba_indices c)" using nth_mem le_less_trans by blast
  next
    fix k show "?P k 0 BucketAccumulator" by (rule empty)
  qed (use keep assms(4) in simp_all)
qed

lemma assign_step_total:
  assumes "tensor_index_at idxs i = Inr x" and "sparse = [] \<or> x < length sparse" and "\<not> ti_is_sparse t"
    and "\<forall>k. umap_at 0 (as_limits st) k < length limits"
  shows "\<exists>st'. assign_step limits sparse idxs i t st = Inr st' \<and> (\<forall>k. umap_at 0 (as_limits st') k < length limits)"
proof -
  have lim: "umap_at 0 (as_limits st) (BucketKey t) < length limits" using assms(4) by blast
  define al where "al \<longleftrightarrow> sparse \<noteq> [] \<and> sparse ! x"
  have "(if sparse = [] then Inr False else vec_at sparse x) = (Inr al :: bool res)"
    using assms(2) by (auto simp: vec_at_def al_def)
  then have "\<exists>st'. assign_step limits sparse idxs i t st = Inr st'"
    using assms(1,3) lim
    by (cases al) (simp_all add: assign_step_def Let_def vec_at_def if_distrib [of Inr, symmetric])
  then obtain st' where st': "assign_step limits sparse idxs i t st = Inr st'" by blast
  then have "\<forall>k. umap_at 0 (as_limits st') k < length limits"
    using assms(4) by (cases rule: assign_step_cases) (auto simp: next_limit_def)
  with st' show ?thesis by blast
qed

lemma assign_loop_total:
  assumes "\<And>j. j < length ts \<Longrightarrow> \<exists>x. tensor_index_at idxs (i + j) = Inr x \<and> (sparse = [] \<or> x < length sparse)"
    and "\<forall>t \<in> set ts. \<not> ti_is_sparse t" and "\<forall>k. umap_at 0 (as_limits st) k < length limits"
  shows "\<exists>st'. assign_loop limits sparse idxs i ts st = Inr st'"
  using assms
proof (induction ts arbitrary: i st)
  case (Cons t ts)
  from Cons.prems(1) [of 0] obtain x where x: "tensor_index_at idxs i = Inr x" "sparse = [] \<or> x < length sparse" by auto
  from assign_step_total [OF x _ Cons.prems(3), of t] Cons.prems(2) obtain st1 where
    st1: "assign_step limits sparse idxs i t st = Inr st1" "\<forall>k. umap_at 0 (as_limits st1) k < length limits" by auto
  have "\<exists>st'. assign_loop limits sparse idxs (Suc i) ts st1 = Inr st'"
    using Cons.prems(1) [of "Suc _"] Cons.prems(2) st1(2) by (intro Cons.IH) simp_all
  with st1(1) show ?case by simp
qed simp

lemma compute_total:
  assumes "ts \<noteq> []" and "\<forall>t \<in> set ts. \<not> ti_is_sparse t" and "limits \<noteq> []"
    and "sparse = [] \<or> length sparse = length ts"
    and "idxs = [] \<or> length ts \<le> length idxs \<and> (\<forall>x \<in> set idxs. 0 \<le> x \<and> x < 2 ^ 64 \<and> (sparse = [] \<or> nat x < length sparse))"
  shows "\<exists>r. compute_bucket_assignment_by_size iter ts limits sparse idxs = Inr r"
proof -
  have idx: "\<exists>x. tensor_index_at idxs (0 + j) = Inr x \<and> (sparse = [] \<or> x < length sparse)" if j: "j < length ts" for j
  proof (cases "idxs = []")
    case False
    with assms(5) j have "j < length idxs" "0 \<le> idxs ! j" "idxs ! j < 2 ^ 64" "sparse = [] \<or> nat (idxs ! j) < length sparse"
      by (auto dest: nth_mem)
    moreover from this(2,3) have "unat (word_of_int (idxs ! j) :: 64 word) = nat (idxs ! j)"
      by (simp add: unat_eq_nat_uint uint_word_of_int take_bit_int_eq_self)
    ultimately show ?thesis using False by (simp add: tensor_index_at_def vec_at_def)
  qed (use assms(4) j in auto)
  have "\<exists>st. assign_loop limits sparse idxs 0 ts assign_start = Inr st"
    using idx assms(2,3) by (intro assign_loop_total) (simp_all add: assign_start_def umap_at_def)
  then show ?thesis using assms(1,4)
    by (auto simp: compute_bucket_assignment_by_size_def assign_start_def Let_def)
qed

section \<open>Synchronised buckets\<close>

lemma int32_round: "n < 2 ^ 31 \<Longrightarrow> from_int32 (to_int32 n) = n"
proof -
  assume n: "n < 2 ^ 31"
  have "signed_take_bit 31 (int n) = int n" using n by (intro signed_take_bit_int_eq_self) simp_all
  moreover have "to_int32 n = sint (word_of_int (int n) :: 32 word)" by (simp add: to_int32_def)
  ultimately have "to_int32 n = int n" by (simp only: sint_sbintrunc') simp
  then show ?thesis using n by (simp add: from_int32_def unat_of_nat)
qed

lemma take_buckets_pack:
  assumes "list_all (\<lambda>b. length b < 2 ^ 31 \<and> list_all (\<lambda>x. x < 2 ^ 31) b) bs"
  shows "take_buckets (map to_int32 (concat bs) @ rest) (map (\<lambda>b. to_int32 (length b)) bs) = Inr bs"
  using assms
proof (induction bs)
  case (Cons b bs)
  have "map from_int32 (map to_int32 b) = b"
    using Cons.prems by (auto simp: list_all_iff int32_round intro: map_idI)
  with Cons show ?case by (simp add: int32_round)
qed simp

lemma sync_root:
  assumes "bcast 0 (pack_indices mine) = pack_indices root"
    and "\<forall>buf. bcast 1 buf = map (\<lambda>b. to_int32 (length b)) root"
    and "length (concat mine) = length (concat root)" and "mine \<noteq> []" and "length root < 2 ^ 31"
    and "list_all (\<lambda>b. length b < 2 ^ 31 \<and> list_all (\<lambda>x. x < 2 ^ 31) b) root"
  shows "sync_bucket_indices bcast mine = Inr root"
proof -
  have total: "sum_list (map length mine) = length (concat root)" using assms(3) by (simp add: length_concat)
  have num: "vec_at (pack_indices root) (length (concat root)) = Inr (to_int32 (length root))"
    by (simp add: pack_indices_def nth_append)
  have "\<exists>sizes. pack_sizes (map length mine) (length root) = Inr sizes"
    using assms(4) by (cases "root = []") (simp_all add: pack_sizes_def)
  then obtain sizes where "pack_sizes (map length mine) (length root) = Inr sizes" by blast
  moreover have "take_buckets (pack_indices root) (map (\<lambda>b. to_int32 (length b)) root) = Inr root"
    using take_buckets_pack [OF assms(6)] by (simp add: pack_indices_def)
  ultimately show ?thesis
    using assms(1,2,5) num total by (simp add: sync_bucket_indices_def Let_def int32_round del: vec_at_simps)
qed

section \<open>Properties\<close>

text \<open>
  The buckets are a partition: whatever the order in which the hash map is iterated, every
  tensor index is in exactly one bucket, and no bucket is empty. With given tensor indices the
  multiset of indices is kept.
\<close>

theorem bucket_assignment_partition:
  assumes "compute_bucket_assignment_by_size iter ts limits sparse idxs = Inr r"
    and "\<forall>bs. mset (iter bs) = mset bs"
  shows "[] \<notin> set r \<and> (idxs = [] \<longrightarrow> mset (concat r) = mset [0..<length ts]) \<and>
    (\<exists>xs. length xs = length ts \<and> (\<forall>j < length ts. tensor_index_at idxs j = Inr (xs ! j)) \<and> mset (concat r) = mset xs)"
  using compute_nonempty [OF assms(1)] compute_partition [OF assms(1)] compute_partition_Nil [of iter ts limits sparse r]
    assms by blast

definition float_tensor :: "nat \<Rightarrow> 64 word \<Rightarrow> tensor_info" where
  "float_tensor dev n = \<lparr>ti_is_sparse = False, ti_scalar_type = 6, ti_device = dev, ti_storage_sizes = [n], ti_element_size = 4\<rparr>"

lemma sample_assignment:
  "compute_bucket_assignment_by_size rev [float_tensor 0 10, float_tensor 1 4, float_tensor 0 20] [64] [] [] = Inr [[0, 2], [1]]"
  by code_simp

theorem bucket_assignment_partition_witness:
  "mset (concat [[0, 2], [1]]) = mset [0..<length [float_tensor 0 10, float_tensor 1 4, float_tensor 0 20]]"
  using bucket_assignment_partition [OF sample_assignment] by simp

text \<open>
  Buckets are homogeneous: all tensors of a bucket have the scalar type and the device of the
  first, and a tensor for which a sparse gradient is expected has a bucket of its own.
\<close>

theorem bucket_assignment_homogeneous:
  assumes "compute_bucket_assignment_by_size iter ts limits sparse [] = Inr r"
    and "\<forall>bs. mset (iter bs) = mset bs" and "b \<in> set r"
  shows "(\<forall>x \<in> set b. \<forall>y \<in> set b. BucketKey (ts ! x) = BucketKey (ts ! y)) \<and>
    (\<forall>x \<in> set b. sparse \<noteq> [] \<and> sparse ! x \<longrightarrow> b = [x])"
proof (intro conjI ballI impI)
  have iter: "\<And>bs. mset (iter bs) = mset bs" using assms(2) by blast
  show "BucketKey (ts ! x) = BucketKey (ts ! y)" if "x \<in> set b" and "y \<in> set b" for x y
    by (rule compute_homogeneous [OF assms(1) iter _ assms(3) that]) simp
  show "b = [x]" if "x \<in> set b" and "sparse \<noteq> [] \<and> sparse ! x" for x
    by (rule compute_alone [OF assms(1) iter assms(3) that(1)]) (use that(2) in \<open>simp add: alone_def\<close>)
qed

theorem bucket_assignment_homogeneous_witness:
  "BucketKey ([float_tensor 0 10, float_tensor 1 4, float_tensor 0 20] ! 0) =
   BucketKey ([float_tensor 0 10, float_tensor 1 4, float_tensor 0 20] ! 2)"
  by (rule bucket_assignment_homogeneous [OF sample_assignment, of "[0, 2]", THEN conjunct1, THEN bspec, THEN bspec])
     simp_all

text \<open>
  The order of the buckets is a function of the tensors alone: two iteration orders of the
  hash map give the same result, in which the smallest indices of the buckets ascend, so that all
  processes agree on it.
\<close>

theorem bucket_assignment_order:
  assumes "compute_bucket_assignment_by_size iter ts limits sparse [] = Inr r"
    and "\<forall>bs. mset (iter bs) = mset bs" and "\<forall>bs. mset (iter' bs) = mset bs"
  shows "compute_bucket_assignment_by_size iter' ts limits sparse [] = Inr r \<and> sorted_wrt (<) (map min_element r)"
proof -
  from compute_result [OF assms(1)] obtain st where
    st: "assign_loop limits sparse [] 0 ts assign_start = Inr st"
      "r = sort_key min_element (as_result st @ remaining (iter (as_buckets st)))" by auto
  let ?r' = "sort_key min_element (as_result st @ remaining (iter' (as_buckets st)))"
  have r': "compute_bucket_assignment_by_size iter' ts limits sparse [] = Inr ?r'"
    using assms(1) st(1)
    by (auto simp: compute_bucket_assignment_by_size_def assign_start_def Let_def split: if_splits)
  have inj: "inj_on min_element (set r)" and dist: "distinct r"
    using compute_min_inj [of r "length ts"] compute_partition_Nil [OF assms(1)] compute_nonempty [OF assms(1)] assms(2)
    by blast+
  have "mset (remaining (iter (as_buckets st))) = mset (remaining (iter' (as_buckets st)))"
    using assms(2,3) by (intro mset_remaining) simp
  then have "mset r = mset ?r'" using st(2) by simp
  then have "sort_key min_element r = ?r'" by (rule sort_key_inj_key_eq) (use inj in simp_all)
  moreover have "sort_key min_element r = r"
    by (rule sort_key_inj_key_eq) (use inj st(2) in simp_all)
  ultimately have "?r' = r" by simp
  moreover have "sorted (map min_element r)" using st(2) by simp
  ultimately show ?thesis using r' inj dist by (simp add: strict_sorted_iff distinct_map)
qed

theorem bucket_assignment_order_witness:
  "compute_bucket_assignment_by_size id [float_tensor 0 10, float_tensor 1 4, float_tensor 0 20] [64] [] [] = Inr [[0, 2], [1]]"
  using bucket_assignment_order [OF sample_assignment, of id] by simp

text \<open>
  C36. Size limits: as long as no limit plus one tensor overflows 64 bits, a bucket with more than
  one tensor stays below one of the limits without its last tensor: it is closed as soon as the
  limit is reached.
\<close>

theorem bucket_assignment_limit:
  assumes "compute_bucket_assignment_by_size iter ts limits sparse [] = Inr r"
    and "\<forall>bs. mset (iter bs) = mset bs"
    and "\<forall>lim \<in> set limits. \<forall>t \<in> set ts. unat lim + tensor_bytes t < 2 ^ 64"
    and "b \<in> set r"
  shows "length b = 1 \<or> (\<exists>lim \<in> set limits. bytes_of_indices ts (butlast b) < unat lim)"
  using compute_limited [OF assms(1) _ _ assms(4)] assms(2,3) by blast

theorem bucket_assignment_limit_witness:
  "bytes_of_indices [float_tensor 0 10, float_tensor 1 4, float_tensor 0 20] (butlast [0, 2]) < 64"
  using bucket_assignment_limit [OF sample_assignment, of "[0, 2]"]
  by (simp add: tensor_bytes_def float_tensor_def physical_numel_def)

text \<open>
  Dense tensors are always assigned: with at least one limit, an expectation for every tensor
  or none at all, and tensor indices in range, no check fails and no vector is indexed beyond its
  end.
\<close>

theorem bucket_assignment_total:
  assumes "ts \<noteq> []" and "\<forall>t \<in> set ts. \<not> ti_is_sparse t" and "limits \<noteq> []"
    and "sparse = [] \<or> length sparse = length ts"
    and "idxs = [] \<or> length ts \<le> length idxs \<and> (\<forall>x \<in> set idxs. 0 \<le> x \<and> x < 2 ^ 64 \<and> (sparse = [] \<or> nat x < length sparse))"
  shows "\<exists>r. compute_bucket_assignment_by_size iter ts limits sparse idxs = Inr r"
  using compute_total [OF assms] .

theorem bucket_assignment_total_witness:
  "\<exists>r. compute_bucket_assignment_by_size id [float_tensor 0 10] [64] [] [5] = Inr r"
  by (rule bucket_assignment_total) (simp_all add: float_tensor_def)

text \<open>
  After \<^verbatim>\<open>sync_bucket_indices\<close> every process has the buckets of rank 0, when the
  broadcasts deliver the buffers of rank 0, its indices and sizes fit an \<^verbatim>\<open>int\<close>, and the
  process has buckets for the same number of tensors.
\<close>

theorem sync_bucket_indices_rank0:
  assumes "bcast 0 (pack_indices mine) = pack_indices root"
    and "\<forall>buf. bcast 1 buf = map (\<lambda>b. to_int32 (length b)) root"
    and "length (concat mine) = length (concat root)" and "mine \<noteq> []" and "length root < 2 ^ 31"
    and "list_all (\<lambda>b. length b < 2 ^ 31 \<and> list_all (\<lambda>x. x < 2 ^ 31) b) root"
  shows "sync_bucket_indices bcast mine = Inr root"
  using sync_root [OF assms] .

theorem sync_bucket_indices_rank0_witness:
  "sync_bucket_indices (\<lambda>j buf. if j = 0 then pack_indices [[0, 2], [1]] else map (\<lambda>b. to_int32 (length b)) [[0, 2], [1 :: nat]]) [[0], [1], [2]] =
     Inr [[0, 2], [1]]"
  by (rule sync_bucket_indices_rank0) simp_all

end
