(* ===== verification/Reducer.thy ===== *)
theory Reducer
  imports Bucketing
begin

text \<open>
  The gradient reducer of \<^verbatim>\<open>reducer.hpp\<close> and \<^verbatim>\<open>reducer.cpp\<close>: gradients are copied into flat
  buckets as the autograd hooks fire, buckets are handed to the process group in order, and the
  results are copied back when the backward pass is over. Storages are cells of a heap and tensors
  refer to parts of them, because the code tests for aliasing. What the tensor_ref library computes on
  elements is the record \<open>tensor_lib\<close>; what the process group and the communication hook return is
  the record \<open>group\<close>.
\<close>

section \<open>Tensors and the library\<close>

record tensor_ref =
  t_storage :: nat
  t_offset :: nat
  t_length :: nat
  t_type :: nat
  t_device :: nat
  t_format :: nat
  t_sparse :: bool

record 'v tensor_lib =
  tl_zero :: 'v
  tl_uninit :: 'v
  tl_mul_recip :: "int \<Rightarrow> 'v \<Rightarrow> 'v"
  tl_div :: "int \<Rightarrow> 'v \<Rightarrow> 'v"
  tl_copy_memory :: "'v list \<Rightarrow> 'v list \<Rightarrow> 'v list"
  tl_copy :: "'v list \<Rightarrow> 'v list \<Rightarrow> 'v list"
  tl_format_cast :: "nat \<Rightarrow> 'v list \<Rightarrow> 'v list"
  tl_base_format :: nat

text \<open>
  The process group: its size and the results of the reductions, by the position of the request in
  the log of all requests.
\<close>

record 'v group =
  g_size :: int
  g_allreduced :: "nat \<Rightarrow> 'v list list"
  g_hook_result :: "nat \<Rightarrow> 'v list list"
  g_used_reduced :: "nat \<Rightarrow> int list list"

record variable =
  v_info :: tensor_info
  v_requires_grad :: bool
  v_sizes :: "int list"
  v_strides :: "int list"
  v_format :: nat

definition v_dtype :: "variable \<Rightarrow> nat" where
  "v_dtype v = ti_scalar_type (v_info v)"

definition v_device :: "variable \<Rightarrow> nat" where
  "v_device v = ti_device (v_info v)"

definition tensor_read :: "'v list list \<Rightarrow> tensor_ref \<Rightarrow> 'v list" where
  "tensor_read st t = take (t_length t) (drop (t_offset t) (st ! t_storage t))"

definition splice :: "nat \<Rightarrow> nat \<Rightarrow> 'v list \<Rightarrow> 'v list \<Rightarrow> 'v list" where
  "splice off len new old = take off old @ take len new @ drop (off + len) old"

definition tensor_write :: "tensor_ref \<Rightarrow> 'v list \<Rightarrow> 'v list list \<Rightarrow> 'v list list" where
  "tensor_write t vs st = st[t_storage t := splice (t_offset t) (t_length t) vs (st ! t_storage t)]"

definition is_alias_of :: "tensor_ref \<Rightarrow> tensor_ref \<Rightarrow> bool" where
  "is_alias_of a b \<longleftrightarrow> t_storage a = t_storage b"

definition type_equal :: "tensor_ref \<Rightarrow> tensor_ref \<Rightarrow> bool" where
  "type_equal a b \<longleftrightarrow> t_type a = t_type b \<and> t_sparse a = t_sparse b"

definition narrow :: "tensor_ref \<Rightarrow> nat \<Rightarrow> nat \<Rightarrow> tensor_ref" where
  "narrow t offset len = t\<lparr>t_offset := t_offset t + offset, t_length := len\<rparr>"

section \<open>State\<close>

record VariableIndex =
  replica_index :: nat
  variable_index :: nat

record VariableLocator =
  bucket_index :: nat
  intra_bucket_index :: nat

record BucketReplica =
  br_contents :: "tensor_ref option"
  br_views_in :: "tensor_ref list"
  br_views_out :: "tensor_ref list"
  br_variables :: "VariableIndex list"
  br_offsets :: "nat list"
  br_lengths :: "nat list"
  br_sizes_vec :: "int list list"
  br_pending :: nat

record Bucket =
  b_replicas :: "BucketReplica list"
  b_variable_indices :: "nat list"
  b_pending :: nat
  b_work :: "nat option"
  b_future_work :: "nat option"
  b_expect_sparse :: bool

text \<open>
  The requests handed to the process group or the communication hook, with the contents they carry.
\<close>

datatype 'v request =
    Allreduce nat "'v list list"
  | RunHook nat "'v list list" "nat list" "nat list" "int list list"
  | AllreduceUsed "int list list"

record 'v reducer =
  storages :: "'v list list"
  grads :: "(VariableIndex, tensor_ref) umap"
  ctx_grads :: "(VariableIndex, tensor_ref) umap"
  rpc_context :: bool
  clock :: int
  replicas :: "variable list list"
  expect_sparse_gradients :: "bool list list"
  gradAccToVariablesMap :: "(nat, VariableIndex list) umap"
  expect_autograd_hooks :: bool
  require_finalize :: bool
  next_bucket :: nat
  has_marked_unused_parameters :: bool
  find_unused_parameters :: bool
  gradient_as_bucket_view :: bool
  unused_parameters :: "VariableIndex list"
  local_used_maps :: "int list list"
  local_used_maps_dev :: "int list list"
  local_used_maps_reduced :: bool
  local_used_work :: "nat option"
  buckets :: "Bucket list"
  variable_locators :: "VariableLocator list"
  backward_stats_base :: int
  backward_stats :: "int list list"
  has_rebuilt_bucket :: bool
  rebuilt_params :: "variable list"
  rebuilt_param_indices :: "int list"
  bucket_bytes_cap :: int
  forwardPassWorkHandle :: "(int list \<times> bool) option"
  divFactor :: int
  comm_hook :: bool
  pg_log :: "'v request list"
  finalizers :: nat

definition kUnsetDivFactor :: int where "kUnsetDivFactor = -1"

definition kDefaultFirstBucketBytes :: int where "kDefaultFirstBucketBytes = 1024 * 1024"

text \<open>\<^verbatim>\<open>operator[]\<close> on a vector of the state.\<close>

definition atM :: "('v reducer \<Rightarrow> 'a list) \<Rightarrow> nat \<Rightarrow> ('v reducer, 'a) cmd" where
  "atM sel i = bindM (getM sel) (\<lambda>xs. liftM (vec_at xs i))"

definition write_store :: "tensor_ref \<Rightarrow> 'v list \<Rightarrow> 'v reducer \<Rightarrow> 'v reducer" where
  "write_store t vs s = s\<lparr>storages := tensor_write t vs (storages s)\<rparr>"

definition new_storage :: "'v list \<Rightarrow> ('v reducer, nat) cmd" where
  "new_storage vs s = (Inr (length (storages s)), s\<lparr>storages := storages s @ [vs]\<rparr>)"

definition upd_bucket :: "nat \<Rightarrow> (Bucket \<Rightarrow> Bucket) \<Rightarrow> 'v reducer \<Rightarrow> 'v reducer" where
  "upd_bucket b f s = s\<lparr>buckets := (buckets s)[b := f (buckets s ! b)]\<rparr>"

definition upd_replica :: "nat \<Rightarrow> nat \<Rightarrow> (BucketReplica \<Rightarrow> BucketReplica) \<Rightarrow> 'v reducer \<Rightarrow> 'v reducer" where
  "upd_replica b r f = upd_bucket b (\<lambda>bk. bk\<lparr>b_replicas := (b_replicas bk)[r := f (b_replicas bk ! r)]\<rparr>)"

section \<open>Gradients of variables\<close>

text \<open>
  A callback gets the gradient and returns whether it changed it, with its new value. Without a
  distributed context it works on the member of the variable itself, so that what it assigned stays
  also when it returns \<open>False\<close>.
\<close>

definition Reducer_runGradCallbackForVariable ::
    "VariableIndex \<Rightarrow> (tensor_ref option \<Rightarrow> ('v reducer, bool \<times> tensor_ref option) cmd) \<Rightarrow> ('v reducer, unit) cmd" where
  "Reducer_runGradCallbackForVariable v cb =
     bindM (getM rpc_context) (\<lambda>ctx.
       if \<not> ctx then
         bindM (getM (\<lambda>s. map_of (grads s) v)) (\<lambda>grad.
         bindM (cb grad) (\<lambda>(_, grad').
         modifyM (\<lambda>s. s\<lparr>grads := (case grad' of None \<Rightarrow> AList.delete v (grads s)
                                    | Some g \<Rightarrow> AList.update v g (grads s))\<rparr>)))
       else
         bindM (getM (\<lambda>s. map_of (ctx_grads s) v)) (\<lambda>found.
           case found of
             None \<Rightarrow> throwM (C10_assert ''The grad for the variable should exist in dist_autograd context.'')
           | Some g \<Rightarrow>
               bindM (cb (Some g)) (\<lambda>(modified, grad').
                 if modified then modifyM (\<lambda>s. case grad' of None \<Rightarrow> s
                                              | Some g' \<Rightarrow> s\<lparr>ctx_grads := AList.update v g' (ctx_grads s)\<rparr>)
                 else returnM ())))"

definition check_grad_layout :: "tensor_ref \<Rightarrow> tensor_ref \<Rightarrow> ('v reducer, unit) cmd" where
  "check_grad_layout grad bucket_view =
     bindM (checkM (type_equal grad bucket_view) (C10_error ''Expected '')) (\<lambda>_.
     bindM (checkM (t_device grad = t_device bucket_view) (C10_assert ''grad.device() == bucket_view.device()'')) (\<lambda>_.
     bindM (getM gradient_as_bucket_view) (\<lambda>view.
     if \<not> view then checkM (\<not> is_alias_of grad bucket_view) (C10_assert ''!grad.is_alias_of(bucket_view)'')
     else returnM ())))"

definition copy_grad_to_bucket :: "'v tensor_lib \<Rightarrow> tensor_ref \<Rightarrow> tensor_ref \<Rightarrow> ('v reducer, unit) cmd" where
  "copy_grad_to_bucket lib grad bucket_view =
     modifyM (\<lambda>s.
       let g = tensor_read (storages s) grad; b = tensor_read (storages s) bucket_view
       in write_store bucket_view
            (tl_copy_memory lib b (if \<not> comm_hook s then map (tl_mul_recip lib (divFactor s)) g else g)) s)"

definition format_casted :: "'v tensor_lib \<Rightarrow> nat \<Rightarrow> tensor_ref \<Rightarrow> ('v reducer, tensor_ref) cmd" where
  "format_casted lib fmt grad =
     (if t_format grad = fmt then returnM grad
      else bindM (getM (\<lambda>s. tl_format_cast lib fmt (tensor_read (storages s) grad))) (\<lambda>vs.
           bindM (new_storage vs) (\<lambda>i.
           returnM (grad\<lparr>t_storage := i, t_offset := 0, t_length := length vs, t_format := fmt\<rparr>))))"

definition dense_callback ::
    "'v tensor_lib \<Rightarrow> nat \<Rightarrow> tensor_ref \<Rightarrow> tensor_ref option \<Rightarrow> ('v reducer, bool \<times> tensor_ref option) cmd" where
  "dense_callback lib fmt bucket_view grad =
     (case grad of
        Some g \<Rightarrow>
          bindM (check_grad_layout g bucket_view) (\<lambda>_.
            if \<not> is_alias_of g bucket_view then
              bindM (format_casted lib fmt g) (\<lambda>g'.
              bindM (copy_grad_to_bucket lib g' bucket_view) (\<lambda>_.
              bindM (getM gradient_as_bucket_view) (\<lambda>view.
              returnM (if view then (True, Some bucket_view) else (False, Some g')))))
            else
              bindM (modifyM (\<lambda>s. if \<not> comm_hook s
                then write_store bucket_view (map (tl_div lib (divFactor s)) (tensor_read (storages s) bucket_view)) s else s)) (\<lambda>_.
              returnM (False, Some g)))
      | None \<Rightarrow>
          bindM (modifyM (write_store bucket_view (replicate (t_length bucket_view) (tl_zero lib)))) (\<lambda>_.
          returnM (False, None)))"

definition locate :: "VariableIndex \<Rightarrow> ('v reducer, VariableLocator) cmd" where
  "locate index = atM variable_locators (variable_index index)"

definition bucket_replica_at :: "nat \<Rightarrow> nat \<Rightarrow> ('v reducer, BucketReplica) cmd" where
  "bucket_replica_at b r =
     bindM (atM buckets b) (\<lambda>bucket. liftM (vec_at (b_replicas bucket) r))"

definition variable_at :: "VariableIndex \<Rightarrow> ('v reducer, variable) cmd" where
  "variable_at v =
     bindM (atM replicas (replica_index v)) (\<lambda>vs. liftM (vec_at vs (variable_index v)))"

definition mark_variable_ready_dense :: "'v tensor_lib \<Rightarrow> VariableIndex \<Rightarrow> ('v reducer, unit) cmd" where
  "mark_variable_ready_dense lib index =
     bindM (locate index) (\<lambda>l.
     bindM (bucket_replica_at (bucket_index l) (replica_index index)) (\<lambda>replica.
     bindM (liftM (vec_at (br_variables replica) (intra_bucket_index l))) (\<lambda>v.
     bindM (liftM (vec_at (br_views_in replica) (intra_bucket_index l))) (\<lambda>bucket_view.
     bindM (variable_at v) (\<lambda>variable.
     Reducer_runGradCallbackForVariable v (dense_callback lib (v_format variable) bucket_view))))))"

definition sparse_callback ::
    "'v tensor_lib \<Rightarrow> nat \<Rightarrow> nat \<Rightarrow> tensor_ref option \<Rightarrow> ('v reducer, bool \<times> tensor_ref option) cmd" where
  "sparse_callback lib b r grad =
     (case grad of
        None \<Rightarrow> throwM (C10_error ''Expected sparse gradient to be defined.'')
      | Some g \<Rightarrow>
          bindM (checkM (t_sparse g) (C10_error ''Expected variable to have sparse gradient.'')) (\<lambda>_.
          bindM (modifyM (upd_replica b r (\<lambda>replica. replica\<lparr>br_contents := Some g\<rparr>))) (\<lambda>_.
          bindM (modifyM (\<lambda>s. if \<not> comm_hook s
            then write_store g (map (tl_div lib (divFactor s)) (tensor_read (storages s) g)) s else s)) (\<lambda>_.
          returnM (True, Some g)))))"

definition mark_variable_ready_sparse :: "'v tensor_lib \<Rightarrow> VariableIndex \<Rightarrow> ('v reducer, unit) cmd" where
  "mark_variable_ready_sparse lib index =
     bindM (locate index) (\<lambda>l.
     bindM (bucket_replica_at (bucket_index l) (replica_index index)) (\<lambda>replica.
     bindM (liftM (vec_at (br_variables replica) (intra_bucket_index l))) (\<lambda>v.
     Reducer_runGradCallbackForVariable v (sparse_callback lib (bucket_index l) (replica_index index)))))"

section \<open>Buckets that are ready\<close>

definition contents_read :: "'v reducer \<Rightarrow> BucketReplica \<Rightarrow> 'v list" where
  "contents_read s replica = (case br_contents replica of None \<Rightarrow> [] | Some t \<Rightarrow> tensor_read (storages s) t)"

definition launch_bucket :: "nat \<Rightarrow> 'v reducer \<Rightarrow> 'v reducer" where
  "launch_bucket b s =
     (let bucket = buckets s ! b; tensors = map (contents_read s) (b_replicas bucket); w = length (pg_log s)
      in if \<not> comm_hook s
         then upd_bucket b (\<lambda>bk. bk\<lparr>b_work := Some w\<rparr>) (s\<lparr>pg_log := pg_log s @ [Allreduce b tensors]\<rparr>)
         else let r0 = hd (b_replicas bucket)
              in upd_bucket b (\<lambda>bk. bk\<lparr>b_future_work := Some w\<rparr>)
                   (s\<lparr>pg_log := pg_log s @ [RunHook b tensors (br_offsets r0) (br_lengths r0) (br_sizes_vec r0)]\<rparr>))"

text \<open>
  The loop of \<^verbatim>\<open>mark_bucket_ready\<close>; \<open>k\<close> is the number of buckets that have not been launched,
  which bounds the number of rounds.
\<close>

primrec launch_ready :: "nat \<Rightarrow> 'v reducer \<Rightarrow> 'v reducer" where
  "launch_ready 0 s = s"
| "launch_ready (Suc k) s =
     (if next_bucket s < length (buckets s) \<and> b_pending (buckets s ! next_bucket s) = 0
      then launch_ready k ((launch_bucket (next_bucket s) s)\<lparr>next_bucket := Suc (next_bucket s)\<rparr>)
      else s)"

definition mark_bucket_ready :: "nat \<Rightarrow> ('v reducer, unit) cmd" where
  "mark_bucket_ready b =
     bindM (getM next_bucket) (\<lambda>n.
     bindM (checkM (n \<le> b) (C10_assert ''bucket_index >= next_bucket_'')) (\<lambda>_.
     if n < b then returnM ()
     else modifyM (\<lambda>s. launch_ready (length (buckets s) - next_bucket s) s)))"

definition common_error :: string where
  "common_error = ''Expected to mark a variable ready only once. ''"

definition set_div_factor :: "'v group \<Rightarrow> ('v reducer, unit) cmd" where
  "set_div_factor grp =
     bindM (getM divFactor) (\<lambda>d.
       if d \<noteq> kUnsetDivFactor then returnM ()
       else
         bindM (modifyM (\<lambda>s. s\<lparr>divFactor := g_size grp\<rparr>)) (\<lambda>_.
         bindM (getM forwardPassWorkHandle) (\<lambda>handle.
           case handle of
             None \<Rightarrow> returnM ()
           | Some (results, useStaticWorldSize) \<Rightarrow>
               if useStaticWorldSize then returnM ()
               else bindM (checkM (0 < length results) (C10_assert ''results.size() > 0'')) (\<lambda>_.
                    modifyM (\<lambda>s. s\<lparr>divFactor := hd results\<rparr>)))))"

definition count_down :: "nat \<Rightarrow> nat \<Rightarrow> ('v reducer, unit) cmd" where
  "count_down b r =
     bindM (modifyM (upd_replica b r (\<lambda>replica. replica\<lparr>br_pending := br_pending replica - 1\<rparr>))) (\<lambda>_.
     bindM (bucket_replica_at b r) (\<lambda>replica.
       if br_pending replica = 0 then
         bindM (modifyM (upd_bucket b (\<lambda>bk. bk\<lparr>b_pending := b_pending bk - 1\<rparr>))) (\<lambda>_.
         bindM (atM buckets b) (\<lambda>bucket.
           if b_pending bucket = 0 then mark_bucket_ready b else returnM ()))
       else returnM ()))"

definition queue_finalizer :: "'v reducer \<Rightarrow> 'v reducer" where
  "queue_finalizer s =
     (if next_bucket s = length (buckets s) then
        (if find_unused_parameters s
         then s\<lparr>local_used_maps_dev := local_used_maps s, local_used_work := Some (length (pg_log s)),
                pg_log := pg_log s @ [AllreduceUsed (local_used_maps s)]\<rparr>
         else s)\<lparr>finalizers := finalizers s + 1\<rparr>
      else s)"

definition mark_variable_ready :: "'v tensor_lib \<Rightarrow> 'v group \<Rightarrow> VariableIndex \<Rightarrow> ('v reducer, unit) cmd" where
  "mark_variable_ready lib grp index =
     bindM (getM replicas) (\<lambda>rs.
     bindM (checkM (replica_index index < length rs) (C10_error ''Out of range replica index.'')) (\<lambda>_.
     bindM (getM variable_locators) (\<lambda>locators.
     bindM (checkM (variable_index index < length locators) (C10_error ''Out of range variable index.'')) (\<lambda>_.
     bindM (modifyM (\<lambda>s. s\<lparr>backward_stats := (backward_stats s)[replica_index index :=
         (backward_stats s ! replica_index index)[variable_index index := clock s - backward_stats_base s]],
       require_finalize := True\<rparr>)) (\<lambda>_.
     bindM (locate index) (\<lambda>l.
     bindM (atM buckets (bucket_index l)) (\<lambda>bucket.
     bindM (bucket_replica_at (bucket_index l) (replica_index index)) (\<lambda>replica.
     bindM (if br_pending replica = 0
            then bindM (getM has_marked_unused_parameters) (\<lambda>marked.
                 bindM (checkM marked (C10_error (common_error @ ''3) Incorrect unused parameter detection.''))) (\<lambda>_.
                 checkM (\<not> marked) (C10_error common_error)))
            else returnM ()) (\<lambda>_.
     bindM (set_div_factor grp) (\<lambda>_.
     bindM (if b_expect_sparse bucket then mark_variable_ready_sparse lib index else mark_variable_ready_dense lib index) (\<lambda>_.
     bindM (count_down (bucket_index l) (replica_index index)) (\<lambda>_.
     modifyM queue_finalizer))))))))))))"

section \<open>The hook of a gradient accumulator\<close>

definition should_rebuild_buckets :: "'v reducer \<Rightarrow> bool" where
  "should_rebuild_buckets s \<longleftrightarrow> \<not> find_unused_parameters s \<and> \<not> has_rebuilt_bucket s"

definition push_rebuilt_params :: "VariableIndex \<Rightarrow> ('v reducer, unit) cmd" where
  "push_rebuilt_params index =
     bindM (getM should_rebuild_buckets) (\<lambda>rebuild.
       if rebuild \<and> replica_index index = 0 then
         bindM (variable_at index) (\<lambda>v.
         modifyM (\<lambda>s. s\<lparr>rebuilt_params := rebuilt_params s @ [v],
                        rebuilt_param_indices := rebuilt_param_indices s @ [int (variable_index index)]\<rparr>))
       else returnM ())"

definition all_indices :: "'v reducer \<Rightarrow> VariableIndex list" where
  "all_indices s = concat (map (\<lambda>r. map (\<lambda>v. \<lparr>replica_index = r, variable_index = v\<rparr>) [0..<length (replicas s ! r)])
     [0..<length (replicas s)])"

definition push_rebuilt_params_for_all_indices :: "('v reducer, unit) cmd" where
  "push_rebuilt_params_for_all_indices =
     bindM (getM (\<lambda>s. \<not> should_rebuild_buckets s \<or> rebuilt_param_indices s \<noteq> [])) (\<lambda>skip.
       if skip then returnM () else bindM (getM all_indices) (for_each push_rebuilt_params))"

definition autograd_hook :: "'v tensor_lib \<Rightarrow> 'v group \<Rightarrow> VariableIndex \<Rightarrow> ('v reducer, unit) cmd" where
  "autograd_hook lib grp index =
     bindM (modifyM (\<lambda>s. if find_unused_parameters s
        then s\<lparr>local_used_maps := (local_used_maps s)[replica_index index :=
                 (local_used_maps s ! replica_index index)[variable_index index := 1]]\<rparr>
        else s)) (\<lambda>_.
     bindM (getM expect_autograd_hooks) (\<lambda>expected.
       if \<not> expected then returnM ()
       else
         bindM (push_rebuilt_params index) (\<lambda>_.
         bindM (getM (\<lambda>s. \<not> has_marked_unused_parameters s \<and> find_unused_parameters s)) (\<lambda>mark.
         bindM (if mark
                then bindM (modifyM (\<lambda>s. s\<lparr>has_marked_unused_parameters := True\<rparr>)) (\<lambda>_.
                     bindM (getM unused_parameters) (for_each (mark_variable_ready lib grp)))
                else returnM ()) (\<lambda>_.
         mark_variable_ready lib grp index)))))"

text \<open>The hook that the constructor installs: \<open>ctx\<close> is whether the thread has an autograd context.\<close>

definition grad_post_hook :: "'v tensor_lib \<Rightarrow> 'v group \<Rightarrow> bool \<Rightarrow> VariableIndex \<Rightarrow> ('v reducer, unit) cmd" where
  "grad_post_hook lib grp ctx index =
     bindM (modifyM (\<lambda>s. s\<lparr>rpc_context := ctx\<rparr>)) (\<lambda>_. autograd_hook lib grp index)"

section \<open>Before a backward pass\<close>

text \<open>
  The autograd graph: the functions that follow each function, \<open>None\<close> for an edge without one. The
  queue grows and shrinks at its back, which is the head of the list here.
\<close>

type_synonym autograd_graph = "(nat, nat option list) umap"

definition visit_edge :: "nat option \<Rightarrow> nat list \<times> nat list \<Rightarrow> nat list \<times> nat list" where
  "visit_edge e qs = (case (e, qs) of
     (None, _) \<Rightarrow> qs
   | (Some f, queue, seen) \<Rightarrow> if f \<in> set seen then (queue, seen) else (f # queue, f # seen))"

definition edge_targets :: "autograd_graph \<Rightarrow> nat set" where
  "edge_targets g = {f. \<exists>(n, es)\<in>set g. Some f \<in> set es}"

lemma finite_edge_targets [simp]: "finite (edge_targets g)"
proof -
  have "edge_targets g = (\<Union>(n, es)\<in>set g. {f. Some f \<in> set es})" by (auto simp: edge_targets_def)
  moreover have "finite {f. Some f \<in> set es}" for es :: "nat option list"
    by (rule finite_subset [of _ "the ` set es"]) force+
  ultimately show ?thesis by auto
qed

lemma visit_edges_measure:
  assumes "fold visit_edge es (queue, seen) = (queue', seen')" and "\<forall>f. Some f \<in> set es \<longrightarrow> f \<in> T" and "finite T"
  shows "2 * card (T - set seen') + length queue' \<le> 2 * card (T - set seen) + length queue"
  using assms
proof (induction es arbitrary: queue seen)
  case Nil
  then show ?case by simp
next
  case (Cons e es)
  obtain q1 s1 where v: "visit_edge e (queue, seen) = (q1, s1)" by (cases "visit_edge e (queue, seen)")
  have "2 * card (T - set s1) + length q1 \<le> 2 * card (T - set seen) + length queue"
  proof (cases "\<exists>f. e = Some f \<and> f \<notin> set seen")
    case True
    then obtain f where f: "e = Some f" "f \<notin> set seen" "q1 = f # queue" "s1 = f # seen" "f \<in> T"
      using v Cons.prems(2) by (auto simp: visit_edge_def)
    have m: "f \<in> T - set seen" using f by simp
    then have "0 < card (T - set seen)" using Cons.prems(3) card_gt_0_iff by blast
    moreover have "T - set s1 = T - set seen - {f}" using f(4) by auto
    ultimately show ?thesis using f(3) card_Diff_singleton [OF m] by simp
  next
    case False
    then show ?thesis using v by (auto simp: visit_edge_def split: option.splits)
  qed
  moreover have "2 * card (T - set seen') + length queue' \<le> 2 * card (T - set s1) + length q1"
    by (rule Cons.IH) (use Cons.prems v in auto)
  ultimately show ?case by simp
qed

function (sequential) traverse :: "autograd_graph \<Rightarrow> nat list \<Rightarrow> nat list \<Rightarrow> nat list" where
  "traverse g [] seen = seen"
| "traverse g (fn # queue) seen =
     (let (queue', seen') = fold visit_edge (umap_at [] g fn) (queue, seen) in traverse g queue' seen')"
  by pat_completeness auto

termination
proof (relation "measure (\<lambda>(g, queue, seen). 2 * card (edge_targets g - set seen) + length queue)")
  fix g :: autograd_graph and fn queue seen p queue' seen'
  assume "p = fold visit_edge (umap_at [] g fn) (queue, seen)" and "(queue', seen') = p"
  then have "fold visit_edge (umap_at [] g fn) (queue, seen) = (queue', seen')" by simp
  moreover have "\<forall>f. Some f \<in> set (umap_at [] g fn) \<longrightarrow> f \<in> edge_targets g"
    by (cases "map_of g fn") (auto simp: umap_at_def edge_targets_def dest: map_of_SomeD)
  ultimately show "((g, queue', seen'), g, fn # queue, seen) \<in> measure (\<lambda>(g, queue, seen). 2 * card (edge_targets g - set seen) + length queue)"
    using visit_edges_measure [of "umap_at [] g fn" queue seen queue' seen' "edge_targets g"] by simp
qed simp

definition reset_pending :: "Bucket \<Rightarrow> Bucket" where
  "reset_pending bk = bk\<lparr>b_replicas := map (\<lambda>r. r\<lparr>br_pending := length (br_variables r)\<rparr>) (b_replicas bk),
     b_pending := length (b_replicas bk)\<rparr>"

definition prepare_for_backward :: "autograd_graph \<Rightarrow> nat option list \<Rightarrow> 'v reducer \<Rightarrow> 'v reducer" where
  "prepare_for_backward g outputs s =
     (let s1 = s\<lparr>expect_autograd_hooks := True, next_bucket := 0, backward_stats_base := clock s,
                 buckets := map reset_pending (buckets s),
                 has_marked_unused_parameters := False, unused_parameters := []\<rparr>
      in if \<not> find_unused_parameters s then s1
         else let queue = rev (List.map_filter id outputs); seen = traverse g queue []
              in s1\<lparr>unused_parameters :=
                   concat (map snd (filter (\<lambda>(acc, idxs). acc \<notin> set seen) (gradAccToVariablesMap s)))\<rparr>)"

section \<open>Buckets\<close>

definition expects_sparse :: "nat \<Rightarrow> ('v reducer, bool) cmd" where
  "expects_sparse v = bindM (atM expect_sparse_gradients 0) (\<lambda>sp. liftM (vec_at sp v))"

definition bucket_sparse :: "nat list \<Rightarrow> ('v reducer, bool) cmd" where
  "bucket_sparse idxs =
     (if length idxs = 1 then expects_sparse (hd idxs)
      else bindM (for_each (\<lambda>v. bindM (expects_sparse v) (\<lambda>sp.
             checkM (\<not> sp) (C10_error ''Buckets with more than one variable cannot include variables that expect a sparse gradient.''))) idxs) (\<lambda>_.
           returnM False))"

definition BucketReplica_new :: BucketReplica where
  "BucketReplica_new = \<lparr>br_contents = None, br_views_in = [], br_views_out = [], br_variables = [], br_offsets = [],
     br_lengths = [], br_sizes_vec = [], br_pending = 0\<rparr>"

text \<open>
  The loop over the variables of a dense bucket: \<open>opts\<close> is the device and type fixed by the first
  variable, \<open>offset\<close> the elements laid out so far.
\<close>

fun dense_layout :: "variable list \<Rightarrow> nat \<Rightarrow> nat list \<Rightarrow> (nat \<times> nat) option \<Rightarrow> nat \<Rightarrow> BucketReplica \<Rightarrow>
    (BucketReplica \<times> nat \<times> (nat \<times> nat) option) res" where
  "dense_layout vs r [] opts offset replica = Inr (replica, offset, opts)"
| "dense_layout vs r (i # is) opts offset replica =
     (if \<not> i < length vs then Inl (C10_error ''Out of range variable index specified.'')
      else let v = vs ! i; len = unat (physical_numel (v_info v)) in
        if opts \<noteq> None \<and> v_device v \<noteq> fst (the opts)
        then Inl (C10_error ''All parameters in a bucket must be placed on the same device.'')
        else if opts \<noteq> None \<and> v_dtype v \<noteq> snd (the opts)
        then Inl (C10_error ''All parameters in a bucket must have the same dtype.'')
        else dense_layout vs r is (Some (v_device v, v_dtype v)) (offset + len)
          (replica\<lparr>br_variables := br_variables replica @ [\<lparr>replica_index = r, variable_index = i\<rparr>],
                   br_offsets := br_offsets replica @ [offset], br_lengths := br_lengths replica @ [len],
                   br_sizes_vec := br_sizes_vec replica @ [v_sizes v]\<rparr>))"

definition view_callback :: "'v tensor_lib \<Rightarrow> tensor_ref \<Rightarrow> tensor_ref option \<Rightarrow> ('v reducer, bool \<times> tensor_ref option) cmd" where
  "view_callback lib bucket_view grad =
     (case grad of
        Some g \<Rightarrow>
          if \<not> is_alias_of g bucket_view
          then bindM (modifyM (\<lambda>s. write_store bucket_view
                 (tl_copy lib (tensor_read (storages s) bucket_view) (tensor_read (storages s) g)) s)) (\<lambda>_.
               returnM (True, Some bucket_view))
          else returnM (False, grad)
      | None \<Rightarrow> returnM (False, grad))"

definition views_of :: "tensor_ref \<Rightarrow> BucketReplica \<Rightarrow> tensor_ref list" where
  "views_of contents replica = map2 (narrow contents) (br_offsets replica) (br_lengths replica)"

definition initialize_bucket_views :: "'v tensor_lib \<Rightarrow> BucketReplica \<Rightarrow> tensor_ref \<Rightarrow> ('v reducer, BucketReplica) cmd" where
  "initialize_bucket_views lib replica contents =
     bindM (getM gradient_as_bucket_view) (\<lambda>view.
     bindM (for_each (\<lambda>(v, bucket_view).
              if view then Reducer_runGradCallbackForVariable v (view_callback lib bucket_view) else returnM ())
            (zip (br_variables replica) (views_of contents replica))) (\<lambda>_.
     returnM (replica\<lparr>br_views_in := views_of contents replica, br_views_out := views_of contents replica\<rparr>)))"

definition populate_bucket_views_out :: "BucketReplica \<Rightarrow> tensor_ref \<Rightarrow> BucketReplica" where
  "populate_bucket_views_out replica t = replica\<lparr>br_views_out := views_of t replica\<rparr>"

definition build_replica :: "'v tensor_lib \<Rightarrow> nat list \<Rightarrow> bool \<Rightarrow> nat \<Rightarrow> ('v reducer, BucketReplica) cmd" where
  "build_replica lib idxs sparse r =
     (if sparse then
        bindM (variable_at \<lparr>replica_index = r, variable_index = hd idxs\<rparr>) (\<lambda>_.
        returnM (BucketReplica_new\<lparr>br_variables := [\<lparr>replica_index = r, variable_index = hd idxs\<rparr>]\<rparr>))
      else
        bindM (atM replicas r) (\<lambda>vs.
        bindM (liftM (dense_layout vs r idxs None 0 BucketReplica_new)) (\<lambda>(replica, total, opts).
        bindM (new_storage (replicate total (tl_uninit lib))) (\<lambda>i.
          let contents = \<lparr>t_storage = i, t_offset = 0, t_length = total, t_type = snd (the opts), t_device = fst (the opts),
                          t_format = tl_base_format lib, t_sparse = False\<rparr>
          in initialize_bucket_views lib (replica\<lparr>br_contents := Some contents\<rparr>) contents))))"

definition add_bucket :: "'v tensor_lib \<Rightarrow> nat \<times> nat list \<Rightarrow> ('v reducer, unit) cmd" where
  "add_bucket lib bi =
     (let b = fst bi; idxs = snd bi in
      bindM (checkM (0 < length idxs) (C10_error ''Empty bucket specified.'')) (\<lambda>_.
      bindM (bucket_sparse idxs) (\<lambda>sparse.
      bindM (getM (\<lambda>s. length (replicas s))) (\<lambda>replica_count.
      bindM (map_each (build_replica lib idxs sparse) [0..<replica_count]) (\<lambda>reps.
      bindM (for_each (\<lambda>(v, j).
          bindM (getM (\<lambda>s. length (variable_locators s))) (\<lambda>n.
          bindM (checkM (v < n) (C10_error ''Out of range variable index specified.'')) (\<lambda>_.
          modifyM (\<lambda>s. s\<lparr>variable_locators := (variable_locators s)[v := \<lparr>bucket_index = b, intra_bucket_index = j\<rparr>]\<rparr>))))
        (zip idxs [0..<length idxs])) (\<lambda>_.
      modifyM (\<lambda>s. s\<lparr>buckets := buckets s @ [\<lparr>b_replicas = reps, b_variable_indices = idxs, b_pending = 0,
        b_work = None, b_future_work = None, b_expect_sparse = sparse\<rparr>]\<rparr>)))))))"

text \<open>\<^verbatim>\<open>resize\<close> value-initialises the locators: both fields are zero.\<close>

definition initialize_buckets :: "'v tensor_lib \<Rightarrow> bool \<Rightarrow> nat list list \<Rightarrow> ('v reducer, unit) cmd" where
  "initialize_buckets lib ctx bucket_indices =
     bindM (modifyM (\<lambda>s. s\<lparr>rpc_context := ctx\<rparr>)) (\<lambda>_.
     bindM (getM expect_autograd_hooks) (\<lambda>expected.
     bindM (checkM (\<not> expected) (C10_error ''`initialize_buckets` must NOT be called during autograd execution.'')) (\<lambda>_.
     bindM (atM replicas 0) (\<lambda>vs.
     bindM (modifyM (\<lambda>s. s\<lparr>buckets := [],
        variable_locators := replicate (length vs) \<lparr>bucket_index = 0, intra_bucket_index = 0\<rparr>\<rparr>)) (\<lambda>_.
     for_each (add_bucket lib) (zip [0..<length bucket_indices] bucket_indices))))))"

section \<open>After a backward pass\<close>

definition grad_from_bucket ::
    "'v tensor_lib \<Rightarrow> nat \<Rightarrow> tensor_ref \<Rightarrow> bool \<Rightarrow> tensor_ref option \<Rightarrow> ('v reducer, bool \<times> tensor_ref option) cmd" where
  "grad_from_bucket lib fmt bucket_view global_unused grad =
     (if global_unused then returnM (False, grad)
      else
        bindM (case grad of
                 Some g \<Rightarrow> returnM g
               | None \<Rightarrow> bindM (new_storage (replicate (t_length bucket_view) (tl_uninit lib))) (\<lambda>i.
                   returnM (bucket_view\<lparr>t_storage := i, t_offset := 0, t_format := fmt\<rparr>))) (\<lambda>g.
        bindM (modifyM (\<lambda>s. write_store g
                 (tl_copy_memory lib (tensor_read (storages s) g) (tensor_read (storages s) bucket_view)) s)) (\<lambda>_.
        returnM (True, Some g))))"

definition copy_bucket_to_grad :: "'v tensor_lib \<Rightarrow> VariableIndex \<Rightarrow> BucketReplica \<Rightarrow> nat \<Rightarrow> bool \<Rightarrow> ('v reducer, unit) cmd" where
  "copy_bucket_to_grad lib v replica i global_unused =
     bindM (liftM (vec_at (br_views_out replica) i)) (\<lambda>bucket_view.
     bindM (variable_at v) (\<lambda>variable.
     Reducer_runGradCallbackForVariable v (grad_from_bucket lib (v_format variable) bucket_view global_unused)))"

definition used_entry :: "nat \<Rightarrow> nat \<Rightarrow> ('v reducer, int) cmd" where
  "used_entry r v = bindM (atM local_used_maps r) (\<lambda>row. liftM (vec_at row v))"

definition wait_used_work :: "'v group \<Rightarrow> ('v reducer, unit) cmd" where
  "wait_used_work grp =
     bindM (getM local_used_work) (\<lambda>w.
       case w of
         None \<Rightarrow> throwM Undefined
       | Some i \<Rightarrow> modifyM (\<lambda>s. s\<lparr>local_used_maps_dev := g_used_reduced grp i\<rparr>))"

definition globally_unused :: "'v group \<Rightarrow> Bucket \<Rightarrow> nat \<Rightarrow> nat \<Rightarrow> ('v reducer, bool) cmd" where
  "globally_unused grp bucket r i =
     bindM (getM find_unused_parameters) (\<lambda>find.
       if \<not> find then returnM False
       else
         bindM (liftM (vec_at (b_variable_indices bucket) i)) (\<lambda>v.
         bindM (used_entry r v) (\<lambda>u.
         bindM (getM local_used_maps_reduced) (\<lambda>reduced.
           if u = 0 \<and> \<not> reduced then
             bindM (wait_used_work grp) (\<lambda>_.
             bindM (modifyM (\<lambda>s. s\<lparr>local_used_maps := local_used_maps_dev s\<rparr>)) (\<lambda>_.
             bindM (used_entry r v) (\<lambda>u'.
             bindM (modifyM (\<lambda>s. s\<lparr>local_used_maps_reduced := True\<rparr>)) (\<lambda>_.
             returnM (u' = 0)))))
           else returnM (u = 0)))))"

definition view_out_callback ::
    "'v tensor_lib \<Rightarrow> tensor_ref \<Rightarrow> bool \<Rightarrow> tensor_ref option \<Rightarrow> ('v reducer, bool \<times> tensor_ref option) cmd" where
  "view_out_callback lib view_in global_unused grad =
     (if global_unused then returnM (False, grad)
      else case grad of
             None \<Rightarrow> returnM (True, Some view_in)
           | Some g \<Rightarrow>
               bindM (modifyM (\<lambda>s. if \<not> is_alias_of g view_in
                  then write_store g (tl_copy lib (tensor_read (storages s) g) (tensor_read (storages s) view_in)) s else s)) (\<lambda>_.
               returnM (True, Some g)))"

definition finalize_variable :: "'v tensor_lib \<Rightarrow> 'v group \<Rightarrow> nat \<Rightarrow> nat \<Rightarrow> nat \<Rightarrow> ('v reducer, unit) cmd" where
  "finalize_variable lib grp b r i =
     bindM (atM buckets b) (\<lambda>bucket.
     bindM (bucket_replica_at b r) (\<lambda>replica.
     bindM (liftM (vec_at (br_variables replica) i)) (\<lambda>v.
     bindM (globally_unused grp bucket r i) (\<lambda>global_unused.
     bindM (getM gradient_as_bucket_view) (\<lambda>view.
       if \<not> view then copy_bucket_to_grad lib v replica i global_unused
       else
         bindM (liftM (vec_at (br_views_out replica) i)) (\<lambda>view_out.
         bindM (liftM (vec_at (br_views_in replica) i)) (\<lambda>view_in.
         bindM (modifyM (\<lambda>s. if \<not> is_alias_of view_in view_out
            then write_store view_in (tl_copy lib (tensor_read (storages s) view_in) (tensor_read (storages s) view_out)) s
            else s)) (\<lambda>_.
         Reducer_runGradCallbackForVariable v (view_out_callback lib view_in global_unused)))))))))"

definition finalize_bucket_dense :: "'v tensor_lib \<Rightarrow> 'v group \<Rightarrow> nat \<Rightarrow> ('v reducer, unit) cmd" where
  "finalize_bucket_dense lib grp b =
     bindM (atM buckets b) (\<lambda>bucket.
     for_each (\<lambda>r.
       bindM (bucket_replica_at b r) (\<lambda>replica.
       for_each (finalize_variable lib grp b r) [0..<length (br_variables replica)]))
     [0..<length (b_replicas bucket)])"

text \<open>The reduction has written its results into the contents of the bucket.\<close>

definition wait_work :: "'v group \<Rightarrow> nat \<Rightarrow> ('v reducer, unit) cmd" where
  "wait_work grp b =
     bindM (atM buckets b) (\<lambda>bucket.
       case b_work bucket of
         None \<Rightarrow> throwM (C10_assert ''Expected bucket.work not to be null. '')
       | Some w \<Rightarrow>
           for_each (\<lambda>(replica, vs). modifyM (\<lambda>s. case br_contents replica of None \<Rightarrow> s | Some t \<Rightarrow> write_store t vs s))
             (zip (b_replicas bucket) (g_allreduced grp w)))"

definition use_hook_result :: "'v tensor_lib \<Rightarrow> nat \<Rightarrow> nat \<times> 'v list \<Rightarrow> ('v reducer, unit) cmd" where
  "use_hook_result lib b ir =
     bindM (atM buckets b) (\<lambda>bucket.
     bindM (bucket_replica_at b (fst ir)) (\<lambda>replica.
       if b_expect_sparse bucket then
         modifyM (\<lambda>s. case br_contents replica of
            None \<Rightarrow> s
          | Some t \<Rightarrow> write_store t (tl_copy lib (tensor_read (storages s) t) (snd ir)) s)
       else
         bindM (new_storage (snd ir)) (\<lambda>i.
         modifyM (upd_replica b (fst ir) (\<lambda>rep. populate_bucket_views_out rep
           ((the (br_contents rep))\<lparr>t_storage := i, t_offset := 0, t_length := length (snd ir)\<rparr>))))))"

definition wait_future_work :: "'v tensor_lib \<Rightarrow> 'v group \<Rightarrow> nat \<Rightarrow> ('v reducer, unit) cmd" where
  "wait_future_work lib grp b =
     bindM (atM buckets b) (\<lambda>bucket.
       case b_future_work bucket of
         None \<Rightarrow> throwM (C10_assert ''Expected bucket.future_work not to be null. '')
       | Some w \<Rightarrow>
           for_each (use_hook_result lib b) (zip [0..<length (g_hook_result grp w)] (g_hook_result grp w)))"

definition finalize_bucket :: "'v tensor_lib \<Rightarrow> 'v group \<Rightarrow> nat \<Rightarrow> ('v reducer, unit) cmd" where
  "finalize_bucket lib grp b =
     bindM (getM comm_hook) (\<lambda>hook.
     bindM (if \<not> hook then wait_work grp b else wait_future_work lib grp b) (\<lambda>_.
     bindM (atM buckets b) (\<lambda>bucket.
       if \<not> b_expect_sparse bucket then finalize_bucket_dense lib grp b else returnM ())))"

definition finalize_backward :: "'v tensor_lib \<Rightarrow> 'v group \<Rightarrow> ('v reducer, unit) cmd" where
  "finalize_backward lib grp =
     bindM (getM expect_autograd_hooks) (\<lambda>expected.
     bindM (checkM expected (C10_assert ''expect_autograd_hooks_'')) (\<lambda>_.
     bindM (modifyM (\<lambda>s. s\<lparr>expect_autograd_hooks := False\<rparr>)) (\<lambda>_.
     bindM (getM require_finalize) (\<lambda>required.
     bindM (checkM required (C10_assert ''require_finalize_'')) (\<lambda>_.
     bindM (modifyM (\<lambda>s. s\<lparr>require_finalize := False, divFactor := kUnsetDivFactor\<rparr>)) (\<lambda>_.
     bindM (getM (\<lambda>s. next_bucket s = length (buckets s))) (\<lambda>complete.
     bindM (checkM complete (C10_assert ''next_bucket_ == buckets_.size()'')) (\<lambda>_.
     bindM (bindM (getM (\<lambda>s. length (buckets s))) (\<lambda>n. for_each (finalize_bucket lib grp) [0..<n])) (\<lambda>_.
     bindM (getM find_unused_parameters) (\<lambda>find.
       if \<not> find then returnM ()
       else
         bindM (modifyM (\<lambda>s. s\<lparr>local_used_maps := map (map (\<lambda>_. 0)) (local_used_maps s)\<rparr>)) (\<lambda>_.
         bindM (getM local_used_maps_reduced) (\<lambda>reduced.
         bindM (if \<not> reduced then wait_used_work grp else returnM ()) (\<lambda>_.
         modifyM (\<lambda>s. s\<lparr>local_used_maps_reduced := False\<rparr>))))))))))))))"

section \<open>Rebuilding the buckets\<close>

definition ensure_prior_reduction_finished :: "('v reducer, unit) cmd" where
  "ensure_prior_reduction_finished =
     bindM (getM require_finalize) (\<lambda>required.
     checkM (\<not> required) (C10_error ''Expected to have finished reduction in the prior iteration before starting a new one. ''))"

definition rebuild_buckets ::
    "'v tensor_lib \<Rightarrow> ((bucket_key \<times> bucket_acc) list \<Rightarrow> (bucket_key \<times> bucket_acc) list) \<Rightarrow> (nat \<Rightarrow> int list \<Rightarrow> int list) \<Rightarrow> bool \<Rightarrow>
     ('v reducer, bool) cmd" where
  "rebuild_buckets lib iter bcast ctx =
     bindM ensure_prior_reduction_finished (\<lambda>_.
     bindM (getM (\<lambda>s. \<not> should_rebuild_buckets s \<or> rebuilt_params s = [])) (\<lambda>skip.
       if skip then returnM False
       else
         bindM (getM rebuilt_params) (\<lambda>params.
         bindM (getM rebuilt_param_indices) (\<lambda>indices.
         bindM (checkM (length params = length indices) (C10_assert ''rebuilt parameter tensors size is not same as rebuilt parameter indices size: '')) (\<lambda>_.
         bindM (atM replicas 0) (\<lambda>vs.
         bindM (checkM (length vs = length indices) (C10_assert ''rebuilt parameter indices size is not same as original model parameters size.'')) (\<lambda>_.
         bindM (getM bucket_bytes_cap) (\<lambda>cap.
         bindM (atM expect_sparse_gradients 0) (\<lambda>sparse.
         bindM (liftM (compute_bucket_assignment_by_size iter (map v_info params)
                  [word_of_int kDefaultFirstBucketBytes, word_of_int cap] sparse indices)) (\<lambda>rebuilt.
         bindM (liftM (sync_bucket_indices bcast rebuilt)) (\<lambda>synced.
         bindM (modifyM (\<lambda>s. s\<lparr>has_rebuilt_bucket := True, rebuilt_params := [], rebuilt_param_indices := []\<rparr>)) (\<lambda>_.
         bindM (initialize_buckets lib ctx synced) (\<lambda>_.
         returnM True)))))))))))))"

section \<open>Communication hooks and accessors\<close>

datatype BuiltinCommHookType = ALLREDUCE | FP16_COMPRESS | UnknownHook

definition check_single :: "('v reducer, unit) cmd" where
  "check_single =
     bindM (getM comm_hook) (\<lambda>hook.
     bindM (checkM (\<not> hook) (C10_error ''can only be called once.'')) (\<lambda>_.
     bindM (getM (\<lambda>s. length (replicas s))) (\<lambda>n.
     checkM (n = 1) (C10_error ''Communication hook does not support single-process multiple-device mode.''))))"

definition register_comm_hook :: "('v reducer, unit) cmd" where
  "register_comm_hook = bindM check_single (\<lambda>_. modifyM (\<lambda>s. s\<lparr>comm_hook := True\<rparr>))"

definition register_builtin_comm_hook :: "BuiltinCommHookType \<Rightarrow> ('v reducer, unit) cmd" where
  "register_builtin_comm_hook ty =
     bindM check_single (\<lambda>_.
       case ty of
         UnknownHook \<Rightarrow> returnM ()
       | _ \<Rightarrow> modifyM (\<lambda>s. s\<lparr>comm_hook := True\<rparr>))"

definition set_forward_pass_work_handle :: "int list \<Rightarrow> bool \<Rightarrow> 'v reducer \<Rightarrow> 'v reducer" where
  "set_forward_pass_work_handle results useStaticWorldSize s = s\<lparr>forwardPassWorkHandle := Some (results, useStaticWorldSize)\<rparr>"

definition get_bucket_tensors :: "'v reducer \<Rightarrow> tensor_ref option list list" where
  "get_bucket_tensors s = map (\<lambda>bucket. map br_contents (b_replicas bucket)) (buckets s)"

section \<open>Construction\<close>

definition verify_variable :: "VariableIndex \<Rightarrow> ('v reducer, unit) cmd" where
  "verify_variable idx =
     bindM (variable_at idx) (\<lambda>v.
     bindM (variable_at (idx\<lparr>replica_index := 0\<rparr>)) (\<lambda>v0.
     bindM (checkM (v_requires_grad v) (C10_error ''Variables must require gradients (have `requires_grad` set).'')) (\<lambda>_.
     bindM (checkM (v_sizes v = v_sizes v0) (C10_error ''Variables across model replicas must have identical sizes.'')) (\<lambda>_.
     bindM (checkM (v_strides v = v_strides v0) (C10_error ''Variables across model replicas must have identical strides.'')) (\<lambda>_.
     bindM (checkM (v_dtype v = v_dtype v0) (C10_error ''Variables across model replicas must have identical dtype.'')) (\<lambda>_.
     bindM (bindM (atM expect_sparse_gradients (replica_index idx)) (\<lambda>row. liftM (vec_at row (variable_index idx)))) (\<lambda>sp.
     bindM (expects_sparse (variable_index idx)) (\<lambda>sp0.
     checkM (sp = sp0) (C10_error ''Expected the same variables across replicas to either both or neither expect a sparse gradient.'')))))))))"

definition verify_replicas_within_process :: "('v reducer, unit) cmd" where
  "verify_replicas_within_process =
     bindM (getM (\<lambda>s. length (replicas s))) (\<lambda>replica_count.
     for_each (\<lambda>r.
       bindM (atM replicas r) (\<lambda>vs.
       bindM (atM replicas 0) (\<lambda>vs0.
       bindM (checkM (length vs = length vs0) (C10_error ''Model replicas must have an equal number of parameters.'')) (\<lambda>_.
       bindM (atM expect_sparse_gradients r) (\<lambda>sp.
       bindM (atM expect_sparse_gradients 0) (\<lambda>sp0.
       bindM (checkM (length sp = length sp0) (C10_error ''Expected number of entries in expect_sparse_gradients to be equal across replicas.'')) (\<lambda>_.
       for_each (\<lambda>v. verify_variable \<lparr>replica_index = r, variable_index = v\<rparr>) [0..<length vs])))))))
     [0..<replica_count])"

text \<open>
  The sizes and strides of the parameters of the first replica, as they are broadcast from
  process 0, and the comparison of the received control data with this process.
\<close>

definition layout_metadata :: "variable list \<Rightarrow> int list" where
  "layout_metadata vs = concat (map (\<lambda>v. v_sizes v @ v_strides v) vs)"

fun check_layouts :: "variable list \<Rightarrow> int list \<Rightarrow> unit res" where
  "check_layouts [] control = Inr ()"
| "check_layouts (v # vs) control =
     (let n = length (v_sizes v); m = length (v_strides v) in
      if take n control \<noteq> v_sizes v then Inl (C10_error '' appears not to match sizes of the same param in process 0.'')
      else if take m (drop n control) \<noteq> v_strides v then Inl (C10_error '' appears not to match strides of the same param in process 0.'')
      else check_layouts vs (drop (n + m) control))"

definition verify_replica0_across_processes :: "(int list \<Rightarrow> int list) \<Rightarrow> ('v reducer, unit) cmd" where
  "verify_replica0_across_processes bcast =
     bindM (atM replicas 0) (\<lambda>vs. liftM (check_layouts vs (bcast (layout_metadata vs))))"

definition map_accumulators :: "(VariableIndex \<Rightarrow> nat) \<Rightarrow> VariableIndex list \<Rightarrow> (nat, VariableIndex list) umap" where
  "map_accumulators acc idxs = fold (\<lambda>i m. AList.update (acc i) (umap_at [] m (acc i) @ [i]) m) idxs []"

definition reducer_blank :: "variable list list \<Rightarrow> bool list list \<Rightarrow> int \<Rightarrow> bool \<Rightarrow> bool \<Rightarrow> int \<Rightarrow> 'v reducer" where
  "reducer_blank rs sparse cap find_unused view now = \<lparr>storages = [], grads = [], ctx_grads = [], rpc_context = False, clock = now,
     replicas = rs, expect_sparse_gradients = sparse, gradAccToVariablesMap = [], expect_autograd_hooks = False,
     require_finalize = False, next_bucket = 0, has_marked_unused_parameters = False, find_unused_parameters = find_unused,
     gradient_as_bucket_view = view, unused_parameters = [], local_used_maps = [], local_used_maps_dev = [],
     local_used_maps_reduced = False, local_used_work = None, buckets = [], variable_locators = [],
     backward_stats_base = 0, backward_stats = [], has_rebuilt_bucket = False, rebuilt_params = [],
     rebuilt_param_indices = [], bucket_bytes_cap = cap, forwardPassWorkHandle = None, divFactor = kUnsetDivFactor,
     comm_hook = False, pg_log = [], finalizers = 0\<rparr>"

definition Reducer_new ::
    "'v tensor_lib \<Rightarrow> (int list \<Rightarrow> int list) \<Rightarrow> (VariableIndex \<Rightarrow> nat) \<Rightarrow> bool \<Rightarrow> nat list list \<Rightarrow> ('v reducer, unit) cmd" where
  "Reducer_new lib bcast acc ctx bucket_indices =
     bindM (getM (\<lambda>s. length (replicas s))) (\<lambda>replica_count.
     bindM (checkM (1 \<le> replica_count) (C10_error ''Expected at least one model replica.'')) (\<lambda>_.
     bindM (atM replicas 0) (\<lambda>vs0.
     bindM (checkM (1 \<le> length vs0) (C10_error ''Expected at least one parameter.'')) (\<lambda>_.
     bindM (modifyM (\<lambda>s. if expect_sparse_gradients s = []
        then s\<lparr>expect_sparse_gradients := replicate replica_count (replicate (length vs0) False)\<rparr> else s)) (\<lambda>_.
     bindM (getM (\<lambda>s. length (expect_sparse_gradients s))) (\<lambda>n.
     bindM (checkM (n = replica_count) (C10_assert ''expect_sparse_gradients_.size() == replicas_.size()'')) (\<lambda>_.
     bindM verify_replicas_within_process (\<lambda>_.
     bindM (verify_replica0_across_processes bcast) (\<lambda>_.
     bindM (initialize_buckets lib ctx bucket_indices) (\<lambda>_.
     modifyM (\<lambda>s. s\<lparr>
       gradAccToVariablesMap := (if find_unused_parameters s then map_accumulators acc (all_indices s) else []),
       backward_stats := replicate replica_count (replicate (length vs0) 0),
       local_used_maps := (if find_unused_parameters s then replicate replica_count (replicate (length vs0) 0) else []),
       local_used_maps_dev := (if find_unused_parameters s then replicate replica_count (replicate (length vs0) 0) else [])\<rparr>)))))))))))"

end
