(* ===== verification/Reducer_Order.thy ===== *)
theory Reducer_Order
  imports Reducer
begin

text \<open>
  The order in which the reducer hands its buckets to the process group. The abstract scheduler
  keeps only the set of variables that are ready; the buckets it has launched are the longest prefix
  of complete buckets. The counters of the reducer implement it: every successful
  \<^verbatim>\<open>mark_variable_ready\<close> of a variable that was not ready launches exactly the buckets by which
  that prefix grows, in order, and queues the finalizer exactly when the last bucket is launched.
\<close>

section \<open>The abstract scheduler\<close>

abbreviation var_at :: "nat \<Rightarrow> nat \<Rightarrow> VariableIndex" where
  "var_at r v \<equiv> \<lparr>replica_index = r, variable_index = v\<rparr>"

definition complete :: "nat \<Rightarrow> VariableIndex set \<Rightarrow> nat list \<Rightarrow> bool" where
  "complete R M vs \<longleftrightarrow> (\<forall>r<R. \<forall>v\<in>set vs. var_at r v \<in> M)"

definition launched :: "nat \<Rightarrow> VariableIndex set \<Rightarrow> nat list list \<Rightarrow> nat" where
  "launched R M bs = length (takeWhile (complete R M) bs)"

section \<open>The accounting part of the state\<close>

fun req_bucket :: "'v request \<Rightarrow> nat option" where
  "req_bucket (Allreduce b ts) = Some b"
| "req_bucket (RunHook b ts os ls szs) = Some b"
| "req_bucket (AllreduceUsed m) = None"

definition acct_bucket :: "Bucket \<Rightarrow> (VariableIndex list \<times> nat) list \<times> nat list \<times> nat" where
  "acct_bucket bk = (map (\<lambda>r. (br_variables r, br_pending r)) (b_replicas bk), b_variable_indices bk, b_pending bk)"

definition acct where
  "acct s = (map acct_bucket (buckets s), next_bucket s, variable_locators s, replicas s,
     map req_bucket (pg_log s), finalizers s, find_unused_parameters s, expect_autograd_hooks s,
     has_marked_unused_parameters s, unused_parameters s, forwardPassWorkHandle s)"

lemma acct_eqD:
  assumes "acct s' = acct s"
  shows "map acct_bucket (buckets s') = map acct_bucket (buckets s)" "next_bucket s' = next_bucket s"
    "variable_locators s' = variable_locators s" "replicas s' = replicas s"
    "map req_bucket (pg_log s') = map req_bucket (pg_log s)" "finalizers s' = finalizers s"
    "find_unused_parameters s' = find_unused_parameters s" "expect_autograd_hooks s' = expect_autograd_hooks s"
    "has_marked_unused_parameters s' = has_marked_unused_parameters s" "unused_parameters s' = unused_parameters s"
    "length (buckets s') = length (buckets s)" "forwardPassWorkHandle s' = forwardPassWorkHandle s"
  using assms by (auto simp: acct_def dest: map_eq_imp_length_eq)

lemma acct_write_store [simp]: "acct (write_store t vs s) = acct s"
  by (simp add: acct_def write_store_def)

lemma acct_fields [simp]:
  "acct (s\<lparr>storages := a\<rparr>) = acct s" "acct (s\<lparr>grads := b\<rparr>) = acct s" "acct (s\<lparr>ctx_grads := b\<rparr>) = acct s"
  "acct (s\<lparr>divFactor := d\<rparr>) = acct s" "acct (s\<lparr>require_finalize := f\<rparr>) = acct s"
  "acct (s\<lparr>backward_stats := bs\<rparr>) = acct s" "acct (s\<lparr>rebuilt_params := rp\<rparr>) = acct s"
  "acct (s\<lparr>rebuilt_param_indices := ri\<rparr>) = acct s" "acct (s\<lparr>local_used_maps := lm\<rparr>) = acct s"
  by (simp_all add: acct_def)

lemma keepsM_prod [intro]: "(\<And>a b. keepsM f (k a b)) \<Longrightarrow> keepsM f (case p of (a, b) \<Rightarrow> k a b)"
  by (simp split: prod.split)

lemma keepsM_atM [intro]: "keepsM f (atM sel i)"
  unfolding atM_def by blast

lemma keepsM_new_storage [intro]: "keepsM acct (new_storage vs)"
  by (simp add: keepsM_def new_storage_def)

lemma keepsM_locate [intro]: "keepsM f (locate i)"
  unfolding locate_def by blast

lemma keepsM_replica_at [intro]: "keepsM f (bucket_replica_at b r)"
  unfolding bucket_replica_at_def by blast

lemma keepsM_variable_at [intro]: "keepsM f (variable_at v)"
  unfolding variable_at_def by blast

lemma acct_sparse_contents [simp]:
  "acct (upd_replica b r (\<lambda>rep. rep\<lparr>br_contents := c\<rparr>) s) = acct s"
proof -
  have "acct_bucket (bk\<lparr>b_replicas := (b_replicas bk)[r := (b_replicas bk ! r)\<lparr>br_contents := c\<rparr>]\<rparr>) = acct_bucket bk" for bk
    by (simp add: acct_bucket_def map_update_same)
  then show ?thesis by (simp add: acct_def upd_replica_def upd_bucket_def map_update_same)
qed

lemma keepsM_runGrad [intro]:
  "(\<And>g. keepsM acct (cb g)) \<Longrightarrow> keepsM acct (Reducer_runGradCallbackForVariable v cb)"
  unfolding Reducer_runGradCallbackForVariable_def by (intro keepsM_bind keepsM_I keepsM_if keepsM_option keepsM_prod keepsM_modify)
    (auto split: option.splits)

lemma keepsM_dense [intro]: "keepsM acct (mark_variable_ready_dense lib i)"
  unfolding mark_variable_ready_dense_def dense_callback_def check_grad_layout_def copy_grad_to_bucket_def format_casted_def
  by (intro keepsM_bind keepsM_I keepsM_if keepsM_option keepsM_modify keepsM_locate keepsM_replica_at keepsM_variable_at
      keepsM_runGrad keepsM_new_storage)
    (auto simp: Let_def)

lemma keepsM_sparse [intro]: "keepsM acct (mark_variable_ready_sparse lib i)"
  unfolding mark_variable_ready_sparse_def sparse_callback_def
  by (intro keepsM_bind keepsM_I keepsM_if keepsM_option keepsM_modify keepsM_locate keepsM_replica_at keepsM_variable_at
      keepsM_runGrad) auto

lemma keepsM_div_factor [intro]: "keepsM acct (set_div_factor grp)"
  unfolding set_div_factor_def
  by (intro keepsM_bind keepsM_I keepsM_if keepsM_option keepsM_prod keepsM_modify) auto

lemma keepsM_push [intro]: "keepsM acct (push_rebuilt_params i)"
  unfolding push_rebuilt_params_def
  by (intro keepsM_bind keepsM_I keepsM_if keepsM_modify keepsM_variable_at) auto

section \<open>What the counters mean\<close>

text \<open>
  The layout: every bucket has one replica per model replica, the locators and the buckets agree,
  and every variable is in some bucket.
\<close>

definition bucket_layout :: "nat \<Rightarrow> VariableLocator list \<Rightarrow> nat \<Rightarrow> Bucket \<Rightarrow> bool" where
  "bucket_layout R locators b bk \<longleftrightarrow> b_variable_indices bk \<noteq> [] \<and>
     map br_variables (b_replicas bk) = map (\<lambda>r. map (var_at r) (b_variable_indices bk)) [0..<R] \<and>
     (\<forall>j<length (b_variable_indices bk). b_variable_indices bk ! j < length locators \<and>
        locators ! (b_variable_indices bk ! j) = \<lparr>bucket_index = b, intra_bucket_index = j\<rparr>)"

definition layout_ok :: "'v reducer \<Rightarrow> bool" where
  "layout_ok s \<longleftrightarrow>
     (\<forall>b<length (buckets s). bucket_layout (length (replicas s)) (variable_locators s) b (buckets s ! b)) \<and>
     (\<forall>v<length (variable_locators s). bucket_index (variable_locators s ! v) < length (buckets s) \<and>
        v \<in> set (b_variable_indices (buckets s ! bucket_index (variable_locators s ! v))))"

definition missing :: "VariableIndex set \<Rightarrow> nat \<Rightarrow> nat list \<Rightarrow> nat" where
  "missing M r vs = length (filter (\<lambda>v. var_at r v \<notin> M) vs)"

text \<open>The pending counters of a bucket agree with the set \<open>M\<close> of ready variables.\<close>

definition bucket_counts :: "nat \<Rightarrow> VariableIndex set \<Rightarrow> Bucket \<Rightarrow> bool" where
  "bucket_counts R M bk \<longleftrightarrow>
     map br_pending (b_replicas bk) = map (\<lambda>r. missing M r (b_variable_indices bk)) [0..<R] \<and>
     b_pending bk = length (filter (\<lambda>r. missing M r (b_variable_indices bk) \<noteq> 0) [0..<R])"

definition tracks :: "VariableIndex set \<Rightarrow> 'v reducer \<Rightarrow> bool" where
  "tracks M s \<longleftrightarrow> layout_ok s \<and> (\<forall>b<length (buckets s). bucket_counts (length (replicas s)) M (buckets s ! b)) \<and>
     next_bucket s = launched (length (replicas s)) M (map b_variable_indices (buckets s))"

lemma missing_0: "missing M r vs = 0 \<longleftrightarrow> (\<forall>v\<in>set vs. var_at r v \<in> M)"
  by (auto simp: missing_def filter_empty_conv)

lemma counts_complete: "bucket_counts R M bk \<Longrightarrow> b_pending bk = 0 \<longleftrightarrow> complete R M (b_variable_indices bk)"
  by (auto simp: bucket_counts_def filter_empty_conv complete_def missing_0)

lemma acct_bucket_eqD:
  assumes "acct_bucket bk' = acct_bucket bk"
  shows "b_variable_indices bk' = b_variable_indices bk" "b_pending bk' = b_pending bk"
    "map br_variables (b_replicas bk') = map br_variables (b_replicas bk)"
    "map br_pending (b_replicas bk') = map br_pending (b_replicas bk)"
proof -
  have m: "map (\<lambda>r. (br_variables r, br_pending r)) (b_replicas bk') = map (\<lambda>r. (br_variables r, br_pending r)) (b_replicas bk)"
    using assms by (simp add: acct_bucket_def)
  show "map br_variables (b_replicas bk') = map br_variables (b_replicas bk)"
    "map br_pending (b_replicas bk') = map br_pending (b_replicas bk)"
    using arg_cong [OF m, of "map fst"] arg_cong [OF m, of "map snd"] by (simp_all add: comp_def)
qed (use assms in \<open>auto simp: acct_bucket_def\<close>)

lemma acct_nth: "acct s' = acct s \<Longrightarrow> b < length (buckets s) \<Longrightarrow> acct_bucket (buckets s' ! b) = acct_bucket (buckets s ! b)"
  using acct_eqD(1,11) by (metis nth_map)

lemma map_indices_acct: "map acct_bucket bs' = map acct_bucket bs \<Longrightarrow> map b_variable_indices bs' = map b_variable_indices bs"
proof -
  assume "map acct_bucket bs' = map acct_bucket bs"
  then have "map (\<lambda>x. fst (snd x)) (map acct_bucket bs') = map (\<lambda>x. fst (snd x)) (map acct_bucket bs)" by simp
  then show ?thesis by (simp add: acct_bucket_def comp_def)
qed

lemma layout_ok_acct:
  assumes eq: "acct s' = acct s" and l: "layout_ok s"
  shows "layout_ok s'"
proof -
  note e = acct_eqD [OF eq] and n = acct_bucket_eqD [OF acct_nth [OF eq]]
  have "bucket_layout (length (replicas s')) (variable_locators s') b (buckets s' ! b)" if "b < length (buckets s)" for b
    using l that unfolding layout_ok_def bucket_layout_def e by (simp add: n [OF that])
  moreover have "v \<in> set (b_variable_indices (buckets s' ! b))"
    if "b < length (buckets s)" "v \<in> set (b_variable_indices (buckets s ! b))" for v b
    using that n(1) by simp
  ultimately show ?thesis using l unfolding layout_ok_def e by blast
qed

lemma tracks_acct:
  assumes eq: "acct s' = acct s" and t: "tracks M s"
  shows "tracks M s'"
proof -
  note e = acct_eqD [OF eq] and n = acct_bucket_eqD [OF acct_nth [OF eq]]
  have "bucket_counts (length (replicas s')) M (buckets s' ! b)" if "b < length (buckets s)" for b
    using t that unfolding tracks_def bucket_counts_def e by (simp add: n [OF that])
  then show ?thesis
    using t layout_ok_acct [OF eq] map_indices_acct [OF e(1)] unfolding tracks_def e by simp
qed

section \<open>Launching buckets\<close>

text \<open>The part of the state that launching leaves alone.\<close>

definition acct_static where
  "acct_static s = (map acct_bucket (buckets s), variable_locators s, replicas s, finalizers s, find_unused_parameters s,
     expect_autograd_hooks s, has_marked_unused_parameters s, unused_parameters s, forwardPassWorkHandle s)"

lemma acct_static_acct: "acct s' = acct s \<Longrightarrow> acct_static s' = acct_static s"
  by (simp add: acct_def acct_static_def)

lemma acct_bucket_work [simp]:
  "acct_bucket (bk\<lparr>b_work := w\<rparr>) = acct_bucket bk" "acct_bucket (bk\<lparr>b_future_work := w\<rparr>) = acct_bucket bk"
  by (simp_all add: acct_bucket_def)

lemma launch_bucket_effect:
  "acct_static (launch_bucket b s) = acct_static s" "next_bucket (launch_bucket b s) = next_bucket s"
  "map req_bucket (pg_log (launch_bucket b s)) = map req_bucket (pg_log s) @ [Some b]"
  by (simp_all add: launch_bucket_def Let_def upd_bucket_def acct_static_def map_update_same)

lemma acct_static_next [simp]: "acct_static (s\<lparr>next_bucket := n\<rparr>) = acct_static s"
  by (simp add: acct_static_def)

lemma acct_static_pending:
  assumes "acct_static s' = acct_static s"
  shows "length (buckets s') = length (buckets s)" "map b_pending (buckets s') = map b_pending (buckets s)"
    "map b_variable_indices (buckets s') = map b_variable_indices (buckets s)"
proof -
  have m: "map acct_bucket (buckets s') = map acct_bucket (buckets s)" using assms by (simp add: acct_static_def)
  then show "length (buckets s') = length (buckets s)" by (rule map_eq_imp_length_eq)
  show "map b_variable_indices (buckets s') = map b_variable_indices (buckets s)" by (rule map_indices_acct [OF m])
  from arg_cong [OF m, of "map (\<lambda>x. snd (snd x))"] show "map b_pending (buckets s') = map b_pending (buckets s)"
    by (simp add: acct_bucket_def comp_def)
qed

text \<open>From bucket \<open>next_bucket\<close> on, the complete buckets are launched until the first incomplete one.\<close>

lemma launch_ready_effect:
  assumes "next_bucket s \<le> length (buckets s)" and "k = length (buckets s) - next_bucket s"
  shows "acct_static (launch_ready k s) = acct_static s"
    and "next_bucket (launch_ready k s) = next_bucket s + length (takeWhile (\<lambda>n. n = 0) (drop (next_bucket s) (map b_pending (buckets s))))"
    and "map req_bucket (pg_log (launch_ready k s)) = map req_bucket (pg_log s) @ map Some [next_bucket s..<next_bucket (launch_ready k s)]"
proof -
  have "acct_static (launch_ready k s) = acct_static s \<and>
    next_bucket (launch_ready k s) = next_bucket s + length (takeWhile (\<lambda>n. n = 0) (drop (next_bucket s) (map b_pending (buckets s)))) \<and>
    map req_bucket (pg_log (launch_ready k s)) = map req_bucket (pg_log s) @ map Some [next_bucket s..<next_bucket (launch_ready k s)]"
    using assms
  proof (induction k arbitrary: s)
    case 0
    then show ?case by simp
  next
    case (Suc k)
    let ?n = "next_bucket s" and ?s = "(launch_bucket (next_bucket s) s)\<lparr>next_bucket := Suc (next_bucket s)\<rparr>"
    have n: "?n < length (buckets s)" using Suc.prems by simp
    then have d: "drop ?n (map b_pending (buckets s)) = b_pending (buckets s ! ?n) # drop (Suc ?n) (map b_pending (buckets s))"
      by (metis Cons_nth_drop_Suc length_map nth_map)
    show ?case
    proof (cases "b_pending (buckets s ! ?n) = 0")
      case True
      have st: "acct_static ?s = acct_static s" using launch_bucket_effect by simp
      note p = acct_static_pending [OF st]
      have le: "next_bucket ?s \<le> length (buckets ?s)" and kk: "k = length (buckets ?s) - next_bucket ?s"
        using Suc.prems(2) n p(1) by simp_all
      have IH: "acct_static (launch_ready k ?s) = acct_static ?s"
        "next_bucket (launch_ready k ?s) = Suc ?n + length (takeWhile (\<lambda>n. n = 0) (drop (Suc ?n) (map b_pending (buckets s))))"
        "map req_bucket (pg_log (launch_ready k ?s)) = map req_bucket (pg_log ?s) @ map Some [Suc ?n..<next_bucket (launch_ready k ?s)]"
        using Suc.IH [OF le kk] p(2) by simp_all
      have "launch_ready (Suc k) s = launch_ready k ?s" using True n by simp
      moreover have "[?n..<next_bucket (launch_ready k ?s)] = ?n # [Suc ?n..<next_bucket (launch_ready k ?s)]"
        unfolding IH(2) by (rule upt_conv_Cons) simp
      ultimately show ?thesis
        using IH(1,3) st launch_bucket_effect(3) [of ?n s] by (simp add: IH(2) d True del: launch_ready.simps upt_Suc)
    next
      case False
      then show ?thesis using d by simp
    qed
  qed
  then show "acct_static (launch_ready k s) = acct_static s"
    and "next_bucket (launch_ready k s) = next_bucket s + length (takeWhile (\<lambda>n. n = 0) (drop (next_bucket s) (map b_pending (buckets s))))"
    and "map req_bucket (pg_log (launch_ready k s)) = map req_bucket (pg_log s) @ map Some [next_bucket s..<next_bucket (launch_ready k s)]"
    by auto
qed

lemma takeWhile_from_prefix:
  assumes "n \<le> length (takeWhile P xs)"
  shows "n + length (takeWhile P (drop n xs)) = length (takeWhile P xs)"
  using assms
proof (induction n arbitrary: xs)
  case (Suc n)
  then obtain x ys where "xs = x # ys" "P x" by (cases xs) (auto split: if_splits)
  with Suc show ?case by simp
qed simp

lemma launched_le: "launched R M bs \<le> length bs"
  by (simp add: launched_def length_takeWhile_le)

lemma launched_mono: "M \<subseteq> M' \<Longrightarrow> launched R M bs \<le> launched R M' bs"
proof -
  assume "M \<subseteq> M'"
  then have "complete R M vs \<Longrightarrow> complete R M' vs" for vs by (auto simp: complete_def)
  then show ?thesis unfolding launched_def by (induction bs) auto
qed

lemma launched_complete: "b < launched R M bs \<Longrightarrow> complete R M (bs ! b)"
  by (metis launched_def nth_mem set_takeWhileD takeWhile_nth)

section \<open>Counting down\<close>

definition counted_down :: "nat \<Rightarrow> Bucket \<Rightarrow> Bucket" where
  "counted_down r bk =
     (let p = br_pending (b_replicas bk ! r) - 1;
          bk1 = bk\<lparr>b_replicas := (b_replicas bk)[r := (b_replicas bk ! r)\<lparr>br_pending := p\<rparr>]\<rparr>
      in if p = 0 then bk1\<lparr>b_pending := b_pending bk1 - 1\<rparr> else bk1)"

lemma count_down_alt:
  assumes "b < length (buckets s)" and "r < length (b_replicas (buckets s ! b))"
  shows "count_down b r s =
     (let bk = counted_down r (buckets s ! b); s2 = s\<lparr>buckets := (buckets s)[b := bk]\<rparr>
      in if br_pending (b_replicas bk ! r) = 0 \<and> b_pending bk = 0 then mark_bucket_ready b s2 else (Inr (), s2))"
  using assms
  by (simp add: count_down_def counted_down_def bindM_def upd_replica_def upd_bucket_def bucket_replica_at_def atM_def vec_at_def Let_def)

lemma missing_insert:
  assumes "distinct vs" and "v \<in> set vs" and "var_at r v \<notin> M"
  shows "missing (insert (var_at r v) M) r vs = missing M r vs - 1" "0 < missing M r vs"
proof -
  have "filter (\<lambda>u. var_at r u \<notin> insert (var_at r v) M) vs = removeAll v (filter (\<lambda>u. var_at r u \<notin> M) vs)"
    by (auto simp: removeAll_filter_not_eq intro!: filter_cong)
  moreover have m: "v \<in> set (filter (\<lambda>u. var_at r u \<notin> M) vs)" using assms by simp
  ultimately show "missing (insert (var_at r v) M) r vs = missing M r vs - 1"
    using assms(1) unfolding missing_def by (simp add: distinct_remove1_removeAll [symmetric] length_remove1)
  show "0 < missing M r vs" unfolding missing_def using m by (rule length_pos_if_in_set)
qed

lemma missing_other: "r' \<noteq> r \<or> v \<notin> set vs \<Longrightarrow> missing (insert (var_at r v) M) r' vs = missing M r' vs"
  unfolding missing_def by (rule arg_cong [of _ _ length], rule filter_cong) auto

lemma filter_drop_one:
  assumes "distinct xs" and "x \<in> set xs" and "P x" and "\<not> Q x" and "\<And>y. y \<in> set xs \<Longrightarrow> y \<noteq> x \<Longrightarrow> Q y = P y"
  shows "length (filter Q xs) = length (filter P xs) - 1"
proof -
  have "filter Q xs = removeAll x (filter P xs)"
    unfolding removeAll_filter_not_eq filter_filter by (rule filter_cong) (use assms in auto)
  then show ?thesis using assms by (simp add: distinct_remove1_removeAll [symmetric] length_remove1)
qed

lemma counted_down_counts:
  assumes c: "bucket_counts R M bk" and d: "distinct (b_variable_indices bk)" and v: "v \<in> set (b_variable_indices bk)"
    and r: "r < R" and new: "var_at r v \<notin> M"
  shows "bucket_counts R (insert (var_at r v) M) (counted_down r bk)"
    and "br_pending (b_replicas (counted_down r bk) ! r) = missing (insert (var_at r v) M) r (b_variable_indices bk)"
proof -
  let ?vs = "b_variable_indices bk" and ?M = "insert (var_at r v) M"
  have p: "map br_pending (b_replicas bk) = map (\<lambda>r. missing M r ?vs) [0..<R]"
    and bp: "b_pending bk = length (filter (\<lambda>r. missing M r ?vs \<noteq> 0) [0..<R])" using c by (auto simp: bucket_counts_def)
  have len: "length (b_replicas bk) = R" using arg_cong [OF p, of length] by simp
  have pr: "br_pending (b_replicas bk ! r) = missing M r ?vs"
    using arg_cong [OF p, of "\<lambda>xs. xs ! r"] r len by simp
  note mi = missing_insert [OF d v new]
  have pr': "br_pending (b_replicas bk ! r) - 1 = missing ?M r ?vs" using pr mi(1) by simp
  have "map br_pending ((b_replicas bk)[r := (b_replicas bk ! r)\<lparr>br_pending := missing ?M r ?vs\<rparr>]) = map (\<lambda>r. missing ?M r ?vs) [0..<R]"
  proof (rule nth_equalityI)
    fix i assume "i < length (map br_pending ((b_replicas bk)[r := (b_replicas bk ! r)\<lparr>br_pending := missing ?M r ?vs\<rparr>]))"
    then have i: "i < R" using len by simp
    then have "br_pending (b_replicas bk ! i) = missing M i ?vs" using arg_cong [OF p, of "\<lambda>xs. xs ! i"] len by simp
    then show "map br_pending ((b_replicas bk)[r := (b_replicas bk ! r)\<lparr>br_pending := missing ?M r ?vs\<rparr>]) ! i = map (\<lambda>r. missing ?M r ?vs) [0..<R] ! i"
      using i r len by (cases "i = r") (simp_all add: missing_other)
  qed (simp add: len)
  moreover have "length (filter (\<lambda>r. missing ?M r ?vs \<noteq> 0) [0..<R])
      = (if missing ?M r ?vs = 0 then b_pending bk - 1 else b_pending bk)"
  proof (cases "missing ?M r ?vs = 0")
    case True
    have "length (filter (\<lambda>r. missing ?M r ?vs \<noteq> 0) [0..<R]) = length (filter (\<lambda>r. missing M r ?vs \<noteq> 0) [0..<R]) - 1"
      by (rule filter_drop_one [where x = r]) (use r mi True in \<open>auto simp: missing_other\<close>)
    then show ?thesis using True bp by simp
  next
    case False
    then have "missing ?M r' ?vs \<noteq> 0 \<longleftrightarrow> missing M r' ?vs \<noteq> 0" for r'
      using mi by (cases "r' = r") (auto simp: missing_other)
    then show ?thesis by (subst if_not_P [OF False]) (simp add: bp)
  qed
  ultimately show "bucket_counts R ?M (counted_down r bk)"
    unfolding counted_down_def pr' Let_def bucket_counts_def by (cases "missing ?M r ?vs = 0") simp_all
  show "br_pending (b_replicas (counted_down r bk) ! r) = missing ?M r ?vs"
    using len r unfolding counted_down_def pr' Let_def by simp
qed

lemma layout_distinct:
  assumes "bucket_layout R locs b bk"
  shows "distinct (b_variable_indices bk)"
proof (unfold distinct_conv_nth, intro allI impI)
  fix i j assume "i < length (b_variable_indices bk)" "j < length (b_variable_indices bk)" "i \<noteq> j"
  with assms show "b_variable_indices bk ! i \<noteq> b_variable_indices bk ! j"
    unfolding bucket_layout_def by (metis VariableLocator.select_convs(2))
qed

lemma layout_replicas: "bucket_layout R locs b bk \<Longrightarrow> length (b_replicas bk) = R"
  unfolding bucket_layout_def by (metis diff_zero length_map length_upt)

lemma takeWhile_length_cong:
  "length xs = length ys \<Longrightarrow> \<forall>i<length xs. P (xs ! i) = Q (ys ! i) \<Longrightarrow> length (takeWhile P xs) = length (takeWhile Q ys)"
proof (induction xs ys rule: list_induct2)
  case (Cons x xs y ys)
  have "P x = Q y" using Cons.prems [rule_format, of 0] by simp
  moreover have "\<forall>i<length xs. P (xs ! i) = Q (ys ! i)" using Cons.prems [rule_format, of "Suc _"] by simp
  ultimately show ?case using Cons.IH by simp
qed simp

lemma layout_bucket_of:
  assumes "layout_ok s" and "b < length (buckets s)" and "v \<in> set (b_variable_indices (buckets s ! b))"
  shows "bucket_index (variable_locators s ! v) = b" "v < length (variable_locators s)"
  using assms unfolding layout_ok_def bucket_layout_def by (auto simp: in_set_conv_nth)

lemma layout_ok_upd:
  assumes "layout_ok s" and "b < length (buckets s)" and "b_variable_indices bk = b_variable_indices (buckets s ! b)"
    and "map br_variables (b_replicas bk) = map br_variables (b_replicas (buckets s ! b))"
  shows "layout_ok (s\<lparr>buckets := (buckets s)[b := bk]\<rparr>)"
  using assms unfolding layout_ok_def bucket_layout_def by (auto simp: nth_list_update)

lemma counted_down_same [simp]:
  "b_variable_indices (counted_down r bk) = b_variable_indices bk"
  "map br_variables (b_replicas (counted_down r bk)) = map br_variables (b_replicas bk)"
  by (simp_all add: counted_down_def Let_def map_update_same)

text \<open>Fields that marking a variable leaves alone.\<close>

definition acct_rest where
  "acct_rest s = (map b_variable_indices (buckets s), variable_locators s, replicas s, find_unused_parameters s,
     expect_autograd_hooks s, has_marked_unused_parameters s, unused_parameters s, forwardPassWorkHandle s)"

lemma acct_rest_static: "acct_static s' = acct_static s \<Longrightarrow> acct_rest s' = acct_rest s \<and> finalizers s' = finalizers s"
  using acct_static_pending(3) [of s' s] by (simp add: acct_static_def acct_rest_def)

lemma tracks_static:
  fixes s s' :: "'v reducer"
  assumes t: "acct_static s' = acct_static s" and l: "layout_ok s"
    and c: "\<forall>b<length (buckets s). bucket_counts (length (replicas s)) M (buckets s ! b)"
    and n: "next_bucket s' = launched (length (replicas s)) M (map b_variable_indices (buckets s))"
  shows "tracks M s'"
proof -
  let ?s = "s\<lparr>next_bucket := next_bucket s', pg_log := pg_log s'\<rparr>"
  have "acct s' = acct ?s" using t by (simp add: acct_def acct_static_def)
  moreover have "tracks M ?s" using l c n by (simp add: tracks_def layout_ok_def)
  ultimately show ?thesis by (rule tracks_acct)
qed

lemma tracks_count_down:
  assumes t: "tracks M s" and r: "r < length (replicas s)" and v: "v < length (variable_locators s)"
    and new: "var_at r v \<notin> M" and b: "b = bucket_index (variable_locators s ! v)"
  obtains s' where "count_down b r s = (Inr (), s')" "tracks (insert (var_at r v) M) s'"
    "map req_bucket (pg_log s') = map req_bucket (pg_log s) @ map Some [next_bucket s..<next_bucket s']"
    "acct_rest s' = acct_rest s" "finalizers s' = finalizers s"
proof -
  let ?M = "insert (var_at r v) M" and ?R = "length (replicas s)" and ?bk = "buckets s ! b"
  let ?bk' = "counted_down r ?bk" and ?bs = "map b_variable_indices (buckets s)"
  let ?s2 = "s\<lparr>buckets := (buckets s)[b := ?bk']\<rparr>"
  have l: "layout_ok s" and nb: "next_bucket s = launched ?R M ?bs" using t by (auto simp: tracks_def)
  have bl: "b < length (buckets s)" and vin: "v \<in> set (b_variable_indices ?bk)" using l v b by (auto simp: layout_ok_def)
  have lay: "bucket_layout ?R (variable_locators s) b ?bk" using l bl by (simp add: layout_ok_def)
  have rl: "r < length (b_replicas ?bk)"
    using r layout_replicas [OF lay] by simp
  have "bucket_counts ?R M ?bk" using t bl by (simp add: tracks_def)
  note cd = counted_down_counts [OF this layout_distinct [OF lay] vin r new]
  have idx: "map b_variable_indices (buckets ?s2) = ?bs" by (simp add: map_update_same)
  have l2: "layout_ok ?s2" by (rule layout_ok_upd [OF l bl]) simp_all
  have c2: "bucket_counts ?R ?M (buckets ?s2 ! b')" if "b' < length (buckets ?s2)" for b'
  proof (cases "b' = b")
    case True
    then show ?thesis using cd(1) bl by simp
  next
    case False
    then have "v \<notin> set (b_variable_indices (buckets s ! b'))" using layout_bucket_of(1) [OF l, of b' v] that b by auto
    then show ?thesis using False that t by (simp add: tracks_def bucket_counts_def missing_other)
  qed
  have ready: "br_pending (b_replicas ?bk' ! r) = 0 \<and> b_pending ?bk' = 0 \<longleftrightarrow> complete ?R ?M (b_variable_indices ?bk)"
    using counts_complete [OF cd(1)] cd(2) r by (auto simp: complete_def missing_0)
  have incomplete: "\<not> complete ?R M (?bs ! b)" using vin r new bl by (auto simp: complete_def)
  then have nbl: "next_bucket s \<le> b" using launched_complete [of b ?R M ?bs] nb by linarith
  have mono: "launched ?R M ?bs \<le> launched ?R ?M ?bs" by (rule launched_mono) auto
  note cda = count_down_alt [OF bl rl, unfolded Let_def]
  show thesis
  proof (cases "complete ?R ?M (b_variable_indices ?bk) \<and> next_bucket s = b")
    case True
    let ?s' = "launch_ready (length (buckets ?s2) - next_bucket ?s2) ?s2"
    have le: "next_bucket ?s2 \<le> length (buckets ?s2)" using True bl by simp
    note lr = launch_ready_effect [OF le refl]
    have pend: "map b_pending (buckets ?s2) ! i = 0 \<longleftrightarrow> complete ?R ?M (?bs ! i)" if "i < length (buckets s)" for i
      using counts_complete [OF c2, of i] that by (cases "i = b") (simp_all add: idx [symmetric])
    have tw: "length (takeWhile (\<lambda>n. n = 0) (map b_pending (buckets ?s2))) = launched ?R ?M ?bs"
      unfolding launched_def by (rule takeWhile_length_cong) (use pend in auto)
    have nx: "next_bucket ?s' = launched ?R ?M ?bs"
      using lr(2) takeWhile_from_prefix [of "next_bucket s" "\<lambda>n. n = 0" "map b_pending (buckets ?s2)"]
        mono nb tw by auto
    have "tracks ?M ?s'"
      by (rule tracks_static [OF lr(1) l2]) (use c2 nx idx in auto)
    moreover have "count_down b r s = (Inr (), ?s')"
      unfolding cda using True ready by (simp add: mark_bucket_ready_def bindM_def)
    moreover have "acct_rest ?s' = acct_rest s" "finalizers ?s' = finalizers s"
      using acct_rest_static [OF lr(1)] idx by (auto simp: acct_rest_def)
    ultimately show thesis using that lr(3) by simp
  next
    case False
    have "launched ?R ?M ?bs = next_bucket s"
    proof (rule ccontr)
      assume "launched ?R ?M ?bs \<noteq> next_bucket s"
      then have lt: "next_bucket s < launched ?R ?M ?bs" using mono nb by auto
      then have nl: "next_bucket s < length (buckets s)" using launched_le [of ?R ?M ?bs] by simp
      have c: "complete ?R ?M (?bs ! next_bucket s)" by (rule launched_complete [OF lt])
      have nc: "\<not> complete ?R M (?bs ! next_bucket s)"
        using nth_length_takeWhile [of "complete ?R M" ?bs] nl nb by (simp add: launched_def)
      then have "v \<in> set (b_variable_indices (buckets s ! next_bucket s))"
        using c nl by (auto simp: complete_def)
      then have "next_bucket s = b" using layout_bucket_of(1) [OF l nl] b by simp
      then show False using False c nl by simp
    qed
    then have "tracks ?M ?s2" using l2 c2 idx by (simp add: tracks_def)
    moreover have "count_down b r s = (Inr (), ?s2)"
      unfolding cda using False ready nbl by (auto simp: mark_bucket_ready_def bindM_def)
    ultimately show thesis using that [of ?s2] idx by (simp add: acct_rest_def)
  qed
qed

section \<open>Marking variables\<close>

definition stamped :: "VariableIndex \<Rightarrow> 'v reducer \<Rightarrow> 'v reducer" where
  "stamped i s = s\<lparr>backward_stats := (backward_stats s)[replica_index i :=
     (backward_stats s ! replica_index i)[variable_index i := clock s - backward_stats_base s]], require_finalize := True\<rparr>"

lemma mark_variable_ready_alt:
  fixes s :: "'v reducer" and i :: VariableIndex
  defines "b \<equiv> bucket_index (variable_locators s ! variable_index i)"
  assumes "replica_index i < length (replicas s)" and "variable_index i < length (variable_locators s)"
    and "b < length (buckets s)" and "replica_index i < length (b_replicas (buckets s ! b))"
    and "br_pending (b_replicas (buckets s ! b) ! replica_index i) \<noteq> 0"
  shows "mark_variable_ready lib grp i s =
    bindM (set_div_factor grp) (\<lambda>_.
    bindM (if b_expect_sparse (buckets s ! b) then mark_variable_ready_sparse lib i else mark_variable_ready_dense lib i) (\<lambda>_.
    bindM (count_down b (replica_index i)) (\<lambda>_. modifyM queue_finalizer))) (stamped i s)"
  using assms(2-6) unfolding b_def
  by (simp add: mark_variable_ready_def stamped_def bindM_def locate_def atM_def vec_at_def bucket_replica_at_def)

lemma mark_variable_ready_checks:
  assumes "mark_variable_ready lib grp i s = (Inr (), s')"
  defines "b \<equiv> bucket_index (variable_locators s ! variable_index i)"
  shows "replica_index i < length (replicas s)" "variable_index i < length (variable_locators s)"
    "b < length (buckets s)" "replica_index i < length (b_replicas (buckets s ! b))"
    "br_pending (b_replicas (buckets s ! b) ! replica_index i) \<noteq> 0"
  using assms(1) unfolding b_def
  by (auto simp: mark_variable_ready_def bindM_def locate_def atM_def vec_at_def bucket_replica_at_def split: if_splits)

lemma mark_variable_ready_split:
  assumes "mark_variable_ready lib grp i s = (Inr (), s')"
  obtains s1 s2 where "acct s1 = acct s" "s' = queue_finalizer s2"
    "count_down (bucket_index (variable_locators s ! variable_index i)) (replica_index i) s1 = (Inr (), s2)"
proof -
  note c = mark_variable_ready_checks [OF assms]
  let ?b = "bucket_index (variable_locators s ! variable_index i)"
  obtain a1 t1 a2 t2 a3 t3 where t: "set_div_factor grp (stamped i s) = (Inr a1, t1)"
    "(if b_expect_sparse (buckets s ! ?b) then mark_variable_ready_sparse lib i else mark_variable_ready_dense lib i) t1 = (Inr a2, t2)"
    "count_down ?b (replica_index i) t2 = (Inr a3, t3)" "s' = queue_finalizer t3"
    using assms unfolding mark_variable_ready_alt [OF c] by (auto elim!: bindM_InrE)
  have "acct t1 = acct (stamped i s)" by (rule keepsM_D [OF keepsM_div_factor t(1)])
  moreover have "acct t2 = acct t1"
    using t(2) by (cases "b_expect_sparse (buckets s ! ?b)") (auto dest: keepsM_D [OF keepsM_sparse] keepsM_D [OF keepsM_dense])
  moreover have "acct (stamped i s) = acct s" by (simp add: acct_def stamped_def)
  ultimately show thesis using that [of t2 t3] t(3,4) by simp
qed

lemma tracks_mark:
  assumes t: "tracks M s" and new: "i \<notin> M" and m: "mark_variable_ready lib grp i s = (Inr (), s')"
  shows "tracks (insert i M) s'" "acct_rest s' = acct_rest s"
    "finalizers s' = finalizers s + (if next_bucket s' = length (buckets s) then 1 else 0)"
    "map req_bucket (pg_log s') = map req_bucket (pg_log s) @ map Some [next_bucket s..<next_bucket s'] @
       (if next_bucket s' = length (buckets s) \<and> find_unused_parameters s then [None] else [])"
proof -
  let ?r = "replica_index i" and ?v = "variable_index i"
  have i: "var_at ?r ?v = i" by simp
  note c = mark_variable_ready_checks [OF m]
  obtain s1 s2 where s12: "acct s1 = acct s" "s' = queue_finalizer s2"
    "count_down (bucket_index (variable_locators s ! ?v)) ?r s1 = (Inr (), s2)"
    by (rule mark_variable_ready_split [OF m])
  note e = acct_eqD [OF s12(1)]
  have t1: "tracks M s1" by (rule tracks_acct [OF s12(1) t])
  have rl: "?r < length (replicas s1)" and vl: "?v < length (variable_locators s1)" using c(1,2) e by simp_all
  have new': "var_at ?r ?v \<notin> M" unfolding i by (rule new)
  from tracks_count_down [OF t1 rl vl new' refl] obtain s3 where
    s3: "count_down (bucket_index (variable_locators s1 ! ?v)) ?r s1 = (Inr (), s3)" "tracks (insert (var_at ?r ?v) M) s3"
    "map req_bucket (pg_log s3) = map req_bucket (pg_log s1) @ map Some [next_bucket s1..<next_bucket s3]"
    "acct_rest s3 = acct_rest s1" "finalizers s3 = finalizers s1" .
  have eq: "s3 = s2" using s3(1) s12(3) e(3) by simp
  have ar: "acct_rest s1 = acct_rest s" using e map_indices_acct [OF e(1)] by (simp add: acct_rest_def)
  have len: "length (buckets s2) = length (buckets s)" and fu: "find_unused_parameters s2 = find_unused_parameters s"
    using s3(4) ar eq by (auto simp: acct_rest_def dest: map_eq_imp_length_eq)
  have q: "next_bucket s' = next_bucket s2" "buckets s' = buckets s2" "replicas s' = replicas s2" "variable_locators s' = variable_locators s2"
    unfolding s12(2) by (simp_all add: queue_finalizer_def)
  show "tracks (insert i M) s'" using s3(2) eq unfolding i tracks_def layout_ok_def q by simp
  show "acct_rest s' = acct_rest s" using s3(4) ar eq unfolding s12(2) by (simp add: acct_rest_def queue_finalizer_def)
  show "finalizers s' = finalizers s + (if next_bucket s' = length (buckets s) then 1 else 0)"
    using s3(5) eq e(6) len q(1) unfolding s12(2) by (simp add: queue_finalizer_def)
  show "map req_bucket (pg_log s') = map req_bucket (pg_log s) @ map Some [next_bucket s..<next_bucket s'] @
       (if next_bucket s' = length (buckets s) \<and> find_unused_parameters s then [None] else [])"
    using s3(3) eq e(2,5) len fu q(1) unfolding s12(2) by (simp add: queue_finalizer_def)
qed

section \<open>Runs of hooks\<close>

definition bucket_requests :: "'v request list \<Rightarrow> nat list" where
  "bucket_requests log = List.map_filter req_bucket log"

lemma bucket_requests_map: "bucket_requests log = List.map_filter id (map req_bucket log)"
  by (simp add: bucket_requests_def map_filter_def comp_def filter_map)

lemma bucket_requests_append:
  assumes "map req_bucket log' = map req_bucket log @ map Some xs @ (if c then [None] else [])"
  shows "bucket_requests log' = bucket_requests log @ xs"
  unfolding bucket_requests_map assms by (simp add: map_filter_def comp_def filter_map)

lemma tracks_not_all:
  assumes t: "tracks M s" and new: "i \<notin> M" and "replica_index i < length (replicas s)" and v: "variable_index i < length (variable_locators s)"
  shows "next_bucket s < length (buckets s)"
proof (rule ccontr)
  let ?R = "length (replicas s)" and ?bs = "map b_variable_indices (buckets s)"
  let ?b = "bucket_index (variable_locators s ! variable_index i)"
  assume "\<not> next_bucket s < length (buckets s)"
  moreover have b: "?b < length (buckets s)" "variable_index i \<in> set (b_variable_indices (buckets s ! ?b))"
    using t v by (auto simp: tracks_def layout_ok_def)
  ultimately have "?b < launched ?R M ?bs" using t by (simp add: tracks_def)
  then have "complete ?R M (?bs ! ?b)" by (rule launched_complete)
  then have "var_at (replica_index i) (variable_index i) \<in> M" using assms(3) b by (simp add: complete_def)
  moreover have "var_at (replica_index i) (variable_index i) = i" by simp
  ultimately show False using new by metis
qed

text \<open>\<open>progress s s'\<close>: the buckets from \<open>next_bucket s\<close> to \<open>next_bucket s'\<close> were launched in between.\<close>

definition progress :: "'v reducer \<Rightarrow> 'v reducer \<Rightarrow> bool" where
  "progress s s' \<longleftrightarrow> acct_rest s' = acct_rest s \<and> next_bucket s \<le> next_bucket s' \<and> next_bucket s' \<le> length (buckets s) \<and>
     bucket_requests (pg_log s') = bucket_requests (pg_log s) @ [next_bucket s..<next_bucket s'] \<and>
     finalizers s' = finalizers s + (if next_bucket s < length (buckets s) \<and> next_bucket s' = length (buckets s) then 1 else 0)"

lemma progress_length: "progress s s' \<Longrightarrow> length (buckets s') = length (buckets s)"
  by (auto simp: progress_def acct_rest_def dest: map_eq_imp_length_eq)

lemma progress_trans:
  assumes "progress s s1" and "progress s1 s2"
  shows "progress s s2"
proof -
  have n: "next_bucket s \<le> next_bucket s1" "next_bucket s1 \<le> next_bucket s2" using assms by (auto simp: progress_def)
  then have "[next_bucket s..<next_bucket s1] @ [next_bucket s1..<next_bucket s2] = [next_bucket s..<next_bucket s2]"
    by (metis le_iff_add upt_add_eq_append)
  then show ?thesis using assms n progress_length [OF assms(1)] unfolding progress_def by auto
qed

lemma tracks_mark_progress:
  assumes "tracks M s" and "i \<notin> M" and m: "mark_variable_ready lib grp i s = (Inr (), s')"
  shows "tracks (insert i M) s' \<and> progress s s'"
proof -
  note t = tracks_mark [OF assms]
  have nb: "next_bucket s < length (buckets s)"
    by (rule tracks_not_all [OF assms(1,2) mark_variable_ready_checks(1,2) [OF m]])
  have "length (replicas s') = length (replicas s)" "map b_variable_indices (buckets s') = map b_variable_indices (buckets s)"
    using t(2) by (simp_all add: acct_rest_def)
  then have "next_bucket s \<le> next_bucket s'"
    using t(1) assms(1) launched_mono [OF subset_insertI] unfolding tracks_def by metis
  moreover have "next_bucket s' \<le> length (buckets s)"
    using t(1,2) launched_le [of "length (replicas s)" "insert i M" "map b_variable_indices (buckets s)"]
    by (auto simp: tracks_def acct_rest_def)
  ultimately show ?thesis using t nb bucket_requests_append [OF t(4)] unfolding progress_def by simp
qed

lemma tracks_marks:
  assumes "tracks M s" and "distinct is" and "set is \<inter> M = {}" and "for_each (mark_variable_ready lib grp) is s = (Inr (), s')"
  shows "tracks (M \<union> set is) s' \<and> (is = [] \<longrightarrow> s' = s) \<and> (is \<noteq> [] \<longrightarrow> progress s s')"
  using assms
proof (induction "is" arbitrary: M s)
  case Nil
  then show ?case by simp
next
  case (Cons i "is")
  obtain s1 where s1: "mark_variable_ready lib grp i s = (Inr (), s1)" "for_each (mark_variable_ready lib grp) is s1 = (Inr (), s')"
    using Cons.prems(4) by (auto elim!: bindM_InrE)
  have m: "tracks (insert i M) s1 \<and> progress s s1"
    by (rule tracks_mark_progress [OF Cons.prems(1) _ s1(1)]) (use Cons.prems(3) in auto)
  have "tracks (insert i M \<union> set is) s' \<and> (is = [] \<longrightarrow> s' = s1) \<and> (is \<noteq> [] \<longrightarrow> progress s1 s')"
    by (rule Cons.IH [OF _ _ _ s1(2)]) (use m Cons.prems in auto)
  then show ?case using m progress_trans by (cases "is = []") auto
qed

lemma progress_acct:
  assumes "acct s1 = acct s" and "progress s1 s'"
  shows "progress s s'"
proof -
  note e = acct_eqD [OF assms(1)]
  have "acct_rest s1 = acct_rest s" using e map_indices_acct [OF e(1)] by (simp add: acct_rest_def)
  moreover have "bucket_requests (pg_log s1) = bucket_requests (pg_log s)" using e(5) by (simp add: bucket_requests_map)
  ultimately show ?thesis using assms(2) e unfolding progress_def by simp
qed

lemma hook_mark:
  assumes h: "autograd_hook lib grp i s = (Inr (), s')" and ex: "expect_autograd_hooks s"
  obtains s1 where "acct s1 = acct (s\<lparr>has_marked_unused_parameters := has_marked_unused_parameters s \<or> find_unused_parameters s\<rparr>)"
    "for_each (mark_variable_ready lib grp)
       ((if \<not> has_marked_unused_parameters s \<and> find_unused_parameters s then unused_parameters s else []) @ [i]) s1 = (Inr (), s')"
proof -
  let ?s0 = "if find_unused_parameters s then s\<lparr>local_used_maps := (local_used_maps s)[replica_index i :=
     (local_used_maps s ! replica_index i)[variable_index i := 1]]\<rparr> else s"
  have e0: "acct ?s0 = acct s" by simp
  let ?mark = "\<lambda>s. \<not> has_marked_unused_parameters s \<and> find_unused_parameters s"
  let ?rest = "\<lambda>s1. bindM (if ?mark s1 then bindM (modifyM (\<lambda>s. s\<lparr>has_marked_unused_parameters := True\<rparr>)) (\<lambda>_.
                     bindM (getM unused_parameters) (for_each (mark_variable_ready lib grp)))
                else returnM ()) (\<lambda>_. mark_variable_ready lib grp i) s1"
  have "autograd_hook lib grp i s = bindM (push_rebuilt_params i) (\<lambda>_. ?rest) ?s0"
    using ex by (simp add: autograd_hook_def bindM_def)
  with h have "bindM (push_rebuilt_params i) (\<lambda>_. ?rest) ?s0 = (Inr (), s')" by simp
  then obtain a1 t1 where t1: "push_rebuilt_params i ?s0 = (Inr a1, t1)" and rest: "?rest t1 = (Inr (), s')"
    by (rule bindM_InrE)
  have e1: "acct t1 = acct s" using keepsM_D [OF keepsM_push t1] e0 by simp
  note f = acct_eqD [OF e1]
  show thesis
  proof (cases "?mark s")
    case True
    have "for_each (mark_variable_ready lib grp) (unused_parameters s @ [i]) (t1\<lparr>has_marked_unused_parameters := True\<rparr>) = (Inr (), s')"
      unfolding for_each_append for_each.simps bindM_return using rest True f by (simp add: bindM_def)
    moreover have "acct (t1\<lparr>has_marked_unused_parameters := True\<rparr>) = acct (s\<lparr>has_marked_unused_parameters := True\<rparr>)"
      using e1 by (simp add: acct_def)
    ultimately show thesis using that True by auto
  next
    case False
    then have "for_each (mark_variable_ready lib grp) [i] t1 = (Inr (), s')"
      unfolding for_each.simps bindM_return using rest f by (auto simp: bindM_def)
    moreover have "has_marked_unused_parameters s \<or> \<not> find_unused_parameters s" using False by blast
    then have "s\<lparr>has_marked_unused_parameters := has_marked_unused_parameters s \<or> find_unused_parameters s\<rparr> = s" by auto
    ultimately show thesis using that [of t1] e1 False by auto
  qed
qed

text \<open>What is still to be marked by the next hook besides its own variable.\<close>

definition still_unused :: "'v reducer \<Rightarrow> VariableIndex list" where
  "still_unused s = (if \<not> has_marked_unused_parameters s \<and> find_unused_parameters s then unused_parameters s else [])"

lemma tracks_hook:
  assumes t: "tracks M s" and ex: "expect_autograd_hooks s" and d: "distinct (still_unused s @ [i])" "set (still_unused s @ [i]) \<inter> M = {}"
    and h: "autograd_hook lib grp i s = (Inr (), s')"
  shows "tracks (M \<union> set (still_unused s @ [i])) s' \<and> progress s (s'\<lparr>has_marked_unused_parameters := has_marked_unused_parameters s\<rparr>) \<and>
     still_unused s' = [] \<and> expect_autograd_hooks s'"
proof -
  let ?m = "has_marked_unused_parameters s \<or> find_unused_parameters s"
  obtain s1 where s1: "acct s1 = acct (s\<lparr>has_marked_unused_parameters := ?m\<rparr>)"
    "for_each (mark_variable_ready lib grp) (still_unused s @ [i]) s1 = (Inr (), s')"
    using hook_mark [OF h ex] unfolding still_unused_def by blast
  have "tracks M (s\<lparr>has_marked_unused_parameters := ?m\<rparr>)" using t by (simp add: tracks_def layout_ok_def)
  then have t1: "tracks M s1" by (rule tracks_acct [OF s1(1)])
  have m: "tracks (M \<union> set (still_unused s @ [i])) s' \<and> progress s1 s'"
    using tracks_marks [OF t1 d s1(2)] by simp
  then have p: "progress (s\<lparr>has_marked_unused_parameters := ?m\<rparr>) s'" using progress_acct [OF s1(1)] by blast
  then have "has_marked_unused_parameters s' = ?m" "find_unused_parameters s' = find_unused_parameters s"
    "expect_autograd_hooks s'" using ex by (simp_all add: progress_def acct_rest_def)
  moreover have "progress s (s'\<lparr>has_marked_unused_parameters := has_marked_unused_parameters s\<rparr>)"
    using p by (simp add: progress_def acct_rest_def)
  ultimately show ?thesis using m by (simp add: still_unused_def)
qed

lemma tracks_hooks:
  assumes "tracks M s" and "expect_autograd_hooks s" and "is \<noteq> []" and "distinct (still_unused s @ is)"
    and "set (still_unused s @ is) \<inter> M = {}" and "for_each (autograd_hook lib grp) is s = (Inr (), s')"
  shows "tracks (M \<union> set (still_unused s @ is)) s' \<and> progress s (s'\<lparr>has_marked_unused_parameters := has_marked_unused_parameters s\<rparr>)"
  using assms
proof (induction "is" arbitrary: M s)
  case Nil
  then show ?case by simp
next
  case (Cons i "is")
  obtain s1 where s1: "autograd_hook lib grp i s = (Inr (), s1)" "for_each (autograd_hook lib grp) is s1 = (Inr (), s')"
    using Cons.prems(6) by (auto elim!: bindM_InrE)
  let ?M = "M \<union> set (still_unused s @ [i])"
  have h: "tracks ?M s1 \<and> progress s (s1\<lparr>has_marked_unused_parameters := has_marked_unused_parameters s\<rparr>) \<and>
     still_unused s1 = [] \<and> expect_autograd_hooks s1"
    by (rule tracks_hook [OF Cons.prems(1,2) _ _ s1(1)]) (use Cons.prems in auto)
  show ?case
  proof (cases "is = []")
    case True
    then show ?thesis using h s1(2) by simp
  next
    case False
    have "tracks (?M \<union> set (still_unused s1 @ is)) s' \<and> progress s1 (s'\<lparr>has_marked_unused_parameters := has_marked_unused_parameters s1\<rparr>)"
      by (rule Cons.IH [OF _ _ False _ _ s1(2)]) (use h Cons.prems in auto)
    moreover from this have "progress (s1\<lparr>has_marked_unused_parameters := has_marked_unused_parameters s\<rparr>) (s'\<lparr>has_marked_unused_parameters := has_marked_unused_parameters s\<rparr>)"
      by (simp add: progress_def acct_rest_def)
    ultimately show ?thesis using h progress_trans by (auto simp: Un_assoc Un_left_commute)
  qed
qed

lemma tracks_prepare:
  assumes l: "layout_ok s" and R: "0 < length (replicas s)" and v: "variable_locators s \<noteq> []"
  shows "tracks {} (prepare_for_backward g outputs s)"
proof -
  let ?s = "prepare_for_backward g outputs s"
  have f: "buckets ?s = map reset_pending (buckets s)" "replicas ?s = replicas s" "variable_locators ?s = variable_locators s"
    "next_bucket ?s = 0" by (simp_all add: prepare_for_backward_def Let_def)
  have rp: "b_variable_indices (reset_pending bk) = b_variable_indices bk"
    "map br_variables (b_replicas (reset_pending bk)) = map br_variables (b_replicas bk)" for bk
    by (simp_all add: reset_pending_def comp_def)
  have lay: "bucket_layout (length (replicas s)) (variable_locators s) b (buckets s ! b)" if "b < length (buckets s)" for b
    using l that by (simp add: layout_ok_def)
  have l': "layout_ok ?s" using l unfolding layout_ok_def bucket_layout_def f by (simp add: rp)
  have "bucket_counts (length (replicas s)) {} (reset_pending (buckets s ! b))" if b: "b < length (buckets s)" for b
  proof -
    let ?bk = "buckets s ! b" and ?R = "length (replicas s)"
    have mi: "missing {} r vs = length vs" for r vs by (simp add: missing_def)
    have "map br_pending (b_replicas (reset_pending ?bk)) = map length (map br_variables (b_replicas ?bk))"
      by (simp add: reset_pending_def comp_def)
    also have "\<dots> = map (\<lambda>r. missing {} r (b_variable_indices ?bk)) [0..<?R]"
      using lay [OF b] by (simp add: bucket_layout_def mi comp_def)
    finally show ?thesis using layout_replicas [OF lay [OF b]] lay [OF b]
      by (simp add: bucket_counts_def mi bucket_layout_def reset_pending_def)
  qed
  moreover have "launched (length (replicas s)) {} (map b_variable_indices (buckets s)) = 0"
  proof -
    have "\<not> complete (length (replicas s)) {} vs" if "vs \<noteq> []" for vs using that R by (auto simp: complete_def)
    moreover have "b_variable_indices (buckets s ! 0) \<noteq> []" if "buckets s \<noteq> []" using lay [of 0] that by (simp add: bucket_layout_def)
    ultimately show ?thesis by (cases "buckets s") (auto simp: launched_def)
  qed
  ultimately show ?thesis using l' unfolding tracks_def f by (simp add: rp comp_def)
qed

end
