(* ===== verification/Reducer_Init.thy ===== *)
theory Reducer_Init
  imports Reducer_Order
begin

text \<open>
  What \<^verbatim>\<open>initialize_buckets\<close> builds. When the bucket indices are a partition of the parameters,
  the resulting buckets and locators satisfy the layout that the order of launches rests on; the
  constructor and \<^verbatim>\<open>rebuild_buckets\<close> reach it through the bucket assignment.
\<close>

section \<open>Operations on tensors only\<close>

text \<open>The state without the storages and the gradients.\<close>

definition frame :: "'v reducer \<Rightarrow> 'v reducer" where
  "frame s = s\<lparr>storages := [], grads := [], ctx_grads := []\<rparr>"

lemma frame_fields [simp]:
  "frame (s\<lparr>storages := a\<rparr>) = frame s" "frame (s\<lparr>grads := b\<rparr>) = frame s" "frame (s\<lparr>ctx_grads := b\<rparr>) = frame s"
  "frame (write_store t vs s) = frame s"
  by (simp_all add: frame_def write_store_def)

lemma frame_eqD:
  assumes "frame s' = frame s"
  shows "buckets s' = buckets s" "replicas s' = replicas s" "variable_locators s' = variable_locators s"
    "expect_autograd_hooks s' = expect_autograd_hooks s" "gradient_as_bucket_view s' = gradient_as_bucket_view s"
    "expect_sparse_gradients s' = expect_sparse_gradients s" "find_unused_parameters s' = find_unused_parameters s"
    "rpc_context s' = rpc_context s" "comm_hook s' = comm_hook s" "divFactor s' = divFactor s" "next_bucket s' = next_bucket s"
    "pg_log s' = pg_log s" "finalizers s' = finalizers s" "require_finalize s' = require_finalize s"
    "forwardPassWorkHandle s' = forwardPassWorkHandle s" "has_rebuilt_bucket s' = has_rebuilt_bucket s"
    "has_marked_unused_parameters s' = has_marked_unused_parameters s" "unused_parameters s' = unused_parameters s"
proof -
  have "f (frame s') = f (frame s)" for f :: "'a reducer \<Rightarrow> 'b" using assms by simp
  note a = arg_cong [OF assms]
  show "buckets s' = buckets s" "replicas s' = replicas s" "variable_locators s' = variable_locators s"
    "expect_autograd_hooks s' = expect_autograd_hooks s" "gradient_as_bucket_view s' = gradient_as_bucket_view s"
    "expect_sparse_gradients s' = expect_sparse_gradients s" "find_unused_parameters s' = find_unused_parameters s"
    "rpc_context s' = rpc_context s" "comm_hook s' = comm_hook s" "divFactor s' = divFactor s" "next_bucket s' = next_bucket s"
    "pg_log s' = pg_log s" "finalizers s' = finalizers s" "require_finalize s' = require_finalize s"
    "forwardPassWorkHandle s' = forwardPassWorkHandle s" "has_rebuilt_bucket s' = has_rebuilt_bucket s"
    "has_marked_unused_parameters s' = has_marked_unused_parameters s" "unused_parameters s' = unused_parameters s"
    using a [of buckets] a [of replicas] a [of variable_locators] a [of expect_autograd_hooks] a [of gradient_as_bucket_view]
      a [of expect_sparse_gradients] a [of find_unused_parameters] a [of rpc_context] a [of comm_hook] a [of divFactor]
      a [of next_bucket] a [of pg_log] a [of finalizers] a [of require_finalize] a [of forwardPassWorkHandle]
      a [of has_rebuilt_bucket] a [of has_marked_unused_parameters] a [of unused_parameters]
    by (simp_all add: frame_def)
qed

lemma keepsM_new_storage_frame [intro]: "keepsM frame (new_storage vs)"
  by (simp add: keepsM_def new_storage_def)

lemma keepsM_runGrad_frame [intro]:
  "(\<And>g. keepsM frame (cb g)) \<Longrightarrow> keepsM frame (Reducer_runGradCallbackForVariable v cb)"
  unfolding Reducer_runGradCallbackForVariable_def by (intro keepsM_bind keepsM_I keepsM_if keepsM_option keepsM_prod keepsM_modify)
    (auto split: option.splits)

lemma keepsM_views [intro]: "keepsM frame (initialize_bucket_views lib rep t)"
  unfolding initialize_bucket_views_def view_callback_def
  by (intro keepsM_bind keepsM_I keepsM_for_each keepsM_prod keepsM_if keepsM_option keepsM_modify keepsM_runGrad_frame) auto

lemma keepsM_build [intro]: "keepsM frame (build_replica lib idxs sparse r)"
  unfolding build_replica_def Let_def
  by (intro keepsM_bind keepsM_I keepsM_prod keepsM_if keepsM_variable_at keepsM_atM keepsM_new_storage_frame keepsM_views)

section \<open>The layout of a bucket\<close>

lemma dense_layout_variables:
  "dense_layout vs r is opts off rep = Inr (rep', len, opts') \<Longrightarrow> br_variables rep' = br_variables rep @ map (var_at r) is"
  by (induction vs r "is" opts off rep arbitrary: rep' len opts' rule: dense_layout.induct)
    (auto simp: Let_def split: if_splits)

lemma views_variables: "initialize_bucket_views lib rep t s = (Inr rep', s') \<Longrightarrow> br_variables rep' = br_variables rep"
  unfolding initialize_bucket_views_def by (auto elim!: bindM_InrE)

lemma build_replica_variables:
  assumes "build_replica lib idxs sparse r s = (Inr rep, s')" and "sparse \<Longrightarrow> length idxs = 1"
  shows "br_variables rep = map (var_at r) idxs"
proof (cases sparse)
  case True
  then obtain i where "idxs = [i]" using assms(2) by (auto simp: length_Suc_conv)
  then show ?thesis using assms(1) True by (auto simp: build_replica_def elim!: bindM_InrE)
next
  case False
  then show ?thesis using assms(1)
    by (auto simp: build_replica_def Let_def elim!: bindM_InrE dest!: dense_layout_variables views_variables)
      (simp add: BucketReplica_new_def)
qed

lemma build_replicas:
  assumes "map_each (build_replica lib idxs sparse) rs s = (Inr reps, s')" and "sparse \<Longrightarrow> length idxs = 1"
  shows "map br_variables reps = map (\<lambda>r. map (var_at r) idxs) rs \<and> frame s' = frame s"
  using assms(1)
proof (induction rs arbitrary: reps s)
  case Nil
  then show ?case by simp
next
  case (Cons r rs)
  then obtain rep s1 reps1 where b: "build_replica lib idxs sparse r s = (Inr rep, s1)"
    "map_each (build_replica lib idxs sparse) rs s1 = (Inr reps1, s')" "reps = rep # reps1"
    by (auto elim!: bindM_InrE)
  show ?case
    using build_replica_variables [OF b(1) assms(2)] Cons.IH [OF b(2)] keepsM_D [OF keepsM_build b(1)] b(3) by simp
qed

lemma bucket_sparse_single:
  assumes "bucket_sparse idxs s = (Inr sparse, s')"
  shows "s' = s" "sparse \<Longrightarrow> length idxs = 1"
proof -
  have k: "keepsM id (bucket_sparse idxs)"
    unfolding bucket_sparse_def expects_sparse_def
    by (intro keepsM_if keepsM_bind keepsM_I keepsM_atM keepsM_for_each)
  show "s' = s" using keepsM_D [OF k assms] by simp
  show "length idxs = 1" if sparse using assms that by (auto simp: bucket_sparse_def elim!: bindM_InrE split: if_splits)
qed

text \<open>The loop that enters the variables of a bucket into the locators.\<close>

definition set_locator :: "nat \<Rightarrow> nat \<times> nat \<Rightarrow> VariableLocator list \<Rightarrow> VariableLocator list" where
  "set_locator b vj locs = locs[fst vj := \<lparr>bucket_index = b, intra_bucket_index = snd vj\<rparr>]"

lemma set_locator_apply [simp]: "set_locator b (v, j) locs = locs[v := \<lparr>bucket_index = b, intra_bucket_index = j\<rparr>]"
  by (simp add: set_locator_def)

lemma locators_loop:
  assumes "for_each (\<lambda>(v, j).
      bindM (getM (\<lambda>s. length (variable_locators s))) (\<lambda>n.
      bindM (checkM (v < n) e) (\<lambda>_.
      modifyM (\<lambda>s. s\<lparr>variable_locators := (variable_locators s)[v := \<lparr>bucket_index = b, intra_bucket_index = j\<rparr>]\<rparr>)))) vjs s = (Inr (), s')"
  shows "s' = s\<lparr>variable_locators := fold (set_locator b) vjs (variable_locators s)\<rparr> \<and> (\<forall>(v, j)\<in>set vjs. v < length (variable_locators s))"
  using assms
proof (induction vjs arbitrary: s)
  case Nil
  then show ?case by simp
next
  case (Cons vj vjs)
  obtain v j where vj: "vj = (v, j)" by (cases vj)
  let ?s = "s\<lparr>variable_locators := (variable_locators s)[v := \<lparr>bucket_index = b, intra_bucket_index = j\<rparr>]\<rparr>"
  have "v < length (variable_locators s)" using Cons.prems unfolding vj by (auto simp: bindM_def split: if_splits)
  moreover from this have "s' = ?s\<lparr>variable_locators := fold (set_locator b) vjs (variable_locators ?s)\<rparr> \<and>
      (\<forall>(v, j)\<in>set vjs. v < length (variable_locators ?s))"
    using Cons.prems unfolding vj by (intro Cons.IH) (simp add: bindM_def)
  ultimately show ?case by (simp add: vj)
qed

lemma set_locators_nth:
  assumes "distinct idxs" and "\<forall>v\<in>set idxs. v < length locs"
  shows "length (fold (set_locator b) (zip idxs [k..<k + length idxs]) locs) = length locs \<and>
    (\<forall>j<length idxs. fold (set_locator b) (zip idxs [k..<k + length idxs]) locs ! (idxs ! j) = \<lparr>bucket_index = b, intra_bucket_index = k + j\<rparr>) \<and>
    (\<forall>v. v \<notin> set idxs \<longrightarrow> fold (set_locator b) (zip idxs [k..<k + length idxs]) locs ! v = locs ! v)"
  using assms
proof (induction idxs arbitrary: k locs)
  case Nil
  then show ?case by simp
next
  case (Cons i idxs)
  let ?l = "locs[i := \<lparr>bucket_index = b, intra_bucket_index = k\<rparr>]"
  have z: "zip (i # idxs) [k..<k + length (i # idxs)] = (i, k) # zip idxs [Suc k..<Suc k + length idxs]"
    by (simp add: upt_conv_Cons del: upt_Suc)
  have p: "distinct idxs" "\<forall>v\<in>set idxs. v < length ?l" "i \<notin> set idxs" "i < length locs" using Cons.prems by auto
  have "fold (set_locator b) (zip idxs [Suc k..<Suc k + length idxs]) ?l ! ((i # idxs) ! j) = \<lparr>bucket_index = b, intra_bucket_index = k + j\<rparr>"
    if "j < length (i # idxs)" for j
    using Cons.IH [OF p(1,2), of "Suc k"] p(3,4) that by (cases j) simp_all
  then show ?case using Cons.IH [OF p(1,2), of "Suc k"] p(4) unfolding z by simp
qed

section \<open>The loop over the buckets\<close>

text \<open>
  The state between two rounds: the first \<open>k\<close> buckets are built, and only their variables have been
  entered into the locators.
\<close>

definition built :: "nat list list \<Rightarrow> nat \<Rightarrow> 'v reducer \<Rightarrow> bool" where
  "built bis k s \<longleftrightarrow> map b_variable_indices (buckets s) = take k bis \<and>
     (\<forall>b<length (buckets s). bucket_layout (length (replicas s)) (variable_locators s) b (buckets s ! b))"

lemma add_bucket_effect:
  assumes "add_bucket lib (b, idxs) s = (Inr (), s')"
  obtains reps sparse s1 where "idxs \<noteq> []" "frame s1 = frame s" "\<forall>v\<in>set idxs. v < length (variable_locators s)"
    "map br_variables reps = map (\<lambda>r. map (var_at r) idxs) [0..<length (replicas s)]"
    "s' = s1\<lparr>variable_locators := fold (set_locator b) (zip idxs [0..<length idxs]) (variable_locators s),
       buckets := buckets s @ [\<lparr>b_replicas = reps, b_variable_indices = idxs, b_pending = 0, b_work = None,
         b_future_work = None, b_expect_sparse = sparse\<rparr>]\<rparr>"
proof -
  from assms obtain sparse t0 reps t1 t2 where st: "idxs \<noteq> []" "bucket_sparse idxs s = (Inr sparse, t0)"
    "map_each (build_replica lib idxs sparse) [0..<length (replicas t0)] t0 = (Inr reps, t1)"
    "for_each (\<lambda>(v, j).
          bindM (getM (\<lambda>s. length (variable_locators s))) (\<lambda>n.
          bindM (checkM (v < n) (C10_error ''Out of range variable index specified.'')) (\<lambda>_.
          modifyM (\<lambda>s. s\<lparr>variable_locators := (variable_locators s)[v := \<lparr>bucket_index = b, intra_bucket_index = j\<rparr>]\<rparr>))))
        (zip idxs [0..<length idxs]) t1 = (Inr (), t2)"
    "s' = t2\<lparr>buckets := buckets t2 @ [\<lparr>b_replicas = reps, b_variable_indices = idxs, b_pending = 0, b_work = None,
         b_future_work = None, b_expect_sparse = sparse\<rparr>]\<rparr>"
    unfolding add_bucket_def Let_def by (auto elim!: bindM_InrE split: if_splits)
  note sp = bucket_sparse_single [OF st(2)]
  note br = build_replicas [OF st(3) sp(2)]
  have fr: "frame t1 = frame s" using br sp(1) by simp
  note f = frame_eqD [OF fr]
  note ll = locators_loop [OF st(4)]
  have "fst ` set (zip idxs [0..<length idxs]) = set idxs" by (simp flip: set_map)
  then have "\<forall>v\<in>set idxs. v < length (variable_locators s)" using ll f(3) by (auto simp: set_zip) (metis fst_conv in_set_conv_nth)
  moreover have "s' = t1\<lparr>variable_locators := fold (set_locator b) (zip idxs [0..<length idxs]) (variable_locators s),
       buckets := buckets s @ [\<lparr>b_replicas = reps, b_variable_indices = idxs, b_pending = 0, b_work = None,
         b_future_work = None, b_expect_sparse = sparse\<rparr>]\<rparr>" using st(5) ll f(1,3) by simp
  ultimately show thesis using that [of t1 reps sparse] st(1) fr br sp(1) by simp
qed

definition base :: "'v reducer \<Rightarrow> 'v reducer" where
  "base s = (frame s)\<lparr>buckets := [], variable_locators := []\<rparr>"

lemma built_step:
  assumes bu: "built bis k s" and k: "k < length bis" and d: "distinct (concat bis)"
    and a: "add_bucket lib (k, bis ! k) s = (Inr (), s')"
  shows "built bis (Suc k) s' \<and> base s' = base s \<and> length (variable_locators s') = length (variable_locators s)"
proof -
  let ?i = "bis ! k"
  obtain reps sparse s1 where e: "?i \<noteq> []" "frame s1 = frame s" "\<forall>v\<in>set ?i. v < length (variable_locators s)"
    "map br_variables reps = map (\<lambda>r. map (var_at r) ?i) [0..<length (replicas s)]"
    "s' = s1\<lparr>variable_locators := fold (set_locator k) (zip ?i [0..<length ?i]) (variable_locators s),
       buckets := buckets s @ [\<lparr>b_replicas = reps, b_variable_indices = ?i, b_pending = 0, b_work = None,
         b_future_work = None, b_expect_sparse = sparse\<rparr>]\<rparr>"
    by (rule add_bucket_effect [OF a])
  note f = frame_eqD [OF e(2)]
  have di: "distinct ?i" using d k by (auto simp: distinct_concat_iff)
  note sl = set_locators_nth [OF di e(3), of k 0, simplified]
  have ib: "map b_variable_indices (buckets s) = take k bis" using bu by (simp add: built_def)
  have lb: "length (buckets s) = k" using arg_cong [OF ib, of length] k by simp
  have old: "b_variable_indices (buckets s ! b) = bis ! b" if "b < k" for b
    using arg_cong [OF ib, of "\<lambda>xs. xs ! b"] that lb k by simp
  have disj: "set (bis ! b) \<inter> set ?i = {}" if "b < k" for b
  proof -
    have "bis = take k bis @ ?i # drop (Suc k) bis" by (rule id_take_nth_drop [OF k])
    then have "distinct (concat (take k bis) @ ?i @ concat (drop (Suc k) bis))" using d by (metis concat.simps(2) concat_append)
    moreover have "set (bis ! b) \<subseteq> set (concat (take k bis))" using that k by (auto simp: in_set_conv_nth intro!: bexI [of _ "bis ! b"] exI [of _ b])
    ultimately show ?thesis by auto
  qed
  have "bucket_layout (length (replicas s')) (variable_locators s') b (buckets s' ! b)" if "b < length (buckets s')" for b
  proof (cases "b = k")
    case True
    then show ?thesis using e(1,3,4) sl lb f(2) by (simp add: e(5) bucket_layout_def nth_append)
  next
    case False
    then have b: "b < k" using that lb by (simp add: e(5))
    then have "bucket_layout (length (replicas s)) (variable_locators s) b (buckets s ! b)" using bu lb by (simp add: built_def)
    moreover have "b_variable_indices (buckets s ! b) ! j \<notin> set ?i" if "j < length (bis ! b)" for j
      using disj [OF b] old [OF b] that nth_mem by fastforce
    ultimately show ?thesis using b lb f(2) sl old [OF b] by (auto simp: e(5) bucket_layout_def nth_append)
  qed
  moreover have "map b_variable_indices (buckets s') = take (Suc k) bis" using ib k by (simp add: e(5) take_Suc_conv_app_nth)
  moreover have "base s' = base s" using e(2) by (simp add: base_def e(5) frame_def)
  ultimately show ?thesis using sl by (simp add: built_def e(5))
qed

lemma built_loop:
  assumes "built bis k s" and "k \<le> length bis" and "distinct (concat bis)"
    and "for_each (add_bucket lib) (zip [k..<length bis] (drop k bis)) s = (Inr (), s')"
  shows "built bis (length bis) s' \<and> base s' = base s \<and> length (variable_locators s') = length (variable_locators s)"
  using assms
proof (induction "length bis - k" arbitrary: k s)
  case 0
  then show ?case by simp
next
  case (Suc n)
  then have k: "k < length bis" by simp
  then have z: "zip [k..<length bis] (drop k bis) = (k, bis ! k) # zip [Suc k..<length bis] (drop (Suc k) bis)"
    by (simp add: upt_conv_Cons Cons_nth_drop_Suc [symmetric])
  obtain s1 where s1: "add_bucket lib (k, bis ! k) s = (Inr (), s1)"
    "for_each (add_bucket lib) (zip [Suc k..<length bis] (drop (Suc k) bis)) s1 = (Inr (), s')"
    using Suc.prems(4) unfolding z by (auto elim!: bindM_InrE)
  have "built bis (Suc k) s1 \<and> base s1 = base s \<and> length (variable_locators s1) = length (variable_locators s)"
    by (rule built_step [OF Suc.prems(1) k Suc.prems(3) s1(1)])
  then show ?case using Suc.hyps(1) [of "Suc k" s1] Suc.hyps(2) Suc.prems(3) s1(2) k by simp
qed

lemma initialize_buckets_layout:
  assumes i: "initialize_buckets lib ctx bis s = (Inr (), s')" and d: "distinct (concat bis)"
    and c: "set (concat bis) = {..<length (replicas s ! 0)}"
  shows "layout_ok s' \<and> map b_variable_indices (buckets s') = bis \<and> replicas s' = replicas s \<and>
     length (variable_locators s') = length (replicas s ! 0) \<and> base s' = (base s)\<lparr>rpc_context := ctx\<rparr>"
proof -
  let ?s = "s\<lparr>rpc_context := ctx, buckets := [],
     variable_locators := replicate (length (replicas s ! 0)) \<lparr>bucket_index = 0, intra_bucket_index = 0\<rparr>\<rparr>"
  have l: "for_each (add_bucket lib) (zip [0..<length bis] bis) ?s = (Inr (), s')"
    using i by (auto simp: initialize_buckets_def bindM_def atM_def split: if_splits sum.splits)
  have b: "built bis (length bis) s' \<and> base s' = base ?s \<and> length (variable_locators s') = length (variable_locators ?s)"
    by (rule built_loop [of bis 0]) (use l d in \<open>simp_all add: built_def\<close>)
  then have ib: "map b_variable_indices (buckets s') = bis" and lay: "\<And>b. b < length (buckets s') \<Longrightarrow>
      bucket_layout (length (replicas s')) (variable_locators s') b (buckets s' ! b)" by (auto simp: built_def)
  have bs: "base s' = (base s)\<lparr>rpc_context := ctx\<rparr>" using b by (simp add: base_def frame_def)
  have rs: "replicas s' = replicas s" using arg_cong [OF bs, of replicas] by (simp add: base_def frame_def)
  have "bucket_index (variable_locators s' ! v) < length (buckets s') \<and> v \<in> set (b_variable_indices (buckets s' ! bucket_index (variable_locators s' ! v)))"
    if "v < length (variable_locators s')" for v
  proof -
    have "v \<in> set (concat bis)" using that b c by simp
    then obtain vs where "vs \<in> set bis" "v \<in> set vs" by auto
    then obtain k where k: "k < length bis" "v \<in> set (bis ! k)" by (metis in_set_conv_nth)
    then obtain j where j: "j < length (bis ! k)" "v = bis ! k ! j" by (auto simp: in_set_conv_nth)
    have kb: "k < length (buckets s')" and bk: "b_variable_indices (buckets s' ! k) = bis ! k"
      using k(1) ib by (metis length_map, metis length_map nth_map)
    have "variable_locators s' ! v = \<lparr>bucket_index = k, intra_bucket_index = j\<rparr>"
      using lay [OF kb] j unfolding bucket_layout_def bk by simp
    then show ?thesis using kb bk k(2) by simp
  qed
  then have "layout_ok s'" using lay by (simp add: layout_ok_def)
  then show ?thesis using ib rs b bs by simp
qed

end
