(* ===== verification/Reducer_Data.thy ===== *)
theory Reducer_Data
  imports Reducer_Init
begin

text \<open>
  What the reducer computes in its default mode: dense gradients, no communication hook, buckets
  separate from the gradients. During the backward pass every launched bucket carries the scaled
  gradients of its variables one after the other; when the pass is finalized every gradient is
  replaced by its part of the reduced bucket.
\<close>

section \<open>A flat bucket and its parts\<close>

fun chop :: "nat list \<Rightarrow> 'v list \<Rightarrow> 'v list list" where
  "chop [] xs = []"
| "chop (n # ns) xs = take n xs # chop ns (drop n xs)"

definition offset_of :: "nat list \<Rightarrow> nat \<Rightarrow> nat" where
  "offset_of lens j = sum_list (take j lens)"

lemma length_chop [simp]: "length (chop lens xs) = length lens"
  by (induction lens xs rule: chop.induct) simp_all

lemma concat_chop: "length xs = sum_list lens \<Longrightarrow> concat (chop lens xs) = xs"
  by (induction lens xs rule: chop.induct) simp_all

lemma chop_nth: "j < length lens \<Longrightarrow> chop lens xs ! j = take (lens ! j) (drop (offset_of lens j) xs)"
  by (induction lens xs arbitrary: j rule: chop.induct) (auto simp: offset_of_def nth_Cons' gr0_conv_Suc add.commute)

lemma length_chop_nth:
  assumes "length xs = sum_list lens" and "j < length lens"
  shows "length (chop lens xs ! j) = lens ! j"
proof -
  have "sum_list lens = sum_list (take j lens) + lens ! j + sum_list (drop (Suc j) lens)"
    by (metis add.assoc assms(2) id_take_nth_drop sum_list.Cons sum_list_append)
  then show ?thesis using assms by (simp add: chop_nth offset_of_def)
qed

lemma chop_splice:
  assumes "length xs = sum_list lens" and "j < length lens" and "length new = lens ! j"
  shows "chop lens (splice (offset_of lens j) (lens ! j) new xs) = (chop lens xs)[j := new]"
  using assms
proof (induction lens arbitrary: xs j)
  case (Cons n lens)
  show ?case
  proof (cases j)
    case 0
    then show ?thesis using Cons.prems by (simp add: offset_of_def splice_def)
  next
    case (Suc i)
    have "chop lens (splice (offset_of lens i) (lens ! i) new (drop n xs)) = (chop lens (drop n xs))[i := new]"
      by (rule Cons.IH) (use Cons.prems Suc in simp_all)
    moreover have "splice (offset_of (n # lens) j) ((n # lens) ! j) new xs = take n xs @ splice (offset_of lens i) (lens ! i) new (drop n xs)"
      using Cons.prems Suc by (simp add: offset_of_def splice_def take_add add.assoc [symmetric] add.commute [of _ n])
    ultimately show ?thesis using Cons.prems Suc by simp
  qed
qed simp

lemma length_splice:
  assumes "off + len \<le> length xs" and "length new = len"
  shows "length (splice off len new xs) = length xs"
  using assms by (simp add: splice_def)

lemma offset_bound: "j < length lens \<Longrightarrow> offset_of lens j + lens ! j \<le> sum_list lens"
proof -
  assume "j < length lens"
  then have "sum_list lens = sum_list (take j lens) + lens ! j + sum_list (drop (Suc j) lens)"
    by (metis add.assoc id_take_nth_drop sum_list.Cons sum_list_append)
  then show ?thesis by (simp add: offset_of_def)
qed

section \<open>The default mode\<close>

definition var_numel :: "variable \<Rightarrow> nat" where
  "var_numel v = unat (physical_numel (v_info v))"

text \<open>The layout of the replica \<open>rep\<close> of a dense bucket with the variables \<open>vs\<close> and contents \<open>t\<close>.\<close>

definition dense_replica :: "'v list list \<Rightarrow> variable list \<Rightarrow> nat list \<Rightarrow> tensor_ref \<Rightarrow> BucketReplica \<Rightarrow> bool" where
  "dense_replica st vars vs t rep \<longleftrightarrow>
     br_contents rep = Some t \<and> t_offset t = 0 \<and> t_storage t < length st \<and> \<not> t_sparse t \<and>
     br_lengths rep = map (\<lambda>v. var_numel (vars ! v)) vs \<and>
     br_offsets rep = map (offset_of (br_lengths rep)) [0..<length vs] \<and>
     t_length t = sum_list (br_lengths rep) \<and> length (st ! t_storage t) = t_length t \<and>
     br_views_in rep = views_of t rep \<and> br_views_out rep = views_of t rep \<and>
     (\<forall>v\<in>set vs. v < length vars \<and> v_dtype (vars ! v) = t_type t \<and> v_device (vars ! v) = t_device t)"

definition rep_at :: "'v reducer \<Rightarrow> nat \<Rightarrow> nat \<Rightarrow> BucketReplica" where
  "rep_at s b r = b_replicas (buckets s ! b) ! r"

definition cell :: "'v reducer \<Rightarrow> nat \<Rightarrow> nat \<Rightarrow> nat" where
  "cell s b r = t_storage (the (br_contents (rep_at s b r)))"

definition lens_at :: "'v reducer \<Rightarrow> nat \<Rightarrow> nat \<Rightarrow> nat list" where
  "lens_at s b r = map (\<lambda>v. var_numel (replicas s ! r ! v)) (b_variable_indices (buckets s ! b))"

definition parts :: "'v reducer \<Rightarrow> nat \<Rightarrow> nat \<Rightarrow> 'v list list" where
  "parts s b r = chop (lens_at s b r) (storages s ! cell s b r)"

abbreviation in_range :: "'v reducer \<Rightarrow> nat \<Rightarrow> nat \<Rightarrow> bool" where
  "in_range s b r \<equiv> b < length (buckets s) \<and> r < length (replicas s)"

definition dense_ok :: "'v reducer \<Rightarrow> bool" where
  "dense_ok s \<longleftrightarrow> (\<forall>b r. in_range s b r \<longrightarrow> \<not> b_expect_sparse (buckets s ! b) \<and>
      dense_replica (storages s) (replicas s ! r) (b_variable_indices (buckets s ! b)) (the (br_contents (rep_at s b r))) (rep_at s b r)) \<and>
     (\<forall>b r b' r'. in_range s b r \<longrightarrow> in_range s b' r' \<longrightarrow> cell s b r = cell s b' r' \<longrightarrow> b' = b \<and> r' = r)"

definition grads_apart :: "'v reducer \<Rightarrow> bool" where
  "grads_apart s \<longleftrightarrow> (\<forall>i g. map_of (grads s) i = Some g \<longrightarrow> t_storage g < length (storages s) \<and>
     (\<forall>b r. in_range s b r \<longrightarrow> t_storage g \<noteq> cell s b r))"

definition plain :: "'v reducer \<Rightarrow> bool" where
  "plain s \<longleftrightarrow> \<not> find_unused_parameters s \<and> \<not> gradient_as_bucket_view s \<and> \<not> rpc_context s \<and> \<not> comm_hook s"

definition data_ok :: "'v reducer \<Rightarrow> bool" where
  "data_ok s \<longleftrightarrow> plain s \<and> layout_ok s \<and> dense_ok s \<and> grads_apart s \<and> 0 < length (replicas s) \<and> variable_locators s \<noteq> []"

text \<open>What the code relies on: copying between buffers of one length copies.\<close>

definition copies :: "'v tensor_lib \<Rightarrow> bool" where
  "copies lib \<longleftrightarrow> (\<forall>a b. length a = length b \<longrightarrow> tl_copy_memory lib a b = b)"

definition fits :: "variable \<Rightarrow> tensor_ref \<Rightarrow> bool" where
  "fits v g \<longleftrightarrow> t_type g = v_dtype v \<and> t_device g = v_device v \<and> t_format g = v_format v \<and> \<not> t_sparse g"

lemma data_okD:
  assumes "data_ok s"
  shows "plain s" "layout_ok s" "dense_ok s" "grads_apart s"
  using assms by (simp_all add: data_ok_def)

lemma data_ok_cong:
  assumes "plain s' = plain s" and "storages s' = storages s" and "grads s' = grads s" and "replicas s' = replicas s" and "buckets s' = buckets s"
    and "variable_locators s' = variable_locators s"
  shows "data_ok s' = data_ok s"
  using assms by (simp add: data_ok_def layout_ok_def dense_ok_def grads_apart_def cell_def rep_at_def)

lemma dense_okD:
  assumes "dense_ok s" and "in_range s b r"
  shows "dense_replica (storages s) (replicas s ! r) (b_variable_indices (buckets s ! b)) (the (br_contents (rep_at s b r))) (rep_at s b r)"
    "\<not> b_expect_sparse (buckets s ! b)"
  using assms by (auto simp: dense_ok_def)

lemma view_nth:
  assumes "dense_replica st vars vs t rep" and "j < length vs"
  shows "views_of t rep ! j = t\<lparr>t_offset := offset_of (br_lengths rep) j, t_length := br_lengths rep ! j\<rparr>" "j < length (views_of t rep)"
  using assms by (auto simp: dense_replica_def views_of_def narrow_def)

text \<open>Where the locators put a variable.\<close>

lemma layout_at:
  assumes l: "layout_ok s" and v: "v < length (variable_locators s)"
  obtains b j where "variable_locators s ! v = \<lparr>bucket_index = b, intra_bucket_index = j\<rparr>" "b < length (buckets s)"
    "j < length (b_variable_indices (buckets s ! b))" "b_variable_indices (buckets s ! b) ! j = v"
proof -
  let ?b = "bucket_index (variable_locators s ! v)"
  have b: "?b < length (buckets s)" "v \<in> set (b_variable_indices (buckets s ! ?b))" using l v by (auto simp: layout_ok_def)
  then obtain j where j: "j < length (b_variable_indices (buckets s ! ?b))" "b_variable_indices (buckets s ! ?b) ! j = v"
    by (auto simp: in_set_conv_nth)
  then have "variable_locators s ! v = \<lparr>bucket_index = ?b, intra_bucket_index = j\<rparr>"
    using l b(1) unfolding layout_ok_def bucket_layout_def by metis
  then show thesis using that b(1) j by blast
qed

lemma layout_rep:
  assumes "layout_ok s" and "in_range s b r"
  shows "r < length (b_replicas (buckets s ! b))" "br_variables (rep_at s b r) = map (var_at r) (b_variable_indices (buckets s ! b))"
proof -
  have l: "bucket_layout (length (replicas s)) (variable_locators s) b (buckets s ! b)" using assms by (simp add: layout_ok_def)
  show r: "r < length (b_replicas (buckets s ! b))" using layout_replicas [OF l] assms(2) by simp
  have "map br_variables (b_replicas (buckets s ! b)) ! r = map (\<lambda>r. map (var_at r) (b_variable_indices (buckets s ! b))) [0..<length (replicas s)] ! r"
    using l by (simp add: bucket_layout_def)
  then show "br_variables (rep_at s b r) = map (var_at r) (b_variable_indices (buckets s ! b))"
    using r assms(2) by (simp add: rep_at_def)
qed

section \<open>Copying a gradient into its bucket\<close>

definition view_at :: "'v reducer \<Rightarrow> nat \<Rightarrow> nat \<Rightarrow> nat \<Rightarrow> tensor_ref" where
  "view_at s b r j = (the (br_contents (rep_at s b r)))\<lparr>t_offset := offset_of (lens_at s b r) j, t_length := lens_at s b r ! j\<rparr>"

lemma lens_at_rep:
  assumes "dense_ok s" and "in_range s b r"
  shows "br_lengths (rep_at s b r) = lens_at s b r" "length (storages s ! cell s b r) = sum_list (lens_at s b r)"
    "cell s b r < length (storages s)"
  using dense_okD(1) [OF assms] by (simp_all add: dense_replica_def lens_at_def cell_def)

lemma cell_inj: "dense_ok s \<Longrightarrow> in_range s b r \<Longrightarrow> in_range s b' r' \<Longrightarrow> (b', r') \<noteq> (b, r) \<Longrightarrow> cell s b' r' \<noteq> cell s b r"
  unfolding dense_ok_def by blast

lemma views_at:
  assumes "dense_ok s" and "in_range s b r" and "j < length (b_variable_indices (buckets s ! b))"
  shows "vec_at (br_views_in (rep_at s b r)) j = Inr (view_at s b r j)" "vec_at (br_views_out (rep_at s b r)) j = Inr (view_at s b r j)"
  using view_nth [OF dense_okD(1) [OF assms(1,2)] assms(3)] dense_okD(1) [OF assms(1,2)] lens_at_rep(1) [OF assms(1,2)]
  by (auto simp: dense_replica_def view_at_def)

lemma variable_in_range:
  assumes "dense_ok s" and "in_range s b r" and "v \<in> set (b_variable_indices (buckets s ! b))"
  shows "variable_at (var_at r v) s = (Inr (replicas s ! r ! v), s)" "v_dtype (replicas s ! r ! v) = t_type (the (br_contents (rep_at s b r)))"
    "v_device (replicas s ! r ! v) = t_device (the (br_contents (rep_at s b r)))"
  using dense_okD(1) [OF assms(1,2)] assms(2,3) by (auto simp: dense_replica_def variable_at_def bindM_def atM_def vec_at_def)

lemma mark_dense:
  assumes d: "data_ok s" and rg: "in_range s b r" and j: "j < length (b_variable_indices (buckets s ! b))"
    and v: "b_variable_indices (buckets s ! b) ! j = v" and g: "map_of (grads s) (var_at r v) = Some g" and f: "fits (replicas s ! r ! v) g"
  shows "mark_variable_ready_dense lib (var_at r v) s =
    (Inr (), s\<lparr>storages := tensor_write (view_at s b r j) (tl_copy_memory lib (tensor_read (storages s) (view_at s b r j))
       (map (tl_mul_recip lib (divFactor s)) (tensor_read (storages s) g))) (storages s)\<rparr>)"
proof -
  note dd = data_okD [OF d]
  note lr = layout_rep [OF dd(2) rg] and va = views_at(1) [OF dd(3) rg j]
  have vs: "v \<in> set (b_variable_indices (buckets s ! b))" using j v by auto
  have loc: "variable_locators s ! v = \<lparr>bucket_index = b, intra_bucket_index = j\<rparr>" "v < length (variable_locators s)"
    using dd(2) rg j v by (auto simp: layout_ok_def bucket_layout_def)
  note vr = variable_in_range [OF dd(3) rg vs]
  have ra: "bucket_replica_at b r s = (Inr (rep_at s b r), s)"
    using rg lr(1) by (simp add: bucket_replica_at_def bindM_def atM_def vec_at_def rep_at_def)
  have te: "type_equal g (view_at s b r j)" "t_device g = t_device (view_at s b r j)"
    using f vr dense_okD(1) [OF dd(3) rg] by (auto simp: fits_def type_equal_def view_at_def dense_replica_def)
  have na: "\<not> is_alias_of g (view_at s b r j)"
    using dd(4) g rg by (auto simp: grads_apart_def is_alias_of_def view_at_def cell_def)
  have pl: "\<not> gradient_as_bucket_view s" "\<not> rpc_context s" "\<not> comm_hook s" using dd(1) by (auto simp: plain_def)
  have fm: "t_format g = v_format (replicas s ! r ! v)" using f by (simp add: fits_def)
  have bv: "vec_at (br_variables (rep_at s b r)) j = Inr (var_at r v)" using lr(2) j v by simp
  have lo: "locate (var_at r v) s = (Inr \<lparr>bucket_index = b, intra_bucket_index = j\<rparr>, s)"
    using loc by (simp add: locate_def atM_def vec_at_def bindM_def)
  show ?thesis
    unfolding mark_variable_ready_dense_def
    by (simp add: bindM_def lo ra va bv vr(1) Reducer_runGradCallbackForVariable_def pl g dense_callback_def check_grad_layout_def te na
        format_casted_def fm copy_grad_to_bucket_def Let_def write_store_def alist_update_same del: vec_at_simps)
qed

lemma tensor_write_view:
  assumes d: "dense_ok s" and rg: "in_range s b r" and j: "j < length (b_variable_indices (buckets s ! b))"
    and len: "length vs = lens_at s b r ! j"
  defines "s' \<equiv> s\<lparr>storages := tensor_write (view_at s b r j) vs (storages s)\<rparr>"
  shows "parts s' b r = (parts s b r)[j := vs]" "dense_ok s'"
    "in_range s b' r' \<Longrightarrow> (b', r') \<noteq> (b, r) \<Longrightarrow> parts s' b' r' = parts s b' r'"
    "i \<noteq> cell s b r \<Longrightarrow> storages s' ! i = storages s ! i" "length (storages s') = length (storages s)"
proof -
  note lr = lens_at_rep [OF d rg]
  have jl: "j < length (lens_at s b r)" using j by (simp add: lens_at_def)
  have w: "storages s' = (storages s)[cell s b r := splice (offset_of (lens_at s b r) j) (lens_at s b r ! j) vs (storages s ! cell s b r)]"
    by (simp add: s'_def tensor_write_def view_at_def cell_def)
  have same: "buckets s' = buckets s" "replicas s' = replicas s" by (simp_all add: s'_def)
  have cs: "cell s' = cell s" "lens_at s' = lens_at s" "rep_at s' = rep_at s"
    by (auto simp: fun_eq_iff cell_def lens_at_def rep_at_def same)
  show "parts s' b r = (parts s b r)[j := vs]"
    using chop_splice [OF lr(2) jl len] lr(3) by (simp add: parts_def cs w)
  show "storages s' ! i = storages s ! i" if "i \<noteq> cell s b r" for i using that by (simp add: w)
  then show "parts s' b' r' = parts s b' r'" if "in_range s b' r'" "(b', r') \<noteq> (b, r)"
    using cell_inj [OF d rg that] by (simp add: parts_def cs)
  show ls: "length (storages s') = length (storages s)" by (simp add: w)
  have "length (storages s' ! i) = length (storages s ! i)" for i
    using length_splice [of "offset_of (lens_at s b r) j" "lens_at s b r ! j" "storages s ! cell s b r" vs] offset_bound [OF jl] lr(2,3) len
    by (cases "i = cell s b r") (simp_all add: w)
  then have "dense_replica (storages s') vars ws t rep = dense_replica (storages s) vars ws t rep" for vars ws t rep
    using ls by (simp add: dense_replica_def)
  then show "dense_ok s'" using d unfolding dense_ok_def cs same by auto
qed

section \<open>Operations that leave the data alone\<close>

text \<open>The state without its counters and its communication.\<close>

definition core_bucket :: "Bucket \<Rightarrow> Bucket" where
  "core_bucket bk = bk\<lparr>b_replicas := map (\<lambda>r. r\<lparr>br_pending := 0\<rparr>) (b_replicas bk), b_pending := 0, b_work := None, b_future_work := None\<rparr>"

definition core :: "'v reducer \<Rightarrow> 'v reducer" where
  "core s = s\<lparr>buckets := map core_bucket (buckets s), next_bucket := 0, pg_log := [], finalizers := 0\<rparr>"

lemma core_simps [simp]: "core (s\<lparr>next_bucket := n\<rparr>) = core s" "core (s\<lparr>pg_log := l\<rparr>) = core s" "core (s\<lparr>finalizers := n\<rparr>) = core s"
  by (simp_all add: core_def)

lemma core_launch [simp]: "core (launch_bucket b s) = core s"
  by (simp add: launch_bucket_def Let_def upd_bucket_def core_def map_update_same core_bucket_def)

lemma core_launch_ready [simp]: "core (launch_ready k s) = core s"
  by (induction k arbitrary: s) simp_all

lemma core_counted_down: "core (s\<lparr>buckets := (buckets s)[b := counted_down r (buckets s ! b)]\<rparr>) = core s"
proof -
  have "core_bucket (counted_down r bk) = core_bucket bk" for bk
    by (simp add: counted_down_def Let_def core_bucket_def map_update_same)
  then show ?thesis by (simp add: core_def map_update_same)
qed

lemma core_eqD:
  assumes "core s' = core s"
  shows "storages s' = storages s" "grads s' = grads s" "replicas s' = replicas s" "variable_locators s' = variable_locators s"
    "plain s' = plain s" "divFactor s' = divFactor s" "forwardPassWorkHandle s' = forwardPassWorkHandle s"
    "length (buckets s') = length (buckets s)" "expect_autograd_hooks s' = expect_autograd_hooks s"
    "map core_bucket (buckets s') = map core_bucket (buckets s)" "comm_hook s' = comm_hook s" "require_finalize s' = require_finalize s"
proof -
  note a = arg_cong [OF assms]
  show "storages s' = storages s" "grads s' = grads s" "replicas s' = replicas s" "variable_locators s' = variable_locators s"
    "divFactor s' = divFactor s" "forwardPassWorkHandle s' = forwardPassWorkHandle s" "expect_autograd_hooks s' = expect_autograd_hooks s"
    "map core_bucket (buckets s') = map core_bucket (buckets s)" "comm_hook s' = comm_hook s" "require_finalize s' = require_finalize s"
    using a [of storages] a [of grads] a [of replicas] a [of variable_locators] a [of divFactor] a [of forwardPassWorkHandle]
      a [of expect_autograd_hooks] a [of buckets] a [of comm_hook] a [of require_finalize] by (simp_all add: core_def)
  then show "length (buckets s') = length (buckets s)" by (metis length_map)
  show "plain s' = plain s"
    using a [of find_unused_parameters] a [of gradient_as_bucket_view] a [of rpc_context] a [of comm_hook] by (simp add: core_def plain_def)
qed

lemma core_nth:
  assumes "core s' = core s" and "b < length (buckets s)"
  shows "b_variable_indices (buckets s' ! b) = b_variable_indices (buckets s ! b)"
    "b_expect_sparse (buckets s' ! b) = b_expect_sparse (buckets s ! b)"
    "length (b_replicas (buckets s' ! b)) = length (b_replicas (buckets s ! b))"
    "r < length (b_replicas (buckets s ! b)) \<Longrightarrow> (rep_at s' b r)\<lparr>br_pending := 0\<rparr> = (rep_at s b r)\<lparr>br_pending := 0\<rparr>"
proof -
  have c: "core_bucket (buckets s' ! b) = core_bucket (buckets s ! b)"
    using core_eqD(8,10) [OF assms(1)] assms(2) by (metis nth_map)
  note a = arg_cong [OF c]
  show "b_variable_indices (buckets s' ! b) = b_variable_indices (buckets s ! b)"
    "b_expect_sparse (buckets s' ! b) = b_expect_sparse (buckets s ! b)"
    using a [of b_variable_indices] a [of b_expect_sparse] by (simp_all add: core_bucket_def)
  have m: "map (\<lambda>r. r\<lparr>br_pending := 0\<rparr>) (b_replicas (buckets s' ! b)) = map (\<lambda>r. r\<lparr>br_pending := 0\<rparr>) (b_replicas (buckets s ! b))"
    using a [of b_replicas] by (simp add: core_bucket_def)
  then show l: "length (b_replicas (buckets s' ! b)) = length (b_replicas (buckets s ! b))" by (rule map_eq_imp_length_eq)
  show "(rep_at s' b r)\<lparr>br_pending := 0\<rparr> = (rep_at s b r)\<lparr>br_pending := 0\<rparr>" if "r < length (b_replicas (buckets s ! b))"
    using arg_cong [OF m, of "\<lambda>xs. xs ! r"] that l by (simp add: rep_at_def)
qed

lemma rep_pending_eqD:
  assumes "rep'\<lparr>br_pending := 0\<rparr> = rep\<lparr>br_pending := 0\<rparr>"
  shows "br_contents rep' = br_contents rep" "br_variables rep' = br_variables rep" "views_of t rep' = views_of t rep"
    "dense_replica st vars vs t rep' = dense_replica st vars vs t rep" "br_views_out rep' = br_views_out rep"
  using assms by (cases rep'; cases rep; simp add: dense_replica_def views_of_def)+

lemma core_data:
  assumes c: "core s' = core s" and l: "layout_ok s"
  shows "in_range s b r \<Longrightarrow> cell s' b r = cell s b r" "in_range s b r \<Longrightarrow> parts s' b r = parts s b r"
    "in_range s b r \<Longrightarrow> contents_read s' (rep_at s' b r) = contents_read s (rep_at s b r)" "layout_ok s'"
    "dense_ok s' = dense_ok s" "grads_apart s' = grads_apart s" "in_range s b r \<Longrightarrow> lens_at s' b r = lens_at s b r"
proof -
  note e = core_eqD [OF c]
  have rp: "(rep_at s' b r)\<lparr>br_pending := 0\<rparr> = (rep_at s b r)\<lparr>br_pending := 0\<rparr>" if "in_range s b r" for b r
    using core_nth(4) [OF c] layout_rep(1) [OF l that] that by simp
  show cell: "cell s' b r = cell s b r" if "in_range s b r" for b r
    using rep_pending_eqD(1) [OF rp [OF that]] by (simp add: cell_def)
  show lens: "lens_at s' b r = lens_at s b r" if "in_range s b r" for b r
    using core_nth(1) [OF c] that by (simp add: lens_at_def e)
  show "parts s' b r = parts s b r" if "in_range s b r"
    using cell [OF that] lens [OF that] by (simp add: parts_def e)
  show "contents_read s' (rep_at s' b r) = contents_read s (rep_at s b r)" if "in_range s b r"
    using rep_pending_eqD(1) [OF rp [OF that]] by (simp add: contents_read_def e split: option.split)
  show "dense_ok s' = dense_ok s"
  proof -
    let ?D = "\<lambda>s b r. \<not> b_expect_sparse (buckets s ! b) \<and>
      dense_replica (storages s) (replicas s ! r) (b_variable_indices (buckets s ! b)) (the (br_contents (rep_at s b r))) (rep_at s b r)"
    have "?D s' b r = ?D s b r" if "in_range s b r" for b r
      using that core_nth(1,2) [OF c] by (simp add: e rep_pending_eqD(1,4) [OF rp [OF that]])
    then have "(\<forall>b r. in_range s b r \<longrightarrow> ?D s' b r) = (\<forall>b r. in_range s b r \<longrightarrow> ?D s b r)" by blast
    moreover have "(\<forall>b r b' r'. in_range s b r \<longrightarrow> in_range s b' r' \<longrightarrow> cell s' b r = cell s' b' r' \<longrightarrow> b' = b \<and> r' = r) =
        (\<forall>b r b' r'. in_range s b r \<longrightarrow> in_range s b' r' \<longrightarrow> cell s b r = cell s b' r' \<longrightarrow> b' = b \<and> r' = r)"
      using cell by simp
    ultimately show ?thesis unfolding dense_ok_def e(3,8) by blast
  qed
  show "grads_apart s' = grads_apart s" unfolding grads_apart_def e using cell by auto
  have "bucket_layout (length (replicas s')) (variable_locators s') b (buckets s' ! b)" if b: "b < length (buckets s)" for b
  proof -
    have bl: "bucket_layout (length (replicas s)) (variable_locators s) b (buckets s ! b)" using l b by (simp add: layout_ok_def)
    have "map br_variables (b_replicas (buckets s' ! b)) = map br_variables (b_replicas (buckets s ! b))"
      by (rule nth_equalityI) (use core_nth(3) [OF c b] rep_pending_eqD(2) [OF core_nth(4) [OF c b]] in \<open>auto simp: rep_at_def\<close>)
    then show ?thesis using bl core_nth(1) [OF c b] by (simp add: bucket_layout_def e)
  qed
  then show "layout_ok s'" using l core_nth(1) [OF c] unfolding layout_ok_def e by auto
qed

section \<open>Requests\<close>

definition request_of :: "'v reducer \<Rightarrow> nat \<Rightarrow> 'v request" where
  "request_of s b = Allreduce b (map (contents_read s) (b_replicas (buckets s ! b)))"

lemma request_of_parts:
  assumes "layout_ok s" and "dense_ok s" and "b < length (buckets s)"
  shows "request_of s b = Allreduce b (map (\<lambda>r. concat (parts s b r)) [0..<length (replicas s)])"
proof -
  have "length (b_replicas (buckets s ! b)) = length (replicas s)"
    using assms(1,3) layout_replicas unfolding layout_ok_def by blast
  moreover have "contents_read s (b_replicas (buckets s ! b) ! r) = concat (parts s b r)" if "r < length (replicas s)" for r
  proof -
    have rg: "in_range s b r" using that assms(3) by simp
    have dr: "dense_replica (storages s) (replicas s ! r) (b_variable_indices (buckets s ! b)) (the (br_contents (rep_at s b r))) (rep_at s b r)"
      by (rule dense_okD(1) [OF assms(2) rg])
    then have "contents_read s (rep_at s b r) = storages s ! cell s b r"
      by (cases "br_contents (rep_at s b r)") (auto simp: contents_read_def tensor_read_def dense_replica_def cell_def)
    then show ?thesis using concat_chop [OF lens_at_rep(2) [OF assms(2) rg]] by (simp add: parts_def rep_at_def)
  qed
  ultimately show ?thesis unfolding request_of_def by (auto intro!: nth_equalityI)
qed

lemma request_of_core: "core s' = core s \<Longrightarrow> layout_ok s \<Longrightarrow> b < length (buckets s) \<Longrightarrow> request_of s' b = request_of s b"
proof -
  assume c: "core s' = core s" and l: "layout_ok s" and b: "b < length (buckets s)"
  have "length (b_replicas (buckets s ! b)) = length (replicas s)"
    using l b layout_replicas unfolding layout_ok_def by blast
  then show ?thesis unfolding request_of_def
    using core_data(3) [OF c l, of b] core_nth(3) [OF c b] b by (auto simp: rep_at_def intro!: nth_equalityI)
qed

text \<open>The works of the launched buckets are the positions of their requests in the log.\<close>

lemma launch_ready_requests:
  assumes "\<not> comm_hook s" and "layout_ok s" and "next_bucket s \<le> length (buckets s)"
  shows "pg_log (launch_ready k s) = pg_log s @ map (request_of s) [next_bucket s..<next_bucket (launch_ready k s)] \<and>
    next_bucket s \<le> next_bucket (launch_ready k s) \<and> next_bucket (launch_ready k s) \<le> length (buckets s) \<and>
    (\<forall>b. b_work (buckets (launch_ready k s) ! b) = (if next_bucket s \<le> b \<and> b < next_bucket (launch_ready k s)
       then Some (length (pg_log s) + (b - next_bucket s)) else b_work (buckets s ! b)))"
  using assms
proof (induction k arbitrary: s)
  case 0
  then show ?case by auto
next
  case (Suc k)
  let ?n = "next_bucket s" and ?s = "(launch_bucket (next_bucket s) s)\<lparr>next_bucket := Suc (next_bucket s)\<rparr>"
  show ?case
  proof (cases "?n < length (buckets s) \<and> b_pending (buckets s ! ?n) = 0")
    case True
    have c: "core ?s = core s" by simp
    have ls: "layout_ok ?s" by (rule core_data(4) [OF c Suc.prems(2)])
    have lb: "length (buckets ?s) = length (buckets s)" by (rule core_eqD(8) [OF c])
    have log: "pg_log ?s = pg_log s @ [request_of s ?n]"
      using Suc.prems(1) by (simp add: launch_bucket_def Let_def upd_bucket_def request_of_def)
    have wk: "b_work (buckets ?s ! b) = (if b = ?n then Some (length (pg_log s)) else b_work (buckets s ! b))" for b
      using Suc.prems(1) True by (cases "b = ?n") (simp_all add: launch_bucket_def Let_def upd_bucket_def)
    note IH = Suc.IH [of ?s, OF _ ls]
    have IH': "pg_log (launch_ready k ?s) = pg_log ?s @ map (request_of ?s) [Suc ?n..<next_bucket (launch_ready k ?s)]"
      "Suc ?n \<le> next_bucket (launch_ready k ?s)" "next_bucket (launch_ready k ?s) \<le> length (buckets s)"
      "\<And>b. b_work (buckets (launch_ready k ?s) ! b) = (if Suc ?n \<le> b \<and> b < next_bucket (launch_ready k ?s)
         then Some (length (pg_log ?s) + (b - Suc ?n)) else b_work (buckets ?s ! b))"
      using IH Suc.prems(1) True lb core_eqD(11) [OF c] by auto
    have lr: "launch_ready (Suc k) s = launch_ready k ?s" using True by simp
    have "map (request_of ?s) [Suc ?n..<next_bucket (launch_ready k ?s)] = map (request_of s) [Suc ?n..<next_bucket (launch_ready k ?s)]"
      using request_of_core [OF c Suc.prems(2)] IH'(3) by auto
    then have "pg_log (launch_ready (Suc k) s) = pg_log s @ map (request_of s) [?n..<next_bucket (launch_ready (Suc k) s)]"
      unfolding lr IH'(1) log using IH'(2) by (simp add: upt_conv_Cons)
    moreover have "b_work (buckets (launch_ready (Suc k) s) ! b) = (if ?n \<le> b \<and> b < next_bucket (launch_ready (Suc k) s)
       then Some (length (pg_log s) + (b - ?n)) else b_work (buckets s ! b))" for b
      unfolding lr IH'(4) wk log using IH'(2) by (auto simp: not_less_eq_eq)
    ultimately show ?thesis unfolding lr using IH'(2,3) by auto
  next
    case False
    then show ?thesis using Suc.prems by auto
  qed
qed

section \<open>The effect of a hook\<close>

definition factor :: "'v group \<Rightarrow> 'v reducer \<Rightarrow> int option" where
  "factor grp s = (case forwardPassWorkHandle s of
     Some (results, False) \<Rightarrow> (case results of [] \<Rightarrow> None | d # _ \<Rightarrow> Some d)
   | _ \<Rightarrow> Some (g_size grp))"

definition has_factor :: "'v group \<Rightarrow> int \<Rightarrow> 'v reducer \<Rightarrow> bool" where
  "has_factor grp D s \<longleftrightarrow> (if divFactor s = kUnsetDivFactor then factor grp s = Some D else divFactor s = D)"

lemma set_div_factor_eq: "has_factor grp D s \<Longrightarrow> set_div_factor grp s = (Inr (), s\<lparr>divFactor := D\<rparr>)"
  by (auto simp: has_factor_def set_div_factor_def factor_def bindM_def split: if_splits option.splits list.splits bool.splits)

lemma factor_storages [simp]: "factor grp (s\<lparr>storages := W\<rparr>) = factor grp s"
  by (simp add: factor_def)

lemma has_factor_set:
  assumes "has_factor grp D s"
  shows "has_factor grp D (s\<lparr>divFactor := D\<rparr>)"
proof -
  have "factor grp (s\<lparr>divFactor := D\<rparr>) = factor grp s" by (simp add: factor_def)
  then show ?thesis using assms by (auto simp: has_factor_def split: if_splits)
qed

text \<open>Bookkeeping that neither the data nor the counters depend on.\<close>

definition stripped :: "'v reducer \<Rightarrow> 'v reducer" where
  "stripped s = s\<lparr>rebuilt_params := [], rebuilt_param_indices := [], backward_stats := [], require_finalize := False, divFactor := 0\<rparr>"

lemma stripped_eqD:
  assumes "stripped s' = stripped s"
  shows "data_ok s' = data_ok s" "acct s' = acct s" "storages s' = storages s" "grads s' = grads s" "replicas s' = replicas s"
    "buckets s' = buckets s" "next_bucket s' = next_bucket s" "pg_log s' = pg_log s" "finalizers s' = finalizers s"
    "comm_hook s' = comm_hook s" "expect_autograd_hooks s' = expect_autograd_hooks s" "variable_locators s' = variable_locators s"
    "forwardPassWorkHandle s' = forwardPassWorkHandle s" "find_unused_parameters s' = find_unused_parameters s" "plain s' = plain s"
proof -
  note a = arg_cong [OF assms]
  show f: "storages s' = storages s" "grads s' = grads s" "replicas s' = replicas s"
    "buckets s' = buckets s" "next_bucket s' = next_bucket s" "pg_log s' = pg_log s" "finalizers s' = finalizers s"
    "comm_hook s' = comm_hook s" "expect_autograd_hooks s' = expect_autograd_hooks s" "variable_locators s' = variable_locators s"
    "forwardPassWorkHandle s' = forwardPassWorkHandle s" "find_unused_parameters s' = find_unused_parameters s"
    using a [of storages] a [of grads] a [of replicas] a [of buckets] a [of next_bucket] a [of pg_log] a [of finalizers]
      a [of comm_hook] a [of expect_autograd_hooks] a [of variable_locators] a [of forwardPassWorkHandle] a [of find_unused_parameters]
    by (simp_all add: stripped_def)
  show p: "plain s' = plain s"
    using a [of find_unused_parameters] a [of gradient_as_bucket_view] a [of rpc_context] a [of comm_hook] by (simp add: stripped_def plain_def)
  show "acct s' = acct s"
    using f a [of has_marked_unused_parameters] a [of unused_parameters] by (simp add: acct_def stripped_def)
  show "data_ok s' = data_ok s" by (rule data_ok_cong) (use p f in simp_all)
qed

lemma count_down_data:
  assumes l: "layout_ok s" and h: "\<not> comm_hook s" and rg: "in_range s b r" and n: "next_bucket s \<le> length (buckets s)"
    and c: "count_down b r s = (Inr (), s')"
  shows "core s' = core s \<and> pg_log s' = pg_log s @ map (request_of s) [next_bucket s..<next_bucket s'] \<and>
    next_bucket s \<le> next_bucket s' \<and> next_bucket s' \<le> length (buckets s) \<and>
    (\<forall>i. b_work (buckets s' ! i) = (if next_bucket s \<le> i \<and> i < next_bucket s'
       then Some (length (pg_log s) + (i - next_bucket s)) else b_work (buckets s ! i)))"
proof -
  let ?s = "s\<lparr>buckets := (buckets s)[b := counted_down r (buckets s ! b)]\<rparr>"
  have cs: "core ?s = core s" by (rule core_counted_down)
  have l2: "layout_ok ?s" by (rule core_data(4) [OF cs l])
  have rl: "r < length (b_replicas (buckets s ! b))" by (rule layout_rep(1) [OF l rg])
  have wk: "b_work (buckets ?s ! i) = b_work (buckets s ! i)" for i
    using rg by (cases "i = b") (simp_all add: counted_down_def Let_def)
  from c have "s' = ?s \<or> s' = launch_ready (length (buckets ?s) - next_bucket ?s) ?s"
    using rg unfolding count_down_alt [OF conjunct1 [OF rg] rl] Let_def
    by (auto simp: mark_bucket_ready_def bindM_def split: if_splits)
  then show ?thesis
  proof
    assume "s' = ?s"
    then show ?thesis using cs wk n by auto
  next
    assume s': "s' = launch_ready (length (buckets ?s) - next_bucket ?s) ?s"
    have rq: "map (request_of ?s) [next_bucket s..<k] = map (request_of s) [next_bucket s..<k]" if "k \<le> length (buckets s)" for k
      using request_of_core [OF cs l] that by auto
    show ?thesis
      using launch_ready_requests [of ?s "length (buckets ?s) - next_bucket ?s"] h l2 n cs wk rq
      unfolding s' by auto
  qed
qed

lemma tracks_pending:
  assumes t: "tracks M s" and rg: "in_range s b r" and v: "v \<in> set (b_variable_indices (buckets s ! b))" and new: "var_at r v \<notin> M"
  shows "br_pending (b_replicas (buckets s ! b) ! r) \<noteq> 0"
proof -
  have l: "layout_ok s" using t by (simp add: tracks_def)
  have "map br_pending (b_replicas (buckets s ! b)) ! r = map (\<lambda>r. missing M r (b_variable_indices (buckets s ! b))) [0..<length (replicas s)] ! r"
    using t rg by (simp add: tracks_def bucket_counts_def)
  then have "br_pending (b_replicas (buckets s ! b) ! r) = missing M r (b_variable_indices (buckets s ! b))"
    using layout_rep(1) [OF l rg] rg by simp
  then show ?thesis using v new by (auto simp: missing_0)
qed

text \<open>The state before the counters are touched: the gradient is in its place of the bucket.\<close>

lemma hook_prefix:
  assumes d: "data_ok s" and t: "tracks M s" and ex: "expect_autograd_hooks s" and hf: "has_factor grp D s"
    and rg: "in_range s b r" and j: "j < length (b_variable_indices (buckets s ! b))" and v: "b_variable_indices (buckets s ! b) ! j = v"
    and new: "var_at r v \<notin> M" and g: "map_of (grads s) (var_at r v) = Some g" and f: "fits (replicas s ! r ! v) g"
  obtains s2 where "stripped s2 = stripped s" "divFactor s2 = D" "require_finalize s2" "has_factor grp D s2"
    "autograd_hook lib grp (var_at r v) s = bindM (count_down b r) (\<lambda>_. modifyM queue_finalizer)
      (s2\<lparr>storages := tensor_write (view_at s b r j) (tl_copy_memory lib (tensor_read (storages s) (view_at s b r j))
         (map (tl_mul_recip lib D) (tensor_read (storages s) g))) (storages s)\<rparr>)"
proof -
  let ?i = "var_at r v"
  note dd = data_okD [OF d]
  have vs: "v \<in> set (b_variable_indices (buckets s ! b))" using j v by auto
  have fu: "\<not> find_unused_parameters s" using dd(1) by (simp add: plain_def)
  obtain s0 where s0: "push_rebuilt_params ?i s = (Inr (), s0)" "stripped s0 = stripped s" "divFactor s0 = divFactor s"
    using that [of "snd (push_rebuilt_params ?i s)"] variable_in_range(1) [OF dd(3) rg vs]
    by (cases "should_rebuild_buckets s \<and> r = 0") (simp_all add: push_rebuilt_params_def bindM_def stripped_def)
  note e0 = stripped_eqD [OF s0(2)]
  have hook: "autograd_hook lib grp ?i s = mark_variable_ready lib grp ?i s0"
    using fu ex s0(1) e0(14) by (simp add: autograd_hook_def bindM_def)
  have d0: "data_ok s0" using d e0 by simp
  have loc: "variable_locators s0 ! v = \<lparr>bucket_index = b, intra_bucket_index = j\<rparr>" "v < length (variable_locators s0)"
    using dd(2) rg j v e0(12) by (auto simp: layout_ok_def bucket_layout_def)
  have pend: "br_pending (b_replicas (buckets s0 ! b) ! r) \<noteq> 0"
    using tracks_pending [OF tracks_acct [OF e0(2) t] _ _ new] rg vs e0 by simp
  let ?s1 = "stamped ?i s0"
  have st1: "stripped ?s1 = stripped s" using s0(2) by (simp add: stamped_def stripped_def)
  let ?s2 = "?s1\<lparr>divFactor := D\<rparr>"
  have st2: "stripped ?s2 = stripped s" using st1 by (simp add: stripped_def)
  note e2 = stripped_eqD [OF st2]
  have "factor grp ?s1 = factor grp s" using stripped_eqD(13) [OF st1] by (simp add: factor_def)
  moreover have "divFactor ?s1 = divFactor s" using s0(3) by (simp add: stamped_def)
  ultimately have hf1: "has_factor grp D ?s1" using hf by (simp add: has_factor_def)
  have d2: "data_ok ?s2" using d e2 by simp
  have va: "view_at ?s2 b r j = view_at s b r j" by (simp add: view_at_def rep_at_def lens_at_def e2)
  have md: "mark_variable_ready_dense lib ?i ?s2 = (Inr (), ?s2\<lparr>storages := tensor_write (view_at s b r j)
      (tl_copy_memory lib (tensor_read (storages s) (view_at s b r j)) (map (tl_mul_recip lib D) (tensor_read (storages s) g))) (storages s)\<rparr>)"
    using mark_dense [OF d2, of b r j v g lib] rg j v g f unfolding va by (simp add: e2)
  have sp: "\<not> b_expect_sparse (buckets s0 ! b)" using dense_okD(2) [OF dd(3) rg] e0 by simp
  have "mark_variable_ready lib grp ?i s0 = bindM (count_down b r) (\<lambda>_. modifyM queue_finalizer) (?s2\<lparr>storages := tensor_write (view_at s b r j)
      (tl_copy_memory lib (tensor_read (storages s) (view_at s b r j)) (map (tl_mul_recip lib D) (tensor_read (storages s) g))) (storages s)\<rparr>)"
    by (subst mark_variable_ready_alt)
      (use loc rg layout_rep(1) [OF dd(2) rg] pend sp md set_div_factor_eq [OF hf1] e0 in \<open>simp_all add: bindM_Inr\<close>)
  then show thesis using that [of ?s2] hook st2 has_factor_set [OF hf1] by (simp add: stamped_def)
qed

section \<open>A backward pass\<close>

text \<open>The engine stores the gradient of a variable and runs its hook.\<close>

definition accumulated :: "VariableIndex \<Rightarrow> 'v list \<Rightarrow> 'v reducer \<Rightarrow> 'v reducer" where
  "accumulated i vs s =
     (let v = replicas s ! replica_index i ! variable_index i
      in s\<lparr>storages := storages s @ [vs], grads := AList.update i \<lparr>t_storage = length (storages s), t_offset = 0,
           t_length = length vs, t_type = v_dtype v, t_device = v_device v, t_format = v_format v, t_sparse = False\<rparr> (grads s)\<rparr>)"

definition backward_event :: "'v tensor_lib \<Rightarrow> 'v group \<Rightarrow> VariableIndex \<times> 'v list \<Rightarrow> ('v reducer, unit) cmd" where
  "backward_event lib grp e = bindM (modifyM (accumulated (fst e) (snd e))) (\<lambda>_. grad_post_hook lib grp False (fst e))"

definition valid_event :: "'v reducer \<Rightarrow> VariableIndex \<times> 'v list \<Rightarrow> bool" where
  "valid_event s e \<longleftrightarrow> replica_index (fst e) < length (replicas s) \<and> variable_index (fst e) < length (variable_locators s) \<and>
     length (snd e) = var_numel (replicas s ! replica_index (fst e) ! variable_index (fst e))"

text \<open>The contents of a bucket: the scaled gradients of its variables, one after the other, per replica.\<close>

definition flat :: "'v tensor_lib \<Rightarrow> int \<Rightarrow> (VariableIndex \<Rightarrow> 'v list) \<Rightarrow> nat \<Rightarrow> nat list \<Rightarrow> 'v list list" where
  "flat lib D G R vs = map (\<lambda>r. concat (map (\<lambda>v. map (tl_mul_recip lib D) (G (var_at r v))) vs)) [0..<R]"

definition filled :: "'v tensor_lib \<Rightarrow> int \<Rightarrow> (VariableIndex \<Rightarrow> 'v list) \<Rightarrow> VariableIndex set \<Rightarrow> 'v reducer \<Rightarrow> bool" where
  "filled lib D G M s \<longleftrightarrow> (\<forall>b r j. in_range s b r \<longrightarrow> j < length (b_variable_indices (buckets s ! b)) \<longrightarrow>
     var_at r (b_variable_indices (buckets s ! b) ! j) \<in> M \<longrightarrow>
     parts s b r ! j = map (tl_mul_recip lib D) (G (var_at r (b_variable_indices (buckets s ! b) ! j))))"

text \<open>The gradients that arrived have storages of their own, of the size of their variable.\<close>

definition grads_ok :: "VariableIndex set \<Rightarrow> 'v reducer \<Rightarrow> bool" where
  "grads_ok M s \<longleftrightarrow> (\<forall>i\<in>M. \<exists>g. map_of (grads s) i = Some g \<and> t_offset g = 0 \<and>
       t_length g = var_numel (replicas s ! replica_index i ! variable_index i) \<and> length (storages s ! t_storage g) = t_length g) \<and>
     (\<forall>i\<in>M. \<forall>i'\<in>M. i' \<noteq> i \<longrightarrow> t_storage (the (map_of (grads s) i')) \<noteq> t_storage (the (map_of (grads s) i)))"

definition pass_inv :: "'v tensor_lib \<Rightarrow> 'v group \<Rightarrow> int \<Rightarrow> (VariableIndex \<Rightarrow> 'v list) \<Rightarrow> nat \<Rightarrow> VariableIndex set \<Rightarrow> 'v reducer \<Rightarrow> bool" where
  "pass_inv lib grp D G w M s \<longleftrightarrow> data_ok s \<and> tracks M s \<and> expect_autograd_hooks s \<and> has_factor grp D s \<and> filled lib D G M s \<and>
     grads_ok M s \<and> (M \<noteq> {} \<longrightarrow> require_finalize s) \<and> length (pg_log s) = w + next_bucket s \<and>
     (\<forall>b<next_bucket s. b_work (buckets s ! b) = Some (w + b))"

lemma accumulated_fields [simp]:
  "buckets (accumulated i vs s) = buckets s" "replicas (accumulated i vs s) = replicas s"
  "variable_locators (accumulated i vs s) = variable_locators s" "next_bucket (accumulated i vs s) = next_bucket s"
  "pg_log (accumulated i vs s) = pg_log s" "finalizers (accumulated i vs s) = finalizers s" "plain (accumulated i vs s) = plain s"
  "expect_autograd_hooks (accumulated i vs s) = expect_autograd_hooks s" "acct (accumulated i vs s) = acct s"
  "has_factor grp D (accumulated i vs s) = has_factor grp D s" "require_finalize (accumulated i vs s) = require_finalize s"
  "rep_at (accumulated i vs s) = rep_at s" "cell (accumulated i vs s) = cell s" "lens_at (accumulated i vs s) = lens_at s"
  by (simp_all add: accumulated_def Let_def plain_def acct_def has_factor_def factor_def rep_at_def cell_def lens_at_def fun_eq_iff)

lemma no_context: "\<not> rpc_context s \<Longrightarrow> s\<lparr>rpc_context := False\<rparr> = s"
  by (cases s) simp

lemma accumulated_heap:
  "storages (accumulated i vs s) = storages s @ [vs]"
  "map_of (grads (accumulated i vs s)) = (map_of (grads s))(i \<mapsto> \<lparr>t_storage = length (storages s), t_offset = 0, t_length = length vs,
     t_type = v_dtype (replicas s ! replica_index i ! variable_index i), t_device = v_device (replicas s ! replica_index i ! variable_index i),
     t_format = v_format (replicas s ! replica_index i ! variable_index i), t_sparse = False\<rparr>)"
  by (simp_all add: accumulated_def Let_def update_conv')

lemma accumulated_data:
  assumes d: "data_ok s"
  shows "data_ok (accumulated i vs s)" "in_range s b r \<Longrightarrow> parts (accumulated i vs s) b r = parts s b r"
proof -
  let ?s = "accumulated i vs s"
  note dd = data_okD [OF d]
  note st = accumulated_heap(1) [of i vs s]
  have c: "cell s b r < length (storages s)" if "in_range s b r" for b r by (rule lens_at_rep(3) [OF dd(3) that])
  then show "in_range s b r \<Longrightarrow> parts ?s b r = parts s b r" by (simp add: parts_def st nth_append)
  have "dense_replica (storages ?s) vars ws t rep" if "dense_replica (storages s) vars ws t rep" for vars ws t rep
    using that by (auto simp: dense_replica_def st nth_append)
  then have "dense_ok ?s" using dd(3) unfolding dense_ok_def accumulated_fields by blast
  moreover have "grads_apart ?s"
    unfolding grads_apart_def accumulated_fields
  proof (intro allI impI)
    fix k g assume g: "map_of (grads ?s) k = Some g"
    show "t_storage g < length (storages ?s) \<and> (\<forall>b r. in_range s b r \<longrightarrow> t_storage g \<noteq> cell s b r)"
    proof (cases "k = i")
      case True
      then have "t_storage g = length (storages s)" using g by (auto simp: accumulated_heap)
      then show ?thesis using c by (simp add: st) (metis less_irrefl)
    next
      case False
      then have "map_of (grads s) k = Some g" using g by (simp add: accumulated_heap)
      then show ?thesis using dd(4) unfolding grads_apart_def by (simp add: st) (metis less_SucI)
    qed
  qed
  moreover have "layout_ok ?s" using dd(2) by (simp add: layout_ok_def)
  ultimately show "data_ok ?s" using d by (simp add: data_ok_def)
qed

lemma filled_insert:
  assumes l: "layout_ok s" and fi: "filled lib D G M s" and same: "buckets s' = buckets s" "replicas s' = replicas s"
    and rg: "in_range s b r" and j: "j < length (b_variable_indices (buckets s ! b))" "b_variable_indices (buckets s ! b) ! j = v"
    and p: "parts s' b r = (parts s b r)[j := map (tl_mul_recip lib D) (G (var_at r v))]"
    and q: "\<And>b' r'. in_range s b' r' \<Longrightarrow> (b', r') \<noteq> (b, r) \<Longrightarrow> parts s' b' r' = parts s b' r'"
  shows "filled lib D G (insert (var_at r v) M) s'"
  unfolding filled_def same
proof (intro allI impI)
  fix b' r' j' assume rg': "in_range s b' r'" and j': "j' < length (b_variable_indices (buckets s ! b'))"
    and m: "var_at r' (b_variable_indices (buckets s ! b') ! j') \<in> insert (var_at r v) M"
  let ?w = "b_variable_indices (buckets s ! b') ! j'"
  have len: "length (parts s b r) = length (b_variable_indices (buckets s ! b))" by (simp add: parts_def lens_at_def)
  show "parts s' b' r' ! j' = map (tl_mul_recip lib D) (G (var_at r' ?w))"
  proof (cases "(b', r', j') = (b, r, j)")
    case True
    then show ?thesis using p j len by simp
  next
    case False
    have "var_at r' ?w \<noteq> var_at r v"
    proof
      assume eq: "var_at r' ?w = var_at r v"
      then have "r' = r" "?w = v" by simp_all
      moreover have "b' = b" using layout_bucket_of(1) [OF l, of b v] layout_bucket_of(1) [OF l, of b' v] \<open>?w = v\<close> rg rg' j j'
        by (metis nth_mem)
      moreover have "distinct (b_variable_indices (buckets s ! b))" using l rg layout_distinct unfolding layout_ok_def by blast
      ultimately show False using False j j' by (metis nth_eq_iff_index_eq)
    qed
    then have "parts s b' r' ! j' = map (tl_mul_recip lib D) (G (var_at r' ?w))" using fi m rg' j' unfolding filled_def by blast
    moreover have "parts s' b' r' ! j' = parts s b' r' ! j'"
      using q [OF rg'] p False by (cases "(b', r') = (b, r)") auto
    ultimately show ?thesis by simp
  qed
qed

lemma grads_ok_insert:
  assumes gk: "grads_ok M s" and ap: "grads_apart s" and g: "map_of (grads s') = (map_of (grads s))(i \<mapsto> g)" and r: "replicas s' = replicas s"
    and new: "t_storage g = length (storages s)" "t_offset g = 0" "t_length g = var_numel (replicas s ! replica_index i ! variable_index i)"
      "length (storages s' ! length (storages s)) = t_length g" "i \<notin> M"
    and old: "\<And>k. k < length (storages s) \<Longrightarrow> length (storages s' ! k) = length (storages s ! k)"
  shows "grads_ok (insert i M) s'"
proof -
  have a: "\<exists>g. map_of (grads s) k = Some g \<and> t_offset g = 0 \<and> t_length g = var_numel (replicas s ! replica_index k ! variable_index k) \<and>
      length (storages s ! t_storage g) = t_length g \<and> t_storage g < length (storages s)" if "k \<in> M" for k
    using gk ap that unfolding grads_ok_def grads_apart_def by blast
  have lt: "t_storage (the (map_of (grads s) k)) < length (storages s)" if "k \<in> M" for k using a [OF that] by auto
  have "\<exists>g. map_of (grads s') k = Some g \<and> t_offset g = 0 \<and> t_length g = var_numel (replicas s' ! replica_index k ! variable_index k) \<and>
      length (storages s' ! t_storage g) = t_length g" if "k \<in> insert i M" for k
  proof (cases "k = i")
    case True
    then show ?thesis using new by (simp add: g r)
  next
    case False
    then show ?thesis using a [of k] that old by (auto simp: g r)
  qed
  moreover have "t_storage (the (map_of (grads s') k')) \<noteq> t_storage (the (map_of (grads s') k))"
    if "k \<in> insert i M" "k' \<in> insert i M" "k' \<noteq> k" for k k'
  proof -
    have "t_storage (the (map_of (grads s) k')) \<noteq> t_storage (the (map_of (grads s) k))" if "k \<in> M" "k' \<in> M"
      using gk that \<open>k' \<noteq> k\<close> unfolding grads_ok_def by blast
    then show ?thesis using that lt [of k] lt [of k'] new by (auto simp: g)
  qed
  ultimately show ?thesis unfolding grads_ok_def by blast
qed

text \<open>Up to the counters: the gradient is stored, scaled and copied to its place in the bucket.\<close>

lemma event_prefix:
  assumes cp: "copies lib" and inv: "pass_inv lib grp D G w M s" and e: "valid_event s (var_at r v, G (var_at r v))"
    and new: "var_at r v \<notin> M"
  obtains b s3 where "b = bucket_index (variable_locators s ! v)" "in_range s b r"
    "backward_event lib grp (var_at r v, G (var_at r v)) s = bindM (count_down b r) (\<lambda>_. modifyM queue_finalizer) s3"
    "data_ok s3" "acct s3 = acct s" "buckets s3 = buckets s" "pg_log s3 = pg_log s" "expect_autograd_hooks s3" "has_factor grp D s3" "require_finalize s3"
    "filled lib D G (insert (var_at r v) M) s3" "grads_ok (insert (var_at r v) M) s3"
proof -
  let ?i = "var_at r v" and ?vals = "G (var_at r v)"
  have d: "data_ok s" and t: "tracks M s" and ex: "expect_autograd_hooks s" and hf: "has_factor grp D s" and fi: "filled lib D G M s"
    and gk: "grads_ok M s"
    using inv by (auto simp: pass_inv_def)
  have rl: "r < length (replicas s)" and vl: "v < length (variable_locators s)" and len: "length ?vals = var_numel (replicas s ! r ! v)"
    using e by (auto simp: valid_event_def)
  obtain b j where bj: "variable_locators s ! v = \<lparr>bucket_index = b, intra_bucket_index = j\<rparr>" "b < length (buckets s)"
    "j < length (b_variable_indices (buckets s ! b))" "b_variable_indices (buckets s ! b) ! j = v"
    by (rule layout_at [OF data_okD(2) [OF d] vl])
  let ?s1 = "accumulated ?i ?vals s"
  have d1: "data_ok ?s1" by (rule accumulated_data(1) [OF d])
  have t1: "tracks M ?s1" by (rule tracks_acct [OF _ t]) simp
  have rg: "in_range ?s1 b r" using bj(2) rl by simp
  define g where "g = the (map_of (grads ?s1) ?i)"
  have g: "map_of (grads ?s1) ?i = Some g" "t_storage g = length (storages s)" "t_offset g = 0" "t_length g = length ?vals"
    "fits (replicas ?s1 ! r ! v) g"
    by (simp_all add: g_def accumulated_heap fits_def)
  have gr: "tensor_read (storages ?s1) g = ?vals" using g by (simp add: tensor_read_def accumulated_heap)
  have j1: "j < length (b_variable_indices (buckets ?s1 ! b))" and v1: "b_variable_indices (buckets ?s1 ! b) ! j = v" using bj by simp_all
  let ?new = "map (tl_mul_recip lib D) ?vals" and ?view = "view_at ?s1 b r j"
  have lj: "lens_at ?s1 b r ! j = length ?vals" using bj len by (simp add: lens_at_def)
  have rd: "length (tensor_read (storages ?s1) ?view) = length ?vals"
  proof -
    have "length (storages ?s1 ! cell ?s1 b r) = sum_list (lens_at ?s1 b r)" by (rule lens_at_rep(2) [OF data_okD(3) [OF d1] rg])
    moreover have "offset_of (lens_at ?s1 b r) j + lens_at ?s1 b r ! j \<le> sum_list (lens_at ?s1 b r)"
      by (rule offset_bound) (use bj in \<open>simp add: lens_at_def\<close>)
    ultimately show ?thesis using lj by (simp add: tensor_read_def view_at_def cell_def)
  qed
  define W where "W = tensor_write ?view ?new (storages ?s1)"
  obtain s2 where s2: "stripped s2 = stripped ?s1" "require_finalize s2" "has_factor grp D s2"
    "autograd_hook lib grp ?i ?s1 = bindM (count_down b r) (\<lambda>_. modifyM queue_finalizer) (s2\<lparr>storages := W\<rparr>)"
  proof (rule hook_prefix [OF d1 t1 _ _ rg j1 v1 new g(1) g(5), of grp D lib])
    fix s2 assume a: "stripped s2 = stripped ?s1" "require_finalize s2" "has_factor grp D s2"
      "autograd_hook lib grp ?i ?s1 = bindM (count_down b r) (\<lambda>_. modifyM queue_finalizer)
      (s2\<lparr>storages := tensor_write ?view (tl_copy_memory lib (tensor_read (storages ?s1) ?view)
         (map (tl_mul_recip lib D) (tensor_read (storages ?s1) g))) (storages ?s1)\<rparr>)"
    show thesis
      by (rule that [OF a(1-3)]) (use a(4) cp rd in \<open>simp add: copies_def gr W_def\<close>)
  qed (use ex hf in simp_all)
  let ?s3 = "s2\<lparr>storages := W\<rparr>" and ?sw = "?s1\<lparr>storages := W\<rparr>"
  have "stripped ?s3 = (stripped s2)\<lparr>storages := W\<rparr>" by (simp add: stripped_def)
  then have s3w: "stripped ?s3 = stripped ?sw" unfolding s2(1) by (simp add: stripped_def)
  note e3 = stripped_eqD [OF s3w]
  have tw: "parts ?sw b r = (parts ?s1 b r)[j := ?new]" "dense_ok ?sw" "length W = length (storages ?s1)"
    "\<And>b' r'. in_range ?s1 b' r' \<Longrightarrow> (b', r') \<noteq> (b, r) \<Longrightarrow> parts ?sw b' r' = parts ?s1 b' r'"
    "\<And>i. i \<noteq> cell s b r \<Longrightarrow> W ! i = storages ?s1 ! i"
    using tensor_write_view [OF data_okD(3) [OF d1] rg j1, of ?new] lj unfolding W_def by simp_all
  note sw = accumulated_fields accumulated_heap
  have psw: "parts ?s3 b' r' = parts ?sw b' r'" for b' r'
    by (simp add: parts_def lens_at_def cell_def rep_at_def e3)
  have ga: "grads_apart ?sw" using data_okD(4) [OF d1] tw(3) by (simp add: grads_apart_def cell_def rep_at_def)
  have dsw: "data_ok ?sw" using d1 ga tw(2) by (simp add: data_ok_def plain_def layout_ok_def)
  have f3: "filled lib D G (insert ?i M) ?s3"
  proof (rule filled_insert [OF data_okD(2) [OF d] fi])
    show "parts ?s3 b r = (parts s b r)[j := map (tl_mul_recip lib D) (G ?i)]"
      using tw(1) accumulated_data(2) [OF d] rg by (simp add: psw)
    show "parts ?s3 b' r' = parts s b' r'" if "in_range s b' r'" "(b', r') \<noteq> (b, r)" for b' r'
      using tw(4) that accumulated_data(2) [OF d] by (simp add: psw)
  qed (use e3 rg bj in simp_all)
  have cl: "length (W ! k) = length (storages ?s1 ! k)" if "k < length (storages ?s1)" for k
  proof (cases "k = cell s b r")
    case True
    have "length (storages ?sw ! cell ?sw b r) = sum_list (lens_at ?sw b r)" by (rule lens_at_rep(2) [OF tw(2)]) (use rg in simp)
    moreover have "length (storages ?s1 ! cell ?s1 b r) = sum_list (lens_at ?s1 b r)" by (rule lens_at_rep(2) [OF data_okD(3) [OF d1] rg])
    ultimately show ?thesis using True by (simp add: lens_at_def cell_def rep_at_def)
  qed (simp add: tw(5))
  have g3: "grads_ok (insert ?i M) ?s3"
    by (rule grads_ok_insert [OF gk data_okD(4) [OF d], where g = g])
      (use e3 g(2-4) len new cl in \<open>simp_all add: g_def accumulated_heap nth_append\<close>)
  have nc: "?s1\<lparr>rpc_context := False\<rparr> = ?s1" by (rule no_context) (use d1 in \<open>simp add: data_ok_def plain_def\<close>)
  have "backward_event lib grp (?i, ?vals) s = bindM (count_down b r) (\<lambda>_. modifyM queue_finalizer) ?s3"
    using s2(4) by (simp add: backward_event_def grad_post_hook_def bindM_def nc)
  moreover have "has_factor grp D ?s3" using s2(3) by (simp add: has_factor_def)
  ultimately show thesis
    using that [of b ?s3] bj rg s2(2) f3 g3 e3 dsw ex by simp
qed

lemma queue_finalizer_same:
  assumes "\<not> find_unused_parameters s"
  shows "queue_finalizer s = s\<lparr>finalizers := finalizers s + (if next_bucket s = length (buckets s) then 1 else 0)\<rparr>"
  using assms by (simp add: queue_finalizer_def)

lemma acct_rest_eqD:
  assumes "acct_rest s' = acct_rest s"
  shows "map b_variable_indices (buckets s') = map b_variable_indices (buckets s)" "variable_locators s' = variable_locators s"
    "replicas s' = replicas s" "length (buckets s') = length (buckets s)" "forwardPassWorkHandle s' = forwardPassWorkHandle s"
  using assms by (auto simp: acct_rest_def dest: map_eq_imp_length_eq)

lemma core_filled:
  assumes c: "core s' = core s" and l: "layout_ok s"
  shows "filled lib D G M s' = filled lib D G M s" "grads_ok M s' = grads_ok M s" "has_factor grp D s' = has_factor grp D s"
    "data_ok s' = data_ok s"
proof -
  note e = core_eqD [OF c]
  have "b_variable_indices (buckets s' ! b) = b_variable_indices (buckets s ! b)" "parts s' b r = parts s b r" if "in_range s b r" for b r
    using core_nth(1) [OF c] core_data(2) [OF c l] that by auto
  then show "filled lib D G M s' = filled lib D G M s" unfolding filled_def e by auto
  show "grads_ok M s' = grads_ok M s" unfolding grads_ok_def e ..
  show "has_factor grp D s' = has_factor grp D s" unfolding has_factor_def factor_def e ..
  show "data_ok s' = data_ok s" unfolding data_ok_def e core_data(5,6) [OF c l] using l core_data(4) [OF c l] by simp
qed

lemma filled_request:
  assumes "data_ok s" and fi: "filled lib D G M s" and b: "b < length (buckets s)" and c: "complete (length (replicas s)) M (b_variable_indices (buckets s ! b))"
  shows "request_of s b = Allreduce b (flat lib D G (length (replicas s)) (b_variable_indices (buckets s ! b)))"
proof -
  have "parts s b r = map (\<lambda>v. map (tl_mul_recip lib D) (G (var_at r v))) (b_variable_indices (buckets s ! b))" if "r < length (replicas s)" for r
    by (rule nth_equalityI) (use fi b c that in \<open>auto simp: filled_def complete_def parts_def lens_at_def\<close>)
  then show ?thesis unfolding request_of_parts [OF data_okD(2,3) [OF assms(1)] b] flat_def by simp
qed

lemma pass_step:
  assumes cp: "copies lib" and inv: "pass_inv lib grp D G w M s" and e: "valid_event s (var_at r v, G (var_at r v))"
    and new: "var_at r v \<notin> M"
  obtains s' where "backward_event lib grp (var_at r v, G (var_at r v)) s = (Inr (), s')" "pass_inv lib grp D G w (insert (var_at r v) M) s'"
    "progress s s'"
    "pg_log s' = pg_log s @ map (\<lambda>b. Allreduce b (flat lib D G (length (replicas s)) (b_variable_indices (buckets s ! b)))) [next_bucket s..<next_bucket s']"
proof -
  let ?M = "insert (var_at r v) M" and ?R = "length (replicas s)"
  have wk: "length (pg_log s) = w + next_bucket s" "\<forall>b<next_bucket s. b_work (buckets s ! b) = Some (w + b)" and t: "tracks M s"
    and fu: "\<not> find_unused_parameters s"
    using inv by (auto simp: pass_inv_def data_ok_def plain_def)
  have vr: "r < length (replicas s)" "v < length (variable_locators s)" using e by (auto simp: valid_event_def)
  obtain b s3 where s3: "b = bucket_index (variable_locators s ! v)" "in_range s b r"
    "backward_event lib grp (var_at r v, G (var_at r v)) s = bindM (count_down b r) (\<lambda>_. modifyM queue_finalizer) s3"
    "data_ok s3" "acct s3 = acct s" "buckets s3 = buckets s" "pg_log s3 = pg_log s" "expect_autograd_hooks s3" "has_factor grp D s3" "require_finalize s3"
    "filled lib D G ?M s3" "grads_ok ?M s3"
    by (rule event_prefix [OF cp inv e new])
  note a3 = acct_eqD [OF s3(5)] and l3 = data_okD(2) [OF s3(4)]
  have t3: "tracks M s3" by (rule tracks_acct [OF s3(5) t])
  obtain s4 where s4: "count_down b r s3 = (Inr (), s4)" "tracks ?M s4"
    "map req_bucket (pg_log s4) = map req_bucket (pg_log s3) @ map Some [next_bucket s3..<next_bucket s4]"
    "acct_rest s4 = acct_rest s3" "finalizers s4 = finalizers s3"
    by (rule tracks_count_down [OF t3 _ _ new, where b = b]) (use vr s3(1) a3 in simp_all)
  have nb: "next_bucket s3 \<le> length (buckets s3)"
    using t3 launched_le [of _ M "map b_variable_indices (buckets s3)"] by (simp add: tracks_def)
  have "\<not> comm_hook s3" using s3(4) by (simp add: data_ok_def plain_def)
  then have c4: "core s4 = core s3" "pg_log s4 = pg_log s3 @ map (request_of s3) [next_bucket s3..<next_bucket s4]"
    "next_bucket s3 \<le> next_bucket s4" "next_bucket s4 \<le> length (buckets s3)"
    "\<And>i. b_work (buckets s4 ! i) = (if next_bucket s3 \<le> i \<and> i < next_bucket s4
       then Some (length (pg_log s3) + (i - next_bucket s3)) else b_work (buckets s3 ! i))"
    using count_down_data [OF l3 _ _ nb s4(1)] s3(2) a3 by simp_all
  note r4 = acct_rest_eqD [OF s4(4)] and e4 = core_eqD [OF c4(1)]
  let ?s' = "queue_finalizer s4"
  have "\<not> find_unused_parameters s4" using fu s4(4) a3 by (simp add: acct_rest_def)
  note q = queue_finalizer_same [OF this]
  have c': "core ?s' = core s3" using c4(1) by (simp add: q)
  note f' = core_filled [OF c' l3] and e' = core_eqD [OF c']
  have acct': "acct_rest ?s' = acct_rest s4" "next_bucket ?s' = next_bucket s4" "pg_log ?s' = pg_log s4" "buckets ?s' = buckets s4"
    by (simp_all add: q acct_rest_def)
  have log: "pg_log s4 = pg_log s @ map (\<lambda>b. Allreduce b (flat lib D G ?R (b_variable_indices (buckets s ! b)))) [next_bucket s..<next_bucket s4]"
  proof -
    have "request_of s3 k = Allreduce k (flat lib D G ?R (b_variable_indices (buckets s ! k)))" if "k < next_bucket s4" for k
    proof -
      have kl: "k < length (buckets s3)" using that c4(4) by simp
      have "complete (length (replicas s4)) ?M (map b_variable_indices (buckets s4) ! k)"
        by (rule launched_complete) (use that s4(2) in \<open>simp add: tracks_def\<close>)
      then have "complete (length (replicas s3)) ?M (b_variable_indices (buckets s3 ! k))" unfolding r4 using kl by simp
      then show ?thesis using filled_request [OF s3(4,11) kl] by (simp add: a3 s3(6))
    qed
    then show ?thesis using c4(2) by (simp add: s3(7) a3)
  qed
  have tr: "tracks ?M ?s'" using s4(2) by (simp add: q tracks_def layout_ok_def)
  have pr: "progress s ?s'"
  proof (rule progress_acct [OF s3(5)])
    have "next_bucket s3 < length (buckets s3)" by (rule tracks_not_all [OF t3 new]) (use vr a3 in simp_all)
    moreover have "map req_bucket (pg_log s4) = map req_bucket (pg_log s3) @ map Some [next_bucket s3..<next_bucket s4] @ (if False then [None] else [])"
      using s4(3) by simp
    then have "bucket_requests (pg_log s4) = bucket_requests (pg_log s3) @ [next_bucket s3..<next_bucket s4]" by (rule bucket_requests_append)
    ultimately show "progress s3 ?s'" using c4(3,4) s4(4,5) r4(4) unfolding progress_def acct' by (simp add: q)
  qed
  have "length (pg_log s4) = w + next_bucket s4" using log wk(1) c4(3) a3(2) by simp
  moreover have "b_work (buckets s4 ! k) = Some (w + k)" if "k < next_bucket s4" for k
    using wk c4(5) [of k] that a3(2) s3(6,7) by (cases "next_bucket s3 \<le> k") simp_all
  ultimately have "pass_inv lib grp D G w ?M ?s'"
    using f' s3(4,8-12) tr e' unfolding pass_inv_def acct' by simp
  moreover have "backward_event lib grp (var_at r v, G (var_at r v)) s = (Inr (), ?s')" unfolding s3(3) by (simp add: bindM_def s4(1))
  ultimately show thesis using that [of ?s'] pr log by (simp only: acct' simp_thms)
qed

lemma pass_run:
  assumes "copies lib" and "pass_inv lib grp D G w M s" and "distinct is" and "set is \<inter> M = {}"
    and "\<forall>i\<in>set is. valid_event s (i, G i)"
  obtains s' where "for_each (backward_event lib grp) (map (\<lambda>i. (i, G i)) is) s = (Inr (), s')"
    "pass_inv lib grp D G w (M \<union> set is) s'" "progress s s'"
    "pg_log s' = pg_log s @ map (\<lambda>b. Allreduce b (flat lib D G (length (replicas s)) (b_variable_indices (buckets s ! b)))) [next_bucket s..<next_bucket s']"
proof -
  have "\<exists>s'. for_each (backward_event lib grp) (map (\<lambda>i. (i, G i)) is) s = (Inr (), s') \<and> pass_inv lib grp D G w (M \<union> set is) s' \<and> progress s s' \<and>
    pg_log s' = pg_log s @ map (\<lambda>b. Allreduce b (flat lib D G (length (replicas s)) (b_variable_indices (buckets s ! b)))) [next_bucket s..<next_bucket s']"
    using assms(2-)
  proof (induction "is" arbitrary: M s)
    case Nil
    have "next_bucket s \<le> length (buckets s)"
      using Nil.prems(1) launched_le [of _ M "map b_variable_indices (buckets s)"] by (simp add: pass_inv_def tracks_def)
    then have "progress s s" by (simp add: progress_def)
    then show ?case using Nil.prems(1) by simp
  next
    case (Cons i "is")
    obtain r v where i: "i = var_at r v" by (cases i) auto
    obtain s1 where s1: "backward_event lib grp (i, G i) s = (Inr (), s1)" "pass_inv lib grp D G w (insert i M) s1" "progress s s1"
      "pg_log s1 = pg_log s @ map (\<lambda>b. Allreduce b (flat lib D G (length (replicas s)) (b_variable_indices (buckets s ! b)))) [next_bucket s..<next_bucket s1]"
      using pass_step [OF assms(1) Cons.prems(1), of r v] Cons.prems(3,4) unfolding i by auto
    have same: "acct_rest s1 = acct_rest s" using s1(3) by (simp add: progress_def)
    note e = acct_rest_eqD [OF same]
    have ve: "\<forall>i\<in>set is. valid_event s1 (i, G i)" using Cons.prems(4) by (simp add: valid_event_def e)
    obtain s' where s': "for_each (backward_event lib grp) (map (\<lambda>i. (i, G i)) is) s1 = (Inr (), s')"
      "pass_inv lib grp D G w (insert i M \<union> set is) s'" "progress s1 s'"
      "pg_log s' = pg_log s1 @ map (\<lambda>b. Allreduce b (flat lib D G (length (replicas s1)) (b_variable_indices (buckets s1 ! b)))) [next_bucket s1..<next_bucket s']"
      using Cons.IH [OF s1(2) _ _ ve] Cons.prems(2,3) by auto
    have n: "next_bucket s \<le> next_bucket s1" "next_bucket s1 \<le> next_bucket s'" "next_bucket s' \<le> length (buckets s)"
      using s1(3) s'(3) e(4) by (auto simp: progress_def)
    have "[next_bucket s..<next_bucket s'] = [next_bucket s..<next_bucket s1] @ [next_bucket s1..<next_bucket s']"
      using n by (metis le_iff_add upt_add_eq_append)
    moreover have "b_variable_indices (buckets s1 ! b) = b_variable_indices (buckets s ! b)" if "b < next_bucket s'" for b
      using e(1,4) that n(3) by (metis less_le_trans nth_map)
    ultimately have "pg_log s' = pg_log s @ map (\<lambda>b. Allreduce b (flat lib D G (length (replicas s)) (b_variable_indices (buckets s ! b)))) [next_bucket s..<next_bucket s']"
      using s'(4) s1(4) e(3) by simp
    moreover have "for_each (backward_event lib grp) (map (\<lambda>i. (i, G i)) (i # is)) s = (Inr (), s')" using s1(1) s'(1) by (simp add: bindM_def)
    moreover have "insert i M \<union> set is = M \<union> set (i # is)" by auto
    ultimately show ?case using s'(2) progress_trans [OF s1(3) s'(3)] by auto
  qed
  then show thesis using that by blast
qed

section \<open>Finalizing the pass\<close>

lemma storages_data:
  assumes d: "data_ok s" and len: "length st = length (storages s)" "\<And>k. k < length st \<Longrightarrow> length (st ! k) = length (storages s ! k)"
  shows "data_ok (s\<lparr>storages := st\<rparr>)" "grads_ok M s \<Longrightarrow> grads_ok M (s\<lparr>storages := st\<rparr>)"
proof -
  let ?s = "s\<lparr>storages := st\<rparr>"
  have f: "rep_at ?s = rep_at s" "cell ?s = cell s" by (simp_all add: fun_eq_iff rep_at_def cell_def)
  have "dense_replica st vars vs t rep = dense_replica (storages s) vars vs t rep" for vars vs t rep
    using len by (auto simp: dense_replica_def)
  then have "dense_ok ?s" using data_okD(3) [OF d] by (auto simp: dense_ok_def f)
  moreover have "grads_apart ?s" using data_okD(4) [OF d] len(1) by (simp add: grads_apart_def f)
  ultimately show "data_ok ?s" using d by (simp add: data_ok_def plain_def layout_ok_def)
  show "grads_ok M ?s" if "grads_ok M s"
  proof -
    have "length (st ! t_storage g) = length (storages s ! t_storage g)" if "map_of (grads s) i = Some g" for i g
      using data_okD(4) [OF d] that len unfolding grads_apart_def by metis
    then show ?thesis using \<open>grads_ok M s\<close> unfolding grads_ok_def by fastforce
  qed
qed

definition gcell :: "'v reducer \<Rightarrow> VariableIndex \<Rightarrow> nat" where
  "gcell s i = t_storage (the (map_of (grads s) i))"

lemma gcell_apart:
  assumes "data_ok s" and "grads_ok M s" and "i \<in> M"
  shows "gcell s i < length (storages s)" "in_range s b r \<Longrightarrow> gcell s i \<noteq> cell s b r"
    "i' \<in> M \<Longrightarrow> i' \<noteq> i \<Longrightarrow> gcell s i' \<noteq> gcell s i"
    "length (storages s ! gcell s i) = var_numel (replicas s ! replica_index i ! variable_index i)"
proof -
  obtain g where g: "map_of (grads s) i = Some g" "t_length g = var_numel (replicas s ! replica_index i ! variable_index i)"
    "length (storages s ! t_storage g) = t_length g"
    using assms(2,3) unfolding grads_ok_def by blast
  show "gcell s i < length (storages s)" "in_range s b r \<Longrightarrow> gcell s i \<noteq> cell s b r"
    using data_okD(4) [OF assms(1)] g(1) by (auto simp: grads_apart_def gcell_def)
  show "length (storages s ! gcell s i) = var_numel (replicas s ! replica_index i ! variable_index i)" using g by (simp add: gcell_def)
  show "i' \<in> M \<Longrightarrow> i' \<noteq> i \<Longrightarrow> gcell s i' \<noteq> gcell s i" using assms(2,3) by (auto simp: grads_ok_def gcell_def)
qed

lemma finalize_variable_data:
  assumes cp: "copies lib" and d: "data_ok s" and gk: "grads_ok M s" and rg: "in_range s b r" and j: "j < length (b_variable_indices (buckets s ! b))"
    and m: "var_at r (b_variable_indices (buckets s ! b) ! j) \<in> M"
  shows "finalize_variable lib grp b r j s =
    (Inr (), s\<lparr>storages := (storages s)[gcell s (var_at r (b_variable_indices (buckets s ! b) ! j)) := parts s b r ! j]\<rparr>)"
proof -
  define v where "v = b_variable_indices (buckets s ! b) ! j"
  note dd = data_okD [OF d]
  note lr = layout_rep [OF dd(2) rg] and va = views_at(2) [OF dd(3) rg j]
  have vs: "v \<in> set (b_variable_indices (buckets s ! b))" using j by (simp add: v_def)
  note vr = variable_in_range(1) [OF dd(3) rg vs]
  obtain g where g: "map_of (grads s) (var_at r v) = Some g" "t_offset g = 0" "t_length g = var_numel (replicas s ! r ! v)"
    "length (storages s ! t_storage g) = t_length g"
    using gk m unfolding grads_ok_def v_def by fastforce
  have ra: "bucket_replica_at b r s = (Inr (rep_at s b r), s)"
    using rg lr(1) by (simp add: bucket_replica_at_def bindM_def atM_def vec_at_def rep_at_def)
  have ba: "atM buckets b s = (Inr (buckets s ! b), s)" using rg by (simp add: atM_def vec_at_def bindM_def)
  have bv: "vec_at (br_variables (rep_at s b r)) j = Inr (var_at r v)" using lr(2) j by (simp add: v_def)
  have pl: "\<not> gradient_as_bucket_view s" "\<not> rpc_context s" "\<not> find_unused_parameters s" using dd(1) by (auto simp: plain_def)
  have jl: "j < length (lens_at s b r)" and lj: "lens_at s b r ! j = t_length g" using j g(3) by (simp_all add: lens_at_def v_def)
  have rd: "tensor_read (storages s) (view_at s b r j) = parts s b r ! j"
    using jl by (simp add: chop_nth parts_def tensor_read_def view_at_def cell_def)
  have lp: "length (parts s b r ! j) = t_length g"
    using length_chop_nth [OF lens_at_rep(2) [OF dd(3) rg] jl] lj by (simp add: parts_def)
  have "tl_copy_memory lib (tensor_read (storages s) g) (parts s b r ! j) = parts s b r ! j"
    using cp lp g by (simp add: copies_def tensor_read_def)
  moreover have "tensor_write g (parts s b r ! j) (storages s) = (storages s)[gcell s (var_at r v) := parts s b r ! j]"
    using g lp by (simp add: tensor_write_def splice_def gcell_def)
  ultimately show ?thesis
    unfolding finalize_variable_def v_def [symmetric]
    by (simp add: bindM_def ba ra va bv pl globally_unused_def copy_bucket_to_grad_def vr Reducer_runGradCallbackForVariable_def g(1) grad_from_bucket_def
        rd write_store_def alist_update_same del: vec_at_simps)
qed

text \<open>
  Relative to the state \<open>s0\<close>: the storages of the bucket replicas in \<open>C\<close> hold \<open>res\<close> and those of the
  gradients in \<open>A\<close> hold \<open>tgt\<close>.
\<close>

definition delivered ::
    "(nat \<times> nat \<Rightarrow> 'v list) \<Rightarrow> (VariableIndex \<Rightarrow> 'v list) \<Rightarrow> 'v reducer \<Rightarrow> (nat \<times> nat) set \<Rightarrow> VariableIndex set \<Rightarrow> 'v reducer \<Rightarrow> bool" where
  "delivered res tgt s0 C A s \<longleftrightarrow> (\<exists>st. s = s0\<lparr>storages := st\<rparr> \<and> length st = length (storages s0) \<and>
     (\<forall>k<length st. length (st ! k) = length (storages s0 ! k)) \<and>
     (\<forall>(b, r)\<in>C. st ! cell s0 b r = res (b, r)) \<and> (\<forall>i\<in>A. st ! gcell s0 i = tgt i))"

definition all_vars :: "'v reducer \<Rightarrow> VariableIndex set" where
  "all_vars s = {var_at r v | r v. r < length (replicas s) \<and> v < length (variable_locators s)}"

definition part_of :: "(nat \<times> nat \<Rightarrow> 'v list) \<Rightarrow> 'v reducer \<Rightarrow> VariableIndex \<Rightarrow> 'v list" where
  "part_of res s i = (let l = variable_locators s ! variable_index i; b = bucket_index l; r = replica_index i
     in chop (lens_at s b r) (res (b, r)) ! intra_bucket_index l)"

lemma delivered_data:
  assumes "delivered res tgt s0 C A s" and "data_ok s0" and "grads_ok M s0"
  shows "data_ok s" "grads_ok M s" "rep_at s = rep_at s0" "cell s = cell s0" "lens_at s = lens_at s0" "gcell s = gcell s0" "buckets s = buckets s0"
    "replicas s = replicas s0"
  using assms storages_data [OF assms(2)]
  by (auto simp: delivered_def rep_at_def cell_def lens_at_def gcell_def fun_eq_iff)

lemma delivered_gradient:
  assumes cp: "copies lib" and dl: "delivered res tgt s0 C A s" and d: "data_ok s0" and gk: "grads_ok M s0" and am: "A \<subseteq> M" and cr: "\<forall>(b, r)\<in>C. in_range s0 b r"
    and rg: "(b, r) \<in> C" and j: "j < length (b_variable_indices (buckets s0 ! b))"
  defines "i \<equiv> var_at r (b_variable_indices (buckets s0 ! b) ! j)"
  assumes m: "i \<in> M" and tgt: "tgt i = chop (lens_at s0 b r) (res (b, r)) ! j" and rl: "length (res (b, r)) = sum_list (lens_at s0 b r)"
  shows "\<exists>s'. finalize_variable lib grp b r j s = (Inr (), s') \<and> delivered res tgt s0 C (A \<union> {i}) s'"
proof -
  note f = delivered_data [OF dl d gk]
  obtain st where st: "s = s0\<lparr>storages := st\<rparr>" "length st = length (storages s0)" "\<forall>k<length st. length (st ! k) = length (storages s0 ! k)"
    "\<forall>(b, r)\<in>C. st ! cell s0 b r = res (b, r)" "\<forall>i\<in>A. st ! gcell s0 i = tgt i"
    using dl unfolding delivered_def by blast
  have rg0: "in_range s0 b r" using cr rg by blast
  have p: "parts s b r ! j = tgt i" using rg st(4) tgt unfolding parts_def f(4,5) by (auto simp: st(1))
  have jl: "j < length (lens_at s0 b r)" using j by (simp add: lens_at_def)
  have lt: "length (tgt i) = var_numel (replicas s0 ! r ! (b_variable_indices (buckets s0 ! b) ! j))"
    unfolding tgt using length_chop_nth [OF rl jl] j by (simp add: lens_at_def)
  note gc = gcell_apart [OF d gk m]
  let ?s' = "s\<lparr>storages := st[gcell s0 i := tgt i]\<rparr>"
  have "finalize_variable lib grp b r j s = (Inr (), s\<lparr>storages := (storages s)[gcell s i := parts s b r ! j]\<rparr>)"
    unfolding i_def using finalize_variable_data [OF cp f(1,2), of b r j grp] rg0 j m by (simp add: f i_def)
  then have "finalize_variable lib grp b r j s = (Inr (), ?s')" unfolding p f(6) by (simp add: st(1))
  moreover have "delivered res tgt s0 C (A \<union> {i}) ?s'"
    unfolding delivered_def
  proof (intro exI conjI)
    show "?s' = s0\<lparr>storages := st[gcell s0 i := tgt i]\<rparr>" by (simp add: st(1))
    show "\<forall>k<length (st[gcell s0 i := tgt i]). length (st[gcell s0 i := tgt i] ! k) = length (storages s0 ! k)"
      using st(2,3) lt gc(1,4) by (simp add: nth_list_update i_def)
    show "\<forall>(b, r)\<in>C. st[gcell s0 i := tgt i] ! cell s0 b r = res (b, r)"
      using st(4) gc(2) cr by (auto simp: nth_list_update split: prod.splits)
    have "gcell s0 i \<noteq> gcell s0 k" if "k \<in> A" "k \<noteq> i" for k using gc(3) am that by (metis subsetD)
    then have "st[gcell s0 i := tgt i] ! gcell s0 k = tgt k" if "k \<in> A \<union> {i}" for k
      using st(2,5) gc(1) that by (cases "k = i") auto
    then show "\<forall>k\<in>A \<union> {i}. st[gcell s0 i := tgt i] ! gcell s0 k = tgt k" by blast
  qed (simp add: st(2))
  ultimately show ?thesis by blast
qed

lemma wait_work_delivers:
  assumes dl: "delivered res tgt s0 C A s" and d: "data_ok s0" and gk: "grads_ok M s0" and am: "A \<subseteq> M" and cr: "\<forall>(b, r)\<in>C. in_range s0 b r"
    and b: "b < length (buckets s0)" and w: "b_work (buckets s0 ! b) = Some w"
    and res: "g_allreduced grp w = map (\<lambda>r. res (b, r)) [0..<length (replicas s0)]"
    and rl: "\<forall>r<length (replicas s0). length (res (b, r)) = sum_list (lens_at s0 b r)"
  shows "\<exists>s'. wait_work grp b s = (Inr (), s') \<and> delivered res tgt s0 (C \<union> Pair b ` {..<length (replicas s0)}) A s'"
proof -
  let ?R = "length (replicas s0)" and ?reps = "b_replicas (buckets s0 ! b)"
  let ?f = "\<lambda>(replica, vs). modifyM (\<lambda>s. case br_contents replica of None \<Rightarrow> s | Some t \<Rightarrow> write_store t vs s)"
  note f = delivered_data [OF dl d gk]
  have nr: "length ?reps = ?R" using data_okD(2) [OF d] b layout_replicas unfolding layout_ok_def by blast
  have z: "zip ?reps (g_allreduced grp w) = map (\<lambda>r. (?reps ! r, res (b, r))) [0..<?R]"
    unfolding res by (rule nth_equalityI) (simp_all add: nr)
  have step: "\<exists>s'. ?f (?reps ! r, res (b, r)) s = (Inr (), s') \<and> (X \<union> {(b, r)} \<subseteq> {(b, r). in_range s0 b r} \<and> delivered res tgt s0 (X \<union> {(b, r)}) A s')"
    if r: "r \<in> set [0..<?R]" and X: "X \<subseteq> {(b, r). in_range s0 b r} \<and> delivered res tgt s0 X A s" for r X s
  proof -
    have rg: "in_range s0 b r" using r b by simp
    obtain st where st: "s = s0\<lparr>storages := st\<rparr>" "length st = length (storages s0)" "\<forall>k<length st. length (st ! k) = length (storages s0 ! k)"
      "\<forall>(b, r)\<in>X. st ! cell s0 b r = res (b, r)" "\<forall>i\<in>A. st ! gcell s0 i = tgt i"
      using X unfolding delivered_def by blast
    define t where "t = the (br_contents (?reps ! r))"
    have dr: "dense_replica (storages s0) (replicas s0 ! r) (b_variable_indices (buckets s0 ! b)) t (?reps ! r)"
      using dense_okD(1) [OF data_okD(3) [OF d] rg] by (simp add: rep_at_def t_def)
    have c: "t_storage t = cell s0 b r" by (simp add: cell_def t_def rep_at_def)
    have len: "length (res (b, r)) = t_length t" "length (st ! cell s0 b r) = t_length t" "t_offset t = 0" "cell s0 b r < length st"
      "br_contents (?reps ! r) = Some t"
      using dr rl r st(2,3) c lens_at_rep(1) [OF data_okD(3) [OF d] rg] by (auto simp: dense_replica_def rep_at_def)
    let ?st = "st[cell s0 b r := res (b, r)]"
    have e: "?f (?reps ! r, res (b, r)) s = (Inr (), s0\<lparr>storages := ?st\<rparr>)"
      by (simp add: len write_store_def tensor_write_def splice_def c st(1))
    have "delivered res tgt s0 (X \<union> {(b, r)}) A (s0\<lparr>storages := ?st\<rparr>)"
      unfolding delivered_def
    proof (intro exI conjI)
      show "\<forall>k<length ?st. length (?st ! k) = length (storages s0 ! k)" using st(2,3) len by (auto simp: nth_list_update)
      have "?st ! cell s0 x y = res (x, y)" if "(x, y) \<in> X \<union> {(b, r)}" for x y
      proof (cases "(x, y) = (b, r)")
        case False
        then have xy: "(x, y) \<in> X" "in_range s0 x y" using that X by auto
        have "st ! cell s0 x y = res (x, y)" using st(4) xy(1) by blast
        then show ?thesis using cell_inj [OF data_okD(3) [OF d] rg xy(2) False] by simp
      qed (use len(4) in simp)
      then show "\<forall>(x, y)\<in>X \<union> {(b, r)}. ?st ! cell s0 x y = res (x, y)" by blast
      have "cell s0 b r \<noteq> gcell s0 i" if "i \<in> A" for i by (rule not_sym [OF gcell_apart(2) [OF d gk subsetD [OF am that] rg]])
      then have "?st ! gcell s0 i = tgt i" if "i \<in> A" for i using st(5) that by simp
      then show "\<forall>i\<in>A. ?st ! gcell s0 i = tgt i" by blast
    qed (simp_all add: st(2))
    moreover have "X \<union> {(b, r)} \<subseteq> {(b, r). in_range s0 b r}" using X rg by simp
    ultimately show ?thesis using e by blast
  qed
  have I: "C \<subseteq> {(b, r). in_range s0 b r} \<and> delivered res tgt s0 C A s" using dl cr by auto
  have u: "C \<union> (\<Union>r\<in>set [0..<?R]. {(b, r)}) = C \<union> Pair b ` {..<?R}" by auto
  have "\<exists>s'. for_each (\<lambda>r. ?f (?reps ! r, res (b, r))) [0..<?R] s = (Inr (), s') \<and> delivered res tgt s0 (C \<union> Pair b ` {..<?R}) A s'"
    unfolding u [symmetric]
    by (rule ex_forward [OF for_each_collects [of "[0..<?R]" "\<lambda>X s. X \<subseteq> {(b, r). in_range s0 b r} \<and> delivered res tgt s0 X A s"
            "\<lambda>r. ?f (?reps ! r, res (b, r))" "\<lambda>r. {(b, r)}" C s]], erule (1) step, rule I, elim conjE, intro conjI)
  moreover have "wait_work grp b s = for_each (\<lambda>r. ?f (?reps ! r, res (b, r))) [0..<?R] s"
    using b by (simp add: wait_work_def bindM_def atM_def vec_at_def f w z for_each_map)
  ultimately show ?thesis by simp
qed

text \<open>The results of the reductions of all buckets, with the shape of their requests.\<close>

definition results_for :: "'v group \<Rightarrow> 'v reducer \<Rightarrow> (nat \<times> nat \<Rightarrow> 'v list) \<Rightarrow> bool" where
  "results_for grp s res \<longleftrightarrow> (\<forall>b<length (buckets s). \<exists>w. b_work (buckets s ! b) = Some w \<and>
     g_allreduced grp w = map (\<lambda>r. res (b, r)) [0..<length (replicas s)] \<and>
     (\<forall>r<length (replicas s). length (res (b, r)) = sum_list (lens_at s b r)))"

definition bucket_vars :: "'v reducer \<Rightarrow> nat \<Rightarrow> VariableIndex set" where
  "bucket_vars s b = {var_at r v | r v. r < length (replicas s) \<and> v \<in> set (b_variable_indices (buckets s ! b))}"

lemma bucket_vars_all:
  assumes l: "layout_ok s"
  shows "b < length (buckets s) \<Longrightarrow> bucket_vars s b \<subseteq> all_vars s" "(\<Union>b\<in>set [0..<length (buckets s)]. bucket_vars s b) = all_vars s"
proof -
  show s: "bucket_vars s b \<subseteq> all_vars s" if "b < length (buckets s)" for b
    using layout_bucket_of(2) [OF l that] by (auto simp: bucket_vars_def all_vars_def)
  have "var_at r v \<in> bucket_vars s (bucket_index (variable_locators s ! v))" "bucket_index (variable_locators s ! v) < length (buckets s)"
    if "r < length (replicas s)" "v < length (variable_locators s)" for r v
    using l that by (auto simp: layout_ok_def bucket_vars_def)
  then show "(\<Union>b\<in>set [0..<length (buckets s)]. bucket_vars s b) = all_vars s" using s by (force simp: all_vars_def)
qed

lemma part_of_nth:
  assumes "layout_ok s" and "b < length (buckets s)" and "j < length (b_variable_indices (buckets s ! b))"
  shows "part_of res s (var_at r (b_variable_indices (buckets s ! b) ! j)) = chop (lens_at s b r) (res (b, r)) ! j"
  using assms by (simp add: part_of_def layout_ok_def bucket_layout_def Let_def)

lemma finalize_bucket_delivers:
  assumes cp: "copies lib" and d: "data_ok s0" and gk: "grads_ok (all_vars s0) s0" and rf: "results_for grp s0 res"
    and b: "b < length (buckets s0)" and B: "B \<subseteq> {..<length (buckets s0)}"
    and dl: "delivered res (part_of res s0) s0 (B \<times> {..<length (replicas s0)}) (\<Union>b\<in>B. bucket_vars s0 b) s"
  shows "\<exists>s'. finalize_bucket lib grp b s = (Inr (), s') \<and>
     delivered res (part_of res s0) s0 ((B \<union> {b}) \<times> {..<length (replicas s0)}) (\<Union>b\<in>B \<union> {b}. bucket_vars s0 b) s'"
proof -
  let ?R = "length (replicas s0)" and ?A = "\<Union>b\<in>B. bucket_vars s0 b" and ?C = "(B \<union> {b}) \<times> {..<length (replicas s0)}" and ?tgt = "part_of res s0"
  note l = data_okD(2) [OF d] and bva = bucket_vars_all [OF data_okD(2) [OF d]]
  obtain w where w: "b_work (buckets s0 ! b) = Some w" "g_allreduced grp w = map (\<lambda>r. res (b, r)) [0..<?R]"
    "\<forall>r<?R. length (res (b, r)) = sum_list (lens_at s0 b r)"
    using rf b unfolding results_for_def by blast
  have am: "?A \<subseteq> all_vars s0" using bva(1) B by blast
  have cr: "\<forall>(b, r)\<in>?C. in_range s0 b r" using B b by auto
  have C: "B \<times> {..<?R} \<union> Pair b ` {..<?R} = ?C" by auto
  obtain s1 where s1: "wait_work grp b s = (Inr (), s1)" "delivered res ?tgt s0 ?C ?A s1"
    using wait_work_delivers [OF dl d gk am _ b w] B unfolding C by auto
  have inner: "\<exists>s'. for_each (finalize_variable lib grp b r) [0..<length (b_variable_indices (buckets s0 ! b))] s = (Inr (), s') \<and>
      (A \<union> var_at r ` set (b_variable_indices (buckets s0 ! b)) \<subseteq> all_vars s0 \<and> delivered res ?tgt s0 ?C (A \<union> var_at r ` set (b_variable_indices (buckets s0 ! b))) s')"
    if r: "r \<in> set [0..<?R]" and A: "A \<subseteq> all_vars s0 \<and> delivered res ?tgt s0 ?C A s" for r A s
  proof -
    let ?vs = "b_variable_indices (buckets s0 ! b)"
    have "\<exists>s'. finalize_variable lib grp b r j s = (Inr (), s') \<and>
        (A \<union> {var_at r (?vs ! j)} \<subseteq> all_vars s0 \<and> delivered res ?tgt s0 ?C (A \<union> {var_at r (?vs ! j)}) s')"
      if j: "j \<in> set [0..<length ?vs]" and I: "A \<subseteq> all_vars s0 \<and> delivered res ?tgt s0 ?C A s" for j A s
    proof -
      have m: "var_at r (?vs ! j) \<in> all_vars s0" using bva(1) [OF b] r j by (auto simp: bucket_vars_def)
      have "\<exists>s'. finalize_variable lib grp b r j s = (Inr (), s') \<and> delivered res ?tgt s0 ?C (A \<union> {var_at r (?vs ! j)}) s'"
        by (rule delivered_gradient [OF cp conjunct2 [OF I] d gk conjunct1 [OF I] cr _ _ m part_of_nth [OF l b]])
          (use r j w(3) in auto)
      then show ?thesis using m I by auto
    qed
    note loop = for_each_collects [of "[0..<length ?vs]" "\<lambda>A s. A \<subseteq> all_vars s0 \<and> delivered res ?tgt s0 ?C A s" "finalize_variable lib grp b r"
        "\<lambda>j. {var_at r (?vs ! j)}" A s, OF this A]
    have "(\<Union>j\<in>set [0..<length ?vs]. {var_at r (?vs ! j)}) = var_at r ` set ?vs" by (auto simp: set_conv_nth)
    then show ?thesis using loop by simp
  qed
  have rv: "length (br_variables (b_replicas (buckets s0 ! b) ! r)) = length (b_variable_indices (buckets s0 ! b))" if "r < ?R" for r
    using layout_rep(2) [OF l, of b r] b that by (simp add: rep_at_def)
  have nr: "length (b_replicas (buckets s0 ! b)) = ?R" using l b layout_replicas unfolding layout_ok_def by blast
  have outer: "\<exists>s'. bindM (bucket_replica_at b r) (\<lambda>replica. for_each (finalize_variable lib grp b r) [0..<length (br_variables replica)]) s = (Inr (), s') \<and>
      (A \<union> var_at r ` set (b_variable_indices (buckets s0 ! b)) \<subseteq> all_vars s0 \<and> delivered res ?tgt s0 ?C (A \<union> var_at r ` set (b_variable_indices (buckets s0 ! b))) s')"
    if r: "r \<in> set [0..<?R]" and A: "A \<subseteq> all_vars s0 \<and> delivered res ?tgt s0 ?C A s" for r A s
  proof -
    have "bucket_replica_at b r s = (Inr (b_replicas (buckets s0 ! b) ! r), s)"
      using delivered_data(7) [OF conjunct2 [OF A] d gk] r b nr by (simp add: bindM_def bucket_replica_at_def atM_def vec_at_def)
    note at = bindM_Inr [where m = "bucket_replica_at b r" and s = s, OF this]
    show ?thesis unfolding at using inner [OF r A] rv r by simp
  qed
  have u: "(\<Union>r\<in>set [0..<?R]. var_at r ` set (b_variable_indices (buckets s0 ! b))) = bucket_vars s0 b" by (auto simp: bucket_vars_def)
  have at: "atM buckets b s1 = (Inr (buckets s0 ! b), s1)"
    using delivered_data(7) [OF s1(2) d gk] b by (simp add: bindM_def atM_def vec_at_def)
  have "\<exists>s'. finalize_bucket_dense lib grp b s1 = (Inr (), s') \<and> delivered res ?tgt s0 ?C (?A \<union> bucket_vars s0 b) s'"
    unfolding finalize_bucket_dense_def bindM_Inr [where m = "atM buckets b" and s = s1, OF at] nr u [symmetric]
    by (rule ex_forward [OF for_each_collects [of "[0..<?R]" "\<lambda>A s. A \<subseteq> all_vars s0 \<and> delivered res ?tgt s0 ?C A s"
            "\<lambda>r. bindM (bucket_replica_at b r) (\<lambda>replica. for_each (finalize_variable lib grp b r) [0..<length (br_variables replica)])"
            "\<lambda>r. var_at r ` set (b_variable_indices (buckets s0 ! b))" ?A s1]])
      (use outer am s1(2) in simp_all)
  moreover have "\<not> comm_hook s" "\<not> b_expect_sparse (buckets s1 ! b)"
    using delivered_data(1) [OF dl d gk] delivered_data(7) [OF s1(2) d gk] dense_okD(2) [OF data_okD(3) [OF d], of b 0] b d
    by (auto simp: data_ok_def plain_def)
  ultimately show ?thesis
    using s1(1) at delivered_data(7) [OF s1(2) d gk] by (simp add: finalize_bucket_def bindM_def Un_commute)
qed

lemma finalize_backward_delivers:
  assumes cp: "copies lib" and d: "data_ok s" and gk: "grads_ok (all_vars s) s" and rf: "results_for grp s res"
    and fl: "expect_autograd_hooks s" "require_finalize s" "next_bucket s = length (buckets s)"
  obtains s' where "finalize_backward lib grp s = (Inr (), s')" "data_ok s'" "\<not> expect_autograd_hooks s'" "\<not> require_finalize s'"
    "divFactor s' = kUnsetDivFactor" "buckets s' = buckets s" "replicas s' = replicas s" "variable_locators s' = variable_locators s"
    "pg_log s' = pg_log s" "forwardPassWorkHandle s' = forwardPassWorkHandle s" "grads_ok (all_vars s) s'"
    "\<And>i. i \<in> all_vars s \<Longrightarrow> map_option (tensor_read (storages s')) (map_of (grads s') i) = Some (part_of res s i)"
proof -
  let ?s0 = "s\<lparr>expect_autograd_hooks := False, require_finalize := False, divFactor := kUnsetDivFactor\<rparr>"
  have f: "rep_at ?s0 = rep_at s" "cell ?s0 = cell s" "lens_at ?s0 = lens_at s"
    by (simp_all add: fun_eq_iff rep_at_def cell_def lens_at_def)
  have "data_ok ?s0 = data_ok s" by (rule data_ok_cong) (simp_all add: plain_def)
  then have d0: "data_ok ?s0" using d by simp
  have av: "all_vars ?s0 = all_vars s" by (simp add: all_vars_def)
  have gk0: "grads_ok (all_vars ?s0) ?s0" using gk by (simp add: av grads_ok_def)
  have rf0: "results_for grp ?s0 res" using rf by (simp add: results_for_def f)
  have po: "part_of res ?s0 = part_of res s" by (simp add: fun_eq_iff part_of_def f Let_def)
  let ?n = "length (buckets ?s0)" and ?R = "length (replicas ?s0)"
  let ?I = "\<lambda>B. delivered res (part_of res ?s0) ?s0 (B \<times> {..<?R}) (\<Union>b\<in>B. bucket_vars ?s0 b)"
  have step: "\<exists>s'. finalize_bucket lib grp b s = (Inr (), s') \<and> (B \<union> {b} \<subseteq> {..<?n} \<and> ?I (B \<union> {b}) s')"
    if "b \<in> set [0..<?n]" "B \<subseteq> {..<?n} \<and> ?I B s" for b B s
  proof -
    have "b < ?n" using that(1) by simp
    then show ?thesis
      using finalize_bucket_delivers [OF cp d0 gk0 rf0 _ conjunct1 [OF that(2)] conjunct2 [OF that(2)], of b] that by auto
  qed
  have I0: "?I {} ?s0" unfolding delivered_def by (rule exI [of _ "storages ?s0"]) simp
  have "\<exists>s'. for_each (finalize_bucket lib grp) [0..<?n] ?s0 = (Inr (), s') \<and> ({} \<union> (\<Union>b\<in>set [0..<?n]. {b}) \<subseteq> {..<?n} \<and> ?I ({} \<union> (\<Union>b\<in>set [0..<?n]. {b})) s')"
    by (rule for_each_collects [of "[0..<?n]" "\<lambda>B s. B \<subseteq> {..<?n} \<and> ?I B s" "finalize_bucket lib grp" "\<lambda>b. {b}" "{}" ?s0])
      (use step I0 in auto)
  then obtain s' where s': "for_each (finalize_bucket lib grp) [0..<?n] ?s0 = (Inr (), s')" "?I (set [0..<?n]) s'" by auto
  have dl: "delivered res (part_of res s) ?s0 (set [0..<?n] \<times> {..<?R}) (all_vars s) s'"
    using s'(2) bucket_vars_all(2) [OF data_okD(2) [OF d0]] unfolding po av by simp
  note f' = delivered_data [OF dl d0 gk0]
  obtain st where st: "s' = ?s0\<lparr>storages := st\<rparr>" "\<forall>i\<in>all_vars s. st ! gcell ?s0 i = part_of res s i"
    using dl unfolding delivered_def by blast
  have "\<not> find_unused_parameters s" using d by (simp add: data_ok_def plain_def)
  then have fb: "finalize_backward lib grp s = (Inr (), s')"
    using fl s'(1) by (simp add: finalize_backward_def bindM_def st(1))
  have rd: "map_option (tensor_read (storages s')) (map_of (grads s') i) = Some (part_of res s i)" if i: "i \<in> all_vars s" for i
  proof -
    obtain g where g: "map_of (grads s') i = Some g" "t_offset g = 0" "length (storages s' ! t_storage g) = t_length g"
      using f'(2) i unfolding av grads_ok_def by blast
    then have "tensor_read (storages s') g = part_of res s i"
      using st i by (auto simp: tensor_read_def gcell_def)
    then show ?thesis using g(1) by simp
  qed
  show thesis
    by (rule that [OF fb f'(1) _ _ _ _ _ _ _ _ _ rd]) (use f'(2) in \<open>simp_all add: st(1) av\<close>)
qed

end
