(* ===== verification/Reducer_Setup.thy ===== *)
theory Reducer_Setup
  imports Reducer_Data
begin

text \<open>
  The constructor and \<^verbatim>\<open>initialize_buckets\<close> in the default mode: what they build satisfies the
  well-formedness that an iteration needs, each bucket replica in a storage of its own.
\<close>

section \<open>Building a dense replica\<close>

lemma offset_of_Cons [simp]: "offset_of (n # ns) 0 = 0" "offset_of (n # ns) (Suc j) = n + offset_of ns j"
  by (simp_all add: offset_of_def)

lemma map_upt_Suc_shift: "map f [0..<Suc n] = f 0 # map (\<lambda>j. f (Suc j)) [0..<n]"
  by (simp add: upt_conv_Cons map_Suc_upt [symmetric] comp_def del: upt_Suc)

definition laid_out :: "variable list \<Rightarrow> nat list \<Rightarrow> (nat \<times> nat) option \<Rightarrow> nat \<Rightarrow> BucketReplica \<Rightarrow> BucketReplica \<Rightarrow> nat \<Rightarrow> (nat \<times> nat) option \<Rightarrow> bool" where
  "laid_out vs is opts off rep rep' len opts' \<longleftrightarrow>
     (let ns = map (\<lambda>v. var_numel (vs ! v)) is in
      br_lengths rep' = br_lengths rep @ ns \<and> br_offsets rep' = br_offsets rep @ map (\<lambda>j. off + offset_of ns j) [0..<length is] \<and>
      len = off + sum_list ns \<and> br_contents rep' = br_contents rep) \<and>
     (\<forall>i\<in>set is. i < length vs) \<and>
     (is \<noteq> [] \<or> opts \<noteq> None \<longrightarrow> opts' \<noteq> None \<and> (\<forall>i\<in>set is. v_device (vs ! i) = fst (the opts') \<and> v_dtype (vs ! i) = snd (the opts'))) \<and>
     (opts \<noteq> None \<longrightarrow> opts' = opts)"

lemma dense_layout_result: "dense_layout vs r is opts off rep = Inr (rep', len, opts') \<Longrightarrow> laid_out vs is opts off rep rep' len opts'"
proof (induction "is" arbitrary: opts off rep)
  case (Cons i "is")
  let ?o = "Some (v_device (vs ! i), v_dtype (vs ! i))"
  let ?rep = "rep\<lparr>br_variables := br_variables rep @ [var_at r i], br_offsets := br_offsets rep @ [off],
    br_lengths := br_lengths rep @ [var_numel (vs ! i)], br_sizes_vec := br_sizes_vec rep @ [v_sizes (vs ! i)]\<rparr>"
  have i: "i < length vs" and o: "opts \<noteq> None \<longrightarrow> opts = ?o"
    and rec: "dense_layout vs r is ?o (off + var_numel (vs ! i)) ?rep = Inr (rep', len, opts')"
    using Cons.prems by (auto simp: Let_def var_numel_def split: if_splits)
  note IH = Cons.IH [OF rec, unfolded laid_out_def Let_def]
  have "br_offsets rep' = br_offsets rep @ map (\<lambda>j. off + offset_of (map (\<lambda>v. var_numel (vs ! v)) (i # is)) j) [0..<length (i # is)]"
    using IH by (simp add: map_upt_Suc_shift add.assoc del: upt_Suc)
  then show ?case using IH i o unfolding laid_out_def Let_def by auto
qed (simp add: laid_out_def)

lemma dense_replica_append:
  "dense_replica st vars vs t rep \<Longrightarrow> dense_replica (st @ new) vars vs t rep"
  by (auto simp: dense_replica_def nth_append)

lemma build_dense:
  assumes b: "build_replica lib idxs False r s = (Inr rep, s')" and v: "\<not> gradient_as_bucket_view s" and ne: "idxs \<noteq> []"
  shows "\<exists>vs. s' = s\<lparr>storages := storages s @ [vs]\<rparr> \<and> dense_replica (storages s @ [vs]) (replicas s ! r) idxs (the (br_contents rep)) rep \<and>
     t_storage (the (br_contents rep)) = length (storages s)"
proof -
  obtain rep1 len opts where dl: "dense_layout (replicas s ! r) r idxs None 0 BucketReplica_new = Inr (rep1, len, opts)"
    and ri: "initialize_bucket_views lib (rep1\<lparr>br_contents := Some \<lparr>t_storage = length (storages s), t_offset = 0, t_length = len, t_type = snd (the opts),
        t_device = fst (the opts), t_format = tl_base_format lib, t_sparse = False\<rparr>\<rparr>)
      \<lparr>t_storage = length (storages s), t_offset = 0, t_length = len, t_type = snd (the opts), t_device = fst (the opts), t_format = tl_base_format lib,
        t_sparse = False\<rparr> (s\<lparr>storages := storages s @ [replicate len (tl_uninit lib)]\<rparr>) = (Inr rep, s')"
    using b by (auto simp: build_replica_def Let_def atM_def vec_at_def new_storage_def elim!: bindM_InrE split: if_splits sum.splits)
  let ?t = "\<lparr>t_storage = length (storages s), t_offset = 0, t_length = len, t_type = snd (the opts), t_device = fst (the opts), t_format = tl_base_format lib,
        t_sparse = False\<rparr>"
  let ?rep = "rep1\<lparr>br_contents := Some ?t\<rparr>" and ?s = "s\<lparr>storages := storages s @ [replicate len (tl_uninit lib)]\<rparr>"
  note d = dense_layout_result [OF dl, unfolded laid_out_def Let_def]
  have skip: "for_each (\<lambda>(v, bucket_view). returnM ()) xs st = (Inr (), st)" for xs :: "(VariableIndex \<times> tensor_ref) list" and st :: "'a reducer"
    by (induction xs) (auto simp: bindM_def)
  have "rep = ?rep\<lparr>br_views_in := views_of ?t ?rep, br_views_out := views_of ?t ?rep\<rparr> \<and> s' = ?s"
    using ri v skip by (simp add: initialize_bucket_views_def bindM_def)
  moreover have "dense_replica (storages s @ [replicate len (tl_uninit lib)]) (replicas s ! r) idxs ?t (?rep\<lparr>br_views_in := views_of ?t ?rep, br_views_out := views_of ?t ?rep\<rparr>)"
    using d ne by (simp add: dense_replica_def BucketReplica_new_def views_of_def)
  ultimately show ?thesis by (intro exI [of _ "replicate len (tl_uninit lib)"]) simp
qed

lemma build_dense_replicas:
  assumes "map_each (build_replica lib idxs False) rs s = (Inr reps, s')" and "\<not> gradient_as_bucket_view s" and "idxs \<noteq> []"
  shows "\<exists>new. s' = s\<lparr>storages := storages s @ new\<rparr> \<and> length new = length rs \<and> length reps = length rs \<and>
    (\<forall>k<length rs. dense_replica (storages s @ new) (replicas s ! (rs ! k)) idxs (the (br_contents (reps ! k))) (reps ! k) \<and>
       t_storage (the (br_contents (reps ! k))) = length (storages s) + k)"
  using assms
proof (induction rs arbitrary: s reps)
  case (Cons r rs)
  obtain rep s1 reps1 where b: "build_replica lib idxs False r s = (Inr rep, s1)"
    "map_each (build_replica lib idxs False) rs s1 = (Inr reps1, s')" "reps = rep # reps1"
    using Cons.prems(1) by (auto elim!: bindM_InrE)
  obtain vs where vs: "s1 = s\<lparr>storages := storages s @ [vs]\<rparr>" "dense_replica (storages s @ [vs]) (replicas s ! r) idxs (the (br_contents rep)) rep"
    "t_storage (the (br_contents rep)) = length (storages s)"
    using build_dense [OF b(1) Cons.prems(2,3)] by blast
  obtain new where new: "s' = s1\<lparr>storages := storages s1 @ new\<rparr>" "length new = length rs" "length reps1 = length rs"
    "\<forall>k<length rs. dense_replica (storages s1 @ new) (replicas s1 ! (rs ! k)) idxs (the (br_contents (reps1 ! k))) (reps1 ! k) \<and>
       t_storage (the (br_contents (reps1 ! k))) = length (storages s1) + k"
    using Cons.IH [OF b(2) _ Cons.prems(3)] Cons.prems(2) vs(1) by auto
  have "dense_replica (storages s @ vs # new) (replicas s ! ((r # rs) ! k)) idxs (the (br_contents (reps ! k))) (reps ! k) \<and>
       t_storage (the (br_contents (reps ! k))) = length (storages s) + k" if "k < length (r # rs)" for k
    using that new(4) vs(1,3) dense_replica_append [OF vs(2), of new] by (cases k) (simp_all add: b(3))
  then show ?case using new(1-3) by (intro exI [of _ "vs # new"]) (simp add: vs(1) b(3))
qed simp

section \<open>Building the buckets\<close>

lemma bucket_sparse_dense:
  assumes "bucket_sparse idxs s = (Inr sparse, s')" and "\<forall>sp\<in>set (expect_sparse_gradients s ! 0). \<not> sp"
  shows "\<not> sparse"
proof (cases "length idxs = 1")
  case True
  then have "expects_sparse (hd idxs) s = (Inr sparse, s')" using assms(1) by (simp add: bucket_sparse_def)
  moreover have "\<forall>k<length (expect_sparse_gradients s ! 0). \<not> expect_sparse_gradients s ! 0 ! k" using assms(2) nth_mem by blast
  ultimately show ?thesis by (auto simp: expects_sparse_def bindM_def atM_def vec_at_def split: if_splits)
next
  case False
  then show ?thesis using assms(1) by (auto simp: bucket_sparse_def elim!: bindM_InrE)
qed

lemma add_bucket_dense:
  assumes a: "add_bucket lib (b, idxs) s = (Inr (), s')" and v: "\<not> gradient_as_bucket_view s"
    and d: "\<forall>sp\<in>set (expect_sparse_gradients s ! 0). \<not> sp"
  obtains new reps locs where "length new = length (replicas s)" "length reps = length (replicas s)"
    "s' = s\<lparr>storages := storages s @ new, variable_locators := locs, buckets := buckets s @ [\<lparr>b_replicas = reps, b_variable_indices = idxs,
       b_pending = 0, b_work = None, b_future_work = None, b_expect_sparse = False\<rparr>]\<rparr>"
    "\<forall>r<length (replicas s). dense_replica (storages s @ new) (replicas s ! r) idxs (the (br_contents (reps ! r))) (reps ! r) \<and>
       t_storage (the (br_contents (reps ! r))) = length (storages s) + r"
proof -
  from a obtain sparse t0 reps t1 t2 where st: "idxs \<noteq> []" "bucket_sparse idxs s = (Inr sparse, t0)"
    "map_each (build_replica lib idxs sparse) [0..<length (replicas t0)] t0 = (Inr reps, t1)"
    "for_each (\<lambda>(v, j).
          bindM (getM (\<lambda>s. length (variable_locators s))) (\<lambda>n.
          bindM (checkM (v < n) (C10_error ''Out of range variable index specified.'')) (\<lambda>_.
          modifyM (\<lambda>s. s\<lparr>variable_locators := (variable_locators s)[v := \<lparr>bucket_index = b, intra_bucket_index = j\<rparr>]\<rparr>))))
        (zip idxs [0..<length idxs]) t1 = (Inr (), t2)"
    "s' = t2\<lparr>buckets := buckets t2 @ [\<lparr>b_replicas = reps, b_variable_indices = idxs, b_pending = 0, b_work = None,
         b_future_work = None, b_expect_sparse = sparse\<rparr>]\<rparr>"
    unfolding add_bucket_def Let_def by (auto elim!: bindM_InrE split: if_splits)
  have t0: "t0 = s" "\<not> sparse" using bucket_sparse_single(1) [OF st(2)] bucket_sparse_dense [OF st(2) d] by auto
  have sp: "sparse = False" using t0(2) by simp
  obtain new where new: "t1 = s\<lparr>storages := storages s @ new\<rparr>" "length new = length (replicas s)" "length reps = length (replicas s)"
    "\<forall>k<length (replicas s). dense_replica (storages s @ new) (replicas s ! ([0..<length (replicas s)] ! k)) idxs (the (br_contents (reps ! k))) (reps ! k) \<and>
       t_storage (the (br_contents (reps ! k))) = length (storages s) + k"
    using build_dense_replicas [OF st(3) [unfolded sp t0(1)] v st(1)] by auto
  show thesis
    by (rule that [OF new(2,3), of "fold (set_locator b) (zip idxs [0..<length idxs]) (variable_locators s)"])
      (use conjunct1 [OF locators_loop [OF st(4)]] st(5) new(1,4) sp in simp_all)
qed

text \<open>Between two rounds of the loop: the dense buckets built so far, in storages after the first \<open>n\<close>.\<close>

definition dense_built :: "'v reducer \<Rightarrow> 'v reducer \<Rightarrow> bool" where
  "dense_built s0 s \<longleftrightarrow> dense_ok s \<and> (\<forall>b<length (buckets s). length (b_replicas (buckets s ! b)) = length (replicas s)) \<and>
     (\<forall>b r. in_range s b r \<longrightarrow> length (storages s0) \<le> cell s b r) \<and> length (storages s0) \<le> length (storages s) \<and>
     grads s = grads s0 \<and> base s = base s0"

lemma base_eqD:
  assumes "base s' = base s"
  shows "gradient_as_bucket_view s' = gradient_as_bucket_view s" "expect_sparse_gradients s' = expect_sparse_gradients s" "replicas s' = replicas s"
    "find_unused_parameters s' = find_unused_parameters s" "rpc_context s' = rpc_context s" "comm_hook s' = comm_hook s" "divFactor s' = divFactor s"
    "require_finalize s' = require_finalize s" "pg_log s' = pg_log s" "forwardPassWorkHandle s' = forwardPassWorkHandle s"
  using arg_cong [OF assms, of gradient_as_bucket_view] arg_cong [OF assms, of expect_sparse_gradients] arg_cong [OF assms, of replicas]
    arg_cong [OF assms, of find_unused_parameters] arg_cong [OF assms, of rpc_context] arg_cong [OF assms, of comm_hook] arg_cong [OF assms, of divFactor]
    arg_cong [OF assms, of require_finalize] arg_cong [OF assms, of pg_log] arg_cong [OF assms, of forwardPassWorkHandle]
  by (simp_all add: base_def frame_def)

lemma dense_built_step:
  assumes bu: "dense_built s0 s" and v: "\<not> gradient_as_bucket_view s0" and d: "\<forall>sp\<in>set (expect_sparse_gradients s0 ! 0). \<not> sp"
    and a: "add_bucket lib (b, idxs) s = (Inr (), s')"
  shows "dense_built s0 s'"
proof -
  have bs: "base s = base s0" using bu by (simp add: dense_built_def)
  note e = base_eqD [OF bs]
  let ?R = "length (replicas s)"
  obtain new reps locs where n: "length new = ?R" "length reps = ?R"
    "s' = s\<lparr>storages := storages s @ new, variable_locators := locs, buckets := buckets s @ [\<lparr>b_replicas = reps, b_variable_indices = idxs,
       b_pending = 0, b_work = None, b_future_work = None, b_expect_sparse = False\<rparr>]\<rparr>"
    "\<forall>r<?R. dense_replica (storages s @ new) (replicas s ! r) idxs (the (br_contents (reps ! r))) (reps ! r) \<and>
       t_storage (the (br_contents (reps ! r))) = length (storages s) + r"
    by (rule add_bucket_dense [OF a]) (use v d e in auto)
  let ?k = "length (buckets s)"
  have old: "rep_at s' b r = rep_at s b r" "cell s' b r = cell s b r" "buckets s' ! b = buckets s ! b" if "b < ?k" for b r
    using that by (simp_all add: n(3) rep_at_def cell_def nth_append)
  have last: "rep_at s' ?k r = reps ! r" "b_variable_indices (buckets s' ! ?k) = idxs" "\<not> b_expect_sparse (buckets s' ! ?k)" for r
    by (simp_all add: n(3) rep_at_def)
  have lastc: "cell s' ?k r = length (storages s) + r" if "r < ?R" for r using n(4) that by (simp add: cell_def last)
  have oldc: "cell s b r < length (storages s)" if "in_range s b r" for b r
    using bu that by (simp add: dense_built_def lens_at_rep(3))
  have R: "length (replicas s') = ?R" "length (buckets s') = Suc ?k" by (simp_all add: n(3))
  have "\<not> b_expect_sparse (buckets s' ! b) \<and> dense_replica (storages s') (replicas s' ! r) (b_variable_indices (buckets s' ! b)) (the (br_contents (rep_at s' b r))) (rep_at s' b r)"
    if "in_range s' b r" for b r
  proof (cases "b = ?k")
    case True
    then show ?thesis using n(4) last that R by (simp add: n(3))
  next
    case False
    then have b: "in_range s b r" using that R by simp
    then show ?thesis using dense_okD [of s b r] bu old [of b] by (simp add: dense_built_def) (simp add: n(3) dense_replica_append)
  qed
  moreover have "b' = b \<and> r' = r" if i: "in_range s' b r" "in_range s' b' r'" and c: "cell s' b r = cell s' b' r'" for b r b' r'
  proof (cases "b = ?k \<or> b' = ?k")
    case True
    have lt: "cell s' x y < length (storages s)" if "in_range s' x y" "x \<noteq> ?k" for x y using oldc [of x y] old(2) [of x y] that R by simp
    have "b = ?k \<and> b' = ?k" using True lt [OF i(1)] lt [OF i(2)] lastc [of r] lastc [of r'] c i R by (cases "b = ?k"; cases "b' = ?k") auto
    then show ?thesis using lastc [of r] lastc [of r'] c i R by simp
  next
    case False
    then have "in_range s b r" "in_range s b' r'" using i R by auto
    moreover from this have "cell s b r = cell s b' r'" using c old(2) by simp
    ultimately show ?thesis using bu unfolding dense_built_def dense_ok_def by blast
  qed
  ultimately have "dense_ok s'" unfolding dense_ok_def by blast
  moreover have "length (storages s0) \<le> cell s' b r" if "in_range s' b r" for b r
  proof (cases "b = ?k")
    case True
    then show ?thesis using lastc [of r] that R bu by (simp add: dense_built_def)
  next
    case False
    then show ?thesis using that R bu old(2) by (simp add: dense_built_def)
  qed
  moreover have "length (b_replicas (buckets s' ! b)) = length (replicas s')" if "b < length (buckets s')" for b
    using that R bu n(2) by (cases "b = ?k") (simp_all add: n(3) nth_append dense_built_def)
  moreover have "base s' = base s" by (simp add: n(3) base_def frame_def)
  ultimately show ?thesis using bu by (simp add: dense_built_def) (simp add: n(3))
qed

lemma dense_built_loop:
  assumes "dense_built s0 s" and "\<not> gradient_as_bucket_view s0" and "\<forall>sp\<in>set (expect_sparse_gradients s0 ! 0). \<not> sp"
    and "for_each (add_bucket lib) bis s = (Inr (), s')"
  shows "dense_built s0 s'"
  using assms(1,4)
proof (induction bis arbitrary: s)
  case (Cons bi bis)
  obtain s1 where s1: "add_bucket lib bi s = (Inr (), s1)" "for_each (add_bucket lib) bis s1 = (Inr (), s')"
    using Cons.prems(2) by (auto elim!: bindM_InrE)
  have "dense_built s0 s1" by (rule dense_built_step [OF Cons.prems(1) assms(2,3), of lib "fst bi" "snd bi"]) (use s1(1) in simp)
  then show ?case by (rule Cons.IH [OF _ s1(2)])
qed simp

lemma initialize_buckets_grads:
  assumes i: "initialize_buckets lib False bis s = (Inr (), s')" and "\<not> gradient_as_bucket_view s" "\<forall>sp\<in>set (expect_sparse_gradients s ! 0). \<not> sp"
  shows "grads s' = grads s"
proof -
  let ?s = "s\<lparr>rpc_context := False, buckets := [],
     variable_locators := replicate (length (replicas s ! 0)) \<lparr>bucket_index = 0, intra_bucket_index = 0\<rparr>\<rparr>"
  have loop: "for_each (add_bucket lib) (zip [0..<length bis] bis) ?s = (Inr (), s')"
    using i by (auto simp: initialize_buckets_def bindM_def atM_def split: if_splits sum.splits)
  have "dense_built ?s s'" by (rule dense_built_loop [OF _ _ _ loop]) (use assms in \<open>simp_all add: dense_built_def dense_ok_def\<close>)
  then show ?thesis by (simp add: dense_built_def)
qed

lemma initialize_buckets_data:
  assumes i: "initialize_buckets lib False bis s = (Inr (), s')" and d: "distinct (concat bis)" and c: "set (concat bis) = {..<length (replicas s ! 0)}"
    and m: "\<not> gradient_as_bucket_view s" "\<not> find_unused_parameters s" "\<not> comm_hook s" "\<forall>sp\<in>set (expect_sparse_gradients s ! 0). \<not> sp"
    and g: "\<forall>i g. map_of (grads s) i = Some g \<longrightarrow> t_storage g < length (storages s)" and ne: "replicas s \<noteq> []" "replicas s ! 0 \<noteq> []"
  shows "data_ok s'"
proof -
  note l = initialize_buckets_layout [OF i d c]
  let ?s = "s\<lparr>rpc_context := False, buckets := [],
     variable_locators := replicate (length (replicas s ! 0)) \<lparr>bucket_index = 0, intra_bucket_index = 0\<rparr>\<rparr>"
  have loop: "for_each (add_bucket lib) (zip [0..<length bis] bis) ?s = (Inr (), s')"
    using i by (auto simp: initialize_buckets_def bindM_def atM_def split: if_splits sum.splits)
  have "dense_built ?s s'" by (rule dense_built_loop [OF _ _ _ loop]) (use m in \<open>simp_all add: dense_built_def dense_ok_def\<close>)
  then have b: "dense_ok s'" "\<forall>b r. in_range s' b r \<longrightarrow> length (storages s) \<le> cell s' b r" "length (storages s) \<le> length (storages s')" "grads s' = grads s"
    "base s' = base ?s"
    by (simp_all add: dense_built_def)
  have "grads_apart s'" using g b(2-4) unfolding grads_apart_def by (metis leD order_less_le_trans)
  moreover have "plain s'" using m base_eqD [OF b(5)] by (simp add: plain_def)
  moreover have "length (variable_locators s') = length (replicas s ! 0)" "replicas s' = replicas s" using l by auto
  ultimately show ?thesis using l b(1) ne by (auto simp: data_ok_def)
qed

section \<open>The constructor\<close>

lemma verify_keeps: "keepsM id verify_replicas_within_process" "keepsM id (verify_replica0_across_processes bcast)"
  unfolding verify_replicas_within_process_def verify_replica0_across_processes_def verify_variable_def expects_sparse_def
  by (intro keepsM_bind keepsM_I keepsM_for_each keepsM_atM keepsM_variable_at)+

lemma checked_InrE:
  assumes "bindM (getM f) (\<lambda>n. bindM (checkM (P n) e) (\<lambda>_. m)) s = (Inr a, s')"
  shows "m s = (Inr a, s')"
  using assms by (cases "P (f s)") (auto simp: bindM_def)

lemma Reducer_new_split:
  assumes "Reducer_new lib bcast acc ctx bis s = (Inr (), s')"
  obtains s1 s2 where "1 \<le> length (replicas s)" "1 \<le> length (replicas s ! 0)"
    "s1 = (if expect_sparse_gradients s = [] then s\<lparr>expect_sparse_gradients := replicate (length (replicas s)) (replicate (length (replicas s ! 0)) False)\<rparr> else s)"
    "initialize_buckets lib ctx bis s1 = (Inr (), s2)"
    "s' = s2\<lparr>gradAccToVariablesMap := (if find_unused_parameters s2 then map_accumulators acc (all_indices s2) else []),
       backward_stats := replicate (length (replicas s)) (replicate (length (replicas s ! 0)) 0),
       local_used_maps := (if find_unused_parameters s2 then replicate (length (replicas s)) (replicate (length (replicas s ! 0)) 0) else []),
       local_used_maps_dev := (if find_unused_parameters s2 then replicate (length (replicas s)) (replicate (length (replicas s ! 0)) 0) else [])\<rparr>"
proof -
  have r: "1 \<le> length (replicas s)" using assms by (auto simp: Reducer_new_def bindM_def split: if_splits)
  have "replicas s \<noteq> []" using r by auto
  then have at: "atM replicas 0 s = (Inr (replicas s ! 0), s)" by (simp add: atM_def vec_at_def bindM_def)
  let ?s1 = "if expect_sparse_gradients s = [] then s\<lparr>expect_sparse_gradients := replicate (length (replicas s)) (replicate (length (replicas s ! 0)) False)\<rparr> else s"
  let ?fin = "\<lambda>s2. s2\<lparr>gradAccToVariablesMap := (if find_unused_parameters s2 then map_accumulators acc (all_indices s2) else []),
       backward_stats := replicate (length (replicas s)) (replicate (length (replicas s ! 0)) 0),
       local_used_maps := (if find_unused_parameters s2 then replicate (length (replicas s)) (replicate (length (replicas s ! 0)) 0) else []),
       local_used_maps_dev := (if find_unused_parameters s2 then replicate (length (replicas s)) (replicate (length (replicas s ! 0)) 0) else [])\<rparr>"
  have p: "1 \<le> length (replicas s ! 0)" using assms r at by (auto simp: Reducer_new_def bindM_def split: if_splits)
  let ?rest = "bindM verify_replicas_within_process (\<lambda>_. bindM (verify_replica0_across_processes bcast) (\<lambda>_.
     bindM (initialize_buckets lib ctx bis) (\<lambda>_. modifyM ?fin)))"
  have eq: "Reducer_new lib bcast acc ctx bis s = bindM (getM (\<lambda>s. length (expect_sparse_gradients s))) (\<lambda>n.
     bindM (checkM (n = length (replicas s)) (C10_assert ''expect_sparse_gradients_.size() == replicas_.size()'')) (\<lambda>_. ?rest)) ?s1"
    using r p at by (simp add: Reducer_new_def bindM_def)
  have "bindM (getM (\<lambda>s. length (expect_sparse_gradients s))) (\<lambda>n.
     bindM (checkM (n = length (replicas s)) (C10_assert ''expect_sparse_gradients_.size() == replicas_.size()'')) (\<lambda>_. ?rest)) ?s1 = (Inr (), s')"
    using assms unfolding eq .
  then have "?rest ?s1 = (Inr (), s')" by (rule checked_InrE)
  then obtain a1 t1 a2 t2 a3 t3 where st: "verify_replicas_within_process ?s1 = (Inr a1, t1)" "verify_replica0_across_processes bcast t1 = (Inr a2, t2)"
    "initialize_buckets lib ctx bis t2 = (Inr a3, t3)" "s' = ?fin t3"
    by (elim bindM_InrE) simp
  have "t1 = ?s1" "t2 = t1" using keepsM_D [OF verify_keeps(1) st(1)] keepsM_D [OF verify_keeps(2) st(2)] by simp_all
  then show thesis using that [of ?s1 t3] r p st(3,4) by simp
qed

lemma new_reducer_data:
  assumes n: "Reducer_new lib bcast acc False bis (reducer_blank rs [] cap False False now) = (Inr (), s)"
    and "distinct (concat bis)" and "set (concat bis) = {..<length (rs ! 0)}"
  shows "data_ok s \<and> map b_variable_indices (buckets s) = bis \<and> replicas s = rs \<and> divFactor s = kUnsetDivFactor \<and> \<not> require_finalize s \<and>
     pg_log s = [] \<and> forwardPassWorkHandle s = None"
proof -
  let ?s0 = "reducer_blank rs [] cap False False now :: 'a reducer"
  let ?s1 = "?s0\<lparr>expect_sparse_gradients := replicate (length rs) (replicate (length (rs ! 0)) False)\<rparr>"
  have b: "replicas ?s0 = rs" "expect_sparse_gradients ?s0 = []" by (simp_all add: reducer_blank_def)
  obtain s1 s2 where s2: "1 \<le> length (replicas ?s0)" "1 \<le> length (replicas ?s0 ! 0)"
    "s1 = (if expect_sparse_gradients ?s0 = [] then ?s0\<lparr>expect_sparse_gradients := replicate (length (replicas ?s0)) (replicate (length (replicas ?s0 ! 0)) False)\<rparr> else ?s0)"
    "initialize_buckets lib False bis s1 = (Inr (), s2)"
    "s = s2\<lparr>gradAccToVariablesMap := (if find_unused_parameters s2 then map_accumulators acc (all_indices s2) else []),
       backward_stats := replicate (length (replicas ?s0)) (replicate (length (replicas ?s0 ! 0)) 0),
       local_used_maps := (if find_unused_parameters s2 then replicate (length (replicas ?s0)) (replicate (length (replicas ?s0 ! 0)) 0) else []),
       local_used_maps_dev := (if find_unused_parameters s2 then replicate (length (replicas ?s0)) (replicate (length (replicas ?s0 ! 0)) 0) else [])\<rparr>"
    by (rule Reducer_new_split [OF n])
  have s1: "s1 = ?s1" using s2(3) b by simp
  have f: "replicas s1 = rs" "\<not> gradient_as_bucket_view s1" "\<not> find_unused_parameters s1" "\<not> comm_hook s1"
    "expect_sparse_gradients s1 = replicate (length rs) (replicate (length (rs ! 0)) False)" "grads s1 = []" "divFactor s1 = kUnsetDivFactor"
    "\<not> require_finalize s1" "pg_log s1 = []" "forwardPassWorkHandle s1 = None"
    by (simp_all add: s1 reducer_blank_def)
  have ne: "rs \<noteq> []" "rs ! 0 \<noteq> []" using s2(1,2) b by auto
  have d: "data_ok s2" by (rule initialize_buckets_data [OF s2(4) assms(2)]) (use f assms(3) ne in simp_all)
  have l: "map b_variable_indices (buckets s2) = bis" "replicas s2 = rs" "base s2 = (base s1)\<lparr>rpc_context := False\<rparr>"
    using initialize_buckets_layout [OF s2(4) assms(2)] f(1) assms(3) by auto
  have "base s2 = base (s1\<lparr>rpc_context := False\<rparr>)" using l(3) by (simp add: base_def frame_def)
  note e = base_eqD [OF this]
  have "data_ok s = data_ok s2" by (rule data_ok_cong) (simp_all add: s2(5) plain_def)
  then show ?thesis using d l(1,2) e f by (simp add: s2(5))
qed

text \<open>
  C16. A new reducer over dense parameters whose bucket indices are a partition of the parameters is
  ready for an iteration: every bucket replica lies in a storage of its own with its views and
  lengths in place, the locators agree with the buckets, and no reduction is pending.
\<close>

theorem new_reducer_ready:
  assumes "Reducer_new lib bcast acc False bis (reducer_blank rs [] cap False False now) = (Inr (), s)"
    and "distinct (concat bis)" and "set (concat bis) = {..<length (rs ! 0)}"
  shows "data_ok s \<and> map b_variable_indices (buckets s) = bis \<and> replicas s = rs \<and> divFactor s = kUnsetDivFactor \<and> \<not> require_finalize s \<and>
     pg_log s = [] \<and> forwardPassWorkHandle s = None"
  by (rule new_reducer_data [OF assms])

section \<open>A small model\<close>

definition int_lib :: "int tensor_lib" where
  "int_lib = \<lparr>tl_zero = 0, tl_uninit = 0, tl_mul_recip = (\<lambda>d x. x div d), tl_div = (\<lambda>d x. x div d), tl_copy_memory = (\<lambda>old new. new),
     tl_copy = (\<lambda>old new. new), tl_format_cast = (\<lambda>_ vs. vs), tl_base_format = 0\<rparr>"

definition float_variable :: "64 word \<Rightarrow> variable" where
  "float_variable n = \<lparr>v_info = float_tensor 0 n, v_requires_grad = True, v_sizes = [uint n], v_strides = [1], v_format = 0\<rparr>"

definition two_groups :: "int group" where
  "two_groups = \<lparr>g_size = 2, g_allreduced = (\<lambda>w. if w = 0 then [[7]] else [[5, 6]]), g_hook_result = (\<lambda>_. []), g_used_reduced = (\<lambda>_. [])\<rparr>"

definition small_reducer :: "int reducer" where
  "small_reducer = snd (Reducer_new int_lib id (\<lambda>_. 0) False [[1], [0]] (reducer_blank [[float_variable 2, float_variable 1]] [] 0 False False 0))"

lemma small_reducer_new:
  "Reducer_new int_lib id (\<lambda>_. 0) False [[1], [0]] (reducer_blank [[float_variable 2, float_variable 1]] [] 0 False False 0) = (Inr (), small_reducer)"
proof -
  have "fst (Reducer_new int_lib id (\<lambda>_. 0) False [[1], [0]] (reducer_blank [[float_variable 2, float_variable 1]] [] 0 False False 0)) = Inr ()"
    by code_simp
  then show ?thesis by (simp add: small_reducer_def prod_eq_iff)
qed

lemma small_partition: "distinct (concat [[Suc 0], [0]])" "set (concat [[1], [0]]) = {..<length ([[float_variable 2, float_variable 1]] ! 0)}"
  by auto

lemma small_reducer_data: "data_ok small_reducer" "divFactor small_reducer = kUnsetDivFactor" "pg_log small_reducer = []"
  "forwardPassWorkHandle small_reducer = None" "replicas small_reducer = [[float_variable 2, float_variable 1]]"
  using new_reducer_data [OF small_reducer_new] small_partition by simp_all

theorem new_reducer_ready_witness:
  "data_ok small_reducer \<and> map b_variable_indices (buckets small_reducer) = [[1], [0]]"
  using new_reducer_ready [OF small_reducer_new] small_partition by simp

end
