(* ===== verification/Reducer_Correct.thy ===== *)
theory Reducer_Correct
  imports Reducer_Setup
begin

text \<open>
  The properties of the gradient reducer: its counters implement the scheduler of
  \<^verbatim>\<open>Reducer_Order\<close>, the parameters it takes as unused are the unreachable ones, rebuilding keeps
  the layout, and an iteration in the default mode replaces every gradient by its part of the
  reduced bucket.
\<close>

section \<open>The order of the launches\<close>

lemma layout_buckets:
  assumes "layout_ok s" and "variable_locators s \<noteq> []"
  shows "buckets s \<noteq> []"
proof
  assume "buckets s = []"
  moreover have "0 < length (variable_locators s)" using assms(2) by simp
  ultimately show False using assms(1) unfolding layout_ok_def by fastforce
qed

lemma prepare_fields:
  "still_unused (prepare_for_backward g outputs s) = unused_parameters (prepare_for_backward g outputs s)"
  "expect_autograd_hooks (prepare_for_backward g outputs s)" "next_bucket (prepare_for_backward g outputs s) = 0"
  "pg_log (prepare_for_backward g outputs s) = pg_log s" "finalizers (prepare_for_backward g outputs s) = finalizers s"
  "map b_variable_indices (buckets (prepare_for_backward g outputs s)) = map b_variable_indices (buckets s)"
  "replicas (prepare_for_backward g outputs s) = replicas s" "variable_locators (prepare_for_backward g outputs s) = variable_locators s"
  "forwardPassWorkHandle (prepare_for_backward g outputs s) = forwardPassWorkHandle s"
  by (simp_all add: prepare_for_backward_def still_unused_def Let_def reset_pending_def comp_def)

text \<open>
  C4. The reducer implements the abstract scheduler. After \<^verbatim>\<open>prepare_for_backward\<close>, whatever hooks
  run, in whatever order, the buckets handed to the process group (or to the communication hook) are
  exactly the longest prefix of buckets all of whose variables are ready in every replica -- ready
  because their hook ran or because they were found unused -- each once and in the order of the
  buckets, and the finalizer is queued exactly once, when the last bucket is launched.
\<close>

theorem hooks_refine_scheduler:
  fixes s :: "'v reducer" and g :: autograd_graph and outputs :: "nat option list" and "is" :: "VariableIndex list"
  defines "s0 \<equiv> prepare_for_backward g outputs s"
  assumes "layout_ok s" and "0 < length (replicas s)" and "variable_locators s \<noteq> []"
    and "for_each (autograd_hook lib grp) is s0 = (Inr (), s1)" and "is \<noteq> []" and "distinct (unused_parameters s0 @ is)"
  defines "n \<equiv> launched (length (replicas s)) (set (unused_parameters s0 @ is)) (map b_variable_indices (buckets s))"
  shows "next_bucket s1 = n \<and> bucket_requests (pg_log s1) = bucket_requests (pg_log s) @ [0..<n] \<and>
    finalizers s1 = finalizers s + (if n = length (buckets s) then 1 else 0)"
proof -
  note f = prepare_fields [of g outputs s, folded s0_def]
  have t: "tracks {} s0" unfolding s0_def by (rule tracks_prepare [OF assms(2-4)])
  have h: "tracks ({} \<union> set (still_unused s0 @ is)) s1 \<and> progress s0 (s1\<lparr>has_marked_unused_parameters := has_marked_unused_parameters s0\<rparr>)"
    by (rule tracks_hooks [OF t f(2) assms(6) _ _ assms(5)]) (use assms(7) f(1) in simp_all)
  have ar: "map b_variable_indices (buckets s1) = map b_variable_indices (buckets s)" "replicas s1 = replicas s"
    using h f(6,7) by (simp_all add: progress_def acct_rest_def)
  then have n: "next_bucket s1 = n" using h f(1) by (simp add: tracks_def n_def)
  have "length (buckets s0) = length (buckets s)" using f(6) by (metis length_map)
  then show ?thesis using h n f(3-5) layout_buckets [OF assms(2,4)] by (simp add: progress_def)
qed

theorem hooks_refine_scheduler_witness:
  "\<exists>s1. for_each (autograd_hook int_lib two_groups) [var_at 0 0, var_at 0 1] (prepare_for_backward [] [] small_reducer) = (Inr (), s1) \<and>
     bucket_requests (pg_log s1) = [0, 1] \<and> finalizers s1 = 1"
proof -
  define r where "r = for_each (autograd_hook int_lib two_groups) [var_at 0 0, var_at 0 1] (prepare_for_backward [] [] small_reducer)"
  have "fst r = Inr ()" unfolding r_def by code_simp
  then have r: "for_each (autograd_hook int_lib two_groups) [var_at 0 0, var_at 0 1] (prepare_for_backward [] [] small_reducer) = (Inr (), snd r)"
    by (simp add: r_def prod_eq_iff)
  have f: "length (replicas small_reducer) = 1" "variable_locators small_reducer \<noteq> []" "unused_parameters (prepare_for_backward [] [] small_reducer) = []"
    "map b_variable_indices (buckets small_reducer) = [[1], [0]]" "pg_log small_reducer = []" "finalizers small_reducer = 0"
    by code_simp+
  have lb: "length (buckets small_reducer) = 2" using arg_cong [OF f(4), of length] by simp
  have "launched 1 (set ([] @ [var_at 0 0, var_at 0 1])) [[1], [0]] = 2" by (simp add: launched_def complete_def)
  then show ?thesis
    using hooks_refine_scheduler [OF data_okD(2) [OF small_reducer_data(1)] _ f(2) r] r f lb by (simp add: bucket_requests_def upt_rec numeral_2_eq_2)
qed

section \<open>An iteration in the default mode\<close>

lemma prepare_pass:
  assumes d: "data_ok s" and hf: "has_factor grp D s"
  shows "pass_inv lib grp D G (length (pg_log s)) {} (prepare_for_backward g outputs s)"
proof -
  let ?s1 = "s\<lparr>expect_autograd_hooks := True, backward_stats_base := clock s, has_marked_unused_parameters := False, unused_parameters := []\<rparr>"
  let ?s = "prepare_for_backward g outputs s"
  note f = prepare_fields [of g outputs s]
  have "\<not> find_unused_parameters s" using d by (simp add: data_ok_def plain_def)
  then have c: "core ?s = core ?s1" by (simp add: prepare_for_backward_def core_def comp_def core_bucket_def reset_pending_def Let_def)
  have "data_ok ?s1 = data_ok s" by (rule data_ok_cong) (simp_all add: plain_def)
  then have d1: "data_ok ?s1" using d by simp
  have "factor grp ?s1 = factor grp s" by (simp add: factor_def)
  then have "has_factor grp D ?s1" using hf by (simp add: has_factor_def)
  then have "data_ok ?s \<and> has_factor grp D ?s" using d1 core_filled(3,4) [OF c data_okD(2) [OF d1]] by simp
  moreover have "tracks {} ?s" by (rule tracks_prepare) (use d in \<open>simp_all add: data_ok_def\<close>)
  ultimately show ?thesis using f(2-4) by (simp add: pass_inv_def filled_def grads_ok_def)
qed

lemma all_launched:
  assumes l: "layout_ok s"
  shows "launched (length (replicas s)) (all_vars s) (map b_variable_indices (buckets s)) = length (buckets s)"
proof -
  have "complete (length (replicas s)) (all_vars s) (b_variable_indices bk)" if "bk \<in> set (buckets s)" for bk
    using that layout_bucket_of(2) [OF l] by (force simp: complete_def all_vars_def in_set_conv_nth)
  then have "takeWhile (complete (length (replicas s)) (all_vars s)) (map b_variable_indices (buckets s)) = map b_variable_indices (buckets s)"
    by (auto simp: takeWhile_eq_all_conv)
  then show ?thesis unfolding launched_def by (simp only: length_map)
qed

definition expected_request :: "'v tensor_lib \<Rightarrow> int \<Rightarrow> (VariableIndex \<Rightarrow> 'v list) \<Rightarrow> 'v reducer \<Rightarrow> nat \<Rightarrow> 'v request" where
  "expected_request lib D G s b = Allreduce b (flat lib D G (length (replicas s)) (b_variable_indices (buckets s ! b)))"

lemma backward_pass:
  assumes cp: "copies lib" and d: "data_ok s" and hf: "has_factor grp D s" and "distinct is" and "set is = all_vars s"
    and len: "\<forall>i\<in>all_vars s. length (G i) = var_numel (replicas s ! replica_index i ! variable_index i)"
  obtains s1 where "for_each (backward_event lib grp) (map (\<lambda>i. (i, G i)) is) (prepare_for_backward g outputs s) = (Inr (), s1)"
    "pass_inv lib grp D G (length (pg_log s)) (all_vars s) s1" "finalizers s1 = Suc (finalizers s)" "next_bucket s1 = length (buckets s)"
    "pg_log s1 = pg_log s @ map (expected_request lib D G s) [0..<length (buckets s)]"
    "map b_variable_indices (buckets s1) = map b_variable_indices (buckets s)" "replicas s1 = replicas s" "variable_locators s1 = variable_locators s"
    "length (buckets s1) = length (buckets s)" "forwardPassWorkHandle s1 = forwardPassWorkHandle s"
proof -
  let ?s0 = "prepare_for_backward g outputs s"
  note f = prepare_fields [of g outputs s]
  have lb: "length (buckets ?s0) = length (buckets s)" using f(6) by (metis length_map)
  have bi: "b_variable_indices (buckets ?s0 ! b) = b_variable_indices (buckets s ! b)" if "b < length (buckets s)" for b
    using arg_cong [OF f(6), of "\<lambda>xs. xs ! b"] that lb by simp
  have ve: "\<forall>i\<in>set is. valid_event ?s0 (i, G i)" using len assms(5) by (auto simp: valid_event_def f(7,8) all_vars_def)
  obtain s1 where s1: "for_each (backward_event lib grp) (map (\<lambda>i. (i, G i)) is) ?s0 = (Inr (), s1)"
    "pass_inv lib grp D G (length (pg_log s)) ({} \<union> set is) s1" "progress ?s0 s1"
    "pg_log s1 = pg_log ?s0 @ map (\<lambda>b. Allreduce b (flat lib D G (length (replicas ?s0)) (b_variable_indices (buckets ?s0 ! b)))) [next_bucket ?s0..<next_bucket s1]"
    by (rule pass_run [OF cp prepare_pass [OF d hf] assms(4) Int_empty_right ve])
  have ar: "acct_rest s1 = acct_rest ?s0" using s1(3) by (simp add: progress_def)
  note e = acct_rest_eqD [OF ar]
  have n: "next_bucket s1 = length (buckets s)"
    using s1(2) all_launched [OF data_okD(2) [OF d]] by (simp add: pass_inv_def tracks_def e f assms(5))
  have "pg_log s1 = pg_log s @ map (expected_request lib D G s) [0..<length (buckets s)]"
    using s1(4) bi by (simp add: n f expected_request_def)
  moreover have "0 < length (buckets s)" using layout_buckets [OF data_okD(2) [OF d]] d by (simp add: data_ok_def)
  then have "finalizers s1 = Suc (finalizers s)" using s1(3) lb n f(3,5) by (simp add: progress_def)
  ultimately show thesis using that s1(1,2) n e f lb assms(5) by simp
qed

lemma iteration_gradients:
  fixes res :: "nat \<times> nat \<Rightarrow> 'v list"
  assumes "copies lib" and "data_ok s" and "divFactor s = kUnsetDivFactor" and "factor grp s = Some D" and "distinct is" and "set is = all_vars s"
    and "\<forall>i\<in>all_vars s. length (G i) = var_numel (replicas s ! replica_index i ! variable_index i)"
    and "\<forall>b<length (buckets s). g_allreduced grp (length (pg_log s) + b) = map (\<lambda>r. res (b, r)) [0..<length (replicas s)] \<and>
       (\<forall>r<length (replicas s). length (res (b, r)) = sum_list (lens_at s b r))"
  shows "\<exists>s1 s2. for_each (backward_event lib grp) (map (\<lambda>i. (i, G i)) is) (prepare_for_backward g outputs s) = (Inr (), s1) \<and>
    pg_log s1 = pg_log s @ map (expected_request lib D G s) [0..<length (buckets s)] \<and> finalizers s1 = Suc (finalizers s) \<and>
    finalize_backward lib grp s1 = (Inr (), s2) \<and>
    (\<forall>i\<in>all_vars s. map_option (tensor_read (storages s2)) (map_of (grads s2) i) = Some (part_of res s i)) \<and>
    data_ok s2 \<and> divFactor s2 = kUnsetDivFactor \<and> factor grp s2 = Some D \<and> \<not> require_finalize s2"
proof -
  have hf: "has_factor grp D s" using assms(3,4) by (simp add: has_factor_def)
  obtain s1 where s1: "for_each (backward_event lib grp) (map (\<lambda>i. (i, G i)) is) (prepare_for_backward g outputs s) = (Inr (), s1)"
    "pass_inv lib grp D G (length (pg_log s)) (all_vars s) s1" "finalizers s1 = Suc (finalizers s)" "next_bucket s1 = length (buckets s)"
    "pg_log s1 = pg_log s @ map (expected_request lib D G s) [0..<length (buckets s)]"
    "map b_variable_indices (buckets s1) = map b_variable_indices (buckets s)" "replicas s1 = replicas s" "variable_locators s1 = variable_locators s"
    "length (buckets s1) = length (buckets s)" "forwardPassWorkHandle s1 = forwardPassWorkHandle s"
    by (rule backward_pass [OF assms(1,2) hf assms(5-7)])
  have av: "all_vars s1 = all_vars s" by (simp add: all_vars_def s1(7,8))
  have bi: "b_variable_indices (buckets s1 ! b) = b_variable_indices (buckets s ! b)" if "b < length (buckets s)" for b
    using arg_cong [OF s1(6), of "\<lambda>xs. xs ! b"] that s1(9) by simp
  then have la: "lens_at s1 b r = lens_at s b r" if "b < length (buckets s)" for b r using that by (simp add: lens_at_def s1(7))
  have "results_for grp s1 res"
    unfolding results_for_def s1(7,9)
  proof (intro allI impI)
    fix b assume b: "b < length (buckets s)"
    have "b_work (buckets s1 ! b) = Some (length (pg_log s) + b)" using s1(2,4) b by (simp add: pass_inv_def)
    then show "\<exists>w. b_work (buckets s1 ! b) = Some w \<and> g_allreduced grp w = map (\<lambda>r. res (b, r)) [0..<length (replicas s)] \<and>
       (\<forall>r<length (replicas s). length (res (b, r)) = sum_list (lens_at s1 b r))"
      using assms(8) b la by auto
  qed
  moreover have "all_vars s \<noteq> {}" using assms(2) by (force simp: data_ok_def all_vars_def)
  then have "data_ok s1" "grads_ok (all_vars s1) s1" "expect_autograd_hooks s1" "require_finalize s1"
    using s1(2) by (simp_all add: pass_inv_def av)
  moreover have "next_bucket s1 = length (buckets s1)" by (simp add: s1(4,9))
  ultimately obtain s2 where s2: "finalize_backward lib grp s1 = (Inr (), s2)" "data_ok s2" "\<not> require_finalize s2" "divFactor s2 = kUnsetDivFactor"
    "forwardPassWorkHandle s2 = forwardPassWorkHandle s1"
    "\<And>i. i \<in> all_vars s1 \<Longrightarrow> map_option (tensor_read (storages s2)) (map_of (grads s2) i) = Some (part_of res s1 i)"
    using finalize_backward_delivers [OF assms(1)] by metis
  have po: "part_of res s1 i = part_of res s i" if "i \<in> all_vars s" for i
    using that data_okD(2) [OF assms(2)] la by (auto simp: part_of_def Let_def s1(8) all_vars_def layout_ok_def)
  have "factor grp s2 = Some D" using assms(4) s2(5) s1(10) by (simp add: factor_def)
  moreover have "\<forall>i\<in>all_vars s. map_option (tensor_read (storages s2)) (map_of (grads s2) i) = Some (part_of res s i)"
    using s2(6) po by (simp add: av)
  ultimately show ?thesis using s1(1,3,5) s2(1-4) by blast
qed

text \<open>
  C5. An iteration of data parallel training with dense gradients, from any state between
  iterations: when the engine delivers the gradient of every parameter of every replica once, in any
  order, every hook succeeds, the process group gets every bucket once and in order, each with the
  gradients of its parameters scaled by the division factor and laid out one after the other, and one
  finalizer is queued. The finalizer succeeds and replaces every gradient by its part of the result
  of the reduction of its bucket; the reducer is then between iterations again.
\<close>

theorem iteration_reduces_gradients:
  fixes res :: "nat \<times> nat \<Rightarrow> 'v list"
  assumes "copies lib" and "data_ok s" and "divFactor s = kUnsetDivFactor" and "factor grp s = Some D" and "distinct is" and "set is = all_vars s"
    and "\<forall>i\<in>all_vars s. length (G i) = var_numel (replicas s ! replica_index i ! variable_index i)"
    and "\<forall>b<length (buckets s). g_allreduced grp (length (pg_log s) + b) = map (\<lambda>r. res (b, r)) [0..<length (replicas s)] \<and>
       (\<forall>r<length (replicas s). length (res (b, r)) = sum_list (lens_at s b r))"
  shows "\<exists>s1 s2. for_each (backward_event lib grp) (map (\<lambda>i. (i, G i)) is) (prepare_for_backward g outputs s) = (Inr (), s1) \<and>
    pg_log s1 = pg_log s @ map (expected_request lib D G s) [0..<length (buckets s)] \<and> finalizers s1 = Suc (finalizers s) \<and>
    finalize_backward lib grp s1 = (Inr (), s2) \<and>
    (\<forall>i\<in>all_vars s. map_option (tensor_read (storages s2)) (map_of (grads s2) i) = Some (part_of res s i)) \<and>
    data_ok s2 \<and> divFactor s2 = kUnsetDivFactor \<and> factor grp s2 = Some D \<and> \<not> require_finalize s2"
  by (rule iteration_gradients [OF assms])

definition small_gradient :: "VariableIndex \<Rightarrow> int list" where
  "small_gradient i = (if variable_index i = 0 then [10, 20] else [30])"

definition small_result :: "nat \<times> nat \<Rightarrow> int list" where
  "small_result br = (if fst br = 0 then [7] else [5, 6])"

theorem iteration_reduces_gradients_witness:
  "\<exists>s1 s2. for_each (backward_event int_lib two_groups) [(var_at 0 0, [10, 20]), (var_at 0 1, [30])] (prepare_for_backward [] [] small_reducer) = (Inr (), s1) \<and>
     pg_log s1 = [Allreduce 0 [[15]], Allreduce 1 [[5, 10]]] \<and> finalize_backward int_lib two_groups s1 = (Inr (), s2) \<and>
     map_option (tensor_read (storages s2)) (map_of (grads s2) (var_at 0 0)) = Some [5, 6] \<and>
     map_option (tensor_read (storages s2)) (map_of (grads s2) (var_at 0 1)) = Some [7]"
proof -
  note d = small_reducer_data
  have bi: "map b_variable_indices (buckets small_reducer) = [[1], [0]]" and ll: "length (variable_locators small_reducer) = 2"
    and vl: "variable_locators small_reducer ! 0 = \<lparr>bucket_index = 1, intra_bucket_index = 0\<rparr>" "variable_locators small_reducer ! 1 = \<lparr>bucket_index = 0, intra_bucket_index = 0\<rparr>"
    by code_simp+
  have lb: "length (buckets small_reducer) = 2" using arg_cong [OF bi, of length] by simp
  have b: "b_variable_indices (buckets small_reducer ! 0) = [1]" "b_variable_indices (buckets small_reducer ! 1) = [0]"
    using arg_cong [OF bi, of "\<lambda>xs. xs ! 0"] arg_cong [OF bi, of "\<lambda>xs. xs ! 1"] lb by simp_all
  have nu: "var_numel (float_variable 2) = 2" "var_numel (float_variable 1) = 1" by code_simp+
  have cp: "copies int_lib" by (simp add: copies_def int_lib_def)
  have fa: "factor two_groups small_reducer = Some 2" by (simp add: factor_def d(4) two_groups_def)
  have av: "all_vars small_reducer = {var_at 0 0, var_at 0 1}" by (auto simp: all_vars_def d(5) ll less_Suc_eq numeral_2_eq_2)
  have la: "lens_at small_reducer 0 0 = [1]" "lens_at small_reducer 1 0 = [2]" using b nu by (simp_all add: lens_at_def d(5))
  have "\<forall>k<length (buckets small_reducer). g_allreduced two_groups (length (pg_log small_reducer) + k) =
      map (\<lambda>r. small_result (k, r)) [0..<length (replicas small_reducer)] \<and>
     (\<forall>r<length (replicas small_reducer). length (small_result (k, r)) = sum_list (lens_at small_reducer k r))"
    using la by (auto simp: lb d(3,5) two_groups_def small_result_def less_Suc_eq numeral_2_eq_2)
  moreover have "\<forall>i\<in>all_vars small_reducer. length (small_gradient i) = var_numel (replicas small_reducer ! replica_index i ! variable_index i)"
    using nu by (auto simp: av d(5) small_gradient_def)
  moreover have "set [var_at 0 0, var_at 0 1] = all_vars small_reducer" by (simp add: av)
  ultimately obtain s1 s2 where s: "for_each (backward_event int_lib two_groups) (map (\<lambda>i. (i, small_gradient i)) [var_at 0 0, var_at 0 1])
      (prepare_for_backward [] [] small_reducer) = (Inr (), s1)"
    "pg_log s1 = pg_log small_reducer @ map (expected_request int_lib 2 small_gradient small_reducer) [0..<length (buckets small_reducer)]"
    "finalize_backward int_lib two_groups s1 = (Inr (), s2)"
    "\<forall>i\<in>all_vars small_reducer. map_option (tensor_read (storages s2)) (map_of (grads s2) i) = Some (part_of small_result small_reducer i)"
    using iteration_reduces_gradients [OF cp d(1,2) fa, of "[var_at 0 0, var_at 0 1]" small_gradient small_result "[]" "[]"] by auto
  have "pg_log s1 = [Allreduce 0 [[15]], Allreduce 1 [[5, 10]]]"
    using s(2) b by (simp add: lb d(3,5) expected_request_def flat_def small_gradient_def int_lib_def numeral_2_eq_2)
  moreover have "part_of small_result small_reducer (var_at 0 0) = [5, 6]" "part_of small_result small_reducer (var_at 0 1) = [7]"
    using la vl by (simp_all add: part_of_def Let_def small_result_def)
  ultimately show ?thesis using s by (auto simp: av small_gradient_def)
qed

section \<open>Unused parameters\<close>

definition graph_edge :: "autograd_graph \<Rightarrow> nat \<Rightarrow> nat \<Rightarrow> bool" where
  "graph_edge g a b \<longleftrightarrow> Some b \<in> set (umap_at [] g a)"

lemma visit_edges_sets:
  "fold visit_edge es (queue, seen) = (queue', seen') \<Longrightarrow>
   set seen' = set seen \<union> {f. Some f \<in> set es} \<and> set queue' = set queue \<union> {f. Some f \<in> set es \<and> f \<notin> set seen}"
proof (induction es arbitrary: queue seen)
  case (Cons e es)
  obtain q1 s1 where v: "visit_edge e (queue, seen) = (q1, s1)" by (cases "visit_edge e (queue, seen)")
  then have "set s1 = set seen \<union> {f. e = Some f}" "set q1 = set queue \<union> {f. e = Some f \<and> f \<notin> set seen}"
    by (auto simp: visit_edge_def split: option.splits if_splits)
  then show ?case using Cons.IH [of q1 s1] Cons.prems v by auto
qed simp

lemma traverse_closure:
  assumes "\<forall>n\<in>set seen. n \<in> set queue \<or> Collect (graph_edge g n) \<subseteq> set seen"
  shows "set seen \<subseteq> set (traverse g queue seen) \<and>
    (\<forall>n\<in>set (traverse g queue seen) \<union> set queue. Collect (graph_edge g n) \<subseteq> set (traverse g queue seen)) \<and>
    set (traverse g queue seen) \<subseteq> set seen \<union> {b. \<exists>a\<in>set queue. (graph_edge g)\<^sup>+\<^sup>+ a b}"
  using assms
proof (induction g queue seen rule: traverse.induct)
  case (2 g fn queue seen)
  obtain queue' seen' where v: "fold visit_edge (umap_at [] g fn) (queue, seen) = (queue', seen')"
    by (cases "fold visit_edge (umap_at [] g fn) (queue, seen)")
  have s: "set seen' = set seen \<union> Collect (graph_edge g fn)" "set queue' = set queue \<union> (Collect (graph_edge g fn) - set seen)"
    using visit_edges_sets [OF v] by (auto simp: graph_edge_def)
  have inv: "\<forall>n\<in>set seen'. n \<in> set queue' \<or> Collect (graph_edge g n) \<subseteq> set seen'" using "2.prems" by (auto simp: s)
  have t: "traverse g (fn # queue) seen = traverse g queue' seen'" by (simp add: v)
  note IH = "2.IH" [OF v [symmetric] refl inv]
  have "{b. \<exists>a\<in>set queue'. (graph_edge g)\<^sup>+\<^sup>+ a b} \<subseteq> {b. \<exists>a\<in>set (fn # queue). (graph_edge g)\<^sup>+\<^sup>+ a b}"
    by (auto simp: s intro: tranclp_into_tranclp2)
  moreover have "Collect (graph_edge g fn) \<subseteq> {b. \<exists>a\<in>set (fn # queue). (graph_edge g)\<^sup>+\<^sup>+ a b}" by auto
  ultimately show ?case using IH unfolding t s(1) by (auto simp: s(2))
qed auto

lemma traverse_reachable: "set (traverse g queue []) = {b. \<exists>a\<in>set queue. (graph_edge g)\<^sup>+\<^sup>+ a b}"
proof -
  note c = traverse_closure [of "[]" queue g, simplified]
  have "b \<in> set (traverse g queue [])" if "(graph_edge g)\<^sup>+\<^sup>+ a b" "a \<in> set queue" for a b
    using that by (induction rule: tranclp_induct) (use c in blast)+
  then show ?thesis using c by blast
qed

text \<open>
  C14. Unused parameter detection: with \<^verbatim>\<open>find_unused_parameters\<close>, the parameters that
  \<^verbatim>\<open>prepare_for_backward\<close> takes as unused are exactly those whose gradient accumulator cannot be
  reached from any output along the edges of the autograd graph; the traversal ends on every graph,
  cyclic ones included. Without the option no parameter is taken as unused.
\<close>

theorem unused_parameters_unreachable:
  "unused_parameters (prepare_for_backward g outputs s) =
   (if find_unused_parameters s
    then concat (map snd (filter (\<lambda>(acc, idxs). \<not> (\<exists>out. Some out \<in> set outputs \<and> (graph_edge g)\<^sup>+\<^sup>+ out acc)) (gradAccToVariablesMap s)))
    else [])"
proof -
  have "set (rev (List.map_filter id outputs)) = {x. Some x \<in> set outputs}" by (force simp: map_filter_def)
  then show ?thesis by (simp add: prepare_for_backward_def Let_def traverse_reachable)
qed

section \<open>Rebuilding the buckets\<close>

lemma rebuild_split:
  assumes "rebuild_buckets lib iter bcast ctx s = (Inr True, s')"
  obtains rebuilt synced where "\<not> require_finalize s" "length (rebuilt_params s) = length (rebuilt_param_indices s)" "rebuilt_params s \<noteq> []"
    "length (replicas s ! 0) = length (rebuilt_param_indices s)" "replicas s \<noteq> []"
    "compute_bucket_assignment_by_size iter (map v_info (rebuilt_params s)) [word_of_int kDefaultFirstBucketBytes, word_of_int (bucket_bytes_cap s)]
       (expect_sparse_gradients s ! 0) (rebuilt_param_indices s) = Inr rebuilt"
    "sync_bucket_indices bcast rebuilt = Inr synced"
    "initialize_buckets lib ctx synced (s\<lparr>has_rebuilt_bucket := True, rebuilt_params := [], rebuilt_param_indices := []\<rparr>) = (Inr (), s')"
  using assms unfolding rebuild_buckets_def ensure_prior_reduction_finished_def
  by (auto simp: atM_def vec_at_def elim!: bindM_InrE split: if_splits)

lemma mset_interval:
  assumes "mset (concat bis) = mset [0..<n]"
  shows "distinct (concat bis)" "set (concat bis) = {..<n}"
  using mset_eq_imp_distinct_iff [OF assms] mset_eq_setD [OF assms] by auto

text \<open>
  C15. Rebuilding the buckets after the first iteration: when it succeeds, every process takes the
  buckets that process 0 assigned, whatever it computed itself, and the reducer is again ready for an
  iteration with them, so that the buckets of all processes stay the same.
\<close>

theorem rebuild_buckets_consistent:
  assumes "rebuild_buckets lib iter bcast False s = (Inr True, s')" and "\<And>bs. mset (iter bs) = mset bs"
    and "data_ok s" and "\<forall>sp\<in>set (expect_sparse_gradients s ! 0). \<not> sp"
    and "mset (concat root) = mset [0..<length (replicas s ! 0)]" and "[] \<notin> set root" and "length (replicas s ! 0) < 2 ^ 31"
    and "\<forall>buf. bcast 0 buf = pack_indices root" and "\<forall>buf. bcast 1 buf = map (\<lambda>b. to_int32 (length b)) root"
  shows "data_ok s' \<and> map b_variable_indices (buckets s') = root \<and> has_rebuilt_bucket s' \<and> rebuilt_params s' = [] \<and> grads s' = grads s"
proof -
  let ?V = "length (replicas s ! 0)"
  let ?s1 = "s\<lparr>has_rebuilt_bucket := True, rebuilt_params := [], rebuilt_param_indices := []\<rparr>"
  obtain rebuilt synced where r: "\<not> require_finalize s" "length (rebuilt_params s) = length (rebuilt_param_indices s)" "rebuilt_params s \<noteq> []"
    "?V = length (rebuilt_param_indices s)" "replicas s \<noteq> []"
    "compute_bucket_assignment_by_size iter (map v_info (rebuilt_params s)) [word_of_int kDefaultFirstBucketBytes, word_of_int (bucket_bytes_cap s)]
       (expect_sparse_gradients s ! 0) (rebuilt_param_indices s) = Inr rebuilt"
    "sync_bucket_indices bcast rebuilt = Inr synced" "initialize_buckets lib False synced ?s1 = (Inr (), s')"
    by (rule rebuild_split [OF assms(1)])
  obtain xs where xs: "length xs = length (rebuilt_params s)" "mset (concat rebuilt) = mset xs"
    using compute_partition [OF r(6) assms(2)] by auto
  have lc: "length (concat root) = ?V" using mset_eq_length [OF assms(5)] by simp
  have lr: "length (concat rebuilt) = ?V" using mset_eq_length [OF xs(2)] xs(1) r(2,4) by simp
  then have "rebuilt \<noteq> []" using r(2-4) by auto
  moreover have b: "length b \<le> length (concat root)" "\<forall>x\<in>set b. x < ?V" if "b \<in> set root" for b
    using member_le_sum_list [of "length b" "map length root"] that mset_interval(2) [OF assms(5)] by (auto simp: length_concat)
  moreover have "length root \<le> length (concat root)"
  proof -
    have "sum_list (map (\<lambda>b. 1) root) \<le> sum_list (map length root)" by (rule sum_list_mono) (use assms(6) in \<open>auto simp: Suc_le_eq\<close>)
    then show ?thesis by (simp add: length_concat sum_list_triv)
  qed
  ultimately have "sync_bucket_indices bcast rebuilt = Inr root"
    by (intro sync_root) (use assms(7-9) lc lr in \<open>fastforce simp: list_all_iff\<close>)+
  then have sy: "synced = root" using r(7) by simp
  note p = mset_interval [OF assms(5)]
  note i = r(8) [unfolded sy]
  have dd: "plain s" "grads_apart s" using data_okD [OF assms(3)] by auto
  have "\<forall>i g. map_of (grads ?s1) i = Some g \<longrightarrow> t_storage g < length (storages ?s1)" using dd(2) by (simp add: grads_apart_def)
  then have d: "data_ok s'"
    by (intro initialize_buckets_data [OF i p(1)]) (use p(2) dd(1) assms(4) r(2-5) in \<open>auto simp: plain_def\<close>)
  have l: "map b_variable_indices (buckets s') = root" "base s' = (base ?s1)\<lparr>rpc_context := False\<rparr>"
    using initialize_buckets_layout [OF i p(1)] p(2) by auto
  have "has_rebuilt_bucket s'" "rebuilt_params s' = []"
    using arg_cong [OF l(2), of has_rebuilt_bucket] arg_cong [OF l(2), of rebuilt_params] by (simp_all add: base_def frame_def)
  moreover have "grads s' = grads s" by (rule initialize_buckets_grads [OF i, simplified]) (use dd(1) assms(4) in \<open>auto simp: plain_def\<close>)
  ultimately show ?thesis using d l(1) by blast
qed

definition small_rebuilding :: "int reducer" where
  "small_rebuilding = small_reducer\<lparr>rebuilt_params := [float_variable 1, float_variable 2], rebuilt_param_indices := [1, 0]\<rparr>"

definition from_root :: "nat \<Rightarrow> int list \<Rightarrow> int list" where
  "from_root j buf = (if j = 0 then pack_indices [[0, 1]] else map (\<lambda>b. to_int32 (length b)) [[0, 1 :: nat]])"

theorem rebuild_buckets_consistent_witness:
  "\<exists>s'. rebuild_buckets int_lib id from_root False small_rebuilding = (Inr True, s') \<and> data_ok s' \<and> map b_variable_indices (buckets s') = [[0, 1]]"
proof -
  define r where "r = rebuild_buckets int_lib id from_root False small_rebuilding"
  have "fst r = Inr True" unfolding r_def by code_simp
  then have r: "rebuild_buckets int_lib id from_root False small_rebuilding = (Inr True, snd r)" by (simp add: r_def prod_eq_iff)
  have "data_ok small_rebuilding = data_ok small_reducer" by (rule data_ok_cong) (simp_all add: small_rebuilding_def plain_def)
  then have d: "data_ok small_rebuilding" using small_reducer_data(1) by simp
  have "expect_sparse_gradients small_rebuilding = [[False, False]]" by code_simp
  moreover have "replicas small_rebuilding = [[float_variable 2, float_variable 1]]" by (simp add: small_rebuilding_def small_reducer_data(5))
  ultimately have "data_ok (snd r) \<and> map b_variable_indices (buckets (snd r)) = [[0, 1]]"
    using rebuild_buckets_consistent [OF r _ d, of "[[0, 1]]"] by (simp add: from_root_def add.commute)
  from conjI [OF r this] show ?thesis by (rule exI)
qed

section \<open>A variable that is marked twice\<close>

definition shared_reducer :: "int reducer" where
  "shared_reducer = snd (Reducer_new int_lib id (\<lambda>_. 0) False [[0, 1]] (reducer_blank [[float_variable 2, float_variable 1]] [] 0 False False 0))"

text \<open>
  The guard of \<^verbatim>\<open>mark_variable_ready\<close> compares the counter of the whole bucket replica with
  zero. A second hook of the same variable is therefore accepted as long as another variable of its
  bucket is missing: the bucket is handed to the process group and the finalizer queued although the
  other variable never became ready.
\<close>

theorem marked_twice_launches_early:
  "\<exists>s'. for_each (autograd_hook int_lib two_groups) [var_at 0 0, var_at 0 0] (prepare_for_backward [] [] shared_reducer) = (Inr (), s') \<and>
     bucket_requests (pg_log s') = [0] \<and> finalizers s' = 1 \<and>
     \<not> complete (length (replicas s')) {var_at 0 0} (b_variable_indices (buckets s' ! 0))"
proof -
  define r where "r = for_each (autograd_hook int_lib two_groups) [var_at 0 0, var_at 0 0] (prepare_for_backward [] [] shared_reducer)"
  have "fst r = Inr ()" "map req_bucket (pg_log (snd r)) = [Some 0]" "finalizers (snd r) = 1" "length (replicas (snd r)) = 1"
    "b_variable_indices (buckets (snd r) ! 0) = [0, 1]"
    unfolding r_def by code_simp+
  moreover from this have "for_each (autograd_hook int_lib two_groups) [var_at 0 0, var_at 0 0] (prepare_for_backward [] [] shared_reducer) = (Inr (), snd r)"
    unfolding r_def by (metis prod.collapse)
  ultimately show ?thesis by (auto simp: bucket_requests_map complete_def map_filter_def)
qed

end
