(* ===== verification/Collective_Checks.thy ===== *)
theory Collective_Checks
  imports C10d_Prelude
begin

text \<open>
  The argument checks of the collectives and the split arithmetic of all-to-all
  (\<^verbatim>\<open>Utils.hpp\<close>, lines 35 to 463). Of a tensor the checks look at its type, sizes, layout
  and device. A check takes the function \<open>fn\<close> that the caller has it report with, which throws
  in every caller; a check that \<open>fn\<close> lets pass goes on. The lemmas say exactly which lists of
  tensors pass, and that lengths and offsets of all-to-all tile the buffer.
\<close>

section \<open>Tensors as the checks see them\<close>

datatype device_type = CPU | CUDA | NPU

datatype layout = Strided | Sparse

record tensor =
  t_type :: nat
  t_sizes :: "int list"
  t_layout :: layout
  t_device_type :: device_type
  t_device_index :: int

fun numel_from :: "int \<Rightarrow> int list \<Rightarrow> int" where
  "numel_from n [] = n"
| "numel_from n (s # ss) = numel_from (n * s) ss"

definition numel :: "tensor \<Rightarrow> int" where
  "numel t = numel_from 1 (t_sizes t)"

type_synonym report = "string \<Rightarrow> unit res"

text \<open>\<^verbatim>\<open>tensors[i]\<close> of an \<^verbatim>\<open>ArrayRef\<close>, which checks its index.\<close>

definition tensor_at :: "tensor list \<Rightarrow> nat \<Rightarrow> tensor res" where
  "tensor_at ts i = (if i < length ts then Inr (ts ! i) else Inl (C10_error ''ArrayRef: invalid index''))"

definition report_if :: "report \<Rightarrow> bool \<Rightarrow> string \<Rightarrow> unit res" where
  "report_if fn bad msg = (if bad then fn msg else Inr ())"

section \<open>Checks\<close>

fun toString_from :: "int list \<Rightarrow> string" where
  "toString_from [] = []"
| "toString_from [x] = to_string x"
| "toString_from (x # xs) = to_string x @ '', '' @ toString_from xs"

definition toString :: "int list \<Rightarrow> string" where
  "toString l = ''('' @ toString_from l @ '')''"

fun assertSameType :: "nat \<Rightarrow> tensor list \<Rightarrow> unit res" where
  "assertSameType ty [] = Inr ()"
| "assertSameType ty (t # ts) =
     (if t_type t \<noteq> ty then Inl (Invalid_argument ''mixed types'') else assertSameType ty ts)"

fun assertSameSizes :: "int list \<Rightarrow> tensor list \<Rightarrow> unit res" where
  "assertSameSizes sizes [] = Inr ()"
| "assertSameSizes sizes (t # ts) =
     (if t_sizes t \<noteq> sizes
      then Inl (Invalid_argument (''mixed sizes ('' @ toString sizes @ '' and '' @ toString (t_sizes t) @ '')''))
      else assertSameSizes sizes ts)"

definition parseEnvVarFlag :: "string option \<Rightarrow> bool res" where
  "parseEnvVarFlag stringValue =
     (case stringValue of
        None \<Rightarrow> Inr False
      | Some s \<Rightarrow>
          (case stoi s of
             Inl e \<Rightarrow> Inl (Runtime_error ''Invalid value for environment variable: '')
           | Inr val \<Rightarrow>
               (if val = 1 then Inr True
                else if val = 0 then Inr False
                else Inl (Runtime_error ''Invalid value for environment variable: ''))))"

fun same_size_and_type :: "nat \<Rightarrow> int list \<Rightarrow> tensor list \<Rightarrow> unit res" where
  "same_size_and_type ty sizes [] = Inr ()"
| "same_size_and_type ty sizes (t # ts) =
     (if t_type t \<noteq> ty then Inl (Invalid_argument ''argument contains mixed types'')
      else if t_sizes t \<noteq> sizes
      then Inl (Invalid_argument (''argument contains mixed sizes ('' @ toString sizes @ '' and '' @ toString (t_sizes t) @ '')''))
      else same_size_and_type ty sizes ts)"

definition assertSameSizeAndType :: "tensor list \<Rightarrow> unit res" where
  "assertSameSizeAndType tensors =
     (case tensors of
        [] \<Rightarrow> Inl (Invalid_argument ''argument is empty'')
      | t # ts \<Rightarrow> same_size_and_type (t_type t) (t_sizes t) ts)"

definition assertTypeMatch :: "report \<Rightarrow> nat \<Rightarrow> tensor list \<Rightarrow> nat \<Rightarrow> unit res" where
  "assertTypeMatch fn ty tensors index =
     bindE (tensor_at tensors index) (\<lambda>t.
       report_if fn (t_type t \<noteq> ty) (''invalid tensor type at index '' @ to_string (int index)))"

definition assertSizesMatch :: "report \<Rightarrow> int list \<Rightarrow> tensor list \<Rightarrow> nat \<Rightarrow> unit res" where
  "assertSizesMatch fn sizes tensors index =
     bindE (tensor_at tensors index) (\<lambda>t.
       report_if fn (t_sizes t \<noteq> sizes)
         (''invalid tensor size at index '' @ to_string (int index) @ '' (expected '' @ toString sizes @
          '', got '' @ toString (t_sizes t) @ '')''))"

definition assertLayoutMatch_at :: "report \<Rightarrow> layout \<Rightarrow> tensor list \<Rightarrow> nat \<Rightarrow> unit res" where
  "assertLayoutMatch_at fn expected tensors index =
     bindE (tensor_at tensors index) (\<lambda>t.
       report_if fn (t_layout t \<noteq> expected) (''invalid tensor layout at index '' @ to_string (int index)))"

text \<open>The loops of the checks over an index range.\<close>

fun for_indices :: "(nat \<Rightarrow> unit res) \<Rightarrow> nat list \<Rightarrow> unit res" where
  "for_indices f [] = Inr ()"
| "for_indices f (i # is) = bindE (f i) (\<lambda>_. for_indices f is)"

definition assertLayoutMatch :: "report \<Rightarrow> tensor list \<Rightarrow> unit res" where
  "assertLayoutMatch fn tensors =
     bindE (tensor_at tensors 0) (\<lambda>t.
       for_indices (assertLayoutMatch_at fn (t_layout t) tensors) [1..<length tensors])"

definition assertNonEmpty :: "report \<Rightarrow> tensor list \<Rightarrow> unit res" where
  "assertNonEmpty fn tensors = report_if fn (length tensors = 0) ''requires non-empty tensor list''"

definition assertSingleElement :: "report \<Rightarrow> tensor list \<Rightarrow> unit res" where
  "assertSingleElement fn tensors = report_if fn (length tensors \<noteq> 1) ''requires a single-element tensor list''"

definition assertSingleElementInput :: "report \<Rightarrow> tensor list \<Rightarrow> unit res" where
  "assertSingleElementInput fn tensors =
     report_if fn (length tensors \<noteq> 1) ''requires a single-element input tensor list''"

definition assertSingleElementOutput :: "report \<Rightarrow> tensor list \<Rightarrow> unit res" where
  "assertSingleElementOutput fn tensors =
     report_if fn (length tensors \<noteq> 1) ''requires a single-element output tensor list''"

definition assertRootRank :: "report \<Rightarrow> int \<Rightarrow> int \<Rightarrow> unit res" where
  "assertRootRank fn rank n = report_if fn (rank < 0 \<or> n \<le> rank) (''invalid root rank: '' @ to_string rank)"

definition assertRootTensor :: "report \<Rightarrow> int \<Rightarrow> int \<Rightarrow> unit res" where
  "assertRootTensor fn rank n = report_if fn (rank < 0 \<or> n \<le> rank) (''invalid root tensor: '' @ to_string rank)"

definition assertDense :: "report \<Rightarrow> tensor list \<Rightarrow> unit res" where
  "assertDense fn tensors =
     bindE (tensor_at tensors 0) (\<lambda>t. report_if fn (t_layout t \<noteq> Strided) ''only supports dense tensors'')"

definition assertCPU :: "report \<Rightarrow> tensor list \<Rightarrow> unit res" where
  "assertCPU fn tensors =
     bindE (tensor_at tensors 0) (\<lambda>t. report_if fn (t_device_type t \<noteq> CPU) ''only supports CPU tensors'')"

definition device :: "tensor \<Rightarrow> device_type \<times> int" where
  "device t = (t_device_type t, t_device_index t)"

definition assertSameDevice :: "report \<Rightarrow> tensor list \<Rightarrow> unit res" where
  "assertSameDevice fn tensors =
     (if length tensors < 2 then Inr ()
      else bindE (tensor_at tensors 0) (\<lambda>t0.
        for_indices (\<lambda>i. bindE (tensor_at tensors i) (\<lambda>t.
          report_if fn (device t \<noteq> device t0) ''tensors should be on the same device'')) [1..<length tensors]))"

definition type_and_sizes_match :: "report \<Rightarrow> tensor list \<Rightarrow> nat \<Rightarrow> int list \<Rightarrow> unit res" where
  "type_and_sizes_match fn tensors ty sizes =
     for_indices (\<lambda>i. bindE (assertTypeMatch fn ty tensors i) (\<lambda>_. assertSizesMatch fn sizes tensors i))
       [0..<length tensors]"

definition assertTypeAndSizesMatch :: "report \<Rightarrow> tensor list \<Rightarrow> unit res" where
  "assertTypeAndSizesMatch fn tensors =
     bindE (tensor_at tensors 0) (\<lambda>t. type_and_sizes_match fn (tl tensors) (t_type t) (t_sizes t))"

text \<open>The shape of the flat tensor allocated for a list of tensors.\<close>

definition newLikeFlat_sizes :: "tensor list list \<Rightarrow> nat \<Rightarrow> int list res" where
  "newLikeFlat_sizes tensors deviceIdx =
     (if length tensors = 0 \<or> length (tensors ! 0) = 0 then Inl (Runtime_error ''Received an empty list'')
      else if length tensors \<le> deviceIdx then Inl (Runtime_error ''Invalid device index'')
      else if tensors ! deviceIdx = [] then Inl Undefined
      else let t = tensors ! deviceIdx ! 0
           in if list_ex (\<lambda>u. device u \<noteq> device t) (tl (tensors ! deviceIdx))
              then Inl (Runtime_error ''Expecting all tensors on the same device'')
              else Inr (int (length (tensors ! deviceIdx)) # t_sizes t))"

definition newLikeFlat1_sizes :: "tensor list \<Rightarrow> int list res" where
  "newLikeFlat1_sizes tensors =
     (case tensors of
        [] \<Rightarrow> Inl (Runtime_error ''Received an empty list'')
      | t # ts \<Rightarrow> Inr (int (length tensors) # t_sizes t))"

definition getSizes :: "tensor list \<Rightarrow> int list list" where
  "getSizes tensors = map t_sizes tensors"

definition getDevices :: "tensor list \<Rightarrow> int list res" where
  "getDevices tensors =
     (case tensors of
        [] \<Rightarrow> Inl Undefined
      | t # ts \<Rightarrow> Inr (if t_device_type t = CUDA then map t_device_index tensors else map (\<lambda>_. -1) tensors))"

section \<open>Splits of all-to-all\<close>

text \<open>\<^verbatim>\<open>std::accumulate\<close> with an \<^verbatim>\<open>int\<close> initial value keeps an \<^verbatim>\<open>int\<close>.\<close>

definition wrap32 :: "int \<Rightarrow> int" where
  "wrap32 i = sint (word_of_int i :: 32 word)"

definition int_sum :: "int list \<Rightarrow> int" where
  "int_sum xs = foldl (\<lambda>acc x. wrap32 (acc + x)) 0 xs"

definition size0 :: "tensor \<Rightarrow> int res" where
  "size0 t = (case t_sizes t of [] \<Rightarrow> Inl (Out_of_range ''Dimension specified as 0 but tensor has no dimensions'') | s # ss \<Rightarrow> Inr s)"

definition checkSplitSizes :: "int list \<Rightarrow> tensor \<Rightarrow> int \<Rightarrow> unit res" where
  "checkSplitSizes split_sizes t group_size =
     bindE (size0 t) (\<lambda>dim0.
       if split_sizes = [] then
         if group_size = 0 then Inl Undefined
         else if dim0 mod group_size = 0 then Inr ()
         else Inl (C10_error ''Tensor's dim 0 does not divide equally across group size'')
       else if int (length split_sizes) \<noteq> group_size
       then Inl (C10_error ''Number of tensor splits not equal to group size'')
       else if int_sum split_sizes = dim0 then Inr ()
       else Inl (C10_error ''Split sizes doesn't match total dim 0 size''))"

definition INT_MAX :: "64 word" where "INT_MAX = 2147483647"

text \<open>The lengths as the loop reads them, one per rank; an element beyond a vector's end is undefined.\<close>

fun lengths_offsets :: "64 word res list \<Rightarrow> 64 word \<Rightarrow> (64 word \<times> (64 word \<times> 64 word) list) res" where
  "lengths_offsets [] offset = Inr (offset, [])"
| "lengths_offsets (l # ls) offset =
     bindE l (\<lambda>len.
     if len \<le> INT_MAX \<and> offset \<le> INT_MAX
     then bindE (lengths_offsets ls (offset + len)) (\<lambda>(total, los). Inr (total, (len, offset) # los))
     else Inl (C10_assert ''Length or offset larger than INT_MAX not supported''))"

definition elems :: "nat \<Rightarrow> 'a list \<Rightarrow> 'a res list" where
  "elems n xs = map (\<lambda>i. if i < length xs then Inr (xs ! i) else Inl Undefined) [0..<n]"

text \<open>The result is the total and, per rank, the length and the offset.\<close>

definition computeLengthsAndOffsets :: "int list \<Rightarrow> tensor \<Rightarrow> nat \<Rightarrow> (64 word \<times> (64 word \<times> 64 word) list) res" where
  "computeLengthsAndOffsets split_sizes t group_size =
     bindE (size0 t) (\<lambda>dim0.
       let dim0_size = word_of_int dim0 :: 64 word;
           row_size = (if dim0_size \<noteq> 0 then word_of_int (numel t) div dim0_size else 1)
       in if split_sizes = [] then
            if group_size = 0 then Inl Undefined
            else lengths_offsets
                   (replicate group_size (Inr (row_size * (word_of_int dim0 div word_of_nat group_size)))) 0
          else lengths_offsets (elems group_size (map (\<lambda>s. row_size * word_of_int s) split_sizes)) 0)"

definition computeLengthsAndOffsets_tensors :: "tensor list \<Rightarrow> nat \<Rightarrow> (64 word \<times> (64 word \<times> 64 word) list) res" where
  "computeLengthsAndOffsets_tensors tensors group_size =
     lengths_offsets (elems group_size (map (\<lambda>t. word_of_int (numel t)) tensors)) 0"

section \<open>Which lists pass\<close>

definition throwing :: report where
  "throwing msg = Inl (Invalid_argument msg)"

lemma report_throwing [simp]: "report_if throwing bad msg = Inr () \<longleftrightarrow> \<not> bad"
  by (simp add: report_if_def throwing_def)

lemma bindE_unit [simp]: "bindE r (\<lambda>_. q) = Inr () \<longleftrightarrow> r = Inr () \<and> q = (Inr () :: unit res)" for r :: "unit res"
  by (cases r) simp_all

lemma for_indices_ok: "for_indices f is = Inr () \<longleftrightarrow> (\<forall>i \<in> set is. f i = Inr ())"
  by (induction "is") auto

lemma tensor_at_bind: "i < length ts \<Longrightarrow> bindE (tensor_at ts i) f = f (ts ! i)"
  by (simp add: tensor_at_def)

lemma same_size_and_type_ok:
  "same_size_and_type ty sizes ts = Inr () \<longleftrightarrow> (\<forall>t \<in> set ts. t_type t = ty \<and> t_sizes t = sizes)"
  by (induction ts) auto

lemma type_and_sizes_match_ok:
  "type_and_sizes_match throwing ts ty sizes = Inr () \<longleftrightarrow> (\<forall>t \<in> set ts. t_type t = ty \<and> t_sizes t = sizes)"
proof -
  have "type_and_sizes_match throwing ts ty sizes = Inr () \<longleftrightarrow>
      (\<forall>i < length ts. t_type (ts ! i) = ty \<and> t_sizes (ts ! i) = sizes)"
    by (auto simp: type_and_sizes_match_def for_indices_ok assertTypeMatch_def assertSizesMatch_def tensor_at_bind)
  then show ?thesis by (simp only: all_set_conv_all_nth)
qed

lemma lengths_offsets_tile:
  assumes "lengths_offsets ls off = Inr (tot, los)" and "unat off \<le> 2 ^ 32"
  shows "length los = length ls \<and> map Inr (map fst los) = ls \<and> list_all (\<lambda>(len, o'). len \<le> INT_MAX) los \<and>
     (\<forall>i < length los. unat (snd (los ! i)) = unat off + sum_list (map (unat \<circ> fst) (take i los))) \<and>
     unat tot = unat off + sum_list (map (unat \<circ> fst) los)"
  using assms
proof (induction ls arbitrary: off tot los)
  case (Cons l ls)
  from Cons.prems(1) obtain len los' where
    l: "l = Inr len" "len \<le> INT_MAX" "off \<le> INT_MAX" and rec: "lengths_offsets ls (off + len) = Inr (tot, los')"
    and los: "los = (len, off) # los'"
    by (cases l) (auto simp: bindE_def split: if_splits sum.splits)
  have small: "unat len \<le> 2147483647" "unat off \<le> 2147483647"
    using l(2,3) by (simp_all add: INT_MAX_def word_le_nat_alt)
  then have "unat off + unat len < 2 ^ LENGTH(64)" by simp
  then have sum: "unat (off + len) = unat off + unat len" by (simp add: unat_add_lem [THEN iffD1])
  with small have "unat (off + len) \<le> 2 ^ 32" by simp
  note IH = Cons.IH [OF rec this, unfolded sum]
  have "unat (snd (los ! i)) = unat off + sum_list (map (unat \<circ> fst) (take i los))" if "i < length los" for i
    using that los IH by (cases i) (simp_all add: comp_def)
  moreover have "map Inr (map fst los) = l # ls" using IH los l(1) by (simp del: map_map)
  ultimately show ?case using l(2) los IH by (simp add: comp_def del: map_map)
qed simp

lemma numel_from_prod: "numel_from n ss = n * prod_list ss"
  by (induction ss arbitrary: n) (simp_all add: mult.assoc)

lemma wrap32_id: "- (2 ^ 31) \<le> i \<Longrightarrow> i < 2 ^ 31 \<Longrightarrow> wrap32 i = i"
  by (simp add: wrap32_def sint_sbintrunc' signed_take_bit_int_eq_self)

lemma int_sum_exact:
  assumes "\<forall>x \<in> set xs. 0 \<le> x" and "sum_list xs < 2 ^ 31"
  shows "int_sum xs = sum_list xs"
proof -
  have "foldl (\<lambda>acc x. wrap32 (acc + x)) a xs = a + sum_list xs" if "0 \<le> a" "a + sum_list xs < 2 ^ 31" for a
    using assms(1) that
  proof (induction xs arbitrary: a)
    case (Cons x xs)
    have "0 \<le> sum_list xs" using Cons.prems(1) by (simp add: sum_list_nonneg)
    then have "wrap32 (a + x) = a + x" using Cons.prems by (intro wrap32_id) simp_all
    then show ?case using Cons by (simp add: add.assoc)
  qed simp
  from this [of 0] assms(2) show ?thesis by (simp add: int_sum_def)
qed

text \<open>Products of sizes that fit, computed in 64-bit words.\<close>

lemma unat_mult_exact:
  assumes "0 \<le> r" and "0 \<le> x" and "r * x < 2 ^ 64"
  shows "unat (word_of_int r * word_of_int x :: 64 word) = nat (r * x)"
proof -
  have "word_of_int r * word_of_int x = (word_of_int (r * x) :: 64 word)" by simp
  then show ?thesis using assms
    by (simp only: unat_eq_nat_uint uint_word_of_int) (simp add: take_bit_int_eq_self)
qed

lemma unat_word_of_int: "0 \<le> x \<Longrightarrow> x < 2 ^ 64 \<Longrightarrow> unat (word_of_int x :: 64 word) = nat x"
  using unat_mult_exact [of 1 x] by simp

lemma row_size_exact:
  assumes "0 < d" and "0 \<le> r" and "d * r < 2 ^ 63"
  shows "(word_of_int (d * r) :: 64 word) div word_of_int d = word_of_int r"
proof -
  have "d * 1 \<le> d * r \<or> r = 0" using assms(1,2) by (cases "r = 0") (simp_all add: mult_left_mono)
  then have "d < 2 ^ 64 \<or> r = 0" using assms(3) by auto
  moreover have "r \<le> d * r" using assms(1,2) by (simp add: mult_le_cancel_right1)
  ultimately have "unat ((word_of_int (d * r) :: 64 word) div word_of_int d) = unat (word_of_int r :: 64 word)"
    using assms unat_mult_exact [of d r]
    by (auto simp: unat_div unat_word_of_int nat_mult_distrib)
  then show ?thesis by (simp only: word_unat_eq_iff)
qed

lemma sum_rows:
  assumes "0 \<le> r" and "\<forall>x \<in> set xs. 0 \<le> x" and "r * sum_list xs < 2 ^ 64"
  shows "sum_list (map (\<lambda>x. unat (word_of_int r * word_of_int x :: 64 word)) xs) = nat (r * sum_list xs)"
  using assms
proof (induction xs)
  case (Cons x xs)
  have s: "0 \<le> sum_list xs" using Cons.prems(2) by (simp add: sum_list_nonneg)
  then have p: "0 \<le> r * x" "0 \<le> r * sum_list xs" using Cons.prems(1,2) by simp_all
  have e: "r * sum_list (x # xs) = r * x + r * sum_list xs" by (simp add: distrib_left)
  have "unat (word_of_int r * word_of_int x :: 64 word) = nat (r * x)"
    using Cons.prems e p by (intro unat_mult_exact) simp_all
  moreover have "r * sum_list xs < 2 ^ 64" using Cons.prems(3) e p by simp
  ultimately show ?case using Cons e p by (simp add: nat_add_distrib)
qed simp

lemma div_le_dividend_int: "0 \<le> d \<Longrightarrow> 0 < g \<Longrightarrow> d div g \<le> (d :: int)"
  by (metis div_by_1 int_one_le_iff_zero_less zdiv_mono2 zero_less_one)

lemma word_div_exact:
  assumes "0 \<le> d" and "d < 2 ^ 63" and "0 < g" and "g < 2 ^ 31"
  shows "(word_of_int d :: 64 word) div word_of_nat (nat g) = word_of_int (d div g)"
proof -
  have "unat (word_of_nat (nat g) :: 64 word) = nat g" using assms(3,4) by (simp add: unat_word_of_int)
  moreover have "d div g < 2 ^ 64" "0 \<le> d div g"
    using assms div_le_dividend_int [of d g] by (simp_all add: pos_imp_zdiv_nonneg_iff)
  ultimately have "unat ((word_of_int d :: 64 word) div word_of_nat (nat g)) = unat (word_of_int (d div g) :: 64 word)"
    using assms by (simp add: unat_div unat_word_of_int nat_div_distrib)
  then show ?thesis by (simp only: word_unat_eq_iff)
qed

text \<open>The lengths computed for the ranks, as exact multiples of the row size.\<close>

lemma alltoall_lengths:
  assumes "t_sizes t = d # ss" and "\<forall>x \<in> set (d # ss). 0 \<le> x" and "numel t < 2 ^ 63" and "d < 2 ^ 63"
    and "0 < g" and "g < 2 ^ 31" and "checkSplitSizes splits t g = Inr ()"
    and "\<forall>x \<in> set splits. 0 \<le> x" and "sum_list splits < 2 ^ 31"
  shows "\<exists>r xs. 0 \<le> r \<and> (\<forall>x \<in> set xs. 0 \<le> x) \<and> length xs = nat g \<and> r * sum_list xs = numel t \<and>
     computeLengthsAndOffsets splits t (nat g) = lengths_offsets (map (\<lambda>x. Inr (word_of_int r * word_of_int x)) xs) 0"
proof -
  define r where "r = (if d = 0 then 1 else prod_list ss)"
  have n: "numel t = d * prod_list ss" using assms(1) by (simp add: numel_def numel_from_prod)
  have r: "0 \<le> r" using assms(2) by (auto simp: r_def prod_list_nonneg)
  have rd: "r * d = numel t" by (simp add: r_def n)
  have "(word_of_int d :: 64 word) = 0 \<longleftrightarrow> d = 0"
    using assms(2,4) unat_word_of_int [of d] by (auto simp: unat_eq_0 [symmetric])
  then have row: "(if (word_of_int d :: 64 word) \<noteq> 0 then word_of_int (numel t) div word_of_int d else 1) = (word_of_int r :: 64 word)"
    using row_size_exact [of d r] assms(2,3) r n by (auto simp: r_def)
  have s0: "size0 t = Inr d" using assms(1) by (simp add: size0_def)
  show ?thesis
  proof (cases "splits = []")
    case True
    let ?xs = "replicate (nat g) (d div g)"
    have "d mod g = 0" using assms(5,7) True s0 by (auto simp: checkSplitSizes_def split: if_splits)
    then have "sum_list ?xs = d" using assms(5) by (simp add: sum_list_replicate mod_eq_0_iff_dvd)
    moreover have "computeLengthsAndOffsets splits t (nat g) =
        lengths_offsets (map (\<lambda>x. Inr (word_of_int r * word_of_int x)) ?xs) 0"
      using True s0 row word_div_exact [of d g] assms(2,4-6) by (simp add: computeLengthsAndOffsets_def Let_def)
    ultimately show ?thesis using r rd assms(2,5)
      by (intro exI [of _ r] exI [of _ ?xs]) (simp add: pos_imp_zdiv_nonneg_iff)
  next
    case False
    then have len: "length splits = nat g" and "int_sum splits = d"
      using assms(5,7) s0 by (auto simp: checkSplitSizes_def split: if_splits)
    then have "sum_list splits = d" using int_sum_exact [OF assms(8,9)] by simp
    moreover have "elems (nat g) (map (\<lambda>s. word_of_int r * word_of_int s) splits) =
        map (\<lambda>x. Inr (word_of_int r * word_of_int x :: 64 word)) splits"
      using len by (auto simp: elems_def intro: nth_equalityI)
    then have "computeLengthsAndOffsets splits t (nat g) =
        lengths_offsets (map (\<lambda>x. Inr (word_of_int r * word_of_int x)) splits) 0"
      using False s0 row by (simp add: computeLengthsAndOffsets_def Let_def)
    ultimately show ?thesis using r rd assms(8) len by (intro exI [of _ r] exI [of _ splits]) simp
  qed
qed

section \<open>Properties\<close>

text \<open>
  The two checks for equal tensors accept the same lists: a non-empty list passes
  \<^verbatim>\<open>assertSameSizeAndType\<close>, and \<^verbatim>\<open>assertTypeAndSizesMatch\<close> with a throwing
  reporter, exactly when every tensor has the type and the sizes of the first.
\<close>

theorem equal_tensor_checks:
  assumes "ts \<noteq> []"
  shows "(assertSameSizeAndType ts = Inr ()) = (\<forall>t \<in> set ts. t_type t = t_type (hd ts) \<and> t_sizes t = t_sizes (hd ts)) \<and>
    (assertTypeAndSizesMatch throwing ts = Inr ()) = (assertSameSizeAndType ts = Inr ())"
  using assms
  by (cases ts) (simp_all add: assertSameSizeAndType_def assertTypeAndSizesMatch_def same_size_and_type_ok
      type_and_sizes_match_ok tensor_at_def)

definition sample_tensor :: "int list \<Rightarrow> tensor" where
  "sample_tensor sizes = \<lparr>t_type = 6, t_sizes = sizes, t_layout = Strided, t_device_type = CPU, t_device_index = -1\<rparr>"

theorem equal_tensor_checks_witness:
  "assertTypeAndSizesMatch throwing [sample_tensor [2, 3], sample_tensor [2, 3]] = Inr ()"
  using equal_tensor_checks [of "[sample_tensor [2, 3], sample_tensor [2, 3]]"] by simp

text \<open>
  All-to-all splits tile the buffer: for splits that passed \<^verbatim>\<open>checkSplitSizes\<close> and
  whose sum an \<^verbatim>\<open>int\<close> holds, the segments given by lengths and offsets start at 0, follow each
  other without gap or overlap in the order of the ranks, and end at the number of elements.
\<close>

theorem alltoall_tiles:
  assumes "t_sizes t = d # ss" and "\<forall>x \<in> set (d # ss). 0 \<le> x" and "numel t < 2 ^ 63" and "d < 2 ^ 63"
    and "0 < g" and "g < 2 ^ 31" and "checkSplitSizes splits t g = Inr ()"
    and "\<forall>x \<in> set splits. 0 \<le> x" and "sum_list splits < 2 ^ 31"
    and "computeLengthsAndOffsets splits t (nat g) = Inr (tot, los)"
  shows "length los = nat g \<and> unat tot = nat (numel t) \<and>
    (\<forall>i < length los. unat (snd (los ! i)) = sum_list (map (unat \<circ> fst) (take i los)))"
proof -
  from alltoall_lengths [OF assms(1-9)] obtain r xs where
    rx: "0 \<le> r" "\<forall>x \<in> set xs. 0 \<le> x" "length xs = nat g" "r * sum_list xs = numel t"
      "computeLengthsAndOffsets splits t (nat g) = lengths_offsets (map (\<lambda>x. Inr (word_of_int r * word_of_int x)) xs) 0"
    by blast
  from lengths_offsets_tile [of "map (\<lambda>x. Inr (word_of_int r * word_of_int x)) xs" 0 tot los] rx(5) assms(10)
  have tile: "length los = length xs" "map Inr (map fst los) = (map (\<lambda>x. Inr (word_of_int r * word_of_int x)) xs :: 64 word res list)"
    "\<forall>i < length los. unat (snd (los ! i)) = sum_list (map (unat \<circ> fst) (take i los))"
    "unat tot = sum_list (map (unat \<circ> fst) los)" by auto
  have "map Inr (map fst los) = (map Inr (map (\<lambda>x. word_of_int r * word_of_int x :: 64 word) xs) :: 64 word res list)"
    using tile(2) by (simp add: comp_def)
  then have "map fst los = map (\<lambda>x. word_of_int r * word_of_int x) xs" by (simp only: inj_map_eq_map inj_Inr)
  then have "map (unat \<circ> fst) los = map (\<lambda>x. unat (word_of_int r * word_of_int x :: 64 word)) xs"
    by (metis (no_types, lifting) comp_def map_eq_conv map_map)
  then have "unat tot = nat (numel t)" using tile(4) sum_rows [OF rx(1,2)] rx(4) assms(3) by simp
  with tile(1,3) rx(3) show ?thesis by simp
qed

theorem alltoall_tiles_witness:
  "unat (6 :: 64 word) = nat (numel (sample_tensor [3, 2]))"
proof -
  have "computeLengthsAndOffsets [1, 2] (sample_tensor [3, 2]) (nat 2) = Inr (6, [(2, 0), (4, 2)])" by code_simp
  moreover have "checkSplitSizes [1, 2] (sample_tensor [3, 2]) 2 = Inr ()" by code_simp
  ultimately show ?thesis
    using alltoall_tiles [of "sample_tensor [3, 2]" 3 "[2]" 2 "[1, 2]" 6 "[(2, 0), (4, 2)]"]
    by (simp add: sample_tensor_def numel_def)
qed

text \<open>
  The sum of the split sizes is kept in an \<^verbatim>\<open>int\<close>: splits that do not add up to the first
  dimension pass \<^verbatim>\<open>checkSplitSizes\<close> when they are off by a multiple of 2^32, and the exact
  splits of a tensor with 2^31 rows are rejected.
\<close>

theorem split_sum_wraps:
  "checkSplitSizes [2 ^ 32, 4] (sample_tensor [4]) 2 = Inr () \<and>
   checkSplitSizes [2 ^ 30, 2 ^ 30] (sample_tensor [2 ^ 31]) 2 =
     Inl (C10_error ''Split sizes doesn't match total dim 0 size'')"
  by (simp add: checkSplitSizes_def size0_def sample_tensor_def int_sum_def wrap32_def)

end
