(* ===== verification/ProcessGroup_Work.thy ===== *)
theory ProcessGroup_Work
  imports Store_Interface
begin

text \<open>
  \<^verbatim>\<open>c10d::ProcessGroup::Work\<close> (\<^verbatim>\<open>ProcessGroup.hpp\<close>, \<^verbatim>\<open>ProcessGroup.cpp\<close>), the handle of
  an asynchronous collective, and \<^verbatim>\<open>ProcessGroupRoundRobin\<close>, which spreads collectives
  over several process groups. A work object is one mutex, one condition variable and the
  fields they protect; a member function that takes the mutex is one step, and a thread inside
  \<^verbatim>\<open>cv_.wait\<close> is an entry of \<open>wk_waiters\<close>. The theory shows which outcome every waiting
  thread gets, that \<^verbatim>\<open>finish\<close> releases every waiting thread, that \<^verbatim>\<open>finishAndThrow\<close>
  does not, and that round-robin dispatch sends the calls of all ranks to the same groups.
\<close>

section \<open>Kinds of operations\<close>

datatype OpType =
    BROADCAST | ALLREDUCE | ALLREDUCE_COALESCED | REDUCE | ALLGATHER | ALLGATHER_BASE
  | ALLGATHER_COALESCED | GATHER | SCATTER | REDUCE_SCATTER | ALLTOALL_BASE | ALLTOALL
  | SEND | RECV | RECVANYSOURCE | BARRIER | UNKNOWN

fun opTypeToString :: "OpType \<Rightarrow> string" where
  "opTypeToString BROADCAST = ''BROADCAST''"
| "opTypeToString ALLREDUCE = ''ALLREDUCE''"
| "opTypeToString ALLREDUCE_COALESCED = ''ALLREDUCE_COALESCED''"
| "opTypeToString REDUCE = ''REDUCE''"
| "opTypeToString ALLGATHER = ''ALLGATHER''"
| "opTypeToString ALLGATHER_BASE = ''ALLGATHER_BASE''"
| "opTypeToString ALLGATHER_COALESCED = ''ALLGATHER_COALESCED''"
| "opTypeToString GATHER = ''GATHER''"
| "opTypeToString SCATTER = ''SCATTER''"
| "opTypeToString REDUCE_SCATTER = ''REDUCE_SCATTER''"
| "opTypeToString ALLTOALL_BASE = ''ALLTOALL_BASE''"
| "opTypeToString ALLTOALL = ''ALLTOALL''"
| "opTypeToString SEND = ''SEND''"
| "opTypeToString RECV = ''RECV''"
| "opTypeToString RECVANYSOURCE = ''RECVANYSOURCE''"
| "opTypeToString BARRIER = ''BARRIER''"
| "opTypeToString UNKNOWN = ''UNKNOWN''"

definition isP2POp :: "OpType \<Rightarrow> bool" where
  "isP2POp opType \<longleftrightarrow> opType = SEND \<or> opType = RECV \<or> opType = RECVANYSOURCE"

text \<open>Reductions (\<^verbatim>\<open>Types.hpp\<close>) and the element types of tensors.\<close>

datatype ReduceOp = SUM_op | PRODUCT | MIN_op | MAX_op | BAND | BOR | BXOR | UNUSED

datatype ScalarType = kByte | kChar | kShort | kInt | kLong | kHalf | kFloat | kDouble | kBool | kBFloat16

section \<open>The work object\<close>

text \<open>
  \<open>wk_callback\<close> says whether \<^verbatim>\<open>recordFunctionEndCallback_\<close> holds a function, \<open>wk_recorded\<close>
  counts its calls. A waiting thread has a timeout or none, and may have been notified.
  \<open>wk_returned\<close> lists what the calls of \<^verbatim>\<open>wait\<close> that blocked gave in the end.
\<close>

record work_waiter =
  ww_timed :: bool
  ww_signalled :: bool

record work =
  wk_rank :: int
  wk_opType :: OpType
  wk_completed :: bool
  wk_exception :: "exn option"
  wk_callback :: bool
  wk_recorded :: nat
  wk_waiters :: "(nat, work_waiter) umap"
  wk_returned :: "(nat \<times> bool res) list"

text \<open>
  The constructor: \<open>title\<close> is the profiling title, \<open>active\<close> what \<^verbatim>\<open>RecordFunction::isActive\<close>
  answers.
\<close>

definition Work :: "int \<Rightarrow> OpType \<Rightarrow> string option \<Rightarrow> bool \<Rightarrow> work" where
  "Work rank opType title active =
     \<lparr>wk_rank = rank, wk_opType = opType, wk_completed = False, wk_exception = None,
      wk_callback = (title \<noteq> None \<and> active), wk_recorded = 0, wk_waiters = [], wk_returned = []\<rparr>"

definition retrieveOpType :: "work \<Rightarrow> OpType" where
  "retrieveOpType w = wk_opType w"

definition Work_isCompleted :: "work \<Rightarrow> bool" where
  "Work_isCompleted w = wk_completed w"

definition Work_isSuccess :: "work \<Rightarrow> bool" where
  "Work_isSuccess w = (wk_exception w = None)"

definition Work_exception :: "work \<Rightarrow> exn option" where
  "Work_exception w = wk_exception w"

definition Work_sourceRank :: "work \<Rightarrow> int res" where
  "Work_sourceRank w = Inl (Runtime_error ''sourceRank() may only be called on work objects '')"

definition Work_result :: "work \<Rightarrow> 't list res" where
  "Work_result w = Inl (Runtime_error ''result() not implemented.'')"

definition Work_synchronize :: "work \<Rightarrow> work" where
  "Work_synchronize w = w"

definition Work_abort :: "(work, unit) cmd" where
  "Work_abort = throwM (C10_error ''ProcessGroup::Work::abort not implemented.'')"

definition Work_getFuture :: "(work, future) cmd" where
  "Work_getFuture = throwM (C10_error ''ProcessGroup::Work::getFuture not implemented.'')"

text \<open>The part of \<^verbatim>\<open>wait\<close> after the condition variable has let the thread go.\<close>

definition Work_wait_end :: "(work, bool) cmd" where
  "Work_wait_end w =
     (case wk_exception w of
        Some e \<Rightarrow> (Inl e, w)
      | None \<Rightarrow> (Inr True, Work_synchronize w))"

definition Work_wait :: "nat \<Rightarrow> int \<Rightarrow> (work, bool) cmd" where
  "Work_wait tid timeout w =
     (if wk_completed w then Work_wait_end w
      else (Inl Blocked,
            w\<lparr>wk_waiters := AList.update tid
                \<lparr>ww_timed = (timeout \<noteq> kNoTimeout), ww_signalled = False\<rparr> (wk_waiters w)\<rparr>))"

definition work_leave :: "nat \<Rightarrow> bool res \<Rightarrow> work \<Rightarrow> work" where
  "work_leave tid r w =
     w\<lparr>wk_waiters := AList.delete tid (wk_waiters w), wk_returned := wk_returned w @ [(tid, r)]\<rparr>"

text \<open>
  A waiting thread gets the mutex again (\<open>Work_resume\<close>: notified, or spuriously) or its timeout
  has passed (\<open>Work_expire\<close>): it evaluates the predicate and leaves or waits on.
\<close>

definition Work_resume :: "nat \<Rightarrow> work \<Rightarrow> work" where
  "Work_resume tid w =
     (case map_of (wk_waiters w) tid of
        None \<Rightarrow> w
      | Some x \<Rightarrow>
          (if wk_completed w then (case Work_wait_end w of (r, w') \<Rightarrow> work_leave tid r w')
           else w\<lparr>wk_waiters := AList.update tid (x\<lparr>ww_signalled := False\<rparr>) (wk_waiters w)\<rparr>))"

definition Work_expire :: "nat \<Rightarrow> work \<Rightarrow> work" where
  "Work_expire tid w =
     (case map_of (wk_waiters w) tid of
        None \<Rightarrow> w
      | Some x \<Rightarrow>
          (if wk_completed w then (case Work_wait_end w of (r, w') \<Rightarrow> work_leave tid r w')
           else work_leave tid (Inl (Runtime_error ''Operation timed out!'')) w))"

definition work_end_record :: "work \<Rightarrow> work" where
  "work_end_record w =
     (if wk_callback w then w\<lparr>wk_recorded := wk_recorded w + 1, wk_callback := False\<rparr> else w)"

definition work_notify_all :: "work \<Rightarrow> work" where
  "work_notify_all w = w\<lparr>wk_waiters := map (\<lambda>(t, x). (t, x\<lparr>ww_signalled := True\<rparr>)) (wk_waiters w)\<rparr>"

definition finish :: "exn option \<Rightarrow> work \<Rightarrow> work" where
  "finish e w = work_notify_all (work_end_record (w\<lparr>wk_completed := True, wk_exception := e\<rparr>))"

definition finishAndThrow :: "exn option \<Rightarrow> (work, unit) cmd" where
  "finishAndThrow e w =
     (let w1 = work_end_record (w\<lparr>wk_completed := True, wk_exception := e\<rparr>)
      in case wk_exception w1 of Some x \<Rightarrow> (Inl x, w1) | None \<Rightarrow> (Inr (), w1))"

text \<open>\<^verbatim>\<open>ProcessGroup\<close>'s own implementations of virtual functions, for groups that lack them.\<close>

definition ProcessGroup_allgather_coalesced :: "('s, work) cmd" where
  "ProcessGroup_allgather_coalesced =
     throwM (Runtime_error ''no support for allgather_coalesced in this process group'')"

definition ProcessGroup_alltoall_base :: "('s, work) cmd" where
  "ProcessGroup_alltoall_base = throwM (Runtime_error ''ProcessGroup does not support alltoall'')"

definition ProcessGroup_alltoall :: "('s, work) cmd" where
  "ProcessGroup_alltoall = throwM (Runtime_error ''ProcessGroup does not support alltoall'')"

section \<open>Threads that share a work object\<close>

datatype work_event =
    Wait_call nat int
  | Finish_call "exn option"
  | Finish_throw_call "exn option"
  | Wake nat
  | Timer nat

fun work_exec :: "work_event \<Rightarrow> work \<Rightarrow> work" where
  "work_exec (Wait_call t d) w = snd (Work_wait t d w)"
| "work_exec (Finish_call e) w = finish e w"
| "work_exec (Finish_throw_call e) w = snd (finishAndThrow e w)"
| "work_exec (Wake t) w = Work_resume t w"
| "work_exec (Timer t) w = Work_expire t w"

fun work_enabled :: "work_event \<Rightarrow> work \<Rightarrow> bool" where
  "work_enabled (Wait_call t d) w = (\<not> umap_has (wk_waiters w) t)"
| "work_enabled (Timer t) w = (case map_of (wk_waiters w) t of None \<Rightarrow> False | Some x \<Rightarrow> ww_timed x)"
| "work_enabled _ w = True"

text \<open>
  \<open>work_reach P w\<close>: \<open>w\<close> is reached from a new work object by enabled events that satisfy \<open>P\<close>.
\<close>

inductive work_reach :: "(work_event \<Rightarrow> bool) \<Rightarrow> work \<Rightarrow> bool" for P where
  work_start: "work_reach P (Work rank opType title active)"
| work_step: "work_reach P w \<Longrightarrow> P e \<Longrightarrow> work_enabled e w \<Longrightarrow> work_reach P (work_exec e w)"

fun is_finish :: "work_event \<Rightarrow> bool" where
  "is_finish (Finish_call e) = True"
| "is_finish (Finish_throw_call e) = True"
| "is_finish _ = False"

fun is_finish_throw :: "work_event \<Rightarrow> bool" where
  "is_finish_throw (Finish_throw_call e) = True"
| "is_finish_throw _ = False"

text \<open>The documented reading of \<^verbatim>\<open>wait\<close>: poll, then rethrow or report success.\<close>

definition poll_outcome :: "work \<Rightarrow> bool res" where
  "poll_outcome w =
     (let success = Work_isSuccess w
      in if \<not> success then Inl (the (Work_exception w)) else Inr success)"

section \<open>Round-robin dispatch\<close>

text \<open>
  A member group is seen through its rank and size; \<open>rr_log\<close> lists the calls that were handed to
  member groups, with the index of the group.
\<close>

record pg_member =
  pg_rank :: int
  pg_size :: int

record round_robin =
  rr_rank :: int
  rr_size :: int
  rr_groups :: "pg_member list"
  rr_iterator :: nat
  rr_log :: "(nat \<times> OpType) list"

fun rr_check_members :: "int \<Rightarrow> int \<Rightarrow> pg_member list \<Rightarrow> unit res" where
  "rr_check_members rank world [] = Inr ()"
| "rr_check_members rank world (g # gs) =
     (if pg_rank g \<noteq> rank then Inl (C10_error ''processGroup->getRank() == rank_'')
      else if pg_size g \<noteq> world then Inl (C10_error ''processGroup->getSize() == size_'')
      else rr_check_members rank world gs)"

definition ProcessGroupRoundRobin :: "int \<Rightarrow> int \<Rightarrow> pg_member list \<Rightarrow> round_robin res" where
  "ProcessGroupRoundRobin rank world groups =
     (if \<not> 1 \<le> length groups then Inl (C10_error ''processGroups_.size() >= 1'')
      else bindE (rr_check_members rank world groups) (\<lambda>_.
        Inr \<lparr>rr_rank = rank, rr_size = world, rr_groups = groups, rr_iterator = 0, rr_log = []\<rparr>))"

definition rr_next :: "(round_robin, nat) cmd" where
  "rr_next r =
     (let i = rr_iterator r; j = i + 1
      in (Inr i, r\<lparr>rr_iterator := (if j = length (rr_groups r) then 0 else j)\<rparr>))"

text \<open>Handing a call of the given kind to the member that \<^verbatim>\<open>next\<close> picks.\<close>

definition rr_forward :: "OpType \<Rightarrow> (round_robin, unit) cmd" where
  "rr_forward k = bindM rr_next (\<lambda>i. modifyM (\<lambda>r. r\<lparr>rr_log := rr_log r @ [(i, k)]\<rparr>))"

definition rr_broadcast :: "(round_robin, unit) cmd" where "rr_broadcast = rr_forward BROADCAST"
definition rr_allreduce :: "(round_robin, unit) cmd" where "rr_allreduce = rr_forward ALLREDUCE"
definition rr_allreduce_coalesced :: "(round_robin, unit) cmd" where
  "rr_allreduce_coalesced = rr_forward ALLREDUCE_COALESCED"
definition rr_reduce :: "(round_robin, unit) cmd" where "rr_reduce = rr_forward REDUCE"
definition rr_allgather :: "(round_robin, unit) cmd" where "rr_allgather = rr_forward ALLGATHER"
definition rr_allgather_coalesced :: "(round_robin, unit) cmd" where
  "rr_allgather_coalesced = rr_forward ALLGATHER"
definition rr_gather :: "(round_robin, unit) cmd" where "rr_gather = rr_forward GATHER"
definition rr_scatter :: "(round_robin, unit) cmd" where "rr_scatter = rr_forward SCATTER"
definition rr_reduce_scatter :: "(round_robin, unit) cmd" where
  "rr_reduce_scatter = rr_forward REDUCE_SCATTER"
definition rr_alltoall_base :: "(round_robin, unit) cmd" where
  "rr_alltoall_base = rr_forward ALLTOALL_BASE"

definition rr_send :: "(round_robin, unit) cmd" where
  "rr_send = throwM (Runtime_error ''ProcessGroupRoundRobin does not support send'')"
definition rr_recv :: "(round_robin, unit) cmd" where
  "rr_recv = throwM (Runtime_error ''ProcessGroupRoundRobin does not support recv'')"
definition rr_recvAnysource :: "(round_robin, unit) cmd" where
  "rr_recvAnysource = throwM (Runtime_error ''ProcessGroupRoundRobin does not support recv'')"
definition rr_barrier :: "(round_robin, unit) cmd" where
  "rr_barrier = throwM (Runtime_error ''ProcessGroupRoundRobin does not support barrier'')"
definition rr_allgather_base :: "(round_robin, unit) cmd" where
  "rr_allgather_base = throwM (Runtime_error ''no support for allgather_base in RoundRobin process group'')"

text \<open>The virtual call table: which member function a call of each kind runs.\<close>

fun rr_call :: "OpType \<Rightarrow> (round_robin, unit) cmd" where
  "rr_call BROADCAST = rr_broadcast"
| "rr_call ALLREDUCE = rr_allreduce"
| "rr_call ALLREDUCE_COALESCED = rr_allreduce_coalesced"
| "rr_call REDUCE = rr_reduce"
| "rr_call ALLGATHER = rr_allgather"
| "rr_call ALLGATHER_BASE = rr_allgather_base"
| "rr_call ALLGATHER_COALESCED = rr_allgather_coalesced"
| "rr_call GATHER = rr_gather"
| "rr_call SCATTER = rr_scatter"
| "rr_call REDUCE_SCATTER = rr_reduce_scatter"
| "rr_call ALLTOALL_BASE = rr_alltoall_base"
| "rr_call ALLTOALL = throwM (Runtime_error ''ProcessGroup does not support alltoall'')"
| "rr_call SEND = rr_send"
| "rr_call RECV = rr_recv"
| "rr_call RECVANYSOURCE = rr_recvAnysource"
| "rr_call BARRIER = rr_barrier"
| "rr_call UNKNOWN = returnM ()"

text \<open>A program's calls in order; an exception of one call does not undo the others.\<close>

fun rr_run :: "OpType list \<Rightarrow> round_robin \<Rightarrow> round_robin" where
  "rr_run [] r = r"
| "rr_run (k # ks) r = rr_run ks (snd (rr_call k r))"

definition rr_forwarded :: "OpType list \<Rightarrow> OpType list" where
  "rr_forwarded ks =
     map (\<lambda>k. if k = ALLGATHER_COALESCED then ALLGATHER else k)
       (filter (\<lambda>k. \<not> isP2POp k \<and> k \<notin> {BARRIER, ALLGATHER_BASE, ALLTOALL, UNKNOWN}) ks)"

section \<open>What waiting threads get\<close>

lemmas work_defs = Work_wait_def Work_wait_end_def Work_resume_def Work_expire_def work_leave_def
  Work_synchronize_def finish_def finishAndThrow_def work_end_record_def work_notify_all_def Let_def

lemma map_of_signal_work:
  "map_of (map (\<lambda>(t, x). (t, x\<lparr>ww_signalled := True\<rparr>)) ws) t =
     map_option (\<lambda>x. x\<lparr>ww_signalled := True\<rparr>) (map_of ws t)"
  by (induction ws) auto

lemma work_end_record_simps [simp]:
  "wk_waiters (work_end_record w) = wk_waiters w"
  "wk_completed (work_end_record w) = wk_completed w"
  "wk_exception (work_end_record w) = wk_exception w"
  "wk_returned (work_end_record w) = wk_returned w"
  "wk_callback (work_end_record w) = False"
  by (simp_all add: work_end_record_def)

lemma wait_end_outcome: "Work_wait_end w = (poll_outcome w, w)"
  by (simp add: Work_wait_end_def poll_outcome_def Work_isSuccess_def Work_exception_def
      Work_synchronize_def split: option.splits)

definition no_stranded_waiter :: "work \<Rightarrow> bool" where
  "no_stranded_waiter w \<longleftrightarrow>
     (wk_completed w \<longrightarrow> (\<forall>t x. map_of (wk_waiters w) t = Some x \<longrightarrow> ww_signalled x))"

lemma exec_no_stranded_waiter:
  assumes "no_stranded_waiter w" and "\<not> is_finish_throw e"
  shows "no_stranded_waiter (work_exec e w)"
proof (cases e)
  case (Finish_call ex)
  then show ?thesis
    by (auto simp: no_stranded_waiter_def finish_def work_notify_all_def map_of_signal_work)
qed (use assms in \<open>auto simp: no_stranded_waiter_def Work_wait_def wait_end_outcome Work_resume_def
       Work_expire_def work_leave_def split: option.splits if_splits\<close>)

lemma reach_no_stranded_waiter:
  "work_reach (\<lambda>e. \<not> is_finish_throw e) w \<Longrightarrow> no_stranded_waiter w"
proof (induction rule: work_reach.induct)
  case (work_start rank opType title active)
  then show ?case by (simp add: no_stranded_waiter_def Work_def)
next
  case (work_step w e)
  then show ?case by (blast intro: exec_no_stranded_waiter)
qed

text \<open>The recorded span ends at most once, and has ended when the work is completed.\<close>

definition recorded_once :: "work \<Rightarrow> bool" where
  "recorded_once w \<longleftrightarrow> wk_recorded w + of_bool (wk_callback w) \<le> 1 \<and> (wk_completed w \<longrightarrow> \<not> wk_callback w)"

lemma exec_recorded_once: "recorded_once w \<Longrightarrow> recorded_once (work_exec e w)"
  by (cases e) (auto simp: recorded_once_def work_defs split: option.splits if_splits)

lemma reach_recorded_once: "work_reach P w \<Longrightarrow> recorded_once w"
proof (induction rule: work_reach.induct)
  case (work_start rank opType title active)
  then show ?case by (simp add: recorded_once_def Work_def)
next
  case (work_step w e)
  then show ?case by (blast intro: exec_recorded_once)
qed

text \<open>All waiting threads of a work object that is finished with \<open>e\<close> get the outcome \<open>e\<close> stands for.\<close>

definition finish_outcome :: "exn option \<Rightarrow> bool res" where
  "finish_outcome e = (case e of Some x \<Rightarrow> Inl x | None \<Rightarrow> Inr True)"

definition finishes_with :: "exn option \<Rightarrow> work_event \<Rightarrow> bool" where
  "finishes_with e ev \<longleftrightarrow> (is_finish ev \<longrightarrow> ev = Finish_call e \<or> ev = Finish_throw_call e)"

definition outcomes_from :: "exn option \<Rightarrow> work \<Rightarrow> bool" where
  "outcomes_from e w \<longleftrightarrow>
     (wk_completed w \<longrightarrow> wk_exception w = e) \<and>
     (\<forall>(t, r) \<in> set (wk_returned w). r = finish_outcome e \<or> r = Inl (Runtime_error ''Operation timed out!''))"

lemma poll_outcome_finish: "poll_outcome w = finish_outcome (wk_exception w)"
  by (simp add: poll_outcome_def Work_isSuccess_def Work_exception_def finish_outcome_def split: option.splits)

lemma exec_outcomes_from:
  assumes "outcomes_from e w" and "finishes_with e ev"
  shows "outcomes_from e (work_exec ev w)"
proof (cases ev)
  case (Finish_throw_call ex)
  with assms show ?thesis
    by (auto simp: outcomes_from_def finishAndThrow_def finishes_with_def Let_def split: option.splits)
qed (use assms in \<open>auto simp: outcomes_from_def finishes_with_def Work_wait_def wait_end_outcome
       Work_resume_def Work_expire_def work_leave_def finish_def work_notify_all_def poll_outcome_finish
       split: option.splits if_splits\<close>)

lemma reach_outcomes_from: "work_reach (finishes_with e) w \<Longrightarrow> outcomes_from e w"
proof (induction rule: work_reach.induct)
  case (work_start rank opType title active)
  then show ?case by (simp add: outcomes_from_def Work_def)
next
  case (work_step w ev)
  then show ?case by (blast intro: exec_outcomes_from)
qed

section \<open>Where calls go\<close>

lemma rr_forward_run:
  "rr_forward k r =
     (Inr (), r\<lparr>rr_iterator := (if rr_iterator r + 1 = length (rr_groups r) then 0 else rr_iterator r + 1),
                rr_log := rr_log r @ [(rr_iterator r, k)]\<rparr>)"
  by (simp add: rr_forward_def rr_next_def bindM_def modifyM_def Let_def)

lemmas rr_ops = rr_broadcast_def rr_allreduce_def rr_allreduce_coalesced_def rr_reduce_def rr_allgather_def
  rr_allgather_coalesced_def rr_gather_def rr_scatter_def rr_reduce_scatter_def rr_alltoall_base_def
  rr_send_def rr_recv_def rr_recvAnysource_def rr_barrier_def rr_allgather_base_def

lemma rr_call_cases:
  "snd (rr_call k r) = (case rr_forwarded [k] of [] \<Rightarrow> r | k' # _ \<Rightarrow> snd (rr_forward k' r))"
  by (cases k) (simp_all add: rr_ops rr_forwarded_def isP2POp_def throwM_def returnM_def)

lemma rr_forwarded_Cons: "rr_forwarded (k # ks) = rr_forwarded [k] @ rr_forwarded ks"
  by (simp add: rr_forwarded_def)

lemma rr_forwarded_single: "rr_forwarded [k] = [] \<or> (\<exists>k'. rr_forwarded [k] = [k'])"
  by (simp add: rr_forwarded_def)

lemma mod_next:
  "i < n \<Longrightarrow> (if i + 1 = n then 0 else i + 1) = (i + 1) mod (n::nat)"
  by auto

lemma map_upt_mod_Suc:
  "map (\<lambda>j. (i + j) mod n) [0..<Suc m] = (i mod n) # map (\<lambda>j. ((i + 1) mod n + j) mod (n::nat)) [0..<m]"
proof -
  have "map (\<lambda>j. (i + j) mod n) [0..<Suc m] = i mod n # map (\<lambda>j. (i + Suc j) mod n) [0..<m]"
    by (simp add: upt_conv_Cons map_Suc_upt [symmetric] o_def del: upt_Suc)
  then show ?thesis by (simp add: mod_simps)
qed

lemma rr_run_log:
  assumes "rr_iterator r < length (rr_groups r)"
  shows "rr_log (rr_run ks r) =
    rr_log r @ zip (map (\<lambda>j. (rr_iterator r + j) mod length (rr_groups r)) [0..<length (rr_forwarded ks)])
                   (rr_forwarded ks)"
  using assms
proof (induction ks arbitrary: r)
  case Nil
  then show ?case by (simp add: rr_forwarded_def)
next
  case (Cons k ks)
  consider "rr_forwarded [k] = []" | k' where "rr_forwarded [k] = [k']"
    using rr_forwarded_single by blast
  then show ?case
  proof cases
    case 1
    then have "rr_forwarded (k # ks) = rr_forwarded ks" using rr_forwarded_Cons [of k ks] by simp
    with 1 Cons show ?thesis by (simp add: rr_call_cases)
  next
    case 2
    let ?n = "length (rr_groups r)" and ?i = "rr_iterator r"
    let ?r = "r\<lparr>rr_iterator := (?i + 1) mod ?n, rr_log := rr_log r @ [(?i, k')]\<rparr>"
    from 2 Cons.prems have step: "snd (rr_call k r) = ?r"
      by (simp add: rr_call_cases rr_forward_run mod_next del: One_nat_def)
    from 2 have f: "rr_forwarded (k # ks) = k' # rr_forwarded ks" using rr_forwarded_Cons [of k ks] by simp
    from Cons.prems have "?n > 0" by linarith
    then have "rr_log (rr_run ks ?r) = rr_log ?r @
        zip (map (\<lambda>j. ((?i + 1) mod ?n + j) mod ?n) [0..<length (rr_forwarded ks)]) (rr_forwarded ks)"
      by (subst Cons.IH) (simp_all del: length_greater_0_conv)
    with step Cons.prems show ?thesis
      unfolding f by (simp add: map_upt_mod_Suc del: upt_Suc)
  qed
qed

section \<open>Properties\<close>



text \<open>
  \<^verbatim>\<open>finishAndThrow\<close> completes the work without notifying: a thread that waits without a
  timeout stays blocked and unsignalled although the work is completed, whatever the exception.
\<close>

theorem finishAndThrow_strands_waiters:
  "let w = work_exec (Finish_throw_call e) (work_exec (Wait_call t kNoTimeout) (Work rank opType title active))
   in Work_isCompleted w \<and> map_of (wk_waiters w) t = Some \<lparr>ww_timed = False, ww_signalled = False\<rparr>"
  by (simp add: finishAndThrow_def Work_wait_def Work_def Work_isCompleted_def Let_def split: option.splits)

text \<open>
  Threads agree on the outcome. When every completion of a work object carries the same
  exception (or none), then in every interleaving all calls of \<^verbatim>\<open>wait\<close> that returned gave the
  outcome this exception stands for, or the timeout error; and a later call on the completed work
  gives it at once.
\<close>

theorem wait_outcomes_agree:
  assumes "work_reach (finishes_with e) w"
  shows "(\<forall>(t, r) \<in> set (wk_returned w). r = finish_outcome e \<or> r = Inl (Runtime_error ''Operation timed out!'')) \<and>
    (wk_completed w \<longrightarrow> fst (Work_wait t d w) = finish_outcome e)"
  using reach_outcomes_from [OF assms]
  by (simp add: outcomes_from_def Work_wait_def wait_end_outcome poll_outcome_finish)

theorem wait_outcomes_agree_witness:
  "fst (Work_wait 3 5 (work_exec (Finish_call (Some (Runtime_error ''x''))) (Work 0 REDUCE None False)))
     = Inl (Runtime_error ''x'')"
proof -
  let ?e = "Some (Runtime_error ''x'')" and ?w = "Work 0 REDUCE None False"
  have "work_reach (finishes_with ?e) (work_exec (Finish_call ?e) ?w)"
    by (rule work_step [OF work_start]) (simp_all add: finishes_with_def)
  from wait_outcomes_agree [OF this, of 3 5] show ?thesis
    by (simp add: finish_def work_notify_all_def finish_outcome_def)
qed

text \<open>
  The profiling span of a work object ends at most once, whatever the threads do, and has
  ended when the work is completed.
\<close>

theorem profiling_ends_once:
  assumes "work_reach P w"
  shows "wk_recorded w \<le> 1 \<and> (wk_completed w \<longrightarrow> \<not> wk_callback w)"
  using reach_recorded_once [OF assms] by (simp add: recorded_once_def)

theorem profiling_ends_once_witness:
  "wk_recorded (work_exec (Finish_call None) (Work 0 REDUCE (Some ''t'') True)) \<le> 1"
proof -
  have "work_reach (\<lambda>_. True) (work_exec (Finish_call None) (Work 0 REDUCE (Some ''t'') True))"
    by (rule work_step [OF work_start]) simp_all
  from profiling_ends_once [OF this] show ?thesis by simp
qed

text \<open>
  C32. Round-robin dispatch: whatever calls a program makes, the calls that reach a member group
  are the supported ones in program order, and the \<open>j\<close>-th of them goes to member \<open>j\<close> modulo the
  number of groups. So processes that make the same calls use the same group for each.
\<close>

theorem round_robin_dispatch:
  assumes "ProcessGroupRoundRobin rank world groups = Inr r"
  shows "rr_log (rr_run ks r) =
    zip (map (\<lambda>j. j mod length groups) [0..<length (rr_forwarded ks)]) (rr_forwarded ks)"
proof -
  from assms have "rr_groups r = groups" "rr_iterator r = 0" "rr_log r = []" "groups \<noteq> []"
    by (auto simp: ProcessGroupRoundRobin_def bindE_def split: if_splits sum.splits)
  with rr_run_log [of r ks] show ?thesis by simp
qed

theorem round_robin_dispatch_witness:
  "rr_log (rr_run [ALLREDUCE, BARRIER, ALLGATHER_COALESCED, BROADCAST]
     \<lparr>rr_rank = 1, rr_size = 2, rr_groups = [\<lparr>pg_rank = 1, pg_size = 2\<rparr>, \<lparr>pg_rank = 1, pg_size = 2\<rparr>],
      rr_iterator = 0, rr_log = []\<rparr>) = [(0, ALLREDUCE), (1, ALLGATHER), (0, BROADCAST)]"
proof -
  let ?gs = "[\<lparr>pg_rank = 1, pg_size = 2\<rparr>, \<lparr>pg_rank = 1, pg_size = 2\<rparr>]"
  have "ProcessGroupRoundRobin 1 2 ?gs =
      Inr \<lparr>rr_rank = 1, rr_size = 2, rr_groups = ?gs, rr_iterator = 0, rr_log = []\<rparr>"
    by (simp add: ProcessGroupRoundRobin_def bindE_def)
  from round_robin_dispatch [OF this, of "[ALLREDUCE, BARRIER, ALLGATHER_COALESCED, BROADCAST]"]
  show ?thesis by (simp add: rr_forwarded_def isP2POp_def upt_rec)
qed

end
