(* ===== verification/ProcessGroup_HCCL.thy ===== *)
theory ProcessGroup_HCCL
  imports HashStore ProcessGroup_Work Collective_Checks
begin

text \<open>
  \<^verbatim>\<open>c10d_npu::ProcessGroupHCCL\<close> (\<^verbatim>\<open>ProcessGroupHCCL.cpp\<close>, \<^verbatim>\<open>ProcessGroupHCCL.hpp\<close>,
  \<^verbatim>\<open>HCCLUtils.hpp\<close>): collectives over Ascend NPUs. A group keeps a cache of communicators,
  streams and events per list of devices; the root identity of each communicator travels from
  rank 0 to the other ranks through the store. The HCCL library, the NPU runtime and the tensor
  allocator are not part of the repository: what the group asks of them are entries of \<open>hg_log\<close>,
  what they answer are fields of the environment \<open>hccl_env\<close>. The theory shows that all ranks
  build their n-th communicator on the same root, that the stream and event calls order a
  collective after the work queued before it and before the work queued after \<^verbatim>\<open>wait\<close>, which
  call each collective makes on every branch, and that a blocking wait ends.
\<close>

section \<open>Types\<close>

text \<open>
  \<open>HcclReduceOp_zero\<close> is the value-initialised enumerator, which
  \<^verbatim>\<open>std::map::operator[]\<close> makes for a key it does not hold.
\<close>

datatype HcclReduceOp =
    HCCL_REDUCE_MIN | HCCL_REDUCE_MAX | HCCL_REDUCE_SUM | HCCL_REDUCE_PROD | HcclReduceOp_zero

datatype HcclDataType =
    HCCL_DATA_TYPE_INT8 | HCCL_DATA_TYPE_FP32 | HCCL_DATA_TYPE_INT32 | HCCL_DATA_TYPE_FP16
  | HCCL_DATA_TYPE_INT16 | HCCL_DATA_TYPE_INT64

type_synonym npu_device = "device_type \<times> int"
type_synonym npu_stream = nat

text \<open>
  A tensor on an NPU: besides what the argument checks see, its element type, whether it is
  contiguous, its storage, and the sizes of the storage, which a private NPU format may pad.
\<close>

record npu_tensor = tensor +
  nt_scalar :: ScalarType
  nt_contiguous :: bool
  nt_storage :: nat
  nt_storage_sizes :: "int list"

text \<open>
  Events: the ones the group keeps per device list, by position, and the ones a work object owns.
\<close>

datatype npu_event = Group_event string nat | Rate_event string nat | Work_event nat nat

record hccl_comm =
  cm_ranks :: int
  cm_rank :: int
  cm_root :: bytes

text \<open>The collectives the HCCL library is asked for.\<close>

datatype hccl_call =
    HcclAllReduce nat nat int HcclDataType HcclReduceOp hccl_comm
  | HcclBroadcast nat int HcclDataType int hccl_comm
  | HcclAllGather nat nat int HcclDataType hccl_comm
  | HcclReduceScatter nat nat int HcclDataType HcclReduceOp hccl_comm

text \<open>
  The calls into the runtime, in program order: those that put an entry into a stream
  (recording an event, waiting for one, a collective, a copy, a computation of the user) and the
  others.
\<close>

datatype npu_call =
    Record_event npu_event npu_stream
  | Block_event npu_event npu_stream
  | Launch hccl_call npu_stream
  | Copy_to nat nat npu_stream
  | Compute nat npu_stream
  | Record_stream nat npu_stream
  | Comm_init hccl_comm int
  | Synchronize_device int

record 's hccl_group =
  hg_store :: 's
  hg_rank :: int
  hg_size :: int
  hg_counter :: "64 word"
  hg_comms :: "(string, hccl_comm list) umap"
  hg_streams :: "(string, npu_stream list) umap"
  hg_events :: "(string, npu_event list) umap"
  hg_rateCtrlEvents :: "(string, npu_event list) umap"
  hg_collectiveCnts :: "(string, 64 word list) umap"
  hg_used :: "int list"
  hg_blocking :: bool
  hg_opTimeout :: int
  hg_roots :: nat
  hg_fresh :: nat
  hg_log :: "npu_call list"

text \<open>
  What the group relies on: the operations of its store, the number of bytes of a root identity,
  the answer of the \<open>n\<close>-th call of \<^verbatim>\<open>HcclGetRootInfo\<close>, the error codes of the library
  (none is success), the current stream of a device, the stream that the pool gives for a device
  and a request, the number of devices and the current one, the storage sizes of a fresh tensor, and the clock.
\<close>

record 's hccl_env =
  he_set :: "string \<Rightarrow> bytes \<Rightarrow> ('s, unit) cmd"
  he_get :: "string \<Rightarrow> ('s, bytes) cmd"
  HCCL_ROOT_INFO_BYTES :: nat
  HcclGetRootInfo :: "nat \<Rightarrow> nat option \<times> bytes"
  HcclCommInitRootInfo :: "hccl_comm \<Rightarrow> nat option"
  hccl_result :: "hccl_call \<Rightarrow> nat option"
  current_stream :: "int \<Rightarrow> npu_stream"
  pool_stream :: "int \<Rightarrow> nat \<Rightarrow> npu_stream"
  device_count :: int
  current_device :: int
  fresh_storage_sizes :: "int list \<Rightarrow> int list"
  steady_clock :: int

section \<open>Helpers\<close>

text \<open>\<^verbatim>\<open>hcclOp[op]\<close>: the table has four entries, \<^verbatim>\<open>operator[]\<close> adds a zero for any other.\<close>

fun hcclOp :: "ReduceOp \<Rightarrow> HcclReduceOp" where
  "hcclOp MIN_op = HCCL_REDUCE_MIN"
| "hcclOp MAX_op = HCCL_REDUCE_MAX"
| "hcclOp SUM_op = HCCL_REDUCE_SUM"
| "hcclOp PRODUCT = HCCL_REDUCE_PROD"
| "hcclOp _ = HcclReduceOp_zero"

fun hcclDataType :: "ScalarType \<Rightarrow> HcclDataType option" where
  "hcclDataType kChar = Some HCCL_DATA_TYPE_INT8"
| "hcclDataType kFloat = Some HCCL_DATA_TYPE_FP32"
| "hcclDataType kInt = Some HCCL_DATA_TYPE_INT32"
| "hcclDataType kHalf = Some HCCL_DATA_TYPE_FP16"
| "hcclDataType kShort = Some HCCL_DATA_TYPE_INT16"
| "hcclDataType kLong = Some HCCL_DATA_TYPE_INT64"
| "hcclDataType _ = None"

definition hccl_physical_numel :: "npu_tensor \<Rightarrow> int" where
  "hccl_physical_numel t = numel_from 1 (nt_storage_sizes t)"

definition getHcclDataType :: "ScalarType \<Rightarrow> HcclDataType res" where
  "getHcclDataType ty =
     (case hcclDataType ty of
        Some d \<Rightarrow> Inr d
      | None \<Rightarrow> Inl (Runtime_error ''Unsupported data type for HCCL process group''))"

definition getKeyFromDevices :: "npu_device list \<Rightarrow> string" where
  "getKeyFromDevices devices =
     foldl (\<lambda>deviceList d. if deviceList = [] then to_string (snd d)
                           else deviceList @ '','' @ to_string (snd d)) [] devices"

definition getDeviceList :: "npu_tensor list \<Rightarrow> npu_device list" where
  "getDeviceList tensors = map (\<lambda>t. (t_device_type t, t_device_index t)) tensors"

text \<open>\<^verbatim>\<open>v[i]\<close> of a \<^verbatim>\<open>std::vector\<close>.\<close>

definition vec_at :: "'a list \<Rightarrow> nat \<Rightarrow> ('s, 'a) cmd" where
  "vec_at xs i = (if i < length xs then returnM (xs ! i) else throwM Undefined)"

text \<open>\<^verbatim>\<open>emplace\<close> leaves an entry that is there.\<close>

definition umap_emplace :: "'k \<Rightarrow> 'v \<Rightarrow> ('k, 'v) umap \<Rightarrow> ('k, 'v) umap" where
  "umap_emplace k v m = (if umap_has m k then m else AList.update k v m)"

definition log_call :: "npu_call \<Rightarrow> ('s hccl_group, unit) cmd" where
  "log_call c = modifyM (\<lambda>g. g\<lparr>hg_log := hg_log g @ [c]\<rparr>)"

definition on_store :: "('s, 'a) cmd \<Rightarrow> ('s hccl_group, 'a) cmd" where
  "on_store m g = (case m (hg_store g) of (r, s) \<Rightarrow> (r, g\<lparr>hg_store := s\<rparr>))"

text \<open>The \<^verbatim>\<open>C10D_HCCL_CHECK\<close> macro.\<close>

definition C10D_HCCL_CHECK :: "nat option \<Rightarrow> ('s, unit) cmd" where
  "C10D_HCCL_CHECK error =
     (case error of None \<Rightarrow> returnM () | Some e \<Rightarrow> throwM (Runtime_error ''HCCL error in: ''))"

definition syncStreams ::
    "'s hccl_env \<Rightarrow> npu_device list \<Rightarrow> npu_event list \<Rightarrow> npu_stream list \<Rightarrow> ('s hccl_group, unit) cmd" where
  "syncStreams env devices hcclEvents hcclStreams =
     for_each (\<lambda>i.
       bindM (vec_at hcclStreams i) (\<lambda>hcclStream.
       bindM (vec_at hcclEvents i) (\<lambda>hcclEvent.
       bindM (log_call (Record_event hcclEvent (current_stream env (snd (devices ! i))))) (\<lambda>_.
       log_call (Block_event hcclEvent hcclStream))))) [0..<length devices]"

section \<open>Work objects\<close>

definition kSynchronizeBusyWaitMillis :: int where "kSynchronizeBusyWaitMillis = 10"
definition kProcessGroupHCCLOpTimeoutMillis :: int where "kProcessGroupHCCLOpTimeoutMillis = 10 * 1000"

record hccl_work =
  hw_id :: nat
  hw_devices :: "npu_device list"
  hw_events :: "npu_event list"
  hw_comms :: "hccl_comm list"
  hw_barrierTensors :: "npu_tensor list"
  hw_blockingWait :: bool
  hw_opTimeout :: int
  hw_startTime :: int
  hw_exception :: "exn option"

definition WorkHCCL :: "nat \<Rightarrow> int \<Rightarrow> npu_device list \<Rightarrow> hccl_work" where
  "WorkHCCL n now devices =
     \<lparr>hw_id = n, hw_devices = devices, hw_events = map (Work_event n) [0..<length devices],
      hw_comms = [], hw_barrierTensors = [], hw_blockingWait = False, hw_opTimeout = 0,
      hw_startTime = now, hw_exception = None\<rparr>"

text \<open>What \<^verbatim>\<open>aclrtQueryEvent\<close> answers.\<close>

datatype event_status = Event_ready | Event_not_ready | Event_query_error

fun finished_from :: "(npu_event \<Rightarrow> event_status) \<Rightarrow> npu_event list \<Rightarrow> bool" where
  "finished_from query [] = True"
| "finished_from query (e # es) = (if query e \<noteq> Event_ready then False else finished_from query es)"

definition finishedNPUExecutionInternal :: "(npu_event \<Rightarrow> event_status) \<Rightarrow> hccl_work \<Rightarrow> bool" where
  "finishedNPUExecutionInternal query w = finished_from query (hw_events w)"

definition checkAndSetException :: "hccl_work \<Rightarrow> hccl_work" where
  "checkAndSetException w = w"

definition finishedNPUExecution :: "(npu_event \<Rightarrow> event_status) \<Rightarrow> hccl_work \<Rightarrow> bool" where
  "finishedNPUExecution query w = finishedNPUExecutionInternal query (checkAndSetException w)"

definition WorkHCCL_isCompleted :: "(npu_event \<Rightarrow> event_status) \<Rightarrow> hccl_work \<Rightarrow> bool" where
  "WorkHCCL_isCompleted query w =
     (let w = checkAndSetException w in hw_exception w \<noteq> None \<or> finishedNPUExecutionInternal query w)"

definition WorkHCCL_isSuccess :: "(npu_event \<Rightarrow> event_status) \<Rightarrow> hccl_work \<Rightarrow> bool" where
  "WorkHCCL_isSuccess query w =
     (if hw_exception w \<noteq> None then False else finishedNPUExecutionInternal query w)"

definition checkAndThrowException :: "hccl_work \<Rightarrow> unit res" where
  "checkAndThrowException w =
     (case hw_exception (checkAndSetException w) of Some e \<Rightarrow> Inl e | None \<Rightarrow> Inr ())"

text \<open>
  The polling loop of a blocking wait. \<open>queries k\<close> is what the events answer at the \<open>k\<close>-th poll,
  \<open>now\<close> the clock in milliseconds when the loop comes to that poll; a sleep takes
  \<^verbatim>\<open>kSynchronizeBusyWaitMillis\<close> and \<open>delay k\<close> more. The result comes with the number of polls.
\<close>

function hccl_poll ::
    "(nat \<Rightarrow> npu_event \<Rightarrow> event_status) \<Rightarrow> (nat \<Rightarrow> nat) \<Rightarrow> hccl_work \<Rightarrow> nat \<Rightarrow> int \<Rightarrow> unit res \<times> nat" where
  "hccl_poll queries delay w k now =
     (if WorkHCCL_isCompleted (queries k) w then (checkAndThrowException w, k)
      else if now - hw_startTime w > hw_opTimeout w then (Inl (Runtime_error ''Operation timed out!''), k)
      else case checkAndThrowException w of
             Inl e \<Rightarrow> (Inl e, k)
           | Inr _ \<Rightarrow> hccl_poll queries delay w (Suc k) (now + kSynchronizeBusyWaitMillis + int (delay k)))"
  by pat_completeness auto
termination
  by (relation "measure (\<lambda>(queries, delay, w, k, now). nat (hw_startTime w + hw_opTimeout w + 1 - now))")
     (auto simp: kSynchronizeBusyWaitMillis_def)

declare hccl_poll.simps [simp del]

text \<open>The part of \<^verbatim>\<open>synchronize\<close> that talks to the device, and the whole.\<close>

definition block_current :: "'s hccl_env \<Rightarrow> hccl_work \<Rightarrow> ('s hccl_group, unit) cmd" where
  "block_current env w =
     for_each (\<lambda>i.
       bindM (vec_at (hw_events w) i) (\<lambda>e.
       bindM (log_call (Block_event e (current_stream env (snd (hw_devices w ! i))))) (\<lambda>_.
       if hw_barrierTensors w \<noteq> [] then log_call (Synchronize_device (snd (hw_devices w ! i)))
       else returnM ()))) [0..<length (hw_devices w)]"

definition WorkHCCL_synchronize ::
    "'s hccl_env \<Rightarrow> (nat \<Rightarrow> npu_event \<Rightarrow> event_status) \<Rightarrow> (nat \<Rightarrow> nat) \<Rightarrow> hccl_work \<Rightarrow> ('s hccl_group, unit) cmd" where
  "WorkHCCL_synchronize env queries delay w =
     bindM (block_current env w) (\<lambda>_.
       if hw_blockingWait w then liftM (fst (hccl_poll queries delay w 0 (steady_clock env)))
       else returnM ())"

definition WorkHCCL_wait ::
    "'s hccl_env \<Rightarrow> (nat \<Rightarrow> npu_event \<Rightarrow> event_status) \<Rightarrow> (nat \<Rightarrow> nat) \<Rightarrow> int \<Rightarrow> hccl_work \<Rightarrow> ('s hccl_group, bool) cmd" where
  "WorkHCCL_wait env queries delay timeout w =
     bindM (WorkHCCL_synchronize env queries delay w) (\<lambda>_. returnM True)"

section \<open>The group\<close>

text \<open>\<^verbatim>\<open>Options::create\<close> drops the timeout it is given.\<close>

definition Options_create :: "int \<Rightarrow> int" where
  "Options_create timeout = kProcessGroupHCCLOpTimeoutMillis"

text \<open>The constructor; \<open>blockingWait\<close> is the value of the environment variable \<^verbatim>\<open>HCCL_BLOCKING_WAIT\<close>.\<close>

definition blocking_wait_flag :: "string option \<Rightarrow> bool res" where
  "blocking_wait_flag blockingWait =
     (case blockingWait of
        None \<Rightarrow> Inr False
      | Some s \<Rightarrow>
          (case stoi s of
             Inl e \<Rightarrow> Inl (Runtime_error ''Invalid value for environment variable: HCCL_BLOCKING_WAIT'')
           | Inr val \<Rightarrow>
               (if val = 1 then Inr True
                else if val \<noteq> 0 then Inl (Runtime_error ''Invalid value for environment variable: HCCL_BLOCKING_WAIT'')
                else Inr False)))"

definition ProcessGroupHCCL :: "string option \<Rightarrow> 's \<Rightarrow> int \<Rightarrow> int \<Rightarrow> int \<Rightarrow> 's hccl_group res" where
  "ProcessGroupHCCL blockingWait s rank world opTimeout =
     bindE (blocking_wait_flag blockingWait) (\<lambda>blocking.
       Inr \<lparr>hg_store = s, hg_rank = rank, hg_size = world, hg_counter = 0, hg_comms = [], hg_streams = [],
            hg_events = [], hg_rateCtrlEvents = [], hg_collectiveCnts = [], hg_used = [],
            hg_blocking = blocking, hg_opTimeout = opTimeout, hg_roots = 0, hg_fresh = 0, hg_log = []\<rparr>)"

definition broadcastMasterID :: "'s hccl_env \<Rightarrow> bytes \<Rightarrow> ('s hccl_group, bytes) cmd" where
  "broadcastMasterID env hcclID =
     bindM (getM hg_counter) (\<lambda>n.
     bindM (modifyM (\<lambda>g. g\<lparr>hg_counter := n + 1\<rparr>)) (\<lambda>_.
     let storeKey = to_string (uint n)
     in bindM (getM hg_rank) (\<lambda>rank.
        if rank = 0 then bindM (on_store (he_set env storeKey hcclID)) (\<lambda>_. returnM hcclID)
        else bindM (on_store (he_get env storeKey)) (\<lambda>vec.
             bindM (checkM (length vec = HCCL_ROOT_INFO_BYTES env) (C10_error ''vec.size() == HCCL_ROOT_INFO_BYTES'')) (\<lambda>_.
             returnM vec)))))"

definition get_root_info :: "'s hccl_env \<Rightarrow> ('s hccl_group, bytes) cmd" where
  "get_root_info env =
     bindM (getM hg_roots) (\<lambda>n.
     bindM (modifyM (\<lambda>g. g\<lparr>hg_roots := n + 1\<rparr>)) (\<lambda>_.
     bindM (C10D_HCCL_CHECK (fst (HcclGetRootInfo env n))) (\<lambda>_. returnM (snd (HcclGetRootInfo env n)))))"

text \<open>\<^verbatim>\<open>HCCLComm::create\<close> on the device the guard has set.\<close>

definition HCCLComm_create :: "'s hccl_env \<Rightarrow> int \<Rightarrow> int \<Rightarrow> bytes \<Rightarrow> int \<Rightarrow> ('s hccl_group, hccl_comm) cmd" where
  "HCCLComm_create env numRanks rank rootInfo dev =
     (let comm = \<lparr>cm_ranks = numRanks, cm_rank = rank, cm_root = rootInfo\<rparr>
      in bindM (C10D_HCCL_CHECK (HcclCommInitRootInfo env comm)) (\<lambda>_.
         bindM (log_call (Comm_init comm dev)) (\<lambda>_. returnM comm)))"

definition getNPUStreamFromPool :: "'s hccl_env \<Rightarrow> int \<Rightarrow> ('s hccl_group, npu_stream) cmd" where
  "getNPUStreamFromPool env dev =
     bindM (getM hg_fresh) (\<lambda>n.
     bindM (modifyM (\<lambda>g. g\<lparr>hg_fresh := n + 1\<rparr>)) (\<lambda>_. returnM (pool_stream env dev n)))"

text \<open>\<^verbatim>\<open>std::set<int>::insert\<close>, the set being the sorted list of its elements.\<close>

definition set_insert :: "int \<Rightarrow> int list \<Rightarrow> int list" where
  "set_insert x xs = (if x \<in> set xs then xs else insort x xs)"

definition create_comms ::
    "'s hccl_env \<Rightarrow> npu_device list \<Rightarrow> bytes \<Rightarrow> ('s hccl_group, (hccl_comm \<times> npu_stream) list) cmd" where
  "create_comms env devices hcclID =
     map_each (\<lambda>i.
       bindM (getM hg_size) (\<lambda>numRanks.
       bindM (getM (\<lambda>g. hg_rank g * int (length devices) + int i)) (\<lambda>rank.
       bindM (HCCLComm_create env numRanks rank hcclID (snd (devices ! i))) (\<lambda>comm.
       bindM (getNPUStreamFromPool env (snd (devices ! i))) (\<lambda>stream.
       returnM (comm, stream)))))) [0..<length devices]"

definition getHCCLComm :: "'s hccl_env \<Rightarrow> string \<Rightarrow> npu_device list \<Rightarrow> ('s hccl_group, hccl_comm list) cmd" where
  "getHCCLComm env devicesKey devices =
     (if devicesKey = []
      then throwM (Runtime_error ''Not able to create/get the HCCL Communicator since '')
      else bindM (modifyM (\<lambda>g. g\<lparr>hg_used := fold set_insert (map snd devices) (hg_used g)\<rparr>)) (\<lambda>_.
        bindM (getM (\<lambda>g. map_of (hg_comms g) devicesKey)) (\<lambda>cached.
        case cached of
          Some comms \<Rightarrow> returnM comms
        | None \<Rightarrow>
            bindM (getM hg_rank) (\<lambda>rank.
            bindM (if rank = 0 then get_root_info env else returnM []) (\<lambda>info.
            bindM (broadcastMasterID env info) (\<lambda>hcclID.
            bindM (create_comms env devices hcclID) (\<lambda>cs.
            bindM (modifyM (\<lambda>g. g\<lparr>
              hg_streams := umap_emplace devicesKey (map snd cs) (hg_streams g),
              hg_events := umap_emplace devicesKey (map (Group_event devicesKey) [0..<length devices]) (hg_events g),
              hg_rateCtrlEvents := umap_emplace devicesKey (map (Rate_event devicesKey) [0..<length devices]) (hg_rateCtrlEvents g),
              hg_collectiveCnts := umap_emplace devicesKey (replicate (length devices) 0) (hg_collectiveCnts g),
              hg_comms := umap_emplace devicesKey (map fst cs) (hg_comms g)\<rparr>)) (\<lambda>_.
            getM (\<lambda>g. umap_at [] (hg_comms g) devicesKey)))))))))"

section \<open>Collectives\<close>

definition check_npu_tensors :: "npu_tensor list \<Rightarrow> unit res" where
  "check_npu_tensors tensors =
     (if length tensors \<noteq> 1
      then Inl (Runtime_error ''Tensor list mustn't be larger than the number of available NPUs'')
      else if \<not> nt_contiguous (tensors ! 0) then Inl (Runtime_error ''Tensors must be contiguous'')
      else Inr ())"

text \<open>
  \<^verbatim>\<open>newLikeFlat\<close> makes a tensor of the shape \<^verbatim>\<open>(n, sizes of the first)\<close> whose strides are
  those of the first tensor of the list, so it is contiguous exactly when that tensor is.
\<close>

definition flat_tensor :: "'s hccl_env \<Rightarrow> npu_tensor list list \<Rightarrow> nat \<Rightarrow> ('s hccl_group, npu_tensor) cmd" where
  "flat_tensor env tensor_lists i =
     bindM (liftM (newLikeFlat_sizes (map (map tensor.truncate) tensor_lists) i)) (\<lambda>sizes.
     bindM (getM hg_fresh) (\<lambda>n.
     bindM (modifyM (\<lambda>g. g\<lparr>hg_fresh := n + 1\<rparr>)) (\<lambda>_.
     let t = tensor_lists ! i ! 0
     in returnM (t\<lparr>t_sizes := sizes, nt_storage := n, nt_storage_sizes := fresh_storage_sizes env sizes\<rparr>))))"

fun check_numels :: "npu_tensor list \<Rightarrow> npu_tensor \<Rightarrow> unit res" where
  "check_numels [] other = Inr ()"
| "check_numels (t # ts) other =
     (if numel (tensor.truncate t) \<noteq> numel (tensor.truncate other)
      then Inl (Runtime_error ''All tensor operands to scatter/gather must have the same size'')
      else check_numels ts other)"

definition flatten_for_scatter_gather ::
    "'s hccl_env \<Rightarrow> npu_tensor list list \<Rightarrow> npu_tensor list \<Rightarrow> int \<Rightarrow> ('s hccl_group, npu_tensor list) cmd" where
  "flatten_for_scatter_gather env tensor_lists other world_size =
     (if length tensor_lists \<noteq> length other
      then throwM (Runtime_error ''Tensor list operands to scatter/gather must have the same length'')
      else let num_devices = length tensor_lists
           in map_each (\<lambda>i.
                bindM (checkM (int (length (tensor_lists ! i)) = world_size * int num_devices)
                  (Runtime_error ''Tensor list input to scatter/gather must match number of collective'')) (\<lambda>_.
                bindM (vec_at (tensor_lists ! i) 0) (\<lambda>front.
                bindM (checkM (t_device_index front = t_device_index (other ! i))
                  (Runtime_error ''Corresponding input/output tensors to scatter/gather must all reside'')) (\<lambda>_.
                bindM (liftM (check_numels (tensor_lists ! i) (other ! i))) (\<lambda>_.
                flat_tensor env tensor_lists i))))) [0..<num_devices])"

definition initWork :: "'s hccl_env \<Rightarrow> npu_device list \<Rightarrow> ('s hccl_group, hccl_work) cmd" where
  "initWork env devices =
     bindM (checkM (length devices = 1) (Runtime_error ''ProcessGroupHCCL support one device per process only'')) (\<lambda>_.
     bindM (getM hg_fresh) (\<lambda>n.
     bindM (modifyM (\<lambda>g. g\<lparr>hg_fresh := n + 1\<rparr>)) (\<lambda>_.
     returnM (WorkHCCL n (steady_clock env) devices))))"

text \<open>
  \<open>fn\<close> is the library call for one device, \<open>pre\<close> and \<open>post\<close> are the copies around it.
\<close>

definition collective ::
    "'s hccl_env \<Rightarrow> npu_tensor list \<Rightarrow> npu_tensor list \<Rightarrow>
     (npu_tensor \<Rightarrow> npu_tensor \<Rightarrow> hccl_comm \<Rightarrow> npu_stream \<Rightarrow> ('s hccl_group, unit) cmd) \<Rightarrow>
     (npu_stream list \<Rightarrow> ('s hccl_group, unit) cmd) \<Rightarrow> (npu_stream list \<Rightarrow> ('s hccl_group, unit) cmd) \<Rightarrow>
     ('s hccl_group, hccl_work) cmd" where
  "collective env inputs outputs fn pre post =
     (let devices = getDeviceList inputs; key = getKeyFromDevices devices
      in bindM (getHCCLComm env key devices) (\<lambda>hcclComms.
         bindM (getM (\<lambda>g. umap_at [] (hg_events g) key)) (\<lambda>events.
         bindM (getM (\<lambda>g. umap_at [] (hg_streams g) key)) (\<lambda>streams.
         bindM (syncStreams env devices events streams) (\<lambda>_.
         bindM (initWork env devices) (\<lambda>work.
         bindM (pre streams) (\<lambda>_.
         bindM (for_each (\<lambda>i.
           bindM (vec_at streams i) (\<lambda>hcclStream.
           log_call (Record_stream (nt_storage (inputs ! i)) hcclStream))) [0..<length inputs]) (\<lambda>_.
         bindM (for_each (\<lambda>i.
           bindM (vec_at streams i) (\<lambda>hcclStream.
           bindM (vec_at outputs i) (\<lambda>output.
           bindM (vec_at hcclComms i) (\<lambda>comm.
           fn (inputs ! i) output comm hcclStream)))) [0..<length inputs]) (\<lambda>_.
         bindM (post streams) (\<lambda>_.
         bindM (for_each (\<lambda>i.
           bindM (vec_at streams i) (\<lambda>hcclStream.
           bindM (vec_at (hw_events work) i) (\<lambda>event.
           log_call (Record_event event hcclStream)))) [0..<length inputs]) (\<lambda>_.
         getM (\<lambda>g. work\<lparr>hw_comms := hcclComms, hw_blockingWait := hg_blocking g,
                       hw_opTimeout := hg_opTimeout g\<rparr>))))))))))))"

definition launch :: "'s hccl_env \<Rightarrow> hccl_call \<Rightarrow> npu_stream \<Rightarrow> ('s hccl_group, unit) cmd" where
  "launch env c stream = bindM (log_call (Launch c stream)) (\<lambda>_. C10D_HCCL_CHECK (hccl_result env c))"

definition HCCL_allreduce :: "'s hccl_env \<Rightarrow> ReduceOp \<Rightarrow> npu_tensor list \<Rightarrow> ('s hccl_group, hccl_work) cmd" where
  "HCCL_allreduce env reduceOp tensors =
     bindM (liftM (check_npu_tensors tensors)) (\<lambda>_.
     collective env tensors tensors
       (\<lambda>input output comm stream.
          bindM (liftM (getHcclDataType (nt_scalar input))) (\<lambda>dt.
          launch env (HcclAllReduce (nt_storage input) (nt_storage output) (hccl_physical_numel input) dt
                        (hcclOp reduceOp) comm) stream))
       (\<lambda>_. returnM ()) (\<lambda>_. returnM ()))"

definition HCCL_broadcast :: "'s hccl_env \<Rightarrow> int \<Rightarrow> int \<Rightarrow> npu_tensor list \<Rightarrow> ('s hccl_group, hccl_work) cmd" where
  "HCCL_broadcast env rootRank rootTensor tensors =
     bindM (liftM (check_npu_tensors tensors)) (\<lambda>_.
     collective env tensors tensors
       (\<lambda>input output comm stream.
          let root = rootRank * int (length tensors) + rootTensor
          in bindM (liftM (getHcclDataType (nt_scalar input))) (\<lambda>dt.
             launch env (HcclBroadcast (nt_storage input) (hccl_physical_numel input) dt root comm) stream))
       (\<lambda>_. returnM ()) (\<lambda>_. returnM ()))"

text \<open>
  Row \<open>j\<close> of a flat tensor is a view into its storage, so a copy is logged with the two
  storages. The loops run over the lists, the inner one over the length of the first list.
\<close>

definition copy_rows ::
    "npu_tensor list list \<Rightarrow> (npu_tensor \<Rightarrow> nat \<Rightarrow> npu_stream \<Rightarrow> npu_call) \<Rightarrow> npu_stream list \<Rightarrow> ('s hccl_group, unit) cmd" where
  "copy_rows tensorLists cp hcclStreams =
     for_each (\<lambda>i. bindM (vec_at hcclStreams i) (\<lambda>stream.
       for_each (\<lambda>j. bindM (vec_at (tensorLists ! i) j) (\<lambda>t.
         bindM (log_call (Record_stream (nt_storage t) stream)) (\<lambda>_. log_call (cp t i stream))))
         [0..<length (tensorLists ! 0)])) [0..<length tensorLists]"

definition HCCL_allgather ::
    "'s hccl_env \<Rightarrow> npu_tensor list list \<Rightarrow> npu_tensor list \<Rightarrow> ('s hccl_group, hccl_work) cmd" where
  "HCCL_allgather env outputTensors inputTensors =
     bindM (liftM (check_npu_tensors inputTensors)) (\<lambda>_.
     bindM (getM hg_size) (\<lambda>world.
     bindM (flatten_for_scatter_gather env outputTensors inputTensors world) (\<lambda>outputFlattened.
     bindM (liftM (check_npu_tensors outputFlattened)) (\<lambda>_.
     collective env inputTensors outputFlattened
       (\<lambda>input output comm stream.
          bindM (log_call (Record_stream (nt_storage output) stream)) (\<lambda>_.
          bindM (liftM (getHcclDataType (nt_scalar input))) (\<lambda>dt.
          launch env (HcclAllGather (nt_storage input) (nt_storage output) (hccl_physical_numel input) dt comm) stream)))
       (\<lambda>_. returnM ())
       (copy_rows outputTensors (\<lambda>t i stream. Copy_to (nt_storage t) (nt_storage (outputFlattened ! i)) stream))))))"

definition HCCL_reduce_scatter ::
    "'s hccl_env \<Rightarrow> ReduceOp \<Rightarrow> npu_tensor list \<Rightarrow> npu_tensor list list \<Rightarrow> ('s hccl_group, hccl_work) cmd" where
  "HCCL_reduce_scatter env reduceOp outputTensors inputTensors =
     bindM (liftM (check_npu_tensors outputTensors)) (\<lambda>_.
     bindM (getM hg_size) (\<lambda>world.
     bindM (flatten_for_scatter_gather env inputTensors outputTensors world) (\<lambda>inputFlattened.
     bindM (liftM (check_npu_tensors inputFlattened)) (\<lambda>_.
     collective env inputFlattened outputTensors
       (\<lambda>input output comm stream.
          bindM (log_call (Record_stream (nt_storage output) stream)) (\<lambda>_.
          bindM (liftM (getHcclDataType (nt_scalar input))) (\<lambda>dt.
          launch env (HcclReduceScatter (nt_storage input) (nt_storage output) (hccl_physical_numel output) dt
                        (hcclOp reduceOp) comm) stream)))
       (copy_rows inputTensors (\<lambda>t i stream. Copy_to (nt_storage (inputFlattened ! i)) (nt_storage t) stream))
       (\<lambda>_. returnM ())))))"

text \<open>A one-element float tensor on the device of the given index.\<close>

definition barrier_tensor :: "'s hccl_env \<Rightarrow> npu_device \<Rightarrow> ('s hccl_group, npu_tensor) cmd" where
  "barrier_tensor env d =
     bindM (getM hg_fresh) (\<lambda>n.
     bindM (modifyM (\<lambda>g. g\<lparr>hg_fresh := n + 1\<rparr>)) (\<lambda>_.
     returnM \<lparr>t_type = 0, t_sizes = [1], t_layout = Strided, t_device_type = NPU, t_device_index = snd d,
              nt_scalar = kFloat, nt_contiguous = True, nt_storage = n,
              nt_storage_sizes = fresh_storage_sizes env [1]\<rparr>))"

definition barrier_devices :: "'s hccl_env \<Rightarrow> 's hccl_group \<Rightarrow> npu_device list" where
  "barrier_devices env g =
     (if hg_used g = []
      then [(NPU, sint (word_of_int (hg_rank g mod max (device_count env) 1) :: 16 word))]
      else map (\<lambda>i. (NPU, i)) (hg_used g))"

definition HCCL_barrier :: "'s hccl_env \<Rightarrow> ('s hccl_group, hccl_work) cmd" where
  "HCCL_barrier env =
     bindM (getM (barrier_devices env)) (\<lambda>devices.
     bindM (map_each (barrier_tensor env) devices) (\<lambda>barrierTensors.
     bindM (HCCL_allreduce env SUM_op barrierTensors) (\<lambda>work.
     returnM (work\<lparr>hw_barrierTensors := barrierTensors\<rparr>))))"

definition HCCL_allreduce_coalesced :: "('s hccl_group, hccl_work) cmd" where
  "HCCL_allreduce_coalesced = throwM (Runtime_error ''ProcessGroupHCCL does not support allreduce_coalesced'')"
definition HCCL_reduce :: "('s hccl_group, hccl_work) cmd" where
  "HCCL_reduce = throwM (Runtime_error ''ProcessGroupHCCL does not support reduce'')"
definition HCCL_allgather_base :: "('s hccl_group, hccl_work) cmd" where
  "HCCL_allgather_base = throwM (Runtime_error ''ProcessGroupHCCL does not support allgather_base'')"
definition HCCL_gather :: "('s hccl_group, hccl_work) cmd" where
  "HCCL_gather = throwM (Runtime_error ''ProcessGroupHCCL does not support gather'')"
definition HCCL_scatter :: "('s hccl_group, hccl_work) cmd" where
  "HCCL_scatter = throwM (Runtime_error ''ProcessGroupHCCL does not support scatter'')"
definition HCCL_send :: "('s hccl_group, hccl_work) cmd" where
  "HCCL_send = throwM (Runtime_error ''ProcessGroupHCCL does not support send'')"
definition HCCL_recv :: "('s hccl_group, hccl_work) cmd" where
  "HCCL_recv = throwM (Runtime_error ''ProcessGroupHCCL does not support recv'')"
definition HCCL_recvAnysource :: "('s hccl_group, hccl_work) cmd" where
  "HCCL_recvAnysource = throwM (Runtime_error ''ProcessGroupHCCL does not support recv'')"

definition release_resource :: "'s hccl_env \<Rightarrow> ('s hccl_group, unit) cmd" where
  "release_resource env =
     bindM (log_call (Synchronize_device (current_device env))) (\<lambda>_.
     modifyM (\<lambda>g. g\<lparr>hg_events := [], hg_comms := []\<rparr>))"

section \<open>The invariant of the cache\<close>

text \<open>
  HCCL has one device per process, so every cached vector has one element; a cached communicator
  has its stream and its event.
\<close>

definition hccl_inv :: "'s hccl_group \<Rightarrow> bool" where
  "hccl_inv g \<longleftrightarrow>
     (\<forall>key cs. map_of (hg_comms g) key = Some cs \<longrightarrow>
        length cs = 1 \<and> map_of (hg_streams g) key \<noteq> None \<and> map_of (hg_events g) key \<noteq> None) \<and>
     (\<forall>key sts. map_of (hg_streams g) key = Some sts \<longrightarrow> length sts = 1) \<and>
     (\<forall>key evs. map_of (hg_events g) key = Some evs \<longrightarrow> evs = [Group_event key 0])"

lemma hccl_inv_init: "ProcessGroupHCCL flag s rank world timeout = Inr g \<Longrightarrow> hccl_inv g"
  by (auto simp: ProcessGroupHCCL_def hccl_inv_def bindE_def split: sum.splits)

lemma hccl_inv_cong:
  "hg_comms g' = hg_comms g \<Longrightarrow> hg_streams g' = hg_streams g \<Longrightarrow> hg_events g' = hg_events g \<Longrightarrow>
   hccl_inv g' = hccl_inv g"
  by (simp add: hccl_inv_def)

text \<open>The cache, as a part of the state that most commands leave alone.\<close>

definition hg_cache where
  "hg_cache g = (hg_comms g, hg_streams g, hg_events g)"

lemma hccl_inv_cache: "hg_cache g' = hg_cache g \<Longrightarrow> hccl_inv g' = hccl_inv g"
  by (simp add: hccl_inv_def hg_cache_def)

lemma keeps_cache_basic:
  "keepsM hg_cache (log_call c)"
  "keepsM hg_cache (on_store m)"
  "keepsM hg_cache (C10D_HCCL_CHECK err)"
  "keepsM hg_cache (vec_at xs i)"
  "keepsM hg_cache (get_root_info env)"
  "keepsM hg_cache (getNPUStreamFromPool env dev)"
  by (auto simp: keepsM_def hg_cache_def log_call_def on_store_def C10D_HCCL_CHECK_def vec_at_def
      get_root_info_def getNPUStreamFromPool_def bindM_def split: prod.splits option.splits)

lemma keeps_cache_broadcast: "keepsM hg_cache (broadcastMasterID env info)"
  by (auto simp: broadcastMasterID_def Let_def hg_cache_def intro!: keepsM_bind keepsM_I keepsM_modify keepsM_if
      keeps_cache_basic)

lemma keeps_cache_create: "keepsM hg_cache (HCCLComm_create env n r info dev)"
  by (auto simp: HCCLComm_create_def Let_def intro!: keepsM_bind keepsM_I keeps_cache_basic)

lemma keepsM_map_each: "(\<And>x. keepsM f (g x)) \<Longrightarrow> keepsM f (map_each g xs)"
  by (induction xs) auto

lemma keeps_cache_create_comms: "keepsM hg_cache (create_comms env devices hcclID)"
  by (auto simp: create_comms_def intro!: keepsM_map_each keepsM_bind keepsM_I keeps_cache_basic keeps_cache_create)

lemma keeps_cache_root: "keepsM hg_cache (if b then get_root_info env else returnM info)"
  using keeps_cache_basic(5) [of env] by (auto intro: keepsM_I)

text \<open>What a new communicator adds to the state.\<close>

lemma create_comms_single:
  "create_comms env [d] hcclID g =
     (let c = \<lparr>cm_ranks = hg_size g, cm_rank = hg_rank g, cm_root = hcclID\<rparr>
      in case HcclCommInitRootInfo env c of
           Some e \<Rightarrow> (Inl (Runtime_error ''HCCL error in: ''), g)
         | None \<Rightarrow> (Inr [(c, pool_stream env (snd d) (hg_fresh g))],
                    g\<lparr>hg_log := hg_log g @ [Comm_init c (snd d)], hg_fresh := hg_fresh g + 1\<rparr>))"
  by (simp add: create_comms_def HCCLComm_create_def getNPUStreamFromPool_def C10D_HCCL_CHECK_def log_call_def
      bindM_def Let_def split: option.split)

text \<open>
  \<open>new_comm\<close> is the state after a communicator was entered into the cache.
\<close>

definition new_comm :: "string \<Rightarrow> hccl_comm \<Rightarrow> npu_stream \<Rightarrow> 's hccl_group \<Rightarrow> 's hccl_group" where
  "new_comm key c st g = g\<lparr>
     hg_streams := umap_emplace key [st] (hg_streams g),
     hg_events := umap_emplace key [Group_event key 0] (hg_events g),
     hg_rateCtrlEvents := umap_emplace key [Rate_event key 0] (hg_rateCtrlEvents g),
     hg_collectiveCnts := umap_emplace key [0] (hg_collectiveCnts g),
     hg_comms := umap_emplace key [c] (hg_comms g)\<rparr>"

lemma map_of_emplace:
  "map_of (umap_emplace k v m) k' = (if k' = k \<and> map_of m k = None then Some v else map_of m k')"
  by (auto simp: umap_emplace_def)

lemma new_comm_inv: "hccl_inv g \<Longrightarrow> hccl_inv (new_comm key c st g)"
  by (auto simp: hccl_inv_def new_comm_def map_of_emplace split: if_splits)

lemma getHCCLComm_cached:
  assumes "key \<noteq> []" and "map_of (hg_comms g) key = Some cs"
  shows "getHCCLComm env key devices g =
    (Inr cs, g\<lparr>hg_used := fold set_insert (map snd devices) (hg_used g)\<rparr>)"
  using assms by (simp add: getHCCLComm_def bindM_def)

lemma getHCCLComm_new:
  assumes "key \<noteq> []" and "map_of (hg_comms g) key = None"
    and "g0 = g\<lparr>hg_used := fold set_insert [snd d] (hg_used g)\<rparr>"
    and "(if hg_rank g = 0 then get_root_info env else returnM []) g0 = (Inr info, g1)"
    and "broadcastMasterID env info g1 = (Inr hcclID, g2)"
    and "create_comms env [d] hcclID g2 = (Inr [(c, st)], g3)"
  shows "getHCCLComm env key [d] g = (Inr [c], new_comm key c st g3)"
proof -
  have "hg_cache g3 = hg_cache g2" "hg_cache g2 = hg_cache g1" "hg_cache g1 = hg_cache g0"
    using keepsM_D [OF keeps_cache_create_comms assms(6)] keepsM_D [OF keeps_cache_broadcast assms(5)]
      keepsM_D [OF keeps_cache_root assms(4)] by simp_all
  then have "map_of (hg_comms g3) key = None" using assms(2,3) by (simp add: hg_cache_def)
  then show ?thesis using assms
    by (simp add: getHCCLComm_def bindM_def new_comm_def map_of_emplace umap_at_def)
qed

lemma getHCCLComm_result:
  assumes "getHCCLComm env key [d] g = (r, g')"
  shows "(\<exists>e. r = Inl e) \<and> hg_cache g' = hg_cache g \<or>
    (\<exists>cs. r = Inr cs \<and> map_of (hg_comms g) key = Some cs \<and> key \<noteq> [] \<and>
          g' = g\<lparr>hg_used := fold set_insert [snd d] (hg_used g)\<rparr>) \<or>
    (\<exists>c st g3. r = Inr [c] \<and> map_of (hg_comms g) key = None \<and> key \<noteq> [] \<and> hg_cache g3 = hg_cache g \<and> g' = new_comm key c st g3)"
proof (cases "key = [] \<or> map_of (hg_comms g) key \<noteq> None")
  case True
  then show ?thesis
    using assms by (cases "key = []") (auto simp: getHCCLComm_def bindM_def split: option.splits)
next
  case False
  let ?g0 = "g\<lparr>hg_used := fold set_insert [snd d] (hg_used g)\<rparr>"
  let ?root = "if hg_rank g = 0 then get_root_info env else returnM []"
  have c0: "hg_cache ?g0 = hg_cache g" by (simp add: hg_cache_def)
  obtain r1 g1 where 1: "?root ?g0 = (r1, g1)" by fastforce
  have c1: "hg_cache g1 = hg_cache g"
    using keepsM_D [OF keeps_cache_root 1] c0 by simp
  show ?thesis
  proof (cases r1)
    case (Inl e)
    with False assms 1 c1 show ?thesis by (auto simp: getHCCLComm_def bindM_def)
  next
    case (Inr info)
    obtain r2 g2 where 2: "broadcastMasterID env info g1 = (r2, g2)" by fastforce
    have c2: "hg_cache g2 = hg_cache g" using keepsM_D [OF keeps_cache_broadcast 2] c1 by simp
    show ?thesis
    proof (cases r2)
      case (Inl e)
      with False assms 1 2 c2 Inr show ?thesis by (auto simp: getHCCLComm_def bindM_def)
    next
      case (Inr hcclID)
      obtain r3 g3 where 3: "create_comms env [d] hcclID g2 = (r3, g3)" by fastforce
      have c3: "hg_cache g3 = hg_cache g" using keepsM_D [OF keeps_cache_create_comms 3] c2 by simp
      show ?thesis
      proof (cases r3)
        case (Inl e)
        with False assms 1 2 3 c3 \<open>r1 = Inr info\<close> \<open>r2 = Inr hcclID\<close> show ?thesis
          by (auto simp: getHCCLComm_def bindM_def)
      next
        case (Inr cs)
        with 3 obtain c st where "cs = [(c, st)]"
          by (auto simp: create_comms_single Let_def split: option.splits)
        then have "getHCCLComm env key [d] g = (Inr [c], new_comm key c st g3)"
          using False 1 2 3 Inr \<open>r1 = Inr info\<close> \<open>r2 = Inr hcclID\<close>
          by (intro getHCCLComm_new [OF _ _ refl]) auto
        then have "r = Inr [c]" "g' = new_comm key c st g3" using assms by simp_all
        moreover have "key \<noteq> []" "map_of (hg_comms g) key = None" using False by simp_all
        ultimately show ?thesis using c3
          by (intro disjI2 exI [of _ c] exI [of _ st] exI [of _ g3] conjI)
      qed
    qed
  qed
qed

lemma getHCCLComm_inv:
  assumes "hccl_inv g" and "getHCCLComm env key [d] g = (r, g')"
  shows "hccl_inv g' \<and>
    (\<forall>cs. r = Inr cs \<longrightarrow> (\<exists>c st. cs = [c] \<and> map_of (hg_comms g') key = Some [c] \<and>
       map_of (hg_streams g') key = Some [st] \<and> map_of (hg_events g') key = Some [Group_event key 0]))"
proof -
  consider e where "r = Inl e" "hg_cache g' = hg_cache g"
    | cs where "r = Inr cs" "map_of (hg_comms g) key = Some cs" "hg_cache g' = hg_cache g"
    | c st g3 where "r = Inr [c]" "map_of (hg_comms g) key = None" "hg_cache g3 = hg_cache g" "g' = new_comm key c st g3"
    using getHCCLComm_result [OF assms(2)] by (auto simp: hg_cache_def)
  then show ?thesis
  proof cases
    case 1
    with assms(1) hccl_inv_cache [of g' g] show ?thesis by simp
  next
    case 2
    then have "hccl_inv g'" using assms(1) hccl_inv_cache [of g' g] by simp
    moreover have "map_of (hg_comms g') key = Some cs" using 2 by (simp add: hg_cache_def)
    ultimately show ?thesis using 2 by (fastforce simp: hccl_inv_def length_Suc_conv)
  next
    case 3
    then have i: "hccl_inv g'" using assms(1) hccl_inv_cache [of g3 g] by (simp add: new_comm_inv)
    have c: "map_of (hg_comms g') key = Some [c]"
      using 3 by (simp add: new_comm_def map_of_emplace hg_cache_def)
    with i obtain st' where "map_of (hg_streams g') key = Some [st']" "map_of (hg_events g') key = Some [Group_event key 0]"
      by (fastforce simp: hccl_inv_def length_Suc_conv)
    with i c 3 show ?thesis by blast
  qed
qed

section \<open>What a collective does\<close>

lemma getKey_single [simp]: "getKeyFromDevices [d] = to_string (snd d)"
  by (simp add: getKeyFromDevices_def)

abbreviation tensor_key :: "npu_tensor \<Rightarrow> string" where
  "tensor_key t \<equiv> to_string (t_device_index t)"

abbreviation tensor_device :: "npu_tensor \<Rightarrow> npu_device" where
  "tensor_device t \<equiv> (t_device_type t, t_device_index t)"

text \<open>The state in which the library call of a collective on one tensor is made.\<close>

definition launching :: "'s hccl_env \<Rightarrow> npu_tensor \<Rightarrow> npu_stream \<Rightarrow> 's hccl_group \<Rightarrow> 's hccl_group" where
  "launching env t st g = g\<lparr>hg_fresh := hg_fresh g + 1, hg_log := hg_log g @
     [Record_event (Group_event (tensor_key t) 0) (current_stream env (t_device_index t)),
      Block_event (Group_event (tensor_key t) 0) st, Record_stream (nt_storage t) st]\<rparr>"

lemma collective_single:
  assumes "getHCCLComm env (tensor_key t) [tensor_device t] g = (Inr [c], g1)"
    and "map_of (hg_streams g1) (tensor_key t) = Some [st]"
    and "map_of (hg_events g1) (tensor_key t) = Some [Group_event (tensor_key t) 0]"
  shows "collective env [t] [out] fn (\<lambda>_. returnM ()) (\<lambda>_. returnM ()) g =
    bindM (fn t out c st) (\<lambda>_.
    bindM (log_call (Record_event (Work_event (hg_fresh g1) 0) st)) (\<lambda>_.
    getM (\<lambda>g. (WorkHCCL (hg_fresh g1) (steady_clock env) [tensor_device t])\<lparr>hw_comms := [c],
       hw_blockingWait := hg_blocking g, hw_opTimeout := hg_opTimeout g\<rparr>))) (launching env t st g1)"
  using assms
  by (simp add: collective_def getDeviceList_def bindM_def umap_at_def syncStreams_def vec_at_def log_call_def
      initWork_def WorkHCCL_def launching_def Let_def split: prod.splits sum.splits)

lemma collective_fails:
  assumes "getHCCLComm env (tensor_key t) [tensor_device t] g = (Inl e, g1)"
  shows "collective env [t] outs fn pre post g = (Inl e, g1)"
  using assms by (simp add: collective_def getDeviceList_def bindM_def Let_def)

lemma check_npu_single: "check_npu_tensors ts = Inr () \<Longrightarrow> \<exists>t. ts = [t] \<and> nt_contiguous t"
  by (auto simp: check_npu_tensors_def length_Suc_conv split: if_splits)

text \<open>
  One lemma for \<^verbatim>\<open>allreduce\<close> and \<^verbatim>\<open>broadcast\<close>: a collective whose library call depends on
  the tensor's type.
\<close>

definition typed_collective ::
    "'s hccl_env \<Rightarrow> npu_tensor \<Rightarrow> (HcclDataType \<Rightarrow> hccl_comm \<Rightarrow> hccl_call) \<Rightarrow> ('s hccl_group, hccl_work) cmd" where
  "typed_collective env t mk g =
     (case getHCCLComm env (tensor_key t) [tensor_device t] g of
        (Inl e, g1) \<Rightarrow> (Inl e, g1)
      | (Inr cs, g1) \<Rightarrow>
          (let c = hd cs; st = hd (the (map_of (hg_streams g1) (tensor_key t))); g2 = launching env t st g1
           in case hcclDataType (nt_scalar t) of
                None \<Rightarrow> (Inl (Runtime_error ''Unsupported data type for HCCL process group''), g2)
              | Some dt \<Rightarrow>
                  (let g3 = g2\<lparr>hg_log := hg_log g2 @ [Launch (mk dt c) st]\<rparr>
                   in case hccl_result env (mk dt c) of
                        Some err \<Rightarrow> (Inl (Runtime_error ''HCCL error in: ''), g3)
                      | None \<Rightarrow>
                          (Inr ((WorkHCCL (hg_fresh g1) (steady_clock env) [tensor_device t])\<lparr>hw_comms := [c],
                              hw_blockingWait := hg_blocking g1, hw_opTimeout := hg_opTimeout g1\<rparr>),
                           g3\<lparr>hg_log := hg_log g3 @ [Record_event (Work_event (hg_fresh g1) 0) st]\<rparr>))))"

lemma collective_typed:
  assumes "hccl_inv g"
  shows "collective env [t] [t]
    (\<lambda>input output comm stream.
       bindM (liftM (getHcclDataType (nt_scalar input))) (\<lambda>dt. launch env (mk input output dt comm) stream))
    (\<lambda>_. returnM ()) (\<lambda>_. returnM ()) g = typed_collective env t (mk t t) g"
proof (cases "getHCCLComm env (tensor_key t) [tensor_device t] g")
  case (Pair r g1)
  show ?thesis
  proof (cases r)
    case (Inl e)
    with Pair show ?thesis by (simp add: collective_fails typed_collective_def)
  next
    case (Inr cs)
    with getHCCLComm_inv [OF assms Pair] obtain c st where cs: "cs = [c]"
      "map_of (hg_streams g1) (tensor_key t) = Some [st]"
      "map_of (hg_events g1) (tensor_key t) = Some [Group_event (tensor_key t) 0]" by blast
    from Pair Inr cs(1) have g: "getHCCLComm env (tensor_key t) [tensor_device t] g = (Inr [c], g1)" by simp
    show ?thesis
      unfolding collective_single [OF g cs(2,3)] typed_collective_def g
      using cs(2) by (simp add: bindM_def launch_def getHcclDataType_def log_call_def C10D_HCCL_CHECK_def
          launching_def Let_def split: option.splits)
  qed
qed

lemma allreduce_typed:
  assumes "hccl_inv g" and "nt_contiguous t"
  shows "HCCL_allreduce env reduceOp [t] g =
    typed_collective env t
      (\<lambda>dt. HcclAllReduce (nt_storage t) (nt_storage t) (hccl_physical_numel t) dt (hcclOp reduceOp)) g"
  using collective_typed [OF assms(1), of env t
      "\<lambda>i out dt. HcclAllReduce (nt_storage i) (nt_storage out) (hccl_physical_numel i) dt (hcclOp reduceOp)"] assms(2)
  by (simp add: HCCL_allreduce_def bindM_def check_npu_tensors_def)

lemma broadcast_typed:
  assumes "hccl_inv g" and "nt_contiguous t"
  shows "HCCL_broadcast env rootRank rootTensor [t] g =
    typed_collective env t (\<lambda>dt. HcclBroadcast (nt_storage t) (hccl_physical_numel t) dt (rootRank + rootTensor)) g"
  using collective_typed [OF assms(1), of env t
      "\<lambda>i out dt. HcclBroadcast (nt_storage i) (hccl_physical_numel i) dt (rootRank + rootTensor)"] assms(2)
  by (simp add: HCCL_broadcast_def bindM_def check_npu_tensors_def Let_def)

section \<open>Ordering on the device\<close>

fun stream_of :: "npu_call \<Rightarrow> npu_stream option" where
  "stream_of (Record_event e s) = Some s"
| "stream_of (Block_event e s) = Some s"
| "stream_of (Launch c s) = Some s"
| "stream_of (Copy_to d r s) = Some s"
| "stream_of (Compute n s) = Some s"
| "stream_of _ = None"

fun records :: "npu_event \<Rightarrow> npu_call \<Rightarrow> bool" where
  "records e (Record_event e' s) = (e' = e)"
| "records e _ = False"

text \<open>
  The documented behaviour of streams and events, as laws of a relation \<open>before\<close> between the
  positions of a log of calls: a stream runs its entries in order, and an entry that waits for an
  event comes after the last recording of the event.
\<close>

definition stream_laws :: "(nat \<Rightarrow> nat \<Rightarrow> bool) \<Rightarrow> npu_call list \<Rightarrow> bool" where
  "stream_laws before L \<longleftrightarrow>
     (\<forall>i j k. before i j \<longrightarrow> before j k \<longrightarrow> before i k) \<and>
     (\<forall>i j s. i < j \<longrightarrow> j < length L \<longrightarrow> stream_of (L ! i) = Some s \<longrightarrow> stream_of (L ! j) = Some s \<longrightarrow> before i j) \<and>
     (\<forall>i j e s s'. i < j \<longrightarrow> j < length L \<longrightarrow> L ! i = Record_event e s \<longrightarrow> L ! j = Block_event e s' \<longrightarrow>
        (\<forall>k. i < k \<longrightarrow> k < j \<longrightarrow> \<not> records e (L ! k)) \<longrightarrow> before i j)"

lemma before_trans: "stream_laws before L \<Longrightarrow> before i j \<Longrightarrow> before j k \<Longrightarrow> before i k"
  unfolding stream_laws_def by blast

lemma before_fifo:
  "stream_laws before L \<Longrightarrow> i < j \<Longrightarrow> j < length L \<Longrightarrow> stream_of (L ! i) = Some s \<Longrightarrow>
   stream_of (L ! j) = Some s \<Longrightarrow> before i j"
  unfolding stream_laws_def by blast

lemma before_event:
  "stream_laws before L \<Longrightarrow> i < j \<Longrightarrow> j < length L \<Longrightarrow> L ! i = Record_event e s \<Longrightarrow> L ! j = Block_event e s' \<Longrightarrow>
   (\<And>k. i < k \<Longrightarrow> k < j \<Longrightarrow> \<not> records e (L ! k)) \<Longrightarrow> before i j"
  unfolding stream_laws_def by blast

lemma call_ordered:
  assumes L: "L = P @ [Record_event e cur, Block_event e st, x, Launch c st, Record_event e' st] @ mid @ Block_event e' cur' # rest"
    and mid: "\<forall>m \<in> set mid. \<not> records e' m" and laws: "stream_laws before L"
  shows "(\<forall>i < length P. stream_of (P ! i) = Some cur \<longrightarrow> before i (length P + 3)) \<and>
    (\<forall>j. length P + 5 + length mid < j \<and> j < length L \<and> stream_of (L ! j) = Some cur' \<longrightarrow> before (length P + 3) j)"
proof -
  let ?n = "length P" and ?b = "length P + 5 + length mid"
  have at: "L ! ?n = Record_event e cur" "L ! (?n + 1) = Block_event e st" "L ! (?n + 3) = Launch c st"
    "L ! (?n + 4) = Record_event e' st" by (simp_all add: L nth_append)
  have len: "?n + 4 < length L" "?b < length L" by (simp_all add: L)
  have b: "L ! ?b = Block_event e' cur'" by (simp add: L nth_append)
  have m: "\<not> records e' (L ! k)" if k: "?n + 4 < k" "k < ?b" for k
  proof -
    obtain i where i: "k = ?n + 5 + i" "i < length mid" using k by (intro that [of "k - (?n + 5)"]) simp_all
    then have "L ! k = mid ! i" by (simp add: L nth_append)
    then show ?thesis using mid i nth_mem by auto
  qed
  have 1: "before ?n (?n + 1)" by (rule before_event [OF laws _ _ at(1,2)]) (use len in auto)
  have 2: "before (?n + 1) (?n + 3)" by (rule before_fifo [OF laws, of _ _ st]) (use len at in auto)
  have 3: "before (?n + 3) (?n + 4)" by (rule before_fifo [OF laws, of _ _ st]) (use len at in auto)
  have 4: "before (?n + 4) ?b" by (rule before_event [OF laws _ _ at(4) b m]) (use len in auto)
  have "before i (?n + 3)" if i: "i < ?n" "stream_of (P ! i) = Some cur" for i
  proof -
    have "L ! i = P ! i" using i by (simp add: L nth_append)
    then have "before i ?n" using before_fifo [OF laws, of i ?n cur] i at(1) len by simp
    then show ?thesis using before_trans [OF laws] 1 2 by blast
  qed
  moreover have "before (?n + 3) j" if j: "?b < j" "j < length L" "stream_of (L ! j) = Some cur'" for j
  proof -
    have "before ?b j" using before_fifo [OF laws, of ?b j cur'] j b by simp
    then show ?thesis using before_trans [OF laws] 3 4 by blast
  qed
  ultimately show ?thesis by blast
qed

text \<open>Commands that only add to the log.\<close>

definition growsM :: "('s hccl_group, 'a) cmd \<Rightarrow> bool" where
  "growsM m \<longleftrightarrow> (\<forall>g. prefix (hg_log g) (hg_log (snd (m g))))"

lemma growsM_bind: "growsM m \<Longrightarrow> (\<And>a. growsM (k a)) \<Longrightarrow> growsM (bindM m k)"
  by (auto simp: growsM_def bindM_def split: prod.splits sum.splits)
     (metis prefix_order.trans snd_conv)+

lemma growsM_keeps: "keepsM hg_log m \<Longrightarrow> growsM m"
  by (simp add: growsM_def keepsM_def)

lemma growsM_basic:
  "growsM (log_call c)" "growsM (returnM a)" "growsM (throwM ex)" "growsM (getM f)" "growsM (on_store m)"
  "growsM (C10D_HCCL_CHECK err)" "growsM (checkM b ex)"
  by (auto simp: growsM_def log_call_def on_store_def C10D_HCCL_CHECK_def split: prod.splits option.splits)

lemma growsM_modify: "(\<And>g. hg_log (f g) = hg_log g) \<Longrightarrow> growsM (modifyM f)"
  by (simp add: growsM_def)

lemma growsM_map_each: "(\<And>x. growsM (f x)) \<Longrightarrow> growsM (map_each f xs)"
  by (induction xs) (auto intro: growsM_bind growsM_basic)

lemma growsM_if: "growsM m \<Longrightarrow> growsM m' \<Longrightarrow> growsM (if b then m else m')"
  by simp

lemma getHCCLComm_grows: "growsM (getHCCLComm env key devices)"
  unfolding getHCCLComm_def broadcastMasterID_def get_root_info_def create_comms_def HCCLComm_create_def
    getNPUStreamFromPool_def Let_def
  by (auto intro!: growsM_if growsM_bind growsM_basic growsM_modify growsM_map_each split: option.splits)

lemma getHCCLComm_log:
  assumes "getHCCLComm env key devices g = (r, g')"
  obtains init where "hg_log g' = hg_log g @ init"
  using getHCCLComm_grows [of env key devices] assms by (auto simp: growsM_def prefix_def) (metis snd_conv)

lemma wait_log:
  assumes "hw_devices w = [d]" and "hw_events w = [e]" and "hw_barrierTensors w = []"
  shows "hg_log (snd (WorkHCCL_wait env queries delay timeout w g)) =
    hg_log g @ [Block_event e (current_stream env (snd d))]"
  using assms
  by (simp add: WorkHCCL_wait_def WorkHCCL_synchronize_def block_current_def vec_at_def log_call_def bindM_def
      split: sum.splits)

section \<open>Communicators of several ranks\<close>

text \<open>
  Ranks that share one \<^verbatim>\<open>HashStore\<close>: \<open>G i\<close> is the group of rank \<open>i\<close>. A step is a request of one
  rank for the communicator of one device that returns; ranks may ask for different devices and
  in any interleaving.
\<close>

definition fresh_group :: "hash_store \<Rightarrow> nat \<Rightarrow> nat \<Rightarrow> hash_store hccl_group" where
  "fresh_group S n i = projr (ProcessGroupHCCL None S (int i) (int n) (Options_create 0))"

definition over_hash_store :: "nat \<Rightarrow> hash_store hccl_env \<Rightarrow> bool" where
  "over_hash_store i env \<longleftrightarrow> he_set env = hash_set \<and> he_get env = hash_get i"

inductive hccl_cluster ::
    "(nat \<Rightarrow> hash_store hccl_env) \<Rightarrow> nat \<Rightarrow> hash_store \<Rightarrow> (nat \<Rightarrow> hash_store hccl_group) \<Rightarrow> bool"
  for env n where
  cluster_start: "hccl_cluster env n hash_init (fresh_group hash_init n)"
| cluster_comm: "hccl_cluster env n S G \<Longrightarrow> hg_counter (G i) \<noteq> - 1 \<Longrightarrow>
     getHCCLComm (env i) (to_string idx) [(NPU, idx)] ((G i)\<lparr>hg_store := S\<rparr>) = (Inr cs, g') \<Longrightarrow>
     hccl_cluster env n (hg_store g') (G(i := g'))"

lemma cluster_run:
  assumes "hccl_cluster env n S G" and "hg_counter (G i) \<noteq> - 1"
    and "fst (getHCCLComm (env i) (to_string idx) [(NPU, idx)] ((G i)\<lparr>hg_store := S\<rparr>)) = Inr cs"
    and "g' = snd (getHCCLComm (env i) (to_string idx) [(NPU, idx)] ((G i)\<lparr>hg_store := S\<rparr>))"
  shows "hccl_cluster env n (hg_store g') (G(i := g'))"
  using assms cluster_comm [of env n S G i idx cs g'] by (simp add: prod_eq_iff)

text \<open>The root identities a rank has built communicators on, oldest first.\<close>

fun comm_roots :: "npu_call list \<Rightarrow> bytes list" where
  "comm_roots [] = []"
| "comm_roots (Comm_init c d # cs) = cm_root c # comm_roots cs"
| "comm_roots (_ # cs) = comm_roots cs"

lemma comm_roots_append [simp]: "comm_roots (xs @ ys) = comm_roots xs @ comm_roots ys"
  by (induction xs rule: comm_roots.induct) simp_all

lemma to_string_nat_inject [simp]: "to_string (int i) = to_string (int j) \<longleftrightarrow> i = j"
proof
  assume "to_string (int i) = to_string (int j)"
  then have "digits_val (nat_to_string i) = digits_val (nat_to_string j)" by (simp add: to_string_def)
  then show "i = j" by simp
qed simp

lemma uint_counter: "n < 2 ^ 64 \<Longrightarrow> uint (word_of_nat n :: 64 word) = int n"
  by (metis uint_nat unat_word64_of_nat)

lemma getHCCLComm_creates:
  assumes "map_of (hg_comms g) key = None" and "key \<noteq> []"
    and "getHCCLComm env key [d] g = (Inr cs, g')" and "over_hash_store i env"
  obtains root where "comm_roots (hg_log g') = comm_roots (hg_log g) @ [root]"
    "hg_counter g' = hg_counter g + 1" "hg_rank g' = hg_rank g"
    "hg_rank g = 0 \<Longrightarrow> hash_view (hg_store g') = (hash_view (hg_store g))(to_string (uint (hg_counter g)) \<mapsto> root)"
    "hg_rank g \<noteq> 0 \<Longrightarrow> hash_view (hg_store g) (to_string (uint (hg_counter g))) = Some root \<and> hg_store g' = hg_store g"
proof -
  note defs = getHCCLComm_def broadcastMasterID_def get_root_info_def create_comms_single on_store_def
    C10D_HCCL_CHECK_def over_hash_store_def hash_set_def hash_get_def hash_view_def bindM_def Let_def
  show ?thesis
  proof (cases "hg_rank g = 0")
    case True
    with assms that [of "snd (HcclGetRootInfo env (hg_roots g))"] show ?thesis
      by (auto simp: defs split: option.splits)
  next
    case False
    with assms that [of "the (map_of (hs_map (hg_store g)) (to_string (uint (hg_counter g))))"] show ?thesis
      by (auto simp: defs split: option.splits if_splits)
  qed
qed

definition cluster_inv :: "hash_store \<Rightarrow> (nat \<Rightarrow> hash_store hccl_group) \<Rightarrow> bool" where
  "cluster_inv S G \<longleftrightarrow>
     (\<forall>i. hg_rank (G i) = int i \<and> length (comm_roots (hg_log (G i))) < 2 ^ 64 \<and>
          hg_counter (G i) = word_of_nat (length (comm_roots (hg_log (G i)))) \<and>
          prefix (comm_roots (hg_log (G i))) (comm_roots (hg_log (G 0)))) \<and>
     (\<forall>k v. hash_view S k = Some v \<longleftrightarrow>
          (\<exists>j < length (comm_roots (hg_log (G 0))). k = to_string (int j) \<and> v = comm_roots (hg_log (G 0)) ! j))"

lemma prefix_snoc_nth: "prefix xs ys \<Longrightarrow> length xs < length ys \<Longrightarrow> prefix (xs @ [ys ! length xs]) ys"
  by (auto simp: prefix_def neq_Nil_conv)

lemma counter_not_max:
  assumes "n < 2 ^ 64" and "(word_of_nat n :: 64 word) \<noteq> - 1"
  shows "n + 1 < 2 ^ 64"
proof (rule ccontr)
  assume "\<not> n + 1 < 2 ^ 64"
  with assms(1) have "n + 1 = 2 ^ 64" by simp
  then have "(word_of_nat (n + 1) :: 64 word) = word_of_nat (2 ^ 64)" by (rule arg_cong)
  then have "(word_of_nat n :: 64 word) + 1 = 0" by simp
  with assms(2) show False by (simp add: eq_neg_iff_add_eq_0)
qed

lemma cluster_inv_root:
  assumes inv: "cluster_inv S G" and c: "hg_counter (G 0) \<noteq> - 1" and r: "hg_rank g' = 0"
    and roots: "comm_roots (hg_log g') = comm_roots (hg_log (G 0)) @ [root]" and n: "hg_counter g' = hg_counter (G 0) + 1"
    and view: "hash_view S' = (hash_view S)(to_string (uint (hg_counter (G 0))) \<mapsto> root)"
  shows "cluster_inv S' (G(0 := g'))"
proof -
  let ?R = "comm_roots (hg_log (G 0))"
  from inv have len: "length ?R < 2 ^ 64" "hg_counter (G 0) = word_of_nat (length ?R)" by (simp_all add: cluster_inv_def)
  with c have len1: "length ?R + 1 < 2 ^ 64" by (intro counter_not_max) simp_all
  have key: "to_string (uint (hg_counter (G 0))) = to_string (int (length ?R))" using len by (simp add: uint_counter)
  have "hash_view S' k = Some v \<longleftrightarrow> (\<exists>j < length (?R @ [root]). k = to_string (int j) \<and> v = (?R @ [root]) ! j)" for k v
  proof (cases "k = to_string (int (length ?R))")
    case True
    then show ?thesis using view key by (auto simp: nth_append)
  next
    case False
    then have "hash_view S' k = hash_view S k" using view key by simp
    also have "(hash_view S k = Some v) \<longleftrightarrow> (\<exists>j < length ?R. k = to_string (int j) \<and> v = ?R ! j)"
      using inv by (simp add: cluster_inv_def)
    also have "\<dots> \<longleftrightarrow> (\<exists>j < length (?R @ [root]). k = to_string (int j) \<and> v = (?R @ [root]) ! j)"
      using False by (auto simp: nth_append less_Suc_eq)
    finally show ?thesis .
  qed
  with inv roots n r len len1 show ?thesis
    by (auto simp: cluster_inv_def intro: prefix_prefix)
qed

lemma cluster_inv_member:
  assumes inv: "cluster_inv S G" and i: "i \<noteq> 0" and c: "hg_counter (G i) \<noteq> - 1" and r: "hg_rank g' = int i"
    and roots: "comm_roots (hg_log g') = comm_roots (hg_log (G i)) @ [root]" and n: "hg_counter g' = hg_counter (G i) + 1"
    and view: "hash_view S (to_string (uint (hg_counter (G i)))) = Some root"
  shows "cluster_inv S (G(i := g'))"
proof -
  let ?R = "comm_roots (hg_log (G 0))" and ?Q = "comm_roots (hg_log (G i))"
  from inv have len: "length ?Q < 2 ^ 64" "hg_counter (G i) = word_of_nat (length ?Q)" "prefix ?Q ?R"
    by (simp_all add: cluster_inv_def)
  with c have len1: "length ?Q + 1 < 2 ^ 64" by (intro counter_not_max) simp_all
  have "hash_view S (to_string (int (length ?Q))) = Some root" using view len by (simp add: uint_counter)
  then obtain j where "j < length ?R" "length ?Q = j" "root = ?R ! j"
    using inv by (auto simp: cluster_inv_def)
  then have "prefix (?Q @ [root]) ?R" using prefix_snoc_nth [OF len(3)] by auto
  with inv roots n r len len1 i show ?thesis by (auto simp: cluster_inv_def)
qed

lemma cluster_keeps_inv:
  assumes "hccl_cluster env n S G" and "\<And>i. over_hash_store i (env i)"
  shows "cluster_inv S G"
  using assms(1)
proof (induction rule: hccl_cluster.induct)
  case cluster_start
  then show ?case
    by (simp add: cluster_inv_def fresh_group_def ProcessGroupHCCL_def blocking_wait_flag_def hash_view_def hash_init_def)
next
  case (cluster_comm S G i idx cs g')
  let ?g = "(G i)\<lparr>hg_store := S\<rparr>"
  show ?case
  proof (cases "map_of (hg_comms (G i)) (to_string idx)")
    case (Some cs')
    then have "hg_store g' = S" "hg_log g' = hg_log (G i)" "hg_rank g' = hg_rank (G i)" "hg_counter g' = hg_counter (G i)"
      using cluster_comm.hyps(3) getHCCLComm_cached [of "to_string idx" ?g cs'] by auto
    with cluster_comm.IH show ?thesis by (simp add: cluster_inv_def)
  next
    case None
    from None obtain root where root:
      "comm_roots (hg_log g') = comm_roots (hg_log (G i)) @ [root]" "hg_counter g' = hg_counter (G i) + 1"
      "hg_rank g' = hg_rank (G i)"
      "hg_rank (G i) = 0 \<Longrightarrow> hash_view (hg_store g') = (hash_view S)(to_string (uint (hg_counter (G i))) \<mapsto> root)"
      "hg_rank (G i) \<noteq> 0 \<Longrightarrow> hash_view S (to_string (uint (hg_counter (G i)))) = Some root \<and> hg_store g' = S"
      using getHCCLComm_creates [of ?g "to_string idx" "env i" "(NPU, idx)" cs g' i] cluster_comm.hyps(3) assms(2)
      by auto
    have r: "hg_rank (G i) = int i" using cluster_comm.IH by (simp add: cluster_inv_def)
    show ?thesis
    proof (cases "i = 0")
      case True
      with root r cluster_comm.hyps(2) show ?thesis
        unfolding True by (intro cluster_inv_root [OF cluster_comm.IH]) auto
    next
      case False
      with r have "hg_rank (G i) \<noteq> 0" by simp
      then have v: "hash_view S (to_string (uint (hg_counter (G i)))) = Some root" and st: "hg_store g' = S"
        using root(5) by simp_all
      show ?thesis
        unfolding st using False root r cluster_comm.hyps(2) v by (intro cluster_inv_member [OF cluster_comm.IH]) auto
    qed
  qed
qed

section \<open>The invariant under every operation\<close>

lemma keeps_cache_for_each: "(\<And>x. keepsM hg_cache (f x)) \<Longrightarrow> keepsM hg_cache (for_each f xs)"
  by (rule keepsM_for_each)

lemmas keeps_cache_rules = keepsM_bind keepsM_I keepsM_if keepsM_option keepsM_map_each keeps_cache_for_each
  keeps_cache_basic keeps_cache_create

lemma keeps_cache_modify_fresh: "keepsM hg_cache (modifyM (\<lambda>g. g\<lparr>hg_fresh := n\<rparr>))"
  by (simp add: keepsM_def hg_cache_def)

lemma keeps_cache_ops:
  "keepsM hg_cache (syncStreams env devices evs sts)"
  "keepsM hg_cache (initWork env devices)"
  "keepsM hg_cache (launch env c st)"
  "keepsM hg_cache (flat_tensor env tls i)"
  "keepsM hg_cache (barrier_tensor env d)"
  "keepsM hg_cache (copy_rows tls cp sts)"
  by (auto simp: syncStreams_def initWork_def launch_def flat_tensor_def barrier_tensor_def copy_rows_def Let_def
      intro!: keeps_cache_rules keeps_cache_modify_fresh)

lemma keeps_cache_flatten: "keepsM hg_cache (flatten_for_scatter_gather env tls other world)"
  by (auto simp: flatten_for_scatter_gather_def Let_def intro!: keeps_cache_rules keeps_cache_ops(4))

lemma bind_then_keeps_inv:
  assumes "hccl_inv (snd (m g))" and "\<And>a. keepsM hg_cache (k a)"
  shows "hccl_inv (snd (bindM m k g))"
proof -
  obtain r g1 where m: "m g = (r, g1)" by fastforce
  have "hg_cache (snd (bindM m k g)) = hg_cache g1"
    using m assms(2) by (cases r) (simp_all add: bindM_def keepsM_def)
  with m assms(1) show ?thesis using hccl_inv_cache by fastforce
qed

lemma collective_inv:
  assumes "hccl_inv g" and "length inputs = 1"
    and "\<And>a b c d. keepsM hg_cache (fn a b c d)" and "\<And>sts. keepsM hg_cache (pre sts)" and "\<And>sts. keepsM hg_cache (post sts)"
  shows "hccl_inv (snd (collective env inputs outputs fn pre post g))"
proof -
  obtain t where t: "inputs = [t]" using assms(2) by (auto simp: length_Suc_conv)
  then have d: "getDeviceList inputs = [tensor_device t]" by (simp add: getDeviceList_def)
  have i: "hccl_inv (snd (getHCCLComm env (tensor_key t) [tensor_device t] g))"
    using getHCCLComm_inv [OF assms(1), of env "tensor_key t" "tensor_device t"] by (metis prod.collapse)
  show ?thesis
    unfolding collective_def Let_def d getKey_single snd_conv
    by (rule bind_then_keeps_inv) (use i in simp, intro keeps_cache_rules keeps_cache_ops assms(3-5))
qed

lemma bind_check_inv:
  assumes "hccl_inv g" and "\<And>a. r = Inr a \<Longrightarrow> hccl_inv (snd (k a g))"
  shows "hccl_inv (snd (bindM (liftM r) k g))"
  using assms by (cases r) (simp_all add: bindM_def)

lemma bind_keeps_inv:
  assumes "keepsM hg_cache m" and "hccl_inv g" and "\<And>a g'. m g = (Inr a, g') \<Longrightarrow> hccl_inv g' \<Longrightarrow> hccl_inv (snd (k a g'))"
  shows "hccl_inv (snd (bindM m k g))"
proof -
  obtain r g' where m: "m g = (r, g')" by fastforce
  then have "hccl_inv g'" using keepsM_D [OF assms(1) m] hccl_inv_cache [of g' g] assms(2) by simp
  with m assms(3) show ?thesis by (cases r) (simp_all add: bindM_def)
qed

lemma allreduce_inv: "hccl_inv g \<Longrightarrow> hccl_inv (snd (HCCL_allreduce env op ts g))"
  unfolding HCCL_allreduce_def
  by (rule bind_check_inv, assumption, rule collective_inv)
     (auto dest: check_npu_single intro!: keeps_cache_rules keeps_cache_ops)

lemma broadcast_inv: "hccl_inv g \<Longrightarrow> hccl_inv (snd (HCCL_broadcast env rr rt ts g))"
  unfolding HCCL_broadcast_def Let_def
  by (rule bind_check_inv, assumption, rule collective_inv)
     (auto dest: check_npu_single intro!: keeps_cache_rules keeps_cache_ops)

lemma allgather_inv: "hccl_inv g \<Longrightarrow> hccl_inv (snd (HCCL_allgather env outs ins g))"
  unfolding HCCL_allgather_def
  by (rule bind_check_inv, assumption, rule bind_keeps_inv, rule keepsM_I, assumption,
      rule bind_keeps_inv, rule keeps_cache_flatten, assumption, rule bind_check_inv, assumption, rule collective_inv)
     (auto dest: check_npu_single intro!: keeps_cache_rules keeps_cache_ops)

lemma reduce_scatter_inv: "hccl_inv g \<Longrightarrow> hccl_inv (snd (HCCL_reduce_scatter env op outs ins g))"
  unfolding HCCL_reduce_scatter_def
  by (rule bind_check_inv, assumption, rule bind_keeps_inv, rule keepsM_I, assumption,
      rule bind_keeps_inv, rule keeps_cache_flatten, assumption, rule bind_check_inv, assumption, rule collective_inv)
     (auto dest: check_npu_single intro!: keeps_cache_rules keeps_cache_ops)

lemma barrier_inv: "hccl_inv g \<Longrightarrow> hccl_inv (snd (HCCL_barrier env g))"
  unfolding HCCL_barrier_def
proof (rule bind_keeps_inv)
  fix devs g'
  assume "hccl_inv (g' :: 'a hccl_group)"
  then show "hccl_inv (snd (bindM (map_each (barrier_tensor env) devs) (\<lambda>ts.
      bindM (HCCL_allreduce env SUM_op ts) (\<lambda>work. returnM (work\<lparr>hw_barrierTensors := ts\<rparr>))) g'))"
  proof (rule bind_keeps_inv [rotated])
    fix ts g2
    assume "hccl_inv (g2 :: 'a hccl_group)"
    then show "hccl_inv (snd (bindM (HCCL_allreduce env SUM_op ts) (\<lambda>work. returnM (work\<lparr>hw_barrierTensors := ts\<rparr>)) g2))"
      using allreduce_inv [of g2 env SUM_op ts] by (auto simp: bindM_def split: prod.splits sum.splits)
  qed (intro keepsM_map_each keeps_cache_ops)
qed (auto intro: keepsM_I)

lemma release_inv: "hccl_inv g \<Longrightarrow> hccl_inv (snd (release_resource env g))"
  by (simp add: release_resource_def log_call_def bindM_def hccl_inv_def)

section \<open>Blocking waits\<close>

lemma completed_no_exception:
  "hw_exception w = None \<Longrightarrow> WorkHCCL_isCompleted q w = finishedNPUExecutionInternal q w"
  by (simp add: WorkHCCL_isCompleted_def checkAndSetException_def)

lemma hccl_poll_result:
  assumes "hw_exception w = None" and "hccl_poll queries delay w k now = (r, m)"
    and "10 * int k \<le> now - hw_startTime w" and "10 * int k \<le> hw_opTimeout w + 10" and "0 \<le> hw_opTimeout w"
  shows "k \<le> m \<and> 10 * int m \<le> hw_opTimeout w + 10 \<and>
    (\<forall>j. k \<le> j \<and> j < m \<longrightarrow> \<not> finishedNPUExecutionInternal (queries j) w) \<and>
    r = (if finishedNPUExecutionInternal (queries m) w then Inr () else Inl (Runtime_error ''Operation timed out!''))"
  using assms
proof (induction queries delay w k now arbitrary: r m rule: hccl_poll.induct)
  case (1 queries delay w k now)
  let ?done = "finishedNPUExecutionInternal (queries k) w" and ?late = "now - hw_startTime w > hw_opTimeout w"
  have ok: "checkAndThrowException w = Inr ()"
    using "1.prems"(1) by (simp add: checkAndThrowException_def checkAndSetException_def)
  note unf = hccl_poll.simps [of queries delay w k now] completed_no_exception [OF "1.prems"(1)] ok
  show ?case
  proof (cases "?done \<or> ?late")
    case True
    then have "m = k \<and> r = (if ?done then Inr () else Inl (Runtime_error ''Operation timed out!''))"
      using "1.prems"(2) by (auto simp: unf split: if_splits)
    with "1.prems" show ?thesis by auto
  next
    case False
    have rec: "hccl_poll queries delay w (Suc k) (now + kSynchronizeBusyWaitMillis + int (delay k)) = (r, m)"
      using False "1.prems"(2) by (simp add: unf)
    have "Suc k \<le> m \<and> 10 * int m \<le> hw_opTimeout w + 10 \<and>
        (\<forall>j. Suc k \<le> j \<and> j < m \<longrightarrow> \<not> finishedNPUExecutionInternal (queries j) w) \<and>
        r = (if finishedNPUExecutionInternal (queries m) w then Inr () else Inl (Runtime_error ''Operation timed out!''))"
      using False "1.prems" by (intro "1.IH" [OF _ _ ok "1.prems"(1) rec]) (auto simp: unf kSynchronizeBusyWaitMillis_def)
    with False show ?thesis by (metis Suc_leD Suc_leI le_neq_implies_less)
  qed
qed

section \<open>Properties\<close>

text \<open>A small environment for examples: every library call succeeds, stream 0 is current.\<close>

definition demo_env :: "nat \<Rightarrow> hash_store hccl_env" where
  "demo_env i = \<lparr>he_set = hash_set, he_get = hash_get i, HCCL_ROOT_INFO_BYTES = 2,
     HcclGetRootInfo = (\<lambda>n. (None, [word_of_nat n, 7])), HcclCommInitRootInfo = (\<lambda>_. None),
     hccl_result = (\<lambda>_. None), current_stream = (\<lambda>_. 0), pool_stream = (\<lambda>d n. n + 1),
     device_count = 8, current_device = 0, fresh_storage_sizes = id, steady_clock = 0\<rparr>"

definition demo_tensor :: npu_tensor where
  "demo_tensor = \<lparr>t_type = 0, t_sizes = [4], t_layout = Strided, t_device_type = NPU, t_device_index = 3,
     nt_scalar = kFloat, nt_contiguous = True, nt_storage = 9, nt_storage_sizes = [16]\<rparr>"

lemma demo_over_hash_store: "over_hash_store i (demo_env i)"
  by (simp add: over_hash_store_def demo_env_def)

lemmas demo_run = getHCCLComm_def broadcastMasterID_def get_root_info_def create_comms_single on_store_def
  C10D_HCCL_CHECK_def demo_env_def hash_set_def hash_notify_all_def hash_get_def hash_init_def fresh_group_def
  ProcessGroupHCCL_def blocking_wait_flag_def Options_create_def bindM_def Let_def umap_emplace_def umap_at_def

text \<open>
  C26. All ranks build their communicators on the same roots. Ranks over one \<^verbatim>\<open>HashStore\<close> create
  and look up communicators for any devices in any interleaving (the requests that return, fewer
  than 2 to the 64 per rank): the j-th communicator of every two ranks that have one carries the
  same root identity, the one rank 0 drew for it.
\<close>

theorem hccl_roots_agree:
  assumes "hccl_cluster env n S G" and "\<And>i. over_hash_store i (env i)"
    and "j < length (comm_roots (hg_log (G a)))" and "j < length (comm_roots (hg_log (G b)))"
  shows "comm_roots (hg_log (G a)) ! j = comm_roots (hg_log (G b)) ! j"
proof -
  have "prefix (comm_roots (hg_log (G i))) (comm_roots (hg_log (G 0)))" for i
    using cluster_keeps_inv [OF assms(1,2)] by (simp add: cluster_inv_def)
  then show ?thesis using assms(3,4) by (metis nth_append prefix_def)
qed

theorem hccl_roots_agree_witness:
  "\<exists>S G. hccl_cluster demo_env 2 S G \<and> length (comm_roots (hg_log (G 0))) = 1 \<and>
     length (comm_roots (hg_log (G 1))) = 1 \<and> comm_roots (hg_log (G 0)) ! 0 = comm_roots (hg_log (G 1)) ! 0"
proof -
  let ?G = "fresh_group hash_init 2"
  let ?r0 = "getHCCLComm (demo_env 0) (to_string 4) [(NPU, 4)] ((?G 0)\<lparr>hg_store := hash_init\<rparr>)"
  let ?g0 = "snd ?r0"
  let ?r1 = "getHCCLComm (demo_env 1) (to_string 5) [(NPU, 5)] ((?G 1)\<lparr>hg_store := hg_store ?g0\<rparr>)"
  let ?g1 = "snd ?r1"
  have s0: "hccl_cluster demo_env 2 (hg_store ?g0) (?G(0 := ?g0))"
    by (rule cluster_run [OF cluster_start, where idx = 4]) (simp_all add: demo_run)
  have "hccl_cluster demo_env 2 (hg_store ?g1) (?G(0 := ?g0, 1 := ?g1))"
    by (rule cluster_run [OF s0, where idx = 5]) (simp_all add: demo_run)
  moreover have "length (comm_roots (hg_log ((?G(0 := ?g0, 1 := ?g1)) 0))) = 1"
    "length (comm_roots (hg_log ((?G(0 := ?g0, 1 := ?g1)) 1))) = 1"
    by (simp_all add: demo_run)
  ultimately show ?thesis
    using hccl_roots_agree [of demo_env 2 "hg_store ?g1" "?G(0 := ?g0, 1 := ?g1)" 0 0 1] demo_over_hash_store
    by (metis less_one)
qed

text \<open>
  A successful \<^verbatim>\<open>allreduce\<close> makes these five calls after those that create the communicator.
\<close>

lemma allreduce_log:
  assumes "hccl_inv g" and "nt_contiguous t" and "HCCL_allreduce env op [t] g = (Inr w, g1)"
  obtains init c st n where "hg_log g1 = hg_log g @ init @
      [Record_event (Group_event (tensor_key t) 0) (current_stream env (t_device_index t)),
       Block_event (Group_event (tensor_key t) 0) st, Record_stream (nt_storage t) st,
       Launch (HcclAllReduce (nt_storage t) (nt_storage t) (hccl_physical_numel t)
                 (the (hcclDataType (nt_scalar t))) (hcclOp op) c) st, Record_event (Work_event n 0) st]"
    "hw_devices w = [tensor_device t]" "hw_events w = [Work_event n 0]" "hw_barrierTensors w = []"
proof -
  obtain r g' where 1: "getHCCLComm env (tensor_key t) [tensor_device t] g = (r, g')" by fastforce
  obtain init where init: "hg_log g' = hg_log g @ init" using getHCCLComm_log [OF 1] .
  from assms(3) 1 obtain cs dt where "r = Inr cs" "hcclDataType (nt_scalar t) = Some dt"
    unfolding allreduce_typed [OF assms(1,2)] typed_collective_def
    by (auto simp: Let_def split: sum.splits option.splits)
  with assms(3) 1 init show ?thesis
    unfolding allreduce_typed [OF assms(1,2)] typed_collective_def
    by (intro that [of init "hd (the (map_of (hg_streams g') (tensor_key t)))" "hd cs" "hg_fresh g'"])
       (auto simp: Let_def launching_def WorkHCCL_def split: option.splits)
qed

text \<open>
  C27. A collective is ordered with the caller's work. An \<^verbatim>\<open>allreduce\<close> that succeeds and a later
  \<^verbatim>\<open>wait\<close> on its work, with anything in between that does not record the work's event: in every
  order of execution that respects streams and events, all that was queued on the current stream
  before the call runs before the HCCL kernel, and the kernel runs before all that is queued on
  the then current stream after \<^verbatim>\<open>wait\<close>.
\<close>

theorem hccl_allreduce_ordered:
  assumes "hccl_inv g" and "nt_contiguous t" and "HCCL_allreduce env op [t] g = (Inr w, g1)"
    and "hg_log g2 = hg_log g1 @ mid" and "\<forall>m \<in> set mid. \<forall>e \<in> set (hw_events w). \<not> records e m"
    and "g3 = snd (WorkHCCL_wait env' queries delay timeout w g2)"
    and "stream_laws before (hg_log g3 @ rest)"
  shows "\<exists>p call st. p < length (hg_log g1) \<and> hg_log g1 ! p = Launch call st \<and>
    (\<forall>i < length (hg_log g). stream_of (hg_log g ! i) = Some (current_stream env (t_device_index t)) \<longrightarrow> before i p) \<and>
    (\<forall>j < length rest. stream_of (rest ! j) = Some (current_stream env' (t_device_index t)) \<longrightarrow>
       before p (length (hg_log g3) + j))"
proof -
  obtain init c st n where log: "hg_log g1 = hg_log g @ init @
      [Record_event (Group_event (tensor_key t) 0) (current_stream env (t_device_index t)),
       Block_event (Group_event (tensor_key t) 0) st, Record_stream (nt_storage t) st,
       Launch (HcclAllReduce (nt_storage t) (nt_storage t) (hccl_physical_numel t)
                 (the (hcclDataType (nt_scalar t))) (hcclOp op) c) st, Record_event (Work_event n 0) st]"
    and w: "hw_devices w = [tensor_device t]" "hw_events w = [Work_event n 0]" "hw_barrierTensors w = []"
    using allreduce_log [OF assms(1-3)] .
  let ?P = "hg_log g @ init" and ?cur' = "current_stream env' (t_device_index t)"
  have g3: "hg_log g3 = hg_log g1 @ mid @ [Block_event (Work_event n 0) ?cur']"
    using wait_log [OF w, of env' queries delay timeout g2] assms(4,6) by simp
  have "\<forall>m \<in> set mid. \<not> records (Work_event n 0) m" using assms(5) w(2) by simp
  from call_ordered [OF _ this assms(7), of ?P "Group_event (tensor_key t) 0" _ st "Record_stream (nt_storage t) st" _ ?cur' rest]
  have ord: "(\<forall>i < length ?P. stream_of (?P ! i) = Some (current_stream env (t_device_index t)) \<longrightarrow> before i (length ?P + 3)) \<and>
      (\<forall>j. length ?P + 5 + length mid < j \<and> j < length (hg_log g3 @ rest) \<and>
         stream_of ((hg_log g3 @ rest) ! j) = Some ?cur' \<longrightarrow> before (length ?P + 3) j)"
    by (simp add: g3 log)
  show ?thesis
  proof (intro exI conjI allI impI)
    show "length ?P + 3 < length (hg_log g1)" by (simp add: log)
    show "hg_log g1 ! (length ?P + 3) = Launch (HcclAllReduce (nt_storage t) (nt_storage t) (hccl_physical_numel t)
        (the (hcclDataType (nt_scalar t))) (hcclOp op) c) st" by (simp add: log nth_append)
  next
    fix i assume "i < length (hg_log g)" "stream_of (hg_log g ! i) = Some (current_stream env (t_device_index t))"
    then show "before i (length ?P + 3)" using ord by (simp add: nth_append)
  next
    fix j assume "j < length rest" "stream_of (rest ! j) = Some ?cur'"
    then show "before (length ?P + 3) (length (hg_log g3) + j)"
      using ord by (simp add: nth_append) (simp add: g3 log)
  qed
qed

theorem hccl_allreduce_ordered_witness:
  "\<exists>p call st. hg_log (snd (HCCL_allreduce (demo_env 0) SUM_op [demo_tensor]
       ((fresh_group hash_init 2 0)\<lparr>hg_log := [Compute 1 0]\<rparr>))) ! p = Launch call st \<and> 0 < p"
proof -
  let ?g = "(fresh_group hash_init 2 0)\<lparr>hg_log := [Compute 1 0]\<rparr>"
  let ?r = "HCCL_allreduce (demo_env 0) SUM_op [demo_tensor] ?g"
  have i: "hccl_inv ?g" by (simp add: hccl_inv_def demo_run)
  have c: "nt_contiguous demo_tensor" by (simp add: demo_tensor_def)
  obtain w g1 where r: "?r = (Inr w, g1)"
    using allreduce_typed [OF i c, of "demo_env 0" SUM_op]
    by (simp add: typed_collective_def demo_run demo_tensor_def launching_def)
  let ?g3 = "snd (WorkHCCL_wait (demo_env 0) (\<lambda>_ _. Event_ready) (\<lambda>_. 0) 0 w g1)"
  have laws: "stream_laws (<) (hg_log ?g3 @ [Compute 2 0])" by (auto simp: stream_laws_def)
  from hccl_allreduce_ordered [OF i c r, of g1 "[]" ?g3 "demo_env 0" "\<lambda>_ _. Event_ready" "\<lambda>_. 0" 0, OF _ _ refl laws]
  obtain p call st where "hg_log g1 ! p = Launch call st"
    "\<forall>i < length (hg_log ?g). stream_of (hg_log ?g ! i) = Some (current_stream (demo_env 0) (t_device_index demo_tensor)) \<longrightarrow> i < p"
    by auto
  moreover have "current_stream (demo_env 0) (t_device_index demo_tensor) = 0" by (simp add: demo_env_def)
  ultimately have "hg_log (snd ?r) ! p = Launch call st" "0 < p" by (simp_all add: r del: One_nat_def)
  then show ?thesis by blast
qed

text \<open>
  The cache of communicators, streams and events stays consistent: every operation of the
  group keeps the invariant, on every branch, also when it throws.
\<close>

theorem hccl_cache_consistent:
  assumes "hccl_inv g"
  shows "hccl_inv (snd (HCCL_allreduce env op ts g)) \<and> hccl_inv (snd (HCCL_broadcast env rr rt ts g)) \<and>
    hccl_inv (snd (HCCL_allgather env tss ts g)) \<and> hccl_inv (snd (HCCL_reduce_scatter env op ts tss g)) \<and>
    hccl_inv (snd (HCCL_barrier env g)) \<and> hccl_inv (snd (release_resource env g))"
  using assms by (simp add: allreduce_inv broadcast_inv allgather_inv reduce_scatter_inv barrier_inv release_inv)

theorem hccl_cache_consistent_witness: "hccl_inv (snd (HCCL_barrier (demo_env 1) (fresh_group hash_init 2 1)))"
proof -
  have "hccl_inv (fresh_group hash_init 2 1)" by (simp add: hccl_inv_def demo_run)
  from hccl_cache_consistent [OF this] show ?thesis by blast
qed



text \<open>
  A blocking wait ends. The polling loop of \<^verbatim>\<open>synchronize\<close> on a work without an exception
  polls at most one tenth of the timeout in milliseconds plus one times; it succeeds exactly when
  the last poll found the work finished, every earlier poll did not, and otherwise it throws the
  timeout error. Whatever the events answer and however long the sleeps take.
\<close>

theorem hccl_blocking_wait_ends:
  assumes "hw_exception w = None" and "hw_startTime w \<le> now" and "0 \<le> hw_opTimeout w"
  shows "case hccl_poll queries delay w 0 now of (r, m) \<Rightarrow>
    10 * int m \<le> hw_opTimeout w + 10 \<and> (\<forall>j < m. \<not> finishedNPUExecutionInternal (queries j) w) \<and>
    r = (if finishedNPUExecutionInternal (queries m) w then Inr () else Inl (Runtime_error ''Operation timed out!''))"
proof (cases "hccl_poll queries delay w 0 now")
  case (Pair r m)
  from hccl_poll_result [OF assms(1) Pair] assms(2,3) show ?thesis by (simp add: Pair)
qed

theorem hccl_blocking_wait_ends_witness:
  "case hccl_poll (\<lambda>k _. if k = 2 then Event_ready else Event_not_ready) (\<lambda>_. 5)
      ((WorkHCCL 0 100 [(NPU, 1)])\<lparr>hw_opTimeout := 1000\<rparr>) 0 120 of (r, m) \<Rightarrow> m \<le> 101"
proof -
  let ?w = "(WorkHCCL 0 100 [(NPU, 1)])\<lparr>hw_opTimeout := 1000\<rparr>"
  have "hw_exception ?w = None" "hw_startTime ?w \<le> 120" "0 \<le> hw_opTimeout ?w" by (simp_all add: WorkHCCL_def)
  from hccl_blocking_wait_ends [OF this, of "\<lambda>k _. if k = 2 then Event_ready else Event_not_ready" "\<lambda>_. 5"]
  show ?thesis by (auto simp: WorkHCCL_def split: prod.splits)
qed

text \<open>
  A reduction HCCL does not have is not refused: \<^verbatim>\<open>allreduce\<close> with a bitwise operation runs
  like any other and hands the library the zero value of its enumeration, the same for all of them.
\<close>

theorem hccl_unsupported_op_runs:
  assumes "hccl_inv g" and "nt_contiguous t" and "op \<in> {BAND, BOR, BXOR, UNUSED}"
    and "hcclDataType (nt_scalar t) = Some dt" and "\<And>c. hccl_result env c = None"
    and "getHCCLComm env (tensor_key t) [tensor_device t] g = (Inr [c], g1)"
  shows "\<exists>w g2 st. HCCL_allreduce env op [t] g = (Inr w, g2) \<and>
    Launch (HcclAllReduce (nt_storage t) (nt_storage t) (hccl_physical_numel t) dt HcclReduceOp_zero c) st \<in> set (hg_log g2)"
proof -
  have "hcclOp op = HcclReduceOp_zero" using assms(3) by auto
  then show ?thesis
    unfolding allreduce_typed [OF assms(1,2)] typed_collective_def using assms(4-6) by (auto simp: Let_def)
qed

theorem hccl_unsupported_op_runs_witness:
  "\<exists>w g2. HCCL_allreduce (demo_env 0) BOR [demo_tensor] (fresh_group hash_init 2 0) = (Inr w, g2)"
proof -
  let ?g = "fresh_group hash_init 2 0"
  have i: "hccl_inv ?g" by (simp add: hccl_inv_def demo_run)
  have t: "nt_contiguous demo_tensor" "BOR \<in> {BAND, BOR, BXOR, UNUSED}"
    "hcclDataType (nt_scalar demo_tensor) = Some HCCL_DATA_TYPE_FP32" by (simp_all add: demo_tensor_def)
  have e: "hccl_result (demo_env 0) c = None" for c by (simp add: demo_env_def)
  obtain c g1 where "getHCCLComm (demo_env 0) (tensor_key demo_tensor) [tensor_device demo_tensor] ?g = (Inr [c], g1)"
    by (simp add: demo_run demo_tensor_def)
  from hccl_unsupported_op_runs [OF i t(1,2,3) e this] show ?thesis by blast
qed

text \<open>
  Once a group has used two devices, \<^verbatim>\<open>barrier\<close> always throws: it makes one tensor per used
  device and hands them to \<^verbatim>\<open>allreduce\<close>, which takes exactly one.
\<close>

theorem hccl_barrier_two_devices:
  assumes "2 \<le> length (hg_used g)"
  shows "fst (HCCL_barrier env g) =
    Inl (Runtime_error ''Tensor list mustn't be larger than the number of available NPUs'')"
proof -
  have "\<exists>ts g'. map_each (barrier_tensor env) ds s = (Inr ts, g') \<and> length ts = length ds" for ds s
  proof (induction ds arbitrary: s)
    case (Cons d ds)
    obtain t s1 where t: "barrier_tensor env d s = (Inr t, s1)" by (simp add: barrier_tensor_def bindM_def)
    obtain ts g' where "map_each (barrier_tensor env) ds s1 = (Inr ts, g')" "length ts = length ds"
      using Cons.IH by blast
    with t show ?case by (simp add: bindM_def)
  qed simp
  from this [of "barrier_devices env g" g] obtain ts g' where
    ts: "map_each (barrier_tensor env) (barrier_devices env g) g = (Inr ts, g')" "length ts = length (barrier_devices env g)"
    by blast
  moreover have "length (barrier_devices env g) = length (hg_used g)" using assms by (auto simp: barrier_devices_def)
  ultimately show ?thesis using assms
    by (simp add: HCCL_barrier_def HCCL_allreduce_def check_npu_tensors_def bindM_def)
qed

theorem hccl_barrier_two_devices_witness:
  "\<exists>e. fst (HCCL_barrier (demo_env 0) ((fresh_group hash_init 2 0)\<lparr>hg_used := [0, 1]\<rparr>)) = Inl e"
  using hccl_barrier_two_devices [of "(fresh_group hash_init 2 0)\<lparr>hg_used := [0, 1]\<rparr>" "demo_env 0"] by auto

text \<open>
  A failed look-up uses up a sequence number: when a rank other than 0 asks the store for a root
  identity and the store throws, the group has already counted the communicator, so the next request
  for the same devices asks for the root of the following communicator.
\<close>

theorem hccl_failed_lookup_skips:
  assumes "hg_rank g \<noteq> 0" and "map_of (hg_comms g) (to_string idx) = None"
    and "he_get env (to_string (uint (hg_counter g))) (hg_store g) = (Inl ex, s')"
    and "he_get env (to_string (uint (hg_counter g + 1))) s' = (Inr root, s'')"
    and "length root = HCCL_ROOT_INFO_BYTES env" and "\<And>c. HcclCommInitRootInfo env c = None"
  shows "\<exists>g1 c g2. getHCCLComm env (to_string idx) [(NPU, idx)] g = (Inl ex, g1) \<and>
    getHCCLComm env (to_string idx) [(NPU, idx)] g1 = (Inr [c], g2) \<and> cm_root c = root"
  using assms
  by (simp add: getHCCLComm_def broadcastMasterID_def on_store_def create_comms_single bindM_def Let_def
      umap_emplace_def umap_at_def)

theorem hccl_failed_lookup_skips_witness:
  "\<exists>g1 c g2. getHCCLComm ((demo_env 1)\<lparr>he_get := (\<lambda>k s. if k = to_string 0 then (Inl (System_error ''ETIMEDOUT''), s) else (Inr [1, 2], s))\<rparr>)
       (to_string 3) [(NPU, 3)] (fresh_group hash_init 2 1) = (Inl (System_error ''ETIMEDOUT''), g1) \<and>
     getHCCLComm ((demo_env 1)\<lparr>he_get := (\<lambda>k s. if k = to_string 0 then (Inl (System_error ''ETIMEDOUT''), s) else (Inr [1, 2], s))\<rparr>)
       (to_string 3) [(NPU, 3)] g1 = (Inr [c], g2) \<and> cm_root c = [1, 2]"
proof (rule hccl_failed_lookup_skips)
  have "to_string (int 1) \<noteq> to_string (int 0)" by (subst to_string_nat_inject) simp
  then show "he_get ((demo_env 1)\<lparr>he_get := (\<lambda>k s. if k = to_string 0 then (Inl (System_error ''ETIMEDOUT''), s) else (Inr [1, 2], s))\<rparr>)
      (to_string (uint (hg_counter (fresh_group hash_init 2 1) + 1))) hash_init = (Inr [1, 2], hash_init)"
    by (simp add: demo_run)
qed (simp_all add: demo_run)

end
