(* ===== verification/Gloo_Pool.thy ===== *)
theory Gloo_Pool
  imports ProcessGroup_Work
begin

text \<open>
  The worker threads of \<^verbatim>\<open>c10d::ProcessGroupGloo\<close> (\<^verbatim>\<open>ProcessGroupGloo.cpp\<close>): the queue of
  asynchronous work, \<^verbatim>\<open>runLoop\<close>, \<^verbatim>\<open>enqueue\<close>, \<^verbatim>\<open>AsyncWork::execute\<close>, the barrier with its
  snapshot of earlier work, and the destructor. Work objects are numbered in the order in which
  they are pushed. A part of a member function that runs under \<^verbatim>\<open>workMutex_\<close> is one step, as is
  each notification, which the code sends after releasing the mutex. What a work's library call
  throws is an argument of the step that ends it. The theory shows that work is started in the
  order of the queue, that the pool never gets stuck, also not on barriers, that a barrier
  completes after all earlier work, and that the destructor leaves no work behind.
\<close>

section \<open>State\<close>

text \<open>
  A thread is about to look at the queue, sleeps in \<^verbatim>\<open>workProduceCV_.wait\<close> (notified or not), runs
  a work, or has left \<^verbatim>\<open>runLoop\<close>.
\<close>

datatype thread_phase = Looking | Sleeping bool | Running nat | Exited

text \<open>An \<^verbatim>\<open>AsyncWork\<close>: the base object and, for \<^verbatim>\<open>AsyncBarrierWork\<close>, the work it waits for.\<close>

record async_work =
  aw_work :: work
  aw_prior :: "nat list"

text \<open>
  Besides the members of the group: \<open>gp_notifies\<close> counts the callers of \<^verbatim>\<open>enqueue\<close> that have pushed
  and not yet notified, \<open>gp_snapshots\<close> holds the list of earlier work of every caller that is
  inside \<^verbatim>\<open>barrier\<close>, \<open>gp_destroyed\<close> says whether the destructor has been called.
\<close>

record gloo_pool =
  gp_works :: "async_work list"
  gp_queue :: "nat list"
  gp_inProgress :: "nat option list"
  gp_threads :: "thread_phase list"
  gp_stop :: bool
  gp_notifies :: nat
  gp_snapshots :: "(nat, nat list) umap"
  gp_destroyed :: bool

definition gloo_pool_new :: "nat \<Rightarrow> gloo_pool" where
  "gloo_pool_new threads =
     \<lparr>gp_works = [], gp_queue = [], gp_inProgress = replicate threads None,
      gp_threads = replicate threads Looking, gp_stop = False, gp_notifies = 0, gp_snapshots = [],
      gp_destroyed = False\<rparr>"

section \<open>Operations\<close>

definition AsyncWork_new :: "nat list \<Rightarrow> async_work" where
  "AsyncWork_new prior = \<lparr>aw_work = Work (- 1) UNKNOWN None False, aw_prior = prior\<rparr>"

text \<open>\<^verbatim>\<open>enqueue\<close>: the push under the mutex, then \<^verbatim>\<open>notify_one\<close>, which wakes some sleeping thread.\<close>

definition enqueue_push :: "async_work \<Rightarrow> gloo_pool \<Rightarrow> gloo_pool" where
  "enqueue_push w p = p\<lparr>gp_works := gp_works p @ [w], gp_queue := gp_queue p @ [length (gp_works p)],
     gp_notifies := gp_notifies p + 1\<rparr>"

definition enqueue_notify :: "nat \<Rightarrow> gloo_pool \<Rightarrow> gloo_pool" where
  "enqueue_notify t p = p\<lparr>gp_notifies := gp_notifies p - 1,
     gp_threads := (if t < length (gp_threads p) \<and> gp_threads p ! t = Sleeping False
                    then (gp_threads p)[t := Sleeping True] else gp_threads p)\<rparr>"

text \<open>
  The part of \<^verbatim>\<open>runLoop\<close> under the mutex, from the test of \<^verbatim>\<open>stop_\<close> to the wait or the unlock.
\<close>

definition runLoop_look :: "nat \<Rightarrow> gloo_pool \<Rightarrow> gloo_pool" where
  "runLoop_look workerIndex p =
     (if gp_stop p then p\<lparr>gp_threads := (gp_threads p)[workerIndex := Exited]\<rparr>
      else case gp_queue p of
        [] \<Rightarrow> p\<lparr>gp_threads := (gp_threads p)[workerIndex := Sleeping False]\<rparr>
      | work # rest \<Rightarrow>
          p\<lparr>gp_queue := rest, gp_inProgress := (gp_inProgress p)[workerIndex := Some work],
            gp_threads := (gp_threads p)[workerIndex := Running work]\<rparr>)"

definition runLoop_wake :: "nat \<Rightarrow> gloo_pool \<Rightarrow> gloo_pool" where
  "runLoop_wake workerIndex p = p\<lparr>gp_threads := (gp_threads p)[workerIndex := Looking]\<rparr>"

text \<open>
  \<^verbatim>\<open>AsyncBarrierWork::run\<close> up to the library call: it waits for every earlier work that still
  exists. \<open>gone\<close> are the ones whose last reference has been dropped.
\<close>

fun wait_prior :: "async_work list \<Rightarrow> nat list \<Rightarrow> nat list \<Rightarrow> unit res" where
  "wait_prior ws gone [] = Inr ()"
| "wait_prior ws gone (i # is) =
     (if i \<in> set gone then wait_prior ws gone is
      else if \<not> Work_isCompleted (aw_work (ws ! i)) then Inl Blocked
      else bindE (poll_outcome (aw_work (ws ! i))) (\<lambda>_. wait_prior ws gone is))"

text \<open>\<^verbatim>\<open>run\<close>: the waits, then the library call, which throws \<open>e\<close> or returns.\<close>

definition AsyncWork_run :: "async_work list \<Rightarrow> nat list \<Rightarrow> async_work \<Rightarrow> exn option \<Rightarrow> unit res" where
  "AsyncWork_run ws gone w e =
     bindE (wait_prior ws gone (aw_prior w)) (\<lambda>_. case e of Some x \<Rightarrow> Inl x | None \<Rightarrow> Inr ())"

definition AsyncWork_execute :: "nat list \<Rightarrow> exn option \<Rightarrow> nat \<Rightarrow> gloo_pool \<Rightarrow> gloo_pool" where
  "AsyncWork_execute gone e i p =
     (let w = gp_works p ! i;
          eptr = (case AsyncWork_run (gp_works p) gone w e of Inl x \<Rightarrow> Some x | Inr _ \<Rightarrow> None)
      in p\<lparr>gp_works := (gp_works p)[i := w\<lparr>aw_work := finish eptr (aw_work w)\<rparr>]\<rparr>)"

text \<open>The end of a turn of \<^verbatim>\<open>runLoop\<close>: the work is executed and taken out of \<^verbatim>\<open>workInProgress_\<close>.\<close>

definition runLoop_execute :: "nat \<Rightarrow> nat list \<Rightarrow> exn option \<Rightarrow> gloo_pool \<Rightarrow> gloo_pool" where
  "runLoop_execute workerIndex gone e p =
     (case gp_threads p ! workerIndex of
        Running i \<Rightarrow>
          (AsyncWork_execute gone e i p)\<lparr>gp_inProgress := (gp_inProgress p)[workerIndex := None],
            gp_threads := (gp_threads p)[workerIndex := Looking]\<rparr>
      | _ \<Rightarrow> p)"

text \<open>\<^verbatim>\<open>barrier\<close>: the snapshot under the mutex, and the construction of the work that is enqueued.\<close>

definition barrier_snapshot :: "nat \<Rightarrow> gloo_pool \<Rightarrow> gloo_pool" where
  "barrier_snapshot caller p =
     p\<lparr>gp_snapshots := AList.update caller (List.map_filter id (gp_inProgress p) @ gp_queue p) (gp_snapshots p)\<rparr>"

definition barrier_push :: "nat \<Rightarrow> gloo_pool \<Rightarrow> gloo_pool" where
  "barrier_push caller p =
     (enqueue_push (AsyncWork_new (umap_at [] (gp_snapshots p) caller)) p)\<lparr>
        gp_snapshots := AList.delete caller (gp_snapshots p)\<rparr>"

text \<open>The destructor: called, past its wait for an empty queue, past \<^verbatim>\<open>notify_all\<close>.\<close>

definition destructor_call :: "gloo_pool \<Rightarrow> gloo_pool" where
  "destructor_call p = p\<lparr>gp_destroyed := True\<rparr>"

definition destructor_stop :: "gloo_pool \<Rightarrow> gloo_pool" where
  "destructor_stop p = p\<lparr>gp_stop := True\<rparr>"

definition destructor_notify_all :: "gloo_pool \<Rightarrow> gloo_pool" where
  "destructor_notify_all p =
     p\<lparr>gp_threads := map (\<lambda>ph. case ph of Sleeping _ \<Rightarrow> Sleeping True | _ \<Rightarrow> ph) (gp_threads p)\<rparr>"

definition threads_joined :: "gloo_pool \<Rightarrow> bool" where
  "threads_joined p = list_all (\<lambda>ph. ph = Exited) (gp_threads p)"

section \<open>Schedules\<close>

datatype gloo_event =
    Enqueue_ev
  | Notify_ev nat
  | Snapshot_ev nat
  | Barrier_ev nat
  | Look_ev nat
  | Wake_ev nat
  | Execute_ev nat "nat list" "exn option"
  | Destroy_ev
  | Stop_ev
  | Notify_all_ev

fun gp_exec :: "gloo_event \<Rightarrow> gloo_pool \<Rightarrow> gloo_pool" where
  "gp_exec Enqueue_ev p = enqueue_push (AsyncWork_new []) p"
| "gp_exec (Notify_ev t) p = enqueue_notify t p"
| "gp_exec (Snapshot_ev caller) p = barrier_snapshot caller p"
| "gp_exec (Barrier_ev caller) p = barrier_push caller p"
| "gp_exec (Look_ev t) p = runLoop_look t p"
| "gp_exec (Wake_ev t) p = runLoop_wake t p"
| "gp_exec (Execute_ev t gone e) p = runLoop_execute t gone e p"
| "gp_exec Destroy_ev p = destructor_call p"
| "gp_exec Stop_ev p = destructor_stop p"
| "gp_exec Notify_all_ev p = destructor_notify_all p"

text \<open>
  When each step can happen. \<^verbatim>\<open>notify_one\<close> reaches a sleeping thread when there is one; a thread in
  \<^verbatim>\<open>run\<close> goes on when \<^verbatim>\<open>run\<close> is not blocked, and only completed work can be gone; nobody calls
  the group once it is being destroyed, and the destructor is called after all calls returned.
\<close>

definition sleeper :: "gloo_pool \<Rightarrow> nat \<Rightarrow> bool" where
  "sleeper p t \<longleftrightarrow> t < length (gp_threads p) \<and> gp_threads p ! t = Sleeping False"

fun gp_enabled :: "gloo_event \<Rightarrow> gloo_pool \<Rightarrow> bool" where
  "gp_enabled Enqueue_ev p = (\<not> gp_destroyed p)"
| "gp_enabled (Notify_ev t) p =
     (0 < gp_notifies p \<and> (sleeper p t \<or> list_all (\<lambda>u. \<not> sleeper p u) [0..<length (gp_threads p)]))"
| "gp_enabled (Snapshot_ev caller) p = (\<not> gp_destroyed p \<and> \<not> umap_has (gp_snapshots p) caller)"
| "gp_enabled (Barrier_ev caller) p = (\<not> gp_destroyed p \<and> umap_has (gp_snapshots p) caller)"
| "gp_enabled (Look_ev t) p = (t < length (gp_threads p) \<and> gp_threads p ! t = Looking)"
| "gp_enabled (Wake_ev t) p =
     (t < length (gp_threads p) \<and> (case gp_threads p ! t of Sleeping b \<Rightarrow> True | _ \<Rightarrow> False))"
| "gp_enabled (Execute_ev t gone e) p =
     (t < length (gp_threads p) \<and>
      (case gp_threads p ! t of
         Running i \<Rightarrow>
           list_all (\<lambda>j. j < length (gp_works p) \<and> Work_isCompleted (aw_work (gp_works p ! j))) gone \<and>
           AsyncWork_run (gp_works p) gone (gp_works p ! i) e \<noteq> Inl Blocked
       | _ \<Rightarrow> False))"
| "gp_enabled Destroy_ev p = (\<not> gp_destroyed p \<and> gp_notifies p = 0 \<and> gp_snapshots p = [])"
| "gp_enabled Stop_ev p = (gp_destroyed p \<and> gp_queue p = [])"
| "gp_enabled Notify_all_ev p = gp_stop p"

inductive gp_reach :: "nat \<Rightarrow> gloo_pool \<Rightarrow> bool" for threads where
  gp_start: "gp_reach threads (gloo_pool_new threads)"
| gp_step: "gp_reach threads p \<Longrightarrow> gp_enabled ev p \<Longrightarrow> gp_reach threads (gp_exec ev p)"

section \<open>The invariant\<close>

abbreviation work_done :: "gloo_pool \<Rightarrow> nat \<Rightarrow> bool" where
  "work_done p i \<equiv> Work_isCompleted (aw_work (gp_works p ! i))"

definition runs :: "gloo_pool \<Rightarrow> nat \<Rightarrow> nat \<Rightarrow> bool" where
  "runs p t i \<longleftrightarrow> t < length (gp_threads p) \<and> gp_threads p ! t = Running i"

fun awake :: "thread_phase \<Rightarrow> bool" where
  "awake Looking = True"
| "awake (Sleeping b) = b"
| "awake (Running i) = True"
| "awake Exited = False"

text \<open>How many works have been taken from the queue.\<close>

definition taken :: "gloo_pool \<Rightarrow> nat" where
  "taken p = length (gp_works p) - length (gp_queue p)"

text \<open>The queue holds the last works in order; the others run on one thread each or are completed.\<close>

definition queue_inv :: "gloo_pool \<Rightarrow> bool" where
  "queue_inv p \<longleftrightarrow>
     length (gp_queue p) \<le> length (gp_works p) \<and> gp_queue p = [taken p..<length (gp_works p)] \<and>
     (\<forall>i < length (gp_works p). work_done p i \<longrightarrow> i < taken p) \<and>
     (\<forall>i < taken p. work_done p i \<or> (\<exists>t. runs p t i)) \<and>
     (\<forall>t i. runs p t i \<longrightarrow> i < taken p \<and> \<not> work_done p i) \<and>
     (\<forall>t u i. runs p t i \<longrightarrow> runs p u i \<longrightarrow> t = u)"

definition progress_inv :: "gloo_pool \<Rightarrow> bool" where
  "progress_inv p \<longleftrightarrow>
     length (gp_inProgress p) = length (gp_threads p) \<and>
     (\<forall>t < length (gp_threads p). gp_inProgress p ! t = (case gp_threads p ! t of Running i \<Rightarrow> Some i | _ \<Rightarrow> None))"

definition prior_inv :: "gloo_pool \<Rightarrow> bool" where
  "prior_inv p \<longleftrightarrow>
     (\<forall>i < length (gp_works p). \<forall>j \<in> set (aw_prior (gp_works p ! i)). j < i) \<and>
     (\<forall>c is. map_of (gp_snapshots p) c = Some is \<longrightarrow> (\<forall>j \<in> set is. j < length (gp_works p)))"

definition wake_inv :: "gloo_pool \<Rightarrow> bool" where
  "wake_inv p \<longleftrightarrow>
     (gp_queue p \<noteq> [] \<longrightarrow> 0 < gp_notifies p \<or> (\<exists>t < length (gp_threads p). awake (gp_threads p ! t))) \<and>
     (Exited \<in> set (gp_threads p) \<longrightarrow> gp_stop p) \<and> (gp_stop p \<longrightarrow> gp_destroyed p \<and> gp_queue p = [])"

definition gp_inv :: "gloo_pool \<Rightarrow> bool" where
  "gp_inv p \<longleftrightarrow> queue_inv p \<and> progress_inv p \<and> prior_inv p \<and> wake_inv p"

subsection \<open>Starting and ending work\<close>

lemma taken_push: "taken (enqueue_push w p) = taken p"
  by (simp add: taken_def enqueue_push_def)

lemma runs_push [simp]: "runs (enqueue_push w p) t i = runs p t i"
  by (simp add: runs_def enqueue_push_def)

lemma queue_invD:
  assumes "queue_inv p"
  shows "length (gp_queue p) \<le> length (gp_works p)" "gp_queue p = [taken p..<length (gp_works p)]"
    "i < length (gp_works p) \<Longrightarrow> work_done p i \<Longrightarrow> i < taken p"
    "i < taken p \<Longrightarrow> work_done p i \<or> (\<exists>t. runs p t i)"
    "runs p t i \<Longrightarrow> i < taken p" "runs p t i \<Longrightarrow> \<not> work_done p i"
    "runs p t i \<Longrightarrow> runs p u i \<Longrightarrow> t = u"
  using assms unfolding queue_inv_def by blast+

lemma queue_invI:
  assumes "taken p \<le> length (gp_works p)" and "gp_queue p = [taken p..<length (gp_works p)]"
    and "\<And>i. i < length (gp_works p) \<Longrightarrow> work_done p i \<Longrightarrow> i < taken p"
    and "\<And>i. i < taken p \<Longrightarrow> work_done p i \<or> (\<exists>t. runs p t i)"
    and "\<And>t i. runs p t i \<Longrightarrow> i < taken p \<and> \<not> work_done p i"
    and "\<And>t u i. runs p t i \<Longrightarrow> runs p u i \<Longrightarrow> t = u"
  shows "queue_inv p"
proof -
  have "length (gp_queue p) \<le> length (gp_works p)" using assms(2) by (metis diff_le_self length_upt)
  with assms(2-) show ?thesis unfolding queue_inv_def by blast
qed

lemma taken_le: "taken p \<le> length (gp_works p)"
  by (simp add: taken_def)

lemma queue_push:
  assumes "queue_inv p" and "\<not> Work_isCompleted (aw_work w)"
  shows "queue_inv (enqueue_push w p)"
proof -
  let ?p = "enqueue_push w p" and ?n = "length (gp_works p)"
  have w: "length (gp_works ?p) = Suc ?n" "gp_queue ?p = gp_queue p @ [?n]" by (simp_all add: enqueue_push_def)
  have d: "work_done ?p i \<longleftrightarrow> i < ?n \<and> work_done p i" if "i \<le> ?n" for i
    using that assms(2) by (auto simp: enqueue_push_def nth_append)
  note D = queue_invD [OF assms(1)] and le = taken_le [of p]
  show ?thesis
  proof (rule queue_invI, goal_cases)
    case 2
    show ?case using D(2) le by (simp add: w taken_push)
  next
    case (3 i)
    then show ?case using D(3) d [of i] by (auto simp: w taken_push)
  next
    case (4 i)
    then show ?case using D(4) d [of i] le by (simp add: taken_push)
  next
    case (5 t i)
    then show ?case using D(5,6) d [of i] le by (fastforce simp: taken_push)
  next
    case (6 t u i)
    then show ?case using D(7) by simp
  qed (simp add: taken_le)
qed

text \<open>Threads that change between phases other than running.\<close>

lemma runs_update:
  "t < length (gp_threads p) \<Longrightarrow>
   runs (p\<lparr>gp_threads := (gp_threads p)[t := ph]\<rparr>) u i \<longleftrightarrow> (if u = t then ph = Running i else runs p u i)"
  by (auto simp: runs_def nth_list_update)

lemma queue_cong:
  assumes "queue_inv p" and "gp_works p' = gp_works p" and "gp_queue p' = gp_queue p" and "\<And>t i. runs p' t i = runs p t i"
  shows "queue_inv p'"
  using assms by (simp add: queue_inv_def taken_def)

lemma queue_take:
  assumes "queue_inv p" and "t < length (gp_threads p)" and "\<And>i. \<not> runs p t i" and "gp_queue p = w # rest"
    and "p' = p\<lparr>gp_queue := rest, gp_inProgress := ip, gp_threads := (gp_threads p)[t := Running w]\<rparr>"
  shows "queue_inv p'"
proof -
  note D = queue_invD [OF assms(1)]
  have q: "w # rest = [taken p..<length (gp_works p)]" using D(2) assms(4) by simp
  have w2: "taken p < length (gp_works p)"
  proof (rule ccontr)
    assume "\<not> taken p < length (gp_works p)"
    with q show False by simp
  qed
  with q have w: "w = taken p" "rest = [Suc (taken p)..<length (gp_works p)]" by (simp_all add: upt_conv_Cons)
  have "taken p' = length (gp_works p) - length rest" by (simp add: taken_def assms(5))
  then have t': "taken p' = Suc (taken p)" using w2 w(2) by simp
  have r: "runs p' u i \<longleftrightarrow> (if u = t then i = taken p else runs p u i)" for u i
    using assms(2) w(1) by (auto simp: runs_def assms(5) nth_list_update)
  have p': "gp_works p' = gp_works p" "gp_queue p' = rest" by (simp_all add: assms(5))
  have nd: "\<not> work_done p (taken p)" using D(3) [OF w2] by auto
  show ?thesis
  proof (rule queue_invI, goal_cases)
    case (3 i)
    then show ?case using D(3) [of i] by (simp add: p' t')
  next
    case (4 i)
    show ?case
    proof (cases "i = taken p")
      case True
      then have "runs p' t i" by (simp add: r)
      then show ?thesis by blast
    next
      case False
      with 4 have "work_done p i \<or> (\<exists>u. runs p u i)" using D(4) [of i] by (simp add: t')
      moreover have "runs p u i \<Longrightarrow> runs p' u i" for u using assms(3) [of i] by (auto simp: r)
      ultimately show ?thesis by (auto simp: p')
    qed
  next
    case (5 u i)
    then show ?case using D(5,6) [of u i] nd by (auto simp: p' t' r split: if_splits)
  next
    case (6 u v i)
    then show ?case using D(5,7) by (auto simp: r split: if_splits)
  qed (use w2 w(2) in \<open>simp_all add: p' t'\<close>)
qed

lemma work_done_finish [simp]: "Work_isCompleted (finish e w)"
  by (simp add: Work_isCompleted_def finish_def work_notify_all_def)

lemma execute_works:
  "gp_works (AsyncWork_execute gone e i p) =
     (gp_works p)[i := (gp_works p ! i)\<lparr>aw_work := finish
        (case AsyncWork_run (gp_works p) gone (gp_works p ! i) e of Inl x \<Rightarrow> Some x | Inr _ \<Rightarrow> None) (aw_work (gp_works p ! i))\<rparr>]"
  by (simp add: AsyncWork_execute_def Let_def)

lemma queue_execute:
  assumes "queue_inv p" and "runs p t i"
  shows "queue_inv (runLoop_execute t gone e p)"
proof -
  let ?p = "runLoop_execute t gone e p"
  have t: "t < length (gp_threads p)" "gp_threads p ! t = Running i" using assms(2) by (simp_all add: runs_def)
  have i: "i < taken p" "i < length (gp_works p)"
    using assms by (auto simp: queue_inv_def taken_def) (metis diff_le_self less_le_trans)
  have q: "gp_queue ?p = gp_queue p" "length (gp_works ?p) = length (gp_works p)"
    using t by (simp_all add: runLoop_execute_def AsyncWork_execute_def Let_def)
  have d: "work_done ?p j \<longleftrightarrow> (j = i \<or> work_done p j)" if "j < length (gp_works p)" for j
    using t i that by (auto simp: runLoop_execute_def execute_works nth_list_update)
  have r: "runs ?p u j \<longleftrightarrow> (u \<noteq> t \<and> runs p u j)" for u j
    using t by (auto simp: runs_def runLoop_execute_def nth_list_update AsyncWork_execute_def Let_def)
  have tk: "taken ?p = taken p" by (simp add: taken_def q)
  note D = queue_invD [OF assms(1)] and le = taken_le [of p]
  show ?thesis
  proof (rule queue_invI, goal_cases)
    case (3 j)
    then show ?case using D(3) [of j] d [of j] i by (auto simp: q tk)
  next
    case (4 j)
    then show ?case using D(4) [of j] d [of j] le D(7) [OF assms(2)] by (auto simp: tk r) (metis assms(2) runs_def t(2) thread_phase.inject(2))
  next
    case (5 u j)
    then show ?case using D(5,6) [of u j] d [of j] le D(7) [OF assms(2), of u] by (auto simp: tk r)
  next
    case (6 u v j)
    then show ?case using D(7) [of u j v] by (simp add: r)
  qed (use D(2) le in \<open>simp_all add: q tk\<close>)
qed

subsection \<open>Every step keeps it\<close>

lemma thread_update_inv:
  assumes "progress_inv p" and "t < length (gp_threads p)"
    and "p' = p\<lparr>gp_queue := q, gp_inProgress := (gp_inProgress p)[t := (case ph of Running i \<Rightarrow> Some i | _ \<Rightarrow> None)],
                gp_threads := (gp_threads p)[t := ph], gp_works := ws\<rparr>"
  shows "progress_inv p'"
  using assms by (auto simp: progress_inv_def nth_list_update)

lemma progress_same: "progress_inv p \<Longrightarrow> t < length (gp_threads p) \<Longrightarrow> (\<And>i. ph \<noteq> Running i) \<Longrightarrow>
    (\<And>i. gp_threads p ! t \<noteq> Running i) \<Longrightarrow> progress_inv (p\<lparr>gp_threads := (gp_threads p)[t := ph]\<rparr>)"
  by (auto simp: progress_inv_def nth_list_update split: thread_phase.splits)

lemma queue_same: "queue_inv p \<Longrightarrow> t < length (gp_threads p) \<Longrightarrow> (\<And>i. ph \<noteq> Running i) \<Longrightarrow>
    (\<And>i. gp_threads p ! t \<noteq> Running i) \<Longrightarrow> queue_inv (p\<lparr>gp_threads := (gp_threads p)[t := ph]\<rparr>)"
  by (erule queue_cong) (auto simp: runs_def nth_list_update)

lemma prior_push:
  assumes "prior_inv p" and "\<forall>j \<in> set (aw_prior w). j < length (gp_works p)"
  shows "prior_inv (enqueue_push w p)"
  using assms by (auto simp: prior_inv_def enqueue_push_def nth_append less_Suc_eq)

lemma wake_push:
  assumes "wake_inv p" and "\<not> gp_destroyed p"
  shows "wake_inv (enqueue_push w p)"
  using assms by (auto simp: wake_inv_def enqueue_push_def)

lemma look_inv:
  assumes "gp_inv p" and "t < length (gp_threads p)" and "gp_threads p ! t = Looking"
  shows "gp_inv (runLoop_look t p)"
proof -
  have inv: "queue_inv p" "progress_inv p" "prior_inv p" "wake_inv p" using assms(1) by (simp_all add: gp_inv_def)
  have r: "\<And>i. \<not> runs p t i" "\<And>i. gp_threads p ! t \<noteq> Running i" using assms(3) by (simp_all add: runs_def)
  show ?thesis
  proof (cases "gp_stop p")
    case True
    have "wake_inv (p\<lparr>gp_threads := (gp_threads p)[t := Exited]\<rparr>)"
      using inv(4) True by (auto simp: wake_inv_def)
    with True inv(3) queue_same [OF inv(1) assms(2) _ r(2)] progress_same [OF inv(2) assms(2) _ r(2)] show ?thesis
      by (simp add: gp_inv_def runLoop_look_def prior_inv_def)
  next
    case False
    show ?thesis
    proof (cases "gp_queue p")
      case Nil
      have "wake_inv (p\<lparr>gp_threads := (gp_threads p)[t := Sleeping False]\<rparr>)"
        using inv(4) Nil by (auto simp: wake_inv_def dest!: set_update_subset_insert [THEN subsetD])
      with False Nil inv(3) queue_same [OF inv(1) assms(2) _ r(2)] progress_same [OF inv(2) assms(2) _ r(2)] show ?thesis
        by (simp add: gp_inv_def runLoop_look_def prior_inv_def)
    next
      case (Cons w rest)
      let ?p = "p\<lparr>gp_queue := rest, gp_inProgress := (gp_inProgress p)[t := Some w], gp_threads := (gp_threads p)[t := Running w]\<rparr>"
      have "queue_inv ?p" using queue_take [OF inv(1) assms(2) r(1) Cons refl] .
      moreover have "progress_inv ?p" using inv(2) assms(2) by (auto simp: progress_inv_def nth_list_update)
      moreover have "wake_inv ?p"
        using inv(4) assms(2) False
        by (auto simp: wake_inv_def nth_list_update dest!: set_update_subset_insert [THEN subsetD])
      ultimately show ?thesis using False Cons inv(3) by (simp add: gp_inv_def runLoop_look_def prior_inv_def)
    qed
  qed
qed

lemma wake_up_inv:
  assumes "gp_inv p" and "t < length (gp_threads p)" and "gp_threads p ! t = Sleeping b"
  shows "gp_inv (runLoop_wake t p)"
proof -
  have inv: "queue_inv p" "progress_inv p" "prior_inv p" "wake_inv p" using assms(1) by (simp_all add: gp_inv_def)
  have r: "\<And>i. gp_threads p ! t \<noteq> Running i" using assms(3) by simp
  have "wake_inv (p\<lparr>gp_threads := (gp_threads p)[t := Looking]\<rparr>)"
    using inv(4) assms(2) by (auto simp: wake_inv_def nth_list_update dest!: set_update_subset_insert [THEN subsetD])
  with inv(3) queue_same [OF inv(1) assms(2) _ r] progress_same [OF inv(2) assms(2) _ r] show ?thesis
    by (simp add: gp_inv_def runLoop_wake_def prior_inv_def)
qed

lemma wake_invD: "wake_inv p \<Longrightarrow> gp_stop p \<Longrightarrow> gp_queue p = []"
  by (simp add: wake_inv_def)

lemma awake_cases: "ph \<noteq> Sleeping False \<Longrightarrow> ph \<noteq> Exited \<Longrightarrow> awake ph"
  by (cases ph) auto

lemma notify_inv:
  assumes "gp_inv p" and "0 < length (gp_threads p)" and "gp_enabled (Notify_ev t) p"
  shows "gp_inv (enqueue_notify t p)"
proof -
  have inv: "queue_inv p" "progress_inv p" "prior_inv p" "wake_inv p" using assms(1) by (simp_all add: gp_inv_def)
  let ?p = "enqueue_notify t p"
  have "queue_inv ?p"
    by (rule queue_cong [OF inv(1)]) (auto simp: enqueue_notify_def runs_def nth_list_update)
  moreover have "progress_inv ?p"
    using inv(2) by (auto simp: progress_inv_def enqueue_notify_def nth_list_update split: thread_phase.splits)
  moreover have "prior_inv ?p" using inv(3) by (simp add: prior_inv_def enqueue_notify_def)
  moreover have "wake_inv ?p"
  proof (cases "sleeper p t")
    case True
    then show ?thesis using inv(4)
      by (auto simp: wake_inv_def enqueue_notify_def sleeper_def nth_list_update dest!: set_update_subset_insert [THEN subsetD])
  next
    case False
    then have no: "\<not> sleeper p 0" using assms(2,3) by (auto simp: list_all_iff)
    have "gp_threads p ! 0 \<in> set (gp_threads p)" using assms(2) by (rule nth_mem)
    then have "Exited = gp_threads p ! 0 \<longrightarrow> gp_stop p" using inv(4) by (auto simp: wake_inv_def)
    moreover have "gp_threads p ! 0 \<noteq> Sleeping False" using no assms(2) by (simp add: sleeper_def)
    ultimately have "awake (gp_threads p ! 0) \<or> gp_stop p" using awake_cases [of "gp_threads p ! 0"] by metis
    then have q: "gp_queue p \<noteq> [] \<longrightarrow> (\<exists>u < length (gp_threads p). awake (gp_threads p ! u))"
      using inv(4) assms(2) wake_invD by metis
    have "?p = p\<lparr>gp_notifies := gp_notifies p - 1\<rparr>" using False by (auto simp: enqueue_notify_def sleeper_def)
    with q inv(4) show ?thesis unfolding wake_inv_def by simp
  qed
  ultimately show ?thesis by (simp add: gp_inv_def)
qed

lemma execute_inv:
  assumes "gp_inv p" and "runs p t i"
  shows "gp_inv (runLoop_execute t gone e p)"
proof -
  have inv: "queue_inv p" "progress_inv p" "prior_inv p" "wake_inv p" using assms(1) by (simp_all add: gp_inv_def)
  let ?p = "runLoop_execute t gone e p"
  have t: "t < length (gp_threads p)" "gp_threads p ! t = Running i" using assms(2) by (simp_all add: runs_def)
  note unf = runLoop_execute_def t(2) AsyncWork_execute_def Let_def
  have "progress_inv ?p" using inv(2) t(1) by (auto simp: progress_inv_def unf nth_list_update)
  moreover have "prior_inv ?p"
    using inv(3) queue_invD(5) [OF inv(1) assms(2)] taken_le [of p]
    by (auto simp: prior_inv_def unf nth_list_update split: if_splits)
  moreover have "wake_inv ?p"
    using inv(4) t(1) by (auto simp: wake_inv_def unf nth_list_update dest!: set_update_subset_insert [THEN subsetD])
  ultimately show ?thesis using queue_execute [OF inv(1) assms(2)] by (simp add: gp_inv_def)
qed

lemma snapshot_bound:
  assumes "gp_inv p" and "j \<in> set (List.map_filter id (gp_inProgress p) @ gp_queue p)"
  shows "j < length (gp_works p)"
proof (cases "j \<in> set (gp_queue p)")
  case True
  then show ?thesis using queue_invD(2) [of p] assms(1) by (metis gp_inv_def atLeastLessThan_iff set_upt)
next
  case False
  then have "Some j \<in> set (gp_inProgress p)" using assms(2) by (auto simp: List.map_filter_def)
  then obtain t where t: "t < length (gp_threads p)" "gp_inProgress p ! t = Some j"
    using assms(1) by (auto simp: gp_inv_def progress_inv_def in_set_conv_nth)
  then have "runs p t j"
    using assms(1) by (auto simp: gp_inv_def progress_inv_def runs_def split: thread_phase.splits)
  then show ?thesis using queue_invD(5) [of p t j] assms(1) taken_le [of p] by (simp add: gp_inv_def)
qed

lemma snapshot_inv:
  assumes "gp_inv p"
  shows "gp_inv (barrier_snapshot c p)"
proof -
  have "queue_inv (barrier_snapshot c p)"
    by (rule queue_cong [of p]) (use assms in \<open>simp_all add: gp_inv_def barrier_snapshot_def runs_def\<close>)
  moreover have "prior_inv (barrier_snapshot c p)"
    using assms snapshot_bound [OF assms] by (simp add: gp_inv_def prior_inv_def barrier_snapshot_def)
  ultimately show ?thesis
    using assms by (simp add: gp_inv_def barrier_snapshot_def progress_inv_def wake_inv_def)
qed

lemma new_not_done [simp]: "\<not> Work_isCompleted (aw_work (AsyncWork_new prior))"
  by (simp add: AsyncWork_new_def Work_isCompleted_def Work_def)

lemma push_inv:
  assumes "gp_inv p" and "\<not> gp_destroyed p" and "\<forall>j \<in> set prior. j < length (gp_works p)"
  shows "gp_inv (enqueue_push (AsyncWork_new prior) p)"
proof -
  have "aw_prior (AsyncWork_new prior) = prior" by (simp add: AsyncWork_new_def)
  moreover have "progress_inv (enqueue_push (AsyncWork_new prior) p)"
    using assms(1) by (simp add: gp_inv_def progress_inv_def enqueue_push_def)
  ultimately show ?thesis using assms by (simp add: gp_inv_def queue_push prior_push wake_push)
qed

lemma barrier_inv_pool:
  assumes "gp_inv p" and "\<not> gp_destroyed p" and "map_of (gp_snapshots p) c = Some prior"
  shows "gp_inv (barrier_push c p)"
proof -
  let ?q = "enqueue_push (AsyncWork_new prior) p"
  have q: "gp_inv ?q" using assms by (intro push_inv) (auto simp: gp_inv_def prior_inv_def)
  have "barrier_push c p = ?q\<lparr>gp_snapshots := AList.delete c (gp_snapshots p)\<rparr>"
    using assms(3) by (simp add: barrier_push_def umap_at_def)
  moreover have "gp_snapshots ?q = gp_snapshots p" by (simp add: enqueue_push_def)
  moreover have "queue_inv (?q\<lparr>gp_snapshots := AList.delete c (gp_snapshots p)\<rparr>)"
    by (rule queue_cong [of ?q]) (use q in \<open>simp_all add: gp_inv_def runs_def\<close>)
  ultimately show ?thesis
    using q by (auto simp: gp_inv_def prior_inv_def progress_inv_def wake_inv_def split: if_splits)
qed

lemma notify_all_inv:
  assumes "gp_inv p" and "gp_stop p"
  shows "gp_inv (destructor_notify_all p)"
proof -
  let ?p = "destructor_notify_all p"
  have q: "queue_inv ?p"
    by (rule queue_cong [of p])
       (use assms(1) in \<open>auto simp: gp_inv_def runs_def destructor_notify_all_def split: thread_phase.splits\<close>)
  have "progress_inv ?p"
    using assms(1) by (auto simp: gp_inv_def progress_inv_def destructor_notify_all_def split: thread_phase.splits)
  moreover have "prior_inv ?p" using assms(1) by (simp add: gp_inv_def prior_inv_def destructor_notify_all_def)
  moreover have "wake_inv ?p" using assms by (auto simp: gp_inv_def wake_inv_def destructor_notify_all_def)
  ultimately show ?thesis using q by (simp add: gp_inv_def)
qed

lemma step_inv:
  assumes "gp_inv p" and "0 < length (gp_threads p)" and "gp_enabled ev p"
  shows "gp_inv (gp_exec ev p)"
proof (cases ev)
  case Enqueue_ev
  with assms show ?thesis by (simp add: push_inv)
next
  case (Notify_ev t)
  with assms show ?thesis using notify_inv by simp
next
  case (Snapshot_ev c)
  with assms show ?thesis by (simp add: snapshot_inv)
next
  case (Barrier_ev c)
  with assms show ?thesis by (auto intro: barrier_inv_pool)
next
  case (Look_ev t)
  with assms show ?thesis by (simp add: look_inv)
next
  case (Wake_ev t)
  with assms show ?thesis by (auto intro: wake_up_inv split: thread_phase.splits)
next
  case (Execute_ev t gone e)
  with assms obtain i where "runs p t i" by (auto simp: runs_def split: thread_phase.splits)
  with Execute_ev assms(1) show ?thesis by (simp add: execute_inv)
next
  case Notify_all_ev
  with assms show ?thesis by (simp add: notify_all_inv)
qed (use assms queue_cong [of p] in \<open>auto simp: gp_inv_def destructor_call_def destructor_stop_def prior_inv_def
       progress_inv_def wake_inv_def runs_def\<close>)

lemma length_threads [simp]: "length (gp_threads (gp_exec ev p)) = length (gp_threads p)"
  by (cases ev) (simp_all add: enqueue_push_def enqueue_notify_def barrier_snapshot_def barrier_push_def
      runLoop_look_def runLoop_wake_def runLoop_execute_def AsyncWork_execute_def destructor_call_def
      destructor_stop_def destructor_notify_all_def Let_def split: list.splits thread_phase.splits)

lemma reach_inv: "gp_reach n p \<Longrightarrow> 0 < n \<Longrightarrow> gp_inv p \<and> length (gp_threads p) = n"
proof (induction rule: gp_reach.induct)
  case gp_start
  then show ?case
    by (auto simp: gp_inv_def gloo_pool_new_def queue_inv_def progress_inv_def prior_inv_def wake_inv_def taken_def runs_def)
next
  case (gp_step p ev)
  then show ?case using step_inv [of p ev] by auto
qed

section \<open>Progress\<close>

lemma wait_prior_all_done:
  assumes "\<forall>j \<in> set is. Work_isCompleted (aw_work (ws ! j))" and "wait_prior ws gone is = Inl Blocked"
  shows "\<exists>j \<in> set is. wk_exception (aw_work (ws ! j)) = Some Blocked"
  using assms
  by (induction "is") (auto simp: bindE_def poll_outcome_def Work_isSuccess_def Work_exception_def split: if_splits sum.splits)

text \<open>No exception stands for a blocked call.\<close>

definition no_blocked_exn :: "gloo_pool \<Rightarrow> bool" where
  "no_blocked_exn p \<longleftrightarrow> (\<forall>i < length (gp_works p). wk_exception (aw_work (gp_works p ! i)) \<noteq> Some Blocked)"

lemma finish_exception [simp]: "wk_exception (finish e w) = e"
  by (simp add: finish_def work_notify_all_def)

lemma step_no_blocked:
  assumes "no_blocked_exn p" and "gp_enabled ev p"
  shows "no_blocked_exn (gp_exec ev p)"
proof (cases ev)
  case (Execute_ev t gone e)
  then obtain i where i: "gp_threads p ! t = Running i" and ok: "AsyncWork_run (gp_works p) gone (gp_works p ! i) e \<noteq> Inl Blocked"
    using assms(2) by (auto split: thread_phase.splits)
  have "gp_works (gp_exec ev p) = gp_works (AsyncWork_execute gone e i p)" using Execute_ev i by (simp add: runLoop_execute_def)
  then show ?thesis
    using assms(1) ok
    by (cases "i < length (gp_works p)")
       (auto simp: no_blocked_exn_def execute_works nth_list_update list_update_beyond split: sum.splits if_splits)
qed (use assms(1) in \<open>auto simp: no_blocked_exn_def enqueue_push_def enqueue_notify_def barrier_snapshot_def barrier_push_def
       runLoop_look_def runLoop_wake_def destructor_call_def destructor_stop_def destructor_notify_all_def AsyncWork_new_def
       Work_def nth_append less_Suc_eq split: list.splits\<close>)

lemma reach_no_blocked: "gp_reach n p \<Longrightarrow> no_blocked_exn p"
proof (induction rule: gp_reach.induct)
  case gp_start
  then show ?case by (simp add: no_blocked_exn_def gloo_pool_new_def)
next
  case (gp_step p ev)
  then show ?case by (blast intro: step_no_blocked)
qed

text \<open>Steps of worker threads and pending notifications: what the pool can do without its callers.\<close>

fun pool_step :: "gloo_event \<Rightarrow> bool" where
  "pool_step (Notify_ev t) = True"
| "pool_step (Look_ev t) = True"
| "pool_step (Wake_ev t) = True"
| "pool_step (Execute_ev t gone e) = True"
| "pool_step _ = False"

lemma oldest_runs:
  assumes "gp_inv p" and "no_blocked_exn p" and "runs p t i" and "\<And>j. j < i \<Longrightarrow> work_done p j"
  shows "gp_enabled (Execute_ev t [] None) p"
proof -
  have i: "i < length (gp_works p)" using queue_invD(5) [of p t i] assms(1,3) taken_le [of p] by (simp add: gp_inv_def)
  then have prior: "\<forall>j \<in> set (aw_prior (gp_works p ! i)). j < i" using assms(1) by (simp add: gp_inv_def prior_inv_def)
  have "wait_prior (gp_works p) [] (aw_prior (gp_works p ! i)) \<noteq> Inl Blocked"
  proof
    assume "wait_prior (gp_works p) [] (aw_prior (gp_works p ! i)) = Inl Blocked"
    then obtain j where "j \<in> set (aw_prior (gp_works p ! i))" "wk_exception (aw_work (gp_works p ! j)) = Some Blocked"
      using wait_prior_all_done prior assms(4) by blast
    with prior i assms(2) show False unfolding no_blocked_exn_def by (meson less_trans)
  qed
  then show ?thesis using assms(3)
    by (auto simp: runs_def AsyncWork_run_def bindE_def split: sum.splits)
qed

lemma pool_not_stuck:
  assumes "gp_inv p" and "no_blocked_exn p" and "i < length (gp_works p)" and "\<not> work_done p i"
  shows "\<exists>ev. pool_step ev \<and> gp_enabled ev p"
proof -
  define m where "m = (LEAST j. j < length (gp_works p) \<and> \<not> work_done p j)"
  have m: "m < length (gp_works p)" "\<not> work_done p m"
    unfolding m_def using LeastI [of "\<lambda>j. j < length (gp_works p) \<and> \<not> work_done p j" i] assms(3,4) by auto
  have older: "work_done p j" if "j < m" for j
    using that m(1) not_less_Least [of j "\<lambda>j. j < length (gp_works p) \<and> \<not> work_done p j"] by (auto simp: m_def)
  have q: "queue_inv p" and w: "wake_inv p" using assms(1) by (simp_all add: gp_inv_def)
  show ?thesis
  proof (cases "m < taken p")
    case True
    then obtain t where "runs p t m" using queue_invD(4) [OF q True] m(2) by blast
    then have "gp_enabled (Execute_ev t [] None) p" using oldest_runs [OF assms(1,2)] older by blast
    then show ?thesis using pool_step.simps(4) by blast
  next
    case False
    then have "m \<in> set (gp_queue p)" using queue_invD(2) [OF q] m(1) by (metis atLeastLessThan_iff linorder_not_less set_upt)
    then have "gp_queue p \<noteq> []" by auto
    then consider "0 < gp_notifies p" | t where "t < length (gp_threads p)" "awake (gp_threads p ! t)"
      using w unfolding wake_inv_def by auto
    then show ?thesis
    proof cases
      case 1
      then obtain t where "sleeper p t \<or> list_all (\<lambda>u. \<not> sleeper p u) [0..<length (gp_threads p)]"
        by (auto simp: list_all_iff)
      then have "gp_enabled (Notify_ev t) p" using 1 by simp
      then show ?thesis using pool_step.simps(1) by blast
    next
      case (2 t)
      have "\<not> runs p t j" for j
        using queue_invD(5,6) [OF q, of t j] older [of j] False by (metis less_le_trans not_le)
      then have "gp_threads p ! t = Looking \<or> gp_threads p ! t = Sleeping True"
        using 2 by (cases "gp_threads p ! t") (auto simp: runs_def)
      then have "gp_enabled (Look_ev t) p \<or> gp_enabled (Wake_ev t) p" using 2(1) by auto
      then show ?thesis using pool_step.simps(2,3) by blast
    qed
  qed
qed

section \<open>Completed work stays completed\<close>

text \<open>A barrier that has completed found everything it had to wait for completed.\<close>

lemma wait_prior_ok:
  "wait_prior ws gone is = Inr () \<Longrightarrow> j \<in> set is \<Longrightarrow>
   j \<in> set gone \<or> Work_isCompleted (aw_work (ws ! j)) \<and> wk_exception (aw_work (ws ! j)) = None"
  by (induction "is")
     (auto simp: bindE_def poll_outcome_def Work_isSuccess_def Work_exception_def split: if_splits sum.splits)

definition barrier_inv_done :: "gloo_pool \<Rightarrow> bool" where
  "barrier_inv_done p \<longleftrightarrow>
     (\<forall>i < length (gp_works p). work_done p i \<longrightarrow> wk_exception (aw_work (gp_works p ! i)) = None \<longrightarrow>
        (\<forall>j \<in> set (aw_prior (gp_works p ! i)). j < length (gp_works p) \<and> work_done p j))"

lemma execute_barrier_done:
  assumes "barrier_inv_done p" and "gp_inv p" and "runs p t i"
    and "list_all (\<lambda>j. j < length (gp_works p) \<and> work_done p j) gone"
  shows "barrier_inv_done (runLoop_execute t gone e p)"
proof -
  let ?p = "runLoop_execute t gone e p"
  have i: "i < length (gp_works p)" using queue_invD(5) [of p t i] assms(2,3) taken_le [of p] by (simp add: gp_inv_def)
  have prior: "\<forall>j \<in> set (aw_prior (gp_works p ! i)). j < i" using assms(2) i by (simp add: gp_inv_def prior_inv_def)
  have ws: "gp_works ?p = gp_works (AsyncWork_execute gone e i p)"
    using assms(3) by (simp add: runLoop_execute_def runs_def)
  have mono: "work_done ?p j" if "work_done p j" for j
    using that i by (cases "j = i") (simp_all add: ws execute_works)
  have new: "\<forall>j \<in> set (aw_prior (gp_works p ! i)). work_done p j"
    if "wk_exception (aw_work (gp_works ?p ! i)) = None"
  proof -
    have "AsyncWork_run (gp_works p) gone (gp_works p ! i) e = Inr ()"
      using that i by (simp add: ws execute_works split: sum.splits)
    then have "wait_prior (gp_works p) gone (aw_prior (gp_works p ! i)) = Inr ()"
      by (auto simp: AsyncWork_run_def bindE_def split: sum.splits)
    with assms(4) show ?thesis using wait_prior_ok by (fastforce simp: list_all_iff)
  qed
  show ?thesis
    unfolding barrier_inv_done_def
  proof (intro allI impI ballI)
    fix k j
    assume k: "k < length (gp_works ?p)" "work_done ?p k" "wk_exception (aw_work (gp_works ?p ! k)) = None"
      and j: "j \<in> set (aw_prior (gp_works ?p ! k))"
    have len: "length (gp_works ?p) = length (gp_works p)" by (simp add: ws execute_works)
    show "j < length (gp_works ?p) \<and> work_done ?p j"
    proof (cases "k = i")
      case True
      then have "j \<in> set (aw_prior (gp_works p ! i))" using j i by (simp add: ws execute_works)
      moreover have "wk_exception (aw_work (gp_works ?p ! i)) = None" using k(3) True by simp
      ultimately have "work_done p j" "j < i" using new prior by simp_all
      with mono i show ?thesis by (simp add: len)
    next
      case False
      then have "gp_works ?p ! k = gp_works p ! k" by (simp add: ws execute_works)
      then have "j < length (gp_works p) \<and> work_done p j"
        using assms(1) k j unfolding barrier_inv_done_def len by metis
      with mono show ?thesis by (simp add: len)
    qed
  qed
qed

lemma push_barrier_done:
  assumes "barrier_inv_done p" and "\<not> Work_isCompleted (aw_work w)"
  shows "barrier_inv_done (enqueue_push w p)"
  unfolding barrier_inv_done_def
proof (intro allI impI ballI)
  let ?p = "enqueue_push w p"
  fix i j
  assume i: "i < length (gp_works ?p)" "work_done ?p i" "wk_exception (aw_work (gp_works ?p ! i)) = None"
    and j: "j \<in> set (aw_prior (gp_works ?p ! i))"
  have at: "gp_works ?p ! k = (if k < length (gp_works p) then gp_works p ! k else w)" if "k < length (gp_works ?p)" for k
    using that by (auto simp: enqueue_push_def nth_append less_Suc_eq)
  have "i < length (gp_works p)" using i(1,2) assms(2) at [OF i(1)] by (simp split: if_splits)
  then have "j < length (gp_works p) \<and> work_done p j"
    using assms(1) i j at [OF i(1)] unfolding barrier_inv_done_def by metis
  then show "j < length (gp_works ?p) \<and> work_done ?p j" by (simp add: enqueue_push_def nth_append)
qed

lemma barrier_done_cong: "gp_works p' = gp_works p \<Longrightarrow> barrier_inv_done p' = barrier_inv_done p"
  by (simp add: barrier_inv_done_def)

lemma step_barrier_done:
  assumes "barrier_inv_done p" and "gp_inv p" and "gp_enabled ev p"
  shows "barrier_inv_done (gp_exec ev p)"
proof (cases ev)
  case Enqueue_ev
  with assms show ?thesis by (simp add: push_barrier_done)
next
  case (Barrier_ev c)
  let ?w = "AsyncWork_new (umap_at [] (gp_snapshots p) c)"
  have "gp_works (barrier_push c p) = gp_works (enqueue_push ?w p)" by (simp add: barrier_push_def)
  with Barrier_ev assms show ?thesis using barrier_done_cong push_barrier_done [of p ?w] by (metis gp_exec.simps(4) new_not_done)
next
  case (Execute_ev t gone e)
  with assms(3) obtain i where "runs p t i" "list_all (\<lambda>j. j < length (gp_works p) \<and> work_done p j) gone"
    by (auto simp: runs_def split: thread_phase.splits)
  with Execute_ev assms show ?thesis by (simp add: execute_barrier_done)
qed (use assms(1) barrier_done_cong [of "gp_exec ev p" p] in \<open>simp_all add: enqueue_notify_def barrier_snapshot_def
       runLoop_look_def runLoop_wake_def destructor_call_def destructor_stop_def destructor_notify_all_def
       split: list.splits if_splits\<close>)

lemma reach_barrier_done: "gp_reach n p \<Longrightarrow> 0 < n \<Longrightarrow> barrier_inv_done p"
proof (induction rule: gp_reach.induct)
  case gp_start
  then show ?case by (simp add: barrier_inv_done_def gloo_pool_new_def)
next
  case (gp_step p ev)
  then show ?case using step_barrier_done reach_inv by blast
qed

section \<open>Properties\<close>

text \<open>A schedule as a list of steps, which must be enabled when their turn comes.\<close>

fun gp_schedule :: "gloo_event list \<Rightarrow> gloo_pool \<Rightarrow> gloo_pool option" where
  "gp_schedule [] p = Some p"
| "gp_schedule (ev # evs) p = (if gp_enabled ev p then gp_schedule evs (gp_exec ev p) else None)"

lemma schedule_reach: "gp_reach n p \<Longrightarrow> gp_schedule evs p = Some q \<Longrightarrow> gp_reach n q"
  by (induction evs arbitrary: p) (auto intro: gp_step split: if_splits)

lemmas demo_pool = gloo_pool_new_def enqueue_push_def enqueue_notify_def runLoop_look_def runLoop_execute_def
  AsyncWork_execute_def AsyncWork_run_def AsyncWork_new_def Work_def Work_isCompleted_def sleeper_def
  barrier_snapshot_def barrier_push_def List.map_filter_def finish_def work_notify_all_def umap_at_def
  work_end_record_def poll_outcome_def Work_isSuccess_def destructor_call_def destructor_stop_def threads_joined_def

text \<open>
  Work is started in order and runs once: in every reachable state the queue holds the youngest
  works in the order in which they were enqueued, every older work is completed or runs on exactly
  one thread, and no work in the queue has been completed.
\<close>

theorem gloo_queue_fifo:
  assumes "gp_reach n p" and "0 < n"
  shows "\<exists>m \<le> length (gp_works p). gp_queue p = [m..<length (gp_works p)] \<and>
    (\<forall>i < m. work_done p i \<noteq> (\<exists>!t. runs p t i)) \<and> (\<forall>i \<in> set (gp_queue p). \<not> work_done p i)"
proof -
  have q: "queue_inv p" using reach_inv [OF assms] by (simp add: gp_inv_def)
  note D = queue_invD [OF q]
  have "work_done p i \<noteq> (\<exists>!t. runs p t i)" if "i < taken p" for i
    using D(4) [OF that] D(6,7) by metis
  moreover have "\<not> work_done p i" if "i \<in> set (gp_queue p)" for i
    using D(2,3) that by (metis atLeastLessThan_iff linorder_not_less set_upt)
  ultimately show ?thesis using D(2) taken_le [of p] by blast
qed

theorem gloo_queue_fifo_witness:
  "\<exists>p m. gp_schedule [Enqueue_ev, Notify_ev 0, Enqueue_ev, Look_ev 0] (gloo_pool_new 1) = Some p \<and>
     m \<le> 2 \<and> gp_queue p = [m..<2]"
proof -
  obtain p where p: "gp_schedule [Enqueue_ev, Notify_ev 0, Enqueue_ev, Look_ev 0] (gloo_pool_new 1) = Some p"
    and n: "length (gp_works p) = 2" by (simp add: demo_pool)
  from gloo_queue_fifo [OF schedule_reach [OF gp_start p]] p n show ?thesis by auto
qed



lemma snapshot_covers:
  assumes "queue_inv p" and "progress_inv p" and "k < length (gp_works p)" and "\<not> work_done p k"
  shows "k \<in> set (umap_at [] (gp_snapshots (barrier_snapshot c p)) c)"
proof -
  have "k \<in> set (gp_queue p) \<or> Some k \<in> set (gp_inProgress p)"
  proof (cases "k < taken p")
    case True
    then obtain t where "t < length (gp_threads p)" "gp_threads p ! t = Running k"
      using queue_invD(4) [OF assms(1)] assms(4) by (auto simp: runs_def)
    then have "t < length (gp_inProgress p)" "gp_inProgress p ! t = Some k" using assms(2) by (simp_all add: progress_inv_def)
    then show ?thesis by (metis nth_mem)
  next
    case False
    then show ?thesis using queue_invD(2) [OF assms(1)] assms(3) by simp
  qed
  then show ?thesis by (auto simp: barrier_snapshot_def umap_at_def update_conv List.map_filter_def image_iff)
qed

text \<open>
  C18. A barrier completes last: the snapshot a caller of \<^verbatim>\<open>barrier\<close> takes has every work that is not
  completed, and when the barrier's work has completed without an exception, every work of its
  snapshot has completed.
\<close>

theorem gloo_barrier_after_prior:
  assumes "gp_reach n p" and "0 < n"
  shows "(\<forall>k < length (gp_works p). \<not> work_done p k \<longrightarrow> k \<in> set (umap_at [] (gp_snapshots (barrier_snapshot c p)) c)) \<and>
    (\<forall>i < length (gp_works p). work_done p i \<longrightarrow> wk_exception (aw_work (gp_works p ! i)) = None \<longrightarrow>
       (\<forall>j \<in> set (aw_prior (gp_works p ! i)). j < i \<and> work_done p j))"
proof (intro conjI allI impI ballI)
  have inv: "queue_inv p" "progress_inv p" "prior_inv p" using reach_inv [OF assms] by (simp_all add: gp_inv_def)
  show "k \<in> set (umap_at [] (gp_snapshots (barrier_snapshot c p)) c)" if "k < length (gp_works p)" "\<not> work_done p k" for k
    by (rule snapshot_covers [OF inv(1,2) that])
  show "j < i" if "i < length (gp_works p)" "j \<in> set (aw_prior (gp_works p ! i))" for i j
    using inv(3) that unfolding prior_inv_def by blast
  show "work_done p j" if "i < length (gp_works p)" "work_done p i"
      "wk_exception (aw_work (gp_works p ! i)) = None" "j \<in> set (aw_prior (gp_works p ! i))" for i j
    using reach_barrier_done [OF assms] that unfolding barrier_inv_done_def by blast
qed

theorem gloo_barrier_after_prior_witness:
  "\<exists>p. gp_schedule [Enqueue_ev, Snapshot_ev 5, Barrier_ev 5, Look_ev 0, Execute_ev 0 [] None, Look_ev 0, Execute_ev 0 [] None]
        (gloo_pool_new 1) = Some p \<and> aw_prior (gp_works p ! 1) = [0] \<and> work_done p 0"
proof -
  let ?evs = "[Enqueue_ev, Snapshot_ev 5, Barrier_ev 5, Look_ev 0, Execute_ev 0 [] None, Look_ev 0, Execute_ev 0 [] None]"
  obtain p where p: "gp_schedule ?evs (gloo_pool_new 1) = Some p"
    and w: "1 < length (gp_works p)" "work_done p 1" "wk_exception (aw_work (gp_works p ! 1)) = None"
    and q: "aw_prior (gp_works p ! 1) = [0]" by (simp add: demo_pool)
  from gloo_barrier_after_prior [OF schedule_reach [OF gp_start p]] w p q show ?thesis by force
qed

text \<open>
  C20. The destructor leaves no work behind: in every reachable state in which all threads have left
  \<^verbatim>\<open>runLoop\<close>, every work that was ever enqueued is completed.
\<close>

theorem gloo_destructor_drains:
  assumes "gp_reach n p" and "0 < n" and "threads_joined p" and "i < length (gp_works p)"
  shows "work_done p i"
proof -
  have inv: "queue_inv p" "wake_inv p" "length (gp_threads p) = n" using reach_inv [OF assms(1,2)] by (simp_all add: gp_inv_def)
  have ex: "gp_threads p ! t = Exited" if "t < n" for t
    using assms(3) inv(3) that by (simp add: threads_joined_def list_all_length)
  then have "Exited \<in> set (gp_threads p)" using assms(2) inv(3) by (metis nth_mem)
  then have "gp_queue p = []" using inv(2) by (simp add: wake_inv_def)
  then have "taken p = length (gp_works p)" by (simp add: taken_def)
  with queue_invD(4) [OF inv(1), of i] assms(4) have "work_done p i \<or> (\<exists>t. runs p t i)" by simp
  then show ?thesis using ex inv(3) by (auto simp: runs_def)
qed

theorem gloo_destructor_drains_witness:
  "\<exists>p. gp_schedule [Enqueue_ev, Notify_ev 0, Look_ev 0, Execute_ev 0 [] None, Destroy_ev, Stop_ev, Look_ev 0]
        (gloo_pool_new 1) = Some p \<and> work_done p 0"
proof -
  let ?evs = "[Enqueue_ev, Notify_ev 0, Look_ev 0, Execute_ev 0 [] None, Destroy_ev, Stop_ev, Look_ev 0]"
  obtain p where p: "gp_schedule ?evs (gloo_pool_new 1) = Some p"
    and w: "threads_joined p" "0 < length (gp_works p)" by (simp add: demo_pool)
  from gloo_destructor_drains [OF schedule_reach [OF gp_start p] _ w] p show ?thesis by simp
qed

end
