(* ===== verification/Gloo_Collectives.thy ===== *)
theory Gloo_Collectives
  imports Gloo_Pool Collective_Checks
begin

text \<open>
  The member functions of \<^verbatim>\<open>c10d::ProcessGroupGloo\<close> as their callers see them
  (\<^verbatim>\<open>ProcessGroupGloo.cpp\<close>): construction, the argument checks of every collective, the tags and
  contexts handed out, the kind of work that is enqueued, point-to-point operations and the wrapper
  of the store. \<open>cuda\<close> says whether the code was compiled with \<^verbatim>\<open>USE_CUDA\<close>. The theory shows that
  a call that is refused leaves the group as it was, up to one exception, so that processes that make
  the same calls use the same tags and contexts.
\<close>

section \<open>State\<close>

text \<open>The kinds of work the group makes, with the arguments that travel with the work.\<close>

datatype gloo_kind =
    AsyncBroadcastWork int int
  | AsyncAllreduceWork ReduceOp
  | AsyncAllreduceCoalescedWork ReduceOp
  | AsyncSparseAllreduceWork
  | AsyncReduceWork int int ReduceOp
  | AsyncAllgatherWork
  | AsyncAllgatherCoalescedWork
  | AsyncGatherWork int
  | AsyncScatterWork int
  | AsyncAlltoallWork "int list" "int list"
  | AsyncBarrierWork

record gloo_op =
  go_kind :: gloo_kind
  go_context :: nat
  go_tag :: "32 word"
  go_cuda :: bool

text \<open>
  The buffers that point-to-point operations hand to a context: peers, tag and the number of the
  context.
\<close>

datatype gloo_p2p = Buffer_send nat int "32 word" | Buffer_recv nat "int list" "32 word"

record gloo_group =
  gg_rank :: int
  gg_size :: int
  gg_contexts :: nat
  gg_counter :: "32 word"
  gg_pool :: gloo_pool
  gg_ops :: "gloo_op list"
  gg_p2p :: "gloo_p2p list"

definition Options_timeout :: int where "Options_timeout = 10 * 1000"
definition Options_threads :: nat where "Options_threads = 2"

definition ProcessGroupGloo :: "int \<Rightarrow> int \<Rightarrow> nat \<Rightarrow> nat \<Rightarrow> gloo_group res" where
  "ProcessGroupGloo rank world devices threads =
     (if devices = 0 then Inl (Runtime_error ''No device(s) specified'')
      else Inr \<lparr>gg_rank = rank, gg_size = world, gg_contexts = devices, gg_counter = 0,
                gg_pool = gloo_pool_new threads, gg_ops = [], gg_p2p = []\<rparr>)"

text \<open>\<^verbatim>\<open>GlooStore\<close> passes bytes and keys on to the store of the process group.\<close>

definition GlooStore_set :: "(string \<Rightarrow> bytes \<Rightarrow> ('s, unit) cmd) \<Rightarrow> string \<Rightarrow> string \<Rightarrow> ('s, unit) cmd" where
  "GlooStore_set setf key val = setf key (bytes_of val)"

definition GlooStore_get :: "(string \<Rightarrow> ('s, bytes) cmd) \<Rightarrow> string \<Rightarrow> ('s, string) cmd" where
  "GlooStore_get getf key = bindM (getf key) (\<lambda>v. returnM (string_of v))"

definition GlooStore_wait :: "(string list \<Rightarrow> int \<Rightarrow> ('s, unit) cmd) \<Rightarrow> string list \<Rightarrow> ('s, unit) cmd" where
  "GlooStore_wait waitf keys = waitf keys kDefaultTimeout"

definition GlooStore_wait_timeout :: "(string list \<Rightarrow> int \<Rightarrow> ('s, unit) cmd) \<Rightarrow> string list \<Rightarrow> int \<Rightarrow> ('s, unit) cmd" where
  "GlooStore_wait_timeout waitf keys timeout = waitf keys timeout"

section \<open>Reduction functions\<close>

text \<open>The functions of the Gloo library, and the three the file defines.\<close>

datatype reduce_func = Gloo_sum | Gloo_product | Gloo_min | Gloo_max | Band | Bor | Bxor

fun toFunction_float :: "ReduceOp \<Rightarrow> reduce_func res" where
  "toFunction_float SUM_op = Inr Gloo_sum"
| "toFunction_float PRODUCT = Inr Gloo_product"
| "toFunction_float MIN_op = Inr Gloo_min"
| "toFunction_float MAX_op = Inr Gloo_max"
| "toFunction_float BAND = Inl (Runtime_error ''Cannot use ReduceOp.BAND with non-integral dtype'')"
| "toFunction_float BOR = Inl (Runtime_error ''Cannot use ReduceOp.BOR with non-integral dtype'')"
| "toFunction_float BXOR = Inl (Runtime_error ''Cannot use ReduceOp.BXOR with non-integral dtype'')"
| "toFunction_float UNUSED = Inl (Runtime_error ''Unhandled ReduceOp'')"

fun toFunction_integral :: "ReduceOp \<Rightarrow> reduce_func res" where
  "toFunction_integral SUM_op = Inr Gloo_sum"
| "toFunction_integral PRODUCT = Inr Gloo_product"
| "toFunction_integral MIN_op = Inr Gloo_min"
| "toFunction_integral MAX_op = Inr Gloo_max"
| "toFunction_integral BAND = Inr Band"
| "toFunction_integral BOR = Inr Bor"
| "toFunction_integral BXOR = Inr Bxor"
| "toFunction_integral UNUSED = Inl (Runtime_error ''Unhandled ReduceOp'')"

text \<open>\<^verbatim>\<open>GENERATE_ALL_TYPES\<close>: whether the element type is an integral C++ type, or not handled.\<close>

fun generate_all_types :: "ScalarType \<Rightarrow> bool res" where
  "generate_all_types kFloat = Inr False"
| "generate_all_types kDouble = Inr False"
| "generate_all_types kHalf = Inr False"
| "generate_all_types kChar = Inr True"
| "generate_all_types kByte = Inr True"
| "generate_all_types kInt = Inr True"
| "generate_all_types kLong = Inr True"
| "generate_all_types _ = Inl (Runtime_error ''Invalid scalar type'')"

definition getFunction :: "ScalarType \<Rightarrow> ReduceOp \<Rightarrow> reduce_func res" where
  "getFunction dtype op =
     bindE (generate_all_types dtype) (\<lambda>integral. if integral then toFunction_integral op else toFunction_float op)"

unbundle bit_operations_syntax

text \<open>The loops of \<^verbatim>\<open>band\<close>, \<^verbatim>\<open>bor\<close> and \<^verbatim>\<open>bxor\<close> over two buffers of \<open>n\<close> elements.\<close>

definition band :: "'w::len word list \<Rightarrow> 'w word list \<Rightarrow> nat \<Rightarrow> 'w word list" where
  "band a b n = map (\<lambda>i. a ! i AND b ! i) [0..<n]"

definition bor :: "'w::len word list \<Rightarrow> 'w word list \<Rightarrow> nat \<Rightarrow> 'w word list" where
  "bor a b n = map (\<lambda>i. a ! i OR b ! i) [0..<n]"

definition bxor :: "'w::len word list \<Rightarrow> 'w word list \<Rightarrow> nat \<Rightarrow> 'w word list" where
  "bxor a b n = map (\<lambda>i. a ! i XOR b ! i) [0..<n]"

section \<open>Tags, contexts and the queue\<close>

definition nextTag :: "(gloo_group, 32 word) cmd" where
  "nextTag g = (Inr (gg_counter g), g\<lparr>gg_counter := gg_counter g + 1\<rparr>)"

definition getContext :: "32 word \<Rightarrow> (gloo_group, nat) cmd" where
  "getContext tag g = (if gg_contexts g = 0 then (Inl Undefined, g) else (Inr (unat tag mod gg_contexts g), g))"

text \<open>The result of a collective is the number of its work.\<close>

definition enqueue_op :: "gloo_op \<Rightarrow> (gloo_group, nat) cmd" where
  "enqueue_op op g =
     (Inr (length (gg_ops g)), g\<lparr>gg_pool := enqueue_push (AsyncWork_new []) (gg_pool g), gg_ops := gg_ops g @ [op]\<rparr>)"

text \<open>The common end of the collectives: tag, context, work object by device type, queue.\<close>

definition submit :: "bool \<Rightarrow> device_type \<Rightarrow> gloo_kind \<Rightarrow> exn \<Rightarrow> (gloo_group, nat) cmd" where
  "submit cuda dev kind other =
     bindM nextTag (\<lambda>tag.
     bindM (getContext tag) (\<lambda>context.
     if dev = CPU then enqueue_op \<lparr>go_kind = kind, go_context = context, go_tag = tag, go_cuda = False\<rparr>
     else if cuda \<and> dev = CUDA then enqueue_op \<lparr>go_kind = kind, go_context = context, go_tag = tag, go_cuda = True\<rparr>
     else throwM other))"

abbreviation invalidBackend :: exn where
  "invalidBackend \<equiv> Runtime_error ''Invalid backend''"

definition invalidArgument :: "string \<Rightarrow> report" where
  "invalidArgument name msg = Inl (Invalid_argument (''ProcessGroupGloo::'' @ name @ '': '' @ msg))"

definition checkDeviceType :: "bool \<Rightarrow> report \<Rightarrow> device_type \<Rightarrow> unit res" where
  "checkDeviceType cuda fn dev =
     report_if fn (\<not> (dev = CPU \<or> cuda \<and> dev = CUDA)) ''unsupported device type ''"

section \<open>Collectives\<close>

definition broadcast_checks :: "bool \<Rightarrow> int \<Rightarrow> int \<Rightarrow> int \<Rightarrow> tensor list \<Rightarrow> unit res" where
  "broadcast_checks cuda world rootRank rootTensor inputs =
     (let fn = invalidArgument ''broadcast''
      in bindE (assertRootRank fn rootRank world) (\<lambda>_.
         bindE (assertRootTensor fn rootTensor (int (length inputs))) (\<lambda>_.
         bindE (assertDense fn inputs) (\<lambda>_.
         bindE (assertTypeAndSizesMatch fn inputs) (\<lambda>_.
         checkDeviceType cuda fn (t_device_type (inputs ! 0)))))))"

definition Gloo_broadcast :: "bool \<Rightarrow> int \<Rightarrow> int \<Rightarrow> tensor list \<Rightarrow> (gloo_group, nat) cmd" where
  "Gloo_broadcast cuda rootRank rootTensor inputs =
     bindM (getM gg_size) (\<lambda>world.
     bindM (liftM (broadcast_checks cuda world rootRank rootTensor inputs)) (\<lambda>_.
     submit cuda (t_device_type (inputs ! 0)) (AsyncBroadcastWork rootRank rootTensor) invalidBackend))"

definition allreduce_checks :: "bool \<Rightarrow> ReduceOp \<Rightarrow> tensor list \<Rightarrow> unit res" where
  "allreduce_checks cuda reduceOp inputs =
     (let fn = invalidArgument ''allreduce''
      in bindE (assertNonEmpty fn inputs) (\<lambda>_.
         bindE (assertLayoutMatch fn inputs) (\<lambda>_.
         bindE (assertTypeAndSizesMatch fn inputs) (\<lambda>_.
         bindE (checkDeviceType cuda fn (t_device_type (inputs ! 0))) (\<lambda>_.
         report_if fn (t_layout (inputs ! 0) = Sparse \<and> reduceOp \<noteq> SUM_op) ''unsupported reduction operation '')))))"

definition Gloo_allreduce :: "bool \<Rightarrow> ReduceOp \<Rightarrow> tensor list \<Rightarrow> (gloo_group, nat) cmd" where
  "Gloo_allreduce cuda reduceOp inputs =
     bindM (liftM (allreduce_checks cuda reduceOp inputs)) (\<lambda>_.
     submit cuda (t_device_type (inputs ! 0))
       (case t_layout (inputs ! 0) of Strided \<Rightarrow> AsyncAllreduceWork reduceOp | Sparse \<Rightarrow> AsyncSparseAllreduceWork)
       invalidBackend)"

definition allreduce_coalesced_checks :: "tensor list \<Rightarrow> unit res" where
  "allreduce_coalesced_checks tensors =
     (let fn = invalidArgument ''allreduce_coalesced''
      in bindE (assertNonEmpty fn tensors) (\<lambda>_.
         bindE (assertLayoutMatch fn tensors) (\<lambda>_.
         bindE (report_if fn (\<not> list_all (\<lambda>t. t_type t = t_type (tensors ! 0)) tensors)
           ''tensors must all have the same type'') (\<lambda>_.
         bindE (report_if fn (\<not> list_all (\<lambda>t. device t = device (tensors ! 0)) tensors)
           ''tensors must all be on the same device'') (\<lambda>_.
         bindE (report_if fn (t_device_type (tensors ! 0) \<noteq> CPU) ''unsupported device type '') (\<lambda>_.
         report_if fn (t_layout (tensors ! 0) \<noteq> Strided) ''unsupported layout''))))))"

definition Gloo_allreduce_coalesced :: "ReduceOp \<Rightarrow> tensor list \<Rightarrow> (gloo_group, nat) cmd" where
  "Gloo_allreduce_coalesced reduceOp tensors =
     bindM (liftM (allreduce_coalesced_checks tensors)) (\<lambda>_.
     submit False (t_device_type (tensors ! 0)) (AsyncAllreduceCoalescedWork reduceOp) invalidBackend)"

definition reduce_checks :: "bool \<Rightarrow> int \<Rightarrow> int \<Rightarrow> int \<Rightarrow> tensor list \<Rightarrow> unit res" where
  "reduce_checks cuda world rootRank rootTensor inputs =
     (let fn = invalidArgument ''reduce''
      in bindE (assertRootRank fn rootRank world) (\<lambda>_.
         bindE (assertRootTensor fn rootTensor (int (length inputs))) (\<lambda>_.
         bindE (assertSingleElement fn inputs) (\<lambda>_.
         bindE (assertDense fn inputs) (\<lambda>_.
         checkDeviceType cuda fn (t_device_type (inputs ! 0)))))))"

definition Gloo_reduce :: "bool \<Rightarrow> int \<Rightarrow> int \<Rightarrow> ReduceOp \<Rightarrow> tensor list \<Rightarrow> (gloo_group, nat) cmd" where
  "Gloo_reduce cuda rootRank rootTensor reduceOp inputs =
     bindM (getM gg_size) (\<lambda>world.
     bindM (liftM (reduce_checks cuda world rootRank rootTensor inputs)) (\<lambda>_.
     submit cuda (t_device_type (inputs ! 0)) (AsyncReduceWork rootRank rootTensor reduceOp) invalidBackend))"

text \<open>The loop over the output lists of \<^verbatim>\<open>allgather\<close>.\<close>

fun output_lengths :: "report \<Rightarrow> int \<Rightarrow> nat \<Rightarrow> tensor list list \<Rightarrow> unit res" where
  "output_lengths fn expected i [] = Inr ()"
| "output_lengths fn expected i (ts # tss) =
     bindE (report_if fn (int (length ts) \<noteq> expected)
       (''invalid output tensor list at index '' @ to_string (int i) @ '' (expected length '' @ to_string expected @
        '', got '' @ to_string (int (length ts)) @ '')''))
     (\<lambda>_. output_lengths fn expected (Suc i) tss)"

fun all_lists_match :: "report \<Rightarrow> nat \<Rightarrow> int list \<Rightarrow> tensor list list \<Rightarrow> unit res" where
  "all_lists_match fn ty sizes [] = Inr ()"
| "all_lists_match fn ty sizes (ts # tss) =
     bindE (type_and_sizes_match fn ts ty sizes) (\<lambda>_. all_lists_match fn ty sizes tss)"

definition allgather_checks :: "bool \<Rightarrow> int \<Rightarrow> tensor list list \<Rightarrow> tensor list \<Rightarrow> unit res" where
  "allgather_checks cuda world outputs inputs =
     (let fn = invalidArgument ''allgather''
      in bindE (report_if fn (length inputs = 0) ''requires non-empty input tensor list'') (\<lambda>_.
         bindE (report_if fn (length inputs \<noteq> length outputs) ''requires input/output tensor lists to have the same length'') (\<lambda>_.
         bindE (output_lengths fn (int (length inputs) * world) 0 outputs) (\<lambda>_.
         bindE (assertDense fn inputs) (\<lambda>_.
         bindE (type_and_sizes_match fn inputs (t_type (inputs ! 0)) (t_sizes (inputs ! 0))) (\<lambda>_.
         bindE (all_lists_match fn (t_type (inputs ! 0)) (t_sizes (inputs ! 0)) outputs) (\<lambda>_.
         checkDeviceType cuda fn (t_device_type (inputs ! 0)))))))))"

definition Gloo_allgather :: "bool \<Rightarrow> tensor list list \<Rightarrow> tensor list \<Rightarrow> (gloo_group, nat) cmd" where
  "Gloo_allgather cuda outputs inputs =
     bindM (getM gg_size) (\<lambda>world.
     bindM (liftM (allgather_checks cuda world outputs inputs)) (\<lambda>_.
     submit cuda (t_device_type (inputs ! 0)) AsyncAllgatherWork invalidBackend))"

text \<open>The inner loop of \<^verbatim>\<open>allgather_coalesced\<close> over one output list.\<close>

fun match_inputs :: "report \<Rightarrow> nat \<Rightarrow> tensor list \<Rightarrow> tensor list \<Rightarrow> unit res" where
  "match_inputs fn i (inp # ins) (out # outs) =
     bindE (report_if fn (t_sizes out \<noteq> t_sizes inp)
       (''invalid size of output tensor at index '' @ to_string (int i) @ '' (expected length '' @ toString (t_sizes inp) @
        '', got '' @ toString (t_sizes out) @ '')'')) (\<lambda>_.
     bindE (report_if fn (t_type inp \<noteq> t_type out) (''invalid tensor type at index '' @ to_string (int i))) (\<lambda>_.
     match_inputs fn (Suc i) ins outs))"
| "match_inputs fn i _ _ = Inr ()"

fun output_lists_match :: "report \<Rightarrow> tensor list \<Rightarrow> tensor list list \<Rightarrow> unit res" where
  "output_lists_match fn input_list [] = Inr ()"
| "output_lists_match fn input_list (outs # rest) =
     bindE (report_if fn (length outs \<noteq> length input_list)
       (''invalid output size: (expected length '' @ to_string (int (length input_list)) @ '', got '' @
        to_string (int (length outs)) @ '')'')) (\<lambda>_.
     bindE (match_inputs fn 0 input_list outs) (\<lambda>_. output_lists_match fn input_list rest))"

definition allgather_coalesced_checks :: "int \<Rightarrow> tensor list list \<Rightarrow> tensor list \<Rightarrow> unit res" where
  "allgather_coalesced_checks world output_lists input_list =
     (let fn = invalidArgument ''allgather_coalesced''
      in bindE (report_if fn (input_list = []) ''requires non-empty input tensor list'') (\<lambda>_.
         bindE (report_if fn (int (length output_lists) \<noteq> world) ''output lists should be equal to world size'') (\<lambda>_.
         bindE (assertSameDevice fn input_list) (\<lambda>_.
         bindE (output_lists_match fn input_list output_lists) (\<lambda>_.
         assertDense fn input_list)))))"

definition Gloo_allgather_coalesced :: "tensor list list \<Rightarrow> tensor list \<Rightarrow> (gloo_group, nat) cmd" where
  "Gloo_allgather_coalesced output_lists input_list =
     bindM (getM gg_size) (\<lambda>world.
     bindM (liftM (allgather_coalesced_checks world output_lists input_list)) (\<lambda>_.
     bindM nextTag (\<lambda>tag.
     bindM (getContext tag) (\<lambda>context.
     enqueue_op \<lparr>go_kind = AsyncAllgatherCoalescedWork, go_context = context, go_tag = tag, go_cuda = False\<rparr>))))"

definition Gloo_allgather_base :: "(gloo_group, nat) cmd" where
  "Gloo_allgather_base = throwM (Runtime_error ''no support for allgather_base in Gloo process group'')"

text \<open>The checks on the lists that only the root passes, shared by \<^verbatim>\<open>gather\<close> and \<^verbatim>\<open>scatter\<close>.\<close>

definition root_list_checks :: "report \<Rightarrow> string \<Rightarrow> int \<Rightarrow> bool \<Rightarrow> tensor list list \<Rightarrow> tensor \<Rightarrow> unit res" where
  "root_list_checks fn what world isroot tls t =
     (if isroot then
        bindE (report_if fn (length tls \<noteq> 1)
          (''requires a single-element '' @ what @ '' list containing a list with '' @ to_string world)) (\<lambda>_.
        bindE (report_if fn (int (length (tls ! 0)) \<noteq> world)
          (''Incorrect '' @ what @ '' list size '' @ to_string (int (length (tls ! 0))))) (\<lambda>_.
        type_and_sizes_match fn (tls ! 0) (t_type t) (t_sizes t)))
      else report_if fn (tls \<noteq> []) (''requires empty '' @ what @ '' on non-root''))"

definition gather_checks :: "bool \<Rightarrow> int \<Rightarrow> int \<Rightarrow> int \<Rightarrow> tensor list list \<Rightarrow> tensor list \<Rightarrow> unit res" where
  "gather_checks cuda rank world rootRank outputs inputs =
     (let fn = invalidArgument ''gather''
      in bindE (assertRootRank fn rootRank world) (\<lambda>_.
         bindE (assertSingleElementInput fn inputs) (\<lambda>_.
         bindE (assertDense fn inputs) (\<lambda>_.
         bindE (root_list_checks fn ''output'' world (rank = rootRank) outputs (inputs ! 0)) (\<lambda>_.
         checkDeviceType cuda fn (t_device_type (inputs ! 0)))))))"

definition Gloo_gather :: "bool \<Rightarrow> int \<Rightarrow> tensor list list \<Rightarrow> tensor list \<Rightarrow> (gloo_group, nat) cmd" where
  "Gloo_gather cuda rootRank outputs inputs =
     bindM (getM (\<lambda>g. (gg_rank g, gg_size g))) (\<lambda>(rank, world).
     bindM (liftM (gather_checks cuda rank world rootRank outputs inputs)) (\<lambda>_.
     submit cuda (t_device_type (inputs ! 0)) (AsyncGatherWork rootRank) invalidBackend))"

definition scatter_checks :: "bool \<Rightarrow> int \<Rightarrow> int \<Rightarrow> int \<Rightarrow> tensor list \<Rightarrow> tensor list list \<Rightarrow> unit res" where
  "scatter_checks cuda rank world rootRank outputs inputs =
     (let fn = invalidArgument ''scatter''
      in bindE (assertRootRank fn rootRank world) (\<lambda>_.
         bindE (assertSingleElementOutput fn outputs) (\<lambda>_.
         bindE (assertDense fn outputs) (\<lambda>_.
         bindE (root_list_checks fn ''input'' world (rank = rootRank) inputs (outputs ! 0)) (\<lambda>_.
         checkDeviceType cuda fn (t_device_type (outputs ! 0)))))))"

definition Gloo_scatter :: "bool \<Rightarrow> int \<Rightarrow> tensor list \<Rightarrow> tensor list list \<Rightarrow> (gloo_group, nat) cmd" where
  "Gloo_scatter cuda rootRank outputs inputs =
     bindM (getM (\<lambda>g. (gg_rank g, gg_size g))) (\<lambda>(rank, world).
     bindM (liftM (scatter_checks cuda rank world rootRank outputs inputs)) (\<lambda>_.
     submit cuda (t_device_type (outputs ! 0)) (AsyncScatterWork rootRank) invalidBackend))"

definition Gloo_reduce_scatter :: "(gloo_group, nat) cmd" where
  "Gloo_reduce_scatter = throwM (Runtime_error ''ProcessGroupGloo does not support reduce_scatter'')"

definition alltoall_checks :: "tensor \<Rightarrow> tensor \<Rightarrow> unit res" where
  "alltoall_checks outputTensor inputTensor =
     (let fn = invalidArgument ''alltoall_base''
      in bindE (if device outputTensor = device inputTensor then Inr ()
                else Inl (C10_error ''output tensor and input tensor must be on the same type of device'')) (\<lambda>_.
         bindE (assertDense fn [outputTensor]) (\<lambda>_. assertDense fn [inputTensor])))"

definition Gloo_alltoall_base :: "bool \<Rightarrow> tensor \<Rightarrow> tensor \<Rightarrow> int list \<Rightarrow> int list \<Rightarrow> (gloo_group, nat) cmd" where
  "Gloo_alltoall_base cuda outputTensor inputTensor outputCounts inputCounts =
     bindM (liftM (alltoall_checks outputTensor inputTensor)) (\<lambda>_.
     submit cuda (t_device_type outputTensor) (AsyncAlltoallWork outputCounts inputCounts)
       (Invalid_argument ''ProcessGroupGloo::alltoall_base: unsupported device type ''))"

definition Gloo_barrier :: "(gloo_group, nat) cmd" where
  "Gloo_barrier =
     bindM (modifyM (\<lambda>g. g\<lparr>gg_pool := barrier_snapshot 0 (gg_pool g)\<rparr>)) (\<lambda>_.
     bindM nextTag (\<lambda>tag.
     bindM (getContext tag) (\<lambda>context g.
       (Inr (length (gg_ops g)),
        g\<lparr>gg_pool := barrier_push 0 (gg_pool g),
          gg_ops := gg_ops g @ [\<lparr>go_kind = AsyncBarrierWork, go_context = context, go_tag = tag, go_cuda = False\<rparr>]\<rparr>))))"

section \<open>Point-to-point operations\<close>

text \<open>A tensor with what these operations look at besides: whether it is contiguous.\<close>

definition checkSingleTensor :: "(tensor \<times> bool) list \<Rightarrow> tensor res" where
  "checkSingleTensor tensors =
     (if length tensors \<noteq> 1 then Inl (Runtime_error ''ProcessGroupGloo::send takes a single tensor'')
      else let (t, contiguous) = tensors ! 0
           in if \<not> contiguous then Inl (Runtime_error ''input tensor has to be contiguous'')
              else if t_layout t = Sparse then Inl (Runtime_error ''input tensor has to be dense'')
              else Inr t)"

definition checkTag :: "int \<Rightarrow> (32 word) res" where
  "checkTag tag = (if 0 \<le> tag then Inr (word_of_int tag) else Inl (C10_error ''Tag must be nonnegative''))"

definition p2p :: "(tensor \<times> bool) list \<Rightarrow> int \<Rightarrow> (gloo_group \<Rightarrow> nat \<Rightarrow> 32 word \<Rightarrow> gloo_p2p) \<Rightarrow> (gloo_group, unit) cmd" where
  "p2p tensors tag mk =
     bindM (liftM (checkSingleTensor tensors)) (\<lambda>_.
     bindM (liftM (checkTag tag)) (\<lambda>utag.
     bindM (getContext (word_of_int tag)) (\<lambda>context.
     modifyM (\<lambda>g. g\<lparr>gg_p2p := gg_p2p g @ [mk g context utag]\<rparr>))))"

definition Gloo_send :: "(tensor \<times> bool) list \<Rightarrow> int \<Rightarrow> int \<Rightarrow> (gloo_group, unit) cmd" where
  "Gloo_send tensors dstRank tag = p2p tensors tag (\<lambda>g context utag. Buffer_send context dstRank utag)"

definition Gloo_recv :: "(tensor \<times> bool) list \<Rightarrow> int \<Rightarrow> int \<Rightarrow> (gloo_group, unit) cmd" where
  "Gloo_recv tensors srcRank tag = p2p tensors tag (\<lambda>g context utag. Buffer_recv context [srcRank] utag)"

text \<open>\<^verbatim>\<open>resize\<close> makes \<open>size\<close> zeros, \<^verbatim>\<open>push_back\<close> appends the ranks.\<close>

definition anysource_ranks :: "nat \<Rightarrow> int list" where
  "anysource_ranks n = replicate n 0 @ map int [0..<n]"

definition Gloo_recvAnysource :: "(tensor \<times> bool) list \<Rightarrow> int \<Rightarrow> (gloo_group, unit) cmd" where
  "Gloo_recvAnysource tensors tag =
     p2p tensors tag (\<lambda>g context utag. Buffer_recv context (anysource_ranks (nat (gg_size g))) utag)"

text \<open>
  \<^verbatim>\<open>SendWork\<close> and \<^verbatim>\<open>RecvWork\<close>: \<open>waited\<close> is what waiting on the buffer gave, for a receive with the
  rank it came from.
\<close>

definition SendWork_wait :: "bool res \<Rightarrow> (work, bool) cmd" where
  "SendWork_wait waited =
     bindM (finishAndThrow (case waited of Inl e \<Rightarrow> Some e | Inr _ \<Rightarrow> None)) (\<lambda>_.
     returnM (case waited of Inl e \<Rightarrow> False | Inr sendCompleted \<Rightarrow> sendCompleted))"

definition RecvWork_wait :: "(bool \<times> int) res \<Rightarrow> (work \<times> int, bool) cmd" where
  "RecvWork_wait waited s =
     (let src = (case waited of Inl e \<Rightarrow> snd s | Inr (done, r) \<Rightarrow> r)
      in case finishAndThrow (case waited of Inl e \<Rightarrow> Some e | Inr _ \<Rightarrow> None) (fst s) of
           (Inl e, w) \<Rightarrow> (Inl e, (w, src))
         | (Inr _, w) \<Rightarrow> (Inr (case waited of Inl e \<Rightarrow> False | Inr (done, r) \<Rightarrow> done), (w, src)))"

definition RecvWork_sourceRank :: "work \<times> int \<Rightarrow> int" where
  "RecvWork_sourceRank s = snd s"

section \<open>Refused calls\<close>

text \<open>The calls of a program.\<close>

datatype gloo_call =
    Call_broadcast int int "tensor list"
  | Call_allreduce ReduceOp "tensor list"
  | Call_allreduce_coalesced ReduceOp "tensor list"
  | Call_reduce int int ReduceOp "tensor list"
  | Call_allgather "tensor list list" "tensor list"
  | Call_allgather_coalesced "tensor list list" "tensor list"
  | Call_allgather_base
  | Call_gather int "tensor list list" "tensor list"
  | Call_scatter int "tensor list" "tensor list list"
  | Call_reduce_scatter
  | Call_alltoall_base tensor tensor "int list" "int list"
  | Call_barrier

fun gloo_do :: "bool \<Rightarrow> gloo_call \<Rightarrow> (gloo_group, nat) cmd" where
  "gloo_do cuda (Call_broadcast r t ts) = Gloo_broadcast cuda r t ts"
| "gloo_do cuda (Call_allreduce op ts) = Gloo_allreduce cuda op ts"
| "gloo_do cuda (Call_allreduce_coalesced op ts) = Gloo_allreduce_coalesced op ts"
| "gloo_do cuda (Call_reduce r t op ts) = Gloo_reduce cuda r t op ts"
| "gloo_do cuda (Call_allgather outs ts) = Gloo_allgather cuda outs ts"
| "gloo_do cuda (Call_allgather_coalesced outs ts) = Gloo_allgather_coalesced outs ts"
| "gloo_do cuda Call_allgather_base = Gloo_allgather_base"
| "gloo_do cuda (Call_gather r outs ts) = Gloo_gather cuda r outs ts"
| "gloo_do cuda (Call_scatter r outs ts) = Gloo_scatter cuda r outs ts"
| "gloo_do cuda Call_reduce_scatter = Gloo_reduce_scatter"
| "gloo_do cuda (Call_alltoall_base out inp oc ic) = Gloo_alltoall_base cuda out inp oc ic"
| "gloo_do cuda Call_barrier = Gloo_barrier"

text \<open>The calls whose device type is checked before a tag is taken.\<close>

fun checks_first :: "bool \<Rightarrow> gloo_call \<Rightarrow> bool" where
  "checks_first cuda (Call_alltoall_base out inp oc ic) =
     (t_device_type out = CPU \<or> cuda \<and> t_device_type out = CUDA)"
| "checks_first cuda _ = True"

fun gloo_run :: "bool \<Rightarrow> gloo_call list \<Rightarrow> gloo_group \<Rightarrow> gloo_group" where
  "gloo_run cuda [] g = g"
| "gloo_run cuda (c # cs) g = gloo_run cuda cs (snd (gloo_do cuda c g))"

text \<open>What an accepted call does to the group.\<close>

definition accepted :: "gloo_group \<Rightarrow> gloo_group \<Rightarrow> bool" where
  "accepted g g' \<longleftrightarrow>
     gg_counter g' = gg_counter g + 1 \<and> gg_contexts g' = gg_contexts g \<and>
     length (gp_works (gg_pool g')) = Suc (length (gp_works (gg_pool g))) \<and>
     (\<exists>op. gg_ops g' = gg_ops g @ [op] \<and> go_tag op = gg_counter g \<and>
           go_context op = unat (gg_counter g) mod gg_contexts g)"

lemma submit_result:
  assumes "submit cuda dev kind other g = (r, g')" and "0 < gg_contexts g" and "dev = CPU \<or> cuda \<and> dev = CUDA"
  shows "(\<exists>i. r = Inr i) \<and> accepted g g'"
  using assms
  by (auto simp: submit_def nextTag_def getContext_def enqueue_op_def enqueue_push_def bindM_def accepted_def)

lemma checked_submit:
  assumes "bindM (liftM checks) (\<lambda>_. submit cuda dev kind other) g = (r, g')" and "0 < gg_contexts g"
    and "checks = Inr () \<Longrightarrow> dev = CPU \<or> cuda \<and> dev = CUDA"
  shows "(\<exists>i. r = Inr i) \<and> accepted g g' \<or> (\<exists>e. r = Inl e) \<and> g' = g"
  using assms submit_result [of cuda dev kind other g r g'] by (cases checks) (auto simp: bindM_def)

lemma checkDevice_ok [simp]:
  "checkDeviceType cuda (invalidArgument name) dev = Inr () \<longleftrightarrow> dev = CPU \<or> cuda \<and> dev = CUDA"
  by (simp add: checkDeviceType_def report_if_def invalidArgument_def)

lemma report_invalid [simp]: "report_if (invalidArgument name) bad msg = Inr () \<longleftrightarrow> \<not> bad"
  by (simp add: report_if_def invalidArgument_def)

lemma call_result:
  assumes "gloo_do cuda c g = (r, g')" and "0 < gg_contexts g" and "checks_first cuda c"
  shows "(\<exists>i. r = Inr i) \<and> accepted g g' \<or> (\<exists>e. r = Inl e) \<and> g' = g"
proof (cases c)
  case (Call_allgather_coalesced outs ts)
  with assms show ?thesis
    by (cases "allgather_coalesced_checks (gg_size g) outs ts")
       (auto simp: Gloo_allgather_coalesced_def bindM_def nextTag_def getContext_def enqueue_op_def enqueue_push_def accepted_def)
next
  case Call_barrier
  with assms show ?thesis
    by (auto simp: Gloo_barrier_def bindM_def nextTag_def getContext_def barrier_push_def barrier_snapshot_def
        enqueue_push_def accepted_def)
next
  case (Call_broadcast root t ts)
  with assms checked_submit [of "broadcast_checks cuda (gg_size g) root t ts" cuda] show ?thesis
    by (simp add: Gloo_broadcast_def bindM_def [of "getM f" for f] broadcast_checks_def Let_def)
next
  case (Call_allreduce op ts)
  with assms checked_submit [of "allreduce_checks cuda op ts" cuda] show ?thesis
    by (simp add: Gloo_allreduce_def allreduce_checks_def Let_def)
next
  case (Call_allreduce_coalesced op ts)
  with assms checked_submit [of "allreduce_coalesced_checks ts" False] show ?thesis
    by (simp add: Gloo_allreduce_coalesced_def allreduce_coalesced_checks_def Let_def)
next
  case (Call_reduce root t op ts)
  with assms checked_submit [of "reduce_checks cuda (gg_size g) root t ts" cuda] show ?thesis
    by (simp add: Gloo_reduce_def bindM_def [of "getM f" for f] reduce_checks_def Let_def)
next
  case (Call_allgather outs ts)
  with assms checked_submit [of "allgather_checks cuda (gg_size g) outs ts" cuda] show ?thesis
    by (simp add: Gloo_allgather_def bindM_def [of "getM f" for f] allgather_checks_def Let_def)
next
  case (Call_gather root outs ts)
  with assms checked_submit [of "gather_checks cuda (gg_rank g) (gg_size g) root outs ts" cuda] show ?thesis
    by (simp add: Gloo_gather_def bindM_def [of "getM f" for f] gather_checks_def Let_def)
next
  case (Call_scatter root outs ts)
  with assms checked_submit [of "scatter_checks cuda (gg_rank g) (gg_size g) root outs ts" cuda] show ?thesis
    by (simp add: Gloo_scatter_def bindM_def [of "getM f" for f] scatter_checks_def Let_def)
next
  case (Call_alltoall_base out inp oc ic)
  with assms checked_submit [of "alltoall_checks out inp" cuda] show ?thesis
    by (simp add: Gloo_alltoall_base_def)
qed (use assms in \<open>auto simp: Gloo_allgather_base_def Gloo_reduce_scatter_def\<close>)

definition tags_inv :: "gloo_group \<Rightarrow> bool" where
  "tags_inv g \<longleftrightarrow> 0 < gg_contexts g \<and> gg_counter g = word_of_nat (length (gg_ops g)) \<and>
     length (gp_works (gg_pool g)) = length (gg_ops g) \<and>
     (\<forall>i < length (gg_ops g). go_tag (gg_ops g ! i) = word_of_nat i \<and>
        go_context (gg_ops g ! i) = unat (word_of_nat i :: 32 word) mod gg_contexts g)"

lemma accepted_tags: "tags_inv g \<Longrightarrow> accepted g g' \<Longrightarrow> tags_inv g'"
  by (auto simp: tags_inv_def accepted_def nth_append less_Suc_eq)

lemma call_tags:
  assumes "tags_inv g" and "checks_first cuda c"
  shows "tags_inv (snd (gloo_do cuda c g))"
proof (cases "gloo_do cuda c g")
  case (Pair r g')
  have "0 < gg_contexts g" using assms(1) by (simp add: tags_inv_def)
  from call_result [OF Pair this assms(2)] have "accepted g g' \<or> g' = g" by blast
  with accepted_tags [OF assms(1)] assms(1) Pair show ?thesis by auto
qed

lemma run_tags: "tags_inv g \<Longrightarrow> list_all (checks_first cuda) cs \<Longrightarrow> tags_inv (gloo_run cuda cs g)"
  by (induction cs arbitrary: g) (simp_all add: call_tags)

section \<open>Properties\<close>



text \<open>
  A collective whose arguments are refused leaves the group as it was: no tag is taken and no
  work is enqueued. This holds for every collective and all arguments, but for
  \<^verbatim>\<open>alltoall_base\<close> on an unsupported device.
\<close>

theorem gloo_refused_unchanged:
  assumes "0 < gg_contexts g" and "checks_first cuda c" and "fst (gloo_do cuda c g) = Inl e"
  shows "snd (gloo_do cuda c g) = g"
proof (cases "gloo_do cuda c g")
  case (Pair r g')
  from call_result [OF Pair assms(1,2)] assms(3) Pair show ?thesis by auto
qed

theorem gloo_refused_unchanged_witness:
  "\<exists>g. ProcessGroupGloo 0 2 1 1 = Inr g \<and> snd (gloo_do False (Call_allreduce SUM_op []) g) = g"
proof -
  obtain g where g: "ProcessGroupGloo 0 2 1 1 = Inr g" "0 < gg_contexts g" by (simp add: ProcessGroupGloo_def)
  have "fst (gloo_do False (Call_allreduce SUM_op []) g) =
      Inl (Invalid_argument ''ProcessGroupGloo::allreduce: requires non-empty tensor list'')"
    by (simp add: Gloo_allreduce_def allreduce_checks_def assertNonEmpty_def report_if_def invalidArgument_def bindM_def)
  from gloo_refused_unchanged [OF g(2) _ this] g(1) show ?thesis by auto
qed

text \<open>
  \<^verbatim>\<open>alltoall_base\<close> on a device Gloo does not support is refused after a tag was taken: the
  counter advances although nothing is enqueued, and from then on the process is one tag ahead of
  the others.
\<close>

theorem gloo_alltoall_loses_tag:
  assumes "0 < gg_contexts g" and "t_device_type out = NPU" and "device out = device inp"
    and "t_layout out = Strided" and "t_layout inp = Strided"
  shows "\<exists>e. Gloo_alltoall_base cuda out inp oc ic g = (Inl e, g\<lparr>gg_counter := gg_counter g + 1\<rparr>)"
  using assms
  by (simp add: Gloo_alltoall_base_def alltoall_checks_def assertDense_def tensor_at_def report_if_def submit_def
      nextTag_def getContext_def bindM_def Let_def)

theorem gloo_alltoall_loses_tag_witness:
  "\<exists>g g' e. ProcessGroupGloo 0 2 1 1 = Inr g \<and>
     Gloo_alltoall_base False \<lparr>t_type = 0, t_sizes = [2], t_layout = Strided, t_device_type = NPU, t_device_index = 0\<rparr>
       \<lparr>t_type = 0, t_sizes = [2], t_layout = Strided, t_device_type = NPU, t_device_index = 0\<rparr> [] [] g = (Inl e, g') \<and>
     gg_counter g' = 1 \<and> gg_ops g' = []"
proof -
  let ?t = "\<lparr>t_type = 0, t_sizes = [2], t_layout = Strided, t_device_type = NPU, t_device_index = 0\<rparr>"
  obtain g where g: "ProcessGroupGloo 0 2 1 1 = Inr g" "0 < gg_contexts g" "gg_counter g = 0" "gg_ops g = []"
    by (simp add: ProcessGroupGloo_def)
  from gloo_alltoall_loses_tag [OF g(2), of ?t ?t False "[]" "[]"] g show ?thesis by auto
qed

text \<open>
  \<^verbatim>\<open>broadcast\<close> accepts exactly the calls with a root rank of the group, a root tensor of the
  list, a dense first tensor, all tensors of one type and size, on a supported device.
\<close>

theorem gloo_broadcast_accepts:
  "broadcast_checks cuda world rootRank rootTensor inputs = Inr () \<longleftrightarrow>
     0 \<le> rootRank \<and> rootRank < world \<and> 0 \<le> rootTensor \<and> rootTensor < int (length inputs) \<and>
     t_layout (hd inputs) = Strided \<and> (\<forall>t \<in> set inputs. t_type t = t_type (hd inputs) \<and> t_sizes t = t_sizes (hd inputs)) \<and>
     (t_device_type (hd inputs) = CPU \<or> cuda \<and> t_device_type (hd inputs) = CUDA)"
proof (cases inputs)
  case Nil
  then show ?thesis by (auto simp: broadcast_checks_def assertRootRank_def assertRootTensor_def Let_def)
next
  case (Cons t ts)
  have "type_and_sizes_match (invalidArgument n) us ty sizes = Inr () \<longleftrightarrow>
      (\<forall>t \<in> set us. t_type t = ty \<and> t_sizes t = sizes)" for n us ty sizes
  proof -
    have "type_and_sizes_match (invalidArgument n) us ty sizes = Inr () \<longleftrightarrow>
        (\<forall>i < length us. t_type (us ! i) = ty \<and> t_sizes (us ! i) = sizes)"
      by (auto simp: type_and_sizes_match_def for_indices_ok assertTypeMatch_def assertSizesMatch_def tensor_at_bind)
    then show ?thesis by (simp only: all_set_conv_all_nth)
  qed
  then have m: "assertTypeAndSizesMatch (invalidArgument ''broadcast'') inputs = Inr () \<longleftrightarrow>
      (\<forall>u \<in> set inputs. t_type u = t_type (hd inputs) \<and> t_sizes u = t_sizes (hd inputs))"
    by (simp add: Cons assertTypeAndSizesMatch_def tensor_at_def)
  have d: "assertDense (invalidArgument ''broadcast'') inputs = Inr () \<longleftrightarrow> t_layout (hd inputs) = Strided"
    by (simp add: Cons assertDense_def tensor_at_def)
  have h: "inputs ! 0 = hd inputs" by (simp add: Cons)
  show ?thesis
    unfolding broadcast_checks_def Let_def bindE_unit m d h
    by (simp add: assertRootRank_def assertRootTensor_def not_le not_less)
qed

text \<open>
  \<^verbatim>\<open>recvAnysource\<close> hands the buffer every rank of the group, and rank 0 once more per process.
\<close>

theorem anysource_ranks_cover:
  "set (anysource_ranks n) = int ` {0..<n} \<and> length (anysource_ranks n) = 2 * n \<and>
   (0 < n \<longrightarrow> count_list (anysource_ranks n) 0 = Suc n)"
proof -
  have "count_list (map int [0..<n]) 0 = 1" if "0 < n"
    using that by (auto simp: upt_conv_Cons count_list_0_iff)
  moreover have "count_list (replicate n (0::int)) 0 = n" by (induction n) simp_all
  ultimately show ?thesis by (auto simp: anysource_ranks_def)
qed

end
