(* ===== verification/Gloo_Runs.thy ===== *)
theory Gloo_Runs
  imports Gloo_Collectives
begin

text \<open>
  What the asynchronous works of \<^verbatim>\<open>ProcessGroupGloo\<close> do when a worker runs them: the
  \<^verbatim>\<open>run\<close> functions of \<^verbatim>\<open>ProcessGroupGloo.cpp\<close> on host tensors. The contents of a tensor are the
  list of its elements. A collective of the Gloo library is an argument: a function from what this
  process puts into its buffers to what it finds there afterwards. Theorems about several processes
  assume of it what Gloo documents. The CUDA variants of the works run the same functions on host
  copies; their copies between device and host are not modelled.
\<close>

section \<open>Slices of a flat buffer\<close>

text \<open>
  The loops that cut a flat tensor into pieces of given lengths. \<^verbatim>\<open>slice\<close> stops at the end of the
  buffer, \<^verbatim>\<open>narrow\<close> throws there.
\<close>

fun slice_loop :: "'v list \<Rightarrow> nat \<Rightarrow> nat list \<Rightarrow> 'v list list" where
  "slice_loop flat offset [] = []"
| "slice_loop flat offset (n # ns) = take n (drop offset flat) # slice_loop flat (offset + n) ns"

definition narrow :: "'v list \<Rightarrow> nat \<Rightarrow> nat \<Rightarrow> 'v list res" where
  "narrow flat start len =
     (if start + len \<le> length flat then Inr (take len (drop start flat)) else Inl (C10_error ''start + length <= cur_size''))"

fun narrow_loop :: "'v list \<Rightarrow> nat \<Rightarrow> nat list \<Rightarrow> 'v list list res" where
  "narrow_loop flat offset [] = Inr []"
| "narrow_loop flat offset (n # ns) =
     bindE (narrow flat offset n) (\<lambda>x. bindE (narrow_loop flat (offset + n) ns) (\<lambda>xs. Inr (x # xs)))"

definition flattenDenseTensors :: "'v list list \<Rightarrow> 'v list" where
  "flattenDenseTensors tensors = (if length tensors = 1 then tensors ! 0 else concat tensors)"

lemma flatten_concat [simp]: "flattenDenseTensors ts = concat ts"
  by (cases ts) (auto simp: flattenDenseTensors_def length_Suc_conv)

lemma slice_loop_concat:
  "slice_loop (pre @ concat xss @ post) (length pre) (map length xss) = xss"
proof (induction xss arbitrary: pre)
  case (Cons xs xss)
  have "slice_loop ((pre @ xs) @ concat xss @ post) (length (pre @ xs)) (map length xss) = xss" by (rule Cons.IH)
  then show ?case by simp
qed simp

lemma narrow_loop_slices:
  "offset + sum_list ns \<le> length flat \<Longrightarrow> narrow_loop flat offset ns = Inr (slice_loop flat offset ns)"
  by (induction ns arbitrary: offset) (simp_all add: narrow_def)

lemma narrow_loop_concat:
  "narrow_loop (concat xss) 0 (map length xss) = Inr xss"
proof -
  have "sum_list (map length xss) = length (concat xss)" by (simp add: length_concat)
  then have "narrow_loop (concat xss) 0 (map length xss) = Inr (slice_loop (concat xss) 0 (map length xss))"
    by (intro narrow_loop_slices) simp
  with slice_loop_concat [of "[]" xss "[]"] show ?thesis by simp
qed

section \<open>Broadcast and reductions\<close>

fun copy_to_others :: "nat \<Rightarrow> nat list \<Rightarrow> 'v list list \<Rightarrow> 'v list list" where
  "copy_to_others rootTensor [] inputs = inputs"
| "copy_to_others rootTensor (i # is) inputs =
     (if i = rootTensor then copy_to_others rootTensor is inputs
      else copy_to_others rootTensor is (inputs[i := inputs ! rootTensor]))"

definition AsyncBroadcastWork_broadcast :: "('v list \<Rightarrow> 'v list) \<Rightarrow> ScalarType \<Rightarrow> 'v list \<Rightarrow> 'v list res" where
  "AsyncBroadcastWork_broadcast gloo_broadcast scalarType tensor =
     bindE (generate_all_types scalarType) (\<lambda>_. Inr (gloo_broadcast tensor))"

definition AsyncBroadcastWork_run ::
    "('v list \<Rightarrow> 'v list) \<Rightarrow> ScalarType \<Rightarrow> nat \<Rightarrow> 'v list list \<Rightarrow> 'v list list res" where
  "AsyncBroadcastWork_run gloo_broadcast scalarType rootTensor inputs =
     bindE (AsyncBroadcastWork_broadcast gloo_broadcast scalarType (inputs ! rootTensor)) (\<lambda>data.
     Inr (copy_to_others rootTensor [0..<length inputs] (inputs[rootTensor := data])))"

text \<open>The result is the inputs' new contents and \<^verbatim>\<open>outputs_\<close>, which \<^verbatim>\<open>result()\<close> returns.\<close>

definition AsyncAllreduceWork_allreduce ::
    "(reduce_func \<Rightarrow> 'v list list \<Rightarrow> 'v list list) \<Rightarrow> ScalarType \<Rightarrow> ReduceOp \<Rightarrow> 'v list list \<Rightarrow> 'v list list res" where
  "AsyncAllreduceWork_allreduce gloo_allreduce scalarType reduceOp tensors =
     bindE (getFunction scalarType reduceOp) (\<lambda>fn.
     bindE (generate_all_types scalarType) (\<lambda>_. Inr (gloo_allreduce fn tensors)))"

definition AsyncAllreduceWork_run ::
    "(reduce_func \<Rightarrow> 'v list list \<Rightarrow> 'v list list) \<Rightarrow> ScalarType \<Rightarrow> ReduceOp \<Rightarrow> 'v list list \<Rightarrow>
     ('v list list \<times> 'v list list) res" where
  "AsyncAllreduceWork_run gloo_allreduce scalarType reduceOp inputs =
     bindE (AsyncAllreduceWork_allreduce gloo_allreduce scalarType reduceOp inputs) (\<lambda>inputs. Inr (inputs, inputs))"

definition AsyncAllreduceWork_result :: "work \<Rightarrow> 't list \<Rightarrow> 't list res" where
  "AsyncAllreduceWork_result w outputs =
     (if Work_isCompleted w then Inr outputs
      else Inl (C10_error ''Work needs to be completed before calling result(). ''))"

definition AsyncAllreduceCoalescedWork_run ::
    "(reduce_func \<Rightarrow> 'v list list \<Rightarrow> 'v list list) \<Rightarrow> ScalarType \<Rightarrow> ReduceOp \<Rightarrow> 'v list list \<Rightarrow>
     ('v list list \<times> 'v list list) res" where
  "AsyncAllreduceCoalescedWork_run gloo_allreduce scalarType reduceOp tensors =
     (let coalescedTensor = flattenDenseTensors tensors
      in bindE (AsyncAllreduceWork_allreduce gloo_allreduce scalarType reduceOp [coalescedTensor]) (\<lambda>out.
         Inr (slice_loop (out ! 0) 0 (map length tensors), [])))"

definition AsyncReduceWork_run ::
    "(reduce_func \<Rightarrow> 'v list \<Rightarrow> 'v list) \<Rightarrow> ScalarType \<Rightarrow> ReduceOp \<Rightarrow> 'v list list \<Rightarrow> 'v list list res" where
  "AsyncReduceWork_run gloo_reduce scalarType reduceOp tensors =
     bindE (getFunction scalarType reduceOp) (\<lambda>fn.
     bindE (generate_all_types scalarType) (\<lambda>_. Inr (tensors[0 := gloo_reduce fn (tensors ! 0)])))"

section \<open>Gathers\<close>

text \<open>
  \<open>len\<close> is the number of elements of one output tensor: row \<open>j\<close> of the flat output tensor is the
  slice of that length at \<open>j * len\<close>.
\<close>

definition flat_row :: "'v list \<Rightarrow> nat \<Rightarrow> nat \<Rightarrow> 'v list" where
  "flat_row flat len j = take len (drop (j * len) flat)"

definition AsyncAllgatherWork_run ::
    "('v list \<Rightarrow> 'v list) \<Rightarrow> ScalarType \<Rightarrow> nat \<Rightarrow> 'v list list list \<Rightarrow> 'v list list \<Rightarrow> 'v list list list res" where
  "AsyncAllgatherWork_run gloo_allgather scalarType len outputs inputs =
     bindE (generate_all_types scalarType) (\<lambda>_.
     let flatOutputTensor = gloo_allgather (flattenDenseTensors inputs)
     in Inr (map (\<lambda>outs. map (flat_row flatOutputTensor len) [0..<length outs]) outputs))"

definition AsyncAllgatherCoalescedWork_run ::
    "('v list \<Rightarrow> 'v list) \<Rightarrow> ScalarType \<Rightarrow> 'v list list list \<Rightarrow> 'v list list \<Rightarrow> 'v list list list res" where
  "AsyncAllgatherCoalescedWork_run gloo_allgather scalarType output_lists input_list =
     bindE (generate_all_types scalarType) (\<lambda>_.
     let flatOutputTensor = gloo_allgather (flattenDenseTensors input_list);
         lens = concat (map (map length) output_lists)
     in bindE (narrow_loop flatOutputTensor 0 lens) (\<lambda>ts.
        Inr (slice_loop ts 0 (map length output_lists))))"

definition AsyncGatherWork_run ::
    "('v list \<Rightarrow> 'v list) \<Rightarrow> ScalarType \<Rightarrow> bool \<Rightarrow> nat \<Rightarrow> 'v list list list \<Rightarrow> 'v list list \<Rightarrow> 'v list list list res" where
  "AsyncGatherWork_run gloo_gather scalarType isroot len outputs inputs =
     bindE (generate_all_types scalarType) (\<lambda>_.
     let flatOutputTensor = gloo_gather (inputs ! 0)
     in Inr (if isroot then outputs[0 := map (flat_row flatOutputTensor len) [0..<length (outputs ! 0)]] else outputs))"

definition AsyncScatterWork_run ::
    "('v list list option \<Rightarrow> 'v list) \<Rightarrow> ScalarType \<Rightarrow> bool \<Rightarrow> 'v list list \<Rightarrow> 'v list list list \<Rightarrow> 'v list list res" where
  "AsyncScatterWork_run gloo_scatter scalarType isroot outputs inputs =
     bindE (generate_all_types scalarType) (\<lambda>_.
     Inr (outputs[0 := gloo_scatter (if isroot then Some (inputs ! 0) else None)]))"

text \<open>
  All-to-all: without counts the library splits evenly, with counts it gets the lengths that
  \<^verbatim>\<open>computeLengthsAndOffsets\<close> computed from the two tensors.
\<close>

definition AsyncAlltoallWork_run ::
    "('v list \<Rightarrow> 'v list) \<Rightarrow> ('v list \<Rightarrow> 64 word list \<Rightarrow> 64 word list \<Rightarrow> 'v list) \<Rightarrow> ScalarType \<Rightarrow> nat \<Rightarrow> int list \<Rightarrow> int list \<Rightarrow>
     tensor \<Rightarrow> tensor \<Rightarrow> 'v list \<Rightarrow> 'v list res" where
  "AsyncAlltoallWork_run gloo_alltoall gloo_alltoallv scalarType world outputCounts inputCounts outputTensor inputTensor input =
     (if outputCounts = [] \<and> inputCounts = [] then bindE (generate_all_types scalarType) (\<lambda>_. Inr (gloo_alltoall input))
      else bindE (checkSplitSizes inputCounts inputTensor (int world)) (\<lambda>_.
           bindE (checkSplitSizes outputCounts outputTensor (int world)) (\<lambda>_.
           bindE (computeLengthsAndOffsets inputCounts inputTensor world) (\<lambda>(sendTotal, send).
           bindE (computeLengthsAndOffsets outputCounts outputTensor world) (\<lambda>(recvTotal, recv).
           bindE (generate_all_types scalarType) (\<lambda>_.
           Inr (gloo_alltoallv input (map fst send) (map fst recv))))))))"

section \<open>Sparse all-reduce\<close>

text \<open>
  A coalesced sparse tensor: its sizes, the number of sparse dimensions, the indices (one row per
  sparse dimension, one column per non-zero) and the values (one dense block per non-zero).
\<close>

record 'v sparse =
  sp_sizes :: "int list"
  sp_sparse_dim :: nat
  sp_indices :: "int list list"
  sp_values :: "'v list list"

definition nnz :: "'v sparse \<Rightarrow> nat" where
  "nnz t = length (sp_values t)"

definition dense_dim :: "'v sparse \<Rightarrow> nat" where
  "dense_dim t = length (sp_sizes t) - sp_sparse_dim t"

text \<open>\<^verbatim>\<open>SparseTensorMetadata\<close>: nine numbers.\<close>

definition metadata_dim :: nat where "metadata_dim = 9"

fun fill_sizes :: "nat \<Rightarrow> int list \<Rightarrow> int list \<Rightarrow> int list" where
  "fill_sizes pos [] data = data"
| "fill_sizes pos (s # ss) data = fill_sizes (Suc pos) ss (data[pos := s])"

definition populate_from_sparse_tensor :: "'v sparse \<Rightarrow> int list \<Rightarrow> int list res" where
  "populate_from_sparse_tensor t data =
     (if \<not> sp_sparse_dim t \<le> 4 then Inl (C10_assert ''sparse_dim <= 4'')
      else if \<not> dense_dim t \<le> 4 then Inl (C10_assert ''dense_dim <= 4'')
      else Inr ((fill_sizes 4 (drop (sp_sparse_dim t) (sp_sizes t))
                   (fill_sizes 0 (take (sp_sparse_dim t) (sp_sizes t)) data))[8 := int (nnz t)]))"

definition metadata_sizes :: "int list \<Rightarrow> int list" where
  "metadata_sizes data = takeWhile (\<lambda>d. 0 < d) (take 4 data) @ takeWhile (\<lambda>d. 0 < d) (take 4 (drop 4 data))"

definition metadata_nnz :: "int list \<Rightarrow> nat" where
  "metadata_nnz data = nat (data ! 8)"

text \<open>The rows of the buffer after the library's gather, one per process.\<close>

definition allgather_metadata :: "(int list \<Rightarrow> int list) \<Rightarrow> nat \<Rightarrow> 'v sparse \<Rightarrow> int list list res" where
  "allgather_metadata gloo_allgather world t =
     bindE (populate_from_sparse_tensor t (replicate metadata_dim 0)) (\<lambda>mine.
     Inr (map (flat_row (gloo_allgather mine) metadata_dim) [0..<world]))"

text \<open>\<open>reshape_rows rows cols xs\<close> is \<^verbatim>\<open>reshape({rows, cols})\<close> of a flat tensor.\<close>

definition reshape_rows :: "nat \<Rightarrow> nat \<Rightarrow> 'v list \<Rightarrow> 'v list list" where
  "reshape_rows rows cols xs = map (flat_row xs cols) [0..<rows]"

definition allgather_indices ::
    "(int list \<Rightarrow> nat list \<Rightarrow> int list) \<Rightarrow> 'v sparse \<Rightarrow> int list list \<Rightarrow> int list list list res" where
  "allgather_indices gloo_allgatherv t metadata =
     (let sparseDim = sp_sparse_dim t;
          counts = map (\<lambda>m. metadata_nnz m * sparseDim) metadata;
          output = gloo_allgatherv (concat (sp_indices t)) counts
      in bindE (narrow_loop output 0 (map (\<lambda>m. sparseDim * metadata_nnz m) metadata)) (\<lambda>pieces.
         Inr (map (\<lambda>(m, xs). reshape_rows sparseDim (metadata_nnz m) xs) (zip metadata pieces))))"

definition denseNumel :: "'v sparse \<Rightarrow> nat" where
  "denseNumel t = nat (numel_from 1 (drop (sp_sparse_dim t) (sp_sizes t)))"

definition allgather_values ::
    "('v list \<Rightarrow> nat list \<Rightarrow> 'v list) \<Rightarrow> ScalarType \<Rightarrow> 'v sparse \<Rightarrow> int list list \<Rightarrow> 'v list list list res" where
  "allgather_values gloo_allgatherv scalarType t metadata =
     bindE (generate_all_types scalarType) (\<lambda>_.
      let n = denseNumel t;
          counts = map (\<lambda>m. metadata_nnz m * n) metadata;
          output = gloo_allgatherv (concat (sp_values t)) counts
      in bindE (narrow_loop output 0 (map (\<lambda>m. n * metadata_nnz m) metadata)) (\<lambda>pieces.
         Inr (map (\<lambda>(m, xs). reshape_rows (metadata_nnz m) n xs) (zip metadata pieces))))"

fun sizes_agree :: "int list \<Rightarrow> nat \<Rightarrow> nat \<Rightarrow> int list list \<Rightarrow> unit res" where
  "sizes_agree expected rank i [] = Inr ()"
| "sizes_agree expected rank i (m # ms) =
     (if i \<noteq> rank \<and> metadata_sizes m \<noteq> expected then Inl (C10_error ''Sparse dimensions do not match'')
      else sizes_agree expected rank (Suc i) ms)"

text \<open>
  The tensor library's part: adding sparse tensors and coalescing, as \<open>add_to\<close> and \<open>coalesce\<close>; and
  the library's gathers.
\<close>

definition sparse_coo_tensor :: "int list list \<Rightarrow> 'v list list \<Rightarrow> 'v sparse \<Rightarrow> 'v sparse" where
  "sparse_coo_tensor indices values like = like\<lparr>sp_indices := indices, sp_values := values\<rparr>"

definition sparse_allreduce ::
    "('v sparse \<Rightarrow> 'v sparse \<Rightarrow> 'v sparse) \<Rightarrow> ('v sparse \<Rightarrow> 'v sparse) \<Rightarrow> (int list \<Rightarrow> int list) \<Rightarrow>
     (int list \<Rightarrow> nat list \<Rightarrow> int list) \<Rightarrow> ('v list \<Rightarrow> nat list \<Rightarrow> 'v list) \<Rightarrow> ScalarType \<Rightarrow> nat \<Rightarrow> nat \<Rightarrow> 'v sparse list \<Rightarrow> 'v sparse res" where
  "sparse_allreduce add_to coalesce ag agv_int agv dtype rank world tensors =
     (let input = coalesce (foldl add_to (tensors ! 0) (tl tensors))
      in bindE (allgather_metadata ag world input) (\<lambda>metadata.
         bindE (sizes_agree (metadata_sizes (metadata ! rank)) rank 0 metadata) (\<lambda>_.
         bindE (allgather_indices agv_int input metadata) (\<lambda>indices.
         bindE (allgather_values agv dtype input metadata) (\<lambda>values.
         let parts = map (\<lambda>(i, v). sparse_coo_tensor i v input) (zip indices values)
         in Inr (coalesce (foldl add_to (parts ! 0) (tl parts))))))))"

definition AsyncSparseAllreduceWork_run ::
    "('v sparse \<Rightarrow> 'v sparse \<Rightarrow> 'v sparse) \<Rightarrow> ('v sparse \<Rightarrow> 'v sparse) \<Rightarrow> (int list \<Rightarrow> int list) \<Rightarrow>
     (int list \<Rightarrow> nat list \<Rightarrow> int list) \<Rightarrow> ('v list \<Rightarrow> nat list \<Rightarrow> 'v list) \<Rightarrow> ScalarType \<Rightarrow> nat \<Rightarrow> nat \<Rightarrow> 'v sparse list \<Rightarrow> 'v sparse list res" where
  "AsyncSparseAllreduceWork_run add_to coalesce ag agv_int agv dtype rank world inputs =
     bindE (sparse_allreduce add_to coalesce ag agv_int agv dtype rank world inputs) (\<lambda>output.
     Inr (map (\<lambda>_. output) inputs))"

section \<open>Lemmas\<close>

lemma getFunction_typed: "getFunction dtype op = Inr fn \<Longrightarrow> \<exists>b. generate_all_types dtype = Inr b"
  by (cases "generate_all_types dtype") (simp_all add: getFunction_def)

lemma flat_row_concat:
  assumes "\<forall>x \<in> set xss. length x = n" and "j < length xss"
  shows "flat_row (concat xss) n j = xss ! j"
  using assms
proof (induction xss arbitrary: j)
  case (Cons x xss)
  show ?case
  proof (cases j)
    case 0
    with Cons.prems show ?thesis by (simp add: flat_row_def)
  next
    case (Suc k)
    have "flat_row (concat (x # xss)) n j = flat_row (concat xss) n k"
      using Cons.prems Suc by (simp add: flat_row_def)
    with Cons Suc show ?thesis by simp
  qed
qed simp

lemma flat_rows_concat:
  assumes "\<forall>x \<in> set xss. length x = n"
  shows "map (flat_row (concat xss) n) [0..<length xss] = xss"
  by (rule nth_equalityI) (simp_all add: flat_row_concat [OF assms])

lemma reshape_concat: "\<forall>x \<in> set xss. length x = n \<Longrightarrow> length xss = m \<Longrightarrow> reshape_rows m n (concat xss) = xss"
  using flat_rows_concat by (auto simp: reshape_rows_def)

text \<open>The elementwise reduction of one list per process.\<close>

definition reduce_all :: "('v \<Rightarrow> 'v \<Rightarrow> 'v) \<Rightarrow> 'v list list \<Rightarrow> 'v list" where
  "reduce_all f xss = map (\<lambda>i. foldl f (hd xss ! i) (map (\<lambda>xs. xs ! i) (tl xss))) [0..<length (hd xss)]"

lemma length_reduce_all [simp]: "length (reduce_all f xss) = length (hd xss)"
  by (simp add: reduce_all_def)

lemma reduce_all_nth:
  "i < length (hd xss) \<Longrightarrow> reduce_all f xss ! i = foldl f (hd xss ! i) (map (\<lambda>xs. xs ! i) (tl xss))"
  by (simp add: reduce_all_def)

lemma reduce_all_append:
  assumes "ranks \<noteq> []" and "\<forall>r \<in> set ranks. length (a r) = n"
  shows "reduce_all f (map (\<lambda>r. a r @ b r) ranks) = reduce_all f (map a ranks) @ reduce_all f (map b ranks)"
proof -
  obtain r rs where ranks: "ranks = r # rs" using assms(1) by (cases ranks) auto
  have len: "length (a x) = n" if "x \<in> set ranks" for x using assms(2) that by blast
  show ?thesis
  proof (rule nth_equalityI)
    show "length (reduce_all f (map (\<lambda>r. a r @ b r) ranks)) =
        length (reduce_all f (map a ranks) @ reduce_all f (map b ranks))" by (simp add: ranks)
  next
    fix i
    assume "i < length (reduce_all f (map (\<lambda>r. a r @ b r) ranks))"
    then have i: "i < n + length (b r)" using len [of r] by (simp add: ranks)
    then have lhs: "reduce_all f (map (\<lambda>r. a r @ b r) ranks) ! i =
        foldl f ((a r @ b r) ! i) (map (\<lambda>x. (a x @ b x) ! i) rs)"
      using len [of r] by (subst reduce_all_nth) (simp_all add: ranks comp_def)
    have la: "length (reduce_all f (map a ranks)) = n" using len [of r] by (simp add: ranks)
    show "reduce_all f (map (\<lambda>r. a r @ b r) ranks) ! i = (reduce_all f (map a ranks) @ reduce_all f (map b ranks)) ! i"
    proof (cases "i < n")
      case True
      have "map (\<lambda>x. (a x @ b x) ! i) rs = map (\<lambda>x. a x ! i) rs" "(a r @ b r) ! i = a r ! i"
        using len True by (simp_all add: nth_append ranks)
      moreover have "(reduce_all f (map a ranks) @ reduce_all f (map b ranks)) ! i = reduce_all f (map a ranks) ! i"
        using True la by (simp add: nth_append)
      moreover have "reduce_all f (map a ranks) ! i = foldl f (a r ! i) (map (\<lambda>x. a x ! i) rs)"
        using True len [of r] by (subst reduce_all_nth) (simp_all add: ranks comp_def)
      ultimately show ?thesis using lhs by (simp only:)
    next
      case False
      then obtain k where k: "i = n + k" using le_Suc_ex not_less by blast
      have "map (\<lambda>x. (a x @ b x) ! i) rs = map (\<lambda>x. b x ! k) rs" "(a r @ b r) ! i = b r ! k"
        using len k by (simp_all add: nth_append ranks)
      moreover have "(reduce_all f (map a ranks) @ reduce_all f (map b ranks)) ! i = reduce_all f (map b ranks) ! k"
        using k la by (simp add: nth_append)
      moreover have "reduce_all f (map b ranks) ! k = foldl f (b r ! k) (map (\<lambda>x. b x ! k) rs)"
        using i k by (subst reduce_all_nth) (simp_all add: ranks comp_def)
      ultimately show ?thesis using lhs by (simp only:)
    qed
  qed
qed

lemma reduce_all_concat:
  assumes "ranks \<noteq> []" and "\<forall>r \<in> set ranks. map length r = ns"
  shows "reduce_all f (map concat ranks) = concat (map (\<lambda>k. reduce_all f (map (\<lambda>r. r ! k) ranks)) [0..<length ns])"
  using assms
proof (induction ns arbitrary: ranks)
  case Nil
  then have "\<forall>r \<in> set ranks. r = []" by simp
  with Nil(1) show ?case by (cases ranks) (simp_all add: reduce_all_def)
next
  case (Cons n ns)
  then have ne: "\<forall>r \<in> set ranks. r \<noteq> [] \<and> length (hd r) = n \<and> map length (tl r) = ns"
    by (auto simp: map_eq_Cons_conv)
  have "map concat ranks = map (\<lambda>r. hd r @ concat (tl r)) ranks"
  proof (rule map_cong [OF refl])
    fix r assume "r \<in> set ranks"
    then have "r \<noteq> []" using ne by blast
    then show "concat r = hd r @ concat (tl r)" by (cases r) simp_all
  qed
  also have "reduce_all f \<dots> = reduce_all f (map hd ranks) @ reduce_all f (map (\<lambda>r. concat (tl r)) ranks)"
    using Cons.prems(1) ne by (intro reduce_all_append) auto
  also have "reduce_all f (map (\<lambda>r. concat (tl r)) ranks) =
      concat (map (\<lambda>k. reduce_all f (map (\<lambda>r. r ! k) (map tl ranks))) [0..<length ns])"
    using Cons.IH [of "map tl ranks"] Cons.prems(1) ne by (simp add: comp_def)
  also have "\<dots> = concat (map (\<lambda>k. reduce_all f (map (\<lambda>r. r ! Suc k) ranks)) [0..<length ns])"
  proof -
    have "map (\<lambda>r. r ! k) (map tl ranks) = map (\<lambda>r. r ! Suc k) ranks" for k
      using ne by (auto simp: nth_tl) (metis length_greater_0_conv nth_Cons_Suc list.collapse)
    then show ?thesis by (simp only:)
  qed
  also have "reduce_all f (map hd ranks) = reduce_all f (map (\<lambda>r. r ! 0) ranks)"
    using ne by (metis (mono_tags, lifting) hd_conv_nth map_eq_conv)
  finally show ?case by (simp add: upt_Suc_map comp_def del: upt_Suc)
qed

lemma copy_to_others_result:
  assumes "r < length inputs" and "\<forall>i \<in> set is. i < length inputs"
  shows "copy_to_others r is inputs =
    map (\<lambda>i. if i \<in> set is then inputs ! r else inputs ! i) [0..<length inputs]"
  using assms
proof (induction "is" arbitrary: inputs)
  case Nil
  then show ?case by (simp add: map_nth)
next
  case (Cons i "is")
  show ?case
  proof (cases "i = r")
    case True
    with Cons show ?thesis by (auto intro!: nth_equalityI)
  next
    case False
    have "copy_to_others r is (inputs[i := inputs ! r]) =
        map (\<lambda>j. if j \<in> set is then inputs[i := inputs ! r] ! r else inputs[i := inputs ! r] ! j) [0..<length inputs]"
      using Cons.IH [of "inputs[i := inputs ! r]"] Cons.prems by simp
    with False Cons.prems show ?thesis by (auto simp: nth_list_update intro!: nth_equalityI)
  qed
qed

subsection \<open>Sparse metadata\<close>

definition wf_sparse :: "'v sparse \<Rightarrow> bool" where
  "wf_sparse t \<longleftrightarrow>
     sp_sparse_dim t \<le> length (sp_sizes t) \<and> sp_sparse_dim t \<le> 4 \<and> dense_dim t \<le> 4 \<and>
     (\<forall>s \<in> set (sp_sizes t). 0 < s) \<and> length (sp_indices t) = sp_sparse_dim t \<and>
     (\<forall>row \<in> set (sp_indices t). length row = nnz t) \<and> (\<forall>v \<in> set (sp_values t). length v = denseNumel t)"

lemma fill_sizes_eq:
  "pos + length ss \<le> length data \<Longrightarrow> fill_sizes pos ss data = take pos data @ ss @ drop (pos + length ss) data"
proof (induction ss arbitrary: pos data)
  case (Cons s ss)
  then have "fill_sizes (Suc pos) ss (data[pos := s]) =
      take (Suc pos) (data[pos := s]) @ ss @ drop (Suc pos + length ss) (data[pos := s])" by simp
  with Cons.prems show ?case by (simp add: take_Suc_conv_app_nth)
qed simp

lemma fill_sizes_append:
  "length A = pos \<Longrightarrow> length ss \<le> length B \<Longrightarrow> fill_sizes pos ss (A @ B) = A @ ss @ drop (length ss) B"
  by (simp add: fill_sizes_eq)

definition metadata_of :: "'v sparse \<Rightarrow> int list" where
  "metadata_of t = take (sp_sparse_dim t) (sp_sizes t) @ replicate (4 - sp_sparse_dim t) 0 @
     drop (sp_sparse_dim t) (sp_sizes t) @ replicate (4 - dense_dim t) 0 @ [int (nnz t)]"

lemma populate_metadata:
  assumes "sp_sparse_dim t \<le> length (sp_sizes t)" and "sp_sparse_dim t \<le> 4" and "dense_dim t \<le> 4"
  shows "populate_from_sparse_tensor t (replicate metadata_dim 0) = Inr (metadata_of t)"
proof -
  let ?sp = "take (sp_sparse_dim t) (sp_sizes t)" and ?de = "drop (sp_sparse_dim t) (sp_sizes t)"
  have len: "length ?sp = sp_sparse_dim t" "length ?de = dense_dim t" using assms(1) by (simp_all add: dense_dim_def)
  have 1: "fill_sizes 0 ?sp (replicate 9 0) = ?sp @ replicate (9 - sp_sparse_dim t) 0"
    using assms(2) len(1) by (simp add: fill_sizes_eq)
  have 2: "?sp @ replicate (9 - sp_sparse_dim t) 0 = (?sp @ replicate (4 - sp_sparse_dim t) 0) @ replicate 5 0"
    using assms(2) by (simp add: replicate_add [symmetric])
  have l4: "length (?sp @ replicate (4 - sp_sparse_dim t) 0) = 4" using assms(2) len(1) by simp
  have 3: "fill_sizes 4 ?de ((?sp @ replicate (4 - sp_sparse_dim t) 0) @ replicate 5 0) =
      (?sp @ replicate (4 - sp_sparse_dim t) 0) @ ?de @ replicate (5 - dense_dim t) 0"
    using assms(3) len(2) by (subst fill_sizes_append [OF l4]) simp_all
  have 4: "replicate (5 - dense_dim t) (0::int) = replicate (4 - dense_dim t) 0 @ [0]"
  proof -
    have "5 - dense_dim t = Suc (4 - dense_dim t)" using assms(3) by simp
    then show ?thesis by (simp add: replicate_append_same)
  qed
  have upd: "(A @ [0])[8 := x] = A @ [x]" if "length A = 8" for A :: "int list" and x
    using that by (simp add: list_update_append)
  have 5: "fill_sizes 4 ?de (fill_sizes 0 ?sp (replicate 9 0)) =
      (?sp @ replicate (4 - sp_sparse_dim t) 0 @ ?de @ replicate (4 - dense_dim t) 0) @ [0]"
    unfolding 1 2 3 4 by simp
  have 6: "length (?sp @ replicate (4 - sp_sparse_dim t) 0 @ ?de @ replicate (4 - dense_dim t) (0::int)) = 8"
    using assms(2,3) len by simp
  have "(fill_sizes 4 ?de (fill_sizes 0 ?sp (replicate 9 0)))[8 := int (nnz t)] = metadata_of t"
    unfolding 5 upd [OF 6] metadata_of_def by simp
  with assms(2,3) show ?thesis by (simp add: populate_from_sparse_tensor_def metadata_dim_def)
qed

lemma metadata_roundtrip:
  assumes "wf_sparse t"
  shows "metadata_sizes (metadata_of t) = sp_sizes t" and "metadata_nnz (metadata_of t) = nnz t"
    and "length (metadata_of t) = metadata_dim"
proof -
  let ?sp = "take (sp_sparse_dim t) (sp_sizes t)" and ?de = "drop (sp_sparse_dim t) (sp_sizes t)"
  let ?z1 = "replicate (4 - sp_sparse_dim t) (0::int)" and ?z2 = "replicate (4 - dense_dim t) (0::int)"
  have d: "sp_sparse_dim t \<le> 4" "dense_dim t \<le> 4" "length ?sp = sp_sparse_dim t" "length ?de = dense_dim t"
    and pos: "\<forall>s \<in> set (sp_sizes t). 0 < s"
    using assms by (auto simp: wf_sparse_def dense_dim_def)
  have m: "metadata_of t = (?sp @ ?z1) @ (?de @ ?z2) @ [int (nnz t)]" by (simp add: metadata_of_def)
  have l: "length (?sp @ ?z1) = 4" "length (?de @ ?z2) = 4" using d by simp_all
  have gen: "take 4 (A @ B @ [x]) = A \<and> take 4 (drop 4 (A @ B @ [x])) = B \<and> (A @ B @ [x]) ! 8 = x \<and>
      length (A @ B @ [x]) = 9"
    if "length A = 4" "length B = 4" for A B :: "int list" and x using that by (simp add: nth_append)
  have t1: "take 4 (metadata_of t) = ?sp @ ?z1" and t2: "take 4 (drop 4 (metadata_of t)) = ?de @ ?z2"
    and t3: "metadata_of t ! 8 = int (nnz t)" unfolding m using gen [OF l] by blast+
  have tw: "takeWhile (\<lambda>d. 0 < d) (xs @ replicate n (0::int)) = xs" if "\<forall>x \<in> set xs. 0 < x" for xs n
    using that by (induction xs) (cases n; simp)+
  have "\<forall>x \<in> set ?sp. 0 < x" "\<forall>x \<in> set ?de. 0 < x" using pos by (auto dest: in_set_takeD in_set_dropD)
  then show "metadata_sizes (metadata_of t) = sp_sizes t" by (simp add: metadata_sizes_def t1 t2 tw)
  show "metadata_nnz (metadata_of t) = nnz t" by (simp add: metadata_nnz_def t3)
  show "length (metadata_of t) = metadata_dim" unfolding m metadata_dim_def using gen [OF l] by blast
qed

lemma populate_wf: "wf_sparse t \<Longrightarrow> populate_from_sparse_tensor t (replicate metadata_dim 0) = Inr (metadata_of t)"
  by (rule populate_metadata) (simp_all add: wf_sparse_def)

subsection \<open>One process of a sparse all-reduce\<close>

lemma length_concat_rows: "\<forall>row \<in> set xss. length row = n \<Longrightarrow> length (concat xss) = length xss * n"
  by (induction xss) auto

lemma allgather_metadata_result:
  assumes "wf_sparse t" and "ag (metadata_of t) = concat (map metadata_of ts)" and "\<forall>u \<in> set ts. wf_sparse u"
  shows "allgather_metadata ag (length ts) t = Inr (map metadata_of ts)"
proof -
  have "\<forall>x \<in> set (map metadata_of ts). length x = metadata_dim" using assms(3) metadata_roundtrip(3) by auto
  from flat_rows_concat [OF this] show ?thesis
    by (simp add: allgather_metadata_def populate_wf [OF assms(1)] assms(2))
qed

lemma sizes_agree_same:
  "\<forall>m \<in> set ms. metadata_sizes m = expected \<Longrightarrow> sizes_agree expected rank i ms = Inr ()"
  by (induction ms arbitrary: i) auto

lemma allgather_indices_result:
  assumes "\<forall>u \<in> set ts. wf_sparse u \<and> sp_sparse_dim u = sp_sparse_dim t"
    and "agv (concat (sp_indices t)) (map (\<lambda>u. nnz u * sp_sparse_dim t) ts) = concat (map (\<lambda>u. concat (sp_indices u)) ts)"
  shows "allgather_indices agv t (map metadata_of ts) = Inr (map sp_indices ts)"
proof -
  have nz: "metadata_nnz (metadata_of u) = nnz u" if "u \<in> set ts" for u using assms(1) that metadata_roundtrip(2) by blast
  have rows: "(\<forall>row \<in> set (sp_indices u). length row = nnz u) \<and> length (sp_indices u) = sp_sparse_dim t" if "u \<in> set ts" for u
    using assms(1) that by (auto simp: wf_sparse_def)
  have lens: "map (\<lambda>m. sp_sparse_dim t * metadata_nnz m) (map metadata_of ts) = map length (map (\<lambda>u. concat (sp_indices u)) ts)"
    using rows nz length_concat_rows by (fastforce simp: comp_def)
  have counts: "map (\<lambda>m. metadata_nnz m * sp_sparse_dim t) (map metadata_of ts) = map (\<lambda>u. nnz u * sp_sparse_dim t) ts"
    using nz by simp
  have again: "reshape_rows (sp_sparse_dim t) (metadata_nnz (metadata_of u)) (concat (sp_indices u)) = sp_indices u"
    if "u \<in> set ts" for u using rows [OF that] nz [OF that] by (simp add: reshape_concat)
  have "map (\<lambda>(m, xs). reshape_rows (sp_sparse_dim t) (metadata_nnz m) xs)
      (zip (map metadata_of ts) (map (\<lambda>u. concat (sp_indices u)) ts)) = map sp_indices ts"
    using again by (auto simp: zip_map_map zip_same_conv_map comp_def)
  then show ?thesis by (simp only: allgather_indices_def Let_def lens counts assms(2) narrow_loop_concat bindE_simps)
qed

lemma allgather_values_result:
  assumes "generate_all_types dtype = Inr b" and "\<forall>u \<in> set ts. wf_sparse u \<and> denseNumel u = denseNumel t"
    and "agv (concat (sp_values t)) (map (\<lambda>u. nnz u * denseNumel t) ts) = concat (map (\<lambda>u. concat (sp_values u)) ts)"
  shows "allgather_values agv dtype t (map metadata_of ts) = Inr (map sp_values ts)"
proof -
  have nz: "metadata_nnz (metadata_of u) = nnz u" if "u \<in> set ts" for u using assms(2) that metadata_roundtrip(2) by blast
  have rows: "(\<forall>row \<in> set (sp_values u). length row = denseNumel t) \<and> length (sp_values u) = nnz u" if "u \<in> set ts" for u
    using assms(2) that by (auto simp: wf_sparse_def nnz_def)
  have lens: "map (\<lambda>m. denseNumel t * metadata_nnz m) (map metadata_of ts) = map length (map (\<lambda>u. concat (sp_values u)) ts)"
    using rows nz length_concat_rows by (fastforce simp: comp_def)
  have counts: "map (\<lambda>m. metadata_nnz m * denseNumel t) (map metadata_of ts) = map (\<lambda>u. nnz u * denseNumel t) ts"
    using nz by simp
  have again: "reshape_rows (metadata_nnz (metadata_of u)) (denseNumel t) (concat (sp_values u)) = sp_values u"
    if "u \<in> set ts" for u using rows [OF that] nz [OF that] by (simp add: reshape_concat)
  have "map (\<lambda>(m, xs). reshape_rows (metadata_nnz m) (denseNumel t) xs)
      (zip (map metadata_of ts) (map (\<lambda>u. concat (sp_values u)) ts)) = map sp_values ts"
    using again by (auto simp: zip_map_map zip_same_conv_map comp_def)
  then show ?thesis by (simp only: allgather_values_def Let_def assms(1) lens counts assms(3) narrow_loop_concat bindE_simps)
qed

lemma sparse_allreduce_result:
  assumes "generate_all_types dtype = Inr b" and "rank < length ts"
    and "\<forall>u \<in> set ts. wf_sparse u \<and> sp_sizes u = sp_sizes (ts ! rank) \<and> sp_sparse_dim u = sp_sparse_dim (ts ! rank)"
    and "coalesce (foldl add_to (tensors ! 0) (tl tensors)) = ts ! rank"
    and "ag (metadata_of (ts ! rank)) = concat (map metadata_of ts)"
    and "agv_int (concat (sp_indices (ts ! rank))) (map (\<lambda>u. nnz u * sp_sparse_dim (ts ! rank)) ts) =
      concat (map (\<lambda>u. concat (sp_indices u)) ts)"
    and "agv (concat (sp_values (ts ! rank))) (map (\<lambda>u. nnz u * denseNumel (ts ! rank)) ts) =
      concat (map (\<lambda>u. concat (sp_values u)) ts)"
  shows "sparse_allreduce add_to coalesce ag agv_int agv dtype rank (length ts) tensors =
    Inr (coalesce (foldl add_to (ts ! 0) (tl ts)))"
proof -
  let ?t = "ts ! rank"
  have wf: "\<forall>u \<in> set ts. wf_sparse u" "wf_sparse ?t" using assms(2,3) by auto
  have dn: "\<forall>u \<in> set ts. wf_sparse u \<and> denseNumel u = denseNumel ?t" using assms(3) by (simp add: denseNumel_def)
  have md: "allgather_metadata ag (length ts) ?t = Inr (map metadata_of ts)"
    using wf assms(5) by (intro allgather_metadata_result)
  have "\<forall>m \<in> set (map metadata_of ts). metadata_sizes m = sp_sizes ?t"
    using assms(3) by (auto simp: metadata_roundtrip(1))
  then have sz: "sizes_agree (metadata_sizes (map metadata_of ts ! rank)) rank 0 (map metadata_of ts) = Inr ()"
    using assms(2) by (intro sizes_agree_same) auto
  have ind: "allgather_indices agv_int ?t (map metadata_of ts) = Inr (map sp_indices ts)"
    using assms(3,6) by (intro allgather_indices_result) auto
  have val: "allgather_values agv dtype ?t (map metadata_of ts) = Inr (map sp_values ts)"
    using dn assms(1,7) by (intro allgather_values_result)
  have "sparse_coo_tensor (sp_indices u) (sp_values u) ?t = u" if "u \<in> set ts" for u
  proof -
    have "sp_sizes ?t = sp_sizes u" "sp_sparse_dim ?t = sp_sparse_dim u" using assms(3) that by auto
    then show ?thesis by (simp add: sparse_coo_tensor_def)
  qed
  then have "map (\<lambda>(i, v). sparse_coo_tensor i v ?t) (zip (map sp_indices ts) (map sp_values ts)) = ts"
    by (simp add: zip_map_map zip_same_conv_map comp_def map_idI)
  then show ?thesis unfolding sparse_allreduce_def Let_def assms(4) md bindE_simps sz ind val by simp
qed

section \<open>Properties\<close>

text \<open>
  C22. A sparse all-reduce leaves in every input of a process the coalesced sum of the tensors of all
  processes, when their sizes and their number of sparse dimensions agree and the library's gathers
  return the concatenation of what the processes put in. The order of the sum is the order of the
  ranks, so every process gets the same tensor.
\<close>

theorem gloo_sparse_allreduce_sums:
  assumes "generate_all_types dtype = Inr b" and "rank < length ts"
    and "\<forall>u \<in> set ts. wf_sparse u \<and> sp_sizes u = sp_sizes (ts ! rank) \<and> sp_sparse_dim u = sp_sparse_dim (ts ! rank)"
    and "coalesce (foldl add_to (tensors ! 0) (tl tensors)) = ts ! rank"
    and "ag (metadata_of (ts ! rank)) = concat (map metadata_of ts)"
    and "agv_int (concat (sp_indices (ts ! rank))) (map (\<lambda>u. nnz u * sp_sparse_dim (ts ! rank)) ts) =
      concat (map (\<lambda>u. concat (sp_indices u)) ts)"
    and "agv (concat (sp_values (ts ! rank))) (map (\<lambda>u. nnz u * denseNumel (ts ! rank)) ts) =
      concat (map (\<lambda>u. concat (sp_values u)) ts)"
  shows "AsyncSparseAllreduceWork_run add_to coalesce ag agv_int agv dtype rank (length ts) tensors =
    Inr (replicate (length tensors) (coalesce (foldl add_to (ts ! 0) (tl ts))))"
proof -
  have "sparse_allreduce add_to coalesce ag agv_int agv dtype rank (length ts) tensors =
      Inr (coalesce (foldl add_to (ts ! 0) (tl ts)))"
    using assms by (rule sparse_allreduce_result)
  then show ?thesis by (simp add: AsyncSparseAllreduceWork_run_def map_replicate_const)
qed

definition example_sparse :: "int \<Rightarrow> int \<Rightarrow> int sparse" where
  "example_sparse i v = \<lparr>sp_sizes = [5, 2], sp_sparse_dim = 1, sp_indices = [[i]], sp_values = [[v, v + 1]]\<rparr>"

definition append_sparse :: "int sparse \<Rightarrow> int sparse \<Rightarrow> int sparse" where
  "append_sparse t u = t\<lparr>sp_indices := map2 (@) (sp_indices t) (sp_indices u), sp_values := sp_values t @ sp_values u\<rparr>"

theorem gloo_sparse_allreduce_sums_witness:
  "AsyncSparseAllreduceWork_run append_sparse (\<lambda>t. t) (\<lambda>_. [5, 0, 0, 0, 2, 0, 0, 0, 1, 5, 0, 0, 0, 2, 0, 0, 0, 1])
     (\<lambda>_ _. [3, 4]) (\<lambda>_ _. [7, 8, 9, 10]) kLong 1 2 [example_sparse 4 9] =
   Inr [\<lparr>sp_sizes = [5, 2], sp_sparse_dim = 1, sp_indices = [[3, 4]], sp_values = [[7, 8], [9, 10]]\<rparr>]"
proof -
  have "AsyncSparseAllreduceWork_run append_sparse (\<lambda>t. t) (\<lambda>_. [5, 0, 0, 0, 2, 0, 0, 0, 1, 5, 0, 0, 0, 2, 0, 0, 0, 1])
      (\<lambda>_ _. [3, 4]) (\<lambda>_ _. [7, 8, 9, 10]) kLong 1 (length [example_sparse 3 7, example_sparse 4 9]) [example_sparse 4 9] =
    Inr (replicate (length [example_sparse 4 9])
      (foldl append_sparse ([example_sparse 3 7, example_sparse 4 9] ! 0) (tl [example_sparse 3 7, example_sparse 4 9])))"
    by (rule gloo_sparse_allreduce_sums [where b = True])
      (simp_all add: example_sparse_def append_sparse_def wf_sparse_def metadata_of_def nnz_def dense_dim_def denseNumel_def
        eval_nat_numeral)
  then show ?thesis by (simp add: example_sparse_def append_sparse_def numeral_2_eq_2)
qed

text \<open>
  A coalesced all-reduce is the all-reduce of each tensor: after the run tensor \<open>k\<close> of the process
  is the elementwise reduction of the processes' tensors \<open>k\<close>, when the tensors have the same lengths
  on every process and the library reduces the one flat buffer. The run never fills \<^verbatim>\<open>outputs_\<close>, which
  \<^verbatim>\<open>result()\<close> returns.
\<close>

theorem gloo_coalesced_per_tensor:
  assumes "getFunction dtype op = Inr fn" and "rank < length ranks" and "\<forall>r \<in> set ranks. map length r = ns"
    and "gloo_allreduce fn [concat (ranks ! rank)] = [reduce_all f (map concat ranks)]"
  shows "AsyncAllreduceCoalescedWork_run gloo_allreduce dtype op (ranks ! rank) =
    Inr (map (\<lambda>k. reduce_all f (map (\<lambda>r. r ! k) ranks)) [0..<length ns], [])"
proof -
  let ?out = "map (\<lambda>k. reduce_all f (map (\<lambda>r. r ! k) ranks)) [0..<length ns]"
  have ne: "ranks \<noteq> []" using assms(2) by auto
  have hd: "map length (hd ranks) = ns" "map length (ranks ! rank) = ns" using assms(2,3) ne by auto
  have "hd (map (\<lambda>r. r ! k) ranks) = hd ranks ! k" for k using ne by (cases ranks) simp_all
  then have "map length ?out = map (\<lambda>k. length (hd ranks ! k)) [0..<length ns]" by simp
  also have "\<dots> = ns" using hd(1) by (auto intro!: nth_equalityI)
  finally have lens: "map length ?out = ns" .
  have "reduce_all f (map concat ranks) = concat ?out" by (rule reduce_all_concat [OF ne assms(3)])
  moreover obtain b where "generate_all_types dtype = Inr b" using getFunction_typed [OF assms(1)] by blast
  ultimately show ?thesis
    using slice_loop_concat [of "[]" ?out "[]"] lens hd(2) assms(4)
    by (simp add: AsyncAllreduceCoalescedWork_run_def AsyncAllreduceWork_allreduce_def assms(1) del: map_map)
qed

theorem gloo_coalesced_per_tensor_witness:
  "AsyncAllreduceCoalescedWork_run (\<lambda>_ _. [[5, 7, 9]]) kLong SUM_op [[1::int, 2], [3]] = Inr ([[5, 7], [9]], [])"
  using gloo_coalesced_per_tensor [of kLong SUM_op Gloo_sum 0 "[[[1::int, 2], [3]], [[4, 5], [6]]]" "[2, 1]" "\<lambda>_ _. [[5, 7, 9]]" "(+)"]
  by (simp add: getFunction_def reduce_all_def eval_nat_numeral upt_rec)

text \<open>
  A broadcast leaves the root's contents in every tensor of the process, whatever they held.
\<close>

theorem gloo_broadcast_delivers:
  assumes "generate_all_types dtype = Inr b" and "rootTensor < length inputs" and "gloo_broadcast (inputs ! rootTensor) = data"
  shows "AsyncBroadcastWork_run gloo_broadcast dtype rootTensor inputs = Inr (replicate (length inputs) data)"
proof -
  let ?in = "inputs[rootTensor := data]"
  have "copy_to_others rootTensor [0..<length ?in] ?in = map (\<lambda>_. data) [0..<length ?in]"
    using assms(2) by (subst copy_to_others_result) simp_all
  then show ?thesis
    using assms(1,3) by (simp add: AsyncBroadcastWork_run_def AsyncBroadcastWork_broadcast_def map_replicate_const)
qed

theorem gloo_broadcast_delivers_witness:
  "AsyncBroadcastWork_run (\<lambda>_. [7::int, 8]) kInt 1 [[0, 0], [1, 1], [2, 2]] = Inr [[7, 8], [7, 8], [7, 8]]"
  using gloo_broadcast_delivers [of kInt True 1 "[[0, 0], [1, 1], [2, 2]]" "\<lambda>_. [7::int, 8]" "[7, 8]"]
  by (simp add: eval_nat_numeral)

text \<open>
  A coalesced all-gather puts tensor \<open>k\<close> of process \<open>j\<close> into \<^verbatim>\<open>output_lists[j][k]\<close>: the narrow calls
  never leave the flat buffer, and cutting it by the lengths of the outputs returns the inputs of all
  processes.
\<close>

theorem gloo_allgather_coalesced_delivers:
  assumes "generate_all_types dtype = Inr b" and "map (map length) output_lists = map (map length) ranks"
    and "gloo_allgather (concat input_list) = concat (map concat ranks)"
  shows "AsyncAllgatherCoalescedWork_run gloo_allgather dtype output_lists input_list = Inr ranks"
proof -
  have 1: "concat (map (map length) output_lists) = map length (concat ranks)"
    unfolding assms(2) by (simp add: map_concat)
  have "map length (map (map length) output_lists) = map length (map (map length) ranks)" using assms(2) by simp
  then have 2: "map length output_lists = map length ranks" by (simp add: comp_def)
  have 3: "concat (map concat ranks) = concat (concat ranks)" by (induction ranks) simp_all
  show ?thesis
    using slice_loop_concat [of "[]" ranks "[]"]
    by (simp add: AsyncAllgatherCoalescedWork_run_def assms(1) 1 2 assms(3) 3 narrow_loop_concat)
qed

theorem gloo_allgather_coalesced_delivers_witness:
  "AsyncAllgatherCoalescedWork_run (\<lambda>_. [1, 2, 3, 4, 5, 6]) kLong [[[0, 0], [0]], [[0, 0], [0]]] [[1, 2], [3::int]] =
   Inr [[[1, 2], [3]], [[4, 5], [6]]]"
  by (rule gloo_allgather_coalesced_delivers [where b = True]) simp_all

text \<open>
  The size check of the sparse all-reduce compares the sizes without the split into sparse and
  dense dimensions: it accepts two tensors of equal sizes whatever their numbers of sparse dimensions,
  although the indices are gathered with the local number.
\<close>

theorem gloo_sparse_split_unchecked:
  assumes "wf_sparse t" and "wf_sparse u" and "sp_sizes t = sp_sizes u"
  shows "sizes_agree (metadata_sizes (metadata_of t)) 0 0 [metadata_of t, metadata_of u] = Inr ()"
  using assms by (simp add: metadata_roundtrip)

theorem gloo_sparse_split_unchecked_witness:
  "let t = \<lparr>sp_sizes = [2, 3], sp_sparse_dim = 1, sp_indices = [[0]], sp_values = [[1, 2, 3::int]]\<rparr>;
       u = \<lparr>sp_sizes = [2, 3], sp_sparse_dim = 2, sp_indices = [[0], [1]], sp_values = [[4::int]]\<rparr>
   in sizes_agree (metadata_sizes (metadata_of t)) 0 0 [metadata_of t, metadata_of u] = Inr () \<and>
      sp_sparse_dim t \<noteq> sp_sparse_dim u"
  unfolding Let_def
  by (intro conjI gloo_sparse_split_unchecked) (simp_all add: wf_sparse_def dense_dim_def nnz_def denseNumel_def)

end
