(* ===== verification/MPI_Collectives.thy ===== *)
theory MPI_Collectives
  imports Gloo_Runs
begin

text \<open>
  The collectives of \<^verbatim>\<open>ProcessGroupMPI.cpp\<close>: the checks of their arguments (lines 47 to 93),
  the \<^verbatim>\<open>WorkEntry\<close> each hands to the worker thread, and the closures the worker runs (lines 321
  to 817). A closure is split at the one MPI function it calls: the call it makes, the tensor MPI
  writes, and what it does with the buffer afterwards. The MPI library is an argument: what a call
  answers and what it leaves in the buffer it writes. Theorems about several processes assume the
  answers the MPI standard documents for matching calls. Tensors live in a memory, so that a tensor
  in two lists is one tensor; views that overlap in part are not modelled.
\<close>

section \<open>MPI and ATen as the file uses them\<close>

datatype MPI_Op = MPI_MIN | MPI_MAX | MPI_SUM | MPI_PROD

datatype MPI_Datatype = MPI_UNSIGNED_CHAR | MPI_CHAR | MPI_DOUBLE | MPI_FLOAT | MPI_INT | MPI_LONG | MPI_SHORT

fun mpiOp :: "ReduceOp \<Rightarrow> MPI_Op res" where
  "mpiOp MIN_op = Inr MPI_MIN"
| "mpiOp MAX_op = Inr MPI_MAX"
| "mpiOp SUM_op = Inr MPI_SUM"
| "mpiOp PRODUCT = Inr MPI_PROD"
| "mpiOp _ = Inl (Out_of_range ''map::at'')"

fun mpiDatatype :: "ScalarType \<Rightarrow> MPI_Datatype res" where
  "mpiDatatype kByte = Inr MPI_UNSIGNED_CHAR"
| "mpiDatatype kChar = Inr MPI_CHAR"
| "mpiDatatype kDouble = Inr MPI_DOUBLE"
| "mpiDatatype kFloat = Inr MPI_FLOAT"
| "mpiDatatype kInt = Inr MPI_INT"
| "mpiDatatype kLong = Inr MPI_LONG"
| "mpiDatatype kShort = Inr MPI_SHORT"
| "mpiDatatype _ = Inl (Out_of_range ''map::at'')"

definition MPI_SUCCESS :: int where "MPI_SUCCESS = 0"

definition MPI_CHECK :: "int \<Rightarrow> unit res" where
  "MPI_CHECK mpiStatus = (if mpiStatus \<noteq> MPI_SUCCESS then Inl (Runtime_error ''MPI error in: '') else Inr ())"

text \<open>
  A tensor: what the checks see of it, whether it is contiguous, whether \<^verbatim>\<open>view({-1})\<close> exists, and
  the address of its elements. A buffer argument is given by its contents; \<open>None\<close> is
  \<^verbatim>\<open>MPI_IN_PLACE\<close> for a send buffer of \<^verbatim>\<open>MPI_Reduce\<close> and a null pointer elsewhere.
\<close>

record mpi_tensor =
  mt_tensor :: tensor
  mt_contiguous :: bool
  mt_flat :: bool
  mt_data :: nat

type_synonym 'v memory = "nat \<Rightarrow> 'v list"

datatype 'v mpi_call =
    MPI_Bcast "'v list" int MPI_Datatype int
  | MPI_Allreduce "'v list" int MPI_Datatype MPI_Op
  | MPI_Reduce "'v list option" "'v list option" int MPI_Datatype MPI_Op int
  | MPI_Allgather "'v list" int MPI_Datatype "'v list" int MPI_Datatype
  | MPI_Gather "'v list" int MPI_Datatype "'v list option" int MPI_Datatype int
  | MPI_Scatter "'v list option" int MPI_Datatype "'v list" int MPI_Datatype int
  | MPI_Alltoall "'v list" int MPI_Datatype "'v list" int MPI_Datatype
  | MPI_Alltoallv "'v list" "int list" "int list" MPI_Datatype "'v list" "int list" "int list" MPI_Datatype
  | MPI_Barrier

text \<open>
  What the file relies on: the MPI library (\<open>env_call\<close>: status and contents of the written buffer;
  \<open>env_cuda\<close>: the answer of \<^verbatim>\<open>MPIX_Query_cuda_support\<close>, if the macro is defined), the scalar type
  of a tensor type, the conversion \<^verbatim>\<open>copy_\<close> makes between scalar types, and the contents of a
  new tensor.
\<close>

record 'v mpi_env =
  env_call :: "'v mpi_call \<Rightarrow> int \<times> 'v list"
  env_cuda :: "int option"
  env_scalar :: "nat \<Rightarrow> ScalarType"
  env_convert :: "ScalarType \<Rightarrow> ScalarType \<Rightarrow> 'v \<Rightarrow> 'v"
  env_empty :: "nat \<Rightarrow> 'v list"

definition mt_numel :: "mpi_tensor \<Rightarrow> int" where
  "mt_numel t = numel (mt_tensor t)"

definition mt_type :: "mpi_tensor \<Rightarrow> nat" where
  "mt_type t = t_type (mt_tensor t)"

definition scalar_type :: "'v mpi_env \<Rightarrow> mpi_tensor \<Rightarrow> ScalarType" where
  "scalar_type env t = env_scalar env (mt_type t)"

section \<open>Checks\<close>

definition cudaAwareMpiCheck :: "int option \<Rightarrow> bool" where
  "cudaAwareMpiCheck support = (case support of Some r \<Rightarrow> r = 1 | None \<Rightarrow> False)"

definition checkSingleTensorHelper :: "int option \<Rightarrow> mpi_tensor \<Rightarrow> unit res" where
  "checkSingleTensorHelper cuda t =
     (if \<not> mt_contiguous t then Inl (Runtime_error ''input tensor has to be contiguous'')
      else if t_layout (mt_tensor t) = Sparse then Inl (Runtime_error ''input tensor has to be dense'')
      else if t_device_type (mt_tensor t) = CUDA \<and> \<not> cudaAwareMpiCheck cuda
      then Inl (Runtime_error ''CUDA tensor detected and the MPI used doesn't have CUDA-aware MPI support'')
      else Inr ())"

definition mpi_checkSingleTensor :: "int option \<Rightarrow> mpi_tensor list \<Rightarrow> unit res" where
  "mpi_checkSingleTensor cuda tensors =
     (if length tensors \<noteq> 1 then Inl (Runtime_error ''MPI process group does not support multi-GPU collectives'')
      else checkSingleTensorHelper cuda (tensors ! 0))"

fun checkSameSizeAndType :: "int option \<Rightarrow> mpi_tensor \<Rightarrow> mpi_tensor list \<Rightarrow> unit res" where
  "checkSameSizeAndType cuda tensor [] = Inr ()"
| "checkSameSizeAndType cuda tensor (t # ts) =
     (if mt_numel t \<noteq> mt_numel tensor \<or> mt_type t \<noteq> mt_type tensor
      then Inl (Runtime_error ''Tensors are not equal in size or data type'')
      else bindE (checkSingleTensorHelper cuda t) (\<lambda>_. checkSameSizeAndType cuda tensor ts))"

section \<open>Work entries\<close>

text \<open>The closures, by the variables they capture besides \<^verbatim>\<open>this\<close>.\<close>

datatype run_func =
    Run_broadcast int
  | Run_allreduce ReduceOp
  | Run_reduce ReduceOp int
  | Run_allgather
  | Run_gather int
  | Run_scatter int
  | Run_alltoall_even
  | Run_alltoall_splits "int list" "int list"
  | Run_alltoall
  | Run_barrier

record WorkEntry =
  we_src :: "mpi_tensor list"
  we_dst :: "mpi_tensor list"
  we_run :: run_func

definition new_entry :: "mpi_tensor list option \<Rightarrow> mpi_tensor list option \<Rightarrow> run_func \<Rightarrow> WorkEntry" where
  "new_entry srcPtr dstPtr run =
     \<lparr>we_src = (case srcPtr of Some s \<Rightarrow> s | None \<Rightarrow> []), we_dst = (case dstPtr of Some d \<Rightarrow> d | None \<Rightarrow> []), we_run = run\<rparr>"

text \<open>The collectives up to the entry they enqueue; \<open>rank\<close> and \<open>world\<close> are those of the group.\<close>

definition mpi_broadcast :: "int option \<Rightarrow> mpi_tensor list \<Rightarrow> int \<Rightarrow> WorkEntry res" where
  "mpi_broadcast cuda tensors rootRank =
     bindE (mpi_checkSingleTensor cuda tensors) (\<lambda>_. Inr (new_entry (Some tensors) None (Run_broadcast rootRank)))"

definition mpi_allreduce :: "int option \<Rightarrow> mpi_tensor list \<Rightarrow> ReduceOp \<Rightarrow> WorkEntry res" where
  "mpi_allreduce cuda tensors reduceOp =
     bindE (mpi_checkSingleTensor cuda tensors) (\<lambda>_. Inr (new_entry (Some tensors) None (Run_allreduce reduceOp)))"

definition mpi_allreduce_coalesced :: "WorkEntry res" where
  "mpi_allreduce_coalesced = Inl (Runtime_error ''allreduce_coalesced is currently not supported with MPI'')"

definition mpi_reduce :: "int option \<Rightarrow> mpi_tensor list \<Rightarrow> ReduceOp \<Rightarrow> int \<Rightarrow> WorkEntry res" where
  "mpi_reduce cuda tensors reduceOp rootRank =
     bindE (mpi_checkSingleTensor cuda tensors) (\<lambda>_. Inr (new_entry (Some tensors) None (Run_reduce reduceOp rootRank)))"

definition mpi_allgather :: "int option \<Rightarrow> int \<Rightarrow> mpi_tensor list list \<Rightarrow> mpi_tensor list \<Rightarrow> WorkEntry res" where
  "mpi_allgather cuda world outputTensors inputTensors =
     bindE (mpi_checkSingleTensor cuda inputTensors) (\<lambda>_.
     if length outputTensors \<noteq> 1 then Inl (Runtime_error ''MPI process group only supports a single tensor op'')
     else if nat world \<noteq> length (outputTensors ! 0)
     then Inl (Runtime_error ''All gather: number of output tensors should equal to the world size'')
     else bindE (checkSameSizeAndType cuda (inputTensors ! 0) (outputTensors ! 0)) (\<lambda>_.
          Inr (new_entry (Some inputTensors) (Some (outputTensors ! 0)) Run_allgather)))"

definition mpi_allgather_coalesced :: "WorkEntry res" where
  "mpi_allgather_coalesced = Inl (Runtime_error ''ProcessGroupMPI does not support allgather_coalesced'')"

definition mpi_gather ::
    "int option \<Rightarrow> int \<Rightarrow> int \<Rightarrow> mpi_tensor list list \<Rightarrow> mpi_tensor list \<Rightarrow> int \<Rightarrow> WorkEntry res" where
  "mpi_gather cuda rank world outputTensors inputTensors rootRank =
     bindE (mpi_checkSingleTensor cuda inputTensors) (\<lambda>_.
     bindE (if rank \<noteq> rootRank then
              (if length outputTensors > 0
               then Inl (Runtime_error ''Gather: number of output tensors should be 0 for non-root'') else Inr ())
            else if length outputTensors \<noteq> 1 then Inl (Runtime_error ''Gather: multi-GPU collective is not supported'')
            else if nat world \<noteq> length (outputTensors ! 0)
            then Inl (Runtime_error ''Gather: number of output tensors should equal to the world size'')
            else checkSameSizeAndType cuda (inputTensors ! 0) (outputTensors ! 0)) (\<lambda>_.
     Inr (if rank = rootRank then new_entry (Some inputTensors) (Some (outputTensors ! 0)) (Run_gather rootRank)
          else new_entry (Some inputTensors) None (Run_gather rootRank))))"

definition mpi_scatter ::
    "int option \<Rightarrow> int \<Rightarrow> int \<Rightarrow> mpi_tensor list \<Rightarrow> mpi_tensor list list \<Rightarrow> int \<Rightarrow> WorkEntry res" where
  "mpi_scatter cuda rank world outputTensors inputTensors rootRank =
     bindE (mpi_checkSingleTensor cuda outputTensors) (\<lambda>_.
     bindE (if rank \<noteq> rootRank then
              (if length inputTensors > 0
               then Inl (Runtime_error ''Scatter: number of input tensors should be 0 for non-root'') else Inr ())
            else if length inputTensors \<noteq> 1 then Inl (Runtime_error ''Scatter: multi-GPU collective is not supported'')
            else if nat world \<noteq> length (inputTensors ! 0)
            then Inl (Runtime_error ''Scatter: number of input tensors should equal to the world size'')
            else checkSameSizeAndType cuda (outputTensors ! 0) (inputTensors ! 0)) (\<lambda>_.
     Inr (if rank = rootRank then new_entry (Some (inputTensors ! 0)) (Some outputTensors) (Run_scatter rootRank)
          else new_entry None (Some outputTensors) (Run_scatter rootRank))))"

definition mpi_reduce_scatter :: "WorkEntry res" where
  "mpi_reduce_scatter = Inl (Runtime_error ''ProcessGroupMPI does not support reduce_scatter'')"

definition mpi_alltoall_base ::
    "int option \<Rightarrow> int \<Rightarrow> mpi_tensor \<Rightarrow> mpi_tensor \<Rightarrow> int list \<Rightarrow> int list \<Rightarrow> WorkEntry res" where
  "mpi_alltoall_base cuda world outputTensor inputTensor outputSplitSizes inputSplitSizes =
     bindE (checkSingleTensorHelper cuda inputTensor) (\<lambda>_.
     bindE (checkSingleTensorHelper cuda outputTensor) (\<lambda>_.
     if outputSplitSizes = [] \<and> inputSplitSizes = [] then
       if \<not> (mt_numel outputTensor = mt_numel inputTensor \<and> mt_type outputTensor = mt_type inputTensor)
       then Inl (C10_error ''Tensors are not equal in size or data type'')
       else bindE (size0 (mt_tensor outputTensor)) (\<lambda>dim0.
         if world = 0 then Inl Undefined
         else if dim0 mod world \<noteq> 0
         then Inl (C10_error ''Tensor's dim 0 does not divide equally across group size'')
         else Inr (new_entry (Some [inputTensor]) (Some [outputTensor]) Run_alltoall_even))
     else
       bindE (checkSplitSizes inputSplitSizes (mt_tensor inputTensor) world) (\<lambda>_.
       bindE (checkSplitSizes outputSplitSizes (mt_tensor outputTensor) world) (\<lambda>_.
       Inr (new_entry (Some [inputTensor]) (Some [outputTensor])
              (Run_alltoall_splits inputSplitSizes outputSplitSizes))))))"

definition mpi_alltoall :: "int \<Rightarrow> mpi_tensor list \<Rightarrow> mpi_tensor list \<Rightarrow> WorkEntry res" where
  "mpi_alltoall world outputTensors inputTensors =
     (if int (length inputTensors) \<noteq> world
      then Inl (C10_error ''Number of input tensors are not equal to group size'')
      else if int (length outputTensors) \<noteq> world
      then Inl (C10_error ''Number of output tensors are not equal to group size'')
      else Inr (new_entry (Some inputTensors) (Some outputTensors) Run_alltoall))"

definition mpi_barrier :: "WorkEntry res" where
  "mpi_barrier = Inr (new_entry None None Run_barrier)"

definition mpi_allgather_base :: "WorkEntry res" where
  "mpi_allgather_base = Inl (Runtime_error ''no support for allgather_base in MPI process group'')"

section \<open>What the worker runs\<close>

text \<open>\<^verbatim>\<open>operator[]\<close> of a \<^verbatim>\<open>std::vector\<close>.\<close>

definition elem_at :: "'a list \<Rightarrow> nat \<Rightarrow> 'a res" where
  "elem_at xs i = (if i < length xs then Inr (xs ! i) else Inl Undefined)"

definition read_elems :: "mpi_tensor \<Rightarrow> ('v memory, 'v list) cmd" where
  "read_elems t = getM (\<lambda>m. m (mt_data t))"

definition store_elems :: "mpi_tensor \<Rightarrow> 'v list \<Rightarrow> ('v memory, unit) cmd" where
  "store_elems t xs = modifyM (\<lambda>m. m(mt_data t := xs))"

text \<open>
  \<^verbatim>\<open>copy_\<close>: the source is expanded to the sizes of the destination and converted to its scalar
  type. At every call of the file the two have the same number of elements.
\<close>

definition expandable :: "int list \<Rightarrow> int list \<Rightarrow> bool" where
  "expandable src dst =
     (length src \<le> length dst \<and> list_all2 (\<lambda>s d. s = d \<or> s = 1) src (drop (length dst - length src) dst))"

definition tensor_copy ::
    "'v mpi_env \<Rightarrow> int list \<Rightarrow> ScalarType \<Rightarrow> 'v list \<Rightarrow> int list \<Rightarrow> ScalarType \<Rightarrow> 'v list res" where
  "tensor_copy env srcSizes srcType xs dstSizes dstType =
     (if expandable srcSizes dstSizes then Inr (map (env_convert env srcType dstType) xs)
      else Inl (Runtime_error ''The size of tensor must match the size of tensor''))"

text \<open>\<^verbatim>\<open>view({-1})\<close>, the elements as one row.\<close>

definition view_flat :: "mpi_tensor \<Rightarrow> unit res" where
  "view_flat t = (if mt_flat t then Inr () else Inl (Runtime_error ''view size is not compatible with input tensor''))"

text \<open>Writing \<open>xs\<close> into a buffer at an offset.\<close>

definition overwrite :: "nat \<Rightarrow> 'v list \<Rightarrow> 'v list \<Rightarrow> 'v list" where
  "overwrite off xs buf = take off buf @ xs @ drop (off + length xs) buf"

text \<open>\<^verbatim>\<open>int\<close> arguments from 64-bit numbers of elements.\<close>

definition mpi_count :: "mpi_tensor \<Rightarrow> int" where
  "mpi_count t = wrap32 (mt_numel t)"

definition broadcast_call :: "'v mpi_env \<Rightarrow> int \<Rightarrow> WorkEntry \<Rightarrow> ('v memory, 'v mpi_call) cmd" where
  "broadcast_call env rootRank e =
     bindM (liftM (elem_at (we_src e) 0)) (\<lambda>data.
     bindM (liftM (mpiDatatype (scalar_type env data))) (\<lambda>dt.
     bindM (read_elems data) (\<lambda>buf. returnM (MPI_Bcast buf (mpi_count data) dt rootRank))))"

definition allreduce_call :: "'v mpi_env \<Rightarrow> ReduceOp \<Rightarrow> WorkEntry \<Rightarrow> ('v memory, 'v mpi_call) cmd" where
  "allreduce_call env reduceOp e =
     bindM (liftM (elem_at (we_src e) 0)) (\<lambda>data.
     bindM (liftM (mpiDatatype (scalar_type env data))) (\<lambda>dt.
     bindM (liftM (mpiOp reduceOp)) (\<lambda>op.
     bindM (read_elems data) (\<lambda>buf. returnM (MPI_Allreduce buf (mpi_count data) dt op)))))"

definition reduce_call :: "'v mpi_env \<Rightarrow> int \<Rightarrow> ReduceOp \<Rightarrow> int \<Rightarrow> WorkEntry \<Rightarrow> ('v memory, 'v mpi_call) cmd" where
  "reduce_call env rank reduceOp rootRank e =
     bindM (liftM (elem_at (we_src e) 0)) (\<lambda>data.
     bindM (read_elems data) (\<lambda>buf.
     let sendbuf = (if rank = rootRank then None else Some buf);
         recvbuf = (if rank = rootRank then Some buf else None)
     in bindM (liftM (mpiDatatype (scalar_type env data))) (\<lambda>dt.
        bindM (liftM (mpiOp reduceOp)) (\<lambda>op.
        returnM (MPI_Reduce sendbuf recvbuf (mpi_count data) dt op rootRank)))))"

text \<open>\<^verbatim>\<open>newLikeFlat\<close>: a new tensor with one row per tensor of the list.\<close>

definition new_flat :: "'v mpi_env \<Rightarrow> mpi_tensor list \<Rightarrow> 'v list res" where
  "new_flat env ts = bindE (newLikeFlat1_sizes (map mt_tensor ts)) (\<lambda>sizes. Inr (env_empty env (nat (numel_from 1 sizes))))"

definition allgather_call :: "'v mpi_env \<Rightarrow> WorkEntry \<Rightarrow> ('v memory, 'v mpi_call) cmd" where
  "allgather_call env e =
     bindM (liftM (elem_at (we_src e) 0)) (\<lambda>data.
     bindM (liftM (new_flat env (we_dst e))) (\<lambda>flatOutputTensor.
     bindM (liftM (mpiDatatype (scalar_type env data))) (\<lambda>dt.
     bindM (read_elems data) (\<lambda>buf.
     returnM (MPI_Allgather buf (mpi_count data) dt flatOutputTensor (mpi_count data) dt)))))"

text \<open>The loop that copies the rows of the flat tensor to the outputs.\<close>

fun mpi_copy_rows :: "'v mpi_env \<Rightarrow> mpi_tensor \<Rightarrow> 'v list \<Rightarrow> nat \<Rightarrow> mpi_tensor list \<Rightarrow> ('v memory, unit) cmd" where
  "mpi_copy_rows env like flat i [] = returnM ()"
| "mpi_copy_rows env like flat i (t # ts) =
     bindM (liftM (tensor_copy env (t_sizes (mt_tensor like)) (scalar_type env like)
                     (flat_row flat (nat (mt_numel like)) i) (t_sizes (mt_tensor t)) (scalar_type env t))) (\<lambda>xs.
     bindM (store_elems t xs) (\<lambda>_. mpi_copy_rows env like flat (Suc i) ts))"

definition allgather_return :: "'v mpi_env \<Rightarrow> WorkEntry \<Rightarrow> 'v list \<Rightarrow> ('v memory, unit) cmd" where
  "allgather_return env e flatOutputTensor = mpi_copy_rows env (hd (we_dst e)) flatOutputTensor 0 (we_dst e)"

definition gather_call :: "'v mpi_env \<Rightarrow> int \<Rightarrow> int \<Rightarrow> WorkEntry \<Rightarrow> ('v memory, 'v mpi_call) cmd" where
  "gather_call env rank rootRank e =
     bindM (liftM (elem_at (we_src e) 0)) (\<lambda>data.
     bindM (if rank = rootRank then bindM (liftM (new_flat env (we_dst e))) (\<lambda>flat. returnM (Some flat))
            else returnM None) (\<lambda>recvbuf.
     bindM (liftM (mpiDatatype (scalar_type env data))) (\<lambda>dt.
     bindM (read_elems data) (\<lambda>buf.
     returnM (MPI_Gather buf (mpi_count data) dt recvbuf (mpi_count data) dt rootRank)))))"

definition gather_return :: "'v mpi_env \<Rightarrow> int \<Rightarrow> int \<Rightarrow> WorkEntry \<Rightarrow> 'v list \<Rightarrow> ('v memory, unit) cmd" where
  "gather_return env rank rootRank e flatOutputTensor =
     (if rank = rootRank then mpi_copy_rows env (hd (we_dst e)) flatOutputTensor 0 (we_dst e) else returnM ())"

text \<open>The loop that copies the inputs of a scatter to the rows of the send buffer.\<close>

fun fill_rows :: "'v mpi_env \<Rightarrow> mpi_tensor \<Rightarrow> nat \<Rightarrow> mpi_tensor list \<Rightarrow> 'v list \<Rightarrow> ('v memory, 'v list) cmd" where
  "fill_rows env like i [] flat = returnM flat"
| "fill_rows env like i (t # ts) flat =
     bindM (read_elems t) (\<lambda>buf.
     bindM (liftM (tensor_copy env (t_sizes (mt_tensor t)) (scalar_type env t) buf
                     (t_sizes (mt_tensor like)) (scalar_type env like))) (\<lambda>xs.
     fill_rows env like (Suc i) ts (overwrite (i * nat (mt_numel like)) xs flat)))"

definition scatter_call :: "'v mpi_env \<Rightarrow> int \<Rightarrow> int \<Rightarrow> WorkEntry \<Rightarrow> ('v memory, 'v mpi_call) cmd" where
  "scatter_call env rank rootRank e =
     bindM (liftM (elem_at (we_dst e) 0)) (\<lambda>data.
     bindM (if rank = rootRank
            then bindM (liftM (new_flat env (we_src e))) (\<lambda>flat.
                 bindM (fill_rows env (hd (we_src e)) 0 (we_src e) flat) (\<lambda>flatInputTensor. returnM (Some flatInputTensor)))
            else returnM None) (\<lambda>sendbuf.
     bindM (liftM (mpiDatatype (scalar_type env data))) (\<lambda>dt.
     bindM (read_elems data) (\<lambda>buf.
     returnM (MPI_Scatter sendbuf (mpi_count data) dt buf (mpi_count data) dt rootRank)))))"

definition alltoall_even_call :: "'v mpi_env \<Rightarrow> int \<Rightarrow> WorkEntry \<Rightarrow> ('v memory, 'v mpi_call) cmd" where
  "alltoall_even_call env world e =
     bindM (liftM (elem_at (we_src e) 0)) (\<lambda>srcdata.
     bindM (liftM (elem_at (we_dst e) 0)) (\<lambda>dstdata.
     bindM (liftM (mpiDatatype (scalar_type env srcdata))) (\<lambda>sdt.
     bindM (liftM (mpiDatatype (scalar_type env dstdata))) (\<lambda>ddt.
     bindM (read_elems srcdata) (\<lambda>sbuf.
     bindM (read_elems dstdata) (\<lambda>dbuf.
     returnM (MPI_Alltoall sbuf (wrap32 (mt_numel srcdata div world)) sdt
                dbuf (wrap32 (mt_numel dstdata div world)) ddt)))))))"

text \<open>Lengths and offsets are checked to fit into the \<^verbatim>\<open>int\<close>s that hold them.\<close>

definition int_lengths :: "64 word \<times> (64 word \<times> 64 word) list \<Rightarrow> int list" where
  "int_lengths = (\<lambda>(total, los). map (uint \<circ> fst) los)"

definition int_offsets :: "64 word \<times> (64 word \<times> 64 word) list \<Rightarrow> int list" where
  "int_offsets = (\<lambda>(total, los). map (uint \<circ> snd) los)"

definition alltoall_splits_call ::
    "'v mpi_env \<Rightarrow> int \<Rightarrow> int list \<Rightarrow> int list \<Rightarrow> WorkEntry \<Rightarrow> ('v memory, 'v mpi_call) cmd" where
  "alltoall_splits_call env world inputSplitSizes outputSplitSizes e =
     bindM (liftM (elem_at (we_src e) 0)) (\<lambda>srcdata.
     bindM (liftM (elem_at (we_dst e) 0)) (\<lambda>dstdata.
     bindM (liftM (computeLengthsAndOffsets inputSplitSizes (mt_tensor srcdata) (nat world))) (\<lambda>send.
     bindM (liftM (computeLengthsAndOffsets outputSplitSizes (mt_tensor dstdata) (nat world))) (\<lambda>recv.
     bindM (liftM (mpiDatatype (scalar_type env srcdata))) (\<lambda>sdt.
     bindM (liftM (mpiDatatype (scalar_type env dstdata))) (\<lambda>ddt.
     bindM (read_elems srcdata) (\<lambda>sbuf.
     bindM (read_elems dstdata) (\<lambda>dbuf.
     returnM (MPI_Alltoallv sbuf (int_lengths send) (int_offsets send) sdt
                dbuf (int_lengths recv) (int_offsets recv) ddt)))))))))"

text \<open>
  \<^verbatim>\<open>split_with_sizes\<close> of a flat tensor gives views of consecutive segments; the loops of
  \<^verbatim>\<open>alltoall\<close> over \<open>i < world\<close> write them from the inputs and read them into the outputs.
\<close>

fun split_starts :: "nat \<Rightarrow> nat list \<Rightarrow> nat list" where
  "split_starts start [] = []"
| "split_starts start (len # lens) = start # split_starts (start + len) lens"

definition split_with_sizes :: "nat \<Rightarrow> nat list \<Rightarrow> nat list res" where
  "split_with_sizes n lens =
     (if sum_list lens = n then Inr (split_starts 0 lens)
      else Inl (Runtime_error ''split_with_sizes expects split_sizes to sum exactly to''))"

fun pack_splits ::
    "'v mpi_env \<Rightarrow> mpi_tensor \<Rightarrow> (mpi_tensor \<times> nat) list \<Rightarrow> 'v list \<Rightarrow> ('v memory, 'v list) cmd" where
  "pack_splits env like [] flat = returnM flat"
| "pack_splits env like ((t, off) # ts) flat =
     bindM (liftM (view_flat t)) (\<lambda>_.
     bindM (read_elems t) (\<lambda>buf.
     pack_splits env like ts
       (overwrite off (map (env_convert env (scalar_type env t) (scalar_type env like)) buf) flat)))"

fun unpack_splits ::
    "'v mpi_env \<Rightarrow> mpi_tensor \<Rightarrow> (mpi_tensor \<times> nat \<times> nat) list \<Rightarrow> 'v list \<Rightarrow> ('v memory, unit) cmd" where
  "unpack_splits env like [] flat = returnM ()"
| "unpack_splits env like ((t, off, len) # ts) flat =
     bindM (liftM (view_flat t)) (\<lambda>_.
     bindM (store_elems t (map (env_convert env (scalar_type env like) (scalar_type env t)) (take len (drop off flat)))) (\<lambda>_.
     unpack_splits env like ts flat))"

definition alltoall_call :: "'v mpi_env \<Rightarrow> int \<Rightarrow> WorkEntry \<Rightarrow> ('v memory, 'v mpi_call) cmd" where
  "alltoall_call env world e =
     bindM (liftM (computeLengthsAndOffsets_tensors (map mt_tensor (we_src e)) (nat world))) (\<lambda>send.
     bindM (liftM (computeLengthsAndOffsets_tensors (map mt_tensor (we_dst e)) (nat world))) (\<lambda>recv.
     bindM (liftM (elem_at (we_src e) 0)) (\<lambda>src0.
     bindM (liftM (elem_at (we_dst e) 0)) (\<lambda>dst0.
     let srcFlatData = env_empty env (unat (fst send));
         dstFlatData = env_empty env (unat (fst recv))
     in bindM (liftM (split_with_sizes (unat (fst send)) (map nat (int_lengths send)))) (\<lambda>offs.
        bindM (pack_splits env src0 (zip (we_src e) offs) srcFlatData) (\<lambda>srcFlatData.
        bindM (liftM (mpiDatatype (scalar_type env src0))) (\<lambda>sdt.
        bindM (liftM (mpiDatatype (scalar_type env dst0))) (\<lambda>ddt.
        returnM (MPI_Alltoallv srcFlatData (int_lengths send) (int_offsets send) sdt
                   dstFlatData (int_lengths recv) (int_offsets recv) ddt)))))))))"

definition alltoall_return :: "'v mpi_env \<Rightarrow> int \<Rightarrow> WorkEntry \<Rightarrow> 'v list \<Rightarrow> ('v memory, unit) cmd" where
  "alltoall_return env world e dstFlatData =
     bindM (liftM (computeLengthsAndOffsets_tensors (map mt_tensor (we_dst e)) (nat world))) (\<lambda>recv.
     bindM (liftM (split_with_sizes (unat (fst recv)) (map nat (int_lengths recv)))) (\<lambda>offs.
     unpack_splits env (hd (we_dst e)) (zip (we_dst e) (zip offs (map nat (int_lengths recv)))) dstFlatData))"

text \<open>The three parts of a closure, by its kind.\<close>

fun entry_call :: "'v mpi_env \<Rightarrow> int \<Rightarrow> int \<Rightarrow> run_func \<Rightarrow> WorkEntry \<Rightarrow> ('v memory, 'v mpi_call) cmd" where
  "entry_call env rank world (Run_broadcast root) e = broadcast_call env root e"
| "entry_call env rank world (Run_allreduce op) e = allreduce_call env op e"
| "entry_call env rank world (Run_reduce op root) e = reduce_call env rank op root e"
| "entry_call env rank world Run_allgather e = allgather_call env e"
| "entry_call env rank world (Run_gather root) e = gather_call env rank root e"
| "entry_call env rank world (Run_scatter root) e = scatter_call env rank root e"
| "entry_call env rank world Run_alltoall_even e = alltoall_even_call env world e"
| "entry_call env rank world (Run_alltoall_splits inputs outputs) e = alltoall_splits_call env world inputs outputs e"
| "entry_call env rank world Run_alltoall e = alltoall_call env world e"
| "entry_call env rank world Run_barrier e = returnM MPI_Barrier"

text \<open>The tensor whose elements MPI writes itself.\<close>

fun entry_buffer :: "int \<Rightarrow> run_func \<Rightarrow> WorkEntry \<Rightarrow> mpi_tensor option" where
  "entry_buffer rank (Run_broadcast root) e = Some (we_src e ! 0)"
| "entry_buffer rank (Run_allreduce op) e = Some (we_src e ! 0)"
| "entry_buffer rank (Run_reduce op root) e = (if rank = root then Some (we_src e ! 0) else None)"
| "entry_buffer rank (Run_scatter root) e = Some (we_dst e ! 0)"
| "entry_buffer rank Run_alltoall_even e = Some (we_dst e ! 0)"
| "entry_buffer rank (Run_alltoall_splits inputs outputs) e = Some (we_dst e ! 0)"
| "entry_buffer rank _ e = None"

fun entry_return :: "'v mpi_env \<Rightarrow> int \<Rightarrow> int \<Rightarrow> run_func \<Rightarrow> WorkEntry \<Rightarrow> 'v list \<Rightarrow> ('v memory, unit) cmd" where
  "entry_return env rank world Run_allgather e buf = allgather_return env e buf"
| "entry_return env rank world (Run_gather root) e buf = gather_return env rank root e buf"
| "entry_return env rank world Run_alltoall e buf = alltoall_return env world e buf"
| "entry_return env rank world _ e buf = returnM ()"

definition run_entry :: "'v mpi_env \<Rightarrow> int \<Rightarrow> int \<Rightarrow> WorkEntry \<Rightarrow> ('v memory, unit) cmd" where
  "run_entry env rank world e =
     bindM (entry_call env rank world (we_run e) e) (\<lambda>c.
     let (mpiStatus, buf) = env_call env c
     in bindM (case entry_buffer rank (we_run e) e of Some t \<Rightarrow> store_elems t buf | None \<Rightarrow> returnM ()) (\<lambda>_.
        bindM (liftM (MPI_CHECK mpiStatus)) (\<lambda>_. entry_return env rank world (we_run e) e buf)))"

section \<open>What MPI documents\<close>

text \<open>
  \<open>mpi_answer red calls r c\<close>: what the buffer written by the call \<open>c\<close> of rank \<open>r\<close> holds when rank
  \<open>i\<close> of the communicator makes the matching call \<open>calls ! i\<close>; \<open>red\<close> interprets the reductions.
\<close>

fun mpi_sendbuf :: "'v mpi_call \<Rightarrow> 'v list" where
  "mpi_sendbuf (MPI_Bcast buf n dt root) = buf"
| "mpi_sendbuf (MPI_Allreduce buf n dt op) = buf"
| "mpi_sendbuf (MPI_Reduce (Some s) rb n dt op root) = s"
| "mpi_sendbuf (MPI_Reduce None (Some rb) n dt op root) = rb"
| "mpi_sendbuf (MPI_Allgather s n dt rb n' dt') = s"
| "mpi_sendbuf (MPI_Gather s n dt rb n' dt' root) = s"
| "mpi_sendbuf (MPI_Scatter (Some s) n dt rb n' dt' root) = s"
| "mpi_sendbuf (MPI_Alltoall s n dt rb n' dt') = s"
| "mpi_sendbuf (MPI_Alltoallv s sl so dt rb rl ro dt') = s"
| "mpi_sendbuf _ = []"

fun mpi_send_offset :: "'v mpi_call \<Rightarrow> nat \<Rightarrow> nat" where
  "mpi_send_offset (MPI_Alltoallv s sl so dt rb rl ro dt') r = nat (so ! r)"
| "mpi_send_offset _ r = 0"

fun mpi_answer :: "(MPI_Op \<Rightarrow> 'v \<Rightarrow> 'v \<Rightarrow> 'v) \<Rightarrow> 'v mpi_call list \<Rightarrow> nat \<Rightarrow> 'v mpi_call \<Rightarrow> 'v list" where
  "mpi_answer red calls r (MPI_Bcast buf n dt root) = overwrite 0 (take (nat n) (mpi_sendbuf (calls ! nat root))) buf"
| "mpi_answer red calls r (MPI_Allreduce buf n dt op) =
     overwrite 0 (reduce_all (red op) (map (take (nat n) \<circ> mpi_sendbuf) calls)) buf"
| "mpi_answer red calls r (MPI_Reduce sb (Some rb) n dt op root) =
     overwrite 0 (reduce_all (red op) (map (take (nat n) \<circ> mpi_sendbuf) calls)) rb"
| "mpi_answer red calls r (MPI_Allgather s n dt rb n' dt') =
     overwrite 0 (concat (map (take (nat n) \<circ> mpi_sendbuf) calls)) rb"
| "mpi_answer red calls r (MPI_Gather s n dt (Some rb) n' dt' root) =
     overwrite 0 (concat (map (take (nat n) \<circ> mpi_sendbuf) calls)) rb"
| "mpi_answer red calls r (MPI_Scatter s n dt rb n' dt' root) =
     overwrite 0 (flat_row (mpi_sendbuf (calls ! nat root)) (nat n) r) rb"
| "mpi_answer red calls r (MPI_Alltoall s n dt rb n' dt') =
     overwrite 0 (concat (map (\<lambda>c. flat_row (mpi_sendbuf c) (nat n) r) calls)) rb"
| "mpi_answer red calls r (MPI_Alltoallv s sl so dt rb rl ro dt') =
     fold (\<lambda>i. overwrite (nat (ro ! i))
                (take (nat (rl ! i)) (drop (mpi_send_offset (calls ! i) r) (mpi_sendbuf (calls ! i)))))
       [0..<length calls] rb"
| "mpi_answer red calls r _ = []"

text \<open>
  \<open>mpi_documented\<close>: every rank's call succeeds with that answer. \<open>aten_documented\<close>: a copy between
  tensors of one type keeps the elements, and a new tensor has the size that was asked for.
\<close>

definition mpi_documented :: "(MPI_Op \<Rightarrow> 'v \<Rightarrow> 'v \<Rightarrow> 'v) \<Rightarrow> (nat \<Rightarrow> 'v mpi_env) \<Rightarrow> 'v mpi_call list \<Rightarrow> bool" where
  "mpi_documented red envs calls \<longleftrightarrow>
     (\<forall>r < length calls. env_call (envs r) (calls ! r) = (MPI_SUCCESS, mpi_answer red calls r (calls ! r)))"

definition aten_documented :: "'v mpi_env \<Rightarrow> bool" where
  "aten_documented env \<longleftrightarrow> (\<forall>sc v. env_convert env sc sc v = v) \<and> (\<forall>n. length (env_empty env n) = n)"

definition issued :: "'v mpi_env \<Rightarrow> int \<Rightarrow> int \<Rightarrow> WorkEntry \<Rightarrow> 'v memory \<Rightarrow> 'v mpi_call res" where
  "issued env rank world e m = fst (entry_call env rank world (we_run e) e m)"

section \<open>Buffers\<close>

lemma overwrite_all [simp]: "length xs = length buf \<Longrightarrow> overwrite 0 xs buf = xs"
  by (simp add: overwrite_def)

lemma overwrite_append: "overwrite (length pre) xs (pre @ rest) = pre @ xs @ drop (length xs) rest"
  by (simp add: overwrite_def)

lemma convert_same: "aten_documented env \<Longrightarrow> map (env_convert env sc sc) xs = xs"
  by (simp add: aten_documented_def map_idI)

lemma expandable_refl [simp]: "expandable ss ss"
  by (simp add: expandable_def list.rel_refl)

lemma length_split_starts [simp]: "length (split_starts b lens) = length lens"
  by (induction lens arbitrary: b) simp_all

lemma split_starts_nth: "i < length lens \<Longrightarrow> split_starts b lens ! i = b + sum_list (take i lens)"
proof (induction lens arbitrary: b i)
  case (Cons l lens)
  then show ?case by (cases i) simp_all
qed simp

lemma segment_concat:
  "i < length xss \<Longrightarrow>
   take (length (xss ! i)) (drop (split_starts 0 (map length xss) ! i) (concat xss)) = xss ! i"
proof (induction xss arbitrary: i)
  case (Cons xs xss)
  then show ?case by (cases i) (simp_all add: split_starts_nth)
qed simp

lemma fold_overwrite_tiles:
  assumes "\<forall>i < k. off i = (\<Sum>j < i. length (blk j))"
  shows "fold (\<lambda>i. overwrite (off i) (blk i)) [0..<k] buf = concat (map blk [0..<k]) @ drop (\<Sum>j < k. length (blk j)) buf"
  using assms
proof (induction k)
  case (Suc k)
  let ?done = "concat (map blk [0..<k])"
  have len: "length ?done = (\<Sum>j < k. length (blk j))"
    by (simp add: length_concat comp_def sum_list_sum_nth atLeast0LessThan)
  have "fold (\<lambda>i. overwrite (off i) (blk i)) [0..<k] buf = ?done @ drop (length ?done) buf"
    using Suc by (simp add: len)
  moreover have "off k = length ?done" using Suc.prems len by simp
  moreover have "overwrite (length ?done) (blk k) (?done @ drop (length ?done) buf) =
      ?done @ blk k @ drop (length (blk k)) (drop (length ?done) buf)" by (rule overwrite_append)
  ultimately show ?case by (simp add: len add.commute)
qed simp

text \<open>The loops over rows and splits.\<close>

lemma mpi_copy_rows_effect:
  assumes "aten_documented env" and "distinct (map mt_data ts)"
    and "\<forall>t \<in> set ts. t_sizes (mt_tensor t) = t_sizes (mt_tensor like) \<and> scalar_type env t = scalar_type env like"
  shows "\<exists>m'. mpi_copy_rows env like flat i ts m = (Inr (), m') \<and>
     (\<forall>j < length ts. m' (mt_data (ts ! j)) = flat_row flat (nat (mt_numel like)) (i + j)) \<and>
     (\<forall>a. a \<notin> mt_data ` set ts \<longrightarrow> m' a = m a)"
  using assms(2,3)
proof (induction ts arbitrary: i m)
  case (Cons t ts)
  let ?row = "flat_row flat (nat (mt_numel like)) i"
  obtain m' where m': "mpi_copy_rows env like flat (Suc i) ts (m(mt_data t := ?row)) = (Inr (), m')"
    "\<forall>j < length ts. m' (mt_data (ts ! j)) = flat_row flat (nat (mt_numel like)) (Suc i + j)"
    "\<forall>a. a \<notin> mt_data ` set ts \<longrightarrow> m' a = (m(mt_data t := ?row)) a"
    using Cons.IH [of "Suc i" "m(mt_data t := ?row)"] Cons.prems by fastforce
  have "m' (mt_data ((t # ts) ! j)) = flat_row flat (nat (mt_numel like)) (i + j)" if "j < length (t # ts)" for j
    using that m'(2,3) Cons.prems(1) by (cases j) auto
  with m' Cons.prems(2) assms(1) show ?case
    by (simp add: tensor_copy_def convert_same store_elems_def cmd_simps)
qed (simp add: cmd_simps)

lemma pack_splits_effect:
  assumes "aten_documented env"
    and "\<forall>t \<in> set ts. mt_flat t \<and> scalar_type env t = scalar_type env like"
  shows "pack_splits env like (zip ts (split_starts (length pre) (map (\<lambda>t. length (m (mt_data t))) ts))) (pre @ rest) m =
     (Inr (pre @ concat (map (\<lambda>t. m (mt_data t)) ts) @ drop (sum_list (map (\<lambda>t. length (m (mt_data t))) ts)) rest), m)"
  using assms(2)
proof (induction ts arbitrary: pre rest)
  case (Cons t ts)
  let ?x = "m (mt_data t)"
  have "pack_splits env like (zip ts (split_starts (length pre + length ?x) (map (\<lambda>t. length (m (mt_data t))) ts)))
      (pre @ ?x @ drop (length ?x) rest) m =
    (Inr (pre @ ?x @ concat (map (\<lambda>t. m (mt_data t)) ts) @
       drop (sum_list (map (\<lambda>t. length (m (mt_data t))) ts)) (drop (length ?x) rest)), m)"
    using Cons.IH [of "pre @ ?x" "drop (length ?x) rest"] Cons.prems by simp
  then show ?case
    using Cons.prems assms(1)
    by (simp add: view_flat_def read_elems_def convert_same overwrite_append cmd_simps add.commute)
qed (simp add: cmd_simps)

lemma unpack_splits_effect:
  assumes "aten_documented env" and "distinct (map mt_data ts)" and "length pos = length ts"
    and "\<forall>t \<in> set ts. mt_flat t \<and> scalar_type env t = scalar_type env like"
  shows "\<exists>m'. unpack_splits env like (zip ts pos) flat m = (Inr (), m') \<and>
     (\<forall>j < length ts. m' (mt_data (ts ! j)) = take (snd (pos ! j)) (drop (fst (pos ! j)) flat)) \<and>
     (\<forall>a. a \<notin> mt_data ` set ts \<longrightarrow> m' a = m a)"
  using assms(2-4)
proof (induction ts arbitrary: pos m)
  case (Cons t ts)
  then obtain off len ps where pos: "pos = (off, len) # ps" by (cases pos) auto
  let ?seg = "take len (drop off flat)"
  obtain m' where m': "unpack_splits env like (zip ts ps) flat (m(mt_data t := ?seg)) = (Inr (), m')"
    "\<forall>j < length ts. m' (mt_data (ts ! j)) = take (snd (ps ! j)) (drop (fst (ps ! j)) flat)"
    "\<forall>a. a \<notin> mt_data ` set ts \<longrightarrow> m' a = (m(mt_data t := ?seg)) a"
    using Cons.IH [of ps "m(mt_data t := ?seg)"] Cons.prems pos by fastforce
  have "m' (mt_data ((t # ts) ! j)) = take (snd (pos ! j)) (drop (fst (pos ! j)) flat)" if "j < length (t # ts)" for j
    using that m'(2,3) Cons.prems(1) pos by (cases j) auto
  with m' Cons.prems(3) assms(1) pos show ?case
    by (simp add: view_flat_def convert_same store_elems_def cmd_simps)
qed (simp add: cmd_simps)

text \<open>Lengths and offsets of a list of tensors are those of its segments in the flat tensor.\<close>

lemma tensor_lengths_exact:
  assumes "computeLengthsAndOffsets_tensors (map mt_tensor ts) (length ts) = Inr lo"
    and "\<forall>t \<in> set ts. 0 \<le> mt_numel t \<and> mt_numel t < 2 ^ 63"
  defines "lens \<equiv> map (\<lambda>t. nat (mt_numel t)) ts"
  shows "map nat (int_lengths lo) = lens" and "map nat (int_offsets lo) = split_starts 0 lens"
    and "unat (fst lo) = sum_list lens"
proof -
  obtain tot los where lo: "lo = (tot, los)" by (cases lo)
  from assms(1) lo lengths_offsets_tile [of "elems (length ts) (map (\<lambda>t. word_of_int (numel t)) (map mt_tensor ts))" 0 tot los]
  have tile: "length los = length ts"
    "map Inr (map fst los) = (elems (length ts) (map (\<lambda>t. word_of_int (numel t)) (map mt_tensor ts)) :: 64 word res list)"
    "\<forall>i < length los. unat (snd (los ! i)) = sum_list (map (unat \<circ> fst) (take i los))"
    "unat tot = sum_list (map (unat \<circ> fst) los)"
    by (auto simp: computeLengthsAndOffsets_tensors_def elems_def)
  have at: "unat (fst (los ! i)) = nat (mt_numel (ts ! i))" if "i < length ts" for i
  proof -
    have "fst (los ! i) = word_of_int (mt_numel (ts ! i))"
      using arg_cong [OF tile(2), of "\<lambda>xs. xs ! i"] that tile(1) by (simp add: elems_def mt_numel_def)
    moreover have "0 \<le> mt_numel (ts ! i)" "mt_numel (ts ! i) < 2 ^ 63" using assms(2) that by (simp_all add: nth_mem)
    ultimately show ?thesis using unat_word_of_int [of "mt_numel (ts ! i)"] by simp
  qed
  then have lens: "map (unat \<circ> fst) los = lens"
    using tile(1) by (intro nth_equalityI) (simp_all add: lens_def)
  then show "map nat (int_lengths lo) = lens"
    by (simp add: int_lengths_def lo comp_def nat_uint_eq)
  show "map nat (int_offsets lo) = split_starts 0 lens"
  proof (rule nth_equalityI)
    fix i assume "i < length (map nat (int_offsets lo))"
    then have i: "i < length los" by (simp add: int_offsets_def lo)
    then have "unat (snd (los ! i)) = sum_list (take i lens)" using tile(3) by (simp add: lens [symmetric] take_map)
    with i tile(1) show "map nat (int_offsets lo) ! i = split_starts 0 lens ! i"
      by (simp add: int_offsets_def lo lens_def split_starts_nth nat_uint_eq)
  qed (simp add: int_offsets_def lo lens_def tile(1))
  show "unat (fst lo) = sum_list lens" using tile(4) lens lo by simp
qed

text \<open>The call an all-to-all makes, and what it does with the answer.\<close>

definition holds :: "'v memory \<Rightarrow> mpi_tensor \<Rightarrow> bool" where
  "holds m t \<longleftrightarrow> 0 \<le> mt_numel t \<and> mt_numel t < 2 ^ 63 \<and> length (m (mt_data t)) = nat (mt_numel t)"

lemma alltoall_call_effect:
  assumes "entry_call env r (int n) Run_alltoall e m = (Inr c, m')" and "aten_documented env"
    and "length (we_src e) = n" and "length (we_dst e) = n"
    and "\<forall>t \<in> set (we_src e). holds m t \<and> mt_flat t \<and> scalar_type env t = scalar_type env (hd (we_src e))"
    and "\<forall>t \<in> set (we_dst e). 0 \<le> mt_numel t \<and> mt_numel t < 2 ^ 63"
  shows "\<exists>recv sl so dt ro dt'. computeLengthsAndOffsets_tensors (map mt_tensor (we_dst e)) n = Inr recv \<and> m' = m \<and>
     c = MPI_Alltoallv (concat (map (\<lambda>t. m (mt_data t)) (we_src e))) sl so dt
           (env_empty env (unat (fst recv))) (int_lengths recv) ro dt' \<and>
     map nat so = split_starts 0 (map (\<lambda>t. nat (mt_numel t)) (we_src e)) \<and> ro = int_offsets recv"
proof -
  from assms(1) obtain send recv where sr: "computeLengthsAndOffsets_tensors (map mt_tensor (we_src e)) n = Inr send"
    "computeLengthsAndOffsets_tensors (map mt_tensor (we_dst e)) n = Inr recv"
    by (auto simp: alltoall_call_def cmd_simps split: sum.splits)
  have lens: "map (\<lambda>t. nat (mt_numel t)) (we_src e) = map (\<lambda>t. length (m (mt_data t))) (we_src e)"
    using assms(5) by (simp add: holds_def)
  have range: "\<forall>t \<in> set (we_src e). 0 \<le> mt_numel t \<and> mt_numel t < 2 ^ 63" using assms(5) by (simp add: holds_def)
  note s = tensor_lengths_exact(1,3) [OF sr(1) [folded assms(3)] range, unfolded lens]
    tensor_lengths_exact(2) [OF sr(1) [folded assms(3)] range]
  have n0: "0 < n" using assms(1,3) sr by (auto simp: alltoall_call_def cmd_simps elem_at_def split: if_splits)
  then have hd0: "we_src e ! 0 = hd (we_src e)" using assms(3) by (cases "we_src e") simp_all
  have pack: "pack_splits env (hd (we_src e)) (zip (we_src e) (split_starts 0 (map (\<lambda>t. length (m (mt_data t))) (we_src e))))
      (env_empty env (unat (fst send))) m = (Inr (concat (map (\<lambda>t. m (mt_data t)) (we_src e))), m)"
    using pack_splits_effect [OF assms(2), of "we_src e" "hd (we_src e)" "[]" m "env_empty env (unat (fst send))"]
      assms(2,5) s(2) by (simp add: aten_documented_def)
  from assms(1) n0 sr s pack hd0 show ?thesis
    by (auto simp: alltoall_call_def cmd_simps elem_at_def split_with_sizes_def Let_def assms(3,4) split: sum.splits if_splits)
qed

lemma alltoall_return_effect:
  assumes "aten_documented env" and "length (we_dst e) = n" and "0 < n"
    and "computeLengthsAndOffsets_tensors (map mt_tensor (we_dst e)) n = Inr recv"
    and "\<forall>t \<in> set (we_dst e). 0 \<le> mt_numel t \<and> mt_numel t < 2 ^ 63 \<and> mt_flat t \<and>
       scalar_type env t = scalar_type env (hd (we_dst e))"
    and "distinct (map mt_data (we_dst e))"
    and "map length xss = map (\<lambda>t. nat (mt_numel t)) (we_dst e)"
  shows "\<exists>m'. entry_return env r (int n) Run_alltoall e (concat xss) m = (Inr (), m') \<and>
     (\<forall>q < n. m' (mt_data (we_dst e ! q)) = xss ! q)"
proof -
  let ?lens = "map length xss"
  have lx: "length xss = n" using assms(2) arg_cong [OF assms(7), of length] by simp
  have range: "\<forall>t \<in> set (we_dst e). 0 \<le> mt_numel t \<and> mt_numel t < 2 ^ 63" using assms(5) by simp
  note lo = tensor_lengths_exact [OF assms(4) [folded assms(2)] range, folded assms(7)]
  have split: "split_with_sizes (unat (fst recv)) (map nat (int_lengths recv)) = Inr (split_starts 0 ?lens)"
    using lo by (simp add: split_with_sizes_def)
  obtain m' where m': "unpack_splits env (hd (we_dst e)) (zip (we_dst e) (zip (split_starts 0 ?lens) ?lens)) (concat xss) m = (Inr (), m')"
    "\<forall>j < n. m' (mt_data (we_dst e ! j)) = take (?lens ! j) (drop (split_starts 0 ?lens ! j) (concat xss))"
    using unpack_splits_effect [OF assms(1,6), of "zip (split_starts 0 ?lens) ?lens" "hd (we_dst e)" "concat xss" m]
      assms(2,5) lx by auto
  moreover have "take (?lens ! j) (drop (split_starts 0 ?lens ! j) (concat xss)) = xss ! j" if "j < n" for j
    using that lx segment_concat [of j xss] by simp
  ultimately show ?thesis using split lo(1) assms(4) by (simp add: alltoall_return_def cmd_simps)
qed

text \<open>What MPI leaves in the receive buffer of an all-to-all: the segments for this rank, in the order of the senders.\<close>

lemma alltoallv_answer:
  assumes "length calls = n" and "length rb = sum_list (map (\<lambda>q. length (blk q)) [0..<n])"
    and "map nat ro = split_starts 0 (map (\<lambda>q. length (blk q)) [0..<n])"
    and "map nat rl = map (\<lambda>q. length (blk q)) [0..<n]"
    and "\<forall>q < n. take (length (blk q)) (drop (mpi_send_offset (calls ! q) r) (mpi_sendbuf (calls ! q))) = blk q"
  shows "mpi_answer red calls r (MPI_Alltoallv s sl so dt rb rl ro dt') = concat (map blk [0..<n])"
proof -
  have len: "length ro = n" "length rl = n"
    using arg_cong [OF assms(3), of length] arg_cong [OF assms(4), of length] by simp_all
  have at: "nat (ro ! q) = sum_list (take q (map (\<lambda>q. length (blk q)) [0..<n]))" "nat (rl ! q) = length (blk q)" if "q < n" for q
    using that len arg_cong [OF assms(3), of "\<lambda>xs. xs ! q"] arg_cong [OF assms(4), of "\<lambda>xs. xs ! q"]
    by (simp_all add: split_starts_nth)
  have off: "nat (ro ! q) = (\<Sum>j < q. length (blk j))" if "q < n" for q
    using that at(1) [OF that] by (simp add: take_map [symmetric] sum_list_sum_nth atLeast0LessThan del: take_map)
  have "mpi_answer red calls r (MPI_Alltoallv s sl so dt rb rl ro dt') =
      fold (\<lambda>i. overwrite (nat (ro ! i)) (blk i)) [0..<n] rb"
    unfolding mpi_answer.simps assms(1) using assms(5) at(2) by (intro fold_cong) simp_all
  also have "\<dots> = concat (map blk [0..<n]) @ drop (\<Sum>j < n. length (blk j)) rb"
    using off by (intro fold_overwrite_tiles) simp
  also have "(\<Sum>j < n. length (blk j)) = length rb" using assms(2) by (simp add: sum_list_sum_nth atLeast0LessThan)
  finally show ?thesis by simp
qed

text \<open>
  The entry of an all-to-all, the call its closure makes, and the segment of a sender's buffer that
  is meant for rank \<open>r\<close>.
\<close>

definition tensors_ok :: "'v mpi_env \<Rightarrow> 'v memory \<Rightarrow> mpi_tensor list \<Rightarrow> bool" where
  "tensors_ok env m ts \<longleftrightarrow> (\<forall>t \<in> set ts. holds m t \<and> mt_flat t \<and> scalar_type env t = scalar_type env (hd ts))"

lemma alltoall_entry:
  assumes "mpi_alltoall (int n) outs ins = Inr e"
  shows "e = \<lparr>we_src = ins, we_dst = outs, we_run = Run_alltoall\<rparr>" and "length ins = n" and "length outs = n"
  using assms by (auto simp: mpi_alltoall_def new_entry_def split: if_splits)

lemma alltoall_issued:
  assumes "mpi_alltoall (int n) outs ins = Inr e" and "issued env i (int n) e m = Inr c"
    and "aten_documented env" and "tensors_ok env m ins" and "tensors_ok env m outs"
  shows "\<exists>recv sl so dt dt'. computeLengthsAndOffsets_tensors (map mt_tensor outs) n = Inr recv \<and>
      entry_call env i (int n) Run_alltoall e m = (Inr c, m) \<and>
      c = MPI_Alltoallv (concat (map (\<lambda>t. m (mt_data t)) ins)) sl so dt
           (env_empty env (unat (fst recv))) (int_lengths recv) (int_offsets recv) dt' \<and>
      map nat so = split_starts 0 (map (\<lambda>t. nat (mt_numel t)) ins)"
proof -
  note e = alltoall_entry [OF assms(1)]
  obtain m' where call: "entry_call env i (int n) Run_alltoall e m = (Inr c, m')"
    using assms(2) e(1) by (cases "entry_call env i (int n) Run_alltoall e m") (simp add: issued_def)
  have "\<forall>t \<in> set (we_src e). holds m t \<and> mt_flat t \<and> scalar_type env t = scalar_type env (hd (we_src e))"
    and "\<forall>t \<in> set (we_dst e). 0 \<le> mt_numel t \<and> mt_numel t < 2 ^ 63"
    using assms(4,5) e(1) by (simp_all add: tensors_ok_def holds_def)
  from alltoall_call_effect [OF call assms(3) _ _ this] e
  obtain recv sl so dt ro dt' where "computeLengthsAndOffsets_tensors (map mt_tensor outs) n = Inr recv" "m' = m"
    "c = MPI_Alltoallv (concat (map (\<lambda>t. m (mt_data t)) ins)) sl so dt
           (env_empty env (unat (fst recv))) (int_lengths recv) ro dt'"
    "map nat so = split_starts 0 (map (\<lambda>t. nat (mt_numel t)) ins)" "ro = int_offsets recv" by auto
  with call show ?thesis by blast
qed

lemma alltoall_segment:
  assumes "mpi_alltoall (int n) outs ins = Inr e" and "issued env i (int n) e m = Inr c"
    and "aten_documented env" and "tensors_ok env m ins" and "tensors_ok env m outs" and "r < n"
  shows "take (length (m (mt_data (ins ! r)))) (drop (mpi_send_offset c r) (mpi_sendbuf c)) = m (mt_data (ins ! r))"
proof -
  let ?xss = "map (\<lambda>t. m (mt_data t)) ins"
  from alltoall_issued [OF assms(1-5)] obtain sl so dt rb rl ro dt' where
    c: "c = MPI_Alltoallv (concat ?xss) sl so dt rb rl ro dt'"
      "map nat so = split_starts 0 (map (\<lambda>t. nat (mt_numel t)) ins)" by blast
  have "map (\<lambda>t. nat (mt_numel t)) ins = map length ?xss" using assms(4) by (simp add: tensors_ok_def holds_def)
  with c(2) have so: "map nat so = split_starts 0 (map length ?xss)" by simp
  have n: "length ins = n" by (rule alltoall_entry [OF assms(1)])
  then have "nat (so ! r) = split_starts 0 (map length ?xss) ! r"
    using assms(6) arg_cong [OF so, of length] arg_cong [OF so, of "\<lambda>xs. xs ! r"] by simp
  then show ?thesis using segment_concat [of r ?xss] assms(6) n c(1) by simp
qed

section \<open>Properties\<close>

text \<open>
  C25. \<^verbatim>\<open>alltoall\<close> exchanges tensors: let every rank of a communicator call it with as many inputs
  and outputs as there are ranks, of one type each, with input \<open>q\<close> of rank \<open>r\<close> as long as output
  \<open>r\<close> of rank \<open>q\<close>, and let MPI answer the calls the closures make as the standard documents. Then
  the closure of every rank returns without an exception, and output \<open>q\<close> of rank \<open>r\<close> holds the
  elements of input \<open>r\<close> of rank \<open>q\<close>.
\<close>

theorem mpi_alltoall_exchanges:
  assumes "length calls = n" and "r < n"
    and "\<forall>i < n. mpi_alltoall (int n) (outs i) (ins i) = Inr (es i)"
    and "\<forall>i < n. issued (envs i) (int i) (int n) (es i) (ms i) = Inr (calls ! i)"
    and "mpi_documented red envs calls" and "\<forall>i < n. aten_documented (envs i)"
    and "\<forall>i < n. tensors_ok (envs i) (ms i) (ins i) \<and> tensors_ok (envs i) (ms i) (outs i)"
    and "\<forall>i < n. distinct (map mt_data (outs i))"
    and "\<forall>i < n. \<forall>q < n. mt_numel (outs i ! q) = mt_numel (ins q ! i)"
  shows "\<exists>m. run_entry (envs r) (int r) (int n) (es r) (ms r) = (Inr (), m) \<and>
     (\<forall>q < n. m (mt_data (outs r ! q)) = ms q (mt_data (ins q ! r)))"
proof -
  define blk where "blk q = ms q (mt_data (ins q ! r))" for q
  have alltoall: "mpi_alltoall (int n) (outs i) (ins i) = Inr (es i)" "issued (envs i) (int i) (int n) (es i) (ms i) = Inr (calls ! i)"
    "aten_documented (envs i)" "tensors_ok (envs i) (ms i) (ins i)" "tensors_ok (envs i) (ms i) (outs i)" if "i < n" for i
    using that assms by simp_all
  note e = alltoall_entry [OF alltoall(1) [OF assms(2)]]
  from alltoall_issued [OF alltoall, OF assms(2) assms(2) assms(2) assms(2) assms(2)] obtain recv sl so dt dt' where
    recv: "computeLengthsAndOffsets_tensors (map mt_tensor (outs r)) n = Inr recv"
    and mine: "entry_call (envs r) (int r) (int n) Run_alltoall (es r) (ms r) = (Inr (calls ! r), ms r)"
      "calls ! r = MPI_Alltoallv (concat (map (\<lambda>t. ms r (mt_data t)) (ins r))) sl so dt
           (env_empty (envs r) (unat (fst recv))) (int_lengths recv) (int_offsets recv) dt'" by blast
  have dst: "\<forall>t \<in> set (we_dst (es r)). 0 \<le> mt_numel t \<and> mt_numel t < 2 ^ 63 \<and> mt_flat t \<and>
      scalar_type (envs r) t = scalar_type (envs r) (hd (we_dst (es r)))"
    using alltoall(5) [OF assms(2)] e(1) by (simp add: tensors_ok_def holds_def)
  have in_len: "length (blk q) = nat (mt_numel (ins q ! r))" if "q < n" for q
    using alltoall(4) [OF that] alltoall_entry(2) [OF alltoall(1) [OF that]] assms(2)
    by (simp add: tensors_ok_def holds_def blk_def)
  have lens: "map (\<lambda>t. nat (mt_numel t)) (outs r) = map (\<lambda>q. length (blk q)) [0..<n]"
    using e(3) assms(2,9) in_len by (intro nth_equalityI) simp_all
  have range: "\<forall>t \<in> set (outs r). 0 \<le> mt_numel t \<and> mt_numel t < 2 ^ 63" using dst e(1) by simp
  note lo = tensor_lengths_exact [OF recv [folded e(3)] range, unfolded lens]
  have segs: "\<forall>q < n. take (length (blk q)) (drop (mpi_send_offset (calls ! q) r) (mpi_sendbuf (calls ! q))) = blk q"
    unfolding blk_def using alltoall_segment [OF alltoall] assms(2) by blast
  have "mpi_answer red calls r (calls ! r) = concat (map blk [0..<n])"
    unfolding mine(2) using lo segs assms(1) alltoall(3) [OF assms(2)]
    by (intro alltoallv_answer) (simp_all add: aten_documented_def)
  then have "env_call (envs r) (calls ! r) = (MPI_SUCCESS, concat (map blk [0..<n]))"
    using assms(1,2,5) by (simp add: mpi_documented_def)
  moreover obtain m where "entry_return (envs r) (int r) (int n) Run_alltoall (es r) (concat (map blk [0..<n])) (ms r) = (Inr (), m)"
    "\<forall>q < n. m (mt_data (outs r ! q)) = blk q"
    using alltoall_return_effect [OF alltoall(3) [OF assms(2)], of "es r" n recv "map blk [0..<n]" "int r" "ms r"]
      recv lens e dst assms(2,8) by (auto simp: comp_def)
  ultimately show ?thesis
    using mine(1) e(1) by (auto simp: run_entry_def cmd_simps MPI_CHECK_def blk_def)
qed

text \<open>Two ranks that exchange tensors of one, two and three elements.\<close>

definition sample_mpi_tensor :: "nat \<Rightarrow> int \<Rightarrow> mpi_tensor" where
  "sample_mpi_tensor a n = \<lparr>mt_tensor = sample_tensor [n], mt_contiguous = True, mt_flat = True, mt_data = a\<rparr>"

definition sample_ins :: "nat \<Rightarrow> mpi_tensor list" where
  "sample_ins i = (if i = 0 then [sample_mpi_tensor 0 1, sample_mpi_tensor 1 2] else [sample_mpi_tensor 0 3, sample_mpi_tensor 1 1])"

definition sample_outs :: "nat \<Rightarrow> mpi_tensor list" where
  "sample_outs i = (if i = 0 then [sample_mpi_tensor 2 1, sample_mpi_tensor 3 3] else [sample_mpi_tensor 2 2, sample_mpi_tensor 3 1])"

definition sample_memory :: "nat \<Rightarrow> int memory" where
  "sample_memory i a =
     (if i = 0 then [[1], [2, 3], [0], [0, 0, 0]] ! a else [[4, 5, 6], [7], [0, 0], [0]] ! a)"

definition sample_calls :: "int mpi_call list" where
  "sample_calls =
     [MPI_Alltoallv [1, 2, 3] [1, 2] [0, 1] MPI_FLOAT [0, 0, 0, 0] [1, 3] [0, 1] MPI_FLOAT,
      MPI_Alltoallv [4, 5, 6, 7] [3, 1] [0, 3] MPI_FLOAT [0, 0, 0] [2, 1] [0, 2] MPI_FLOAT]"

definition sample_mpi_env :: "nat \<Rightarrow> int mpi_env" where
  "sample_mpi_env i =
     \<lparr>env_call = (\<lambda>c. (MPI_SUCCESS, mpi_answer (\<lambda>_. (+)) sample_calls i c)), env_cuda = None,
      env_scalar = (\<lambda>_. kFloat), env_convert = (\<lambda>_ _ v. v), env_empty = (\<lambda>n. replicate n 0)\<rparr>"

definition sample_entry :: "nat \<Rightarrow> WorkEntry" where
  "sample_entry i = new_entry (Some (sample_ins i)) (Some (sample_outs i)) Run_alltoall"

lemma less_two: "(\<forall>i < 2. P i) \<longleftrightarrow> P 0 \<and> P (Suc 0)"
  by (auto simp: less_2_cases_iff)

theorem mpi_alltoall_exchanges_witness:
  "\<exists>m. run_entry (sample_mpi_env 0) (int 0) (int 2) (sample_entry 0) (sample_memory 0) = (Inr (), m) \<and>
     (\<forall>q < 2. m (mt_data (sample_outs 0 ! q)) = sample_memory q (mt_data (sample_ins q ! 0)))"
proof (rule mpi_alltoall_exchanges [where calls = sample_calls and red = "\<lambda>_. (+)" and envs = sample_mpi_env
      and es = sample_entry and ms = sample_memory and ins = sample_ins and outs = sample_outs])
  show "\<forall>i < 2. issued (sample_mpi_env i) (int i) (int 2) (sample_entry i) (sample_memory i) = Inr (sample_calls ! i)"
    unfolding less_two by code_simp
  show "\<forall>i < 2. tensors_ok (sample_mpi_env i) (sample_memory i) (sample_ins i) \<and>
      tensors_ok (sample_mpi_env i) (sample_memory i) (sample_outs i)"
    unfolding less_two by code_simp
  show "\<forall>i < 2. \<forall>q < 2. mt_numel (sample_outs i ! q) = mt_numel (sample_ins q ! i)"
    unfolding less_two by code_simp
qed (simp_all add: sample_calls_def mpi_documented_def sample_mpi_env_def aten_documented_def less_two mpi_alltoall_def
    sample_entry_def sample_ins_def sample_outs_def sample_mpi_tensor_def)

text \<open>
  \<^verbatim>\<open>allgather\<close>: with inputs of one length at all ranks and outputs of one shape, output \<open>q\<close> of
  every rank holds the input of rank \<open>q\<close>.
\<close>

lemma allgather_issued:
  assumes "mpi_allgather cuda (int n) [outs] [t] = Inr e" and "issued env i (int n) e m = Inr c" and "0 < n"
  shows "e = \<lparr>we_src = [t], we_dst = outs, we_run = Run_allgather\<rparr>" and "length outs = n"
    and "\<forall>u \<in> set outs. mt_numel u = mt_numel t \<and> mt_type u = mt_type t"
    and "entry_call env i (int n) Run_allgather e m = (Inr c, m)"
    and "\<exists>dt. c = MPI_Allgather (m (mt_data t)) (mpi_count t) dt (env_empty env (nat (int n * mt_numel (hd outs)))) (mpi_count t) dt"
proof -
  show e: "e = \<lparr>we_src = [t], we_dst = outs, we_run = Run_allgather\<rparr>" and len: "length outs = n"
    using assms(1) by (auto simp: mpi_allgather_def new_entry_def bindE_def split: if_splits sum.splits)
  have "checkSameSizeAndType cuda t outs = Inr ()"
    using assms(1) by (auto simp: mpi_allgather_def bindE_def split: if_splits sum.splits)
  then show "\<forall>u \<in> set outs. mt_numel u = mt_numel t \<and> mt_type u = mt_type t"
    by (induction outs) (auto simp: bindE_def split: if_splits sum.splits)
  obtain o1 os where outs: "outs = o1 # os" using len assms(3) by (cases outs) auto
  have "new_flat env outs = Inr (env_empty env (nat (int n * mt_numel (hd outs))))"
    using outs len by (simp add: new_flat_def newLikeFlat1_sizes_def mt_numel_def numel_def numel_from_prod)
  then show "entry_call env i (int n) Run_allgather e m = (Inr c, m)"
    and "\<exists>dt. c = MPI_Allgather (m (mt_data t)) (mpi_count t) dt (env_empty env (nat (int n * mt_numel (hd outs)))) (mpi_count t) dt"
    using assms(2) e by (auto simp: issued_def allgather_call_def elem_at_def read_elems_def cmd_simps split: sum.splits)
qed

theorem mpi_allgather_delivers:
  assumes "length calls = n" and "r < n"
    and "\<forall>i < n. mpi_allgather (env_cuda (envs i)) (int n) [outs i] [ins i] = Inr (es i)"
    and "\<forall>i < n. issued (envs i) (int i) (int n) (es i) (ms i) = Inr (calls ! i)"
    and "mpi_documented red envs calls" and "aten_documented (envs r)"
    and "\<forall>i < n. holds (ms i) (ins i) \<and> mt_numel (ins i) = k" and "k < 2 ^ 31"
    and "distinct (map mt_data (outs r))" and "\<forall>t \<in> set (outs r). t_sizes (mt_tensor t) = t_sizes (mt_tensor (hd (outs r)))"
  shows "\<exists>m. run_entry (envs r) (int r) (int n) (es r) (ms r) = (Inr (), m) \<and>
     (\<forall>q < n. m (mt_data (outs r ! q)) = ms q (mt_data (ins q)))"
proof -
  have gather: "mpi_allgather (env_cuda (envs i)) (int n) [outs i] [ins i] = Inr (es i)"
    "issued (envs i) (int i) (int n) (es i) (ms i) = Inr (calls ! i)" "0 < n" if "i < n" for i
    using that assms by simp_all
  note mine = allgather_issued [OF gather, OF assms(2) assms(2) assms(2)]
  let ?xss = "map (\<lambda>q. ms q (mt_data (ins q))) [0..<n]"
  have k: "0 \<le> k" "mpi_count (ins i) = k" "length (ms i (mt_data (ins i))) = nat k" if "i < n" for i
    using that assms(7,8) wrap32_id [of k] by (auto simp: holds_def mpi_count_def)
  have "(take (nat k) \<circ> mpi_sendbuf) (calls ! q) = ms q (mt_data (ins q))" if "q < n" for q
    using allgather_issued(5) [OF gather [OF that]] k(3) [OF that] by auto
  then have sent: "map (take (nat k) \<circ> mpi_sendbuf) calls = ?xss"
    using assms(1) by (intro nth_equalityI) simp_all
  obtain o1 os where outs: "outs r = o1 # os" using mine(2) assms(2) by (cases "outs r") auto
  have hd: "mt_numel (hd (outs r)) = k" "\<forall>t \<in> set (outs r). scalar_type (envs r) t = scalar_type (envs r) (hd (outs r))"
    using mine(3) assms(2,7) outs by (auto simp: scalar_type_def)
  have "map length ?xss = replicate n (nat k)" using k(3) by (intro nth_equalityI) simp_all
  then have "length (concat ?xss) = nat (int n * k)"
    using k(1) [OF assms(2)] by (simp add: length_concat sum_list_replicate nat_mult_distrib)
  then have "env_call (envs r) (calls ! r) = (MPI_SUCCESS, concat ?xss)"
    using assms(1,2,5,6) mine(5) k(2) [OF assms(2)] sent hd(1) by (auto simp: mpi_documented_def aten_documented_def)
  moreover obtain m where "mpi_copy_rows (envs r) (hd (outs r)) (concat ?xss) 0 (outs r) (ms r) = (Inr (), m)"
    "\<forall>q < n. m (mt_data (outs r ! q)) = flat_row (concat ?xss) (nat k) q"
    using mpi_copy_rows_effect [OF assms(6,9), of "hd (outs r)" "concat ?xss" 0 "ms r"] assms(10) hd mine(2) by auto
  moreover have "flat_row (concat ?xss) (nat k) q = ms q (mt_data (ins q))" if "q < n" for q
    using flat_row_concat [of ?xss "nat k" q] that k(3) by auto
  ultimately show ?thesis
    using mine(1,4) by (auto simp: run_entry_def cmd_simps MPI_CHECK_def allgather_return_def)
qed

text \<open>
  The 64-bit number of elements is passed as an \<^verbatim>\<open>int\<close>: of a tensor with 2^32 + 5 elements, which
  the checks accept, MPI is told to send five.
\<close>

lemma mpi_count_wraps:
  "mpi_broadcast None [sample_mpi_tensor 0 (2 ^ 32 + 5)] 0 =
     Inr (new_entry (Some [sample_mpi_tensor 0 (2 ^ 32 + 5)]) None (Run_broadcast 0)) \<and>
   mpi_count (sample_mpi_tensor 0 (2 ^ 32 + 5)) = 5"
  by (simp add: mpi_broadcast_def mpi_checkSingleTensor_def checkSingleTensorHelper_def sample_mpi_tensor_def
      sample_tensor_def mpi_count_def wrap32_def mt_numel_def numel_def)

text \<open>
  \<^verbatim>\<open>alltoall\<close> does not check its tensors: a CUDA tensor that \<^verbatim>\<open>alltoall_base\<close> refuses, because
  MPI is not CUDA-aware, is accepted and handed to MPI.
\<close>

lemma alltoall_unchecked:
  assumes "t_device_type (mt_tensor t) = CUDA" and "mt_contiguous t" and "t_layout (mt_tensor t) = Strided"
  shows "mpi_alltoall_base None 1 t t [] [] =
      Inl (Runtime_error ''CUDA tensor detected and the MPI used doesn't have CUDA-aware MPI support'') \<and>
    mpi_alltoall 1 [t] [t] = Inr (new_entry (Some [t]) (Some [t]) Run_alltoall)"
  using assms
  by (simp add: mpi_alltoall_base_def mpi_alltoall_def checkSingleTensorHelper_def cudaAwareMpiCheck_def bindE_def)

end
