(* ===== verification/ProcessGroup_MPI.thy ===== *)
theory ProcessGroup_MPI
  imports MPI_Collectives
begin

text \<open>
  The process group of \<^verbatim>\<open>ProcessGroupMPI.cpp\<close>: start-up (lines 173 to 255), the works of
  point-to-point operations (lines 97 to 171, 725 to 797), and the queue that one worker thread
  serves (lines 257 to 319). The member functions of the queue are the steps of a transition system,
  cut where the code takes or releases \<^verbatim>\<open>pgMutex_\<close> or enters a condition variable. The theory
  shows that the collectives reach MPI in the order of the calls, that each work is finished once
  with the outcome of its run, and that \<^verbatim>\<open>destroy\<close> ends under every schedule. The process-wide
  \<^verbatim>\<open>pgGlobalMutex_\<close> is not modelled: a run, and an MPI function a work waits in, is one step.
\<close>

section \<open>Start-up\<close>

text \<open>
  The statics of the class and what the MPI library answers. \<open>None\<close> is \<^verbatim>\<open>MPI_COMM_NULL\<close>.
\<close>

record mpi_statics =
  ms_init_done :: bool
  ms_threadSupport :: int

record mpi_setup =
  su_init_thread :: "int \<times> int"
  su_atexit :: int
  su_comm_group :: int
  su_group_incl :: "int list \<Rightarrow> int"
  su_comm_create :: "int list \<Rightarrow> int \<times> nat option"
  su_group_free :: "int \<times> int"
  su_comm_rank :: "nat \<Rightarrow> int \<times> int"
  su_comm_size :: "nat \<Rightarrow> int \<times> int"

definition MPI_THREAD_SERIALIZED :: int where "MPI_THREAD_SERIALIZED = 2"

definition MPI_COMM_WORLD :: nat where "MPI_COMM_WORLD = 0"

definition mpi_exit :: "int \<Rightarrow> unit res" where
  "mpi_exit finalize_status = MPI_CHECK finalize_status"

text \<open>\<^verbatim>\<open>std::call_once\<close>: a function that throws has not run.\<close>

definition initMPIOnce :: "mpi_setup \<Rightarrow> (mpi_statics, unit) cmd" where
  "initMPIOnce su st =
     (if ms_init_done st then (Inr (), st)
      else bindM (modifyM (\<lambda>st. st\<lparr>ms_threadSupport := snd (su_init_thread su)\<rparr>)) (\<lambda>_.
           bindM (liftM (MPI_CHECK (fst (su_init_thread su)))) (\<lambda>_.
           if snd (su_init_thread su) < MPI_THREAD_SERIALIZED
           then throwM (Runtime_error ''Used MPI implementation doesn't have the minimum level of threading support: '')
           else if su_atexit su \<noteq> 0 then throwM (Runtime_error ''Fail to register the MPI exit handler'')
           else modifyM (\<lambda>st. st\<lparr>ms_init_done := True\<rparr>))) st)"

text \<open>The group's communicator: the world without \<open>ranks\<close>, a new one otherwise.\<close>

definition group_comm :: "mpi_setup \<Rightarrow> int list \<Rightarrow> nat option res" where
  "group_comm su ranks =
     (if ranks = [] then Inr (Some MPI_COMM_WORLD)
      else bindE (MPI_CHECK (su_comm_group su)) (\<lambda>_.
           bindE (MPI_CHECK (su_group_incl su ranks)) (\<lambda>_.
           bindE (MPI_CHECK (fst (su_comm_create su ranks))) (\<lambda>_.
           bindE (MPI_CHECK (fst (su_group_free su))) (\<lambda>_.
           bindE (MPI_CHECK (snd (su_group_free su))) (\<lambda>_.
           Inr (snd (su_comm_create su ranks))))))))"

definition rank_and_size :: "mpi_setup \<Rightarrow> nat \<Rightarrow> (int \<times> int) res" where
  "rank_and_size su comm =
     bindE (MPI_CHECK (fst (su_comm_rank su comm))) (\<lambda>_.
     bindE (MPI_CHECK (fst (su_comm_size su comm))) (\<lambda>_.
     if snd (su_comm_rank su comm) < 0 \<or> snd (su_comm_size su comm) < 0
     then Inl (Runtime_error ''Failed to get the world_size / rank'')
     else Inr (snd (su_comm_rank su comm), snd (su_comm_size su comm))))"

section \<open>Works of point-to-point operations\<close>

text \<open>\<open>None\<close> is \<^verbatim>\<open>MPI_REQUEST_NULL\<close>.\<close>

record mpi_status =
  st_error :: int
  st_source :: int

record AsyncWork =
  aw_tensor :: mpi_tensor
  aw_request :: "nat option"
  aw_status :: mpi_status
  aw_exception :: "exn option"

definition AsyncWork_init :: "mpi_tensor \<Rightarrow> nat option \<Rightarrow> AsyncWork" where
  "AsyncWork_init tensor request =
     \<lparr>aw_tensor = tensor, aw_request = request, aw_status = \<lparr>st_error = 0, st_source = 0\<rparr>, aw_exception = None\<rparr>"

text \<open>The destructor; the result is whether it terminates the program.\<close>

definition AsyncWork_terminates :: "AsyncWork \<Rightarrow> bool" where
  "AsyncWork_terminates w = (aw_request w \<noteq> None)"

text \<open>
  \<open>error_string\<close>, \<open>test\<close> and \<open>wait\<close> are what \<^verbatim>\<open>MPI_Error_string\<close>, \<^verbatim>\<open>MPI_Test\<close> and
  \<^verbatim>\<open>MPI_Wait\<close> answer: status, request and \<^verbatim>\<open>MPI_Status\<close> afterwards.
\<close>

type_synonym mpi_completion = "nat \<Rightarrow> mpi_status \<Rightarrow> int \<times> nat option \<times> mpi_status"

definition populateException :: "(int \<Rightarrow> int \<times> string) \<Rightarrow> (AsyncWork, unit) cmd" where
  "populateException error_string =
     bindM (getM (\<lambda>w. error_string (st_error (aw_status w)))) (\<lambda>(rc, msg).
     bindM (liftM (MPI_CHECK rc)) (\<lambda>_.
     modifyM (\<lambda>w. w\<lparr>aw_exception := Some (Runtime_error msg)\<rparr>)))"

text \<open>An MPI function that completes a request, and the check of its status.\<close>

definition complete_request :: "mpi_completion \<Rightarrow> nat \<Rightarrow> (AsyncWork, unit) cmd" where
  "complete_request f request w =
     (case f request (aw_status w) of
        (rc, request', status') \<Rightarrow> (MPI_CHECK rc, w\<lparr>aw_request := request', aw_status := status'\<rparr>))"

definition AsyncWork_isCompleted :: "(int \<Rightarrow> int \<times> string) \<Rightarrow> mpi_completion \<Rightarrow> (AsyncWork, bool) cmd" where
  "AsyncWork_isCompleted error_string test =
     bindM (getM aw_request) (\<lambda>request.
     case request of
       None \<Rightarrow> returnM True
     | Some r \<Rightarrow>
         bindM (complete_request test r) (\<lambda>_.
         bindM (getM id) (\<lambda>w.
         if aw_request w \<noteq> None then returnM False
         else bindM (if st_error (aw_status w) \<noteq> MPI_SUCCESS then populateException error_string else returnM ()) (\<lambda>_.
              returnM True))))"

definition AsyncWork_isSuccess :: "AsyncWork \<Rightarrow> bool res" where
  "AsyncWork_isSuccess w =
     (if aw_request w \<noteq> None
      then Inl (Runtime_error ''Invalid call to AsyncWork::isSuccess before work has completed'')
      else Inr (st_error (aw_status w) = MPI_SUCCESS))"

definition AsyncWork_sourceRank :: "AsyncWork \<Rightarrow> int" where
  "AsyncWork_sourceRank w = st_source (aw_status w)"

definition AsyncWork_wait :: "(int \<Rightarrow> int \<times> string) \<Rightarrow> mpi_completion \<Rightarrow> (AsyncWork, bool) cmd" where
  "AsyncWork_wait error_string wait =
     bindM (getM aw_request) (\<lambda>request.
     case request of
       None \<Rightarrow> returnM True
     | Some r \<Rightarrow>
         bindM (complete_request wait r) (\<lambda>_.
         bindM (getM (\<lambda>w. st_error (aw_status w) = MPI_SUCCESS)) (\<lambda>ok.
         if \<not> ok
         then bindM (populateException error_string) (\<lambda>_.
              bindM (getM aw_exception) (\<lambda>e. throwM (case e of Some x \<Rightarrow> x | None \<Rightarrow> Undefined)))
         else returnM True)))"

definition AsyncWork_abort :: "(AsyncWork, unit) cmd" where
  "AsyncWork_abort = throwM (C10_error ''ProcessGroupMPI::AsyncWork::abort not implemented.'')"

text \<open>
  \<open>isend\<close> and \<open>irecv\<close> are what the MPI functions answer: status and request.
\<close>

definition MPI_ANY_SOURCE :: int where "MPI_ANY_SOURCE = -1"

type_synonym p2p_call = "nat \<Rightarrow> int \<Rightarrow> MPI_Datatype \<Rightarrow> int \<Rightarrow> int \<Rightarrow> int \<times> nat option"

definition start_request ::
    "int option \<Rightarrow> (nat \<Rightarrow> ScalarType) \<Rightarrow> p2p_call \<Rightarrow> mpi_tensor list \<Rightarrow> int \<Rightarrow> int \<Rightarrow> AsyncWork res" where
  "start_request cuda scalar call tensors peer tag =
     bindE (mpi_checkSingleTensor cuda tensors) (\<lambda>_.
     let tensor = tensors ! 0
     in bindE (mpiDatatype (scalar (mt_type tensor))) (\<lambda>dt.
        let (rc, request) = call (mt_data tensor) (mpi_count tensor) dt peer tag
        in bindE (MPI_CHECK rc) (\<lambda>_. Inr (AsyncWork_init tensor request))))"

definition mpi_send where
  "mpi_send cuda scalar isend tensors dstRank tag = start_request cuda scalar isend tensors dstRank tag"

definition mpi_recv where
  "mpi_recv cuda scalar irecv tensors srcRank tag = start_request cuda scalar irecv tensors srcRank tag"

definition mpi_recvAnysource where
  "mpi_recvAnysource cuda scalar irecv tensors tag = start_request cuda scalar irecv tensors MPI_ANY_SOURCE tag"

section \<open>The queue and its worker\<close>

text \<open>
  The worker is about to test the loop's condition, inside \<^verbatim>\<open>queueProduceCV_.wait\<close> (notified or not),
  before the notification that follows taking an entry, in the run of an entry, or has left. A
  destroying thread is about to take the mutex, inside \<^verbatim>\<open>queueConsumeCV_.wait\<close>, has set \<^verbatim>\<open>stop_\<close>,
  waits for the worker, or is done.
\<close>

datatype worker_phase = Testing | Asleep bool | Took nat | In_run nat | Left_loop

datatype destroy_phase = Not_called | Locking | Draining bool | Stop_set | Joining | Joined

text \<open>
  \<open>pm_queue\<close> holds entries with the index of their work in \<open>pm_works\<close>; \<open>pm_notifies\<close> counts the
  calls of \<^verbatim>\<open>enqueue\<close> that have not notified yet. For the statements, \<open>pm_entries\<close> keeps the entries
  in the order of the calls, \<open>pm_ran\<close> what runs gave, in the order in which they ended, and
  \<open>pm_at_stop\<close> the number of entries when \<^verbatim>\<open>stop_\<close> was set.
\<close>

record 'v pg_mpi =
  pm_rank :: int
  pm_size :: int
  pm_stop :: bool
  pm_queue :: "(WorkEntry \<times> nat) list"
  pm_works :: "work list"
  pm_notifies :: nat
  pm_worker :: worker_phase
  pm_destroy :: destroy_phase
  pm_memory :: "'v memory"
  pm_entries :: "WorkEntry list"
  pm_ran :: "(nat \<times> unit res) list"
  pm_at_stop :: nat

definition ProcessGroupMPI :: "int \<Rightarrow> int \<Rightarrow> nat option \<Rightarrow> 'v memory \<Rightarrow> 'v pg_mpi res" where
  "ProcessGroupMPI rank world comm m =
     (if comm = None then Inl (Runtime_error ''pgComm_ must not be MPI_COMM_NULL'')
      else Inr \<lparr>pm_rank = rank, pm_size = world, pm_stop = False, pm_queue = [], pm_works = [], pm_notifies = 0,
             pm_worker = Testing, pm_destroy = Not_called, pm_memory = m, pm_entries = [], pm_ran = [], pm_at_stop = 0\<rparr>)"

text \<open>The factory; the result is \<open>None\<close> at a process that is not part of the group.\<close>

definition createProcessGroupMPI ::
    "mpi_setup \<Rightarrow> int list \<Rightarrow> 'v memory \<Rightarrow> (mpi_statics, 'v pg_mpi option) cmd" where
  "createProcessGroupMPI su ranks m =
     bindM (initMPIOnce su) (\<lambda>_.
     bindM (liftM (group_comm su ranks)) (\<lambda>comm.
     case comm of
       None \<Rightarrow> returnM None
     | Some c \<Rightarrow>
         bindM (liftM (rank_and_size su c)) (\<lambda>(rank, world).
         bindM (liftM (ProcessGroupMPI rank world comm m)) (\<lambda>pg. returnM (Some pg)))))"

definition WorkMPI_new :: work where
  "WorkMPI_new = Work (-1) UNKNOWN None False"

definition enqueue_entry :: "WorkEntry \<Rightarrow> 'v pg_mpi \<Rightarrow> 'v pg_mpi" where
  "enqueue_entry e p =
     p\<lparr>pm_works := pm_works p @ [WorkMPI_new], pm_queue := pm_queue p @ [(e, length (pm_works p))],
       pm_notifies := pm_notifies p + 1, pm_entries := pm_entries p @ [e]\<rparr>"

text \<open>A collective: its checks and, when they pass, the entry.\<close>

definition mpi_collective :: "WorkEntry res \<Rightarrow> ('v pg_mpi, nat) cmd" where
  "mpi_collective entry =
     bindM (liftM entry) (\<lambda>e. bindM (getM (\<lambda>p. length (pm_works p))) (\<lambda>i. bindM (modifyM (enqueue_entry e)) (\<lambda>_. returnM i)))"

definition wake_worker :: "worker_phase \<Rightarrow> worker_phase" where
  "wake_worker w = (case w of Asleep b \<Rightarrow> Asleep True | _ \<Rightarrow> w)"

definition enqueue_notify_one :: "'v pg_mpi \<Rightarrow> 'v pg_mpi" where
  "enqueue_notify_one p = p\<lparr>pm_notifies := pm_notifies p - 1, pm_worker := wake_worker (pm_worker p)\<rparr>"

definition runLoop_test :: "'v pg_mpi \<Rightarrow> 'v pg_mpi" where
  "runLoop_test p =
     (if pm_stop p then p\<lparr>pm_worker := Left_loop\<rparr>
      else case pm_queue p of
        [] \<Rightarrow> p\<lparr>pm_worker := Asleep False\<rparr>
      | (e, i) # rest \<Rightarrow> p\<lparr>pm_queue := rest, pm_worker := Took i\<rparr>)"

definition runLoop_awake :: "'v pg_mpi \<Rightarrow> 'v pg_mpi" where
  "runLoop_awake p = p\<lparr>pm_worker := Testing\<rparr>"

definition runLoop_notify :: "nat \<Rightarrow> 'v pg_mpi \<Rightarrow> 'v pg_mpi" where
  "runLoop_notify i p =
     p\<lparr>pm_worker := In_run i,
       pm_destroy := (case pm_destroy p of Draining b \<Rightarrow> Draining True | d \<Rightarrow> d)\<rparr>"

text \<open>The run of an entry and the finish of its work, with the exception of the run if it throws.\<close>

definition runLoop_run :: "'v mpi_env \<Rightarrow> nat \<Rightarrow> 'v pg_mpi \<Rightarrow> 'v pg_mpi" where
  "runLoop_run env i p =
     (case run_entry env (pm_rank p) (pm_size p) (pm_entries p ! i) (pm_memory p) of
        (r, m) \<Rightarrow>
          p\<lparr>pm_memory := m,
            pm_works := (pm_works p)[i := finish (case r of Inr _ \<Rightarrow> None | Inl e \<Rightarrow> Some e) (pm_works p ! i)],
            pm_ran := pm_ran p @ [(i, r)], pm_worker := Testing\<rparr>)"

definition destroy_call :: "'v pg_mpi \<Rightarrow> 'v pg_mpi" where
  "destroy_call p = p\<lparr>pm_destroy := Locking\<rparr>"

text \<open>The wait for an empty queue, entered or resumed, and the stop after it.\<close>

definition destroy_test :: "'v pg_mpi \<Rightarrow> 'v pg_mpi" where
  "destroy_test p =
     (if pm_queue p = [] then p\<lparr>pm_stop := True, pm_destroy := Stop_set, pm_at_stop := length (pm_entries p)\<rparr>
      else p\<lparr>pm_destroy := Draining False\<rparr>)"

definition destroy_notify_all :: "'v pg_mpi \<Rightarrow> 'v pg_mpi" where
  "destroy_notify_all p = p\<lparr>pm_worker := wake_worker (pm_worker p), pm_destroy := Joining\<rparr>"

definition destroy_join :: "'v pg_mpi \<Rightarrow> 'v pg_mpi" where
  "destroy_join p = p\<lparr>pm_destroy := Joined\<rparr>"

section \<open>Interleavings\<close>

datatype 'v mpi_event =
    Collective_call "WorkEntry res"
  | Notify_one
  | Test_loop
  | Awake_worker
  | Notify_drain
  | Run_call "'v mpi_env"
  | Destroy_call
  | Destroy_test
  | Destroy_notify
  | Destroy_join
  | Work_call nat work_event

fun mp_exec :: "'v mpi_event \<Rightarrow> 'v pg_mpi \<Rightarrow> 'v pg_mpi" where
  "mp_exec (Collective_call entry) p = snd (mpi_collective entry p)"
| "mp_exec Notify_one p = enqueue_notify_one p"
| "mp_exec Test_loop p = runLoop_test p"
| "mp_exec Awake_worker p = runLoop_awake p"
| "mp_exec Notify_drain p = (case pm_worker p of Took i \<Rightarrow> runLoop_notify i p | _ \<Rightarrow> p)"
| "mp_exec (Run_call env) p = (case pm_worker p of In_run i \<Rightarrow> runLoop_run env i p | _ \<Rightarrow> p)"
| "mp_exec Destroy_call p = destroy_call p"
| "mp_exec Destroy_test p = destroy_test p"
| "mp_exec Destroy_notify p = destroy_notify_all p"
| "mp_exec Destroy_join p = destroy_join p"
| "mp_exec (Work_call i ev) p = p\<lparr>pm_works := (pm_works p)[i := work_exec ev (pm_works p ! i)]\<rparr>"

text \<open>
  Which steps can happen; threads inside a condition variable may also wake without a notification.
  Threads that wait for a work call \<^verbatim>\<open>wait\<close> on it, only the worker finishes it.
\<close>

fun mp_enabled :: "'v mpi_event \<Rightarrow> 'v pg_mpi \<Rightarrow> bool" where
  "mp_enabled (Collective_call entry) p = True"
| "mp_enabled Notify_one p = (0 < pm_notifies p)"
| "mp_enabled Test_loop p = (pm_worker p = Testing)"
| "mp_enabled Awake_worker p = (case pm_worker p of Asleep b \<Rightarrow> True | _ \<Rightarrow> False)"
| "mp_enabled Notify_drain p = (case pm_worker p of Took i \<Rightarrow> True | _ \<Rightarrow> False)"
| "mp_enabled (Run_call env) p = (case pm_worker p of In_run i \<Rightarrow> True | _ \<Rightarrow> False)"
| "mp_enabled Destroy_call p = (pm_destroy p = Not_called)"
| "mp_enabled Destroy_test p = (case pm_destroy p of Locking \<Rightarrow> True | Draining b \<Rightarrow> True | _ \<Rightarrow> False)"
| "mp_enabled Destroy_notify p = (pm_destroy p = Stop_set)"
| "mp_enabled Destroy_join p = (pm_destroy p = Joining \<and> pm_worker p = Left_loop)"
| "mp_enabled (Work_call i ev) p = (i < length (pm_works p) \<and> \<not> is_finish ev \<and> work_enabled ev (pm_works p ! i))"

inductive mp_reach :: "'v pg_mpi \<Rightarrow> bool" where
  mp_start: "ProcessGroupMPI rank world comm m = Inr p \<Longrightarrow> mp_reach p"
| mp_step: "mp_reach p \<Longrightarrow> mp_enabled e p \<Longrightarrow> mp_reach (mp_exec e p)"

text \<open>
  The steps the threads of the group take by themselves: no calls from outside, and no thread wakes
  without a notification.
\<close>

fun mp_internal :: "'v mpi_event \<Rightarrow> 'v pg_mpi \<Rightarrow> bool" where
  "mp_internal (Collective_call entry) p = False"
| "mp_internal Destroy_call p = False"
| "mp_internal (Work_call i ev) p = False"
| "mp_internal Awake_worker p = (pm_worker p = Asleep True)"
| "mp_internal Destroy_test p = (pm_destroy p = Locking \<or> pm_destroy p = Draining True)"
| "mp_internal e p = mp_enabled e p"

inductive mp_runs :: "'v pg_mpi \<Rightarrow> nat \<Rightarrow> 'v pg_mpi \<Rightarrow> bool" for p where
  mp_runs_none: "mp_runs p 0 p"
| mp_runs_step: "mp_runs p k q \<Longrightarrow> mp_internal e q \<Longrightarrow> mp_runs p (Suc k) (mp_exec e q)"

section \<open>Invariants\<close>

definition in_hand :: "worker_phase \<Rightarrow> nat option" where
  "in_hand w = (case w of Took i \<Rightarrow> Some i | In_run i \<Rightarrow> Some i | _ \<Rightarrow> None)"

definition taken_count :: "'v pg_mpi \<Rightarrow> nat" where
  "taken_count p = length (pm_ran p) + (case in_hand (pm_worker p) of Some i \<Rightarrow> 1 | None \<Rightarrow> 0)"

definition indexed :: "'a list \<Rightarrow> ('a \<times> nat) list" where
  "indexed xs = zip xs [0..<length xs]"

text \<open>Entries are taken in order, and the queue holds the rest.\<close>

definition order_inv :: "'v pg_mpi \<Rightarrow> bool" where
  "order_inv p \<longleftrightarrow>
     map fst (pm_ran p) = [0..<length (pm_ran p)] \<and>
     (\<forall>i. in_hand (pm_worker p) = Some i \<longrightarrow> i = length (pm_ran p)) \<and>
     length (pm_works p) = length (pm_entries p) \<and> taken_count p \<le> length (pm_entries p) \<and>
     pm_queue p = drop (taken_count p) (indexed (pm_entries p))"

definition run_exn :: "unit res \<Rightarrow> exn option" where
  "run_exn r = (case r of Inr _ \<Rightarrow> None | Inl e \<Rightarrow> Some e)"

text \<open>A work is completed when its run has ended, with the outcome of the run.\<close>

definition works_inv :: "'v pg_mpi \<Rightarrow> bool" where
  "works_inv p \<longleftrightarrow>
     (\<forall>i < length (pm_works p). Work_isCompleted (pm_works p ! i) = (i < length (pm_ran p)) \<and>
        (i < length (pm_ran p) \<longrightarrow> Work_exception (pm_works p ! i) = run_exn (snd (pm_ran p ! i))))"

text \<open>When \<^verbatim>\<open>stop_\<close> is set, all entries so far had been taken, and the worker takes no more.\<close>

definition stop_inv :: "'v pg_mpi \<Rightarrow> bool" where
  "stop_inv p \<longleftrightarrow>
     (pm_stop p \<longleftrightarrow> pm_destroy p \<in> {Stop_set, Joining, Joined}) \<and>
     (pm_stop p \<longrightarrow> taken_count p = pm_at_stop p) \<and>
     (pm_worker p = Left_loop \<longrightarrow> pm_stop p) \<and>
     (pm_destroy p = Joined \<longrightarrow> pm_worker p = Left_loop)"

text \<open>No wake-up is lost.\<close>

definition awake_inv :: "'v pg_mpi \<Rightarrow> bool" where
  "awake_inv p \<longleftrightarrow>
     (pm_worker p = Asleep False \<longrightarrow> (pm_queue p \<noteq> [] \<longrightarrow> 0 < pm_notifies p) \<and> (pm_stop p \<longrightarrow> pm_destroy p = Stop_set)) \<and>
     (pm_destroy p = Draining False \<and> pm_queue p = [] \<longrightarrow> (\<exists>i. pm_worker p = Took i))"

lemmas mp_step_defs = mpi_collective_def enqueue_entry_def enqueue_notify_one_def runLoop_test_def runLoop_awake_def
  runLoop_notify_def runLoop_run_def destroy_call_def destroy_test_def destroy_notify_all_def destroy_join_def
  wake_worker_def cmd_simps

lemma indexed_append [simp]: "indexed (xs @ [x]) = indexed xs @ [(x, length xs)]"
  by (simp add: indexed_def)

lemma length_indexed [simp]: "length (indexed xs) = length xs"
  by (simp add: indexed_def)

lemma indexed_nth: "i < length xs \<Longrightarrow> indexed xs ! i = (xs ! i, i)"
  by (simp add: indexed_def)

lemma take_next:
  assumes "drop t (indexed xs) = (e, i) # rest"
  shows "i = t" and "t < length xs" and "rest = drop (Suc t) (indexed xs)"
proof -
  from assms show t: "t < length xs" by (metis drop_eq_Nil2 length_indexed linorder_not_less list.discI)
  then have "drop t (indexed xs) = (xs ! t, t) # drop (Suc t) (indexed xs)"
    by (simp add: Cons_nth_drop_Suc [symmetric] indexed_nth)
  with assms show "i = t" "rest = drop (Suc t) (indexed xs)" by auto
qed

lemma order_inv_step: "order_inv p \<Longrightarrow> mp_enabled e p \<Longrightarrow> order_inv (mp_exec e p)"
  by (cases e) (auto simp: order_inv_def taken_count_def in_hand_def mp_step_defs
      dest: take_next split: sum.splits list.splits worker_phase.splits prod.splits option.splits)

lemma stop_inv_step:
  assumes "order_inv p" and "stop_inv p" and "mp_enabled e p"
  shows "stop_inv (mp_exec e p)"
  using assms
  by (cases e) (auto simp: order_inv_def stop_inv_def taken_count_def in_hand_def mp_step_defs
      split: sum.splits list.splits worker_phase.splits destroy_phase.splits prod.splits option.splits)

lemma awake_inv_step:
  assumes "stop_inv p" and "awake_inv p" and "mp_enabled e p"
  shows "awake_inv (mp_exec e p)"
  using assms
  by (cases e) (auto simp: stop_inv_def awake_inv_def mp_step_defs
      split: sum.splits list.splits worker_phase.splits destroy_phase.splits prod.splits option.splits)

text \<open>Threads that wait for a work do not complete it.\<close>

lemma work_exec_outcome:
  assumes "\<not> is_finish ev"
  shows "Work_isCompleted (work_exec ev w) = Work_isCompleted w \<and> Work_exception (work_exec ev w) = Work_exception w"
  using assms
  by (cases ev) (auto simp: Work_isCompleted_def Work_exception_def Work_wait_def wait_end_outcome Work_resume_def
      Work_expire_def work_leave_def split: option.splits)

lemma finish_outcome_of [simp]:
  "Work_isCompleted (finish e w)" "Work_exception (finish e w) = e"
  by (simp_all add: finish_def work_notify_all_def Work_isCompleted_def Work_exception_def)

lemma works_inv_step:
  assumes "order_inv p" and "works_inv p" and "mp_enabled e p"
  shows "works_inv (mp_exec e p)"
proof (cases e)
  case (Run_call env)
  with assms(3) obtain i where i: "pm_worker p = In_run i" by (auto split: worker_phase.splits)
  obtain r m where run: "run_entry env (pm_rank p) (pm_size p) (pm_entries p ! i) (pm_memory p) = (r, m)" by fastforce
  have "i = length (pm_ran p)" "i < length (pm_works p)"
    using assms(1) i by (simp_all add: order_inv_def taken_count_def in_hand_def)
  with assms(2) i run Run_call show ?thesis
    by (auto simp: works_inv_def runLoop_run_def run_exn_def nth_append nth_list_update less_Suc_eq split: sum.splits)
next
  case (Collective_call entry)
  have "length (pm_ran p) \<le> length (pm_works p)"
    using assms(1) by (simp add: order_inv_def taken_count_def split: option.splits)
  with assms(2) Collective_call show ?thesis
    by (cases entry) (auto simp: works_inv_def mp_step_defs nth_append less_Suc_eq WorkMPI_new_def Work_def Work_isCompleted_def)
qed (use assms(2,3) in \<open>auto simp: works_inv_def mp_step_defs nth_list_update work_exec_outcome
       split: list.splits worker_phase.splits\<close>)

lemma mp_inv_start:
  assumes "ProcessGroupMPI rank world comm m = Inr p"
  shows "order_inv p" and "works_inv p" and "stop_inv p" and "awake_inv p"
proof -
  from assms have p: "pm_stop p = False" "pm_queue p = []" "pm_works p = []" "pm_worker p = Testing" "pm_destroy p = Not_called"
    "pm_entries p = []" "pm_ran p = []" by (auto simp: ProcessGroupMPI_def split: if_splits)
  then show "order_inv p" "works_inv p" "stop_inv p" "awake_inv p"
    by (simp_all add: order_inv_def works_inv_def stop_inv_def awake_inv_def taken_count_def in_hand_def indexed_def)
qed

lemma reach_mp_inv:
  assumes "mp_reach p"
  shows "order_inv p" and "works_inv p" and "stop_inv p" and "awake_inv p"
proof -
  from assms have "order_inv p \<and> works_inv p \<and> stop_inv p \<and> awake_inv p"
  proof induction
    case (mp_start rank world comm m p)
    then show ?case using mp_inv_start by blast
  next
    case (mp_step p e)
    then show ?case using order_inv_step works_inv_step stop_inv_step awake_inv_step by blast
  qed
  then show "order_inv p" "works_inv p" "stop_inv p" "awake_inv p" by simp_all
qed

section \<open>Progress\<close>

text \<open>A bound on the steps the threads of the group can still take by themselves.\<close>

fun worker_weight :: "worker_phase \<Rightarrow> nat" where
  "worker_weight Testing = 2"
| "worker_weight (Asleep b) = (if b then 3 else 0)"
| "worker_weight (Took i) = 5"
| "worker_weight (In_run i) = 3"
| "worker_weight Left_loop = 0"

fun destroy_weight :: "destroy_phase \<Rightarrow> nat" where
  "destroy_weight Not_called = 0"
| "destroy_weight Locking = 8"
| "destroy_weight (Draining b) = (if b then 7 else 6)"
| "destroy_weight Stop_set = 5"
| "destroy_weight Joining = 1"
| "destroy_weight Joined = 0"

definition mp_weight :: "'v pg_mpi \<Rightarrow> nat" where
  "mp_weight p =
     4 * length (pm_queue p) + 4 * pm_notifies p + worker_weight (pm_worker p) + destroy_weight (pm_destroy p)"

lemma mp_weight_decreases: "mp_internal e p \<Longrightarrow> mp_weight (mp_exec e p) < mp_weight p"
  by (cases e) (auto simp: mp_weight_def mp_step_defs split: list.splits worker_phase.splits destroy_phase.splits prod.splits)

lemma mp_runs_bounded: "mp_runs p k q \<Longrightarrow> k + mp_weight q \<le> mp_weight p"
proof (induction rule: mp_runs.induct)
  case (mp_runs_step k q e)
  then show ?case using mp_weight_decreases [of e q] by simp
qed simp

lemma mp_internal_enabled: "mp_internal e p \<Longrightarrow> mp_enabled e p"
  by (cases e) (auto split: destroy_phase.splits)

lemma mp_runs_reach: "mp_runs p k q \<Longrightarrow> mp_reach p \<Longrightarrow> mp_reach q"
  by (induction rule: mp_runs.induct) (auto intro: mp_step mp_internal_enabled)

text \<open>Where no thread can go on.\<close>

lemma mp_idle:
  assumes "mp_reach p" and "\<forall>e. \<not> mp_internal e p"
  shows "(pm_worker p = Asleep False \<and> pm_queue p = [] \<and> pm_destroy p = Not_called) \<or>
     (pm_worker p = Left_loop \<and> pm_destroy p = Joined)"
proof -
  note inv = reach_mp_inv(3,4) [OF assms(1)]
  note no = assms(2) [rule_format]
  from no [of Notify_one] have "pm_notifies p = 0" by simp
  moreover from no [of Test_loop] no [of Notify_drain] no [of "Run_call undefined"] no [of Awake_worker]
  have "pm_worker p = Asleep False \<or> pm_worker p = Left_loop" by (cases "pm_worker p") auto
  moreover from no [of Destroy_test] no [of Destroy_notify] no [of Destroy_join]
  have "pm_destroy p = Not_called \<or> pm_destroy p = Draining False \<or>
      pm_destroy p = Joining \<and> pm_worker p \<noteq> Left_loop \<or> pm_destroy p = Joined" by (cases "pm_destroy p") auto
  ultimately show ?thesis using inv by (auto simp: stop_inv_def awake_inv_def)
qed

lemma mp_internal_destroy:
  "mp_internal e p \<Longrightarrow> pm_destroy p \<noteq> Not_called \<Longrightarrow> pm_destroy (mp_exec e p) \<noteq> Not_called"
  by (cases e) (auto simp: mp_step_defs split: list.splits worker_phase.splits destroy_phase.splits prod.splits)

lemma mp_runs_destroy: "mp_runs p k q \<Longrightarrow> pm_destroy p \<noteq> Not_called \<Longrightarrow> pm_destroy q \<noteq> Not_called"
  by (induction rule: mp_runs.induct) (simp_all add: mp_internal_destroy)

text \<open>The group's own steps add no entries, so that a stop they lead to comes after all entries.\<close>

definition stop_covers :: "'v pg_mpi \<Rightarrow> bool" where
  "stop_covers p \<longleftrightarrow> (pm_stop p \<longrightarrow> pm_at_stop p = length (pm_entries p))"

lemma mp_internal_covers: "mp_internal e p \<Longrightarrow> stop_covers p \<Longrightarrow> stop_covers (mp_exec e p)"
  by (cases e) (auto simp: stop_covers_def mp_step_defs split: list.splits worker_phase.splits prod.splits)

lemma mp_runs_covers: "mp_runs p k q \<Longrightarrow> stop_covers p \<Longrightarrow> stop_covers q"
  by (induction rule: mp_runs.induct) (simp_all add: mp_internal_covers)

lemma joined_completed:
  assumes "mp_reach p" and "pm_destroy p = Joined" and "i < pm_at_stop p"
  shows "i < length (pm_works p)" and "Work_isCompleted (pm_works p ! i)"
proof -
  note inv = reach_mp_inv [OF assms(1)]
  have "pm_worker p = Left_loop" "pm_stop p" using inv(3) assms(2) by (auto simp: stop_inv_def)
  then have "i < length (pm_ran p)" using inv(3) assms(3) by (simp add: stop_inv_def taken_count_def in_hand_def)
  then show "i < length (pm_works p)" "Work_isCompleted (pm_works p ! i)"
    using inv(1,2) by (auto simp: order_inv_def works_inv_def taken_count_def split: option.splits)
qed

section \<open>Properties\<close>

text \<open>
  C24. Collectives reach MPI in the order of the calls: in every state of a process group, under every
  interleaving of calls, waits, the worker and a destroying thread, runs have ended for the works 0,
  1, 2, ... in this order and once each; a work is completed exactly when its run has ended, and then
  carries the exception of the run or none; the queue holds the last works, in order, and at most one
  work is in the hands of the worker between the two.
\<close>

theorem mpi_calls_in_order:
  assumes "mp_reach p"
  shows "map fst (pm_ran p) = [0..<length (pm_ran p)] \<and>
     (\<forall>i < length (pm_works p). Work_isCompleted (pm_works p ! i) = (i < length (pm_ran p))) \<and>
     (\<forall>i < length (pm_ran p). Work_exception (pm_works p ! i) = run_exn (snd (pm_ran p ! i))) \<and>
     pm_queue p = drop (length (pm_works p) - length (pm_queue p)) (indexed (pm_entries p)) \<and>
     length (pm_works p) \<in> {length (pm_ran p) + length (pm_queue p), length (pm_ran p) + length (pm_queue p) + 1}"
proof -
  note inv = reach_mp_inv(1,2) [OF assms]
  have "length (pm_queue p) = length (pm_works p) - taken_count p" "taken_count p \<le> length (pm_works p)"
    using inv(1) by (simp_all add: order_inv_def)
  moreover have "taken_count p = length (pm_ran p) \<or> taken_count p = Suc (length (pm_ran p))"
    by (simp add: taken_count_def split: option.splits)
  ultimately show ?thesis using inv by (auto simp: order_inv_def works_inv_def)
qed

text \<open>
  C23. \<^verbatim>\<open>destroy\<close> ends: once it has been called, the worker and the destroying thread take at most
  \<open>mp_weight\<close> further steps by themselves, whatever the schedule, provided that the MPI functions
  return; and where neither can go on, the worker has been joined. If the stop had not been set when
  the steps began, every work has been completed by then: no entry is dropped from the queue.
\<close>

theorem mpi_destroy_completes:
  assumes "mp_reach p" and "pm_destroy p \<noteq> Not_called" and "mp_runs p k q"
  shows "k \<le> mp_weight p \<and>
     ((\<forall>e. \<not> mp_internal e q) \<longrightarrow>
        pm_destroy q = Joined \<and> (\<forall>i < pm_at_stop q. Work_isCompleted (pm_works q ! i)) \<and>
        (\<not> pm_stop p \<longrightarrow> list_all Work_isCompleted (pm_works q)))"
proof -
  have reach: "mp_reach q" using mp_runs_reach assms by blast
  have "k \<le> mp_weight p" using mp_runs_bounded [OF assms(3)] by simp
  moreover have "pm_destroy q = Joined" if "\<forall>e. \<not> mp_internal e q"
    using mp_idle [OF reach that] mp_runs_destroy [OF assms(3,2)] by blast
  moreover have "length (pm_works q) \<le> pm_at_stop q" if "pm_destroy q = Joined" "\<not> pm_stop p"
  proof -
    have "stop_covers q" using mp_runs_covers [OF assms(3)] that(2) by (simp add: stop_covers_def)
    with reach_mp_inv(1,3) [OF reach] that(1) show ?thesis by (auto simp: stop_covers_def order_inv_def stop_inv_def)
  qed
  ultimately show ?thesis using joined_completed(2) [OF reach] by (auto simp: list_all_length)
qed

text \<open>A barrier is queued, and the group is destroyed at once.\<close>

fun mp_schedule :: "'v mpi_event list \<Rightarrow> 'v pg_mpi \<Rightarrow> 'v pg_mpi" where
  "mp_schedule [] p = p"
| "mp_schedule (e # es) p = mp_schedule es (mp_exec e p)"

fun mp_allowed :: "('v mpi_event \<Rightarrow> 'v pg_mpi \<Rightarrow> bool) \<Rightarrow> 'v mpi_event list \<Rightarrow> 'v pg_mpi \<Rightarrow> bool" where
  "mp_allowed P [] p = True"
| "mp_allowed P (e # es) p = (P e p \<and> mp_allowed P es (mp_exec e p))"

lemma mp_schedule_reach: "mp_allowed mp_enabled es p \<Longrightarrow> mp_reach p \<Longrightarrow> mp_reach (mp_schedule es p)"
  by (induction es arbitrary: p) (auto intro: mp_step)

lemma mp_schedule_runs:
  "mp_allowed mp_internal es q \<Longrightarrow> mp_runs p k q \<Longrightarrow> mp_runs p (k + length es) (mp_schedule es q)"
proof (induction es arbitrary: q k)
  case (Cons e es)
  then show ?case using Cons.IH [of "mp_exec e q" "Suc k"] mp_runs_step by fastforce
qed simp

definition sample_group :: "int pg_mpi" where
  "sample_group =
     \<lparr>pm_rank = 0, pm_size = 2, pm_stop = False, pm_queue = [], pm_works = [], pm_notifies = 0,
      pm_worker = Testing, pm_destroy = Not_called, pm_memory = (\<lambda>_. []), pm_entries = [], pm_ran = [], pm_at_stop = 0\<rparr>"

definition sample_destroyed :: "int pg_mpi" where
  "sample_destroyed = mp_schedule [Collective_call mpi_barrier, Destroy_call] sample_group"

definition sample_steps :: "int mpi_event list" where
  "sample_steps =
     [Notify_one, Destroy_test, Test_loop, Notify_drain, Run_call (sample_mpi_env 0), Destroy_test, Destroy_notify,
      Test_loop, Destroy_join]"

lemma sample_group_reach: "mp_reach sample_group"
  by (rule mp_start [of 0 2 "Some 0" "\<lambda>_. []"]) (simp add: ProcessGroupMPI_def sample_group_def)

lemma sample_destroyed_reach: "mp_reach sample_destroyed"
  unfolding sample_destroyed_def
  by (rule mp_schedule_reach [OF _ sample_group_reach]) (simp add: sample_group_def mpi_barrier_def mp_step_defs)

lemmas sample_eval = sample_destroyed_def sample_group_def sample_steps_def mpi_barrier_def new_entry_def mp_step_defs
  run_entry_def sample_mpi_env_def MPI_CHECK_def

theorem mpi_destroy_completes_witness:
  "pm_destroy (mp_schedule sample_steps sample_destroyed) = Joined \<and>
   list_all Work_isCompleted (pm_works (mp_schedule sample_steps sample_destroyed)) \<and> 9 \<le> mp_weight sample_destroyed"
proof -
  let ?q = "mp_schedule sample_steps sample_destroyed"
  have "mp_runs sample_destroyed (0 + length sample_steps) ?q"
    by (rule mp_schedule_runs [OF _ mp_runs_none]) (simp add: sample_eval)
  moreover have "\<not> mp_internal e ?q" for e by (cases e) (simp_all add: sample_eval)
  ultimately show ?thesis
    using mpi_destroy_completes [OF sample_destroyed_reach, of "0 + length sample_steps" ?q]
    by (simp add: mpi_barrier_def sample_destroyed_def sample_group_def mp_step_defs sample_steps_def)
qed

theorem mpi_calls_in_order_witness:
  "map fst (pm_ran (mp_schedule sample_steps sample_destroyed)) = [0] \<and>
   Work_exception (pm_works (mp_schedule sample_steps sample_destroyed) ! 0) = None"
proof -
  have "mp_allowed mp_enabled sample_steps sample_destroyed" by (simp add: sample_eval)
  then have "mp_reach (mp_schedule sample_steps sample_destroyed)" using mp_schedule_reach sample_destroyed_reach by blast
  from mpi_calls_in_order [OF this] show ?thesis by (simp add: sample_eval run_exn_def)
qed

text \<open>
  An entry that is queued after the stop is never run: \<^verbatim>\<open>abort\<close> destroys the queue of a group that
  can still be called, and a thread that waits for such a work waits forever.
\<close>

lemma late_entry_stays:
  assumes "mp_reach p" and "pm_stop p" and "mp_enabled e p" and "pm_queue p \<noteq> []"
  shows "pm_queue (mp_exec e p) \<noteq> []"
  using assms(2-4)
  by (cases e) (auto simp: mp_step_defs split: sum.splits list.splits worker_phase.splits prod.splits)

end
