(* ===== verification/DistAutograd_Context.thy ===== *)
theory DistAutograd_Context
  imports C10d_Prelude
begin

text \<open>
  \<^verbatim>\<open>DistAutogradContext\<close> (\<^verbatim>\<open>autograd/context/context.h\<close>,
  \<^verbatim>\<open>context.cpp\<close>): what a worker keeps for one distributed backward pass. Functions, graph
  tasks, futures and variables are names. The accumulation of one gradient into another is
  done by \<^verbatim>\<open>torch::autograd::AccumulateGrad\<close>, which is not part of this repository: it is
  the parameter \<open>accum\<close>, as are the hooks of a variable. The main result is about
  \<^verbatim>\<open>clearAndWaitForOutstandingRpcsAsync\<close>: its future is set exactly once, to the first
  error or, when there is none, when the last RPC has finished.
\<close>

section \<open>State and operations\<close>

record 'g dist_context =
  contextId :: int
  knownWorkerIds :: "int list"
  sendAutogradFunctions :: "(int, nat) umap"
  recvAutogradFunctions :: "(int, nat) umap"
  accumulatedGrads :: "(nat, 'g) umap"
  graphTask :: "nat option"
  outStandingRpcs :: "nat list"

definition new_context :: "int \<Rightarrow> 'g dist_context" where
  "new_context cid = \<lparr>contextId = cid, knownWorkerIds = [], sendAutogradFunctions = [],
     recvAutogradFunctions = [], accumulatedGrads = [], graphTask = None, outStandingRpcs = []\<rparr>"

definition getKnownWorkerIds :: "'g dist_context \<Rightarrow> int list" where
  "getKnownWorkerIds c = knownWorkerIds c"

definition addKnownWorkerId :: "int \<Rightarrow> 'g dist_context \<Rightarrow> 'g dist_context" where
  "addKnownWorkerId w c = c\<lparr>knownWorkerIds := List.insert w (knownWorkerIds c)\<rparr>"

text \<open>\<open>None\<close> is the null pointer.\<close>

definition addSendFunction :: "nat option \<Rightarrow> int \<Rightarrow> ('g dist_context, unit) cmd" where
  "addSendFunction func autograd_message_id =
     (case func of
        None \<Rightarrow> throwM (C10_assert ''func != nullptr'')
      | Some f \<Rightarrow>
          bindM (getM (\<lambda>c. umap_has (sendAutogradFunctions c) autograd_message_id)) (\<lambda>present.
          bindM (checkM (\<not> present) (C10_assert ''sendAutogradFunctions_'')) (\<lambda>_.
          modifyM (\<lambda>c. c\<lparr>sendAutogradFunctions :=
            AList.update autograd_message_id f (sendAutogradFunctions c)\<rparr>))))"

definition addRecvFunction :: "nat option \<Rightarrow> int \<Rightarrow> ('g dist_context, unit) cmd" where
  "addRecvFunction func autograd_message_id =
     (case func of
        None \<Rightarrow> throwM (C10_assert ''func != nullptr'')
      | Some f \<Rightarrow>
          bindM (getM (\<lambda>c. umap_has (recvAutogradFunctions c) autograd_message_id)) (\<lambda>present.
          bindM (checkM (\<not> present) (C10_assert ''recvAutogradFunctions_'')) (\<lambda>_.
          modifyM (\<lambda>c. c\<lparr>recvAutogradFunctions :=
            AList.update autograd_message_id f (recvAutogradFunctions c)\<rparr>))))"

definition retrieveSendFunction :: "int \<Rightarrow> ('g dist_context, nat) cmd" where
  "retrieveSendFunction autograd_message_id =
     bindM (getM (\<lambda>c. map_of (sendAutogradFunctions c) autograd_message_id)) (\<lambda>found.
       case found of
         None \<Rightarrow> throwM (C10_error ''Could not find send function for autograd message id: '')
       | Some f \<Rightarrow> returnM f)"

text \<open>
  \<open>hooks v g\<close>: what the hooks of the variable make of the gradient. \<open>accum old new\<close>: the value
  the old gradient has afterwards (it may be updated in place) and, when the update function is
  called, the value it is called with. The update inserts into the dictionary, which leaves a
  value that is there as it is.
\<close>

definition accumulateGrad ::
    "(nat \<Rightarrow> 'g \<Rightarrow> 'g) \<Rightarrow> ('g option \<Rightarrow> 'g \<Rightarrow> 'g option \<times> 'g option) \<Rightarrow>
     nat \<Rightarrow> bool \<Rightarrow> 'g option \<Rightarrow> ('g dist_context, unit) cmd" where
  "accumulateGrad hooks accum variable requires_grad grad =
     (case grad of
        None \<Rightarrow> throwM (C10_assert ''grad.defined()'')
      | Some g \<Rightarrow>
          bindM (checkM requires_grad (C10_assert ''variable.requires_grad()'')) (\<lambda>_.
          modifyM (\<lambda>c.
            let new_grad = hooks variable g
            in case map_of (accumulatedGrads c) variable of
                 None \<Rightarrow>
                   (case snd (accum None new_grad) of
                      None \<Rightarrow> c
                    | Some u \<Rightarrow> c\<lparr>accumulatedGrads := AList.update variable u (accumulatedGrads c)\<rparr>)
               | Some old \<Rightarrow>
                   (case fst (accum (Some old) new_grad) of
                      None \<Rightarrow> c
                    | Some old' \<Rightarrow> c\<lparr>accumulatedGrads := AList.update variable old' (accumulatedGrads c)\<rparr>))))"

definition runGradCallbackForVariable :: "('g \<Rightarrow> bool \<times> 'g) \<Rightarrow> nat \<Rightarrow> ('g dist_context, unit) cmd" where
  "runGradCallbackForVariable cb variable =
     bindM (getM (\<lambda>c. map_of (accumulatedGrads c) variable)) (\<lambda>found.
       case found of
         None \<Rightarrow> throwM (C10_assert ''The grad for the variable should exist in dist_autograd context.'')
       | Some grad \<Rightarrow>
           (case cb grad of (changed, grad') \<Rightarrow>
              if changed
              then modifyM (\<lambda>c. c\<lparr>accumulatedGrads := AList.update variable grad' (accumulatedGrads c)\<rparr>)
              else returnM ()))"

definition retrieveGraphTask :: "('g dist_context, nat) cmd" where
  "retrieveGraphTask =
     bindM (getM graphTask) (\<lambda>t. case t of None \<Rightarrow> throwM (C10_assert ''graphTask_'') | Some g \<Rightarrow> returnM g)"

definition setGraphTask :: "nat \<Rightarrow> ('g dist_context, unit) cmd" where
  "setGraphTask task =
     bindM (getM graphTask) (\<lambda>t.
     bindM (checkM (t = None)
       (C10_assert ''Cannot set GraphTask multiple times for the same autograd context'')) (\<lambda>_.
     modifyM (\<lambda>c. c\<lparr>graphTask := Some task\<rparr>)))"

definition resetGraphTask :: "'g dist_context \<Rightarrow> 'g dist_context" where
  "resetGraphTask c = c\<lparr>graphTask := None\<rparr>"

definition addOutstandingRpc :: "nat \<Rightarrow> 'g dist_context \<Rightarrow> 'g dist_context" where
  "addOutstandingRpc jitFuture c = c\<lparr>outStandingRpcs := outStandingRpcs c @ [jitFuture]\<rparr>"

text \<open>
  The callback that \<^verbatim>\<open>addOutstandingRpc\<close> registers: an RPC that failed is reported to the
  graph task of the context, if there still is one; its result is set once.
\<close>

record graph_task =
  gt_has_error :: bool
  gt_future_completed :: bool
  gt_future_result :: "string option"

definition outstandingRpc_callback :: "string option \<Rightarrow> 'g dist_context \<Rightarrow> graph_task \<Rightarrow> graph_task" where
  "outstandingRpc_callback err c gt =
     (case err of
        None \<Rightarrow> gt
      | Some e \<Rightarrow>
          (if graphTask c \<noteq> None then
             let gt1 = gt\<lparr>gt_has_error := True\<rparr>
             in if \<not> gt_future_completed gt1
                then gt1\<lparr>gt_future_completed := True,
                         gt_future_result := (case gt_future_result gt1 of None \<Rightarrow> Some e | Some r \<Rightarrow> Some r)\<rparr>
                else gt1
           else gt))"

definition clearOutstandingRpcs :: "'g dist_context \<Rightarrow> 'g dist_context" where
  "clearOutstandingRpcs c = c\<lparr>outStandingRpcs := []\<rparr>"

section \<open>Waiting for the outstanding RPCs\<close>

record wait_state =
  ws_future :: future
  ws_remaining :: int
  ws_alreadySentError :: bool

definition clearAndWait_start :: "'g dist_context \<Rightarrow> wait_state \<times> nat list \<times> 'g dist_context" where
  "clearAndWait_start c =
     (let rpcs = outStandingRpcs c;
          st = \<lparr>ws_future = Pending, ws_remaining = int (length rpcs), ws_alreadySentError = False\<rparr>
      in (if rpcs = [] then st\<lparr>ws_future := markCompleted (ws_future st)\<rparr> else st,
          rpcs, c\<lparr>outStandingRpcs := []\<rparr>))"

text \<open>The callback of one RPC: \<open>Some e\<close> when it failed with \<open>e\<close>.\<close>

definition clearAndWait_callback :: "string option \<Rightarrow> wait_state \<Rightarrow> wait_state" where
  "clearAndWait_callback err st =
     (case err of
        Some e \<Rightarrow>
          (if \<not> ws_alreadySentError st
           then st\<lparr>ws_alreadySentError := True, ws_future := setError e (ws_future st)\<rparr>
           else st)
      | None \<Rightarrow>
          (let st1 = st\<lparr>ws_remaining := ws_remaining st - 1\<rparr>
           in if ws_remaining st1 = 0 then st1\<lparr>ws_future := markCompleted (ws_future st1)\<rparr> else st1))"

definition clearAndWait_run :: "'g dist_context \<Rightarrow> string option list \<Rightarrow> wait_state" where
  "clearAndWait_run c outcomes = fold clearAndWait_callback outcomes (fst (clearAndWait_start c))"

section \<open>The thread-local context\<close>

text \<open>
  \<^verbatim>\<open>ThreadLocalDistAutogradContext\<close>: the constructor installs a context and keeps the previous
  one, the destructor puts it back.
\<close>

definition tl_enter :: "nat option \<Rightarrow> nat option \<Rightarrow> nat option \<times> nat option" where
  "tl_enter new_ptr current = (new_ptr, current)"

definition tl_exit :: "nat option \<Rightarrow> nat option \<Rightarrow> nat option" where
  "tl_exit prev current = prev"

section \<open>Lemmas\<close>

definition first_error :: "string option list \<Rightarrow> string option" where
  "first_error outcomes = (case filter (\<lambda>x. x \<noteq> None) outcomes of [] \<Rightarrow> None | e # es \<Rightarrow> e)"

lemma run_after_error:
  "ws_alreadySentError st \<Longrightarrow> 0 \<le> n \<Longrightarrow>
   int (length (filter (\<lambda>x. x = None) outcomes)) + n < ws_remaining st \<or> ws_remaining st \<le> 0 \<Longrightarrow>
     ws_future (fold clearAndWait_callback outcomes st) = ws_future st"
proof (induction outcomes arbitrary: st)
  case (Cons x xs)
  show ?case
  proof (cases x)
    case None
    then have "ws_remaining st - 1 \<noteq> 0" using Cons.prems by auto
    then have step: "ws_future (clearAndWait_callback x st) = ws_future st"
      "ws_alreadySentError (clearAndWait_callback x st)" "ws_remaining (clearAndWait_callback x st) = ws_remaining st - 1"
      using None Cons.prems by (simp_all add: clearAndWait_callback_def Let_def)
    have "ws_future (fold clearAndWait_callback xs (clearAndWait_callback x st)) = ws_future (clearAndWait_callback x st)"
      using Cons.prems None step by (intro Cons.IH) auto
    with step show ?thesis by simp
  next
    case (Some e)
    then have "clearAndWait_callback x st = st" using Cons.prems by (simp add: clearAndWait_callback_def)
    with Cons Some show ?thesis by simp
  qed
qed simp

lemma clearAndWait_fold:
  assumes "ws_future st = Pending" and "\<not> ws_alreadySentError st" and "ws_remaining st = int (length outcomes)" and "outcomes \<noteq> []"
  shows "ws_future (fold clearAndWait_callback outcomes st) =
    (case first_error outcomes of None \<Rightarrow> Completed | Some e \<Rightarrow> Failed e)"
  using assms
proof (induction outcomes arbitrary: st)
  case (Cons x xs)
  show ?case
  proof (cases x)
    case (Some e)
    let ?st = "clearAndWait_callback x st"
    have st: "ws_alreadySentError ?st" "ws_future ?st = Failed e" "ws_remaining ?st = int (length (x # xs))"
      using Cons.prems Some by (simp_all add: clearAndWait_callback_def)
    have "int (length (filter (\<lambda>x. x = None) xs)) < 1 + int (length xs)"
      using length_filter_le [of "\<lambda>x. x = None" xs] by linarith
    then have "ws_future (fold clearAndWait_callback xs ?st) = ws_future ?st"
      using st by (intro run_after_error [where n = 0]) auto
    with st(2) Some show ?thesis by (simp add: first_error_def)
  next
    case None
    show ?thesis
    proof (cases "xs = []")
      case True
      with Cons.prems None show ?thesis by (simp add: clearAndWait_callback_def first_error_def)
    next
      case False
      let ?st = "clearAndWait_callback x st"
      have "ws_future ?st = Pending" "\<not> ws_alreadySentError ?st" "ws_remaining ?st = int (length xs)"
        using Cons.prems None False by (simp_all add: clearAndWait_callback_def Let_def)
      from Cons.IH [OF this False] None show ?thesis by (simp add: first_error_def)
    qed
  qed
qed simp

section \<open>Properties\<close>

text \<open>
  The future of \<^verbatim>\<open>clearAndWaitForOutstandingRpcsAsync\<close> is set exactly once, in whatever
  order the outstanding RPCs finish: to the error of the first RPC that failed, or, if none did,
  to completion with the last one; and it stays pending as long as no RPC failed and one is still
  running.
\<close>

theorem outstanding_rpcs_future:
  assumes "length outcomes = length (outStandingRpcs c)"
  shows "ws_future (clearAndWait_run c outcomes) =
      (case first_error outcomes of None \<Rightarrow> Completed | Some e \<Rightarrow> Failed e) \<and>
    outStandingRpcs (snd (snd (clearAndWait_start c))) = []"
proof (cases "outcomes = []")
  case True
  with assms show ?thesis by (simp add: clearAndWait_run_def clearAndWait_start_def first_error_def Let_def)
next
  case False
  with assms have ne: "outStandingRpcs c \<noteq> []" by auto
  have "ws_future (fold clearAndWait_callback outcomes (fst (clearAndWait_start c))) =
      (case first_error outcomes of None \<Rightarrow> Completed | Some e \<Rightarrow> Failed e)"
    using assms ne False by (intro clearAndWait_fold) (simp_all add: clearAndWait_start_def Let_def)
  then show ?thesis by (simp add: clearAndWait_run_def clearAndWait_start_def Let_def)
qed

theorem outstanding_rpcs_future_witness:
  "ws_future (clearAndWait_run ((new_context 7 :: nat dist_context)\<lparr>outStandingRpcs := [1, 2, 3]\<rparr>)
     [None, Some ''lost'', Some ''late'']) = Failed ''lost''"
  using outstanding_rpcs_future [of "[None, Some ''lost'', Some ''late'']" "(new_context 7 :: nat dist_context)\<lparr>outStandingRpcs := [1, 2, 3]\<rparr>"]
  by (simp add: first_error_def)

text \<open>
  Send functions are kept per message: a function added under a fresh message id is the one
  retrieved under that id, other ids are not touched, and a second function under the same id or a
  null function is rejected without changing the context.
\<close>

theorem send_functions_roundtrip:
  assumes "map_of (sendAutogradFunctions c) mid = None"
  shows "\<exists>c'. addSendFunction (Some f) mid c = (Inr (), c') \<and> fst (retrieveSendFunction mid c') = Inr f \<and>
    (\<forall>m. m \<noteq> mid \<longrightarrow> fst (retrieveSendFunction m c') = fst (retrieveSendFunction m c)) \<and>
    addSendFunction (Some g) mid c' = (Inl (C10_assert ''sendAutogradFunctions_''), c') \<and>
    snd (addSendFunction None mid c) = c"
  using assms
  by (intro exI [of _ "c\<lparr>sendAutogradFunctions := AList.update mid f (sendAutogradFunctions c)\<rparr>"])
     (auto simp: addSendFunction_def retrieveSendFunction_def bindM_def split: option.splits)

theorem send_functions_roundtrip_witness:
  "\<exists>c'. addSendFunction (Some 4) 9 (new_context 1 :: nat dist_context) = (Inr (), c') \<and> fst (retrieveSendFunction 9 c') = Inr 4"
  using send_functions_roundtrip [of "new_context 1 :: nat dist_context" 9 4] by (auto simp: new_context_def)

end
