(* ===== verification/DistAutograd_Container.thy ===== *)
theory DistAutograd_Container
  imports DistAutograd_Context
begin

unbundle bit_operations_syntax

text \<open>
  \<^verbatim>\<open>DistAutogradContainer\<close> (\<^verbatim>\<open>autograd/context/container.h\<close>,
  \<^verbatim>\<open>container.cpp\<close>): the contexts of a worker, kept in a map that is split into shards by
  the low bits of the context id, the generation of ids whose upper 16 bits are the worker, and
  the context each thread is in. The sharded map is shown to be a map (the locale
  \<open>context_map\<close>), whatever the number of shards; the rest is proved over that interface. Ids of
  different workers are shown never to collide.
\<close>

section \<open>A map interface\<close>

locale context_map =
  fixes wf :: "'m \<Rightarrow> bool"
    and look :: "'m \<Rightarrow> int \<Rightarrow> 'c option"
    and ins :: "int \<Rightarrow> 'c \<Rightarrow> 'm \<Rightarrow> 'm"
    and del :: "int \<Rightarrow> 'm \<Rightarrow> 'm"
    and count :: "'m \<Rightarrow> nat"
  assumes look_ins: "wf m \<Longrightarrow> look (ins k c m) = (look m)(k \<mapsto> c)"
    and look_del: "wf m \<Longrightarrow> look (del k m) = (look m)(k := None)"
    and wf_ins: "wf m \<Longrightarrow> wf (ins k c m)"
    and wf_del: "wf m \<Longrightarrow> wf (del k m)"
    and count_card: "wf m \<Longrightarrow> finite (dom (look m)) \<and> count m = card (dom (look m))"
begin

lemma count_ins_new: "wf m \<Longrightarrow> look m k = None \<Longrightarrow> count (ins k c m) = Suc (count m)"
  using count_card [of m] count_card [OF wf_ins, of m k c] by (simp add: look_ins domIff)

lemma count_del: "wf m \<Longrightarrow> look m k = Some c \<Longrightarrow> count (del k m) = count m - 1"
  using count_card [of m] count_card [OF wf_del, of m k] by (simp add: look_del domI)

lemma ins_del_look: "wf m \<Longrightarrow> look m k = None \<Longrightarrow> look (del k (ins k c m)) = look m"
  by (simp add: look_ins look_del wf_ins fun_upd_idem)

end

section \<open>The sharded map\<close>

type_synonym 'c shards = "(int, 'c) umap list"

definition shard_of :: "'c shards \<Rightarrow> int \<Rightarrow> nat" where
  "shard_of sh context_id = nat (context_id AND (int (length sh) - 1))"

definition shard_find :: "'c shards \<Rightarrow> int \<Rightarrow> 'c option" where
  "shard_find sh context_id = map_of (sh ! shard_of sh context_id) context_id"

definition shard_emplace :: "int \<Rightarrow> 'c \<Rightarrow> 'c shards \<Rightarrow> 'c shards" where
  "shard_emplace context_id c sh =
     sh[shard_of sh context_id := AList.update context_id c (sh ! shard_of sh context_id)]"

definition shard_erase :: "int \<Rightarrow> 'c shards \<Rightarrow> 'c shards" where
  "shard_erase context_id sh =
     sh[shard_of sh context_id := AList.delete context_id (sh ! shard_of sh context_id)]"

definition shard_size :: "'c shards \<Rightarrow> nat" where
  "shard_size sh = foldl (\<lambda>ret shard. ret + length shard) 0 sh"

section \<open>State\<close>

definition kAutoIncrementBits :: nat where "kAutoIncrementBits = 48"
definition kAutoIncrementMask :: int where "kAutoIncrementMask = 2 ^ kAutoIncrementBits - 1"
definition kMaxWorkerId :: int where "kMaxWorkerId = 65535"
definition kInvalidContextId :: int where "kInvalidContextId = -1"
definition kNumDefaultShards :: "32 word" where "kNumDefaultShards = 128"

text \<open>
  \<open>released\<close> holds the clean-up requests sent to other workers; \<open>current\<close> the thread-local
  context ids.
\<close>

record 'g container =
  next_context_id :: int
  worker_id :: int
  initialized :: bool
  autograd_contexts :: "'g dist_context shards"
  next_autograd_message_id :: int
  max_id :: int
  current :: "nat \<Rightarrow> int"
  released :: "(int \<times> int) list"

text \<open>
  The number of shards: the loop doubles until it is at least twice the number of hardware
  threads, in 32-bit arithmetic.
\<close>

partial_function (option) shards_loop :: "32 word \<Rightarrow> 32 word \<Rightarrow> (32 word) option" where
  "shards_loop num_hw_threads num_shards =
     (if num_shards < num_hw_threads * 2 then shards_loop num_hw_threads (push_bit 1 num_shards)
      else Some num_shards)"

declare shards_loop.simps [code]

definition computeNumShards :: "32 word \<Rightarrow> (32 word) option" where
  "computeNumShards num_hw_threads =
     (if num_hw_threads = 0 then Some kNumDefaultShards else shards_loop num_hw_threads 1)"

definition container_new :: "32 word \<Rightarrow> 'g container res" where
  "container_new num_shards =
     (if num_shards AND (num_shards - 1) \<noteq> 0 then Inl (C10_assert ''(num_shards & (num_shards - 1)) == 0'')
      else Inr \<lparr>next_context_id = 0, worker_id = 0, initialized = False,
                autograd_contexts = replicate (unat num_shards) [], next_autograd_message_id = 0,
                max_id = 0, current = (\<lambda>_. kInvalidContextId), released = []\<rparr>)"

section \<open>Operations\<close>

definition id_base :: "int \<Rightarrow> int" where
  "id_base w = wrap64 (push_bit kAutoIncrementBits w)"

definition init_container :: "int \<Rightarrow> ('g container, unit) cmd" where
  "init_container wid =
     bindM (checkM (0 \<le> wid \<and> wid \<le> kMaxWorkerId) (C10_error ''worker_id needs to be in the range [0, 65535]'')) (\<lambda>_.
     bindM (getM (\<lambda>c. (initialized c, worker_id c))) (\<lambda>(inited, old).
     bindM (checkM (\<not> inited \<or> wid = old) (C10_error ''Container is already initialized with worker_id: '')) (\<lambda>_.
     if inited then returnM ()
     else modifyM (\<lambda>c. c\<lparr>worker_id := sint (word_of_int wid :: 16 word),
            next_context_id := id_base wid,
            next_autograd_message_id := id_base wid,
            max_id := (kAutoIncrementMask OR id_base wid),
            initialized := True\<rparr>))))"

definition getInstance :: "('g container, unit) cmd" where
  "getInstance =
     bindM (getM initialized) (\<lambda>i. checkM i (C10_error ''Need to initialize distributed autograd using torch.distributed.autograd.init()''))"

definition newAutogradMessageId :: "('g container, int) cmd" where
  "newAutogradMessageId =
     bindM (getM (\<lambda>c. (next_autograd_message_id c, max_id c))) (\<lambda>(mid, mx).
     bindM (checkM (mid < mx) (C10_assert ''next_autograd_message_id_ < max_id_'')) (\<lambda>_.
     bindM (modifyM (\<lambda>c. c\<lparr>next_autograd_message_id := wrap64 (mid + 1)\<rparr>)) (\<lambda>_.
     returnM mid)))"

definition getOrCreateContext :: "int \<Rightarrow> ('g container, 'g dist_context) cmd" where
  "getOrCreateContext context_id =
     bindM (getM (\<lambda>c. shard_find (autograd_contexts c) context_id)) (\<lambda>found.
       case found of
         Some ctx \<Rightarrow> returnM ctx
       | None \<Rightarrow>
           bindM (modifyM (\<lambda>c. c\<lparr>autograd_contexts :=
                   shard_emplace context_id (new_context context_id) (autograd_contexts c)\<rparr>)) (\<lambda>_.
           returnM (new_context context_id)))"

definition newContext :: "nat \<Rightarrow> ('g container, 'g dist_context) cmd" where
  "newContext thread =
     bindM (getM (\<lambda>c. current c thread)) (\<lambda>cur.
     bindM (checkM (cur = kInvalidContextId) (C10_error ''Already have an autograd context id for this thread.'')) (\<lambda>_.
     bindM (getM next_context_id) (\<lambda>context_id.
     bindM (modifyM (\<lambda>c. c\<lparr>next_context_id := wrap64 (context_id + 1),
             current := (current c)(thread := context_id)\<rparr>)) (\<lambda>_.
     bindM (getM max_id) (\<lambda>mx.
     bindM (checkM (context_id < mx) (C10_assert ''context_id < max_id_'')) (\<lambda>_.
     getOrCreateContext context_id))))))"

definition hasValidContext :: "nat \<Rightarrow> 'g container \<Rightarrow> bool" where
  "hasValidContext thread c \<longleftrightarrow> current c thread \<noteq> kInvalidContextId"

definition currentContext :: "nat \<Rightarrow> ('g container, 'g dist_context) cmd" where
  "currentContext thread =
     bindM (getM (hasValidContext thread)) (\<lambda>ok.
     bindM (checkM ok (C10_error ''Current thread doesn't have a valid autograd context.'')) (\<lambda>_.
     bindM (getM (\<lambda>c. shard_find (autograd_contexts c) (current c thread))) (\<lambda>found.
       case found of
         None \<Rightarrow> throwM (C10_error ''Couldn't find autograd context data for current autograd context id'')
       | Some ctx \<Rightarrow> returnM ctx)))"

definition retrieveContext :: "int \<Rightarrow> ('g container, 'g dist_context) cmd" where
  "retrieveContext context_id =
     bindM (getM (\<lambda>c. shard_find (autograd_contexts c) context_id)) (\<lambda>found.
       case found of
         None \<Rightarrow> throwM (C10_error ''Could not find autograd context with id: '')
       | Some ctx \<Rightarrow> returnM ctx)"

definition isValidContext :: "int \<Rightarrow> ('g container, unit) cmd" where
  "isValidContext context_id = bindM (retrieveContext context_id) (\<lambda>_. returnM ())"

definition eraseContextIdAndReset :: "nat \<Rightarrow> int \<Rightarrow> 'g container \<Rightarrow> 'g container" where
  "eraseContextIdAndReset thread context_id c =
     (let c1 = c\<lparr>autograd_contexts := shard_erase context_id (autograd_contexts c)\<rparr>
      in if current c1 thread = context_id
         then c1\<lparr>current := (current c1)(thread := kInvalidContextId)\<rparr>
         else c1)"

text \<open>
  \<open>agent\<close>: \<open>None\<close> when there is no current RPC agent; otherwise to which workers it can send. A
  send that throws is logged and skipped.
\<close>

definition sendReleaseContextRpc :: "(int \<Rightarrow> bool) option \<Rightarrow> int list \<Rightarrow> int \<Rightarrow> 'g container \<Rightarrow> 'g container" where
  "sendReleaseContextRpc agent workerIds context_id c =
     (case agent of
        None \<Rightarrow> c
      | Some can_send \<Rightarrow>
          c\<lparr>released := released c @ map (\<lambda>w. (w, context_id)) (filter can_send workerIds)\<rparr>)"

definition releaseContext :: "(int \<Rightarrow> bool) option \<Rightarrow> nat \<Rightarrow> int \<Rightarrow> ('g container, unit) cmd" where
  "releaseContext agent thread context_id =
     bindM (getM (\<lambda>c. shard_find (autograd_contexts c) context_id)) (\<lambda>found.
       case found of
         None \<Rightarrow> throwM (C10_error ''Could not find autograd context with id: '')
       | Some ctx \<Rightarrow>
           bindM (modifyM (eraseContextIdAndReset thread context_id)) (\<lambda>_.
           modifyM (sendReleaseContextRpc agent (getKnownWorkerIds ctx) context_id)))"

definition releaseContextIfPresent :: "(int \<Rightarrow> bool) option \<Rightarrow> nat \<Rightarrow> int \<Rightarrow> ('g container, unit) cmd" where
  "releaseContextIfPresent agent thread context_id =
     bindM (getM (\<lambda>c. shard_find (autograd_contexts c) context_id)) (\<lambda>found.
       case found of
         None \<Rightarrow> returnM ()
       | Some ctx \<Rightarrow>
           bindM (modifyM (eraseContextIdAndReset thread context_id)) (\<lambda>_.
           modifyM (sendReleaseContextRpc agent (getKnownWorkerIds ctx) context_id)))"

definition forceCurrentContextId :: "nat \<Rightarrow> int \<Rightarrow> 'g container \<Rightarrow> 'g container" where
  "forceCurrentContextId thread cid c = c\<lparr>current := (current c)(thread := cid)\<rparr>"

definition setCurrentContextId :: "nat \<Rightarrow> int \<Rightarrow> ('g container, unit) cmd" where
  "setCurrentContextId thread cid =
     bindM (getM (\<lambda>c. current c thread)) (\<lambda>cur.
     bindM (checkM (cur = kInvalidContextId) (C10_assert ''Already have an autograd context id for this thread.'')) (\<lambda>_.
     modifyM (forceCurrentContextId thread cid)))"

definition clearCurrentContext :: "nat \<Rightarrow> 'g container \<Rightarrow> 'g container" where
  "clearCurrentContext thread c = c\<lparr>current := (current c)(thread := -1)\<rparr>"

definition numAutogradContexts :: "'g container \<Rightarrow> nat" where
  "numAutogradContexts c = shard_size (autograd_contexts c)"

section \<open>The sharded map is a map\<close>

text \<open>The shards are a power of two many, and each key is in the shard its low bits name.\<close>

definition shards_wf :: "'c shards \<Rightarrow> bool" where
  "shards_wf sh \<longleftrightarrow> (\<exists>n. length sh = 2 ^ n) \<and>
     (\<forall>i < length sh. umap_wf (sh ! i) \<and> (\<forall>k \<in> fst ` set (sh ! i). shard_of sh k = i))"

lemma shard_of_mod: "length sh = 2 ^ n \<Longrightarrow> shard_of sh k = nat (k mod 2 ^ n)"
proof -
  assume "length sh = 2 ^ n"
  then have "int (length sh) - 1 = mask n" by (simp add: mask_eq_exp_minus_1)
  then show ?thesis by (simp add: shard_of_def flip: take_bit_eq_mask take_bit_eq_mod)
qed

lemma shard_of_less: "shards_wf sh \<Longrightarrow> shard_of sh k < length sh"
proof -
  assume "shards_wf sh"
  then obtain n where n: "length sh = 2 ^ n" by (auto simp: shards_wf_def)
  have "k mod 2 ^ n < 2 ^ n" by simp
  then show ?thesis by (simp add: shard_of_mod [OF n] n nat_less_iff)
qed

lemma shard_of_update [simp]: "shard_of (sh[i := m]) = shard_of sh"
  by (simp add: shard_of_def fun_eq_iff)

lemma shards_wfD:
  assumes "shards_wf sh" and "i < length sh"
  shows "umap_wf (sh ! i)" and "k \<in> fst ` set (sh ! i) \<Longrightarrow> shard_of sh k = i"
  using assms unfolding shards_wf_def by blast+

lemma shards_wf_upd:
  assumes "shards_wf sh" and "umap_wf m" and "fst ` set m \<subseteq> insert k (fst ` set (sh ! shard_of sh k))"
  shows "shards_wf (sh[shard_of sh k := m])"
  unfolding shards_wf_def
proof (intro conjI allI impI ballI)
  show "\<exists>n. length (sh[shard_of sh k := m]) = 2 ^ n" using assms(1) by (simp add: shards_wf_def)
next
  fix i assume i: "i < length (sh[shard_of sh k := m])"
  then show "umap_wf (sh[shard_of sh k := m] ! i)"
    using shards_wfD(1) [OF assms(1), of i] assms(2)
    by (cases "i = shard_of sh k") simp_all
  fix j assume j: "j \<in> fst ` set (sh[shard_of sh k := m] ! i)"
  have k: "shard_of sh k < length sh" using assms(1) by (rule shard_of_less)
  show "shard_of (sh[shard_of sh k := m]) j = i"
  proof (cases "i = shard_of sh k")
    case True
    with j k assms(3) have "j = k \<or> j \<in> fst ` set (sh ! i)" by auto
    then show ?thesis using True shards_wfD(2) [OF assms(1) k, of j] by auto
  next
    case False
    with i j shards_wfD(2) [OF assms(1), of i j] show ?thesis by simp
  qed
qed

lemma shard_size_sum: "shard_size sh = (\<Sum>i < length sh. length (sh ! i))"
proof -
  have "foldl (\<lambda>ret shard. ret + length shard) a sh = a + sum_list (map length sh)" for a
    by (induction sh arbitrary: a) simp_all
  then show ?thesis by (simp add: shard_size_def sum_list_sum_nth atLeast0LessThan)
qed

lemma dom_shard_find:
  assumes "shards_wf sh"
  shows "dom (shard_find sh) = (\<Union>i < length sh. fst ` set (sh ! i))"
proof -
  have "k \<in> dom (shard_find sh) \<longleftrightarrow> k \<in> dom (map_of (sh ! shard_of sh k))" for k
    by (simp add: shard_find_def domIff)
  then have mem: "k \<in> dom (shard_find sh) \<longleftrightarrow> k \<in> fst ` set (sh ! shard_of sh k)" for k
    by (simp only: dom_map_of_conv_image_fst)
  show ?thesis
  proof (intro set_eqI iffI)
    fix k assume "k \<in> dom (shard_find sh)"
    with mem [of k] shard_of_less [OF assms, of k] show "k \<in> (\<Union>i < length sh. fst ` set (sh ! i))" by blast
  next
    fix k assume "k \<in> (\<Union>i < length sh. fst ` set (sh ! i))"
    then obtain i where i: "i < length sh" "k \<in> fst ` set (sh ! i)" by blast
    with shards_wfD(2) [OF assms i] mem [of k] show "k \<in> dom (shard_find sh)" by simp
  qed
qed

lemma shard_size_card:
  assumes "shards_wf sh"
  shows "finite (dom (shard_find sh)) \<and> shard_size sh = card (dom (shard_find sh))"
proof -
  have "card (\<Union>i < length sh. fst ` set (sh ! i)) = (\<Sum>i < length sh. card (fst ` set (sh ! i)))"
  proof (intro card_UN_disjoint ballI impI)
    fix i j assume "i \<in> {..<length sh}" "j \<in> {..<length sh}" "i \<noteq> j"
    then show "fst ` set (sh ! i) \<inter> fst ` set (sh ! j) = {}"
      using shards_wfD(2) [OF assms, of i] shards_wfD(2) [OF assms, of j] by blast
  qed simp_all
  moreover have "card (fst ` set (sh ! i)) = length (sh ! i)" if "i < length sh" for i
    using assms that by (metis distinct_card length_map list.set_map shards_wf_def umap_wf_def)
  ultimately show ?thesis using dom_shard_find [OF assms] shard_size_sum [of sh] by simp
qed

interpretation sharded: context_map shards_wf shard_find shard_emplace shard_erase shard_size
proof (unfold_locales, goal_cases)
  case (1 m k c)
  have "shard_find (shard_emplace k c m) j = ((shard_find m)(k \<mapsto> c)) j" for j
    using shard_of_less [OF 1, of k] shard_of_less [OF 1, of j]
    by (cases "shard_of m j = shard_of m k") (auto simp: shard_find_def shard_emplace_def)
  then show ?case by blast
next
  case (2 m k)
  have "shard_find (shard_erase k m) j = ((shard_find m)(k := None)) j" for j
    using shard_of_less [OF 2, of k] shard_of_less [OF 2, of j]
    by (cases "shard_of m j = shard_of m k") (auto simp: shard_find_def shard_erase_def)
  then show ?case by blast
next
  case (3 m k c)
  have "umap_wf (m ! shard_of m k)" using 3 shard_of_less [OF 3, of k] by (simp add: shards_wf_def)
  then show ?case unfolding shard_emplace_def
    by (intro shards_wf_upd [OF 3]) (simp_all add: dom_update)
next
  case (4 m k)
  have "umap_wf (m ! shard_of m k)" using 4 shard_of_less [OF 4, of k] by (simp add: shards_wf_def)
  then show ?case unfolding shard_erase_def
    by (intro shards_wf_upd [OF 4]) (simp_all add: subset_insertI2 dom_delete_subset)
next
  case (5 m)
  then show ?case by (rule shard_size_card)
qed

section \<open>Ids\<close>

lemma wrap64_high: "2 ^ 63 \<le> i \<Longrightarrow> i < 2 ^ 64 \<Longrightarrow> wrap64 i = i - 2 ^ 64"
proof -
  assume i: "2 ^ 63 \<le> i" "i < 2 ^ 64"
  have "(word_of_int i :: 64 word) = word_of_int (i - 2 ^ 64)"
    by (simp add: word_of_int_eq_iff take_bit_eq_mod)
  then have "wrap64 i = wrap64 (i - 2 ^ 64)" by (simp only: wrap64_def)
  also have "\<dots> = i - 2 ^ 64" using i by (intro wrap64_id) (simp add: in_int64_def int64_min_def int64_max_def)
  finally show ?thesis .
qed

definition signed_worker :: "int \<Rightarrow> int" where
  "signed_worker w = (if w < 32768 then w else w - 65536)"

lemma id_base_eq: "0 \<le> w \<Longrightarrow> w \<le> kMaxWorkerId \<Longrightarrow> id_base w = 2 ^ 48 * signed_worker w"
proof (cases "w < 32768")
  case True
  assume "0 \<le> w"
  with True have "wrap64 (w * 2 ^ 48) = w * 2 ^ 48"
    by (intro wrap64_id) (simp add: in_int64_def int64_min_def int64_max_def)
  with True show ?thesis by (simp add: id_base_def push_bit_eq_mult kAutoIncrementBits_def signed_worker_def)
next
  case False
  assume "w \<le> kMaxWorkerId"
  with False have "wrap64 (w * 2 ^ 48) = w * 2 ^ 48 - 2 ^ 64"
    by (intro wrap64_high) (simp_all add: kMaxWorkerId_def)
  with False show ?thesis by (simp add: id_base_def push_bit_eq_mult kAutoIncrementBits_def signed_worker_def)
qed

lemma mask_or_base: "kAutoIncrementMask OR (2 ^ 48 * x) = 2 ^ 48 * x + (2 ^ 48 - 1)"
proof -
  have "concat_bit 48 (2 ^ 48 - 1) x = take_bit 48 (2 ^ 48 - 1) + push_bit 48 x" by (rule concat_bit_eq)
  moreover have "concat_bit 48 (2 ^ 48 - 1) x = take_bit 48 (2 ^ 48 - 1) OR push_bit 48 x" by (rule concat_bit_def)
  moreover have "take_bit 48 (2 ^ 48 - 1 :: int) = 2 ^ 48 - 1" by (simp add: take_bit_int_eq_self)
  ultimately show ?thesis
    by (simp add: kAutoIncrementMask_def kAutoIncrementBits_def push_bit_eq_mult mult.commute)
qed

lemma signed_worker_range:
  assumes "0 \<le> w" and "w \<le> kMaxWorkerId"
  shows "- 32768 \<le> signed_worker w" and "signed_worker w \<le> 32767"
  using assms by (simp_all add: signed_worker_def kMaxWorkerId_def)

text \<open>The ids a worker may hand out.\<close>

definition worker_ids :: "int \<Rightarrow> int set" where
  "worker_ids w = {2 ^ 48 * signed_worker w ..< 2 ^ 48 * signed_worker w + (2 ^ 48 - 1)}"

lemma worker_ids_disjoint:
  assumes "0 \<le> w" and "w \<le> kMaxWorkerId" and "0 \<le> w'" and "w' \<le> kMaxWorkerId" and "w \<noteq> w'"
  shows "worker_ids w \<inter> worker_ids w' = {}"
proof -
  have "signed_worker w \<noteq> signed_worker w'" using assms by (auto simp: signed_worker_def kMaxWorkerId_def)
  then have "signed_worker w + 1 \<le> signed_worker w' \<or> signed_worker w' + 1 \<le> signed_worker w" by linarith
  then show ?thesis by (auto simp: worker_ids_def)
qed

text \<open>
  A container of worker \<open>w\<close> from which at most \<open>n\<close> more ids are taken before the counters reach
  the end of the worker's range.
\<close>

definition container_of :: "int \<Rightarrow> nat \<Rightarrow> 'g container \<Rightarrow> bool" where
  "container_of w n c \<longleftrightarrow> initialized c \<and> shards_wf (autograd_contexts c) \<and>
     (\<forall>k ctx. shard_find (autograd_contexts c) k = Some ctx \<longrightarrow> contextId ctx = k) \<and>
     max_id c = 2 ^ 48 * signed_worker w + (2 ^ 48 - 1) \<and>
     2 ^ 48 * signed_worker w \<le> next_context_id c \<and> next_context_id c + int n \<le> max_id c"

lemma getOrCreateContext_effect:
  assumes "shards_wf (autograd_contexts c)"
    and "\<And>k ctx. shard_find (autograd_contexts c) k = Some ctx \<Longrightarrow> contextId ctx = k"
  shows "\<exists>ctx sh. getOrCreateContext cid c = (Inr ctx, c\<lparr>autograd_contexts := sh\<rparr>) \<and> contextId ctx = cid \<and> shards_wf sh \<and>
     shard_find sh = (shard_find (autograd_contexts c))(cid \<mapsto> ctx)"
proof (cases "shard_find (autograd_contexts c) cid")
  case None
  then show ?thesis using assms(1)
    by (intro exI [of _ "new_context cid"] exI [of _ "shard_emplace cid (new_context cid) (autograd_contexts c)"])
       (simp add: getOrCreateContext_def bindM_def sharded.look_ins sharded.wf_ins new_context_def)
next
  case (Some ctx)
  then show ?thesis using assms
    by (intro exI [of _ ctx] exI [of _ "autograd_contexts c"]) (simp add: getOrCreateContext_def bindM_def fun_upd_idem)
qed

lemma newContext_effect:
  assumes "container_of w (Suc n) c" and "0 \<le> w" and "w \<le> kMaxWorkerId" and "current c t = kInvalidContextId"
  shows "\<exists>ctx c'. newContext t c = (Inr ctx, c') \<and> contextId ctx = next_context_id c \<and> container_of w n c' \<and>
     next_context_id c' = next_context_id c + 1 \<and> current c' = (current c)(t := next_context_id c) \<and>
     shard_find (autograd_contexts c') = (shard_find (autograd_contexts c))(next_context_id c \<mapsto> ctx)"
proof -
  let ?id = "next_context_id c"
  let ?c1 = "c\<lparr>next_context_id := ?id + 1, current := (current c)(t := ?id)\<rparr>"
  have lim: "max_id c \<le> 2 ^ 63 - 1" "- (2 ^ 63) \<le> ?id" "?id < max_id c"
    using assms(1) signed_worker_range [OF assms(2,3)] by (simp_all add: container_of_def)
  then have next_id: "wrap64 (?id + 1) = ?id + 1"
    by (intro wrap64_id) (simp add: in_int64_def int64_min_def int64_max_def)
  from getOrCreateContext_effect [of ?c1 ?id] assms(1) obtain ctx sh where
    g: "getOrCreateContext ?id ?c1 = (Inr ctx, ?c1\<lparr>autograd_contexts := sh\<rparr>)" "contextId ctx = ?id" "shards_wf sh"
      "shard_find sh = (shard_find (autograd_contexts c))(?id \<mapsto> ctx)" by (auto simp: container_of_def)
  have "newContext t c = (Inr ctx, ?c1\<lparr>autograd_contexts := sh\<rparr>)"
    using g(1) assms(4) lim(3) next_id by (simp add: newContext_def bindM_def)
  moreover have "container_of w n (?c1\<lparr>autograd_contexts := sh\<rparr>)"
    using assms(1) g by (auto simp: container_of_def)
  ultimately show ?thesis using g by auto
qed

text \<open>The ids of the contexts that threads create, one after the other.\<close>

fun created_ids :: "nat list \<Rightarrow> 'g container \<Rightarrow> int list" where
  "created_ids [] c = []"
| "created_ids (t # ts) c =
     (case newContext t c of
        (Inl e, c') \<Rightarrow> created_ids ts c'
      | (Inr ctx, c') \<Rightarrow> contextId ctx # created_ids ts c')"

lemma container_of_less: "container_of w (Suc n) c \<Longrightarrow> container_of w n c"
  by (simp add: container_of_def)

lemma created_ids_range:
  assumes "container_of w (length ts) c" and "0 \<le> w" and "w \<le> kMaxWorkerId"
  shows "distinct (created_ids ts c) \<and> set (created_ids ts c) \<subseteq> {next_context_id c ..< max_id c} \<inter> worker_ids w"
  using assms(1)
proof (induction ts arbitrary: c)
  case (Cons t ts)
  have cont: "container_of w (Suc (length ts)) c" using Cons.prems by simp
  show ?case
  proof (cases "current c t = kInvalidContextId")
    case True
    from newContext_effect [OF cont assms(2,3) True] obtain ctx c' where
      n: "newContext t c = (Inr ctx, c')" "contextId ctx = next_context_id c" "container_of w (length ts) c'"
        "next_context_id c' = next_context_id c + 1" by blast
    have "max_id c' = max_id c" using cont n(3) by (simp add: container_of_def)
    with Cons.IH [OF n(3)] n cont show ?thesis by (auto simp: container_of_def worker_ids_def)
  next
    case False
    then have "newContext t c = (Inl (C10_error ''Already have an autograd context id for this thread.''), c)"
      by (simp add: newContext_def bindM_def)
    then show ?thesis using Cons.IH [OF container_of_less [OF cont]] by simp
  qed
qed simp

lemma and_pred_power:
  "0 < n \<Longrightarrow> n AND (n - 1) = 0 \<Longrightarrow> \<exists>k. n = 2 ^ k" for n :: nat
proof (induction n rule: less_induct)
  case (less n)
  show ?case
  proof (cases "even n")
    case True
    then obtain m where m: "n = 2 * m" by blast
    have pos: "0 < m" using less.prems(1) m by simp
    have "(2 * m - 1) div 2 = m - 1" using pos by (cases m) simp_all
    then have "2 * m AND (2 * m - 1) = 2 * (m AND (m - 1))"
      by (subst and_nat_unfold) (use pos in auto)
    with less.prems(2) m have "m AND (m - 1) = 0" by simp
    with less.IH [of m] pos m obtain k where "m = 2 ^ k" by auto
    with m show ?thesis by (auto intro: exI [of _ "Suc k"])
  next
    case False
    then obtain m where m: "n = 2 * m + 1" by (auto elim: oddE)
    have "(2 * m + 1) AND (2 * m) = 2 * m"
      by (subst and_nat_unfold) auto
    with less.prems(2) m have "m = 0" by simp
    with m show ?thesis by (auto intro: exI [of _ 0])
  qed
qed

lemma container_new_shards:
  assumes "container_new num = Inr c0" and "num \<noteq> 0"
  shows "shards_wf (autograd_contexts c0)" and "shard_find (autograd_contexts c0) = Map.empty"
proof -
  have bits: "num AND (num - 1) = 0" and sh: "autograd_contexts c0 = replicate (unat num) []"
    using assms(1) by (auto simp: container_new_def split: if_splits)
  have "unat (num AND (num - 1)) = unat num AND unat (num - 1)" by (simp add: unsigned_and_eq)
  then have "unat num AND (unat num - 1) = 0" using bits assms(2) by (simp add: unat_minus_one)
  then obtain k where "unat num = 2 ^ k" using and_pred_power [of "unat num"] assms(2) by (auto simp: unat_gt_0)
  then show wf: "shards_wf (autograd_contexts c0)" by (auto simp: shards_wf_def sh)
  show "shard_find (autograd_contexts c0) = Map.empty"
    using shard_of_less [OF wf] by (auto simp: shard_find_def sh fun_eq_iff)
qed

lemma init_container_of:
  assumes "container_new num = Inr c0" and "num \<noteq> 0" and "0 \<le> w" and "w \<le> kMaxWorkerId"
  shows "fst (init_container w c0) = Inr () \<and> container_of w (2 ^ 48 - 1) (snd (init_container w c0)) \<and>
    current (snd (init_container w c0)) = (\<lambda>_. kInvalidContextId)"
  using container_new_shards [OF assms(1,2)] assms
  by (auto simp: init_container_def bindM_def container_of_def id_base_eq mask_or_base [simplified] container_new_def split: if_splits)

section \<open>The number of shards\<close>

lemma unat_power32: "k \<le> 31 \<Longrightarrow> unat (2 ^ k :: 32 word) = 2 ^ k"
proof -
  assume "k \<le> 31"
  moreover have "unat (word_of_nat (2 ^ k) :: 32 word) = take_bit 32 (2 ^ k)"
    by (simp only: unsigned_of_nat) simp
  ultimately show ?thesis by simp
qed

lemma shards_loop_power:
  assumes "k \<le> 31" and "unat (hw * 2) \<le> 2 ^ 31"
  shows "\<exists>j \<le> 31. shards_loop hw (2 ^ k) = Some (2 ^ j) \<and> unat (hw * 2) \<le> 2 ^ j \<and> (j = k \<or> 2 ^ j < 2 * unat (hw * 2))"
  using assms(1)
proof (induction "31 - k" arbitrary: k rule: less_induct)
  case less
  have u: "unat (2 ^ k :: 32 word) = 2 ^ k" using less.prems by (rule unat_power32)
  show ?case
  proof (cases "(2 ^ k :: 32 word) < hw * 2")
    case True
    then have lt: "2 ^ k < unat (hw * 2)" by (simp only: word_less_nat_alt u)
    with assms(2) have k31: "k < 31"
      by (metis le_less_trans less.prems linorder_not_less nat_less_le power_strict_increasing_iff one_less_numeral_iff semiring_norm(76))
    then have "31 - Suc k < 31 - k" by simp
    from less.hyps [OF this] k31 obtain j where j: "j \<le> 31" "shards_loop hw (2 ^ Suc k) = Some (2 ^ j)" "unat (hw * 2) \<le> 2 ^ j"
      "j = Suc k \<or> 2 ^ j < 2 * unat (hw * 2)" by auto
    have "push_bit 1 (2 ^ k :: 32 word) = 2 ^ Suc k" by (simp add: push_bit_eq_mult)
    with True j(2) have "shards_loop hw (2 ^ k) = Some (2 ^ j)"
      by (subst shards_loop.simps) (simp add: mult.commute)
    moreover have "2 ^ j < 2 * unat (hw * 2)" using j(4) lt by auto
    ultimately show ?thesis using j by blast
  next
    case False
    then have "shards_loop hw (2 ^ k) = Some (2 ^ k)" by (subst shards_loop.simps) simp
    moreover have "unat (hw * 2) \<le> 2 ^ k" using False by (simp only: word_less_nat_alt u not_less)
    ultimately show ?thesis using less.prems by blast
  qed
qed

text \<open>
  Beyond 2^30 hardware threads, twice their number is more than any power of two of 32 bits: the
  loop shifts the bit out and goes on with 0.
\<close>

definition bit_or_zero :: "32 word \<Rightarrow> bool" where
  "bit_or_zero n \<longleftrightarrow> n = 0 \<or> (\<exists>k \<le> 31. n = 2 ^ k)"

lemma bit_or_zero_bound: "bit_or_zero n \<Longrightarrow> unat n \<le> 2 ^ 31"
proof (cases "n = 0")
  case False
  assume "bit_or_zero n"
  with False obtain k where k: "k \<le> 31" "n = 2 ^ k" by (auto simp: bit_or_zero_def)
  have "(2 :: nat) ^ k \<le> 2 ^ 31" using k(1) by (intro power_increasing) simp_all
  then show ?thesis using k unat_power32 [of k] by simp
qed simp

lemma bit_or_zero_shift: "bit_or_zero n \<Longrightarrow> bit_or_zero (push_bit 1 n)"
proof (cases "n = 0")
  case False
  assume "bit_or_zero n"
  with False obtain k where k: "k \<le> 31" "n = 2 ^ k" by (auto simp: bit_or_zero_def)
  then have shift: "push_bit 1 n = 2 ^ Suc k" by (simp add: push_bit_eq_mult)
  show ?thesis
  proof (cases "k = 31")
    case True
    then have "push_bit 1 n = 0" using shift by simp
    then show ?thesis by (simp add: bit_or_zero_def)
  next
    case False
    then have "Suc k \<le> 31" using k(1) by simp
    then show ?thesis using shift unfolding bit_or_zero_def by blast
  qed
qed (simp add: bit_or_zero_def)

lemma shards_loop_result:
  assumes "shards_loop hw n = Some r"
  shows "2 ^ 31 < unat (hw * 2) \<longrightarrow> \<not> bit_or_zero n"
proof (rule shards_loop.raw_induct [of "\<lambda>hw n r. 2 ^ 31 < unat (hw * 2) \<longrightarrow> \<not> bit_or_zero n", OF _ assms], intro impI notI)
  fix f and hw n r :: "32 word"
  assume IH: "\<And>hw n r. f hw n = Some r \<Longrightarrow> 2 ^ 31 < unat (hw * 2) \<longrightarrow> \<not> bit_or_zero n"
    and body: "(if n < hw * 2 then f hw (push_bit 1 n) else Some n) = Some r"
    and big: "2 ^ 31 < unat (hw * 2)" and n: "bit_or_zero n"
  have "n < hw * 2" using bit_or_zero_bound [OF n] big by (simp only: word_less_nat_alt)
  then have "f hw (push_bit 1 n) = Some r" using body by simp
  from IH [OF this] big bit_or_zero_shift [OF n] show False by blast
qed

section \<open>Properties\<close>


definition fresh_container :: "nat container" where
  "fresh_container = \<lparr>next_context_id = 0, worker_id = 0, initialized = False,
     autograd_contexts = replicate 4 [], next_autograd_message_id = 0, max_id = 0,
     current = (\<lambda>_. kInvalidContextId), released = []\<rparr>"

lemma fresh_container_new: "container_new 4 = Inr fresh_container"
  by (simp add: container_new_def fresh_container_def)


text \<open>
  A new context is the thread's current context: \<^verbatim>\<open>newContext\<close> makes a context that
  \<^verbatim>\<open>retrieveContext\<close> finds under its id and \<^verbatim>\<open>currentContext\<close> returns for the
  thread, leaves every other context as it was, and a second call of the thread is refused.
\<close>

theorem new_context_current:
  assumes "container_of w (Suc n) c" and "0 \<le> w" and "w \<le> kMaxWorkerId" and "current c t = kInvalidContextId"
    and "next_context_id c \<noteq> kInvalidContextId"
  shows "\<exists>ctx c'. newContext t c = (Inr ctx, c') \<and> fst (retrieveContext (contextId ctx) c') = Inr ctx \<and>
    fst (currentContext t c') = Inr ctx \<and>
    (\<forall>k. k \<noteq> contextId ctx \<longrightarrow> fst (retrieveContext k c') = fst (retrieveContext k c)) \<and>
    fst (newContext t c') = Inl (C10_error ''Already have an autograd context id for this thread.'')"
proof -
  from newContext_effect [OF assms(1-4)] obtain ctx c' where
    n: "newContext t c = (Inr ctx, c')" "contextId ctx = next_context_id c"
      "current c' = (current c)(t := next_context_id c)"
      "shard_find (autograd_contexts c') = (shard_find (autograd_contexts c))(next_context_id c \<mapsto> ctx)" by blast
  then show ?thesis using assms(5)
    by (intro exI [of _ ctx] exI [of _ c'])
       (auto simp: retrieveContext_def currentContext_def hasValidContext_def newContext_def bindM_def split: option.splits)
qed

lemma fresh_container_of: "container_of 0 1 (snd (init_container 0 fresh_container))"
  using init_container_of [OF fresh_container_new, of 0] by (simp add: kMaxWorkerId_def container_of_def)

theorem new_context_current_witness:
  "\<exists>ctx c'. newContext 5 (snd (init_container 0 fresh_container)) = (Inr ctx, c') \<and> fst (currentContext 5 c') = Inr ctx"
proof -
  have "current (snd (init_container 0 fresh_container)) 5 = kInvalidContextId"
    "next_context_id (snd (init_container 0 fresh_container)) \<noteq> kInvalidContextId"
    using init_container_of [OF fresh_container_new, of 0]
    by (auto simp: kMaxWorkerId_def container_of_def signed_worker_def kInvalidContextId_def)
  with fresh_container_of new_context_current [of 0 0 "snd (init_container 0 fresh_container)" 5] show ?thesis
    by (auto simp: kMaxWorkerId_def)
qed

text \<open>
  Releasing a context removes exactly that context, tells every worker it is known to and the
  agent can reach once, and leaves the thread without a context when it was in this one; releasing
  it again is an error, and \<^verbatim>\<open>releaseContextIfPresent\<close> then does nothing.
\<close>

theorem release_context_exact:
  assumes "container_of w n c" and "shard_find (autograd_contexts c) k = Some ctx" and "k \<noteq> kInvalidContextId"
  shows "\<exists>c'. releaseContext (Some can) t k c = (Inr (), c') \<and>
    shard_find (autograd_contexts c') = (shard_find (autograd_contexts c))(k := None) \<and>
    numAutogradContexts c' = numAutogradContexts c - 1 \<and>
    released c' = released c @ map (\<lambda>v. (v, k)) (filter can (knownWorkerIds ctx)) \<and>
    current c' t \<noteq> k \<and>
    fst (releaseContext (Some can) t k c') = Inl (C10_error ''Could not find autograd context with id: '') \<and>
    releaseContextIfPresent (Some can) t k c' = (Inr (), c')"
proof -
  let ?c' = "snd (releaseContext (Some can) t k c)"
  have wf: "shards_wf (autograd_contexts c)" using assms(1) by (simp add: container_of_def)
  have gone: "shard_find (autograd_contexts ?c') = (shard_find (autograd_contexts c))(k := None)"
    and "numAutogradContexts ?c' = numAutogradContexts c - 1"
    using assms(2) wf sharded.look_del [OF wf, of k] sharded.count_del [OF wf assms(2)]
    by (simp_all add: releaseContext_def bindM_def eraseContextIdAndReset_def sendReleaseContextRpc_def Let_def
        numAutogradContexts_def)
  moreover have "releaseContext (Some can) t k c = (Inr (), ?c')" "current ?c' t \<noteq> k"
    "released ?c' = released c @ map (\<lambda>v. (v, k)) (filter can (knownWorkerIds ctx))"
    using assms(2,3)
    by (auto simp: releaseContext_def bindM_def eraseContextIdAndReset_def sendReleaseContextRpc_def Let_def getKnownWorkerIds_def)
  moreover have "fst (releaseContext (Some can) t k ?c') = Inl (C10_error ''Could not find autograd context with id: '')"
    "releaseContextIfPresent (Some can) t k ?c' = (Inr (), ?c')"
    using gone by (simp_all add: releaseContext_def [of _ _ _] releaseContextIfPresent_def bindM_def)
  ultimately show ?thesis by (intro exI [of _ ?c']) simp
qed

theorem release_context_exact_witness:
  "\<exists>c'. releaseContext (Some (\<lambda>v. v = 2)) 5 0
     ((snd (init_container 0 fresh_container))\<lparr>autograd_contexts :=
        [[(0, addKnownWorkerId 2 (addKnownWorkerId 9 (new_context 0)))], [], [], []]\<rparr>) = (Inr (), c') \<and> released c' = [(2, 0)]"
proof -
  let ?ctx = "addKnownWorkerId 2 (addKnownWorkerId 9 (new_context 0)) :: nat dist_context"
  let ?c = "(snd (init_container 0 fresh_container))\<lparr>autograd_contexts := [[(0, ?ctx)], [], [], []]\<rparr>"
  have look: "shard_find [[(0, ?ctx)], [], [], []] = [0 \<mapsto> ?ctx]"
  proof
    fix k
    have "shard_of [[(0, ?ctx)], [], [], []] k = nat (k mod 2 ^ 2)" by (rule shard_of_mod) simp
    moreover have "nat (k mod 4) \<in> {0, 1, 2, 3}" using pos_mod_bound [of 4 k] pos_mod_sign [of 4 k] by auto
    ultimately show "shard_find [[(0, ?ctx)], [], [], []] k = [0 \<mapsto> ?ctx] k" by (auto simp: shard_find_def)
  qed
  have len: "length [[(0, ?ctx)], [], [], []] = 2 ^ 2" by simp
  have "shard_of [[(0, ?ctx)], [], [], []] 0 = 0" by (simp add: shard_of_mod [OF len])
  then have "shards_wf [[(0, ?ctx)], [], [], []]"
    using len unfolding shards_wf_def by (auto simp: umap_wf_def less_Suc_eq numeral_eq_Suc intro: exI [of _ 2])
  then have "container_of 0 0 ?c"
    using fresh_container_of look by (auto simp: container_of_def addKnownWorkerId_def new_context_def split: if_splits)
  from release_context_exact [OF this, of 0 ?ctx "\<lambda>v. v = 2" 5] look show ?thesis
    by (auto simp: kInvalidContextId_def addKnownWorkerId_def new_context_def init_container_def bindM_def fresh_container_def kMaxWorkerId_def)
qed

text \<open>
  The number of shards: for up to 2^30 hardware threads the loop ends with a power of two that is
  at least twice the number of threads and less than four times it, so that the check of the
  constructor passes and the low bits of an id select a shard; with more threads it never ends.
\<close>

theorem num_shards_power_of_two:
  "(hw \<noteq> 0 \<and> unat hw \<le> 2 ^ 30 \<longrightarrow>
      (\<exists>j \<le> 31. computeNumShards hw = Some (2 ^ j) \<and> 2 * unat hw \<le> 2 ^ j \<and> 2 ^ j < 4 * unat hw)) \<and>
   (2 ^ 30 < unat hw \<and> unat hw < 2 ^ 31 \<longrightarrow> computeNumShards hw = None)"
proof (intro conjI impI)
  have two: "unat (hw * 2) = 2 * unat hw" if "unat hw < 2 ^ 31"
    using that by (simp add: unat_word_ariths)
  show "\<exists>j \<le> 31. computeNumShards hw = Some (2 ^ j) \<and> 2 * unat hw \<le> 2 ^ j \<and> 2 ^ j < 4 * unat hw"
    if "hw \<noteq> 0 \<and> unat hw \<le> 2 ^ 30"
  proof -
    have t: "unat (hw * 2) = 2 * unat hw" using that by (intro two) simp
    from shards_loop_power [of 0 hw] that t obtain j where j: "j \<le> 31" "shards_loop hw 1 = Some (2 ^ j)"
      "2 * unat hw \<le> 2 ^ j" "j = 0 \<or> 2 ^ j < 4 * unat hw" by auto
    moreover have "1 \<le> unat hw" using that by (simp add: unat_gt_0 Suc_leI)
    ultimately show ?thesis using that by (intro exI [of _ j]) (auto simp: computeNumShards_def)
  qed
  show "computeNumShards hw = None" if big: "2 ^ 30 < unat hw \<and> unat hw < 2 ^ 31"
  proof (cases "shards_loop hw 1")
    case None
    moreover have "hw \<noteq> 0" using big by auto
    ultimately show ?thesis by (simp add: computeNumShards_def)
  next
    case (Some r)
    have "bit_or_zero 1" unfolding bit_or_zero_def by (intro disjI2 exI [of _ 0]) simp
    with shards_loop_result [OF Some] two big show ?thesis by simp
  qed
qed

theorem num_shards_power_of_two_witness:
  "\<exists>j \<le> 31. computeNumShards 6 = Some (2 ^ j) \<and> 2 * unat (6 :: 32 word) \<le> 2 ^ j \<and> 2 ^ j < 4 * unat (6 :: 32 word)"
  using num_shards_power_of_two [of 6] by simp

text \<open>
  A worker id of 32768 or more is accepted once but, stored in 16 bits, compares unequal
  afterwards: initialising again with the same id is refused. Below 32768 it is a no-op.
\<close>

theorem init_again:
  assumes "container_new num = Inr c0" and "0 \<le> w" and "w \<le> kMaxWorkerId"
  shows "fst (init_container w c0) = Inr () \<and>
    init_container w (snd (init_container w c0)) =
      (if w < 32768 then Inr () else Inl (C10_error ''Container is already initialized with worker_id: ''),
       snd (init_container w c0))"
proof -
  have w16: "sint (word_of_int w :: 16 word) = (if w < 32768 then w else w - 65536)"
  proof (cases "w < 32768")
    case True
    with assms(2) show ?thesis by (simp add: sint_sbintrunc' signed_take_bit_int_eq_self)
  next
    case False
    have "(word_of_int w :: 16 word) = word_of_int (w - 65536)" by (simp add: word_of_int_eq_iff take_bit_eq_mod)
    then have "sint (word_of_int w :: 16 word) = sint (word_of_int (w - 65536) :: 16 word)" by (simp only:)
    also have "\<dots> = w - 65536"
      using False assms(3) by (subst sint_sbintrunc') (simp add: signed_take_bit_int_eq_self kMaxWorkerId_def)
    finally show ?thesis using False by simp
  qed
  have "\<not> initialized c0" using assms(1) by (auto simp: container_new_def split: if_splits)
  with assms(2,3) w16 show ?thesis by (simp add: init_container_def bindM_def)
qed

theorem init_again_witness:
  "fst (init_container 40000 (snd (init_container 40000 fresh_container))) =
     Inl (C10_error ''Container is already initialized with worker_id: '')"
  using init_again [OF fresh_container_new, of 40000] by (simp add: kMaxWorkerId_def)

end
