(* ===== verification/DistEngine_Graph.thy ===== *)
theory DistEngine_Graph
  imports DistAutograd_Context
begin

text \<open>
  The local part of a distributed backward pass (\<^verbatim>\<open>autograd/engine/dist_engine.cpp\<close>): checks on the
  roots, the hook that accumulates a gradient into the context, and \<^verbatim>\<open>computeDependencies\<close>, which
  walks the autograd graph from the graph root and all send functions. Nodes are names; a graph gives
  the kind and the edges of each. The local autograd engine is not part of the repository: its
  \<^verbatim>\<open>init_to_execute\<close> is an argument. The main result is that the walk ends and counts for every function
  exactly the edges into it from the part of the graph that will run, and finds every leaf once.
\<close>

section \<open>The graph\<close>

datatype node_kind = GraphRoot | AccumulateGrad | RecvRpcBackward | SendRpcBackward | OtherNode

record edge =
  e_function :: "nat option"
  e_input_nr :: nat

type_synonym node_graph = "(nat, node_kind \<times> edge list) umap"

definition next_edges :: "node_graph \<Rightarrow> nat \<Rightarrow> edge list" where
  "next_edges g n = snd (umap_at (OtherNode, []) g n)"

definition kind_of :: "node_graph \<Rightarrow> nat \<Rightarrow> node_kind" where
  "kind_of g n = fst (umap_at (OtherNode, []) g n)"

section \<open>Roots\<close>

record root =
  rt_name :: string
  rt_requires_grad :: bool
  rt_numel :: nat
  rt_grad_fn :: "nat option"
  rt_output_nr :: nat

text \<open>The edges of the roots; the gradient of each is a tensor of ones.\<close>

fun retrieve_edges :: "root list \<Rightarrow> edge list res" where
  "retrieve_edges [] = Inr []"
| "retrieve_edges (r # rs) =
     (if \<not> rt_requires_grad r then Inl (C10_error ''requires_grad not set on root'')
      else if rt_numel r \<noteq> 1 then Inl (C10_error (rt_name r @ '' is not a scalar, all roots need to be scalar''))
      else case rt_grad_fn r of
        None \<Rightarrow> Inl (C10_error (rt_name r @ '' does not have a valid gradient function.''))
      | Some f \<Rightarrow> bindE (retrieve_edges rs) (\<lambda>es. Inr (\<lparr>e_function = Some f, e_input_nr = rt_output_nr r\<rparr> # es)))"

definition validateRootsAndRetrieveEdges :: "(edge list \<Rightarrow> unit res) \<Rightarrow> root list \<Rightarrow> edge list res" where
  "validateRootsAndRetrieveEdges validate_outputs roots =
     (if roots = [] then Inl (C10_error ''No tensors provided for gradient computation.'')
      else bindE (retrieve_edges roots) (\<lambda>es. bindE (validate_outputs es) (\<lambda>_. Inr es)))"

section \<open>Accumulation into the context\<close>

text \<open>
  The hook of a leaf: the hooks of the original function run before and after, \<open>None\<close> is an undefined
  gradient. Hooks are code of the user.
\<close>

definition capture_hook ::
    "(nat \<Rightarrow> 'g \<Rightarrow> 'g) \<Rightarrow> ('g option \<Rightarrow> 'g \<Rightarrow> 'g option \<times> 'g option) \<Rightarrow> ('g option list \<Rightarrow> 'g option list) list \<Rightarrow>
     ('g option list \<Rightarrow> ('g dist_context, unit) cmd) list \<Rightarrow> nat \<Rightarrow> bool \<Rightarrow> 'g option \<Rightarrow> ('g dist_context, 'g option) cmd" where
  "capture_hook hooks accum pre_hooks post_hooks variable requires_grad grad =
     (let inputGrads = fold (\<lambda>hook gs. hook gs) pre_hooks [grad]
      in bindM (if inputGrads ! 0 \<noteq> None then accumulateGrad hooks accum variable requires_grad (inputGrads ! 0)
                else returnM ()) (\<lambda>_.
         bindM (for_each (\<lambda>hook. hook inputGrads) post_hooks) (\<lambda>_.
         returnM (inputGrads ! 0))))"

section \<open>Dependencies\<close>

record bfs =
  bf_queue :: "nat list"
  bf_seen :: "nat list"
  bf_deps :: "(nat, nat) umap"
  bf_outputs :: "edge list"
  bf_recvs :: "edge list"

definition visit_next :: "node_graph \<Rightarrow> edge \<Rightarrow> bfs \<Rightarrow> bfs res" where
  "visit_next g e s =
     (case e_function e of
        None \<Rightarrow> Inr s
      | Some nextFn \<Rightarrow>
          let s1 = s\<lparr>bf_deps := AList.update nextFn (umap_at 0 (bf_deps s) nextFn + 1) (bf_deps s)\<rparr>
          in if nextFn \<in> set (bf_seen s1) then Inr s1
             else let s2 = s1\<lparr>bf_seen := nextFn # bf_seen s1, bf_queue := bf_queue s1 @ [nextFn]\<rparr>
                  in if next_edges g nextFn \<noteq> [] then Inr s2
                     else if kind_of g nextFn \<noteq> AccumulateGrad \<and> kind_of g nextFn \<noteq> RecvRpcBackward
                     then Inl (C10_assert ''dynamic_cast<AccumulateGrad*>(nextFn) || dynamic_cast<RecvRpcBackward*>(nextFn)'')
                     else Inr (s2\<lparr>bf_recvs := (if kind_of g nextFn = RecvRpcBackward then bf_recvs s2 @ [e] else bf_recvs s2),
                                  bf_outputs := bf_outputs s2 @ [e]\<rparr>))"

fun visit_all :: "node_graph \<Rightarrow> edge list \<Rightarrow> bfs \<Rightarrow> bfs res" where
  "visit_all g [] s = Inr s"
| "visit_all g (e # es) s = (case visit_next g e s of Inl x \<Rightarrow> Inl x | Inr s1 \<Rightarrow> visit_all g es s1)"

definition graph_targets :: "node_graph \<Rightarrow> nat set" where
  "graph_targets g = {n. \<exists>f. \<exists>e \<in> set (next_edges g f). e_function e = Some n}"

lemma graph_targets_finite: "finite (graph_targets g)"
proof -
  have "graph_targets g \<subseteq> (\<Union>p \<in> set g. {n. \<exists>e \<in> set (snd (snd p)). e_function e = Some n})"
    by (auto simp: graph_targets_def next_edges_def umap_at_def split: option.splits dest: map_of_SomeD)
  moreover have "finite {n. \<exists>e \<in> set es. e_function e = Some n}" for es :: "edge list"
    by (rule finite_subset [of _ "(\<lambda>e. the (e_function e)) ` set es"]) (force simp: image_iff)+
  then have "finite (\<Union>p \<in> set g. {n. \<exists>e \<in> set (snd (snd p)). e_function e = Some n})" by (intro finite_UN_I) simp_all
  ultimately show ?thesis by (rule finite_subset)
qed

definition bfs_size :: "node_graph \<Rightarrow> bfs \<Rightarrow> nat" where
  "bfs_size g s = 2 * card (graph_targets g - set (bf_seen s)) + length (bf_queue s)"

lemma visit_next_size:
  assumes "visit_next g e s = Inr s'" and "\<forall>n. e_function e = Some n \<longrightarrow> n \<in> graph_targets g"
  shows "bfs_size g s' \<le> bfs_size g s"
proof -
  have new: "2 * card (graph_targets g - set (n # bf_seen s)) + Suc (length (bf_queue s)) \<le> bfs_size g s"
    if "n \<in> graph_targets g" "n \<notin> set (bf_seen s)" for n
  proof -
    have "card (graph_targets g - set (bf_seen s)) = Suc (card (graph_targets g - set (bf_seen s) - {n}))"
      using that graph_targets_finite by (intro card.remove) auto
    moreover have "graph_targets g - set (bf_seen s) - {n} = graph_targets g - set (n # bf_seen s)" by auto
    ultimately show ?thesis by (simp add: bfs_size_def)
  qed
  show ?thesis
    using assms new by (fastforce simp: visit_next_def bfs_size_def Let_def split: option.splits if_splits)
qed

lemma visit_all_size:
  assumes "visit_all g es s = Inr s'" and "\<forall>e \<in> set es. \<forall>n. e_function e = Some n \<longrightarrow> n \<in> graph_targets g"
  shows "bfs_size g s' \<le> bfs_size g s"
  using assms
proof (induction es arbitrary: s)
  case (Cons e es)
  then obtain s1 where s1: "visit_next g e s = Inr s1" "visit_all g es s1 = Inr s'" by (auto split: sum.splits)
  have "bfs_size g s' \<le> bfs_size g s1" using Cons s1(2) by simp
  also have "\<dots> \<le> bfs_size g s" using visit_next_size [OF s1(1)] Cons.prems(2) by simp
  finally show ?case .
qed simp

function bfs_loop :: "node_graph \<Rightarrow> bfs \<Rightarrow> bfs res" where
  "bfs_loop g s =
     (case bf_queue s of
        [] \<Rightarrow> Inr s
      | fn # rest \<Rightarrow>
          (case visit_all g (next_edges g fn) (s\<lparr>bf_queue := rest\<rparr>) of
             Inl e \<Rightarrow> Inl e
           | Inr s' \<Rightarrow> bfs_loop g s'))"
  by pat_completeness auto
termination
proof (relation "measure (\<lambda>(g, s). bfs_size g s)")
  fix g s fn rest s'
  assume q: "bf_queue s = fn # rest" and v: "visit_all g (next_edges g fn) (s\<lparr>bf_queue := rest\<rparr>) = Inr s'"
  have "bfs_size g s' \<le> bfs_size g (s\<lparr>bf_queue := rest\<rparr>)"
    by (rule visit_all_size [OF v]) (auto simp: graph_targets_def)
  also have "\<dots> < bfs_size g s" using q by (simp add: bfs_size_def)
  finally show "((g, s'), g, s) \<in> measure (\<lambda>(g, s). bfs_size g s)" by simp
qed simp

declare bfs_loop.simps [simp del]

text \<open>
  A graph task as the local engine keeps it: the answer to the caller (\<open>graph_task\<close>), the number of
  outstanding tasks, the dependencies and, per function, whether it has to run and what captures its
  gradients.
\<close>

datatype grad_capture_hook = DistAccumulateGradCaptureHook nat int

record exec_info =
  ei_needed :: bool
  ei_captures :: "grad_capture_hook list list option"

record engine_task = graph_task +
  et_keep_graph :: bool
  et_outstanding :: int
  et_dependencies :: "(nat, nat) umap"
  et_exec_info :: "(nat, exec_info) umap"

definition add_capture_hooks :: "node_graph \<Rightarrow> int \<Rightarrow> nat \<times> exec_info \<Rightarrow> nat \<times> exec_info" where
  "add_capture_hooks g cid entry =
     (case entry of (fn, info) \<Rightarrow>
        (case ei_captures info of
           None \<Rightarrow> (fn, info)
         | Some cs \<Rightarrow>
             if kind_of g fn = AccumulateGrad
             then (fn, info\<lparr>ei_captures := Some (map (\<lambda>hooks. hooks @ [DistAccumulateGradCaptureHook fn cid]) cs)\<rparr>)
             else (fn, info)))"

fun mark_needed :: "edge list \<Rightarrow> (nat, exec_info) umap \<Rightarrow> (nat, exec_info) umap" where
  "mark_needed [] m = m"
| "mark_needed (e # es) m =
     (let fn = the (e_function e)
      in mark_needed es (AList.update fn ((umap_at \<lparr>ei_needed = False, ei_captures = None\<rparr> m fn)\<lparr>ei_needed := True\<rparr>) m))"

text \<open>
  \<open>init_to_execute fs es\<close>: what the local engine finds for a graph root that points to \<open>fs\<close> and the
  outputs \<open>es\<close>. \<open>task\<close> names the new graph task.
\<close>

definition computeDependencies ::
    "(nat list \<Rightarrow> edge list \<Rightarrow> (nat, exec_info) umap) \<Rightarrow> node_graph \<Rightarrow> nat \<Rightarrow> nat option \<Rightarrow> bool \<Rightarrow>
     ('g dist_context, engine_task \<times> edge list) cmd" where
  "computeDependencies init_to_execute g task graphRoot retainGraph =
     (case graphRoot of
        None \<Rightarrow> throwM (C10_assert ''graphRoot is null!'')
      | Some root \<Rightarrow>
          bindM (getM (\<lambda>c. (contextId c, map snd (sendAutogradFunctions c)))) (\<lambda>(cid, sendFunctions).
          bindM (liftM (bfs_loop g \<lparr>bf_queue = root # sendFunctions, bf_seen = [], bf_deps = [], bf_outputs = [], bf_recvs = []\<rparr>)) (\<lambda>s.
          let info = (if bf_outputs s = [] then []
                      else mark_needed (bf_recvs s)
                             (map (add_capture_hooks g cid) (init_to_execute (sendFunctions @ [root]) (bf_outputs s))));
              t = \<lparr>gt_has_error = False, gt_future_completed = False, gt_future_result = None, et_keep_graph = retainGraph,
                   et_outstanding = int (length sendFunctions), et_dependencies = bf_deps s, et_exec_info = info\<rparr>
          in bindM (setGraphTask task) (\<lambda>_. returnM (t, bf_outputs s)))))"

section \<open>What the walk computes\<close>

definition targets :: "edge list \<Rightarrow> nat list" where
  "targets es = List.map_filter e_function es"

lemma targets_simps [simp]:
  "targets [] = []" "targets (e # es) = (case e_function e of None \<Rightarrow> targets es | Some n \<Rightarrow> n # targets es)"
  by (simp_all add: targets_def List.map_filter_def split: option.splits)

definition leaf :: "node_graph \<Rightarrow> nat \<Rightarrow> bool" where
  "leaf g n \<longleftrightarrow> next_edges g n = []"

definition leaf_ok :: "node_graph \<Rightarrow> nat \<Rightarrow> bool" where
  "leaf_ok g n \<longleftrightarrow> leaf g n \<longrightarrow> kind_of g n \<in> {AccumulateGrad, RecvRpcBackward}"

definition into_recv :: "node_graph \<Rightarrow> edge \<Rightarrow> bool" where
  "into_recv g e \<longleftrightarrow> kind_of g (the (e_function e)) = RecvRpcBackward"

text \<open>The effect of visiting some edges: \<open>new\<close> are the functions seen for the first time.\<close>

definition visited :: "node_graph \<Rightarrow> edge list \<Rightarrow> nat list \<Rightarrow> bfs \<Rightarrow> bfs \<Rightarrow> bool" where
  "visited g es new s s' \<longleftrightarrow>
     (\<forall>n. umap_at 0 (bf_deps s') n = umap_at 0 (bf_deps s) n + count_list (targets es) n) \<and>
     bf_seen s' = rev new @ bf_seen s \<and> bf_queue s' = bf_queue s @ new \<and> distinct new \<and>
     set new = set (targets es) - set (bf_seen s) \<and>
     (\<exists>oe. bf_outputs s' = bf_outputs s @ oe \<and> map e_function oe = map Some (filter (leaf g) new) \<and>
           bf_recvs s' = bf_recvs s @ filter (into_recv g) oe)"

lemma visit_next_visited:
  assumes "\<forall>n. e_function e = Some n \<longrightarrow> leaf_ok g n"
  shows "\<exists>s' new. visit_next g e s = Inr s' \<and> visited g [e] new s s'"
proof (cases "e_function e")
  case None
  then show ?thesis by (auto simp: visit_next_def visited_def)
next
  case (Some n)
  let ?d = "AList.update n (umap_at 0 (bf_deps s) n + 1) (bf_deps s)"
  show ?thesis
  proof (cases "n \<in> set (bf_seen s)")
    case True
    then have "visit_next g e s = Inr (s\<lparr>bf_deps := ?d\<rparr>) \<and> visited g [e] [] s (s\<lparr>bf_deps := ?d\<rparr>)"
      using Some by (simp add: visit_next_def visited_def Let_def)
    then show ?thesis by blast
  next
    case False
    let ?s2 = "s\<lparr>bf_deps := ?d, bf_seen := n # bf_seen s, bf_queue := bf_queue s @ [n]\<rparr>"
    show ?thesis
    proof (cases "leaf g n")
      case True
      let ?s3 = "?s2\<lparr>bf_recvs := (if into_recv g e then bf_recvs s @ [e] else bf_recvs s), bf_outputs := bf_outputs s @ [e]\<rparr>"
      have "visit_next g e s = Inr ?s3"
        using True False Some assms by (auto simp: visit_next_def leaf_def leaf_ok_def into_recv_def Let_def)
      moreover have "visited g [e] [n] s ?s3" using True False Some by (auto simp: visited_def)
      ultimately show ?thesis by blast
    next
      case nl: False
      have "visit_next g e s = Inr ?s2" using nl False Some by (simp add: visit_next_def leaf_def Let_def)
      moreover have "visited g [e] [n] s ?s2" using nl False Some by (auto simp: visited_def)
      ultimately show ?thesis by blast
    qed
  qed
qed

lemma visited_trans:
  assumes "visited g es new s s1" and "visited g es' new' s1 s2"
  shows "visited g (es @ es') (new @ new') s s2"
proof -
  have t: "targets (es @ es') = targets es @ targets es'" by (simp add: targets_def List.map_filter_def)
  obtain oe oe' where o: "bf_outputs s1 = bf_outputs s @ oe" "map e_function oe = map Some (filter (leaf g) new)"
    "bf_recvs s1 = bf_recvs s @ filter (into_recv g) oe"
    "bf_outputs s2 = bf_outputs s1 @ oe'" "map e_function oe' = map Some (filter (leaf g) new')"
    "bf_recvs s2 = bf_recvs s1 @ filter (into_recv g) oe'"
    using assms unfolding visited_def by blast
  have "\<exists>p. bf_outputs s2 = bf_outputs s @ p \<and> map e_function p = map Some (filter (leaf g) (new @ new')) \<and>
      bf_recvs s2 = bf_recvs s @ filter (into_recv g) p"
    by (rule exI [of _ "oe @ oe'"]) (simp add: o)
  then show ?thesis using assms unfolding visited_def by (auto simp: t)
qed

lemma visit_all_visited:
  assumes "\<forall>e \<in> set es. \<forall>n. e_function e = Some n \<longrightarrow> leaf_ok g n"
  shows "\<exists>s' new. visit_all g es s = Inr s' \<and> visited g es new s s'"
  using assms
proof (induction es arbitrary: s)
  case Nil
  then show ?case by (auto simp: visited_def)
next
  case (Cons e es)
  then obtain s1 n1 where 1: "visit_next g e s = Inr s1" "visited g [e] n1 s s1" using visit_next_visited [of e g s] by auto
  from Cons obtain s2 n2 where 2: "visit_all g es s1 = Inr s2" "visited g es n2 s1 s2" by (meson list.set_intros(2))
  show ?case using visited_trans [OF 1(2) 2(2)] 1(1) 2(1) by auto
qed

subsection \<open>The invariant of the loop\<close>

definition node_targets :: "node_graph \<Rightarrow> nat \<Rightarrow> nat list" where
  "node_targets g f = targets (next_edges g f)"

definition node_edge :: "node_graph \<Rightarrow> nat \<Rightarrow> nat \<Rightarrow> bool" where
  "node_edge g a b \<longleftrightarrow> b \<in> set (node_targets g a)"

text \<open>\<open>dn\<close> are the functions taken from the queue so far.\<close>

definition bfs_inv :: "node_graph \<Rightarrow> nat list \<Rightarrow> nat list \<Rightarrow> bfs \<Rightarrow> bool" where
  "bfs_inv g roots dn s \<longleftrightarrow>
     (\<forall>n. umap_at 0 (bf_deps s) n = sum_list (map (\<lambda>f. count_list (node_targets g f) n) dn)) \<and>
     distinct (bf_seen s) \<and> set (bf_seen s) = (\<Union>f \<in> set dn. set (node_targets g f)) \<and>
     mset dn + mset (bf_queue s) = mset roots + mset (bf_seen s) \<and>
     map e_function (bf_outputs s) = map Some (filter (leaf g) (rev (bf_seen s))) \<and>
     bf_recvs s = filter (into_recv g) (bf_outputs s) \<and>
     (\<forall>n \<in> set (bf_seen s). \<exists>a \<in> set roots. (node_edge g)\<^sup>+\<^sup>+ a n)"

lemma bfs_inv_step:
  assumes "bfs_inv g roots dn s" and "bf_queue s = fn # rest"
    and "visited g (next_edges g fn) new (s\<lparr>bf_queue := rest\<rparr>) s'"
  shows "bfs_inv g roots (dn @ [fn]) s'"
proof -
  obtain oe where o: "bf_outputs s' = bf_outputs s @ oe" "map e_function oe = map Some (filter (leaf g) new)"
    "bf_recvs s' = bf_recvs s @ filter (into_recv g) oe" using assms(3) unfolding visited_def by auto
  have v: "\<forall>n. umap_at 0 (bf_deps s') n = umap_at 0 (bf_deps s) n + count_list (node_targets g fn) n"
    "bf_seen s' = rev new @ bf_seen s" "bf_queue s' = rest @ new" "distinct new"
    "set new = set (node_targets g fn) - set (bf_seen s)"
    using assms(3) by (simp_all add: visited_def node_targets_def)
  have i: "\<forall>n. umap_at 0 (bf_deps s) n = sum_list (map (\<lambda>f. count_list (node_targets g f) n) dn)"
    "distinct (bf_seen s)" "set (bf_seen s) = (\<Union>f \<in> set dn. set (node_targets g f))"
    "mset dn + mset (fn # rest) = mset roots + mset (bf_seen s)"
    "map e_function (bf_outputs s) = map Some (filter (leaf g) (rev (bf_seen s)))"
    "bf_recvs s = filter (into_recv g) (bf_outputs s)"
    and reach: "\<forall>n \<in> set (bf_seen s). \<exists>a \<in> set roots. (node_edge g)\<^sup>+\<^sup>+ a n"
    using assms(1,2) by (simp_all add: bfs_inv_def)
  have "set dn \<union> set (fn # rest) = set roots \<union> set (bf_seen s)" using arg_cong [OF i(4), of set_mset] by simp
  then have "fn \<in> set roots \<or> fn \<in> set (bf_seen s)" by auto
  then have "\<exists>a \<in> set roots. (node_edge g)\<^sup>*\<^sup>* a fn" using reach by (meson rtranclp.rtrancl_refl tranclp_into_rtranclp)
  then have "\<exists>a \<in> set roots. (node_edge g)\<^sup>+\<^sup>+ a n" if "n \<in> set (node_targets g fn)" for n
    using that by (meson node_edge_def rtranclp_into_tranclp1)
  then have reach': "\<forall>n \<in> set (bf_seen s'). \<exists>a \<in> set roots. (node_edge g)\<^sup>+\<^sup>+ a n" using v(2,5) reach by auto
  have "mset (dn @ [fn]) + mset (bf_queue s') = mset roots + mset (bf_seen s')" using i(4) v(2,3) by (simp add: ac_simps)
  moreover have "set (bf_seen s') = (\<Union>f \<in> set (dn @ [fn]). set (node_targets g f))" using v(2,5) i(3) by auto
  moreover have "\<forall>n. umap_at 0 (bf_deps s') n = sum_list (map (\<lambda>f. count_list (node_targets g f) n) (dn @ [fn]))"
    using i(1) v(1) by simp
  moreover have "distinct (bf_seen s')" using i(2) v(2,4,5) by auto
  ultimately show ?thesis using i(5,6) v(2) o reach' by (simp add: bfs_inv_def)
qed

lemma bfs_loop_result:
  assumes "bfs_inv g roots dn s" and "\<forall>f. \<forall>n \<in> set (node_targets g f). leaf_ok g n"
  shows "\<exists>s' dn'. bfs_loop g s = Inr s' \<and> bfs_inv g roots dn' s' \<and> bf_queue s' = []"
  using assms
proof (induction g s arbitrary: dn rule: bfs_loop.induct)
  case (1 g s)
  show ?case
  proof (cases "bf_queue s")
    case Nil
    with 1 show ?thesis by (auto simp: bfs_loop.simps)
  next
    case (Cons fn rest)
    have "\<forall>e \<in> set (next_edges g fn). \<forall>n. e_function e = Some n \<longrightarrow> leaf_ok g n"
      using 1(3) by (auto simp: node_targets_def targets_def List.map_filter_def) (metis (mono_tags, lifting) mem_Collect_eq imageI option.sel option.distinct(1))
    then obtain s1 new where s1: "visit_all g (next_edges g fn) (s\<lparr>bf_queue := rest\<rparr>) = Inr s1"
      "visited g (next_edges g fn) new (s\<lparr>bf_queue := rest\<rparr>) s1" using visit_all_visited by blast
    have "bfs_inv g roots (dn @ [fn]) s1" by (rule bfs_inv_step [OF 1(2) Cons s1(2)])
    from 1(1) [OF Cons s1(1) this 1(3)] show ?thesis using Cons s1(1) by (subst bfs_loop.simps) simp
  qed
qed

subsection \<open>The part of the graph that runs\<close>

definition running :: "node_graph \<Rightarrow> nat list \<Rightarrow> nat set" where
  "running g roots = {b. \<exists>a \<in> set roots. (node_edge g)\<^sup>*\<^sup>* a b}"

lemma bfs_inv_seen:
  assumes "bfs_inv g roots dn s" and "bf_queue s = []"
  shows "set (bf_seen s) = {b. \<exists>a \<in> set roots. (node_edge g)\<^sup>+\<^sup>+ a b}"
proof -
  have m: "mset dn = mset roots + mset (bf_seen s)" and seen: "set (bf_seen s) = (\<Union>f \<in> set dn. set (node_targets g f))"
    using assms by (simp_all add: bfs_inv_def)
  have dn: "set dn = set roots \<union> set (bf_seen s)" using arg_cong [OF m, of set_mset] by simp
  have closed: "node_edge g a b \<Longrightarrow> b \<in> set (bf_seen s)" if "a \<in> set dn" for a b
    using seen that by (auto simp: node_edge_def)
  have "b \<in> set (bf_seen s)" if "(node_edge g)\<^sup>+\<^sup>+ a b" "a \<in> set roots" for a b
    using that by (induction rule: tranclp_induct) (use closed dn in auto)
  moreover have "\<exists>a \<in> set roots. (node_edge g)\<^sup>+\<^sup>+ a b" if "b \<in> set (bf_seen s)" for b
    using assms(1) that by (simp add: bfs_inv_def)
  ultimately show ?thesis by blast
qed

lemma sum_list_distinct_roots:
  fixes h :: "nat \<Rightarrow> nat"
  assumes "mset dn = mset roots + mset seen" and "distinct roots" and "distinct seen" and "set roots \<inter> set seen = {}"
  shows "sum_list (map h dn) = (\<Sum>f \<in> set roots \<union> set seen. h f)"
proof -
  have "mset dn = mset (roots @ seen)" using assms(1) by simp
  then have "sum_list (map h dn) = sum_list (map h (roots @ seen))" by (metis mset_map sum_mset_sum_list)
  also have "\<dots> = (\<Sum>f \<in> set (roots @ seen). h f)" using assms(2-4) by (intro sum_list_distinct_conv_sum_set) simp
  finally show ?thesis by simp
qed

text \<open>
  The walk from distinct roots into which no edge leads, as graph roots and send functions are.
\<close>

lemma bfs_final:
  assumes "bfs_inv g roots dn s" and "bf_queue s = []" and "distinct roots" and "\<forall>a. \<forall>r \<in> set roots. \<not> node_edge g a r"
  shows "umap_at 0 (bf_deps s) n = (\<Sum>f \<in> running g roots. count_list (node_targets g f) n)"
    and "set (bf_seen s) = running g roots - set roots"
    and "distinct (map e_function (bf_outputs s))"
    and "set (map e_function (bf_outputs s)) = Some ` {n \<in> running g roots - set roots. leaf g n}"
    and "bf_recvs s = filter (into_recv g) (bf_outputs s)"
proof -
  note seen = bfs_inv_seen [OF assms(1,2)]
  have into: "\<not> (node_edge g)\<^sup>+\<^sup>+ a r" if "r \<in> set roots" for a r
  proof
    assume "(node_edge g)\<^sup>+\<^sup>+ a r"
    then obtain b where "node_edge g b r" by (cases rule: tranclp.cases) blast+
    with assms(4) that show False by blast
  qed
  have dj: "set roots \<inter> set (bf_seen s) = {}" using seen into by auto
  have run: "running g roots = set roots \<union> set (bf_seen s)"
    unfolding seen running_def Nitpick.rtranclp_unfold by blast
  show seen': "set (bf_seen s) = running g roots - set roots" using run dj by auto
  have m: "mset dn = mset roots + mset (bf_seen s)" "distinct (bf_seen s)" using assms(1,2) by (simp_all add: bfs_inv_def)
  show "umap_at 0 (bf_deps s) n = (\<Sum>f \<in> running g roots. count_list (node_targets g f) n)"
    unfolding run sum_list_distinct_roots [OF m(1) assms(3) m(2) dj, symmetric] using assms(1) by (simp add: bfs_inv_def)
  have o: "map e_function (bf_outputs s) = map Some (filter (leaf g) (rev (bf_seen s)))" using assms(1) by (simp add: bfs_inv_def)
  show "distinct (map e_function (bf_outputs s))" unfolding o using m(2) by (simp add: distinct_map)
  show "set (map e_function (bf_outputs s)) = Some ` {n \<in> running g roots - set roots. leaf g n}"
    unfolding o seen' [symmetric] by auto
  show "bf_recvs s = filter (into_recv g) (bf_outputs s)" using assms(1) by (simp add: bfs_inv_def)
qed

lemma mark_needed_marks:
  "e \<in> set es \<Longrightarrow> \<exists>info. map_of (mark_needed es m) (the (e_function e)) = Some info \<and> ei_needed info"
proof (induction es arbitrary: m)
  case (Cons e' es)
  have keep: "\<exists>info. map_of (mark_needed es m) k = Some info \<and> ei_needed info" if "\<exists>info. map_of m k = Some info \<and> ei_needed info" for k m
    using that by (induction es arbitrary: m) (auto simp: Let_def update_conv umap_at_def)
  show ?case
  proof (cases "e \<in> set es")
    case True
    with Cons show ?thesis by (simp add: Let_def)
  next
    case False
    with Cons.prems have "e = e'" by simp
    then show ?thesis by (simp add: Let_def keep update_conv)
  qed
qed simp

section \<open>Properties\<close>

text \<open>
  C8. Dependencies of a backward pass are exact. For any finite graph, cyclic or not, in which no edge
  leads to the graph root or a send function and in which leaves are gradient accumulators or receive
  functions, \<^verbatim>\<open>computeDependencies\<close> ends and leaves a graph task in the context: the number of
  outstanding tasks is the number of send functions; each function depends on exactly the edges
  into it from functions that run (those reachable from the graph root or a send function, and no
  other part of the graph); the output edges lead to the leaves among them, each once; and receive
  functions are marked as needed.
\<close>

theorem dist_dependencies_exact:
  fixes c :: "'g dist_context" and root :: nat
  defines "roots \<equiv> root # map snd (sendAutogradFunctions c)"
  assumes "graphTask c = None" and "distinct roots" and "\<forall>a. \<forall>r \<in> set roots. \<not> node_edge g a r"
    and "\<forall>f. \<forall>n \<in> set (node_targets g f). leaf_ok g n"
  shows "\<exists>t outs. computeDependencies init_to_execute g task (Some root) retainGraph c = (Inr (t, outs), c\<lparr>graphTask := Some task\<rparr>) \<and>
    et_outstanding t = int (length (sendAutogradFunctions c)) \<and>
    (\<forall>n. umap_at 0 (et_dependencies t) n = (\<Sum>f \<in> running g roots. count_list (node_targets g f) n)) \<and>
    distinct (map e_function outs) \<and>
    set (map e_function outs) = Some ` {n \<in> running g roots - set roots. leaf g n} \<and>
    (\<forall>n \<in> running g roots - set roots. leaf g n \<longrightarrow> kind_of g n = RecvRpcBackward \<longrightarrow>
       (\<exists>info. map_of (et_exec_info t) n = Some info \<and> ei_needed info))"
proof -
  let ?s0 = "\<lparr>bf_queue = roots, bf_seen = [], bf_deps = [], bf_outputs = [], bf_recvs = []\<rparr>"
  have "bfs_inv g roots [] ?s0" by (simp add: bfs_inv_def umap_at_def)
  then obtain s dn where s: "bfs_loop g ?s0 = Inr s" "bfs_inv g roots dn s" "bf_queue s = []"
    using bfs_loop_result assms(5) by blast
  note f = bfs_final [OF s(2,3) assms(3,4)]
  let ?info = "if bf_outputs s = [] then [] else mark_needed (bf_recvs s)
    (map (add_capture_hooks g (contextId c)) (init_to_execute (map snd (sendAutogradFunctions c) @ [root]) (bf_outputs s)))"
  have "\<exists>info. map_of ?info n = Some info \<and> ei_needed info"
    if n: "n \<in> running g roots - set roots" "leaf g n" "kind_of g n = RecvRpcBackward" for n
  proof -
    have "Some n \<in> set (map e_function (bf_outputs s))" unfolding f(4) using n(1,2) by blast
    then obtain e where e: "e \<in> set (bf_outputs s)" "e_function e = Some n" by auto
    then have "e \<in> set (bf_recvs s)" unfolding f(5) using n(3) by (simp add: into_recv_def)
    from mark_needed_marks [OF this] e show ?thesis by auto
  qed
  moreover have "bfs_loop g \<lparr>bf_queue = root # map snd (sendAutogradFunctions c), bf_seen = [], bf_deps = [], bf_outputs = [], bf_recvs = []\<rparr> = Inr s"
    using s(1) by (simp add: roots_def)
  ultimately show ?thesis
    using assms(2) f(1,3,4) by (simp add: computeDependencies_def setGraphTask_def bindM_def Let_def)
qed

definition example_graph :: node_graph where
  "example_graph = [(0, GraphRoot, [\<lparr>e_function = Some 1, e_input_nr = 0\<rparr>]),
     (1, OtherNode, [\<lparr>e_function = Some 2, e_input_nr = 0\<rparr>, \<lparr>e_function = Some 3, e_input_nr = 0\<rparr>]),
     (2, AccumulateGrad, []), (3, RecvRpcBackward, []),
     (4, SendRpcBackward, [\<lparr>e_function = Some 2, e_input_nr = 0\<rparr>])]"

definition example_context :: "int dist_context" where
  "example_context = (new_context 7)\<lparr>sendAutogradFunctions := [(9, 4)]\<rparr>"

lemma example_targets:
  "node_targets example_graph f =
     (if f = 0 then [1] else if f = 1 then [2, 3] else if f = 4 then [2] else [])"
  by (simp add: node_targets_def next_edges_def umap_at_def example_graph_def)

theorem dist_dependencies_exact_witness:
  "\<exists>t outs. computeDependencies (\<lambda>_ _. []) example_graph 0 (Some 0) False example_context =
      (Inr (t, outs), example_context\<lparr>graphTask := Some 0\<rparr>) \<and> et_outstanding t = 1"
proof -
  have sends: "map snd (sendAutogradFunctions example_context) = [4]" by (simp add: example_context_def)
  have "graphTask example_context = None" by (simp add: example_context_def new_context_def)
  moreover have "\<forall>a. \<forall>r \<in> set (0 # map snd (sendAutogradFunctions example_context)). \<not> node_edge example_graph a r"
    by (auto simp: sends node_edge_def example_targets split: if_splits)
  moreover have "leaf_ok example_graph 1" "leaf_ok example_graph 2" "leaf_ok example_graph 3"
    by (simp_all add: leaf_ok_def leaf_def kind_of_def next_edges_def umap_at_def example_graph_def)
  then have "\<forall>f. \<forall>n \<in> set (node_targets example_graph f). leaf_ok example_graph n" by (simp add: example_targets)
  moreover have "distinct (0 # map snd (sendAutogradFunctions example_context))" by (simp add: sends)
  ultimately show ?thesis
    using dist_dependencies_exact [of example_context 0 example_graph "\<lambda>_ _. []" 0 False]
    by (fastforce simp: example_context_def)
qed

end
