(* ===== verification/DistEngine.thy ===== *)
theory DistEngine
  imports DistEngine_Graph
begin

text \<open>
  The engine of distributed autograd (\<^verbatim>\<open>autograd/engine/dist_engine.cpp\<close>, \<^verbatim>\<open>dist_engine.h\<close>) on one worker:
  backward passes of several contexts, started by \<^verbatim>\<open>execute\<close> or by the first send function whose
  gradients arrive, run by closures on other threads, and cleaned up at the end. A step of the
  interleaving is one turn of a loop or one critical section. What the engine relies on of the local
  autograd engine is the argument \<open>le\<close> with the assumption \<open>documented_engine\<close>; which functions become
  ready when a function has been evaluated is part of a step. The main results: a pass is reported as
  finished exactly when nothing of it is left to run, and a context has at most one pass at a time.
\<close>

section \<open>State\<close>

text \<open>
  A closure handed to \<^verbatim>\<open>at::launch\<close>: not started yet (with its graph task, its function and
  \<^verbatim>\<open>incrementOutstandingTasks\<close>), in the loop with its ready queue, past the loop, ended.
\<close>

datatype job = Launched nat nat bool | Looping nat "nat list" | Checking nat | Ended

record 'g dist_engine =
  initializedContextIds :: "int list"
  de_contexts :: "(int, 'g dist_context) umap"
  de_tasks :: "engine_task list"
  de_jobs :: "job list"
  de_device :: "nat list"
  global_cpu_ready_queue :: "(nat \<times> nat) list"
  de_unsent :: "(nat \<times> nat) list"
  de_results :: "(int \<times> future) list"

definition dist_engine_new :: "(int, 'g dist_context) umap \<Rightarrow> 'g dist_engine" where
  "dist_engine_new cs = \<lparr>initializedContextIds = [], de_contexts = cs, de_tasks = [], de_jobs = [], de_device = [],
     global_cpu_ready_queue = [], de_unsent = [], de_results = []\<rparr>"

text \<open>The members of the local engine's graph task that are used here.\<close>

record local_engine =
  le_completed :: "engine_task \<Rightarrow> bool"
  le_mark_as_completed :: "engine_task \<Rightarrow> engine_task"
  le_thread_on_exception :: "string \<Rightarrow> engine_task \<Rightarrow> engine_task"

definition documented_engine :: "local_engine \<Rightarrow> bool" where
  "documented_engine le \<longleftrightarrow>
     (\<forall>t. le_completed le t \<longleftrightarrow> et_outstanding t = 0 \<or> gt_has_error t) \<and>
     (\<forall>t. le_mark_as_completed le t = t\<lparr>gt_future_completed := True\<rparr>) \<and>
     (\<forall>e t. le_thread_on_exception le e t =
        t\<lparr>gt_has_error := True, gt_future_completed := True,
          gt_future_result := (if gt_future_completed t then gt_future_result t else Some e)\<rparr>)"

definition upd_task :: "nat \<Rightarrow> (engine_task \<Rightarrow> engine_task) \<Rightarrow> 'g dist_engine \<Rightarrow> 'g dist_engine" where
  "upd_task t f s = s\<lparr>de_tasks := (de_tasks s)[t := f (de_tasks s ! t)]\<rparr>"

definition add_outstanding :: "int \<Rightarrow> engine_task \<Rightarrow> engine_task" where
  "add_outstanding k t = t\<lparr>et_outstanding := et_outstanding t + k\<rparr>"

definition on_context :: "int \<Rightarrow> ('g dist_context, 'a) cmd \<Rightarrow> ('g dist_engine, 'a) cmd" where
  "on_context cid m s =
     (case map_of (de_contexts s) cid of
        None \<Rightarrow> (Inl (C10_error ''Could not find autograd context with id: ''), s)
      | Some c \<Rightarrow> (case m c of (r, c') \<Rightarrow> (r, s\<lparr>de_contexts := AList.update cid c' (de_contexts s)\<rparr>)))"

section \<open>Running a graph task\<close>

text \<open>\<^verbatim>\<open>execute_graph_task_until_ready_queue_empty\<close>: up to the loop, one turn, and after the loop.\<close>

definition job_start :: "nat \<Rightarrow> 'g dist_engine \<Rightarrow> 'g dist_engine" where
  "job_start j s =
     (case de_jobs s ! j of
        Launched t fn incrementOutstandingTasks \<Rightarrow>
          upd_task t (add_outstanding (if incrementOutstandingTasks then 1 else 0))
            (s\<lparr>de_jobs := (de_jobs s)[j := Looping t [fn]]\<rparr>)
      | _ \<Rightarrow> s)"

text \<open>
  The turn takes the task at position \<open>i\<close> of the queue. Its evaluation makes the functions \<open>ready\<close>
  ready on this queue and \<open>device\<close> functions on queues of devices, or throws.
\<close>

definition job_turn :: "local_engine \<Rightarrow> nat \<Rightarrow> nat \<Rightarrow> string + (nat list \<times> nat) \<Rightarrow> 'g dist_engine \<Rightarrow> 'g dist_engine" where
  "job_turn le j i outcome s =
     (case de_jobs s ! j of
        Looping t q \<Rightarrow>
          (let rest = take i q @ drop (Suc i) q
           in if gt_has_error (de_tasks s ! t)
              then upd_task t (add_outstanding (- 1)) (s\<lparr>de_jobs := (de_jobs s)[j := Looping t rest]\<rparr>)
              else case outcome of
                Inl e \<Rightarrow> upd_task t (le_thread_on_exception le e) (s\<lparr>de_jobs := (de_jobs s)[j := Checking t]\<rparr>)
              | Inr (ready, device) \<Rightarrow>
                  upd_task t (\<lambda>x. add_outstanding (- 1) (add_outstanding (int (length ready) + int device) x))
                    (s\<lparr>de_jobs := (de_jobs s)[j := Looping t (rest @ ready)], de_device := replicate device t @ de_device s\<rparr>))
      | _ \<Rightarrow> s)"

definition check_completed :: "local_engine \<Rightarrow> nat \<Rightarrow> 'g dist_engine \<Rightarrow> 'g dist_engine" where
  "check_completed le t s = (if le_completed le (de_tasks s ! t) then upd_task t (le_mark_as_completed le) s else s)"

definition job_end :: "local_engine \<Rightarrow> nat \<Rightarrow> 'g dist_engine \<Rightarrow> 'g dist_engine" where
  "job_end le j s =
     (case de_jobs s ! j of
        Looping t [] \<Rightarrow> check_completed le t (s\<lparr>de_jobs := (de_jobs s)[j := Ended]\<rparr>)
      | Checking t \<Rightarrow> check_completed le t (s\<lparr>de_jobs := (de_jobs s)[j := Ended]\<rparr>)
      | _ \<Rightarrow> s)"

definition launch_job :: "nat \<Rightarrow> nat \<Rightarrow> bool \<Rightarrow> 'g dist_engine \<Rightarrow> 'g dist_engine" where
  "launch_job t fn inc s = s\<lparr>de_jobs := de_jobs s @ [Launched t fn inc]\<rparr>"

text \<open>A turn of \<^verbatim>\<open>globalCpuThread\<close>: the graph task of a queued task is alive, its closure is launched.\<close>

definition globalCpuThread_turn :: "nat \<Rightarrow> 'g dist_engine \<Rightarrow> 'g dist_engine" where
  "globalCpuThread_turn i s =
     (case global_cpu_ready_queue s ! i of (t, fn) \<Rightarrow>
        launch_job t fn False (s\<lparr>global_cpu_ready_queue := take i (global_cpu_ready_queue s) @ drop (Suc i) (global_cpu_ready_queue s)\<rparr>))"

section \<open>Backward passes\<close>

text \<open>
  \<^verbatim>\<open>computeDependencies\<close> on a context of the engine: the new graph task, and the send functions it
  waits for.
\<close>

definition start_pass ::
    "(nat list \<Rightarrow> edge list \<Rightarrow> (nat, exec_info) umap) \<Rightarrow> node_graph \<Rightarrow> int \<Rightarrow> nat \<Rightarrow> bool \<Rightarrow> ('g dist_engine, nat) cmd" where
  "start_pass init_to_execute g cid root retainGraph s =
     (let task = length (de_tasks s);
          sends = (case map_of (de_contexts s) cid of None \<Rightarrow> [] | Some c \<Rightarrow> map snd (sendAutogradFunctions c))
      in case on_context cid (computeDependencies init_to_execute g task (Some root) retainGraph) s of
           (Inl e, s1) \<Rightarrow> (Inl e, s1)
         | (Inr (t, outputEdges), s1) \<Rightarrow>
             (Inr task, s1\<lparr>de_tasks := de_tasks s1 @ [t], initializedContextIds := cid # initializedContextIds s1,
                de_unsent := map (Pair task) sends @ de_unsent s1\<rparr>))"

definition runEngineAndAccumulateGradients :: "int \<Rightarrow> nat \<Rightarrow> bool \<Rightarrow> ('g dist_engine, unit) cmd" where
  "runEngineAndAccumulateGradients cid graphRoot incrementOutstandingTasks =
     bindM (on_context cid (modifyM clearOutstandingRpcs)) (\<lambda>_.
     bindM (on_context cid retrieveGraphTask) (\<lambda>graphTask.
     modifyM (launch_job graphTask graphRoot incrementOutstandingTasks)))"

text \<open>\<^verbatim>\<open>execute\<close> until it waits for the future. \<open>root\<close> is the new graph root, \<open>g\<close> the graph with it.\<close>

definition engine_execute ::
    "(nat list \<Rightarrow> edge list \<Rightarrow> (nat, exec_info) umap) \<Rightarrow> (edge list \<Rightarrow> unit res) \<Rightarrow> (edge list \<Rightarrow> node_graph) \<Rightarrow> int \<Rightarrow> root list \<Rightarrow> nat \<Rightarrow> bool \<Rightarrow>
     ('g dist_engine, unit) cmd" where
  "engine_execute init_to_execute validate_outputs graph cid roots root retainGraph =
     bindM (on_context cid (returnM ())) (\<lambda>_.
     bindM (liftM (validateRootsAndRetrieveEdges validate_outputs roots)) (\<lambda>rootEdges.
     bindM (getM (\<lambda>s. cid \<in> set (initializedContextIds s))) (\<lambda>initialized.
     bindM (checkM (\<not> initialized) (C10_assert ''initializedContextIds_.find(autogradContext->contextId()) == initializedContextIds_.end()'')) (\<lambda>_.
     bindM (start_pass init_to_execute (graph rootEdges) cid root retainGraph) (\<lambda>_.
     runEngineAndAccumulateGradients cid root True)))))"

definition executeSendFunctionAsync ::
    "(nat list \<Rightarrow> edge list \<Rightarrow> (nat, exec_info) umap) \<Rightarrow> node_graph \<Rightarrow> int \<Rightarrow> nat \<Rightarrow> nat \<Rightarrow> bool \<Rightarrow> ('g dist_engine, bool) cmd" where
  "executeSendFunctionAsync init_to_execute g cid sendFunction dummyRoot retainGraph =
     bindM (getM (\<lambda>s. cid \<in> set (initializedContextIds s))) (\<lambda>initialized.
     bindM (if initialized
            then bindM (on_context cid retrieveGraphTask) (\<lambda>graphTask. modifyM (launch_job graphTask sendFunction False))
            else bindM (start_pass init_to_execute g cid dummyRoot retainGraph) (\<lambda>_.
                 runEngineAndAccumulateGradients cid sendFunction False)) (\<lambda>_.
     bindM (on_context cid retrieveGraphTask) (\<lambda>task.
     bindM (modifyM (\<lambda>s. s\<lparr>de_unsent := remove1 (task, sendFunction) (de_unsent s)\<rparr>)) (\<lambda>_.
     returnM initialized))))"

definition cleanupBackwardPass :: "int \<Rightarrow> ('g dist_engine, unit) cmd" where
  "cleanupBackwardPass cid =
     bindM (on_context cid retrieveGraphTask) (\<lambda>_.
     bindM (on_context cid (modifyM resetGraphTask)) (\<lambda>_.
     bindM (on_context cid (modifyM clearOutstandingRpcs)) (\<lambda>_.
     modifyM (\<lambda>s. s\<lparr>initializedContextIds := removeAll cid (initializedContextIds s)\<rparr>))))"

text \<open>
  The callback on the future of the graph task; \<open>ngrads\<close> gradients were captured for \<open>noutputs\<close>
  output edges.
\<close>

definition accumulateGradFuture :: "int \<Rightarrow> nat \<Rightarrow> nat \<Rightarrow> engine_task \<Rightarrow> future" where
  "accumulateGradFuture workerId ngrads noutputs t =
     (case gt_future_result t of
        Some e \<Rightarrow> setError (''Error on Node '' @ to_string workerId @ '': '' @ e) Pending
      | None \<Rightarrow> if ngrads = noutputs then markCompleted Pending else setError ''grads.size() == outputEdges.size()'' Pending)"

text \<open>
  The end of a pass, in \<^verbatim>\<open>execute\<close> and in the callbacks of \<^verbatim>\<open>executeSendFunctionAsync\<close>: an error ends it
  at once, otherwise the outstanding RPCs are awaited (\<open>outcomes\<close> as they arrive); in both cases the
  pass is cleaned up before its result is set.
\<close>

definition finish_pass :: "int \<Rightarrow> nat \<Rightarrow> nat \<Rightarrow> string option list \<Rightarrow> int \<Rightarrow> ('g dist_engine, unit) cmd" where
  "finish_pass workerId ngrads noutputs outcomes cid =
     bindM (on_context cid retrieveGraphTask) (\<lambda>task.
     bindM (getM (\<lambda>s. accumulateGradFuture workerId ngrads noutputs (de_tasks s ! task))) (\<lambda>fut.
     bindM (if fut = Completed
            then on_context cid (\<lambda>c. (Inr (ws_future (clearAndWait_run c outcomes)), c))
            else returnM fut) (\<lambda>result.
     bindM (cleanupBackwardPass cid) (\<lambda>_.
     modifyM (\<lambda>s. s\<lparr>de_results := (cid, result) # de_results s\<rparr>)))))"

definition numBackwardPasses :: "'g dist_engine \<Rightarrow> nat" where
  "numBackwardPasses s = length (initializedContextIds s)"

section \<open>Interleavings\<close>

text \<open>
  A task in a queue of a device is evaluated by a thread of the local engine, which queues
  continuations for the CPU on the global queue and checks for completion as the loops here do.
\<close>

definition device_turn :: "local_engine \<Rightarrow> nat \<Rightarrow> string + (nat list \<times> nat) \<Rightarrow> 'g dist_engine \<Rightarrow> 'g dist_engine" where
  "device_turn le i outcome s =
     (let t = de_device s ! i; rest = take i (de_device s) @ drop (Suc i) (de_device s)
      in case outcome of
           Inl e \<Rightarrow> upd_task t (le_thread_on_exception le e) (s\<lparr>de_device := rest\<rparr>)
         | Inr (continuations, device) \<Rightarrow>
             check_completed le t
               (upd_task t (add_outstanding (int (length continuations) + int device - 1))
                 (s\<lparr>de_device := replicate device t @ rest,
                    global_cpu_ready_queue := global_cpu_ready_queue s @ map (Pair t) continuations\<rparr>)))"

definition rpc_failed :: "int \<Rightarrow> string \<Rightarrow> 'g dist_engine \<Rightarrow> 'g dist_engine" where
  "rpc_failed cid e s =
     (case map_of (de_contexts s) cid of
        None \<Rightarrow> s
      | Some c \<Rightarrow>
          (case graphTask c of
             None \<Rightarrow> s
           | Some t \<Rightarrow> upd_task t (\<lambda>x. (let y = outstandingRpc_callback (Some e) c (graph_task.truncate x)
                         in x\<lparr>gt_has_error := gt_has_error y, gt_future_completed := gt_future_completed y,
                              gt_future_result := gt_future_result y\<rparr>)) s))"

datatype 'g engine_event =
    Forward_ev int "'g dist_context"
  | Execute_ev int "root list" nat node_graph bool
  | Send_ev int nat nat node_graph bool
  | Start_ev nat
  | Turn_ev nat nat "string + (nat list \<times> nat)"
  | End_ev nat
  | Global_ev nat
  | Device_ev nat "string + (nat list \<times> nat)"
  | Rpc_failed_ev int string
  | Finish_ev int int nat nat "string option list"

fun de_exec ::
    "local_engine \<Rightarrow> (nat list \<Rightarrow> edge list \<Rightarrow> (nat, exec_info) umap) \<Rightarrow> (edge list \<Rightarrow> unit res) \<Rightarrow> 'g engine_event \<Rightarrow>
     'g dist_engine \<Rightarrow> 'g dist_engine" where
  "de_exec le ini val (Forward_ev cid c) s = s\<lparr>de_contexts := AList.update cid c (de_contexts s)\<rparr>"
| "de_exec le ini val (Execute_ev cid roots r g retain) s = snd (engine_execute ini val (\<lambda>_. g) cid roots r retain s)"
| "de_exec le ini val (Send_ev cid fn r g retain) s = snd (executeSendFunctionAsync ini g cid fn r retain s)"
| "de_exec le ini val (Start_ev j) s = job_start j s"
| "de_exec le ini val (Turn_ev j i outcome) s = job_turn le j i outcome s"
| "de_exec le ini val (End_ev j) s = job_end le j s"
| "de_exec le ini val (Global_ev i) s = globalCpuThread_turn i s"
| "de_exec le ini val (Device_ev i outcome) s = device_turn le i outcome s"
| "de_exec le ini val (Rpc_failed_ev cid e) s = rpc_failed cid e s"
| "de_exec le ini val (Finish_ev cid worker ngrads nouts outcomes) s = snd (finish_pass worker ngrads nouts outcomes cid s)"

definition root_pending :: "'g dist_engine \<Rightarrow> nat \<Rightarrow> bool" where
  "root_pending s t = list_ex (\<lambda>j. case j of Launched u r inc \<Rightarrow> inc \<and> u = t | _ \<Rightarrow> False) (de_jobs s)"

definition task_of :: "'g dist_engine \<Rightarrow> int \<Rightarrow> nat option" where
  "task_of s cid = (case map_of (de_contexts s) cid of None \<Rightarrow> None | Some c \<Rightarrow> graphTask c)"

text \<open>
  When a step can happen. Contexts change in forward passes, between backward passes. The gradients of
  a send function arrive once in a pass, and on the worker that called \<^verbatim>\<open>execute\<close> only after its graph
  root has started, since all gradients stem from it.
\<close>

fun de_enabled :: "'g engine_event \<Rightarrow> 'g dist_engine \<Rightarrow> bool" where
  "de_enabled (Forward_ev cid c) s \<longleftrightarrow> cid \<notin> set (initializedContextIds s) \<and> graphTask c = None \<and>
     distinct (map snd (sendAutogradFunctions c))"
| "de_enabled (Execute_ev cid roots r g retain) s \<longleftrightarrow> True"
| "de_enabled (Send_ev cid fn r g retain) s \<longleftrightarrow>
     (case task_of s cid of
        Some t \<Rightarrow> (t, fn) \<in> set (de_unsent s) \<and> \<not> root_pending s t
      | None \<Rightarrow> (case map_of (de_contexts s) cid of None \<Rightarrow> False | Some c \<Rightarrow> fn \<in> snd ` set (sendAutogradFunctions c)))"
| "de_enabled (Start_ev j) s \<longleftrightarrow> j < length (de_jobs s) \<and> (case de_jobs s ! j of Launched _ _ _ \<Rightarrow> True | _ \<Rightarrow> False)"
| "de_enabled (Turn_ev j i outcome) s \<longleftrightarrow> j < length (de_jobs s) \<and> (case de_jobs s ! j of Looping t q \<Rightarrow> i < length q | _ \<Rightarrow> False)"
| "de_enabled (End_ev j) s \<longleftrightarrow> j < length (de_jobs s) \<and>
     (case de_jobs s ! j of Looping t q \<Rightarrow> q = [] | Checking t \<Rightarrow> True | _ \<Rightarrow> False)"
| "de_enabled (Global_ev i) s \<longleftrightarrow> i < length (global_cpu_ready_queue s)"
| "de_enabled (Device_ev i outcome) s \<longleftrightarrow> i < length (de_device s)"
| "de_enabled (Rpc_failed_ev cid e) s \<longleftrightarrow> True"
| "de_enabled (Finish_ev cid worker ngrads nouts outcomes) s \<longleftrightarrow>
     (case task_of s cid of None \<Rightarrow> False | Some t \<Rightarrow> gt_future_completed (de_tasks s ! t))"

inductive de_reach ::
    "local_engine \<Rightarrow> (nat list \<Rightarrow> edge list \<Rightarrow> (nat, exec_info) umap) \<Rightarrow> (edge list \<Rightarrow> unit res) \<Rightarrow> 'g dist_engine \<Rightarrow> bool"
    for le ini val where
  de_start: "de_reach le ini val (dist_engine_new [])"
| de_step: "de_reach le ini val s \<Longrightarrow> de_enabled ev s \<Longrightarrow> de_reach le ini val (de_exec le ini val ev s)"

section \<open>One graph task\<close>

text \<open>
  The part of the state that belongs to one graph task: the task, its jobs, the numbers of its tasks in
  device queues, in the global queue, and of its send functions without gradients.
\<close>

fun job_task :: "job \<Rightarrow> nat option" where
  "job_task (Launched t r inc) = Some t"
| "job_task (Looping t q) = Some t"
| "job_task (Checking t) = Some t"
| "job_task Ended = None"

fun job_load :: "job \<Rightarrow> nat" where
  "job_load (Launched t r inc) = (if inc then 0 else 1)"
| "job_load (Looping t q) = length q"
| "job_load (Checking t) = 0"
| "job_load Ended = 0"

fun is_root :: "job \<Rightarrow> bool" where
  "is_root (Launched t r inc) = inc"
| "is_root _ = False"

fun will_check :: "job \<Rightarrow> bool" where
  "will_check (Looping t q) = (q = [])"
| "will_check (Checking t) = True"
| "will_check _ = False"

definition jobs_load :: "job multiset \<Rightarrow> nat" where
  "jobs_load J = sum_mset (image_mset job_load J)"

lemma jobs_load_simps [simp]: "jobs_load {#} = 0" "jobs_load (add_mset j J) = job_load j + jobs_load J"
  by (simp_all add: jobs_load_def)

definition succeeded :: "engine_task \<Rightarrow> bool" where
  "succeeded x \<longleftrightarrow> gt_future_completed x \<and> gt_future_result x = None"

text \<open>\<open>d\<close>, \<open>gl\<close> and \<open>u\<close> are the three numbers.\<close>

definition task_inv :: "engine_task \<Rightarrow> job multiset \<Rightarrow> nat \<Rightarrow> nat \<Rightarrow> nat \<Rightarrow> bool" where
  "task_inv x J d gl u \<longleftrightarrow>
     (\<not> gt_has_error x \<longrightarrow> et_outstanding x = int (jobs_load J + d + gl + u)) \<and>
     (gt_has_error x \<longrightarrow> gt_future_completed x) \<and>
     (succeeded x \<longrightarrow> jobs_load J + d + gl + u = 0 \<and> (\<forall>j \<in># J. \<not> is_root j)) \<and>
     ((\<exists>j \<in># J. is_root j) \<longrightarrow> size J = 1 \<and> d = 0 \<and> gl = 0) \<and>
     (jobs_load J + d + gl + u = 0 \<longrightarrow> \<not> gt_future_completed x \<longrightarrow> (\<exists>j \<in># J. is_root j \<or> will_check j))"

lemma task_invD:
  assumes "task_inv x J d gl u"
  shows "\<not> gt_has_error x \<Longrightarrow> et_outstanding x = int (jobs_load J + d + gl + u)"
    and "gt_has_error x \<Longrightarrow> gt_future_completed x"
    and "succeeded x \<Longrightarrow> jobs_load J + d + gl + u = 0" and "succeeded x \<Longrightarrow> \<forall>j \<in># J. \<not> is_root j"
    and "\<exists>j \<in># J. is_root j \<Longrightarrow> size J = 1 \<and> d = 0 \<and> gl = 0"
    and "jobs_load J + d + gl + u = 0 \<Longrightarrow> \<not> gt_future_completed x \<Longrightarrow> \<exists>j \<in># J. is_root j \<or> will_check j"
proof -
  note a = assms [unfolded task_inv_def]
  show "\<not> gt_has_error x \<Longrightarrow> et_outstanding x = int (jobs_load J + d + gl + u)" using a [THEN conjunct1] by (rule mp)
  note a = a [THEN conjunct2]
  show "gt_has_error x \<Longrightarrow> gt_future_completed x" using a [THEN conjunct1] by (rule mp)
  note a = a [THEN conjunct2]
  show "succeeded x \<Longrightarrow> jobs_load J + d + gl + u = 0" using a [THEN conjunct1, THEN mp] by (rule conjunct1)
  show "succeeded x \<Longrightarrow> \<forall>j \<in># J. \<not> is_root j" using a [THEN conjunct1, THEN mp] by (rule conjunct2)
  note a = a [THEN conjunct2]
  show "\<exists>j \<in># J. is_root j \<Longrightarrow> size J = 1 \<and> d = 0 \<and> gl = 0" using a [THEN conjunct1] by (rule mp)
  show "jobs_load J + d + gl + u = 0 \<Longrightarrow> \<not> gt_future_completed x \<Longrightarrow> \<exists>j \<in># J. is_root j \<or> will_check j"
    using a [THEN conjunct2, THEN mp, THEN mp] .
qed

lemma no_root_of_other:
  assumes "task_inv x (add_mset j J) d gl u" and "\<not> is_root j"
  shows "\<forall>k \<in># J. \<not> is_root k"
proof
  fix k assume "k \<in># J"
  then obtain J' where "J = add_mset k J'" by (metis insert_DiffM)
  then show "\<not> is_root k" using task_invD(5) [OF assms(1)] by auto
qed

lemma task_inv_start:
  assumes "task_inv x (add_mset (Launched t r inc) J) d gl u"
  shows "task_inv (add_outstanding (if inc then 1 else 0) x) (add_mset (Looping t [r]) J) d gl u"
proof (cases inc)
  case True
  then have "J = {#}" "d = 0" "gl = 0" using task_invD(5) [OF assms] by auto
  then show ?thesis using assms True by (auto simp: task_inv_def add_outstanding_def succeeded_def)
next
  case False
  then have "\<forall>k \<in># J. \<not> is_root k" using no_root_of_other [OF assms] by simp
  then show ?thesis using assms False by (auto simp: task_inv_def add_outstanding_def succeeded_def)
qed

lemma length_without: "i < length q \<Longrightarrow> Suc (length (take i q @ drop (Suc i) q)) = length q"
  by simp

lemma task_inv_turn:
  assumes "task_inv x (add_mset (Looping t q) J) d gl u" and "i < length q"
  defines "rest \<equiv> take i q @ drop (Suc i) q"
  shows "gt_has_error x \<Longrightarrow> task_inv (add_outstanding (- 1) x) (add_mset (Looping t rest) J) d gl u"
    and "\<not> gt_has_error x \<Longrightarrow>
      task_inv (add_outstanding (- 1) (add_outstanding (int (length ready) + int k) x)) (add_mset (Looping t (rest @ ready)) J) (k + d) gl u"
    and "documented_engine le \<Longrightarrow> task_inv (le_thread_on_exception le e x) (add_mset (Checking t) J) d gl u"
proof -
  have len: "length q = Suc (length rest)" using assms(2) by (simp add: rest_def)
  have nr: "\<forall>j \<in># J. \<not> is_root j" using no_root_of_other [OF assms(1)] by simp
  have ns: "\<not> succeeded x" using task_invD(3) [OF assms(1)] len by auto
  show "task_inv (add_outstanding (- 1) x) (add_mset (Looping t rest) J) d gl u" if "gt_has_error x"
    using that nr ns task_invD(2) [OF assms(1)] by (auto simp: task_inv_def add_outstanding_def succeeded_def)
  show "task_inv (add_outstanding (- 1) (add_outstanding (int (length ready) + int k) x)) (add_mset (Looping t (rest @ ready)) J) (k + d) gl u"
    if "\<not> gt_has_error x"
    using that nr ns len task_invD(1) [OF assms(1)] by (auto simp: task_inv_def add_outstanding_def succeeded_def)
  show "task_inv (le_thread_on_exception le e x) (add_mset (Checking t) J) d gl u" if "documented_engine le"
    using that nr ns by (auto simp: task_inv_def documented_engine_def succeeded_def)
qed

lemma task_inv_mark:
  assumes "documented_engine le" and "task_inv x J d gl u" and "\<forall>j \<in># J. \<not> is_root j" and "le_completed le x"
  shows "task_inv (le_mark_as_completed le x) J d gl u"
proof -
  have "et_outstanding x = 0 \<or> gt_has_error x" using assms(1,4) by (simp add: documented_engine_def)
  then show ?thesis
    using assms(1-3) unfolding task_inv_def documented_engine_def succeeded_def by auto
qed

lemma task_inv_end:
  assumes "documented_engine le" and "task_inv x (add_mset j J) d gl u" and "will_check j"
  shows "task_inv (if le_completed le x then le_mark_as_completed le x else x) J d gl u"
proof -
  have j: "\<not> is_root j" "job_load j = 0" using assms(3) by (cases j; simp)+
  note nr = no_root_of_other [OF assms(2) j(1)]
  have "task_inv (if le_completed le x then le_mark_as_completed le x else x) (add_mset j J) d gl u"
    using task_inv_mark [OF assms(1,2)] assms(2) nr j(1) by auto
  moreover have "gt_future_completed (if le_completed le x then le_mark_as_completed le x else x)"
    if "jobs_load J + d + gl + u = 0"
    using that assms(1,2) j(2) by (auto simp: task_inv_def documented_engine_def)
  ultimately show ?thesis using nr j(2) by (auto simp: task_inv_def)
qed

lemma task_inv_global:
  assumes "task_inv x J d (Suc gl) u"
  shows "task_inv x (add_mset (Launched t r False) J) d gl u"
proof -
  have "\<forall>j \<in># J. \<not> is_root j" using task_invD(5) [OF assms] by auto
  then show ?thesis using assms by (auto simp: task_inv_def)
qed

lemma task_inv_send:
  assumes "task_inv x J d gl (Suc u)" and "\<forall>j \<in># J. \<not> is_root j"
  shows "task_inv x (add_mset (Launched t r False) J) d gl u"
  using assms by (auto simp: task_inv_def)

lemma task_inv_device:
  fixes n k :: nat
  assumes "documented_engine le" and "task_inv x J (Suc d) gl u"
  defines "y \<equiv> add_outstanding (int n + int k - 1) x"
  shows "task_inv (if le_completed le y then le_mark_as_completed le y else y) J (k + d) (gl + n) u"
    and "task_inv (le_thread_on_exception le e x) J d gl u"
proof -
  have nr: "\<forall>j \<in># J. \<not> is_root j" using task_invD(5) [OF assms(2)] by auto
  have ns: "\<not> succeeded x" using task_invD(3) [OF assms(2)] by auto
  show "task_inv (le_thread_on_exception le e x) J d gl u"
    using assms(1) nr ns by (auto simp: task_inv_def documented_engine_def succeeded_def)
  have le: "le_completed le y \<longleftrightarrow> et_outstanding y = 0 \<or> gt_has_error y" "le_mark_as_completed le y = y\<lparr>gt_future_completed := True\<rparr>"
    using assms(1) by (simp_all add: documented_engine_def)
  have y: "gt_has_error y = gt_has_error x" "gt_future_completed y = gt_future_completed x" "gt_future_result y = gt_future_result x"
    by (simp_all add: y_def add_outstanding_def)
  have out: "et_outstanding y = int (jobs_load J + (k + d) + (gl + n) + u)" if "\<not> gt_has_error x"
    using task_invD(1) [OF assms(2) that] by (simp add: y_def add_outstanding_def)
  show "task_inv (if le_completed le y then le_mark_as_completed le y else y) J (k + d) (gl + n) u"
    using nr ns le y out task_invD(2) [OF assms(2)] by (auto simp: task_inv_def succeeded_def)
qed

lemma task_inv_rpc_failed:
  assumes "task_inv x J d gl u" and "gt_future_completed y" and "et_outstanding y = et_outstanding x" and "gt_has_error y"
    and "succeeded y \<Longrightarrow> succeeded x"
  shows "task_inv y J d gl u"
  using assms by (auto simp: task_inv_def)

section \<open>All graph tasks\<close>

definition jobs_of :: "'g dist_engine \<Rightarrow> nat \<Rightarrow> job multiset" where
  "jobs_of s t = filter_mset (\<lambda>j. job_task j = Some t) (mset (de_jobs s))"

definition pairs_of :: "(nat \<times> nat) list \<Rightarrow> nat \<Rightarrow> nat" where
  "pairs_of ps t = length (filter (\<lambda>p. fst p = t) ps)"

definition task_ok :: "'g dist_engine \<Rightarrow> nat \<Rightarrow> bool" where
  "task_ok s t \<longleftrightarrow> task_inv (de_tasks s ! t) (jobs_of s t) (count_list (de_device s) t)
     (pairs_of (global_cpu_ready_queue s) t) (pairs_of (de_unsent s) t)"

definition names_ok :: "'g dist_engine \<Rightarrow> bool" where
  "names_ok s \<longleftrightarrow>
     (\<forall>j \<in> set (de_jobs s). \<forall>t. job_task j = Some t \<longrightarrow> t < length (de_tasks s)) \<and>
     (\<forall>t \<in> set (de_device s) \<union> fst ` set (global_cpu_ready_queue s) \<union> fst ` set (de_unsent s). t < length (de_tasks s))"

definition passes_ok :: "'g dist_engine \<Rightarrow> bool" where
  "passes_ok s \<longleftrightarrow>
     distinct (initializedContextIds s) \<and>
     (\<forall>cid. cid \<in> set (initializedContextIds s) \<longleftrightarrow> task_of s cid \<noteq> None) \<and>
     (\<forall>cid t. task_of s cid = Some t \<longrightarrow> t < length (de_tasks s)) \<and>
     (\<forall>cid cid' t. task_of s cid = Some t \<longrightarrow> task_of s cid' = Some t \<longrightarrow> cid = cid')"

definition de_inv :: "'g dist_engine \<Rightarrow> bool" where
  "de_inv s \<longleftrightarrow> names_ok s \<and> (\<forall>t < length (de_tasks s). task_ok s t) \<and> passes_ok s"

lemma jobs_of_replace:
  assumes "j < length (de_jobs s)" and "job_task (de_jobs s ! j) = Some t"
  shows "\<exists>J. jobs_of s t = add_mset (de_jobs s ! j) J \<and>
    (\<forall>n. jobs_of (s\<lparr>de_jobs := (de_jobs s)[j := n]\<rparr>) t = (if job_task n = Some t then add_mset n J else J))"
proof -
  have m: "mset (de_jobs s) = add_mset (de_jobs s ! j) (mset (de_jobs s) - {#de_jobs s ! j#})"
    using insert_DiffM [of "de_jobs s ! j" "mset (de_jobs s)", symmetric] assms(1) by simp
  let ?J = "filter_mset (\<lambda>j. job_task j = Some t) (mset (de_jobs s) - {#de_jobs s ! j#})"
  have "jobs_of s t = add_mset (de_jobs s ! j) ?J" unfolding jobs_of_def by (subst m) (simp add: assms(2))
  moreover have "jobs_of (s\<lparr>de_jobs := (de_jobs s)[j := n]\<rparr>) t = (if job_task n = Some t then add_mset n ?J else ?J)" for n
    using assms(1) by (simp add: jobs_of_def mset_update)
  ultimately show ?thesis by blast
qed

lemma jobs_of_other:
  assumes "j < length (de_jobs s)" and "job_task (de_jobs s ! j) = Some t" and "u \<noteq> t"
    and "job_task n = Some t \<or> job_task n = None"
  shows "jobs_of (s\<lparr>de_jobs := (de_jobs s)[j := n]\<rparr>) u = jobs_of s u"
proof -
  have m: "mset (de_jobs s) = add_mset (de_jobs s ! j) (mset (de_jobs s) - {#de_jobs s ! j#})"
    using insert_DiffM [of "de_jobs s ! j" "mset (de_jobs s)", symmetric] assms(1) by simp
  have "jobs_of s u = filter_mset (\<lambda>j. job_task j = Some u) (mset (de_jobs s) - {#de_jobs s ! j#})"
    unfolding jobs_of_def by (subst m) (use assms in auto)
  then show ?thesis using assms by (auto simp: jobs_of_def mset_update)
qed

lemma upd_task_sel [simp]:
  "de_jobs (upd_task t f s) = de_jobs s" "de_device (upd_task t f s) = de_device s" "de_unsent (upd_task t f s) = de_unsent s"
  "global_cpu_ready_queue (upd_task t f s) = global_cpu_ready_queue s" "de_contexts (upd_task t f s) = de_contexts s"
  "initializedContextIds (upd_task t f s) = initializedContextIds s" "length (de_tasks (upd_task t f s)) = length (de_tasks s)"
  "jobs_of (upd_task t f s) = jobs_of s" "task_of (upd_task t f s) = task_of s"
  by (auto simp: upd_task_def jobs_of_def fun_eq_iff task_of_def)

lemma tasks_upd_task: "t < length (de_tasks s) \<Longrightarrow> de_tasks (upd_task t f s) ! u = (if u = t then f (de_tasks s ! t) else de_tasks s ! u)"
  by (simp add: upd_task_def nth_list_update)

text \<open>A step on the task \<open>t\<close> of one job leaves the other tasks as they were.\<close>

lemma de_inv_job:
  assumes "de_inv s" and "j < length (de_jobs s)" and "job_task (de_jobs s ! j) = Some t"
    and "job_task n = Some t \<or> job_task n = None"
    and "\<And>J. jobs_of s t = add_mset (de_jobs s ! j) J \<Longrightarrow>
      task_inv (f (de_tasks s ! t)) (if job_task n = Some t then add_mset n J else J) (k + count_list (de_device s) t)
        (pairs_of (global_cpu_ready_queue s) t) (pairs_of (de_unsent s) t)"
  shows "de_inv (upd_task t f (s\<lparr>de_jobs := (de_jobs s)[j := n], de_device := replicate k t @ de_device s\<rparr>))"
proof -
  let ?s = "s\<lparr>de_jobs := (de_jobs s)[j := n], de_device := replicate k t @ de_device s\<rparr>"
  have inv: "names_ok s" "\<forall>t < length (de_tasks s). task_ok s t" "passes_ok s" using assms(1) by (simp_all add: de_inv_def)
  have t: "t < length (de_tasks s)" using inv(1) assms(2,3) by (auto simp: names_ok_def)
  have dev: "jobs_of ?s = jobs_of (s\<lparr>de_jobs := (de_jobs s)[j := n]\<rparr>)" by (simp add: jobs_of_def fun_eq_iff)
  obtain J where J: "jobs_of s t = add_mset (de_jobs s ! j) J"
    "jobs_of ?s t = (if job_task n = Some t then add_mset n J else J)"
    using jobs_of_replace [OF assms(2,3)] unfolding dev by blast
  have cnt: "count_list (replicate k t @ de_device s) u = (if u = t then k else 0) + count_list (de_device s) u" for u
    by (induction k) auto
  have "task_ok (upd_task t f ?s) u" if "u < length (de_tasks s)" for u
  proof (cases "u = t")
    case True
    then show ?thesis using assms(5) [OF J(1)] J(2) t cnt [of t] by (simp add: task_ok_def tasks_upd_task)
  next
    case False
    then have "jobs_of ?s u = jobs_of s u" unfolding dev using jobs_of_other [OF assms(2,3)] assms(4) by blast
    then show ?thesis using False inv(2) t that cnt [of u] by (simp add: task_ok_def tasks_upd_task)
  qed
  moreover have "names_ok (upd_task t f ?s)"
    using inv(1) t assms(4) unfolding names_ok_def by (auto dest!: set_update_subset_insert [THEN subsetD])
  moreover have "passes_ok (upd_task t f ?s)" using inv(3) by (simp add: passes_ok_def task_of_def)
  ultimately show ?thesis by (simp add: de_inv_def)
qed

lemma de_inv_start: "de_inv s \<Longrightarrow> de_enabled (Start_ev j) s \<Longrightarrow> de_inv (job_start j s)"
proof -
  assume a: "de_inv s" "de_enabled (Start_ev j) s"
  then obtain t r inc where j: "j < length (de_jobs s)" "de_jobs s ! j = Launched t r inc" by (auto split: job.splits)
  have t: "task_ok s t" using a(1) j by (auto simp: de_inv_def names_ok_def dest: nth_mem)
  have "de_inv (upd_task t (add_outstanding (if inc then 1 else 0))
      (s\<lparr>de_jobs := (de_jobs s)[j := Looping t [r]], de_device := replicate 0 t @ de_device s\<rparr>))"
    using t j task_inv_start by (intro de_inv_job [OF a(1) j(1)]) (auto simp: task_ok_def)
  then show ?thesis using j by (simp add: job_start_def)
qed

lemma de_inv_turn:
  assumes "documented_engine le" and "de_inv s" and "de_enabled (Turn_ev j i outcome) s"
  shows "de_inv (job_turn le j i outcome s)"
proof -
  obtain t q where j: "j < length (de_jobs s)" "de_jobs s ! j = Looping t q" and i: "i < length q"
    using assms(3) by (auto split: job.splits)
  have t: "task_ok s t" using assms(2) j by (auto simp: de_inv_def names_ok_def dest: nth_mem)
  let ?rest = "take i q @ drop (Suc i) q"
  have inv: "task_inv (de_tasks s ! t) (add_mset (Looping t q) J) (count_list (de_device s) t)
      (pairs_of (global_cpu_ready_queue s) t) (pairs_of (de_unsent s) t)" if "jobs_of s t = add_mset (de_jobs s ! j) J" for J
    using t that j by (simp add: task_ok_def)
  note turn = task_inv_turn [OF inv i]
  note job = de_inv_job [OF assms(2) j(1), where t = t]
  show ?thesis
  proof (cases "gt_has_error (de_tasks s ! t)")
    case True
    have "de_inv (upd_task t (add_outstanding (- 1)) (s\<lparr>de_jobs := (de_jobs s)[j := Looping t ?rest], de_device := replicate 0 t @ de_device s\<rparr>))"
      by (rule job) (use j turn(1) True in auto)
    then show ?thesis using j True by (simp add: job_turn_def Let_def)
  next
    case False
    show ?thesis
    proof (cases outcome)
      case (Inl e)
      have "de_inv (upd_task t (le_thread_on_exception le e) (s\<lparr>de_jobs := (de_jobs s)[j := Checking t], de_device := replicate 0 t @ de_device s\<rparr>))"
        by (rule job) (use j turn(3) assms(1) in auto)
      then show ?thesis using j False Inl by (simp add: job_turn_def Let_def)
    next
      case (Inr p)
      obtain ready k where p: "p = (ready, k)" by (cases p)
      have "de_inv (upd_task t (\<lambda>x. add_outstanding (- 1) (add_outstanding (int (length ready) + int k) x))
          (s\<lparr>de_jobs := (de_jobs s)[j := Looping t (?rest @ ready)], de_device := replicate k t @ de_device s\<rparr>))"
        by (rule job) (use j turn(2) False in auto)
      then show ?thesis using j False Inr p by (simp add: job_turn_def Let_def)
    qed
  qed
qed

definition settle :: "local_engine \<Rightarrow> engine_task \<Rightarrow> engine_task" where
  "settle le x = (if le_completed le x then le_mark_as_completed le x else x)"

lemma check_completed_settle: "check_completed le t s = upd_task t (settle le) s"
  by (simp add: check_completed_def settle_def upd_task_def)

lemma de_inv_end:
  assumes "documented_engine le" and "de_inv s" and "de_enabled (End_ev j) s"
  shows "de_inv (job_end le j s)"
proof -
  obtain t where j: "j < length (de_jobs s)" "job_task (de_jobs s ! j) = Some t" "will_check (de_jobs s ! j)"
    "job_end le j s = check_completed le t (s\<lparr>de_jobs := (de_jobs s)[j := Ended]\<rparr>)"
    using assms(3) by (auto simp: job_end_def split: job.splits)
  have t: "task_ok s t" using assms(2) j by (auto simp: de_inv_def names_ok_def dest: nth_mem)
  have "de_inv (upd_task t (settle le) (s\<lparr>de_jobs := (de_jobs s)[j := Ended], de_device := replicate 0 t @ de_device s\<rparr>))"
    using t j(3) task_inv_end [OF assms(1)] by (intro de_inv_job [OF assms(2) j(1,2)]) (auto simp: task_ok_def settle_def)
  then show ?thesis by (simp add: j(4) check_completed_settle)
qed

text \<open>A step of another kind on one task: the jobs and numbers of the others are unchanged.\<close>

lemma de_inv_other:
  assumes "de_inv s" and "t < length (de_tasks s)" and "length (de_tasks s') = length (de_tasks s)"
    and "\<And>u. u \<noteq> t \<Longrightarrow> de_tasks s' ! u = de_tasks s ! u \<and> jobs_of s' u = jobs_of s u \<and> count_list (de_device s') u = count_list (de_device s) u \<and>
      pairs_of (global_cpu_ready_queue s') u = pairs_of (global_cpu_ready_queue s) u \<and> pairs_of (de_unsent s') u = pairs_of (de_unsent s) u"
    and "task_ok s' t" and "names_ok s'" and "passes_ok s'"
  shows "de_inv s'"
proof -
  have "task_ok s' u" if "u < length (de_tasks s)" for u
  proof (cases "u = t")
    case False
    then show ?thesis using assms(1) assms(4) [OF False] that by (simp add: de_inv_def task_ok_def)
  qed (use assms(5) in simp)
  with assms(3,6,7) show ?thesis by (simp add: de_inv_def)
qed

lemma pairs_of_simps [simp]:
  "pairs_of [] t = 0" "pairs_of (p # ps) t = (if fst p = t then Suc (pairs_of ps t) else pairs_of ps t)"
  "pairs_of (ps @ qs) t = pairs_of ps t + pairs_of qs t" "pairs_of (map (Pair v) fs) t = (if v = t then length fs else 0)"
  by (simp_all add: pairs_of_def filter_map comp_def)

lemma pairs_of_remove: "i < length ps \<Longrightarrow> pairs_of ps t = pairs_of [ps ! i] t + pairs_of (take i ps @ drop (Suc i) ps) t"
  by (subst id_take_nth_drop [of i ps], assumption) simp

lemma count_remove: "i < length xs \<Longrightarrow> count_list xs t = count_list [xs ! i] t + count_list (take i xs @ drop (Suc i) xs) t"
  by (subst id_take_nth_drop [of i xs], assumption) simp

lemma set_remove: "set (take i xs @ drop (Suc i) xs) \<subseteq> set xs"
  by (auto dest: in_set_takeD in_set_dropD)

lemma jobs_of_launch: "jobs_of (launch_job t r inc s) u = (if u = t then add_mset (Launched t r inc) (jobs_of s u) else jobs_of s u)"
  by (simp add: jobs_of_def launch_job_def)

lemma de_inv_global:
  assumes "de_inv s" and "de_enabled (Global_ev i) s"
  shows "de_inv (globalCpuThread_turn i s)"
proof -
  let ?q = "global_cpu_ready_queue s"
  obtain t r where tr: "?q ! i = (t, r)" and i: "i < length ?q" using assms(2) by (cases "?q ! i") simp
  let ?s = "s\<lparr>global_cpu_ready_queue := take i ?q @ drop (Suc i) ?q\<rparr>"
  have inv: "names_ok s" "\<forall>t < length (de_tasks s). task_ok s t" "passes_ok s" using assms(1) by (simp_all add: de_inv_def)
  have t: "t < length (de_tasks s)" using inv(1) tr i nth_mem [OF i] by (force simp: names_ok_def)
  have p: "pairs_of ?q u = (if u = t then 1 else 0) + pairs_of (take i ?q @ drop (Suc i) ?q) u" for u
    using pairs_of_remove [OF i, of u] tr by simp
  have js: "jobs_of ?s = jobs_of s" by (simp add: jobs_of_def fun_eq_iff)
  have sel: "de_tasks (launch_job t r False ?s) = de_tasks s" "de_device (launch_job t r False ?s) = de_device s"
    "de_unsent (launch_job t r False ?s) = de_unsent s" "task_of (launch_job t r False ?s) = task_of s"
    "global_cpu_ready_queue (launch_job t r False ?s) = take i ?q @ drop (Suc i) ?q" "initializedContextIds (launch_job t r False ?s) = initializedContextIds s"
    by (simp_all add: launch_job_def task_of_def fun_eq_iff)
  have "task_inv (de_tasks s ! t) (jobs_of s t) (count_list (de_device s) t) (Suc (pairs_of (take i ?q @ drop (Suc i) ?q) t)) (pairs_of (de_unsent s) t)"
  proof -
    have "pairs_of ?q t = Suc (pairs_of (take i ?q @ drop (Suc i) ?q) t)" using p [of t] by simp
    moreover have "task_ok s t" using inv(2) t by blast
    ultimately show ?thesis by (simp only: task_ok_def)
  qed
  then have ok: "task_ok (launch_job t r False ?s) t"
    using task_inv_global by (simp add: task_ok_def jobs_of_launch js sel del: pairs_of_simps(3))
  have "names_ok (launch_job t r False ?s)"
  proof -
    have "fst ` set (take i ?q @ drop (Suc i) ?q) \<subseteq> fst ` set ?q" by (rule image_mono [OF set_remove])
    then have "\<forall>t \<in> set (de_device s) \<union> fst ` set (take i ?q @ drop (Suc i) ?q) \<union> fst ` set (de_unsent s). t < length (de_tasks s)"
      using inv(1) unfolding names_ok_def by blast
    then show ?thesis using inv(1) t unfolding names_ok_def sel by (auto simp: launch_job_def)
  qed
  moreover have "passes_ok (launch_job t r False ?s)" using inv(3) by (simp add: passes_ok_def sel)
  ultimately have "de_inv (launch_job t r False ?s)"
    using p ok by (intro de_inv_other [OF assms(1) t]) (auto simp: jobs_of_launch js sel)
  then show ?thesis by (simp add: globalCpuThread_turn_def tr)
qed

lemma de_inv_device:
  assumes "documented_engine le" and "de_inv s" and "de_enabled (Device_ev i outcome) s"
  shows "de_inv (device_turn le i outcome s)"
proof -
  let ?d = "de_device s" let ?t = "?d ! i" let ?rest = "take i ?d @ drop (Suc i) ?d"
  have i: "i < length ?d" using assms(3) by simp
  have inv: "names_ok s" "\<forall>t < length (de_tasks s). task_ok s t" "passes_ok s" using assms(2) by (simp_all add: de_inv_def)
  have t: "?t < length (de_tasks s)" using inv(1) nth_mem [OF i] by (simp add: names_ok_def)
  have c: "count_list ?d u = (if u = ?t then 1 else 0) + count_list ?rest u" for u
    using count_remove [OF i, of u] by simp
  have base: "task_inv (de_tasks s ! ?t) (jobs_of s ?t) (Suc (count_list ?rest ?t)) (pairs_of (global_cpu_ready_queue s) ?t) (pairs_of (de_unsent s) ?t)"
  proof -
    have "count_list ?d ?t = Suc (count_list ?rest ?t)" using c [of ?t] by simp
    moreover have "task_ok s ?t" using inv(2) t by blast
    ultimately show ?thesis by (simp only: task_ok_def)
  qed
  note dev = task_inv_device [OF assms(1) base]
  have goal: "de_inv (upd_task ?t f (s\<lparr>de_device := replicate k ?t @ ?rest, global_cpu_ready_queue := global_cpu_ready_queue s @ map (Pair ?t) cs\<rparr>))"
    if "task_inv (f (de_tasks s ! ?t)) (jobs_of s ?t) (k + count_list ?rest ?t) (pairs_of (global_cpu_ready_queue s) ?t + length cs) (pairs_of (de_unsent s) ?t)"
    for f k cs
  proof -
    let ?s = "s\<lparr>de_device := replicate k ?t @ ?rest, global_cpu_ready_queue := global_cpu_ready_queue s @ map (Pair ?t) cs\<rparr>"
    have js: "jobs_of ?s = jobs_of s" by (simp add: jobs_of_def fun_eq_iff)
    have cnt: "count_list (replicate k ?t @ xs) u = (if u = ?t then k else 0) + count_list xs u" for u xs
      by (induction k) auto
    have ok: "task_ok (upd_task ?t f ?s) ?t"
      using that t cnt by (simp add: task_ok_def tasks_upd_task js del: count_list_append)
    have "names_ok (upd_task ?t f ?s)"
      using inv(1) t set_remove [of i ?d] unfolding names_ok_def by auto
    moreover have "passes_ok (upd_task ?t f ?s)" using inv(3) by (simp add: passes_ok_def task_of_def)
    ultimately show ?thesis
      using ok t c cnt by (intro de_inv_other [OF assms(2) t]) (auto simp: tasks_upd_task js)
  qed
  show ?thesis
  proof (cases outcome)
    case (Inl e)
    then show ?thesis using goal [of "le_thread_on_exception le e" 0 "[]"] dev(2) by (simp add: device_turn_def Let_def)
  next
    case (Inr p)
    obtain cs k where p: "p = (cs, k)" by (cases p)
    have "upd_task u (settle le) (upd_task u f s') = upd_task u (\<lambda>x. settle le (f x)) s'" if "u < length (de_tasks s')" for u f and s' :: "'a dist_engine"
      using that by (simp add: upd_task_def)
    then show ?thesis
      using goal [of "\<lambda>x. settle le (add_outstanding (int (length cs) + int k - 1) x)" k cs] dev(1) [of "length cs" k] t
      by (simp add: device_turn_def Let_def Inr p check_completed_settle settle_def)
  qed
qed

subsection \<open>Starting and ending passes\<close>

lemma computeDependencies_cases:
  assumes "computeDependencies ini g task (Some r) retain c = (res, c')"
  shows "(\<exists>e. res = Inl e \<and> c' = c) \<or>
    (\<exists>x outs. res = Inr (x, outs) \<and> c' = c\<lparr>graphTask := Some task\<rparr> \<and> graphTask c = None \<and>
       et_outstanding x = int (length (sendAutogradFunctions c)) \<and>
       \<not> gt_has_error x \<and> \<not> gt_future_completed x)"
  using assms
  by (auto simp: computeDependencies_def setGraphTask_def bindM_def Let_def split: sum.splits prod.splits if_splits)

lemma task_of_update:
  "task_of (s\<lparr>de_contexts := AList.update cid c (de_contexts s)\<rparr>) k = (if k = cid then graphTask c else task_of s k)"
  by (simp add: task_of_def update_conv)

text \<open>A change of a context that keeps its graph task.\<close>

lemma de_inv_context:
  assumes "de_inv s" and "task_of s cid = graphTask c"
  shows "de_inv (s\<lparr>de_contexts := AList.update cid c (de_contexts s)\<rparr>)"
proof -
  let ?s = "s\<lparr>de_contexts := AList.update cid c (de_contexts s)\<rparr>"
  have to: "task_of ?s = task_of s" using assms(2) by (simp add: fun_eq_iff task_of_update)
  have "jobs_of ?s = jobs_of s" by (simp add: jobs_of_def fun_eq_iff)
  then show ?thesis using assms(1) by (simp add: de_inv_def names_ok_def task_ok_def passes_ok_def to)
qed

lemma on_context_keeps:
  assumes "de_inv s" and "on_context cid m s = (res, s')" and "\<And>c r c'. m c = (r, c') \<Longrightarrow> graphTask c' = graphTask c"
  shows "de_inv s' \<and> task_of s' = task_of s \<and> de_jobs s' = de_jobs s \<and> de_tasks s' = de_tasks s \<and> de_unsent s' = de_unsent s \<and>
    initializedContextIds s' = initializedContextIds s"
proof (cases "map_of (de_contexts s) cid")
  case None
  with assms(1,2) show ?thesis by (simp add: on_context_def)
next
  case (Some c)
  obtain r c' where m: "m c = (r, c')" by (cases "m c")
  have s': "s' = s\<lparr>de_contexts := AList.update cid c' (de_contexts s)\<rparr>" using assms(2) Some m by (simp add: on_context_def)
  have t: "task_of s cid = graphTask c'" using assms(3) [OF m] Some by (simp add: task_of_def)
  show ?thesis using de_inv_context [OF assms(1) t] t by (auto simp: s' task_of_update fun_eq_iff)
qed

lemma de_inv_start_pass:
  assumes "de_inv s" and "cid \<notin> set (initializedContextIds s)" and "start_pass ini g cid r retain s = (res, s1)"
  shows "(\<exists>e. res = Inl e \<and> de_inv s1) \<or>
    (\<exists>c x. res = Inr (length (de_tasks s)) \<and> map_of (de_contexts s) cid = Some c \<and>
      s1 = s\<lparr>de_contexts := AList.update cid (c\<lparr>graphTask := Some (length (de_tasks s))\<rparr>) (de_contexts s), de_tasks := de_tasks s @ [x],
        initializedContextIds := cid # initializedContextIds s,
        de_unsent := map (Pair (length (de_tasks s))) (map snd (sendAutogradFunctions c)) @ de_unsent s\<rparr> \<and>
      et_outstanding x = int (length (sendAutogradFunctions c)) \<and> \<not> gt_has_error x \<and> \<not> gt_future_completed x)"
proof (cases "map_of (de_contexts s) cid")
  case None
  then show ?thesis using assms(1,3) by (auto simp: start_pass_def on_context_def Let_def)
next
  case (Some c)
  let ?m = "computeDependencies ini g (length (de_tasks s)) (Some r) retain"
  obtain q c' where m: "?m c = (q, c')" by (cases "?m c")
  from computeDependencies_cases [OF m] show ?thesis
  proof
    assume "\<exists>e. q = Inl e \<and> c' = c"
    then have "res = Inl (projl q) \<and> s1 = s\<lparr>de_contexts := AList.update cid c (de_contexts s)\<rparr>"
      using assms(3) Some m by (auto simp: start_pass_def on_context_def Let_def)
    moreover have "task_of s cid = graphTask c" using Some by (simp add: task_of_def)
    ultimately show ?thesis using de_inv_context [OF assms(1)] by auto
  next
    assume "\<exists>x outs. q = Inr (x, outs) \<and> c' = c\<lparr>graphTask := Some (length (de_tasks s))\<rparr> \<and> graphTask c = None \<and>
       et_outstanding x = int (length (sendAutogradFunctions c)) \<and> \<not> gt_has_error x \<and> \<not> gt_future_completed x"
    then show ?thesis using assms(3) Some m by (auto simp: start_pass_def on_context_def Let_def)
  qed
qed

text \<open>The state after the start of a pass and the launch of its first job.\<close>

lemma de_inv_new_pass:
  assumes "de_inv s" and "cid \<notin> set (initializedContextIds s)"
    and "de_jobs s' = de_jobs s @ [Launched (length (de_tasks s)) fn inc]" and "de_tasks s' = de_tasks s @ [x]"
    and "de_device s' = de_device s" and "global_cpu_ready_queue s' = global_cpu_ready_queue s"
    and "de_unsent s' = map (Pair (length (de_tasks s))) us @ de_unsent s"
    and "initializedContextIds s' = cid # initializedContextIds s"
    and "\<And>k. task_of s' k = (if k = cid then Some (length (de_tasks s)) else task_of s k)"
    and "\<not> gt_has_error x" and "\<not> gt_future_completed x" and "et_outstanding x = int (length us + (if inc then 0 else 1))"
  shows "de_inv s'"
proof -
  let ?n = "length (de_tasks s)"
  have inv: "names_ok s" "\<forall>t < ?n. task_ok s t" "passes_ok s" using assms(1) by (simp_all add: de_inv_def)
  have fresh: "jobs_of s ?n = {#}" "count_list (de_device s) ?n = 0" "pairs_of (global_cpu_ready_queue s) ?n = 0" "pairs_of (de_unsent s) ?n = 0"
    using inv(1) by (auto simp: names_ok_def jobs_of_def filter_empty_conv count_list_0_iff pairs_of_def ball_Un simp flip: mset_filter)
  have js: "jobs_of s' u = (if u = ?n then {#Launched ?n fn inc#} else jobs_of s u)" for u
    using fresh(1) by (auto simp: jobs_of_def assms(3))
  have "task_ok s' u" if "u < Suc ?n" for u
  proof (cases "u = ?n")
    case True
    then show ?thesis using fresh assms(10-12) by (auto simp: task_ok_def js assms(4-7) task_inv_def succeeded_def)
  next
    case False
    then show ?thesis using inv(2) that by (simp add: task_ok_def js assms(4-7) nth_append)
  qed
  moreover have "names_ok s'"
  proof -
    have "\<forall>j \<in> set (de_jobs s). \<forall>t. job_task j = Some t \<longrightarrow> t < Suc ?n" using inv(1) unfolding names_ok_def by (meson less_SucI)
    moreover have "\<forall>t \<in> set (de_device s) \<union> fst ` set (global_cpu_ready_queue s) \<union> fst ` set (de_unsent s). t < Suc ?n"
      using inv(1) unfolding names_ok_def by (meson less_SucI)
    ultimately show ?thesis by (auto simp: names_ok_def assms(3-7) ball_Un)
  qed
  moreover have "passes_ok s'"
  proof -
    have p: "distinct (initializedContextIds s)" "\<forall>cid. cid \<in> set (initializedContextIds s) \<longleftrightarrow> task_of s cid \<noteq> None"
      "\<And>cid t. task_of s cid = Some t \<Longrightarrow> t < ?n" "\<And>cid cid' t. task_of s cid = Some t \<Longrightarrow> task_of s cid' = Some t \<Longrightarrow> cid = cid'"
      using inv(3) unfolding passes_ok_def by blast+
    have "t < Suc ?n" if "task_of s' k = Some t" for k t
      using that p(3) [of k t] by (auto simp: assms(9) split: if_splits)
    moreover have "k = k'" if "task_of s' k = Some t" "task_of s' k' = Some t" for k k' t
      using that p(3) [of k t] p(3) [of k' t] p(4) [of k t k'] by (auto simp: assms(9) split: if_splits)
    moreover have "\<forall>k. k \<in> set (initializedContextIds s') \<longleftrightarrow> task_of s' k \<noteq> None" using p(2) by (simp add: assms(8,9))
    moreover have "distinct (initializedContextIds s')" using p(1) assms(2) by (simp add: assms(8))
    ultimately show ?thesis unfolding passes_ok_def by (simp add: assms(4))
  qed
  ultimately show ?thesis by (simp add: de_inv_def assms(4))
qed

lemma runEngine_result:
  assumes "map_of (de_contexts s) cid = Some c" and "graphTask c = Some t"
  shows "runEngineAndAccumulateGradients cid fn inc s =
    (Inr (), launch_job t fn inc (s\<lparr>de_contexts := AList.update cid (clearOutstandingRpcs c) (AList.update cid (clearOutstandingRpcs c) (de_contexts s))\<rparr>))"
  using assms
  by (simp add: runEngineAndAccumulateGradients_def bindM_def on_context_def retrieveGraphTask_def update_conv clearOutstandingRpcs_def)

lemma de_inv_execute:
  assumes "de_inv s"
  shows "de_inv (snd (engine_execute ini val graph cid roots r retain s))"
proof -
  obtain q s0 where 0: "on_context cid (returnM ()) s = (q, s0)" by (cases "on_context cid (returnM ()) s")
  have k: "de_inv s0" using on_context_keeps [OF assms 0] by auto
  consider e where "q = Inl e" | "q = Inr ()" by (cases q) auto
  then show ?thesis
  proof cases
    case 1
    then show ?thesis using 0 k by (simp add: engine_execute_def bindM_def)
  next
    case 2
    show ?thesis
    proof (cases "validateRootsAndRetrieveEdges val roots")
      case (Inl e)
      then show ?thesis using 0 2 k by (simp add: engine_execute_def bindM_def)
    next
      case (Inr es)
      show ?thesis
      proof (cases "cid \<in> set (initializedContextIds s0)")
        case True
        then show ?thesis using 0 2 k Inr by (simp add: engine_execute_def bindM_def)
      next
        case False
        obtain q1 s1 where 1: "start_pass ini (graph es) cid r retain s0 = (q1, s1)" by (cases "start_pass ini (graph es) cid r retain s0")
        have whole: "engine_execute ini val graph cid roots r retain s =
            (case (q1, s1) of (Inl e, s') \<Rightarrow> (Inl e, s') | (Inr a, s') \<Rightarrow> runEngineAndAccumulateGradients cid r True s')"
          using 0 2 Inr False 1 by (simp add: engine_execute_def bindM_def)
        from de_inv_start_pass [OF k False 1] show ?thesis
        proof (elim disjE exE conjE)
          fix c x
          assume c: "q1 = Inr (length (de_tasks s0))" "map_of (de_contexts s0) cid = Some c"
            and s1: "s1 = s0\<lparr>de_contexts := AList.update cid (c\<lparr>graphTask := Some (length (de_tasks s0))\<rparr>) (de_contexts s0), de_tasks := de_tasks s0 @ [x],
               initializedContextIds := cid # initializedContextIds s0,
               de_unsent := map (Pair (length (de_tasks s0))) (map snd (sendAutogradFunctions c)) @ de_unsent s0\<rparr>"
            and x: "et_outstanding x = int (length (sendAutogradFunctions c))" "\<not> gt_has_error x" "\<not> gt_future_completed x"
          let ?c = "c\<lparr>graphTask := Some (length (de_tasks s0))\<rparr>"
          have r: "runEngineAndAccumulateGradients cid r True s1 = (Inr (), launch_job (length (de_tasks s0)) r True
              (s1\<lparr>de_contexts := AList.update cid (clearOutstandingRpcs ?c) (AList.update cid (clearOutstandingRpcs ?c) (de_contexts s1))\<rparr>))"
            using runEngine_result [of s1 cid ?c] by (simp add: s1 update_conv)
          have "de_inv (snd (runEngineAndAccumulateGradients cid r True s1))"
            unfolding r by (rule de_inv_new_pass [OF k False, where us = "map snd (sendAutogradFunctions c)" and x = x and inc = True])
              (simp_all add: s1 launch_job_def task_of_def update_conv clearOutstandingRpcs_def x)
          then show ?thesis by (simp add: whole c)
        qed (simp add: whole)
      qed
    qed
  qed
qed

lemma remove1_map_Pair: "fn \<in> set fs \<Longrightarrow> remove1 (n, fn) (map (Pair n) fs @ ps) = map (Pair n) (remove1 fn fs) @ ps"
  by (induction fs) auto

lemma pairs_of_remove1: "(t, fn) \<in> set ps \<Longrightarrow> pairs_of ps u = (if u = t then 1 else 0) + pairs_of (remove1 (t, fn) ps) u"
  by (induction ps) auto

lemma de_inv_send:
  assumes "de_inv s" and "de_enabled (Send_ev cid fn r g retain) s"
  shows "de_inv (snd (executeSendFunctionAsync ini g cid fn r retain s))"
proof (cases "cid \<in> set (initializedContextIds s)")
  case True
  have inv: "names_ok s" "\<forall>t < length (de_tasks s). task_ok s t" "passes_ok s" using assms(1) by (simp_all add: de_inv_def)
  then obtain t where t: "task_of s cid = Some t" "t < length (de_tasks s)" using True unfolding passes_ok_def by blast
  then obtain c where c: "map_of (de_contexts s) cid = Some c" "graphTask c = Some t" by (auto simp: task_of_def split: option.splits)
  have u: "(t, fn) \<in> set (de_unsent s)" "\<not> root_pending s t" using assms(2) t(1) by simp_all
  let ?cs = "AList.update cid c (AList.update cid c (de_contexts s))"
  let ?s = "launch_job t fn False s\<lparr>de_contexts := ?cs, de_unsent := remove1 (t, fn) (de_unsent s)\<rparr>"
  have ex: "snd (executeSendFunctionAsync ini g cid fn r retain s) = ?s"
    using True c by (simp add: executeSendFunctionAsync_def bindM_def on_context_def retrieveGraphTask_def launch_job_def update_conv)
  note p = pairs_of_remove1 [OF u(1)]
  have to: "task_of ?s = task_of s" using c by (simp add: fun_eq_iff task_of_def update_conv launch_job_def)
  have js: "jobs_of ?s v = (if v = t then add_mset (Launched t fn False) (jobs_of s v) else jobs_of s v)" for v
    by (simp add: jobs_of_def launch_job_def)
  have sel: "de_tasks ?s = de_tasks s" "de_device ?s = de_device s" "global_cpu_ready_queue ?s = global_cpu_ready_queue s"
    "de_unsent ?s = remove1 (t, fn) (de_unsent s)" by (simp_all add: launch_job_def)
  have "\<forall>j \<in># jobs_of s t. \<not> is_root j"
  proof
    fix j assume "j \<in># jobs_of s t"
    then show "\<not> is_root j" using u(2) by (cases j) (auto simp: jobs_of_def root_pending_def list_ex_iff)
  qed
  moreover have "task_inv (de_tasks s ! t) (jobs_of s t) (count_list (de_device s) t) (pairs_of (global_cpu_ready_queue s) t)
      (Suc (pairs_of (remove1 (t, fn) (de_unsent s)) t))"
  proof -
    have "pairs_of (de_unsent s) t = Suc (pairs_of (remove1 (t, fn) (de_unsent s)) t)" using p [of t] by simp
    moreover have "task_ok s t" using inv(2) t(2) by blast
    ultimately show ?thesis by (simp only: task_ok_def)
  qed
  ultimately have "task_ok ?s t" unfolding task_ok_def js sel using task_inv_send by simp
  moreover have "names_ok ?s"
  proof -
    have "fst ` set (remove1 (t, fn) (de_unsent s)) \<subseteq> fst ` set (de_unsent s)" by (rule image_mono [OF set_remove1_subset])
    moreover have "\<forall>v \<in> set (de_device s) \<union> fst ` set (global_cpu_ready_queue s) \<union> fst ` set (de_unsent s). v < length (de_tasks s)"
      using inv(1) by (simp add: names_ok_def)
    ultimately have "\<forall>v \<in> set (de_device s) \<union> fst ` set (global_cpu_ready_queue s) \<union> fst ` set (remove1 (t, fn) (de_unsent s)). v < length (de_tasks s)"
      by blast
    moreover have "\<forall>j \<in> set (de_jobs ?s). \<forall>v. job_task j = Some v \<longrightarrow> v < length (de_tasks s)"
      using inv(1) t(2) by (simp add: names_ok_def launch_job_def)
    ultimately show ?thesis unfolding names_ok_def sel by blast
  qed
  moreover have "passes_ok ?s" using inv(3) unfolding passes_ok_def to by (simp add: launch_job_def)
  ultimately show ?thesis
    unfolding ex using p by (intro de_inv_other [OF assms(1) t(2)]) (simp_all only: js sel, simp_all)
next
  case False
  obtain q1 s1 where 1: "start_pass ini g cid r retain s = (q1, s1)" by (cases "start_pass ini g cid r retain s")
  from de_inv_start_pass [OF assms(1) False 1] show ?thesis
  proof (elim disjE exE conjE)
    fix e assume "q1 = Inl e" "de_inv s1"
    then show ?thesis using False 1 by (simp add: executeSendFunctionAsync_def bindM_def)
  next
    fix c x
    assume c: "q1 = Inr (length (de_tasks s))" "map_of (de_contexts s) cid = Some c"
      and s1: "s1 = s\<lparr>de_contexts := AList.update cid (c\<lparr>graphTask := Some (length (de_tasks s))\<rparr>) (de_contexts s), de_tasks := de_tasks s @ [x],
         initializedContextIds := cid # initializedContextIds s,
         de_unsent := map (Pair (length (de_tasks s))) (map snd (sendAutogradFunctions c)) @ de_unsent s\<rparr>"
      and x: "et_outstanding x = int (length (sendAutogradFunctions c))" "\<not> gt_has_error x" "\<not> gt_future_completed x"
    let ?n = "length (de_tasks s)" let ?c = "c\<lparr>graphTask := Some ?n\<rparr>" let ?fs = "map snd (sendAutogradFunctions c)"
    have "task_of s cid = None" using assms(1) False unfolding de_inv_def passes_ok_def by blast
    then have fn: "fn \<in> set ?fs" using assms(2) c(2) by simp
    let ?s2 = "launch_job ?n fn False (s1\<lparr>de_contexts := AList.update cid (clearOutstandingRpcs ?c) (AList.update cid (clearOutstandingRpcs ?c) (de_contexts s1))\<rparr>)"
    have r: "runEngineAndAccumulateGradients cid fn False s1 = (Inr (), ?s2)"
      using runEngine_result [of s1 cid ?c] by (simp add: s1 update_conv)
    have c2: "map_of (de_contexts ?s2) cid = Some (clearOutstandingRpcs ?c)" by (simp add: launch_job_def update_conv)
    let ?s3 = "?s2\<lparr>de_contexts := AList.update cid (clearOutstandingRpcs ?c) (de_contexts ?s2), de_unsent := remove1 (?n, fn) (de_unsent ?s2)\<rparr>"
    have ex: "snd (executeSendFunctionAsync ini g cid fn r retain s) = ?s3"
      using False 1 c(1) r c2
      by (simp add: executeSendFunctionAsync_def bindM_def on_context_def retrieveGraphTask_def clearOutstandingRpcs_def)
    have len: "length ?fs = Suc (length (remove1 fn ?fs))" using fn by (simp add: length_remove1) (metis Suc_pred length_pos_if_in_set length_map set_map)
    have "de_unsent ?s3 = map (Pair ?n) (remove1 fn ?fs) @ de_unsent s"
      using remove1_map_Pair [OF fn] by (simp add: launch_job_def s1)
    then show ?thesis
      unfolding ex by (intro de_inv_new_pass [OF assms(1) False, where us = "remove1 fn ?fs" and x = x and inc = False and fn = fn])
        (use x len in \<open>simp_all add: s1 launch_job_def task_of_def update_conv clearOutstandingRpcs_def\<close>)
  qed
qed

lemma de_inv_rpc_failed:
  assumes "de_inv s"
  shows "de_inv (rpc_failed cid e s)"
proof (cases "task_of s cid")
  case None
  then show ?thesis using assms by (auto simp: rpc_failed_def task_of_def split: option.splits)
next
  case (Some t)
  then obtain c where c: "map_of (de_contexts s) cid = Some c" "graphTask c = Some t" by (auto simp: task_of_def split: option.splits)
  have inv: "names_ok s" "\<forall>t < length (de_tasks s). task_ok s t" "passes_ok s" using assms by (simp_all add: de_inv_def)
  have t: "t < length (de_tasks s)" using inv(3) Some unfolding passes_ok_def by blast
  define f where "f = (\<lambda>x :: engine_task. let y = outstandingRpc_callback (Some e) c (graph_task.truncate x)
      in x\<lparr>gt_has_error := gt_has_error y, gt_future_completed := gt_future_completed y, gt_future_result := gt_future_result y\<rparr>)"
  have s': "rpc_failed cid e s = upd_task t f s" using c by (simp add: rpc_failed_def f_def)
  let ?x = "de_tasks s ! t"
  have f: "gt_has_error (f ?x)" "gt_future_completed (f ?x)" "et_outstanding (f ?x) = et_outstanding ?x"
    "succeeded (f ?x) \<Longrightarrow> succeeded ?x"
    using c(2) by (auto simp: f_def outstandingRpc_callback_def Let_def graph_task.truncate_def succeeded_def split: if_splits option.splits)
  have "task_ok s t" using inv(2) t by blast
  then have "task_ok (upd_task t f s) t"
    using task_inv_rpc_failed [OF _ f(2,3,1,4)] t by (simp add: task_ok_def tasks_upd_task)
  moreover have "names_ok (upd_task t f s)" "passes_ok (upd_task t f s)"
    using inv(1,3) by (simp_all add: names_ok_def passes_ok_def)
  ultimately show ?thesis
    unfolding s' using t by (intro de_inv_other [OF assms t]) (simp_all add: tasks_upd_task)
qed

lemma cleanup_result:
  assumes "map_of (de_contexts s) cid = Some c" and "graphTask c = Some t"
  shows "\<exists>s'. cleanupBackwardPass cid s = (Inr (), s') \<and> de_jobs s' = de_jobs s \<and> de_tasks s' = de_tasks s \<and> de_device s' = de_device s \<and>
    global_cpu_ready_queue s' = global_cpu_ready_queue s \<and> de_unsent s' = de_unsent s \<and>
    initializedContextIds s' = removeAll cid (initializedContextIds s) \<and> (\<forall>k. task_of s' k = (if k = cid then None else task_of s k)) \<and>
    de_results s' = de_results s"
  using assms
  by (simp add: cleanupBackwardPass_def bindM_def on_context_def retrieveGraphTask_def update_conv resetGraphTask_def clearOutstandingRpcs_def task_of_def)

lemma finish_result:
  assumes "map_of (de_contexts s) cid = Some c" and "graphTask c = Some t"
  shows "\<exists>s'. finish_pass w n m outcomes cid s = (Inr (), s') \<and> de_jobs s' = de_jobs s \<and> de_tasks s' = de_tasks s \<and> de_device s' = de_device s \<and>
    global_cpu_ready_queue s' = global_cpu_ready_queue s \<and> de_unsent s' = de_unsent s \<and>
    initializedContextIds s' = removeAll cid (initializedContextIds s) \<and> (\<forall>k. task_of s' k = (if k = cid then None else task_of s k)) \<and>
    de_results s' = (cid, let fut = accumulateGradFuture w n m (de_tasks s ! t)
                          in if fut = Completed then ws_future (clearAndWait_run c outcomes) else fut) # de_results s"
proof -
  let ?fut = "accumulateGradFuture w n m (de_tasks s ! t)"
  define s1 where "s1 = s\<lparr>de_contexts := AList.update cid c (de_contexts s)\<rparr>"
  define s2 where "s2 = (if ?fut = Completed then s1\<lparr>de_contexts := AList.update cid c (de_contexts s1)\<rparr> else s1)"
  have c1: "map_of (de_contexts s1) cid = Some c" by (simp add: s1_def update_conv)
  have c2: "map_of (de_contexts s2) cid = Some c" by (simp add: s2_def c1 update_conv)
  obtain s3 where s3: "cleanupBackwardPass cid s2 = (Inr (), s3)" "de_jobs s3 = de_jobs s2" "de_tasks s3 = de_tasks s2" "de_device s3 = de_device s2"
    "global_cpu_ready_queue s3 = global_cpu_ready_queue s2" "de_unsent s3 = de_unsent s2"
    "initializedContextIds s3 = removeAll cid (initializedContextIds s2)" "\<forall>k. task_of s3 k = (if k = cid then None else task_of s2 k)"
    "de_results s3 = de_results s2"
    using cleanup_result [OF c2 assms(2)] by blast
  have "on_context cid retrieveGraphTask s = (Inr t, s1)" using assms by (simp add: on_context_def retrieveGraphTask_def bindM_def s1_def)
  then have "finish_pass w n m outcomes cid s = (Inr (), s3\<lparr>de_results := (cid, if ?fut = Completed then ws_future (clearAndWait_run c outcomes) else ?fut) # de_results s3\<rparr>)"
    using s3(1) c1 by (simp add: finish_pass_def bindM_def on_context_def s1_def s2_def split: if_splits)
  moreover have "task_of s2 k = task_of s k" if "k \<noteq> cid" for k using that by (simp add: task_of_def s1_def s2_def update_conv)
  moreover have "task_of (s3\<lparr>de_results := X\<rparr>) k = task_of s3 k" for X k by (simp add: task_of_def)
  ultimately show ?thesis using s3(2-9) by (auto simp: s1_def s2_def Let_def)
qed

lemma de_inv_passes:
  assumes "de_inv s" and "de_jobs s' = de_jobs s" and "de_tasks s' = de_tasks s" and "de_device s' = de_device s"
    and "global_cpu_ready_queue s' = global_cpu_ready_queue s" and "de_unsent s' = de_unsent s" and "passes_ok s'"
  shows "de_inv s'"
  using assms by (simp add: de_inv_def names_ok_def task_ok_def jobs_of_def)

lemma de_inv_finish:
  assumes "de_inv s" and "de_enabled (Finish_ev cid w n m outcomes) s"
  shows "de_inv (snd (finish_pass w n m outcomes cid s))"
proof -
  obtain t where "task_of s cid = Some t" using assms(2) by (cases "task_of s cid") simp_all
  then obtain c where c: "map_of (de_contexts s) cid = Some c" "graphTask c = Some t" by (auto simp: task_of_def split: option.splits)
  obtain s' where s': "finish_pass w n m outcomes cid s = (Inr (), s')" "de_jobs s' = de_jobs s" "de_tasks s' = de_tasks s" "de_device s' = de_device s"
    "global_cpu_ready_queue s' = global_cpu_ready_queue s" "de_unsent s' = de_unsent s"
    "initializedContextIds s' = removeAll cid (initializedContextIds s)" "\<forall>k. task_of s' k = (if k = cid then None else task_of s k)"
    using finish_result [OF c] by blast
  have "passes_ok s" using assms(1) by (simp add: de_inv_def)
  then have "passes_ok s'" unfolding passes_ok_def s'(3,7) using s'(8) by (auto simp: distinct_removeAll split: if_splits)
  then show ?thesis using de_inv_passes [OF assms(1) s'(2-6)] by (simp add: s'(1))
qed

lemma de_inv_forward:
  assumes "de_inv s" and "de_enabled (Forward_ev cid c) s"
  shows "de_inv (s\<lparr>de_contexts := AList.update cid c (de_contexts s)\<rparr>)"
proof (rule de_inv_context [OF assms(1)])
  show "task_of s cid = graphTask c" using assms by (auto simp: de_inv_def passes_ok_def)
qed

lemmas de_inv_steps = de_inv_start de_inv_turn de_inv_end de_inv_global de_inv_device de_inv_rpc_failed de_inv_execute
  de_inv_send de_inv_finish de_inv_forward

lemma reach_de_inv:
  assumes "documented_engine le"
  shows "de_reach le ini val s \<Longrightarrow> de_inv s"
proof (induction rule: de_reach.induct)
  case de_start
  show ?case by (simp add: de_inv_def names_ok_def passes_ok_def dist_engine_new_def task_of_def)
next
  case (de_step s ev)
  then show ?case using assms by (cases ev) (simp_all add: de_inv_steps del: de_enabled.simps)
qed

section \<open>Properties\<close>

lemma task_parts:
  assumes "jobs_load (jobs_of s t) + count_list (de_device s) t + pairs_of (global_cpu_ready_queue s) t + pairs_of (de_unsent s) t = 0"
  shows "\<forall>j \<in># jobs_of s t. job_load j = 0" and "t \<notin> set (de_device s)"
    and "t \<notin> fst ` set (global_cpu_ready_queue s)" and "t \<notin> fst ` set (de_unsent s)"
proof -
  show "\<forall>j \<in># jobs_of s t. job_load j = 0" using assms by (auto simp: jobs_load_def)
  show "t \<notin> set (de_device s)" using assms by (simp add: count_list_0_iff)
  have "t \<notin> fst ` set ps" if "pairs_of ps t = 0" for ps using that by (auto simp: pairs_of_def filter_empty_conv)
  then show "t \<notin> fst ` set (global_cpu_ready_queue s)" "t \<notin> fst ` set (de_unsent s)" using assms by simp_all
qed

text \<open>
  C7. The result of a backward pass on a worker is reported only when all of it has run: in every
  interleaving of the closures, the global CPU thread, device threads, arriving gradients, failing RPCs
  and other passes, when the future of a graph task has completed without an error, no closure of the
  task has a function left to evaluate, its graph root has run, no queue holds a task of it and every
  send function of the context has received its gradients.
\<close>

theorem dist_pass_reported_when_done:
  assumes "documented_engine le" and "de_reach le ini val s" and "t < length (de_tasks s)" and "succeeded (de_tasks s ! t)"
  shows "(\<forall>j \<in> set (de_jobs s). job_task j = Some t \<longrightarrow> job_load j = 0 \<and> \<not> is_root j) \<and> t \<notin> set (de_device s) \<and>
    t \<notin> fst ` set (global_cpu_ready_queue s) \<and> t \<notin> fst ` set (de_unsent s)"
proof -
  have "task_ok s t" using reach_de_inv [OF assms(1,2)] assms(3) by (simp add: de_inv_def)
  note inv = task_invD [OF this [unfolded task_ok_def]]
  note parts = task_parts [OF inv(3) [OF assms(4)]]
  have "\<forall>j \<in># jobs_of s t. \<not> is_root j" by (rule inv(4) [OF assms(4)])
  with parts show ?thesis by (simp add: jobs_of_def)
qed

text \<open>
  C6. A backward pass never gets stuck: while the future of a graph task is not completed, the task
  waits for the gradients of some send function, or one of its closures exists and can take a step, or
  the global CPU thread or a device thread has a task of it to run. So no interleaving misses the
  check that completes the future.
\<close>

theorem dist_pass_not_stuck:
  assumes "documented_engine le" and "de_reach le ini val s" and "t < length (de_tasks s)" and "\<not> gt_future_completed (de_tasks s ! t)"
  shows "(\<exists>fn. (t, fn) \<in> set (de_unsent s)) \<or>
    (\<exists>j < length (de_jobs s). job_task (de_jobs s ! j) = Some t \<and>
       (de_enabled (Start_ev j) s \<or> (\<exists>i. \<forall>oc. de_enabled (Turn_ev j i oc) s) \<or> de_enabled (End_ev j) s)) \<or>
    (\<exists>i. de_enabled (Global_ev i) s \<and> fst (global_cpu_ready_queue s ! i) = t) \<or>
    (\<exists>i. \<forall>oc. de_enabled (Device_ev i oc) s \<and> de_device s ! i = t)"
proof (cases "t \<in> fst ` set (de_unsent s) \<or> t \<in> fst ` set (global_cpu_ready_queue s) \<or> t \<in> set (de_device s)")
  case True
  then show ?thesis by (auto simp: in_set_conv_nth) (metis fst_conv)+
next
  case False
  have "task_ok s t" using reach_de_inv [OF assms(1,2)] assms(3) by (simp add: de_inv_def)
  note inv = task_invD [OF this [unfolded task_ok_def]]
  have "pairs_of ps t = 0" if "t \<notin> fst ` set ps" for ps using that by (auto simp: pairs_of_def filter_empty_conv image_iff)
  then have z: "pairs_of (de_unsent s) t = 0" "pairs_of (global_cpu_ready_queue s) t = 0" "count_list (de_device s) t = 0"
    using False by (simp_all add: count_list_0_iff)
  have "jobs_of s t \<noteq> {#}" using inv(6) z assms(4) by (auto simp: jobs_load_def)
  then obtain b where "b \<in># jobs_of s t" by blast
  then obtain j where j: "j < length (de_jobs s)" "job_task (de_jobs s ! j) = Some t" by (auto simp: jobs_of_def in_set_conv_nth)
  have "de_enabled (Start_ev j) s \<or> (\<exists>i. \<forall>oc. de_enabled (Turn_ev j i oc) s) \<or> de_enabled (End_ev j) s"
  proof (cases "de_jobs s ! j")
    case (Looping u q)
    then show ?thesis using j(1) by (cases q) auto
  qed (use j in auto)
  with j show ?thesis by blast
qed


subsection \<open>A run\<close>

fun de_schedule ::
    "local_engine \<Rightarrow> (nat list \<Rightarrow> edge list \<Rightarrow> (nat, exec_info) umap) \<Rightarrow> (edge list \<Rightarrow> unit res) \<Rightarrow> 'g engine_event list \<Rightarrow>
     'g dist_engine \<Rightarrow> 'g dist_engine option" where
  "de_schedule le ini val [] s = Some s"
| "de_schedule le ini val (ev # evs) s = (if de_enabled ev s then de_schedule le ini val evs (de_exec le ini val ev s) else None)"

lemma schedule_de_reach: "de_reach le ini val s \<Longrightarrow> de_schedule le ini val evs s = Some s' \<Longrightarrow> de_reach le ini val s'"
proof (induction evs arbitrary: s)
  case (Cons ev evs)
  then have "de_enabled ev s" "de_schedule le ini val evs (de_exec le ini val ev s) = Some s'" by (simp_all split: if_splits)
  then show ?case using Cons.IH de_step [OF Cons.prems(1)] by blast
qed simp

definition example_engine :: local_engine where
  "example_engine = \<lparr>le_completed = (\<lambda>t. et_outstanding t = 0 \<or> gt_has_error t), le_mark_as_completed = (\<lambda>t. t\<lparr>gt_future_completed := True\<rparr>),
     le_thread_on_exception = (\<lambda>e t. t\<lparr>gt_has_error := True, gt_future_completed := True,
       gt_future_result := (if gt_future_completed t then gt_future_result t else Some e)\<rparr>)\<rparr>"

lemma example_engine_documented: "documented_engine example_engine"
  by (simp add: documented_engine_def example_engine_def)

definition example_pass :: "int engine_event list" where
  "example_pass = [Forward_ev 7 example_context, Send_ev 7 4 0 [(4, SendRpcBackward, [\<lparr>e_function = Some 2, e_input_nr = 0\<rparr>]), (2, AccumulateGrad, [])] False,
     Start_ev 0, Turn_ev 0 0 (Inr ([], 0)), End_ev 0]"

lemma example_pass_states:
  "map_option (\<lambda>s. (map gt_future_completed (de_tasks s), map gt_future_result (de_tasks s), initializedContextIds s))
     (de_schedule example_engine (\<lambda>_ _. []) (\<lambda>_. Inr ()) example_pass (dist_engine_new [])) = Some ([True], [None], [7])"
  "map_option (\<lambda>s. (map gt_future_completed (de_tasks s), map gt_future_result (de_tasks s), initializedContextIds s))
     (de_schedule example_engine (\<lambda>_ _. []) (\<lambda>_. Inr ()) (take 2 example_pass) (dist_engine_new [])) = Some ([False], [None], [7])"
  by code_simp+

lemma example_pass_reach:
  assumes "de_schedule example_engine (\<lambda>_ _. []) (\<lambda>_. Inr ()) evs (dist_engine_new []) = Some s"
  shows "de_reach example_engine (\<lambda>_ _. []) (\<lambda>_. Inr ()) s"
  by (rule schedule_de_reach [OF de_start assms])

theorem dist_pass_reported_when_done_witness:
  "\<exists>s. de_schedule example_engine (\<lambda>_ _. []) (\<lambda>_. Inr ()) example_pass (dist_engine_new []) = Some s \<and> 0 \<notin> fst ` set (de_unsent s)"
proof -
  obtain s where s: "de_schedule example_engine (\<lambda>_ _. []) (\<lambda>_. Inr ()) example_pass (dist_engine_new []) = Some s"
    and m: "map gt_future_completed (de_tasks s) = [True]" "map gt_future_result (de_tasks s) = [None]" using example_pass_states(1) by auto
  have "0 < length (de_tasks s)" "succeeded (de_tasks s ! 0)" using m by (auto simp: succeeded_def map_eq_Cons_conv)
  with dist_pass_reported_when_done [OF example_engine_documented example_pass_reach [OF s], of 0] s show ?thesis by blast
qed

theorem dist_pass_not_stuck_witness:
  "\<exists>s. de_schedule example_engine (\<lambda>_ _. []) (\<lambda>_. Inr ()) (take 2 example_pass) (dist_engine_new []) = Some s \<and>
     ((\<exists>fn. (0, fn) \<in> set (de_unsent s)) \<or>
      (\<exists>j < length (de_jobs s). job_task (de_jobs s ! j) = Some 0 \<and>
         (de_enabled (Start_ev j) s \<or> (\<exists>i. \<forall>oc. de_enabled (Turn_ev j i oc) s) \<or> de_enabled (End_ev j) s)) \<or>
      (\<exists>i. de_enabled (Global_ev i) s \<and> fst (global_cpu_ready_queue s ! i) = 0) \<or>
      (\<exists>i. \<forall>oc. de_enabled (Device_ev i oc) s \<and> de_device s ! i = 0))"
proof -
  obtain s where s: "de_schedule example_engine (\<lambda>_ _. []) (\<lambda>_. Inr ()) (take 2 example_pass) (dist_engine_new []) = Some s"
    and m: "map gt_future_completed (de_tasks s) = [False]" using example_pass_states(2) by auto
  have "0 < length (de_tasks s)" "\<not> gt_future_completed (de_tasks s ! 0)" using m by (auto simp: map_eq_Cons_conv)
  with dist_pass_not_stuck [OF example_engine_documented example_pass_reach [OF s], of 0] s show ?thesis by blast
qed


end
