(* ===== verification/RRef_Context.thy ===== *)
theory RRef_Context
  imports C10d_Prelude
begin

text \<open>
  Remote references (\<^verbatim>\<open>rpc/types.cpp\<close>, \<^verbatim>\<open>rref_impl.h/.cpp\<close>,
  \<^verbatim>\<open>rref_context.h/.cpp\<close>): the \<^verbatim>\<open>RRefContext\<close> of one worker. Objects are cells of
  a heap and \<^verbatim>\<open>intrusive_ptr\<close>s are indices into it, because the reference count matters:
  the last strong pointer to a \<^verbatim>\<open>UserRRef\<close> runs \<^verbatim>\<open>release_resources()\<close>, which sends the
  delete message to the owner. Messages handed to \<^verbatim>\<open>RpcAgent::sendWithRetries\<close> are appended
  to an outbox. Types of the script language are not part of this repository: they are numbers,
  and what the code asks of them is the record \<open>type_env\<close>.
\<close>

section \<open>Identifiers\<close>

record gid =
  createdOn :: int
  localId :: int

datatype ivalue = IInt int | IBool bool | IString string | ITensor nat | IDict "(int \<times> int) list" | ITuple "ivalue list" | IOther nat

definition toIValue :: "gid \<Rightarrow> ivalue" where
  "toIValue g = ITuple [IInt (createdOn g), IInt (localId g)]"

definition toInt :: "ivalue \<Rightarrow> int res" where
  "toInt v = (case v of IInt i \<Rightarrow> Inr i | _ \<Rightarrow> Inl (C10_assert ''isInt()''))"

definition fromIValue :: "ivalue \<Rightarrow> gid res" where
  "fromIValue v =
     (case v of
        ITuple vs \<Rightarrow>
          if length vs \<noteq> 2
          then Inl (C10_error ''Constructing GloballyUniqueId from ivalue expects a GenericList of two elements, but got '')
          else bindE (toInt (vs ! 0)) (\<lambda>c.
            if \<not> c \<le> worker_id_max then Inl (C10_error ''GloballyUniqueId createdOn out of range, got '')
            else bindE (toInt (vs ! 1)) (\<lambda>l.
              if \<not> l \<le> int64_max then Inl (C10_error ''GloballyUniqueId localId out of range, got '')
              else Inr \<lparr>createdOn = to_worker_id c, localId = l\<rparr>))
      | _ \<Rightarrow> Inl (C10_assert ''GloballyUniqueId::fromIValue expected ivalue to be a tuple.''))"

section \<open>Objects\<close>

text \<open>
  One record for \<^verbatim>\<open>OwnerRRef\<close> and \<^verbatim>\<open>UserRRef\<close>: the fork id is \<open>None\<close> for an owner.
  \<open>value_future\<close> is the \<^verbatim>\<open>future_\<close> of an owner with the value it holds.
\<close>

record rref =
  ownerId :: int
  rrefId :: gid
  rtype :: nat
  forkId :: "gid option"
  timedOut :: bool
  deletedOnOwner :: bool
  confirmedByOwner :: bool
  value_future :: "(string + nat) option"

definition isOwner :: "rref \<Rightarrow> bool" where
  "isOwner r \<longleftrightarrow> forkId r = None"

definition OwnerRRef :: "int \<Rightarrow> gid \<Rightarrow> nat \<Rightarrow> rref" where
  "OwnerRRef w r t = \<lparr>ownerId = w, rrefId = r, rtype = t, forkId = None, timedOut = False,
     deletedOnOwner = False, confirmedByOwner = True, value_future = None\<rparr>"

definition UserRRef :: "int \<Rightarrow> gid \<Rightarrow> gid \<Rightarrow> nat \<Rightarrow> rref" where
  "UserRRef w r f t = \<lparr>ownerId = w, rrefId = r, rtype = t, forkId = Some f, timedOut = False,
     deletedOnOwner = False, confirmedByOwner = False, value_future = None\<rparr>"

definition timeout_text :: string where
  "timeout_text = ''RRef creation via rpc.remote() timed out, and it is possible that the RRef on the owner node does not exist.''"

definition getValue :: "rref \<Rightarrow> nat res" where
  "getValue r =
     (if timedOut r then Inl (C10_error timeout_text)
      else case value_future r of
             None \<Rightarrow> Inl Blocked
           | Some (Inl e) \<Rightarrow> Inl (Runtime_error e)
           | Some (Inr v) \<Rightarrow> Inr v)"

definition hasValue :: "rref \<Rightarrow> bool" where
  "hasValue r \<longleftrightarrow> value_future r \<noteq> None"

definition setValue :: "nat \<Rightarrow> rref \<Rightarrow> rref res" where
  "setValue v r =
     (if value_future r = None then Inr (r\<lparr>value_future := Some (Inr v)\<rparr>)
      else Inl (C10_assert ''!completed()''))"

definition setErrorIfNeeded :: "string \<Rightarrow> rref \<Rightarrow> rref" where
  "setErrorIfNeeded e r = (if value_future r = None then r\<lparr>value_future := Some (Inl e)\<rparr> else r)"

record type_env =
  tensor_type :: nat
  py_object_type :: nat
  subtype_of_tensor :: "nat \<Rightarrow> bool"
  type_str :: "nat \<Rightarrow> string"

record fork_data =
  fd_owner :: int
  fd_rref :: gid
  fd_fork :: gid
  fd_parent :: int
  fd_type :: string

section \<open>State of the context\<close>

datatype rref_msg =
    RRefUserDelete gid gid
  | RRefForkRequest gid gid
  | RRefChildAccept gid

text \<open>
  A \<^verbatim>\<open>PendingUserState\<close> is shared by \<^verbatim>\<open>pendingUsers_\<close> and by the thread-local
  \<^verbatim>\<open>userTable_\<close>; \<open>ps_waiters\<close> are the callbacks added to its future, as indices of
  \<open>waits\<close>.
\<close>

record pending_user_state =
  ps_rref :: nat
  ps_done :: future
  ps_waiters :: "nat list"

record rref_context =
  self :: int
  known :: "int list"
  nextLocalId :: int
  objs :: "rref list"
  owners :: "(gid, nat) umap"
  pendingOwners :: "(gid, nat) umap"
  ownerFutures :: "nat option list"
  forks :: "(gid, gid list) umap"
  pstates :: "pending_user_state list"
  pendingUsers :: "(gid, nat) umap"
  confirmedUsers :: "(gid, nat) umap"
  pendingChildren :: "(gid, nat) umap"
  numPendingFutures :: int
  destroyed :: bool
  userTable :: "(nat, nat list) umap"
  recording :: "nat list"
  waits :: "(64 word \<times> future) list"
  handlers_this :: "nat option"
  forkRequests :: "(gid \<times> int) list"
  handles :: "nat list"
  outbox :: "(int \<times> rref_msg) list"

definition rref_context_new :: "int \<Rightarrow> int list \<Rightarrow> rref_context" where
  "rref_context_new w ws = \<lparr>self = w, known = ws, nextLocalId = 0, objs = [], owners = [],
     pendingOwners = [], ownerFutures = [], forks = [], pstates = [], pendingUsers = [],
     confirmedUsers = [], pendingChildren = [], numPendingFutures = 0, destroyed = False,
     userTable = [], recording = [], waits = [], handlers_this = None, forkRequests = [],
     handles = [], outbox = []\<rparr>"

text \<open>
  The strong pointers to objects: those the program holds (\<open>handles\<close>), the owners, the pending
  children and the pending user states that are still referred to. \<^verbatim>\<open>confirmedUsers_\<close> holds
  weak pointers, which do not count.
\<close>

definition state_refs :: "rref_context \<Rightarrow> nat list" where
  "state_refs c = map snd (pendingUsers c) @ concat (map snd (userTable c))"

definition strong_refs :: "rref_context \<Rightarrow> nat list" where
  "strong_refs c = handles c @ map snd (owners c) @ map snd (pendingChildren c)
     @ map (\<lambda>i. ps_rref (pstates c ! i)) (state_refs c)"

definition held :: "rref_context \<Rightarrow> nat \<Rightarrow> bool" where
  "held c p \<longleftrightarrow> p \<in> set (strong_refs c)"

definition upd_obj :: "nat \<Rightarrow> (rref \<Rightarrow> rref) \<Rightarrow> rref_context \<Rightarrow> rref_context" where
  "upd_obj p f c = c\<lparr>objs := (objs c)[p := f (objs c ! p)]\<rparr>"

definition make_obj :: "rref \<Rightarrow> (rref_context, nat) cmd" where
  "make_obj r c = (Inr (length (objs c)), c\<lparr>objs := objs c @ [r], handles := length (objs c) # handles c\<rparr>)"

text \<open>
  \<open>++numPendingFutures_\<close>, then \<^verbatim>\<open>agent_->sendWithRetries(agent_->getWorkerInfo(w), m)\<close>, which
  throws when the agent does not know the worker.
\<close>

definition send_counted :: "int \<Rightarrow> rref_msg \<Rightarrow> (rref_context, unit) cmd" where
  "send_counted w m =
     bindM (modifyM (\<lambda>c. c\<lparr>numPendingFutures := numPendingFutures c + 1\<rparr>)) (\<lambda>_.
     bindM (getM known) (\<lambda>ws.
     bindM (checkM (w \<in> set ws) (C10_error ''Unknown destination worker '')) (\<lambda>_.
     modifyM (\<lambda>c. c\<lparr>outbox := outbox c @ [(w, m)]\<rparr>))))"

definition handleException :: "string option \<Rightarrow> unit res" where
  "handleException err = (case err of Some e \<Rightarrow> Inl (Runtime_error e) | None \<Rightarrow> Inr ())"

text \<open>The callback added to the future of each such message.\<close>

definition counted_callback :: "string option \<Rightarrow> (rref_context, unit) cmd" where
  "counted_callback err =
     bindM (liftM (handleException err)) (\<lambda>_.
     modifyM (\<lambda>c. c\<lparr>numPendingFutures := numPendingFutures c - 1\<rparr>))"

section \<open>Deleting users\<close>

definition delUser :: "int \<Rightarrow> gid \<Rightarrow> gid \<Rightarrow> (rref_context, unit) cmd" where
  "delUser owner r f =
     bindM (getM destroyed) (\<lambda>d.
     bindM (if \<not> d then send_counted owner (RRefUserDelete r f) else returnM ()) (\<lambda>_.
     modifyM (\<lambda>c. c\<lparr>confirmedUsers := AList.delete f (confirmedUsers c)\<rparr>)))"

definition tryDel :: "nat \<Rightarrow> rref_context \<Rightarrow> rref_context" where
  "tryDel p c =
     (let r = objs c ! p in
      case forkId r of
        None \<Rightarrow> c
      | Some f \<Rightarrow>
          if deletedOnOwner r then c
          else (case delUser (ownerId r) (rrefId r) f c of
                  (Inr _, c') \<Rightarrow> upd_obj p (\<lambda>o'. o'\<lparr>deletedOnOwner := True\<rparr>) c'
                | (Inl _, c') \<Rightarrow> c'))"

text \<open>A strong pointer to \<open>p\<close> has just been dropped: the last one runs \<^verbatim>\<open>release_resources\<close>.\<close>

definition release_resources :: "nat \<Rightarrow> rref_context \<Rightarrow> rref_context" where
  "release_resources p c = tryDel p c"

definition release :: "nat \<Rightarrow> rref_context \<Rightarrow> rref_context" where
  "release p c = (if held c p then c else release_resources p c)"

definition drop_handle :: "nat \<Rightarrow> rref_context \<Rightarrow> rref_context" where
  "drop_handle p c =
     (if p \<in> set (handles c) then release p (c\<lparr>handles := remove1 p (handles c)\<rparr>) else c)"

section \<open>Creating references\<close>

definition genGloballyUniqueId :: "(rref_context, gid) cmd" where
  "genGloballyUniqueId c =
     (Inr \<lparr>createdOn = self c, localId = nextLocalId c\<rparr>, c\<lparr>nextLocalId := wrap64 (nextLocalId c + 1)\<rparr>)"

definition createUserRRef_ids :: "int \<Rightarrow> gid \<Rightarrow> gid \<Rightarrow> nat \<Rightarrow> (rref_context, nat) cmd" where
  "createUserRRef_ids owner r f t =
     bindM (getM self) (\<lambda>w.
     bindM (checkM (owner \<noteq> w) (C10_error ''RRef owner cannot create user RRef.'')) (\<lambda>_.
     make_obj (UserRRef owner r f t)))"

definition createUserRRef :: "int \<Rightarrow> nat \<Rightarrow> (rref_context, nat) cmd" where
  "createUserRRef owner t =
     bindM (getM self) (\<lambda>w.
     bindM (checkM (owner \<noteq> w) (C10_error ''Cannot create UserRRef on owner.'')) (\<lambda>_.
     bindM genGloballyUniqueId (\<lambda>r.
     bindM genGloballyUniqueId (\<lambda>f.
     createUserRRef_ids owner r f t))))"

definition createOwnerRRef :: "nat \<Rightarrow> (rref_context, nat) cmd" where
  "createOwnerRRef t =
     bindM (getM self) (\<lambda>w.
     bindM genGloballyUniqueId (\<lambda>r.
     make_obj (OwnerRRef w r t)))"

text \<open>The pending future of an owner is completed with the new object and forgotten.\<close>

definition complete_owner :: "gid \<Rightarrow> nat \<Rightarrow> rref_context \<Rightarrow> rref_context" where
  "complete_owner r p c =
     (case map_of (pendingOwners c) r of
        None \<Rightarrow> c
      | Some i \<Rightarrow> c\<lparr>ownerFutures := (ownerFutures c)[i := Some p],
                   pendingOwners := AList.delete r (pendingOwners c)\<rparr>)"

definition add_handle :: "nat \<Rightarrow> rref_context \<Rightarrow> rref_context" where
  "add_handle p c = c\<lparr>handles := p # handles c\<rparr>"

definition getOrCreateOwnerRRef :: "type_env \<Rightarrow> gid \<Rightarrow> nat \<Rightarrow> (rref_context, nat) cmd" where
  "getOrCreateOwnerRRef te r t =
     bindM (getM (\<lambda>c. map_of (owners c) r)) (\<lambda>found.
       case found of
         None \<Rightarrow>
           bindM (getM self) (\<lambda>w.
           bindM (make_obj (OwnerRRef w r t)) (\<lambda>p.
           bindM (modifyM (\<lambda>c. complete_owner r p (c\<lparr>owners := AList.update r p (owners c)\<rparr>))) (\<lambda>_.
           returnM p)))
       | Some p \<Rightarrow>
           bindM (getM (\<lambda>c. rtype (objs c ! p))) (\<lambda>ot.
           bindM (if t = tensor_type te
                  then checkM (subtype_of_tensor te ot) (C10_assert ''Expect OwnerRRef to be a sub-type of TensorType, but got '')
                  else checkM (ot = t) (C10_assert ''OwnerRRef type is '')) (\<lambda>_.
           bindM (modifyM (add_handle p)) (\<lambda>_.
           returnM p))))"

definition getOrCreateRRef :: "type_env \<Rightarrow> fork_data \<Rightarrow> nat \<Rightarrow> (rref_context, nat) cmd" where
  "getOrCreateRRef te fd t =
     bindM (getM self) (\<lambda>w.
       if fd_owner fd = w then getOrCreateOwnerRRef te (fd_rref fd) t
       else createUserRRef_ids (fd_owner fd) (fd_rref fd) (fd_fork fd) t)"

text \<open>
  The result is the future: \<open>Inr i\<close> the pending one with index \<open>i\<close>, \<open>Inl p\<close> a completed one.
\<close>

definition getOwnerRRef :: "gid \<Rightarrow> bool \<Rightarrow> (rref_context, nat + nat) cmd" where
  "getOwnerRRef r forceCreated =
     bindM (getM (\<lambda>c. map_of (owners c) r)) (\<lambda>found.
       case found of
         None \<Rightarrow>
           bindM (checkM (\<not> forceCreated) (C10_assert ''Expected OwnerRRef with id '')) (\<lambda>_.
           bindM (getM (\<lambda>c. map_of (pendingOwners c) r)) (\<lambda>pend.
             case pend of
               None \<Rightarrow>
                 bindM (getM (\<lambda>c. length (ownerFutures c))) (\<lambda>i.
                 bindM (modifyM (\<lambda>c. c\<lparr>ownerFutures := ownerFutures c @ [None],
                                       pendingOwners := AList.update r i (pendingOwners c)\<rparr>)) (\<lambda>_.
                 returnM (Inr i)))
             | Some i \<Rightarrow> returnM (Inr i)))
       | Some p \<Rightarrow> returnM (Inl p))"

section \<open>Forks known to the owner\<close>

definition forks_of :: "rref_context \<Rightarrow> gid \<Rightarrow> gid list" where
  "forks_of c r = umap_at [] (forks c) r"

definition insert_fork :: "gid \<Rightarrow> gid \<Rightarrow> rref_context \<Rightarrow> rref_context" where
  "insert_fork r f c = c\<lparr>forks := AList.update r (List.insert f (forks_of c r)) (forks c)\<rparr>"

text \<open>\<^verbatim>\<open>forks_[rrefId]\<close> creates the entry, also when the assertion after it fails.\<close>

definition touch_forks :: "gid \<Rightarrow> rref_context \<Rightarrow> rref_context" where
  "touch_forks r c = c\<lparr>forks := AList.update r (forks_of c r) (forks c)\<rparr>"

definition addSelfAsFork :: "nat \<Rightarrow> (rref_context, unit) cmd" where
  "addSelfAsFork p =
     bindM (getM (\<lambda>c. rrefId (objs c ! p))) (\<lambda>r.
     bindM (modifyM (\<lambda>c. touch_forks r (c\<lparr>owners := AList.update r p (owners c)\<rparr>))) (\<lambda>_.
     bindM (getM (\<lambda>c. forks_of c r)) (\<lambda>fs.
     bindM (checkM (r \<notin> set fs) (C10_assert ''Attempt to add self as fork twice '')) (\<lambda>_.
     modifyM (insert_fork r r)))))"

definition addForkOfOwner :: "gid \<Rightarrow> gid \<Rightarrow> (rref_context, unit) cmd" where
  "addForkOfOwner r f =
     bindM (modifyM (touch_forks r)) (\<lambda>_.
     bindM (getM (\<lambda>c. forks_of c r)) (\<lambda>fs.
     bindM (checkM (f \<notin> set fs) (C10_assert ''Got fork notification twice on the same RRef '')) (\<lambda>_.
     modifyM (insert_fork r f))))"

definition addForkOfOwnerIfNotPresent :: "gid \<Rightarrow> gid \<Rightarrow> rref_context \<Rightarrow> rref_context" where
  "addForkOfOwnerIfNotPresent r f c =
     (let c1 = touch_forks r c in if f \<notin> set (forks_of c1 r) then insert_fork r f c1 else c1)"

text \<open>The result is the owner that was taken out of \<^verbatim>\<open>owners_\<close>, if any.\<close>

definition delForkOfOwner :: "gid \<Rightarrow> gid \<Rightarrow> rref_context \<Rightarrow> nat option \<times> rref_context" where
  "delForkOfOwner r f c =
     (case map_of (forks c) r of
        None \<Rightarrow> (None, c)
      | Some fs \<Rightarrow>
          (let fs' = (if f \<in> set fs then removeAll f fs else fs);
               c1 = c\<lparr>forks := AList.update r fs' (forks c)\<rparr>
           in if fs' = []
              then (map_of (owners c1) r,
                    c1\<lparr>owners := AList.delete r (owners c1), forks := AList.delete r (forks c1)\<rparr>)
              else (None, c1)))"

section \<open>Forking\<close>

definition fork :: "type_env \<Rightarrow> nat \<Rightarrow> (rref_context, fork_data) cmd" where
  "fork te p =
     bindM (getM (\<lambda>c. objs c ! p)) (\<lambda>r.
     bindM (checkM (isOwner r \<or> \<not> deletedOnOwner r) (C10_error '' has been deleted. Cannot call fork an UserRRef after deletion.'')) (\<lambda>_.
     bindM genGloballyUniqueId (\<lambda>f.
     bindM (getM self) (\<lambda>w.
     returnM \<lparr>fd_owner = ownerId r, fd_rref = rrefId r, fd_fork = f, fd_parent = w, fd_type = type_str te (rtype r)\<rparr>))))"

definition addPendingChild :: "gid \<Rightarrow> nat \<Rightarrow> (rref_context, unit) cmd" where
  "addPendingChild f p =
     bindM (getM (\<lambda>c. objs c ! p)) (\<lambda>r.
     bindM (checkM (\<not> isOwner r) (C10_assert ''OwnerRRef should not have a pending child.'')) (\<lambda>_.
     bindM (getM (\<lambda>c. map_of (pendingChildren c) f)) (\<lambda>old.
     bindM (checkM (old = None) (C10_assert ''Inconsistent states: attempt to add the same child fork twice.'')) (\<lambda>_.
     modifyM (\<lambda>c. c\<lparr>pendingChildren := AList.update f p (pendingChildren c)\<rparr>)))))"

definition delPendingChild :: "gid \<Rightarrow> rref_context \<Rightarrow> rref_context" where
  "delPendingChild f c =
     (case map_of (pendingChildren c) f of
        None \<Rightarrow> c
      | Some p \<Rightarrow> release p (c\<lparr>pendingChildren := AList.delete f (pendingChildren c)\<rparr>))"

definition prepareChildFork :: "type_env \<Rightarrow> nat \<Rightarrow> (rref_context, fork_data) cmd" where
  "prepareChildFork te p =
     bindM (getM (\<lambda>c. objs c ! p)) (\<lambda>r.
     bindM (checkM (\<not> timedOut r) (C10_error timeout_text)) (\<lambda>_.
     bindM (fork te p) (\<lambda>fd.
     bindM (if isOwner r
            then bindM (addForkOfOwner (fd_rref fd) (fd_fork fd)) (\<lambda>_.
                 modifyM (\<lambda>c. c\<lparr>owners := AList.update (rrefId r) p (owners c)\<rparr>))
            else addPendingChild (fd_fork fd) p) (\<lambda>_.
     returnM fd))))"

section \<open>Pending users\<close>

definition thread_table :: "rref_context \<Rightarrow> nat \<Rightarrow> nat list" where
  "thread_table c t = umap_at [] (userTable c) t"

definition addPendingUser :: "nat \<Rightarrow> gid \<Rightarrow> nat \<Rightarrow> (rref_context, unit) cmd" where
  "addPendingUser t f p =
     bindM (getM (\<lambda>c. objs c ! p)) (\<lambda>r.
     bindM (checkM (\<not> isOwner r) (C10_assert ''Attempt to add an OwnerRRef as a pending User.'')) (\<lambda>_.
     bindM (getM (\<lambda>c. length (pstates c))) (\<lambda>st.
     bindM (modifyM (\<lambda>c. c\<lparr>pstates := pstates c @ [\<lparr>ps_rref = p, ps_done = Pending, ps_waiters = []\<rparr>]\<rparr>)) (\<lambda>_.
     bindM (modifyM (\<lambda>c. if t \<in> set (recording c)
              then c\<lparr>userTable := AList.update t (thread_table c t @ [st]) (userTable c)\<rparr> else c)) (\<lambda>_.
     bindM (getM (\<lambda>c. map_of (pendingUsers c) f)) (\<lambda>old.
     bindM (checkM (old = None) (C10_assert ''Inconsistent states: attempt to add the same UserRRef twice.'')) (\<lambda>_.
     modifyM (\<lambda>c. c\<lparr>pendingUsers := AList.update f st (pendingUsers c)\<rparr>))))))))"

text \<open>\<^verbatim>\<open>emplace\<close> keeps an entry that is there.\<close>

definition addConfirmedUser :: "gid \<Rightarrow> nat \<Rightarrow> rref_context \<Rightarrow> rref_context" where
  "addConfirmedUser f p c =
     (if umap_has (confirmedUsers c) f then c else c\<lparr>confirmedUsers := AList.update f p (confirmedUsers c)\<rparr>)"

text \<open>The callback of \<^verbatim>\<open>waitForThreadLocalPendingRRefs\<close> on one confirmed user.\<close>

definition wait_callback :: "nat \<Rightarrow> rref_context \<Rightarrow> rref_context" where
  "wait_callback w c =
     (let (remaining, fut) = waits c ! w
      in c\<lparr>waits := (waits c)[w := (remaining - 1, if remaining = 1 then markCompleted fut else fut)]\<rparr>)"

definition confirm :: "nat \<Rightarrow> rref_context \<Rightarrow> rref_context" where
  "confirm st c =
     (let ps = pstates c ! st;
          c1 = upd_obj (ps_rref ps) (\<lambda>r. r\<lparr>confirmedByOwner := True\<rparr>) c;
          c2 = c1\<lparr>pstates := (pstates c1)[st := ps\<lparr>ps_done := markCompleted (ps_done ps), ps_waiters := []\<rparr>]\<rparr>
      in fold wait_callback (ps_waiters ps) c2)"

definition delPendingUser :: "gid \<Rightarrow> (rref_context, unit) cmd" where
  "delPendingUser f =
     bindM (getM (\<lambda>c. map_of (pendingUsers c) f)) (\<lambda>found.
       case found of
         None \<Rightarrow> throwM (C10_assert ''Inconsistent states: attempt to delete a non-exist UserRRef.'')
       | Some st \<Rightarrow>
           bindM (getM (\<lambda>c. ps_rref (pstates c ! st))) (\<lambda>p.
           modifyM (\<lambda>c.
             let c1 = addConfirmedUser f p c;
                 c2 = c1\<lparr>pendingUsers := AList.delete f (pendingUsers c1)\<rparr>
             in release p (confirm st c2))))"

definition getPendingUser :: "gid \<Rightarrow> (rref_context, nat) cmd" where
  "getPendingUser f =
     bindM (getM (\<lambda>c. map_of (pendingUsers c) f)) (\<lambda>found.
       case found of
         None \<Rightarrow> throwM (C10_assert ''Pending user with forkId '')
       | Some st \<Rightarrow> getM (\<lambda>c. ps_rref (pstates c ! st)))"

definition recordThreadLocalPendingRRefs :: "nat \<Rightarrow> (rref_context, unit) cmd" where
  "recordThreadLocalPendingRRefs t =
     bindM (getM (\<lambda>c. thread_table c t)) (\<lambda>tab.
     bindM (checkM (tab = []) (C10_assert ''User RRef Table should be empty when start recording'')) (\<lambda>_.
     modifyM (\<lambda>c. c\<lparr>recording := List.insert t (recording c)\<rparr>)))"

text \<open>
  \<^verbatim>\<open>addCallback\<close> on the future of a state: it runs at once when the future is completed.
\<close>

definition add_wait :: "nat \<Rightarrow> nat \<Rightarrow> rref_context \<Rightarrow> rref_context" where
  "add_wait w st c =
     (let ps = pstates c ! st
      in if ps_done ps = Pending
         then c\<lparr>pstates := (pstates c)[st := ps\<lparr>ps_waiters := ps_waiters ps @ [w]\<rparr>]\<rparr>
         else wait_callback w c)"

definition clear_table :: "nat \<Rightarrow> rref_context \<Rightarrow> rref_context" where
  "clear_table t c =
     (let ps = remdups (map (\<lambda>i. ps_rref (pstates c ! i)) (thread_table c t))
      in fold release ps (c\<lparr>userTable := AList.update t [] (userTable c)\<rparr>))"

text \<open>The result is the index of the returned future in \<open>waits\<close>.\<close>

definition waitForThreadLocalPendingRRefs :: "nat \<Rightarrow> rref_context \<Rightarrow> nat \<times> rref_context" where
  "waitForThreadLocalPendingRRefs t c =
     (let w = length (waits c); tab = thread_table c t;
          c1 = (if tab = [] then c\<lparr>waits := waits c @ [(0, Completed)]\<rparr>
                else clear_table t (fold (add_wait w) tab (c\<lparr>waits := waits c @ [(word_of_nat (length tab), Pending)]\<rparr>)))
      in (w, c1\<lparr>recording := removeAll t (recording c1)\<rparr>))"

definition clearRecordedPendingRRefsOnError :: "nat \<Rightarrow> rref_context \<Rightarrow> rref_context" where
  "clearRecordedPendingRRefsOnError t c =
     (let c1 = clear_table t c in c1\<lparr>recording := removeAll t (recording c1)\<rparr>)"

section \<open>Notifying owner and parent\<close>

text \<open>
  \<open>forkRequests\<close> holds the callbacks on the futures of \<^verbatim>\<open>RREF_FORK_REQUEST\<close> messages that have
  not been answered. A future is completed once, however often its message was sent.
\<close>

definition notifyOwnerAndParentOfFork :: "nat \<Rightarrow> gid \<Rightarrow> int \<Rightarrow> nat \<Rightarrow> (rref_context, unit) cmd" where
  "notifyOwnerAndParentOfFork t f parent p =
     bindM (getM (\<lambda>c. objs c ! p)) (\<lambda>r.
     bindM (getM self) (\<lambda>w.
       if parent = ownerId r then
         if parent = w then
           (\<lambda>c. case delForkOfOwner (rrefId r) f c of
                  (None, c') \<Rightarrow> (Inr (), c')
                | (Some q, c') \<Rightarrow>
                    checkM (rrefId (objs c' ! q) = rrefId r) (C10_assert ''Deleting a fork of '') c')
         else modifyM (addConfirmedUser f p)
       else if isOwner r then send_counted parent (RRefChildAccept f)
       else
         bindM (send_counted (ownerId r) (RRefForkRequest (rrefId r) f)) (\<lambda>_.
         bindM (addPendingUser t f p) (\<lambda>_.
         modifyM (\<lambda>c. c\<lparr>forkRequests := forkRequests c @ [(f, parent)]\<rparr>)))))"

definition finishForkRequest :: "gid \<Rightarrow> int \<Rightarrow> (rref_context, unit) cmd" where
  "finishForkRequest f parent =
     bindM (delPendingUser f) (\<lambda>_.
     send_counted parent (RRefChildAccept f))"

text \<open>The callback on the future of a \<^verbatim>\<open>RREF_FORK_REQUEST\<close>; \<open>err\<close> is the error it failed with.\<close>

definition forkRequest_callback :: "string option \<Rightarrow> gid \<Rightarrow> int \<Rightarrow> (rref_context, unit) cmd" where
  "forkRequest_callback err f parent =
     bindM (liftM (handleException err)) (\<lambda>_.
     bindM (finishForkRequest f parent) (\<lambda>_.
     modifyM (\<lambda>c. c\<lparr>numPendingFutures := numPendingFutures c - 1\<rparr>)))"

section \<open>Completion of remote calls\<close>

datatype RPCErrorType = UNKNOWN_ERROR | TIMEOUT | INTENTIONAL_FAILURE

text \<open>
  The table of handlers is a \<^verbatim>\<open>static\<close> local variable of \<^verbatim>\<open>RRef::handleError\<close> whose closures
  capture \<^verbatim>\<open>this\<close>: it is built by the first call, with the object of that call.
\<close>

definition handleError :: "nat \<Rightarrow> RPCErrorType \<Rightarrow> string \<Rightarrow> (rref_context, unit) cmd" where
  "handleError p et msg =
     bindM (modifyM (\<lambda>c. if handlers_this c = None then c\<lparr>handlers_this := Some p\<rparr> else c)) (\<lambda>_.
       case et of
         UNKNOWN_ERROR \<Rightarrow> liftM (handleException (Some msg))
       | _ \<Rightarrow> modifyM (\<lambda>c. upd_obj (the (handlers_this c)) (\<lambda>r. r\<lparr>timedOut := True\<rparr>) c))"

text \<open>The outcome of a remote call: its error, or the identifiers of its \<^verbatim>\<open>RemoteRet\<close>.\<close>

type_synonym remote_result = "(RPCErrorType \<times> string) + (gid \<times> gid)"

definition confirmPendingUser :: "remote_result \<Rightarrow> gid \<Rightarrow> (rref_context, unit) cmd" where
  "confirmPendingUser res expected =
     bindM (case res of
              Inr (r, f) \<Rightarrow> checkM (f = expected) (C10_assert ''rr->forkId() == expectedForkId'')
            | Inl (et, msg) \<Rightarrow> bindM (getPendingUser expected) (\<lambda>p. handleError p et msg)) (\<lambda>_.
     delPendingUser expected)"

definition finishCreatingOwnerRRef :: "remote_result \<Rightarrow> gid \<Rightarrow> (rref_context, nat option) cmd" where
  "finishCreatingOwnerRRef res r =
     (case res of
        Inl (et, msg) \<Rightarrow>
          bindM (getOwnerRRef r True) (\<lambda>fut.
            case fut of
              Inr _ \<Rightarrow> throwM Blocked
            | Inl p \<Rightarrow>
                bindM (handleError p et msg) (\<lambda>_.
                bindM (getM (\<lambda>c. rrefId (objs c ! p))) (\<lambda>r'.
                (\<lambda>c. case delForkOfOwner r' r' c of (d, c') \<Rightarrow> (Inr d, c')))))
      | Inr (r', f) \<Rightarrow>
          bindM (checkM (r' = f) (C10_assert ''Expecting an OwnerRRef as RemoteRet but got a fork.'')) (\<lambda>_.
          (\<lambda>c. case delForkOfOwner r' r' c of (d, c') \<Rightarrow> (Inr d, c'))))"

section \<open>Shutdown\<close>

definition no_pending :: "rref_context \<Rightarrow> bool" where
  "no_pending c \<longleftrightarrow> length (pendingUsers c) = 0 \<and> length (pendingChildren c) = 0"

text \<open>
  \<^verbatim>\<open>delAllUsersAndUnforkedOwners\<close> waits for \<open>no_pending\<close> or its timeout, does the sweep, then
  waits for \<open>no_owner\<close> or its timeout. A weak pointer locks when the object is still held.
\<close>

definition del_confirmed :: "rref_context \<Rightarrow> rref_context" where
  "del_confirmed c =
     fold (\<lambda>(f, p) c'. if held c' p then tryDel p c' else c') (confirmedUsers c) (c\<lparr>confirmedUsers := []\<rparr>)"

definition del_unforked :: "rref_context \<Rightarrow> rref_context" where
  "del_unforked c = c\<lparr>owners := filter (\<lambda>(r, p). umap_has (forks c) r) (owners c)\<rparr>"

definition delAllUsersAndUnforkedOwners_sweep :: "rref_context \<Rightarrow> rref_context" where
  "delAllUsersAndUnforkedOwners_sweep c = del_unforked (del_confirmed c)"

definition no_owner :: "rref_context \<Rightarrow> bool" where
  "no_owner c \<longleftrightarrow> length (owners c) = 0"

definition checkRRefLeaks :: "bool \<Rightarrow> rref_context \<Rightarrow> unit res" where
  "checkRRefLeaks ignoreRRefLeak c =
     (if forks c \<noteq> [] \<and> \<not> ignoreRRefLeak then Inl (C10_error ''Leaking RRef '') else Inr ())"

definition destroyInstance :: "type_env \<Rightarrow> bool \<Rightarrow> (rref_context, nat list) cmd" where
  "destroyInstance te ignoreRRefLeak =
     bindM (modifyM (\<lambda>c. c\<lparr>destroyed := True\<rparr>)) (\<lambda>_.
     bindM (getM (checkRRefLeaks ignoreRRefLeak)) (\<lambda>ok.
     bindM (liftM ok) (\<lambda>_.
     bindM (getM (\<lambda>c. filter (\<lambda>p. rtype (objs c ! p) = py_object_type te) (map snd (owners c)))) (\<lambda>deleted.
     bindM (modifyM (\<lambda>c. c\<lparr>owners := [], pendingOwners := []\<rparr>)) (\<lambda>_.
     returnM deleted)))))"

definition getDebugInfo :: "rref_context \<Rightarrow> (string, string) umap" where
  "getDebugInfo c =
     [(''num_owner_rrefs'', to_string (int (length (owners c)))),
      (''num_pending_futures'', to_string (numPendingFutures c)),
      (''num_pending_users'', to_string (int (length (pendingUsers c)))),
      (''num_forks'', to_string (sint (word_of_nat (sum_list (map (length \<circ> snd) (forks c))) :: 32 word)))]"

section \<open>Handlers of the messages\<close>

text \<open>
  \<^verbatim>\<open>RequestCallbackNoPython::handleRRefDelete\<close> reads the type of the deleted reference, also when
  nothing was deleted and the pointer is null.
\<close>

definition handleRRefDelete :: "type_env \<Rightarrow> nat option \<Rightarrow> (rref_context, unit) cmd" where
  "handleRRefDelete te deleted =
     (case deleted of
        None \<Rightarrow> throwM Undefined
      | Some p \<Rightarrow> bindM (getM (\<lambda>c. rtype (objs c ! p))) (\<lambda>t.
          checkM (t \<noteq> py_object_type te) (C10_error ''RRefs with python objects not supported!'')))"

text \<open>\<^verbatim>\<open>RequestCallbackImpl::handleRRefDelete\<close> drops the pointer to a Python object under the lock.\<close>

definition handleRRefDelete_py :: "nat option \<Rightarrow> (rref_context, unit) cmd" where
  "handleRRefDelete_py deleted = returnM ()"

definition processRRefUserDelete ::
    "(nat option \<Rightarrow> (rref_context, unit) cmd) \<Rightarrow> gid \<Rightarrow> gid \<Rightarrow> (rref_context, unit) cmd" where
  "processRRefUserDelete handle r f =
     (\<lambda>c. case delForkOfOwner r f c of (deleted, c') \<Rightarrow> handle deleted c')"

definition processRRefChildAccept :: "gid \<Rightarrow> (rref_context, unit) cmd" where
  "processRRefChildAccept f = modifyM (delPendingChild f)"

definition processRRefForkRequest :: "gid \<Rightarrow> gid \<Rightarrow> (rref_context, unit) cmd" where
  "processRRefForkRequest r f = modifyM (addForkOfOwnerIfNotPresent r f)"

section \<open>What releasing an object touches\<close>

text \<open>
  Releasing an object sends at most one delete message, drops the weak pointer and sets the
  \<^verbatim>\<open>deletedOnOwner_\<close> flag; every other member stays as it was.
\<close>

named_theorems rref_frame \<open>members an operation of the context leaves alone\<close>

definition rest_of where
  "rest_of c = (self c, known c, nextLocalId c, owners c, pendingOwners c, ownerFutures c, forks c,
     pstates c, pendingUsers c, pendingChildren c, destroyed c, userTable c, recording c, waits c,
     forkRequests c, handles c)"

lemma rest_of_eqD:
  assumes "rest_of c' = rest_of c"
  shows "self c' = self c" "known c' = known c" "nextLocalId c' = nextLocalId c" "owners c' = owners c"
    "pendingOwners c' = pendingOwners c" "ownerFutures c' = ownerFutures c" "forks c' = forks c"
    "pstates c' = pstates c" "pendingUsers c' = pendingUsers c" "pendingChildren c' = pendingChildren c"
    "destroyed c' = destroyed c" "userTable c' = userTable c" "recording c' = recording c"
    "waits c' = waits c" "forkRequests c' = forkRequests c" "handles c' = handles c"
  using assms by (simp_all add: rest_of_def)

lemma rest_of_delUser: "rest_of (snd (delUser w r f c)) = rest_of c"
  by (simp add: delUser_def send_counted_def bindM_def rest_of_def)

lemma rest_of_tryDel [simp]: "rest_of (tryDel p c) = rest_of c"
  using rest_of_delUser [of "ownerId (objs c ! p)" "rrefId (objs c ! p)" "the (forkId (objs c ! p))" c]
  by (auto simp: tryDel_def Let_def upd_obj_def rest_of_def split: option.split prod.split sum.split)

lemma rest_of_release [simp]: "rest_of (release p c) = rest_of c"
  by (simp add: release_def release_resources_def)

lemma rest_of_fold_release [simp]: "rest_of (fold release ps c) = rest_of c"
  by (induction ps arbitrary: c) simp_all

lemmas release_frame [simp, rref_frame] = rest_of_eqD [OF rest_of_release]
lemmas tryDel_frame [simp, rref_frame] = rest_of_eqD [OF rest_of_tryDel]
lemmas fold_release_frame [simp, rref_frame] = rest_of_eqD [OF rest_of_fold_release]

section \<open>Forks of an owner\<close>

lemma forks_of_update [simp]:
  "forks_of (c\<lparr>forks := AList.update r fs m\<rparr>) r' = (if r' = r then fs else umap_at [] m r')"
  by (simp add: forks_of_def)

lemma set_forks_of_add [simp]:
  "set (forks_of (addForkOfOwnerIfNotPresent r f c) r') = (if r' = r then insert f (set (forks_of c r)) else set (forks_of c r'))"
  by (auto simp: addForkOfOwnerIfNotPresent_def touch_forks_def insert_fork_def Let_def forks_of_def umap_at_def)

lemma delForkOfOwner_cases:
  obtains (absent) "map_of (forks c) r = None" "delForkOfOwner r f c = (None, c)"
  | (last) fs where "map_of (forks c) r = Some fs" "set fs \<subseteq> {f}"
      "delForkOfOwner r f c = (map_of (owners c) r,
         c\<lparr>forks := AList.delete r (AList.update r [] (forks c)), owners := AList.delete r (owners c)\<rparr>)"
  | (others) fs where "map_of (forks c) r = Some fs" "\<not> set fs \<subseteq> {f}"
      "delForkOfOwner r f c = (None, c\<lparr>forks := AList.update r (removeAll f fs) (forks c)\<rparr>)"
proof (cases "map_of (forks c) r")
  case None
  with absent show thesis by (simp add: delForkOfOwner_def)
next
  case (Some fs)
  have ra: "(if f \<in> set fs then removeAll f fs else fs) = removeAll f fs" by simp
  have emp: "removeAll f fs = [] \<longleftrightarrow> set fs \<subseteq> {f}" by (induction fs) auto
  show thesis
  proof (cases "set fs \<subseteq> {f}")
    case True
    with Some ra emp show thesis by (intro last [OF Some True]) (simp add: delForkOfOwner_def Let_def)
  next
    case False
    with Some ra emp show thesis by (intro others [OF Some False]) (simp add: delForkOfOwner_def Let_def)
  qed
qed

lemma delForkOfOwner_effect:
  assumes "delForkOfOwner r f c = (d, c')"
  shows "set (forks_of c' r) = set (forks_of c r) - {f}
    \<and> (\<forall>r'. r' \<noteq> r \<longrightarrow> map_of (forks c') r' = map_of (forks c) r' \<and> map_of (owners c') r' = map_of (owners c) r')
    \<and> map_of (owners c') r = (if umap_has (forks c) r \<and> set (forks_of c r) \<subseteq> {f} then None else map_of (owners c) r)
    \<and> d = (if umap_has (forks c) r \<and> set (forks_of c r) \<subseteq> {f} then map_of (owners c) r else None)"
proof (cases rule: delForkOfOwner_cases [of c r f])
  case absent
  with assms show ?thesis by (simp add: forks_of_def umap_at_def)
next
  case (last fs)
  with assms have c': "c' = c\<lparr>forks := AList.delete r (AList.update r [] (forks c)), owners := AList.delete r (owners c)\<rparr>"
    and d: "d = map_of (owners c) r" by simp_all
  from last(1,2) show ?thesis unfolding c' d by (simp add: forks_of_def umap_at_def)
next
  case (others fs)
  with assms have c': "c' = c\<lparr>forks := AList.update r (removeAll f fs) (forks c)\<rparr>" and d: "d = None" by simp_all
  from others(1,2) show ?thesis unfolding c' d by (simp add: forks_of_def umap_at_def)
qed

lemma delForkOfOwner_again:
  assumes "delForkOfOwner r f c = (d, c')"
  shows "delForkOfOwner r f c' = (None, c')"
proof (cases rule: delForkOfOwner_cases [of c r f])
  case (others fs)
  then have "delForkOfOwner r f c' = (None, c'\<lparr>forks := AList.update r (removeAll f fs) (forks c')\<rparr>)"
    using assms by (cases rule: delForkOfOwner_cases [of c' r f]) auto
  moreover have "map_of (forks c') r = Some (removeAll f fs)" using others assms by auto
  ultimately show ?thesis by (simp add: alist_update_same)
qed (use assms in \<open>auto simp: delForkOfOwner_def\<close>)

section \<open>Waiting for recorded users\<close>

definition dec_wait :: "64 word \<times> future \<Rightarrow> 64 word \<times> future" where
  "dec_wait rf = (fst rf - 1, if fst rf = 1 then markCompleted (snd rf) else snd rf)"

lemma wait_callback_alt: "wait_callback w c = c\<lparr>waits := (waits c)[w := dec_wait (waits c ! w)]\<rparr>"
  by (simp add: wait_callback_def dec_wait_def case_prod_beta)

lemma fold_wait_callback:
  "\<exists>ws'. fold wait_callback ws c = c\<lparr>waits := ws'\<rparr> \<and> length ws' = length (waits c) \<and>
     (\<forall>w<length (waits c). ws' ! w = (dec_wait ^^ count_list ws w) (waits c ! w))"
proof (induction ws arbitrary: c)
  case Nil
  show ?case by (rule exI [of _ "waits c"]) simp
next
  case (Cons v ws)
  let ?c = "wait_callback v c"
  obtain ws' where ws': "fold wait_callback ws ?c = ?c\<lparr>waits := ws'\<rparr>" "length ws' = length (waits ?c)"
    "\<forall>w<length (waits ?c). ws' ! w = (dec_wait ^^ count_list ws w) (waits ?c ! w)"
    using Cons.IH by blast
  then show ?case
    by (intro exI [of _ ws']) (auto simp: wait_callback_alt [of v c] nth_list_update funpow_swap1)
qed

text \<open>
  Well-formed pending users: distinct states of the heap that are not confirmed yet, and callbacks
  that belong to futures handed out.
\<close>

definition pending_wf :: "rref_context \<Rightarrow> bool" where
  "pending_wf c \<longleftrightarrow>
     (\<forall>f st. map_of (pendingUsers c) f = Some st \<longrightarrow> st < length (pstates c) \<and> ps_done (pstates c ! st) = Pending) \<and>
     inj_on (map_of (pendingUsers c)) (dom (map_of (pendingUsers c))) \<and>
     (\<forall>i<length (pstates c). \<forall>w\<in>set (ps_waiters (pstates c ! i)). w < length (waits c))"

text \<open>
  \<open>tracked sts fs conf c\<close>: the states \<open>sts\<close> stand for the users \<open>fs\<close>; those in \<open>conf\<close> are
  confirmed, the others still pending.
\<close>

definition tracked :: "nat list \<Rightarrow> gid list \<Rightarrow> gid set \<Rightarrow> rref_context \<Rightarrow> bool" where
  "tracked sts fs conf c \<longleftrightarrow> pending_wf c \<and> distinct sts \<and> distinct fs \<and>
     list_all2 (\<lambda>st f. st < length (pstates c) \<and>
       (if f \<in> conf then ps_done (pstates c ! st) = Completed \<and> map_of (pendingUsers c) f = None
        else map_of (pendingUsers c) f = Some st)) sts fs"

definition still_pending :: "nat list \<Rightarrow> rref_context \<Rightarrow> nat list" where
  "still_pending sts c = filter (\<lambda>st. ps_done (pstates c ! st) = Pending) sts"

text \<open>\<open>awaits w sts c\<close>: the future \<open>w\<close> waits for exactly the pending ones of \<open>sts\<close>.\<close>

definition awaits :: "nat \<Rightarrow> nat list \<Rightarrow> rref_context \<Rightarrow> bool" where
  "awaits w sts c \<longleftrightarrow> w < length (waits c) \<and>
     (\<forall>i<length (pstates c). count_list (ps_waiters (pstates c ! i)) w =
        (if i \<in> set (still_pending sts c) then 1 else 0)) \<and>
     waits c ! w = (word_of_nat (length (still_pending sts c)),
        if still_pending sts c = [] then Completed else Pending)"

lemma confirm_frame:
  "\<exists>ws' os'. confirm st c = c\<lparr>objs := os', pstates := (pstates c)[st :=
      (pstates c ! st)\<lparr>ps_done := markCompleted (ps_done (pstates c ! st)), ps_waiters := []\<rparr>], waits := ws'\<rparr>
    \<and> length ws' = length (waits c) \<and>
     (\<forall>w<length (waits c). ws' ! w = (dec_wait ^^ count_list (ps_waiters (pstates c ! st)) w) (waits c ! w))"
proof -
  let ?ps = "pstates c ! st"
  let ?c = "(upd_obj (ps_rref ?ps) (\<lambda>r. r\<lparr>confirmedByOwner := True\<rparr>) c)\<lparr>pstates := (pstates c)[st :=
     ?ps\<lparr>ps_done := markCompleted (ps_done ?ps), ps_waiters := []\<rparr>]\<rparr>"
  have w: "waits ?c = waits c" by (simp add: upd_obj_def)
  obtain ws' where ws': "fold wait_callback (ps_waiters ?ps) ?c = ?c\<lparr>waits := ws'\<rparr>"
     "length ws' = length (waits ?c)"
     "\<forall>w<length (waits ?c). ws' ! w = (dec_wait ^^ count_list (ps_waiters ?ps) w) (waits ?c ! w)"
    using fold_wait_callback by blast
  have "confirm st c = ?c\<lparr>waits := ws'\<rparr>" using ws'(1) by (simp add: confirm_def Let_def upd_obj_def)
  with ws'(2,3) w show ?thesis by (auto simp: upd_obj_def)
qed

lemma addConfirmedUser_frame [simp, rref_frame]:
  "pstates (addConfirmedUser f p c) = pstates c" "pendingUsers (addConfirmedUser f p c) = pendingUsers c"
  "waits (addConfirmedUser f p c) = waits c" "userTable (addConfirmedUser f p c) = userTable c"
  "owners (addConfirmedUser f p c) = owners c" "forks (addConfirmedUser f p c) = forks c"
  "objs (addConfirmedUser f p c) = objs c" "self (addConfirmedUser f p c) = self c"
  "known (addConfirmedUser f p c) = known c" "nextLocalId (addConfirmedUser f p c) = nextLocalId c"
  "pendingChildren (addConfirmedUser f p c) = pendingChildren c" "handles (addConfirmedUser f p c) = handles c"
  "outbox (addConfirmedUser f p c) = outbox c" "forkRequests (addConfirmedUser f p c) = forkRequests c"
  "recording (addConfirmedUser f p c) = recording c" "destroyed (addConfirmedUser f p c) = destroyed c"
  by (simp_all add: addConfirmedUser_def)

text \<open>The effect of confirming one pending user on what waiting looks at.\<close>

lemma delPendingUser_effect:
  assumes "map_of (pendingUsers c) f = Some st" and "ps_done (pstates c ! st) = Pending"
  defines "c' \<equiv> snd (delPendingUser f c)"
  shows "pendingUsers c' = AList.delete f (pendingUsers c)"
    and "pstates c' = (pstates c)[st := (pstates c ! st)\<lparr>ps_done := Completed, ps_waiters := []\<rparr>]"
    and "length (waits c') = length (waits c)"
    and "w < length (waits c) \<Longrightarrow> waits c' ! w = (dec_wait ^^ count_list (ps_waiters (pstates c ! st)) w) (waits c ! w)"
    and "userTable c' = userTable c"
proof -
  let ?p = "ps_rref (pstates c ! st)"
  let ?c = "(addConfirmedUser f ?p c)\<lparr>pendingUsers := AList.delete f (pendingUsers c)\<rparr>"
  obtain ws' os' where cf: "confirm st ?c = ?c\<lparr>objs := os', pstates := (pstates ?c)[st :=
      (pstates ?c ! st)\<lparr>ps_done := markCompleted (ps_done (pstates ?c ! st)), ps_waiters := []\<rparr>], waits := ws'\<rparr>"
    and ws': "length ws' = length (waits ?c)"
     "\<forall>w<length (waits ?c). ws' ! w = (dec_wait ^^ count_list (ps_waiters (pstates ?c ! st)) w) (waits ?c ! w)"
    using confirm_frame by blast
  have c': "c' = release ?p (confirm st ?c)"
    using assms(1) by (simp add: c'_def delPendingUser_def bindM_def Let_def)
  show "pendingUsers c' = AList.delete f (pendingUsers c)"
    and "pstates c' = (pstates c)[st := (pstates c ! st)\<lparr>ps_done := Completed, ps_waiters := []\<rparr>]"
    and "length (waits c') = length (waits c)"
    and "w < length (waits c) \<Longrightarrow> waits c' ! w = (dec_wait ^^ count_list (ps_waiters (pstates c ! st)) w) (waits c ! w)"
    and "userTable c' = userTable c"
    unfolding c' using assms(2) ws' by (simp_all add: cf)
qed

lemma pending_wfD:
  assumes "pending_wf c"
  shows "map_of (pendingUsers c) f = Some st \<Longrightarrow> st < length (pstates c) \<and> ps_done (pstates c ! st) = Pending"
    and "map_of (pendingUsers c) f = Some st \<Longrightarrow> map_of (pendingUsers c) f' = Some st \<Longrightarrow> f' = f"
    and "i < length (pstates c) \<Longrightarrow> w \<in> set (ps_waiters (pstates c ! i)) \<Longrightarrow> w < length (waits c)"
  using assms by (auto simp: pending_wf_def dom_def inj_on_def)

lemma pending_wf_confirm:
  assumes wf: "pending_wf c" and f: "map_of (pendingUsers c) f = Some st"
  shows "pending_wf (snd (delPendingUser f c))"
proof -
  have pend: "ps_done (pstates c ! st) = Pending" using pending_wfD(1) [OF wf f] by simp
  note eff = delPendingUser_effect [OF f pend]
  show ?thesis
    using pending_wfD [OF wf] f unfolding pending_wf_def eff(1-3)
    by (auto simp: nth_list_update inj_on_def dom_def split: if_splits)
qed

lemma trackedD:
  assumes "tracked sts fs conf c" and "f \<in> set fs" and "f \<notin> conf"
  obtains st where "st \<in> set sts" "map_of (pendingUsers c) f = Some st" "ps_done (pstates c ! st) = Pending"
    "st < length (pstates c)"
proof -
  obtain i where i: "i < length fs" "fs ! i = f" using assms(2) by (metis in_set_conv_nth)
  have la: "list_all2 (\<lambda>st f. st < length (pstates c) \<and>
       (if f \<in> conf then ps_done (pstates c ! st) = Completed \<and> map_of (pendingUsers c) f = None
        else map_of (pendingUsers c) f = Some st)) sts fs" and wf: "pending_wf c"
    using assms(1) by (auto simp: tracked_def)
  then have "map_of (pendingUsers c) f = Some (sts ! i)" "i < length sts"
    using i assms(3) by (auto simp: list_all2_conv_all_nth)
  then show thesis using pending_wfD(1) [OF wf] that nth_mem by blast
qed

lemma tracked_confirm:
  assumes tr: "tracked sts fs conf c" and f: "f \<in> set fs" "f \<notin> conf"
  shows "tracked sts fs (insert f conf) (snd (delPendingUser f c))"
proof -
  obtain st where st: "st \<in> set sts" "map_of (pendingUsers c) f = Some st"
    "ps_done (pstates c ! st) = Pending" "st < length (pstates c)" by (rule trackedD [OF assms])
  note eff = delPendingUser_effect [OF st(2,3)]
  have wf: "pending_wf c" and d: "distinct sts" "distinct fs" and
    la: "list_all2 (\<lambda>st f. st < length (pstates c) \<and>
       (if f \<in> conf then ps_done (pstates c ! st) = Completed \<and> map_of (pendingUsers c) f = None
        else map_of (pendingUsers c) f = Some st)) sts fs"
    using tr by (auto simp: tracked_def)
  have "pending_wf (snd (delPendingUser f c))" by (rule pending_wf_confirm [OF wf st(2)])
  moreover have "list_all2 (\<lambda>st' f'. st' < length (pstates (snd (delPendingUser f c))) \<and>
       (if f' \<in> insert f conf then ps_done (pstates (snd (delPendingUser f c)) ! st') = Completed \<and>
           map_of (pendingUsers (snd (delPendingUser f c))) f' = None
        else map_of (pendingUsers (snd (delPendingUser f c))) f' = Some st')) sts fs"
    using la
  proof (rule list_all2_mono, goal_cases)
    case (1 st' f')
    show ?case
    proof (cases "f' = f")
      case True
      with 1 f(2) st(2) have "st' = st" by simp
      with True st(4) show ?thesis unfolding eff(1,2) by simp
    next
      case False
      with 1 st(2,3) pending_wfD(2) [OF wf, of f st f'] have "st' \<noteq> st" by (auto split: if_splits)
      with False 1 show ?thesis unfolding eff(1,2) by simp
    qed
  qed
  ultimately show ?thesis using d by (simp add: tracked_def)
qed

lemma awaits_confirm:
  assumes aw: "awaits w sts c" and tr: "tracked sts fs conf c" and f: "f \<in> set fs" "f \<notin> conf"
    and len: "length sts < 2 ^ 64"
  shows "awaits w sts (snd (delPendingUser f c))"
proof -
  obtain st where st: "st \<in> set sts" "map_of (pendingUsers c) f = Some st"
    "ps_done (pstates c ! st) = Pending" "st < length (pstates c)" by (rule trackedD [OF tr f])
  note eff = delPendingUser_effect [OF st(2,3)]
  let ?c' = "snd (delPendingUser f c)" and ?n = "length (still_pending sts c)"
  have d: "distinct sts" using tr by (simp add: tracked_def)
  have lt: "st' \<in> set sts \<Longrightarrow> st' < length (pstates c)" for st'
    using tr by (auto simp: tracked_def list_all2_conv_all_nth in_set_conv_nth)
  have sp: "still_pending sts ?c' = removeAll st (still_pending sts c)"
    unfolding still_pending_def removeAll_filter_not_eq filter_filter
    by (rule filter_cong) (use st lt in \<open>auto simp: eff(2) nth_list_update\<close>)
  have mem: "st \<in> set (still_pending sts c)" using st by (simp add: still_pending_def)
  have "distinct (still_pending sts c)" using d by (simp add: still_pending_def)
  then have rm: "length (removeAll st (still_pending sts c)) = ?n - 1"
    using mem by (simp add: distinct_remove1_removeAll [symmetric] length_remove1)
  have n: "0 < ?n" "?n < 2 ^ 64"
    using length_pos_if_in_set [OF mem] le_less_trans [OF length_filter_le len] by (auto simp: still_pending_def)
  have one: "(word_of_nat ?n :: 64 word) = 1 \<longleftrightarrow> ?n = 1"
    by (rule word64_of_nat_eq_1 [OF n(2)])
  have cnt: "count_list (ps_waiters (pstates c ! st)) w = 1"
    and wl: "w < length (waits c)" and ww: "waits c ! w = (word_of_nat ?n, Pending)"
    using aw mem st(4) by (auto simp: awaits_def split: if_splits)
  have "waits ?c' ! w = (word_of_nat (length (still_pending sts ?c')), if still_pending sts ?c' = [] then Completed else Pending)"
  proof -
    have l: "length (still_pending sts ?c') = ?n - 1" using rm sp by simp
    then have nil: "still_pending sts ?c' = [] \<longleftrightarrow> ?n = 1" using n(1) by (metis Nat.diff_diff_right One_nat_def Suc_pred length_0_conv diff_self_eq_0)
    have "word_of_nat ?n - 1 = (word_of_nat (?n - 1) :: 64 word)" using n(1) by (simp add: of_nat_diff Suc_le_eq)
    then have "waits ?c' ! w = (word_of_nat (?n - 1), if ?n = 1 then Completed else Pending)"
      unfolding eff(4) [OF wl] cnt ww by (simp add: dec_wait_def one)
    then show ?thesis unfolding nil l .
  qed
  moreover have "count_list (ps_waiters (pstates ?c' ! i)) w = (if i \<in> set (still_pending sts ?c') then 1 else 0)"
    if "i < length (pstates ?c')" for i
    using that aw st unfolding sp eff(2) by (auto simp: awaits_def nth_list_update)
  ultimately show ?thesis using wl unfolding awaits_def eff(3) by blast
qed

lemma add_wait_fields:
  "add_wait w st c = (if ps_done (pstates c ! st) = Pending
     then c\<lparr>pstates := (pstates c)[st := (pstates c ! st)\<lparr>ps_waiters := ps_waiters (pstates c ! st) @ [w]\<rparr>]\<rparr>
     else c\<lparr>waits := (waits c)[w := dec_wait (waits c ! w)]\<rparr>)"
  by (simp add: add_wait_def wait_callback_alt Let_def)

lemma fold_add_wait:
  assumes "distinct xs" and "\<forall>x\<in>set xs. x < length (pstates c)" and "w < length (waits c)"
  shows "\<exists>ps' ws'. fold (add_wait w) xs c = c\<lparr>pstates := ps', waits := ws'\<rparr> \<and> length ps' = length (pstates c)
    \<and> length ws' = length (waits c)
    \<and> (\<forall>i<length ps'. ps_done (ps' ! i) = ps_done (pstates c ! i)
        \<and> ps_waiters (ps' ! i) = ps_waiters (pstates c ! i) @ (if i \<in> set xs \<and> ps_done (pstates c ! i) = Pending then [w] else []))
    \<and> ws' ! w = (dec_wait ^^ length (filter (\<lambda>x. ps_done (pstates c ! x) \<noteq> Pending) xs)) (waits c ! w)"
  using assms
proof (induction xs arbitrary: c)
  case Nil
  show ?case by (rule exI [of _ "pstates c"], rule exI [of _ "waits c"]) simp
next
  case (Cons x xs)
  let ?c = "add_wait w x c"
  have pl: "length (pstates ?c) = length (pstates c)" "length (waits ?c) = length (waits c)"
    by (simp_all add: add_wait_fields)
  have dn: "i < length (pstates c) \<Longrightarrow> ps_done (pstates ?c ! i) = ps_done (pstates c ! i)" for i
    by (cases "x = i") (simp_all add: add_wait_fields)
  obtain ps' ws' where IH: "fold (add_wait w) xs ?c = ?c\<lparr>pstates := ps', waits := ws'\<rparr>"
    "length ps' = length (pstates ?c)" "length ws' = length (waits ?c)"
    "\<forall>i<length ps'. ps_done (ps' ! i) = ps_done (pstates ?c ! i)
        \<and> ps_waiters (ps' ! i) = ps_waiters (pstates ?c ! i) @ (if i \<in> set xs \<and> ps_done (pstates ?c ! i) = Pending then [w] else [])"
    "ws' ! w = (dec_wait ^^ length (filter (\<lambda>x. ps_done (pstates ?c ! x) \<noteq> Pending) xs)) (waits ?c ! w)"
    using Cons.IH [of ?c] Cons.prems pl by auto
  have fl: "filter (\<lambda>x. ps_done (pstates ?c ! x) \<noteq> Pending) xs = filter (\<lambda>x. ps_done (pstates c ! x) \<noteq> Pending) xs"
    using dn Cons.prems(2) by (auto intro!: filter_cong)
  have "ws' ! w = (dec_wait ^^ length (filter (\<lambda>x. ps_done (pstates c ! x) \<noteq> Pending) (x # xs))) (waits c ! w)"
    using IH(5) Cons.prems(3) unfolding fl by (simp add: add_wait_fields funpow_swap1)
  moreover have "ps_done (ps' ! i) = ps_done (pstates c ! i) \<and> ps_waiters (ps' ! i) =
      ps_waiters (pstates c ! i) @ (if i \<in> set (x # xs) \<and> ps_done (pstates c ! i) = Pending then [w] else [])"
    if i: "i < length ps'" for i
  proof -
    have il: "i < length (pstates c)" using i IH(2) pl by simp
    have wi: "ps_waiters (pstates ?c ! i) = ps_waiters (pstates c ! i) @ (if i = x \<and> ps_done (pstates c ! i) = Pending then [w] else [])"
      using il by (cases "x = i") (simp_all add: add_wait_fields)
    have "i = x \<Longrightarrow> i \<notin> set xs" using Cons.prems(1) by auto
    with IH(4) i dn [OF il] wi show ?thesis by auto
  qed
  moreover have "?c\<lparr>pstates := ps', waits := ws'\<rparr> = c\<lparr>pstates := ps', waits := ws'\<rparr>"
    by (simp add: add_wait_fields)
  ultimately show ?case
    using IH(1-3) pl by (intro exI [of _ ps'] exI [of _ ws']) simp
qed

lemma dec_wait_pow:
  assumes "k \<le> n" and "0 < n" and "n < 2 ^ 64"
  shows "(dec_wait ^^ k) (word_of_nat n, Pending) = (word_of_nat (n - k), if k = n then Completed else Pending)"
  using assms
proof (induction k)
  case 0
  then show ?case by simp
next
  case (Suc k)
  have "(word_of_nat (n - k) :: 64 word) = 1 \<longleftrightarrow> n - k = 1" by (rule word64_of_nat_eq_1) (use Suc in simp)
  moreover have "word_of_nat (n - k) - 1 = (word_of_nat (n - Suc k) :: 64 word)"
    using Suc.prems(1) by (metis Suc_diff_Suc Suc_le_lessD add_diff_cancel_right' of_nat_Suc add.commute)
  ultimately show ?case using Suc by (auto simp: dec_wait_def)
qed

lemma clear_table_frame [simp, rref_frame]:
  "pstates (clear_table t c) = pstates c" "pendingUsers (clear_table t c) = pendingUsers c"
  "waits (clear_table t c) = waits c"
  by (simp_all add: clear_table_def Let_def)

lemma wait_awaits:
  assumes tr: "tracked sts fs conf c" and tab: "thread_table c t = sts" and ne: "sts \<noteq> []"
    and len: "length sts < 2 ^ 64" and w: "waitForThreadLocalPendingRRefs t c = (w, c')"
  shows "tracked sts fs conf c'" and "awaits w sts c'"
proof -
  let ?c0 = "c\<lparr>waits := waits c @ [(word_of_nat (length sts), Pending)]\<rparr>"
  have wf: "pending_wf c" and d: "distinct sts" and lt: "\<forall>x\<in>set sts. x < length (pstates c)"
    using tr by (auto simp: tracked_def list_all2_conv_all_nth in_set_conv_nth)
  have wv: "w = length (waits c)" using w by (simp add: waitForThreadLocalPendingRRefs_def Let_def)
  obtain ps' ws' where fa: "fold (add_wait w) sts ?c0 = ?c0\<lparr>pstates := ps', waits := ws'\<rparr>"
    "length ps' = length (pstates c)" "length ws' = Suc (length (waits c))"
    "\<forall>i<length ps'. ps_done (ps' ! i) = ps_done (pstates c ! i)
        \<and> ps_waiters (ps' ! i) = ps_waiters (pstates c ! i) @ (if i \<in> set sts \<and> ps_done (pstates c ! i) = Pending then [w] else [])"
    "ws' ! w = (dec_wait ^^ length (filter (\<lambda>x. ps_done (pstates c ! x) \<noteq> Pending) sts)) (word_of_nat (length sts), Pending)"
    using fold_add_wait [OF d, of ?c0 w] lt wv by (auto simp: nth_append)
  have c': "pstates c' = ps'" "pendingUsers c' = pendingUsers c" "waits c' = ws'"
    using w tab ne by (auto simp: waitForThreadLocalPendingRRefs_def Let_def fa(1) simp flip: wv)
  have "\<not> w \<in> set (ps_waiters (pstates c ! i))" if "i < length (pstates c)" for i
    using pending_wfD(3) [OF wf that] wv by blast
  then have cnt: "\<forall>i<length ps'. count_list (ps_waiters (ps' ! i)) w = (if i \<in> set sts \<and> ps_done (ps' ! i) = Pending then 1 else 0)"
    using fa(2,4) by (auto simp: count_list_0_iff)
  have "pending_wf c'"
    using wf fa(2-4) pending_wfD(3) [OF wf] wv unfolding pending_wf_def c'
    by (auto split: if_splits intro: less_SucI)
  then show "tracked sts fs conf c'"
    using tr fa(2,4) unfolding tracked_def c' by (auto simp: list_all2_conv_all_nth)
  have sp: "still_pending sts c' = filter (\<lambda>x. ps_done (pstates c ! x) = Pending) sts"
    using fa(2,4) lt unfolding still_pending_def c' by (auto intro!: filter_cong)
  let ?k = "length (filter (\<lambda>x. ps_done (pstates c ! x) \<noteq> Pending) sts)"
  have sum: "?k + length (still_pending sts c') = length sts"
    using sum_length_filter_compl [of "\<lambda>x. ps_done (pstates c ! x) = Pending" sts] sp by simp
  have "waits c' ! w = (word_of_nat (length sts - ?k), if ?k = length sts then Completed else Pending)"
    unfolding c'(3) fa(5) by (rule dec_wait_pow) (use ne len in simp_all)
  moreover have "length sts - ?k = length (still_pending sts c')" "?k = length sts \<longleftrightarrow> still_pending sts c' = []"
    using sum by (auto simp flip: length_0_conv)
  ultimately show "awaits w sts c'"
    unfolding awaits_def using fa(3) cnt wv c' by (simp add: still_pending_def)
qed

fun add_users :: "nat \<Rightarrow> (gid \<times> nat) list \<Rightarrow> rref_context \<Rightarrow> rref_context" where
  "add_users t [] c = c"
| "add_users t ((f, p) # us) c = add_users t us (snd (addPendingUser t f p c))"

definition confirm_users :: "gid list \<Rightarrow> rref_context \<Rightarrow> rref_context" where
  "confirm_users gs c = fold (\<lambda>f c'. snd (delPendingUser f c')) gs c"

lemma addPendingUser_ok:
  assumes "\<not> isOwner (objs c ! p)" and "t \<in> set (recording c)" and "map_of (pendingUsers c) f = None"
  shows "addPendingUser t f p c = (Inr (), c\<lparr>pstates := pstates c @ [\<lparr>ps_rref = p, ps_done = Pending, ps_waiters = []\<rparr>],
     userTable := AList.update t (thread_table c t @ [length (pstates c)]) (userTable c),
     pendingUsers := AList.update f (length (pstates c)) (pendingUsers c)\<rparr>)"
  using assms by (simp add: addPendingUser_def bindM_def thread_table_def)

lemma tracked_add:
  assumes tr: "tracked sts fs {} c" and new: "map_of (pendingUsers c) f = None"
    and c': "pstates c' = pstates c @ [ps]" "ps_done ps = Pending" "ps_waiters ps = []"
      "pendingUsers c' = AList.update f (length (pstates c)) (pendingUsers c)" "waits c' = waits c"
  shows "tracked (sts @ [length (pstates c)]) (fs @ [f]) {} c'"
proof -
  have wf: "pending_wf c" and la: "list_all2 (\<lambda>st f. st < length (pstates c) \<and> map_of (pendingUsers c) f = Some st) sts fs"
    and d: "distinct sts" "distinct fs" using tr by (auto simp: tracked_def)
  have nf: "f \<notin> set fs" and ns: "length (pstates c) \<notin> set sts"
    using la new by (fastforce simp: list_all2_conv_all_nth in_set_conv_nth)+
  have "pending_wf c'"
    using pending_wfD [OF wf] unfolding pending_wf_def c'(1,4,5)
    by (auto simp: nth_append less_Suc_eq c'(2,3) inj_on_def dom_def split: if_splits) (metis less_irrefl)+
  moreover have "list_all2 (\<lambda>st f'. st < length (pstates c') \<and> map_of (pendingUsers c') f' = Some st) sts fs"
    using la nf unfolding c'(1,4) by (auto simp: list_all2_conv_all_nth)
  ultimately show ?thesis using d nf ns unfolding tracked_def by (simp add: c'(1,4) list_all2_appendI)
qed

lemma tracked_add_users:
  assumes "tracked sts fs {} c" and "thread_table c t = sts" and "t \<in> set (recording c)"
    and "distinct (map fst us)"
    and "\<forall>(f, p)\<in>set us. \<not> isOwner (objs c ! p) \<and> map_of (pendingUsers c) f = None"
  shows "\<exists>sts'. tracked sts' (fs @ map fst us) {} (add_users t us c) \<and> thread_table (add_users t us c) t = sts'"
  using assms
proof (induction us arbitrary: c sts fs)
  case Nil
  then show ?case by auto
next
  case (Cons u us)
  obtain f p where u: "u = (f, p)" by (cases u)
  let ?c = "snd (addPendingUser t f p c)"
  have ok: "addPendingUser t f p c = (Inr (), c\<lparr>pstates := pstates c @ [\<lparr>ps_rref = p, ps_done = Pending, ps_waiters = []\<rparr>],
     userTable := AList.update t (thread_table c t @ [length (pstates c)]) (userTable c),
     pendingUsers := AList.update f (length (pstates c)) (pendingUsers c)\<rparr>)"
    by (rule addPendingUser_ok) (use Cons.prems u in auto)
  have tr: "tracked (sts @ [length (pstates c)]) (fs @ [f]) {} ?c"
    by (rule tracked_add [OF Cons.prems(1)]) (use Cons.prems(5) u in \<open>auto simp: ok\<close>)
  have tt: "thread_table ?c t = sts @ [length (pstates c)]" using Cons.prems(2) by (simp add: ok thread_table_def)
  have rest: "\<forall>(f', p')\<in>set us. \<not> isOwner (objs ?c ! p') \<and> map_of (pendingUsers ?c) f' = None"
  proof safe
    fix f' p' assume m: "(f', p') \<in> set us"
    then have "f' \<noteq> f" using Cons.prems(4) u by force
    with m Cons.prems(5) show "map_of (pendingUsers ?c) f' = None" by (auto simp: ok)
    assume "isOwner (objs ?c ! p')"
    with m Cons.prems(5) show False by (auto simp: ok)
  qed
  have "t \<in> set (recording ?c)" "distinct (map fst us)" using Cons.prems(3,4) by (simp_all add: ok)
  from Cons.IH [OF tr tt this rest] show ?case by (simp add: u)
qed

lemma thread_table_confirm:
  assumes "tracked sts fs conf c" and "f \<in> set fs" and "f \<notin> conf"
  shows "thread_table (snd (delPendingUser f c)) t = thread_table c t"
  by (rule trackedD [OF assms]) (simp add: delPendingUser_effect thread_table_def)

lemma confirm_users_tracked:
  assumes "tracked sts fs conf c" and "distinct gs" and "set gs \<subseteq> set fs" and "conf \<inter> set gs = {}" and "length sts < 2 ^ 64"
  shows "tracked sts fs (conf \<union> set gs) (confirm_users gs c) \<and> thread_table (confirm_users gs c) t = thread_table c t \<and>
     (awaits w sts c \<longrightarrow> awaits w sts (confirm_users gs c))"
  using assms
proof (induction gs arbitrary: c conf)
  case Nil
  then show ?case by (simp add: confirm_users_def)
next
  case (Cons g gs)
  have g: "g \<in> set fs" "g \<notin> conf" using Cons.prems by auto
  have IH: "tracked sts fs (insert g conf \<union> set gs) (confirm_users gs (snd (delPendingUser g c)))
      \<and> thread_table (confirm_users gs (snd (delPendingUser g c))) t = thread_table (snd (delPendingUser g c)) t
      \<and> (awaits w sts (snd (delPendingUser g c)) \<longrightarrow> awaits w sts (confirm_users gs (snd (delPendingUser g c))))"
    by (rule Cons.IH [OF tracked_confirm [OF Cons.prems(1) g]]) (use Cons.prems in auto)
  then show ?case
    using thread_table_confirm [OF Cons.prems(1) g] awaits_confirm [OF _ Cons.prems(1) g Cons.prems(5)]
    by (simp add: confirm_users_def)
qed

lemma still_pending_Nil:
  assumes "tracked sts fs conf c"
  shows "still_pending sts c = [] \<longleftrightarrow> set fs \<subseteq> conf"
proof -
  have wf: "pending_wf c" and la: "list_all2 (\<lambda>st f. st < length (pstates c) \<and>
       (if f \<in> conf then ps_done (pstates c ! st) = Completed \<and> map_of (pendingUsers c) f = None
        else map_of (pendingUsers c) f = Some st)) sts fs"
    using assms by (auto simp: tracked_def)
  have "ps_done (pstates c ! (sts ! i)) = Pending \<longleftrightarrow> fs ! i \<notin> conf" if "i < length sts" for i
    using la that pending_wfD(1) [OF wf] by (auto simp: list_all2_conv_all_nth split: if_splits)
  moreover have "length sts = length fs" using la by (rule list_all2_lengthD)
  ultimately show ?thesis
    by (fastforce simp: still_pending_def filter_empty_conv set_conv_nth subset_eq)
qed

section \<open>Properties\<close>

text \<open>
  A user function runs only when every \<^verbatim>\<open>UserRRef\<close> among its arguments is confirmed: for a
  thread that starts recording, adds pending users, and calls
  \<^verbatim>\<open>waitForThreadLocalPendingRRefs\<close>, the returned future is completed exactly when all of
  the recorded users have been confirmed by \<^verbatim>\<open>delPendingUser\<close>, whichever were confirmed
  before the call and in whatever order the others follow.
\<close>

theorem pending_rrefs_future:
  assumes "pending_wf c" and "thread_table c t = []" and "distinct (map fst us)"
    and "\<forall>(f, p)\<in>set us. \<not> isOwner (objs c ! p) \<and> map_of (pendingUsers c) f = None"
    and "length us < 2 ^ 64" and "distinct (before @ after)" and "set (before @ after) \<subseteq> fst ` set us"
    and "recordThreadLocalPendingRRefs t c = (r, c1)"
    and "waitForThreadLocalPendingRRefs t (confirm_users before (add_users t us c1)) = (w, c2)"
  shows "snd (waits (confirm_users after c2) ! w) = (if set (before @ after) = fst ` set us then Completed else Pending)"
proof -
  have c1: "c1 = c\<lparr>recording := List.insert t (recording c)\<rparr>"
    using assms(2,8) by (simp add: recordThreadLocalPendingRRefs_def bindM_def)
  have tr0: "tracked [] [] {} c1" using assms(1) by (simp add: tracked_def pending_wf_def c1)
  obtain sts where tr: "tracked sts (map fst us) {} (add_users t us c1)" and tab: "thread_table (add_users t us c1) t = sts"
    using tracked_add_users [OF tr0, of t us] assms(2-4) by (auto simp: c1 thread_table_def)
  have ls: "length sts = length us" using tr by (auto simp: tracked_def dest: list_all2_lengthD)
  have b: "tracked sts (map fst us) (set before) (confirm_users before (add_users t us c1))"
      "thread_table (confirm_users before (add_users t us c1)) t = sts"
    using confirm_users_tracked [OF tr, of before t] assms(5-7) ls tab by auto
  show ?thesis
  proof (cases "us = []")
    case True
    then have "sts = []" "before = []" "after = []" using assms(7) ls by auto
    with b assms(9) True show ?thesis
      by (auto simp: waitForThreadLocalPendingRRefs_def Let_def confirm_users_def)
  next
    case False
    then have ne: "sts \<noteq> []" "length sts < 2 ^ 64" using ls assms(5) by auto
    note w = wait_awaits [OF b ne assms(9)]
    have "tracked sts (map fst us) (set before \<union> set after) (confirm_users after c2)" "awaits w sts (confirm_users after c2)"
      using confirm_users_tracked [OF w(1), of after t w] w(2) assms(6,7) ne by auto
    then show ?thesis using still_pending_Nil assms(7) by (auto simp: awaits_def)
  qed
qed

definition sample_gid :: "int \<Rightarrow> gid" where
  "sample_gid i = \<lparr>createdOn = 0, localId = i\<rparr>"

definition sample_context :: rref_context where
  "sample_context = (rref_context_new 1 [0, 1])
     \<lparr>objs := [UserRRef 0 (sample_gid 0) (sample_gid 1) 0, UserRRef 0 (sample_gid 0) (sample_gid 2) 0], handles := [0, 1]\<rparr>"

lemmas sample_simps = sample_context_def rref_context_new_def UserRRef_def OwnerRRef_def isOwner_def sample_gid_def

theorem pending_rrefs_future_witness:
  "let c1 = snd (recordThreadLocalPendingRRefs 7 sample_context);
       c2 = confirm_users [sample_gid 2] (add_users 7 [(sample_gid 1, 0), (sample_gid 2, 1)] c1);
       (w, c3) = waitForThreadLocalPendingRRefs 7 c2
   in snd (waits (confirm_users [sample_gid 1] c3) ! w) = Completed"
proof -
  let ?us = "[(sample_gid 1, 0), (sample_gid 2, 1)]"
  let ?c1 = "snd (recordThreadLocalPendingRRefs 7 sample_context)"
  let ?w = "waitForThreadLocalPendingRRefs 7 (confirm_users [sample_gid 2] (add_users 7 ?us ?c1))"
  have "pending_wf sample_context" "thread_table sample_context 7 = []"
    by (simp_all add: sample_simps pending_wf_def thread_table_def umap_at_def)
  then have "snd (waits (confirm_users [sample_gid 1] (snd ?w)) ! fst ?w)
     = (if set ([sample_gid 2] @ [sample_gid 1]) = fst ` set ?us then Completed else Pending)"
    using pending_rrefs_future [of sample_context 7 ?us "[sample_gid 2]" "[sample_gid 1]"
        "fst (recordThreadLocalPendingRRefs 7 sample_context)" ?c1 "fst ?w" "snd ?w"]
    by (auto simp: sample_simps)
  then show ?thesis by (auto simp: Let_def case_prod_beta)
qed

text \<open>
  An \<^verbatim>\<open>OwnerRRef\<close> lives as long as the owner knows a fork: \<^verbatim>\<open>delForkOfOwner\<close> takes the
  named fork and no other off the reference, removes the owner exactly when that was the last
  fork known, returns the owner it removed, leaves all other references alone, and does nothing
  when it is called again, so that a delete message may be retried.
\<close>

theorem del_fork_exact:
  assumes "delForkOfOwner r f c = (d, c')"
  shows "set (forks_of c' r) = set (forks_of c r) - {f}
    \<and> (\<forall>r'. r' \<noteq> r \<longrightarrow> map_of (forks c') r' = map_of (forks c) r' \<and> map_of (owners c') r' = map_of (owners c) r')
    \<and> map_of (owners c') r = (if umap_has (forks c) r \<and> set (forks_of c r) \<subseteq> {f} then None else map_of (owners c) r)
    \<and> d = (if umap_has (forks c) r \<and> set (forks_of c r) \<subseteq> {f} then map_of (owners c) r else None)
    \<and> delForkOfOwner r f c' = (None, c')"
  using delForkOfOwner_effect [OF assms] delForkOfOwner_again [OF assms] by blast

definition sample_owner :: rref_context where
  "sample_owner = (rref_context_new 0 [0, 1])
     \<lparr>objs := [OwnerRRef 0 (sample_gid 0) 0], owners := [(sample_gid 0, 0)],
      forks := [(sample_gid 0, [sample_gid 1, sample_gid 2])]\<rparr>"

theorem del_fork_exact_witness:
  "map_of (owners (snd (delForkOfOwner (sample_gid 0) (sample_gid 1) sample_owner))) (sample_gid 0) = Some 0"
  using del_fork_exact [of "sample_gid 0" "sample_gid 1" sample_owner
      "fst (delForkOfOwner (sample_gid 0) (sample_gid 1) sample_owner)"
      "snd (delForkOfOwner (sample_gid 0) (sample_gid 1) sample_owner)"]
  by (simp add: sample_owner_def sample_simps forks_of_def umap_at_def)

text \<open>
  The table of error handlers is built once, by the first failed remote call of the process:
  a later timeout of another reference marks the reference of that first call as timed out and
  leaves its own unmarked, so that it can still be forked.
\<close>

theorem handle_error_first_object:
  assumes "handlers_this c = Some q" and "q \<noteq> p" and "q < length (objs c)"
    and "handleError p TIMEOUT msg c = (res, c')"
  shows "res = Inr () \<and> timedOut (objs c' ! q) \<and> objs c' ! p = objs c ! p"
  using assms by (auto simp: handleError_def bindM_def upd_obj_def)

theorem handle_error_first_object_witness:
  "\<not> timedOut (objs (snd (handleError 1 TIMEOUT [] (snd (handleError 0 TIMEOUT [] sample_context)))) ! 1)"
proof -
  let ?c = "snd (handleError 0 TIMEOUT [] sample_context)"
  have "handlers_this ?c = Some 0" "0 < length (objs ?c)" "\<not> timedOut (objs ?c ! 1)"
    by (simp_all add: handleError_def bindM_def upd_obj_def sample_simps)
  then show ?thesis using handle_error_first_object [of ?c 0 1 "[]" "fst (handleError 1 TIMEOUT [] ?c)"
      "snd (handleError 1 TIMEOUT [] ?c)"] by simp
qed

text \<open>
  \<^verbatim>\<open>RequestCallbackNoPython::processRRefUserDelete\<close> on a reference that keeps another fork
  reads the type of a null pointer; the overriding handler of the Python build answers normally.
\<close>

theorem user_delete_of_one_of_several:
  assumes "map_of (forks c) r = Some fs" and "g \<in> set fs" and "g \<noteq> f"
  shows "fst (processRRefUserDelete (handleRRefDelete te) r f c) = Inl Undefined
    \<and> fst (processRRefUserDelete handleRRefDelete_py r f c) = Inr ()"
proof -
  have "fst (delForkOfOwner r f c) = None"
    using assms by (cases rule: delForkOfOwner_cases [of c r f]) auto
  then show ?thesis
    by (simp add: processRRefUserDelete_def case_prod_beta handleRRefDelete_def handleRRefDelete_py_def)
qed

definition sample_types :: type_env where
  "sample_types = \<lparr>tensor_type = 0, py_object_type = 1, subtype_of_tensor = (\<lambda>t. t = 0), type_str = (\<lambda>_. [])\<rparr>"

theorem user_delete_of_one_of_several_witness:
  "fst (processRRefUserDelete (handleRRefDelete sample_types) (sample_gid 0) (sample_gid 1) sample_owner) = Inl Undefined"
  using user_delete_of_one_of_several [of sample_owner "sample_gid 0" "[sample_gid 1, sample_gid 2]" "sample_gid 2" "sample_gid 1" sample_types]
  by (simp add: sample_owner_def sample_simps)

text \<open>
  Identifiers survive the way through an \<^verbatim>\<open>IValue\<close>. Only the upper bounds are checked: a creator
  below the range of \<^verbatim>\<open>worker_id_t\<close> is accepted and truncated.
\<close>

theorem gid_roundtrip:
  assumes "- (2 ^ 15) \<le> createdOn g" and "createdOn g \<le> worker_id_max" and "localId g \<le> int64_max"
  shows "fromIValue (toIValue g) = Inr g"
proof -
  have "to_worker_id (createdOn g) = createdOn g"
    using assms by (simp add: to_worker_id_def worker_id_max_def sint_sbintrunc' signed_take_bit_int_eq_self)
  then show ?thesis using assms by (simp add: fromIValue_def toIValue_def toInt_def)
qed

theorem gid_below_range:
  "fromIValue (ITuple [IInt (- 65536), IInt 3]) = Inr \<lparr>createdOn = 0, localId = 3\<rparr>"
  by (simp add: fromIValue_def toInt_def worker_id_max_def int64_max_def to_worker_id_def)

end
