(* ===== verification/RRef_Protocol.thy ===== *)
theory RRef_Protocol
  imports RRef_Context
begin

text \<open>
  The reference-counting protocol of \<^verbatim>\<open>rref_impl.h\<close> and \<^verbatim>\<open>rref_context.cpp\<close> run by many
  workers at once. A system is one \<open>rref_context\<close> per worker and the packets on their way:
  calls that carry a fork of a reference, the internal messages of the contexts, and the
  acknowledgements of fork requests. Messages sent with retries may be duplicated, and every packet
  may be delayed or lost. The result is the promise of the protocol: as long as any worker holds a
  \<^verbatim>\<open>UserRRef\<close>, or a call that carries the reference is on its way, the owner keeps the
  \<^verbatim>\<open>OwnerRRef\<close> in \<^verbatim>\<open>owners_\<close>.
\<close>

section \<open>The system\<close>

text \<open>
  \<open>calls\<close> are the remote calls on their way, with the worker they go to and the fork of the
  reference they carry. \<open>mail\<close> holds every internal message sent so far and \<open>acks\<close> the forks
  whose request has been answered: a message stays in \<open>mail\<close>, so that it may be delivered late, many
  times or never.
\<close>

record sys =
  node :: "int \<Rightarrow> rref_context"
  calls :: "(int \<times> fork_data) set"
  mail :: "(int \<times> rref_msg) set"
  acks :: "gid set"

definition sys_init :: "int list \<Rightarrow> sys" where
  "sys_init ws = \<lparr>node = (\<lambda>w. rref_context_new w ws), calls = {}, mail = {}, acks = {}\<rparr>"

text \<open>Worker \<open>w\<close> goes to state \<open>c\<close>, and what it handed to the agent is in the mail.\<close>

definition put :: "int \<Rightarrow> rref_context \<Rightarrow> sys \<Rightarrow> sys" where
  "put w c s = s\<lparr>node := (node s)(w := c\<lparr>outbox := []\<rparr>), mail := mail s \<union> set (outbox c)\<rparr>"

text \<open>
  \<^verbatim>\<open>PyRRef::unpickle\<close>: the local pointer is dropped again when the notification throws.
\<close>

definition unpickle :: "type_env \<Rightarrow> nat \<Rightarrow> nat \<Rightarrow> fork_data \<Rightarrow> (rref_context, nat) cmd" where
  "unpickle te t ty fd c =
     (case getOrCreateRRef te fd ty c of
        (Inl e, c1) \<Rightarrow> (Inl e, c1)
      | (Inr p, c1) \<Rightarrow>
          (case notifyOwnerAndParentOfFork t (fd_fork fd) (fd_parent fd) p c1 of
             (Inl e, c2) \<Rightarrow> (Inl e, drop_handle p c2)
           | (Inr _, c2) \<Rightarrow> (Inr p, c2)))"

definition take_request :: "gid \<Rightarrow> int \<Rightarrow> rref_context \<Rightarrow> rref_context" where
  "take_request f parent c = c\<lparr>forkRequests := remove1 (f, parent) (forkRequests c)\<rparr>"

inductive step :: "type_env \<Rightarrow> sys \<Rightarrow> sys \<Rightarrow> bool" for te where
  create: "nextLocalId (node s w) < int64_max \<Longrightarrow> createOwnerRRef ty (node s w) = (res, c) \<Longrightarrow>
    step te s (put w c s)"
| share: "nextLocalId (node s w) < int64_max \<Longrightarrow> p \<in> set (handles (node s w)) \<Longrightarrow>
    prepareChildFork te p (node s w) = (Inr fd, c) \<Longrightarrow>
    step te s ((put w c s)\<lparr>calls := insert (d, fd) (calls s)\<rparr>)"
| share_fails: "nextLocalId (node s w) < int64_max \<Longrightarrow> p \<in> set (handles (node s w)) \<Longrightarrow>
    prepareChildFork te p (node s w) = (Inl e, c) \<Longrightarrow> step te s (put w c s)"
| receive: "(w, fd) \<in> calls s \<Longrightarrow> unpickle te t ty fd (node s w) = (res, c) \<Longrightarrow>
    step te s ((put w c s)\<lparr>calls := calls s - {(w, fd)}\<rparr>)"
| user_delete: "(w, RRefUserDelete r f) \<in> mail s \<Longrightarrow>
    processRRefUserDelete handleRRefDelete_py r f (node s w) = (res, c) \<Longrightarrow> step te s (put w c s)"
| fork_request: "(w, RRefForkRequest r f) \<in> mail s \<Longrightarrow> processRRefForkRequest r f (node s w) = (res, c) \<Longrightarrow>
    step te s ((put w c s)\<lparr>acks := insert f (acks s)\<rparr>)"
| child_accept: "(w, RRefChildAccept f) \<in> mail s \<Longrightarrow> processRRefChildAccept f (node s w) = (res, c) \<Longrightarrow>
    step te s (put w c s)"
| request_acked: "f \<in> acks s \<Longrightarrow> (f, parent) \<in> set (forkRequests (node s w)) \<Longrightarrow>
    forkRequest_callback None f parent (take_request f parent (node s w)) = (res, c) \<Longrightarrow> step te s (put w c s)"
| request_failed: "(f, parent) \<in> set (forkRequests (node s w)) \<Longrightarrow>
    forkRequest_callback (Some e) f parent (take_request f parent (node s w)) = (res, c) \<Longrightarrow> step te s (put w c s)"
| counted: "counted_callback err (node s w) = (res, c) \<Longrightarrow> step te s (put w c s)"
| copy: "p \<in> set (handles (node s w)) \<Longrightarrow> step te s (put w (add_handle p (node s w)) s)"
| drop: "step te s (put w (drop_handle p (node s w)) s)"
| record_users: "recordThreadLocalPendingRRefs t (node s w) = (res, c) \<Longrightarrow> step te s (put w c s)"
| wait_users: "waitForThreadLocalPendingRRefs t (node s w) = (i, c) \<Longrightarrow> step te s (put w c s)"
| clear_users: "step te s (put w (clearRecordedPendingRRefsOnError t (node s w)) s)"

section \<open>What the protocol maintains\<close>

text \<open>
  A fork is demanded when a call carries it or a worker holds its \<^verbatim>\<open>UserRRef\<close>. It is registered
  when the owner knows it and keeps the \<^verbatim>\<open>OwnerRRef\<close>. A fork that is not registered yet hangs on its
  parent, which the parent's worker keeps among its pending children.
\<close>

definition holds :: "rref_context \<Rightarrow> nat \<Rightarrow> gid \<Rightarrow> gid \<Rightarrow> bool" where
  "holds c p r f \<longleftrightarrow> held c p \<and> p < length (objs c) \<and> forkId (objs c ! p) = Some f \<and> rrefId (objs c ! p) = r"

definition demanded :: "sys \<Rightarrow> gid \<Rightarrow> gid \<Rightarrow> bool" where
  "demanded s r f \<longleftrightarrow> (\<exists>d fd. (d, fd) \<in> calls s \<and> fd_rref fd = r \<and> fd_fork fd = f) \<or> (\<exists>w p. holds (node s w) p r f)"

definition reg :: "sys \<Rightarrow> gid \<Rightarrow> gid \<Rightarrow> bool" where
  "reg s r f \<longleftrightarrow> f \<in> set (forks_of (node s (createdOn r)) r) \<and> umap_has (owners (node s (createdOn r))) r"

inductive anchored :: "sys \<Rightarrow> gid \<Rightarrow> gid \<Rightarrow> bool" for s r where
  base: "reg s r f \<Longrightarrow> anchored s r f"
| link: "map_of (pendingChildren (node s w)) f = Some p \<Longrightarrow> forkId (objs (node s w) ! p) = Some g \<Longrightarrow>
    rrefId (objs (node s w) ! p) = r \<Longrightarrow> anchored s r g \<Longrightarrow> anchored s r f"

definition occurs :: "sys \<Rightarrow> gid \<Rightarrow> (int \<times> fork_data) + (int \<times> nat) \<Rightarrow> bool" where
  "occurs s f x = (case x of
     Inl (d, fd) \<Rightarrow> (d, fd) \<in> calls s \<and> fd_fork fd = f
   | Inr (w, p) \<Rightarrow> p < length (objs (node s w)) \<and> forkId (objs (node s w) ! p) = Some f)"

fun msg_fork :: "rref_msg \<Rightarrow> gid" where
  "msg_fork (RRefUserDelete r f) = f"
| "msg_fork (RRefForkRequest r f) = f"
| "msg_fork (RRefChildAccept f) = f"

definition used :: "sys \<Rightarrow> gid set" where
  "used s = {f. \<exists>x. occurs s f x} \<union> (msg_fork \<circ> snd) ` mail s \<union> acks s"

definition states_ok :: "rref_context \<Rightarrow> bool" where
  "states_ok c \<longleftrightarrow> (\<forall>i\<in>set (state_refs c). i < length (pstates c))"

definition refs_ok :: "rref_context \<Rightarrow> bool" where
  "refs_ok c \<longleftrightarrow> (\<forall>p\<in>set (strong_refs c). p < length (objs c)) \<and> states_ok c \<and>
     (\<forall>r p. map_of (owners c) r = Some p \<longrightarrow> rrefId (objs c ! p) = r \<and> forkId (objs c ! p) = None)"

definition node_ok :: "int \<Rightarrow> rref_context \<Rightarrow> bool" where
  "node_ok w c \<longleftrightarrow> self c = w \<and> \<not> destroyed c \<and> 0 \<le> nextLocalId c \<and> refs_ok c \<and>
     (\<forall>p<length (objs c). ownerId (objs c ! p) = createdOn (rrefId (objs c ! p)) \<and>
        (forkId (objs c ! p) = None \<longrightarrow> createdOn (rrefId (objs c ! p)) = w))"

fun msg_ok :: "sys \<Rightarrow> int \<times> rref_msg \<Rightarrow> bool" where
  "msg_ok s (d, RRefUserDelete r f) \<longleftrightarrow> (\<forall>r'. \<not> demanded s r' f)"
| "msg_ok s (d, RRefForkRequest r f) \<longleftrightarrow> d = createdOn r \<and> (\<forall>r'. demanded s r' f \<longrightarrow> r' = r)"
| "msg_ok s (d, RRefChildAccept f) \<longleftrightarrow> (\<forall>r. demanded s r f \<longrightarrow> reg s r f)"

definition born :: "sys \<Rightarrow> gid \<Rightarrow> bool" where
  "born s g \<longleftrightarrow> localId g < nextLocalId (node s (createdOn g))"

definition ids_ok :: "sys \<Rightarrow> bool" where
  "ids_ok s \<longleftrightarrow> (\<forall>g\<in>used s. born s g) \<and>
     (\<forall>f x y. occurs s f x \<longrightarrow> occurs s f y \<longrightarrow> x = y)"

definition sys_inv :: "sys \<Rightarrow> bool" where
  "sys_inv s \<longleftrightarrow> (\<forall>w. node_ok w (node s w) \<and> outbox (node s w) = []) \<and>
     (\<forall>(d, fd)\<in>calls s. fd_owner fd = createdOn (fd_rref fd)) \<and> ids_ok s \<and>
     (\<forall>r f. demanded s r f \<longrightarrow> anchored s r f) \<and>
     (\<forall>m\<in>mail s. msg_ok s m) \<and> (\<forall>f\<in>acks s. \<forall>r. demanded s r f \<longrightarrow> reg s r f)"

section \<open>Transfer of the invariant\<close>

lemma held_in_children: "map_of (pendingChildren c) f = Some p \<Longrightarrow> held c p"
  by (force simp: held_def strong_refs_def dest: map_of_SomeD)

lemma held_in_owners: "map_of (owners c) r = Some p \<Longrightarrow> held c p"
  by (force simp: held_def strong_refs_def dest: map_of_SomeD)

lemma occurs_simps [simp]:
  "occurs s f (Inl (d, fd)) \<longleftrightarrow> (d, fd) \<in> calls s \<and> fd_fork fd = f"
  "occurs s f (Inr (w, p)) \<longleftrightarrow> p < length (objs (node s w)) \<and> forkId (objs (node s w) ! p) = Some f"
  by (simp_all add: occurs_def)

lemma demanded_occurs:
  assumes "demanded s r f"
  obtains d fd where "occurs s f (Inl (d, fd))" "fd_rref fd = r"
  | w p where "occurs s f (Inr (w, p))" "held (node s w) p" "rrefId (objs (node s w) ! p) = r"
  using assms by (auto simp: demanded_def holds_def)

lemma demanded_used: "demanded s r f \<Longrightarrow> f \<in> used s"
  by (erule demanded_occurs) (unfold used_def, blast+)

lemma anchored_owner: "anchored s r f \<Longrightarrow> umap_has (owners (node s (createdOn r))) r"
  by (induction rule: anchored.induct) (auto simp: reg_def)

lemma anchored_transfer:
  assumes ok: "\<And>w. node_ok w (node s w)"
    and T1: "\<And>f. demanded s r f \<Longrightarrow> reg s r f \<Longrightarrow> reg s' r f"
    and T2: "\<And>w f p. map_of (pendingChildren (node s w)) f = Some p \<Longrightarrow> demanded s r f \<Longrightarrow>
        map_of (pendingChildren (node s' w)) f = Some p \<or> reg s' r f"
    and T3: "\<And>w p. p < length (objs (node s w)) \<Longrightarrow>
        forkId (objs (node s' w) ! p) = forkId (objs (node s w) ! p) \<and> rrefId (objs (node s' w) ! p) = rrefId (objs (node s w) ! p)"
  shows "anchored s r f \<Longrightarrow> demanded s r f \<Longrightarrow> anchored s' r f"
proof (induction rule: anchored.induct)
  case (base f)
  then show ?case using T1 anchored.base by blast
next
  case (link w f p g)
  have h: "held (node s w) p" using link(1) by (rule held_in_children)
  with ok [of w] have p: "p < length (objs (node s w))" by (auto simp: node_ok_def refs_ok_def held_def)
  have "demanded s r g" unfolding demanded_def holds_def using link(2,3) h p by blast
  with link have g: "anchored s' r g" by blast
  show ?case using T2 [OF link(1) link.prems]
  proof
    assume l: "map_of (pendingChildren (node s' w)) f = Some p"
    show ?thesis by (rule anchored.link [OF l _ _ g]) (use T3 [OF p] link in auto)
  qed (rule anchored.base)
qed

lemma sys_inv_step:
  assumes inv: "sys_inv s"
    and N: "\<And>w. node_ok w (node s' w) \<and> outbox (node s' w) = []"
    and C: "\<forall>(d, fd)\<in>calls s'. fd_owner fd = createdOn (fd_rref fd)" and I: "ids_ok s'"
    and T1: "\<And>r f. demanded s r f \<Longrightarrow> reg s r f \<Longrightarrow> reg s' r f"
    and T2: "\<And>w f p r. map_of (pendingChildren (node s w)) f = Some p \<Longrightarrow> demanded s r f \<Longrightarrow>
        map_of (pendingChildren (node s' w)) f = Some p \<or> reg s' r f"
    and T3: "\<And>w p. p < length (objs (node s w)) \<Longrightarrow>
        forkId (objs (node s' w) ! p) = forkId (objs (node s w) ! p) \<and> rrefId (objs (node s' w) ! p) = rrefId (objs (node s w) ! p)"
    and D: "\<And>r f. demanded s' r f \<Longrightarrow> demanded s r f \<or>
        f \<notin> used s \<and> ((\<forall>r f. demanded s r f \<longrightarrow> anchored s' r f) \<longrightarrow> anchored s' r f)"
    and M: "\<And>m. m \<in> mail s' \<Longrightarrow> m \<notin> mail s \<Longrightarrow> msg_ok s' m"
    and A: "\<And>f r. f \<in> acks s' \<Longrightarrow> f \<notin> acks s \<Longrightarrow> demanded s' r f \<Longrightarrow> reg s' r f"
  shows "sys_inv s'"
proof -
  have ok: "\<And>w. node_ok w (node s w)" and an: "\<And>r f. demanded s r f \<Longrightarrow> anchored s r f"
    and ml: "\<And>m. m \<in> mail s \<Longrightarrow> msg_ok s m" and ak: "\<And>f r. f \<in> acks s \<Longrightarrow> demanded s r f \<Longrightarrow> reg s r f"
    using inv by (auto simp: sys_inv_def)
  have kept: "\<forall>r f. demanded s r f \<longrightarrow> anchored s' r f"
    using anchored_transfer [OF ok T1 T2 T3] an by blast
  have dem: "demanded s r f" if "demanded s' r f" "f \<in> used s" for r f using D that by blast
  have "msg_ok s' m" if m: "m \<in> mail s'" for m
  proof (cases "m \<in> mail s")
    case True
    then have u: "msg_fork (snd m) \<in> used s" by (auto simp: used_def)
    show ?thesis using ml [OF True] u dem T1 by (cases "(s', m)" rule: msg_ok.cases) auto
  qed (use M m in blast)
  moreover have "reg s' r f" if "f \<in> acks s'" "demanded s' r f" for r f
  proof (cases "f \<in> acks s")
    case True
    then have "f \<in> used s" by (simp add: used_def)
    with True that dem ak T1 show ?thesis by blast
  qed (use A that in blast)
  moreover have "demanded s' r f \<Longrightarrow> anchored s' r f" for r f using D kept by blast
  ultimately show ?thesis using N C I unfolding sys_inv_def by blast
qed

section \<open>Steps of one worker that make no object\<close>

definition same_objs :: "rref_context \<Rightarrow> rref_context \<Rightarrow> bool" where
  "same_objs c c' \<longleftrightarrow> length (objs c') = length (objs c) \<and>
     (\<forall>p<length (objs c). forkId (objs c' ! p) = forkId (objs c ! p) \<and> rrefId (objs c' ! p) = rrefId (objs c ! p) \<and>
        ownerId (objs c' ! p) = ownerId (objs c ! p))"

text \<open>A message that deletes a user which the worker does not hold any more.\<close>

definition dead :: "rref_context \<Rightarrow> int \<times> rref_msg \<Rightarrow> bool" where
  "dead c m \<longleftrightarrow> (\<exists>p<length (objs c). \<exists>f. forkId (objs c ! p) = Some f \<and> \<not> held c p \<and>
     snd m = RRefUserDelete (rrefId (objs c ! p)) f)"

lemma dead_msg_ok:
  assumes "ids_ok s" and "dead (node s w) m"
  shows "msg_ok s m"
proof -
  obtain p f where p: "p < length (objs (node s w))" "forkId (objs (node s w) ! p) = Some f" "\<not> held (node s w) p"
    and m: "m = (fst m, RRefUserDelete (rrefId (objs (node s w) ! p)) f)"
    using assms(2) by (cases m) (auto simp: dead_def)
  have u: "occurs s f x \<Longrightarrow> x = Inr (w, p)" for x using assms(1) p by (auto simp: ids_ok_def)
  have "\<not> demanded s r f" for r
  proof
    assume "demanded s r f"
    then show False
      by (rule demanded_occurs) (use u p(3) in blast)+
  qed
  then show ?thesis by (subst m) simp
qed

lemma node_put [simp]: "node (put w c s) = (node s)(w := c\<lparr>outbox := []\<rparr>)" "calls (put w c s) = calls s"
  "mail (put w c s) = mail s \<union> set (outbox c)" "acks (put w c s) = acks s"
  by (simp_all add: put_def)

lemma drop_outbox [simp]: "held (c\<lparr>outbox := m\<rparr>) p = held c p" "node_ok w (c\<lparr>outbox := m\<rparr>) = node_ok w c"
  "forks_of (c\<lparr>outbox := m\<rparr>) r = forks_of c r" "dead (c\<lparr>outbox := m\<rparr>) k = dead c k"
  "holds (c\<lparr>outbox := m\<rparr>) p r f = holds c p r f" "strong_refs (c\<lparr>outbox := m\<rparr>) = strong_refs c"
  by (simp_all add: held_def strong_refs_def state_refs_def node_ok_def refs_ok_def states_ok_def forks_of_def dead_def holds_def)

lemma sys_inv_local:
  assumes inv: "sys_inv s" and s': "s' = (put w c s)\<lparr>calls := C, acks := acks s \<union> A\<rparr>" and C: "C \<subseteq> calls s"
    and ok: "node_ok w c" and objs: "same_objs (node s w) c" and refs: "set (strong_refs c) \<subseteq> set (strong_refs (node s w))"
    and lid: "nextLocalId (node s w) \<le> nextLocalId c"
    and pc: "\<And>f p r. map_of (pendingChildren (node s w)) f = Some p \<Longrightarrow> demanded s r f \<Longrightarrow> map_of (pendingChildren c) f = Some p \<or> reg s' r f"
    and T1: "\<And>r f. demanded s r f \<Longrightarrow> reg s r f \<Longrightarrow> reg s' r f"
    and M: "\<And>m. m \<in> set (outbox c) \<Longrightarrow> dead c m \<or> born s (msg_fork (snd m)) \<and> (ids_ok s' \<longrightarrow> msg_ok s' m)"
    and A: "\<And>f r. f \<in> A \<Longrightarrow> born s f \<and> (demanded s' r f \<longrightarrow> reg s' r f)"
  shows "sys_inv s'"
proof -
  have occ: "occurs s' f x \<Longrightarrow> occurs s f x" for f x
    using C objs by (cases x) (auto simp: s' same_objs_def split: if_splits)
  have hold: "holds (node s' v) p r f \<Longrightarrow> holds (node s v) p r f" for v p r f
    using objs refs by (auto simp: s' holds_def same_objs_def held_def split: if_splits)
  have cs: "calls s' \<subseteq> calls s" using C by (simp add: s')
  have ub: "\<forall>f\<in>used s. born s f" using inv by (simp add: sys_inv_def ids_ok_def)
  then have ob: "occurs s f x \<Longrightarrow> born s f" for f x by (auto simp: used_def)
  have used: "born s f" if "f \<in> used s'" for f
  proof -
    from that consider x where "occurs s' f x" | "f \<in> (msg_fork \<circ> snd) ` mail s \<union> acks s" | "f \<in> A"
      | m where "m \<in> set (outbox c)" "f = msg_fork (snd m)"
      by (auto simp: used_def s')
    then show ?thesis
    proof cases
      case 1
      then show ?thesis using occ ob by blast
    next
      case 2
      then show ?thesis using ub by (auto simp: used_def)
    next
      case 3
      then show ?thesis using A by blast
    next
      case 4
      from M [OF 4(1)] show ?thesis
      proof
        assume "dead c m"
        then obtain p where "occurs s' f (Inr (w, p))" using 4 by (auto simp: dead_def s')
        then show ?thesis using occ ob by blast
      qed (use 4 in simp)
    qed
  qed
  have nl: "born s f \<Longrightarrow> born s' f" for f using lid by (auto simp: s' born_def)
  have ids: "ids_ok s'"
    using inv used occ nl unfolding sys_inv_def ids_ok_def by blast
  show ?thesis
  proof (rule sys_inv_step [OF inv])
    show "node_ok v (node s' v) \<and> outbox (node s' v) = []" for v
      using inv ok by (auto simp: s' sys_inv_def)
    show "\<forall>(d, fd)\<in>calls s'. fd_owner fd = createdOn (fd_rref fd)"
      using inv C by (auto simp: s' sys_inv_def)
    show "forkId (objs (node s' v) ! p) = forkId (objs (node s v) ! p) \<and> rrefId (objs (node s' v) ! p) = rrefId (objs (node s v) ! p)"
      if "p < length (objs (node s v))" for v p
      using objs that by (auto simp: s' same_objs_def)
    show "map_of (pendingChildren (node s' v)) f = Some p \<or> reg s' r f"
      if "map_of (pendingChildren (node s v)) f = Some p" "demanded s r f" for v f p r
      using pc that by (auto simp: s')
    show "demanded s r f \<or> f \<notin> used s \<and> ((\<forall>r f. demanded s r f \<longrightarrow> anchored s' r f) \<longrightarrow> anchored s' r f)"
      if "demanded s' r f" for r f
      using that hold cs unfolding demanded_def by blast
    show "msg_ok s' m" if "m \<in> mail s'" "m \<notin> mail s" for m
      using M [of m] dead_msg_ok [OF ids, of w m] ids that by (auto simp: s')
    show "reg s' r f" if "f \<in> acks s'" "f \<notin> acks s" "demanded s' r f" for r f
      using A that by (auto simp: s')
  qed (fact ids T1)+
qed

section \<open>Steps that only let go of references\<close>

definition quiet :: "gid set \<Rightarrow> (int \<times> rref_msg) set \<Rightarrow> rref_context \<Rightarrow> rref_context \<Rightarrow> bool" where
  "quiet K X c c' \<longleftrightarrow> self c' = self c \<and> destroyed c' = destroyed c \<and> nextLocalId c' = nextLocalId c \<and>
     forks c' = forks c \<and> owners c' = owners c \<and>
     map_of (pendingChildren c') = (map_of (pendingChildren c)) |` (- K) \<and>
     same_objs c c' \<and> set (strong_refs c') \<subseteq> set (strong_refs c) \<and> (states_ok c \<longrightarrow> states_ok c') \<and>
     (\<exists>ms. outbox c' = outbox c @ ms \<and> (\<forall>m\<in>set ms. dead c' m \<or> m \<in> X))"

lemma same_objs_refl [simp]: "same_objs c c"
  by (simp add: same_objs_def)

lemma same_objs_trans: "same_objs c c1 \<Longrightarrow> same_objs c1 c2 \<Longrightarrow> same_objs c c2"
  by (simp add: same_objs_def)

lemma same_objs_upd:
  assumes "objs c' = (objs c)[p := g (objs c ! p)]"
    and "\<And>r. forkId (g r) = forkId r \<and> rrefId (g r) = rrefId r \<and> ownerId (g r) = ownerId r"
  shows "same_objs c c'"
  using assms by (cases "p < length (objs c)") (auto simp: same_objs_def nth_list_update)

lemma dead_mono:
  assumes "dead c m" and "same_objs c c'" and "set (strong_refs c') \<subseteq> set (strong_refs c)"
  shows "dead c' m"
  using assms by (fastforce simp: dead_def same_objs_def held_def)

lemma quiet_refl [simp]: "quiet {} {} c c"
  by (simp add: quiet_def restrict_map_def)

lemma quiet_trans:
  assumes "quiet K X c c1" and "quiet L Y c1 c2"
  shows "quiet (K \<union> L) (X \<union> Y) c c2"
proof -
  obtain ms where ms: "outbox c1 = outbox c @ ms" "\<forall>m\<in>set ms. dead c1 m \<or> m \<in> X" using assms(1) by (auto simp: quiet_def)
  obtain ns where ns: "outbox c2 = outbox c1 @ ns" "\<forall>m\<in>set ns. dead c2 m \<or> m \<in> Y" using assms(2) by (auto simp: quiet_def)
  have "\<forall>m\<in>set ms. dead c2 m \<or> m \<in> X" using ms(2) dead_mono [of c1 _ c2] assms(2) by (auto simp: quiet_def)
  with ms ns have "\<exists>ks. outbox c2 = outbox c @ ks \<and> (\<forall>m\<in>set ks. dead c2 m \<or> m \<in> X \<union> Y)"
    by (intro exI [of _ "ms @ ns"]) auto
  moreover have "map_of (pendingChildren c2) = (map_of (pendingChildren c)) |` (- (K \<union> L))"
    using assms by (auto simp: quiet_def restrict_map_def fun_eq_iff)
  ultimately show ?thesis
    using assms same_objs_trans [of c c1 c2] unfolding quiet_def by auto
qed

lemma quiet_then: "quiet K X c c1 \<Longrightarrow> quiet {} {} c1 c2 \<Longrightarrow> quiet K X c c2"
  using quiet_trans [of K X c c1 "{}" "{}" c2] by simp

lemma quiet_more: "quiet K {} c c1 \<Longrightarrow> quiet K X c c1"
  unfolding quiet_def by blast

lemma quiet_after: "quiet {} {} c c1 \<Longrightarrow> quiet K X c1 c2 \<Longrightarrow> quiet K X c c2"
  using quiet_trans [of "{}" "{}" c c1 K X c2] by simp

lemma strong_refs_tryDel [simp]: "strong_refs (tryDel p c) = strong_refs c" "state_refs (tryDel p c) = state_refs c"
  by (simp_all add: strong_refs_def state_refs_def)

lemma quiet_tryDel:
  assumes "\<not> held c p" and "p < length (objs c)"
  shows "quiet {} {} c (tryDel p c)"
proof -
  let ?r = "objs c ! p"
  have held': "held (tryDel p c) q = held c q" for q by (simp add: held_def)
  have "same_objs c (tryDel p c) \<and> (\<exists>ms. outbox (tryDel p c) = outbox c @ ms \<and> (\<forall>m\<in>set ms. dead (tryDel p c) m))"
  proof (cases "forkId ?r")
    case None
    then show ?thesis by (simp add: tryDel_def Let_def)
  next
    case (Some f)
    have same: "same_objs c (tryDel p c)"
    proof (cases "objs (tryDel p c) = objs c")
      case True
      then show ?thesis by (simp add: same_objs_def)
    next
      case False
      then have "objs (tryDel p c) = (objs c)[p := (\<lambda>r. r\<lparr>deletedOnOwner := True\<rparr>) (objs c ! p)]"
        using Some by (auto simp: tryDel_def Let_def delUser_def send_counted_def bindM_def upd_obj_def split: if_splits)
      then show ?thesis by (rule same_objs_upd) simp
    qed
    have "outbox (tryDel p c) = outbox c \<or> outbox (tryDel p c) = outbox c @ [(ownerId ?r, RRefUserDelete (rrefId ?r) f)]"
      using Some by (auto simp: tryDel_def Let_def delUser_def send_counted_def bindM_def upd_obj_def)
    moreover have "dead (tryDel p c) (ownerId ?r, RRefUserDelete (rrefId ?r) f)"
      using same Some assms by (auto simp: dead_def held' same_objs_def intro!: exI [of _ p])
    ultimately show ?thesis using same by auto
  qed
  then show ?thesis by (simp add: quiet_def restrict_map_def states_ok_def)
qed

lemma quiet_release: "p < length (objs c) \<Longrightarrow> quiet {} {} c (release p c)"
  using quiet_tryDel [of c p] by (simp add: release_def release_resources_def)

lemma quiet_same_length: "quiet K X c c' \<Longrightarrow> length (objs c') = length (objs c)"
  by (simp add: quiet_def same_objs_def)

lemma quiet_fold_release: "\<forall>p\<in>set ps. p < length (objs c) \<Longrightarrow> quiet {} {} c (fold release ps c)"
proof (induction ps arbitrary: c)
  case Nil
  then show ?case by simp
next
  case (Cons p ps)
  have q: "quiet {} {} c (release p c)" using Cons.prems by (simp add: quiet_release)
  then have "quiet {} {} (release p c) (fold release ps (release p c))"
    using Cons by (simp add: quiet_same_length)
  with q show ?case by (simp add: quiet_then)
qed

lemma quiet_refs_ok: "quiet K X c c' \<Longrightarrow> refs_ok c \<Longrightarrow> refs_ok c'"
  using held_in_owners [of c] unfolding quiet_def refs_ok_def same_objs_def held_def by (metis subsetD)

lemma quiet_node_ok: "quiet K X c c' \<Longrightarrow> node_ok w c \<Longrightarrow> node_ok w c'"
  using quiet_refs_ok [of K X c c'] unfolding quiet_def node_ok_def same_objs_def by auto

lemma sys_inv_quiet:
  assumes inv: "sys_inv s" and q: "quiet K X (node s w) c"
    and K: "\<And>f r. f \<in> K \<Longrightarrow> demanded s r f \<Longrightarrow> reg s r f"
    and X: "\<And>m. m \<in> X \<Longrightarrow> born s (msg_fork (snd m)) \<and> (ids_ok (put w c s) \<longrightarrow> msg_ok (put w c s) m)"
  shows "sys_inv (put w c s)"
proof (rule sys_inv_local [OF inv, where C = "calls s" and A = "{}"])
  have n: "node_ok w (node s w)" "outbox (node s w) = []" using inv by (auto simp: sys_inv_def)
  show "node_ok w c" by (rule quiet_node_ok [OF q n(1)])
  have reg: "reg (put w c s) r f = reg s r f" for r f
    using q by (simp add: reg_def forks_of_def quiet_def)
  then show "reg (put w c s) r f" if "demanded s r f" "reg s r f" for r f using that by simp
  show "map_of (pendingChildren c) f = Some p \<or> reg (put w c s) r f"
    if "map_of (pendingChildren (node s w)) f = Some p" "demanded s r f" for f p r
    using q that K [of f r] unfolding quiet_def reg by (auto simp: restrict_map_def)
  show "dead c m \<or> born s (msg_fork (snd m)) \<and> (ids_ok (put w c s) \<longrightarrow> msg_ok (put w c s) m)" if "m \<in> set (outbox c)" for m
    using q that n(2) X [of m] by (auto simp: quiet_def)
qed (use q in \<open>auto simp: quiet_def put_def\<close>)

section \<open>Quiet operations of a context\<close>

lemma alist_delete_subset: "set (AList.delete k m) \<subseteq> set m"
  by (simp add: AList.delete_eq)

lemma alist_update_subset: "set (AList.update k v m) \<subseteq> insert (k, v) (set m)"
  by (induction m) auto

lemma set_strong_refs:
  "set (strong_refs c) = set (handles c) \<union> snd ` set (owners c) \<union> snd ` set (pendingChildren c)
     \<union> (\<lambda>i. ps_rref (pstates c ! i)) ` set (state_refs c)"
  by (auto simp: strong_refs_def)

lemma set_state_refs: "set (state_refs c) = snd ` set (pendingUsers c) \<union> (\<Union>(t, is)\<in>set (userTable c). set is)"
  by (force simp: state_refs_def)

lemma refs_frame [simp]:
  "strong_refs (c\<lparr>numPendingFutures := n\<rparr>) = strong_refs c" "state_refs (c\<lparr>numPendingFutures := n\<rparr>) = state_refs c"
  "strong_refs (c\<lparr>forkRequests := fr\<rparr>) = strong_refs c" "state_refs (c\<lparr>forkRequests := fr\<rparr>) = state_refs c"
  "strong_refs (c\<lparr>forks := fs\<rparr>) = strong_refs c" "state_refs (c\<lparr>forks := fs\<rparr>) = state_refs c"
  "strong_refs (c\<lparr>nextLocalId := i\<rparr>) = strong_refs c" "state_refs (c\<lparr>nextLocalId := i\<rparr>) = state_refs c"
  "state_refs (c\<lparr>outbox := m\<rparr>) = state_refs c" "state_refs (c\<lparr>owners := os\<rparr>) = state_refs c"
  by (simp_all add: strong_refs_def state_refs_def)

lemma quiet_frame:
  assumes "self c' = self c" "destroyed c' = destroyed c" "nextLocalId c' = nextLocalId c" "forks c' = forks c"
    "owners c' = owners c" "pendingChildren c' = pendingChildren c" "same_objs c c'" "outbox c' = outbox c"
    "set (handles c') \<subseteq> set (handles c)" "set (state_refs c') \<subseteq> set (state_refs c)"
    "length (pstates c') = length (pstates c)" "\<And>i. ps_rref (pstates c' ! i) = ps_rref (pstates c ! i)"
  shows "quiet {} {} c c'"
  using assms by (auto simp: quiet_def restrict_map_def set_strong_refs states_ok_def)

lemma ps_rref_upd [simp]:
  "ps_rref x = ps_rref (ps ! st) \<Longrightarrow> ps_rref (ps[st := x] ! i) = ps_rref (ps ! i)"
  by (cases "st = i"; cases "st < length ps") (simp_all add: list_update_beyond)

lemma quiet_drop_handle:
  assumes "refs_ok c"
  shows "quiet {} {} c (drop_handle p c)"
proof (cases "p \<in> set (handles c)")
  case True
  let ?c = "c\<lparr>handles := remove1 p (handles c)\<rparr>"
  have "quiet {} {} c ?c" by (rule quiet_frame) (auto simp: state_refs_def same_objs_def dest: set_remove1_subset [THEN subsetD])
  moreover have "p < length (objs ?c)" using True assms by (auto simp: refs_ok_def set_strong_refs)
  ultimately show ?thesis using True quiet_release [of p ?c] by (simp add: drop_handle_def quiet_then)
qed (simp add: drop_handle_def)

lemma quiet_delPendingChild:
  assumes "refs_ok c"
  shows "quiet {f} {} c (delPendingChild f c)"
proof (cases "map_of (pendingChildren c) f")
  case None
  then show ?thesis by (auto simp: delPendingChild_def quiet_def restrict_map_def fun_eq_iff)
next
  case (Some p)
  let ?c = "c\<lparr>pendingChildren := AList.delete f (pendingChildren c)\<rparr>"
  have "set (strong_refs ?c) \<subseteq> set (strong_refs c)"
    using alist_delete_subset [of f "pendingChildren c"] by (auto simp: set_strong_refs state_refs_def)
  then have q: "quiet {f} {} c ?c"
    by (simp add: quiet_def states_ok_def state_refs_def same_objs_def AList.delete_conv restrict_map_def fun_eq_iff)
  have "p < length (objs ?c)" using held_in_children [OF Some] assms by (auto simp: refs_ok_def held_def)
  with q Some show ?thesis using quiet_release [of p ?c] by (simp add: delPendingChild_def quiet_then)
qed

lemma quiet_confirm: "quiet {} {} c (confirm st c)"
proof -
  let ?ps = "pstates c ! st"
  let ?c = "(upd_obj (ps_rref ?ps) (\<lambda>r. r\<lparr>confirmedByOwner := True\<rparr>) c)\<lparr>pstates := (pstates c)[st :=
     ?ps\<lparr>ps_done := markCompleted (ps_done ?ps), ps_waiters := []\<rparr>]\<rparr>"
  obtain ws where "confirm st c = ?c\<lparr>waits := ws\<rparr>"
    using fold_wait_callback [of "ps_waiters ?ps" ?c] by (auto simp: confirm_def Let_def upd_obj_def)
  moreover have "quiet {} {} c (?c\<lparr>waits := ws\<rparr>)"
    by (rule quiet_frame) (auto simp: upd_obj_def state_refs_def intro!: same_objs_upd)
  ultimately show ?thesis by simp
qed

lemma quiet_delPendingUser:
  assumes "refs_ok c"
  shows "quiet {} {} c (snd (delPendingUser f c))"
proof (cases "map_of (pendingUsers c) f")
  case None
  then show ?thesis by (simp add: delPendingUser_def bindM_def throwM_def getM_def)
next
  case (Some st)
  let ?p = "ps_rref (pstates c ! st)"
  let ?c = "(addConfirmedUser f ?p c)\<lparr>pendingUsers := AList.delete f (pendingUsers c)\<rparr>"
  have "quiet {} {} c ?c"
    by (rule quiet_frame) (use alist_delete_subset [of f "pendingUsers c"] in \<open>auto simp: set_state_refs same_objs_def\<close>)
  then have q: "quiet {} {} c (confirm st ?c)" by (rule quiet_then [OF _ quiet_confirm])
  have "st \<in> set (state_refs c)" using map_of_SomeD [OF Some] by (force simp: set_state_refs)
  then have "?p \<in> set (strong_refs c)" by (simp add: set_strong_refs)
  then have "?p < length (objs (confirm st ?c))" using assms quiet_same_length [OF q] by (simp add: refs_ok_def)
  then have "quiet {} {} c (release ?p (confirm st ?c))" by (rule quiet_then [OF q quiet_release])
  moreover have "snd (delPendingUser f c) = release ?p (confirm st ?c)"
    using Some by (simp add: delPendingUser_def bindM_def Let_def)
  ultimately show ?thesis by simp
qed

lemma quiet_send:
  assumes "send_counted w m c = (res, c')"
  shows "quiet {} {(w, m)} c c'"
proof -
  have "c' = c\<lparr>numPendingFutures := numPendingFutures c + 1\<rparr> \<or>
     c' = c\<lparr>numPendingFutures := numPendingFutures c + 1, outbox := outbox c @ [(w, m)]\<rparr>"
    using assms by (auto simp: send_counted_def bindM_def checkM_def split: if_splits)
  then show ?thesis by (elim disjE) (simp_all add: quiet_def restrict_map_def same_objs_def states_ok_def)
qed

lemma quiet_fold: "(\<And>x c. quiet {} {} c (g x c)) \<Longrightarrow> quiet {} {} c (fold g xs c)"
  by (induction xs arbitrary: c) (auto intro: quiet_then)

lemma quiet_add_wait: "quiet {} {} c (add_wait w st c)"
  by (rule quiet_frame) (auto simp: add_wait_fields state_refs_def same_objs_def)

lemma quiet_clear_table:
  assumes "refs_ok c"
  shows "quiet {} {} c (clear_table t c)"
proof -
  let ?c = "c\<lparr>userTable := AList.update t [] (userTable c)\<rparr>"
  have q: "quiet {} {} c ?c"
    by (rule quiet_frame) (use alist_update_subset [of t "[]" "userTable c"] in \<open>auto simp: set_state_refs same_objs_def\<close>)
  have "set (thread_table c t) \<subseteq> set (state_refs c)"
    by (cases "map_of (userTable c) t") (force simp: set_state_refs thread_table_def umap_at_def dest: map_of_SomeD)+
  then have "\<forall>p\<in>set (remdups (map (\<lambda>i. ps_rref (pstates c ! i)) (thread_table c t))). p < length (objs ?c)"
    using assms by (auto simp: refs_ok_def set_strong_refs)
  then show ?thesis using quiet_then [OF q quiet_fold_release] by (simp add: clear_table_def Let_def)
qed

lemma quiet_recording: "quiet {} {} c c1 \<Longrightarrow> quiet {} {} c (c1\<lparr>recording := ts\<rparr>)"
  by (erule quiet_then, rule quiet_frame) (auto simp: state_refs_def same_objs_def)

lemma quiet_wait:
  assumes "refs_ok c" and "waitForThreadLocalPendingRRefs t c = (i, c')"
  shows "quiet {} {} c c'"
proof -
  have w: "quiet {} {} c (c\<lparr>waits := ws\<rparr>)" for ws
    by (rule quiet_frame) (auto simp: state_refs_def same_objs_def)
  then have f: "quiet {} {} c (fold (add_wait v) tab (c\<lparr>waits := ws\<rparr>))" for v tab ws
    by (rule quiet_then) (rule quiet_fold [OF quiet_add_wait])
  then have "quiet {} {} c (clear_table t (fold (add_wait v) tab (c\<lparr>waits := ws\<rparr>)))" for v tab ws
    by (rule quiet_then) (rule quiet_clear_table [OF quiet_refs_ok [OF f assms(1)]])
  with w show ?thesis using assms(2)
    by (auto simp: waitForThreadLocalPendingRRefs_def Let_def intro!: quiet_recording split: if_splits)
qed

lemma quiet_forkRequest_callback:
  assumes "refs_ok c" and "forkRequest_callback err f parent (take_request f parent c) = (res, c')"
  shows "quiet {} (if err = None then {(parent, RRefChildAccept f)} else {}) c c'"
proof -
  let ?c = "take_request f parent c"
  have q: "quiet {} {} c ?c" by (rule quiet_frame) (auto simp: take_request_def same_objs_def)
  show ?thesis
  proof (cases err)
    case None
    obtain d c1 where d: "delPendingUser f ?c = (d, c1)" by (cases "delPendingUser f ?c")
    have q1: "quiet {} {} c c1"
      using quiet_then [OF q quiet_delPendingUser [OF quiet_refs_ok [OF q assms(1)], of f]] d by simp
    obtain e c2 where e: "send_counted parent (RRefChildAccept f) c1 = (e, c2)" by (cases "send_counted parent (RRefChildAccept f) c1")
    have q2: "quiet {} {(parent, RRefChildAccept f)} c c2" by (rule quiet_after [OF q1 quiet_send [OF e]])
    have q3: "quiet {} {} c2 (c2\<lparr>numPendingFutures := numPendingFutures c2 - 1\<rparr>)"
      by (rule quiet_frame) (auto simp: same_objs_def)
    show ?thesis
      using assms(2) None d e q2 quiet_then [OF q2 q3] quiet_more [OF q1]
      by (cases d; cases e) (auto simp: forkRequest_callback_def finishForkRequest_def bindM_def handleException_def liftM_def)
  next
    case (Some x)
    then show ?thesis using assms(2) q by (simp add: forkRequest_callback_def bindM_def handleException_def liftM_def)
  qed
qed

section \<open>Steps that change the tables of an owner, make an object or a call\<close>

lemma sys_invD:
  assumes "sys_inv s"
  shows "node_ok w (node s w)" "outbox (node s w) = []" "refs_ok (node s w)" "self (node s w) = w" "ids_ok s"
    "(d, fd) \<in> calls s \<Longrightarrow> fd_owner fd = createdOn (fd_rref fd)" "demanded s r f \<Longrightarrow> anchored s r f"
    "m \<in> mail s \<Longrightarrow> msg_ok s m" "f \<in> acks s \<Longrightarrow> demanded s r f \<Longrightarrow> reg s r f" "f \<in> used s \<Longrightarrow> born s f"
  using assms by (auto simp: sys_inv_def node_ok_def ids_ok_def)

lemma demanded_put_same:
  assumes "same_objs (node s w) c" and "set (strong_refs c) \<subseteq> set (strong_refs (node s w))"
    and "demanded ((put w c s)\<lparr>calls := C, acks := B\<rparr>) r f" and "C \<subseteq> calls s"
  shows "demanded s r f"
proof -
  have "holds c p r f \<Longrightarrow> holds (node s w) p r f" for p
    using assms(1,2) by (auto simp: holds_def same_objs_def held_def)
  then show ?thesis using assms(3,4) by (auto simp: demanded_def split: if_splits) blast+
qed

lemma put_same: "(put w c s)\<lparr>calls := calls s, acks := acks s\<rparr> = put w c s"
  by (simp add: put_def)

lemma delForkOfOwner_frame:
  assumes "delForkOfOwner r f c = (d, c')"
  obtains fs os where "c' = c\<lparr>forks := fs, owners := os\<rparr>" "set os \<subseteq> set (owners c)"
proof (cases rule: delForkOfOwner_cases [of c r f])
  case absent
  with assms that [of "owners c" "forks c"] show thesis by simp
next
  case (last fs)
  with assms that [of "AList.delete r (owners c)"] alist_delete_subset [of r "owners c"] show thesis by auto
next
  case (others fs)
  with assms have c': "c' = c\<lparr>forks := AList.update r (removeAll f fs) (forks c), owners := owners c\<rparr>" by auto
  show thesis by (rule that [OF c']) simp
qed

lemma sys_inv_user_delete:
  assumes inv: "sys_inv s" and nd: "\<And>r'. \<not> demanded s r' f" and c: "c = snd (delForkOfOwner r f (node s w))"
  shows "sys_inv (put w c s)"
proof (rule sys_inv_local [OF inv, where C = "calls s" and A = "{}"])
  let ?c = "node s w"
  obtain d where d: "delForkOfOwner r f ?c = (d, c)" using c by (cases "delForkOfOwner r f ?c") simp
  obtain fs os where fr: "c = ?c\<lparr>forks := fs, owners := os\<rparr>" "set os \<subseteq> set (owners ?c)"
    by (rule delForkOfOwner_frame [OF d])
  have same: "objs c = objs ?c" "nextLocalId c = nextLocalId ?c" "pendingChildren c = pendingChildren ?c" "outbox c = []"
    "self c = self ?c" "destroyed c = destroyed ?c" "handles c = handles ?c" "pstates c = pstates ?c" "state_refs c = state_refs ?c"
    using fr sys_invD(2) [OF inv] by simp_all
  show sub: "set (strong_refs c) \<subseteq> set (strong_refs (node s w))"
    using fr by (auto simp: set_strong_refs same)
  note eff = delForkOfOwner_effect [OF d]
  have own: "map_of (owners c) r' = Some p \<Longrightarrow> map_of (owners ?c) r' = Some p" for r' p
    using eff by (cases "r' = r") (auto split: if_splits)
  have "refs_ok c" using sys_invD(3) [OF inv, of w] own sub unfolding refs_ok_def states_ok_def same by blast
  then show "node_ok w c" using sys_invD(1) [OF inv, of w] unfolding node_ok_def same by blast
  show "reg (put w c s) r' f'" if "demanded s r' f'" "reg s r' f'" for r' f'
  proof (cases "createdOn r' = w \<and> r' = r")
    case True
    moreover have "f' \<noteq> f" using nd that by blast
    ultimately show ?thesis using eff that(2) by (auto simp: reg_def umap_has_def)
  next
    case False
    then show ?thesis using eff that(2) by (auto simp: reg_def umap_has_def forks_of_def umap_at_def)
  qed
  show "same_objs (node s w) c" by (simp add: same_objs_def same)
  show "nextLocalId (node s w) \<le> nextLocalId c" by (simp add: same)
  show "map_of (pendingChildren c) f' = Some p \<or> reg (put w c s) r' f'"
    if "map_of (pendingChildren (node s w)) f' = Some p" for f' p r' using that by (simp add: same)
  show "dead c m \<or> born s (msg_fork (snd m)) \<and> (ids_ok (put w c s) \<longrightarrow> msg_ok (put w c s) m)"
    if "m \<in> set (outbox c)" for m using that by (simp add: same)
qed (auto simp: put_def)

lemma sys_inv_fork_request:
  assumes inv: "sys_inv s" and m: "(w, RRefForkRequest r f) \<in> mail s" and c: "c = addForkOfOwnerIfNotPresent r f (node s w)"
  shows "sys_inv ((put w c s)\<lparr>acks := insert f (acks s)\<rparr>)"
proof (rule sys_inv_local [OF inv, where C = "calls s" and A = "{f}"])
  let ?c = "node s w" and ?s = "(put w c s)\<lparr>acks := insert f (acks s)\<rparr>"
  obtain fs where fr: "c = ?c\<lparr>forks := fs\<rparr>"
    using that c by (cases "f \<in> set (forks_of ?c r)") (simp_all add: addForkOfOwnerIfNotPresent_def touch_forks_def insert_fork_def Let_def)
  have w: "w = createdOn r" and only: "\<And>r'. demanded s r' f \<Longrightarrow> r' = r" using sys_invD(8) [OF inv m] by auto
  have fs: "set (forks_of c r') = (if r' = r then insert f (set (forks_of ?c r)) else set (forks_of ?c r'))" for r'
    unfolding c by simp
  have ow: "owners c = owners ?c" by (simp add: fr)
  have reg: "reg s r' f' \<Longrightarrow> reg ?s r' f'" for r' f' by (auto simp: reg_def fs ow)
  then show "reg ?s r' f'" if "demanded s r' f'" "reg s r' f'" for r' f' using that by blast
  show "node_ok w c" using sys_invD(1) [OF inv, of w] by (simp add: fr node_ok_def refs_ok_def states_ok_def)
  have "f \<in> used s" using m by (force simp: used_def)
  moreover have "reg ?s r' f" if "demanded ?s r' f" for r'
  proof -
    have "demanded s r' f"
      using that demanded_put_same [of s w c "insert f (acks s)" "calls s" r' f] by (simp add: fr same_objs_def put_def)
    then have "r' = r" "umap_has (owners ?c) r" using only anchored_owner [OF sys_invD(7) [OF inv]] w by auto
    then show ?thesis using w by (simp add: reg_def fs ow)
  qed
  ultimately show "born s f' \<and> (demanded ?s r' f' \<longrightarrow> reg ?s r' f')" if "f' \<in> {f}" for f' r'
    using that sys_invD(10) [OF inv] by auto
qed (use sys_invD(2) [OF inv] in \<open>auto simp: put_def same_objs_def c addForkOfOwnerIfNotPresent_def touch_forks_def insert_fork_def Let_def\<close>)

text \<open>A new object of a worker takes over the fork of the call that brought it.\<close>

lemma sys_inv_grow:
  assumes inv: "sys_inv s" and n: "nextLocalId (node s w) \<le> n"
    and c: "c = (node s w)\<lparr>objs := objs (node s w) @ [x], handles := length (objs (node s w)) # handles (node s w), nextLocalId := n\<rparr>"
    and x: "ownerId x = createdOn (rrefId x)" "forkId x = None \<Longrightarrow> createdOn (rrefId x) = w"
    and C: "C \<subseteq> calls s"
    and call: "\<And>f. forkId x = Some f \<Longrightarrow> \<exists>d fd. (d, fd) \<in> calls s \<and> (d, fd) \<notin> C \<and> fd_fork fd = f \<and> fd_rref fd = rrefId x"
  shows "sys_inv ((put w c s)\<lparr>calls := C\<rparr>)"
proof (rule sys_inv_step [OF inv])
  let ?s = "(put w c s)\<lparr>calls := C\<rparr>" and ?n = "length (objs (node s w))"
  have ok: "node_ok w (node s w)" "outbox (node s w) = []" using sys_invD [OF inv] by auto
  have uniq: "\<And>f x y. occurs s f x \<Longrightarrow> occurs s f y \<Longrightarrow> x = y" using sys_invD(5) [OF inv] by (simp add: ids_ok_def)
  have ix: "p < Suc ?n \<Longrightarrow> objs c ! p = (if p = ?n then x else objs (node s w) ! p)" for p by (simp add: c nth_append)
  have lc: "length (objs c) = Suc ?n" by (simp add: c)
  have srefs: "set (strong_refs c) = insert ?n (set (strong_refs (node s w)))"
    by (auto simp: c set_strong_refs state_refs_def)
  have occ: "occurs s f y \<or> forkId x = Some f \<and> y = Inr (w, ?n)" if "occurs ?s f y" for f y
    using that C by (cases y) (auto simp: lc ix less_Suc_eq split: if_splits)
  have dem: "demanded s r f" if "demanded ?s r f" for r f
    using that
  proof (rule demanded_occurs)
    fix d fd assume "occurs ?s f (Inl (d, fd))" "fd_rref fd = r"
    then show ?thesis using C by (auto simp: demanded_def)
  next
    fix v p assume a: "occurs ?s f (Inr (v, p))" "held (node ?s v) p" "rrefId (objs (node ?s v) ! p) = r"
    show ?thesis
    proof (cases "v = w \<and> p = ?n")
      case True
      then have "forkId x = Some f" "r = rrefId x" using a by (auto simp: c)
      then show ?thesis using call by (auto simp: demanded_def)
    next
      case False
      then have "holds (node s v) p r f" using a
        by (auto simp: holds_def held_def srefs lc ix split: if_splits)
      then show ?thesis by (auto simp: demanded_def)
    qed
  qed
  then show "demanded s r f \<or> f \<notin> used s \<and> ((\<forall>r f. demanded s r f \<longrightarrow> anchored ?s r f) \<longrightarrow> anchored ?s r f)"
    if "demanded ?s r f" for r f using that by blast
  show "node_ok v (node ?s v) \<and> outbox (node ?s v) = []" for v
  proof (cases "v = w")
    case True
    have ro: "refs_ok (node s w)" using ok by (simp add: node_ok_def)
    have "rrefId (objs c ! p) = r \<and> forkId (objs c ! p) = None" if "map_of (owners c) r = Some p" for r p
    proof -
      have m: "map_of (owners (node s w)) r = Some p" using that by (simp add: c)
      then have "p < ?n" using held_in_owners [OF m] ro by (auto simp: refs_ok_def held_def)
      then show ?thesis using m ro by (simp add: ix refs_ok_def)
    qed
    moreover have "\<forall>p\<in>set (strong_refs c). p < length (objs c)"
      using ro unfolding refs_ok_def srefs lc by (auto simp: less_Suc_eq)
    moreover have "states_ok c" using ro by (simp add: refs_ok_def states_ok_def c state_refs_def)
    ultimately have "refs_ok c" unfolding refs_ok_def by blast
    moreover have "ownerId (objs c ! p) = createdOn (rrefId (objs c ! p)) \<and> (forkId (objs c ! p) = None \<longrightarrow> createdOn (rrefId (objs c ! p)) = w)"
      if "p < length (objs c)" for p using that ok(1) x by (auto simp: node_ok_def lc ix less_Suc_eq)
    moreover have "self c = w" "\<not> destroyed c" "0 \<le> nextLocalId c" using ok(1) n by (auto simp: c node_ok_def)
    ultimately have "node_ok w c" unfolding node_ok_def by blast
    then show ?thesis using True by simp
  qed (use sys_invD [OF inv] in simp)
  show "\<forall>(d, fd)\<in>calls ?s. fd_owner fd = createdOn (fd_rref fd)" using sys_invD(6) [OF inv] C by auto
  show "forkId (objs (node ?s v) ! p) = forkId (objs (node s v) ! p) \<and> rrefId (objs (node ?s v) ! p) = rrefId (objs (node s v) ! p)"
    if "p < length (objs (node s v))" for v p using that by (auto simp: c nth_append)
  have "used ?s \<subseteq> used s"
    using occ call ok(2) unfolding used_def by (auto simp: c) (metis occurs_simps(1))
  then have "\<forall>f\<in>used ?s. born ?s f" using sys_invD(10) [OF inv] n by (fastforce simp: born_def c)
  moreover have "y = z" if "occurs ?s f y" "occurs ?s f z" for f y z
  proof -
    have "\<not> occurs ?s f u" if f: "forkId x = Some f" and u: "occurs s f u" for u
    proof -
      obtain d fd where d: "(d, fd) \<in> calls s" "(d, fd) \<notin> C" "fd_fork fd = f" using call [OF f] by blast
      have "u = Inl (d, fd)" using uniq [OF u, of "Inl (d, fd)"] d by simp
      then show ?thesis using d(2) by simp
    qed
    then show ?thesis using occ [OF that(1)] occ [OF that(2)] that uniq by blast
  qed
  ultimately show "ids_ok ?s" unfolding ids_ok_def by blast
qed (use sys_invD(2) [OF inv] in \<open>auto simp: c reg_def forks_of_def\<close>)

lemma sys_inv_create:
  assumes inv: "sys_inv s" and n: "nextLocalId (node s w) < int64_max" and c: "createOwnerRRef ty (node s w) = (res, c)"
  shows "sys_inv (put w c s)"
proof -
  let ?c = "node s w" and ?x = "OwnerRRef w \<lparr>createdOn = w, localId = nextLocalId (node s w)\<rparr> ty"
  have ok: "0 \<le> nextLocalId ?c" "self ?c = w" using sys_invD(1) [OF inv, of w] by (auto simp: node_ok_def)
  have "c = ?c\<lparr>objs := objs ?c @ [?x], handles := length (objs ?c) # handles ?c, nextLocalId := nextLocalId ?c + 1\<rparr>"
    using c ok wrap64_Suc [OF ok(1) n] by (auto simp: createOwnerRRef_def bindM_def genGloballyUniqueId_def make_obj_def)
  then have "sys_inv ((put w c s)\<lparr>calls := calls s\<rparr>)"
    by (rule sys_inv_grow [OF inv, rotated]) (simp_all add: OwnerRRef_def)
  then show ?thesis by (simp add: put_def)
qed

lemma sys_inv_call:
  assumes inv: "sys_inv s" and f: "fd_fork fd \<notin> used s" "born s (fd_fork fd)" "anchored s (fd_rref fd) (fd_fork fd)"
    and own: "fd_owner fd = createdOn (fd_rref fd)"
  shows "sys_inv (s\<lparr>calls := insert (d, fd) (calls s)\<rparr>)"
proof (rule sys_inv_step [OF inv])
  let ?s = "s\<lparr>calls := insert (d, fd) (calls s)\<rparr>"
  have occ: "occurs ?s g x \<longleftrightarrow> occurs s g x \<or> g = fd_fork fd \<and> x = Inl (d, fd)" for g x
    by (cases x) auto
  have no: "\<not> occurs s (fd_fork fd) x" for x using f(1) by (auto simp: used_def)
  have "used ?s \<subseteq> insert (fd_fork fd) (used s)" using occ by (auto simp: used_def)
  then have "\<forall>g\<in>used ?s. born ?s g" using f(2) sys_invD(10) [OF inv] by (auto simp: born_def)
  moreover have "x = y" if "occurs ?s g x" "occurs ?s g y" for g x y
    using that sys_invD(5) [OF inv] no unfolding occ ids_ok_def by (cases "g = fd_fork fd") auto
  ultimately show "ids_ok ?s" unfolding ids_ok_def by blast
  have an: "anchored ?s r g" if "anchored s r g" for r g
    using that by induction (auto simp: reg_def intro: anchored.intros)
  have "demanded ?s r g \<longleftrightarrow> demanded s r g \<or> r = fd_rref fd \<and> g = fd_fork fd" for r g
    by (auto simp: demanded_def)
  then show "demanded s r g \<or> g \<notin> used s \<and> ((\<forall>r f. demanded s r f \<longrightarrow> anchored ?s r f) \<longrightarrow> anchored ?s r g)"
    if "demanded ?s r g" for r g using that f(1) an [OF f(3)] by blast
  show "node_ok v (node ?s v) \<and> outbox (node ?s v) = []" for v using sys_invD [OF inv] by simp
qed (use sys_invD(6) [OF inv] own in \<open>auto simp: reg_def\<close>)

text \<open>Preparing a fork advances the counter and enters the fork with the owner or the pending children.\<close>

lemma prepareChildFork_effect:
  assumes "prepareChildFork te p c = (res, c')" and "0 \<le> nextLocalId c" and "nextLocalId c < int64_max"
  obtains m fs os pc where "c' = c\<lparr>nextLocalId := m, forks := fs, owners := os, pendingChildren := pc\<rparr>"
    "nextLocalId c \<le> m" "\<And>r. set (forks_of c r) \<subseteq> set (umap_at [] fs r)"
    "os = owners c \<or> isOwner (objs c ! p) \<and> os = AList.update (rrefId (objs c ! p)) p (owners c)"
    "\<And>g q. map_of (pendingChildren c) g = Some q \<Longrightarrow> map_of pc g = Some q"
    "pc = pendingChildren c \<or> (\<exists>g. pc = AList.update g p (pendingChildren c))"
    "\<And>fd. res = Inr fd \<Longrightarrow> fd_fork fd = \<lparr>createdOn = self c, localId = nextLocalId c\<rparr> \<and> fd_rref fd = rrefId (objs c ! p)
        \<and> fd_owner fd = ownerId (objs c ! p) \<and> m = nextLocalId c + 1
        \<and> (if isOwner (objs c ! p) then fd_fork fd \<in> set (umap_at [] fs (fd_rref fd)) \<and> umap_has os (fd_rref fd)
           else map_of pc (fd_fork fd) = Some p)"
proof -
  let ?r = "objs c ! p" and ?f = "\<lparr>createdOn = self c, localId = nextLocalId c\<rparr>"
  note defs = prepareChildFork_def fork_def genGloballyUniqueId_def addForkOfOwner_def addPendingChild_def bindM_def
    touch_forks_def insert_fork_def wrap64_Suc [OF assms(2,3)]
  have keep: "set (forks_of c r) \<subseteq> set (umap_at [] (AList.update q (forks_of c q) (forks c)) r)" for r q
    by (simp add: forks_of_def)
  show thesis
  proof (cases "timedOut ?r \<or> \<not> isOwner ?r \<and> deletedOnOwner ?r")
    case True
    then have "c' = c \<and> (\<exists>e. res = Inl e)" using assms(1) by (cases "timedOut ?r") (auto simp: defs)
    then show thesis by (intro that [of "pendingChildren c" "owners c" "forks c" "nextLocalId c"]) (auto simp: forks_of_def)
  next
    case False
    show thesis
    proof (cases "isOwner ?r")
      case o: True
      show thesis
      proof (cases "?f \<in> set (forks_of c (rrefId ?r))")
        case True
        then have "c' = c\<lparr>nextLocalId := nextLocalId c + 1, forks := AList.update (rrefId ?r) (forks_of c (rrefId ?r)) (forks c)\<rparr> \<and> (\<exists>e. res = Inl e)"
          using assms(1) o False by (auto simp: defs forks_of_def)
        then show thesis
          by (intro that [of "pendingChildren c" "owners c" "AList.update (rrefId ?r) (forks_of c (rrefId ?r)) (forks c)" "nextLocalId c + 1"])
            (auto simp: forks_of_def)
      next
        case new: False
        let ?fs = "AList.update (rrefId ?r) (List.insert ?f (forks_of c (rrefId ?r))) (AList.update (rrefId ?r) (forks_of c (rrefId ?r)) (forks c))"
        have "c' = c\<lparr>nextLocalId := nextLocalId c + 1, forks := ?fs, owners := AList.update (rrefId ?r) p (owners c)\<rparr> \<and>
            (\<exists>t. res = Inr \<lparr>fd_owner = ownerId ?r, fd_rref = rrefId ?r, fd_fork = ?f, fd_parent = self c, fd_type = t\<rparr>)"
          using assms(1) o False new by (auto simp: defs forks_of_def)
        then show thesis using o
          by (intro that [of "pendingChildren c" "AList.update (rrefId ?r) p (owners c)" ?fs "nextLocalId c + 1"])
            (auto simp: forks_of_def umap_has_def)
      qed
    next
      case o: False
      show thesis
      proof (cases "map_of (pendingChildren c) ?f = None")
        case True
        let ?pc = "AList.update ?f p (pendingChildren c)"
        have "c' = c\<lparr>nextLocalId := nextLocalId c + 1, pendingChildren := ?pc\<rparr> \<and>
            (\<exists>t. res = Inr \<lparr>fd_owner = ownerId ?r, fd_rref = rrefId ?r, fd_fork = ?f, fd_parent = self c, fd_type = t\<rparr>)"
          using assms(1) o False True by (auto simp: defs)
        then show thesis using o True
          by (intro that [of ?pc "owners c" "forks c" "nextLocalId c + 1"]) (auto simp: forks_of_def)
      next
        case old: False
        then have "c' = c\<lparr>nextLocalId := nextLocalId c + 1\<rparr> \<and> (\<exists>e. res = Inl e)"
          using assms(1) o False by (auto simp: defs)
        then show thesis using o
          by (intro that [of "pendingChildren c" "owners c" "forks c" "nextLocalId c + 1"]) (auto simp: forks_of_def)
      qed
    qed
  qed
qed

lemma sys_inv_prepare:
  assumes inv: "sys_inv s" and n: "nextLocalId (node s w) < int64_max" and p: "p \<in> set (handles (node s w))"
    and c: "prepareChildFork te p (node s w) = (res, c)"
  shows "sys_inv (put w c s)"
    and "res = Inr fd \<Longrightarrow> sys_inv ((put w c s)\<lparr>calls := insert (d, fd) (calls s)\<rparr>)"
proof -
  let ?c = "node s w" and ?s = "put w c s" and ?r = "objs (node s w) ! p"
  have ok: "0 \<le> nextLocalId ?c" "self ?c = w" "refs_ok ?c" using sys_invD(1) [OF inv, of w] by (auto simp: node_ok_def)
  obtain m fs os pc where e: "c = ?c\<lparr>nextLocalId := m, forks := fs, owners := os, pendingChildren := pc\<rparr>"
    "nextLocalId ?c \<le> m" "\<And>r. set (forks_of ?c r) \<subseteq> set (umap_at [] fs r)"
    "os = owners ?c \<or> isOwner ?r \<and> os = AList.update (rrefId ?r) p (owners ?c)"
    "\<And>g q. map_of (pendingChildren ?c) g = Some q \<Longrightarrow> map_of pc g = Some q"
    "pc = pendingChildren ?c \<or> (\<exists>g. pc = AList.update g p (pendingChildren ?c))"
    "\<And>fd. res = Inr fd \<Longrightarrow> fd_fork fd = \<lparr>createdOn = self ?c, localId = nextLocalId ?c\<rparr> \<and> fd_rref fd = rrefId ?r
        \<and> fd_owner fd = ownerId ?r \<and> m = nextLocalId ?c + 1
        \<and> (if isOwner ?r then fd_fork fd \<in> set (umap_at [] fs (fd_rref fd)) \<and> umap_has os (fd_rref fd)
           else map_of pc (fd_fork fd) = Some p)"
    by (rule prepareChildFork_effect [OF c ok(1) n]) blast
  have pl: "p < length (objs ?c)" and ph: "held ?c p" using p ok(3) by (auto simp: refs_ok_def held_def set_strong_refs)
  have same: "objs c = objs ?c" "outbox c = []" "self c = self ?c" "destroyed c = destroyed ?c" "handles c = handles ?c"
    "pstates c = pstates ?c" "state_refs c = state_refs ?c" "owners c = os" "pendingChildren c = pc" "nextLocalId c = m"
    and fo: "\<And>r. forks_of c r = umap_at [] fs r"
    using e(1) sys_invD(2) [OF inv] by (simp_all add: state_refs_def forks_of_def)
  have sub: "set (strong_refs c) \<subseteq> set (strong_refs ?c)"
  proof -
    have "snd ` set os \<subseteq> insert p (snd ` set (owners ?c))"
      using e(4) alist_update_subset [of "rrefId ?r" p "owners ?c"] by auto
    moreover have "snd ` set pc \<subseteq> insert p (snd ` set (pendingChildren ?c))"
      using e(6) alist_update_subset [of _ p "pendingChildren ?c"] by force
    ultimately show ?thesis using p unfolding set_strong_refs same by blast
  qed
  have "refs_ok c"
    using ok(3) e(4) sub unfolding refs_ok_def states_ok_def same isOwner_def by (auto split: if_splits)
  then have nok: "node_ok w c" using sys_invD(1) [OF inv, of w] e(2) unfolding node_ok_def same by auto
  have reg: "reg s r f \<Longrightarrow> reg ?s r f" for r f
    using e(3,4) by (auto simp: reg_def fo same umap_has_def)
  show inv': "sys_inv ?s"
    by (rule sys_inv_local [OF inv, where C = "calls s" and A = "{}" and w = w and c = c])
      (use nok sub e(2,5) reg in \<open>auto simp: same same_objs_def put_def\<close>)
  show "sys_inv (?s\<lparr>calls := insert (d, fd) (calls s)\<rparr>)" if "res = Inr fd"
  proof -
    note x = e(7) [OF that]
    have u: "used ?s = used s"
    proof -
      have "occurs ?s f y = occurs s f y" for f y by (cases y) (auto simp: same split: if_splits)
      then show ?thesis by (simp add: used_def same)
    qed
    have "\<not> born s (fd_fork fd)" using x ok(2) by (simp add: born_def)
    then have nu: "fd_fork fd \<notin> used ?s" using sys_invD(10) [OF inv] u by blast
    have b: "born ?s (fd_fork fd)" using x ok(2) by (simp add: born_def same)
    have wo: "ownerId ?r = createdOn (rrefId ?r)" "isOwner ?r \<Longrightarrow> createdOn (rrefId ?r) = w"
      using sys_invD(1) [OF inv, of w] pl by (auto simp: node_ok_def isOwner_def)
    have "anchored ?s (fd_rref fd) (fd_fork fd)"
    proof (cases "isOwner ?r")
      case True
      then have "reg ?s (fd_rref fd) (fd_fork fd)" using x wo(2) by (auto simp: reg_def fo same)
      then show ?thesis by (rule anchored.base)
    next
      case False
      then obtain g where g: "forkId ?r = Some g" by (auto simp: isOwner_def)
      have h: "holds (node ?s w) p (rrefId ?r) g"
        using p pl g unfolding holds_def held_def by (simp add: same set_strong_refs)
      then have "anchored ?s (rrefId ?r) g" using sys_invD(7) [OF inv'] unfolding demanded_def by blast
      then show ?thesis
        by (intro anchored.link [of ?s w "fd_fork fd" p g]) (use x False g in \<open>auto simp: same\<close>)
    qed
    then have "sys_inv (?s\<lparr>calls := insert (d, fd) (calls ?s)\<rparr>)"
      by (intro sys_inv_call [OF inv' nu b]) (use x wo in auto)
    then show ?thesis by simp
  qed
qed

section \<open>Receiving a call\<close>

lemma quiet_addPendingUser:
  assumes ok: "refs_ok c" and p: "p \<in> set (handles c)" and c': "addPendingUser t f p c = (res, c')"
  shows "quiet {} {} c c'"
proof (cases "isOwner (objs c ! p)")
  case True
  then show ?thesis using c' by (simp add: addPendingUser_def bindM_def)
next
  case False
  let ?n = "length (pstates c)"
  obtain x ut pu where e: "c' = c\<lparr>pstates := pstates c @ [x], userTable := ut, pendingUsers := pu\<rparr>" "ps_rref x = p"
    "ut = userTable c \<or> ut = AList.update t (thread_table c t @ [?n]) (userTable c)"
    "pu = pendingUsers c \<or> pu = AList.update f ?n (pendingUsers c)"
  proof
    let ?ut = "if t \<in> set (recording c) then AList.update t (thread_table c t @ [?n]) (userTable c) else userTable c"
    let ?pu = "if map_of (pendingUsers c) f = None then AList.update f ?n (pendingUsers c) else pendingUsers c"
    show "c' = c\<lparr>pstates := pstates c @ [\<lparr>ps_rref = p, ps_done = Pending, ps_waiters = []\<rparr>], userTable := ?ut, pendingUsers := ?pu\<rparr>"
      using c' False by (auto simp: addPendingUser_def bindM_def thread_table_def split: if_splits)
  qed auto
  have tt: "set (thread_table c t) \<subseteq> set (state_refs c)"
    by (cases "map_of (userTable c) t") (force simp: set_state_refs thread_table_def umap_at_def dest: map_of_SomeD)+
  have "(\<Union>(t, is)\<in>set ut. set is) \<subseteq> insert ?n (set (state_refs c))"
    using e(3) tt alist_update_subset [of t "thread_table c t @ [?n]" "userTable c"] by (fastforce simp: set_state_refs)
  moreover have "snd ` set pu \<subseteq> insert ?n (set (state_refs c))"
    using e(4) alist_update_subset [of f ?n "pendingUsers c"] by (auto simp: set_state_refs)
  moreover have "set (state_refs c') = snd ` set pu \<union> (\<Union>(t, is)\<in>set ut. set is)"
    unfolding set_state_refs by (simp add: e(1))
  ultimately have sr: "set (state_refs c') \<subseteq> insert ?n (set (state_refs c))" by simp
  have so: "\<forall>i\<in>set (state_refs c). i < ?n" using ok by (simp add: refs_ok_def states_ok_def)
  have "(\<lambda>i. ps_rref (pstates c' ! i)) ` set (state_refs c') \<subseteq> insert p ((\<lambda>i. ps_rref (pstates c ! i)) ` set (state_refs c))"
  proof (rule image_subsetI)
    fix i assume "i \<in> set (state_refs c')"
    then consider "i = ?n" | "i \<in> set (state_refs c)" "i < ?n" using sr so by blast
    then show "ps_rref (pstates c' ! i) \<in> insert p ((\<lambda>i. ps_rref (pstates c ! i)) ` set (state_refs c))"
      by cases (use e(2) in \<open>simp_all add: e(1) nth_append\<close>)
  qed
  then have "set (strong_refs c') \<subseteq> set (strong_refs c)" using p by (auto simp: set_strong_refs e(1))
  moreover have "states_ok c'" using sr so by (auto simp: states_ok_def e(1) less_Suc_eq)
  ultimately show ?thesis by (simp add: quiet_def e(1) restrict_map_def same_objs_def)
qed

lemma quiet_notify_user:
  assumes ok: "refs_ok c" and p: "p \<in> set (handles c)" "\<not> isOwner (objs c ! p)" "ownerId (objs c ! p) \<noteq> self c"
    and c': "notifyOwnerAndParentOfFork t f parent p c = (res, c')"
  shows "quiet {} {(ownerId (objs c ! p), RRefForkRequest (rrefId (objs c ! p)) f)} c c'"
proof (cases "parent = ownerId (objs c ! p)")
  case True
  have "quiet {} {} c (addConfirmedUser f p c)" by (rule quiet_frame) (auto simp: state_refs_def same_objs_def)
  then show ?thesis using True c' p quiet_more by (auto simp: notifyOwnerAndParentOfFork_def bindM_def)
next
  case False
  let ?m = "RRefForkRequest (rrefId (objs c ! p)) f"
  obtain e c1 where s: "send_counted (ownerId (objs c ! p)) ?m c = (e, c1)" by fastforce
  note q1 = quiet_send [OF s]
  have h1: "p \<in> set (handles c1)" using s p by (auto simp: send_counted_def bindM_def checkM_def split: if_splits)
  obtain d c2 where a: "addPendingUser t f p c1 = (d, c2)" by fastforce
  have q2: "quiet {} {(ownerId (objs c ! p), ?m)} c c2"
    by (rule quiet_then [OF q1 quiet_addPendingUser [OF quiet_refs_ok [OF q1 ok] h1 a]])
  have q3: "quiet {} {} c2 (c2\<lparr>forkRequests := forkRequests c2 @ [(f, parent)]\<rparr>)"
    by (rule quiet_frame) (auto simp: same_objs_def)
  show ?thesis using False c' p s a q1 q2 quiet_then [OF q2 q3]
    by (cases e; cases d) (auto simp: notifyOwnerAndParentOfFork_def bindM_def)
qed

lemma put_put: "outbox c = [] \<Longrightarrow> put w c' ((put w c s)\<lparr>calls := C\<rparr>) = (put w c' s)\<lparr>calls := C\<rparr>"
  by (simp add: put_def)

lemma no_outbox: "outbox c = [] \<Longrightarrow> c\<lparr>outbox := []\<rparr> = c"
  by (cases c) simp

lemma sys_inv_lose:
  assumes "sys_inv s" and "C \<subseteq> calls s"
  shows "sys_inv (s\<lparr>calls := C\<rparr>)"
proof -
  have "sys_inv ((put w (node s w) s)\<lparr>calls := C\<rparr>)" for w
    by (rule sys_inv_local [OF assms(1), where w = w and c = "node s w" and C = C and A = "{}"])
      (use assms(2) sys_invD [OF assms(1)] in \<open>auto simp: put_def reg_def forks_of_def\<close>)
  moreover have "(put w (node s w) s)\<lparr>calls := C\<rparr> = s\<lparr>calls := C\<rparr>" for w
    using sys_invD(2) [OF assms(1), of w] by (simp add: put_def no_outbox)
  ultimately show ?thesis by metis
qed

lemma received_not_demanded:
  assumes "sys_inv s" and "(w, fd) \<in> calls s"
  shows "\<not> demanded (s\<lparr>calls := calls s - {(w, fd)}\<rparr>) r (fd_fork fd)"
proof
  let ?s = "s\<lparr>calls := calls s - {(w, fd)}\<rparr>"
  assume "demanded ?s r (fd_fork fd)"
  then obtain x where x: "occurs ?s (fd_fork fd) x" by (rule demanded_occurs) blast+
  then have "occurs s (fd_fork fd) x" by (cases x) auto
  then have "x = Inl (w, fd)" using sys_invD(5) [OF assms(1)] assms(2) unfolding ids_ok_def by auto
  then show False using x by simp
qed

lemma sys_inv_receive_user:
  assumes inv: "sys_inv s" and call: "(w, fd) \<in> calls s" and other: "fd_owner fd \<noteq> w"
    and c: "unpickle te t ty fd (node s w) = (res, c)"
  shows "sys_inv ((put w c s)\<lparr>calls := calls s - {(w, fd)}\<rparr>)"
proof -
  let ?c = "node s w" and ?C = "calls s - {(w, fd)}" and ?n = "length (objs (node s w))"
  let ?x = "UserRRef (fd_owner fd) (fd_rref fd) (fd_fork fd) ty"
  let ?c1 = "?c\<lparr>objs := objs ?c @ [?x], handles := ?n # handles ?c, nextLocalId := nextLocalId ?c\<rparr>"
  let ?s1 = "(put w ?c1 s)\<lparr>calls := ?C\<rparr>"
  have own: "fd_owner fd = createdOn (fd_rref fd)" by (rule sys_invD(6) [OF inv call])
  have i1: "sys_inv ?s1"
    by (rule sys_inv_grow [OF inv _ refl]) (use call own in \<open>auto simp: UserRRef_def\<close>)
  have ob: "outbox ?c1 = []" using sys_invD(2) [OF inv] by simp
  then have nd: "node ?s1 w = ?c1" by (simp add: put_def)
  have x: "objs ?c1 ! ?n = ?x" by simp
  obtain e c2 where e: "notifyOwnerAndParentOfFork t (fd_fork fd) (fd_parent fd) ?n ?c1 = (e, c2)" by fastforce
  let ?m = "(fd_owner fd, RRefForkRequest (fd_rref fd) (fd_fork fd))"
  have ro: "refs_ok ?c1" using sys_invD(3) [OF i1, of w] unfolding nd .
  have q: "quiet {} {?m} ?c1 c2"
    using quiet_notify_user [OF ro _ _ _ e] sys_invD(4) [OF inv, of w] other by (simp add: UserRRef_def isOwner_def)
  have "getOrCreateRRef te fd ty ?c = (Inr ?n, ?c1)"
    using sys_invD(4) [OF inv, of w] other
    by (simp add: getOrCreateRRef_def createUserRRef_ids_def bindM_def make_obj_def)
  then have "c = c2 \<or> c = drop_handle ?n c2" using c e by (auto simp: unpickle_def split: sum.splits)
  then have qc: "quiet {} {?m} ?c1 c" using q quiet_then [OF q quiet_drop_handle [OF quiet_refs_ok [OF q ro]]] by blast
  have "sys_inv (put w c ?s1)"
  proof (rule sys_inv_quiet [OF i1, of "{}" "{?m}"])
    show "quiet {} {?m} (node ?s1 w) c" unfolding nd by (rule qc)
    have o: "occurs ?s1 (fd_fork fd) (Inr (w, ?n))" by (simp add: UserRRef_def)
    then have b: "born ?s1 (fd_fork fd)" using sys_invD(10) [OF i1] by (auto simp: used_def simp del: occurs_simps)
    have f2: "length (objs c) = Suc ?n" "forkId (objs c ! ?n) = Some (fd_fork fd)" "rrefId (objs c ! ?n) = fd_rref fd"
      using qc unfolding quiet_def same_objs_def by (auto simp: UserRRef_def)
    have "r = fd_rref fd" if u: "ids_ok (put w c ?s1)" and d: "demanded (put w c ?s1) r (fd_fork fd)" for r
    proof -
      have only: "y = Inr (w, ?n)" if "occurs (put w c ?s1) (fd_fork fd) y" for y
      proof -
        have "occurs (put w c ?s1) (fd_fork fd) (Inr (w, ?n))" using f2 by simp
        with that u show ?thesis unfolding ids_ok_def by blast
      qed
      from d show ?thesis
        by (rule demanded_occurs) (use only f2 in \<open>fastforce+\<close>)
    qed
    then show "born ?s1 (msg_fork (snd m)) \<and> (ids_ok (put w c ?s1) \<longrightarrow> msg_ok (put w c ?s1) m)" if "m \<in> {?m}" for m
      using that b own by auto
  qed simp
  then show ?thesis unfolding put_put [OF ob] .
qed

lemma quiet_add_handle: "held c p \<Longrightarrow> quiet {} {} c (add_handle p c)"
  by (auto simp: quiet_def add_handle_def restrict_map_def same_objs_def states_ok_def set_strong_refs set_state_refs held_def)

lemma demanded_quiet:
  assumes "quiet K X (node s w) c" and "demanded (put w c s) r f"
  shows "demanded s r f"
  using demanded_put_same [of s w c "acks s" "calls s" r f] assms by (simp add: quiet_def put_def)

lemma sys_inv_receive_owner:
  assumes inv: "sys_inv s" and call: "(w, fd) \<in> calls s" and owner: "fd_owner fd = w"
    and c: "unpickle te t ty fd (node s w) = (res, c)"
  shows "sys_inv ((put w c s)\<lparr>calls := calls s - {(w, fd)}\<rparr>)"
proof -
  let ?c = "node s w" and ?r = "fd_rref fd" and ?f = "fd_fork fd"
  define s0 where "s0 = s\<lparr>calls := calls s - {(w, fd)}\<rparr>"
  have s0: "(put w c' s)\<lparr>calls := calls s - {(w, fd)}\<rparr> = put w c' s0" for c' by (simp add: s0_def put_def)
  have i0: "sys_inv s0" unfolding s0_def by (rule sys_inv_lose [OF inv]) auto
  have n0: "node s0 w = ?c" by (simp add: s0_def)
  have nd: "\<not> demanded s0 r ?f" for r using received_not_demanded [OF inv call] by (simp add: s0_def)
  have cr: "createdOn ?r = w" using sys_invD(6) [OF inv call] owner by simp
  have "demanded s ?r ?f" using call by (auto simp: demanded_def)
  then have "umap_has (owners ?c) ?r" using anchored_owner [OF sys_invD(7) [OF inv]] cr by auto
  then obtain p where p: "map_of (owners ?c) ?r = Some p" by (auto simp: umap_has_def)
  have ro: "refs_ok ?c" by (rule sys_invD(3) [OF inv])
  have po: "rrefId (objs ?c ! p) = ?r" "forkId (objs ?c ! p) = None" "p < length (objs ?c)"
    using ro p held_in_owners [OF p] by (auto simp: refs_ok_def held_def)
  then have pw: "ownerId (objs ?c ! p) = w" using sys_invD(1) [OF inv, of w] cr by (auto simp: node_ok_def)
  let ?c1 = "add_handle p ?c"
  have q1: "quiet {} {} ?c ?c1" by (rule quiet_add_handle [OF held_in_owners [OF p]])
  have ob: "outbox ?c1 = []" using sys_invD(2) [OF inv] by (simp add: add_handle_def)
  have gc: "getOrCreateRRef te fd ty ?c = (Inr p, ?c1) \<or> (\<exists>e. getOrCreateRRef te fd ty ?c = (Inl e, ?c))"
    using p owner sys_invD(4) [OF inv, of w]
    by (auto simp: getOrCreateRRef_def getOrCreateOwnerRRef_def bindM_def checkM_def)
  have quiet0: "sys_inv (put w c' s0)" if "quiet {} {} ?c c'" for c'
    by (rule sys_inv_quiet [OF i0, of "{}" "{}"]) (use that n0 in auto)
  from gc have "sys_inv (put w c s0)"
  proof
    assume "\<exists>e. getOrCreateRRef te fd ty ?c = (Inl e, ?c)"
    then have "c = ?c" using c by (auto simp: unpickle_def)
    then show ?thesis using quiet0 quiet_refl by blast
  next
    assume g: "getOrCreateRRef te fd ty ?c = (Inr p, ?c1)"
    obtain e c2 where e: "notifyOwnerAndParentOfFork t ?f (fd_parent fd) p ?c1 = (e, c2)" by fastforce
    have cc: "c = c2 \<or> c = drop_handle p c2" using c e g by (auto simp: unpickle_def split: sum.splits)
    have fl: "objs ?c1 = objs ?c" "self ?c1 = w" using sys_invD(4) [OF inv] by (simp_all add: add_handle_def)
    show ?thesis
    proof (cases "fd_parent fd = w")
      case True
      have i1: "sys_inv (put w ?c1 s0)" by (rule quiet0 [OF q1])
      have n1: "node (put w ?c1 s0) w = ?c1" using ob by (simp add: no_outbox)
      have c2: "c2 = snd (delForkOfOwner ?r ?f ?c1)"
        using e True po pw fl by (auto simp: notifyOwnerAndParentOfFork_def bindM_def checkM_def split: prod.splits option.splits if_splits)
      have "\<not> demanded (put w ?c1 s0) r' ?f" for r'
        using demanded_quiet [of "{}" "{}" s0 w ?c1 r' ?f] q1 nd n0 by auto
      moreover have "c2 = snd (delForkOfOwner ?r ?f (node (put w ?c1 s0) w))" unfolding n1 by (rule c2)
      ultimately have "sys_inv (put w c2 (put w ?c1 s0))" using sys_inv_user_delete [OF i1] by blast
      then have i2: "sys_inv (put w c2 s0)" using put_put [OF ob, where s = s0 and C = "calls s0" and c' = c2] by (simp add: put_def)
      have o2: "outbox c2 = []"
        using ob delForkOfOwner_frame [of ?r ?f ?c1 "fst (delForkOfOwner ?r ?f ?c1)" c2] c2 by fastforce
      then have n2: "node (put w c2 s0) w = c2" by (simp add: no_outbox)
      have "sys_inv (put w (drop_handle p c2) (put w c2 s0))"
        by (rule sys_inv_quiet [OF i2, of "{}" "{}"]) (use quiet_drop_handle sys_invD(3) [OF i2, of w] n2 in auto)
      then have "sys_inv (put w (drop_handle p c2) s0)"
        using put_put [OF o2, where s = s0 and C = "calls s0" and c' = "drop_handle p c2"] by (simp add: put_def)
      with i2 cc show ?thesis by blast
    next
      case False
      let ?m = "(fd_parent fd, RRefChildAccept ?f)"
      have "send_counted (fd_parent fd) (RRefChildAccept ?f) ?c1 = (e, c2)"
        using e False po pw fl by (simp add: notifyOwnerAndParentOfFork_def bindM_def isOwner_def)
      then have q2: "quiet {} {?m} ?c c2" by (rule quiet_after [OF q1 quiet_send])
      have qc: "quiet {} {?m} (node s0 w) c"
        using cc q2 quiet_then [OF q2 quiet_drop_handle [OF quiet_refs_ok [OF q2 ro]]] n0 by auto
      have "?f \<in> used s" using call demanded_used [of s ?r ?f] by (auto simp: demanded_def)
      then have b: "born s0 ?f" using sys_invD(10) [OF inv] by (simp add: s0_def born_def)
      show ?thesis
        by (rule sys_inv_quiet [OF i0 qc]) (use b nd demanded_quiet [OF qc] in auto)
    qed
  qed
  then show ?thesis unfolding s0 .
qed

section \<open>Every step keeps the invariant\<close>

lemma sys_inv_init: "sys_inv (sys_init ws)"
  by (auto simp: sys_inv_def sys_init_def rref_context_new_def node_ok_def refs_ok_def states_ok_def strong_refs_def
      state_refs_def ids_ok_def used_def demanded_def holds_def held_def occurs_def split: sum.splits)

lemma sys_inv_steps:
  assumes "step te s s'" and "sys_inv s"
  shows "sys_inv s'"
  using assms
proof (induction rule: step.induct)
  case (create s w ty res c)
  then show ?case by (intro sys_inv_create)
next
  case (share s w p fd c d)
  then show ?case by (intro sys_inv_prepare(2)) auto
next
  case (share_fails s w p e c)
  then show ?case by (intro sys_inv_prepare(1))
next
  case (receive w fd s t ty res c)
  then show ?case using sys_inv_receive_user sys_inv_receive_owner by blast
next
  case (user_delete w r f s res c)
  then have "c = snd (delForkOfOwner r f (node s w))" "\<And>r'. \<not> demanded s r' f"
    using sys_invD(8) [OF user_delete.prems user_delete(1)]
    by (auto simp: processRRefUserDelete_def handleRRefDelete_py_def split: prod.splits)
  then show ?case using sys_inv_user_delete [OF user_delete.prems] by blast
next
  case (fork_request w r f s res c)
  then show ?case using sys_inv_fork_request [OF fork_request.prems] by (auto simp: processRRefForkRequest_def)
next
  case (child_accept w f s res c)
  then have "quiet {f} {} (node s w) c"
    using quiet_delPendingChild [OF sys_invD(3) [OF child_accept.prems]] by (auto simp: processRRefChildAccept_def)
  then show ?case
    by (rule sys_inv_quiet [OF child_accept.prems]) (use sys_invD(8) [OF child_accept.prems child_accept(1)] in auto)
next
  case (request_acked f s parent w res c)
  then have q: "quiet {} {(parent, RRefChildAccept f)} (node s w) c"
    using quiet_forkRequest_callback [OF sys_invD(3) [OF request_acked.prems] request_acked(3)] by simp
  have "born s f" using sys_invD(10) [OF request_acked.prems] request_acked(1) by (simp add: used_def)
  moreover have "reg (put w c s) r f" if "demanded (put w c s) r f" for r
    using sys_invD(9) [OF request_acked.prems request_acked(1) demanded_quiet [OF q that]] q
    by (auto simp: reg_def quiet_def forks_of_def)
  ultimately show ?case by (intro sys_inv_quiet [OF request_acked.prems q]) auto
next
  case (request_failed f parent s w e res c)
  then have "quiet {} {} (node s w) c"
    using quiet_forkRequest_callback [OF sys_invD(3) [OF request_failed.prems] request_failed(2)] by simp
  then show ?case by (rule sys_inv_quiet [OF request_failed.prems]) auto
next
  case (counted err s w res c)
  then have "quiet {} {} (node s w) c"
    by (auto simp: counted_callback_def bindM_def liftM_def handleException_def same_objs_def split: option.splits intro!: quiet_frame)
  then show ?case by (rule sys_inv_quiet [OF counted.prems]) auto
next
  case (copy p s w)
  then have "quiet {} {} (node s w) (add_handle p (node s w))"
    by (intro quiet_add_handle) (simp add: held_def set_strong_refs)
  then show ?case by (rule sys_inv_quiet [OF copy.prems]) auto
next
  case (drop s w p)
  then show ?case
    by (intro sys_inv_quiet [OF drop.prems quiet_drop_handle [OF sys_invD(3) [OF drop.prems]]]) auto
next
  case (record_users t s w res c)
  then have "quiet {} {} (node s w) c"
    by (auto simp: recordThreadLocalPendingRRefs_def bindM_def checkM_def intro: quiet_recording split: if_splits)
  then show ?case by (rule sys_inv_quiet [OF record_users.prems]) auto
next
  case (wait_users t s w i c)
  then show ?case
    by (intro sys_inv_quiet [OF wait_users.prems quiet_wait [OF sys_invD(3) [OF wait_users.prems]]]) auto
next
  case (clear_users s w t)
  have "quiet {} {} (node s w) (clearRecordedPendingRRefsOnError t (node s w))"
    using quiet_clear_table [OF sys_invD(3) [OF clear_users.prems], of w t]
    by (simp add: clearRecordedPendingRRefsOnError_def Let_def quiet_recording)
  then show ?case by (rule sys_inv_quiet [OF clear_users.prems]) auto
qed

section \<open>Properties\<close>



end
