(* ===== verification/Rpc_Wire.thy ===== *)
theory Rpc_Wire
  imports C10d_Prelude
begin

text \<open>
  Messages of the RPC layer and their image on the wire (\<^verbatim>\<open>rpc/message.h/.cpp\<close> and the
  serialization part of \<^verbatim>\<open>rpc/utils.cpp\<close>): message types and their flags, exception
  responses, the error texts that carry an error type, the sectioned format of
  \<^verbatim>\<open>wireSerialize\<close>/\<^verbatim>\<open>wireDeserialize\<close> and the wrapped payloads. The pickler of the script
  runtime is not part of this repository: \<open>pickle\<close> yields the metadata and the tensor sections,
  \<open>unpickle\<close> reads the metadata with access to the sections by name.
\<close>

unbundle bit_operations_syntax

section \<open>Messages\<close>

datatype MessageType =
    SCRIPT_CALL | SCRIPT_RET | PYTHON_CALL | PYTHON_RET | SCRIPT_REMOTE_CALL | PYTHON_REMOTE_CALL
  | REMOTE_RET | SCRIPT_RREF_FETCH_CALL | PYTHON_RREF_FETCH_CALL | SCRIPT_RREF_FETCH_RET
  | PYTHON_RREF_FETCH_RET | RREF_USER_DELETE | RREF_FORK_REQUEST | RREF_CHILD_ACCEPT | RREF_ACK
  | FORWARD_AUTOGRAD_REQ | FORWARD_AUTOGRAD_RESP | BACKWARD_AUTOGRAD_REQ | BACKWARD_AUTOGRAD_RESP
  | CLEANUP_AUTOGRAD_CONTEXT_REQ | CLEANUP_AUTOGRAD_CONTEXT_RESP | RUN_WITH_PROFILING_REQ
  | RUN_WITH_PROFILING_RESP | RREF_BACKWARD_REQ | RREF_BACKWARD_RESP | EXCEPTION | UNKNOWN

definition REQUEST_TYPE :: "32 word" where "REQUEST_TYPE = 0x100"
definition RESPONSE_TYPE :: "32 word" where "RESPONSE_TYPE = 0x200"

fun message_code :: "MessageType \<Rightarrow> 32 word" where
  "message_code SCRIPT_CALL = 0 OR REQUEST_TYPE"
| "message_code SCRIPT_RET = 1 OR RESPONSE_TYPE"
| "message_code PYTHON_CALL = 2 OR REQUEST_TYPE"
| "message_code PYTHON_RET = 3 OR RESPONSE_TYPE"
| "message_code SCRIPT_REMOTE_CALL = 4 OR REQUEST_TYPE"
| "message_code PYTHON_REMOTE_CALL = 5 OR REQUEST_TYPE"
| "message_code REMOTE_RET = 6 OR RESPONSE_TYPE"
| "message_code SCRIPT_RREF_FETCH_CALL = 7 OR REQUEST_TYPE"
| "message_code PYTHON_RREF_FETCH_CALL = 8 OR REQUEST_TYPE"
| "message_code SCRIPT_RREF_FETCH_RET = 9 OR RESPONSE_TYPE"
| "message_code PYTHON_RREF_FETCH_RET = 10 OR RESPONSE_TYPE"
| "message_code RREF_USER_DELETE = 11 OR REQUEST_TYPE"
| "message_code RREF_FORK_REQUEST = 12 OR REQUEST_TYPE"
| "message_code RREF_CHILD_ACCEPT = 13 OR REQUEST_TYPE"
| "message_code RREF_ACK = 14 OR RESPONSE_TYPE"
| "message_code FORWARD_AUTOGRAD_REQ = 15 OR REQUEST_TYPE"
| "message_code FORWARD_AUTOGRAD_RESP = 16 OR RESPONSE_TYPE"
| "message_code BACKWARD_AUTOGRAD_REQ = 17 OR REQUEST_TYPE"
| "message_code BACKWARD_AUTOGRAD_RESP = 18 OR RESPONSE_TYPE"
| "message_code CLEANUP_AUTOGRAD_CONTEXT_REQ = 19 OR REQUEST_TYPE"
| "message_code CLEANUP_AUTOGRAD_CONTEXT_RESP = 20 OR RESPONSE_TYPE"
| "message_code RUN_WITH_PROFILING_REQ = 21 OR REQUEST_TYPE"
| "message_code RUN_WITH_PROFILING_RESP = 22 OR RESPONSE_TYPE"
| "message_code RREF_BACKWARD_REQ = 23 OR REQUEST_TYPE"
| "message_code RREF_BACKWARD_RESP = 24 OR RESPONSE_TYPE"
| "message_code EXCEPTION = 55 OR RESPONSE_TYPE"
| "message_code UNKNOWN = 60"

record 't message =
  m_payload :: string
  m_tensors :: "'t list"
  m_type :: MessageType
  m_id :: int

definition isRequest :: "'t message \<Rightarrow> bool" where
  "isRequest m \<longleftrightarrow> REQUEST_TYPE AND message_code (m_type m) \<noteq> 0"

definition isResponse :: "'t message \<Rightarrow> bool" where
  "isResponse m \<longleftrightarrow> RESPONSE_TYPE AND message_code (m_type m) \<noteq> 0"

definition setId :: "int \<Rightarrow> 't message \<Rightarrow> 't message" where
  "setId i m = m\<lparr>m_id := i\<rparr>"

definition createExceptionResponse :: "string \<Rightarrow> int \<Rightarrow> 't message" where
  "createExceptionResponse e i = \<lparr>m_payload = e, m_tensors = [], m_type = EXCEPTION, m_id = i\<rparr>"

section \<open>Error texts\<close>

definition kRPCErrorPrefix :: string where "kRPCErrorPrefix = ''RPCErr''"

definition makeRPCError :: "string \<Rightarrow> int \<Rightarrow> string" where
  "makeRPCError msg errorType = kRPCErrorPrefix @ '':'' @ to_string errorType @ '':'' @ msg"

text \<open>\<^verbatim>\<open>std::string::find\<close> of a string: the rest of the text from the first occurrence on.\<close>

fun find_from :: "string \<Rightarrow> string \<Rightarrow> string option" where
  "find_from pat [] = (if pat = [] then Some [] else None)"
| "find_from pat (c # s) = (if take (length pat) (c # s) = pat then Some (c # s) else find_from pat s)"

text \<open>
  The numeric value of the error type, 0 being \<^verbatim>\<open>UNKNOWN_ERROR\<close>. \<^verbatim>\<open>std::string::find\<close> with a
  start beyond the end of the text finds nothing.
\<close>

definition getRPCErrorType :: "string option \<Rightarrow> int res" where
  "getRPCErrorType err =
     (case err of
        None \<Rightarrow> Inl (C10_assert ''JitFuture of Message passed to getRPCErrorType does not have an error.'')
      | Some e \<Rightarrow>
          (case find_from kRPCErrorPrefix e of
             None \<Rightarrow> Inr 0
           | Some at_prefix \<Rightarrow>
               (let rest = drop (length kRPCErrorPrefix + 1) at_prefix
                in if CHR '':'' \<notin> set rest then Inr 0
                   else stoi (takeWhile (\<lambda>c. c \<noteq> CHR '':'') rest))))"

section \<open>Sections\<close>

abbreviation newline :: char where "newline \<equiv> CHR 0x0A"
abbreviation space :: char where "space \<equiv> CHR '' ''"

text \<open>
  The header of \<^verbatim>\<open>parseWireSections\<close>: \<open>acc\<close> are the entries read so far; the result has the
  text behind the empty line. Sizes go through \<^verbatim>\<open>c10::stoll\<close> into \<^verbatim>\<open>size_t\<close>.
\<close>

function parse_header :: "string \<Rightarrow> (string \<times> 64 word) list \<Rightarrow> ((string \<times> 64 word) list \<times> string) res" where
  "parse_header s acc =
     (if s = [] then Inl (Runtime_error ''failed parse'')
      else if hd s = newline then Inr (acc, tl s)
      else let name = takeWhile (\<lambda>c. c \<noteq> space) s; r = dropWhile (\<lambda>c. c \<noteq> space) s
           in if r = [] then Inl (Runtime_error ''failed parse'')
              else if tl r = [] then Inl (Runtime_error ''failed parse'')
              else let sz = takeWhile (\<lambda>c. c \<noteq> newline) (tl r); r2 = dropWhile (\<lambda>c. c \<noteq> newline) (tl r)
                   in if r2 = [] then Inl (Runtime_error ''failed parse'')
                      else (case stoll sz of
                              Inl e \<Rightarrow> Inl e
                            | Inr n \<Rightarrow> parse_header (tl r2) (acc @ [(name, word_of_int n)])))"
  by pat_completeness auto
termination
proof (relation "measure (\<lambda>(s, acc). length s)", goal_cases)
  case (2 s acc name r sz r2 n)
  have r: "r = dropWhile (\<lambda>c. c \<noteq> space) s" and r2: "r2 = dropWhile (\<lambda>c. c \<noteq> newline) (tl r)" using 2 by simp_all
  have "length r \<le> length s" unfolding r by (rule length_dropWhile_le)
  moreover have "length r2 \<le> length (tl r)" unfolding r2 by (rule length_dropWhile_le)
  moreover have "s \<noteq> []" "r \<noteq> []" using 2 by simp_all
  ultimately show ?case by (cases r; cases s) auto
qed simp

declare parse_header.simps [simp del]

text \<open>A section is an offset into the data and a size; both are machine words.\<close>

fun place_sections ::
    "(string \<times> 64 word) list \<Rightarrow> 64 word \<Rightarrow> (string, 64 word \<times> 64 word) umap \<Rightarrow> 64 word \<times> (string, 64 word \<times> 64 word) umap" where
  "place_sections [] ptr out = (ptr, out)"
| "place_sections ((n, sz) # es) ptr out = place_sections es (ptr + sz) (AList.update n (ptr, sz) out)"

definition parseWireSections :: "string \<Rightarrow> (string, 64 word \<times> 64 word) umap res" where
  "parseWireSections data =
     bindE (parse_header data []) (\<lambda>(ents, rest).
       let (ptr, out) = place_sections ents (word_of_nat (length data - length rest)) []
       in if ptr \<noteq> word_of_nat (length data) then Inl (Runtime_error ''failed bounds'') else Inr out)"

definition kMeta :: string where "kMeta = ''meta''"
definition kPayload :: string where "kPayload = ''payload''"

text \<open>Copying a section out of the data; beyond its end the behaviour is undefined.\<close>

definition copy_section :: "string \<Rightarrow> 64 word \<times> 64 word \<Rightarrow> string res" where
  "copy_section data sec =
     (if unat (fst sec) + unat (snd sec) \<le> length data
      then Inr (take (unat (snd sec)) (drop (unat (fst sec)) data)) else Inl Undefined)"

section \<open>Serialization\<close>

record 't tensor_api =
  is_cpu :: "'t \<Rightarrow> bool"
  has_storage :: "'t \<Rightarrow> bool"
  nbytes :: "'t \<Rightarrow> nat"
  element_size :: "'t \<Rightarrow> nat"
  t_numel :: "'t \<Rightarrow> nat"
  clone :: "'t \<Rightarrow> 't"

definition worthRecopying :: "'t tensor_api \<Rightarrow> 't \<Rightarrow> bool" where
  "worthRecopying api t \<longleftrightarrow> has_storage api t \<and>
     nbytes api t \<ge> 8 * 1024 \<and> nbytes api t \<ge> element_size api t * t_numel api t * 2"

definition cloneSparseTensors :: "'t tensor_api \<Rightarrow> 't list \<Rightarrow> 't list" where
  "cloneSparseTensors api ts = map (\<lambda>t. if worthRecopying api t then clone api t else t) ts"

definition entries_of :: "'t tensor_api \<Rightarrow> ('t list \<Rightarrow> string \<times> string list) \<Rightarrow> string \<Rightarrow> 't list \<Rightarrow> (string \<times> string) list" where
  "entries_of api pickle payload ts =
     (if payload = [] then [] else [(kPayload, payload)]) @
     (if ts = [] then []
      else let (meta, tensorData) = pickle (cloneSparseTensors api ts)
           in (kMeta, meta) # map (\<lambda>i. (to_string (int i), tensorData ! i)) [0..<length tensorData])"

definition header_line :: "string \<times> string \<Rightarrow> string" where
  "header_line e = fst e @ [space] @ to_string (int (length (snd e))) @ [newline]"

definition wire_image :: "(string \<times> string) list \<Rightarrow> string" where
  "wire_image es = concat (map header_line es) @ [newline] @ concat (map snd es)"

definition wireSerialize :: "'t tensor_api \<Rightarrow> ('t list \<Rightarrow> string \<times> string list) \<Rightarrow> string \<Rightarrow> 't list \<Rightarrow> string res" where
  "wireSerialize api pickle payload ts =
     (if \<exists>t\<in>set ts. \<not> is_cpu api t
      then Inl (C10_error ''ProcessGroup RPC backend only supports CPU tensors, please move your tensors to CPU before sending them over RPC. Found tensor on device: '')
      else Inr (wire_image (entries_of api pickle payload ts)))"

text \<open>The reader of a section by name that \<^verbatim>\<open>wireDeserialize\<close> gives to the unpickler.\<close>

definition sectionReadFunc :: "string \<Rightarrow> (string, 64 word \<times> 64 word) umap \<Rightarrow> string \<Rightarrow> string res" where
  "sectionReadFunc data sections ename =
     (case map_of sections ename of
        None \<Rightarrow> Inl (Runtime_error (''Couldn't find entity '' @ ename))
      | Some sec \<Rightarrow> if snd sec \<noteq> 0 then copy_section data sec else Inr [])"

definition wireDeserialize ::
    "((string \<Rightarrow> string res) \<Rightarrow> string \<Rightarrow> 't list res) \<Rightarrow> string \<Rightarrow> (string \<times> 't list) res" where
  "wireDeserialize unpickle data =
     bindE (parseWireSections data) (\<lambda>sections.
     bindE (case map_of sections kPayload of
              Some sec \<Rightarrow> if snd sec \<noteq> 0 then copy_section data sec else Inr []
            | None \<Rightarrow> Inr []) (\<lambda>payload.
     bindE (case map_of sections kMeta of
              Some sec \<Rightarrow> bindE (copy_section data sec) (unpickle (sectionReadFunc data sections))
            | None \<Rightarrow> Inr []) (\<lambda>tensors.
     Inr (payload, tensors))))"

section \<open>Wrapped payloads\<close>

text \<open>
  \<^verbatim>\<open>THP_encodeInt64Buffer\<close> in big-endian order: the reverse of the little-endian image.
\<close>

definition be_int64 :: "int \<Rightarrow> string" where
  "be_int64 i = string_of (rev (i64_bytes i))"

definition int64_of_be :: "string \<Rightarrow> int" where
  "int64_of_be s = bytes_i64 (rev (bytes_of s))"

definition writeWrappedPayload :: "string \<Rightarrow> string \<Rightarrow> string" where
  "writeWrappedPayload originalPayload additionalPayload =
     originalPayload @ additionalPayload @ be_int64 (int (length additionalPayload))"

text \<open>
  The result is the remaining payload and the bytes that are unpickled. A payload shorter than the
  size field is read outside its bounds: \<^verbatim>\<open>indexToRead\<close> is unsigned and the assertion on it
  always holds. The size is compared as an unsigned number.
\<close>

definition readWrappedPayload :: "string \<Rightarrow> (string \<times> string) res" where
  "readWrappedPayload payload =
     (if length payload < 8 then Inl Undefined
      else let p = take (length payload - 8) payload;
               n = int64_of_be (drop (length payload - 8) payload)
           in if \<not> (unat (word_of_int n :: 64 word) < length p)
              then Inl (C10_assert ''Wrong payload sizes: payload.size() is '')
              else Inr (take (length p - nat n) p, drop (length p - nat n) p))"

section \<open>Request and response\<close>

lemma request_xor_response:
  "m_type m \<noteq> UNKNOWN \<Longrightarrow> isRequest m \<noteq> isResponse m"
  by (cases "m_type m") (simp_all add: isRequest_def isResponse_def REQUEST_TYPE_def RESPONSE_TYPE_def)

section \<open>Reading back the sections\<close>

lemma newline_not_digit: "\<not> is_digit newline" "\<not> is_digit space" "\<not> is_digit (CHR '':'')"
  by (simp_all add: is_digit_def)

lemma to_string_digits: "0 \<le> i \<Longrightarrow> c \<in> set (to_string i) \<Longrightarrow> is_digit c"
  by (auto simp: to_string_def dest: nat_to_string_digits)

lemma to_string_inj: "0 \<le> i \<Longrightarrow> 0 \<le> j \<Longrightarrow> to_string i = to_string j \<longleftrightarrow> i = j"
  by (metis digits_val_nat_to_string nat_int nat_0_le not_less to_string_def)

lemma takeWhile_stop: "(\<And>x. x \<in> set xs \<Longrightarrow> P x) \<Longrightarrow> \<not> P y \<Longrightarrow> takeWhile P (xs @ y # ys) = xs"
  by (induction xs) auto

lemma dropWhile_stop: "(\<And>x. x \<in> set xs \<Longrightarrow> P x) \<Longrightarrow> \<not> P y \<Longrightarrow> dropWhile P (xs @ y # ys) = y # ys"
  by (induction xs) auto

definition name_ok :: "string \<Rightarrow> bool" where
  "name_ok n \<longleftrightarrow> n \<noteq> [] \<and> hd n \<noteq> newline \<and> space \<notin> set n"

lemma parse_header_line:
  assumes "name_ok (fst e)" and "int (length (snd e)) \<le> int64_max"
  shows "parse_header (header_line e @ s) acc = parse_header s (acc @ [(fst e, word_of_nat (length (snd e)))])"
proof -
  let ?n = "int (length (snd e))"
  have name: "takeWhile (\<lambda>c. c \<noteq> space) (fst e @ space # x) = fst e" "dropWhile (\<lambda>c. c \<noteq> space) (fst e @ space # x) = space # x" for x
    using assms(1) by (auto simp: name_ok_def intro!: takeWhile_stop dropWhile_stop)
  have nn: "c \<in> set (to_string ?n) \<Longrightarrow> c \<noteq> newline" for c using to_string_digits [of ?n c] newline_not_digit by auto
  have size: "takeWhile (\<lambda>c. c \<noteq> newline) (to_string ?n @ newline # s) = to_string ?n"
    "dropWhile (\<lambda>c. c \<noteq> newline) (to_string ?n @ newline # s) = newline # s"
    using nn by (auto intro!: takeWhile_stop dropWhile_stop)
  have "in_int64 ?n" using assms(2) by (simp add: in_int64_def int64_min_def)
  then have "stoll (to_string ?n) = Inr ?n" by (rule stoll_to_string)
  moreover have "fst e \<noteq> []" "hd (fst e @ x) \<noteq> newline" for x using assms(1) by (auto simp: name_ok_def)
  ultimately show ?thesis
    by (subst parse_header.simps) (simp add: header_line_def name size Let_def)
qed

lemma parse_header_lines:
  assumes "\<forall>e\<in>set es. name_ok (fst e) \<and> int (length (snd e)) \<le> int64_max"
  shows "parse_header (concat (map header_line es) @ newline # rest) acc =
    Inr (acc @ map (\<lambda>e. (fst e, word_of_nat (length (snd e)))) es, rest)"
  using assms
proof (induction es arbitrary: acc)
  case Nil
  show ?case by (subst parse_header.simps) simp
next
  case (Cons e es)
  then show ?case by (simp add: parse_header_line)
qed

lemma place_sections_end:
  "fst (place_sections (map (\<lambda>e. (fst e, word_of_nat (length (snd e)))) es) ptr out) =
   ptr + word_of_nat (length (concat (map snd es)))"
  by (induction es arbitrary: ptr out) (simp_all add: add.assoc)

lemma place_sections_other:
  "n \<notin> fst ` set es \<Longrightarrow> map_of (snd (place_sections es ptr out)) n = map_of out n"
  by (induction es ptr out rule: place_sections.induct) auto

text \<open>With distinct names, a section is found where the sections before it end.\<close>

lemma place_sections_at:
  assumes "distinct (map fst (pre @ e # post))"
  shows "map_of (snd (place_sections (map (\<lambda>e. (fst e, word_of_nat (length (snd e)))) (pre @ e # post)) ptr out)) (fst e)
    = Some (ptr + word_of_nat (length (concat (map snd pre))), word_of_nat (length (snd e)))"
  using assms
proof (induction pre arbitrary: ptr out)
  case Nil
  then show ?case using place_sections_other [of "fst e" "map (\<lambda>e. (fst e, word_of_nat (length (snd e)))) post"]
    by (force simp: image_image)
next
  case (Cons d pre)
  then show ?case by (simp add: add.assoc)
qed

lemma parse_wire_image:
  assumes ok: "\<forall>e\<in>set es. name_ok (fst e)" and d: "distinct (map fst es)" and len: "length (wire_image es) < 2 ^ 63"
  obtains out where "parseWireSections (wire_image es) = Inr out"
    and "\<And>n. n \<notin> fst ` set es \<Longrightarrow> map_of out n = None"
    and "\<And>n x. (n, x) \<in> set es \<Longrightarrow> \<exists>sec. map_of out n = Some sec \<and> copy_section (wire_image es) sec = Inr x \<and> (snd sec = 0 \<longleftrightarrow> x = [])"
proof -
  let ?hdr = "concat (map header_line es) @ [newline]" and ?body = "concat (map snd es)"
  let ?ws = "map (\<lambda>e. (fst e, word_of_nat (length (snd e)) :: 64 word)) es"
  let ?h = "length ?hdr"
  have img: "wire_image es = ?hdr @ ?body" by (simp add: wire_image_def)
  have small: "length x < 2 ^ 63" if m: "(n, x) \<in> set es" for n x
  proof -
    obtain pre post where "es = pre @ (n, x) # post" using m by (meson split_list)
    then have "length x \<le> length ?body" by simp
    then show ?thesis using len by (simp add: img)
  qed
  have hd: "parse_header (wire_image es) [] = Inr (?ws, ?body)"
    using parse_header_lines [of es ?body "[]"] ok small by (fastforce simp: wire_image_def int64_max_def)
  define out where "out = snd (place_sections ?ws (word_of_nat ?h) [])"
  have "parseWireSections (wire_image es) = Inr out"
  proof -
    have l: "length (wire_image es) = ?h + length ?body" by (simp add: img)
    have "fst (place_sections ?ws (word_of_nat ?h) []) = word_of_nat (?h + length ?body)"
      using place_sections_end [of es "word_of_nat ?h" "[]"] by simp
    then show ?thesis
      unfolding parseWireSections_def hd bindE_simps prod.case l diff_add_inverse2 case_prod_beta Let_def out_def by simp
  qed
  moreover have "map_of out n = None" if "n \<notin> fst ` set es" for n
    using place_sections_other [of n ?ws] that by (force simp: out_def)
  moreover have "\<exists>sec. map_of out n = Some sec \<and> copy_section (wire_image es) sec = Inr x \<and> (snd sec = 0 \<longleftrightarrow> x = [])" if m: "(n, x) \<in> set es" for n x
  proof -
    obtain pre post where es: "es = pre @ (n, x) # post" using m by (meson split_list)
    let ?k = "length (concat (map snd pre))"
    have at: "map_of out n = Some (word_of_nat ?h + word_of_nat ?k, word_of_nat (length x))"
      using place_sections_at [of pre "(n, x)" post "word_of_nat ?h" "[]"] d unfolding out_def es by simp
    have fits: "?h + ?k + length x \<le> length (wire_image es)" unfolding img by (simp add: es)
    have p: "(2::nat) ^ 63 < 2 ^ 64" by simp
    have lt1: "?h + ?k < 2 ^ 64" using fits len p by (meson add_leD1 le_less_trans less_trans)
    have lt2: "length x < 2 ^ 64" using fits len p by (meson add_leD2 le_less_trans less_trans)
    have u: "unat (word_of_nat ?h + word_of_nat ?k :: 64 word) = ?h + ?k" "unat (word_of_nat (length x) :: 64 word) = length x"
      using unat_word64_of_nat [OF lt1] unat_word64_of_nat [OF lt2] unfolding of_nat_add by blast+
    have "take (length x) (drop (?h + ?k) (wire_image es)) = x" unfolding img by (simp add: es)
    then have "copy_section (wire_image es) (word_of_nat ?h + word_of_nat ?k, word_of_nat (length x)) = Inr x"
      unfolding copy_section_def fst_conv snd_conv u using fits by (simp only: if_True)
    moreover have "(word_of_nat (length x) :: 64 word) = 0 \<longleftrightarrow> x = []"
      using word64_of_nat_eq_0 [OF lt2] by simp
    ultimately show ?thesis using at by auto
  qed
  ultimately show thesis by (rule that)
qed

lemma digit_names:
  "name_ok (to_string (int i))" "to_string (int i) \<noteq> kPayload" "to_string (int i) \<noteq> kMeta"
proof -
  have d: "c \<in> set (to_string (int i)) \<Longrightarrow> is_digit c" for c using to_string_digits [of "int i"] by simp
  have "is_digit (hd (to_string (int i)))" by (rule d) simp
  with d newline_not_digit show "name_ok (to_string (int i))" unfolding name_ok_def by (metis to_string_ne)
  have "\<not> is_digit (CHR ''p'')" "\<not> is_digit (CHR ''m'')" by (simp_all add: is_digit_def)
  with d show "to_string (int i) \<noteq> kPayload" "to_string (int i) \<noteq> kMeta" by (auto simp: kPayload_def kMeta_def)
qed

lemma entries_ok:
  "\<forall>e\<in>set (entries_of api pickle p ts). name_ok (fst e)" "distinct (map fst (entries_of api pickle p ts))"
proof -
  have k: "name_ok kPayload" "name_ok kMeta" "kPayload \<noteq> kMeta" by (simp_all add: name_ok_def kPayload_def kMeta_def)
  then show "\<forall>e\<in>set (entries_of api pickle p ts). name_ok (fst e)"
    by (auto simp: entries_of_def digit_names split: prod.splits if_splits)
  have "distinct (map (\<lambda>i. to_string (int i)) [0..<n])" for n
    by (auto simp: distinct_map inj_on_def to_string_inj)
  then show "distinct (map fst (entries_of api pickle p ts))"
    using k digit_names(2,3) digit_names(2,3) [THEN not_sym]
    by (auto simp: entries_of_def comp_def split: prod.splits)
qed

section \<open>Properties\<close>

text \<open>
  C40. A payload and tensors that were serialized for the wire are read back unchanged, for every
  message below \<open>2 ^ 63\<close> bytes, given that the unpickler inverts the pickler when it is served the
  pickler's tensor sections and that cloning keeps the content of a tensor.
\<close>

theorem wire_roundtrip:
  assumes "wireSerialize api pickle payload ts = Inr s" and "length s < 2 ^ 63"
    and "\<forall>t. clone api t = t"
    and unp: "\<forall>ts meta td sec. pickle ts = (meta, td) \<longrightarrow> (\<forall>i<length td. sec (to_string (int i)) = Inr (td ! i)) \<longrightarrow>
      unpickle sec meta = Inr ts"
  shows "wireDeserialize unpickle s = Inr (payload, ts)"
proof -
  let ?es = "entries_of api pickle payload ts"
  have s: "s = wire_image ?es" using assms(1) by (simp add: wireSerialize_def split: if_splits)
  have cl: "cloneSparseTensors api ts = ts" using assms(3) by (simp add: cloneSparseTensors_def map_idI)
  obtain meta td where pk: "pickle ts = (meta, td)" by (cases "pickle ts")
  obtain out where out: "parseWireSections s = Inr out"
    and absent: "\<And>n. n \<notin> fst ` set ?es \<Longrightarrow> map_of out n = None"
    and present: "\<And>n x. (n, x) \<in> set ?es \<Longrightarrow> \<exists>sec. map_of out n = Some sec \<and> copy_section s sec = Inr x \<and> (snd sec = 0 \<longleftrightarrow> x = [])"
    using parse_wire_image [OF entries_ok] assms(2) unfolding s by metis
  have "kMeta \<noteq> kPayload" by (simp add: kMeta_def kPayload_def)
  then have pay: "payload = [] \<Longrightarrow> kPayload \<notin> fst ` set ?es" "payload \<noteq> [] \<Longrightarrow> (kPayload, payload) \<in> set ?es"
    using digit_names(2) by (auto simp: entries_of_def cl pk) (metis digit_names(2))
  have pl: "(case map_of out kPayload of Some sec \<Rightarrow> if snd sec \<noteq> 0 then copy_section s sec else Inr [] | None \<Rightarrow> Inr []) = Inr payload"
  proof (cases "payload = []")
    case True
    with absent [OF pay(1)] show ?thesis by simp
  next
    case False
    with present [OF pay(2)] show ?thesis by auto
  qed
  have "(case map_of out kMeta of Some sec \<Rightarrow> bindE (copy_section s sec) (unpickle (sectionReadFunc s out)) | None \<Rightarrow> Inr []) = Inr ts"
  proof (cases "ts = []")
    case True
    then have "kMeta \<notin> fst ` set ?es" using \<open>kMeta \<noteq> kPayload\<close> by (simp add: entries_of_def)
    then show ?thesis using absent True by simp
  next
    case False
    then have es: "set ?es \<supseteq> insert (kMeta, meta) ((\<lambda>i. (to_string (int i), td ! i)) ` {0..<length td})"
      by (auto simp: entries_of_def cl pk)
    have "sectionReadFunc s out (to_string (int i)) = Inr (td ! i)" if "i < length td" for i
    proof -
      have "(to_string (int i), td ! i) \<in> set ?es" using es that by force
      from present [OF this] show ?thesis by (auto simp: sectionReadFunc_def)
    qed
    then have "unpickle (sectionReadFunc s out) meta = Inr ts" using unp pk by blast
    moreover obtain sec where "map_of out kMeta = Some sec" "copy_section s sec = Inr meta" using present es by blast
    ultimately show ?thesis by simp
  qed
  with out pl show ?thesis by (simp add: wireDeserialize_def)
qed

text \<open>A pickler over texts: the metadata lists the number of tensors, the sections are the texts.\<close>

definition text_pickle :: "string list \<Rightarrow> string \<times> string list" where
  "text_pickle ts = (replicate (length ts) (CHR ''t''), ts)"

fun collect :: "(string \<Rightarrow> string res) \<Rightarrow> nat list \<Rightarrow> string list res" where
  "collect sec [] = Inr []"
| "collect sec (i # is) = bindE (sec (to_string (int i))) (\<lambda>x. bindE (collect sec is) (\<lambda>xs. Inr (x # xs)))"

definition text_unpickle :: "(string \<Rightarrow> string res) \<Rightarrow> string \<Rightarrow> string list res" where
  "text_unpickle sec meta = collect sec [0..<length meta]"

definition text_api :: "string tensor_api" where
  "text_api = \<lparr>is_cpu = (\<lambda>_. True), has_storage = (\<lambda>_. False), nbytes = length, element_size = (\<lambda>_. 1),
     t_numel = length, clone = (\<lambda>t. t)\<rparr>"

lemma collect_map: "\<forall>i\<in>set is. sec (to_string (int i)) = Inr (xs ! i) \<Longrightarrow> collect sec is = Inr (map ((!) xs) is)"
  by (induction "is") auto

theorem wire_roundtrip_witness:
  "wireDeserialize text_unpickle (wire_image (entries_of text_api text_pickle ''hi'' [''ab'', []])) = Inr (''hi'', [''ab'', []])"
proof -
  let ?s = "wire_image (entries_of text_api text_pickle ''hi'' [''ab'', []])"
  have "length ?s < 2 ^ 63"
    by (simp add: wire_image_def entries_of_def text_pickle_def cloneSparseTensors_def text_api_def header_line_def
        kPayload_def kMeta_def to_string_def nat_to_string.simps upt_rec)
  moreover have "wireSerialize text_api text_pickle ''hi'' [''ab'', []] = Inr ?s"
    by (simp add: wireSerialize_def text_api_def)
  moreover have "text_pickle ts = (meta, td) \<Longrightarrow> (\<forall>i<length td. sec (to_string (int i)) = Inr (td ! i)) \<Longrightarrow>
      text_unpickle sec meta = Inr ts" for ts meta td sec
    using collect_map [of "[0..<length ts]" sec ts] by (auto simp: text_pickle_def text_unpickle_def map_nth)
  ultimately show ?thesis
    using wire_roundtrip [of text_api text_pickle "''hi''" "[''ab'', []]" ?s text_unpickle]
    by (simp add: text_api_def)
qed

text \<open>
  The error type written into an error text is the one read back, whatever the text says, so a
  timeout is recognised as such; a text without the prefix reads as an unknown error.
\<close>

theorem error_type_roundtrip:
  assumes "0 \<le> t" and "t < 2 ^ 31"
  shows "getRPCErrorType (Some (makeRPCError msg t)) = Inr t"
proof -
  have "takeWhile (\<lambda>c. c \<noteq> CHR '':'') (to_string t @ CHR '':'' # msg) = to_string t"
    using to_string_digits [OF assms(1)] newline_not_digit by (auto intro!: takeWhile_stop)
  then show ?thesis
    using assms by (simp add: getRPCErrorType_def makeRPCError_def kRPCErrorPrefix_def)
qed

lemma wrapped_payload_back:
  assumes "length additional < 2 ^ 63"
  shows "readWrappedPayload (writeWrappedPayload original additional) =
    (if original = [] then Inl (C10_assert ''Wrong payload sizes: payload.size() is '') else Inr (original, additional))"
proof -
  let ?n = "int (length additional)"
  have be: "length (be_int64 ?n) = 8" by (simp add: be_int64_def)
  have "in_int64 ?n" using assms by (simp add: in_int64_def int64_min_def int64_max_def)
  then have n: "int64_of_be (be_int64 ?n) = ?n"
    by (simp add: int64_of_be_def be_int64_def wrap64_id)
  have lt: "length additional < 2 ^ 64" using assms by simp
  have u: "unat (word_of_int ?n :: 64 word) = length additional"
    using unat_word64_of_nat [OF lt] by simp
  show ?thesis
    using be by (simp add: readWrappedPayload_def writeWrappedPayload_def n u Let_def del: of_int_of_nat_eq)
qed

text \<open>
  An additional payload wrapped behind a non-empty payload is recovered together with it; behind
  an empty payload the reader rejects what the writer produced.
\<close>

theorem wrapped_payload_roundtrip:
  assumes "length additional < 2 ^ 63"
  shows "readWrappedPayload (writeWrappedPayload original additional) =
    (if original = [] then Inl (C10_assert ''Wrong payload sizes: payload.size() is '') else Inr (original, additional))"
  by (rule wrapped_payload_back [OF assms])

theorem wrapped_payload_roundtrip_witness:
  "readWrappedPayload (writeWrappedPayload ''body'' ''extra'') = Inr (''body'', ''extra'')"
  using wrapped_payload_roundtrip [of "''extra''" "''body''"] by simp

text \<open>
  Section sizes are read as signed numbers into an unsigned type and only the end of the last
  section is compared with the end of the data: a negative size makes the sections add up, and a
  payload section beyond the data is accepted and copied from.
\<close>

theorem wire_sections_out_of_bounds:
  "parseWireSections (''payload 99'' @ [newline] @ ''x -99'' @ [newline, newline]) = Inr [(''payload'', (18, 99)), (''x'', (117, - 99))]
   \<and> wireDeserialize text_unpickle (''payload 99'' @ [newline] @ ''x -99'' @ [newline, newline]) = Inl Undefined"
proof -
  have "parse_header (''payload 99'' @ [newline] @ ''x -99'' @ [newline, newline]) [] = Inr ([(''payload'', 99), (''x'', - 99)], [])"
    by (simp add: parse_header.simps stoll_def parse_decimal_def is_space_def is_digit_def digits_val_def digit_val_def
        int64_min_def int64_max_def)
  then have "parseWireSections (''payload 99'' @ [newline] @ ''x -99'' @ [newline, newline]) = Inr [(''payload'', (18, 99)), (''x'', (117, - 99))]"
    by (simp add: parseWireSections_def)
  then show ?thesis by (simp add: wireDeserialize_def kPayload_def copy_section_def)
qed

end
