(* ===== verification/Rpc_Commands.thy ===== *)
theory Rpc_Commands
  imports Rpc_Wire RRef_Context
begin

text \<open>
  The commands of the RPC layer and their messages: \<^verbatim>\<open>rpc/script_call.cpp\<close>, \<^verbatim>\<open>script_remote_call.cpp\<close>,
  \<^verbatim>\<open>script_resp.cpp\<close>, \<^verbatim>\<open>python_call.cpp\<close>, \<^verbatim>\<open>python_remote_call.cpp\<close>, \<^verbatim>\<open>python_resp.cpp\<close>, \<^verbatim>\<open>rref_proto.cpp\<close>, the
  classes under \<^verbatim>\<open>autograd/rpc_messages\<close>, and the dispatch of \<^verbatim>\<open>rpc/utils.cpp\<close>. Tensors are names. The pickler
  of the script runtime and its operator registry are arguments. The main results: every request and
  response that can be sent is read back as the same command, however deeply it is wrapped for autograd
  and profiling.
\<close>

section \<open>Values\<close>

record pickler =
  pk :: "ivalue \<Rightarrow> string \<times> nat list"
  upk :: "string \<Rightarrow> nat list \<Rightarrow> ivalue res"

fun no_tensors :: "ivalue \<Rightarrow> bool" where
  "no_tensors (ITensor t) = False"
| "no_tensors (ITuple vs) = list_all no_tensors vs"
| "no_tensors _ = True"

definition documented_pickler :: "pickler \<Rightarrow> bool" where
  "documented_pickler P \<longleftrightarrow>
     (\<forall>v. upk P (fst (pk P v)) (snd (pk P v)) = Inr v) \<and>
     (\<forall>v. fst (pk P v) \<noteq> []) \<and>
     (\<forall>v. no_tensors v \<longrightarrow> snd (pk P v) = [])"

definition toBool :: "ivalue \<Rightarrow> bool res" where
  "toBool v = (case v of IBool b \<Rightarrow> Inr b | _ \<Rightarrow> Inl (C10_assert ''isBool()''))"

definition toStringRef :: "ivalue \<Rightarrow> string res" where
  "toStringRef v = (case v of IString s \<Rightarrow> Inr s | _ \<Rightarrow> Inl (C10_assert ''Expected String but got ''))"

definition toTensor :: "ivalue \<Rightarrow> nat res" where
  "toTensor v = (case v of ITensor t \<Rightarrow> Inr t | _ \<Rightarrow> Inl (C10_assert ''Expected Tensor but got ''))"

definition toDict :: "ivalue \<Rightarrow> (int \<times> int) list res" where
  "toDict v = (case v of IDict d \<Rightarrow> Inr d | _ \<Rightarrow> Inl (C10_assert ''Expected GenericDict but got ''))"

definition toTuple :: "ivalue \<Rightarrow> ivalue list res" where
  "toTuple v = (case v of ITuple vs \<Rightarrow> Inr vs | _ \<Rightarrow> Inl (C10_assert ''Expected Tuple but got ''))"

text \<open>\<^verbatim>\<open>back()\<close> and \<^verbatim>\<open>pop_back()\<close>, which are undefined on an empty vector.\<close>

definition pop_back :: "'a list \<Rightarrow> ('a \<times> 'a list) res" where
  "pop_back vs = (if vs = [] then Inl Undefined else Inr (last vs, butlast vs))"

fun mapE :: "('a \<Rightarrow> 'b res) \<Rightarrow> 'a list \<Rightarrow> 'b list res" where
  "mapE f [] = Inr []"
| "mapE f (x # xs) = bindE (f x) (\<lambda>y. bindE (mapE f xs) (\<lambda>ys. Inr (y # ys)))"

definition ivalues_of :: "pickler \<Rightarrow> nat message \<Rightarrow> ivalue list res" where
  "ivalues_of P m = bindE (upk P (m_payload m) (m_tensors m)) toTuple"

definition message_with :: "pickler \<Rightarrow> ivalue \<Rightarrow> MessageType \<Rightarrow> nat message" where
  "message_with P v ty = \<lparr>m_payload = fst (pk P v), m_tensors = snd (pk P v), m_type = ty, m_id = - 1\<rparr>"

definition check_type :: "MessageType \<Rightarrow> nat message \<Rightarrow> unit res" where
  "check_type ty m = (if ty = m_type m then Inr () else Inl (C10_assert ''Expecting message of type ''))"

definition check_size :: "bool \<Rightarrow> string \<Rightarrow> unit res" where
  "check_size b msg = (if b then Inr () else Inl (C10_assert msg))"

text \<open>\<^verbatim>\<open>toIValues\<close> of \<^verbatim>\<open>rref_proto.cpp\<close>.\<close>

definition toIValues :: "pickler \<Rightarrow> nat message \<Rightarrow> MessageType \<Rightarrow> ivalue list res" where
  "toIValues P m ty = bindE (check_type ty m) (\<lambda>_. ivalues_of P m)"

definition fromIValues :: "pickler \<Rightarrow> ivalue list \<Rightarrow> MessageType \<Rightarrow> nat message" where
  "fromIValues P vs ty = message_with P (ITuple vs) ty"

section \<open>Script calls\<close>

record operator =
  op_name :: string
  op_schema :: string

record registry =
  schema_name :: "string \<Rightarrow> string"
  getAllOperatorsFor :: "string \<Rightarrow> operator list"

record script_call =
  sc_op :: "operator option"
  sc_qualifiedName :: "string option"
  sc_stack :: "ivalue list"
  sc_isAsyncExecution :: bool

definition ATEN_PREFIX :: string where "ATEN_PREFIX = ''aten::''"
definition BUILTIN_OP_NAMESPACE :: string where "BUILTIN_OP_NAMESPACE = ''torch.ops.aten.''"

definition occurrences :: "string \<Rightarrow> string \<Rightarrow> nat list" where
  "occurrences pat s = filter (\<lambda>i. take (length pat) (drop i s) = pat) [0..<Suc (length s)]"

definition str_find :: "string \<Rightarrow> string \<Rightarrow> nat option" where
  "str_find s pat = (case occurrences pat s of [] \<Rightarrow> None | i # is \<Rightarrow> Some i)"

definition str_rfind :: "string \<Rightarrow> string \<Rightarrow> nat option" where
  "str_rfind s pat = (case rev (occurrences pat s) of [] \<Rightarrow> None | i # is \<Rightarrow> Some i)"

definition ScriptCall_toIValues :: "script_call \<Rightarrow> ivalue list res" where
  "ScriptCall_toIValues c =
     (case sc_op c of
        Some op \<Rightarrow>
          (if sc_qualifiedName c \<noteq> None then Inl (C10_error ''It is builtin operator call, qualifiedName_ should not be set.'')
           else if \<not> (str_find (op_name op) ''::'' = str_rfind (op_name op) ''::'' \<and> str_rfind (op_name op) ATEN_PREFIX = Some 0)
           then Inl (C10_error ''Unexpected operator name '')
           else Inr (sc_stack c @ [IString (op_schema op), IString (BUILTIN_OP_NAMESPACE @ drop (length ATEN_PREFIX) (op_name op))]))
      | None \<Rightarrow>
          (case sc_qualifiedName c of
             Some n \<Rightarrow> Inr (sc_stack c @ [IBool (sc_isAsyncExecution c), IString n])
           | None \<Rightarrow> Inl (C10_assert ''Either builtin operator or TorchScript function name should be set.'')))"

definition matchOperator :: "registry \<Rightarrow> string \<Rightarrow> operator res" where
  "matchOperator R str_schema =
     (case List.find (\<lambda>op. op_schema op = str_schema) (getAllOperatorsFor R (schema_name R str_schema)) of
        Some op \<Rightarrow> Inr op
      | None \<Rightarrow> Inl (C10_error ''Cannot find matching operator for schema ''))"

definition ScriptCall_fromIValues :: "registry \<Rightarrow> ivalue list \<Rightarrow> script_call res" where
  "ScriptCall_fromIValues R vs =
     bindE (pop_back vs) (\<lambda>(n, vs).
     bindE (toStringRef n) (\<lambda>qualifiedName.
     if str_rfind qualifiedName BUILTIN_OP_NAMESPACE = Some 0
     then bindE (pop_back vs) (\<lambda>(s, vs).
          bindE (toStringRef s) (\<lambda>str_schema.
          bindE (matchOperator R str_schema) (\<lambda>op.
          Inr \<lparr>sc_op = Some op, sc_qualifiedName = None, sc_stack = vs, sc_isAsyncExecution = False\<rparr>)))
     else bindE (pop_back vs) (\<lambda>(b, vs).
          bindE (toBool b) (\<lambda>isAsyncExecution.
          Inr \<lparr>sc_op = None, sc_qualifiedName = Some qualifiedName, sc_stack = vs, sc_isAsyncExecution = isAsyncExecution\<rparr>))))"

section \<open>Commands\<close>

text \<open>\<open>NullRpc\<close> is the null pointer some \<^verbatim>\<open>fromMessage\<close> functions return.\<close>

datatype command =
    ScriptCall script_call
  | ScriptRemoteCall script_call gid gid
  | PythonCall string "nat list" bool
  | PythonRemoteCall string "nat list" ivalue ivalue bool
  | ScriptRRefFetchCall int gid
  | PythonRRefFetchCall int gid
  | RRefUserDelete gid gid
  | RRefChildAccept gid
  | RRefForkRequest gid gid
  | PropagateGradientsReq int int "nat list" bool
  | CleanupAutogradContextReq int
  | RRefBackwardReq gid int bool
  | RpcWithAutograd int int int "(int \<times> int) list" command
  | RpcWithProfilingReq ivalue gid command
  | ScriptResp ivalue
  | PythonResp string "nat list"
  | RemoteRet gid gid
  | ScriptRRefFetchRet "ivalue list"
  | PythonRRefFetchRet "ivalue list"
  | RRefAck
  | PropagateGradientsResp
  | CleanupAutogradContextResp
  | RRefBackwardResp
  | NullRpc

subsection \<open>To messages\<close>

definition SerializedPyObj_toIValues :: "string \<Rightarrow> nat list \<Rightarrow> ivalue list" where
  "SerializedPyObj_toIValues payload tensors = map ITensor tensors @ [IString payload]"

definition PythonCall_toMessage :: "string \<Rightarrow> nat list \<Rightarrow> bool \<Rightarrow> nat message" where
  "PythonCall_toMessage payload tensors isAsync =
     \<lparr>m_payload = char_of (if isAsync then 1 else 0 :: nat) # payload, m_tensors = tensors, m_type = PYTHON_CALL, m_id = - 1\<rparr>"

definition PythonResp_toMessage :: "string \<Rightarrow> nat list \<Rightarrow> nat message" where
  "PythonResp_toMessage payload tensors = \<lparr>m_payload = payload, m_tensors = tensors, m_type = PYTHON_RET, m_id = - 1\<rparr>"

definition PropagateGradientsReq_toMessage :: "pickler \<Rightarrow> int \<Rightarrow> int \<Rightarrow> nat list \<Rightarrow> bool \<Rightarrow> nat message" where
  "PropagateGradientsReq_toMessage P cid mid grads retainGraph =
     message_with P (ITuple (map ITensor grads @ [IInt cid, IInt mid, IBool retainGraph])) BACKWARD_AUTOGRAD_REQ"

text \<open>The numeric value of a message type in an \<^verbatim>\<open>IValue\<close>.\<close>

definition type_value :: "MessageType \<Rightarrow> int" where
  "type_value ty = uint (message_code ty)"

definition RpcWithAutograd_toMessage ::
    "pickler \<Rightarrow> MessageType \<Rightarrow> int \<Rightarrow> int \<Rightarrow> int \<Rightarrow> (int \<times> int) list \<Rightarrow> nat message \<Rightarrow> nat message res" where
  "RpcWithAutograd_toMessage P messageType fromWorkerId cid mid deviceMap wrapped =
     (if messageType \<noteq> FORWARD_AUTOGRAD_REQ \<and> messageType \<noteq> FORWARD_AUTOGRAD_RESP then Inl (C10_assert ''messageType_'')
      else if m_payload wrapped = [] then Inl (C10_assert ''!payload.empty()'')
      else let (additionalPayload, tensorTable) =
                 pk P (ITuple [IInt (type_value (m_type wrapped)), IInt cid, IInt mid, IInt fromWorkerId, IDict deviceMap])
           in if tensorTable \<noteq> [] then Inl (C10_assert ''tensorTable.empty()'')
              else Inr \<lparr>m_payload = writeWrappedPayload (m_payload wrapped) additionalPayload, m_tensors = m_tensors wrapped,
                        m_type = messageType, m_id = m_id wrapped\<rparr>)"

definition RpcWithProfilingReq_toMessage :: "pickler \<Rightarrow> ivalue \<Rightarrow> gid \<Rightarrow> nat message \<Rightarrow> nat message res" where
  "RpcWithProfilingReq_toMessage P profilerConfig profilingKeyId wrapped =
     (if m_payload wrapped = [] then Inl (C10_assert ''Wrapped payload should not be empty.'')
      else Inr \<lparr>m_payload = writeWrappedPayload (m_payload wrapped)
                  (fst (pk P (ITuple [IInt (type_value (m_type wrapped)), profilerConfig, toIValue profilingKeyId]))),
                m_tensors = m_tensors wrapped, m_type = RUN_WITH_PROFILING_REQ, m_id = m_id wrapped\<rparr>)"

definition RpcWithProfilingResp_toMessage :: "pickler \<Rightarrow> gid \<Rightarrow> ivalue list \<Rightarrow> nat message \<Rightarrow> nat message res" where
  "RpcWithProfilingResp_toMessage P profilingId profiledEvents wrapped =
     (if m_payload wrapped = [] then Inl (C10_assert ''Wrapped payload cannot be empty'')
      else Inr \<lparr>m_payload = writeWrappedPayload (m_payload wrapped)
                  (fst (pk P (ITuple ([IInt (type_value (m_type wrapped)), toIValue profilingId,
                     IInt (sint (word_of_int (int (length profiledEvents)) :: 32 word))] @ profiledEvents)))),
                m_tensors = m_tensors wrapped, m_type = RUN_WITH_PROFILING_RESP, m_id = m_id wrapped\<rparr>)"

definition empty_message :: "MessageType \<Rightarrow> nat message" where
  "empty_message ty = \<lparr>m_payload = [], m_tensors = [], m_type = ty, m_id = - 1\<rparr>"

definition ScriptCall_toMessage :: "pickler \<Rightarrow> script_call \<Rightarrow> nat message res" where
  "ScriptCall_toMessage P c = bindE (ScriptCall_toIValues c) (\<lambda>vs. Inr (message_with P (ITuple vs) SCRIPT_CALL))"

definition ScriptRemoteCall_toMessage :: "pickler \<Rightarrow> script_call \<Rightarrow> gid \<Rightarrow> gid \<Rightarrow> nat message res" where
  "ScriptRemoteCall_toMessage P c retRRefId retForkId =
     bindE (ScriptCall_toIValues c) (\<lambda>vs. Inr (message_with P (ITuple (vs @ [toIValue retRRefId, toIValue retForkId])) SCRIPT_REMOTE_CALL))"

definition PythonRemoteCall_toMessage :: "pickler \<Rightarrow> string \<Rightarrow> nat list \<Rightarrow> ivalue \<Rightarrow> ivalue \<Rightarrow> bool \<Rightarrow> nat message" where
  "PythonRemoteCall_toMessage P payload tensors retRRefId retForkId isAsync =
     message_with P (ITuple (SerializedPyObj_toIValues payload tensors @ [retRRefId, retForkId, IBool isAsync])) PYTHON_REMOTE_CALL"

definition RRefFetchCall_toMessage :: "pickler \<Rightarrow> MessageType \<Rightarrow> int \<Rightarrow> gid \<Rightarrow> nat message" where
  "RRefFetchCall_toMessage P ty w r = fromIValues P [toIValue r, IInt w] ty"

definition ForkMessageBase_toMessage :: "pickler \<Rightarrow> MessageType \<Rightarrow> gid \<Rightarrow> gid \<Rightarrow> nat message" where
  "ForkMessageBase_toMessage P ty r f = fromIValues P [toIValue r, toIValue f] ty"

definition RRefChildAccept_toMessage :: "pickler \<Rightarrow> gid \<Rightarrow> nat message" where
  "RRefChildAccept_toMessage P f = fromIValues P [toIValue f] RREF_CHILD_ACCEPT"

definition CleanupAutogradContextReq_toMessage :: "pickler \<Rightarrow> int \<Rightarrow> nat message" where
  "CleanupAutogradContextReq_toMessage P cid = message_with P (IInt cid) CLEANUP_AUTOGRAD_CONTEXT_REQ"

definition RRefBackwardReq_toMessage :: "pickler \<Rightarrow> gid \<Rightarrow> int \<Rightarrow> bool \<Rightarrow> nat message" where
  "RRefBackwardReq_toMessage P r cid retain = message_with P (ITuple [toIValue r, IInt cid, IBool retain]) RREF_BACKWARD_REQ"

definition ScriptResp_toMessage :: "pickler \<Rightarrow> ivalue \<Rightarrow> nat message" where
  "ScriptResp_toMessage P v = message_with P v SCRIPT_RET"

definition RRefFetchRet_toMessage :: "pickler \<Rightarrow> MessageType \<Rightarrow> ivalue list \<Rightarrow> nat message" where
  "RRefFetchRet_toMessage P ty vs = message_with P (ITuple vs) ty"

fun toMessage :: "pickler \<Rightarrow> command \<Rightarrow> nat message res" where
  "toMessage P (ScriptCall c) = ScriptCall_toMessage P c"
| "toMessage P (ScriptRemoteCall c retRRefId retForkId) = ScriptRemoteCall_toMessage P c retRRefId retForkId"
| "toMessage P (PythonCall payload tensors isAsync) = Inr (PythonCall_toMessage payload tensors isAsync)"
| "toMessage P (PythonRemoteCall payload tensors retRRefId retForkId isAsync) =
     Inr (PythonRemoteCall_toMessage P payload tensors retRRefId retForkId isAsync)"
| "toMessage P (ScriptRRefFetchCall w r) = Inr (RRefFetchCall_toMessage P SCRIPT_RREF_FETCH_CALL w r)"
| "toMessage P (PythonRRefFetchCall w r) = Inr (RRefFetchCall_toMessage P PYTHON_RREF_FETCH_CALL w r)"
| "toMessage P (RRefUserDelete r f) = Inr (ForkMessageBase_toMessage P RREF_USER_DELETE r f)"
| "toMessage P (RRefChildAccept f) = Inr (RRefChildAccept_toMessage P f)"
| "toMessage P (RRefForkRequest r f) = Inr (ForkMessageBase_toMessage P RREF_FORK_REQUEST r f)"
| "toMessage P (PropagateGradientsReq cid mid grads retain) = Inr (PropagateGradientsReq_toMessage P cid mid grads retain)"
| "toMessage P (CleanupAutogradContextReq cid) = Inr (CleanupAutogradContextReq_toMessage P cid)"
| "toMessage P (RRefBackwardReq r cid retain) = Inr (RRefBackwardReq_toMessage P r cid retain)"
| "toMessage P (RpcWithAutograd w cid mid dm c) = bindE (toMessage P c) (RpcWithAutograd_toMessage P FORWARD_AUTOGRAD_REQ w cid mid dm)"
| "toMessage P (RpcWithProfilingReq cfg i c) = bindE (toMessage P c) (RpcWithProfilingReq_toMessage P cfg i)"
| "toMessage P (ScriptResp v) = Inr (ScriptResp_toMessage P v)"
| "toMessage P (PythonResp payload tensors) = Inr (PythonResp_toMessage payload tensors)"
| "toMessage P (RemoteRet r f) = Inr (ForkMessageBase_toMessage P REMOTE_RET r f)"
| "toMessage P (ScriptRRefFetchRet vs) = Inr (RRefFetchRet_toMessage P SCRIPT_RREF_FETCH_RET vs)"
| "toMessage P (PythonRRefFetchRet vs) = Inr (RRefFetchRet_toMessage P PYTHON_RREF_FETCH_RET vs)"
| "toMessage P RRefAck = Inr (empty_message RREF_ACK)"
| "toMessage P PropagateGradientsResp = Inr (empty_message BACKWARD_AUTOGRAD_RESP)"
| "toMessage P CleanupAutogradContextResp = Inr (empty_message CLEANUP_AUTOGRAD_CONTEXT_RESP)"
| "toMessage P RRefBackwardResp = Inr (empty_message RREF_BACKWARD_RESP)"
| "toMessage P NullRpc = Inl Undefined"

subsection \<open>From messages\<close>

definition ScriptCall_fromMessage :: "pickler \<Rightarrow> registry \<Rightarrow> nat message \<Rightarrow> command res" where
  "ScriptCall_fromMessage P R m = bindE (ivalues_of P m) (\<lambda>vs. bindE (ScriptCall_fromIValues R vs) (\<lambda>c. Inr (ScriptCall c)))"

text \<open>The stack of a remote call is what \<^verbatim>\<open>ScriptCall::fromIValues\<close> leaves.\<close>

definition ScriptRemoteCall_fromMessage :: "pickler \<Rightarrow> registry \<Rightarrow> nat message \<Rightarrow> command res" where
  "ScriptRemoteCall_fromMessage P R m =
     bindE (ivalues_of P m) (\<lambda>vs.
     bindE (pop_back vs) (\<lambda>(f, vs).
     bindE (fromIValue f) (\<lambda>retForkId.
     bindE (pop_back vs) (\<lambda>(r, vs).
     bindE (fromIValue r) (\<lambda>retRRefId.
     bindE (ScriptCall_fromIValues R vs) (\<lambda>c.
     Inr (ScriptRemoteCall c retRRefId retForkId)))))))"

definition PythonCall_fromMessage :: "nat message \<Rightarrow> command res" where
  "PythonCall_fromMessage m =
     (case m_payload m of
        [] \<Rightarrow> Inl (C10_assert ''Failed to convert an RPC message to PythonCall'')
      | c # payload \<Rightarrow>
          if \<not> (of_char c = (0::nat) \<or> of_char c = (1::nat)) then Inl (C10_assert ''c == 0 || c == 1'')
          else Inr (PythonCall payload (m_tensors m) (of_char c = (1::nat))))"

definition SerializedPyObj_fromIValues :: "ivalue list \<Rightarrow> (string \<times> nat list) res" where
  "SerializedPyObj_fromIValues vs =
     bindE (pop_back vs) (\<lambda>(p, vs). bindE (toStringRef p) (\<lambda>payload. bindE (mapE toTensor vs) (\<lambda>tensors. Inr (payload, tensors))))"

definition PythonRemoteCall_fromMessage :: "pickler \<Rightarrow> nat message \<Rightarrow> command res" where
  "PythonRemoteCall_fromMessage P m =
     bindE (ivalues_of P m) (\<lambda>vs.
     bindE (check_size (3 \<le> length vs) ''Expect at least 3 elements in the unpickled values, but got '') (\<lambda>_.
     bindE (pop_back vs) (\<lambda>(b, vs).
     bindE (toBool b) (\<lambda>isAsync.
     bindE (pop_back vs) (\<lambda>(retForkId, vs).
     bindE (pop_back vs) (\<lambda>(retRRefId, vs).
     bindE (SerializedPyObj_fromIValues vs) (\<lambda>(payload, tensors).
     Inr (PythonRemoteCall payload tensors retRRefId retForkId isAsync))))))))"

definition RRefFetchCall_fromMessage :: "pickler \<Rightarrow> MessageType \<Rightarrow> nat message \<Rightarrow> (int \<times> gid) res" where
  "RRefFetchCall_fromMessage P ty m =
     bindE (toIValues P m ty) (\<lambda>vs.
     bindE (check_size (length vs = 2) ''RRefFetchCall expects 2 IValues from message'') (\<lambda>_.
     bindE (toInt (vs ! 1)) (\<lambda>i.
     bindE (check_size (- (2 ^ 15) \<le> i \<and> i \<le> worker_id_max) ''RRefFetchCall fromWorkerId exceeds worker_id_t limit.'') (\<lambda>_.
     bindE (fromIValue (vs ! 0)) (\<lambda>r. Inr (to_worker_id i, r))))))"

definition ForkMessageBase_fromMessage :: "pickler \<Rightarrow> MessageType \<Rightarrow> nat message \<Rightarrow> (gid \<times> gid) res" where
  "ForkMessageBase_fromMessage P ty m =
     bindE (toIValues P m ty) (\<lambda>vs.
     bindE (check_size (length vs = 2) ''ScriptUserDelete expects 2 IValue from message.'') (\<lambda>_.
     bindE (fromIValue (vs ! 0)) (\<lambda>r. bindE (fromIValue (vs ! 1)) (\<lambda>f. Inr (r, f)))))"

definition RRefChildAccept_fromMessage :: "pickler \<Rightarrow> nat message \<Rightarrow> command res" where
  "RRefChildAccept_fromMessage P m =
     bindE (toIValues P m RREF_CHILD_ACCEPT) (\<lambda>vs.
     bindE (check_size (length vs = 1) ''Expect 1 IValues from message.'') (\<lambda>_.
     bindE (fromIValue (last vs)) (\<lambda>f. Inr (RRefChildAccept f))))"

definition PropagateGradientsReq_fromMessage :: "pickler \<Rightarrow> nat message \<Rightarrow> command res" where
  "PropagateGradientsReq_fromMessage P m =
     bindE (ivalues_of P m) (\<lambda>vs.
     bindE (check_size (3 \<le> length vs) ''tupleElements.size() >= 3'') (\<lambda>_.
     bindE (pop_back vs) (\<lambda>(b, vs).
     bindE (toBool b) (\<lambda>retainGraph.
     bindE (pop_back vs) (\<lambda>(i, vs).
     bindE (toInt i) (\<lambda>autogradMessageId.
     bindE (pop_back vs) (\<lambda>(c, vs).
     bindE (toInt c) (\<lambda>autogradContextId.
     bindE (mapE toTensor vs) (\<lambda>grads.
     Inr (PropagateGradientsReq autogradContextId autogradMessageId grads retainGraph))))))))))"

definition CleanupAutogradContextReq_fromMessage :: "pickler \<Rightarrow> nat message \<Rightarrow> command res" where
  "CleanupAutogradContextReq_fromMessage P m =
     bindE (upk P (m_payload m) (m_tensors m)) (\<lambda>v. bindE (toInt v) (\<lambda>cid. Inr (CleanupAutogradContextReq cid)))"

definition RRefBackwardReq_fromMessage :: "pickler \<Rightarrow> nat message \<Rightarrow> command res" where
  "RRefBackwardReq_fromMessage P m =
     bindE (ivalues_of P m) (\<lambda>vs.
     bindE (check_size (length vs = 3) ''tupleElements.size() == 3'') (\<lambda>_.
     bindE (toBool (vs ! 2)) (\<lambda>retain. bindE (toInt (vs ! 1)) (\<lambda>cid. bindE (fromIValue (vs ! 0)) (\<lambda>r.
     Inr (RRefBackwardReq r cid retain))))))"

definition ScriptResp_fromMessage :: "pickler \<Rightarrow> nat message \<Rightarrow> command res" where
  "ScriptResp_fromMessage P m = bindE (upk P (m_payload m) (m_tensors m)) (\<lambda>v. Inr (ScriptResp v))"

definition PythonResp_fromMessage :: "nat message \<Rightarrow> command res" where
  "PythonResp_fromMessage m = Inr (PythonResp (m_payload m) (m_tensors m))"

definition ScriptRRefFetchRet_fromMessage :: "pickler \<Rightarrow> nat message \<Rightarrow> command res" where
  "ScriptRRefFetchRet_fromMessage P m =
     bindE (toIValues P m SCRIPT_RREF_FETCH_RET) (\<lambda>vs.
     bindE (check_size (length vs = 1) ''RRef of IValue should contain a single IValue, but got '') (\<lambda>_. Inr (ScriptRRefFetchRet vs)))"

definition PythonRRefFetchRet_fromMessage :: "pickler \<Rightarrow> nat message \<Rightarrow> command res" where
  "PythonRRefFetchRet_fromMessage P m = bindE (toIValues P m PYTHON_RREF_FETCH_RET) (\<lambda>vs. Inr (PythonRRefFetchRet vs))"

subsection \<open>Wrapped messages\<close>

definition all_types :: "MessageType list" where
  "all_types = [SCRIPT_CALL, SCRIPT_RET, PYTHON_CALL, PYTHON_RET, SCRIPT_REMOTE_CALL, PYTHON_REMOTE_CALL, REMOTE_RET,
     SCRIPT_RREF_FETCH_CALL, PYTHON_RREF_FETCH_CALL, SCRIPT_RREF_FETCH_RET, PYTHON_RREF_FETCH_RET, RREF_USER_DELETE,
     RREF_FORK_REQUEST, RREF_CHILD_ACCEPT, RREF_ACK, FORWARD_AUTOGRAD_REQ, FORWARD_AUTOGRAD_RESP, BACKWARD_AUTOGRAD_REQ,
     BACKWARD_AUTOGRAD_RESP, CLEANUP_AUTOGRAD_CONTEXT_REQ, CLEANUP_AUTOGRAD_CONTEXT_RESP, RUN_WITH_PROFILING_REQ,
     RUN_WITH_PROFILING_RESP, RREF_BACKWARD_REQ, RREF_BACKWARD_RESP, EXCEPTION, UNKNOWN]"

text \<open>\<^verbatim>\<open>static_cast<MessageType>\<close>; a number without an enumerator is handled as an unknown type.\<close>

definition type_of_value :: "int \<Rightarrow> MessageType" where
  "type_of_value i = (case List.find (\<lambda>ty. type_value ty = i) all_types of Some ty \<Rightarrow> ty | None \<Rightarrow> UNKNOWN)"

definition read_wrapped :: "pickler \<Rightarrow> string \<Rightarrow> (string \<times> ivalue list) res" where
  "read_wrapped P payload =
     bindE (readWrappedPayload payload) (\<lambda>(rest, additional).
     bindE (upk P additional []) (\<lambda>v. bindE (toTuple v) (\<lambda>vs. Inr (rest, vs))))"

text \<open>\<^verbatim>\<open>c10::DeviceIndex\<close> is \<^verbatim>\<open>int8_t\<close>; insertion keeps the first entry of a key.\<close>

definition to_device_index :: "int \<Rightarrow> int" where
  "to_device_index i = sint (word_of_int i :: 8 word)"

fun insert_devices :: "(int \<times> int) list \<Rightarrow> (int \<times> int) list \<Rightarrow> (int \<times> int) list" where
  "insert_devices [] acc = acc"
| "insert_devices ((k, v) # es) acc =
     insert_devices es (if umap_has acc (to_device_index k) then acc else acc @ [(to_device_index k, to_device_index v)])"

definition wrapped_message :: "nat message \<Rightarrow> string \<Rightarrow> int \<Rightarrow> nat message" where
  "wrapped_message m payload ty = \<lparr>m_payload = payload, m_tensors = m_tensors m, m_type = type_of_value ty, m_id = m_id m\<rparr>"

definition unwrap_autograd :: "pickler \<Rightarrow> nat message \<Rightarrow> (int \<times> int \<times> int \<times> (int \<times> int) list \<times> nat message) res" where
  "unwrap_autograd P m =
     bindE (check_size (m_type m = FORWARD_AUTOGRAD_REQ \<or> m_type m = FORWARD_AUTOGRAD_RESP) ''originalMessageType'') (\<lambda>_.
     bindE (read_wrapped P (m_payload m)) (\<lambda>(payload, vs).
     bindE (check_size (length vs = 5) ''tupleElements.size() == 5'') (\<lambda>_.
     bindE (toInt (vs ! 0)) (\<lambda>ty. bindE (toInt (vs ! 1)) (\<lambda>cid. bindE (toInt (vs ! 2)) (\<lambda>mid.
     bindE (toInt (vs ! 3)) (\<lambda>w. bindE (toDict (vs ! 4)) (\<lambda>dm.
     Inr (to_worker_id w, cid, mid, insert_devices dm [], wrapped_message m payload ty)))))))))"

definition unwrap_profiling_req :: "pickler \<Rightarrow> (ivalue \<Rightarrow> ivalue res) \<Rightarrow> nat message \<Rightarrow> (ivalue \<times> gid \<times> nat message) res" where
  "unwrap_profiling_req P config m =
     bindE (read_wrapped P (m_payload m)) (\<lambda>(payload, vs).
     bindE (check_size (length vs = 3) ''Expected payload of size '') (\<lambda>_.
     bindE (toInt (vs ! 0)) (\<lambda>ty.
     bindE (config (vs ! 1)) (\<lambda>cfg.
     bindE (fromIValue (vs ! 2)) (\<lambda>i.
     bindE (check_size (isRequest (wrapped_message m payload ty)) ''Messages wrapped with profiling requests must be requests.'') (\<lambda>_.
     Inr (cfg, i, wrapped_message m payload ty)))))))"

text \<open>The loop over the events of a profiling response.\<close>

fun read_events :: "(ivalue \<Rightarrow> ivalue res) \<Rightarrow> nat \<Rightarrow> nat \<Rightarrow> ivalue list \<Rightarrow> ivalue list res" where
  "read_events event i 0 vs = Inr []"
| "read_events event i (Suc n) vs =
     (if \<not> i < length vs then Inl (C10_error ''i < tupleElements.size()'')
      else bindE (event (vs ! i)) (\<lambda>e. bindE (read_events event (Suc i) n vs) (\<lambda>es. Inr (e # es))))"

definition unwrap_profiling_resp :: "pickler \<Rightarrow> (ivalue \<Rightarrow> ivalue res) \<Rightarrow> nat message \<Rightarrow> (gid \<times> ivalue list \<times> nat message) res" where
  "unwrap_profiling_resp P event m =
     bindE (read_wrapped P (m_payload m)) (\<lambda>(payload, vs).
     bindE (check_size (3 \<le> length vs) ''Expected payload size of at least '') (\<lambda>_.
     bindE (toInt (vs ! 0)) (\<lambda>ty.
     bindE (fromIValue (vs ! 1)) (\<lambda>i.
     bindE (toInt (vs ! 2)) (\<lambda>n.
     bindE (read_events event 3 (nat (sint (word_of_int n :: 32 word))) vs) (\<lambda>events.
     bindE (check_size (isResponse (wrapped_message m payload ty)) ''Messages wrapped with profiling response must be responses.'') (\<lambda>_.
     Inr (i, events, wrapped_message m payload ty))))))))"

lemma read_wrapped_shorter: "read_wrapped P p = Inr (rest, vs) \<Longrightarrow> length rest < length p"
  by (auto simp: read_wrapped_def readWrappedPayload_def bindE_def Let_def split: sum.splits if_splits)

lemma unwrap_shorter:
  "unwrap_autograd P m = Inr (w, cid, mid, dm, m') \<Longrightarrow> length (m_payload m') < length (m_payload m)"
  "unwrap_profiling_req P config m = Inr (cfg, i, m') \<Longrightarrow> length (m_payload m') < length (m_payload m)"
  "unwrap_profiling_resp P event m = Inr (i, es, m') \<Longrightarrow> length (m_payload m') < length (m_payload m)"
  by (auto simp: unwrap_autograd_def unwrap_profiling_req_def unwrap_profiling_resp_def bindE_def wrapped_message_def
      split: sum.splits dest!: read_wrapped_shorter)

subsection \<open>Dispatch\<close>

record runtime =
  rt_pickler :: pickler
  rt_registry :: registry
  rt_config :: "ivalue \<Rightarrow> ivalue res"
  rt_event :: "ivalue \<Rightarrow> ivalue res"

function deserializeRequest :: "runtime \<Rightarrow> nat message \<Rightarrow> command res" where
  "deserializeRequest T m =
     (let P = rt_pickler T; R = rt_registry T
      in case m_type m of
           SCRIPT_CALL \<Rightarrow> ScriptCall_fromMessage P R m
         | PYTHON_CALL \<Rightarrow> PythonCall_fromMessage m
         | SCRIPT_REMOTE_CALL \<Rightarrow> ScriptRemoteCall_fromMessage P R m
         | PYTHON_REMOTE_CALL \<Rightarrow> PythonRemoteCall_fromMessage P m
         | SCRIPT_RREF_FETCH_CALL \<Rightarrow> bindE (RRefFetchCall_fromMessage P SCRIPT_RREF_FETCH_CALL m) (\<lambda>(w, r). Inr (ScriptRRefFetchCall w r))
         | PYTHON_RREF_FETCH_CALL \<Rightarrow> bindE (RRefFetchCall_fromMessage P PYTHON_RREF_FETCH_CALL m) (\<lambda>(w, r). Inr (PythonRRefFetchCall w r))
         | RREF_USER_DELETE \<Rightarrow> bindE (ForkMessageBase_fromMessage P RREF_USER_DELETE m) (\<lambda>(r, f). Inr (RRefUserDelete r f))
         | RREF_CHILD_ACCEPT \<Rightarrow> RRefChildAccept_fromMessage P m
         | RREF_FORK_REQUEST \<Rightarrow> bindE (ForkMessageBase_fromMessage P RREF_FORK_REQUEST m) (\<lambda>(r, f). Inr (RRefForkRequest r f))
         | FORWARD_AUTOGRAD_REQ \<Rightarrow>
             (case unwrap_autograd P m of
                Inl e \<Rightarrow> Inl e
              | Inr (w, cid, mid, dm, m') \<Rightarrow>
                  (case deserializeRequest T m' of
                     Inl e \<Rightarrow> Inl e
                   | Inr c \<Rightarrow> if c = NullRpc then Inl (C10_assert ''wrappedRpc cannot be null!'') else Inr (RpcWithAutograd w cid mid dm c)))
         | BACKWARD_AUTOGRAD_REQ \<Rightarrow> PropagateGradientsReq_fromMessage P m
         | CLEANUP_AUTOGRAD_CONTEXT_REQ \<Rightarrow> CleanupAutogradContextReq_fromMessage P m
         | RUN_WITH_PROFILING_REQ \<Rightarrow>
             (case unwrap_profiling_req P (rt_config T) m of
                Inl e \<Rightarrow> Inl e
              | Inr (cfg, i, m') \<Rightarrow>
                  (case deserializeRequest T m' of
                     Inl e \<Rightarrow> Inl e
                   | Inr c \<Rightarrow> if c = NullRpc then Inl (C10_assert ''wrappedRpc cant be null'') else Inr (RpcWithProfilingReq cfg i c)))
         | RREF_BACKWARD_REQ \<Rightarrow> RRefBackwardReq_fromMessage P m
         | _ \<Rightarrow> Inl (C10_assert ''Request type not supported.''))"
  by pat_completeness auto
termination
  by (relation "measure (\<lambda>(T, m). length (m_payload m))") (auto dest: unwrap_shorter)

declare deserializeRequest.simps [simp del]

text \<open>
  \<^verbatim>\<open>deserializeResponse\<close>: the command, the type of the innermost message, and what happened on the way:
  receive functions to attach (with the reversed device map) and remote profiler events.
\<close>

datatype response_effect =
    AddRecvRpcBackward int int "nat list" int "(int \<times> int) list"
  | RemoteProfiledEvents gid "ivalue list"

fun reverse_devices :: "(int \<times> int) list \<Rightarrow> (int \<times> int) list \<Rightarrow> (int \<times> int) list" where
  "reverse_devices [] acc = acc"
| "reverse_devices ((k, v) # es) acc = reverse_devices es (if umap_has acc v then acc else acc @ [(v, k)])"

function deserializeResponse :: "runtime \<Rightarrow> nat message \<Rightarrow> (command \<times> MessageType \<times> response_effect list) res" where
  "deserializeResponse T m =
     (let P = rt_pickler T; ret = (\<lambda>c. Inr (c, m_type m, []))
      in case m_type m of
           SCRIPT_RET \<Rightarrow> bindE (ScriptResp_fromMessage P m) ret
         | PYTHON_RET \<Rightarrow> bindE (PythonResp_fromMessage m) ret
         | REMOTE_RET \<Rightarrow> bindE (ForkMessageBase_fromMessage P REMOTE_RET m) (\<lambda>(r, f). ret (RemoteRet r f))
         | SCRIPT_RREF_FETCH_RET \<Rightarrow> bindE (ScriptRRefFetchRet_fromMessage P m) ret
         | PYTHON_RREF_FETCH_RET \<Rightarrow> bindE (PythonRRefFetchRet_fromMessage P m) ret
         | RREF_ACK \<Rightarrow> bindE (check_type RREF_ACK m) (\<lambda>_. ret RRefAck)
         | FORWARD_AUTOGRAD_RESP \<Rightarrow>
             (case unwrap_autograd P m of
                Inl e \<Rightarrow> Inl e
              | Inr (w, cid, mid, dm, m') \<Rightarrow>
                  (case deserializeResponse T m' of
                     Inl e \<Rightarrow> Inl e
                   | Inr (c, ty, effs) \<Rightarrow>
                       if c = NullRpc then Inl (C10_assert ''wrappedRpc cannot be null!'')
                       else Inr (c, ty, effs @ [AddRecvRpcBackward cid mid (m_tensors m) w (reverse_devices dm [])])))
         | BACKWARD_AUTOGRAD_RESP \<Rightarrow> ret NullRpc
         | CLEANUP_AUTOGRAD_CONTEXT_RESP \<Rightarrow> ret NullRpc
         | RUN_WITH_PROFILING_RESP \<Rightarrow>
             (case unwrap_profiling_resp P (rt_event T) m of
                Inl e \<Rightarrow> Inl e
              | Inr (i, events, m') \<Rightarrow>
                  (case deserializeResponse T m' of
                     Inl e \<Rightarrow> Inl e
                   | Inr (c, ty, effs) \<Rightarrow>
                       if c = NullRpc then Inl (C10_assert ''wrapped RPC cannot be null'')
                       else Inr (c, ty, effs @ [RemoteProfiledEvents i events])))
         | RREF_BACKWARD_RESP \<Rightarrow> bindE (check_type RREF_BACKWARD_RESP m) (\<lambda>_. ret NullRpc)
         | _ \<Rightarrow> Inl (C10_assert ''Response type not supported.''))"
  by pat_completeness auto
termination
  by (relation "measure (\<lambda>(T, m). length (m_payload m))") (auto dest: unwrap_shorter)

declare deserializeResponse.simps [simp del]

definition deserializeRespToIValue :: "runtime \<Rightarrow> nat message \<Rightarrow> (ivalue \<times> response_effect list) res" where
  "deserializeRespToIValue T m =
     bindE (deserializeResponse T m) (\<lambda>(c, ty, effs).
     case c of
       ScriptResp v \<Rightarrow> if ty = SCRIPT_RET then Inr (v, effs) else Inl (C10_assert ''is not supported to be deserialized to IValue.'')
     | _ \<Rightarrow> Inl (C10_assert ''is not supported to be deserialized to IValue.''))"

section \<open>Codecs\<close>

text \<open>
  What senders and receivers rely on: a valid command has a message, and the receiver reads the command
  back from it.
\<close>

locale message_codec =
  fixes enc :: "'c \<Rightarrow> 'm res" and dec :: "'m \<Rightarrow> 'd res" and valid :: "'c \<Rightarrow> bool" and meaning :: "'c \<Rightarrow> 'd"
  assumes roundtrip: "valid c \<Longrightarrow> \<exists>m. enc c = Inr m \<and> dec m = Inr (meaning c)"
begin

lemma sent_once: "valid c \<Longrightarrow> valid d \<Longrightarrow> enc c = enc d \<Longrightarrow> meaning c = meaning d"
  using roundtrip [of c] roundtrip [of d] by auto

lemma received: "valid c \<Longrightarrow> enc c = Inr m \<Longrightarrow> dec m = Inr (meaning c)"
  using roundtrip [of c] by auto

end

section \<open>Reading back\<close>

definition wf_gid :: "gid \<Rightarrow> bool" where
  "wf_gid g \<longleftrightarrow> - (2 ^ 15) \<le> createdOn g \<and> createdOn g \<le> worker_id_max \<and> localId g \<le> int64_max"

definition wf_worker :: "int \<Rightarrow> bool" where
  "wf_worker w \<longleftrightarrow> - (2 ^ 15) \<le> w \<and> w \<le> worker_id_max"

definition wf_devices :: "(int \<times> int) list \<Rightarrow> bool" where
  "wf_devices dm \<longleftrightarrow> distinct (map fst dm) \<and> (\<forall>(k, v) \<in> set dm. - 128 \<le> k \<and> k \<le> 127 \<and> - 128 \<le> v \<and> v \<le> 127)"

text \<open>The trailer of a wrapped payload has a length a 64-bit integer can hold, whatever the wrapped type.\<close>

definition small_trailer :: "pickler \<Rightarrow> ivalue list \<Rightarrow> bool" where
  "small_trailer P vs \<longleftrightarrow> list_all (\<lambda>ty. length (fst (pk P (ITuple (IInt (type_value ty) # vs)))) < 2 ^ 63) all_types"

definition wf_call :: "registry \<Rightarrow> script_call \<Rightarrow> bool" where
  "wf_call R c \<longleftrightarrow>
     (case sc_op c of
        Some op \<Rightarrow> sc_qualifiedName c = None \<and> \<not> sc_isAsyncExecution c \<and>
          str_find (op_name op) ''::'' = str_rfind (op_name op) ''::'' \<and> str_rfind (op_name op) ATEN_PREFIX = Some 0 \<and>
          str_rfind (BUILTIN_OP_NAMESPACE @ drop (length ATEN_PREFIX) (op_name op)) BUILTIN_OP_NAMESPACE = Some 0 \<and>
          matchOperator R (op_schema op) = Inr op
      | None \<Rightarrow> (case sc_qualifiedName c of Some n \<Rightarrow> str_rfind n BUILTIN_OP_NAMESPACE \<noteq> Some 0 | None \<Rightarrow> False))"

fun wf_request :: "runtime \<Rightarrow> command \<Rightarrow> bool" where
  "wf_request T (ScriptCall c) = wf_call (rt_registry T) c"
| "wf_request T (ScriptRemoteCall c r f) = (wf_call (rt_registry T) c \<and> wf_gid r \<and> wf_gid f)"
| "wf_request T (PythonCall p ts b) = True"
| "wf_request T (PythonRemoteCall p ts r f b) = True"
| "wf_request T (ScriptRRefFetchCall w r) = (wf_worker w \<and> wf_gid r)"
| "wf_request T (PythonRRefFetchCall w r) = (wf_worker w \<and> wf_gid r)"
| "wf_request T (RRefUserDelete r f) = (wf_gid r \<and> wf_gid f)"
| "wf_request T (RRefChildAccept f) = wf_gid f"
| "wf_request T (RRefForkRequest r f) = (wf_gid r \<and> wf_gid f)"
| "wf_request T (PropagateGradientsReq cid mid grads b) = True"
| "wf_request T (CleanupAutogradContextReq cid) = True"
| "wf_request T (RRefBackwardReq r cid b) = wf_gid r"
| "wf_request T (RpcWithAutograd w cid mid dm c) = (wf_worker w \<and> wf_devices dm \<and> small_trailer (rt_pickler T) [IInt cid, IInt mid, IInt w, IDict dm] \<and> wf_request T c)"
| "wf_request T (RpcWithProfilingReq cfg i c) = (no_tensors cfg \<and> rt_config T cfg = Inr cfg \<and> wf_gid i \<and> small_trailer (rt_pickler T) [cfg, toIValue i] \<and> wf_request T c)"
| "wf_request T _ = False"

lemma in_all_types: "ty \<in> set all_types"
  by (cases ty) (simp_all add: all_types_def)

lemma type_value_back [simp]: "type_of_value (type_value ty) = ty"
proof -
  have "list_all (\<lambda>ty. type_of_value (type_value ty) = ty) all_types" by code_simp
  then show ?thesis using in_all_types [of ty] by (simp add: list_all_iff)
qed

lemma small_trailer_at: "small_trailer P vs \<Longrightarrow> length (fst (pk P (ITuple (IInt (type_value ty) # vs)))) < 2 ^ 63"
  using in_all_types [of ty] by (simp add: small_trailer_def list_all_iff)

lemma read_value [simp]: "documented_pickler P \<Longrightarrow> upk P (fst (pk P v)) (snd (pk P v)) = Inr v"
  by (simp add: documented_pickler_def)

lemma read_plain [simp]: "documented_pickler P \<Longrightarrow> no_tensors v \<Longrightarrow> upk P (fst (pk P v)) [] = Inr v"
  using read_value [of P v] by (simp add: documented_pickler_def)

lemma message_with_sel [simp]:
  "m_type (message_with P v ty) = ty" "documented_pickler P \<Longrightarrow> m_payload (message_with P v ty) \<noteq> []"
  "documented_pickler P \<Longrightarrow> upk P (m_payload (message_with P v ty)) (m_tensors (message_with P v ty)) = Inr v"
  "documented_pickler P \<Longrightarrow> ivalues_of P (message_with P (ITuple vs) ty) = Inr vs"
  by (simp_all add: message_with_def ivalues_of_def toTuple_def documented_pickler_def)

lemma gid_back [simp]: "wf_gid g \<Longrightarrow> fromIValue (toIValue g) = Inr g"
proof -
  assume g: "wf_gid g"
  have "to_worker_id (createdOn g) = createdOn g"
    using g by (simp add: wf_gid_def to_worker_id_def worker_id_max_def sint_sbintrunc' signed_take_bit_int_eq_self)
  then show ?thesis using g by (simp add: fromIValue_def toIValue_def toInt_def wf_gid_def)
qed

lemma wf_worker_range: "wf_worker w \<Longrightarrow> - 32768 \<le> w \<and> w \<le> worker_id_max"
  by (simp add: wf_worker_def)

lemma worker_back [simp]: "wf_worker w \<Longrightarrow> to_worker_id w = w"
  by (simp add: wf_worker_def to_worker_id_def worker_id_max_def sint_sbintrunc' signed_take_bit_int_eq_self)

lemma no_tensors_gid [simp]: "no_tensors (toIValue g)"
  by (simp add: toIValue_def)

lemma pop_back_snoc [simp]: "pop_back (vs @ [v]) = Inr (v, vs)"
  by (simp add: pop_back_def)

lemma pop_back_two [simp]: "pop_back (vs @ [v, w]) = Inr (w, vs @ [v])"
  using pop_back_snoc [of "vs @ [v]" w] by simp

lemma pop_back_three [simp]: "pop_back (vs @ [u, v, w]) = Inr (w, vs @ [u, v])"
  using pop_back_snoc [of "vs @ [u, v]" w] by simp

lemma pop_back_four [simp]: "pop_back (vs @ [t, u, v, w]) = Inr (w, vs @ [t, u, v])"
  using pop_back_snoc [of "vs @ [t, u, v]" w] by simp

lemma mapE_tensors [simp]: "mapE toTensor (map ITensor ts) = Inr ts"
  by (induction ts) (simp_all add: toTensor_def)

lemma ScriptCall_back:
  assumes "wf_call R c"
  shows "\<exists>vs. ScriptCall_toIValues c = Inr vs \<and> ScriptCall_fromIValues R vs = Inr c"
proof (cases "sc_op c")
  case None
  then obtain n where "sc_qualifiedName c = Some n" "str_rfind n BUILTIN_OP_NAMESPACE \<noteq> Some 0"
    using assms by (auto simp: wf_call_def split: option.splits)
  with None show ?thesis
    by (cases c) (simp add: ScriptCall_toIValues_def ScriptCall_fromIValues_def toStringRef_def toBool_def)
next
  case (Some op)
  then show ?thesis
    using assms by (cases c) (simp add: wf_call_def ScriptCall_toIValues_def ScriptCall_fromIValues_def toStringRef_def)
qed

lemma devices_back: "wf_devices dm \<Longrightarrow> insert_devices dm [] = dm"
proof -
  have "insert_devices dm acc = acc @ dm"
    if "distinct (map fst (acc @ dm))" "\<forall>(k, v) \<in> set dm. - 128 \<le> k \<and> k \<le> 127 \<and> - 128 \<le> v \<and> v \<le> 127" for acc
    using that
  proof (induction dm arbitrary: acc)
    case (Cons e dm)
    obtain k v where e: "e = (k, v)" by (cases e)
    have d: "to_device_index k = k" "to_device_index v = v"
      using Cons.prems(2) by (simp_all add: e to_device_index_def sint_sbintrunc' signed_take_bit_int_eq_self)
    have n: "\<not> umap_has acc k" using Cons.prems(1) by (auto simp: e umap_has_def map_of_eq_None_iff image_iff)
    show ?case using Cons.IH [of "acc @ [(k, v)]"] Cons.prems by (simp add: e d n del: umap_has_iff)
  qed simp
  then show "wf_devices dm \<Longrightarrow> insert_devices dm [] = dm" by (simp add: wf_devices_def)
qed

lemma read_wrapped_back:
  assumes "documented_pickler P" and "no_tensors (ITuple vs)" and "p \<noteq> []" and "length (fst (pk P (ITuple vs))) < 2 ^ 63"
  shows "read_wrapped P (writeWrappedPayload p (fst (pk P (ITuple vs)))) = Inr (p, vs)"
proof -
  have "readWrappedPayload (writeWrappedPayload p (fst (pk P (ITuple vs)))) = Inr (p, fst (pk P (ITuple vs)))"
    using wrapped_payload_back assms(3,4) by simp
  then show ?thesis using assms(1,2) by (simp add: read_wrapped_def toTuple_def del: no_tensors.simps)
qed

lemma unwrap_autograd_back:
  assumes "documented_pickler P" and "wf_worker w" and "wf_devices dm" and "m_payload m \<noteq> []" and "ty \<in> {FORWARD_AUTOGRAD_REQ, FORWARD_AUTOGRAD_RESP}"
    and "small_trailer P [IInt cid, IInt mid, IInt w, IDict dm]"
  shows "\<exists>m'. RpcWithAutograd_toMessage P ty w cid mid dm m = Inr m' \<and> m_payload m' \<noteq> [] \<and> m_type m' = ty \<and> m_tensors m' = m_tensors m \<and>
    unwrap_autograd P m' = Inr (w, cid, mid, dm, m)"
proof -
  let ?vs = "[IInt (type_value (m_type m)), IInt cid, IInt mid, IInt w, IDict dm]"
  let ?m = "\<lparr>m_payload = writeWrappedPayload (m_payload m) (fst (pk P (ITuple ?vs))), m_tensors = m_tensors m, m_type = ty, m_id = m_id m\<rparr>"
  have nt: "no_tensors (ITuple ?vs)" by simp
  then have "snd (pk P (ITuple ?vs)) = []" using assms(1) unfolding documented_pickler_def by blast
  then have "RpcWithAutograd_toMessage P ty w cid mid dm m = Inr ?m"
    using assms(4,5) by (auto simp: RpcWithAutograd_toMessage_def Let_def split: prod.splits)
  moreover have "unwrap_autograd P ?m = Inr (w, cid, mid, dm, m)"
    using read_wrapped_back [OF assms(1) nt assms(4) small_trailer_at [OF assms(6)]] assms(2,3,5) devices_back [OF assms(3)]
    by (simp add: unwrap_autograd_def check_size_def toInt_def toDict_def wrapped_message_def del: no_tensors.simps)
  moreover have "m_payload ?m \<noteq> []" using assms(4) by (simp add: writeWrappedPayload_def)
  ultimately show ?thesis by (intro exI [of _ ?m]) simp
qed

lemma unwrap_profiling_req_back:
  assumes "documented_pickler P" and "no_tensors cfg" and "config cfg = Inr cfg" and "wf_gid i" and "m_payload m \<noteq> []" and "isRequest m"
    and "small_trailer P [cfg, toIValue i]"
  shows "\<exists>m'. RpcWithProfilingReq_toMessage P cfg i m = Inr m' \<and> m_payload m' \<noteq> [] \<and> m_type m' = RUN_WITH_PROFILING_REQ \<and>
    unwrap_profiling_req P config m' = Inr (cfg, i, m)"
proof -
  let ?vs = "[IInt (type_value (m_type m)), cfg, toIValue i]"
  let ?m = "\<lparr>m_payload = writeWrappedPayload (m_payload m) (fst (pk P (ITuple ?vs))), m_tensors = m_tensors m, m_type = RUN_WITH_PROFILING_REQ, m_id = m_id m\<rparr>"
  have nt: "no_tensors (ITuple ?vs)" using assms(2) by simp
  have "unwrap_profiling_req P config ?m = Inr (cfg, i, m)"
    using read_wrapped_back [OF assms(1) nt assms(5) small_trailer_at [OF assms(7)]] assms(3,4,6)
    by (simp add: unwrap_profiling_req_def isRequest_def check_size_def toInt_def wrapped_message_def del: no_tensors.simps)
  moreover have "RpcWithProfilingReq_toMessage P cfg i m = Inr ?m" using assms(5) by (simp add: RpcWithProfilingReq_toMessage_def)
  moreover have "m_payload ?m \<noteq> []" using assms(5) by (simp add: writeWrappedPayload_def)
  ultimately show ?thesis by (intro exI [of _ ?m]) simp
qed

lemmas to_message_defs = ScriptCall_toMessage_def ScriptRemoteCall_toMessage_def PythonCall_toMessage_def PythonRemoteCall_toMessage_def
  RRefFetchCall_toMessage_def ForkMessageBase_toMessage_def RRefChildAccept_toMessage_def PropagateGradientsReq_toMessage_def
  CleanupAutogradContextReq_toMessage_def RRefBackwardReq_toMessage_def ScriptResp_toMessage_def PythonResp_toMessage_def
  RRefFetchRet_toMessage_def

lemmas from_message_defs = ScriptCall_fromMessage_def ScriptRemoteCall_fromMessage_def PythonCall_fromMessage_def PythonRemoteCall_fromMessage_def
  RRefFetchCall_fromMessage_def ForkMessageBase_fromMessage_def RRefChildAccept_fromMessage_def PropagateGradientsReq_fromMessage_def
  CleanupAutogradContextReq_fromMessage_def RRefBackwardReq_fromMessage_def toIValues_def fromIValues_def check_type_def check_size_def
  SerializedPyObj_fromIValues_def SerializedPyObj_toIValues_def to_message_defs
  toInt_def toBool_def toStringRef_def

lemma isRequest_types:
  "isRequest m \<longleftrightarrow> m_type m \<in> {SCRIPT_CALL, PYTHON_CALL, SCRIPT_REMOTE_CALL, PYTHON_REMOTE_CALL, SCRIPT_RREF_FETCH_CALL, PYTHON_RREF_FETCH_CALL,
     RREF_USER_DELETE, RREF_FORK_REQUEST, RREF_CHILD_ACCEPT, FORWARD_AUTOGRAD_REQ, BACKWARD_AUTOGRAD_REQ, CLEANUP_AUTOGRAD_CONTEXT_REQ,
     RUN_WITH_PROFILING_REQ, RREF_BACKWARD_REQ}"
  by (cases "m_type m") (simp_all add: isRequest_def REQUEST_TYPE_def RESPONSE_TYPE_def)

lemma request_back:
  assumes "documented_pickler (rt_pickler T)" and "wf_request T c"
  shows "\<exists>m. toMessage (rt_pickler T) c = Inr m \<and> deserializeRequest T m = Inr c \<and> m_payload m \<noteq> [] \<and> isRequest m \<and> c \<noteq> NullRpc"
  using assms(2)
proof (induction c)
  case (ScriptCall c)
  then obtain vs where "ScriptCall_toIValues c = Inr vs" "ScriptCall_fromIValues (rt_registry T) vs = Inr c"
    using ScriptCall_back by auto
  then show ?case using assms(1) by (subst deserializeRequest.simps) (simp add: from_message_defs isRequest_types)
next
  case (ScriptRemoteCall c r f)
  then obtain vs where "ScriptCall_toIValues c = Inr vs" "ScriptCall_fromIValues (rt_registry T) vs = Inr c"
    using ScriptCall_back by auto
  then show ?case
    using ScriptRemoteCall assms(1) by (subst deserializeRequest.simps) (simp add: from_message_defs isRequest_types)
next
  case (RpcWithAutograd w cid mid dm c)
  then obtain m where m: "toMessage (rt_pickler T) c = Inr m" "deserializeRequest T m = Inr c" "m_payload m \<noteq> []" "c \<noteq> NullRpc" by auto
  obtain m' where m': "RpcWithAutograd_toMessage (rt_pickler T) FORWARD_AUTOGRAD_REQ w cid mid dm m = Inr m'" "m_payload m' \<noteq> []"
    "m_type m' = FORWARD_AUTOGRAD_REQ" "unwrap_autograd (rt_pickler T) m' = Inr (w, cid, mid, dm, m)"
    using unwrap_autograd_back [OF assms(1) _ _ m(3), of w dm FORWARD_AUTOGRAD_REQ cid mid] RpcWithAutograd.prems by auto
  then have "deserializeRequest T m' = Inr (RpcWithAutograd w cid mid dm c)"
    using m by (subst deserializeRequest.simps) simp
  then show ?case using m m' by (simp add: isRequest_types)
next
  case (RpcWithProfilingReq cfg i c)
  then obtain m where m: "toMessage (rt_pickler T) c = Inr m" "deserializeRequest T m = Inr c" "m_payload m \<noteq> []" "isRequest m" "c \<noteq> NullRpc" by auto
  obtain m' where m': "RpcWithProfilingReq_toMessage (rt_pickler T) cfg i m = Inr m'" "m_payload m' \<noteq> []"
    "m_type m' = RUN_WITH_PROFILING_REQ" "unwrap_profiling_req (rt_pickler T) (rt_config T) m' = Inr (cfg, i, m)"
    using unwrap_profiling_req_back [OF assms(1) _ _ _ m(3,4), of cfg "rt_config T" i] RpcWithProfilingReq.prems by auto
  then have "deserializeRequest T m' = Inr (RpcWithProfilingReq cfg i c)"
    using m by (subst deserializeRequest.simps) simp
  then show ?case using m m' by (simp add: isRequest_types)
qed (use assms(1) in \<open>simp_all add: deserializeRequest.simps from_message_defs isRequest_types wf_worker_range\<close>)


text \<open>
  Responses. A response is wrapped from the inside out: the list says by what, in that order. The
  receiver undoes the wrapping in the opposite order, but each effect happens after the message inside
  is read, so the effects come in the order of the list.
\<close>

datatype response_wrap = WrapAutograd int int int "(int \<times> int) list" | WrapProfiling gid "ivalue list"

fun wrap_response :: "pickler \<Rightarrow> response_wrap list \<Rightarrow> nat message \<Rightarrow> nat message res" where
  "wrap_response P [] m = Inr m"
| "wrap_response P (WrapAutograd w cid mid dm # ws) m =
     bindE (RpcWithAutograd_toMessage P FORWARD_AUTOGRAD_RESP w cid mid dm m) (wrap_response P ws)"
| "wrap_response P (WrapProfiling i events # ws) m =
     bindE (RpcWithProfilingResp_toMessage P i events m) (wrap_response P ws)"

fun wrap_effect :: "nat list \<Rightarrow> response_wrap \<Rightarrow> response_effect" where
  "wrap_effect tensors (WrapAutograd w cid mid dm) = AddRecvRpcBackward cid mid tensors w (reverse_devices dm [])"
| "wrap_effect tensors (WrapProfiling i events) = RemoteProfiledEvents i events"

fun wf_wrap :: "runtime \<Rightarrow> response_wrap \<Rightarrow> bool" where
  "wf_wrap T (WrapAutograd w cid mid dm) \<longleftrightarrow>
     wf_worker w \<and> wf_devices dm \<and> small_trailer (rt_pickler T) [IInt cid, IInt mid, IInt w, IDict dm]"
| "wf_wrap T (WrapProfiling i events) \<longleftrightarrow>
     wf_gid i \<and> list_all no_tensors events \<and> list_all (\<lambda>e. rt_event T e = Inr e) events \<and> length events < 2 ^ 31 \<and>
     small_trailer (rt_pickler T) (toIValue i # IInt (int (length events)) # events)"

fun response_type :: "command \<Rightarrow> MessageType" where
  "response_type (ScriptResp v) = SCRIPT_RET"
| "response_type (PythonResp p ts) = PYTHON_RET"
| "response_type (RemoteRet r f) = REMOTE_RET"
| "response_type (ScriptRRefFetchRet vs) = SCRIPT_RREF_FETCH_RET"
| "response_type (PythonRRefFetchRet vs) = PYTHON_RREF_FETCH_RET"
| "response_type _ = UNKNOWN"

fun wf_response :: "command \<Rightarrow> bool" where
  "wf_response (ScriptResp v) = True"
| "wf_response (PythonResp p ts) = (p \<noteq> [])"
| "wf_response (RemoteRet r f) = (wf_gid r \<and> wf_gid f)"
| "wf_response (ScriptRRefFetchRet vs) = (length vs = 1)"
| "wf_response (PythonRRefFetchRet vs) = True"
| "wf_response _ = False"

definition send_response :: "pickler \<Rightarrow> command \<times> response_wrap list \<Rightarrow> nat message res" where
  "send_response P r = bindE (toMessage P (fst r)) (wrap_response P (snd r))"

fun message_tensors :: "pickler \<Rightarrow> command \<Rightarrow> nat list" where
  "message_tensors P c = (case toMessage P c of Inr m \<Rightarrow> m_tensors m | Inl e \<Rightarrow> [])"

definition response_meaning :: "pickler \<Rightarrow> command \<times> response_wrap list \<Rightarrow> command \<times> MessageType \<times> response_effect list" where
  "response_meaning P r = (fst r, response_type (fst r), map (wrap_effect (message_tensors P (fst r))) (snd r))"

lemma read_events_back:
  assumes "list_all (\<lambda>e. event e = Inr e) es"
  shows "read_events event (length pre) (length es) (pre @ es) = Inr es"
  using assms
proof (induction es arbitrary: pre)
  case (Cons e es)
  show ?case using Cons.IH [of "pre @ [e]"] Cons.prems by simp
qed simp

lemma isResponse_types:
  "isResponse m \<longleftrightarrow> m_type m \<in> {SCRIPT_RET, PYTHON_RET, REMOTE_RET, SCRIPT_RREF_FETCH_RET, PYTHON_RREF_FETCH_RET, EXCEPTION, RREF_ACK,
     FORWARD_AUTOGRAD_RESP, BACKWARD_AUTOGRAD_RESP, CLEANUP_AUTOGRAD_CONTEXT_RESP, RUN_WITH_PROFILING_RESP, RREF_BACKWARD_RESP}"
  by (cases "m_type m") (simp_all add: isResponse_def REQUEST_TYPE_def RESPONSE_TYPE_def)

lemma unwrap_profiling_resp_back:
  assumes "documented_pickler P" and "wf_gid i" and "list_all no_tensors es" and "list_all (\<lambda>e. event e = Inr e) es"
    and "length es < 2 ^ 31" and "small_trailer P (toIValue i # IInt (int (length es)) # es)" and "m_payload m \<noteq> []" and "isResponse m"
  shows "\<exists>m'. RpcWithProfilingResp_toMessage P i es m = Inr m' \<and> m_payload m' \<noteq> [] \<and> m_type m' = RUN_WITH_PROFILING_RESP \<and>
    m_tensors m' = m_tensors m \<and> unwrap_profiling_resp P event m' = Inr (i, es, m)"
proof -
  let ?vs = "IInt (type_value (m_type m)) # toIValue i # IInt (int (length es)) # es"
  let ?m = "\<lparr>m_payload = writeWrappedPayload (m_payload m) (fst (pk P (ITuple ?vs))), m_tensors = m_tensors m, m_type = RUN_WITH_PROFILING_RESP, m_id = m_id m\<rparr>"
  have nt: "no_tensors (ITuple ?vs)" using assms(3) by simp
  have n: "sint (word_of_nat (length es) :: 32 word) = int (length es)"
    using assms(5) by (simp add: signed_of_nat signed_take_bit_int_eq_self)
  have "read_events event 3 (length es) ?vs = Inr es"
    using read_events_back [OF assms(4), of "[IInt (type_value (m_type m)), toIValue i, IInt (int (length es))]"] by (simp add: numeral_3_eq_3)
  then have "unwrap_profiling_resp P event ?m = Inr (i, es, m)"
    using read_wrapped_back [OF assms(1) nt assms(7) small_trailer_at [OF assms(6)]] assms(2,8)
    by (simp add: unwrap_profiling_resp_def isResponse_def check_size_def toInt_def wrapped_message_def n del: no_tensors.simps)
  moreover have "RpcWithProfilingResp_toMessage P i es m = Inr ?m" using assms(7) by (simp add: RpcWithProfilingResp_toMessage_def n)
  moreover have "m_payload ?m \<noteq> []" using assms(7) by (simp add: writeWrappedPayload_def)
  ultimately show ?thesis by (intro exI [of _ ?m]) simp
qed

lemma wrapped_response_back:
  assumes "documented_pickler (rt_pickler T)" and "list_all (wf_wrap T) ws"
    and "deserializeResponse T m = Inr (c, ty, effs)" and "c \<noteq> NullRpc" and "m_payload m \<noteq> []" and "isResponse m"
  shows "\<exists>m'. wrap_response (rt_pickler T) ws m = Inr m' \<and> deserializeResponse T m' = Inr (c, ty, effs @ map (wrap_effect (m_tensors m)) ws)"
  using assms(2-6)
proof (induction ws arbitrary: m effs)
  case (Cons a ws)
  show ?case
  proof (cases a)
    case (WrapAutograd w cid mid dm)
    obtain m' where m': "RpcWithAutograd_toMessage (rt_pickler T) FORWARD_AUTOGRAD_RESP w cid mid dm m = Inr m'" "m_payload m' \<noteq> []"
      "m_type m' = FORWARD_AUTOGRAD_RESP" "m_tensors m' = m_tensors m" "unwrap_autograd (rt_pickler T) m' = Inr (w, cid, mid, dm, m)"
      using unwrap_autograd_back [OF assms(1) _ _ Cons.prems(4), of w dm FORWARD_AUTOGRAD_RESP cid mid] Cons.prems(1) WrapAutograd by auto
    have "deserializeResponse T m' = Inr (c, ty, effs @ [wrap_effect (m_tensors m) a])"
      using m' Cons.prems(2,3) WrapAutograd by (subst deserializeResponse.simps) simp
    from Cons.IH [OF _ this Cons.prems(3) m'(2)] show ?thesis
      using m' Cons.prems(1) WrapAutograd by (simp add: isResponse_types)
  next
    case (WrapProfiling i es)
    obtain m' where m': "RpcWithProfilingResp_toMessage (rt_pickler T) i es m = Inr m'" "m_payload m' \<noteq> []"
      "m_type m' = RUN_WITH_PROFILING_RESP" "m_tensors m' = m_tensors m" "unwrap_profiling_resp (rt_pickler T) (rt_event T) m' = Inr (i, es, m)"
      using unwrap_profiling_resp_back [OF assms(1) _ _ _ _ _ Cons.prems(4,5), of i es "rt_event T"] Cons.prems(1) WrapProfiling by auto
    have "deserializeResponse T m' = Inr (c, ty, effs @ [wrap_effect (m_tensors m) a])"
      using m' Cons.prems(2,3) WrapProfiling by (subst deserializeResponse.simps) simp
    from Cons.IH [OF _ this Cons.prems(3) m'(2)] show ?thesis
      using m' Cons.prems(1) WrapProfiling by (simp add: isResponse_types)
  qed
qed simp

lemma plain_response_back:
  assumes "documented_pickler (rt_pickler T)" and "wf_response c"
  shows "\<exists>m. toMessage (rt_pickler T) c = Inr m \<and> deserializeResponse T m = Inr (c, response_type c, []) \<and> m_payload m \<noteq> [] \<and> isResponse m \<and> c \<noteq> NullRpc"
  using assms
  by (cases c) (simp_all add: deserializeResponse.simps ScriptResp_fromMessage_def PythonResp_fromMessage_def ScriptRRefFetchRet_fromMessage_def
      PythonRRefFetchRet_fromMessage_def ForkMessageBase_fromMessage_def fromIValues_def toIValues_def check_type_def check_size_def
      to_message_defs isResponse_types)

lemma response_back:
  assumes "documented_pickler (rt_pickler T)" and "wf_response (fst r)" and "list_all (wf_wrap T) (snd r)"
  shows "\<exists>m. send_response (rt_pickler T) r = Inr m \<and> deserializeResponse T m = Inr (response_meaning (rt_pickler T) r)"
proof -
  obtain m where m: "toMessage (rt_pickler T) (fst r) = Inr m" "deserializeResponse T m = Inr (fst r, response_type (fst r), [])"
    "m_payload m \<noteq> []" "isResponse m" "fst r \<noteq> NullRpc"
    using plain_response_back [OF assms(1,2)] by blast
  show ?thesis using wrapped_response_back [OF assms(1,3) m(2,5,3,4)] m(1) by (simp add: send_response_def response_meaning_def)
qed

interpretation request: message_codec "toMessage (rt_pickler T)" "deserializeRequest T"
  "\<lambda>c. documented_pickler (rt_pickler T) \<and> wf_request T c" id for T
  by unfold_locales (use request_back in fastforce)

interpretation response: message_codec "send_response (rt_pickler T)" "deserializeResponse T"
  "\<lambda>r. documented_pickler (rt_pickler T) \<and> wf_response (fst r) \<and> list_all (wf_wrap T) (snd r)" "response_meaning (rt_pickler T)" for T
  by unfold_locales (use response_back in blast)


section \<open>A pickler\<close>

text \<open>
  A concrete pickler with the documented behaviour: values in prefix form, tensors in the table.
\<close>

definition put_nat :: "nat \<Rightarrow> string" where
  "put_nat n = nat_to_string n @ '';''"

definition get_nat :: "string \<Rightarrow> (nat \<times> string) option" where
  "get_nat s = (case dropWhile is_digit s of [] \<Rightarrow> None | c # r \<Rightarrow> Some (digits_val (takeWhile is_digit s), r))"

definition put_int :: "int \<Rightarrow> string" where
  "put_int i = put_nat (nat i) @ put_nat (nat (- i))"

definition get_int :: "string \<Rightarrow> (int \<times> string) option" where
  "get_int s = Option.bind (get_nat s) (\<lambda>(m, s). Option.bind (get_nat s) (\<lambda>(n, s). Some (int m - int n, s)))"

fun put_devices :: "(int \<times> int) list \<Rightarrow> string" where
  "put_devices [] = ''0''"
| "put_devices ((k, v) # d) = CHR ''1'' # put_int k @ put_int v @ put_devices d"

fun get_devices :: "nat \<Rightarrow> string \<Rightarrow> ((int \<times> int) list \<times> string) option" where
  "get_devices 0 s = None"
| "get_devices (Suc n) [] = None"
| "get_devices (Suc n) (c # s) =
     (if c \<noteq> CHR ''1'' then Some ([], s)
      else Option.bind (get_int s) (\<lambda>(k, s). Option.bind (get_int s) (\<lambda>(v, s).
           Option.bind (get_devices n s) (\<lambda>(d, s). Some ((k, v) # d, s)))))"

fun put_value :: "ivalue \<Rightarrow> string" and put_values :: "ivalue list \<Rightarrow> string" where
  "put_value (IInt i) = CHR ''i'' # put_int i"
| "put_value (IBool b) = (if b then ''b1'' else ''b0'')"
| "put_value (IString s) = CHR ''s'' # put_nat (length s) @ s"
| "put_value (ITensor t) = ''t''"
| "put_value (IDict d) = CHR ''d'' # put_devices d"
| "put_value (ITuple vs) = CHR ''('' # put_values vs"
| "put_value (IOther n) = CHR ''o'' # put_nat n"
| "put_values [] = '')''"
| "put_values (v # vs) = CHR '','' # put_value v @ put_values vs"

fun tensors_of :: "ivalue \<Rightarrow> nat list" where
  "tensors_of (ITensor t) = [t]"
| "tensors_of (ITuple vs) = concat (map tensors_of vs)"
| "tensors_of _ = []"

fun get_value :: "nat \<Rightarrow> string \<Rightarrow> nat list \<Rightarrow> (ivalue \<times> string \<times> nat list) option"
  and get_values :: "nat \<Rightarrow> string \<Rightarrow> nat list \<Rightarrow> (ivalue list \<times> string \<times> nat list) option" where
  "get_value 0 s ts = None"
| "get_value (Suc n) [] ts = None"
| "get_value (Suc n) (c # s) ts =
     (if c = CHR ''i'' then map_option (\<lambda>(i, s). (IInt i, s, ts)) (get_int s)
      else if c = CHR ''b'' then (case s of [] \<Rightarrow> None | x # s \<Rightarrow> Some (IBool (x = CHR ''1''), s, ts))
      else if c = CHR ''s'' then map_option (\<lambda>(k, s). (IString (take k s), drop k s, ts)) (get_nat s)
      else if c = CHR ''t'' then (case ts of [] \<Rightarrow> None | t # ts \<Rightarrow> Some (ITensor t, s, ts))
      else if c = CHR ''d'' then map_option (\<lambda>(d, s). (IDict d, s, ts)) (get_devices (Suc (length s)) s)
      else if c = CHR ''('' then map_option (\<lambda>(vs, s, ts). (ITuple vs, s, ts)) (get_values n s ts)
      else if c = CHR ''o'' then map_option (\<lambda>(k, s). (IOther k, s, ts)) (get_nat s)
      else None)"
| "get_values 0 s ts = None"
| "get_values (Suc n) [] ts = None"
| "get_values (Suc n) (c # s) ts =
     (if c = CHR '')'' then Some ([], s, ts)
      else Option.bind (get_value n s ts) (\<lambda>(v, s, ts). Option.bind (get_values n s ts) (\<lambda>(vs, s, ts). Some (v # vs, s, ts))))"

definition prefix_pickler :: pickler where
  "prefix_pickler = \<lparr>pk = (\<lambda>v. (put_value v, tensors_of v)),
     upk = (\<lambda>s ts. case get_value (Suc (length s)) s ts of
        Some (v, rest, left) \<Rightarrow> if rest = [] \<and> left = [] then Inr v else Inl (C10_error ''unpickle'')
      | None \<Rightarrow> Inl (C10_error ''unpickle''))\<rparr>"

lemma get_put_nat [simp]: "get_nat (put_nat n @ s) = Some (n, s)"
proof -
  have d: "\<forall>c \<in> set (nat_to_string n). is_digit c" using nat_to_string_digits by blast
  moreover have "\<not> is_digit (CHR '';'')" by (simp add: is_digit_def)
  ultimately have "takeWhile is_digit (nat_to_string n @ CHR '';'' # s) = nat_to_string n"
    "dropWhile is_digit (nat_to_string n @ CHR '';'' # s) = CHR '';'' # s" by (simp_all add: takeWhile_append2 dropWhile_append2)
  then show ?thesis by (simp add: put_nat_def get_nat_def)
qed

lemma get_put_int [simp]: "get_int (put_int i @ s) = Some (i, s)"
  by (simp add: get_int_def put_int_def)

lemma get_put_devices: "length d < n \<Longrightarrow> get_devices n (put_devices d @ s) = Some (d, s)"
proof (induction d arbitrary: n)
  case Nil
  then show ?case by (cases n) simp_all
next
  case (Cons e d)
  then show ?case by (cases n; cases e) simp_all
qed

lemma put_devices_length: "length d < length (put_devices d)"
  by (induction d rule: put_devices.induct) simp_all

lemma get_put_value:
  "length (put_value v) \<le> n \<Longrightarrow> get_value (Suc n) (put_value v @ s) (tensors_of v @ ts) = Some (v, s, ts)"
  "length (put_values vs) \<le> n \<Longrightarrow> get_values (Suc n) (put_values vs @ s) (concat (map tensors_of vs) @ ts) = Some (vs, s, ts)"
proof (induction v and vs arbitrary: n s ts and n s ts rule: put_value_put_values.induct)
  case (5 d)
  then show ?case using put_devices_length [of d] by (simp add: get_put_devices)
next
  case (6 vs)
  then show ?case by (cases n) simp_all
next
  case (9 v vs)
  then show ?case by (cases n) simp_all
qed simp_all

lemma prefix_pickler_documented: "documented_pickler prefix_pickler"
proof -
  have "get_value (Suc (length (put_value v))) (put_value v) (tensors_of v) = Some (v, [], [])" for v
    using get_put_value(1) [of v "length (put_value v)" "[]" "[]"] by simp
  moreover have "put_value v \<noteq> []" for v by (cases v) simp_all
  moreover have "no_tensors v \<Longrightarrow> tensors_of v = []" for v
    by (induction v rule: tensors_of.induct) (auto simp: list_all_iff)
  ultimately show ?thesis by (simp add: documented_pickler_def prefix_pickler_def)
qed

section \<open>Properties\<close>

text \<open>
  C29. Every request survives the wire: a well-formed request, wrapped any number of times for autograd and
  profiling, has a message, and \<^verbatim>\<open>deserializeRequest\<close> turns that message back into the same command; two
  requests with the same message are the same request.
\<close>

theorem rpc_request_roundtrip:
  assumes "documented_pickler (rt_pickler T)" and "wf_request T c" and "wf_request T d"
  shows "(\<exists>m. toMessage (rt_pickler T) c = Inr m \<and> deserializeRequest T m = Inr c \<and> isRequest m) \<and>
    (toMessage (rt_pickler T) c = toMessage (rt_pickler T) d \<longrightarrow> c = d)"
  using request_back [OF assms(1,2)] request.sent_once [of T c d] assms by auto

definition sample_runtime :: runtime where
  "sample_runtime = \<lparr>rt_pickler = prefix_pickler,
     rt_registry = \<lparr>schema_name = (\<lambda>s. ''aten::add''), getAllOperatorsFor = (\<lambda>n. [\<lparr>op_name = ''aten::add'', op_schema = ''aten::add(Tensor)''\<rparr>])\<rparr>,
     rt_config = (\<lambda>v. Inr v), rt_event = (\<lambda>v. Inr v)\<rparr>"

definition sample_request :: command where
  "sample_request = RpcWithAutograd 1 7 9 [(0, 1)] (RpcWithProfilingReq (IOther 3) \<lparr>createdOn = 1, localId = 4\<rparr>
     (ScriptCall \<lparr>sc_op = Some \<lparr>op_name = ''aten::add'', op_schema = ''aten::add(Tensor)''\<rparr>, sc_qualifiedName = None,
                  sc_stack = [ITensor 5, IInt 2], sc_isAsyncExecution = False\<rparr>))"

definition sample_other :: command where
  "sample_other = RRefUserDelete \<lparr>createdOn = 1, localId = 4\<rparr> \<lparr>createdOn = 2, localId = 0\<rparr>"

definition short_trailer :: "ivalue list \<Rightarrow> bool" where
  "short_trailer vs \<longleftrightarrow> list_all (\<lambda>ty. int (length (put_value (ITuple (IInt (type_value ty) # vs)))) < 4096) all_types"

lemma short_trailer_small: "short_trailer vs \<Longrightarrow> small_trailer prefix_pickler vs"
  by (auto simp: short_trailer_def small_trailer_def list_all_iff prefix_pickler_def)

lemma sample_call_wf:
  "wf_call (rt_registry sample_runtime) \<lparr>sc_op = Some \<lparr>op_name = ''aten::add'', op_schema = ''aten::add(Tensor)''\<rparr>,
     sc_qualifiedName = None, sc_stack = [ITensor 5, IInt 2], sc_isAsyncExecution = False\<rparr>"
  by code_simp

lemma sample_trailers:
  "short_trailer [IInt 7, IInt 9, IInt 1, IDict [(0, 1)]]"
  "short_trailer [IOther 3, toIValue \<lparr>createdOn = 1, localId = 4\<rparr>]"
  "short_trailer [toIValue \<lparr>createdOn = 0, localId = 2\<rparr>, IInt 2, IOther 3, IOther 2]"
  by code_simp+

lemmas sample_wf_simps = wf_worker_def wf_gid_def wf_devices_def worker_id_max_def int64_max_def short_trailer_small [OF sample_trailers(1)]
  short_trailer_small [OF sample_trailers(2)] short_trailer_small [OF sample_trailers(3)]

lemma sample_runtime_sel:
  "rt_pickler sample_runtime = prefix_pickler" "rt_config sample_runtime v = Inr v" "rt_event sample_runtime v = Inr v"
  by (simp_all add: sample_runtime_def)

lemma sample_request_wf: "wf_request sample_runtime sample_request"
  using sample_call_wf by (simp add: sample_request_def sample_runtime_sel sample_wf_simps)

lemma sample_other_wf: "wf_request sample_runtime sample_other"
  by (simp add: sample_other_def sample_wf_simps)

theorem rpc_request_roundtrip_witness:
  "\<exists>m. toMessage prefix_pickler sample_request = Inr m \<and> deserializeRequest sample_runtime m = Inr sample_request \<and> isRequest m"
  using rpc_request_roundtrip [of sample_runtime sample_request sample_other] prefix_pickler_documented sample_request_wf sample_other_wf
  by (simp add: sample_runtime_sel)

text \<open>
  C30. Responses survive the wire as well: a response wrapped for autograd and profiling, in any order and
  to any depth, is read back as the same response and the type of the innermost message. Each layer has
  its effect exactly once, in the order of wrapping: the receive function is attached for the tensors of
  the response with the device map reversed, the profiled events are reported under their key.
\<close>

theorem rpc_response_roundtrip:
  assumes "documented_pickler (rt_pickler T)" and "wf_response c" and "list_all (wf_wrap T) ws"
  shows "\<exists>m. send_response (rt_pickler T) (c, ws) = Inr m \<and>
    deserializeResponse T m = Inr (c, response_type c, map (wrap_effect (message_tensors (rt_pickler T) c)) ws)"
  using response.roundtrip [of T "(c, ws)"] assms by (simp add: response_meaning_def)


definition sample_wraps :: "response_wrap list" where
  "sample_wraps = [WrapProfiling \<lparr>createdOn = 0, localId = 2\<rparr> [IOther 3, IOther 2], WrapAutograd 1 7 9 [(0, 1)]]"

lemma sample_wraps_wf: "list_all (wf_wrap sample_runtime) sample_wraps"
  by (simp add: sample_wraps_def sample_runtime_sel sample_wf_simps)

theorem rpc_response_roundtrip_witness:
  "\<exists>m. send_response prefix_pickler (ScriptResp (ITensor 5), sample_wraps) = Inr m \<and>
     deserializeResponse sample_runtime m = Inr (ScriptResp (ITensor 5), SCRIPT_RET,
       [RemoteProfiledEvents \<lparr>createdOn = 0, localId = 2\<rparr> [IOther 3, IOther 2], AddRecvRpcBackward 7 9 [5] 1 [(1, 0)]])"
proof -
  have "message_tensors prefix_pickler (ScriptResp (ITensor 5)) = [5]" by code_simp
  then show ?thesis
    using rpc_response_roundtrip [of sample_runtime "ScriptResp (ITensor 5)" sample_wraps] prefix_pickler_documented sample_wraps_wf
    by (simp add: sample_runtime_sel sample_wraps_def)
qed

end
