(* ===== verification/DistAutograd_Rpc.thy ===== *)
theory DistAutograd_Rpc
  imports DistAutograd_Container DistEngine_Graph Rpc_Commands
begin

unbundle bit_operations_syntax

text \<open>
  Autograd across RPC: \<^verbatim>\<open>autograd/utils.cpp\<close>, the functions \<^verbatim>\<open>SendRpcBackward\<close> and \<^verbatim>\<open>RecvRpcBackward\<close>
  (\<^verbatim>\<open>autograd/functions\<close>) and the \<^verbatim>\<open>RemoteProfilerManager\<close> (\<^verbatim>\<open>rpc/profiler\<close>). A worker has the contexts of
  \<open>DistAutograd_Container\<close>, the functions it created (names are positions) and the messages its agent
  was given to send. The autograd library is an argument. The main result follows gradients through a
  call: what the receiver's function sends back reaches exactly the function the sender made for that
  message, with each gradient at the edge of the tensor it belongs to.
\<close>

section \<open>The remote profiler manager\<close>

record profiler_manager =
  profiledRpcKeys :: "(gid, string) umap"
  currentThreadLocalKey :: "nat \<Rightarrow> string option"
  currentLocalId :: int

definition RemoteProfilerManager_new :: "int \<Rightarrow> profiler_manager" where
  "RemoteProfilerManager_new workerId =
     \<lparr>profiledRpcKeys = [], currentThreadLocalKey = (\<lambda>_. None), currentLocalId = wrap64 (push_bit kAutoIncrementBits workerId)\<rparr>"

definition setCurrentKey :: "nat \<Rightarrow> string \<Rightarrow> (profiler_manager, unit) cmd" where
  "setCurrentKey th key =
     bindM (getM (\<lambda>s. currentThreadLocalKey s th)) (\<lambda>k.
     bindM (checkM (k = None) (C10_error ''Cannot call RemoteProfilerManager::setCurrentKey when current key is already set.'')) (\<lambda>_.
     modifyM (\<lambda>s. s\<lparr>currentThreadLocalKey := (currentThreadLocalKey s)(th := Some key)\<rparr>)))"

definition isCurrentKeySet :: "nat \<Rightarrow> profiler_manager \<Rightarrow> bool" where
  "isCurrentKeySet th s \<longleftrightarrow> currentThreadLocalKey s th \<noteq> None"

definition unsetCurrentKey :: "nat \<Rightarrow> profiler_manager \<Rightarrow> profiler_manager" where
  "unsetCurrentKey th s = s\<lparr>currentThreadLocalKey := (currentThreadLocalKey s)(th := None)\<rparr>"

definition eraseKey :: "gid \<Rightarrow> (profiler_manager, unit) cmd" where
  "eraseKey i =
     bindM (getM (\<lambda>s. umap_has (profiledRpcKeys s) i)) (\<lambda>present.
     bindM (checkM present (C10_assert ''it != profiledRpcKeys_.end()'')) (\<lambda>_.
     modifyM (\<lambda>s. s\<lparr>profiledRpcKeys := AList.delete i (profiledRpcKeys s)\<rparr>)))"

definition retrieveRPCProfilingKey :: "gid \<Rightarrow> (profiler_manager, string) cmd" where
  "retrieveRPCProfilingKey i =
     bindM (getM (\<lambda>s. map_of (profiledRpcKeys s) i)) (\<lambda>found.
       case found of None \<Rightarrow> throwM (C10_assert ''it != profiledRpcKeys_.end()'') | Some key \<Rightarrow> returnM key)"

definition getNextLocalId :: "(profiler_manager, int) cmd" where
  "getNextLocalId s = (Inr (currentLocalId s), s\<lparr>currentLocalId := wrap64 (currentLocalId s + 1)\<rparr>)"

definition getNextProfilerId :: "int \<Rightarrow> (profiler_manager, gid) cmd" where
  "getNextProfilerId localWorkerId = bindM getNextLocalId (\<lambda>i. returnM \<lparr>createdOn = localWorkerId, localId = i\<rparr>)"

definition getCurrentProfilingKey :: "nat \<Rightarrow> (profiler_manager, string) cmd" where
  "getCurrentProfilingKey th =
     bindM (getM (\<lambda>s. currentThreadLocalKey s th)) (\<lambda>k.
       case k of
         None \<Rightarrow> throwM (C10_error ''Must set currentThreadLocalKey_ before calling getCurrentProfilingKey'')
       | Some key \<Rightarrow> returnM key)"

text \<open>\<^verbatim>\<open>emplace\<close> keeps an entry that is there.\<close>

definition saveRPCKey :: "gid \<Rightarrow> string \<Rightarrow> profiler_manager \<Rightarrow> profiler_manager" where
  "saveRPCKey i key s = (if umap_has (profiledRpcKeys s) i then s else s\<lparr>profiledRpcKeys := AList.update i key (profiledRpcKeys s)\<rparr>)"

section \<open>The worker\<close>

text \<open>
  The autograd library: which tensors require gradients, their gradient edges, and the zeros for a
  tensor without gradient. Tensors are names.
\<close>

record 'a autograd_lib =
  requires_grad :: "'a \<Rightarrow> nat \<Rightarrow> bool"
  compute_requires_grad :: "'a \<Rightarrow> nat list \<Rightarrow> bool"
  gradient_edge :: "'a \<Rightarrow> nat \<Rightarrow> edge"
  set_gradient_edge :: "nat \<Rightarrow> edge \<Rightarrow> 'a \<Rightarrow> 'a"
  zeros_like :: "nat \<Rightarrow> nat"

definition documented_autograd :: "'a autograd_lib \<Rightarrow> bool" where
  "documented_autograd L \<longleftrightarrow>
     (\<forall>a ts. compute_requires_grad L a ts \<longrightarrow> (\<exists>t \<in> set ts. requires_grad L a t)) \<and>
     (\<forall>a t e t'. gradient_edge L (set_gradient_edge L t e a) t' = (if t' = t then e else gradient_edge L a t')) \<and>
     (\<forall>a t e t'. requires_grad L (set_gradient_edge L t e a) t' \<longleftrightarrow> t' = t \<or> requires_grad L a t')"

record send_function =
  sf_next_edges :: "edge list"
  sf_inputs :: "nat list"
  sf_grads :: "nat option list"

record recv_function =
  rf_context_id :: int
  rf_message_id :: int
  rf_fromWorkerId :: int
  rf_deviceMap :: "(int \<times> int) list"
  rf_inputs :: "nat list"

datatype rpc_function = FSend send_function | FRecv recv_function

text \<open>
  \<open>wk_sent\<close>: destination, message and device map of what the agent was given; the future of a message
  is its position. \<open>wk_engine\<close>: the calls of \<^verbatim>\<open>executeSendFunctionAsync\<close>. \<open>wk_profiler_config\<close> is the
  configuration of the profiler while it is enabled.
\<close>

record ('g, 'a) rpc_worker =
  wk_self :: int
  wk_known :: "int list"
  wk_device_map :: "int \<Rightarrow> (int \<times> int) list"
  wk_container :: "'g container"
  wk_autograd :: 'a
  wk_functions :: "rpc_function list"
  wk_profiler :: profiler_manager
  wk_profiler_config :: "ivalue option"
  wk_keep_graph :: "nat \<Rightarrow> bool"
  wk_sent :: "(int \<times> nat message \<times> (int \<times> int) list) list"
  wk_engine :: "(int \<times> nat \<times> bool) list"

definition on_container :: "('g container, 'r) cmd \<Rightarrow> (('g, 'a) rpc_worker, 'r) cmd" where
  "on_container f s = (case f (wk_container s) of (r, c) \<Rightarrow> (r, s\<lparr>wk_container := c\<rparr>))"

definition on_profiler :: "(profiler_manager, 'r) cmd \<Rightarrow> (('g, 'a) rpc_worker, 'r) cmd" where
  "on_profiler f s = (case f (wk_profiler s) of (r, p) \<Rightarrow> (r, s\<lparr>wk_profiler := p\<rparr>))"

text \<open>A member function of a context the caller has a pointer to.\<close>

definition ctx_of :: "('g, 'a) rpc_worker \<Rightarrow> int \<Rightarrow> 'g dist_context option" where
  "ctx_of s = shard_find (autograd_contexts (wk_container s))"

definition put_ctx :: "int \<Rightarrow> 'g dist_context \<Rightarrow> ('g, 'a) rpc_worker \<Rightarrow> ('g, 'a) rpc_worker" where
  "put_ctx cid c s =
     s\<lparr>wk_container := (wk_container s)\<lparr>autograd_contexts := shard_emplace cid c (autograd_contexts (wk_container s))\<rparr>\<rparr>"

definition in_context :: "int \<Rightarrow> ('g dist_context, 'r) cmd \<Rightarrow> (('g, 'a) rpc_worker, 'r) cmd" where
  "in_context cid f s =
     (case ctx_of s cid of
        None \<Rightarrow> (Inl Undefined, s)
      | Some c \<Rightarrow> (case f c of (r, c') \<Rightarrow> (r, put_ctx cid c' s)))"

definition make_function :: "rpc_function \<Rightarrow> (('g, 'a) rpc_worker, nat) cmd" where
  "make_function f s = (Inr (length (wk_functions s)), s\<lparr>wk_functions := wk_functions s @ [f]\<rparr>)"

definition agent_send :: "int \<Rightarrow> nat message \<Rightarrow> (int \<times> int) list \<Rightarrow> (('g, 'a) rpc_worker, nat) cmd" where
  "agent_send dst m dm s = (Inr (length (wk_sent s)), s\<lparr>wk_sent := wk_sent s @ [(dst, m, dm)]\<rparr>)"

section \<open>Attaching functions\<close>

definition addSendRpcBackward :: "'a autograd_lib \<Rightarrow> int \<Rightarrow> int \<Rightarrow> nat list \<Rightarrow> (('g, 'a) rpc_worker, unit) cmd" where
  "addSendRpcBackward L cid mid tensors =
     bindM (getM (\<lambda>s. filter (requires_grad L (wk_autograd s)) tensors)) (\<lambda>tensors_with_grad.
     bindM (getM (\<lambda>s. map (gradient_edge L (wk_autograd s)) tensors_with_grad)) (\<lambda>edges.
     bindM (make_function (FSend \<lparr>sf_next_edges = edges, sf_inputs = tensors_with_grad, sf_grads = []\<rparr>)) (\<lambda>grad_fn.
     in_context cid (addSendFunction (Some grad_fn) mid))))"

text \<open>\<^verbatim>\<open>set_history\<close> adds an input to the function and points the tensor at it.\<close>

definition set_history :: "'a autograd_lib \<Rightarrow> nat \<Rightarrow> nat \<Rightarrow> (('g, 'a) rpc_worker, unit) cmd" where
  "set_history L tensor fn =
     modifyM (\<lambda>s. case wk_functions s ! fn of
        FRecv f \<Rightarrow> s\<lparr>wk_functions := (wk_functions s)[fn := FRecv (f\<lparr>rf_inputs := rf_inputs f @ [tensor]\<rparr>)],
                     wk_autograd := set_gradient_edge L tensor \<lparr>e_function = Some fn, e_input_nr = length (rf_inputs f)\<rparr> (wk_autograd s)\<rparr>
      | FSend f \<Rightarrow> s)"

definition attach_history :: "'a autograd_lib \<Rightarrow> nat \<Rightarrow> nat \<Rightarrow> (('g, 'a) rpc_worker, unit) cmd" where
  "attach_history L fn tensor =
     bindM (getM (\<lambda>s. requires_grad L (wk_autograd s) tensor)) (\<lambda>r. if r then set_history L tensor fn else returnM ())"

definition addRecvRpcBackward ::
    "'a autograd_lib \<Rightarrow> int \<Rightarrow> int \<Rightarrow> nat list \<Rightarrow> int \<Rightarrow> (int \<times> int) list \<Rightarrow> (('g, 'a) rpc_worker, int) cmd" where
  "addRecvRpcBackward L cid mid tensors fromWorkerId deviceMap =
     bindM (on_container getInstance) (\<lambda>_.
     bindM (on_container (getOrCreateContext cid)) (\<lambda>ctx.
     bindM (getM (\<lambda>s. tensors \<noteq> [] \<and> compute_requires_grad L (wk_autograd s) tensors)) (\<lambda>attach.
     bindM (if attach
            then bindM (make_function (FRecv \<lparr>rf_context_id = cid, rf_message_id = mid, rf_fromWorkerId = fromWorkerId,
                                              rf_deviceMap = deviceMap, rf_inputs = []\<rparr>)) (\<lambda>grad_fn.
                 bindM (for_each (attach_history L grad_fn) tensors) (\<lambda>_.
                 in_context cid (addRecvFunction (Some grad_fn) mid)))
            else returnM ()) (\<lambda>_.
     returnM cid))))"

section \<open>Sending\<close>

definition getMessageWithProfiling :: "pickler \<Rightarrow> nat \<Rightarrow> ivalue \<Rightarrow> nat message \<Rightarrow> (('g, 'a) rpc_worker, nat message) cmd" where
  "getMessageWithProfiling P th profilerConfig wrapped =
     bindM (on_profiler (getCurrentProfilingKey th)) (\<lambda>key.
     bindM (getM wk_self) (\<lambda>self.
     bindM (on_profiler (getNextProfilerId self)) (\<lambda>i.
     bindM (on_profiler (modifyM (saveRPCKey i key))) (\<lambda>_.
     bindM (on_profiler (modifyM (unsetCurrentKey th))) (\<lambda>_.
     liftM (RpcWithProfilingReq_toMessage P profilerConfig i wrapped))))))"

definition getMessageWithAutograd ::
    "'a autograd_lib \<Rightarrow> pickler \<Rightarrow> nat \<Rightarrow> int \<Rightarrow> nat message \<Rightarrow> MessageType \<Rightarrow> bool \<Rightarrow> (int \<times> int) list \<Rightarrow> (('g, 'a) rpc_worker, nat message) cmd" where
  "getMessageWithAutograd L P th dstId wrapped msgType forceGradRecording deviceMap =
     bindM (on_container getInstance) (\<lambda>_.
     bindM (getM (\<lambda>s. compute_requires_grad L (wk_autograd s) (m_tensors wrapped))) (\<lambda>tensorsRequireGrad.
     bindM (getM (\<lambda>s. hasValidContext th (wk_container s))) (\<lambda>valid.
     if \<not> valid \<or> (\<not> forceGradRecording \<and> \<not> tensorsRequireGrad) then returnM wrapped
     else bindM (on_container (currentContext th)) (\<lambda>ctx.
          bindM (on_container newAutogradMessageId) (\<lambda>mid.
          bindM (getM wk_self) (\<lambda>self.
          bindM (if tensorsRequireGrad then addSendRpcBackward L (contextId ctx) mid (m_tensors wrapped) else returnM ()) (\<lambda>_.
          bindM (in_context (contextId ctx) (modifyM (addKnownWorkerId dstId))) (\<lambda>_.
          liftM (RpcWithAutograd_toMessage P msgType self (contextId ctx) mid deviceMap wrapped)))))))))"

definition sendMessageWithAutograd ::
    "'a autograd_lib \<Rightarrow> pickler \<Rightarrow> nat \<Rightarrow> int \<Rightarrow> nat message \<Rightarrow> bool \<Rightarrow> bool \<Rightarrow> (('g, 'a) rpc_worker, nat) cmd" where
  "sendMessageWithAutograd L P th dst wrapped forceGradRecording forceDisableProfiling =
     bindM (getM (\<lambda>s. wk_device_map s dst)) (\<lambda>dm.
     bindM (getMessageWithAutograd L P th dst wrapped FORWARD_AUTOGRAD_REQ forceGradRecording dm) (\<lambda>msg.
     bindM (getM wk_profiler_config) (\<lambda>config.
       case config of
         Some cfg \<Rightarrow>
           if forceDisableProfiling then agent_send dst msg []
           else bindM (getMessageWithProfiling P th cfg msg) (\<lambda>m. agent_send dst m [])
       | None \<Rightarrow> agent_send dst msg [])))"

section \<open>The functions\<close>

definition upd_send :: "nat \<Rightarrow> (send_function \<Rightarrow> send_function) \<Rightarrow> ('g, 'a) rpc_worker \<Rightarrow> ('g, 'a) rpc_worker" where
  "upd_send fn u s =
     (case wk_functions s ! fn of FSend f \<Rightarrow> s\<lparr>wk_functions := (wk_functions s)[fn := FSend (u f)]\<rparr> | FRecv f \<Rightarrow> s)"

definition setGrads :: "nat \<Rightarrow> nat option list \<Rightarrow> ('g, 'a) rpc_worker \<Rightarrow> ('g, 'a) rpc_worker" where
  "setGrads fn grads = upd_send fn (\<lambda>f. f\<lparr>sf_grads := grads\<rparr>)"

definition getGrads :: "nat \<Rightarrow> ('g, 'a) rpc_worker \<Rightarrow> nat option list" where
  "getGrads fn s = (case wk_functions s ! fn of FSend f \<Rightarrow> sf_grads f | FRecv f \<Rightarrow> [])"

text \<open>The gradients are moved out of the function.\<close>

definition SendRpcBackward_apply :: "nat \<Rightarrow> nat option list \<Rightarrow> (('g, 'a) rpc_worker, nat option list) cmd" where
  "SendRpcBackward_apply fn inputs =
     bindM (checkM (inputs = []) (C10_assert ''SendRpcBackward should receive no inputs'')) (\<lambda>_.
     bindM (getM (getGrads fn)) (\<lambda>grads.
     bindM (checkM (None \<notin> set grads) (C10_assert ''BUG!: SendRpcBackward didn't receive valid gradients'')) (\<lambda>_.
     bindM (modifyM (setGrads fn [])) (\<lambda>_.
     returnM grads))))"

definition output_grads :: "'a autograd_lib \<Rightarrow> nat list \<Rightarrow> nat option list \<Rightarrow> nat list" where
  "output_grads L inputs grads = map (\<lambda>(i, g). case g of Some t \<Rightarrow> t | None \<Rightarrow> zeros_like L (inputs ! i)) (enumerate 0 grads)"

definition RecvRpcBackward_apply :: "'a autograd_lib \<Rightarrow> pickler \<Rightarrow> nat \<Rightarrow> nat option list \<Rightarrow> (('g, 'a) rpc_worker, nat option list) cmd" where
  "RecvRpcBackward_apply L P fn grads =
     bindM (getM (\<lambda>s. wk_functions s ! fn)) (\<lambda>f. case f of
       FSend _ \<Rightarrow> throwM Undefined
     | FRecv r \<Rightarrow>
         bindM (getM (\<lambda>s. ctx_of s (rf_context_id r))) (\<lambda>ctx.
         bindM (checkM (ctx \<noteq> None) (C10_error ''Autograd context no longer valid! '')) (\<lambda>_.
         bindM (in_context (rf_context_id r) retrieveGraphTask) (\<lambda>task.
         bindM (getM (\<lambda>s. wk_keep_graph s task)) (\<lambda>keep.
         bindM (getM wk_known) (\<lambda>known.
         bindM (checkM (rf_fromWorkerId r \<in> set known) (C10_error ''Unknown destination worker '')) (\<lambda>_.
         bindM (agent_send (rf_fromWorkerId r)
                  (PropagateGradientsReq_toMessage P (rf_context_id r) (rf_message_id r) (output_grads L (rf_inputs r) grads) keep)
                  (rf_deviceMap r)) (\<lambda>jitFuture.
         bindM (in_context (rf_context_id r) (modifyM (addOutstandingRpc jitFuture))) (\<lambda>_.
         returnM [])))))))))"

text \<open>The handler of gradients that arrive (\<^verbatim>\<open>request_callback_no_python.cpp\<close>), up to the call of the engine.\<close>

definition processBackwardAutogradReq :: "int \<Rightarrow> int \<Rightarrow> nat list \<Rightarrow> bool \<Rightarrow> (('g, 'a) rpc_worker, unit) cmd" where
  "processBackwardAutogradReq cid mid grads retainGraph =
     bindM (on_container getInstance) (\<lambda>_.
     bindM (on_container (retrieveContext cid)) (\<lambda>ctx.
     bindM (in_context cid (retrieveSendFunction mid)) (\<lambda>sendFunction.
     bindM (modifyM (setGrads sendFunction (map Some grads))) (\<lambda>_.
     modifyM (\<lambda>s. s\<lparr>wk_engine := wk_engine s @ [(cid, sendFunction, retainGraph)]\<rparr>)))))"


section \<open>Effects\<close>

definition worker_wf :: "('g, 'a) rpc_worker \<Rightarrow> bool" where
  "worker_wf s \<longleftrightarrow> initialized (wk_container s) \<and> shards_wf (autograd_contexts (wk_container s))"

lemma put_ctx_effect:
  assumes "worker_wf s"
  shows "worker_wf (put_ctx cid c s)" and "ctx_of (put_ctx cid c s) = (ctx_of s)(cid \<mapsto> c)"
  using assms by (simp_all add: worker_wf_def put_ctx_def ctx_of_def sharded.look_ins sharded.wf_ins)

lemma put_ctx_sel [simp]:
  "wk_self (put_ctx cid c s) = wk_self s" "wk_known (put_ctx cid c s) = wk_known s" "wk_autograd (put_ctx cid c s) = wk_autograd s"
  "wk_functions (put_ctx cid c s) = wk_functions s" "wk_keep_graph (put_ctx cid c s) = wk_keep_graph s"
  "wk_sent (put_ctx cid c s) = wk_sent s" "wk_engine (put_ctx cid c s) = wk_engine s"
  "current (wk_container (put_ctx cid c s)) = current (wk_container s)" "max_id (wk_container (put_ctx cid c s)) = max_id (wk_container s)"
  "next_autograd_message_id (wk_container (put_ctx cid c s)) = next_autograd_message_id (wk_container s)"
  by (simp_all add: put_ctx_def)

lemma worker_wf_sel [simp]:
  "worker_wf (s\<lparr>wk_functions := fs\<rparr>) = worker_wf s" "worker_wf (s\<lparr>wk_autograd := a\<rparr>) = worker_wf s"
  "worker_wf (s\<lparr>wk_sent := ms\<rparr>) = worker_wf s" "worker_wf (s\<lparr>wk_engine := es\<rparr>) = worker_wf s"
  "ctx_of (s\<lparr>wk_functions := fs\<rparr>) = ctx_of s" "ctx_of (s\<lparr>wk_autograd := a\<rparr>) = ctx_of s"
  "ctx_of (s\<lparr>wk_sent := ms\<rparr>) = ctx_of s" "ctx_of (s\<lparr>wk_engine := es\<rparr>) = ctx_of s"
  by (simp_all add: worker_wf_def ctx_of_def)

lemma in_context_at: "ctx_of s cid = Some c \<Longrightarrow> f c = (r, c') \<Longrightarrow> in_context cid f s = (r, put_ctx cid c' s)"
  by (simp add: in_context_def)

lemma attach_history_apply:
  "\<not> requires_grad L (wk_autograd s) t \<Longrightarrow> attach_history L fn t s = (Inr (), s)"
  "requires_grad L (wk_autograd s) t \<Longrightarrow> attach_history L fn t s = set_history L t fn s"
  by (simp_all add: attach_history_def bindM_def)

lemma documentedD:
  assumes "documented_autograd L"
  shows "compute_requires_grad L a ts \<Longrightarrow> ts \<noteq> []"
    and "gradient_edge L (set_gradient_edge L t e a) t' = (if t' = t then e else gradient_edge L a t')"
    and "requires_grad L (set_gradient_edge L t e a) t' \<longleftrightarrow> t' = t \<or> requires_grad L a t'"
  using assms unfolding documented_autograd_def by (fastforce, blast+)

text \<open>The loop over the tensors of a received message.\<close>

lemma attach_loop:
  assumes L: "documented_autograd L" and "distinct ts" and "fn < length (wk_functions s)" and "wk_functions s ! fn = FRecv f"
  defines "tg \<equiv> filter (requires_grad L (wk_autograd s)) ts"
  shows "\<exists>a. for_each (attach_history L fn) ts s =
      (Inr (), s\<lparr>wk_functions := (wk_functions s)[fn := FRecv (f\<lparr>rf_inputs := rf_inputs f @ tg\<rparr>)], wk_autograd := a\<rparr>) \<and>
    (\<forall>t. t \<notin> set tg \<longrightarrow> gradient_edge L a t = gradient_edge L (wk_autograd s) t) \<and>
    (\<forall>k < length tg. gradient_edge L a (tg ! k) = \<lparr>e_function = Some fn, e_input_nr = length (rf_inputs f) + k\<rparr>)"
  using assms(2-4) unfolding tg_def
proof (induction ts arbitrary: s f)
  case Nil
  have "(wk_functions s)[fn := FRecv f] = wk_functions s" using Nil.prems by (metis list_update_id)
  then show ?case by (intro exI [of _ "wk_autograd s"]) simp
next
  case (Cons t ts)
  show ?case
  proof (cases "requires_grad L (wk_autograd s) t")
    case False
    with Cons.IH [of s f] Cons.prems show ?thesis by (simp add: attach_history_apply bindM_def)
  next
    case True
    let ?f = "f\<lparr>rf_inputs := rf_inputs f @ [t]\<rparr>"
    let ?s = "s\<lparr>wk_functions := (wk_functions s)[fn := FRecv ?f],
                wk_autograd := set_gradient_edge L t \<lparr>e_function = Some fn, e_input_nr = length (rf_inputs f)\<rparr> (wk_autograd s)\<rparr>"
    have same: "filter (requires_grad L (wk_autograd ?s)) ts = filter (requires_grad L (wk_autograd s)) ts"
      using True by (intro filter_cong refl) (auto simp: documentedD(3) [OF L])
    obtain a where a: "for_each (attach_history L fn) ts ?s =
        (Inr (), ?s\<lparr>wk_functions := (wk_functions ?s)[fn := FRecv (?f\<lparr>rf_inputs := rf_inputs ?f @ filter (requires_grad L (wk_autograd s)) ts\<rparr>)], wk_autograd := a\<rparr>)"
      "\<forall>t'. t' \<notin> set (filter (requires_grad L (wk_autograd s)) ts) \<longrightarrow> gradient_edge L a t' = gradient_edge L (wk_autograd ?s) t'"
      "\<forall>k < length (filter (requires_grad L (wk_autograd s)) ts).
         gradient_edge L a (filter (requires_grad L (wk_autograd s)) ts ! k) = \<lparr>e_function = Some fn, e_input_nr = length (rf_inputs ?f) + k\<rparr>"
      using Cons.IH [of ?s ?f, unfolded same] Cons.prems by auto
    have "gradient_edge L a t = \<lparr>e_function = Some fn, e_input_nr = length (rf_inputs f)\<rparr>"
      using a(2) Cons.prems(1) by (simp add: documentedD(2) [OF L])
    moreover have "\<forall>t'. t' \<noteq> t \<and> t' \<notin> set (filter (requires_grad L (wk_autograd s)) ts) \<longrightarrow> gradient_edge L a t' = gradient_edge L (wk_autograd s) t'"
      using a(2) by (simp add: documentedD(2) [OF L])
    moreover have "for_each (attach_history L fn) (t # ts) s = for_each (attach_history L fn) ts ?s"
      using True Cons.prems by (simp add: attach_history_apply set_history_def bindM_def)
    ultimately show ?thesis
      using True Cons.prems a(1,3) by (intro exI [of _ a]) (auto simp: nth_Cons split: nat.split)
  qed
qed


lemma send_effect:
  assumes "worker_wf A" and "current (wk_container A) th = cid" and "cid \<noteq> kInvalidContextId"
    and "ctx_of A cid = Some ca" and "contextId ca = cid" and "map_of (sendAutogradFunctions ca) mid = None"
    and "next_autograd_message_id (wk_container A) = mid" and "mid < max_id (wk_container A)"
    and "compute_requires_grad L (wk_autograd A) (m_tensors m)"
    and "RpcWithAutograd_toMessage P ty (wk_self A) cid mid dm m = Inr m'"
  defines "tg \<equiv> filter (requires_grad L (wk_autograd A)) (m_tensors m)"
  shows "\<exists>A1 ca1. getMessageWithAutograd L P th dst m ty force dm A = (Inr m', A1) \<and> worker_wf A1 \<and> ctx_of A1 cid = Some ca1 \<and>
    map_of (sendAutogradFunctions ca1) mid = Some (length (wk_functions A)) \<and> dst \<in> set (knownWorkerIds ca1) \<and>
    wk_functions A1 = wk_functions A @ [FSend \<lparr>sf_next_edges = map (gradient_edge L (wk_autograd A)) tg, sf_inputs = tg, sf_grads = []\<rparr>] \<and>
    wk_engine A1 = wk_engine A"
proof -
  let ?fn = "length (wk_functions A)"
  let ?A = "A\<lparr>wk_container := (wk_container A)\<lparr>next_autograd_message_id := wrap64 (mid + 1)\<rparr>,
              wk_functions := wk_functions A @ [FSend \<lparr>sf_next_edges = map (gradient_edge L (wk_autograd A)) tg, sf_inputs = tg, sf_grads = []\<rparr>]\<rparr>"
  let ?c1 = "ca\<lparr>sendAutogradFunctions := AList.update mid ?fn (sendAutogradFunctions ca)\<rparr>"
  have wf: "worker_wf ?A" and c: "ctx_of ?A cid = Some ca" using assms(1,4) by (simp_all add: worker_wf_def ctx_of_def)
  have add: "in_context cid (addSendFunction (Some ?fn) mid) ?A = (Inr (), put_ctx cid ?c1 ?A)"
    by (rule in_context_at [OF c]) (simp add: addSendFunction_def assms(6) bindM_def)
  have wf1: "worker_wf (put_ctx cid ?c1 ?A)" and c1: "ctx_of (put_ctx cid ?c1 ?A) cid = Some ?c1"
    by (simp_all add: put_ctx_effect [OF wf])
  have know: "in_context cid (modifyM (addKnownWorkerId dst)) (put_ctx cid ?c1 ?A) = (Inr (), put_ctx cid (addKnownWorkerId dst ?c1) (put_ctx cid ?c1 ?A))"
    by (rule in_context_at [OF c1]) simp
  have i: "initialized (wk_container A)" using assms(1) by (simp add: worker_wf_def)
  have sf: "shard_find (autograd_contexts (wk_container A)) cid = Some ca" using assms(4) by (simp add: ctx_of_def)
  have "getMessageWithAutograd L P th dst m ty force dm A = (Inr m', put_ctx cid (addKnownWorkerId dst ?c1) (put_ctx cid ?c1 ?A))"
    using assms(2,3,5,7-9) i sf add know assms(10)
    by (simp add: getMessageWithAutograd_def on_container_def getInstance_def currentContext_def hasValidContext_def newAutogradMessageId_def
        addSendRpcBackward_def make_function_def tg_def bindM_def)
  then show ?thesis
    using put_ctx_effect [OF wf1] by (simp add: addKnownWorkerId_def)
qed

lemma recv_effect:
  assumes "documented_autograd L" and "worker_wf B"
    and "\<forall>cb. ctx_of B cid = Some cb \<longrightarrow> map_of (recvAutogradFunctions cb) mid = None \<and> graphTask cb = None"
    and "compute_requires_grad L (wk_autograd B) ts" and "distinct ts"
  defines "tg \<equiv> filter (requires_grad L (wk_autograd B)) ts"
  shows "\<exists>B1 cb1. addRecvRpcBackward L cid mid ts from dm B = (Inr cid, B1) \<and> worker_wf B1 \<and> ctx_of B1 cid = Some cb1 \<and> graphTask cb1 = None \<and>
    map_of (recvAutogradFunctions cb1) mid = Some (length (wk_functions B)) \<and> wk_known B1 = wk_known B \<and> wk_sent B1 = wk_sent B \<and>
    wk_functions B1 = wk_functions B @ [FRecv \<lparr>rf_context_id = cid, rf_message_id = mid, rf_fromWorkerId = from, rf_deviceMap = dm, rf_inputs = tg\<rparr>] \<and>
    (\<forall>k < length tg. gradient_edge L (wk_autograd B1) (tg ! k) = \<lparr>e_function = Some (length (wk_functions B)), e_input_nr = k\<rparr>) \<and>
    contextId cb1 = (case ctx_of B cid of None \<Rightarrow> cid | Some c \<Rightarrow> contextId c) \<and>
    sendAutogradFunctions cb1 = (case ctx_of B cid of None \<Rightarrow> [] | Some c \<Rightarrow> sendAutogradFunctions c) \<and>
    wk_self B1 = wk_self B \<and> max_id (wk_container B1) = max_id (wk_container B) \<and>
    next_autograd_message_id (wk_container B1) = next_autograd_message_id (wk_container B)"
proof -
  let ?fn = "length (wk_functions B)"
  define cb where "cb = (case ctx_of B cid of None \<Rightarrow> new_context cid | Some c \<Rightarrow> c)"
  define sh where "sh = (case ctx_of B cid of None \<Rightarrow> shard_emplace cid cb (autograd_contexts (wk_container B)) | Some c \<Rightarrow> autograd_contexts (wk_container B))"
  let ?B = "B\<lparr>wk_container := (wk_container B)\<lparr>autograd_contexts := sh\<rparr>\<rparr>"
  have cb: "map_of (recvAutogradFunctions cb) mid = None" "graphTask cb = None"
    using assms(3) by (auto simp: cb_def new_context_def split: option.splits)
  have wfB: "worker_wf ?B" using assms(2) by (auto simp: worker_wf_def sh_def sharded.wf_ins split: option.splits)
  have ctxB: "ctx_of ?B cid = Some cb"
    using assms(2) by (auto simp: worker_wf_def ctx_of_def sh_def cb_def sharded.look_ins split: option.splits)
  have get: "on_container (getOrCreateContext cid) B = (Inr cb, ?B)"
    by (auto simp: on_container_def getOrCreateContext_def bindM_def cb_def sh_def ctx_of_def split: option.splits)
  let ?f = "\<lparr>rf_context_id = cid, rf_message_id = mid, rf_fromWorkerId = from, rf_deviceMap = dm, rf_inputs = []\<rparr>"
  let ?B1 = "?B\<lparr>wk_functions := wk_functions B @ [FRecv ?f]\<rparr>"
  obtain a where a: "for_each (attach_history L ?fn) ts ?B1 =
      (Inr (), ?B1\<lparr>wk_functions := (wk_functions ?B1)[?fn := FRecv (?f\<lparr>rf_inputs := rf_inputs ?f @ tg\<rparr>)], wk_autograd := a\<rparr>)"
    and e: "\<forall>k < length tg. gradient_edge L a (tg ! k) = \<lparr>e_function = Some ?fn, e_input_nr = length (rf_inputs ?f) + k\<rparr>"
    using attach_loop [OF assms(1,5), of ?fn ?B1 ?f] by (auto simp: tg_def)
  define B2 where "B2 = ?B1\<lparr>wk_functions := wk_functions B @ [FRecv (?f\<lparr>rf_inputs := tg\<rparr>)], wk_autograd := a\<rparr>"
  have loop: "for_each (attach_history L ?fn) ts ?B1 = (Inr (), B2)" using a by (simp add: B2_def)
  have wf2: "worker_wf B2" and ctx2: "ctx_of B2 cid = Some cb" using wfB ctxB by (simp_all add: B2_def worker_wf_def ctx_of_def)
  let ?cb1 = "cb\<lparr>recvAutogradFunctions := AList.update mid ?fn (recvAutogradFunctions cb)\<rparr>"
  have add: "in_context cid (addRecvFunction (Some ?fn) mid) B2 = (Inr (), put_ctx cid ?cb1 B2)"
    by (rule in_context_at [OF ctx2]) (simp add: addRecvFunction_def cb bindM_def)
  have "ts \<noteq> []" "initialized (wk_container B)" using documentedD(1) [OF assms(1,4)] assms(2) by (simp_all add: worker_wf_def)
  moreover have "on_container getInstance B = (Inr (), B)" using \<open>initialized (wk_container B)\<close> by (simp add: on_container_def getInstance_def bindM_def)
  ultimately have "addRecvRpcBackward L cid mid ts from dm B = (Inr cid, put_ctx cid ?cb1 B2)"
    using get loop add assms(4) by (simp add: addRecvRpcBackward_def make_function_def bindM_def)
  then show ?thesis
    using put_ctx_effect [OF wf2] cb(2) e by (simp add: B2_def cb_def new_context_def split: option.split)
qed


text \<open>What the receive function sends when a backward pass with graph task \<open>task\<close> applies it.\<close>

lemma recv_apply_effect:
  assumes "worker_wf B" and "ctx_of B cid = Some cb" and "graphTask cb = Some task" and "from \<in> set (wk_known B)"
    and "wk_functions B ! fn = FRecv \<lparr>rf_context_id = cid, rf_message_id = mid, rf_fromWorkerId = from, rf_deviceMap = dm, rf_inputs = tg\<rparr>"
  shows "\<exists>B1. RecvRpcBackward_apply L P fn grads B = (Inr [], B1) \<and>
    wk_sent B1 = wk_sent B @ [(from, PropagateGradientsReq_toMessage P cid mid (output_grads L tg grads) (wk_keep_graph B task), dm)] \<and>
    (\<exists>cb1. ctx_of B1 cid = Some cb1 \<and> outStandingRpcs cb1 = outStandingRpcs cb @ [length (wk_sent B)])"
proof -
  let ?m = "PropagateGradientsReq_toMessage P cid mid (output_grads L tg grads) (wk_keep_graph B task)"
  let ?B1 = "put_ctx cid cb B"
  let ?B2 = "?B1\<lparr>wk_sent := wk_sent B @ [(from, ?m, dm)]\<rparr>"
  have wf: "worker_wf ?B2" and c: "ctx_of ?B2 cid = Some cb" using put_ctx_effect [OF assms(1)] by simp_all
  have t: "in_context cid retrieveGraphTask B = (Inr task, ?B1)"
    by (rule in_context_at [OF assms(2)]) (simp add: retrieveGraphTask_def bindM_def assms(3))
  have o: "in_context cid (modifyM (addOutstandingRpc (length (wk_sent B)))) ?B2 = (Inr (), put_ctx cid (addOutstandingRpc (length (wk_sent B)) cb) ?B2)"
    by (rule in_context_at [OF c]) simp
  have "RecvRpcBackward_apply L P fn grads B = (Inr [], put_ctx cid (addOutstandingRpc (length (wk_sent B)) cb) ?B2)"
    using assms(2,4,5) t o by (simp add: RecvRpcBackward_apply_def agent_send_def bindM_def)
  then show ?thesis using put_ctx_effect [OF wf] by (simp add: addOutstandingRpc_def)
qed

lemma backward_effect:
  assumes "worker_wf A" and "ctx_of A cid = Some ca" and "map_of (sendAutogradFunctions ca) mid = Some fn"
    and "fn < length (wk_functions A)" and "wk_functions A ! fn = FSend f"
  shows "\<exists>A1. processBackwardAutogradReq cid mid grads retain A = (Inr (), A1) \<and> wk_engine A1 = wk_engine A @ [(cid, fn, retain)] \<and>
    wk_functions A1 ! fn = FSend (f\<lparr>sf_grads := map Some grads\<rparr>) \<and> fst (SendRpcBackward_apply fn [] A1) = Inr (map Some grads)"
proof -
  let ?A1 = "(setGrads fn (map Some grads) (put_ctx cid ca A))\<lparr>wk_engine := wk_engine A @ [(cid, fn, retain)]\<rparr>"
  have i: "on_container getInstance A = (Inr (), A)" using assms(1) by (simp add: on_container_def getInstance_def worker_wf_def bindM_def)
  have r: "on_container (retrieveContext cid) A = (Inr ca, A)" using assms(2) by (simp add: on_container_def retrieveContext_def ctx_of_def bindM_def)
  have s: "in_context cid (retrieveSendFunction mid) A = (Inr fn, put_ctx cid ca A)"
    by (rule in_context_at [OF assms(2)]) (simp add: retrieveSendFunction_def assms(3) bindM_def)
  have e: "wk_engine (setGrads fn g s) = wk_engine s" for g and s :: "('a, 'b) rpc_worker"
    by (simp add: setGrads_def upd_send_def split: rpc_function.split)
  have "processBackwardAutogradReq cid mid grads retain A = (Inr (), ?A1)"
    using i r s by (simp add: processBackwardAutogradReq_def bindM_def e)
  moreover have f: "wk_functions ?A1 ! fn = FSend (f\<lparr>sf_grads := map Some grads\<rparr>)"
    using assms(4,5) by (simp add: setGrads_def upd_send_def)
  moreover have "fst (SendRpcBackward_apply fn [] ?A1) = Inr (map Some grads)"
    using f by (simp add: SendRpcBackward_apply_def getGrads_def bindM_def image_iff)
  ultimately show ?thesis by auto
qed

section \<open>Properties\<close>

text \<open>
  C10. Gradients find their way back through a call. A message with tensors that require gradients is
  sent in a context; the receiver reads the sender, the context and the message id from it and attaches
  its receive function to these tensors, the k-th of them as input k. When a backward pass applies the
  receive function, it sends the gradients (zeros for a missing one) to the sender under the same ids;
  the sender's handler finds the function made for that message, in that context, hands it to the engine
  and the function passes on exactly these gradients, the k-th along the gradient edge the k-th tensor
  had at the sender.
\<close>

theorem dist_gradients_routed:
  fixes A B :: "('g, 'a) rpc_worker" and L :: "'a autograd_lib" and m :: "nat message"
  defines "tg \<equiv> filter (requires_grad L (wk_autograd A)) (m_tensors m)" and "mid \<equiv> next_autograd_message_id (wk_container A)"
  assumes "documented_pickler (rt_pickler T)" and "documented_autograd L" and "worker_wf A" and "worker_wf B"
    and "current (wk_container A) th = cid" and "cid \<noteq> kInvalidContextId"
    and "ctx_of A cid = Some ca" and "contextId ca = cid" and "map_of (sendAutogradFunctions ca) mid = None" and "mid < max_id (wk_container A)"
    and "compute_requires_grad L (wk_autograd A) (m_tensors m)" and "distinct (m_tensors m)"
    and "m_payload m \<noteq> []" and "wf_worker (wk_self A)" and "wf_devices dm"
    and "small_trailer (rt_pickler T) [IInt cid, IInt mid, IInt (wk_self A), IDict dm]"
    and "compute_requires_grad L (wk_autograd B) (m_tensors m)"
    and "\<forall>t \<in> set (m_tensors m). requires_grad L (wk_autograd B) t = requires_grad L (wk_autograd A) t"
    and "\<forall>cb. ctx_of B cid = Some cb \<longrightarrow> map_of (recvAutogradFunctions cb) mid = None \<and> graphTask cb = None"
    and "wk_self A \<in> set (wk_known B)"
  shows "\<exists>m' A1 B1 fs fr. getMessageWithAutograd L (rt_pickler T) th dst m FORWARD_AUTOGRAD_REQ force dm A = (Inr m', A1) \<and>
    unwrap_autograd (rt_pickler T) m' = Inr (wk_self A, cid, mid, dm, m) \<and>
    addRecvRpcBackward L cid mid (m_tensors m) (wk_self A) dm' B = (Inr cid, B1) \<and>
    (\<forall>k < length tg. gradient_edge L (wk_autograd B1) (tg ! k) = \<lparr>e_function = Some fr, e_input_nr = k\<rparr>) \<and>
    (\<forall>task grads. \<exists>B2 B3 gm A2 f.
       let gs = output_grads L tg grads; keep = wk_keep_graph B2 task in
       in_context cid (setGraphTask task) B1 = (Inr (), B2) \<and>
       RecvRpcBackward_apply L (rt_pickler T) fr grads B2 = (Inr [], B3) \<and> wk_sent B3 = wk_sent B2 @ [(wk_self A, gm, dm')] \<and>
       deserializeRequest T gm = Inr (PropagateGradientsReq cid mid gs keep) \<and>
       processBackwardAutogradReq cid mid gs keep A1 = (Inr (), A2) \<and> wk_engine A2 = wk_engine A @ [(cid, fs, keep)] \<and>
       wk_functions A2 ! fs = FSend f \<and> sf_next_edges f = map (gradient_edge L (wk_autograd A)) tg \<and>
       fst (SendRpcBackward_apply fs [] A2) = Inr (map Some gs))"
proof -
  let ?P = "rt_pickler T" and ?fs = "length (wk_functions A)" and ?fr = "length (wk_functions B)"
  let ?f = "\<lparr>sf_next_edges = map (gradient_edge L (wk_autograd A)) tg, sf_inputs = tg, sf_grads = []\<rparr>"
  have tg: "filter (requires_grad L (wk_autograd B)) (m_tensors m) = tg" unfolding tg_def by (intro filter_cong refl) (simp add: assms(20))
  obtain m' where m': "RpcWithAutograd_toMessage ?P FORWARD_AUTOGRAD_REQ (wk_self A) cid mid dm m = Inr m'"
    "unwrap_autograd ?P m' = Inr (wk_self A, cid, mid, dm, m)"
    using unwrap_autograd_back [OF assms(3,16,17,15), of FORWARD_AUTOGRAD_REQ cid mid] assms(18) by auto
  obtain A1 ca1 where A1: "getMessageWithAutograd L ?P th dst m FORWARD_AUTOGRAD_REQ force dm A = (Inr m', A1)" "worker_wf A1"
    "ctx_of A1 cid = Some ca1" "map_of (sendAutogradFunctions ca1) mid = Some ?fs" "wk_functions A1 = wk_functions A @ [FSend ?f]"
    "wk_engine A1 = wk_engine A"
    using send_effect [OF assms(5,7-11) _ assms(12,13) m'(1), of dst force] by (auto simp: tg_def mid_def)
  obtain B1 cb1 where B1: "addRecvRpcBackward L cid mid (m_tensors m) (wk_self A) dm' B = (Inr cid, B1)" "worker_wf B1"
    "ctx_of B1 cid = Some cb1" "graphTask cb1 = None" "wk_known B1 = wk_known B"
    "wk_functions B1 = wk_functions B @ [FRecv \<lparr>rf_context_id = cid, rf_message_id = mid, rf_fromWorkerId = wk_self A, rf_deviceMap = dm', rf_inputs = tg\<rparr>]"
    "\<forall>k < length tg. gradient_edge L (wk_autograd B1) (tg ! k) = \<lparr>e_function = Some ?fr, e_input_nr = k\<rparr>"
    using recv_effect [OF assms(4,6,21,19,14), of "wk_self A" dm'] unfolding tg by blast
  have "\<exists>B2 B3 gm A2 f.
       let gs = output_grads L tg grads; keep = wk_keep_graph B2 task in
       in_context cid (setGraphTask task) B1 = (Inr (), B2) \<and>
       RecvRpcBackward_apply L ?P ?fr grads B2 = (Inr [], B3) \<and> wk_sent B3 = wk_sent B2 @ [(wk_self A, gm, dm')] \<and>
       deserializeRequest T gm = Inr (PropagateGradientsReq cid mid gs keep) \<and>
       processBackwardAutogradReq cid mid gs keep A1 = (Inr (), A2) \<and> wk_engine A2 = wk_engine A @ [(cid, ?fs, keep)] \<and>
       wk_functions A2 ! ?fs = FSend f \<and> sf_next_edges f = map (gradient_edge L (wk_autograd A)) tg \<and>
       fst (SendRpcBackward_apply ?fs [] A2) = Inr (map Some gs)" for task grads
  proof -
    let ?B2 = "put_ctx cid (cb1\<lparr>graphTask := Some task\<rparr>) B1"
    let ?gs = "output_grads L tg grads" and ?keep = "wk_keep_graph B1 task"
    let ?gm = "PropagateGradientsReq_toMessage ?P cid mid ?gs ?keep"
    have B2: "in_context cid (setGraphTask task) B1 = (Inr (), ?B2)"
      by (rule in_context_at [OF B1(3)]) (simp add: setGraphTask_def B1(4) bindM_def)
    have "wk_functions ?B2 ! ?fr = FRecv \<lparr>rf_context_id = cid, rf_message_id = mid, rf_fromWorkerId = wk_self A, rf_deviceMap = dm', rf_inputs = tg\<rparr>"
      using B1(6) by simp
    from recv_apply_effect [OF _ _ _ _ this, of "cb1\<lparr>graphTask := Some task\<rparr>" task L ?P grads] obtain B3
      where B3: "RecvRpcBackward_apply L ?P ?fr grads ?B2 = (Inr [], B3)" "wk_sent B3 = wk_sent ?B2 @ [(wk_self A, ?gm, dm')]"
      using put_ctx_effect [OF B1(2)] assms(22) B1(5) by auto
    have gm: "deserializeRequest T ?gm = Inr (PropagateGradientsReq cid mid ?gs ?keep)"
      using request_back [OF assms(3), of "PropagateGradientsReq cid mid ?gs ?keep"] by simp
    obtain A2 where A2: "processBackwardAutogradReq cid mid ?gs ?keep A1 = (Inr (), A2)" "wk_engine A2 = wk_engine A @ [(cid, ?fs, ?keep)]"
      "wk_functions A2 ! ?fs = FSend (?f\<lparr>sf_grads := map Some ?gs\<rparr>)" "fst (SendRpcBackward_apply ?fs [] A2) = Inr (map Some ?gs)"
      using backward_effect [OF A1(2-4), of ?f ?gs ?keep] A1(5,6) by auto
    show ?thesis
      by (rule exI [of _ ?B2], rule exI [of _ B3], rule exI [of _ ?gm], rule exI [of _ A2], rule exI [of _ "?f\<lparr>sf_grads := map Some ?gs\<rparr>"])
         (simp add: Let_def B2 B3 gm A2)
  qed
  then show ?thesis using A1(1) m'(2) B1(1,7) by blast
qed


definition sample_lib :: "(nat list \<times> (nat \<Rightarrow> edge)) autograd_lib" where
  "sample_lib = \<lparr>requires_grad = (\<lambda>a t. t \<in> set (fst a)), compute_requires_grad = (\<lambda>a ts. list_ex (\<lambda>t. t \<in> set (fst a)) ts),
     gradient_edge = snd, set_gradient_edge = (\<lambda>t e a. (t # fst a, (snd a)(t := e))), zeros_like = (\<lambda>t. t + 1000)\<rparr>"

lemma sample_lib_documented: "documented_autograd sample_lib"
  by (auto simp: documented_autograd_def sample_lib_def list_ex_iff)

definition sample_container :: "int \<Rightarrow> nat container" where
  "sample_container w = (snd (init_container w fresh_container))
     \<lparr>autograd_contexts := [[(0, new_context 0)], [], [], []], current := (\<lambda>_. 0)\<rparr>"

definition sample_worker :: "int \<Rightarrow> (nat, nat list \<times> (nat \<Rightarrow> edge)) rpc_worker" where
  "sample_worker w = \<lparr>wk_self = w, wk_known = [0, 1], wk_device_map = (\<lambda>_. []), wk_container = sample_container w,
     wk_autograd = ([5, 7], \<lambda>t. \<lparr>e_function = None, e_input_nr = t\<rparr>), wk_functions = [], wk_profiler = RemoteProfilerManager_new w,
     wk_profiler_config = None, wk_keep_graph = (\<lambda>_. False), wk_sent = [], wk_engine = []\<rparr>"

definition sample_call :: "nat message" where
  "sample_call = \<lparr>m_payload = ''x'', m_tensors = [5, 6, 7], m_type = SCRIPT_CALL, m_id = 3\<rparr>"

lemma sample_worker_ok:
  assumes "w \<in> {0, 1}"
  shows "worker_wf (sample_worker w)" and "ctx_of (sample_worker w) 0 = Some (new_context 0)"
    and "current (wk_container (sample_worker w)) th = 0"
    and "next_autograd_message_id (wk_container (sample_worker 0)) = 0" and "0 < max_id (wk_container (sample_worker 0))"
    and "wk_autograd (sample_worker w) = ([5, 7], \<lambda>t. \<lparr>e_function = None, e_input_nr = t\<rparr>)"
    and "wk_self (sample_worker w) = w" and "0 \<in> set (wk_known (sample_worker w))"
proof -
  have i: "init_container w fresh_container = (Inr (), fresh_container\<lparr>worker_id := sint (word_of_int w :: 16 word), next_context_id := id_base w,
      next_autograd_message_id := id_base w, max_id := (kAutoIncrementMask OR id_base w), initialized := True\<rparr>)" if "w \<in> {0, 1}" for w
    using that by (auto simp: init_container_def fresh_container_def kMaxWorkerId_def bindM_def)
  have s: "shard_of [[(0, new_context 0 :: nat dist_context)], [], [], []] 0 = 0" by (simp add: shard_of_def)
  have "\<exists>n. Suc (Suc (Suc (Suc 0))) = 2 ^ n" by (rule exI [of _ 2]) simp
  then show "worker_wf (sample_worker w)"
    by (simp add: worker_wf_def sample_worker_def sample_container_def i [OF assms] shards_wf_def umap_wf_def s nth_Cons split: nat.split)
  show "ctx_of (sample_worker w) 0 = Some (new_context 0)"
    by (simp add: ctx_of_def sample_worker_def sample_container_def shard_find_def s)
  show "0 < max_id (wk_container (sample_worker 0))" "next_autograd_message_id (wk_container (sample_worker 0)) = 0"
    by (simp_all add: sample_worker_def sample_container_def i id_base_def kAutoIncrementBits_def kAutoIncrementMask_def wrap64_def)
qed (simp_all add: sample_worker_def sample_container_def)

lemma sample_trailer: "small_trailer prefix_pickler [IInt 0, IInt 0, IInt 0, IDict [(0, 1)]]"
  by (rule short_trailer_small) code_simp

theorem dist_gradients_routed_witness:
  "\<exists>m' A1 B1 fr. getMessageWithAutograd sample_lib prefix_pickler 0 1 sample_call FORWARD_AUTOGRAD_REQ False [(0, 1)] (sample_worker 0) = (Inr m', A1) \<and>
     unwrap_autograd prefix_pickler m' = Inr (0, 0, 0, [(0, 1)], sample_call) \<and>
     addRecvRpcBackward sample_lib 0 0 [5, 6, 7] 0 [(1, 0)] (sample_worker 1) = (Inr 0, B1) \<and>
     (\<forall>k < 2. gradient_edge sample_lib (wk_autograd B1) ([5, 7] ! k) = \<lparr>e_function = Some fr, e_input_nr = k\<rparr>)"
proof -
  have tg: "filter (requires_grad sample_lib (wk_autograd (sample_worker 0))) (m_tensors sample_call) = [5, 7]"
    by (simp add: sample_worker_def sample_lib_def sample_call_def)
  note A = sample_worker_ok [of 0, simplified] and B = sample_worker_ok [of 1, simplified]
  have c: "compute_requires_grad sample_lib (wk_autograd (sample_worker w)) (m_tensors sample_call)" for w
    by (simp add: sample_worker_def sample_lib_def sample_call_def)
  have "\<exists>m' A1 B1 fs fr. getMessageWithAutograd sample_lib (rt_pickler sample_runtime) 0 1 sample_call FORWARD_AUTOGRAD_REQ False [(0, 1)] (sample_worker 0) = (Inr m', A1) \<and>
     unwrap_autograd (rt_pickler sample_runtime) m' = Inr (wk_self (sample_worker 0), 0, next_autograd_message_id (wk_container (sample_worker 0)), [(0, 1)], sample_call) \<and>
     addRecvRpcBackward sample_lib 0 (next_autograd_message_id (wk_container (sample_worker 0))) (m_tensors sample_call) (wk_self (sample_worker 0)) [(1, 0)] (sample_worker 1) = (Inr 0, B1) \<and>
     (\<forall>k < length (filter (requires_grad sample_lib (wk_autograd (sample_worker 0))) (m_tensors sample_call)).
        gradient_edge sample_lib (wk_autograd B1) (filter (requires_grad sample_lib (wk_autograd (sample_worker 0))) (m_tensors sample_call) ! k) =
          \<lparr>e_function = Some fr, e_input_nr = k\<rparr>)"
    using dist_gradients_routed [of sample_runtime sample_lib "sample_worker 0" "sample_worker 1" 0 0 "new_context 0" sample_call "[(0, 1)]" 1 False "[(1, 0)]"]
      prefix_pickler_documented sample_lib_documented A B c sample_trailer
    by (fastforce simp: sample_runtime_sel new_context_def kInvalidContextId_def sample_call_def wf_worker_def wf_devices_def worker_id_max_def)
  then have "\<exists>m' A1 B1 fs fr. getMessageWithAutograd sample_lib prefix_pickler 0 1 sample_call FORWARD_AUTOGRAD_REQ False [(0, 1)] (sample_worker 0) = (Inr m', A1) \<and>
     unwrap_autograd prefix_pickler m' = Inr (0, 0, 0, [(0, 1)], sample_call) \<and>
     addRecvRpcBackward sample_lib 0 0 (m_tensors sample_call) 0 [(1, 0)] (sample_worker 1) = (Inr 0, B1) \<and>
     (\<forall>k < length [5, 7 :: nat]. gradient_edge sample_lib (wk_autograd B1) ([5, 7] ! k) = \<lparr>e_function = Some fr, e_input_nr = k\<rparr>)"
    unfolding tg A(4,7) sample_runtime_sel .
  moreover have "m_tensors sample_call = [5, 6, 7]" "length [5, 7 :: nat] = 2" by (simp_all add: sample_call_def)
  ultimately show ?thesis by metis
qed

end
