(* ===== verification/Rpc_Agent.thy ===== *)
theory Rpc_Agent
  imports C10d_Prelude Complex_Main
begin

text \<open>
  \<^verbatim>\<open>RpcAgent\<close> (\<^verbatim>\<open>rpc/rpc_agent.h/.cpp\<close>): worker names, the process-wide current agent, and
  the sending of a message with retries. The virtual \<^verbatim>\<open>send\<close> is the agent of a backend: here a
  send either throws (an argument says so) or puts the attempt in flight, and the environment
  completes it later. Times are milliseconds of the steady clock; the back-off factor is a
  rational number.
\<close>

section \<open>Workers\<close>

record worker_info =
  wi_name :: string
  wi_id :: int

definition MAX_NAME_LEN :: nat where "MAX_NAME_LEN = 128"

definition is_alnum :: "char \<Rightarrow> bool" where
  "is_alnum c \<longleftrightarrow> is_digit c \<or> (65::nat) \<le> of_char c \<and> (of_char c :: nat) \<le> 90 \<or> (97::nat) \<le> of_char c \<and> (of_char c :: nat) \<le> 122"

definition WorkerInfo :: "string \<Rightarrow> int \<Rightarrow> worker_info res" where
  "WorkerInfo name wid =
     (let validSize = length name < MAX_NAME_LEN \<and> length name > 0;
          validChar = list_all (\<lambda>c. is_alnum c \<or> c = CHR ''-'' \<or> c = CHR ''_'' \<or> c = CHR '':'') name
      in if \<not> (validSize \<and> validChar)
         then Inl (C10_error ''Worker name must match ^[A-Za-z0-9-_:]*$, and must be non-empty and shorter than '')
         else Inr \<lparr>wi_name = name, wi_id = wid\<rparr>)"

definition WorkerInfo_int64 :: "string \<Rightarrow> int \<Rightarrow> worker_info res" where
  "WorkerInfo_int64 name wid =
     bindE (WorkerInfo name (to_worker_id wid)) (\<lambda>w.
       if \<not> wid \<le> worker_id_max then Inl (C10_error ''RPC worker id '') else Inr w)"

definition worker_eq :: "worker_info \<Rightarrow> worker_info \<Rightarrow> bool" where
  "worker_eq a b \<longleftrightarrow> wi_id a = wi_id b \<and> wi_name a = wi_name b"

section \<open>The current agent\<close>

type_synonym current_agent = "nat option"

definition isCurrentRpcAgentSet :: "current_agent \<Rightarrow> bool" where
  "isCurrentRpcAgentSet c \<longleftrightarrow> c \<noteq> None"

definition getCurrentRpcAgent :: "(current_agent, nat) cmd" where
  "getCurrentRpcAgent c = (case c of None \<Rightarrow> (Inl (C10_assert ''Current RPC agent is not set!''), c) | Some a \<Rightarrow> (Inr a, c))"

text \<open>Setting an agent exchanges only an empty pointer; resetting always exchanges.\<close>

definition setCurrentRpcAgent :: "nat option \<Rightarrow> (current_agent, unit) cmd" where
  "setCurrentRpcAgent agent c =
     (case agent of
        Some a \<Rightarrow> (case c of
                     None \<Rightarrow> (Inr (), Some a)
                   | Some _ \<Rightarrow> (Inl (C10_assert ''Current RPC agent is set!''), c))
      | None \<Rightarrow> (case c of
                     None \<Rightarrow> (Inl (C10_assert ''Current RPC agent is not set!''), None)
                   | Some _ \<Rightarrow> (Inr (), None)))"

section \<open>Sending with retries\<close>

record retry_options =
  maxRetries :: int
  rpcRetryDuration :: int
  retryBackoff :: rat

record 'm retry_info =
  ri_to :: int
  ri_message :: 'm
  ri_originalFuture :: nat
  ri_retryCount :: int
  ri_options :: retry_options

text \<open>
  \<open>infos\<close> and \<open>originals\<close> are the shared objects; \<open>retryMap\<close> is \<^verbatim>\<open>rpcRetryMap_\<close>, ordered by
  its time points when it is read; \<open>inflight\<close> are the attempts whose futures carry the
  callback, with the time of the next retry; \<open>attempts\<close> counts the sends handed to the backend.
\<close>

record 'm rpc_agent =
  rpcAgentRunning :: bool
  infos :: "'m retry_info list"
  originals :: "future list"
  retryMap :: "(int, nat list) umap"
  inflight :: "(nat \<times> int) list"
  attempts :: "(int \<times> 'm) list"

definition computeNewRpcRetryTime :: "retry_options \<Rightarrow> int \<Rightarrow> int \<Rightarrow> int" where
  "computeNewRpcRetryTime opts retryCount now =
     now + \<lfloor>of_int (rpcRetryDuration opts) * retryBackoff opts ^ nat retryCount\<rfloor>"

definition start :: "'m rpc_agent \<Rightarrow> 'm rpc_agent" where
  "start a = a\<lparr>rpcAgentRunning := True\<rparr>"

definition shutdown :: "'m rpc_agent \<Rightarrow> 'm rpc_agent" where
  "shutdown a = a\<lparr>rpcAgentRunning := False\<rparr>"

definition sendWithRetries :: "int \<Rightarrow> string option \<Rightarrow> int \<Rightarrow> 'm \<Rightarrow> retry_options \<Rightarrow> ('m rpc_agent, nat) cmd" where
  "sendWithRetries now throws dest msg opts =
     bindM (checkM (maxRetries opts \<ge> 0) (C10_error ''maxRetries cannot be negative.'')) (\<lambda>_.
     bindM (checkM (retryBackoff opts \<ge> 1) (C10_error ''maxRetries cannot be exponentially decaying.'')) (\<lambda>_.
     bindM (checkM (rpcRetryDuration opts \<ge> 0) (C10_error ''rpcRetryDuration cannot be negative.'')) (\<lambda>_.
     bindM (liftM (case throws of Some e \<Rightarrow> Inl (Runtime_error e) | None \<Rightarrow> Inr ())) (\<lambda>_.
     bindM (getM (\<lambda>a. (length (originals a), length (infos a)))) (\<lambda>(f, i).
     bindM (modifyM (\<lambda>a. a\<lparr>originals := originals a @ [Pending],
              infos := infos a @ [\<lparr>ri_to = dest, ri_message = msg, ri_originalFuture = f, ri_retryCount = 0, ri_options = opts\<rparr>],
              inflight := inflight a @ [(i, computeNewRpcRetryTime opts 0 now)],
              attempts := attempts a @ [(dest, msg)]\<rparr>)) (\<lambda>_.
     returnM f))))))"

definition set_original :: "nat \<Rightarrow> (future \<Rightarrow> future) \<Rightarrow> 'm rpc_agent \<Rightarrow> 'm rpc_agent" where
  "set_original i g a =
     (let f = ri_originalFuture (infos a ! i) in a\<lparr>originals := (originals a)[f := g (originals a ! f)]\<rparr>)"

definition max_retries_text :: string where
  "max_retries_text = ''The RPC has not succeeded after the specified number of max retries ('' "

definition rpcRetryCallback :: "string option \<Rightarrow> int \<Rightarrow> nat \<Rightarrow> 'm rpc_agent \<Rightarrow> 'm rpc_agent" where
  "rpcRetryCallback err newTime i a =
     (case err of
        Some e \<Rightarrow>
          if \<not> rpcAgentRunning a then set_original i (setError e) a
          else if ri_retryCount (infos a ! i) < maxRetries (ri_options (infos a ! i))
          then a\<lparr>retryMap := AList.update newTime (List.insert i (umap_at [] (retryMap a) newTime)) (retryMap a)\<rparr>
          else set_original i (setError max_retries_text) a
      | None \<Rightarrow> set_original i markCompleted a)"

text \<open>The environment completes the first attempt in flight.\<close>

definition complete_attempt :: "string option \<Rightarrow> 'm rpc_agent \<Rightarrow> 'm rpc_agent" where
  "complete_attempt err a =
     (case inflight a of
        [] \<Rightarrow> a
      | (i, t) # rest \<Rightarrow> rpcRetryCallback err t i (a\<lparr>inflight := rest\<rparr>))"

definition earliest :: "'m rpc_agent \<Rightarrow> int" where
  "earliest a = Min (set (map fst (retryMap a)))"

text \<open>
  One round of \<^verbatim>\<open>retryExpiredRpcs\<close> at time \<open>now\<close>, once the earliest time point is reached:
  every RPC of that time point is sent again, or its original future fails when \<^verbatim>\<open>send\<close> throws.
\<close>

definition resend :: "int \<Rightarrow> (nat \<Rightarrow> string option) \<Rightarrow> nat \<Rightarrow> 'm rpc_agent \<Rightarrow> 'm rpc_agent" where
  "resend now throws i a =
     (let info = infos a ! i in
      case throws i of
        Some e \<Rightarrow> set_original i (setError e) a
      | None \<Rightarrow> a\<lparr>infos := (infos a)[i := info\<lparr>ri_retryCount := ri_retryCount info + 1\<rparr>],
                  inflight := inflight a @ [(i, computeNewRpcRetryTime (ri_options info) (ri_retryCount info) now)],
                  attempts := attempts a @ [(ri_to info, ri_message info)]\<rparr>)"

definition retryExpiredRpcs_round :: "int \<Rightarrow> (nat \<Rightarrow> string option) \<Rightarrow> 'm rpc_agent \<Rightarrow> 'm rpc_agent" where
  "retryExpiredRpcs_round now throws a =
     (if \<not> rpcAgentRunning a \<or> retryMap a = [] \<or> now < earliest a then a
      else let t = earliest a; rpcs = umap_at [] (retryMap a) t
           in fold (resend now throws) rpcs (a\<lparr>retryMap := AList.delete t (retryMap a)\<rparr>))"

section \<open>One message with its retries\<close>

text \<open>
  The run of one message: every outcome completes the attempt in flight, and the retry thread runs
  when the time of the next retry has come.
\<close>

fun retry_run :: "string option list \<Rightarrow> 'm rpc_agent \<Rightarrow> 'm rpc_agent" where
  "retry_run [] a = a"
| "retry_run (out # outs) a =
     (let a1 = complete_attempt out a
      in retry_run outs (if retryMap a1 = [] then a1 else retryExpiredRpcs_round (earliest a1) (\<lambda>_. None) a1))"

definition failures :: "string option list \<Rightarrow> nat" where
  "failures outs = length (takeWhile (\<lambda>x. x \<noteq> None) outs)"

text \<open>\<open>trying a i k\<close>: RPC \<open>i\<close> is the only one, \<open>k\<close> attempts have failed and the next is in flight.\<close>

definition trying :: "'m rpc_agent \<Rightarrow> retry_options \<Rightarrow> nat \<Rightarrow> nat \<Rightarrow> bool" where
  "trying a opts f k \<longleftrightarrow> rpcAgentRunning a \<and> retryMap a = [] \<and> length (attempts a) = k + 1 \<and> f < length (originals a) \<and>
     originals a ! f = Pending \<and> (\<exists>i t. inflight a = [(i, t)] \<and> i < length (infos a) \<and>
       ri_originalFuture (infos a ! i) = f \<and> ri_retryCount (infos a ! i) = int k \<and> ri_options (infos a ! i) = opts)"

definition settled :: "'m rpc_agent \<Rightarrow> nat \<Rightarrow> future \<Rightarrow> nat \<Rightarrow> bool" where
  "settled a f v n \<longleftrightarrow> retryMap a = [] \<and> inflight a = [] \<and> f < length (originals a) \<and> originals a ! f = v \<and> length (attempts a) = n"

lemma retry_run_settled: "settled a f v n \<Longrightarrow> settled (retry_run outs a) f v n"
  by (induction outs) (simp_all add: settled_def complete_attempt_def)

lemma trying_success:
  assumes "trying a opts f k"
  shows "settled (complete_attempt None a) f Completed (k + 1)"
  using assms by (auto simp: trying_def settled_def complete_attempt_def rpcRetryCallback_def set_original_def Let_def)

lemma trying_last_failure:
  assumes "trying a opts f k" and "int k = maxRetries opts"
  shows "settled (complete_attempt (Some e) a) f (Failed max_retries_text) (k + 1)"
  using assms by (auto simp: trying_def settled_def complete_attempt_def rpcRetryCallback_def set_original_def Let_def)

lemma trying_failure:
  fixes a :: "'m rpc_agent" and e :: string
  assumes "trying a opts f k" and "int k < maxRetries opts"
  defines "a1 \<equiv> complete_attempt (Some e) a"
  shows "retryMap a1 \<noteq> []" and "trying (retryExpiredRpcs_round (earliest a1) (\<lambda>_. None) a1) opts f (k + 1)"
proof -
  obtain i t where a: "inflight a = [(i, t)]" "i < length (infos a)" "ri_originalFuture (infos a ! i) = f"
    "ri_retryCount (infos a ! i) = int k" "ri_options (infos a ! i) = opts"
    and b: "rpcAgentRunning a" "retryMap a = []" "length (attempts a) = k + 1" "f < length (originals a)" "originals a ! f = Pending"
    using assms(1) by (auto simp: trying_def)
  have a1: "a1 = a\<lparr>inflight := [], retryMap := [(t, [i])]\<rparr>"
    using a b assms(2) by (simp add: a1_def complete_attempt_def rpcRetryCallback_def umap_at_def)
  then show "retryMap a1 \<noteq> []" by simp
  have "earliest a1 = t" by (simp add: a1 earliest_def)
  then show "trying (retryExpiredRpcs_round (earliest a1) (\<lambda>_. None) a1) opts f (k + 1)"
    using a b by (simp add: retryExpiredRpcs_round_def a1 umap_at_def resend_def Let_def trying_def)
qed

lemma retry_run_trying:
  assumes "trying a opts f k" and "int k \<le> maxRetries opts"
  defines "n \<equiv> nat (maxRetries opts)"
  shows "let a' = retry_run outs a; m = k + failures outs in
     length (attempts a') = min m n + 1 \<and>
     originals a' ! f = (if m > n then Failed max_retries_text else if failures outs < length outs then Completed else Pending)"
  using assms(1,2)
proof (induction outs arbitrary: a k)
  case Nil
  then show ?case by (auto simp: failures_def trying_def n_def)
next
  case (Cons out outs)
  show ?case
  proof (cases out)
    case None
    have s: "settled (complete_attempt None a) f Completed (k + 1)" by (rule trying_success [OF Cons.prems(1)])
    then have "settled (retry_run (out # outs) a) f Completed (k + 1)"
      using retry_run_settled [OF s] None by (simp add: settled_def)
    then show ?thesis using Cons.prems(2) None by (auto simp: settled_def failures_def n_def)
  next
    case (Some e)
    have fl: "failures (Some e # outs) = Suc (failures outs)" by (simp add: failures_def)
    show ?thesis
    proof (cases "int k = maxRetries opts")
      case True
      have s: "settled (complete_attempt (Some e) a) f (Failed max_retries_text) (k + 1)"
        by (rule trying_last_failure [OF Cons.prems(1) True])
      then have "settled (retry_run (out # outs) a) f (Failed max_retries_text) (k + 1)"
        using retry_run_settled [OF s] Some by (simp add: settled_def)
      then show ?thesis using True fl by (auto simp: settled_def n_def Let_def Some)
    next
      case False
      then have lt: "int k < maxRetries opts" using Cons.prems(2) by simp
      note st = trying_failure [OF Cons.prems(1) lt, of e]
      have "int (k + 1) \<le> maxRetries opts" using lt by simp
      from Cons.IH [OF st(2) this] st(1) show ?thesis by (simp add: Some fl Let_def)
    qed
  qed
qed

section \<open>Property\<close>


definition sample_agent :: "nat rpc_agent" where
  "sample_agent = \<lparr>rpcAgentRunning = True, infos = [], originals = [], retryMap = [], inflight = [], attempts = []\<rparr>"

definition sample_options :: retry_options where
  "sample_options = \<lparr>maxRetries = 2, rpcRetryDuration = 1000, retryBackoff = 3 / 2\<rparr>"


text \<open>
  A retry that waits for its time when the agent is shut down is never sent and its future is never
  set: no attempt is in flight and the retry thread has ended.
\<close>

theorem shutdown_forgets_retries:
  fixes a :: "'m rpc_agent" and e :: string
  assumes "trying a opts f k" and "int k < maxRetries opts"
  defines "a1 \<equiv> shutdown (complete_attempt (Some e) a)"
  shows "originals a1 ! f = Pending \<and> inflight a1 = [] \<and> retryExpiredRpcs_round now throws a1 = a1"
  using assms by (auto simp: trying_def complete_attempt_def rpcRetryCallback_def shutdown_def retryExpiredRpcs_round_def)

end
