(* ===== verification/ProcessGroup_Agent.thy ===== *)
theory ProcessGroup_Agent
  imports Rpc_Wire Rpc_Agent
begin

text \<open>
  \<^verbatim>\<open>ProcessGroupAgent\<close> (\<^verbatim>\<open>rpc/process_group_agent.h/.cpp\<close>): an RPC agent over a process
  group. It keeps the futures of requests that are not answered, indexed by request id and by
  deadline, counts the messages exchanged with every peer, and handles sends and receives in a
  thread pool, whose queue is a list of tasks here. Serialization, the request callback and the
  outcome of process-group operations are arguments. Deadlines are nanoseconds of the steady clock.
\<close>

section \<open>State\<close>

datatype 't jit_future = JPending | JValue "'t message option" | JError string | JTwice

fun jit_complete :: "'t message option \<Rightarrow> 't jit_future \<Rightarrow> 't jit_future" where
  "jit_complete v JPending = JValue v"
| "jit_complete v _ = JTwice"

fun jit_error :: "string \<Rightarrow> 't jit_future \<Rightarrow> 't jit_future" where
  "jit_error e JPending = JError e"
| "jit_error e _ = JTwice"

fun jit_hasError :: "'t jit_future \<Rightarrow> bool" where
  "jit_hasError (JError e) = True"
| "jit_hasError _ = False"

record future_info =
  fi_future :: nat
  fi_endTime :: int
  fi_dstRank :: int
  fi_timeout :: int

datatype 't task =
    Task_self "'t message"
  | Task_send int "'t message"
  | Task_recv int MessageType int string

record 't pg_agent =
  pa_rank :: int
  pa_size :: int
  pa_rpcTimeout :: int
  pa_running :: bool
  nameMap :: "(string, int) umap"
  allWorkerInfo :: "worker_info list"
  sendCounts :: "int list"
  recvCounts :: "int list"
  nextId :: int
  timeoutThreadEnabled :: bool
  futures :: "(int, future_info) umap"
  futureTimeouts :: "(int, int list) umap"
  jits :: "'t jit_future list"
  clientActiveCalls :: int
  serverActiveCalls :: int
  serverActiveAsyncCalls :: int
  asyncCalls :: "(int \<times> int) list"
  listenLoopException :: "string option"
  tasks :: "'t task list"
  pg_sent :: "(int \<times> int list \<times> string) list"
  currentPendingSends :: "(int, string list) umap"
  gilSum :: "64 word"
  gilCount :: "64 word"

definition kInfiniteTimeoutTimePoint :: int where "kInfiniteTimeoutTimePoint = int64_max"

text \<open>\<^verbatim>\<open>MessageCounter::increment\<close>.\<close>

definition increment :: "int \<Rightarrow> int list \<Rightarrow> int list" where
  "increment dst cs = cs[nat dst := cs ! nat dst + 1]"

text \<open>\<^verbatim>\<open>AverageMetricsTracker\<close>, as the exact quotient.\<close>

definition addData :: "64 word \<Rightarrow> 't pg_agent \<Rightarrow> 't pg_agent" where
  "addData x a = a\<lparr>gilSum := gilSum a + x, gilCount := gilCount a + 1\<rparr>"

definition computeAverage :: "'t pg_agent \<Rightarrow> rat" where
  "computeAverage a = (if gilCount a = 0 then 0 else of_nat (unat (gilSum a)) / of_nat (unat (gilCount a)))"

section \<open>Names\<close>

text \<open>\<open>names\<close> are the names gathered from all ranks, in rank order.\<close>

fun collectNames_from :: "int \<Rightarrow> string list \<Rightarrow> (string, int) umap \<Rightarrow> (string, int) umap res" where
  "collectNames_from i [] m = Inr m"
| "collectNames_from i (n # ns) m =
     (if umap_has m n then Inl (C10_error ''RpcAgent name '')
      else collectNames_from (i + 1) ns (AList.update n i m))"

definition collectNames :: "string list \<Rightarrow> (string, int) umap res" where
  "collectNames names = collectNames_from 0 names []"

fun worker_infos :: "int \<Rightarrow> string list \<Rightarrow> worker_info list res" where
  "worker_infos r [] = Inr []"
| "worker_infos r (n # ns) = bindE (WorkerInfo n r) (\<lambda>w. bindE (worker_infos (r + 1) ns) (\<lambda>ws. Inr (w # ws)))"

text \<open>The names in the order of their ranks, as the constructor sorts them out of the map.\<close>

definition names_by_rank :: "nat \<Rightarrow> (string, int) umap \<Rightarrow> string list" where
  "names_by_rank n m = fold (\<lambda>(name, r) xs. xs[nat r := name]) m (replicate n [])"

definition pg_agent_new :: "string \<Rightarrow> int \<Rightarrow> string list \<Rightarrow> int \<Rightarrow> 't pg_agent res" where
  "pg_agent_new workerName rank names timeout =
     bindE (WorkerInfo_int64 workerName rank) (\<lambda>me.
     bindE (collectNames names) (\<lambda>m.
       case map_of m (wi_name me) of
         None \<Rightarrow> Inl (C10_error ''Failed to resolve worker name '')
       | Some r \<Rightarrow>
           if rank \<noteq> r then Inl (C10_error ''Resolved worker rank '')
           else bindE (worker_infos 0 (names_by_rank (length names) m)) (\<lambda>ws.
             Inr \<lparr>pa_rank = rank, pa_size = int (length names), pa_rpcTimeout = timeout, pa_running = False,
               nameMap = m, allWorkerInfo = ws, sendCounts = replicate (length names) 0,
               recvCounts = replicate (length names) 0, nextId = 0, timeoutThreadEnabled = False,
               futures = [], futureTimeouts = [], jits = [], clientActiveCalls = 0, serverActiveCalls = 0,
               serverActiveAsyncCalls = 0, asyncCalls = [], listenLoopException = None, tasks = [],
               pg_sent = [], currentPendingSends = [], gilSum = 0, gilCount = 0\<rparr>)))"

definition getWorkerInfo_name :: "'t pg_agent \<Rightarrow> string \<Rightarrow> worker_info res" where
  "getWorkerInfo_name a n =
     (case map_of (nameMap a) n of
        None \<Rightarrow> Inl (C10_error ''Unknown destination worker '')
      | Some r \<Rightarrow> Inr (allWorkerInfo a ! nat r))"

definition getWorkerInfo :: "'t pg_agent \<Rightarrow> int \<Rightarrow> worker_info res" where
  "getWorkerInfo a i =
     (if 0 \<le> i \<and> i < int (length (allWorkerInfo a)) then Inr (allWorkerInfo a ! nat i)
      else Inl (C10_error ''Invalid destination: ''))"

section \<open>Counting messages\<close>

text \<open>
  \<^verbatim>\<open>hasPendingMessage\<close>: \<open>counts ! r\<close> are the receive and send counts gathered from rank \<open>r\<close>.
\<close>

definition hasPendingMessage :: "(int list \<times> int list) list \<Rightarrow> bool" where
  "hasPendingMessage counts \<longleftrightarrow>
     list_ex (\<lambda>from. list_ex (\<lambda>dest. snd (counts ! from) ! dest \<noteq> fst (counts ! dest) ! from) [0..<length counts])
       [0..<length counts]"

definition snapshot :: "'t pg_agent \<Rightarrow> int list \<times> int list" where
  "snapshot a = (recvCounts a, sendCounts a)"

text \<open>The condition \<^verbatim>\<open>join\<close> waits for after the messages are in step.\<close>

definition join_ready :: "'t pg_agent \<Rightarrow> bool" where
  "join_ready a \<longleftrightarrow> futures a = [] \<and> futureTimeouts a = []"

section \<open>Sending\<close>

definition register_future :: "int \<Rightarrow> future_info \<Rightarrow> 't pg_agent \<Rightarrow> 't pg_agent" where
  "register_future rid fi a = a\<lparr>
     futures := (if umap_has (futures a) rid then futures a else AList.update rid fi (futures a)),
     futureTimeouts := AList.update (fi_endTime fi)
       (List.insert rid (umap_at [] (futureTimeouts a) (fi_endTime fi))) (futureTimeouts a)\<rparr>"

text \<open>
  \<open>timeout\<close> is the time-out in milliseconds passed to the call, \<open>None\<close> when it is unset. The result
  is the index of the future.
\<close>

definition pa_send :: "int \<Rightarrow> int option \<Rightarrow> int \<Rightarrow> 't message \<Rightarrow> ('t pg_agent, nat) cmd" where
  "pa_send now timeout dest msg =
     bindM (getM listenLoopException) (\<lambda>exc.
     bindM (liftM (case exc of Some e \<Rightarrow> Inl (Runtime_error e) | None \<Rightarrow> Inr ())) (\<lambda>_.
     bindM (getM pa_running) (\<lambda>running.
     bindM (checkM running (Runtime_error ''Node '')) (\<lambda>_.
     bindM (getM pa_size) (\<lambda>worldSize.
     bindM (checkM (dest < to_worker_id worldSize) (C10_error ''Destination rank is out of bound, got '')) (\<lambda>_.
     bindM (modifyM (\<lambda>a. a\<lparr>nextId := wrap64 (nextId a + 1)\<rparr>)) (\<lambda>_.
     bindM (getM (\<lambda>a. (nextId a, length (jits a), pa_rpcTimeout a, pa_rank a))) (\<lambda>(rid, fut, dflt, rank).
     bindM (if isRequest msg
            then let ms = (case timeout of None \<Rightarrow> dflt | Some t \<Rightarrow> t);
                     endTime = (if ms = 0 then kInfiniteTimeoutTimePoint else wrap64 (now + ms * 1000000))
                 in modifyM (\<lambda>a. (register_future rid \<lparr>fi_future = fut, fi_endTime = endTime, fi_dstRank = dest, fi_timeout = ms\<rparr> a)
                      \<lparr>jits := jits a @ [JPending], clientActiveCalls := clientActiveCalls a + 1\<rparr>)
            else modifyM (\<lambda>a. a\<lparr>jits := jits a @ [JValue None]\<rparr>)) (\<lambda>_.
     bindM (checkM (0 \<le> dest) Undefined) (\<lambda>_.
     bindM (let msg' = (if isRequest msg then setId rid msg else msg)
            in modifyM (\<lambda>a. a\<lparr>tasks := tasks a @ [if dest = to_worker_id rank then Task_self msg' else Task_send dest msg']\<rparr>)) (\<lambda>_.
     returnM fut)))))))))))"

datatype pg_outcome = Pg_ok | Pg_aborted | Pg_throws string

definition handleSend :: "(string \<Rightarrow> 't list \<Rightarrow> string res) \<Rightarrow> pg_outcome \<Rightarrow> int \<Rightarrow> 't message \<Rightarrow> ('t pg_agent, unit) cmd" where
  "handleSend ser outcome dst msg =
     bindM (liftM (ser (m_payload msg) (m_tensors msg))) (\<lambda>payload.
     bindM (modifyM (\<lambda>a. a\<lparr>sendCounts := increment dst (sendCounts a)\<rparr>)) (\<lambda>_.
     bindM (liftM (case outcome of Pg_throws e \<Rightarrow> Inl (Runtime_error e) | _ \<Rightarrow> Inr ())) (\<lambda>_.
     bindM (modifyM (\<lambda>a. a\<lparr>pg_sent := pg_sent a @ [(dst,
              [pa_rank a, int (length payload), uint (message_code (m_type msg)), m_id msg], payload)],
              currentPendingSends := AList.update dst (payload # umap_at [] (currentPendingSends a) dst) (currentPendingSends a)\<rparr>)) (\<lambda>_.
     bindM (getM pa_running) (\<lambda>running.
       if \<not> running \<or> outcome = Pg_aborted then returnM ()
       else modifyM (\<lambda>a. a\<lparr>currentPendingSends :=
              AList.update dst (remove1 payload (umap_at [] (currentPendingSends a) dst)) (currentPendingSends a)\<rparr>))))))"

section \<open>Completing futures\<close>

text \<open>
  Taking the future of a request out of both maps, the same code in \<^verbatim>\<open>handleRecv\<close> and
  \<^verbatim>\<open>markFutureWithError\<close>. \<open>None\<close>: it is not there any more.
\<close>

definition take_future :: "int \<Rightarrow> ('t pg_agent, future_info option) cmd" where
  "take_future rid =
     bindM (getM (\<lambda>a. map_of (futures a) rid)) (\<lambda>found.
       case found of
         None \<Rightarrow> returnM None
       | Some fi \<Rightarrow>
           bindM (modifyM (\<lambda>a. a\<lparr>futures := AList.delete rid (futures a)\<rparr>)) (\<lambda>_.
           bindM (getM (\<lambda>a. umap_at [] (futureTimeouts a) (fi_endTime fi))) (\<lambda>ids.
           bindM (checkM (rid \<in> set ids) (C10_assert ''Error: could not find future in futureTimeouts map, race condition.'')) (\<lambda>_.
           bindM (modifyM (\<lambda>a. a\<lparr>futureTimeouts :=
                   (if removeAll rid ids = [] then AList.delete (fi_endTime fi) (futureTimeouts a)
                    else AList.update (fi_endTime fi) (removeAll rid ids) (futureTimeouts a))\<rparr>)) (\<lambda>_.
           returnM (Some fi))))))"

definition set_jit :: "nat \<Rightarrow> ('t jit_future \<Rightarrow> 't jit_future) \<Rightarrow> 't pg_agent \<Rightarrow> 't pg_agent" where
  "set_jit f g a = a\<lparr>jits := (jits a)[f := g (jits a ! f)]\<rparr>"

definition finish_call :: "future_info \<Rightarrow> ('t jit_future \<Rightarrow> 't jit_future) \<Rightarrow> 't pg_agent \<Rightarrow> 't pg_agent" where
  "finish_call fi g a = set_jit (fi_future fi) g (a\<lparr>clientActiveCalls := clientActiveCalls a - 1\<rparr>)"

definition markFutureWithError :: "int \<Rightarrow> string \<Rightarrow> ('t pg_agent, unit) cmd" where
  "markFutureWithError rid err =
     bindM (take_future rid) (\<lambda>found.
       case found of
         None \<Rightarrow> returnM ()
       | Some fi \<Rightarrow> modifyM (finish_call fi (jit_error err)))"

definition markFutureWithError_msg :: "'t message \<Rightarrow> ('t pg_agent, unit) cmd" where
  "markFutureWithError_msg msg =
     bindM (checkM (m_type msg = EXCEPTION) (C10_assert ''markFutureWithError should be only called with Message that has type Exception.'')) (\<lambda>_.
     markFutureWithError (m_id msg) (m_payload msg))"

definition exn_text :: "exn \<Rightarrow> string" where
  "exn_text e = (case e of System_error s \<Rightarrow> s | Runtime_error s \<Rightarrow> s | Invalid_argument s \<Rightarrow> s
     | Out_of_range s \<Rightarrow> s | C10_error s \<Rightarrow> s | C10_assert s \<Rightarrow> s | _ \<Rightarrow> [])"

text \<open>The task of \<^verbatim>\<open>enqueueSend\<close>; \<open>outcome2\<close> is the outcome of sending the error along.\<close>

definition run_send_task :: "(string \<Rightarrow> 't list \<Rightarrow> string res) \<Rightarrow> pg_outcome \<Rightarrow> pg_outcome \<Rightarrow> int \<Rightarrow> 't message \<Rightarrow> ('t pg_agent, unit) cmd" where
  "run_send_task ser outcome outcome2 dst msg = (\<lambda>a.
     case handleSend ser outcome dst msg a of
       (Inr u, a') \<Rightarrow> (Inr u, a')
     | (Inl e, a') \<Rightarrow>
         (let exc = createExceptionResponse (''Encountered exception in ProcessGroupAgent::enqueueSend: '' @ exn_text e) (m_id msg)
          in if isRequest msg then markFutureWithError_msg exc a'
             else if isResponse msg then handleSend ser outcome2 dst exc a'
             else (Inr (), a')))"

text \<open>The task of \<^verbatim>\<open>sendToSelf\<close>.\<close>

definition run_self_task :: "(string \<Rightarrow> 't list \<Rightarrow> string res) \<Rightarrow> 't message \<Rightarrow> ('t pg_agent, unit) cmd" where
  "run_self_task ser msg =
     bindM (getM pa_rank) (\<lambda>rank.
       case ser (m_payload msg) (m_tensors msg) of
         Inl e \<Rightarrow> markFutureWithError (m_id msg) (exn_text e)
       | Inr payload \<Rightarrow>
           modifyM (\<lambda>a. a\<lparr>sendCounts := increment rank (sendCounts a),
             tasks := tasks a @ [Task_recv rank (m_type msg) (m_id msg) payload]\<rparr>))"

section \<open>Receiving\<close>

text \<open>What the request callback does: it throws, or gives a future in one of three states.\<close>

datatype 't response = Throws string | Done "'t message" | Fails string | Async

definition respond :: "int \<Rightarrow> int \<Rightarrow> int \<Rightarrow> string + 't message \<Rightarrow> ('t pg_agent, unit) cmd" where
  "respond now from_id rid result =
     bindM (pa_send now None from_id
       (case result of Inr m \<Rightarrow> m | Inl e \<Rightarrow> createExceptionResponse e rid)) (\<lambda>_. returnM ())"

text \<open>\<open>True\<close>: the message counts as received.\<close>

definition handleRecv ::
    "(string \<Rightarrow> (string \<times> 't list) res) \<Rightarrow> ('t message \<Rightarrow> 't response) \<Rightarrow> int \<Rightarrow> int \<Rightarrow> MessageType \<Rightarrow> int \<Rightarrow> string \<Rightarrow> ('t pg_agent, bool) cmd" where
  "handleRecv deser cb now from_id type rid payload =
     bindM (liftM (deser payload)) (\<lambda>(pl, ts).
     let msg = \<lparr>m_payload = pl, m_tensors = ts, m_type = type, m_id = rid\<rparr> in
     if isRequest msg then
       bindM (modifyM (\<lambda>a. a\<lparr>serverActiveCalls := serverActiveCalls a + 1\<rparr>)) (\<lambda>_.
         case cb msg of
           Async \<Rightarrow>
             bindM (modifyM (\<lambda>a. a\<lparr>serverActiveAsyncCalls := serverActiveAsyncCalls a + 1,
               asyncCalls := asyncCalls a @ [(from_id, rid)]\<rparr>)) (\<lambda>_. returnM True)
         | r \<Rightarrow>
             bindM (modifyM (\<lambda>a. a\<lparr>serverActiveCalls := serverActiveCalls a - 1\<rparr>)) (\<lambda>_.
             bindM (respond now from_id rid (case r of Done m \<Rightarrow> Inr m | Throws e \<Rightarrow> Inl e | Fails e \<Rightarrow> Inl e | Async \<Rightarrow> Inl [])) (\<lambda>_.
             returnM True)))
     else if isResponse msg then
       bindM (take_future rid) (\<lambda>found.
         case found of
           None \<Rightarrow> returnM False
         | Some fi \<Rightarrow>
             bindM (modifyM (finish_call fi (if type = EXCEPTION then jit_error pl else jit_complete (Some msg)))) (\<lambda>_.
             returnM True))
     else throwM (C10_assert ''unrecognized message type ''))"

text \<open>The callback that fires when an asynchronous response is ready.\<close>

definition async_done :: "int \<Rightarrow> int \<Rightarrow> int \<Rightarrow> string + 't message \<Rightarrow> ('t pg_agent, unit) cmd" where
  "async_done now from_id rid result =
     bindM (modifyM (\<lambda>a. a\<lparr>serverActiveCalls := serverActiveCalls a - 1,
        serverActiveAsyncCalls := serverActiveAsyncCalls a - 1, asyncCalls := remove1 (from_id, rid) (asyncCalls a)\<rparr>)) (\<lambda>_.
     bindM (getM (\<lambda>a. getWorkerInfo a from_id)) (\<lambda>w.
     bindM (liftM w) (\<lambda>_.
     respond now from_id rid result)))"

text \<open>The task of \<^verbatim>\<open>enqueueRecv\<close>: a failure counts as received.\<close>

definition run_recv_task ::
    "(string \<Rightarrow> (string \<times> 't list) res) \<Rightarrow> ('t message \<Rightarrow> 't response) \<Rightarrow> int \<Rightarrow> int \<Rightarrow> MessageType \<Rightarrow> int \<Rightarrow> string \<Rightarrow> 't pg_agent \<Rightarrow> 't pg_agent" where
  "run_recv_task deser cb now from_id type rid payload a =
     (case handleRecv deser cb now from_id type rid payload a of
        (Inr False, a') \<Rightarrow> a'
      | (_, a') \<Rightarrow> a'\<lparr>recvCounts := increment from_id (recvCounts a')\<rparr>)"

text \<open>
  One turn of \<^verbatim>\<open>listenLoopInternal\<close>: the preamble and the payload that arrived, \<open>None\<close> when a
  receive was aborted. \<open>False\<close> ends the loop. \<open>type_of\<close> is the cast of the number to the enumeration.
\<close>

definition listen_turn ::
    "(int \<Rightarrow> MessageType) \<Rightarrow> (int \<times> int \<times> int \<times> int) option \<Rightarrow> string option \<Rightarrow> ('t pg_agent, bool) cmd" where
  "listen_turn type_of preamble payload =
     bindM (getM pa_running) (\<lambda>running.
       if \<not> running then returnM False
       else case preamble of
         None \<Rightarrow> returnM False
       | Some (srcRank, sz, type, rid) \<Rightarrow>
           (case payload of
              None \<Rightarrow> returnM False
            | Some p \<Rightarrow>
                bindM (getM (\<lambda>a. length (allWorkerInfo a))) (\<lambda>n.
                bindM (checkM (0 \<le> srcRank \<and> srcRank < int n) Undefined) (\<lambda>_.
                bindM (modifyM (\<lambda>a. a\<lparr>tasks := tasks a @ [Task_recv srcRank (type_of type) rid p]\<rparr>)) (\<lambda>_.
                returnM True)))))"

definition listenLoop_fails :: "string \<Rightarrow> 't pg_agent \<Rightarrow> 't pg_agent" where
  "listenLoop_fails err a = a\<lparr>listenLoopException := Some err\<rparr>"

section \<open>Time-outs\<close>

fun time_out_ids :: "int list \<Rightarrow> ('t pg_agent, future_info list) cmd" where
  "time_out_ids [] = returnM []"
| "time_out_ids (i # ids) =
     bindM (getM (\<lambda>a. map_of (futures a) i)) (\<lambda>found.
       case found of
         None \<Rightarrow> throwM (C10_assert ''Race Condition - Expected future does not exist in map'')
       | Some fi \<Rightarrow>
           bindM (modifyM (\<lambda>a. a\<lparr>futures := AList.delete i (futures a)\<rparr>)) (\<lambda>_.
           bindM (time_out_ids ids) (\<lambda>fis.
           returnM (fi # fis))))"

fun time_out_keys :: "int list \<Rightarrow> ('t pg_agent, future_info list) cmd" where
  "time_out_keys [] = returnM []"
| "time_out_keys (e # es) =
     bindM (getM (\<lambda>a. umap_at [] (futureTimeouts a) e)) (\<lambda>ids.
     bindM (time_out_ids ids) (\<lambda>fis.
     bindM (modifyM (\<lambda>a. a\<lparr>futureTimeouts := AList.delete e (futureTimeouts a)\<rparr>)) (\<lambda>_.
     bindM (time_out_keys es) (\<lambda>rest.
     returnM (fis @ rest)))))"

text \<open>The map is ordered by deadline, and the loop stops at the first one that is not reached.\<close>

definition processTimedOutFutures :: "int \<Rightarrow> ('t pg_agent, future_info list) cmd" where
  "processTimedOutFutures now =
     bindM (getM (\<lambda>a. takeWhile (\<lambda>e. \<not> now < e) (sort (map fst (futureTimeouts a))))) time_out_keys"

definition rpc_timeout_text :: "int \<Rightarrow> string" where
  "rpc_timeout_text ms = makeRPCError (''RPC ran for more than set timeout ('' @ to_string ms @ '' ms) and will now be marked with an error'') 1"

fun fail_timed_out :: "future_info list \<Rightarrow> 't pg_agent \<Rightarrow> 't pg_agent" where
  "fail_timed_out [] a = a"
| "fail_timed_out (fi # fis) a =
     (if \<not> jit_hasError (jits a ! fi_future fi)
      then let a' = finish_call fi (jit_error (rpc_timeout_text (fi_timeout fi))) a
           in fail_timed_out fis (a'\<lparr>recvCounts := increment (fi_dstRank fi) (recvCounts a')\<rparr>)
      else fail_timed_out fis a)"

text \<open>
  A turn of \<^verbatim>\<open>pollTimedOutRPCs\<close> at time \<open>now\<close>: the wait ends without a newer deadline, and the
  futures whose deadline has passed fail.
\<close>

definition pollTimedOutRPCs_turn :: "int \<Rightarrow> ('t pg_agent, unit) cmd" where
  "pollTimedOutRPCs_turn now =
     bindM (getM timeoutThreadEnabled) (\<lambda>en.
       if \<not> en then returnM ()
       else bindM (processTimedOutFutures now) (\<lambda>fis. modifyM (fail_timed_out fis)))"

section \<open>Start, shutdown, metrics\<close>

text \<open>\<^verbatim>\<open>RpcAgent::start\<close> and \<^verbatim>\<open>shutdown\<close> set the running flag around the virtual members.\<close>

definition startImpl :: "'t pg_agent \<Rightarrow> 't pg_agent" where
  "startImpl a = a\<lparr>timeoutThreadEnabled := True\<rparr>"

definition pa_start :: "'t pg_agent \<Rightarrow> 't pg_agent" where
  "pa_start a = startImpl (a\<lparr>pa_running := True\<rparr>)"

text \<open>The pending sends are aborted: those that wait for them see \<open>Pg_aborted\<close>.\<close>

definition shutdownImpl :: "'t pg_agent \<Rightarrow> 't pg_agent" where
  "shutdownImpl a = a\<lparr>timeoutThreadEnabled := False\<rparr>"

definition pa_shutdown :: "'t pg_agent \<Rightarrow> 't pg_agent" where
  "pa_shutdown a = shutdownImpl (a\<lparr>pa_running := False\<rparr>)"

definition getMetrics :: "(rat \<Rightarrow> string) \<Rightarrow> bool \<Rightarrow> nat \<Rightarrow> nat \<Rightarrow> 't pg_agent \<Rightarrow> (string, string) umap" where
  "getMetrics show_rat profiling poolSize idle a =
     [(''agent.num_pending_requests'', to_string (int (length (futures a)))),
      (''agent.thread_pool_size'', to_string (int poolSize)),
      (''agent.num_idle_threads'', to_string (int idle)),
      (''agent.client_active_calls'', to_string (clientActiveCalls a)),
      (''agent.server_active_calls'', to_string (serverActiveCalls a)),
      (''agent.server_active_async_calls'', to_string (serverActiveAsyncCalls a))] @
     (if profiling then [(''agent.gil_average_wait_time_us'', show_rat (computeAverage a))] else [])"

section \<open>Invariant of the pending calls\<close>

text \<open>
  The two maps describe the same set of requests, and every pending request has a future of its own
  that has not been set. \<open>extra\<close> are calls already taken out of the maps whose futures are about to
  be set.
\<close>

definition tables_inv :: "'t pg_agent \<Rightarrow> bool" where
  "tables_inv a \<longleftrightarrow> umap_wf (futures a) \<and> umap_wf (futureTimeouts a) \<and>
     (\<forall>e ids. map_of (futureTimeouts a) e = Some ids \<longrightarrow> ids \<noteq> [] \<and> distinct ids) \<and>
     (\<forall>i e. (\<exists>fi. map_of (futures a) i = Some fi \<and> fi_endTime fi = e) \<longleftrightarrow> i \<in> set (umap_at [] (futureTimeouts a) e)) \<and>
     (\<forall>i fi. map_of (futures a) i = Some fi \<longrightarrow> i \<le> nextId a)"

definition calls_inv :: "future_info list \<Rightarrow> 't pg_agent \<Rightarrow> bool" where
  "calls_inv extra a \<longleftrightarrow> distinct (map fi_future (map snd (futures a) @ extra)) \<and>
     (\<forall>fi\<in>set (map snd (futures a) @ extra). fi_future fi < length (jits a) \<and> jits a ! fi_future fi = JPending) \<and>
     JTwice \<notin> set (jits a) \<and> clientActiveCalls a = int (length (futures a) + length extra)"

lemma tables_invD:
  assumes "tables_inv a"
  shows "umap_wf (futures a)" and "umap_wf (futureTimeouts a)"
    and "map_of (futureTimeouts a) e = Some ids \<Longrightarrow> ids \<noteq> [] \<and> distinct ids"
    and "(\<exists>fi. map_of (futures a) i = Some fi \<and> fi_endTime fi = e) \<longleftrightarrow> i \<in> set (umap_at [] (futureTimeouts a) e)"
    and "map_of (futures a) i = Some fi \<Longrightarrow> i \<le> nextId a"
  using assms unfolding tables_inv_def by blast+

lemma tables_invI:
  assumes "umap_wf (futures a)" and "umap_wf (futureTimeouts a)"
    and "\<And>e ids. map_of (futureTimeouts a) e = Some ids \<Longrightarrow> ids \<noteq> [] \<and> distinct ids"
    and "\<And>i e. (\<exists>fi. map_of (futures a) i = Some fi \<and> fi_endTime fi = e) \<longleftrightarrow> i \<in> set (umap_at [] (futureTimeouts a) e)"
    and "\<And>i fi. map_of (futures a) i = Some fi \<Longrightarrow> i \<le> nextId a"
  shows "tables_inv a"
  using assms unfolding tables_inv_def by blast

lemma tables_inv_cong:
  assumes t: "tables_inv a" and eq: "futures a' = futures a" "futureTimeouts a' = futureTimeouts a" "nextId a \<le> nextId a'"
  shows "tables_inv a'"
proof (rule tables_invI, unfold eq(1,2))
  fix i fi
  assume "map_of (futures a) i = Some fi"
  then show "i \<le> nextId a'" using tables_invD(5) [OF t] eq(3) by fastforce
qed (rule tables_invD [OF t], assumption?)+

lemma calls_inv_cong:
  assumes "calls_inv extra a" "futures a' = futures a" "jits a' = jits a" "clientActiveCalls a' = clientActiveCalls a"
  shows "calls_inv extra a'"
  using assms(1) unfolding calls_inv_def assms(2-4) .

lemma insert_ne [simp]: "List.insert x xs \<noteq> []"
  by (auto simp: List.insert_def)

lemma distinct_timeouts: "tables_inv a \<Longrightarrow> distinct (umap_at [] (futureTimeouts a) e)"
  using tables_invD(3) [of a e] by (cases "map_of (futureTimeouts a) e") (simp_all add: umap_at_def)

lemma umap_update_append: "map_of m k = None \<Longrightarrow> AList.update k v m = m @ [(k, v)]"
  by (induction m) (auto split: if_splits)

lemma umap_delete_mset:
  "umap_wf m \<Longrightarrow> map_of m k = Some v \<Longrightarrow> mset m = add_mset (k, v) (mset (AList.delete k m))"
proof (induction m)
  case Nil
  then show ?case by simp
next
  case (Cons p m)
  obtain k' v' where p: "p = (k', v')" by (cases p)
  show ?case
  proof (cases "k' = k")
    case True
    then have "k \<notin> fst ` set m" using Cons.prems(1) p by (simp add: umap_wf_def)
    then show ?thesis using True Cons.prems(2) p by (simp add: delete_id)
  next
    case False
    then show ?thesis using Cons p by (simp add: umap_wf_def)
  qed
qed

lemma calls_inv_take:
  assumes inv: "calls_inv extra a" and wf: "umap_wf (futures a)" and fi: "map_of (futures a) i = Some fi"
  shows "calls_inv (fi # extra) (a\<lparr>futures := AList.delete i (futures a)\<rparr>)"
proof -
  have ms: "mset (futures a) = add_mset (i, fi) (mset (AList.delete i (futures a)))" by (rule umap_delete_mset [OF wf fi])
  let ?l = "map snd (futures a) @ extra" and ?l' = "map snd (AList.delete i (futures a)) @ fi # extra"
  have perm: "mset ?l = mset ?l'" using arg_cong [OF ms, of "image_mset snd"] by simp
  then have st: "set ?l = set ?l'" by (rule mset_eq_setD)
  have ds: "distinct (map fi_future ?l) \<longleftrightarrow> distinct (map fi_future ?l')"
    using perm by (metis mset_map mset_eq_imp_distinct_iff)
  have "length (futures a) = Suc (length (AList.delete i (futures a)))"
    using arg_cong [OF ms, of size] by simp
  with inv st ds show ?thesis unfolding calls_inv_def by simp
qed

lemma calls_inv_perm: "mset extra = mset extra' \<Longrightarrow> calls_inv extra a = calls_inv extra' a"
proof -
  assume m: "mset extra = mset extra'"
  let ?l = "map snd (futures a) @ extra" and ?l' = "map snd (futures a) @ extra'"
  have perm: "mset ?l = mset ?l'" using m by simp
  then have "set ?l = set ?l'" by (rule mset_eq_setD)
  moreover have "distinct (map fi_future ?l) \<longleftrightarrow> distinct (map fi_future ?l')"
    using perm by (metis mset_map mset_eq_imp_distinct_iff)
  moreover have "length extra = length extra'" using m by (rule mset_eq_length)
  ultimately show ?thesis unfolding calls_inv_def by simp
qed

lemma calls_inv_finish:
  assumes "calls_inv (fi # extra) a" and "g JPending \<noteq> JTwice" 
  shows "calls_inv extra (finish_call fi g a)"
proof -
  have "fi_future fi < length (jits a)" "jits a ! fi_future fi = JPending" using assms(1) by (auto simp: calls_inv_def)
  moreover have "JTwice \<notin> set ((jits a)[fi_future fi := g (jits a ! fi_future fi)])"
    using assms calculation by (auto simp: calls_inv_def dest: set_update_subset_insert [THEN subsetD])
  ultimately show ?thesis
    using assms(1) by (auto simp: calls_inv_def finish_call_def set_jit_def nth_list_update)
qed

lemma finish_call_frame [simp]:
  "futures (finish_call fi g a) = futures a" "futureTimeouts (finish_call fi g a) = futureTimeouts a"
  "nextId (finish_call fi g a) = nextId a"
  by (simp_all add: finish_call_def set_jit_def)

lemma take_future_ok:
  assumes t: "tables_inv a" and c: "calls_inv extra a"
  shows "(map_of (futures a) i = None \<and> take_future i a = (Inr None, a)) \<or>
    (\<exists>fi a'. map_of (futures a) i = Some fi \<and> take_future i a = (Inr (Some fi), a') \<and> tables_inv a' \<and> calls_inv (fi # extra) a'
      \<and> nextId a' = nextId a)"
proof (cases "map_of (futures a) i")
  case None
  then show ?thesis by (simp add: take_future_def bindM_def)
next
  case (Some fi)
  let ?e = "fi_endTime fi" and ?ids = "umap_at [] (futureTimeouts a) (fi_endTime fi)"
  let ?fs = "AList.delete i (futures a)"
  let ?ts = "if removeAll i ?ids = [] then AList.delete ?e (futureTimeouts a) else AList.update ?e (removeAll i ?ids) (futureTimeouts a)"
  have corr: "\<And>j e. (\<exists>fi. map_of (futures a) j = Some fi \<and> fi_endTime fi = e) \<longleftrightarrow> j \<in> set (umap_at [] (futureTimeouts a) e)"
    by (rule tables_invD(4) [OF t])
  have mem: "i \<in> set ?ids" using Some corr by blast
  have tk: "take_future i a = (Inr (Some fi), a\<lparr>futures := ?fs, futureTimeouts := ?ts\<rparr>)"
    using Some mem by (simp add: take_future_def bindM_def)
  have at: "umap_at [] ?ts e = (if e = ?e then removeAll i ?ids else umap_at [] (futureTimeouts a) e)" for e
    by (auto simp: umap_at_def)
  have "tables_inv (a\<lparr>futures := ?fs, futureTimeouts := ?ts\<rparr>)"
  proof (rule tables_invI, goal_cases)
    case 1
    show ?case using tables_invD(1) [OF t] by simp
  next
    case 2
    show ?case using tables_invD(2) [OF t] by simp
  next
    case (3 e ids)
    show ?case
    proof (cases "e = ?e")
      case True
      with 3 distinct_timeouts [OF t, of ?e] show ?thesis by (auto split: if_splits simp: distinct_removeAll)
    next
      case False
      with 3 have "map_of (futureTimeouts a) e = Some ids" by (simp split: if_splits)
      then show ?thesis by (rule tables_invD(3) [OF t])
    qed
  next
    case (4 j e)
    have "(\<exists>fi'. map_of ?fs j = Some fi' \<and> fi_endTime fi' = e) \<longleftrightarrow> j \<in> set (umap_at [] ?ts e)"
      unfolding at using corr [of j e] Some by auto
    then show ?case by simp
  next
    case (5 j fi')
    then have "map_of (futures a) j = Some fi'" by (simp split: if_splits)
    then show ?case using tables_invD(5) [OF t] by simp
  qed
  moreover have "calls_inv (fi # extra) (a\<lparr>futures := ?fs, futureTimeouts := ?ts\<rparr>)"
    using calls_inv_take [OF c tables_invD(1) [OF t] Some] by (simp add: calls_inv_def)
  ultimately show ?thesis using Some tk by simp
qed

lemma register_ok:
  assumes t: "tables_inv a" and c: "calls_inv [] a" and rid: "nextId a < rid" and fut: "fi_future fi = length (jits a)"
  defines "a' \<equiv> (register_future rid fi (a\<lparr>nextId := rid\<rparr>))\<lparr>jits := jits a @ [JPending], clientActiveCalls := clientActiveCalls a + 1\<rparr>"
  shows "tables_inv a'" and "calls_inv [] a'"
proof -
  have new: "map_of (futures a) rid = None" using tables_invD(5) [OF t, of rid] rid by (cases "map_of (futures a) rid") auto
  let ?fs = "AList.update rid fi (futures a)" and ?ids = "umap_at [] (futureTimeouts a) (fi_endTime fi)"
  let ?ts = "AList.update (fi_endTime fi) (List.insert rid ?ids) (futureTimeouts a)"
  have a': "futures a' = ?fs" "futureTimeouts a' = ?ts" "nextId a' = rid" "jits a' = jits a @ [JPending]"
    "clientActiveCalls a' = clientActiveCalls a + 1"
    using new by (simp_all add: a'_def register_future_def)
  show "tables_inv a'"
  proof (rule tables_invI, unfold a', goal_cases)
    case 1
    show ?case using tables_invD(1) [OF t] by simp
  next
    case 2
    show ?case using tables_invD(2) [OF t] by simp
  next
    case (3 e ids)
    then show ?case
      using distinct_timeouts [OF t, of "fi_endTime fi"] tables_invD(3) [OF t, of e ids] by (auto split: if_splits)
  next
    case (4 j e)
    have "rid \<notin> set (umap_at [] (futureTimeouts a) e)" using tables_invD(4) [OF t, of rid e] new by simp
    then show ?case using tables_invD(4) [OF t, of j e] new by (auto split: if_splits)
  next
    case (5 j fi')
    then show ?case using tables_invD(5) [OF t, of j fi'] rid by (auto split: if_splits)
  qed
  have "AList.update rid fi (futures a) = futures a @ [(rid, fi)]"
    by (rule umap_update_append [OF new])
  then show "calls_inv [] a'"
    using c fut unfolding calls_inv_def a' by (auto simp: nth_append)
qed

lemma time_out_ids_ok:
  assumes "umap_wf (futures a)" and "distinct ids" and "set ids \<subseteq> dom (map_of (futures a))" and "calls_inv extra a"
  shows "\<exists>fis fs'. time_out_ids ids a = (Inr fis, a\<lparr>futures := fs'\<rparr>) \<and> umap_wf fs' \<and>
    map_of fs' = (map_of (futures a)) |` (- set ids) \<and> calls_inv (fis @ extra) (a\<lparr>futures := fs'\<rparr>)"
  using assms
proof (induction ids arbitrary: a extra)
  case Nil
  show ?case
  proof (rule exI [of _ "[]"], rule exI [of _ "futures a"], intro conjI)
    show "umap_wf (futures a)" by (rule Nil)
    show "calls_inv ([] @ extra) (a\<lparr>futures := futures a\<rparr>)" using Nil(4) by simp
  qed simp_all
next
  case (Cons i ids)
  obtain fi where fi: "map_of (futures a) i = Some fi" using Cons.prems(3) by auto
  let ?a = "a\<lparr>futures := AList.delete i (futures a)\<rparr>"
  have c: "calls_inv (fi # extra) ?a" by (rule calls_inv_take [OF Cons.prems(4,1) fi])
  obtain fis fs' where IH: "time_out_ids ids ?a = (Inr fis, ?a\<lparr>futures := fs'\<rparr>)" "umap_wf fs'"
    "map_of fs' = (map_of (futures ?a)) |` (- set ids)" "calls_inv (fis @ fi # extra) (?a\<lparr>futures := fs'\<rparr>)"
  proof -
    have "umap_wf (futures ?a)" "distinct ids" "set ids \<subseteq> dom (map_of (futures ?a))"
      using Cons.prems(1-3) by (auto simp: dom_def)
    from Cons.IH [OF this c] show thesis using that by blast
  qed
  have "calls_inv ((fi # fis) @ extra) (a\<lparr>futures := fs'\<rparr>)"
  proof (rule iffD1 [OF calls_inv_perm])
    show "calls_inv (fis @ fi # extra) (a\<lparr>futures := fs'\<rparr>)" using IH(4) by simp
  qed simp
  moreover have "map_of fs' = (map_of (futures a)) |` (- set (i # ids))"
    using IH(3) by (auto simp: restrict_map_def)
  moreover have "time_out_ids (i # ids) a = (Inr (fi # fis), a\<lparr>futures := fs'\<rparr>)"
    using fi IH(1) by (simp add: bindM_def)
  ultimately show ?case using IH(2) by blast
qed

lemma time_out_keys_ok:
  assumes "tables_inv a" and "calls_inv extra a"
  shows "\<exists>fis fs' ts'. time_out_keys es a = (Inr fis, a\<lparr>futures := fs', futureTimeouts := ts'\<rparr>) \<and>
    tables_inv (a\<lparr>futures := fs', futureTimeouts := ts'\<rparr>) \<and> calls_inv (fis @ extra) (a\<lparr>futures := fs', futureTimeouts := ts'\<rparr>)"
  using assms
proof (induction es arbitrary: a extra)
  case Nil
  show ?case
  proof (rule exI [of _ "[]"], rule exI [of _ "futures a"], rule exI [of _ "futureTimeouts a"], intro conjI)
    show "tables_inv (a\<lparr>futures := futures a, futureTimeouts := futureTimeouts a\<rparr>)" using Nil(1) by simp
    show "calls_inv ([] @ extra) (a\<lparr>futures := futures a, futureTimeouts := futureTimeouts a\<rparr>)" using Nil(2) by simp
  qed simp
next
  case (Cons e es)
  note t = Cons.prems(1)
  let ?ids = "umap_at [] (futureTimeouts a) e"
  have dom: "set ?ids \<subseteq> dom (map_of (futures a))" using tables_invD(4) [OF t, of _ e] by blast
  obtain fis fs' where ids: "time_out_ids ?ids a = (Inr fis, a\<lparr>futures := fs'\<rparr>)" "umap_wf fs'"
    "map_of fs' = (map_of (futures a)) |` (- set ?ids)" "calls_inv (fis @ extra) (a\<lparr>futures := fs'\<rparr>)"
    using time_out_ids_ok [OF tables_invD(1) [OF t] distinct_timeouts [OF t] dom Cons.prems(2)] by blast
  let ?a = "a\<lparr>futures := fs', futureTimeouts := AList.delete e (futureTimeouts a)\<rparr>"
  have at: "umap_at [] (AList.delete e (futureTimeouts a)) e' = (if e' = e then [] else umap_at [] (futureTimeouts a) e')" for e'
    by (simp add: umap_at_def)
  have "tables_inv ?a"
  proof (rule tables_invI, goal_cases)
    case 1
    show ?case using ids(2) by simp
  next
    case 2
    show ?case using tables_invD(2) [OF t] by simp
  next
    case (3 e' ids')
    then show ?case using tables_invD(3) [OF t, of e' ids'] by (simp split: if_splits)
  next
    case (4 j e')
    show ?case
      using tables_invD(4) [OF t, of j e'] tables_invD(4) [OF t, of j e]
      by (auto simp: ids(3) at restrict_map_def)
  next
    case (5 j fi)
    then have "map_of (futures a) j = Some fi" by (simp add: ids(3) restrict_map_def split: if_splits)
    then show ?case using tables_invD(5) [OF t] by simp
  qed
  moreover have "calls_inv (fis @ extra) ?a" using ids(4) by (simp add: calls_inv_def)
  ultimately obtain fis2 fs2 ts2 where IH: "time_out_keys es ?a = (Inr fis2, ?a\<lparr>futures := fs2, futureTimeouts := ts2\<rparr>)"
    "tables_inv (?a\<lparr>futures := fs2, futureTimeouts := ts2\<rparr>)" "calls_inv (fis2 @ fis @ extra) (?a\<lparr>futures := fs2, futureTimeouts := ts2\<rparr>)"
    using Cons.IH by blast
  have "calls_inv ((fis @ fis2) @ extra) (a\<lparr>futures := fs2, futureTimeouts := ts2\<rparr>)"
  proof (rule iffD1 [OF calls_inv_perm])
    show "calls_inv (fis2 @ fis @ extra) (a\<lparr>futures := fs2, futureTimeouts := ts2\<rparr>)" using IH(3) by simp
  qed simp
  moreover have "time_out_keys (e # es) a = (Inr (fis @ fis2), a\<lparr>futures := fs2, futureTimeouts := ts2\<rparr>)"
    using ids(1) IH(1) by (simp add: bindM_def)
  ultimately show ?case using IH(2) by auto
qed

lemma fail_timed_out_ok:
  "tables_inv a \<Longrightarrow> calls_inv fis a \<Longrightarrow> tables_inv (fail_timed_out fis a) \<and> calls_inv [] (fail_timed_out fis a)"
proof (induction fis arbitrary: a)
  case Nil
  then show ?case by simp
next
  case (Cons fi fis)
  let ?b = "finish_call fi (jit_error (rpc_timeout_text (fi_timeout fi))) a"
  let ?c = "?b\<lparr>recvCounts := increment (fi_dstRank fi) (recvCounts ?b)\<rparr>"
  have "jits a ! fi_future fi = JPending" using Cons.prems(2) by (simp add: calls_inv_def)
  moreover have "calls_inv fis ?b" by (rule calls_inv_finish [OF Cons.prems(2)]) simp
  then have "calls_inv fis ?c" by (rule calls_inv_cong) simp_all
  moreover have "tables_inv ?c" by (rule tables_inv_cong [OF Cons.prems(1)]) simp_all
  ultimately show ?case using Cons.IH [of ?c] by (simp add: Let_def)
qed

section \<open>The operations keep the invariant\<close>

definition agent_inv :: "'t pg_agent \<Rightarrow> bool" where
  "agent_inv a \<longleftrightarrow> tables_inv a \<and> calls_inv [] a \<and> 0 \<le> nextId a"

definition core where
  "core a = (futures a, futureTimeouts a, jits a, clientActiveCalls a, nextId a)"

lemma agent_inv_core: "agent_inv a \<Longrightarrow> core a' = core a \<Longrightarrow> agent_inv a'"
  unfolding agent_inv_def core_def
  by (metis calls_inv_cong order_refl prod.inject tables_inv_cong)

lemma agent_inv_keepsM: "agent_inv a \<Longrightarrow> keepsM core m \<Longrightarrow> agent_inv (snd (m a))"
  by (rule agent_inv_core) (simp_all add: keepsM_def)

lemma keepsM_handleSend: "keepsM core (handleSend ser outcome dst msg)"
  unfolding handleSend_def
  by (intro keepsM_bind keepsM_I keepsM_modify keepsM_if) (simp_all add: core_def)

lemma markFutureWithError_ok:
  assumes "agent_inv a"
  shows "fst (markFutureWithError i err a) = Inr ()" and "agent_inv (snd (markFutureWithError i err a))"
    and "nextId (snd (markFutureWithError i err a)) = nextId a"
proof -
  have t: "tables_inv a" and c: "calls_inv [] a" and n: "0 \<le> nextId a" using assms by (simp_all add: agent_inv_def)
  from take_future_ok [OF t c, of i]
  have "fst (markFutureWithError i err a) = Inr () \<and> agent_inv (snd (markFutureWithError i err a))
    \<and> nextId (snd (markFutureWithError i err a)) = nextId a"
  proof (elim disjE exE conjE)
    assume "take_future i a = (Inr None, a)"
    then show ?thesis using assms by (simp add: markFutureWithError_def bindM_def)
  next
    fix fi a'
    assume tk: "take_future i a = (Inr (Some fi), a')" and t': "tables_inv a'" and c': "calls_inv [fi] a'" and n': "nextId a' = nextId a"
    have "calls_inv [] (finish_call fi (jit_error err) a')" by (rule calls_inv_finish [OF c']) simp
    moreover have "tables_inv (finish_call fi (jit_error err) a')" by (rule tables_inv_cong [OF t']) simp_all
    ultimately show ?thesis using tk n n' by (simp add: markFutureWithError_def bindM_def agent_inv_def)
  qed
  then show "fst (markFutureWithError i err a) = Inr ()" and "agent_inv (snd (markFutureWithError i err a))"
    and "nextId (snd (markFutureWithError i err a)) = nextId a" by simp_all
qed

lemma pa_send_state:
  "snd (pa_send now timeout dest msg a) = a \<or>
   (let a1 = a\<lparr>nextId := wrap64 (nextId a + 1)\<rparr>;
        ms = (case timeout of None \<Rightarrow> pa_rpcTimeout a | Some t \<Rightarrow> t);
        endTime = (if ms = 0 then kInfiniteTimeoutTimePoint else wrap64 (now + ms * 1000000));
        fi = \<lparr>fi_future = length (jits a), fi_endTime = endTime, fi_dstRank = dest, fi_timeout = ms\<rparr>;
        a2 = (if isRequest msg
              then (register_future (wrap64 (nextId a + 1)) fi a1)\<lparr>jits := jits a @ [JPending], clientActiveCalls := clientActiveCalls a + 1\<rparr>
              else a1\<lparr>jits := jits a @ [JValue None]\<rparr>)
    in core (snd (pa_send now timeout dest msg a)) = core a2)"
  by (simp add: pa_send_def bindM_def Let_def core_def register_future_def split: option.split)

lemma pa_send_ok:
  assumes inv: "agent_inv a" and n: "nextId a < int64_max"
  shows "agent_inv (snd (pa_send now timeout dest msg a))"
proof -
  let ?r = "nextId a + 1"
  have w: "wrap64 (nextId a + 1) = ?r" using inv n by (intro wrap64_Suc) (simp_all add: agent_inv_def)
  have t: "tables_inv a" and c: "calls_inv [] a" and n0: "0 \<le> nextId a" using inv by (simp_all add: agent_inv_def)
  have req: "agent_inv ((register_future ?r fi (a\<lparr>nextId := ?r\<rparr>))\<lparr>jits := jits a @ [JPending], clientActiveCalls := clientActiveCalls a + 1\<rparr>)"
    if "fi_future fi = length (jits a)" for fi
    using register_ok [OF t c _ that, of ?r] n0 by (simp add: agent_inv_def register_future_def)
  have other: "agent_inv (a\<lparr>nextId := ?r, jits := jits a @ [JValue None]\<rparr>)"
  proof -
    have "tables_inv (a\<lparr>nextId := ?r, jits := jits a @ [JValue None]\<rparr>)" by (rule tables_inv_cong [OF t]) simp_all
    moreover have "calls_inv [] (a\<lparr>nextId := ?r, jits := jits a @ [JValue None]\<rparr>)"
      using c by (auto simp: calls_inv_def nth_append)
    ultimately show ?thesis using n0 by (simp add: agent_inv_def)
  qed
  from pa_send_state [of now timeout dest msg a] show ?thesis
  proof
    assume "snd (pa_send now timeout dest msg a) = a"
    then show ?thesis using inv by simp
  next
    assume A: "let a1 = a\<lparr>nextId := wrap64 (nextId a + 1)\<rparr>;
        ms = (case timeout of None \<Rightarrow> pa_rpcTimeout a | Some t \<Rightarrow> t);
        endTime = (if ms = 0 then kInfiniteTimeoutTimePoint else wrap64 (now + ms * 1000000));
        fi = \<lparr>fi_future = length (jits a), fi_endTime = endTime, fi_dstRank = dest, fi_timeout = ms\<rparr>;
        a2 = (if isRequest msg
              then (register_future (wrap64 (nextId a + 1)) fi a1)\<lparr>jits := jits a @ [JPending], clientActiveCalls := clientActiveCalls a + 1\<rparr>
              else a1\<lparr>jits := jits a @ [JValue None]\<rparr>)
      in core (snd (pa_send now timeout dest msg a)) = core a2"
    show ?thesis
    proof (cases "isRequest msg")
      case True
      obtain fi where "fi_future fi = length (jits a)" and "core (snd (pa_send now timeout dest msg a)) =
          core ((register_future ?r fi (a\<lparr>nextId := ?r\<rparr>))\<lparr>jits := jits a @ [JPending], clientActiveCalls := clientActiveCalls a + 1\<rparr>)"
        by (rule that [OF _ A [unfolded Let_def w if_P [OF True]]]) simp
      then show ?thesis using agent_inv_core [OF req] by blast
    next
      case False
      then show ?thesis by (intro agent_inv_core [OF other] A [unfolded Let_def w if_not_P [OF False]])
    qed
  qed
qed

lemma pa_send_nextId: "agent_inv a \<Longrightarrow> nextId a < int64_max \<Longrightarrow> nextId (snd (pa_send now timeout dest msg a)) \<le> nextId a + 1"
  using wrap64_Suc [of "nextId a"] by (simp add: agent_inv_def pa_send_def bindM_def register_future_def Let_def split: option.split)

lemma respond_ok:
  assumes "agent_inv a" and "nextId a < int64_max"
  shows "agent_inv (snd (respond now from_id rid res a))"
  using pa_send_ok [OF assms] unfolding respond_def bindM_def by (auto split: prod.split sum.split) (metis snd_conv)+

lemma handle_request_ok:
  assumes "agent_inv a" and "nextId a < int64_max" and "core b = core a"
  shows "agent_inv (snd (bindM (respond now from_id rid res) (\<lambda>_. returnM True) b))"
proof -
  have "agent_inv b" "nextId b < int64_max"
    using assms agent_inv_core [OF assms(1,3)] by (simp_all add: core_def)
  from respond_ok [OF this, of now from_id rid res] show ?thesis
    by (auto simp: bindM_def split: prod.split sum.split)
qed

lemma handle_response_ok:
  fixes a :: "'t pg_agent" and rid :: int
  assumes "agent_inv a" and "g JPending \<noteq> JTwice"
  defines "m \<equiv> bindM (take_future rid) (\<lambda>found. case found of None \<Rightarrow> returnM False
     | Some fi \<Rightarrow> bindM (modifyM (finish_call fi g)) (\<lambda>_. returnM True))"
  shows "\<exists>b. fst (m a) = Inr b" and "agent_inv (snd (m a))"
proof -
  have t: "tables_inv a" and c: "calls_inv [] a" and n: "0 \<le> nextId a" using assms(1) by (simp_all add: agent_inv_def)
  from take_future_ok [OF t c, of rid] have "(\<exists>b. fst (m a) = Inr b) \<and> agent_inv (snd (m a))"
  proof (elim disjE exE conjE)
    assume "take_future rid a = (Inr None, a)"
    then show ?thesis using assms(1) by (auto simp: m_def bindM_def)
  next
    fix fi a'
    assume tk: "take_future rid a = (Inr (Some fi), a')" and t': "tables_inv a'" and c': "calls_inv [fi] a'" and n': "nextId a' = nextId a"
    have "calls_inv [] (finish_call fi g a')" by (rule calls_inv_finish [where g = g, OF c' assms(2)])
    moreover have "tables_inv (finish_call fi g a')" by (rule tables_inv_cong [OF t']) simp_all
    ultimately show ?thesis using tk n n' by (auto simp: m_def bindM_def agent_inv_def)
  qed
  then show "\<exists>b. fst (m a) = Inr b" and "agent_inv (snd (m a))" by simp_all
qed

lemma handleRecv_ok:
  assumes inv: "agent_inv a" and n: "nextId a < int64_max"
  shows "agent_inv (snd (handleRecv deser cb now from_id type rid payload a))"
proof (cases "deser payload")
  case (Inl e)
  then show ?thesis using inv by (simp add: handleRecv_def bindM_def)
next
  case (Inr r)
  obtain pl ts where r: "r = (pl, ts)" by (cases r)
  let ?m = "\<lparr>m_payload = pl, m_tensors = ts, m_type = type, m_id = rid\<rparr>"
  let ?b = "a\<lparr>serverActiveCalls := serverActiveCalls a + 1\<rparr>"
  let ?b' = "?b\<lparr>serverActiveCalls := serverActiveCalls ?b - 1\<rparr>"
  consider (req) "isRequest ?m" | (resp) "\<not> isRequest ?m" "isResponse ?m" | (neither) "\<not> isRequest ?m" "\<not> isResponse ?m" by blast
  then show ?thesis
  proof cases
    case req
    have c: "core ?b' = core a" by (simp add: core_def)
    note go = handle_request_ok [OF inv n c, of now from_id rid]
    show ?thesis
    proof (cases "cb ?m")
      case Async
      have "core (?b\<lparr>serverActiveAsyncCalls := serverActiveAsyncCalls ?b + 1, asyncCalls := asyncCalls ?b @ [(from_id, rid)]\<rparr>) = core a"
        by (simp add: core_def)
      from agent_inv_core [OF inv this] show ?thesis using req Async
        by (simp add: handleRecv_def bindM_def Inr r Let_def)
    qed (use req go in \<open>simp_all add: handleRecv_def Inr r Let_def bindM_Inr\<close>)
  next
    case resp
    let ?g = "if type = EXCEPTION then jit_error pl else jit_complete (Some ?m)"
    have g: "?g JPending \<noteq> JTwice" by simp
    from handle_response_ok(2) [where g = ?g, OF inv g, of rid] show ?thesis
      using resp by (simp add: handleRecv_def Inr r Let_def bindM_Inr)
  next
    case neither
    then show ?thesis using inv by (simp add: handleRecv_def Inr r Let_def bindM_Inr)
  qed
qed

lemma poll_ok:
  assumes inv: "agent_inv a"
  shows "fst (pollTimedOutRPCs_turn now a) = Inr ()" and "agent_inv (snd (pollTimedOutRPCs_turn now a))"
proof -
  let ?es = "takeWhile (\<lambda>e. \<not> now < e) (sort (map fst (futureTimeouts a)))"
  have t: "tables_inv a" and c: "calls_inv [] a" and n0: "0 \<le> nextId a" using inv by (simp_all add: agent_inv_def)
  obtain fis fs' ts' where k: "time_out_keys ?es a = (Inr fis, a\<lparr>futures := fs', futureTimeouts := ts'\<rparr>)"
    "tables_inv (a\<lparr>futures := fs', futureTimeouts := ts'\<rparr>)" "calls_inv (fis @ []) (a\<lparr>futures := fs', futureTimeouts := ts'\<rparr>)"
    using time_out_keys_ok [OF t c] by blast
  have nx: "nextId (fail_timed_out fis b) = nextId b" for fis and b :: "'a pg_agent"
    by (induction fis arbitrary: b) (simp_all add: Let_def)
  have "agent_inv (fail_timed_out fis (a\<lparr>futures := fs', futureTimeouts := ts'\<rparr>))"
    using fail_timed_out_ok [OF k(2), of fis] k(3) n0 nx by (simp add: agent_inv_def)
  then show "fst (pollTimedOutRPCs_turn now a) = Inr ()" and "agent_inv (snd (pollTimedOutRPCs_turn now a))"
    using inv k(1) by (simp_all add: pollTimedOutRPCs_turn_def processTimedOutFutures_def bindM_def)
qed

lemma run_send_task_ok:
  assumes "agent_inv a"
  shows "agent_inv (snd (run_send_task ser o1 o2 dst msg a))"
proof -
  have h: "agent_inv (snd (handleSend ser o' dst m b))" if "agent_inv b" for o' m b
    by (rule agent_inv_keepsM [OF that keepsM_handleSend])
  obtain res a' where r: "handleSend ser o1 dst msg a = (res, a')" by (cases "handleSend ser o1 dst msg a")
  then have a': "agent_inv a'" using h [OF assms, of o1 msg] by simp
  show ?thesis
  proof (cases res)
    case (Inl e)
    then show ?thesis
      using r a' h [OF a', of o2] markFutureWithError_ok(2) [OF a']
      by (simp add: run_send_task_def Let_def markFutureWithError_msg_def createExceptionResponse_def bindM_def)
  qed (use r a' in \<open>simp add: run_send_task_def\<close>)
qed

lemma run_recv_task_ok:
  assumes "agent_inv a" and "nextId a < int64_max"
  shows "agent_inv (run_recv_task deser cb now from_id type rid payload a)"
proof -
  obtain res a' where r: "handleRecv deser cb now from_id type rid payload a = (res, a')"
    by (cases "handleRecv deser cb now from_id type rid payload a")
  then have a': "agent_inv a'" using handleRecv_ok [OF assms] by (metis snd_conv)
  have "core (a'\<lparr>recvCounts := increment from_id (recvCounts a')\<rparr>) = core a'" by (simp add: core_def)
  from agent_inv_core [OF a' this] a' show ?thesis by (simp add: run_recv_task_def r split: sum.split bool.split)
qed

section \<open>Reachable states\<close>

inductive agent_step :: "'t pg_agent \<Rightarrow> 't pg_agent \<Rightarrow> bool" where
  step_send: "nextId a < int64_max \<Longrightarrow> agent_step a (snd (pa_send now timeout dest msg a))"
| step_send_task: "agent_step a (snd (run_send_task ser o1 o2 dst msg a))"
| step_self_task: "agent_step a (snd (run_self_task ser msg a))"
| step_recv_task: "nextId a < int64_max \<Longrightarrow> agent_step a (run_recv_task deser cb now from_id type rid payload a)"
| step_async: "nextId a < int64_max \<Longrightarrow> agent_step a (snd (async_done now from_id rid result a))"
| step_listen: "agent_step a (snd (listen_turn type_of preamble payload a))"
| step_listen_fails: "agent_step a (listenLoop_fails err a)"
| step_timeout: "agent_step a (snd (pollTimedOutRPCs_turn now a))"
| step_start: "agent_step a (pa_start a)"
| step_shutdown: "agent_step a (pa_shutdown a)"

inductive agent_reach :: "'t pg_agent \<Rightarrow> bool" where
  reach_new: "pg_agent_new name rank names timeout = Inr a \<Longrightarrow> agent_reach a"
| reach_step: "agent_reach a \<Longrightarrow> agent_step a a' \<Longrightarrow> agent_reach a'"

lemma agent_inv_new:
  assumes "pg_agent_new name rank names timeout = Inr a"
  shows "agent_inv a"
proof -
  have "futures a = []" "futureTimeouts a = []" "jits a = []" "clientActiveCalls a = 0" "nextId a = 0"
    using assms by (auto simp: pg_agent_new_def bindE_def split: sum.splits option.splits if_splits)
  then show ?thesis by (simp add: agent_inv_def tables_inv_def calls_inv_def umap_at_def)
qed

lemma async_done_ok:
  assumes "agent_inv a" and "nextId a < int64_max"
  shows "agent_inv (snd (async_done now from_id rid result a))"
proof -
  let ?b = "a\<lparr>serverActiveCalls := serverActiveCalls a - 1,
        serverActiveAsyncCalls := serverActiveAsyncCalls a - 1, asyncCalls := remove1 (from_id, rid) (asyncCalls a)\<rparr>"
  have c: "core ?b = core a" by (simp add: core_def)
  have b: "agent_inv ?b" "nextId ?b < int64_max" using agent_inv_core [OF assms(1) c] assms(2) by simp_all
  show ?thesis
    using respond_ok [OF b] b(1) by (cases "getWorkerInfo ?b from_id") (simp_all add: async_done_def bindM_def)
qed

lemma agent_step_inv: "agent_step a a' \<Longrightarrow> agent_inv a \<Longrightarrow> agent_inv a'"
proof (induction rule: agent_step.induct)
  case (step_self_task a ser msg)
  then show ?case
    using markFutureWithError_ok(2) [OF step_self_task]
    by (cases "ser (m_payload msg) (m_tensors msg)")
       (auto simp: run_self_task_def bindM_def core_def intro: agent_inv_core [OF step_self_task])
next
  case (step_listen a type_of preamble payload)
  have "keepsM core (listen_turn type_of preamble payload :: ('a pg_agent, bool) cmd)"
    by (auto simp: keepsM_def listen_turn_def bindM_def core_def split: option.split)
  then show ?case by (rule agent_inv_keepsM [OF step_listen])
qed (auto simp: pa_send_ok run_send_task_ok run_recv_task_ok async_done_ok poll_ok(2) listenLoop_fails_def core_def
      pa_start_def startImpl_def pa_shutdown_def shutdownImpl_def intro: agent_inv_core)

lemma agent_reach_inv: "agent_reach a \<Longrightarrow> agent_inv a"
  by (induction rule: agent_reach.induct) (auto intro: agent_inv_new agent_step_inv)

section \<open>Property\<close>


definition sample_pg :: "nat pg_agent" where
  "sample_pg = (case pg_agent_new ''a'' 0 [''a'', ''b''] 1000 of Inr x \<Rightarrow> x)"

lemma sample_pg_new: "pg_agent_new ''a'' 0 [''a'', ''b''] 1000 = Inr sample_pg"
  by (simp add: sample_pg_def pg_agent_new_def WorkerInfo_int64_def WorkerInfo_def collectNames_def names_by_rank_def
      MAX_NAME_LEN_def is_alnum_def to_worker_id_def worker_id_max_def)

definition sample_request :: "nat message" where
  "sample_request = \<lparr>m_payload = ''x'', m_tensors = [], m_type = SCRIPT_CALL, m_id = -1\<rparr>"


end
