(* ===== verification/Request_Callback.thy ===== *)
theory Request_Callback
  imports DistAutograd_Rpc ProcessGroup_Agent
begin

text \<open>
  The processing of requests on the callee: \<^verbatim>\<open>RequestCallbackNoPython\<close>
  (\<^verbatim>\<open>rpc/request_callback_no_python.cpp\<close>). A server has the remote references of \<open>RRef_Context\<close>, the worker
  of \<open>DistAutograd_Rpc\<close> and the values of its owner references. A handler ends with a response or waits
  for something; what the enclosing handlers still do to the response is a list of layers. Operators,
  the profiler and types are arguments. The main results: a response always carries the id of its
  request, and a call of an operator, however it is wrapped, brings the result of the operator back to
  the caller.
\<close>

section \<open>State\<close>

record ('g, 'a) server =
  sv_rrefs :: rref_context
  sv_worker :: "('g, 'a) rpc_worker"
  sv_values :: "ivalue list"

text \<open>
  The code around the handlers: the script runtime and autograd library, operators (an error, or the
  stack afterwards) with their return types, the handler of deleted references, the profiler, and the
  workers the agent can notify.
\<close>

record 'a callback_env =
  ce_runtime :: runtime
  ce_lib :: "'a autograd_lib"
  ce_types :: type_env
  ce_operation :: "operator \<Rightarrow> ivalue list \<Rightarrow> string + ivalue list"
  ce_return_type :: "operator \<Rightarrow> nat"
  ce_handleRRefDelete :: "nat option \<Rightarrow> (rref_context, unit) cmd"
  ce_cudaAvailable :: bool
  ce_cuda_config :: "ivalue \<Rightarrow> bool"
  ce_cpu_config :: "ivalue \<Rightarrow> ivalue"
  ce_events :: "ivalue \<Rightarrow> ivalue list"
  ce_agent :: "(int \<Rightarrow> bool) option"

definition ce_pickler :: "'a callback_env \<Rightarrow> pickler" where
  "ce_pickler E = rt_pickler (ce_runtime E)"

datatype await = AwaitRRefs nat command | AwaitOwner nat | AwaitValue nat | AwaitEngine nat
datatype layer = AutogradLayer int int | ProfilingLayer ivalue gid
datatype progress = Finished "string + nat message" | Awaiting await "layer list"

definition on_rrefs :: "(rref_context, 'r) cmd \<Rightarrow> (('g, 'a) server, 'r) cmd" where
  "on_rrefs f s = (case f (sv_rrefs s) of (r, c) \<Rightarrow> (r, s\<lparr>sv_rrefs := c\<rparr>))"

definition on_worker :: "(('g, 'a) rpc_worker, 'r) cmd \<Rightarrow> (('g, 'a) server, 'r) cmd" where
  "on_worker f s = (case f (sv_worker s) of (r, w) \<Rightarrow> (r, s\<lparr>sv_worker := w\<rparr>))"

definition tryM :: "('s, 'r) cmd \<Rightarrow> (exn \<Rightarrow> ('s, 'r) cmd) \<Rightarrow> ('s, 'r) cmd" where
  "tryM f h s = (case f s of (Inl e, s') \<Rightarrow> h e s' | (Inr r, s') \<Rightarrow> (Inr r, s'))"

text \<open>\<^verbatim>\<open>DistAutogradContextGuard\<close>: the current context of the thread for the time of \<open>f\<close>, also if it throws.\<close>

definition with_guard :: "nat \<Rightarrow> int \<Rightarrow> (('g, 'a) server, 'r) cmd \<Rightarrow> (('g, 'a) server, 'r) cmd" where
  "with_guard th cid f =
     bindM (on_worker (on_container getInstance)) (\<lambda>_.
     bindM (getM (\<lambda>s. current (wk_container (sv_worker s)) th)) (\<lambda>prevCtxId.
     bindM (on_worker (on_container (modifyM (forceCurrentContextId th cid)))) (\<lambda>_.
     (\<lambda>s. case f s of (r, s') \<Rightarrow> (r, snd (on_worker (on_container (modifyM (forceCurrentContextId th prevCtxId))) s'))))))"

text \<open>\<^verbatim>\<open>markComplete\<close>.\<close>

definition complete_with :: "'a callback_env \<Rightarrow> int \<Rightarrow> command \<Rightarrow> (('g, 'a) server, progress) cmd" where
  "complete_with E messageId c = bindM (liftM (toMessage (ce_pickler E) c)) (\<lambda>m. returnM (Finished (Inr (setId messageId m))))"

section \<open>Script calls\<close>

definition processScriptCallOp :: "'a callback_env \<Rightarrow> int \<Rightarrow> operator \<Rightarrow> ivalue list \<Rightarrow> (('g, 'a) server, progress) cmd" where
  "processScriptCallOp E messageId op stack =
     (case ce_operation E op stack of
        Inl e \<Rightarrow> throwM (Runtime_error e)
      | Inr stack' \<Rightarrow>
          bindM (checkM (length stack' = 1)
            (C10_assert ''Return value of a builtin operator or a TorchScript function should be a single IValue, got a vector of size '')) (\<lambda>_.
          complete_with E messageId (ScriptResp (hd stack'))))"

definition processScriptCall :: "'a callback_env \<Rightarrow> int \<Rightarrow> script_call \<Rightarrow> (('g, 'a) server, progress) cmd" where
  "processScriptCall E messageId c =
     (case sc_op c of
        None \<Rightarrow> throwM (C10_error ''Only supports the case where ScriptCall has an op'')
      | Some op \<Rightarrow> processScriptCallOp E messageId op (sc_stack c))"

definition setOwnerValue :: "nat \<Rightarrow> ivalue \<Rightarrow> (('g, 'a) server, unit) cmd" where
  "setOwnerValue p v =
     bindM (getM (\<lambda>s. setValue (length (sv_values s)) (objs (sv_rrefs s) ! p))) (\<lambda>r.
     bindM (liftM r) (\<lambda>r'.
     modifyM (\<lambda>s. s\<lparr>sv_rrefs := upd_obj p (\<lambda>_. r') (sv_rrefs s), sv_values := sv_values s @ [v]\<rparr>)))"

definition postProcessing :: "'a callback_env \<Rightarrow> int \<Rightarrow> gid \<Rightarrow> gid \<Rightarrow> (('g, 'a) server, progress) cmd" where
  "postProcessing E messageId r f =
     bindM (if r \<noteq> f then on_rrefs (addForkOfOwner r f) else returnM ()) (\<lambda>_.
     complete_with E messageId (RemoteRet r f))"

definition processScriptRemoteCallOp ::
    "'a callback_env \<Rightarrow> int \<Rightarrow> operator \<Rightarrow> ivalue list \<Rightarrow> nat \<Rightarrow> gid \<Rightarrow> gid \<Rightarrow> (('g, 'a) server, progress) cmd" where
  "processScriptRemoteCallOp E messageId op stack ownerRRef r f =
     (case ce_operation E op stack of
        Inl e \<Rightarrow>
          bindM (on_rrefs (modifyM (upd_obj ownerRRef (setErrorIfNeeded e)))) (\<lambda>_.
          postProcessing E messageId r f)
      | Inr stack' \<Rightarrow>
          bindM (checkM (length stack' = 1)
            (C10_assert ''Return value of a builtin operator or a TorchScript function should be a single IValue, got a vector of size '')) (\<lambda>_.
          bindM (setOwnerValue ownerRRef (hd stack')) (\<lambda>_.
          postProcessing E messageId r f)))"

text \<open>A reference created for a call to the worker itself has the fork id of its owner and exists.\<close>

definition processBaseScriptRemoteCall :: "'a callback_env \<Rightarrow> int \<Rightarrow> script_call \<Rightarrow> gid \<Rightarrow> gid \<Rightarrow> (('g, 'a) server, progress) cmd" where
  "processBaseScriptRemoteCall E messageId c r f =
     (case sc_op c of
        None \<Rightarrow> throwM (C10_error ''Only supports the case where ScriptCall has an op'')
      | Some op \<Rightarrow>
          bindM (if r = f
                 then bindM (on_rrefs (getOwnerRRef r True)) (\<lambda>fut. case fut of Inl p \<Rightarrow> returnM p | Inr i \<Rightarrow> throwM Blocked)
                 else on_rrefs (getOrCreateOwnerRRef (ce_types E) r (ce_return_type E op))) (\<lambda>ownerRRef.
          processScriptRemoteCallOp E messageId op (sc_stack c) ownerRRef r f))"

section \<open>Reading references\<close>

definition ownerValue :: "nat \<Rightarrow> (('g, 'a) server, ivalue) cmd" where
  "ownerValue p = bindM (getM (\<lambda>s. getValue (objs (sv_rrefs s) ! p))) (\<lambda>v. bindM (liftM v) (\<lambda>i. getM (\<lambda>s. sv_values s ! i)))"

definition processScriptRRefFetchCall :: "'a callback_env \<Rightarrow> int \<Rightarrow> gid \<Rightarrow> (('g, 'a) server, progress) cmd" where
  "processScriptRRefFetchCall E messageId r =
     bindM (on_rrefs (getOwnerRRef r False)) (\<lambda>futureOwner.
       case futureOwner of
         Inl p \<Rightarrow>
           bindM (getM (\<lambda>s. hasValue (objs (sv_rrefs s) ! p))) (\<lambda>has.
           if has then bindM (ownerValue p) (\<lambda>v. complete_with E messageId (ScriptRRefFetchRet [v]))
           else returnM (Awaiting (AwaitValue p) []))
       | Inr i \<Rightarrow> returnM (Awaiting (AwaitOwner i) []))"

section \<open>Layers\<close>

text \<open>The callbacks of the wrapping handlers on the future of the wrapped call.\<close>

definition autograd_response :: "'a callback_env \<Rightarrow> nat \<Rightarrow> int \<Rightarrow> int \<Rightarrow> int \<Rightarrow> string + nat message \<Rightarrow> (('g, 'a) server, string + nat message) cmd" where
  "autograd_response E th messageId fromWorkerId ctxId r =
     with_guard th ctxId
       (case r of
          Inl e \<Rightarrow> returnM (Inl e)
        | Inr m \<Rightarrow>
            bindM (on_worker (getMessageWithAutograd (ce_lib E) (ce_pickler E) th fromWorkerId m FORWARD_AUTOGRAD_RESP False [])) (\<lambda>msg.
            returnM (Inr (setId messageId msg))))"

definition profiling_response :: "'a callback_env \<Rightarrow> ivalue \<Rightarrow> gid \<Rightarrow> string + nat message \<Rightarrow> (('g, 'a) server, string + nat message) cmd" where
  "profiling_response E cfg profilingKeyId r =
     (case r of
        Inl e \<Rightarrow> returnM (Inl e)
      | Inr m \<Rightarrow>
          bindM (liftM (RpcWithProfilingResp_toMessage (ce_pickler E) profilingKeyId (ce_events E cfg) m)) (\<lambda>msg. returnM (Inr msg)))"

definition run_layer :: "'a callback_env \<Rightarrow> nat \<Rightarrow> int \<Rightarrow> layer \<Rightarrow> string + nat message \<Rightarrow> (('g, 'a) server, string + nat message) cmd" where
  "run_layer E th messageId l r =
     (case l of
        AutogradLayer fromWorkerId ctxId \<Rightarrow> autograd_response E th messageId fromWorkerId ctxId r
      | ProfilingLayer cfg profilingKeyId \<Rightarrow> profiling_response E cfg profilingKeyId r)"

text \<open>\<^verbatim>\<open>addCallback\<close> on the future of the wrapped call runs at once when the call has finished.\<close>

definition add_layer :: "'a callback_env \<Rightarrow> nat \<Rightarrow> int \<Rightarrow> layer \<Rightarrow> progress \<Rightarrow> (('g, 'a) server, progress) cmd" where
  "add_layer E th messageId l p =
     (case p of
        Finished r \<Rightarrow> bindM (run_layer E th messageId l r) (\<lambda>r'. returnM (Finished r'))
      | Awaiting a ls \<Rightarrow> returnM (Awaiting a (ls @ [l])))"

fun run_layers :: "'a callback_env \<Rightarrow> nat \<Rightarrow> int \<Rightarrow> layer list \<Rightarrow> string + nat message \<Rightarrow> (('g, 'a) server, string + nat message) cmd" where
  "run_layers E th messageId [] r = returnM r"
| "run_layers E th messageId (l # ls) r = bindM (run_layer E th messageId l r) (run_layers E th messageId ls)"

definition profiling_config :: "'a callback_env \<Rightarrow> ivalue \<Rightarrow> ivalue" where
  "profiling_config E cfg = (if ce_cuda_config E cfg \<and> \<not> ce_cudaAvailable E then ce_cpu_config E cfg else cfg)"

section \<open>Wrapped calls\<close>

text \<open>\<open>processWrapped\<close> is the call of \<^verbatim>\<open>processRpc\<close> on the wrapped command.\<close>

definition processForwardAutogradReq ::
    "'a callback_env \<Rightarrow> nat \<Rightarrow> int \<Rightarrow> nat list \<Rightarrow> int \<Rightarrow> int \<Rightarrow> int \<Rightarrow> (int \<times> int) list \<Rightarrow> (('g, 'a) server, progress) cmd \<Rightarrow> (('g, 'a) server, progress) cmd" where
  "processForwardAutogradReq E th messageId tensors fromWorkerId cid mid deviceMap processWrapped =
     bindM (on_worker (addRecvRpcBackward (ce_lib E) cid mid tensors fromWorkerId (reverse_devices deviceMap []))) (\<lambda>ctxId.
     with_guard th ctxId (bindM processWrapped (add_layer E th messageId (AutogradLayer fromWorkerId ctxId))))"

definition processRunWithProfilingReq ::
    "'a callback_env \<Rightarrow> nat \<Rightarrow> int \<Rightarrow> ivalue \<Rightarrow> gid \<Rightarrow> (('g, 'a) server, progress) cmd \<Rightarrow> (('g, 'a) server, progress) cmd" where
  "processRunWithProfilingReq E th messageId cfg profilingKeyId processWrapped =
     bindM (checkM (\<not> ce_cuda_config E (profiling_config E cfg) \<or> ce_cudaAvailable E)
       (C10_assert ''Profiler state set to CUDA but CUDA not available.'')) (\<lambda>_.
     bindM processWrapped (add_layer E th messageId (ProfilingLayer (profiling_config E cfg) profilingKeyId)))"

definition processCleanupAutogradContextReq :: "'a callback_env \<Rightarrow> nat \<Rightarrow> int \<Rightarrow> int \<Rightarrow> (('g, 'a) server, progress) cmd" where
  "processCleanupAutogradContextReq E th messageId cid =
     bindM (on_worker (on_container getInstance)) (\<lambda>_.
     bindM (on_worker (on_container (releaseContextIfPresent (ce_agent E) th cid))) (\<lambda>_.
     complete_with E messageId CleanupAutogradContextResp))"

section \<open>Dispatch\<close>

text \<open>\<open>tensors\<close> are the tensors of the request, which every layer of wrapping shares.\<close>

fun processRpc :: "'a callback_env \<Rightarrow> nat \<Rightarrow> int \<Rightarrow> nat list \<Rightarrow> command \<Rightarrow> (('g, 'a) server, progress) cmd" where
  "processRpc E th messageId tensors (ScriptCall c) = processScriptCall E messageId c"
| "processRpc E th messageId tensors (PythonCall p ts b) = throwM (C10_error ''Python call not supported!'')"
| "processRpc E th messageId tensors (ScriptRemoteCall c r f) = processBaseScriptRemoteCall E messageId c r f"
| "processRpc E th messageId tensors (PythonRemoteCall p ts r f b) = throwM (C10_error ''Python call not supported!'')"
| "processRpc E th messageId tensors (ScriptRRefFetchCall w r) = processScriptRRefFetchCall E messageId r"
| "processRpc E th messageId tensors (PythonRRefFetchCall w r) = throwM (C10_error ''Python call not supported!'')"
| "processRpc E th messageId tensors (RRefUserDelete r f) =
     bindM (on_rrefs (processRRefUserDelete (ce_handleRRefDelete E) r f)) (\<lambda>_. complete_with E messageId RRefAck)"
| "processRpc E th messageId tensors (RRefChildAccept f) =
     bindM (on_rrefs (processRRefChildAccept f)) (\<lambda>_. complete_with E messageId RRefAck)"
| "processRpc E th messageId tensors (RRefForkRequest r f) =
     bindM (on_rrefs (processRRefForkRequest r f)) (\<lambda>_. complete_with E messageId RRefAck)"
| "processRpc E th messageId tensors (RpcWithAutograd fromWorkerId cid mid dm c) =
     processForwardAutogradReq E th messageId tensors fromWorkerId cid mid dm (processRpc E th messageId tensors c)"
| "processRpc E th messageId tensors (PropagateGradientsReq cid mid grads retainGraph) =
     bindM (on_worker (processBackwardAutogradReq cid mid grads retainGraph)) (\<lambda>_.
     bindM (getM (\<lambda>s. length (wk_engine (sv_worker s)) - 1)) (\<lambda>execFuture.
     returnM (Awaiting (AwaitEngine execFuture) [])))"
| "processRpc E th messageId tensors (CleanupAutogradContextReq cid) = processCleanupAutogradContextReq E th messageId cid"
| "processRpc E th messageId tensors (RpcWithProfilingReq cfg profilingKeyId c) =
     processRunWithProfilingReq E th messageId cfg profilingKeyId (processRpc E th messageId tensors c)"
| "processRpc E th messageId tensors (RRefBackwardReq r cid b) = throwM (C10_error ''Python call not supported!'')"
| "processRpc E th messageId tensors _ = throwM (C10_assert ''Request type not supported.'')"

definition callback_handleError :: "exn \<Rightarrow> int \<Rightarrow> ('g, 'a) server \<Rightarrow> nat message" where
  "callback_handleError e messageId s =
     createExceptionResponse (''Error on Node '' @ to_string (worker_id (wk_container (sv_worker s))) @ '': '' @ exn_text e) messageId"

definition answer_error :: "exn \<Rightarrow> int \<Rightarrow> (('g, 'a) server, progress) cmd" where
  "answer_error e messageId =
     bindM (on_worker (on_container getInstance)) (\<lambda>_. getM (\<lambda>s. Finished (Inr (callback_handleError e messageId s))))"

definition processRpcWithErrors :: "'a callback_env \<Rightarrow> nat \<Rightarrow> int \<Rightarrow> nat list \<Rightarrow> command \<Rightarrow> (('g, 'a) server, progress) cmd" where
  "processRpcWithErrors E th messageId tensors c = tryM (processRpc E th messageId tensors c) (\<lambda>e. answer_error e messageId)"

definition deserializePythonRpcCommand :: "command \<Rightarrow> MessageType \<Rightarrow> command res" where
  "deserializePythonRpcCommand c ty =
     (if ty \<noteq> PYTHON_CALL \<and> ty \<noteq> PYTHON_REMOTE_CALL then Inr c else Inl (C10_error ''Python calls are not supported!''))"

text \<open>
  \<open>unpickled\<close>: what unpickling the request does to the references of the thread. The callback on the
  future of the pending references runs at once when there are none.
\<close>

definition processMessage ::
    "'a callback_env \<Rightarrow> nat \<Rightarrow> (rref_context, unit) cmd \<Rightarrow> nat message \<Rightarrow> (('g, 'a) server, progress) cmd" where
  "processMessage E th unpickled request =
     tryM (bindM (on_rrefs (recordThreadLocalPendingRRefs th)) (\<lambda>_.
           bindM (on_rrefs unpickled) (\<lambda>_.
           bindM (liftM (deserializeRequest (ce_runtime E) request)) (\<lambda>c.
           bindM (liftM (deserializePythonRpcCommand c (m_type request))) (\<lambda>rpc.
           bindM (on_rrefs (\<lambda>x. case waitForThreadLocalPendingRRefs th x of (w, x') \<Rightarrow> (Inr w, x'))) (\<lambda>w.
           bindM (getM (\<lambda>s. snd (waits (sv_rrefs s) ! w) = Completed)) (\<lambda>ready.
           if ready then processRpcWithErrors E th (m_id request) (m_tensors request) rpc
           else returnM (Awaiting (AwaitRRefs w rpc) []))))))))
       (\<lambda>e. bindM (answer_error e (m_id request)) (\<lambda>p.
            bindM (on_rrefs (modifyM (clearRecordedPendingRRefsOnError th))) (\<lambda>_. returnM p)))"

section \<open>Resuming\<close>

text \<open>
  The callbacks, run by some thread once what they wait for is there. \<open>engine\<close> is the outcome of an
  engine pass, an error or none.
\<close>

fun resume :: "'a callback_env \<Rightarrow> nat \<Rightarrow> int \<Rightarrow> nat list \<Rightarrow> string option \<Rightarrow> await \<Rightarrow> layer list \<Rightarrow> (('g, 'a) server, progress) cmd" where
  "resume E th messageId tensors engine (AwaitRRefs w c) ls =
     bindM (getM (\<lambda>s. snd (waits (sv_rrefs s) ! w) = Completed)) (\<lambda>ready.
     if ready then processRpcWithErrors E th messageId tensors c else returnM (Awaiting (AwaitRRefs w c) ls))"
| "resume E th messageId tensors engine (AwaitOwner i) ls =
     bindM (getM (\<lambda>s. ownerFutures (sv_rrefs s) ! i)) (\<lambda>owner.
     returnM (case owner of None \<Rightarrow> Awaiting (AwaitOwner i) ls | Some p \<Rightarrow> Awaiting (AwaitValue p) ls))"
| "resume E th messageId tensors engine (AwaitValue p) ls =
     bindM (getM (\<lambda>s. value_future (objs (sv_rrefs s) ! p))) (\<lambda>whenValueSet.
       case whenValueSet of
         None \<Rightarrow> returnM (Awaiting (AwaitValue p) ls)
       | Some (Inl e) \<Rightarrow> bindM (run_layers E th messageId ls (Inl e)) (\<lambda>r. returnM (Finished r))
       | Some (Inr _) \<Rightarrow>
           bindM (tryM (bindM (ownerValue p) (\<lambda>v. bindM (liftM (toMessage (ce_pickler E) (ScriptRRefFetchRet [v]))) (\<lambda>m. returnM (Inr (setId messageId m)))))
                    (\<lambda>e. returnM (Inl (exn_text e)))) (\<lambda>r.
           bindM (run_layers E th messageId ls r) (\<lambda>r'. returnM (Finished r'))))"
| "resume E th messageId tensors engine (AwaitEngine k) ls =
     (case engine of
        None \<Rightarrow>
          bindM (liftM (toMessage (ce_pickler E) PropagateGradientsResp)) (\<lambda>m.
          bindM (run_layers E th messageId ls (Inr (setId messageId m))) (\<lambda>r. returnM (Finished r)))
      | Some e \<Rightarrow> bindM (run_layers E th messageId ls (Inl e)) (\<lambda>r. returnM (Finished r)))"


section \<open>What a computation yields\<close>

definition yields :: "('r \<Rightarrow> bool) \<Rightarrow> ('s, 'r) cmd \<Rightarrow> bool" where
  "yields Q f \<longleftrightarrow> (\<forall>s r s'. f s = (Inr r, s') \<longrightarrow> Q r)"

named_theorems yields_intros \<open>results of commands\<close>

lemma yields_return [yields_intros]: "Q r \<Longrightarrow> yields Q (returnM r)"
  by (simp add: yields_def)

lemma yields_throw [yields_intros]: "yields Q (throwM e)"
  by (simp add: yields_def)

lemma yields_lift [yields_intros]: "(\<And>x. r = Inr x \<Longrightarrow> Q x) \<Longrightarrow> yields Q (liftM r)"
  by (simp add: yields_def)

lemma yields_get [yields_intros]: "(\<And>s. Q (f s)) \<Longrightarrow> yields Q (getM f)"
  by (simp add: yields_def)

lemma yields_bind: "yields R f \<Longrightarrow> (\<And>x. R x \<Longrightarrow> yields Q (g x)) \<Longrightarrow> yields Q (bindM f g)"
  unfolding yields_def bindM_def by (fastforce split: prod.splits sum.splits)

lemma yields_Pair [simp]: "yields Q (Pair (Inr r)) \<longleftrightarrow> Q r" "yields Q (Pair (Inl e))"
  by (simp_all add: yields_def)

lemma yields_then [yields_intros]: "(\<And>x. yields Q (g x)) \<Longrightarrow> yields Q (bindM f g)"
  by (rule yields_bind [of "\<lambda>_. True"]) (simp_all add: yields_def)

lemma yields_if [yields_intros]: "(b \<Longrightarrow> yields Q f) \<Longrightarrow> (\<not> b \<Longrightarrow> yields Q g) \<Longrightarrow> yields Q (if b then f else g)"
  by simp

lemma yields_try [yields_intros]: "yields Q f \<Longrightarrow> (\<And>e. yields Q (h e)) \<Longrightarrow> yields Q (tryM f h)"
  unfolding yields_def tryM_def by (auto split: prod.splits sum.splits)

lemma yields_on_worker: "yields Q f \<Longrightarrow> yields Q (on_worker f)"
  unfolding yields_def on_worker_def by (auto split: prod.splits)

lemma yields_guard [yields_intros]: "yields Q f \<Longrightarrow> yields Q (with_guard th cid f)"
  unfolding with_guard_def by (intro yields_then) (auto simp: yields_def split: prod.splits)

section \<open>Responses answer their request\<close>

definition is_answer :: "int \<Rightarrow> nat message \<Rightarrow> bool" where
  "is_answer messageId m \<longleftrightarrow> m_id m = messageId \<and> isResponse m"

definition answers :: "int \<Rightarrow> progress \<Rightarrow> bool" where
  "answers messageId p \<longleftrightarrow> (\<forall>m. p = Finished (Inr m) \<longrightarrow> is_answer messageId m)"

lemma answers_simps [simp]:
  "answers i (Finished (Inl e))" "answers i (Awaiting a ls)" "answers i (Finished (Inr m)) \<longleftrightarrow> is_answer i m"
  by (simp_all add: answers_def)

lemma isResponse_setId [simp]: "isResponse (setId i m) = isResponse m" "m_id (setId i m) = i"
  by (simp_all add: setId_def isResponse_def)

definition response_command :: "command \<Rightarrow> bool" where
  "response_command c \<longleftrightarrow> c \<in> {RRefAck, CleanupAutogradContextResp, PropagateGradientsResp} \<or>
     (\<exists>v. c = ScriptResp v) \<or> (\<exists>r f. c = RemoteRet r f) \<or> (\<exists>vs. c = ScriptRRefFetchRet vs)"

lemma response_command_message: "response_command c \<Longrightarrow> toMessage P c = Inr m \<Longrightarrow> isResponse m"
  by (auto simp: response_command_def isResponse_types empty_message_def to_message_defs fromIValues_def)

lemma yields_message: "response_command c \<Longrightarrow> yields isResponse (liftM (toMessage P c))"
  using response_command_message by (auto simp: yields_def)

lemma wrapped_is_response: "m_type m = FORWARD_AUTOGRAD_RESP \<Longrightarrow> isResponse m" "m_type m = RUN_WITH_PROFILING_RESP \<Longrightarrow> isResponse m"
  by (simp_all add: isResponse_types)

lemma yields_complete [yields_intros]: "response_command c \<Longrightarrow> yields (answers i) (complete_with E i c)"
  unfolding complete_with_def
  by (rule yields_bind [OF yields_message]) (auto intro!: yields_return simp: is_answer_def)

lemma response_commands [simp]:
  "response_command RRefAck" "response_command CleanupAutogradContextResp" "response_command PropagateGradientsResp"
  "response_command (ScriptResp v)" "response_command (RemoteRet r f)" "response_command (ScriptRRefFetchRet vs)"
  by (simp_all add: response_command_def)

lemma getMessageWithAutograd_yields:
  "yields (\<lambda>m'. m' = m \<or> m_type m' = ty) (getMessageWithAutograd L P th dst m ty force dm)"
  unfolding getMessageWithAutograd_def
  by (intro yields_intros) (auto simp: RpcWithAutograd_toMessage_def Let_def split: if_splits prod.splits)

lemma run_layer_answers:
  assumes "case r of Inr m \<Rightarrow> is_answer i m | Inl e \<Rightarrow> True"
  shows "yields (\<lambda>r. answers i (Finished r)) (run_layer E th i l r)"
proof (cases r)
  case (Inl e)
  then show ?thesis by (cases l) (auto simp: run_layer_def autograd_response_def profiling_response_def intro!: yields_intros)
next
  case (Inr m)
  then have m: "is_answer i m" using assms by simp
  show ?thesis
  proof (cases l)
    case (AutogradLayer w c)
    show ?thesis unfolding run_layer_def autograd_response_def Inr AutogradLayer layer.simps sum.simps
      by (intro yields_guard yields_bind [OF yields_on_worker [OF getMessageWithAutograd_yields]] yields_return)
         (use m wrapped_is_response in \<open>auto simp: is_answer_def\<close>)
  next
    case (ProfilingLayer cfg k)
    show ?thesis unfolding run_layer_def profiling_response_def Inr ProfilingLayer layer.simps sum.simps
      by (rule yields_bind [of "is_answer i"])
         (use m in \<open>auto intro!: yields_lift yields_return wrapped_is_response(2) simp: is_answer_def RpcWithProfilingResp_toMessage_def split: if_splits\<close>)
  qed
qed

lemma run_layers_answers:
  "case r of Inr m \<Rightarrow> is_answer i m | Inl e \<Rightarrow> True \<Longrightarrow> yields (\<lambda>r. answers i (Finished r)) (run_layers E th i ls r)"
proof (induction ls arbitrary: r)
  case Nil
  then show ?case by (auto intro!: yields_return split: sum.splits)
next
  case (Cons l ls)
  show ?case unfolding run_layers.simps
    by (rule yields_bind [OF run_layer_answers [OF Cons.prems]]) (rule Cons.IH, simp add: answers_def split: sum.split)
qed

lemma layered_answers:
  "case r of Inr m \<Rightarrow> is_answer i m | Inl e \<Rightarrow> True \<Longrightarrow> yields (answers i) (bindM (run_layers E th i ls r) (\<lambda>r'. returnM (Finished r')))"
  by (rule yields_bind [OF run_layers_answers]) (auto intro: yields_return)

lemma fetched_answers:
  "yields (\<lambda>r. case r of Inr m \<Rightarrow> is_answer i m | Inl e \<Rightarrow> True)
     (tryM (bindM (ownerValue p) (\<lambda>v. bindM (liftM (toMessage P (ScriptRRefFetchRet [v]))) (\<lambda>m. returnM (Inr (setId i m)))))
        (\<lambda>e. returnM (Inl (exn_text e))))"
  by (intro yields_try yields_then [of _ _ "ownerValue p"] yields_bind [OF yields_message] yields_return) (simp_all add: is_answer_def)

lemma add_layer_answers: "answers i p \<Longrightarrow> yields (answers i) (add_layer E th i l p)"
  unfolding add_layer_def
  by (cases p) (auto intro!: yields_return yields_bind [OF run_layer_answers] split: sum.splits)

lemma processRpc_answers: "yields (answers i) (processRpc E th i tensors c)"
proof (induction c)
  case (ScriptCall c)
  then show ?case
    by (auto simp: processScriptCall_def processScriptCallOp_def intro!: yields_intros split: option.split sum.split)
next
  case (ScriptRemoteCall c r f)
  have "yields (answers i) (postProcessing E i r f)" by (auto simp: postProcessing_def intro!: yields_intros)
  then show ?case
    by (auto simp: processBaseScriptRemoteCall_def processScriptRemoteCallOp_def intro!: yields_intros split: option.split sum.split)
next
  case (ScriptRRefFetchCall w r)
  then show ?case by (auto simp: processScriptRRefFetchCall_def intro!: yields_intros split: sum.split)
next
  case (RpcWithAutograd w cid mid dm c)
  then show ?case
    by (auto simp: processForwardAutogradReq_def intro!: yields_then yields_guard yields_bind [OF RpcWithAutograd.IH] add_layer_answers)
next
  case (RpcWithProfilingReq cfg k c)
  then show ?case
    by (auto simp: processRunWithProfilingReq_def intro!: yields_then yields_bind [OF RpcWithProfilingReq.IH] add_layer_answers)
qed (auto simp: processCleanupAutogradContextReq_def intro!: yields_intros)

lemma answer_error_answers: "yields (answers i) (answer_error e i)"
  by (auto simp: answer_error_def callback_handleError_def createExceptionResponse_def is_answer_def isResponse_types intro!: yields_intros)

lemma processRpcWithErrors_answers: "yields (answers i) (processRpcWithErrors E th i tensors c)"
  unfolding processRpcWithErrors_def by (intro yields_try processRpc_answers answer_error_answers)

lemma resume_answers: "yields (answers i) (resume E th i tensors engine a ls)"
proof (cases a)
  case (AwaitRRefs w c)
  show ?thesis unfolding AwaitRRefs resume.simps
    by (intro yields_then yields_if processRpcWithErrors_answers yields_return) simp
next
  case (AwaitOwner k)
  show ?thesis unfolding AwaitOwner resume.simps by (intro yields_then yields_return) (simp split: option.split)
next
  case (AwaitValue p)
  have "yields (answers i) (case v of None \<Rightarrow> returnM (Awaiting (AwaitValue p) ls)
       | Some (Inl e) \<Rightarrow> bindM (run_layers E th i ls (Inl e)) (\<lambda>r. returnM (Finished r))
       | Some (Inr x) \<Rightarrow>
           bindM (tryM (bindM (ownerValue p) (\<lambda>v. bindM (liftM (toMessage (ce_pickler E) (ScriptRRefFetchRet [v]))) (\<lambda>m. returnM (Inr (setId i m)))))
                    (\<lambda>e. returnM (Inl (exn_text e)))) (\<lambda>r. bindM (run_layers E th i ls r) (\<lambda>r'. returnM (Finished r'))))" for v :: "(string + nat) option"
  proof (cases v)
    case (Some w)
    show ?thesis
    proof (cases w)
      case (Inr x)
      show ?thesis unfolding Some Inr option.simps sum.simps by (rule yields_bind [OF fetched_answers layered_answers])
    qed (simp only: Some option.simps sum.simps, rule layered_answers, simp)
  qed (simp only: option.simps, rule yields_return, simp)
  then show ?thesis unfolding AwaitValue resume.simps by (rule yields_then)
next
  case (AwaitEngine k)
  show ?thesis
  proof (cases engine)
    case None
    show ?thesis unfolding AwaitEngine None resume.simps option.simps
      by (rule yields_bind [OF yields_message layered_answers]) (simp_all add: is_answer_def)
  next
    case (Some e)
    show ?thesis unfolding AwaitEngine Some resume.simps option.simps by (rule layered_answers) simp
  qed
qed

lemma processMessage_answers: "yields (answers (m_id request)) (processMessage E th unpickled request)"
  unfolding processMessage_def
  by (intro yields_try yields_then yields_if processRpcWithErrors_answers yields_return yields_bind [OF answer_error_answers]) simp_all

section \<open>A call there and back\<close>

lemma unwrap_setId:
  "unwrap_autograd P (setId i m) = map_sum id (\<lambda>(w, cid, mid, dm, m'). (w, cid, mid, dm, setId i m')) (unwrap_autograd P m)"
  "unwrap_profiling_req P cfg (setId i m) = map_sum id (\<lambda>(c, k, m'). (c, k, setId i m')) (unwrap_profiling_req P cfg m)"
  unfolding unwrap_autograd_def unwrap_profiling_req_def
  by (simp_all add: setId_def wrapped_message_def check_size_def isRequest_def bindE_def split: sum.split prod.split)

lemma setId_sel [simp]: "m_type (setId i m) = m_type m" "m_payload (setId i m) = m_payload m" "m_tensors (setId i m) = m_tensors m"
  by (simp_all add: setId_def)

lemma fromMessage_setId [simp]:
  "ScriptCall_fromMessage P R (setId i m) = ScriptCall_fromMessage P R m" "ScriptRemoteCall_fromMessage P R (setId i m) = ScriptRemoteCall_fromMessage P R m"
  "PythonCall_fromMessage (setId i m) = PythonCall_fromMessage m" "PythonRemoteCall_fromMessage P (setId i m) = PythonRemoteCall_fromMessage P m"
  "RRefFetchCall_fromMessage P ty (setId i m) = RRefFetchCall_fromMessage P ty m" "ForkMessageBase_fromMessage P ty (setId i m) = ForkMessageBase_fromMessage P ty m"
  "RRefChildAccept_fromMessage P (setId i m) = RRefChildAccept_fromMessage P m" "PropagateGradientsReq_fromMessage P (setId i m) = PropagateGradientsReq_fromMessage P m"
  "CleanupAutogradContextReq_fromMessage P (setId i m) = CleanupAutogradContextReq_fromMessage P m" "RRefBackwardReq_fromMessage P (setId i m) = RRefBackwardReq_fromMessage P m"
proof -
  have "ivalues_of P (setId i m) = ivalues_of P m" for P by (simp add: ivalues_of_def)
  moreover from this have "toIValues P (setId i m) ty = toIValues P m ty" for P ty by (simp add: toIValues_def check_type_def)
  ultimately show "ScriptCall_fromMessage P R (setId i m) = ScriptCall_fromMessage P R m" "ScriptRemoteCall_fromMessage P R (setId i m) = ScriptRemoteCall_fromMessage P R m"
    "PythonCall_fromMessage (setId i m) = PythonCall_fromMessage m" "PythonRemoteCall_fromMessage P (setId i m) = PythonRemoteCall_fromMessage P m"
    "RRefFetchCall_fromMessage P ty (setId i m) = RRefFetchCall_fromMessage P ty m" "ForkMessageBase_fromMessage P ty (setId i m) = ForkMessageBase_fromMessage P ty m"
    "RRefChildAccept_fromMessage P (setId i m) = RRefChildAccept_fromMessage P m" "PropagateGradientsReq_fromMessage P (setId i m) = PropagateGradientsReq_fromMessage P m"
    "CleanupAutogradContextReq_fromMessage P (setId i m) = CleanupAutogradContextReq_fromMessage P m" "RRefBackwardReq_fromMessage P (setId i m) = RRefBackwardReq_fromMessage P m"
    by (simp_all only: ScriptCall_fromMessage_def ScriptRemoteCall_fromMessage_def PythonCall_fromMessage_def PythonRemoteCall_fromMessage_def
        RRefFetchCall_fromMessage_def ForkMessageBase_fromMessage_def RRefChildAccept_fromMessage_def PropagateGradientsReq_fromMessage_def
        CleanupAutogradContextReq_fromMessage_def RRefBackwardReq_fromMessage_def setId_sel)
qed

lemma deserializeRequest_setId: "deserializeRequest T (setId i m) = deserializeRequest T m"
proof (induction "length (m_payload m)" arbitrary: m rule: less_induct)
  case less
  have A: "deserializeRequest T (setId i m') = deserializeRequest T m'" if "unwrap_autograd (rt_pickler T) m = Inr (w, cid, mid, dm, m')" for w cid mid dm m'
    using less [of m'] unwrap_shorter(1) [OF that] by blast
  have B: "deserializeRequest T (setId i m') = deserializeRequest T m'" if "unwrap_profiling_req (rt_pickler T) (rt_config T) m = Inr (c, k, m')" for c k m'
    using less [of m'] unwrap_shorter(2) [OF that] by blast
  show ?case
  proof (cases "m_type m")
    case FORWARD_AUTOGRAD_REQ
    then show ?thesis
      by (subst (1 2) deserializeRequest.simps, cases "unwrap_autograd (rt_pickler T) m") (auto simp: unwrap_setId A)
  next
    case RUN_WITH_PROFILING_REQ
    then show ?thesis
      by (subst (1 2) deserializeRequest.simps, cases "unwrap_profiling_req (rt_pickler T) (rt_config T) m") (auto simp: unwrap_setId B)
  qed (subst (1 2) deserializeRequest.simps, simp)+
qed

definition enter_ctx :: "nat \<Rightarrow> int \<Rightarrow> ('g, 'a) rpc_worker \<Rightarrow> ('g, 'a) rpc_worker" where
  "enter_ctx th cid w = w\<lparr>wk_container := forceCurrentContextId th cid (wk_container w)\<rparr>"

lemma enter_ctx_sel [simp]:
  "worker_wf (enter_ctx th cid w) = worker_wf w" "ctx_of (enter_ctx th cid w) = ctx_of w" "current (wk_container (enter_ctx th cid w)) th = cid"
  "wk_autograd (enter_ctx th cid w) = wk_autograd w" "wk_self (enter_ctx th cid w) = wk_self w"
  "next_autograd_message_id (wk_container (enter_ctx th cid w)) = next_autograd_message_id (wk_container w)"
  "max_id (wk_container (enter_ctx th cid w)) = max_id (wk_container w)"
  by (simp_all add: enter_ctx_def forceCurrentContextId_def worker_wf_def ctx_of_def)

lemma with_guard_result:
  assumes "worker_wf (sv_worker s)" and "f (s\<lparr>sv_worker := enter_ctx th cid (sv_worker s)\<rparr>) = (r, s')"
  shows "\<exists>s''. with_guard th cid f s = (r, s'')"
proof -
  have "on_container getInstance w = (Inr (), w)" if "worker_wf w" for w :: "('a, 'b) rpc_worker"
    using that by (simp add: on_container_def getInstance_def worker_wf_def bindM_def)
  then show ?thesis using assms by (simp add: with_guard_def on_worker_def on_container_def enter_ctx_def bindM_def)
qed

text \<open>The response to a call in a context: as it is, or wrapped with a message id of this worker.\<close>

lemma respond_effect:
  assumes "documented_pickler (ce_pickler E)" and "worker_wf (sv_worker S)" and "ctx_of (sv_worker S) cid = Some cb" and "contextId cb = cid"
    and "cid \<noteq> kInvalidContextId" and "map_of (sendAutogradFunctions cb) mid = None"
    and "next_autograd_message_id (wk_container (sv_worker S)) = mid" and "mid < max_id (wk_container (sv_worker S))"
    and "wf_worker (wk_self (sv_worker S))" and "small_trailer (ce_pickler E) [IInt cid, IInt mid, IInt (wk_self (sv_worker S)), IDict []]"
    and "m0 = setId i (ScriptResp_toMessage (ce_pickler E) v)"
  shows "\<exists>reply S1. run_layer E th i (AutogradLayer from cid) (Inr m0) S = (Inr (Inr reply), S1) \<and>
    (\<exists>effs \<in> {[], [AddRecvRpcBackward cid mid (m_tensors m0) (wk_self (sv_worker S)) []]}.
       deserializeResponse (ce_runtime E) reply = Inr (ScriptResp v, SCRIPT_RET, effs))"
proof -
  let ?P = "ce_pickler E" and ?W = "enter_ctx th cid (sv_worker S)"
  let ?S = "S\<lparr>sv_worker := ?W\<rparr>"
  have m0: "deserializeResponse (ce_runtime E) m0 = Inr (ScriptResp v, SCRIPT_RET, [])" "m_payload m0 \<noteq> []" "isResponse m0" "m_id m0 = i"
    using assms(1) by (simp_all add: assms(11) deserializeResponse.simps ScriptResp_fromMessage_def ScriptResp_toMessage_def isResponse_types ce_pickler_def)
  have layer: "run_layer E th i (AutogradLayer from cid) (Inr m0) = with_guard th cid
      (bindM (on_worker (getMessageWithAutograd (ce_lib E) ?P th from m0 FORWARD_AUTOGRAD_RESP False [])) (\<lambda>msg. returnM (Inr (setId i msg))))"
    by (simp add: run_layer_def autograd_response_def)
  show ?thesis
  proof (cases "compute_requires_grad (ce_lib E) (wk_autograd ?W) (m_tensors m0)")
    case False
    have "initialized (wk_container ?W)" using assms(2) by (metis enter_ctx_sel(1) worker_wf_def)
    then have "getMessageWithAutograd (ce_lib E) ?P th from m0 FORWARD_AUTOGRAD_RESP False [] ?W = (Inr m0, ?W)"
      using False by (simp add: getMessageWithAutograd_def on_container_def getInstance_def bindM_def)
    moreover have "setId i m0 = m0" using m0(4) by (simp add: setId_def)
    ultimately have "\<exists>S1. run_layer E th i (AutogradLayer from cid) (Inr m0) S = (Inr (Inr m0), S1)"
      unfolding layer by (intro with_guard_result [OF assms(2)]) (simp add: on_worker_def bindM_def)
    with m0 show ?thesis by blast
  next
    case True
    have "list_all (wf_wrap (ce_runtime E)) [WrapAutograd (wk_self ?W) cid mid []]" using assms(9,10) by (simp add: wf_devices_def ce_pickler_def)
    from wrapped_response_back [OF _ this m0(1) _ m0(2,3)] assms(1) obtain m'
      where m': "RpcWithAutograd_toMessage ?P FORWARD_AUTOGRAD_RESP (wk_self ?W) cid mid [] m0 = Inr m'"
        "deserializeResponse (ce_runtime E) m' = Inr (ScriptResp v, SCRIPT_RET, [AddRecvRpcBackward cid mid (m_tensors m0) (wk_self ?W) []])"
      by (auto simp: ce_pickler_def bindE_def split: sum.splits)
    have "m_id m' = i" using m'(1) m0(4) by (auto simp: RpcWithAutograd_toMessage_def Let_def split: if_splits prod.splits)
    then have same: "setId i m' = m'" by (simp add: setId_def)
    obtain W1 where "getMessageWithAutograd (ce_lib E) ?P th from m0 FORWARD_AUTOGRAD_RESP False [] ?W = (Inr m', W1)"
      using send_effect [of ?W th cid cb mid "ce_lib E" m0 ?P FORWARD_AUTOGRAD_RESP "[]" m' "from" False] assms(2-8) True m'(1) by auto
    then have "\<exists>S1. run_layer E th i (AutogradLayer from cid) (Inr m0) S = (Inr (Inr m'), S1)"
      unfolding layer by (intro with_guard_result [OF assms(2)]) (simp add: on_worker_def bindM_def same)
    with m' show ?thesis by auto
  qed
qed

lemma wait_without_users:
  assumes "thread_table x th = []"
  shows "\<exists>x'. recordThreadLocalPendingRRefs th x = (Inr (), x') \<and> thread_table x' th = []"
    and "\<exists>w x'. waitForThreadLocalPendingRRefs th x = (w, x') \<and> snd (waits x' ! w) = Completed"
  using assms by (simp_all add: recordThreadLocalPendingRRefs_def waitForThreadLocalPendingRRefs_def thread_table_def bindM_def Let_def)

lemma serve_effect:
  fixes S :: "('g, 'a) server"
  defines "B \<equiv> sv_worker S"
  assumes "documented_pickler (ce_pickler E)" and "documented_autograd (ce_lib E)" and "worker_wf B" and "thread_table (sv_rrefs S) th = []"
    and "\<forall>cb. ctx_of B cid = Some cb \<longrightarrow> contextId cb = cid \<and> map_of (recvAutogradFunctions cb) mid = None \<and> graphTask cb = None \<and>
      map_of (sendAutogradFunctions cb) mid' = None"
    and "cid \<noteq> kInvalidContextId" and "next_autograd_message_id (wk_container B) = mid'" and "mid' < max_id (wk_container B)"
    and "wf_worker (wk_self B)" and "small_trailer (ce_pickler E) [IInt cid, IInt mid', IInt (wk_self B), IDict []]"
    and "compute_requires_grad (ce_lib E) (wk_autograd B) (m_tensors req)" and "distinct (m_tensors req)"
    and "m_type req = FORWARD_AUTOGRAD_REQ" and "deserializeRequest (ce_runtime E) req = Inr (RpcWithAutograd w cid mid dm (ScriptCall c))"
    and "sc_op c = Some op" and "ce_operation E op (sc_stack c) = Inr [v]"
  shows "\<exists>reply S1. processMessage E th (returnM ()) req S = (Inr (Finished (Inr reply)), S1) \<and>
    (\<exists>effs \<in> {[], [AddRecvRpcBackward cid mid' (m_tensors (ScriptResp_toMessage (ce_pickler E) v)) (wk_self B) []]}.
       deserializeResponse (ce_runtime E) reply = Inr (ScriptResp v, SCRIPT_RET, effs))"
proof -
  let ?i = "m_id req" and ?P = "ce_pickler E" and ?c = "RpcWithAutograd w cid mid dm (ScriptCall c)"
  define m0 where "m0 = setId ?i (ScriptResp_toMessage ?P v)"
  obtain x where x: "recordThreadLocalPendingRRefs th (sv_rrefs S) = (Inr (), x)" "thread_table x th = []"
    using wait_without_users(1) [OF assms(5)] by blast
  obtain k x' where x': "waitForThreadLocalPendingRRefs th x = (k, x')" "snd (waits x' ! k) = Completed"
    using wait_without_users(2) [OF x(2)] by blast
  define S1 where "S1 = S\<lparr>sv_rrefs := x'\<rparr>"
  have recv: "\<forall>cb. ctx_of B cid = Some cb \<longrightarrow> map_of (recvAutogradFunctions cb) mid = None \<and> graphTask cb = None" using assms(6) by blast
  obtain B1 cb where B1: "addRecvRpcBackward (ce_lib E) cid mid (m_tensors req) w (reverse_devices dm []) B = (Inr cid, B1)" "worker_wf B1"
    "ctx_of B1 cid = Some cb" "contextId cb = (case ctx_of B cid of None \<Rightarrow> cid | Some c \<Rightarrow> contextId c)"
    "sendAutogradFunctions cb = (case ctx_of B cid of None \<Rightarrow> [] | Some c \<Rightarrow> sendAutogradFunctions c)"
    "wk_self B1 = wk_self B" "max_id (wk_container B1) = max_id (wk_container B)"
    "next_autograd_message_id (wk_container B1) = next_autograd_message_id (wk_container B)"
    using recv_effect [OF assms(3,4) recv assms(12,13), of w "reverse_devices dm []"] by blast
  let ?S2 = "S1\<lparr>sv_worker := enter_ctx th cid B1\<rparr>"
  have cb: "contextId cb = cid" "map_of (sendAutogradFunctions cb) mid' = None" using B1(4,5) assms(6) by (auto split: option.splits)
  obtain reply S3 where reply: "run_layer E th ?i (AutogradLayer w cid) (Inr m0) ?S2 = (Inr (Inr reply), S3)"
    "\<exists>effs \<in> {[], [AddRecvRpcBackward cid mid' (m_tensors m0) (wk_self B) []]}. deserializeResponse (ce_runtime E) reply = Inr (ScriptResp v, SCRIPT_RET, effs)"
    using respond_effect [OF assms(2), of ?S2 cid cb mid' m0 ?i v th w] B1 cb assms(7-11) by (auto simp: m0_def)
  have "processRpc E th ?i (m_tensors req) (ScriptCall c) ?S2 = (Inr (Finished (Inr m0)), ?S2)"
    by (simp add: processScriptCall_def processScriptCallOp_def assms(16,17) complete_with_def m0_def bindM_def)
  with reply(1) have "bindM (processRpc E th ?i (m_tensors req) (ScriptCall c)) (add_layer E th ?i (AutogradLayer w cid)) ?S2 = (Inr (Finished (Inr reply)), S3)"
    by (simp add: bindM_def add_layer_def)
  then have "\<exists>S4. with_guard th cid (bindM (processRpc E th ?i (m_tensors req) (ScriptCall c)) (add_layer E th ?i (AutogradLayer w cid))) (S1\<lparr>sv_worker := B1\<rparr>)
      = (Inr (Finished (Inr reply)), S4)"
    by (intro with_guard_result) (simp_all add: B1(2))
  then obtain S4 where "processRpc E th ?i (m_tensors req) ?c S1 = (Inr (Finished (Inr reply)), S4)"
    using B1(1) by (auto simp: processForwardAutogradReq_def bindM_def on_worker_def S1_def B_def simp del: processRpc.simps(1))
  then have "processRpcWithErrors E th ?i (m_tensors req) ?c S1 = (Inr (Finished (Inr reply)), S4)"
    by (simp add: processRpcWithErrors_def tryM_def del: processRpc.simps)
  then have "processMessage E th (returnM ()) req S = (Inr (Finished (Inr reply)), S4)"
    using x x' assms(14,15)
    by (simp add: processMessage_def tryM_def bindM_def on_rrefs_def deserializePythonRpcCommand_def S1_def del: processRpc.simps)
  with reply(2) show ?thesis by (simp add: m0_def del: processRpc.simps)
qed

section \<open>Properties\<close>

text \<open>
  C11. A response answers its request. Whatever a request is, however it is wrapped, whether it fails,
  is answered at once or waits: every message the callback produces for it, in processing or in resuming
  it, is a response and carries the id of the request.
\<close>

theorem callback_answers_request:
  "(\<forall>s s' m. processMessage E th unpickled request s = (Inr (Finished (Inr m)), s') \<longrightarrow> m_id m = m_id request \<and> isResponse m) \<and>
   (\<forall>s s' m. resume E th' (m_id request) tensors engine a ls s = (Inr (Finished (Inr m)), s') \<longrightarrow> m_id m = m_id request \<and> isResponse m)"
proof -
  have "yields (answers (m_id request)) (processMessage E th unpickled request)" by (rule processMessage_answers)
  moreover have "yields (answers (m_id request)) (resume E th' (m_id request) tensors engine a ls)" by (rule resume_answers)
  ultimately show ?thesis by (fastforce simp: yields_def is_answer_def)
qed


text \<open>
  C9. A remote call of an operator is faithful end to end. A caller in an autograd context sends a call
  whose tensors require gradients; the agent numbers the message; the callee, which may have the context
  already, deserializes it, attaches its receive function, runs the operator, and answers. The answer has
  the number of the request, and the caller reads from it exactly the value the operator computed; it is
  told to attach a receive function when, and only when, the answer was wrapped, under the context of the
  call and a message id of the callee.
\<close>

theorem rpc_call_end_to_end:
  fixes S :: "('g, 'a) server" and A :: "('g, 'a) rpc_worker" and E :: "'a callback_env"
  defines "T \<equiv> ce_runtime E" and "L \<equiv> ce_lib E" and "P \<equiv> ce_pickler E" and "B \<equiv> sv_worker S"
    and "mid \<equiv> next_autograd_message_id (wk_container A)" and "mid' \<equiv> next_autograd_message_id (wk_container (sv_worker S))"
  assumes "documented_pickler P" and "documented_autograd L"
    and "wf_call (rt_registry T) c" and "sc_op c = Some op" and "ce_operation E op (sc_stack c) = Inr [v]" and "toMessage P (ScriptCall c) = Inr m"
    and "worker_wf A" and "current (wk_container A) th = cid" and "cid \<noteq> kInvalidContextId" and "ctx_of A cid = Some ca" and "contextId ca = cid"
    and "map_of (sendAutogradFunctions ca) mid = None" and "mid < max_id (wk_container A)"
    and "compute_requires_grad L (wk_autograd A) (m_tensors m)" and "distinct (m_tensors m)"
    and "wf_worker (wk_self A)" and "wf_devices dm" and "small_trailer P [IInt cid, IInt mid, IInt (wk_self A), IDict dm]"
    and "worker_wf B" and "thread_table (sv_rrefs S) th' = []"
    and "\<forall>cb. ctx_of B cid = Some cb \<longrightarrow> contextId cb = cid \<and> map_of (recvAutogradFunctions cb) mid = None \<and> graphTask cb = None \<and>
      map_of (sendAutogradFunctions cb) mid' = None"
    and "mid' < max_id (wk_container B)" and "wf_worker (wk_self B)" and "small_trailer P [IInt cid, IInt mid', IInt (wk_self B), IDict []]"
    and "compute_requires_grad L (wk_autograd B) (m_tensors m)"
  shows "\<exists>m' A1 reply S1. getMessageWithAutograd L P th dst m FORWARD_AUTOGRAD_REQ force dm A = (Inr m', A1) \<and>
    processMessage E th' (returnM ()) (setId i m') S = (Inr (Finished (Inr reply)), S1) \<and> m_id reply = i \<and>
    (\<exists>effs \<in> {[], [AddRecvRpcBackward cid mid' (m_tensors (ScriptResp_toMessage P v)) (wk_self B) []]}.
       deserializeResponse T reply = Inr (ScriptResp v, SCRIPT_RET, effs))"
proof -
  let ?c = "RpcWithAutograd (wk_self A) cid mid dm (ScriptCall c)"
  have P: "rt_pickler T = P" by (simp add: T_def P_def ce_pickler_def)
  have "wf_request T ?c" using assms(9,22,23,24) P by simp
  then obtain m' where m': "toMessage P ?c = Inr m'" "deserializeRequest T m' = Inr ?c"
    using request_back [of T ?c] assms(7) P by auto
  then have w: "RpcWithAutograd_toMessage P FORWARD_AUTOGRAD_REQ (wk_self A) cid mid dm m = Inr m'" using assms(12) by simp
  then have same: "m_tensors m' = m_tensors m" "m_type m' = FORWARD_AUTOGRAD_REQ"
    by (auto simp: RpcWithAutograd_toMessage_def Let_def split: if_splits prod.splits)
  obtain A1 where A1: "getMessageWithAutograd L P th dst m FORWARD_AUTOGRAD_REQ force dm A = (Inr m', A1)"
    using send_effect [OF assms(13-18) _ assms(19,20) w, of dst force] by (auto simp: mid_def)
  let ?r = "setId i m'"
  have r: "deserializeRequest (ce_runtime E) ?r = Inr ?c" using m'(2) by (simp add: deserializeRequest_setId T_def)
  have ts: "compute_requires_grad (ce_lib E) (wk_autograd (sv_worker S)) (m_tensors ?r)" "distinct (m_tensors ?r)"
    using assms(21,31) same by (simp_all add: L_def B_def)
  have next_id: "next_autograd_message_id (wk_container (sv_worker S)) = mid'" by (simp add: mid'_def)
  have "m_type ?r = FORWARD_AUTOGRAD_REQ" using same by simp
  from serve_effect [OF assms(7,8) [unfolded P_def L_def] assms(25) [unfolded B_def] assms(26,27) [unfolded B_def] assms(15) next_id
      assms(28,29,30) [unfolded B_def P_def] ts this r assms(10,11)]
  obtain reply S1 where reply: "processMessage E th' (returnM ()) ?r S = (Inr (Finished (Inr reply)), S1)"
    "\<exists>effs \<in> {[], [AddRecvRpcBackward cid mid' (m_tensors (ScriptResp_toMessage P v)) (wk_self B) []]}.
       deserializeResponse T reply = Inr (ScriptResp v, SCRIPT_RET, effs)"
    using same by (auto simp: B_def P_def T_def mid'_def)
  have "yields (answers (m_id ?r)) (processMessage E th' (returnM ()) ?r)" by (rule processMessage_answers)
  then have "m_id reply = i" using reply(1) by (fastforce simp: yields_def is_answer_def)
  with A1 reply show ?thesis by blast
qed


text \<open>
  A response that was deferred can be lost: when the context of the call has been released by the time a
  fetched value is set, wrapping the response throws in the callback, and the future of the request is
  neither completed nor failed.
\<close>

lemma deferred_response_lost:
  assumes "worker_wf (sv_worker S)" and "ctx_of (sv_worker S) cid = None" and "cid \<noteq> kInvalidContextId"
    and "getValue (objs (sv_rrefs S) ! p) = Inr k" and "toMessage (ce_pickler E) (ScriptRRefFetchRet [sv_values S ! k]) = Inr m"
    and "compute_requires_grad (ce_lib E) (wk_autograd (sv_worker S)) (m_tensors m)"
  shows "\<exists>e S1. resume E th i tensors engine (AwaitValue p) [AutogradLayer w cid] S = (Inl e, S1)"
proof -
  let ?W = "enter_ctx th cid (sv_worker S)"
  have v: "value_future (objs (sv_rrefs S) ! p) = Some (Inr k)" using assms(4) by (auto simp: getValue_def split: if_splits option.splits sum.splits)
  have "initialized (wk_container ?W)" using assms(1) by (metis enter_ctx_sel(1) worker_wf_def)
  moreover have "shard_find (autograd_contexts (wk_container ?W)) cid = None" using assms(2) by (simp add: ctx_of_def enter_ctx_def forceCurrentContextId_def)
  ultimately have "\<exists>e W1. getMessageWithAutograd (ce_lib E) (ce_pickler E) th w (setId i m) FORWARD_AUTOGRAD_RESP False [] ?W = (Inl e, W1)"
    using assms(3,6) by (simp add: getMessageWithAutograd_def on_container_def getInstance_def hasValidContext_def currentContext_def bindM_def)
  then obtain e W1 where "getMessageWithAutograd (ce_lib E) (ce_pickler E) th w (setId i m) FORWARD_AUTOGRAD_RESP False [] ?W = (Inl e, W1)" by blast
  then have "\<exists>S1. run_layer E th i (AutogradLayer w cid) (Inr (setId i m)) S = (Inl e, S1)"
    unfolding run_layer_def autograd_response_def layer.simps sum.simps by (intro with_guard_result [OF assms(1)]) (simp add: on_worker_def bindM_def)
  then show ?thesis using assms(4,5) v by (auto simp: ownerValue_def tryM_def bindM_def simp del: toMessage.simps)
qed

subsection \<open>Concrete runs\<close>

definition sample_env :: "(nat list \<times> (nat \<Rightarrow> edge)) callback_env" where
  "sample_env = \<lparr>ce_runtime = sample_runtime, ce_lib = sample_lib, ce_types = sample_types, ce_operation = (\<lambda>op stack. Inr [ITensor 7]),
     ce_return_type = (\<lambda>op. 0), ce_handleRRefDelete = handleRRefDelete sample_types, ce_cudaAvailable = False, ce_cuda_config = (\<lambda>_. False),
     ce_cpu_config = id, ce_events = (\<lambda>_. []), ce_agent = None\<rparr>"

definition sample_server :: "(nat, nat list \<times> (nat \<Rightarrow> edge)) server" where
  "sample_server = \<lparr>sv_rrefs = rref_context_new 1 [0, 1], sv_worker = sample_worker 1, sv_values = []\<rparr>"

definition sample_script_call :: script_call where
  "sample_script_call = \<lparr>sc_op = Some \<lparr>op_name = ''aten::add'', op_schema = ''aten::add(Tensor)''\<rparr>, sc_qualifiedName = None,
     sc_stack = [ITensor 5, IInt 2], sc_isAsyncExecution = False\<rparr>"

lemma sample_worker_1: "initialized (wk_container (sample_worker 1))" "worker_id (wk_container (sample_worker 1)) = 1"
  "next_autograd_message_id (wk_container (sample_worker 1)) = 2 ^ 48" "2 ^ 48 < max_id (wk_container (sample_worker 1))"
  by code_simp+

theorem callback_answers_request_witness:
  "\<exists>m s'. processMessage sample_env 0 (returnM ()) \<lparr>m_payload = [], m_tensors = [], m_type = UNKNOWN, m_id = 12\<rparr> sample_server = (Inr (Finished (Inr m)), s') \<and>
     m_id m = 12 \<and> isResponse m"
proof -
  let ?r = "\<lparr>m_payload = [], m_tensors = [], m_type = UNKNOWN, m_id = 12\<rparr> :: nat message"
  have "deserializeRequest sample_runtime ?r = Inl (C10_assert ''Request type not supported.'')" by (simp add: deserializeRequest.simps)
  then obtain m s' where "processMessage sample_env 0 (returnM ()) ?r sample_server = (Inr (Finished (Inr m)), s')"
    by (simp add: processMessage_def sample_env_def sample_server_def rref_context_new_def tryM_def bindM_def on_rrefs_def recordThreadLocalPendingRRefs_def
        thread_table_def umap_at_def answer_error_def on_worker_def on_container_def getInstance_def sample_worker_1)
  with callback_answers_request [of sample_env 0 "returnM ()" ?r] show ?thesis by fastforce
qed

lemma put_int_length: "\<bar>i\<bar> < 10 ^ 19 \<Longrightarrow> length (put_int i) \<le> 40"
proof -
  assume "\<bar>i\<bar> < 10 ^ 19"
  then have "nat i < 10 ^ 19" "nat (- i) < 10 ^ 19" by simp_all
  then have "length (nat_to_string (nat i)) \<le> 19" "length (nat_to_string (nat (- i))) \<le> 19" using length_nat_to_string [where k = 19] by auto
  then show ?thesis by (simp add: put_int_def put_nat_def)
qed

lemma autograd_trailer_small:
  assumes "\<bar>cid\<bar> < 10 ^ 19" and "\<bar>mid\<bar> < 10 ^ 19" and "\<bar>w\<bar> < 10 ^ 19"
  shows "small_trailer prefix_pickler [IInt cid, IInt mid, IInt w, IDict []]"
proof -
  have "\<bar>type_value ty\<bar> < 10 ^ 19" for ty
    using uint_bounded [of "message_code ty"] by (simp add: type_value_def)
  then have ty: "length (put_int (type_value ty)) \<le> 40" for ty by (rule put_int_length)
  have "length (put_int cid) \<le> 40" "length (put_int mid) \<le> 40" "length (put_int w) \<le> 40" using assms by (simp_all add: put_int_length)
  then have "length (put_value (ITuple [IInt (type_value ty), IInt cid, IInt mid, IInt w, IDict []])) < 2 ^ 63" for ty
    using ty [of ty] by simp
  then show ?thesis by (simp add: small_trailer_def list_all_iff prefix_pickler_def del: put_value.simps)
qed

lemma sample_answer_trailer: "small_trailer prefix_pickler [IInt 0, IInt (2 ^ 48), IInt 1, IDict []]"
  by (rule autograd_trailer_small) simp_all

lemma sample_call_message:
  "\<exists>m. toMessage prefix_pickler (ScriptCall sample_script_call) = Inr m \<and> m_tensors m = [5]"
proof -
  have "ScriptCall_toIValues sample_script_call = Inr [ITensor 5, IInt 2, IString ''aten::add(Tensor)'', IString ''torch.ops.aten.add'']" by code_simp
  then show ?thesis by (simp add: ScriptCall_toMessage_def message_with_def prefix_pickler_def)
qed

theorem rpc_call_end_to_end_witness:
  "\<exists>m m' A1 reply S1. toMessage prefix_pickler (ScriptCall sample_script_call) = Inr m \<and>
     getMessageWithAutograd sample_lib prefix_pickler 0 1 m FORWARD_AUTOGRAD_REQ False [(0, 1)] (sample_worker 0) = (Inr m', A1) \<and>
     processMessage sample_env 0 (returnM ()) (setId 12 m') sample_server = (Inr (Finished (Inr reply)), S1) \<and> m_id reply = 12 \<and>
     (\<exists>effs. deserializeResponse sample_runtime reply = Inr (ScriptResp (ITensor 7), SCRIPT_RET, effs))"
proof -
  obtain m where m: "toMessage prefix_pickler (ScriptCall sample_script_call) = Inr m" "m_tensors m = [5]" using sample_call_message by blast
  have E: "ce_runtime sample_env = sample_runtime" "ce_lib sample_env = sample_lib" "ce_pickler sample_env = prefix_pickler" "sv_worker sample_server = sample_worker 1"
    by (simp_all add: sample_env_def ce_pickler_def sample_runtime_sel sample_server_def)
  have c: "wf_call (rt_registry sample_runtime) sample_script_call" using sample_call_wf by (simp add: sample_script_call_def)
  have op: "sc_op sample_script_call = Some \<lparr>op_name = ''aten::add'', op_schema = ''aten::add(Tensor)''\<rparr>" by (simp add: sample_script_call_def)
  have run: "ce_operation sample_env o' st = Inr [ITensor 7]" for o' st by (simp add: sample_env_def)
  have g: "compute_requires_grad sample_lib (wk_autograd (sample_worker w)) (m_tensors m)" for w by (simp add: m(2) sample_worker_def sample_lib_def)
  note A = sample_worker_ok [of 0, simplified] and B = sample_worker_ok [of 1, simplified]
  have tab: "thread_table (sv_rrefs sample_server) 0 = []" by (simp add: sample_server_def rref_context_new_def thread_table_def umap_at_def)
  have wf: "wf_worker 0" "wf_worker 1" "wf_devices [(0, 1)]" by (simp_all add: wf_worker_def wf_devices_def worker_id_max_def)
  note e2e = rpc_call_end_to_end [of sample_env sample_script_call _ "ITensor 7" m "sample_worker 0" 0 0 "new_context 0" "[(0, 1)]" sample_server 0 1 False 12,
      unfolded E A(4,7) B(7) sample_worker_1(3)]
  have "\<exists>m' A1 reply S1. getMessageWithAutograd sample_lib prefix_pickler 0 1 m FORWARD_AUTOGRAD_REQ False [(0, 1)] (sample_worker 0) = (Inr m', A1) \<and>
     processMessage sample_env 0 (returnM ()) (setId 12 m') sample_server = (Inr (Finished (Inr reply)), S1) \<and> m_id reply = 12 \<and>
     (\<exists>effs \<in> {[], [AddRecvRpcBackward 0 (2 ^ 48) (m_tensors (ScriptResp_toMessage prefix_pickler (ITensor 7))) 1 []]}.
       deserializeResponse sample_runtime reply = Inr (ScriptResp (ITensor 7), SCRIPT_RET, effs))"
    by (rule e2e [OF prefix_pickler_documented sample_lib_documented c op run m(1) A(1,3)])
       (use A(2,5) B(1,2) g wf tab sample_trailer sample_answer_trailer sample_worker_1 m(2) in \<open>auto simp: kInvalidContextId_def new_context_def\<close>)
  with m(1) show ?thesis by blast
qed

end
