(* ===== verification/Spec2Isabelle.thy ===== *)
theory Spec2Isabelle
  imports HashStore TCPStore_Client FileStore Reducer_Correct Collective_Checks
    ProcessGroup_HCCL ProcessGroup_MPI DistAutograd_Container DistEngine RRef_Protocol Request_Callback
begin

text \<open>
  \<^bold>\<open>A verification development of the distributed runtime under \<^verbatim>\<open>src/csrc/c10d/distributed\<close>.\<close>

  \<^bold>\<open>The program.\<close> The repository is the C++ part of PyTorch's distributed package, changed to run on
  Ascend NPUs. It has three layers. \<^verbatim>\<open>c10d\<close> holds key-value stores through which processes find each
  other, process groups that run collective operations over a communication library, and the
  gradient reducer of data parallel training. \<^verbatim>\<open>rpc\<close> holds agents that send messages between workers
  and the reference-counting protocol of remote references. \<^verbatim>\<open>autograd\<close> keeps, per backward pass, the
  state that makes backpropagation cross RPC boundaries. The layers interact as follows: a process
  group exchanges its communicator identities through a store; the reducer submits buckets to a
  process group from the hooks of the autograd engine and rebuilds its buckets after a broadcast over
  the group; an RPC agent sends its messages through a process group; remote references and autograd
  contexts are managed by messages of the agent.

  \<^bold>\<open>Conventions.\<close> \<^verbatim>\<open>C10d_Prelude\<close> has the result type \<open>exn + 'a\<close> (\<open>Inl\<close> for every throw, failed check or
  abort of the source), the state monad \<open>('s, 'a) cmd\<close> whose operations return the changed state also
  when they throw, association lists for \<^verbatim>\<open>std::unordered_map\<close>, bytes and 64-bit values as words, and
  the generic lemmas and simplification sets. A function of the source is a definition with the same
  name where the name is free, with a prefix for its class otherwise. Code outside the repository
  (tensor library, communication libraries, pickler, clocks, the operating system) is an argument of
  the definitions that use it; a theorem that relies on it names what it assumes as a hypothesis.
  Threads are interleavings: each step is what the source does under one lock, a blocked thread is
  part of the state, a reachability predicate collects the steps.

  \<^bold>\<open>Stores\<close> (\<^verbatim>\<open>Store.hpp\<close>, \<^verbatim>\<open>PrefixStore.cpp\<close>, \<^verbatim>\<open>HashStore.cpp\<close>, \<^verbatim>\<open>TCPStore.cpp\<close>, \<^verbatim>\<open>FileStore.cpp\<close>, \<^verbatim>\<open>Utils.hpp\<close>).
  \<^verbatim>\<open>Store_Interface\<close> states the contract of a store as the locale \<open>store\<close> and proves once that a
  prefixed store satisfies it. \<^verbatim>\<open>HashStore\<close> models the map with its condition variable: waiting threads
  are in the state, and outside \<^verbatim>\<open>add\<close> no wake-up is lost. \<^verbatim>\<open>Tcp_Wire\<close> models the transfer loops over
  partial sends, receives and interrupts; \<^verbatim>\<open>TCPStore_Daemon\<close> the poll loop and all handlers over byte
  streams; \<^verbatim>\<open>TCPStore_Client\<close> the client and the composition of both, from a call to the bytes, the
  daemon's turn and the decoded answer. \<^verbatim>\<open>FileStore\<close> models the shared append-only file with the caches of
  the processes. Each store interprets the locale on its own operations.

  \<^bold>\<open>Reducer\<close> (\<^verbatim>\<open>reducer.cpp\<close>, \<^verbatim>\<open>reducer.hpp\<close>). \<^verbatim>\<open>Bucketing\<close>: the assignment of tensors to buckets is a
  partition, homogeneous and bounded. \<^verbatim>\<open>Reducer\<close>: data, hooks, marking, launching, graph traversal,
  finalizing, over an explicit heap of storages, because bucket views alias the bucket contents.
  \<^verbatim>\<open>Reducer_Order\<close>: the counters implement a scheduler that launches the longest prefix of complete
  buckets, once and in order. \<^verbatim>\<open>Reducer_Init\<close>, \<^verbatim>\<open>Reducer_Data\<close>, \<^verbatim>\<open>Reducer_Setup\<close>: construction, layout
  invariants and rebuilding. \<^verbatim>\<open>Reducer_Correct\<close>: one iteration on one process, and unused parameters
  as unreachability in the autograd graph. The first theorem of this theory composes the processes:
  all end the backward pass with the same sum of gradients.

  \<^bold>\<open>Process groups\<close> (\<^verbatim>\<open>ProcessGroup.cpp\<close>, \<^verbatim>\<open>ProcessGroupRoundRobin.cpp\<close>, \<^verbatim>\<open>ProcessGroupHCCL.cpp\<close>,
  \<^verbatim>\<open>ProcessGroupGloo.cpp\<close>, \<^verbatim>\<open>ProcessGroupMPI.cpp\<close>, \<^verbatim>\<open>Utils.hpp\<close>). \<^verbatim>\<open>Collective_Checks\<close>: argument checks and split sizes.
  \<^verbatim>\<open>ProcessGroup_Work\<close>: the work object with its waiting threads, and the round-robin group.
  \<^verbatim>\<open>ProcessGroup_HCCL\<close>: communicator cache, exchange of root identities over the store, stream and event
  order, blocking waits. \<^verbatim>\<open>Gloo_Pool\<close>: queue, worker threads, barrier and destructor as an interleaving,
  shown free of deadlock. \<^verbatim>\<open>Gloo_Collectives\<close>: checks and dispatch of all collectives, tags that agree
  across processes. \<^verbatim>\<open>Gloo_Runs\<close>: what a worker does with the tensors, the sparse all-reduce included.
  \<^verbatim>\<open>MPI_Collectives\<close>: the collectives over MPI, as the calls they make on flat buffers and what they do
  with the answers. \<^verbatim>\<open>ProcessGroup_MPI\<close>: start-up, point-to-point works, and the queue with its worker;
  calls stay in order and destruction ends.

  \<^bold>\<open>RPC\<close> (\<^verbatim>\<open>message.cpp\<close>, \<^verbatim>\<open>utils.cpp\<close>, \<^verbatim>\<open>rpc_agent.cpp\<close>, \<^verbatim>\<open>process_group_agent.cpp\<close>, \<^verbatim>\<open>rref_context.cpp\<close>,
  \<^verbatim>\<open>rref_impl.cpp\<close>, \<^verbatim>\<open>types.cpp\<close>). \<^verbatim>\<open>Rpc_Wire\<close>: message types, the sectioned wire format and wrapped payloads
  with their round trips. \<^verbatim>\<open>Rpc_Commands\<close>: the classes of requests and responses (\<^verbatim>\<open>script_call.cpp\<close>,
  \<^verbatim>\<open>rref_proto.cpp\<close>, \<^verbatim>\<open>autograd/rpc_messages\<close> and others), the dispatch on message types, and the round trip of
  every command however often it is wrapped. \<^verbatim>\<open>Rpc_Agent\<close>: retries with back-off. \<^verbatim>\<open>ProcessGroup_Agent\<close>: pending requests,
  time-outs, counters. \<^verbatim>\<open>RRef_Context\<close>: the tables of remote references and every operation on them.
  \<^verbatim>\<open>Request_Callback\<close>: the handlers of all requests on the callee (\<^verbatim>\<open>request_callback_no_python.cpp\<close>), deferred
  responses included, and a call followed from the caller through the callee and back.
  \<^verbatim>\<open>RRef_Protocol\<close>: a system of workers over these tables in which messages may be delayed, reordered,
  repeated or lost; an owner outlives its users.

  \<^bold>\<open>Distributed autograd\<close> (\<^verbatim>\<open>context/context.cpp\<close>, \<^verbatim>\<open>context/container.cpp\<close>, \<^verbatim>\<open>engine/dist_engine.cpp\<close>).
  \<^verbatim>\<open>DistEngine_Graph\<close>: roots, dependencies and captures of a backward pass over the local graph, counted
  exactly. \<^verbatim>\<open>DistEngine\<close>: the pass itself as an interleaving of closures, the global CPU thread, device
  threads and arriving gradients over one graph task; a pass is reported when it is done and never gets
  stuck. The local autograd engine is a parameter. \<^verbatim>\<open>DistAutograd_Rpc\<close> (\<^verbatim>\<open>utils.cpp\<close>, \<^verbatim>\<open>functions\<close>, the remote
  profiler manager): attaching send and receive functions to messages; gradients return along the
  edges the tensors left by. \<^verbatim>\<open>DistAutograd_Context\<close>: send
  and receive functions, outstanding RPCs and their future, gradients. \<^verbatim>\<open>DistAutograd_Container\<close>: sharded
  map of contexts, ids unique across workers, release.

  \<^bold>\<open>Loops, bounds and fuel.\<close> Loops over data are structural recursion. The poll loop, the graph
  traversals and the shard computation are \<open>function\<close>s with a measure. Loops that wait for the outside world
  (transfer loops, blocking waits, retries) run over the list of the outcomes that the environment
  supplies, and their theorems say which outcomes make them return. Integers are words or have their
  wrap-around written out where the source can overflow; sizes of buffers in memory are naturals.

  \<^bold>\<open>Not modelled.\<close> Python bindings and the interpreter side of RPC (\<^verbatim>\<open>init.cpp\<close> files, \<^verbatim>\<open>python_*.cpp\<close>,
  \<^verbatim>\<open>py_rref.cpp\<close> beyond unpickling): glue to an interpreter that is not part of the repository. Socket set-up
  and device look-up (\<^verbatim>\<open>Utils.cpp\<close>, \<^verbatim>\<open>UnixSockUtils.hpp\<close>, \<^verbatim>\<open>GlooDeviceFactory.cpp\<close>): operating system calls. CUDA
  variants of the Gloo works: copies on device streams around the modelled runs. Profiler, metrics,
  test agents, tests and examples. \<^verbatim>\<open>ProcessGroupNCCL.cpp\<close> and \<^verbatim>\<open>tensorpipe_agent.cpp\<close>: they are written against
  libraries that are not part of the repository (NCCL streams, TensorPipe pipes and contexts) call by call;
  \<^verbatim>\<open>ProcessGroup_HCCL\<close> and \<^verbatim>\<open>ProcessGroup_Agent\<close> model the counterparts that this repository adds and uses.
  \<^verbatim>\<open>frontend.cpp\<close> and \<^verbatim>\<open>comm.cpp\<close>: registries and coalescing over the groups. The process-wide mutex that
  \<^verbatim>\<open>ProcessGroupMPI\<close> holds around MPI calls: a run is one step.
\<close>

section \<open>Data parallel training\<close>

text \<open>The elementwise sum of vectors of one length.\<close>

definition vsum :: "'v :: comm_monoid_add list list \<Rightarrow> 'v list" where
  "vsum xss = map (\<lambda>k. sum_list (map (\<lambda>xs. xs ! k) xss)) [0..<length (hd xss)]"

lemma length_vsum [simp]: "length (vsum xss) = length (hd xss)"
  by (simp add: vsum_def)

lemma chop_concat: "map length xss = lens \<Longrightarrow> chop lens (concat xss) = xss"
  by (induction xss arbitrary: lens) auto

lemma vsum_chop:
  assumes "xss \<noteq> []" and "\<forall>xs\<in>set xss. length xs = sum_list lens" and "j < length lens"
  shows "chop lens (vsum xss) ! j = vsum (map (\<lambda>xs. chop lens xs ! j) xss)"
proof (rule nth_equalityI)
  have h: "length (hd xss) = sum_list lens" using assms(1,2) by simp
  have l: "length (chop lens (vsum xss) ! j) = lens ! j" using assms(3) h by (simp add: length_chop_nth)
  moreover have l': "length (chop lens (hd xss) ! j) = lens ! j" using assms(3) h by (simp add: length_chop_nth)
  ultimately show "length (chop lens (vsum xss) ! j) = length (vsum (map (\<lambda>xs. chop lens xs ! j) xss))"
    using assms(1) by (simp add: hd_map)
  fix k assume "k < length (chop lens (vsum xss) ! j)"
  then have k: "k < lens ! j" using l by simp
  note ob = offset_bound [OF assms(3)]
  have n: "chop lens xs ! j ! k = xs ! (offset_of lens j + k)" if "length xs = sum_list lens" for xs :: "'a list"
    using that k ob assms(3) by (simp add: chop_nth)
  have "chop lens (vsum xss) ! j ! k = sum_list (map (\<lambda>xs. xs ! (offset_of lens j + k)) xss)"
    using n [of "vsum xss"] h k ob by (simp add: vsum_def)
  moreover have "vsum (map (\<lambda>xs. chop lens xs ! j) xss) ! k = sum_list (map (\<lambda>xs. xs ! (offset_of lens j + k)) xss)"
    using l' k assms(1,2) n by (simp add: vsum_def hd_map comp_def cong: map_cong)
  ultimately show "chop lens (vsum xss) ! j ! k = vsum (map (\<lambda>xs. chop lens xs ! j) xss) ! k" by simp
qed

fun request_tensors :: "'v request \<Rightarrow> 'v list list" where
  "request_tensors (Allreduce b ts) = ts"
| "request_tensors (RunHook b ts os ls szs) = ts"
| "request_tensors (AllreduceUsed m) = []"

text \<open>
  A process before its backward pass: its reducer is between iterations, over the variables \<open>vars\<close>
  with the buckets \<open>bs\<close>, and its engine will deliver the gradients \<open>G\<close> in the order \<open>is\<close>.
\<close>

definition ready_process ::
    "variable list list \<Rightarrow> nat list list \<Rightarrow> int \<Rightarrow> 'v group \<Rightarrow> VariableIndex list \<Rightarrow> (VariableIndex \<Rightarrow> 'v list) \<Rightarrow> 'v reducer \<Rightarrow> bool" where
  "ready_process vars bs D grp is G s \<longleftrightarrow> data_ok s \<and> divFactor s = kUnsetDivFactor \<and> factor grp s = Some D \<and>
     replicas s = vars \<and> map b_variable_indices (buckets s) = bs \<and> distinct is \<and> set is = all_vars s \<and>
     (\<forall>i\<in>all_vars s. length (G i) = var_numel (vars ! replica_index i ! variable_index i))"

definition scaled :: "'v tensor_lib \<Rightarrow> int \<Rightarrow> (VariableIndex \<Rightarrow> 'v list) \<Rightarrow> VariableIndex \<Rightarrow> 'v list" where
  "scaled lib D G i = map (tl_mul_recip lib D) (G i)"

lemma ready_bucket:
  assumes "ready_process vars bs D grp is G s" and "b < length bs" and "r < length vars"
    and "\<forall>r<length vars. \<forall>v<length (vars ! r). var_numel (vars ! r ! v) = sizes ! v"
  shows "b < length (buckets s)" "b_variable_indices (buckets s ! b) = bs ! b" "lens_at s b r = map (\<lambda>v. sizes ! v) (bs ! b)"
    "\<forall>v\<in>set (bs ! b). length (G (var_at r v)) = sizes ! v"
proof -
  have d: "data_ok s" and bi: "map b_variable_indices (buckets s) = bs" and rs: "replicas s = vars" using assms(1) by (auto simp: ready_process_def)
  show b: "b < length (buckets s)" using bi assms(2) by auto
  show idx: "b_variable_indices (buckets s ! b) = bs ! b" using bi b by auto
  have rg: "in_range s b r" using b rs assms(3) by simp
  have v: "v < length (vars ! r)" if "v \<in> set (bs ! b)" for v
    using dense_okD(1) [OF data_okD(3) [OF d] rg] that by (simp add: dense_replica_def idx rs)
  then show "lens_at s b r = map (\<lambda>v. sizes ! v) (bs ! b)" using assms(3,4) by (simp add: lens_at_def idx rs)
  have "var_at r v \<in> all_vars s" if "v \<in> set (bs ! b)" for v
    using bucket_vars_all(1) [OF data_okD(2) [OF d] b] that assms(3) by (auto simp: bucket_vars_def idx rs)
  then show "\<forall>v\<in>set (bs ! b). length (G (var_at r v)) = sizes ! v"
    using assms(1,3,4) v by (fastforce simp: ready_process_def)
qed

text \<open>The tensors of all processes that are reduced together, and what a part of their sum is.\<close>

definition bucket_tensors :: "'v tensor_lib \<Rightarrow> int \<Rightarrow> nat \<Rightarrow> (nat \<Rightarrow> VariableIndex \<Rightarrow> 'v list) \<Rightarrow> nat \<Rightarrow> nat list \<Rightarrow> 'v list list" where
  "bucket_tensors lib D P G R vs = concat (map (\<lambda>q. flat lib D (G q) R vs) [0..<P])"

definition all_gradients :: "'v tensor_lib \<Rightarrow> int \<Rightarrow> nat \<Rightarrow> (nat \<Rightarrow> VariableIndex \<Rightarrow> 'v list) \<Rightarrow> nat \<Rightarrow> nat \<Rightarrow> 'v list list" where
  "all_gradients lib D P G R v = concat (map (\<lambda>q. map (\<lambda>r. scaled lib D (G q) (var_at r v)) [0..<R]) [0..<P])"

lemma bucket_tensors_parts:
  assumes len: "\<forall>q<P. \<forall>r<R. \<forall>v\<in>set vs. length (G q (var_at r v)) = sizes ! v" and "0 < P" and "0 < R" and j: "j < length vs"
  defines "lens \<equiv> map (\<lambda>v. sizes ! v) vs"
  shows "chop lens (vsum (bucket_tensors lib D P G R vs)) ! j = vsum (all_gradients lib D P G R (vs ! j))"
    "length (hd (bucket_tensors lib D P G R vs)) = sum_list lens"
proof -
  let ?x = "\<lambda>q r. map (\<lambda>v. scaled lib D (G q) (var_at r v)) vs"
  have bt: "bucket_tensors lib D P G R vs = concat (map (\<lambda>q. map (\<lambda>r. concat (?x q r)) [0..<R]) [0..<P])"
    by (simp add: bucket_tensors_def flat_def scaled_def)
  have ml: "map length (?x q r) = lens" if "q < P" "r < R" for q r using len that by (simp add: scaled_def lens_def comp_def)
  have ne: "bucket_tensors lib D P G R vs \<noteq> []" using assms(2,3) by (auto simp: bt)
  have all: "\<forall>xs\<in>set (bucket_tensors lib D P G R vs). length xs = sum_list lens" using ml by (auto simp: bt length_concat)
  then show "length (hd (bucket_tensors lib D P G R vs)) = sum_list lens" using ne by simp
  have "map (\<lambda>xs. chop lens xs ! j) (bucket_tensors lib D P G R vs) = all_gradients lib D P G R (vs ! j)"
    unfolding bt all_gradients_def map_concat map_map comp_def
    by (intro arg_cong [of _ _ concat] map_cong refl) (use ml j in \<open>simp add: chop_concat\<close>)
  moreover have "j < length lens" using j by (simp add: lens_def)
  ultimately show "chop lens (vsum (bucket_tensors lib D P G R vs)) ! j = vsum (all_gradients lib D P G R (vs ! j))"
    using vsum_chop [OF ne all] by simp
qed

text \<open>
  C1. Distributed data parallel training, over \<open>P\<close> processes whose reducers have the same
  parameters and buckets: when the process group sums the tensors that the processes submit for a
  bucket, then every process finishes its backward pass, in whatever order its gradients arrive, with
  the same gradients: for each parameter the sum of the scaled gradients of all replicas of all
  processes.
\<close>

theorem ddp_gradients_agree:
  fixes G :: "nat \<Rightarrow> VariableIndex \<Rightarrow> 'v :: comm_monoid_add list"
  assumes "copies lib" and "0 < P" and "\<forall>p<P. ready_process vars bs D (grp p) (is p) (G p) (s p)"
    and "\<forall>r<length vars. \<forall>v<length (vars ! r). var_numel (vars ! r ! v) = sizes ! v"
    and "\<forall>p<P. \<forall>b<length bs. g_allreduced (grp p) (length (pg_log (s p)) + b) =
       replicate (length vars) (vsum (concat (map (\<lambda>q. request_tensors (expected_request lib D (G q) (s q) b)) [0..<P])))"
    and "p < P"
  shows "\<exists>s1 s2. for_each (backward_event lib (grp p)) (map (\<lambda>i. (i, G p i)) (is p)) (prepare_for_backward g outputs (s p)) = (Inr (), s1) \<and>
    pg_log s1 = pg_log (s p) @ map (expected_request lib D (G p) (s p)) [0..<length bs] \<and>
    finalize_backward lib (grp p) s1 = (Inr (), s2) \<and>
    (\<forall>i\<in>all_vars (s p). map_option (tensor_read (storages s2)) (map_of (grads s2) i) = Some (vsum (all_gradients lib D P G (length vars) (variable_index i))))"
proof -
  let ?R = "length vars" and ?s = "s p"
  define res where "res = (\<lambda>br :: nat \<times> nat. vsum (bucket_tensors lib D P G ?R (bs ! fst br)))"
  have rp: "ready_process vars bs D (grp p) (is p) (G p) ?s" using assms(3,6) by blast
  then have d: "data_ok ?s" and rs: "replicas ?s = vars" and lb: "length (buckets ?s) = length bs"
    by (auto simp: ready_process_def)
  have R: "0 < ?R" using d rs by (simp add: data_ok_def)
  have rb: "b_variable_indices (buckets (s q) ! b) = bs ! b" "\<forall>r<?R. lens_at (s q) b r = map (\<lambda>v. sizes ! v) (bs ! b)"
    "\<forall>r<?R. \<forall>v\<in>set (bs ! b). length (G q (var_at r v)) = sizes ! v" "replicas (s q) = vars" if "q < P" "b < length bs" for q b
    using ready_bucket [OF assms(3) [rule_format, OF that(1)] that(2) _ assms(4)] R assms(3) that(1) by (auto simp: ready_process_def)
  have parts: "chop (map (\<lambda>v. sizes ! v) (bs ! b)) (res (b, r)) ! j = vsum (all_gradients lib D P G ?R (bs ! b ! j))"
    "length (res (b, r)) = sum_list (map (\<lambda>v. sizes ! v) (bs ! b))" if "b < length bs" "j < length (bs ! b)" for b r j
    using bucket_tensors_parts [of P ?R "bs ! b" G sizes j lib D] rb(3) that assms(2) R by (simp_all add: res_def)
  have tn: "concat (map (\<lambda>q. request_tensors (expected_request lib D (G q) (s q) b)) [0..<P]) = bucket_tensors lib D P G ?R (bs ! b)" if "b < length bs" for b
    unfolding bucket_tensors_def using rb that by (intro arg_cong [of _ _ concat] map_cong refl) (simp add: expected_request_def)
  have ne: "bs ! b \<noteq> []" if "b < length bs" for b
    using data_okD(2) [OF d] rb(1) [OF assms(6) that] that lb by (auto simp: layout_ok_def bucket_layout_def)
  have "\<forall>b<length (buckets ?s). g_allreduced (grp p) (length (pg_log ?s) + b) = map (\<lambda>r. res (b, r)) [0..<length (replicas ?s)] \<and>
      (\<forall>r<length (replicas ?s). length (res (b, r)) = sum_list (lens_at ?s b r))"
    using assms(5,6) tn rb(2) [OF assms(6)] parts(2) [of _ 0] ne by (simp add: rs lb res_def map_replicate_trivial)
  then obtain s1 s2 where s12: "for_each (backward_event lib (grp p)) (map (\<lambda>i. (i, G p i)) (is p)) (prepare_for_backward g outputs ?s) = (Inr (), s1)"
    "pg_log s1 = pg_log ?s @ map (expected_request lib D (G p) ?s) [0..<length bs]" "finalize_backward lib (grp p) s1 = (Inr (), s2)"
    "\<forall>i\<in>all_vars ?s. map_option (tensor_read (storages s2)) (map_of (grads s2) i) = Some (part_of res ?s i)"
    using iteration_gradients [OF assms(1) d, of "grp p" D "is p" "G p" res g outputs] rp lb by (auto simp: ready_process_def)
  have "part_of res ?s i = vsum (all_gradients lib D P G ?R (variable_index i))" if i: "i \<in> all_vars ?s" for i
  proof -
    obtain r v where iv: "i = var_at r v" "r < ?R" "v < length (variable_locators ?s)" using i rs by (auto simp: all_vars_def)
    obtain b j where bj: "variable_locators ?s ! v = \<lparr>bucket_index = b, intra_bucket_index = j\<rparr>" "b < length (buckets ?s)"
      "j < length (b_variable_indices (buckets ?s ! b))" "b_variable_indices (buckets ?s ! b) ! j = v"
      by (rule layout_at [OF data_okD(2) [OF d] iv(3)])
    have b: "b < length bs" using bj(2) lb by simp
    then show ?thesis using parts(1) [OF b, of j r] bj rb(1,2) [OF assms(6) b] iv by (simp add: part_of_def)
  qed
  then show ?thesis using s12 by auto
qed

definition pair_gradient :: "nat \<Rightarrow> VariableIndex \<Rightarrow> int list" where
  "pair_gradient p i = map (\<lambda>x. (int p + 1) * x) (small_gradient i)"

definition pair_group :: "int group" where
  "pair_group = two_groups\<lparr>g_allreduced := (\<lambda>w. if w = 0 then [[45]] else [[15, 30]])\<rparr>"

theorem ddp_gradients_agree_witness:
  "\<exists>s1 s2. for_each (backward_event int_lib pair_group) [(var_at 0 1, [60]), (var_at 0 0, [20, 40])] (prepare_for_backward [] [] small_reducer) = (Inr (), s1) \<and>
     finalize_backward int_lib pair_group s1 = (Inr (), s2) \<and>
     map_option (tensor_read (storages s2)) (map_of (grads s2) (var_at 0 0)) = Some [15, 30] \<and>
     map_option (tensor_read (storages s2)) (map_of (grads s2) (var_at 0 1)) = Some [45]"
proof -
  note d = small_reducer_data
  have bi: "map b_variable_indices (buckets small_reducer) = [[1], [0]]" and ll: "length (variable_locators small_reducer) = 2" by code_simp+
  have lb: "length (buckets small_reducer) = 2" using arg_cong [OF bi, of length] by simp
  have b: "b_variable_indices (buckets small_reducer ! 0) = [1]" "b_variable_indices (buckets small_reducer ! 1) = [0]"
    using arg_cong [OF bi, of "\<lambda>xs. xs ! 0"] arg_cong [OF bi, of "\<lambda>xs. xs ! 1"] lb by simp_all
  have nu: "var_numel (float_variable 2) = 2" "var_numel (float_variable 1) = 1" by code_simp+
  have cp: "copies int_lib" by (simp add: copies_def int_lib_def)
  have fa: "factor pair_group small_reducer = Some 2" by (simp add: factor_def d(4) pair_group_def two_groups_def)
  have av: "all_vars small_reducer = {var_at 0 0, var_at 0 1}" by (auto simp: all_vars_def d(5) ll less_Suc_eq numeral_2_eq_2)
  have rp: "\<forall>p<2. ready_process [[float_variable 2, float_variable 1]] [[1], [0]] 2 pair_group [var_at 0 1, var_at 0 0] (pair_gradient p) small_reducer"
    using d bi fa nu by (auto simp: ready_process_def av pair_gradient_def small_gradient_def)
  have sz: "\<forall>r<length [[float_variable 2, float_variable 1]]. \<forall>v<length ([[float_variable 2, float_variable 1]] ! r).
      var_numel ([[float_variable 2, float_variable 1]] ! r ! v) = [2, 1] ! v"
    using nu by (auto simp: less_Suc_eq)
  have gs: "\<forall>p<2. \<forall>k<length [[1 :: nat], [0]]. g_allreduced pair_group (length (pg_log small_reducer) + k) =
      replicate (length [[float_variable 2, float_variable 1]]) (vsum (concat (map (\<lambda>q. request_tensors (expected_request int_lib 2 (pair_gradient q) small_reducer k)) [0..<2])))"
    using b by (auto simp: less_Suc_eq d(3,5) pair_group_def two_groups_def expected_request_def flat_def pair_gradient_def small_gradient_def
        int_lib_def vsum_def numeral_2_eq_2)
  have "vsum (all_gradients int_lib 2 2 pair_gradient 1 0) = [15, 30]" "vsum (all_gradients int_lib 2 2 pair_gradient 1 1) = [45]"
    by code_simp+
  moreover have "map (\<lambda>i. (i, pair_gradient 1 i)) [var_at 0 1, var_at 0 0] = [(var_at 0 1, [60]), (var_at 0 0, [20, 40])]"
    by (simp add: pair_gradient_def small_gradient_def)
  ultimately show ?thesis
    using ddp_gradients_agree [OF cp _ rp sz gs, of 1 "[]" "[]"] by (auto simp: av)
qed

end
